(* ===== verification/Agm_Prelude.thy ===== *)
theory Agm_Prelude
  imports Main "HOL-Library.Char_ord" "HOL-Library.List_Lexorder"
begin

text \<open>
  Shared ground of the development.

  \<^item> Go strings are byte strings: \<^typ>\<open>string\<close> is a list of 8-bit characters, ordered
    bytewise as \<open>sort.Strings\<close> orders them.
  \<^item> \<open>any_value\<close> is the part of Go's \<open>any\<close> that the repository puts into error
    details and audit payloads.
  \<^item> Nullable SQL columns are \<open>option\<close> values; \<open>nullString\<close>, \<open>nullInt\<close> and
    \<open>coalesce\<close> are the conversions at the driver boundary.
  \<^item> SQL tables are lists of rows; \<open>update_where\<close>, \<open>delete_where\<close>, \<open>select_one\<close>
    and \<open>first_by\<close> are the statements the store issues against them.
  \<^item> The locales \<open>transition_table\<close> and \<open>ranked_table\<close> are the contract of a status
    vocabulary with a transition table; \<open>keyed_update\<close> is the contract of an
    \<open>UPDATE\<close> that keeps the primary key.
\<close>

named_theorems wire_simps \<open>closed vocabularies and their wire strings\<close>
named_theorems row_simps \<open>what a row update leaves alone\<close>

section \<open>Go values\<close>

type_synonym ms = int \<comment> \<open>milliseconds since the epoch\<close>

datatype any_value =
    AnyString string
  | AnyInt int
  | AnyBool bool
  | AnyStrings "string list"
  | AnyAccounts "(string \<times> string \<times> string) list"

type_synonym details = "string \<rightharpoonup> any_value"

text \<open>A missing row, as \<open>sql.ErrNoRows\<close> reports it, and the constraint failures SQLite
  raises on an \<open>INSERT\<close>.\<close>

datatype sql_error = ErrNoRows | UniqueViolation | ForeignKeyViolation

section \<open>Decimal rendering\<close>

text \<open>\<open>strconv.Itoa\<close> and the \<open>%d\<close> verb.\<close>

fun show_nat :: "nat \<Rightarrow> string" where
  "show_nat n =
     (if n < 10 then [char_of (48 + n)] else show_nat (n div 10) @ [char_of (48 + n mod 10)])"

declare show_nat.simps [simp del]

definition show_int :: "int \<Rightarrow> string" where
  "show_int i = (if i < 0 then CHR ''-'' # show_nat (nat (- i)) else show_nat (nat i))"

definition digit_value :: "char \<Rightarrow> nat" where
  "digit_value c = of_char c - 48"

definition read_nat :: "string \<Rightarrow> nat" where
  "read_nat ds = foldl (\<lambda>n c. 10 * n + digit_value c) 0 ds"

lemma digit_value_char [simp]: "d < 10 \<Longrightarrow> digit_value (char_of (48 + d)) = d"
  by (simp add: digit_value_def)

lemma read_show_nat [simp]: "read_nat (show_nat n) = n"
proof (induction n rule: show_nat.induct)
  case (1 n)
  show ?case
  proof (cases "n < 10")
    case True
    then show ?thesis by (subst show_nat.simps) (simp add: read_nat_def)
  next
    case False
    with "1.IH" have "read_nat (show_nat (n div 10)) = n div 10" by simp
    with False show ?thesis
      by (subst show_nat.simps) (simp add: read_nat_def)
  qed
qed

lemma show_nat_inject [simp]: "show_nat m = show_nat n \<longleftrightarrow> m = n"
  by (metis read_show_nat)

lemma show_nat_nonempty [simp]: "show_nat n \<noteq> []"
  by (subst show_nat.simps) simp

lemma show_nat_digits: "c \<in> set (show_nat n) \<Longrightarrow> of_char c \<in> {48..57::nat}"
proof (induction n rule: show_nat.induct)
  case (1 n)
  show ?case
  proof (cases "n < 10")
    case True
    with "1.prems" have "c = char_of (48 + n)"
      by (simp add: show_nat.simps [of n])
    with True show ?thesis by simp
  next
    case False
    then have split: "show_nat n = show_nat (n div 10) @ [char_of (48 + n mod 10)]"
      by (simp add: show_nat.simps [of n])
    show ?thesis
    proof (cases "c \<in> set (show_nat (n div 10))")
      case True
      with False "1.IH" show ?thesis by simp
    next
      case False
      with "1.prems" split have "c = char_of (48 + n mod 10)" by simp
      then show ?thesis by simp
    qed
  qed
qed

section \<open>Splitting strings\<close>

text \<open>\<open>strings.Split\<close> with a non-empty separator.\<close>

fun split_acc :: "string \<Rightarrow> string \<Rightarrow> string \<Rightarrow> string list" where
  "split_acc sep acc [] = [rev acc]"
| "split_acc sep acc (c # s) =
     (if take (length sep) (c # s) = sep \<and> sep \<noteq> []
      then rev acc # split_acc sep [] (drop (length sep - 1) s)
      else split_acc sep (c # acc) s)"

definition go_split :: "string \<Rightarrow> string \<Rightarrow> string list" where
  "go_split s sep = split_acc sep [] s"

section \<open>Nullable columns\<close>

definition nullString :: "string \<Rightarrow> string option" where
  "nullString s = (if s = [] then None else Some s)"

definition nullInt :: "int \<Rightarrow> int option" where
  "nullInt v = (if v = 0 then None else Some v)"

text \<open>\<open>sql.NullString.String\<close> and \<open>sql.NullInt64.Int64\<close> of a scanned column.\<close>

definition scanString :: "string option \<Rightarrow> string" where
  "scanString v = (case v of None \<Rightarrow> [] | Some s \<Rightarrow> s)"

definition scanInt :: "int option \<Rightarrow> int" where
  "scanInt v = (case v of None \<Rightarrow> 0 | Some i \<Rightarrow> i)"

text \<open>SQL's two-argument \<open>COALESCE\<close>.\<close>

definition coalesce :: "'a option \<Rightarrow> 'a option \<Rightarrow> 'a option" where
  "coalesce a b = (case a of None \<Rightarrow> b | Some _ \<Rightarrow> a)"

lemma coalesce_simps [simp]:
  "coalesce None b = b"
  "coalesce (Some x) b = Some x"
  by (simp_all add: coalesce_def)

lemma coalesce_None_iff [simp]: "coalesce a b = None \<longleftrightarrow> a = None \<and> b = None"
  by (cases a) auto

lemma coalesce_twice [simp]: "coalesce (coalesce a b) b = coalesce a b"
  by (cases a; cases b) auto

lemma scanString_nullString [simp]: "scanString (nullString s) = s"
  by (simp add: scanString_def nullString_def)

lemma scanInt_nullInt [simp]: "scanInt (nullInt v) = v"
  by (simp add: scanInt_def nullInt_def)

lemma scanString_simps [simp]: "scanString None = []" "scanString (Some s) = s"
  by (simp_all add: scanString_def)

lemma scanInt_simps [simp]: "scanInt None = 0" "scanInt (Some i) = i"
  by (simp_all add: scanInt_def)

lemma nullString_simps [simp]:
  "nullString [] = None"
  "nullString (c # s) = Some (c # s)"
  by (simp_all add: nullString_def)

lemma nullString_eq_None [simp]: "nullString s = None \<longleftrightarrow> s = []"
  by (simp add: nullString_def)

lemma nullString_eq_Some [simp]: "nullString s = Some t \<longleftrightarrow> s = t \<and> t \<noteq> []"
  by (auto simp: nullString_def)

section \<open>Tables as lists of rows\<close>

definition update_where :: "('r \<Rightarrow> bool) \<Rightarrow> ('r \<Rightarrow> 'r) \<Rightarrow> 'r list \<Rightarrow> 'r list" where
  "update_where P f rows = map (\<lambda>r. if P r then f r else r) rows"

definition delete_where :: "('r \<Rightarrow> bool) \<Rightarrow> 'r list \<Rightarrow> 'r list" where
  "delete_where P rows = filter (\<lambda>r. \<not> P r) rows"

text \<open>\<open>QueryRow\<close>: the first row the query yields, or \<open>sql.ErrNoRows\<close>.\<close>

definition select_one :: "('r \<Rightarrow> bool) \<Rightarrow> 'r list \<Rightarrow> 'r option" where
  "select_one P rows = find P rows"

text \<open>\<open>ORDER BY k LIMIT 1\<close>: the first row with the least key. The rows of equal key stay
  in table order, which is one of the orders SQL allows.\<close>

fun first_by :: "('r \<Rightarrow> 'k::linorder) \<Rightarrow> 'r list \<Rightarrow> 'r option" where
  "first_by k [] = None"
| "first_by k (r # rows) =
     (case first_by k rows of
        None \<Rightarrow> Some r
      | Some r' \<Rightarrow> if k r \<le> k r' then Some r else Some r')"

lemma length_update_where [simp]: "length (update_where P f rows) = length rows"
  by (simp add: update_where_def)

lemma update_where_Nil [simp]: "update_where P f [] = []"
  by (simp add: update_where_def)

lemma update_where_Cons [simp]:
  "update_where P f (r # rows) = (if P r then f r else r) # update_where P f rows"
  by (simp add: update_where_def)

lemma set_update_where: "set (update_where P f rows) = (\<lambda>r. if P r then f r else r) ` set rows"
  by (simp add: update_where_def)

lemma set_delete_where [simp]: "set (delete_where P rows) = {r \<in> set rows. \<not> P r}"
  by (auto simp: delete_where_def)

lemma delete_where_simps [simp]:
  "delete_where P [] = []"
  "delete_where P (r # rows) = (if P r then delete_where P rows else r # delete_where P rows)"
  by (simp_all add: delete_where_def)

lemma select_one_simps [simp]:
  "select_one P [] = None"
  "select_one P (r # rows) = (if P r then Some r else select_one P rows)"
  by (simp_all add: select_one_def)

lemma select_one_None_iff: "select_one P rows = None \<longleftrightarrow> (\<forall>r \<in> set rows. \<not> P r)"
  by (induction rows) auto

lemma select_one_SomeD: "select_one P rows = Some r \<Longrightarrow> r \<in> set rows \<and> P r"
  by (induction rows) (auto split: if_splits)

lemma select_one_append:
  "select_one P (xs @ ys) = (case select_one P xs of None \<Rightarrow> select_one P ys | Some r \<Rightarrow> Some r)"
  by (induction xs) auto

lemma first_by_None_iff [simp]: "first_by k rows = None \<longleftrightarrow> rows = []"
  by (cases rows) (auto split: option.splits if_splits)

lemma first_by_SomeD: "first_by k rows = Some r \<Longrightarrow> r \<in> set rows"
  by (induction rows arbitrary: r) (auto split: option.splits if_splits)

lemma first_by_least: "first_by k rows = Some r \<Longrightarrow> r' \<in> set rows \<Longrightarrow> k r \<le> k r'"
proof (induction rows arbitrary: r r')
  case Nil
  then show ?case by simp
next
  case (Cons a rows)
  show ?case
  proof (cases "first_by k rows")
    case None
    with Cons.prems show ?thesis by simp
  next
    case (Some b)
    with Cons.prems Cons.IH [OF Some] show ?thesis
      by (fastforce split: if_splits)
  qed
qed

subsection \<open>Primary keys\<close>

text \<open>A select by primary key against a table whose keys are distinct.\<close>

lemma select_key_unique:
  "distinct (map key rows) \<Longrightarrow> r \<in> set rows \<Longrightarrow> select_one (\<lambda>r'. key r' = key r) rows = Some r"
  by (induction rows) force+

locale keyed_update =
  fixes key :: "'r \<Rightarrow> 'k" and upd :: "'r \<Rightarrow> 'r"
  assumes key_upd [simp]: "key (upd r) = key r"
begin

lemma map_key_update [simp]: "map key (update_where P upd rows) = map key rows"
  by (induction rows) auto

lemma distinct_key_update:
  "distinct (map key rows) \<Longrightarrow> distinct (map key (update_where P upd rows))"
  by simp

lemma select_key_updated:
  "select_one (\<lambda>r. key r = i) (update_where P upd rows) =
     map_option (\<lambda>r. if P r then upd r else r) (select_one (\<lambda>r. key r = i) rows)"
  by (induction rows) auto

lemma select_key_other:
  "j \<noteq> i \<Longrightarrow> select_one (\<lambda>r. key r = j) (update_where (\<lambda>r. key r = i) upd rows)
     = select_one (\<lambda>r. key r = j) rows"
  by (induction rows) auto

lemma select_key_same:
  "select_one (\<lambda>r. key r = i) (update_where (\<lambda>r. key r = i) upd rows)
     = map_option upd (select_one (\<lambda>r. key r = i) rows)"
  by (induction rows) auto

end

section \<open>Status vocabularies and transition tables\<close>

text \<open>
  The repository guards two status columns the same way: a table says which moves are
  allowed, an allowed move is stored and a refused move leaves the stored status alone.
\<close>

definition attempt :: "('s \<Rightarrow> 's \<Rightarrow> bool) \<Rightarrow> 's \<Rightarrow> 's \<Rightarrow> 's" where
  "attempt allowed s t = (if allowed s t then t else s)"

definition attempts :: "('s \<Rightarrow> 's \<Rightarrow> bool) \<Rightarrow> 's \<Rightarrow> 's list \<Rightarrow> 's" where
  "attempts allowed s ts = foldl (attempt allowed) s ts"

lemma attempts_simps [simp]:
  "attempts allowed s [] = s"
  "attempts allowed s (t # ts) = attempts allowed (attempt allowed s t) ts"
  by (simp_all add: attempts_def)

lemma attempts_append: "attempts allowed s (ts @ us) = attempts allowed (attempts allowed s ts) us"
  by (simp add: attempts_def)

locale transition_table =
  fixes allowed :: "'s \<Rightarrow> 's \<Rightarrow> bool" and final :: "'s \<Rightarrow> bool"
  assumes stay [simp]: "allowed s s"
    and final_stuck: "final s \<Longrightarrow> allowed s t \<Longrightarrow> t = s"
begin

lemma final_forever: "final s \<Longrightarrow> attempts allowed s ts = s"
  by (induction ts) (auto simp: attempt_def dest: final_stuck)

lemma final_prefix:
  "final (attempts allowed s ts) \<Longrightarrow> attempts allowed s (ts @ us) = attempts allowed s ts"
  by (simp add: attempts_append final_forever)

end

locale ranked_table = transition_table allowed final
  for allowed :: "'s \<Rightarrow> 's \<Rightarrow> bool" and final :: "'s \<Rightarrow> bool" +
  fixes rank :: "'s \<Rightarrow> nat"
  assumes rank_up: "allowed s t \<Longrightarrow> t \<noteq> s \<Longrightarrow> rank s < rank t"
begin

lemma rank_attempt: "rank s \<le> rank (attempt allowed s t)"
  using rank_up [of s t] by (cases "t = s") (auto simp: attempt_def)

lemma rank_attempts: "rank s \<le> rank (attempts allowed s ts)"
proof (induction ts arbitrary: s)
  case Nil
  then show ?case by simp
next
  case (Cons t ts)
  have "rank s \<le> rank (attempt allowed s t)" by (rule rank_attempt)
  also have "\<dots> \<le> rank (attempts allowed (attempt allowed s t) ts)" by (rule Cons.IH)
  finally show ?case by simp
qed

text \<open>A status that was left is never entered again.\<close>

lemma never_back:
  assumes "allowed s t" and "t \<noteq> s"
  shows "attempts allowed t ts \<noteq> s"
  using rank_up [OF assms] rank_attempts [of t ts] by auto

end

end
