(* ===== verification/Delivery.thy ===== *)
theory Delivery
  imports Agm_Prelude
begin

text \<open>
  Delivery states of messages (\<open>internal/gm/delivery.go\<close> and the message vocabulary of
  \<open>internal/gm/types.go\<close>): the mapping from Google's raw status numbers to the closed
  vocabulary, the transition table for outgoing messages, and the statuses ingestion drops.
  Raw statuses are \<open>int32\<close> values that are only compared, so they are \<^typ>\<open>int\<close> here.
\<close>

section \<open>Vocabulary\<close>

datatype DeliveryState =
    DeliveryStateSending | DeliveryStateSent | DeliveryStateDelivered | DeliveryStateRead
  | DeliveryStateFailed | DeliveryStateCanceled | DeliveryStateDeleted | DeliveryStateReceived
  | DeliveryStateDownloading | DeliveryStateDownloadFailed | DeliveryStateUnknown

datatype MessageKind = MessageKindMessage | MessageKindSystem

datatype Direction = DirectionIncoming | DirectionOutgoing

abbreviation SystemEventStatusMin :: int where "SystemEventStatusMin \<equiv> 200"
abbreviation SystemEventStatusMax :: int where "SystemEventStatusMax \<equiv> 279"

definition deliveryStates :: "(int \<times> DeliveryState) list" where
  "deliveryStates =
    [(0, DeliveryStateUnknown),
     (3, DeliveryStateSending), (4, DeliveryStateSending), (5, DeliveryStateSending),
     (6, DeliveryStateSending), (7, DeliveryStateSending), (10, DeliveryStateSending),
     (16, DeliveryStateSending), (20, DeliveryStateSending),
     (1, DeliveryStateSent), (14, DeliveryStateSent),
     (2, DeliveryStateDelivered), (11, DeliveryStateRead),
     (8, DeliveryStateFailed), (9, DeliveryStateFailed), (13, DeliveryStateFailed),
     (17, DeliveryStateFailed), (18, DeliveryStateFailed), (19, DeliveryStateFailed),
     (21, DeliveryStateFailed), (22, DeliveryStateFailed), (24, DeliveryStateFailed),
     (25, DeliveryStateFailed), (26, DeliveryStateFailed), (27, DeliveryStateFailed),
     (12, DeliveryStateCanceled), (15, DeliveryStateCanceled),
     (23, DeliveryStateDeleted), (117, DeliveryStateDeleted), (300, DeliveryStateDeleted),
     (100, DeliveryStateReceived), (108, DeliveryStateReceived), (109, DeliveryStateReceived),
     (116, DeliveryStateReceived),
     (101, DeliveryStateDownloading), (102, DeliveryStateDownloading),
     (103, DeliveryStateDownloading), (104, DeliveryStateDownloading),
     (105, DeliveryStateDownloading), (115, DeliveryStateDownloading),
     (106, DeliveryStateDownloadFailed), (107, DeliveryStateDownloadFailed),
     (110, DeliveryStateDownloadFailed), (111, DeliveryStateDownloadFailed),
     (112, DeliveryStateDownloadFailed), (113, DeliveryStateDownloadFailed),
     (114, DeliveryStateDownloadFailed), (118, DeliveryStateDownloadFailed)]"

definition IsSystemEventStatus :: "int \<Rightarrow> bool" where
  "IsSystemEventStatus raw \<longleftrightarrow> SystemEventStatusMin \<le> raw \<and> raw \<le> SystemEventStatusMax"

definition KindForStatus :: "int \<Rightarrow> MessageKind" where
  "KindForStatus raw = (if IsSystemEventStatus raw then MessageKindSystem else MessageKindMessage)"

definition DeliveryStateFor :: "int \<Rightarrow> DeliveryState \<times> bool" where
  "DeliveryStateFor raw =
     (if IsSystemEventStatus raw then (DeliveryStateReceived, True)
      else case map_of deliveryStates raw of
             None \<Rightarrow> (DeliveryStateUnknown, False)
           | Some st \<Rightarrow> (st, True))"

definition MappedStatusValues :: "int list" where
  "MappedStatusValues = map fst deliveryStates"

text \<open>\<open>Message.Direction\<close> reads the raw status band.\<close>

definition MessageDirection :: "int \<Rightarrow> Direction" where
  "MessageDirection statusRaw =
     (if 100 \<le> statusRaw \<and> statusRaw \<le> 118 then DirectionIncoming else DirectionOutgoing)"

section \<open>The transition table\<close>

fun deliveryRank :: "DeliveryState \<Rightarrow> nat option" where
  "deliveryRank DeliveryStateSending = Some 1"
| "deliveryRank DeliveryStateSent = Some 2"
| "deliveryRank DeliveryStateDelivered = Some 3"
| "deliveryRank DeliveryStateRead = Some 4"
| "deliveryRank _ = None"

definition TransitionAllowed :: "DeliveryState \<Rightarrow> DeliveryState \<Rightarrow> bool" where
  "TransitionAllowed from to =
    (if from = to then True
     else if to = DeliveryStateDeleted then True
     else if from = DeliveryStateUnknown then True
     else if from = DeliveryStateDeleted then False
     else case to of
         DeliveryStateFailed \<Rightarrow> from = DeliveryStateSending \<or> from = DeliveryStateSent
       | DeliveryStateCanceled \<Rightarrow> from = DeliveryStateSending
       | _ \<Rightarrow>
         (if to \<in> {DeliveryStateSending, DeliveryStateSent, DeliveryStateDelivered, DeliveryStateRead}
          then (case (deliveryRank from, deliveryRank to) of
                  (Some fr, Some tr) \<Rightarrow> fr < tr
                | _ \<Rightarrow> False)
          else False))"

definition IsOutgoingLadderState :: "DeliveryState \<Rightarrow> bool" where
  "IsOutgoingLadderState s \<longleftrightarrow>
     s \<in> {DeliveryStateSending, DeliveryStateSent, DeliveryStateDelivered, DeliveryStateRead,
          DeliveryStateFailed, DeliveryStateCanceled, DeliveryStateDeleted, DeliveryStateUnknown}"

section \<open>Statuses ingestion drops\<close>

definition ignoreInDM :: "int list" where
  "ignoreInDM = [214, 215, 216, 219, 206, 207, 213, 235, 236, 237, 238]"

definition ignoreAlways :: "int list" where
  "ignoreAlways = [229, 234, 233, 203, 204, 205, 245, 210, 259]"

definition ShouldIgnoreStatus :: "int \<Rightarrow> bool \<Rightarrow> bool" where
  "ShouldIgnoreStatus raw isDM =
     (if raw \<in> set ignoreAlways then True
      else if raw \<in> set ignoreInDM then isDM
      else False)"

definition IgnoredStatuses :: "int list \<times> int list" where
  "IgnoredStatuses = (ignoreInDM, ignoreAlways)"

section \<open>The documented table, as a relation\<close>

text \<open>
  The moves the code's comment lists: the ladder sending, sent, delivered, read with forward
  skips; failed from sending or sent; canceled from sending; deleted from anything; anything
  from unknown.
\<close>

inductive delivery_move :: "DeliveryState \<Rightarrow> DeliveryState \<Rightarrow> bool" where
  same: "delivery_move s s"
| forward: "deliveryRank s = Some i \<Longrightarrow> deliveryRank t = Some j \<Longrightarrow> i < j \<Longrightarrow> delivery_move s t"
| failed: "s \<in> {DeliveryStateSending, DeliveryStateSent} \<Longrightarrow> delivery_move s DeliveryStateFailed"
| canceled: "delivery_move DeliveryStateSending DeliveryStateCanceled"
| deleted: "delivery_move s DeliveryStateDeleted"
| corrected: "delivery_move DeliveryStateUnknown t"

inductive_simps delivery_move_iff: "delivery_move s t"

lemma TransitionAllowed_iff_move: "TransitionAllowed s t \<longleftrightarrow> delivery_move s t"
  unfolding delivery_move_iff
  by (cases s; cases t) (auto simp: TransitionAllowed_def)

definition delivery_rank :: "DeliveryState \<Rightarrow> nat" where
  "delivery_rank s =
     (case s of DeliveryStateUnknown \<Rightarrow> 0 | DeliveryStateDeleted \<Rightarrow> 6
      | _ \<Rightarrow> (case deliveryRank s of Some r \<Rightarrow> r | None \<Rightarrow> 5))"

interpretation delivery: ranked_table TransitionAllowed "\<lambda>s. s = DeliveryStateDeleted" delivery_rank
proof unfold_locales
  show "TransitionAllowed s s" for s
    by (simp add: TransitionAllowed_def)
  show "t = s" if "s = DeliveryStateDeleted" "TransitionAllowed s t" for s t
    using that by (cases t) (auto simp: TransitionAllowed_def)
  show "delivery_rank s < delivery_rank t" if "TransitionAllowed s t" "t \<noteq> s" for s t
    using that by (cases s; cases t) (simp_all add: TransitionAllowed_def delivery_rank_def)
qed

section \<open>Properties\<close>

text \<open>The transition function computes exactly the documented table: a move is allowed
  when it stays, climbs the ladder sending, sent, delivered, read (skips included), fails from
  sending or sent, cancels from sending, deletes, or leaves unknown; every other move is
  refused.\<close>

theorem transition_table_exact: "TransitionAllowed from to \<longleftrightarrow> delivery_move from to"
  by (rule TransitionAllowed_iff_move)

text \<open>Whatever sequence of states Google reports afterwards, a delivery state that was
  left is never stored again, and a deleted message stays deleted. The reports are arbitrary:
  refused moves leave the stored state alone.\<close>

theorem delivery_state_never_returns:
  assumes "TransitionAllowed from to" and "to \<noteq> from"
  shows "attempts TransitionAllowed to reports \<noteq> from
    \<and> attempts TransitionAllowed DeliveryStateDeleted reports = DeliveryStateDeleted"
  using delivery.never_back [OF assms] delivery.final_forever by simp

theorem delivery_state_never_returns_witness:
  "TransitionAllowed DeliveryStateSent DeliveryStateRead
   \<and> attempts TransitionAllowed DeliveryStateRead
       [DeliveryStateSent, DeliveryStateFailed, DeliveryStateDelivered] \<noteq> DeliveryStateSent"
proof -
  have allowed: "TransitionAllowed DeliveryStateSent DeliveryStateRead"
    by (simp add: TransitionAllowed_def)
  then show ?thesis
    using delivery_state_never_returns [OF allowed, of
        "[DeliveryStateSent, DeliveryStateFailed, DeliveryStateDelivered]"]
    by simp
qed

lemma map_of_deliveryStates_dom:
  "map_of deliveryStates raw \<noteq> None \<longleftrightarrow> raw \<in> {0..27} \<union> {100..118} \<union> {300}"
proof -
  have "map_of deliveryStates raw \<noteq> None \<longleftrightarrow> raw \<in> set (map fst deliveryStates)"
    by (simp add: map_of_eq_None_iff)
  also have "set (map fst deliveryStates) = {0..27} \<union> {100..118} \<union> {300}"
    by (simp add: deliveryStates_def atLeastAtMost_insertL [symmetric] simp_from_to) auto
  finally show ?thesis .
qed

lemma map_of_deliveryStates_Unknown:
  "map_of deliveryStates raw = Some DeliveryStateUnknown \<longleftrightarrow> raw = 0"
  by (auto simp: deliveryStates_def dest!: map_of_SomeD)

text \<open>The raw-status mapping is total on the statuses declared at the pin and on nothing
  else: 0 to 27, 100 to 118, the system band 200 to 279, and 300. Any other number, and of the
  declared ones only 0, reads as unknown.\<close>

theorem DeliveryStateFor_mapped_iff:
  "(snd (DeliveryStateFor raw) \<longleftrightarrow> raw \<in> {0..27} \<union> {100..118} \<union> {200..279} \<union> {300})
   \<and> (fst (DeliveryStateFor raw) \<noteq> DeliveryStateUnknown \<longleftrightarrow>
        raw \<noteq> 0 \<and> snd (DeliveryStateFor raw))"
proof (cases "IsSystemEventStatus raw")
  case True
  then show ?thesis
    by (auto simp: DeliveryStateFor_def IsSystemEventStatus_def)
next
  case False
  then have band: "raw \<notin> {200..279}"
    by (simp add: IsSystemEventStatus_def)
  show ?thesis
  proof (cases "map_of deliveryStates raw")
    case None
    with False band map_of_deliveryStates_dom [of raw] show ?thesis
      by (simp add: DeliveryStateFor_def)
  next
    case (Some st)
    with False band map_of_deliveryStates_dom [of raw] map_of_deliveryStates_Unknown [of raw]
    show ?thesis by (auto simp: DeliveryStateFor_def)
  qed
qed

text \<open>Ingestion drops system events only. No raw status of an ordinary message, outgoing or
  incoming, is ever ignored, and a status ignored in a group is ignored in a direct
  conversation as well.\<close>

theorem ignored_statuses_are_system_events:
  "(ShouldIgnoreStatus raw isDM \<longrightarrow> KindForStatus raw = MessageKindSystem)
   \<and> (ShouldIgnoreStatus raw False \<longrightarrow> ShouldIgnoreStatus raw True)"
  by (auto simp: ShouldIgnoreStatus_def KindForStatus_def IsSystemEventStatus_def
      ignoreAlways_def ignoreInDM_def)

theorem ignored_statuses_are_system_events_witness:
  "ShouldIgnoreStatus 214 True \<and> KindForStatus 214 = MessageKindSystem
   \<and> \<not> ShouldIgnoreStatus 214 False
   \<and> ShouldIgnoreStatus 229 False \<and> ShouldIgnoreStatus 229 True"
proof -
  have a: "ShouldIgnoreStatus 214 True" "\<not> ShouldIgnoreStatus 214 False"
    and b: "ShouldIgnoreStatus 229 False"
    by (simp_all add: ShouldIgnoreStatus_def ignoreAlways_def ignoreInDM_def)
  show ?thesis
    using a b ignored_statuses_are_system_events [of 214 True]
      ignored_statuses_are_system_events [of 229 False] by simp
qed

end
