(* ===== verification/Go_Errors.thy ===== *)
theory Go_Errors
  imports Agm_Prelude
begin

text \<open>
  Go error values as the repository builds and inspects them.

  A \<open>go_error\<close> is a tree: the sentinels of \<open>internal/gm/errors.go\<close>, its \<open>RequestError\<close>
  and \<open>HTTPError\<close> structs, the classified \<open>*gm.Error\<close> and \<open>*apierr.Error\<close> values with
  the error each wraps (field \<open>Err\<close>), \<open>fmt.Errorf\<close> values with the errors of their
  \<open>%w\<close> verbs in order, and any other error, known by its text only. \<open>errors.Is\<close> and
  \<open>errors.As\<close> walk this tree in the library's order: the value itself first, then the
  wrapped errors from left to right.

  Messages are kept as the fragments the format string consists of, with the arguments of
  \<open>%s\<close>, \<open>%q\<close>, \<open>%d\<close> and \<open>%v\<close> unrendered.
\<close>

section \<open>Messages\<close>

datatype fragment = Lit string | FmtS string | FmtQ string | FmtD int | FmtV any_value

type_synonym message = "fragment list"

abbreviation msg :: "string \<Rightarrow> message" where "msg s \<equiv> [Lit s]"

section \<open>Error values\<close>

datatype sentinel =
    ErrPhoneNotResponding | ErrConnectionClosed | ErrInvalidCredentials
  | ErrRequestedEntityNotFound | ErrCallerNoPermission | ErrNoCookies | ErrNoDevicesFound
  | ErrIncorrectEmoji | ErrPairingCancelled | ErrPairingTimeout | ErrPairingInitTimeout
  | ErrHadMultipleDevices | ErrWrongAccount | ErrNoAccountAddress

type_synonym Code = string

text \<open>The fields of \<open>gm.Error\<close> but \<open>Err\<close>.\<close>

record gm_error =
  gmCode :: Code
  gmHTTPStatus :: int
  gmMessage :: message
  gmReason :: string
  gmSignsOutAccount :: bool
  gmRetryable :: bool
  gmKeepsOperationPending :: bool
  gmDetails :: "details option"
  gmGoogleStatusRaw :: int

text \<open>The fields of \<open>apierr.Error\<close> but \<open>Err\<close>; the duration is in nanoseconds.\<close>

record api_error =
  apiCode :: Code
  apiMessage :: message
  apiDetails :: "details option"
  apiRetryAfter :: int
  apiHTTPStatusOverride :: int
  apiRetryableFlag :: bool

datatype go_error =
    Sentinel sentinel
  | RequestError int string
  | HTTPError string int
  | GmError gm_error "go_error option"
  | ApiError api_error "go_error option"
  | Wrapped string "go_error list"
  | Opaque string

section \<open>errors.Is and errors.As\<close>

fun first_some :: "'a option list \<Rightarrow> 'a option" where
  "first_some [] = None"
| "first_some (None # xs) = first_some xs"
| "first_some (Some x # xs) = Some x"

lemma first_some_None_iff: "first_some xs = None \<longleftrightarrow> (\<forall>x \<in> set xs. x = None)"
  by (induction xs rule: first_some.induct) auto

lemma first_some_SomeD: "first_some xs = Some x \<Longrightarrow> Some x \<in> set xs"
  by (induction xs rule: first_some.induct) auto

text \<open>\<open>errors.Is(err, sentinel)\<close>. The \<open>Is\<close> methods of the two classified error types
  answer false for a sentinel, so only identity and unwrapping count.\<close>

fun errors_Is :: "go_error \<Rightarrow> sentinel \<Rightarrow> bool" where
  "errors_Is (Sentinel s) t = (s = t)"
| "errors_Is (GmError g (Some e)) t = errors_Is e t"
| "errors_Is (ApiError a (Some e)) t = errors_Is e t"
| "errors_Is (Wrapped m es) t = list_ex (\<lambda>e. errors_Is e t) es"
| "errors_Is _ t = False"

fun as_gm_error :: "go_error \<Rightarrow> (gm_error \<times> go_error option) option" where
  "as_gm_error (GmError g e) = Some (g, e)"
| "as_gm_error (ApiError a (Some e)) = as_gm_error e"
| "as_gm_error (Wrapped m es) = first_some (map as_gm_error es)"
| "as_gm_error _ = None"

fun as_api_error :: "go_error \<Rightarrow> (api_error \<times> go_error option) option" where
  "as_api_error (ApiError a e) = Some (a, e)"
| "as_api_error (GmError g (Some e)) = as_api_error e"
| "as_api_error (Wrapped m es) = first_some (map as_api_error es)"
| "as_api_error _ = None"

fun as_request_error :: "go_error \<Rightarrow> (int \<times> string) option" where
  "as_request_error (RequestError ty m) = Some (ty, m)"
| "as_request_error (GmError g (Some e)) = as_request_error e"
| "as_request_error (ApiError a (Some e)) = as_request_error e"
| "as_request_error (Wrapped m es) = first_some (map as_request_error es)"
| "as_request_error _ = None"

fun as_http_error :: "go_error \<Rightarrow> (string \<times> int) option" where
  "as_http_error (HTTPError act st) = Some (act, st)"
| "as_http_error (GmError g (Some e)) = as_http_error e"
| "as_http_error (ApiError a (Some e)) = as_http_error e"
| "as_http_error (Wrapped m es) = first_some (map as_http_error es)"
| "as_http_error _ = None"

end
