(* ===== verification/Gm_Errors.thy ===== *)
theory Gm_Errors
  imports Go_Errors
begin

text \<open>
  The library boundary's error classification (\<open>internal/gm/errors.go\<close>): every error of the
  Google Messages library becomes one \<open>*gm.Error\<close> with the code and HTTP status of the API,
  the flag that keeps an operation pending and the flag that signs an account out.
  A returned \<open>*gm.Error\<close> is the pair of its fields and the error it wraps.
\<close>

type_synonym gm_err = "gm_error \<times> go_error option"

section \<open>Codes\<close>

abbreviation GmPhoneNotResponding :: Code where "GmPhoneNotResponding \<equiv> ''phone_not_responding''"
abbreviation GmDisconnected :: Code where "GmDisconnected \<equiv> ''disconnected''"
abbreviation GmUnsupportedCapability :: Code where "GmUnsupportedCapability \<equiv> ''unsupported_capability''"
abbreviation GmGooglePermissionDenied :: Code where "GmGooglePermissionDenied \<equiv> ''google_permission_denied''"
abbreviation GmGoogleError :: Code where "GmGoogleError \<equiv> ''google_error''"
abbreviation GmGoogleHTTPError :: Code where "GmGoogleHTTPError \<equiv> ''google_http_error''"
abbreviation GmGoogleUndocumentedState :: Code where "GmGoogleUndocumentedState \<equiv> ''google_undocumented_status''"
abbreviation GmNotDefaultSMSApp :: Code where "GmNotDefaultSMSApp \<equiv> ''not_default_sms_app''"
abbreviation GmPairingNoCookies :: Code where "GmPairingNoCookies \<equiv> ''pairing_no_cookies''"
abbreviation GmPairingNoDevices :: Code where "GmPairingNoDevices \<equiv> ''pairing_no_devices''"
abbreviation GmPairingWrongEmoji :: Code where "GmPairingWrongEmoji \<equiv> ''pairing_wrong_emoji''"
abbreviation GmPairingCancelled :: Code where "GmPairingCancelled \<equiv> ''pairing_cancelled''"
abbreviation GmPairingTimeout :: Code where "GmPairingTimeout \<equiv> ''pairing_timeout''"
abbreviation GmPairingInitTimeout :: Code where "GmPairingInitTimeout \<equiv> ''pairing_init_timeout''"
abbreviation GmPairingNoAccount :: Code where "GmPairingNoAccount \<equiv> ''pairing_no_account''"
abbreviation GmPairingWrongAccount :: Code where "GmPairingWrongAccount \<equiv> ''pairing_wrong_account''"
abbreviation GmInternalError :: Code where "GmInternalError \<equiv> ''internal_error''"

abbreviation GmReasonNotSignedIn :: string where "GmReasonNotSignedIn \<equiv> ''not_signed_in''"

definition gm_codes :: "Code list" where
  "gm_codes =
    [GmPhoneNotResponding, GmDisconnected, GmUnsupportedCapability, GmGooglePermissionDenied,
     GmGoogleError, GmGoogleHTTPError, GmGoogleUndocumentedState, GmNotDefaultSMSApp,
     GmPairingNoCookies, GmPairingNoDevices, GmPairingWrongEmoji, GmPairingCancelled,
     GmPairingTimeout, GmPairingInitTimeout, GmPairingNoAccount, GmPairingWrongAccount,
     GmInternalError]"

section \<open>Constructors\<close>

definition gm_newError :: "Code \<Rightarrow> int \<Rightarrow> message \<Rightarrow> gm_error" where
  "gm_newError code status m =
     \<lparr>gmCode = code, gmHTTPStatus = status, gmMessage = m, gmReason = [],
      gmSignsOutAccount = False, gmRetryable = False, gmKeepsOperationPending = False,
      gmDetails = None, gmGoogleStatusRaw = 0\<rparr>"

definition notSignedIn :: "message \<Rightarrow> gm_error" where
  "notSignedIn m =
     (gm_newError GmUnsupportedCapability 409 m)
       \<lparr>gmReason := GmReasonNotSignedIn, gmSignsOutAccount := True\<rparr>"

definition gm_Is :: "gm_error \<Rightarrow> go_error \<Rightarrow> bool" where
  "gm_Is e target =
     (case as_gm_error target of None \<Rightarrow> False | Some (other, _) \<Rightarrow> gmCode other = gmCode e)"

section \<open>Classification\<close>

definition IsFatalListenError :: "go_error option \<Rightarrow> bool" where
  "IsFatalListenError err =
     (case err of
        None \<Rightarrow> False
      | Some e \<Rightarrow>
          if errors_Is e ErrInvalidCredentials then True
          else (case as_http_error e of
                  Some (_, status) \<Rightarrow> status = 401 \<or> status = 403
                | None \<Rightarrow> False))"

text \<open>The sentence each sentinel is reported with; no decision reads it.\<close>

fun classified_text :: "sentinel \<Rightarrow> message" where
  "classified_text ErrPhoneNotResponding =
     msg ''the phone did not answer within 60s; the server accepted the request and the phone may still deliver it, so the operation stays pending -- do not resend''"
| "classified_text ErrConnectionClosed =
     msg ''the connection to Google closed while the request was in flight''"
| "classified_text ErrInvalidCredentials =
     msg ''this account's Google credentials are no longer valid; refresh its cookies with `agm pair --refresh-cookies --account <id>`''"
| "classified_text ErrRequestedEntityNotFound =
     msg ''the phone no longer knows this pairing; pair this account again''"
| "classified_text ErrCallerNoPermission =
     msg ''Google refused the request: the caller does not have permission''"
| "classified_text ErrNoCookies =
     msg ''Google-account pairing needs all seven session cookies, and at least one is missing; details.missing_cookies names them, and OSID in particular is host-scoped to messages.google.com''"
| "classified_text ErrNoDevicesFound =
     msg ''this Google account has no phone that can be paired''"
| "classified_text ErrIncorrectEmoji =
     msg ''the emoji tapped on the phone did not match the one shown''"
| "classified_text ErrPairingCancelled =
     msg ''pairing was dismissed on the phone''"
| "classified_text ErrPairingTimeout =
     msg ''the pairing expired before it was confirmed on the phone''"
| "classified_text ErrPairingInitTimeout =
     msg ''the pairing handshake with Google timed out; try again''"
| "classified_text ErrWrongAccount =
     msg ''those cookies belong to a different Google account; nothing was changed''"
| "classified_text ErrNoAccountAddress =
     msg ''Google did not return an account address for this pairing; no account was created''"
| "classified_text ErrHadMultipleDevices = []"

declare classified_text.simps [simp del]

definition classify_sentinel :: "go_error \<Rightarrow> gm_error option" where
  "classify_sentinel err =
    (if errors_Is err ErrPhoneNotResponding then
       Some ((gm_newError GmPhoneNotResponding 504
          (classified_text ErrPhoneNotResponding))
          \<lparr>gmRetryable := True, gmKeepsOperationPending := True\<rparr>)
     else if errors_Is err ErrConnectionClosed then
       Some ((gm_newError GmDisconnected 503
          (classified_text ErrConnectionClosed))
          \<lparr>gmRetryable := True\<rparr>)
     else if errors_Is err ErrInvalidCredentials then
       Some (notSignedIn (classified_text ErrInvalidCredentials))
     else if errors_Is err ErrRequestedEntityNotFound then
       Some (notSignedIn (classified_text ErrRequestedEntityNotFound))
     else if errors_Is err ErrCallerNoPermission then
       Some (gm_newError GmGooglePermissionDenied 502
          (classified_text ErrCallerNoPermission))
     else if errors_Is err ErrNoCookies then
       Some (gm_newError GmPairingNoCookies 409
          (classified_text ErrNoCookies))
     else if errors_Is err ErrNoDevicesFound then
       Some (gm_newError GmPairingNoDevices 409
          (classified_text ErrNoDevicesFound))
     else if errors_Is err ErrIncorrectEmoji then
       Some (gm_newError GmPairingWrongEmoji 409
          (classified_text ErrIncorrectEmoji))
     else if errors_Is err ErrPairingCancelled then
       Some (gm_newError GmPairingCancelled 409 (classified_text ErrPairingCancelled))
     else if errors_Is err ErrPairingTimeout then
       Some (gm_newError GmPairingTimeout 409
          (classified_text ErrPairingTimeout))
     else if errors_Is err ErrPairingInitTimeout then
       Some ((gm_newError GmPairingInitTimeout 409
          (classified_text ErrPairingInitTimeout))
          \<lparr>gmRetryable := True,
           gmDetails := (if errors_Is err ErrHadMultipleDevices
                         then Some [''multiple_devices'' \<mapsto> AnyBool True] else None)\<rparr>)
     else if errors_Is err ErrWrongAccount then
       Some (gm_newError GmPairingWrongAccount 409
          (classified_text ErrWrongAccount))
     else if errors_Is err ErrNoAccountAddress then
       Some (gm_newError GmPairingNoAccount 409
          (classified_text ErrNoAccountAddress))
     else None)"

definition Classify :: "go_error option \<Rightarrow> gm_err option" where
  "Classify err =
    (case err of
       None \<Rightarrow> None
     | Some e \<Rightarrow>
        (case as_gm_error e of
           Some already \<Rightarrow> Some already
         | None \<Rightarrow>
            (case classify_sentinel e of
               Some g \<Rightarrow> Some (g, Some e)
             | None \<Rightarrow>
                (case as_request_error e of
                   Some (ty, m) \<Rightarrow>
                     Some ((gm_newError GmGoogleError 502
                              (msg ''Google returned an error for this request''))
                             \<lparr>gmDetails := Some [''google_type'' \<mapsto> AnyInt ty,
                                                 ''google_message'' \<mapsto> AnyString m]\<rparr>, Some e)
                 | None \<Rightarrow>
                    (case as_http_error e of
                       Some (action, status) \<Rightarrow>
                         Some ((gm_newError GmGoogleHTTPError 502
                                  (msg ''the request to Google failed at the transport level''))
                                 \<lparr>gmDetails := Some [''status'' \<mapsto> AnyInt status,
                                                     ''action'' \<mapsto> AnyString action],
                                  gmRetryable := True\<rparr>, Some e)
                     | None \<Rightarrow>
                         Some (gm_newError GmInternalError 500 (msg ''unclassified failure''),
                               Some e))))))"

section \<open>Statuses of sends and conversation resolution\<close>

definition SendStatus_IsTransient :: "int \<Rightarrow> bool" where
  "SendStatus_IsTransient s \<longleftrightarrow> s = 2 \<or> s = 3"

definition SendStatus_String :: "int \<Rightarrow> string" where
  "SendStatus_String s =
     (if s = 0 then ''UNKNOWN'' else if s = 1 then ''SUCCESS''
      else if s = 2 then ''FAILURE_2'' else if s = 3 then ''FAILURE_3''
      else if s = 4 then ''FAILURE_4''
      else ''UNRECOGNISED('' @ show_int s @ '')'')"

definition UndocumentedResolveStatus :: "int \<Rightarrow> gm_error" where
  "UndocumentedResolveStatus status =
     (gm_newError GmGoogleUndocumentedState 502
        (msg ''Google answered with a conversation status this version of the protocol has no name for''))
       \<lparr>gmDetails := Some [''status'' \<mapsto> AnyInt status]\<rparr>"

definition ResolveCreateRCSTwice :: gm_error where
  "ResolveCreateRCSTwice =
     (gm_newError GmGoogleError 502
        (msg ''Google asked twice for an RCS group to be created; the retry it asks for has already been made''))
       \<lparr>gmDetails := Some [''google_type'' \<mapsto> AnyInt 3,
                           ''google_message'' \<mapsto> AnyString ''CREATE_RCS'']\<rparr>"

definition gm_NotDefaultSMSApp :: gm_error where
  "gm_NotDefaultSMSApp =
     (gm_newError GmNotDefaultSMSApp 502 (msg ''Google Messages is not your default SMS app''))
       \<lparr>gmGoogleStatusRaw := 4\<rparr>"

definition SendFailure :: "int \<Rightarrow> gm_error" where
  "SendFailure status =
     (if status = 4 then gm_NotDefaultSMSApp
      else (gm_newError GmGoogleError 502
              [Lit ''Google Messages on the phone rejected the message ('',
               FmtS (SendStatus_String status), Lit '')''])
             \<lparr>gmDetails := Some [''google_type'' \<mapsto> AnyInt status,
                                 ''google_message'' \<mapsto> AnyString (SendStatus_String status)],
              gmGoogleStatusRaw := status,
              gmRetryable := SendStatus_IsTransient status\<rparr>)"

record ConfigVersion =
  cvYear :: int
  cvMonth :: int
  cvDay :: int
  cvV1 :: int
  cvV2 :: int

definition SameDate :: "ConfigVersion \<Rightarrow> ConfigVersion \<Rightarrow> bool" where
  "SameDate c other \<longleftrightarrow> cvYear c = cvYear other \<and> cvMonth c = cvMonth other \<and> cvDay c = cvDay other"

definition ConfigVersion_String :: "ConfigVersion \<Rightarrow> string" where
  "ConfigVersion_String c =
     show_int (cvYear c) @ ''.'' @ show_int (cvMonth c) @ ''.'' @ show_int (cvDay c) @ ''.'' @
     show_int (cvV1 c) @ ''.'' @ show_int (cvV2 c)"

definition WithConfigVersionContext ::
  "gm_err option \<Rightarrow> ConfigVersion \<Rightarrow> ConfigVersion \<Rightarrow> gm_err option" where
  "WithConfigVersionContext e compiled live =
    (case e of
       None \<Rightarrow> None
     | Some (g, inner) \<Rightarrow>
         Some (g\<lparr>gmDetails :=
                   Some ((case gmDetails g of None \<Rightarrow> Map.empty | Some d \<Rightarrow> d)
                     (''config_version_compiled'' \<mapsto> AnyString (ConfigVersion_String compiled),
                      ''config_version_live'' \<mapsto> AnyString (ConfigVersion_String live))),
                 gmMessage := gmMessage g @
                   [Lit ''. Google Messages for web '', FmtS (ConfigVersion_String compiled),
                    Lit '' is compiled in and Google is serving '',
                    FmtS (ConfigVersion_String live),
                    Lit ''; if this keeps happening, bumping the pinned mautrix-gmessages commit is worth trying, but the status above is what actually failed'']\<rparr>,
               inner))"

section \<open>What classification guarantees\<close>

lemma classify_sentinel_cases:
  assumes "classify_sentinel err = Some g"
  obtains (pending) "errors_Is err ErrPhoneNotResponding" "gmCode g = GmPhoneNotResponding"
      "gmHTTPStatus g = 504" "gmKeepsOperationPending g" "gmRetryable g"
      "\<not> gmSignsOutAccount g" "gmReason g = []"
  | (signed_out) "gmCode g = GmUnsupportedCapability" "gmHTTPStatus g = 409"
      "\<not> gmKeepsOperationPending g" "\<not> gmRetryable g" "gmSignsOutAccount g"
      "gmReason g = GmReasonNotSignedIn"
      "errors_Is err ErrInvalidCredentials \<or> errors_Is err ErrRequestedEntityNotFound"
  | (other) "\<not> errors_Is err ErrPhoneNotResponding"
      "(gmCode g, gmHTTPStatus g, gmRetryable g) \<in>
         {(GmDisconnected, 503, True), (GmGooglePermissionDenied, 502, False),
          (GmPairingNoCookies, 409, False), (GmPairingNoDevices, 409, False),
          (GmPairingWrongEmoji, 409, False), (GmPairingCancelled, 409, False),
          (GmPairingTimeout, 409, False), (GmPairingInitTimeout, 409, True),
          (GmPairingWrongAccount, 409, False), (GmPairingNoAccount, 409, False)}"
      "\<not> gmKeepsOperationPending g" "\<not> gmSignsOutAccount g" "gmReason g = []"
  using assms
  by (simp add: classify_sentinel_def gm_newError_def notSignedIn_def split: if_split_asm)
     (auto intro: that)

lemma Classify_cases:
  assumes "as_gm_error e = None"
  obtains g where "Classify (Some e) = Some (g, Some e)" and "classify_sentinel e = Some g"
  | g where "Classify (Some e) = Some (g, Some e)" and "classify_sentinel e = None"
      and "(gmCode g, gmHTTPStatus g, gmRetryable g) \<in>
             {(GmGoogleError, 502, False), (GmGoogleHTTPError, 502, True),
              (GmInternalError, 500, False)}"
      and "\<not> gmKeepsOperationPending g" and "\<not> gmSignsOutAccount g" and "gmReason g = []"
proof (cases "classify_sentinel e")
  case (Some g)
  with assms show ?thesis by (intro that(1)) (simp_all add: Classify_def)
next
  case None
  with assms show ?thesis
    by (intro that(2) [of "fst (the (Classify (Some e)))"])
       (auto simp: Classify_def gm_newError_def split: option.splits)
qed

lemma classify_sentinel_None_pending:
  "classify_sentinel e = None \<Longrightarrow> \<not> errors_Is e ErrPhoneNotResponding"
  by (auto simp: classify_sentinel_def)

text \<open>Classification is total on errors that are not yet classified, it keeps the
  original error, and an operation is kept pending for exactly one cause: the phone not
  answering. That flag, the code \<open>phone_not_responding\<close> and the library sentinel coincide.\<close>

theorem Classify_pending_iff_phone:
  assumes "as_gm_error e = None"
  shows "\<exists>g. Classify (Some e) = Some (g, Some e)
    \<and> (gmKeepsOperationPending g \<longleftrightarrow> errors_Is e ErrPhoneNotResponding)
    \<and> (gmKeepsOperationPending g \<longleftrightarrow> gmCode g = GmPhoneNotResponding)"
proof (rule Classify_cases [OF assms])
  fix g
  assume c: "Classify (Some e) = Some (g, Some e)" and s: "classify_sentinel e = Some g"
  show ?thesis
    using s
  proof (cases rule: classify_sentinel_cases)
    case signed_out
    with s have "\<not> errors_Is e ErrPhoneNotResponding"
      by (auto simp: classify_sentinel_def gm_newError_def)
    with c signed_out show ?thesis by auto
  qed (use c in auto)
next
  fix g
  assume "Classify (Some e) = Some (g, Some e)" and "classify_sentinel e = None"
    and "(gmCode g, gmHTTPStatus g, gmRetryable g) \<in>
           {(GmGoogleError, 502, False), (GmGoogleHTTPError, 502, True), (GmInternalError, 500, False)}"
    and "\<not> gmKeepsOperationPending g"
  then show ?thesis
    by (intro exI [of _ g]) (auto dest: classify_sentinel_None_pending)
qed

theorem Classify_pending_iff_phone_witness:
  "as_gm_error (Wrapped ''send'' [Sentinel ErrPhoneNotResponding]) = None
   \<and> (\<exists>g. Classify (Some (Wrapped ''send'' [Sentinel ErrPhoneNotResponding]))
              = Some (g, Some (Wrapped ''send'' [Sentinel ErrPhoneNotResponding]))
          \<and> gmKeepsOperationPending g)"
proof -
  have none: "as_gm_error (Wrapped ''send'' [Sentinel ErrPhoneNotResponding]) = None"
    by simp
  show ?thesis
    using none Classify_pending_iff_phone [OF none] by auto
qed

text \<open>An HTTP 401 or 403 on the listen request, and dead credentials, are fatal wherever
  they sit in the wrapped error, and no other status is: the decision reads the error value,
  never its text.\<close>

lemma fatal_listen_error_by_value:
  "IsFatalListenError (Some (Wrapped m [HTTPError action status])) \<longleftrightarrow> status \<in> {401, 403}"
  "IsFatalListenError (Some e) \<longleftrightarrow>
     errors_Is e ErrInvalidCredentials \<or> snd ` set_option (as_http_error e) \<inter> {401, 403} \<noteq> {}"
  by (auto simp: IsFatalListenError_def split: option.splits)

end
