(* ===== verification/Api_Errors.thy ===== *)
theory Api_Errors
  imports Gm_Errors
begin

text \<open>
  The REST error taxonomy (\<open>internal/apierr\<close>): the code table with its HTTP statuses and
  retryability, the CLI exit codes, the error constructors, the funnel \<open>From\<close> that turns
  any Go error into an API error, the envelope, the strict query rule and the
  \<open>WWW-Authenticate\<close> header. Codes are strings, as in the source, because the table's
  membership test is what keeps the vocabulary closed.
\<close>

section \<open>Codes\<close>

abbreviation CodeInvalidRequest :: Code where "CodeInvalidRequest \<equiv> ''invalid_request''"
abbreviation CodeInvalidToken :: Code where "CodeInvalidToken \<equiv> ''invalid_token''"
abbreviation CodeInsufficientScope :: Code where "CodeInsufficientScope \<equiv> ''insufficient_scope''"
abbreviation CodeNotFound :: Code where "CodeNotFound \<equiv> ''not_found''"
abbreviation CodeIdempotencyConflict :: Code where "CodeIdempotencyConflict \<equiv> ''idempotency_conflict''"
abbreviation CodeNotPaired :: Code where "CodeNotPaired \<equiv> ''not_paired''"
abbreviation CodePairingNoCookies :: Code where "CodePairingNoCookies \<equiv> ''pairing_no_cookies''"
abbreviation CodePairingNoDevices :: Code where "CodePairingNoDevices \<equiv> ''pairing_no_devices''"
abbreviation CodePairingWrongEmoji :: Code where "CodePairingWrongEmoji \<equiv> ''pairing_wrong_emoji''"
abbreviation CodePairingCancelled :: Code where "CodePairingCancelled \<equiv> ''pairing_cancelled''"
abbreviation CodePairingTimeout :: Code where "CodePairingTimeout \<equiv> ''pairing_timeout''"
abbreviation CodePairingInitTimeout :: Code where "CodePairingInitTimeout \<equiv> ''pairing_init_timeout''"
abbreviation CodePairingWrongAccount :: Code where "CodePairingWrongAccount \<equiv> ''pairing_wrong_account''"
abbreviation CodePairingNoAccount :: Code where "CodePairingNoAccount \<equiv> ''pairing_no_account''"
abbreviation CodeUnsupportedCapability :: Code where "CodeUnsupportedCapability \<equiv> ''unsupported_capability''"
abbreviation CodePayloadTooLarge :: Code where "CodePayloadTooLarge \<equiv> ''payload_too_large''"
abbreviation CodeMediaUnsupportedType :: Code where "CodeMediaUnsupportedType \<equiv> ''media_unsupported_type''"
abbreviation CodeRateLimited :: Code where "CodeRateLimited \<equiv> ''rate_limited''"
abbreviation CodeInternalError :: Code where "CodeInternalError \<equiv> ''internal_error''"
abbreviation CodeNotDefaultSMSApp :: Code where "CodeNotDefaultSMSApp \<equiv> ''not_default_sms_app''"
abbreviation CodeGoogleUndocumentedStatus :: Code where "CodeGoogleUndocumentedStatus \<equiv> ''google_undocumented_status''"
abbreviation CodeGoogleError :: Code where "CodeGoogleError \<equiv> ''google_error''"
abbreviation CodeGoogleHTTPError :: Code where "CodeGoogleHTTPError \<equiv> ''google_http_error''"
abbreviation CodeGooglePermissionDenied :: Code where "CodeGooglePermissionDenied \<equiv> ''google_permission_denied''"
abbreviation CodeDisconnected :: Code where "CodeDisconnected \<equiv> ''disconnected''"
abbreviation CodePhoneNotResponding :: Code where "CodePhoneNotResponding \<equiv> ''phone_not_responding''"

datatype Retryability = RetryNo | RetryYes | RetryMaybe

definition code_table :: "(Code \<times> int \<times> Retryability) list" where
  "code_table =
    [(CodeInvalidRequest, 400, RetryNo),
     (CodeInvalidToken, 401, RetryNo),
     (CodeInsufficientScope, 403, RetryNo),
     (CodeNotFound, 404, RetryNo),
     (CodeIdempotencyConflict, 409, RetryNo),
     (CodeNotPaired, 409, RetryNo),
     (CodePairingNoCookies, 409, RetryNo),
     (CodePairingNoDevices, 409, RetryNo),
     (CodePairingWrongEmoji, 409, RetryNo),
     (CodePairingCancelled, 409, RetryNo),
     (CodePairingTimeout, 409, RetryNo),
     (CodePairingInitTimeout, 409, RetryYes),
     (CodePairingWrongAccount, 409, RetryNo),
     (CodePairingNoAccount, 409, RetryNo),
     (CodeUnsupportedCapability, 409, RetryNo),
     (CodePayloadTooLarge, 413, RetryNo),
     (CodeMediaUnsupportedType, 415, RetryNo),
     (CodeRateLimited, 429, RetryYes),
     (CodeInternalError, 500, RetryYes),
     (CodeNotDefaultSMSApp, 502, RetryNo),
     (CodeGoogleUndocumentedStatus, 502, RetryNo),
     (CodeGoogleError, 502, RetryMaybe),
     (CodeGoogleHTTPError, 502, RetryYes),
     (CodeGooglePermissionDenied, 502, RetryNo),
     (CodeDisconnected, 503, RetryYes),
     (CodePhoneNotResponding, 504, RetryYes)]"

definition Known :: "Code \<Rightarrow> bool" where
  "Known c \<longleftrightarrow> map_of code_table c \<noteq> None"

definition Codes :: "Code list" where
  "Codes = sort (map fst code_table)"

definition HTTPStatus :: "Code \<Rightarrow> int" where
  "HTTPStatus c = (case map_of code_table c of Some (status, _) \<Rightarrow> status | None \<Rightarrow> 500)"

definition RetryabilityOf :: "Code \<Rightarrow> Retryability" where
  "RetryabilityOf c = (case map_of code_table c of Some (_, retry) \<Rightarrow> retry | None \<Rightarrow> RetryNo)"

section \<open>Exit codes\<close>

abbreviation ExitOK :: int where "ExitOK \<equiv> 0"
abbreviation ExitUsage :: int where "ExitUsage \<equiv> 2"
abbreviation ExitAuthRequired :: int where "ExitAuthRequired \<equiv> 3"
abbreviation ExitForbidden :: int where "ExitForbidden \<equiv> 4"
abbreviation ExitNotFound :: int where "ExitNotFound \<equiv> 5"
abbreviation ExitUnsupported :: int where "ExitUnsupported \<equiv> 6"
abbreviation ExitRetryable :: int where "ExitRetryable \<equiv> 7"
abbreviation ExitOperationFailed :: int where "ExitOperationFailed \<equiv> 8"
abbreviation ExitLocalConfig :: int where "ExitLocalConfig \<equiv> 9"
abbreviation ExitServerFailure :: int where "ExitServerFailure \<equiv> 10"

definition exitCodes :: "(Code \<times> int) list" where
  "exitCodes =
    [(CodeInvalidRequest, ExitUsage),
     (CodeIdempotencyConflict, ExitUsage),
     (CodePayloadTooLarge, ExitUsage),
     (CodeMediaUnsupportedType, ExitUsage),
     (CodeInvalidToken, ExitAuthRequired),
     (CodeInsufficientScope, ExitForbidden),
     (CodeNotFound, ExitNotFound),
     (CodeUnsupportedCapability, ExitUnsupported),
     (CodePairingInitTimeout, ExitRetryable),
     (CodeRateLimited, ExitRetryable),
     (CodeGoogleHTTPError, ExitRetryable),
     (CodeDisconnected, ExitRetryable),
     (CodePhoneNotResponding, ExitRetryable),
     (CodeNotPaired, ExitServerFailure),
     (CodePairingNoCookies, ExitServerFailure),
     (CodePairingNoDevices, ExitServerFailure),
     (CodePairingWrongEmoji, ExitServerFailure),
     (CodePairingCancelled, ExitServerFailure),
     (CodePairingTimeout, ExitServerFailure),
     (CodePairingWrongAccount, ExitServerFailure),
     (CodePairingNoAccount, ExitServerFailure),
     (CodeInternalError, ExitServerFailure),
     (CodeNotDefaultSMSApp, ExitServerFailure),
     (CodeGoogleUndocumentedStatus, ExitServerFailure),
     (CodeGoogleError, ExitServerFailure),
     (CodeGooglePermissionDenied, ExitServerFailure)]"

definition ExitCodeFor :: "Code \<Rightarrow> int" where
  "ExitCodeFor c = (case map_of exitCodes c of Some code \<Rightarrow> code | None \<Rightarrow> ExitServerFailure)"

section \<open>Error values\<close>

text \<open>A returned \<open>*apierr.Error\<close> is the pair of its fields and its \<open>Err\<close>.\<close>

type_synonym api_err = "api_error \<times> go_error option"

definition New :: "Code \<Rightarrow> message \<Rightarrow> api_error" where
  "New code m =
     \<lparr>apiCode = code, apiMessage = m, apiDetails = None, apiRetryAfter = 0,
      apiHTTPStatusOverride = 0, apiRetryableFlag = False\<rparr>"

definition withDetails :: "Code \<Rightarrow> message \<Rightarrow> details \<Rightarrow> api_error" where
  "withDetails code m d = (New code m)\<lparr>apiDetails := Some d\<rparr>"

definition api_Is :: "api_error \<Rightarrow> go_error \<Rightarrow> bool" where
  "api_Is e target =
     (case as_api_error target of None \<Rightarrow> False | Some (other, _) \<Rightarrow> apiCode other = apiCode e)"

definition Error_HTTPStatus :: "api_error \<Rightarrow> int" where
  "Error_HTTPStatus e =
     (if apiHTTPStatusOverride e \<noteq> 0 then apiHTTPStatusOverride e else HTTPStatus (apiCode e))"

definition Retryable :: "api_error \<Rightarrow> bool" where
  "Retryable e =
     (case RetryabilityOf (apiCode e) of
        RetryYes \<Rightarrow> True | RetryNo \<Rightarrow> False | RetryMaybe \<Rightarrow> apiRetryableFlag e)"

definition ExitCode :: "api_error \<Rightarrow> int" where
  "ExitCode e = ExitCodeFor (apiCode e)"

section \<open>Constructors\<close>

definition UnknownQueryParameter :: "string \<Rightarrow> api_error" where
  "UnknownQueryParameter name =
     withDetails CodeInvalidRequest
       [Lit ''unknown query parameter '', FmtQ name,
        Lit ''; this route rejects every parameter it does not define, so the request had no effect'']
       [''parameter'' \<mapsto> AnyString name]"

definition UnknownBodyField :: "string \<Rightarrow> api_error" where
  "UnknownBodyField name =
     withDetails CodeInvalidRequest
       [Lit ''unknown body field '', FmtQ name,
        Lit ''; this route rejects every field it does not define, so the request had no effect'']
       [''field'' \<mapsto> AnyString name]"

definition MalformedBody :: "string \<Rightarrow> api_error" where
  "MalformedBody reason =
     New CodeInvalidRequest [Lit ''the request body could not be read as JSON: '', FmtS reason]"

definition WrongTypeForField :: "string \<Rightarrow> string \<Rightarrow> api_error" where
  "WrongTypeForField fld want =
     withDetails CodeInvalidRequest [Lit ''body field '', FmtQ fld, Lit '' must be '', FmtS want]
       [''field'' \<mapsto> AnyString fld]"

definition WrongTypeForParameter :: "string \<Rightarrow> string \<Rightarrow> api_error" where
  "WrongTypeForParameter parameter want =
     withDetails CodeInvalidRequest
       [Lit ''query parameter '', FmtQ parameter, Lit '' must be '', FmtS want]
       [''parameter'' \<mapsto> AnyString parameter]"

definition MissingParameter :: "string \<Rightarrow> api_error" where
  "MissingParameter name =
     withDetails CodeInvalidRequest [FmtS name, Lit '' is required'']
       [''parameter'' \<mapsto> AnyString name]"

definition WrongIDPrefix :: "string \<Rightarrow> string \<Rightarrow> api_error" where
  "WrongIDPrefix parameter expectedPrefix =
     withDetails CodeInvalidRequest
       [FmtS parameter, Lit '' must be an Agent GM ID beginning with '', FmtQ expectedPrefix]
       [''parameter'' \<mapsto> AnyString parameter, ''expected_prefix'' \<mapsto> AnyString expectedPrefix]"

definition CheckIDPrefix :: "string \<Rightarrow> string \<Rightarrow> string \<Rightarrow> api_error option" where
  "CheckIDPrefix v parameter expectedPrefix =
     (if v = [] then Some (MissingParameter parameter)
      else if length v \<le> length expectedPrefix
              \<or> take (length expectedPrefix) v \<noteq> expectedPrefix
           then Some (WrongIDPrefix parameter expectedPrefix)
      else None)"

definition IDFromAnotherAccount :: "string \<Rightarrow> string \<Rightarrow> string \<Rightarrow> api_error" where
  "IDFromAnotherAccount parameter i accountID =
     withDetails CodeInvalidRequest
       [FmtS parameter, Lit '' '', FmtS i,
        Lit '' belongs to a different account than account_id '', FmtS accountID,
        Lit ''; the thread still exists, so drop account_id or name the owning account'']
       [''parameter'' \<mapsto> AnyString parameter, ''id'' \<mapsto> AnyString i,
        ''account_id'' \<mapsto> AnyString accountID]"

definition AmbiguousAccount :: "(string \<times> string \<times> string) list \<Rightarrow> api_error" where
  "AmbiguousAccount candidates =
     withDetails CodeInvalidRequest
       (msg ''more than one account exists, so a write must name one in account_id; the candidates are in details.accounts'')
       [''field'' \<mapsto> AnyString ''account_id'', ''accounts'' \<mapsto> AnyAccounts candidates]"

section \<open>Unsupported capabilities\<close>

datatype Reason =
    ReasonNotSignedIn | ReasonConversationReadOnly | ReasonConversationDeleted
  | ReasonNotMyMessage | ReasonNotMyReaction | ReasonReplyNotSupported
  | ReasonRCSNotAvailable | ReasonMediaPending

fun Reason_String :: "Reason \<Rightarrow> string" where
  "Reason_String ReasonNotSignedIn = ''not_signed_in''"
| "Reason_String ReasonConversationReadOnly = ''conversation_read_only''"
| "Reason_String ReasonConversationDeleted = ''conversation_deleted''"
| "Reason_String ReasonNotMyMessage = ''not_my_message''"
| "Reason_String ReasonNotMyReaction = ''not_my_reaction''"
| "Reason_String ReasonReplyNotSupported = ''reply_not_supported''"
| "Reason_String ReasonRCSNotAvailable = ''rcs_not_available''"
| "Reason_String ReasonMediaPending = ''media_pending''"

definition Reasons :: "Reason list" where
  "Reasons = [ReasonNotSignedIn, ReasonConversationReadOnly, ReasonConversationDeleted,
     ReasonNotMyMessage, ReasonNotMyReaction, ReasonReplyNotSupported, ReasonRCSNotAvailable,
     ReasonMediaPending]"

definition ReasonByName :: "string \<Rightarrow> Reason option" where
  "ReasonByName name = find (\<lambda>r. Reason_String r = name) Reasons"

text \<open>The source panics on the zero \<open>Reason\<close>; the datatype has no such value.\<close>

definition UnsupportedCapability ::
  "Reason \<Rightarrow> string \<Rightarrow> string \<Rightarrow> string \<Rightarrow> any_value \<Rightarrow> api_error" where
  "UnsupportedCapability reason objectID action capability current =
     withDetails CodeUnsupportedCapability
       [Lit ''cannot '', FmtS action, Lit '' '', FmtS objectID, Lit '': '',
        FmtS (Reason_String reason), Lit '' ('', FmtS capability, Lit '' is '', FmtV current,
        Lit '')'']
       [''reason'' \<mapsto> AnyString (Reason_String reason), ''object_id'' \<mapsto> AnyString objectID,
        ''action'' \<mapsto> AnyString action, ''capability'' \<mapsto> AnyString capability,
        ''capability_value'' \<mapsto> current]"

section \<open>The rest of the taxonomy\<close>

definition IdempotencyConflict :: "string \<Rightarrow> api_error" where
  "IdempotencyConflict key =
     withDetails CodeIdempotencyConflict
       [Lit ''idempotency key '', FmtQ key,
        Lit '' was already used with a different request body; nothing was done'']
       [''idempotency_key'' \<mapsto> AnyString key]"

definition BadIdempotencyKey :: "string \<Rightarrow> api_error" where
  "BadIdempotencyKey why =
     withDetails CodeInvalidRequest
       [Lit ''the Idempotency-Key header is refused because '', FmtS why,
        Lit ''; nothing was done'']
       [''field'' \<mapsto> AnyString ''Idempotency-Key'']"

definition IdempotencyKeyUsedWithAnotherAccount :: "string \<Rightarrow> string \<Rightarrow> api_error" where
  "IdempotencyKeyUsedWithAnotherAccount key firstAccountID =
     withDetails CodeInvalidRequest
       [Lit ''idempotency key '', FmtS key,
        Lit '' has already been used by this authorization for this kind against account '',
        FmtS firstAccountID,
        Lit ''; sending it to another account would be a new message to a different person, not a retry. Use a fresh key'']
       [''field'' \<mapsto> AnyString ''Idempotency-Key'', ''account_id'' \<mapsto> AnyString firstAccountID]"

definition RateLimited :: "int \<Rightarrow> api_error" where
  "RateLimited retryAfter =
     (New CodeRateLimited (msg ''too many requests; retry after the Retry-After header says''))
       \<lparr>apiRetryAfter := retryAfter\<rparr>"

definition NotFound :: "string \<Rightarrow> api_error" where
  "NotFound what = New CodeNotFound [Lit ''No such '', FmtS what, Lit ''.'']"

definition InvalidToken :: "string \<Rightarrow> api_error" where
  "InvalidToken detail = New CodeInvalidToken [Lit ''the bearer token was rejected: '', FmtS detail]"

definition InsufficientScope :: "string \<Rightarrow> api_error" where
  "InsufficientScope required =
     withDetails CodeInsufficientScope [Lit ''this route requires the '', FmtQ required, Lit '' scope'']
       [''scope'' \<mapsto> AnyString required]"

definition NotPaired :: api_error where
  "NotPaired = New CodeNotPaired (msg ''no Google account is paired; run `agm pair` first'')"

definition PayloadTooLarge :: "string \<Rightarrow> int \<Rightarrow> api_error" where
  "PayloadTooLarge what limitBytes =
     New CodePayloadTooLarge [FmtS what, Lit '' is larger than the '', FmtD limitBytes, Lit '' byte limit'']"

definition MediaUnsupportedType :: "string \<Rightarrow> api_error" where
  "MediaUnsupportedType mime =
     withDetails CodeMediaUnsupportedType [Lit ''Google Messages has no media type for '', FmtQ mime]
       [''mime_type'' \<mapsto> AnyString mime]"

definition Internal :: "go_error option \<Rightarrow> api_err" where
  "Internal err =
     (New CodeInternalError (msg ''an internal error occurred; the request ID identifies it in the server log''), err)"

definition GoogleUndocumentedStatus :: "int \<Rightarrow> api_error" where
  "GoogleUndocumentedStatus status =
     withDetails CodeGoogleUndocumentedStatus
       (msg ''Google answered with a status this version of the protocol has no name for; the bare value is in details.status'')
       [''status'' \<mapsto> AnyInt status]"

definition GoogleError :: "int \<Rightarrow> string \<Rightarrow> bool \<Rightarrow> api_error" where
  "GoogleError googleType googleMessage retryable =
     (withDetails CodeGoogleError (msg ''Google returned an error for this request'')
       [''google_type'' \<mapsto> AnyInt googleType, ''google_message'' \<mapsto> AnyString googleMessage])
       \<lparr>apiRetryableFlag := retryable\<rparr>"

definition MethodNotAllowed :: "string \<Rightarrow> string \<Rightarrow> api_error" where
  "MethodNotAllowed mthd allow =
     (withDetails CodeInvalidRequest
        [Lit ''the method '', FmtS mthd, Lit '' is not allowed here; this path takes '', FmtS allow]
        [''method'' \<mapsto> AnyString mthd, ''allow'' \<mapsto> AnyStrings (go_split allow '', '')])
       \<lparr>apiHTTPStatusOverride := 405\<rparr>"

section \<open>The funnel\<close>

definition internal_text :: message where
  "internal_text = msg ''an internal error; the request ID identifies it in the logs''"

definition internal_from :: "go_error \<Rightarrow> api_err" where
  "internal_from err = (New CodeInternalError internal_text, Some err)"

definition unknown_reason_text :: "string \<Rightarrow> string" where
  "unknown_reason_text reason =
     ''gm produced the unsupported_capability reason '' @ reason @
     '', which section 7.8 does not name''"

definition fromGM :: "go_error \<Rightarrow> api_err option" where
  "fromGM err =
    (case as_gm_error err of
       None \<Rightarrow> None
     | Some (g, inner) \<Rightarrow>
        (let code = gmCode g in
         if \<not> Known code then Some (internal_from err)
         else
          (let out = New code (gmMessage g);
               out = (if gmHTTPStatus g \<noteq> 0 \<and> gmHTTPStatus g \<noteq> HTTPStatus code
                      then out\<lparr>apiHTTPStatusOverride := gmHTTPStatus g\<rparr> else out);
               out = (case gmDetails g of
                        Some d \<Rightarrow> if d \<noteq> Map.empty then out\<lparr>apiDetails := Some d\<rparr> else out
                      | None \<Rightarrow> out);
               flag = (\<lambda>r. if RetryabilityOf code = RetryMaybe
                            then r\<lparr>apiRetryableFlag := gmRetryable g\<rparr> else r)
           in if gmReason g \<noteq> [] then
                (case ReasonByName (gmReason g) of
                   None \<Rightarrow>
                     Some (New CodeInternalError internal_text,
                           Some (Wrapped (unknown_reason_text (gmReason g)) [err]))
                 | Some reason \<Rightarrow>
                     Some (flag (out\<lparr>apiDetails :=
                             Some ((case apiDetails out of None \<Rightarrow> Map.empty | Some d \<Rightarrow> d)
                                     (''reason'' \<mapsto> AnyString (Reason_String reason)))\<rparr>),
                           inner))
              else Some (flag out, inner))))"

definition From :: "go_error option \<Rightarrow> api_err option" where
  "From err =
    (case err of
       None \<Rightarrow> None
     | Some e \<Rightarrow>
        (case as_api_error e of
           Some already \<Rightarrow> Some already
         | None \<Rightarrow>
            (case fromGM e of
               Some translated \<Rightarrow> Some translated
             | None \<Rightarrow> Some (internal_from e))))"

section \<open>Envelope, strict query, challenge header\<close>

record error_envelope =
  envCode :: Code
  envMessage :: message
  envRetryable :: bool
  envDetails :: details
  envRequestID :: string

definition Envelope :: "api_error \<Rightarrow> string \<Rightarrow> error_envelope" where
  "Envelope e requestID =
     \<lparr>envCode = apiCode e, envMessage = apiMessage e, envRetryable = Retryable e,
      envDetails = (case apiDetails e of None \<Rightarrow> Map.empty | Some d \<Rightarrow> d),
      envRequestID = requestID\<rparr>"

text \<open>\<open>url.Values\<close> is read for its keys only; the range over the map is in no fixed order.\<close>

definition DecodeQuery :: "string list \<Rightarrow> string list \<Rightarrow> api_error option" where
  "DecodeQuery names allowed =
     (case sort (filter (\<lambda>n. n \<notin> set allowed) names) of
        [] \<Rightarrow> None
      | n # _ \<Rightarrow> Some (UnknownQueryParameter n))"

fun quote_header :: "string \<Rightarrow> string" where
  "quote_header [] = []"
| "quote_header (c # s) =
     (if c = CHR 0x5C then CHR 0x5C # CHR 0x5C # quote_header s
      else if c = CHR 0x22 then CHR 0x5C # CHR 0x22 # quote_header s
      else c # quote_header s)"

definition trim_right_slash :: "string \<Rightarrow> string" where
  "trim_right_slash s = rev (dropWhile (\<lambda>c. c = CHR ''/'') (rev s))"

definition ResourceMetadataURL :: "string \<Rightarrow> string" where
  "ResourceMetadataURL publicURL =
     trim_right_slash publicURL @ ''/.well-known/oauth-protected-resource/mcp''"

fun join_with :: "string \<Rightarrow> string list \<Rightarrow> string" where
  "join_with sep [] = []"
| "join_with sep [p] = p"
| "join_with sep (p # q # ps) = p @ sep @ join_with sep (q # ps)"

definition header_param :: "string \<Rightarrow> string \<Rightarrow> string" where
  "header_param name v = name @ [CHR ''='', CHR 0x22] @ quote_header v @ [CHR 0x22]"

definition WWWAuthenticate :: "string \<Rightarrow> Code \<Rightarrow> string \<Rightarrow> string" where
  "WWWAuthenticate publicURL code requiredScope =
     ''Bearer '' @ join_with '', ''
       ([header_param ''realm'' ''agent-gm'', header_param ''error'' code] @
        (if code = CodeInsufficientScope \<and> requiredScope \<noteq> []
         then [header_param ''scope'' requiredScope] else []) @
        [header_param ''resource_metadata'' (ResourceMetadataURL publicURL)])"

definition WWWAuthenticateFor :: "string \<Rightarrow> api_error option \<Rightarrow> string" where
  "WWWAuthenticateFor publicURL e =
    (case e of
       None \<Rightarrow> []
     | Some err \<Rightarrow>
        if apiCode err = CodeInvalidToken then WWWAuthenticate publicURL (apiCode err) []
        else if apiCode err = CodeInsufficientScope then
          WWWAuthenticate publicURL (apiCode err)
            (case apiDetails err of
               None \<Rightarrow> []
             | Some d \<Rightarrow> (case d ''scope'' of Some (AnyString sc) \<Rightarrow> sc | _ \<Rightarrow> []))
        else [])"

section \<open>The tables agree\<close>

lemma exit_table_dom: "set (map fst exitCodes) = set (map fst code_table)"
proof -
  have "list_all (\<lambda>c. List.member (map fst code_table) c) (map fst exitCodes)"
    and "list_all (\<lambda>c. List.member (map fst exitCodes) c) (map fst code_table)"
    by code_simp+
  then show ?thesis
    by (auto simp only: list_all_iff List.member_iff)
qed

lemma Known_iff: "Known c \<longleftrightarrow> c \<in> set (map fst code_table)"
  by (auto simp: Known_def map_of_eq_None_iff)

text \<open>One vocabulary, three tables. Every API code has an exit code of its own row and no
  other string has one; an exit code is 7 (retry) for exactly the codes the API calls retryable
  apart from \<open>internal_error\<close>; a code outside the vocabulary is a 500 that exits 10 and is
  not retryable.\<close>

theorem exit_codes_follow_code_table:
  "(map_of exitCodes c \<noteq> None \<longleftrightarrow> Known c)
   \<and> (ExitCodeFor c = ExitRetryable \<longleftrightarrow> RetryabilityOf c = RetryYes \<and> c \<noteq> CodeInternalError)
   \<and> (\<not> Known c \<longrightarrow> HTTPStatus c = 500 \<and> ExitCodeFor c = ExitServerFailure \<and> RetryabilityOf c = RetryNo)"
proof (cases "Known c")
  case False
  then have "map_of code_table c = None" "map_of exitCodes c = None"
    using exit_table_dom by (auto simp: Known_iff map_of_eq_None_iff)
  with False show ?thesis
    by (simp add: ExitCodeFor_def RetryabilityOf_def HTTPStatus_def)
next
  case True
  then have c: "c \<in> set (map fst code_table)" by (simp add: Known_iff)
  then have "map_of exitCodes c \<noteq> None"
    using exit_table_dom by (auto simp: map_of_eq_None_iff)
  moreover have "list_all (\<lambda>c. ExitCodeFor c = ExitRetryable \<longleftrightarrow>
      RetryabilityOf c = RetryYes \<and> c \<noteq> CodeInternalError) (map fst code_table)"
    by code_simp
  then have "ExitCodeFor c = ExitRetryable \<longleftrightarrow> RetryabilityOf c = RetryYes \<and> c \<noteq> CodeInternalError"
    using c by (simp only: list_all_iff)
  ultimately show ?thesis
    using True by blast
qed

theorem exit_codes_follow_code_table_witness:
  "\<not> Known ''no_such_code'' \<and> HTTPStatus ''no_such_code'' = 500
   \<and> ExitCodeFor ''no_such_code'' = ExitServerFailure"
proof -
  have "\<not> Known ''no_such_code''" by code_simp
  then show ?thesis
    using exit_codes_follow_code_table [of "''no_such_code''"] by blast
qed

text \<open>The codes, statuses and retry flags classification produces, as one table.\<close>

definition classified_rows :: "(Code \<times> int \<times> bool) list" where
  "classified_rows =
     [(GmPhoneNotResponding, 504, True), (GmUnsupportedCapability, 409, False),
      (GmDisconnected, 503, True), (GmGooglePermissionDenied, 502, False),
      (GmPairingNoCookies, 409, False), (GmPairingNoDevices, 409, False),
      (GmPairingWrongEmoji, 409, False), (GmPairingCancelled, 409, False),
      (GmPairingTimeout, 409, False), (GmPairingInitTimeout, 409, True),
      (GmPairingWrongAccount, 409, False), (GmPairingNoAccount, 409, False),
      (GmGoogleError, 502, False), (GmGoogleHTTPError, 502, True), (GmInternalError, 500, False)]"

lemma classified_row:
  assumes "as_gm_error e = None" and "Classify (Some e) = Some (g, i)"
  shows "(gmCode g, gmHTTPStatus g, gmRetryable g) \<in> set classified_rows"
    and "gmReason g = (if gmSignsOutAccount g then GmReasonNotSignedIn else [])"
    and "i = Some e"
proof -
  have *: "((gmCode g, gmHTTPStatus g, gmRetryable g) \<in> set classified_rows
      \<and> gmReason g = (if gmSignsOutAccount g then GmReasonNotSignedIn else [])) \<and> i = Some e"
  proof (rule Classify_cases [OF assms(1)])
    fix g' assume c: "Classify (Some e) = Some (g', Some e)" and s: "classify_sentinel e = Some g'"
    from c assms(2) have [simp]: "g' = g" "i = Some e" by auto
    from s show ?thesis
      by (cases rule: classify_sentinel_cases) (auto simp: classified_rows_def)
  next
    fix g' assume c: "Classify (Some e) = Some (g', Some e)"
      and r: "(gmCode g', gmHTTPStatus g', gmRetryable g') \<in>
             {(GmGoogleError, 502, False), (GmGoogleHTTPError, 502, True), (GmInternalError, 500, False)}"
      and f: "\<not> gmSignsOutAccount g'" "gmReason g' = []"
    from c assms(2) have [simp]: "g' = g" "i = Some e" by auto
    from r f show ?thesis by (auto simp: classified_rows_def)
  qed
  then show "(gmCode g, gmHTTPStatus g, gmRetryable g) \<in> set classified_rows"
    and "gmReason g = (if gmSignsOutAccount g then GmReasonNotSignedIn else [])"
    and "i = Some e" by simp_all
qed

lemma classified_rows_agree:
  "(c, st, r) \<in> set classified_rows \<Longrightarrow>
     Known c \<and> HTTPStatus c = st \<and>
     (c \<noteq> CodeInternalError \<longrightarrow>
        (case RetryabilityOf c of RetryYes \<Rightarrow> r | RetryNo \<Rightarrow> \<not> r | RetryMaybe \<Rightarrow> True))"
proof -
  have "list_all (\<lambda>(c, st, r). Known c \<and> HTTPStatus c = st \<and>
     (c \<noteq> CodeInternalError \<longrightarrow>
        (case RetryabilityOf c of RetryYes \<Rightarrow> r | RetryNo \<Rightarrow> \<not> r | RetryMaybe \<Rightarrow> True))) classified_rows"
    by code_simp
  then show "(c, st, r) \<in> set classified_rows \<Longrightarrow> ?thesis"
    unfolding list_all_iff by fast
qed

lemma ReasonByName_not_signed_in: "ReasonByName GmReasonNotSignedIn = Some ReasonNotSignedIn"
  by (simp add: ReasonByName_def Reasons_def)

lemma fromGM_no_reason:
  assumes "as_gm_error err = Some (g, inner)" and "Known (gmCode g)"
    and "gmHTTPStatus g = HTTPStatus (gmCode g)" and "gmReason g = []"
  shows "\<exists>a. fromGM err = Some (a, inner) \<and> apiCode a = gmCode g \<and> apiHTTPStatusOverride a = 0
    \<and> (RetryabilityOf (gmCode g) = RetryMaybe \<longrightarrow> apiRetryableFlag a = gmRetryable g)"
  using assms by (simp add: fromGM_def Let_def New_def split: option.split)

lemma fromGM_reason:
  assumes "as_gm_error err = Some (g, inner)" and "Known (gmCode g)"
    and "gmHTTPStatus g = HTTPStatus (gmCode g)" and "gmReason g \<noteq> []"
    and "ReasonByName (gmReason g) = Some r"
  shows "\<exists>a d. fromGM err = Some (a, inner) \<and> apiCode a = gmCode g \<and> apiHTTPStatusOverride a = 0
    \<and> (RetryabilityOf (gmCode g) = RetryMaybe \<longrightarrow> apiRetryableFlag a = gmRetryable g)
    \<and> apiDetails a = Some d \<and> d ''reason'' = Some (AnyString (Reason_String r))"
  using assms by (simp add: fromGM_def Let_def New_def split: option.split)

text \<open>What the library boundary classifies reaches an API caller intact. The API error has
  the same code, its HTTP status is the table's and the boundary's (no override), its retryable
  flag is the boundary's except for \<open>internal_error\<close>, and an account that was signed out is
  reported with \<open>details.reason\<close> \<open>not_signed_in\<close>.\<close>

theorem classified_errors_reach_the_api:
  assumes "as_gm_error e = None" and "as_api_error e = None"
    and "Classify (Some e) = Some (g, i)"
  shows "\<exists>a. From (Some (GmError g i)) = Some (a, i)
     \<and> apiCode a = gmCode g \<and> Known (apiCode a)
     \<and> Error_HTTPStatus a = gmHTTPStatus g \<and> Error_HTTPStatus a = HTTPStatus (apiCode a)
     \<and> (gmCode g = CodeInternalError \<or> Retryable a = gmRetryable g)
     \<and> (gmSignsOutAccount g \<longrightarrow>
          (\<exists>d. apiDetails a = Some d \<and> d ''reason'' = Some (AnyString ''not_signed_in'')))"
proof -
  note row = classified_row [OF assms(1,3)]
  note agree = classified_rows_agree [OF row(1)]
  let ?e = "GmError g (Some e)"
  have api: "as_api_error ?e = None" and gm: "as_gm_error ?e = Some (g, Some e)"
    using assms(2) by simp_all
  have no_override: "gmHTTPStatus g = HTTPStatus (gmCode g)"
    using agree by simp
  have retry: "gmCode g \<noteq> CodeInternalError \<Longrightarrow>
      Retryable a = gmRetryable g"
    if "apiCode a = gmCode g" "RetryabilityOf (gmCode g) = RetryMaybe \<longrightarrow> apiRetryableFlag a = gmRetryable g"
    for a
    using agree that by (cases "RetryabilityOf (gmCode g)") (simp_all add: Retryable_def)
  obtain a where a: "fromGM ?e = Some (a, Some e)" "apiCode a = gmCode g"
    "apiHTTPStatusOverride a = 0"
    "RetryabilityOf (gmCode g) = RetryMaybe \<longrightarrow> apiRetryableFlag a = gmRetryable g"
    "gmSignsOutAccount g \<longrightarrow>
       (\<exists>d. apiDetails a = Some d \<and> d ''reason'' = Some (AnyString ''not_signed_in''))"
  proof (cases "gmSignsOutAccount g")
    case True
    with row(2) have "gmReason g \<noteq> []" and "ReasonByName (gmReason g) = Some ReasonNotSignedIn"
      by (simp_all add: ReasonByName_not_signed_in)
    from fromGM_reason [OF gm _ no_override this] agree that show ?thesis by auto
  next
    case False
    with row(2) have "gmReason g = []" by simp
    from fromGM_no_reason [OF gm _ no_override this] agree that False show ?thesis by auto
  qed
  then show ?thesis
    using row(3) api agree retry [OF a(2,4)]
    by (auto simp: From_def Error_HTTPStatus_def)
qed

theorem classified_errors_reach_the_api_witness:
  "\<exists>g a. Classify (Some (Sentinel ErrInvalidCredentials))
            = Some (g, Some (Sentinel ErrInvalidCredentials))
     \<and> From (Some (GmError g (Some (Sentinel ErrInvalidCredentials))))
            = Some (a, Some (Sentinel ErrInvalidCredentials))
     \<and> Error_HTTPStatus a = 409
     \<and> (\<exists>d. apiDetails a = Some d \<and> d ''reason'' = Some (AnyString ''not_signed_in''))"
proof -
  let ?e = "Sentinel ErrInvalidCredentials"
  have c: "Classify (Some ?e)
      = Some (notSignedIn (classified_text ErrInvalidCredentials), Some ?e)"
    by (simp add: Classify_def classify_sentinel_def)
  have n: "as_gm_error ?e = None" "as_api_error ?e = None" by simp_all
  show ?thesis
    using c classified_errors_reach_the_api [OF n c]
    by (auto simp: notSignedIn_def gm_newError_def)
qed

lemma Known_internal: "Known CodeInternalError"
  by code_simp

lemma fromGM_Known: "fromGM err = Some (a, i) \<Longrightarrow> Known (apiCode a)"
  by (auto simp: fromGM_def internal_from_def New_def Let_def Known_internal
      split: option.splits if_split_asm)

text \<open>C34: the funnel is total and keeps the vocabulary closed. Whatever error comes in, an API error comes out,
  and its code is in the table, provided that an API error which the caller already wrapped has a code of the
  table: that one passes through as it is. An error that nobody classified, neither as an API error nor as
  a library error, becomes \<open>internal_error\<close> with a fixed sentence, so no part of its text is served.\<close>

theorem From_keeps_vocabulary_closed:
  assumes "\<And>already i. as_api_error e = Some (already, i) \<Longrightarrow> Known (apiCode already)"
  shows "\<exists>a i. From (Some e) = Some (a, i) \<and> Known (apiCode a)
    \<and> (as_api_error e = Some (a, i) \<or> as_api_error e = None)
    \<and> (as_api_error e = None \<and> as_gm_error e = None \<longrightarrow> apiCode a = CodeInternalError \<and> apiMessage a = internal_text
          \<and> apiDetails a = None)"
proof (cases "as_api_error e")
  case (Some t)
  then show ?thesis using assms by (cases t) (simp add: From_def)
next
  case none: None
  show ?thesis
  proof (cases "fromGM e")
    case None
    with none show ?thesis by (simp add: From_def internal_from_def New_def Known_internal)
  next
    case (Some t)
    obtain a i where t: "t = (a, i)" by (cases t)
    from Some have "as_gm_error e \<noteq> None"
      by (cases "as_gm_error e") (simp_all add: fromGM_def)
    with none Some t show ?thesis
      by (auto simp: From_def dest: fromGM_Known)
  qed
qed

theorem From_keeps_vocabulary_closed_witness:
  "\<exists>a i. From (Some (Opaque ''open /data/agent-gm.sqlite3: permission denied'')) = Some (a, i)
     \<and> apiMessage a = internal_text \<and> apiDetails a = None"
proof -
  let ?e = "Opaque ''open /data/agent-gm.sqlite3: permission denied''"
  have "as_api_error ?e = None" and "as_gm_error ?e = None" by simp_all
  then show ?thesis using From_keeps_vocabulary_closed [of ?e] by auto
qed

text \<open>A query is accepted exactly when every parameter is defined for the route; otherwise
  the answer names the least unknown parameter, whatever order the parameters are visited in.\<close>

theorem DecodeQuery_names_least_unknown:
  "(DecodeQuery names allowed = None \<longleftrightarrow> set names \<subseteq> set allowed)
   \<and> (\<not> set names \<subseteq> set allowed \<longrightarrow>
        DecodeQuery names allowed = Some (UnknownQueryParameter (Min (set names - set allowed))))"
proof -
  let ?u = "filter (\<lambda>n. n \<notin> set allowed) names"
  have set_u: "set (sort ?u) = set names - set allowed" by auto
  show ?thesis
  proof (cases "sort ?u")
    case Nil
    with set_u show ?thesis by (auto simp: DecodeQuery_def)
  next
    case (Cons n ns)
    have "sorted (n # ns)" using sorted_sort [of ?u] Cons by simp
    then have "Min (set (n # ns)) = n" by (auto intro: Min_eqI)
    with set_u Cons have "Min (set names - set allowed) = n" by metis
    moreover from set_u Cons have "\<not> set names \<subseteq> set allowed" by auto
    ultimately show ?thesis using Cons by (simp add: DecodeQuery_def)
  qed
qed

theorem DecodeQuery_names_least_unknown_witness:
  "\<not> set [''limit'', ''zz'', ''directon''] \<subseteq> set [''limit'', ''direction'']
   \<and> DecodeQuery [''limit'', ''zz'', ''directon''] [''limit'', ''direction''] =
       Some (UnknownQueryParameter ''directon'')"
proof -
  let ?n = "[''limit'', ''zz'', ''directon'']" and ?a = "[''limit'', ''direction'']"
  have h: "\<not> set ?n \<subseteq> set ?a" by simp
  have "Min (set ?n - set ?a) = ''directon''" by code_simp
  with h DecodeQuery_names_least_unknown [of ?n ?a] show ?thesis by simp
qed

text \<open>Reading a quoted header parameter back, up to its closing quote.\<close>

fun unquote_header :: "string \<Rightarrow> (string \<times> string) option" where
  "unquote_header [] = None"
| "unquote_header (c # s) =
     (if c = CHR 0x22 then Some ([], s)
      else if c = CHR 0x5C then
        (case s of [] \<Rightarrow> None
         | d # s' \<Rightarrow> map_option (\<lambda>(v, rest). (d # v, rest)) (unquote_header s'))
      else map_option (\<lambda>(v, rest). (c # v, rest)) (unquote_header s))"

text \<open>No value can break out of a quoted header parameter: reading the quoted form back,
  whatever follows it, yields exactly the value and the rest.\<close>

theorem quote_header_roundtrip:
  "unquote_header (quote_header s @ CHR 0x22 # rest) = Some (s, rest)"
  by (induction s) auto

end
