(* ===== verification/Utf8.thy ===== *)
theory Utf8
  imports Agm_Prelude
begin

text \<open>
  The part of Go's \<open>unicode/utf8\<close>, \<open>unicode\<close> and \<open>strings\<close> packages that the
  repository uses on byte strings: decoding one rune with its width (an undecodable byte is
  U+FFFD of width 1), encoding, the range loop over a string, validity, rune count, control and
  space classes, and trimming.
\<close>

section \<open>Runes\<close>

abbreviation RuneError :: nat where "RuneError \<equiv> 0xFFFD"

definition valid_rune :: "nat \<Rightarrow> bool" where
  "valid_rune r \<longleftrightarrow> r < 0xD800 \<or> (0xDFFF < r \<and> r \<le> 0x10FFFF)"

definition is_cont :: "nat \<Rightarrow> bool" where
  "is_cont b \<longleftrightarrow> 0x80 \<le> b \<and> b \<le> 0xBF"

definition decode2 :: "nat \<Rightarrow> nat list \<Rightarrow> nat \<times> nat" where
  "decode2 b0 bs =
     (case bs of
        b1 # _ \<Rightarrow> if is_cont b1 then ((b0 - 0xC0) * 64 + (b1 - 0x80), 2) else (RuneError, 1)
      | [] \<Rightarrow> (RuneError, 1))"

definition decode3 :: "nat \<Rightarrow> nat list \<Rightarrow> nat \<times> nat" where
  "decode3 b0 bs =
     (case bs of
        b1 # b2 # _ \<Rightarrow>
          if (if b0 = 0xE0 then 0xA0 else 0x80) \<le> b1 \<and> b1 \<le> (if b0 = 0xED then 0x9F else 0xBF)
             \<and> is_cont b2
          then ((b0 - 0xE0) * 4096 + (b1 - 0x80) * 64 + (b2 - 0x80), 3) else (RuneError, 1)
      | _ \<Rightarrow> (RuneError, 1))"

definition decode4 :: "nat \<Rightarrow> nat list \<Rightarrow> nat \<times> nat" where
  "decode4 b0 bs =
     (case bs of
        b1 # b2 # b3 # _ \<Rightarrow>
          if (if b0 = 0xF0 then 0x90 else 0x80) \<le> b1 \<and> b1 \<le> (if b0 = 0xF4 then 0x8F else 0xBF)
             \<and> is_cont b2 \<and> is_cont b3
          then ((b0 - 0xF0) * 262144 + (b1 - 0x80) * 4096 + (b2 - 0x80) * 64 + (b3 - 0x80), 4)
          else (RuneError, 1)
      | _ \<Rightarrow> (RuneError, 1))"

definition decode_bytes :: "nat list \<Rightarrow> nat \<times> nat" where
  "decode_bytes bs =
     (case bs of
        [] \<Rightarrow> (RuneError, 0)
      | b0 # rest \<Rightarrow>
          if b0 < 0x80 then (b0, 1)
          else if 0xC2 \<le> b0 \<and> b0 \<le> 0xDF then decode2 b0 rest
          else if 0xE0 \<le> b0 \<and> b0 \<le> 0xEF then decode3 b0 rest
          else if 0xF0 \<le> b0 \<and> b0 \<le> 0xF4 then decode4 b0 rest
          else (RuneError, 1))"

definition DecodeRune :: "string \<Rightarrow> nat \<times> nat" where
  "DecodeRune s = decode_bytes (map of_char s)"

definition encode_bytes :: "nat \<Rightarrow> nat list" where
  "encode_bytes r =
     (if r < 0x80 then [r]
      else if r < 0x800 then [0xC0 + r div 64, 0x80 + r mod 64]
      else if \<not> valid_rune r then [0xEF, 0xBF, 0xBD]
      else if r < 0x10000 then [0xE0 + r div 4096, 0x80 + r div 64 mod 64, 0x80 + r mod 64]
      else [0xF0 + r div 262144, 0x80 + r div 4096 mod 64, 0x80 + r div 64 mod 64, 0x80 + r mod 64])"

definition EncodeRune :: "nat \<Rightarrow> string" where
  "EncodeRune r = map char_of (encode_bytes r)"

section \<open>Decoding inverts encoding\<close>

lemma split64: "r = r div 64 * 64 + r mod 64" for r :: nat
  by simp

lemma split4096: "r = r div 4096 * 4096 + r div 64 mod 64 * 64 + r mod 64" for r :: nat
proof -
  have "r div 4096 = r div 64 div 64" by (simp add: div_mult2_eq [symmetric])
  then show ?thesis using split64 [of r] split64 [of "r div 64"] by linarith
qed

lemma split262144:
  "r = r div 262144 * 262144 + r div 4096 mod 64 * 4096 + r div 64 mod 64 * 64 + r mod 64" for r :: nat
proof -
  have "r div 262144 = r div 4096 div 64" by (simp add: div_mult2_eq [symmetric])
  then show ?thesis using split4096 [of r] split64 [of "r div 4096"] by linarith
qed

lemma mod64_le [simp]: "x mod 64 \<le> (63 :: nat)"
  using mod_less_divisor [of 64 x] by linarith

lemma digits3:
  assumes "e < 64" "f < 64"
  shows "(d * 4096 + e * 64 + f) div 4096 = d" "(d * 4096 + e * 64 + f) div 64 = d * 64 + e"
    "(d * 4096 + e * 64 + f) mod 64 = (f :: nat)"
proof -
  have eq: "d * 4096 + e * 64 + f = (d * 64 + e) * 64 + f" by simp
  have f: "((d * 64 + e) * 64 + f) div 64 = d * 64 + e" using assms by simp
  have g: "((d * 64 + e) * 64 + f) mod 64 = f" unfolding mod_mult_self3 using assms by simp
  show "(d * 4096 + e * 64 + f) div 64 = d * 64 + e" using f eq by simp
  show "(d * 4096 + e * 64 + f) mod 64 = f" by (subst eq) (rule g)
  have "(d * 4096 + e * 64 + f) div 4096 = (d * 4096 + e * 64 + f) div 64 div 64"
    by (simp only: div_mult2_eq [symmetric]) simp
  also have "\<dots> = d" using f eq assms by simp
  finally show "(d * 4096 + e * 64 + f) div 4096 = d" .
qed

lemma decode3_digits:
  assumes "a < 16" "b < 64" "c < 64" "a = 0 \<Longrightarrow> 0x20 \<le> b" "a = 13 \<Longrightarrow> b < 0x20"
  shows "decode_bytes ((0xE0 + a) # (0x80 + b) # (0x80 + c) # rest) = (a * 4096 + b * 64 + c, 3)"
  using assms by (auto simp: decode_bytes_def decode3_def is_cont_def)

lemma decode4_digits:
  assumes "a \<le> 4" "b < 64" "c < 64" "d < 64" "a = 0 \<Longrightarrow> 0x10 \<le> b" "a = 4 \<Longrightarrow> b < 0x10"
  shows "decode_bytes ((0xF0 + a) # (0x80 + b) # (0x80 + c) # (0x80 + d) # rest) =
    (a * 262144 + b * 4096 + c * 64 + d, 4)"
  using assms by (auto simp: decode_bytes_def decode4_def is_cont_def)

lemma decode_encode_bytes:
  assumes "valid_rune r"
  shows "decode_bytes (encode_bytes r @ rest) = (r, length (encode_bytes r))"
proof -
  from assms have "r < 0x80 \<or> (0x80 \<le> r \<and> r < 0x800) \<or> (0x800 \<le> r \<and> r < 0x10000)
      \<or> (0x10000 \<le> r \<and> r \<le> 0x10FFFF)"
    unfolding valid_rune_def by linarith
  then consider "r < 0x80" | "0x80 \<le> r" "r < 0x800" | "0x800 \<le> r" "r < 0x10000" | "0x10000 \<le> r" "r \<le> 0x10FFFF"
    by blast
  then show ?thesis
  proof cases
    case 1
    then show ?thesis by (simp add: decode_bytes_def encode_bytes_def)
  next
    case 2
    moreover have "2 \<le> r div 64" "r div 64 < 32" "r mod 64 < 64" using 2 by auto
    ultimately show ?thesis
      by (simp add: decode_bytes_def encode_bytes_def decode2_def is_cont_def)
  next
    case 3
    let ?a = "r div 4096" and ?b = "r div 64 mod 64" and ?c = "r mod 64"
    have sum: "?a * 4096 + ?b * 64 + ?c = r" by (rule split4096 [symmetric])
    have bounds: "?a < 16" "?b < 64" "?c < 64" using 3 by auto
    have "0x20 \<le> ?b" if "?a = 0" using sum bounds 3 unfolding that by linarith
    moreover have "?b < 0x20" if "?a = 13"
      using sum bounds assms unfolding that valid_rune_def by linarith
    ultimately have "decode_bytes ((0xE0 + ?a) # (0x80 + ?b) # (0x80 + ?c) # rest) = (r, 3)"
      using decode3_digits [OF bounds, of rest] sum by simp
    moreover have "encode_bytes r = [0xE0 + ?a, 0x80 + ?b, 0x80 + ?c]"
      using 3 assms by (simp add: encode_bytes_def)
    ultimately show ?thesis by simp
  next
    case 4
    let ?a = "r div 262144" and ?b = "r div 4096 mod 64" and ?c = "r div 64 mod 64" and ?d = "r mod 64"
    have sum: "?a * 262144 + ?b * 4096 + ?c * 64 + ?d = r" by (rule split262144 [symmetric])
    have bounds: "?a \<le> 4" "?b < 64" "?c < 64" "?d < 64" using 4 by auto
    have "0x10 \<le> ?b" if "?a = 0" using sum bounds 4 unfolding that by linarith
    moreover have "?b < 0x10" if "?a = 4" using sum 4 unfolding that by linarith
    ultimately have "decode_bytes ((0xF0 + ?a) # (0x80 + ?b) # (0x80 + ?c) # (0x80 + ?d) # rest) = (r, 4)"
      using decode4_digits [OF bounds, of rest] sum by simp
    moreover have "encode_bytes r = [0xF0 + ?a, 0x80 + ?b, 0x80 + ?c, 0x80 + ?d]"
      using 4 assms by (simp add: encode_bytes_def)
    ultimately show ?thesis by simp
  qed
qed

lemma encode_bytes_length: "1 \<le> length (encode_bytes r)" "length (encode_bytes r) \<le> 4"
  by (simp_all add: encode_bytes_def)

lemma encode_bytes_byte: "b \<in> set (encode_bytes r) \<Longrightarrow> valid_rune r \<Longrightarrow> b < 256"
proof -
  assume b: "b \<in> set (encode_bytes r)" and v: "valid_rune r"
  have "r < 0x800 \<Longrightarrow> r div 64 < 32" "r < 0x10000 \<Longrightarrow> r div 4096 < 16" by auto
  moreover have "r div 262144 \<le> 4" using v by (auto simp: valid_rune_def)
  ultimately show "b < 256"
    using b v by (auto simp: encode_bytes_def split: if_splits)
qed

text \<open>Decoding a non-empty string consumes at least one byte and never more than there are; a
  rune that is not a decoding failure is valid and its encoding is what was consumed.\<close>

lemma cont_digit:
  fixes b :: nat
  assumes "0x80 \<le> b" "b \<le> 0xBF"
  obtains d where "b = 0x80 + d" "d < 64"
proof
  show "b = 0x80 + (b - 0x80)" "b - 0x80 < 64" using assms by linarith+
qed

lemma encode2_digits:
  assumes "2 \<le> e" "e < 32" "d < 64"
  shows "encode_bytes (e * 64 + d) = [0xC0 + e, 0x80 + d] \<and> valid_rune (e * 64 + d)"
proof -
  have "e * 64 + d < 0x800" "\<not> e * 64 + d < 0x80" using assms by linarith+
  then show ?thesis using assms by (simp add: encode_bytes_def valid_rune_def)
qed

lemma encode3_digits:
  assumes "d < 16" "e < 64" "f < 64" "d = 0 \<Longrightarrow> 0x20 \<le> e" "d = 13 \<Longrightarrow> e < 0x20"
  shows "encode_bytes (d * 4096 + e * 64 + f) = [0xE0 + d, 0x80 + e, 0x80 + f]
    \<and> valid_rune (d * 4096 + e * 64 + f)"
proof -
  let ?r = "d * 4096 + e * 64 + f"
  have "\<not> ?r < 0x800" using assms(4) by (cases "d = 0") linarith+
  moreover have "?r < 0x10000" using assms by linarith
  moreover have "valid_rune ?r"
  proof -
    consider "d < 13" | "d = 13" | "13 < d" by linarith
    then have "?r < 0xD800 \<or> 0xDFFF < ?r"
    proof cases
      case 1
      then show ?thesis using assms by linarith
    next
      case 2
      with assms show ?thesis by linarith
    next
      case 3
      then show ?thesis by linarith
    qed
    with calculation show ?thesis unfolding valid_rune_def by linarith
  qed
  moreover have "?r div 4096 = d" "?r div 64 mod 64 = e" "?r mod 64 = f"
    using digits3 [OF assms(2,3), of d] assms(2) by simp_all
  ultimately show ?thesis by (simp add: encode_bytes_def)
qed

lemma encode4_digits:
  assumes "d \<le> 4" "e < 64" "f < 64" "g < 64" "d = 0 \<Longrightarrow> 0x10 \<le> e" "d = 4 \<Longrightarrow> e < 0x10"
  shows "encode_bytes (d * 262144 + e * 4096 + f * 64 + g) = [0xF0 + d, 0x80 + e, 0x80 + f, 0x80 + g]
    \<and> valid_rune (d * 262144 + e * 4096 + f * 64 + g)"
proof -
  let ?r = "d * 262144 + e * 4096 + f * 64 + g"
  have hi3: "?r = (d * 64 + e) * 4096 + f * 64 + g" by simp
  note dig = digits3 [OF assms(3,4), of "d * 64 + e"]
  have low: "\<not> ?r < 0x10000" using assms(5) by (cases "d = 0") linarith+
  moreover have "?r \<le> 0x10FFFF" using assms by (cases "d = 4") linarith+
  ultimately have "valid_rune ?r" unfolding valid_rune_def by linarith
  moreover have "?r div 4096 = d * 64 + e" unfolding hi3 by (rule dig(1))
  moreover have "?r div 64 mod 64 = f"
    unfolding hi3 dig(2) mod_mult_self3 using assms(3) by simp
  moreover have "?r mod 64 = g" unfolding hi3 by (rule dig(3))
  moreover have "?r div 262144 = ?r div 4096 div 64" by (simp only: div_mult2_eq [symmetric]) simp
  ultimately show ?thesis using low assms(2) by (simp add: encode_bytes_def)
qed

lemma encode_decode2:
  assumes "0xC2 \<le> b0" "b0 \<le> 0xDF" and "decode2 b0 bs = (r, w)"
  shows "(r, w) = (RuneError, 1) \<or> (w = 2 \<and> 2 \<le> length (b0 # bs) \<and> valid_rune r \<and> encode_bytes r = take w (b0 # bs))"
proof (cases "\<exists>b1 rest. bs = b1 # rest \<and> is_cont b1")
  case False
  with assms(3) show ?thesis by (auto simp: decode2_def split: list.splits)
next
  case True
  then obtain b1 rest where bs: "bs = b1 # rest" and c1: "is_cont b1" by blast
  obtain d where d: "b1 = 0x80 + d" "d < 64" using c1 cont_digit by (auto simp: is_cont_def)
  define e where "e = b0 - 0xC0"
  have e: "b0 = 0xC0 + e" "2 \<le> e" "e < 32" unfolding e_def using assms(1,2) by linarith+
  have "r = e * 64 + d" "w = 2" using assms(3) c1 unfolding bs d e by (simp_all add: decode2_def)
  with encode2_digits [OF e(2,3) d(2)] show ?thesis unfolding bs d e by simp
qed

lemma encode_decode3:
  assumes "0xE0 \<le> b0" "b0 \<le> 0xEF" and "decode3 b0 bs = (r, w)"
  shows "(r, w) = (RuneError, 1) \<or> (w = 3 \<and> 3 \<le> length (b0 # bs) \<and> valid_rune r \<and> encode_bytes r = take w (b0 # bs))"
proof (cases "\<exists>b1 b2 rest. bs = b1 # b2 # rest \<and>
      (if b0 = 0xE0 then 0xA0 else 0x80) \<le> b1 \<and> b1 \<le> (if b0 = 0xED then 0x9F else 0xBF) \<and> is_cont b2")
  case False
  have "(r, w) = (RuneError, 1)"
    using assms(3) False unfolding decode3_def
    by (cases bs; cases "tl bs") (auto split: if_split_asm)
  then show ?thesis by blast
next
  case True
  then obtain b1 b2 rest where bs: "bs = b1 # b2 # rest"
    and lo: "(if b0 = 0xE0 then 0xA0 else 0x80) \<le> b1" and hi: "b1 \<le> (if b0 = 0xED then 0x9F else 0xBF)"
    and c2: "is_cont b2" by blast
  obtain f where f: "b2 = 0x80 + f" "f < 64" using c2 cont_digit by (auto simp: is_cont_def)
  have "0x80 \<le> b1" "b1 \<le> 0xBF" using lo hi by (simp_all split: if_split_asm)
  then obtain e where e: "b1 = 0x80 + e" "e < 64" by (rule cont_digit)
  define d where "d = b0 - 0xE0"
  have d: "b0 = 0xE0 + d" "d < 16" unfolding d_def using assms(1,2) by linarith+
  have "r = d * 4096 + e * 64 + f" "w = 3"
    using assms(3) lo hi c2 unfolding bs d e f by (simp_all add: decode3_def)
  moreover have "d = 0 \<Longrightarrow> 0x20 \<le> e" "d = 13 \<Longrightarrow> e < 0x20" using lo hi unfolding d e by simp_all
  ultimately show ?thesis using encode3_digits [OF d(2) e(2) f(2)] unfolding bs d e f by simp
qed

lemma encode_decode4:
  assumes "0xF0 \<le> b0" "b0 \<le> 0xF4" and "decode4 b0 bs = (r, w)"
  shows "(r, w) = (RuneError, 1) \<or> (w = 4 \<and> 4 \<le> length (b0 # bs) \<and> valid_rune r \<and> encode_bytes r = take w (b0 # bs))"
proof (cases "\<exists>b1 b2 b3 rest. bs = b1 # b2 # b3 # rest \<and>
      (if b0 = 0xF0 then 0x90 else 0x80) \<le> b1 \<and> b1 \<le> (if b0 = 0xF4 then 0x8F else 0xBF)
      \<and> is_cont b2 \<and> is_cont b3")
  case False
  have "(r, w) = (RuneError, 1)"
    using assms(3) False unfolding decode4_def
    by (cases bs; cases "tl bs"; cases "tl (tl bs)") (auto split: if_split_asm)
  then show ?thesis by blast
next
  case True
  then obtain b1 b2 b3 rest where bs: "bs = b1 # b2 # b3 # rest"
    and lo: "(if b0 = 0xF0 then 0x90 else 0x80) \<le> b1" and hi: "b1 \<le> (if b0 = 0xF4 then 0x8F else 0xBF)"
    and c2: "is_cont b2" and c3: "is_cont b3" by blast
  obtain f where f: "b2 = 0x80 + f" "f < 64" using c2 cont_digit by (auto simp: is_cont_def)
  obtain g where g: "b3 = 0x80 + g" "g < 64" using c3 cont_digit by (auto simp: is_cont_def)
  have "0x80 \<le> b1" "b1 \<le> 0xBF" using lo hi by (simp_all split: if_split_asm)
  then obtain e where e: "b1 = 0x80 + e" "e < 64" by (rule cont_digit)
  define d where "d = b0 - 0xF0"
  have d: "b0 = 0xF0 + d" "d \<le> 4" unfolding d_def using assms(1,2) by linarith+
  have "r = d * 262144 + e * 4096 + f * 64 + g" "w = 4"
    using assms(3) lo hi c2 c3 unfolding bs d e f g by (simp_all add: decode4_def)
  moreover have "d = 0 \<Longrightarrow> 0x10 \<le> e" "d = 4 \<Longrightarrow> e < 0x10" using lo hi unfolding d e by simp_all
  ultimately show ?thesis using encode4_digits [OF d(2) e(2) f(2) g(2)] unfolding bs d e f g by simp
qed

lemma encode_decode_bytes:
  assumes "bs \<noteq> []" and "decode_bytes bs = (r, w)"
  shows "(r, w) = (RuneError, 1) \<or>
    (1 \<le> w \<and> w \<le> length bs \<and> valid_rune r \<and> encode_bytes r = take w bs)"
proof -
  obtain b0 rest where bs: "bs = b0 # rest" using assms(1) by (cases bs) auto
  consider "b0 < 0x80" | "0xC2 \<le> b0" "b0 \<le> 0xDF" | "0xE0 \<le> b0" "b0 \<le> 0xEF"
    | "0xF0 \<le> b0" "b0 \<le> 0xF4" | "(r, w) = (RuneError, 1)"
    using assms(2) unfolding bs by (simp add: decode_bytes_def split: if_split_asm)
  then show ?thesis
  proof cases
    case 1
    then show ?thesis using assms(2) unfolding bs
      by (auto simp: decode_bytes_def encode_bytes_def valid_rune_def)
  next
    case 2
    have "decode2 b0 rest = (r, w)" using assms(2) 2 unfolding bs by (simp add: decode_bytes_def)
    from encode_decode2 [OF 2 this] show ?thesis unfolding bs by auto
  next
    case 3
    have "decode3 b0 rest = (r, w)" using assms(2) 3 unfolding bs by (simp add: decode_bytes_def)
    from encode_decode3 [OF 3 this] show ?thesis unfolding bs by auto
  next
    case 4
    have "decode4 b0 rest = (r, w)" using assms(2) 4 unfolding bs by (simp add: decode_bytes_def)
    from encode_decode4 [OF 4 this] show ?thesis unfolding bs by auto
  qed simp
qed

section \<open>The same on byte strings\<close>

lemma map_of_char_EncodeRune: "valid_rune r \<Longrightarrow> map of_char (EncodeRune r) = encode_bytes r"
  unfolding EncodeRune_def map_map
  by (rule map_idI) (auto dest: encode_bytes_byte)

lemma length_EncodeRune [simp]: "length (EncodeRune r) = length (encode_bytes r)"
  by (simp add: EncodeRune_def)

lemma EncodeRune_nonempty [simp]: "EncodeRune r \<noteq> []"
  by (simp add: EncodeRune_def encode_bytes_def)

lemma DecodeRune_EncodeRune:
  "valid_rune r \<Longrightarrow> DecodeRune (EncodeRune r @ s) = (r, length (EncodeRune r))"
  by (simp add: DecodeRune_def map_of_char_EncodeRune decode_encode_bytes)

lemma EncodeRune_DecodeRune:
  assumes "s \<noteq> []" and "DecodeRune s = (r, w)"
  shows "(r, w) = (RuneError, 1) \<or> (1 \<le> w \<and> w \<le> length s \<and> valid_rune r \<and> EncodeRune r = take w s)"
proof -
  have chars: "EncodeRune r = take w s" if "encode_bytes r = take w (map of_char s)"
    using that by (simp add: EncodeRune_def take_map o_def)
  show ?thesis
    using encode_decode_bytes [of "map of_char s" r w] assms chars by (auto simp: DecodeRune_def)
qed

lemma DecodeRune_width: "s \<noteq> [] \<Longrightarrow> 1 \<le> snd (DecodeRune s) \<and> snd (DecodeRune s) \<le> length s"
  using EncodeRune_DecodeRune [of s "fst (DecodeRune s)" "snd (DecodeRune s)"]
  by (cases s) auto

section \<open>The range loop\<close>

text \<open>\<open>segments s\<close> is what \<open>for i, r := range s\<close> visits: each rune with the bytes it was
  decoded from.\<close>

function segments :: "string \<Rightarrow> (nat \<times> string) list" where
  "segments s =
     (if s = [] then []
      else let (r, w) = DecodeRune s in (r, take w s) # segments (drop w s))"
  by pat_completeness auto
termination
proof (relation "measure length")
  fix s :: string and x :: "nat \<times> nat" and r w
  assume "s \<noteq> []" and "x = DecodeRune s" and "(r, w) = x"
  then have "1 \<le> w" "w \<le> length s" using DecodeRune_width [of s] by (metis snd_conv)+
  then show "(drop w s, s) \<in> measure length" by simp
qed simp

declare segments.simps [simp del]

lemma segments_Nil [simp]: "segments [] = []"
  by (simp add: segments.simps)

definition bad_segment :: "nat \<times> string \<Rightarrow> bool" where
  "bad_segment seg \<longleftrightarrow> fst seg = RuneError \<and> length (snd seg) = 1"

definition ValidString :: "string \<Rightarrow> bool" where
  "ValidString s \<longleftrightarrow> list_all (\<lambda>seg. \<not> bad_segment seg) (segments s)"

definition runes :: "string \<Rightarrow> nat list" where
  "runes s = map fst (segments s)"

definition RuneCount :: "string \<Rightarrow> nat" where
  "RuneCount s = length (segments s)"

definition utf8 :: "nat list \<Rightarrow> string" where
  "utf8 rs = concat (map EncodeRune rs)"

lemma utf8_simps [simp]:
  "utf8 [] = []" "utf8 (r # rs) = EncodeRune r @ utf8 rs" "utf8 (rs @ qs) = utf8 rs @ utf8 qs"
  by (simp_all add: utf8_def)

lemma segments_EncodeRune:
  "valid_rune r \<Longrightarrow> segments (EncodeRune r @ s) = (r, EncodeRune r) # segments s"
  by (subst segments.simps) (simp add: DecodeRune_EncodeRune)

lemma segments_utf8:
  "list_all valid_rune rs \<Longrightarrow> segments (utf8 rs) = map (\<lambda>r. (r, EncodeRune r)) rs"
  by (induction rs) (simp_all add: segments_EncodeRune)

lemma EncodeRune_RuneError: "length (EncodeRune RuneError) = 3"
  by (simp add: encode_bytes_def valid_rune_def)

lemma utf8_valid: "list_all valid_rune rs \<Longrightarrow> ValidString (utf8 rs) \<and> runes (utf8 rs) = rs"
proof -
  assume v: "list_all valid_rune rs"
  have "\<not> bad_segment (r, EncodeRune r)" for r
    using EncodeRune_RuneError by (auto simp: bad_segment_def)
  then show ?thesis
    by (simp add: ValidString_def runes_def segments_utf8 [OF v] list_all_iff o_def)
qed

text \<open>Every visited segment that is not a decoding failure is the encoding of a valid rune.\<close>

lemma segments_good:
  "seg \<in> set (segments s) \<Longrightarrow> \<not> bad_segment seg \<Longrightarrow> valid_rune (fst seg) \<and> snd seg = EncodeRune (fst seg)"
proof (induction s rule: segments.induct)
  case (1 s)
  show ?case
  proof (cases "s = []")
    case False
    obtain r w where d: "DecodeRune s = (r, w)" by fastforce
    have seg: "segments s = (r, take w s) # segments (drop w s)"
      using False d by (simp add: segments.simps [of s])
    show ?thesis
    proof (cases "seg = (r, take w s)")
      case True
      with 1(3) EncodeRune_DecodeRune [OF False d] show ?thesis
        using False by (cases s) (auto simp: bad_segment_def)
    next
      case other: False
      with seg 1(2) have "seg \<in> set (segments (drop w s))" by auto
      from 1(1) [OF False d [symmetric] refl this 1(3)] show ?thesis .
    qed
  qed (use 1 in simp)
qed

lemma concat_segments: "concat (map snd (segments s)) = s"
proof (induction s rule: segments.induct)
  case (1 s)
  show ?case
  proof (cases "s = []")
    case False
    obtain r w where d: "DecodeRune s = (r, w)" by fastforce
    from 1 [OF False d [symmetric] refl] have "concat (map snd (segments (drop w s))) = drop w s" .
    with False d show ?thesis by (simp add: segments.simps [of s])
  qed simp
qed

lemma ValidString_utf8:
  assumes "ValidString s"
  shows "utf8 (runes s) = s" and "list_all valid_rune (runes s)"
proof -
  have good: "valid_rune (fst seg) \<and> snd seg = EncodeRune (fst seg)" if "seg \<in> set (segments s)" for seg
    using segments_good [OF that] assms that by (auto simp: ValidString_def list_all_iff)
  have "utf8 (runes s) = concat (map (\<lambda>seg. EncodeRune (fst seg)) (segments s))"
    by (simp add: utf8_def runes_def o_def)
  also have "map (\<lambda>seg. EncodeRune (fst seg)) (segments s) = map snd (segments s)"
    by (rule map_cong) (auto dest: good)
  also have "concat (map snd (segments s)) = s" by (rule concat_segments)
  finally show "utf8 (runes s) = s" .
  show "list_all valid_rune (runes s)"
    using good by (auto simp: runes_def list_all_iff)
qed

end
