(* ===== verification/Normalize.thy ===== *)
theory Normalize
  imports Utf8
begin

text \<open>
  Normalisation of caller-supplied text (\<open>internal/apierr/normalize.go\<close>): a reason is cleaned
  and bounded, a filename is also stripped of its directory part. Each function returns the
  text and the warnings that say what changed.
\<close>

section \<open>Character classes and trimming\<close>

text \<open>\<open>unicode.IsControl\<close> and \<open>unicode.IsSpace\<close>.\<close>

definition IsControl :: "nat \<Rightarrow> bool" where
  "IsControl r \<longleftrightarrow> r < 0x20 \<or> (0x7F \<le> r \<and> r < 0xA0)"

definition IsSpace :: "nat \<Rightarrow> bool" where
  "IsSpace r \<longleftrightarrow> r \<in> {0x09, 0x0A, 0x0B, 0x0C, 0x0D, 0x20, 0x85, 0xA0, 0x1680, 0x2028, 0x2029,
     0x202F, 0x205F, 0x3000} \<or> (0x2000 \<le> r \<and> r \<le> 0x200A)"

definition trim_both :: "('a \<Rightarrow> bool) \<Rightarrow> 'a list \<Rightarrow> 'a list" where
  "trim_both P xs = rev (dropWhile P (rev (dropWhile P xs)))"

definition TrimSpace :: "string \<Rightarrow> string" where
  "TrimSpace s = concat (map snd (trim_both (\<lambda>seg. IsSpace (fst seg)) (segments s)))"

section \<open>The functions\<close>

definition isClean :: "string \<Rightarrow> bool" where
  "isClean s \<longleftrightarrow> ValidString s \<and> list_all (\<lambda>r. \<not> IsControl r) (runes s)"

definition removeControl :: "string \<Rightarrow> string" where
  "removeControl s =
     (if isClean s then s
      else concat (map (\<lambda>seg. if bad_segment seg then [] else if IsControl (fst seg) then []
                              else EncodeRune (fst seg)) (segments s)))"

definition truncateRunes :: "string \<Rightarrow> nat \<Rightarrow> string" where
  "truncateRunes s n =
     (if RuneCount s \<le> n then s else concat (map snd (take n (segments s))))"

abbreviation MaxReasonRunes :: nat where "MaxReasonRunes \<equiv> 500"
abbreviation MaxFilenameRunes :: nat where "MaxFilenameRunes \<equiv> 255"

definition NormalizeReason :: "string \<Rightarrow> string \<times> string list" where
  "NormalizeReason reason =
     (let cleaned = TrimSpace (removeControl reason);
          truncated = truncateRunes cleaned MaxReasonRunes
      in (truncated,
          (if cleaned \<noteq> reason then [''reason_normalized''] else []) @
          (if truncated \<noteq> cleaned then [''reason_truncated''] else [])))"

definition is_separator :: "char \<Rightarrow> bool" where
  "is_separator c \<longleftrightarrow> c = CHR ''/'' \<or> c = CHR 0x5C"

text \<open>What follows the last separator, the whole string when there is none.\<close>

definition after_last_separator :: "string \<Rightarrow> string" where
  "after_last_separator s = rev (takeWhile (\<lambda>c. \<not> is_separator c) (rev s))"

definition NormalizeFilename :: "string \<Rightarrow> string \<times> string list" where
  "NormalizeFilename filename =
     (let base = TrimSpace (after_last_separator (removeControl filename));
          cleaned = (if base = [] \<or> base = ''.'' \<or> base = ''..'' then ''file'' else base);
          truncated = truncateRunes cleaned MaxFilenameRunes
      in (truncated,
          (if cleaned \<noteq> filename then [''filename_normalized''] else []) @
          (if truncated \<noteq> cleaned then [''filename_truncated''] else [])))"

section \<open>On valid strings everything works on runes\<close>

definition clean_runes :: "nat list \<Rightarrow> bool" where
  "clean_runes rs \<longleftrightarrow> list_all (\<lambda>r. valid_rune r \<and> \<not> IsControl r) rs"

lemma clean_runes_subset: "clean_runes rs \<Longrightarrow> set qs \<subseteq> set rs \<Longrightarrow> clean_runes qs"
  by (auto simp: clean_runes_def list_all_iff)

lemma clean_runes_valid: "clean_runes rs \<Longrightarrow> list_all valid_rune rs"
  by (auto simp: clean_runes_def list_all_iff)

lemma clean_utf8: "clean_runes rs \<Longrightarrow> isClean (utf8 rs) \<and> runes (utf8 rs) = rs"
  using utf8_valid [OF clean_runes_valid] by (auto simp: isClean_def clean_runes_def list_all_iff)

lemma isClean_runes: "isClean s \<Longrightarrow> clean_runes (runes s) \<and> utf8 (runes s) = s"
  using ValidString_utf8 [of s] by (auto simp: isClean_def clean_runes_def list_all_iff)

lemma removeControl_clean: "\<exists>rs. clean_runes rs \<and> removeControl s = utf8 rs"
proof (cases "isClean s")
  case True
  then show ?thesis using isClean_runes [of s] by (auto simp: removeControl_def)
next
  case False
  let ?keep = "filter (\<lambda>seg. \<not> bad_segment seg \<and> \<not> IsControl (fst seg)) (segments s)"
  have "concat (map (\<lambda>seg. if bad_segment seg then [] else if IsControl (fst seg) then []
          else EncodeRune (fst seg)) segs) =
        utf8 (map fst (filter (\<lambda>seg. \<not> bad_segment seg \<and> \<not> IsControl (fst seg)) segs))" for segs
    by (induction segs) auto
  then have "removeControl s = utf8 (map fst ?keep)" using False by (simp add: removeControl_def)
  moreover have "clean_runes (map fst ?keep)"
    using segments_good [of _ s] by (fastforce simp: clean_runes_def list_all_iff)
  ultimately show ?thesis by blast
qed

lemma trim_both_map: "trim_both P (map f xs) = map f (trim_both (\<lambda>x. P (f x)) xs)"
  by (simp add: trim_both_def dropWhile_map rev_map o_def)

lemma set_trim_both: "set (trim_both P xs) \<subseteq> set xs"
  by (auto simp: trim_both_def dest!: set_dropWhileD)

lemma TrimSpace_utf8:
  "list_all valid_rune rs \<Longrightarrow> TrimSpace (utf8 rs) = utf8 (trim_both IsSpace rs)"
  by (simp add: TrimSpace_def segments_utf8 trim_both_map) (simp add: utf8_def o_def)

lemma truncateRunes_utf8:
  "list_all valid_rune rs \<Longrightarrow> truncateRunes (utf8 rs) n = utf8 (take n rs)"
  by (simp add: truncateRunes_def RuneCount_def segments_utf8 take_map) (simp add: utf8_def o_def)

lemma EncodeRune_separator:
  assumes "valid_rune r"
  shows "(\<exists>c \<in> set (EncodeRune r). is_separator c) \<longleftrightarrow> r = 0x2F \<or> r = 0x5C"
proof (cases "r < 0x80")
  case True
  then have "EncodeRune r = [char_of r]" by (simp add: EncodeRune_def encode_bytes_def)
  moreover have "char_of r = CHR ''/'' \<longleftrightarrow> r = 0x2F" "char_of r = CHR 0x5C \<longleftrightarrow> r = 0x5C"
    using True by (auto simp: char_of_eq_iff take_bit_eq_mod)
  ultimately show ?thesis by (simp add: is_separator_def)
next
  case False
  have "0x80 \<le> b" if "b \<in> set (encode_bytes r)" for b
    using that False by (auto simp: encode_bytes_def split: if_splits)
  moreover have "of_char c < (0x80 :: nat)" if "is_separator c" for c
    using that by (auto simp: is_separator_def)
  ultimately have "\<not> is_separator c" if "c \<in> set (EncodeRune r)" for c
    using that map_of_char_EncodeRune [OF assms] by (metis imageI list.set_map not_le)
  then show ?thesis using False by auto
qed

definition after_last_rune :: "nat list \<Rightarrow> nat list" where
  "after_last_rune rs = rev (takeWhile (\<lambda>r. r \<noteq> 0x2F \<and> r \<noteq> 0x5C) (rev rs))"

lemma after_last_separator_append:
  "after_last_separator (s @ t) =
     (if \<exists>c \<in> set t. is_separator c then after_last_separator t else after_last_separator s @ t)"
  by (auto simp: after_last_separator_def takeWhile_append)

lemma after_last_separator_utf8:
  "list_all valid_rune rs \<Longrightarrow> after_last_separator (utf8 rs) = utf8 (after_last_rune rs)"
proof (induction rs rule: rev_induct)
  case Nil
  then show ?case by (simp add: after_last_separator_def after_last_rune_def)
next
  case (snoc r rs)
  have "after_last_separator (EncodeRune 0x2F) = []" "after_last_separator (EncodeRune 0x5C) = []"
    by code_simp+
  then have sep: "after_last_separator (EncodeRune r) = []" if "r = 0x2F \<or> r = 0x5C"
    using that by blast
  show ?case
    using snoc sep EncodeRune_separator [of r]
    by (auto simp: after_last_separator_append after_last_rune_def)
qed

lemma set_after_last_rune: "set (after_last_rune rs) \<subseteq> set rs"
  by (auto simp: after_last_rune_def dest: set_takeWhileD)

lemma no_separator_after: "c \<in> set (after_last_separator s) \<Longrightarrow> \<not> is_separator c"
  by (auto simp: after_last_separator_def dest: set_takeWhileD)

lemma set_utf8_mono: "set qs \<subseteq> set rs \<Longrightarrow> set (utf8 qs) \<subseteq> set (utf8 rs)"
  by (auto simp: utf8_def)

text \<open>Cleaning and cutting keep the text clean and bounded.\<close>

lemma truncate_clean:
  assumes "clean_runes rs"
  shows "\<exists>qs. truncateRunes (utf8 rs) n = utf8 qs \<and> clean_runes qs \<and> set qs \<subseteq> set rs
    \<and> length qs \<le> n \<and> (length rs \<le> n \<longrightarrow> qs = rs) \<and> (n \<le> length rs \<longrightarrow> length qs = n)"
  using assms truncateRunes_utf8 [OF clean_runes_valid [OF assms], of n]
  by (intro exI [of _ "take n rs"]) (auto intro: clean_runes_subset set_take_subset dest: in_set_takeD)

lemma RuneCount_utf8: "list_all valid_rune rs \<Longrightarrow> RuneCount (utf8 rs) = length rs"
  by (simp add: RuneCount_def segments_utf8)

lemma ascii_literals:
  "utf8 [0x66, 0x69, 0x6C, 0x65] = ''file''" "utf8 [0x2E] = ''.''" "utf8 [0x2E, 0x2E] = ''..''"
  by code_simp+

lemma default_filename:
  "clean_runes [0x66, 0x69, 0x6C, 0x65]" "''file'' \<noteq> ''.''" "''file'' \<noteq> ''..''"
  "\<forall>c \<in> set ''file''. \<not> is_separator c"
  by (simp_all add: clean_runes_def valid_rune_def IsControl_def is_separator_def)

section \<open>Properties\<close>

lemma cleaned_filename:
  "\<exists>rs. clean_runes rs \<and> rs \<noteq> [] \<and> utf8 rs \<noteq> ''.'' \<and> utf8 rs \<noteq> ''..''
    \<and> (\<forall>c \<in> set (utf8 rs). \<not> is_separator c)
    \<and> (let base = TrimSpace (after_last_separator (removeControl name)) in
        (if base = [] \<or> base = ''.'' \<or> base = ''..'' then ''file'' else base) = utf8 rs)"
proof -
  obtain rs where rs: "clean_runes rs" "removeControl name = utf8 rs"
    using removeControl_clean by blast
  let ?a = "after_last_rune rs" and ?t = "trim_both IsSpace (after_last_rune rs)"
  have a: "clean_runes ?a" using rs(1) set_after_last_rune by (rule clean_runes_subset)
  have t: "clean_runes ?t" using a set_trim_both by (rule clean_runes_subset)
  have base: "TrimSpace (after_last_separator (removeControl name)) = utf8 ?t"
    using rs a by (simp add: after_last_separator_utf8 TrimSpace_utf8 clean_runes_valid)
  have "set (utf8 ?t) \<subseteq> set (after_last_separator (utf8 rs))"
    using rs(1) set_utf8_mono [OF set_trim_both] by (simp add: after_last_separator_utf8 clean_runes_valid)
  then have sep: "\<forall>c \<in> set (utf8 ?t). \<not> is_separator c" using no_separator_after by blast
  show ?thesis
  proof (cases "utf8 ?t = [] \<or> utf8 ?t = ''.'' \<or> utf8 ?t = ''..''")
    case True
    then show ?thesis
      using base default_filename
      by (intro exI [of _ "[0x66, 0x69, 0x6C, 0x65]"])
         (simp only: ascii_literals(1) Let_def if_True, simp)
  next
    case False
    then show ?thesis using base t sep by (intro exI [of _ ?t]) auto
  qed
qed

text \<open>A normalised filename is safe to use as a name: it is valid UTF-8 without control
  characters, it has between 1 and 255 runes, it contains no path separator of either kind and
  is not a directory reference, whatever bytes the caller sent; and a change is never silent.\<close>

theorem NormalizeFilename_safe:
  assumes "NormalizeFilename name = (f, warnings)"
  shows "isClean f \<and> f \<noteq> [] \<and> RuneCount f \<le> MaxFilenameRunes
    \<and> f \<noteq> ''.'' \<and> f \<noteq> ''..'' \<and> CHR ''/'' \<notin> set f \<and> CHR 0x5C \<notin> set f
    \<and> (f \<noteq> name \<longrightarrow> warnings \<noteq> [])"
proof -
  obtain rs where rs: "clean_runes rs" "rs \<noteq> []" "utf8 rs \<noteq> ''.''" "utf8 rs \<noteq> ''..''"
      "\<forall>c \<in> set (utf8 rs). \<not> is_separator c"
    and base: "(let base = TrimSpace (after_last_separator (removeControl name)) in
        (if base = [] \<or> base = ''.'' \<or> base = ''..'' then ''file'' else base)) = utf8 rs"
    using cleaned_filename [of name] unfolding Let_def by blast
  obtain qs where qs: "truncateRunes (utf8 rs) MaxFilenameRunes = utf8 qs" "clean_runes qs"
      "set qs \<subseteq> set rs" "length qs \<le> MaxFilenameRunes"
      "length rs \<le> MaxFilenameRunes \<longrightarrow> qs = rs" "MaxFilenameRunes \<le> length rs \<longrightarrow> length qs = MaxFilenameRunes"
    using truncate_clean [OF rs(1)] by blast
  have f: "f = utf8 qs"
    and w: "warnings = (if utf8 rs \<noteq> name then [''filename_normalized''] else []) @
        (if utf8 qs \<noteq> utf8 rs then [''filename_truncated''] else [])"
    using assms base qs(1) by (auto simp: NormalizeFilename_def Let_def)
  have count: "RuneCount (utf8 qs) = length qs"
    using qs(2) by (simp add: RuneCount_utf8 clean_runes_valid)
  have dots: "RuneCount ''.'' = 1" "RuneCount ''..'' = 2"
    by code_simp+
  have short: "length rs < MaxFilenameRunes \<Longrightarrow> qs = rs" using qs(5) by simp
  have "f \<noteq> ''.'' \<and> f \<noteq> ''..'' \<and> f \<noteq> []"
  proof (cases "length rs < MaxFilenameRunes")
    case True
    then show ?thesis using short rs(2,3,4) f by (cases rs) auto
  next
    case False
    then have "RuneCount f = MaxFilenameRunes" using qs(6) count f by simp
    then show ?thesis using dots by (auto simp: RuneCount_def)
  qed
  moreover have "CHR ''/'' \<notin> set f" "CHR 0x5C \<notin> set f"
    using rs(5) set_utf8_mono [OF qs(3)] f by (auto simp: is_separator_def)
  moreover have "isClean f" using clean_utf8 [OF qs(2)] f by simp
  moreover have "RuneCount f \<le> MaxFilenameRunes" using count f qs(4) by simp
  moreover have "f \<noteq> name \<longrightarrow> warnings \<noteq> []" using w f by auto
  ultimately show ?thesis by blast
qed

theorem NormalizeFilename_safe_witness:
  "isClean (fst (NormalizeFilename ''../x'')) \<and> fst (NormalizeFilename ''../x'') \<noteq> []
   \<and> CHR ''/'' \<notin> set (fst (NormalizeFilename ''../x''))
   \<and> snd (NormalizeFilename ''../x'') \<noteq> []"
proof -
  obtain f w where e: "NormalizeFilename ''../x'' = (f, w)" by fastforce
  have "f \<noteq> ''../x''" using NormalizeFilename_safe [OF e] by auto
  then show ?thesis using e NormalizeFilename_safe [OF e] by simp
qed

end
