(* ===== verification/Operations.thy ===== *)
theory Operations
  imports Agm_Prelude "HOL-Library.Product_Lexorder"
begin

text \<open>
  The operations table (\<open>internal/store/operations.go\<close>): one row per mutation, holding its
  idempotency key and its status. The table is a list of rows in insertion order; every store
  method is a function of the table and of the clock reading \<open>now\<close> in milliseconds, and a
  write returns the new table (each method runs in one transaction on the single writer, so a
  method is one step). Failures of the database file itself are not modelled; constraint
  violations are. Nullable columns are \<open>option\<close>; \<open>scanOperation\<close> is the conversion to
  the Go struct, whose zero values stand for NULL.
\<close>

section \<open>Statuses\<close>

datatype OperationStatus = OpRunning | OpSucceeded | OpPending | OpFailed | OpUnknown

definition OperationTerminal :: "OperationStatus \<Rightarrow> bool" where
  "OperationTerminal s =
     (case s of OpSucceeded \<Rightarrow> True | OpFailed \<Rightarrow> True | OpUnknown \<Rightarrow> True | _ \<Rightarrow> False)"

definition OperationTransitionAllowed :: "OperationStatus \<Rightarrow> OperationStatus \<Rightarrow> bool" where
  "OperationTransitionAllowed from to =
     (if from = to then True
      else case from of
          OpRunning \<Rightarrow> to = OpSucceeded \<or> to = OpFailed \<or> to = OpPending \<or> to = OpUnknown
        | OpPending \<Rightarrow> to = OpSucceeded \<or> to = OpFailed \<or> to = OpUnknown
        | OpUnknown \<Rightarrow> to = OpSucceeded \<or> to = OpFailed
        | _ \<Rightarrow> False)"

abbreviation ErrCrashRecovered :: string where "ErrCrashRecovered \<equiv> ''crash_recovered''"
abbreviation ErrPendingTimeout :: string where "ErrPendingTimeout \<equiv> ''pending_timeout''"

datatype op_error =
    ErrOperationNotFound
  | ErrOperationTransition OperationStatus OperationStatus
  | OpConstraint sql_error
  | ErrNoAccountPredicate

section \<open>Rows and the Go struct\<close>

record op_row =
  oprID :: string
  oprAccountID :: string
  oprKind :: string
  oprAuthorizationID :: string
  oprIdempotencyKey :: "string option"
  oprRequestFingerprint :: string
  oprConversationID :: "string option"
  oprMessageID :: "string option"
  oprTmpID :: "string option"
  oprStatus :: OperationStatus
  oprTerminal :: bool
  oprTerminalAtMS :: "int option"
  oprCorrectedAtMS :: "int option"
  oprErrorCode :: "string option"
  oprErrorMessage :: "string option"
  oprErrorRetryable :: "bool option"
  oprGoogleStatusRaw :: "int option"
  oprRequestPayloadJSON :: string
  oprMediaSizeBytes :: "int option"
  oprCreatedAtMS :: ms
  oprUpdatedAtMS :: ms

record Operation =
  opID :: string
  opAccountID :: string
  opKind :: string
  opAuthorizationID :: string
  opIdempotencyKey :: string
  opRequestFingerprint :: string
  opConversationID :: string
  opMessageID :: string
  opTmpID :: string
  opStatus :: OperationStatus
  opTerminal :: bool
  opTerminalAtMS :: int
  opCorrectedAtMS :: int
  opErrorCode :: string
  opErrorMessage :: string
  opErrorRetryable :: bool
  opHasErrorRetryable :: bool
  opGoogleStatusRaw :: int
  opRequestPayloadJSON :: string
  opMediaSizeBytes :: int
  opCreatedAtMS :: ms
  opUpdatedAtMS :: ms

text \<open>Go's conversion \<open>int32(v)\<close>.\<close>

definition to_int32 :: "int \<Rightarrow> int" where
  "to_int32 v = (v + 2 ^ 31) mod 2 ^ 32 - 2 ^ 31"

definition scanOperation :: "op_row \<Rightarrow> Operation" where
  "scanOperation r =
     \<lparr>opID = oprID r, opAccountID = oprAccountID r, opKind = oprKind r,
      opAuthorizationID = oprAuthorizationID r,
      opIdempotencyKey = scanString (oprIdempotencyKey r),
      opRequestFingerprint = oprRequestFingerprint r,
      opConversationID = scanString (oprConversationID r),
      opMessageID = scanString (oprMessageID r),
      opTmpID = scanString (oprTmpID r),
      opStatus = oprStatus r, opTerminal = oprTerminal r,
      opTerminalAtMS = scanInt (oprTerminalAtMS r),
      opCorrectedAtMS = scanInt (oprCorrectedAtMS r),
      opErrorCode = scanString (oprErrorCode r),
      opErrorMessage = scanString (oprErrorMessage r),
      opErrorRetryable = (oprErrorRetryable r = Some True),
      opHasErrorRetryable = (oprErrorRetryable r \<noteq> None),
      opGoogleStatusRaw = to_int32 (scanInt (oprGoogleStatusRaw r)),
      opRequestPayloadJSON = oprRequestPayloadJSON r,
      opMediaSizeBytes = scanInt (oprMediaSizeBytes r),
      opCreatedAtMS = oprCreatedAtMS r, opUpdatedAtMS = oprUpdatedAtMS r\<rparr>"

section \<open>Insertion and lookups\<close>

text \<open>The unique index \<open>operations_idempotency\<close>: NULL keys never collide.\<close>

definition same_tuple :: "op_row \<Rightarrow> op_row \<Rightarrow> bool" where
  "same_tuple r r' \<longleftrightarrow>
     oprAuthorizationID r = oprAuthorizationID r' \<and> oprAccountID r = oprAccountID r' \<and>
     oprKind r = oprKind r' \<and> oprIdempotencyKey r = oprIdempotencyKey r' \<and> oprIdempotencyKey r \<noteq> None"

definition inserted_row :: "string \<Rightarrow> ms \<Rightarrow> Operation \<Rightarrow> op_row" where
  "inserted_row freshID now o' =
     \<lparr>oprID = (if opID o' = [] then freshID else opID o'),
      oprAccountID = opAccountID o', oprKind = opKind o', oprAuthorizationID = opAuthorizationID o',
      oprIdempotencyKey = nullString (opIdempotencyKey o'),
      oprRequestFingerprint = opRequestFingerprint o',
      oprConversationID = nullString (opConversationID o'),
      oprMessageID = nullString (opMessageID o'), oprTmpID = nullString (opTmpID o'),
      oprStatus = OpRunning, oprTerminal = False, oprTerminalAtMS = None, oprCorrectedAtMS = None,
      oprErrorCode = None, oprErrorMessage = None, oprErrorRetryable = None, oprGoogleStatusRaw = None,
      oprRequestPayloadJSON = (if opRequestPayloadJSON o' = [] then ''{}'' else opRequestPayloadJSON o'),
      oprMediaSizeBytes = None, oprCreatedAtMS = now, oprUpdatedAtMS = now\<rparr>"

text \<open>\<open>accounts\<close> are the ids of the accounts table, for the foreign key.\<close>

definition InsertOperation ::
  "string list \<Rightarrow> string \<Rightarrow> ms \<Rightarrow> Operation \<Rightarrow> op_row list \<Rightarrow> op_error + op_row list" where
  "InsertOperation accounts freshID now o' ops =
     (let r = inserted_row freshID now o' in
      if \<exists>r' \<in> set ops. oprID r' = oprID r \<or> same_tuple r' r then Inl (OpConstraint UniqueViolation)
      else if oprAccountID r \<notin> set accounts then Inl (OpConstraint ForeignKeyViolation)
      else Inr (ops @ [r]))"

definition OperationByID :: "string \<Rightarrow> op_row list \<Rightarrow> op_error + Operation" where
  "OperationByID i ops =
     (case select_one (\<lambda>r. oprID r = i) ops of
        None \<Rightarrow> Inl ErrOperationNotFound | Some r \<Rightarrow> Inr (scanOperation r))"

definition OperationByKey ::
  "string \<Rightarrow> string \<Rightarrow> string \<Rightarrow> string \<Rightarrow> op_row list \<Rightarrow> op_error + Operation" where
  "OperationByKey authorizationID accountID kind key ops =
     (if key = [] then Inl ErrOperationNotFound
      else case select_one (\<lambda>r. oprAuthorizationID r = authorizationID \<and> oprAccountID r = accountID
                  \<and> oprKind r = kind \<and> oprIdempotencyKey r = Some key) ops of
             None \<Rightarrow> Inl ErrOperationNotFound
           | Some r \<Rightarrow> Inr (scanOperation r))"

definition KeyUsedByAnotherAccount ::
  "string \<Rightarrow> string \<Rightarrow> string \<Rightarrow> string \<Rightarrow> op_row list \<Rightarrow> string option" where
  "KeyUsedByAnotherAccount authorizationID kind key accountID ops =
     (if key = [] then None
      else map_option oprAccountID
             (first_by oprCreatedAtMS
               (filter (\<lambda>r. oprAuthorizationID r = authorizationID \<and> oprKind r = kind
                    \<and> oprIdempotencyKey r = Some key \<and> oprAccountID r \<noteq> accountID) ops)))"

definition OperationByTmpID :: "string \<Rightarrow> string \<Rightarrow> op_row list \<Rightarrow> op_error + Operation" where
  "OperationByTmpID accountID tmpID ops =
     (case first_by (\<lambda>r. - oprCreatedAtMS r)
             (filter (\<lambda>r. oprAccountID r = accountID \<and> oprTmpID r = Some tmpID) ops) of
        None \<Rightarrow> Inl ErrOperationNotFound
      | Some r \<Rightarrow> Inr (scanOperation r))"

definition SetOperationTmpID :: "ms \<Rightarrow> string \<Rightarrow> string \<Rightarrow> op_row list \<Rightarrow> op_row list" where
  "SetOperationTmpID now operationID tmpID ops =
     update_where (\<lambda>r. oprID r = operationID)
       (\<lambda>r. r\<lparr>oprTmpID := Some tmpID, oprUpdatedAtMS := now\<rparr>) ops"

definition SetOperationMediaSize :: "ms \<Rightarrow> string \<Rightarrow> int \<Rightarrow> op_row list \<Rightarrow> op_row list" where
  "SetOperationMediaSize now operationID sz ops =
     update_where (\<lambda>r. oprID r = operationID)
       (\<lambda>r. r\<lparr>oprMediaSizeBytes := Some sz, oprUpdatedAtMS := now\<rparr>) ops"

section \<open>Settlement\<close>

record Settlement =
  stStatus :: OperationStatus
  stMessageID :: string
  stConversationID :: string
  stErrorCode :: string
  stErrorMessage :: string
  stErrorRetryable :: bool
  stGoogleStatusRaw :: int

definition nullErrorRetryable :: "Settlement \<Rightarrow> bool option" where
  "nullErrorRetryable st = (if stErrorCode st = [] then None else Some (stErrorRetryable st))"

text \<open>The \<open>UPDATE\<close> of a settlement, computed from the scanned current row.\<close>

definition settled_row :: "ms \<Rightarrow> Settlement \<Rightarrow> op_row \<Rightarrow> op_row" where
  "settled_row now st r =
     (let cur = scanOperation r;
          terminal = OperationTerminal (stStatus st);
          terminalAt = (if opTerminalAtMS cur \<noteq> 0 then Some (opTerminalAtMS cur)
                        else if terminal then Some now else None);
          correctedAt = (if opCorrectedAtMS cur \<noteq> 0 then Some (opCorrectedAtMS cur)
                         else if opStatus cur = OpUnknown \<and> stStatus st \<noteq> OpUnknown then Some now
                         else None)
      in r\<lparr>oprStatus := stStatus st, oprTerminal := terminal,
           oprTerminalAtMS := terminalAt, oprCorrectedAtMS := correctedAt,
           oprMessageID := coalesce (nullString (stMessageID st)) (oprMessageID r),
           oprConversationID := coalesce (nullString (stConversationID st)) (oprConversationID r),
           oprErrorCode := nullString (stErrorCode st),
           oprErrorMessage := nullString (stErrorMessage st),
           oprErrorRetryable := nullErrorRetryable st,
           oprGoogleStatusRaw := coalesce (nullInt (stGoogleStatusRaw st)) (oprGoogleStatusRaw r),
           oprUpdatedAtMS := now\<rparr>)"

definition SettleOperation ::
  "ms \<Rightarrow> string \<Rightarrow> Settlement \<Rightarrow> op_row list \<Rightarrow> op_error + (Operation \<times> op_row list)" where
  "SettleOperation now operationID st ops =
     (case select_one (\<lambda>r. oprID r = operationID) ops of
        None \<Rightarrow> Inl ErrOperationNotFound
      | Some cur \<Rightarrow>
          if \<not> OperationTransitionAllowed (oprStatus cur) (stStatus st)
          then Inl (ErrOperationTransition (oprStatus cur) (stStatus st))
          else
            (let ops' = update_where (\<lambda>r. oprID r = operationID) (settled_row now st) ops in
             case OperationByID operationID ops' of
               Inl e \<Rightarrow> Inl e
             | Inr out \<Rightarrow> Inr (out, ops')))"

section \<open>Recovery, reaping, sweeping\<close>

definition unknown_row :: "ms \<Rightarrow> string \<Rightarrow> op_row \<Rightarrow> op_row" where
  "unknown_row now code r =
     r\<lparr>oprStatus := OpUnknown, oprTerminal := True,
       oprTerminalAtMS := coalesce (oprTerminalAtMS r) (Some now),
       oprErrorCode := Some code, oprErrorRetryable := Some False, oprUpdatedAtMS := now\<rparr>"

fun read_all :: "string list \<Rightarrow> op_row list \<Rightarrow> op_error + Operation list" where
  "read_all [] ops = Inr []"
| "read_all (i # ids) ops =
     (case OperationByID i ops of
        Inl e \<Rightarrow> Inl e
      | Inr o' \<Rightarrow> (case read_all ids ops of Inl e \<Rightarrow> Inl e | Inr os \<Rightarrow> Inr (o' # os)))"

definition RecoverRunningOperations ::
  "ms \<Rightarrow> op_row list \<Rightarrow> op_error + (Operation list \<times> op_row list)" where
  "RecoverRunningOperations now ops =
     (let ids = map oprID (filter (\<lambda>r. oprStatus r = OpRunning) ops) in
      if ids = [] then Inr ([], ops)
      else
        (let ops' = update_where (\<lambda>r. oprStatus r = OpRunning) (unknown_row now ErrCrashRecovered) ops
         in case read_all ids ops' of Inl e \<Rightarrow> Inl e | Inr out \<Rightarrow> Inr (out, ops')))"

fun reap_each :: "ms \<Rightarrow> string list \<Rightarrow> op_row list \<Rightarrow> op_error + (Operation list \<times> op_row list)" where
  "reap_each now [] ops = Inr ([], ops)"
| "reap_each now (i # ids) ops =
     (let ops' = update_where (\<lambda>r. oprID r = i) (unknown_row now ErrPendingTimeout) ops in
      case OperationByID i ops' of
        Inl e \<Rightarrow> Inl e
      | Inr o' \<Rightarrow>
          (case reap_each now ids ops' of
             Inl e \<Rightarrow> Inl e | Inr (os, ops'') \<Rightarrow> Inr (o' # os, ops'')))"

definition ReapPendingOperations ::
  "ms \<Rightarrow> int \<Rightarrow> op_row list \<Rightarrow> op_error + (Operation list \<times> op_row list)" where
  "ReapPendingOperations now timeoutMS ops =
     (let cutoff = now - timeoutMS;
          ids = map oprID (filter (\<lambda>r. oprStatus r = OpPending \<and> oprCreatedAtMS r \<le> cutoff) ops)
      in reap_each now ids ops)"

definition SweepIdempotencyKeys :: "ms \<Rightarrow> int \<Rightarrow> op_row list \<Rightarrow> nat \<times> op_row list" where
  "SweepIdempotencyKeys now ttlMS ops =
     (let cutoff = now - ttlMS;
          gone = (\<lambda>r. oprTerminal r \<and> oprCreatedAtMS r \<le> cutoff)
      in (length (filter gone ops), delete_where gone ops))"

section \<open>The status table as a contract\<close>

definition op_rank :: "OperationStatus \<Rightarrow> nat" where
  "op_rank s = (case s of OpRunning \<Rightarrow> 0 | OpPending \<Rightarrow> 1 | OpUnknown \<Rightarrow> 2 | _ \<Rightarrow> 3)"

definition op_final :: "OperationStatus \<Rightarrow> bool" where
  "op_final s \<longleftrightarrow> s = OpSucceeded \<or> s = OpFailed"

interpretation op_table: ranked_table OperationTransitionAllowed op_final op_rank
proof unfold_locales
  show "OperationTransitionAllowed s s" for s
    by (simp add: OperationTransitionAllowed_def)
  show "t = s" if "op_final s" "OperationTransitionAllowed s t" for s t
    using that by (auto simp: op_final_def OperationTransitionAllowed_def split: if_splits)
  show "op_rank s < op_rank t" if "OperationTransitionAllowed s t" "t \<noteq> s" for s t
    using that by (cases s; cases t) (simp_all add: OperationTransitionAllowed_def op_rank_def)
qed

section \<open>Row updates keep what they do not set\<close>

lemma settled_row_simps [simp, row_simps]:
  "oprID (settled_row now st r) = oprID r"
  "oprAccountID (settled_row now st r) = oprAccountID r"
  "oprKind (settled_row now st r) = oprKind r"
  "oprAuthorizationID (settled_row now st r) = oprAuthorizationID r"
  "oprIdempotencyKey (settled_row now st r) = oprIdempotencyKey r"
  "oprRequestFingerprint (settled_row now st r) = oprRequestFingerprint r"
  "oprTmpID (settled_row now st r) = oprTmpID r"
  "oprCreatedAtMS (settled_row now st r) = oprCreatedAtMS r"
  "oprStatus (settled_row now st r) = stStatus st"
  "oprTerminal (settled_row now st r) = OperationTerminal (stStatus st)"
  by (simp_all add: settled_row_def Let_def)

lemma unknown_row_simps [simp, row_simps]:
  "oprID (unknown_row now c r) = oprID r"
  "oprAccountID (unknown_row now c r) = oprAccountID r"
  "oprKind (unknown_row now c r) = oprKind r"
  "oprAuthorizationID (unknown_row now c r) = oprAuthorizationID r"
  "oprIdempotencyKey (unknown_row now c r) = oprIdempotencyKey r"
  "oprRequestFingerprint (unknown_row now c r) = oprRequestFingerprint r"
  "oprTmpID (unknown_row now c r) = oprTmpID r"
  "oprCreatedAtMS (unknown_row now c r) = oprCreatedAtMS r"
  "oprStatus (unknown_row now c r) = OpUnknown"
  "oprTerminal (unknown_row now c r)"
  "oprTerminalAtMS (unknown_row now c r) = coalesce (oprTerminalAtMS r) (Some now)"
  "oprCorrectedAtMS (unknown_row now c r) = oprCorrectedAtMS r"
  by (simp_all add: unknown_row_def)

interpretation settle_upd: keyed_update oprID "settled_row now st"
  by unfold_locales simp

interpretation unknown_upd: keyed_update oprID "unknown_row now c"
  by unfold_locales simp

interpretation tmp_upd: keyed_update oprID "\<lambda>r. r\<lparr>oprTmpID := Some t, oprUpdatedAtMS := now\<rparr>"
  by unfold_locales simp

interpretation media_upd: keyed_update oprID "\<lambda>r. r\<lparr>oprMediaSizeBytes := Some n, oprUpdatedAtMS := now\<rparr>"
  by unfold_locales simp

section \<open>The table invariant\<close>

text \<open>What is true of one row: \<open>terminal\<close> is derived from the status, a terminal row and
  only a terminal row carries the time it became terminal (a non-zero time), and only a final
  row carries a correction time.\<close>

definition row_inv :: "op_row \<Rightarrow> bool" where
  "row_inv r \<longleftrightarrow>
     oprTerminal r = OperationTerminal (oprStatus r) \<and>
     (oprTerminalAtMS r \<noteq> None \<longleftrightarrow> OperationTerminal (oprStatus r)) \<and>
     oprTerminalAtMS r \<noteq> Some 0 \<and>
     (oprCorrectedAtMS r \<noteq> None \<longrightarrow> op_final (oprStatus r)) \<and> oprCorrectedAtMS r \<noteq> Some 0"

lemma same_tuple_commute: "same_tuple r r' \<longleftrightarrow> same_tuple r' r"
  unfolding same_tuple_def by metis

definition tuple_unique :: "op_row list \<Rightarrow> bool" where
  "tuple_unique ops \<longleftrightarrow> (\<forall>r \<in> set ops. \<forall>r' \<in> set ops. same_tuple r r' \<longrightarrow> oprID r = oprID r')"

definition ops_inv :: "string list \<Rightarrow> op_row list \<Rightarrow> bool" where
  "ops_inv accounts ops \<longleftrightarrow>
     distinct (map oprID ops) \<and> tuple_unique ops \<and>
     (\<forall>r \<in> set ops. row_inv r \<and> oprAccountID r \<in> set accounts)"

lemma ops_inv_Nil [simp]: "ops_inv accounts []"
  by (simp add: ops_inv_def tuple_unique_def)

text \<open>An update that keeps ids, idempotency tuples and accounts keeps the table invariant as
  soon as it keeps the row invariant on the rows it touches.\<close>

lemma ops_inv_update:
  assumes inv: "ops_inv accounts ops"
    and keep: "\<And>r. oprID (f r) = oprID r" "\<And>r. oprAccountID (f r) = oprAccountID r"
      "\<And>r. oprKind (f r) = oprKind r" "\<And>r. oprAuthorizationID (f r) = oprAuthorizationID r"
      "\<And>r. oprIdempotencyKey (f r) = oprIdempotencyKey r"
    and row: "\<And>r. r \<in> set ops \<Longrightarrow> P r \<Longrightarrow> row_inv r \<Longrightarrow> row_inv (f r)"
  shows "ops_inv accounts (update_where P f ops)"
proof -
  have tup: "same_tuple (f x) y \<longleftrightarrow> same_tuple x y" "same_tuple x (f y) \<longleftrightarrow> same_tuple x y" for x y
    by (simp_all add: same_tuple_def keep)
  have "distinct (map oprID (update_where P f ops))"
    using inv keyed_update.map_key_update [of oprID f P ops] keyed_update.intro [of oprID f] keep(1)
    by (simp add: ops_inv_def)
  moreover have "tuple_unique (update_where P f ops)"
    using inv by (auto simp: ops_inv_def tuple_unique_def set_update_where tup keep)
  moreover have "\<forall>r \<in> set (update_where P f ops). row_inv r \<and> oprAccountID r \<in> set accounts"
    using inv row by (auto simp: ops_inv_def set_update_where keep)
  ultimately show ?thesis by (simp add: ops_inv_def)
qed

lemma row_inv_settled:
  assumes "row_inv r" and "OperationTransitionAllowed (oprStatus r) (stStatus st)" and "0 < now"
  shows "row_inv (settled_row now st r)"
  using assms
  by (cases "oprStatus r"; cases "stStatus st"; cases "oprTerminalAtMS r"; cases "oprCorrectedAtMS r")
     (auto simp: row_inv_def settled_row_def Let_def scanOperation_def OperationTerminal_def
        OperationTransitionAllowed_def op_final_def split: if_splits)

lemma row_inv_unknown:
  assumes "row_inv r" and "oprStatus r = OpRunning \<or> oprStatus r = OpPending" and "0 < now"
  shows "row_inv (unknown_row now c r)"
  using assms by (auto simp: row_inv_def OperationTerminal_def op_final_def)

lemma row_inv_inserted [simp]: "row_inv (inserted_row freshID now o')"
  by (simp add: row_inv_def inserted_row_def OperationTerminal_def)

section \<open>Steps of the table\<close>

text \<open>One step is one successful store method; a failed method leaves the table alone, so it is
  no step. The clock is positive (milliseconds since the epoch).\<close>

inductive op_step :: "string list \<Rightarrow> op_row list \<Rightarrow> op_row list \<Rightarrow> bool"
  for accounts where
  insert: "0 < now \<Longrightarrow> InsertOperation accounts freshID now o' ops = Inr ops' \<Longrightarrow>
     op_step accounts ops ops'"
| settle: "0 < now \<Longrightarrow> SettleOperation now i st ops = Inr (out, ops') \<Longrightarrow> op_step accounts ops ops'"
| set_tmp: "op_step accounts ops (SetOperationTmpID now i t ops)"
| set_media: "op_step accounts ops (SetOperationMediaSize now i n ops)"
| recover: "0 < now \<Longrightarrow> RecoverRunningOperations now ops = Inr (outs, ops') \<Longrightarrow>
     op_step accounts ops ops'"
| reap: "0 < now \<Longrightarrow> ReapPendingOperations now timeout ops = Inr (outs, ops') \<Longrightarrow>
     op_step accounts ops ops'"
| sweep: "SweepIdempotencyKeys now ttl ops = (n, ops') \<Longrightarrow> op_step accounts ops ops'"

inductive op_reachable :: "string list \<Rightarrow> op_row list \<Rightarrow> bool" for accounts where
  empty: "op_reachable accounts []"
| step: "op_reachable accounts ops \<Longrightarrow> op_step accounts ops ops' \<Longrightarrow> op_reachable accounts ops'"

lemma SettleOperation_Inr:
  assumes "SettleOperation now i st ops = Inr (out, ops')"
  obtains r where "select_one (\<lambda>r. oprID r = i) ops = Some r"
    and "OperationTransitionAllowed (oprStatus r) (stStatus st)"
    and "ops' = update_where (\<lambda>r. oprID r = i) (settled_row now st) ops"
    and "out = scanOperation (settled_row now st r)"
  using assms
  by (auto simp: SettleOperation_def OperationByID_def Let_def settle_upd.select_key_same
      split: option.splits if_splits sum.splits)

lemma select_id_unique:
  assumes "ops_inv accounts ops" and "select_one (\<lambda>r. oprID r = i) ops = Some r"
    and "r' \<in> set ops" and "oprID r' = i"
  shows "r' = r"
  using assms select_key_unique [of oprID ops r'] by (auto simp: ops_inv_def)

lemma settle_inv:
  assumes "ops_inv accounts ops" and "0 < now" and "SettleOperation now i st ops = Inr (out, ops')"
  shows "ops_inv accounts ops'"
  using assms(3)
proof (cases rule: SettleOperation_Inr)
  case (1 r)
  show ?thesis
    unfolding 1(3)
    by (rule ops_inv_update [OF assms(1)])
       (use 1 assms select_id_unique [OF assms(1) 1(1)] in \<open>auto intro: row_inv_settled\<close>)
qed

lemma insert_inv:
  assumes "ops_inv accounts ops" and "InsertOperation accounts freshID now o' ops = Inr ops'"
  shows "ops_inv accounts ops'"
proof -
  let ?r = "inserted_row freshID now o'"
  from assms(2) have new: "\<forall>r' \<in> set ops. oprID r' \<noteq> oprID ?r \<and> \<not> same_tuple r' ?r"
    and acc: "oprAccountID ?r \<in> set accounts" and ops': "ops' = ops @ [?r]"
    by (auto simp: InsertOperation_def Let_def split: if_splits)
  moreover from new have "\<forall>r' \<in> set ops. \<not> same_tuple ?r r'"
    by (metis same_tuple_commute)
  ultimately show ?thesis
    using assms(1) by (auto simp: ops_inv_def tuple_unique_def)
qed

lemma read_all_present:
  "set ids \<subseteq> set (map oprID ops) \<Longrightarrow>
     read_all ids ops = Inr (map (\<lambda>i. scanOperation (the (select_one (\<lambda>r. oprID r = i) ops))) ids)"
proof (induction ids)
  case (Cons i ids)
  then have "select_one (\<lambda>r. oprID r = i) ops \<noteq> None"
    by (auto simp: select_one_None_iff)
  with Cons show ?case by (auto simp: OperationByID_def)
qed simp

lemma Recover_eq:
  assumes "distinct (map oprID ops)"
  shows "RecoverRunningOperations now ops =
    Inr (map (\<lambda>r. scanOperation (unknown_row now ErrCrashRecovered r))
           (filter (\<lambda>r. oprStatus r = OpRunning) ops),
         update_where (\<lambda>r. oprStatus r = OpRunning) (unknown_row now ErrCrashRecovered) ops)"
proof -
  let ?run = "filter (\<lambda>r. oprStatus r = OpRunning) ops"
  let ?ops' = "update_where (\<lambda>r. oprStatus r = OpRunning) (unknown_row now ErrCrashRecovered) ops"
  have "read_all (map oprID ?run) ?ops' =
      Inr (map (\<lambda>i. scanOperation (the (select_one (\<lambda>r. oprID r = i) ?ops'))) (map oprID ?run))"
    by (rule read_all_present) (auto simp only: unknown_upd.map_key_update, auto)
  also have "map (\<lambda>i. scanOperation (the (select_one (\<lambda>r. oprID r = i) ?ops'))) (map oprID ?run) =
      map (\<lambda>r. scanOperation (unknown_row now ErrCrashRecovered r)) ?run"
    using select_key_unique [OF assms]
    by (simp add: unknown_upd.select_key_updated)
  finally have read: "read_all (map oprID ?run) ?ops' =
      Inr (map (\<lambda>r. scanOperation (unknown_row now ErrCrashRecovered r)) ?run)" .
  show ?thesis
  proof (cases "?run = []")
    case True
    then have "?ops' = ops"
      by (auto simp: update_where_def filter_empty_conv intro: map_idI)
    with True show ?thesis by (simp add: RecoverRunningOperations_def)
  next
    case False
    with read show ?thesis by (simp add: RecoverRunningOperations_def Let_def)
  qed
qed

text \<open>The reaper's loop over ids is one conditional update.\<close>

lemma update_where_insert:
  assumes "\<And>r. f (f r) = f r" and "\<And>r. oprID (f r) = oprID r"
  shows "update_where (\<lambda>r. oprID r \<in> S) f (update_where (\<lambda>r. oprID r = i) f ops) =
     update_where (\<lambda>r. oprID r \<in> insert i S) f ops"
  by (induction ops) (auto simp: assms)

lemma unknown_row_idem [simp]: "unknown_row now c (unknown_row now c r) = unknown_row now c r"
  by (simp add: unknown_row_def)

lemma reap_each_eq:
  "distinct (map oprID ops) \<Longrightarrow> set ids \<subseteq> set (map oprID ops) \<Longrightarrow>
   \<exists>outs. reap_each now ids ops =
     Inr (outs, update_where (\<lambda>r. oprID r \<in> set ids) (unknown_row now ErrPendingTimeout) ops)"
proof (induction ids arbitrary: ops)
  case Nil
  then show ?case by (simp add: update_where_def)
next
  case (Cons i ids)
  let ?ops' = "update_where (\<lambda>r. oprID r = i) (unknown_row now ErrPendingTimeout) ops"
  have keys: "map oprID ?ops' = map oprID ops" by (rule unknown_upd.map_key_update)
  from Cons.prems have "select_one (\<lambda>r. oprID r = i) ops \<noteq> None"
    by (auto simp: select_one_None_iff)
  then obtain o' where o': "OperationByID i ?ops' = Inr o'"
    by (auto simp: OperationByID_def unknown_upd.select_key_same)
  from Cons.prems have "distinct (map oprID ?ops')" and "set ids \<subseteq> set (map oprID ?ops')"
    by (simp_all only: keys, auto)
  from Cons.IH [OF this] o' show ?case
    by (auto simp: Let_def update_where_insert)
qed

lemma Reap_eq:
  assumes "distinct (map oprID ops)"
  shows "\<exists>outs. ReapPendingOperations now timeout ops =
    Inr (outs, update_where (\<lambda>r. oprStatus r = OpPending \<and> oprCreatedAtMS r \<le> now - timeout)
                 (unknown_row now ErrPendingTimeout) ops)"
proof -
  let ?P = "\<lambda>r. oprStatus r = OpPending \<and> oprCreatedAtMS r \<le> now - timeout"
  have "oprID r \<in> set (map oprID (filter ?P ops)) \<longleftrightarrow> ?P r" if "r \<in> set ops" for r
    using that assms by (auto simp: distinct_map inj_on_def)
  then have "update_where (\<lambda>r. oprID r \<in> set (map oprID (filter ?P ops))) f ops = update_where ?P f ops"
    for f by (simp add: update_where_def del: set_map)
  with reap_each_eq [OF assms, of "map oprID (filter ?P ops)" now] show ?thesis
    by (auto simp: ReapPendingOperations_def Let_def)
qed

lemma recover_inv:
  assumes "ops_inv accounts ops" and "0 < now"
    and "RecoverRunningOperations now ops = Inr (outs, ops')"
  shows "ops_inv accounts ops'"
proof -
  have "ops' = update_where (\<lambda>r. oprStatus r = OpRunning) (unknown_row now ErrCrashRecovered) ops"
    using assms(1,3) Recover_eq by (auto simp: ops_inv_def)
  then show ?thesis
    using assms(2) by (auto intro!: ops_inv_update [OF assms(1)] row_inv_unknown)
qed

lemma reap_inv:
  assumes "ops_inv accounts ops" and "0 < now"
    and "ReapPendingOperations now timeout ops = Inr (outs, ops')"
  shows "ops_inv accounts ops'"
proof -
  have "ops' = update_where (\<lambda>r. oprStatus r = OpPending \<and> oprCreatedAtMS r \<le> now - timeout)
                 (unknown_row now ErrPendingTimeout) ops"
    using assms(1,3) Reap_eq [of ops now timeout] by (auto simp: ops_inv_def)
  then show ?thesis
    using assms(2) by (auto intro!: ops_inv_update [OF assms(1)] row_inv_unknown)
qed

lemma sweep_inv: "ops_inv accounts ops \<Longrightarrow> ops_inv accounts (delete_where P ops)"
  by (auto simp: ops_inv_def tuple_unique_def delete_where_def distinct_map_filter)

lemma op_step_inv: "op_step accounts ops ops' \<Longrightarrow> ops_inv accounts ops \<Longrightarrow> ops_inv accounts ops'"
proof (induction rule: op_step.induct)
  case (set_tmp ops now i t)
  then show ?case
    unfolding SetOperationTmpID_def by (rule ops_inv_update) (auto simp: row_inv_def)
next
  case (set_media ops now i n)
  then show ?case
    unfolding SetOperationMediaSize_def by (rule ops_inv_update) (auto simp: row_inv_def)
next
  case (sweep now ttl ops n ops')
  then show ?case
    by (auto simp: SweepIdempotencyKeys_def Let_def intro: sweep_inv)
qed (auto intro: insert_inv settle_inv recover_inv reap_inv)

lemma op_reachable_inv: "op_reachable accounts ops \<Longrightarrow> ops_inv accounts ops"
  by (induction rule: op_reachable.induct) (auto intro: op_step_inv)

section \<open>What one step may do to a row\<close>

text \<open>The row with id \<open>i\<close> before and after: its status moves along the table, the time it
  became terminal is written once, and its idempotency tuple, fingerprint and creation time
  never change.\<close>

definition row_evolves :: "op_row \<Rightarrow> op_row \<Rightarrow> bool" where
  "row_evolves r r' \<longleftrightarrow>
     OperationTransitionAllowed (oprStatus r) (oprStatus r') \<and>
     (oprTerminalAtMS r \<noteq> None \<longrightarrow> oprTerminalAtMS r' = oprTerminalAtMS r) \<and>
     oprAccountID r' = oprAccountID r \<and> oprKind r' = oprKind r \<and>
     oprAuthorizationID r' = oprAuthorizationID r \<and> oprIdempotencyKey r' = oprIdempotencyKey r \<and>
     oprRequestFingerprint r' = oprRequestFingerprint r \<and> oprCreatedAtMS r' = oprCreatedAtMS r"

lemma row_evolves_refl [simp]: "row_evolves r r"
  by (simp add: row_evolves_def)

lemma row_evolves_settled:
  "row_inv r \<Longrightarrow> OperationTransitionAllowed (oprStatus r) (stStatus st) \<Longrightarrow>
     row_evolves r (settled_row now st r)"
  by (auto simp: row_evolves_def row_inv_def settled_row_def Let_def scanOperation_def)

lemma row_evolves_unknown:
  "oprStatus r = OpRunning \<or> oprStatus r = OpPending \<Longrightarrow> row_evolves r (unknown_row now c r)"
  by (auto simp: row_evolves_def OperationTransitionAllowed_def)

lemma select_delete_where:
  "distinct (map oprID ops) \<Longrightarrow> select_one (\<lambda>r. oprID r = i) (delete_where P ops) = Some r' \<Longrightarrow>
     select_one (\<lambda>r. oprID r = i) ops = Some r'"
proof -
  assume d: "distinct (map oprID ops)"
    and s: "select_one (\<lambda>r. oprID r = i) (delete_where P ops) = Some r'"
  from select_one_SomeD [OF s] have "r' \<in> set ops" "oprID r' = i" by auto
  with select_key_unique [OF d] show ?thesis by metis
qed

lemma op_step_row:
  assumes "op_step accounts ops ops'" and inv: "ops_inv accounts ops"
    and r: "select_one (\<lambda>r. oprID r = i) ops = Some r"
    and r': "select_one (\<lambda>r. oprID r = i) ops' = Some r'"
  shows "row_evolves r r'"
proof -
  have d: "distinct (map oprID ops)" and row: "row_inv r"
    using inv select_one_SomeD [OF r] by (auto simp: ops_inv_def)
  from assms(1) r' show ?thesis
  proof cases
    case (insert now freshID o')
    then have "ops' = ops @ [inserted_row freshID now o']"
      by (auto simp: InsertOperation_def Let_def split: if_splits)
    with r r' show ?thesis by (simp add: select_one_append)
  next
    case (settle now j st out)
    from settle(2) show ?thesis
    proof (cases rule: SettleOperation_Inr)
      case (1 c)
      show ?thesis
      proof (cases "i = j")
        case True
        with r r' 1 row show ?thesis
          by (auto simp: settle_upd.select_key_same intro: row_evolves_settled)
      next
        case False
        with r r' 1 show ?thesis by (simp add: settle_upd.select_key_other)
      qed
    qed
  next
    case (set_tmp now j t)
    with r r' show ?thesis
      by (auto simp: SetOperationTmpID_def tmp_upd.select_key_updated row_evolves_def)
  next
    case (set_media now j n)
    with r r' show ?thesis
      by (auto simp: SetOperationMediaSize_def media_upd.select_key_updated row_evolves_def)
  next
    case (recover now outs)
    with r r' Recover_eq [OF d, of now] show ?thesis
      by (auto simp: unknown_upd.select_key_updated intro: row_evolves_unknown)
  next
    case (reap now timeout outs)
    with r r' Reap_eq [OF d, of now timeout] show ?thesis
      by (auto simp: unknown_upd.select_key_updated intro: row_evolves_unknown)
  next
    case (sweep now ttl n)
    then have "ops' = delete_where (\<lambda>r. oprTerminal r \<and> oprCreatedAtMS r \<le> now - ttl) ops"
      by (simp add: SweepIdempotencyKeys_def Let_def)
    with r r' select_delete_where [OF d] show ?thesis by fastforce
  qed
qed

fun op_trace :: "string list \<Rightarrow> op_row list \<Rightarrow> op_row list list \<Rightarrow> bool" where
  "op_trace accounts ops [] = True"
| "op_trace accounts ops (t # ts) = (op_step accounts ops t \<and> op_trace accounts t ts)"

definition status_of :: "string \<Rightarrow> op_row list \<Rightarrow> OperationStatus option" where
  "status_of i ops = map_option oprStatus (select_one (\<lambda>r. oprID r = i) ops)"

lemma trace_final:
  "op_trace accounts ops ts \<Longrightarrow> ops_inv accounts ops \<Longrightarrow> status_of i ops = Some s \<Longrightarrow> op_final s \<Longrightarrow>
     \<forall>t \<in> set ts. status_of i t \<noteq> None \<Longrightarrow> \<forall>t \<in> set ts. status_of i t = Some s"
proof (induction ts arbitrary: ops)
  case (Cons t ts)
  from Cons.prems obtain r r' where sel: "select_one (\<lambda>r. oprID r = i) ops = Some r"
      "select_one (\<lambda>r. oprID r = i) t = Some r'" and s: "oprStatus r = s"
    by (auto simp: status_of_def)
  have step: "op_step accounts ops t" and inv: "ops_inv accounts ops" using Cons.prems by auto
  have "oprStatus r' = s"
    using op_step_row [OF step inv sel] op_table.final_stuck Cons.prems(4) s
    by (auto simp: row_evolves_def)
  with sel have "status_of i t = Some s" by (simp add: status_of_def)
  moreover have "\<forall>u \<in> set ts. status_of i u = Some s"
    using Cons.prems op_step_inv [OF step inv] calculation
    by (intro Cons.IH [of t]) auto
  ultimately show ?case by simp
qed simp

section \<open>Properties\<close>

text \<open>A concrete request, for the instances below.\<close>

definition sample_operation :: Operation where
  "sample_operation =
     \<lparr>opID = ''op_1'', opAccountID = ''acct_a'', opKind = ''send_text'', opAuthorizationID = ''auth_x'',
      opIdempotencyKey = ''k1'', opRequestFingerprint = ''f00d'', opConversationID = ''conv_c'',
      opMessageID = [], opTmpID = ''tmp_1'', opStatus = OpRunning, opTerminal = False,
      opTerminalAtMS = 0, opCorrectedAtMS = 0, opErrorCode = [], opErrorMessage = [],
      opErrorRetryable = False, opHasErrorRetryable = False, opGoogleStatusRaw = 0,
      opRequestPayloadJSON = [], opMediaSizeBytes = 0, opCreatedAtMS = 0, opUpdatedAtMS = 0\<rparr>"

definition succeeded :: Settlement where
  "succeeded = \<lparr>stStatus = OpSucceeded, stMessageID = ''msg_1'', stConversationID = [],
     stErrorCode = [], stErrorMessage = [], stErrorRetryable = False, stGoogleStatusRaw = 1\<rparr>"

definition sample_row :: op_row where
  "sample_row = inserted_row ''op_9'' 1000 sample_operation"

lemma sample_simps [simp]:
  "oprID sample_row = ''op_1''" "oprStatus sample_row = OpRunning"
  "oprIdempotencyKey sample_row = Some ''k1''" "oprCreatedAtMS sample_row = 1000"
  "stStatus succeeded = OpSucceeded"
  by (simp_all add: sample_row_def inserted_row_def sample_operation_def succeeded_def)

lemma sample_insert:
  "InsertOperation [''acct_a''] ''op_9'' 1000 sample_operation [] = Inr [sample_row]"
  by (simp add: InsertOperation_def sample_row_def) (simp add: inserted_row_def sample_operation_def)

lemma sample_reachable: "op_reachable [''acct_a''] [sample_row]"
  by (rule op_reachable.step [OF op_reachable.empty], rule op_step.insert [OF _ sample_insert]) simp

lemma sample_settle:
  "SettleOperation 2000 ''op_1'' succeeded [sample_row] =
     Inr (scanOperation (settled_row 2000 succeeded sample_row), [settled_row 2000 succeeded sample_row])"
  by (simp add: SettleOperation_def OperationByID_def OperationTransitionAllowed_def)

lemma sample_settle_step: "op_step [''acct_a''] [sample_row] [settled_row 2000 succeeded sample_row]"
  by (rule op_step.settle [OF _ sample_settle]) simp

text \<open>C17: whatever sequence of store methods runs, the operations table keeps its invariant: ids
  are unique, no two operations share an (authorization, account, kind, key) tuple, every row
  names an existing account, \<open>terminal\<close> is the derived flag, a row has a terminal time exactly
  when it is terminal, and a correction time only when it is final.\<close>

theorem operations_table_invariant: "op_reachable accounts ops \<Longrightarrow> ops_inv accounts ops"
  by (rule op_reachable_inv)

theorem operations_table_invariant_witness: "ops_inv [''acct_a''] [sample_row]"
  by (rule operations_table_invariant [OF sample_reachable])

text \<open>C15: \<open>succeeded\<close> and \<open>failed\<close> are final. From any reachable table, along any run of
  store methods, an operation that is in one of the two keeps it for as long as its row
  exists.\<close>

theorem succeeded_and_failed_are_final:
  assumes "op_reachable accounts ops" and "op_trace accounts ops tables"
    and "status_of i ops = Some s" and "s = OpSucceeded \<or> s = OpFailed"
    and "t \<in> set tables" and "\<forall>t \<in> set tables. status_of i t \<noteq> None"
  shows "status_of i t = Some s"
  using trace_final [OF assms(2) op_reachable_inv [OF assms(1)] assms(3) _ assms(6)] assms(4,5)
  by (simp add: op_final_def)

theorem succeeded_and_failed_are_final_witness:
  "status_of ''op_1'' (SetOperationTmpID 3000 ''op_1'' ''other'' [settled_row 2000 succeeded sample_row])
     = Some OpSucceeded"
proof -
  let ?s = "[settled_row 2000 succeeded sample_row]"
  let ?t = "SetOperationTmpID 3000 ''op_1'' ''other'' ?s"
  have reach: "op_reachable [''acct_a''] ?s"
    by (rule op_reachable.step [OF sample_reachable sample_settle_step])
  have trace: "op_trace [''acct_a''] ?s [?t]"
    by (simp add: op_step.set_tmp)
  have h: "status_of ''op_1'' ?s = Some OpSucceeded" "\<forall>t \<in> set [?t]. status_of ''op_1'' t \<noteq> None"
    by (simp_all add: status_of_def SetOperationTmpID_def)
  show ?thesis
    by (rule succeeded_and_failed_are_final [OF reach trace h(1) _ _ h(2)]) simp_all
qed

text \<open>The time an operation first became terminal is written once. No later settlement,
  correction, recovery or reaping rewrites or clears it, and no store method changes an
  operation's idempotency tuple, fingerprint or creation time.\<close>

theorem terminal_time_written_once:
  assumes "op_reachable accounts ops" and "op_step accounts ops ops'"
    and "select_one (\<lambda>r. oprID r = i) ops = Some r" and "select_one (\<lambda>r. oprID r = i) ops' = Some r'"
  shows "(oprTerminalAtMS r = Some at \<longrightarrow> oprTerminalAtMS r' = Some at)
    \<and> oprAuthorizationID r' = oprAuthorizationID r \<and> oprAccountID r' = oprAccountID r
    \<and> oprKind r' = oprKind r \<and> oprIdempotencyKey r' = oprIdempotencyKey r
    \<and> oprRequestFingerprint r' = oprRequestFingerprint r \<and> oprCreatedAtMS r' = oprCreatedAtMS r"
  using op_step_row [OF assms(2) op_reachable_inv [OF assms(1)] assms(3,4)]
  by (auto simp: row_evolves_def)

theorem terminal_time_written_once_witness:
  "oprIdempotencyKey (settled_row 2000 succeeded sample_row) = Some ''k1''
   \<and> oprCreatedAtMS (settled_row 2000 succeeded sample_row) = 1000"
proof -
  have "select_one (\<lambda>r. oprID r = ''op_1'') [sample_row] = Some sample_row"
    and "select_one (\<lambda>r. oprID r = ''op_1'') [settled_row 2000 succeeded sample_row]
           = Some (settled_row 2000 succeeded sample_row)"
    by simp_all
  from terminal_time_written_once [OF sample_reachable sample_settle_step this]
  show ?thesis by simp
qed

text \<open>Crash recovery settles every running operation to \<open>unknown\<close> with
  \<open>crash_recovered\<close>, reports exactly those rows, leaves every other row untouched, and no
  operation is running afterwards. It never fails.\<close>

theorem crash_recovery_exact:
  assumes "op_reachable accounts ops"
  shows "\<exists>outs ops'. RecoverRunningOperations now ops = Inr (outs, ops')
    \<and> map opID outs = map oprID (filter (\<lambda>r. oprStatus r = OpRunning) ops)
    \<and> (\<forall>o' \<in> set outs. opStatus o' = OpUnknown \<and> opErrorCode o' = ErrCrashRecovered \<and> opTerminal o')
    \<and> ops' = map (\<lambda>r. if oprStatus r = OpRunning then unknown_row now ErrCrashRecovered r else r) ops
    \<and> (\<forall>r \<in> set ops'. oprStatus r \<noteq> OpRunning)"
proof -
  have "distinct (map oprID ops)" using op_reachable_inv [OF assms] by (simp add: ops_inv_def)
  from Recover_eq [OF this, of now] show ?thesis
    by (auto simp: scanOperation_def update_where_def) (simp_all add: unknown_row_def)
qed

theorem crash_recovery_exact_witness:
  "\<exists>outs ops'. RecoverRunningOperations 3000 [sample_row] = Inr (outs, ops')
     \<and> map opID outs = [''op_1''] \<and> (\<forall>r \<in> set ops'. oprStatus r \<noteq> OpRunning)"
  using crash_recovery_exact [OF sample_reachable, of 3000]
  by auto

text \<open>The reaper's loop computes one conditional update: exactly the pending operations at
  least as old as the timeout become \<open>unknown\<close> with \<open>pending_timeout\<close>, every other row is
  untouched, and the loop never fails.\<close>

theorem reaper_exact:
  assumes "op_reachable accounts ops"
  shows "\<exists>outs. ReapPendingOperations now timeout ops =
    Inr (outs, map (\<lambda>r. if oprStatus r = OpPending \<and> oprCreatedAtMS r \<le> now - timeout
                        then unknown_row now ErrPendingTimeout r else r) ops)"
proof -
  have "distinct (map oprID ops)" using op_reachable_inv [OF assms] by (simp add: ops_inv_def)
  from Reap_eq [OF this, of now timeout] show ?thesis by (simp add: update_where_def)
qed

theorem reaper_exact_witness:
  "\<exists>outs. ReapPendingOperations 5000 100 [sample_row] = Inr (outs, [sample_row])"
  using reaper_exact [OF sample_reachable, of 5000 100] by simp

text \<open>The retention sweep deletes terminal rows only, and only those at least as old as the
  retention; everything that is running or pending survives, as does everything younger.\<close>

theorem sweep_keeps_live_operations:
  assumes "op_reachable accounts ops" and "SweepIdempotencyKeys now ttl ops = (n, ops')"
    and "r \<in> set ops"
  shows "(r \<in> set ops' \<longleftrightarrow> oprStatus r = OpRunning \<or> oprStatus r = OpPending \<or> now - ttl < oprCreatedAtMS r)
    \<and> n + length ops' = length ops"
proof -
  have "row_inv r" using op_reachable_inv [OF assms(1)] assms(3) by (simp add: ops_inv_def)
  then have tm: "oprTerminal r \<longleftrightarrow> oprStatus r \<noteq> OpRunning \<and> oprStatus r \<noteq> OpPending"
    by (cases "oprStatus r") (auto simp: row_inv_def OperationTerminal_def)
  have "n + length ops' = length ops"
    using assms(2) sum_length_filter_compl [of "\<lambda>r. oprTerminal r \<and> oprCreatedAtMS r \<le> now - ttl" ops]
    by (auto simp: SweepIdempotencyKeys_def Let_def delete_where_def)
  with assms(2,3) tm show ?thesis
    by (auto simp: SweepIdempotencyKeys_def Let_def)
qed

theorem sweep_keeps_live_operations_witness:
  "sample_row \<in> set (snd (SweepIdempotencyKeys 900000 1 [sample_row]))"
  using sweep_keeps_live_operations [OF sample_reachable, of 900000 1
      "fst (SweepIdempotencyKeys 900000 1 [sample_row])"
      "snd (SweepIdempotencyKeys 900000 1 [sample_row])" sample_row]
  by simp

text \<open>An inserted keyed operation is found again by its tuple, under exactly that tuple, and
  a second operation with the same tuple cannot be inserted. Keyless operations never collide:
  a keyless lookup finds nothing.\<close>

theorem idempotency_key_insert_lookup:
  assumes "op_reachable accounts ops"
    and "InsertOperation accounts freshID now o' ops = Inr ops'" and "opIdempotencyKey o' \<noteq> []"
  shows "OperationByKey (opAuthorizationID o') (opAccountID o') (opKind o') (opIdempotencyKey o') ops'
      = Inr (scanOperation (inserted_row freshID now o'))
    \<and> (opAuthorizationID p = opAuthorizationID o' \<and> opAccountID p = opAccountID o'
        \<and> opKind p = opKind o' \<and> opIdempotencyKey p = opIdempotencyKey o' \<longrightarrow>
        InsertOperation accounts freshID' now' p ops' = Inl (OpConstraint UniqueViolation))
    \<and> OperationByKey auth acct kind [] ops' = Inl ErrOperationNotFound"
proof -
  let ?r = "inserted_row freshID now o'"
  let ?match = "\<lambda>r. oprAuthorizationID r = opAuthorizationID o' \<and> oprAccountID r = opAccountID o'
      \<and> oprKind r = opKind o' \<and> oprIdempotencyKey r = Some (opIdempotencyKey o')"
  from assms(2) have new: "\<forall>r' \<in> set ops. \<not> same_tuple r' ?r" and ops': "ops' = ops @ [?r]"
    by (auto simp: InsertOperation_def Let_def split: if_splits)
  have key: "nullString (opIdempotencyKey o') = Some (opIdempotencyKey o')" using assms(3) by simp
  have tuple: "same_tuple r' ?r \<longleftrightarrow> ?match r'" for r'
    by (auto simp: same_tuple_def inserted_row_def key)
  have "select_one ?match ops = None"
    using new tuple by (auto simp: select_one_None_iff)
  moreover have "?match ?r" by (simp add: inserted_row_def key)
  ultimately have found: "select_one ?match ops' = Some ?r"
    by (simp add: ops' select_one_append)
  have refused: "InsertOperation accounts freshID' now' p ops' = Inl (OpConstraint UniqueViolation)"
    if "opAuthorizationID p = opAuthorizationID o'" "opAccountID p = opAccountID o'"
      "opKind p = opKind o'" "opIdempotencyKey p = opIdempotencyKey o'"
  proof -
    have "same_tuple ?r (inserted_row freshID' now' p)"
      using that by (simp add: same_tuple_def inserted_row_def key)
    then show ?thesis by (auto simp: InsertOperation_def ops' Let_def)
  qed
  from found refused assms(3) show ?thesis by (auto simp: OperationByKey_def)
qed

theorem idempotency_key_insert_lookup_witness:
  "OperationByKey ''auth_x'' ''acct_a'' ''send_text'' ''k1'' [sample_row] = Inr (scanOperation sample_row)
   \<and> InsertOperation [''acct_a''] ''op_10'' 2000 (sample_operation\<lparr>opID := ''op_2''\<rparr>) [sample_row]
       = Inl (OpConstraint UniqueViolation)"
proof -
  have k: "opIdempotencyKey sample_operation \<noteq> []" by (simp add: sample_operation_def)
  show ?thesis
    using idempotency_key_insert_lookup [OF op_reachable.empty sample_insert k,
        of "sample_operation\<lparr>opID := ''op_2''\<rparr>" "''op_10''" 2000 "[]" "[]" "[]"]
    by (simp add: sample_row_def) (simp add: sample_operation_def)
qed

end
