(* ===== verification/Json.thy ===== *)
theory Json
  imports Normalize Api_Errors "HOL-Library.List_Lexorder" "HOL-Library.Char_ord"
begin

text \<open>
  JSON as the request fingerprint uses it (\<open>internal/store/operations.go\<close>):
  \<open>canonicalJSON\<close>, \<open>writeJSONString\<close> and \<open>RequestFingerprint\<close>, with what they use of
  Go's \<open>encoding/json\<close>: the string encoder of \<open>json.Marshal\<close> (HTML escaping on) and the
  value decoder of \<open>json.Decoder\<close> with \<open>UseNumber\<close>, which reads one value and leaves
  the rest of its input. A \<open>map[string]any\<close> is an association list with distinct keys;
  SHA-256 followed by the hex encoding is a parameter. The decoder runs on fuel; the fuel
  \<open>RequestFingerprint\<close> gives it is always enough (\<open>decode_has_fuel\<close>).
\<close>

datatype json =
    JObject "(string \<times> json) list"
  | JArray "json list"
  | JString string
  | JNumber string
  | JBool bool
  | JNull

section \<open>Encoding\<close>

definition hexdigit :: "nat \<Rightarrow> nat" where
  "hexdigit n = (if n < 10 then 48 + n else 87 + n)"

text \<open>The runes \<open>json.Marshal\<close> writes for one rune of a string.\<close>

definition escape_rune :: "nat \<Rightarrow> nat list" where
  "escape_rune r =
     (if r < 0x80 then
        if 0x20 \<le> r \<and> r \<noteq> 0x22 \<and> r \<noteq> 0x5C \<and> r \<noteq> 0x3C \<and> r \<noteq> 0x3E \<and> r \<noteq> 0x26 then [r]
        else if r = 0x22 \<or> r = 0x5C then [0x5C, r]
        else if r = 8 then [0x5C, 98]
        else if r = 12 then [0x5C, 102]
        else if r = 10 then [0x5C, 110]
        else if r = 13 then [0x5C, 114]
        else if r = 9 then [0x5C, 116]
        else [0x5C, 117, 48, 48, hexdigit (r div 16), hexdigit (r mod 16)]
      else if r = 0x2028 \<or> r = 0x2029 then [0x5C, 117, 50, 48, 50, hexdigit (r mod 16)]
      else [r])"

definition escape_segment :: "nat \<times> string \<Rightarrow> string" where
  "escape_segment seg =
     (if bad_segment seg then CHR 0x5C # ''ufffd'' else utf8 (escape_rune (fst seg)))"

definition writeJSONString :: "string \<Rightarrow> string" where
  "writeJSONString s = CHR 0x22 # concat (map escape_segment (segments s)) @ [CHR 0x22]"

fun canonicalJSON :: "json \<Rightarrow> string" where
  "canonicalJSON (JObject ms) =
     CHR ''{'' # join_with '',''
       (map (\<lambda>(k, t). writeJSONString k @ CHR '':'' # t)
         (sort_key fst (map (\<lambda>(k, v). (k, canonicalJSON v)) ms))) @ ''}''"
| "canonicalJSON (JArray vs) = CHR ''['' # join_with '','' (map canonicalJSON vs) @ '']''"
| "canonicalJSON (JString s) = writeJSONString s"
| "canonicalJSON (JNumber n) = n"
| "canonicalJSON (JBool b) = (if b then ''true'' else ''false'')"
| "canonicalJSON JNull = ''null''"

section \<open>Decoding\<close>

definition is_ws :: "char \<Rightarrow> bool" where
  "is_ws c \<longleftrightarrow> c = CHR '' '' \<or> c = CHR 0x09 \<or> c = CHR 0x0A \<or> c = CHR 0x0D"

definition skip_ws :: "string \<Rightarrow> string" where
  "skip_ws s = dropWhile is_ws s"

definition is_hex :: "char \<Rightarrow> bool" where
  "is_hex c \<longleftrightarrow> (let n = (of_char c :: nat) in
     (48 \<le> n \<and> n \<le> 57) \<or> (97 \<le> n \<and> n \<le> 102) \<or> (65 \<le> n \<and> n \<le> 70))"

text \<open>The raw bytes of a string literal up to its closing quote, and what follows.\<close>

fun scan_string :: "string \<Rightarrow> (string \<times> string) option" where
  "scan_string [] = None"
| "scan_string (c # cs) =
     (if c = CHR 0x22 then Some ([], cs)
      else if c = CHR 0x5C then
        (case cs of
           [] \<Rightarrow> None
         | d # ds \<Rightarrow>
             if d \<in> set (CHR 0x22 # CHR 0x5C # ''/bfnrt'') then
               map_option (\<lambda>(raw, r). (c # d # raw, r)) (scan_string ds)
             else if d = CHR ''u'' \<and> 4 \<le> length ds \<and> list_all is_hex (take 4 ds) then
               map_option (\<lambda>(raw, r). (c # d # raw, r)) (scan_string ds)
             else None)
      else if (of_char c :: nat) < 0x20 then None
      else map_option (\<lambda>(raw, r). (c # raw, r)) (scan_string cs))"

definition unhex :: "nat \<Rightarrow> nat" where
  "unhex c = (if c < 58 then c - 48 else if c < 71 then c - 55 else c - 87)"

definition u4 :: "nat \<Rightarrow> nat \<Rightarrow> nat \<Rightarrow> nat \<Rightarrow> nat" where
  "u4 a b c d = ((unhex a * 16 + unhex b) * 16 + unhex c) * 16 + unhex d"

definition is_surrogate :: "nat \<Rightarrow> bool" where
  "is_surrogate r \<longleftrightarrow> 0xD800 \<le> r \<and> r < 0xE000"

definition decode_pair :: "nat \<Rightarrow> nat \<Rightarrow> nat option" where
  "decode_pair r1 r2 =
     (if 0xD800 \<le> r1 \<and> r1 < 0xDC00 \<and> 0xDC00 \<le> r2 \<and> r2 < 0xE000
      then Some ((r1 - 0xD800) * 0x400 + (r2 - 0xDC00) + 0x10000) else None)"

definition simple_escape :: "nat \<Rightarrow> nat" where
  "simple_escape c =
     (if c = 98 then 8 else if c = 102 then 12 else if c = 110 then 10
      else if c = 114 then 13 else if c = 116 then 9 else c)"

text \<open>The rune sequence a scanned literal stands for. A surrogate half without its partner
  reads as U+FFFD.\<close>

fun unescape :: "nat list \<Rightarrow> nat list" where
  "unescape (c # d # rs) =
     (if c = 0x5C then
        if d = 117 then
          (case rs of
             h1 # h2 # h3 # h4 # rest \<Rightarrow>
               (let r = u4 h1 h2 h3 h4 in
                if is_surrogate r then
                  (case rest of
                     b # u # l1 # l2 # l3 # l4 # rest' \<Rightarrow>
                       (case (if b = 0x5C \<and> u = 117 then decode_pair r (u4 l1 l2 l3 l4) else None) of
                          Some q \<Rightarrow> q # unescape rest'
                        | None \<Rightarrow> RuneError # unescape rest)
                   | _ \<Rightarrow> RuneError # unescape rest)
                else r # unescape rest)
           | _ \<Rightarrow> [])
        else simple_escape d # unescape rs
      else c # unescape (d # rs))"
| "unescape [c] = [c]"
| "unescape [] = []"

definition unquote :: "string \<Rightarrow> string" where
  "unquote raw = utf8 (unescape (runes raw))"

text \<open>The scanner's number states: after the sign, a leading zero, other integer digits, the
  point, fraction digits, the exponent mark, its sign, exponent digits.\<close>

datatype nstate = NBegin | NNeg | N0 | N1 | NDot | NDot0 | NE | NESign | NE0

definition is_digit :: "char \<Rightarrow> bool" where
  "is_digit c \<longleftrightarrow> (let n = (of_char c :: nat) in 48 \<le> n \<and> n \<le> 57)"

fun nstep :: "nstate \<Rightarrow> char \<Rightarrow> nstate option" where
  "nstep NBegin c = (if c = CHR ''-'' then Some NNeg else if c = CHR ''0'' then Some N0
                     else if is_digit c then Some N1 else None)"
| "nstep NNeg c = (if c = CHR ''0'' then Some N0 else if is_digit c then Some N1 else None)"
| "nstep N1 c = (if is_digit c then Some N1 else if c = CHR ''.'' then Some NDot
                 else if c = CHR ''e'' \<or> c = CHR ''E'' then Some NE else None)"
| "nstep N0 c = (if c = CHR ''.'' then Some NDot
                 else if c = CHR ''e'' \<or> c = CHR ''E'' then Some NE else None)"
| "nstep NDot c = (if is_digit c then Some NDot0 else None)"
| "nstep NDot0 c = (if is_digit c then Some NDot0
                    else if c = CHR ''e'' \<or> c = CHR ''E'' then Some NE else None)"
| "nstep NE c = (if c = CHR ''+'' \<or> c = CHR ''-'' then Some NESign
                 else if is_digit c then Some NE0 else None)"
| "nstep NESign c = (if is_digit c then Some NE0 else None)"
| "nstep NE0 c = (if is_digit c then Some NE0 else None)"

definition nfinal :: "nstate \<Rightarrow> bool" where
  "nfinal st \<longleftrightarrow> st = N0 \<or> st = N1 \<or> st = NDot0 \<or> st = NE0"

fun scan_number :: "nstate \<Rightarrow> string \<Rightarrow> (string \<times> string) option" where
  "scan_number st [] = (if nfinal st then Some ([], []) else None)"
| "scan_number st (c # cs) =
     (case nstep st c of
        Some st' \<Rightarrow> map_option (\<lambda>(n, r). (c # n, r)) (scan_number st' cs)
      | None \<Rightarrow> if nfinal st then Some ([], c # cs) else None)"

datatype 'a parsed = Parsed 'a string | SyntaxError | NoFuel

definition expect :: "string \<Rightarrow> 'a \<Rightarrow> string \<Rightarrow> 'a parsed" where
  "expect w v s =
     (if take (length w) s = w then Parsed v (drop (length w) s) else SyntaxError)"

text \<open>A later member with the same key replaces the earlier one.\<close>

fun keep_last :: "('k \<times> 'v) list \<Rightarrow> ('k \<times> 'v) list" where
  "keep_last [] = []"
| "keep_last ((k, v) # ms) = (if k \<in> fst ` set ms then keep_last ms else (k, v) # keep_last ms)"

definition parse_scalar :: "string \<Rightarrow> json parsed" where
  "parse_scalar s =
     (case s of
        [] \<Rightarrow> SyntaxError
      | c # cs \<Rightarrow>
          if c = CHR 0x22 then
            (case scan_string cs of
               None \<Rightarrow> SyntaxError | Some (raw, r) \<Rightarrow> Parsed (JString (unquote raw)) r)
          else if c = CHR ''t'' then expect ''true'' (JBool True) s
          else if c = CHR ''f'' then expect ''false'' (JBool False) s
          else if c = CHR ''n'' then expect ''null'' JNull s
          else (case scan_number NBegin s of
                  None \<Rightarrow> SyntaxError | Some (n, r) \<Rightarrow> Parsed (JNumber n) r))"

text \<open>The first argument is fuel, the second the nesting still allowed.\<close>

fun parse_value :: "nat \<Rightarrow> nat \<Rightarrow> string \<Rightarrow> json parsed"
  and parse_elems :: "nat \<Rightarrow> nat \<Rightarrow> string \<Rightarrow> json list parsed"
  and parse_members :: "nat \<Rightarrow> nat \<Rightarrow> string \<Rightarrow> (string \<times> json) list parsed"
where
  "parse_value 0 d s = NoFuel"
| "parse_value (Suc n) d s =
     (let t = skip_ws s in
      case t of
        [] \<Rightarrow> SyntaxError
      | c # cs \<Rightarrow>
          if c = CHR ''{'' then
            if d = 0 then SyntaxError
            else if take 1 (skip_ws cs) = ''}'' then Parsed (JObject []) (drop 1 (skip_ws cs))
            else (case parse_members n (d - 1) cs of
                    Parsed ms r \<Rightarrow> Parsed (JObject (keep_last ms)) r
                  | SyntaxError \<Rightarrow> SyntaxError | NoFuel \<Rightarrow> NoFuel)
          else if c = CHR ''['' then
            if d = 0 then SyntaxError
            else if take 1 (skip_ws cs) = '']'' then Parsed (JArray []) (drop 1 (skip_ws cs))
            else (case parse_elems n (d - 1) cs of
                    Parsed vs r \<Rightarrow> Parsed (JArray vs) r
                  | SyntaxError \<Rightarrow> SyntaxError | NoFuel \<Rightarrow> NoFuel)
          else parse_scalar t)"
| "parse_elems 0 d s = NoFuel"
| "parse_elems (Suc n) d s =
     (case parse_value n d s of
        Parsed v r \<Rightarrow>
          (case skip_ws r of
             [] \<Rightarrow> SyntaxError
           | c # cs \<Rightarrow>
               if c = CHR '']'' then Parsed [v] cs
               else if c = CHR '','' then
                 (case parse_elems n d cs of
                    Parsed vs r' \<Rightarrow> Parsed (v # vs) r'
                  | SyntaxError \<Rightarrow> SyntaxError | NoFuel \<Rightarrow> NoFuel)
               else SyntaxError)
      | SyntaxError \<Rightarrow> SyntaxError | NoFuel \<Rightarrow> NoFuel)"
| "parse_members 0 d s = NoFuel"
| "parse_members (Suc n) d s =
     (case skip_ws s of
        [] \<Rightarrow> SyntaxError
      | q # qs \<Rightarrow>
          if q \<noteq> CHR 0x22 then SyntaxError
          else
            (case scan_string qs of
               None \<Rightarrow> SyntaxError
             | Some (raw, r) \<Rightarrow>
                 if take 1 (skip_ws r) \<noteq> '':'' then SyntaxError
                 else
                   (case parse_value n d (drop 1 (skip_ws r)) of
                      Parsed v r' \<Rightarrow>
                        (case skip_ws r' of
                           [] \<Rightarrow> SyntaxError
                         | c # cs \<Rightarrow>
                             if c = CHR ''}'' then Parsed [(unquote raw, v)] cs
                             else if c = CHR '','' then
                               (case parse_members n d cs of
                                  Parsed ms r'' \<Rightarrow> Parsed ((unquote raw, v) # ms) r''
                                | SyntaxError \<Rightarrow> SyntaxError | NoFuel \<Rightarrow> NoFuel)
                             else SyntaxError)
                    | SyntaxError \<Rightarrow> SyntaxError | NoFuel \<Rightarrow> NoFuel)))"

abbreviation maxNestingDepth :: nat where "maxNestingDepth \<equiv> 10000"

definition decode_any :: "string \<Rightarrow> json option" where
  "decode_any body =
     (case parse_value (2 * length body + 1) maxNestingDepth body of
        Parsed v r \<Rightarrow> Some v | _ \<Rightarrow> None)"

definition RequestFingerprint :: "(string \<Rightarrow> string) \<Rightarrow> string \<Rightarrow> string option" where
  "RequestFingerprint sha256_hex body =
     (if TrimSpace body = [] then Some (sha256_hex (canonicalJSON JNull))
      else case decode_any body of
             None \<Rightarrow> None
           | Some v \<Rightarrow> Some (sha256_hex (canonicalJSON v)))"

section \<open>Strings round-trip\<close>

lemma unhex_hexdigit: "n < 16 \<Longrightarrow> unhex (hexdigit n) = n"
  by (simp add: unhex_def hexdigit_def)

lemma hexdigit_bounds: "n < 16 \<Longrightarrow> 48 \<le> hexdigit n \<and> hexdigit n < 103 \<and> (hexdigit n \<le> 57 \<or> 97 \<le> hexdigit n)"
  by (simp add: hexdigit_def)

lemma u4_byte: "r < 0x80 \<Longrightarrow> u4 48 48 (hexdigit (r div 16)) (hexdigit (r mod 16)) = r"
  by (simp add: u4_def unhex_hexdigit) (simp add: unhex_def)

lemma u4_line: "r = 0x2028 \<or> r = 0x2029 \<Longrightarrow> u4 50 48 50 (hexdigit (r mod 16)) = r"
  by (auto simp: u4_def unhex_def hexdigit_def)

lemma unescape_plain: "c \<noteq> 0x5C \<Longrightarrow> unescape (c # rs) = c # unescape rs"
  by (cases rs) simp_all

lemma unescape_escape: "unescape (escape_rune r @ rs) = r # unescape rs"
proof -
  have "\<not> is_surrogate r" if "r < 0x80 \<or> r = 0x2028 \<or> r = 0x2029"
    using that by (auto simp: is_surrogate_def)
  then show ?thesis
    using u4_byte [of r] u4_line [of r]
    by (auto simp: escape_rune_def unescape_plain simple_escape_def Let_def)
qed

lemma unescape_escapes: "unescape (concat (map escape_rune rs)) = rs"
  by (induction rs) (simp_all add: unescape_escape)

lemma valid_ascii: "r < 0x80 \<Longrightarrow> valid_rune r"
  by (simp add: valid_rune_def)

lemma hexdigit_ascii: "n < 16 \<Longrightarrow> hexdigit n < 0x80"
  by (simp add: hexdigit_def)

lemma escape_rune_valid: "valid_rune r \<Longrightarrow> list_all valid_rune (escape_rune r)"
  by (simp add: escape_rune_def valid_ascii hexdigit_ascii)

lemma escapes_valid: "list_all valid_rune rs \<Longrightarrow> list_all valid_rune (concat (map escape_rune rs))"
  by (induction rs) (simp_all add: escape_rune_valid)

lemma unquote_escapes:
  "list_all valid_rune rs \<Longrightarrow> unquote (utf8 (concat (map escape_rune rs))) = utf8 rs"
  by (simp add: unquote_def utf8_valid [OF escapes_valid] unescape_escapes)

text \<open>Scanning: bytes that neither end nor escape the literal.\<close>

definition plain_byte :: "char \<Rightarrow> bool" where
  "plain_byte c \<longleftrightarrow> 0x20 \<le> (of_char c :: nat) \<and> c \<noteq> CHR 0x22 \<and> c \<noteq> CHR 0x5C"

lemma scan_plain:
  "list_all plain_byte bs \<Longrightarrow>
   scan_string (bs @ s) = map_option (\<lambda>(raw, r). (bs @ raw, r)) (scan_string s)"
  by (induction bs) (auto simp: plain_byte_def option.map_comp o_def split_def option.map_ident)

lemma EncodeRune_ascii: "r < 0x80 \<Longrightarrow> EncodeRune r = [char_of r]"
  by (simp add: EncodeRune_def encode_bytes_def)

lemma json_chars:
  "char_of (34 :: nat) = CHR 0x22" "char_of (92 :: nat) = CHR 0x5C" "char_of (98 :: nat) = CHR ''b''"
  "char_of (102 :: nat) = CHR ''f''" "char_of (110 :: nat) = CHR ''n''" "char_of (114 :: nat) = CHR ''r''"
  "char_of (116 :: nat) = CHR ''t''" "char_of (117 :: nat) = CHR ''u''" "char_of (48 :: nat) = CHR ''0''"
  "char_of (50 :: nat) = CHR ''2''"
  by (simp_all add: char_of_eq_iff)

lemma EncodeRune_plain:
  assumes "valid_rune r" "0x20 \<le> r" "r \<noteq> 0x22" "r \<noteq> 0x5C"
  shows "list_all plain_byte (EncodeRune r)"
proof (cases "r < 0x80")
  case True
  have "char_of r \<noteq> CHR 0x22" "char_of r \<noteq> CHR 0x5C"
    using True assms by (auto simp: char_of_eq_iff take_bit_eq_mod)
  then show ?thesis using True assms by (simp add: EncodeRune_ascii plain_byte_def)
next
  case False
  have "0x80 \<le> b" if "b \<in> set (encode_bytes r)" for b
    using that False by (auto simp: encode_bytes_def split: if_splits)
  then have "0x80 \<le> (of_char c :: nat)" if "c \<in> set (EncodeRune r)" for c
    using that map_of_char_EncodeRune [OF assms(1)] by (metis imageI list.set_map)
  then have "plain_byte c" if "c \<in> set (EncodeRune r)" for c
    using that by (fastforce simp: plain_byte_def)
  then show ?thesis by (simp add: list_all_iff)
qed

lemma is_hex_hexdigit: "n < 16 \<Longrightarrow> is_hex (char_of (hexdigit n))"
  by (simp add: is_hex_def hexdigit_def)

lemma scan_escape_rune:
  assumes "valid_rune r"
  shows "scan_string (utf8 (escape_rune r) @ s) =
    map_option (\<lambda>(raw, t). (utf8 (escape_rune r) @ raw, t)) (scan_string s)"
proof (cases "escape_rune r = [r]")
  case True
  then have "0x20 \<le> r \<and> r \<noteq> 0x22 \<and> r \<noteq> 0x5C"
    by (auto simp: escape_rune_def split: if_splits)
  then show ?thesis using True assms scan_plain [OF EncodeRune_plain] by simp
next
  case False
  have hexbytes: "plain_byte (char_of (hexdigit n))" if "n < 16" for n
    using EncodeRune_plain [of "hexdigit n"] hexdigit_bounds [OF that] hexdigit_ascii [OF that]
    by (auto simp: valid_ascii EncodeRune_ascii)
  have u: "scan_string (CHR 0x5C # CHR ''u'' # ds @ s) =
      map_option (\<lambda>(raw, t). (CHR 0x5C # CHR ''u'' # ds @ raw, t)) (scan_string s)"
    if "length ds = 4" "list_all is_hex ds" "list_all plain_byte ds" for ds
    using that scan_plain [of ds s] by (simp add: option.map_comp o_def split_def)
  have short: "scan_string (CHR 0x5C # d # s) =
      map_option (\<lambda>(raw, t). (CHR 0x5C # d # raw, t)) (scan_string s)"
    if "d \<in> set (CHR 0x22 # CHR 0x5C # ''/bfnrt'')" for d
    using that by simp
  have r16: "r mod 16 < 16" by simp
  consider (q) "r = 0x22 \<or> r = 0x5C" | (c) "r < 0x20 \<or> r = 0x3C \<or> r = 0x3E \<or> r = 0x26"
    | (l) "r = 0x2028 \<or> r = 0x2029"
    using False by (force simp: escape_rune_def split: if_splits)
  then show ?thesis
  proof cases
    case q
    then show ?thesis using short [of "char_of r"]
      by (elim disjE) (simp_all add: escape_rune_def EncodeRune_ascii json_chars)
  next
    case c
    then have d16: "r div 16 < 16" and small: "r < 0x80" by auto
    show ?thesis
    proof (cases "r \<in> {8, 12, 10, 13, 9}")
      case True
      then have "r = 8 \<or> r = 12 \<or> r = 10 \<or> r = 13 \<or> r = 9" by simp
      then show ?thesis
        by (elim disjE) (simp_all add: escape_rune_def EncodeRune_ascii json_chars)
    next
      case False
      then have e: "escape_rune r = [0x5C, 117, 48, 48, hexdigit (r div 16), hexdigit (r mod 16)]"
        using c by (auto simp: escape_rune_def)
      show ?thesis
        using u [of "[CHR ''0'', CHR ''0'', char_of (hexdigit (r div 16)), char_of (hexdigit (r mod 16))]"]
          is_hex_hexdigit [OF d16] is_hex_hexdigit [OF r16] hexbytes [OF d16] hexbytes [OF r16]
        by (simp add: e EncodeRune_ascii hexdigit_ascii d16 r16 is_hex_def plain_byte_def json_chars)
    qed
  next
    case l
    then have e: "escape_rune r = [0x5C, 117, 50, 48, 50, hexdigit (r mod 16)]"
      by (auto simp: escape_rune_def)
    show ?thesis
      using u [of "[CHR ''2'', CHR ''0'', CHR ''2'', char_of (hexdigit (r mod 16))]"]
        is_hex_hexdigit [OF r16] hexbytes [OF r16]
      by (simp add: e EncodeRune_ascii hexdigit_ascii r16 is_hex_def plain_byte_def json_chars)
  qed
qed

lemma scan_escapes:
  "list_all valid_rune rs \<Longrightarrow>
   scan_string (utf8 (concat (map escape_rune rs)) @ CHR 0x22 # s) =
     Some (utf8 (concat (map escape_rune rs)), s)"
  by (induction rs) (simp_all add: scan_escape_rune)

lemma writeJSONString_valid:
  assumes "ValidString s"
  shows "writeJSONString s = CHR 0x22 # utf8 (concat (map escape_rune (runes s))) @ [CHR 0x22]"
proof -
  have "map escape_segment (segments s) = map (\<lambda>seg. utf8 (escape_rune (fst seg))) (segments s)"
    using assms by (auto simp: ValidString_def list_all_iff escape_segment_def)
  moreover have "concat (map (\<lambda>seg. utf8 (escape_rune (fst seg))) segs) =
      utf8 (concat (map escape_rune (map fst segs)))" for segs :: "(nat \<times> string) list"
    by (induction segs) simp_all
  ultimately show ?thesis unfolding writeJSONString_def runes_def by metis
qed

lemma scan_writeJSONString:
  assumes "ValidString s"
  shows "\<exists>raw. writeJSONString s @ t = CHR 0x22 # raw @ CHR 0x22 # t
    \<and> scan_string (raw @ CHR 0x22 # t) = Some (raw, t) \<and> unquote raw = s"
  using ValidString_utf8 [OF assms] scan_escapes [of "runes s" t] unquote_escapes [of "runes s"]
  by (auto simp: writeJSONString_valid [OF assms])

section \<open>Values round-trip\<close>

fun wf_json :: "nat \<Rightarrow> json \<Rightarrow> bool" where
  "wf_json d (JObject ms) \<longleftrightarrow> 0 < d \<and> distinct (map fst ms)
     \<and> list_all (\<lambda>(k, v). ValidString k \<and> wf_json (d - 1) v) ms"
| "wf_json d (JArray vs) \<longleftrightarrow> 0 < d \<and> list_all (wf_json (d - 1)) vs"
| "wf_json d (JString s) \<longleftrightarrow> ValidString s"
| "wf_json d (JNumber n) \<longleftrightarrow> scan_number NBegin n = Some (n, [])"
| "wf_json d _ \<longleftrightarrow> True"

text \<open>The value up to the order of object members.\<close>

fun norm_json :: "json \<Rightarrow> json" where
  "norm_json (JObject ms) = JObject (sort_key fst (map (\<lambda>(k, v). (k, norm_json v)) ms))"
| "norm_json (JArray vs) = JArray (map norm_json vs)"
| "norm_json v = v"

lemma insort_key_map_snd:
  "insort_key fst (k, f v) (map (\<lambda>(k, v). (k, f v)) xs) =
   map (\<lambda>(k, v). (k, f v)) (insort_key fst (k, v) xs)"
  by (induction xs) auto

lemma sort_key_map_snd:
  "sort_key fst (map (\<lambda>(k, v). (k, f v)) xs) = map (\<lambda>(k, v). (k, f v)) (sort_key fst xs)"
  by (induction xs) (auto simp: insort_key_map_snd)

lemma canonicalJSON_norm: "canonicalJSON (norm_json v) = canonicalJSON v"
proof (induction v)
  case (JObject ms)
  let ?C = "\<lambda>(k :: string, v). (k, canonicalJSON v)" and ?N = "\<lambda>(k :: string, v). (k, norm_json v)"
  have "sort_key fst (map ?C (sort_key fst (map ?N ms))) = sort_key fst (map ?C (map ?N ms))"
    unfolding sort_key_map_snd by (simp add: sort_key_id_if_sorted)
  also have "map ?C (map ?N ms) = map ?C ms"
    using JObject by (auto intro!: map_cong)
  finally show ?case by (simp only: norm_json.simps canonicalJSON.simps)
next
  case (JArray vs)
  then have "map canonicalJSON (map norm_json vs) = map canonicalJSON vs" by simp
  then show ?case by (simp only: norm_json.simps canonicalJSON.simps)
qed simp_all

definition delimited :: "string \<Rightarrow> bool" where
  "delimited r \<longleftrightarrow> r = [] \<or> hd r = CHR '','' \<or> hd r = CHR '']'' \<or> hd r = CHR ''}''"

lemma nstep_delimiter:
  "c = CHR '','' \<or> c = CHR '']'' \<or> c = CHR ''}'' \<Longrightarrow> nstep st c = None"
  by (cases st) (auto simp: is_digit_def)

lemma scan_number_append:
  "scan_number st n = Some (n, []) \<Longrightarrow> delimited r \<Longrightarrow> scan_number st (n @ r) = Some (n, r)"
proof (induction n arbitrary: st)
  case Nil
  then show ?case
    by (cases r) (auto simp: delimited_def nstep_delimiter split: if_splits)
next
  case (Cons c n)
  then show ?case by (auto split: option.splits if_splits)
qed

lemma scan_number_head:
  "scan_number NBegin n = Some (n, []) \<Longrightarrow> \<exists>c cs. n = c # cs \<and> (c = CHR ''-'' \<or> is_digit c)"
  by (cases n) (auto simp: nfinal_def is_digit_def split: option.splits if_splits)

definition value_head :: "char \<Rightarrow> bool" where
  "value_head c \<longleftrightarrow> \<not> is_ws c \<and> c \<noteq> CHR '']'' \<and> c \<noteq> CHR ''}''"

lemma canonicalJSON_head:
  assumes "wf_json d v" shows "\<exists>c cs. canonicalJSON v = c # cs \<and> value_head c"
proof (cases v)
  case (JNumber n)
  with assms obtain c cs where "n = c # cs" "c = CHR ''-'' \<or> is_digit c"
    using scan_number_head [of n] by auto
  then show ?thesis using JNumber by (auto simp: value_head_def is_ws_def is_digit_def)
qed (auto simp: value_head_def is_ws_def writeJSONString_def)

lemma skip_ws_head [simp]: "\<not> is_ws c \<Longrightarrow> skip_ws (c # cs) = c # cs"
  by (simp add: skip_ws_def)

lemma punctuation_not_ws [simp]:
  "\<not> is_ws CHR ''{''" "\<not> is_ws CHR ''}''" "\<not> is_ws CHR ''[''" "\<not> is_ws CHR '']''" "\<not> is_ws CHR '',''"
  "\<not> is_ws CHR '':''" "\<not> is_ws CHR 0x22" "\<not> is_ws CHR ''t''" "\<not> is_ws CHR ''f''" "\<not> is_ws CHR ''n''"
  by (simp_all add: is_ws_def)

lemma parse_number:
  assumes "scan_number NBegin m = Some (m, [])" "delimited r"
  shows "parse_value (Suc n) d (m @ r) = Parsed (JNumber m) r"
proof -
  from scan_number_head [OF assms(1)] obtain c cs where m: "m = c # cs" "c = CHR ''-'' \<or> is_digit c"
    by blast
  have "\<not> is_ws c" "c \<noteq> CHR ''{''" "c \<noteq> CHR ''[''" "c \<noteq> CHR 0x22" "c \<noteq> CHR ''t''" "c \<noteq> CHR ''f''" "c \<noteq> CHR ''n''"
    using m(2) by (auto simp: is_digit_def is_ws_def)
  then show ?thesis
    using scan_number_append [OF assms] m(1) by (simp add: parse_scalar_def)
qed

lemma parse_string:
  assumes "ValidString s" shows "parse_value (Suc n) d (writeJSONString s @ r) = Parsed (JString s) r"
proof -
  obtain raw where raw: "writeJSONString s @ r = CHR 0x22 # raw @ CHR 0x22 # r"
      "scan_string (raw @ CHR 0x22 # r) = Some (raw, r)" "unquote raw = s"
    using scan_writeJSONString [OF assms, of r] by blast
  show ?thesis unfolding raw(1) using raw(2,3) by (simp add: parse_scalar_def)
qed

lemma parse_literals:
  "parse_value (Suc n) d (''null'' @ r) = Parsed JNull r"
  "parse_value (Suc n) d (''true'' @ r) = Parsed (JBool True) r"
  "parse_value (Suc n) d (''false'' @ r) = Parsed (JBool False) r"
  by (simp_all add: parse_scalar_def expect_def)

definition parses :: "nat \<Rightarrow> json \<Rightarrow> bool" where
  "parses d v \<longleftrightarrow> (\<forall>n r. 2 * length (canonicalJSON v) < n \<longrightarrow> delimited r \<longrightarrow>
     parse_value n d (canonicalJSON v @ r) = Parsed (norm_json v) r)"

lemma parsesD:
  "parses d v \<Longrightarrow> 2 * length (canonicalJSON v) < n \<Longrightarrow> delimited r \<Longrightarrow>
   parse_value n d (canonicalJSON v @ r) = Parsed (norm_json v) r"
  by (simp add: parses_def)

lemma parses_scalar:
  "(\<And>n r. delimited r \<Longrightarrow> parse_value (Suc n) d (canonicalJSON v @ r) = Parsed (norm_json v) r)
   \<Longrightarrow> parses d v"
  unfolding parses_def by (metis less_zeroE not0_implies_Suc)

lemma parse_elems_join:
  "list_all (parses d) vs \<Longrightarrow> vs \<noteq> [] \<Longrightarrow>
   2 * length (join_with '','' (map canonicalJSON vs)) + 1 < n \<Longrightarrow>
   parse_elems n d (join_with '','' (map canonicalJSON vs) @ CHR '']'' # r) = Parsed (map norm_json vs) r"
proof (induction vs arbitrary: n)
  case (Cons v vs)
  then obtain m where n: "n = Suc m" by (cases n) auto
  show ?case
  proof (cases vs)
    case Nil
    then show ?thesis using Cons n by (simp add: parsesD delimited_def)
  next
    case (Cons w ws)
    let ?rest = "join_with '','' (map canonicalJSON vs)"
    have j: "join_with '','' (map canonicalJSON (v # vs)) = canonicalJSON v @ CHR '','' # ?rest"
      using Cons by simp
    have "parse_elems m d (?rest @ CHR '']'' # r) = Parsed (map norm_json vs) r"
      using Cons.prems n Cons j by (intro Cons.IH) auto
    moreover have "parse_value m d (canonicalJSON v @ CHR '','' # ?rest @ CHR '']'' # r) =
        Parsed (norm_json v) (CHR '','' # ?rest @ CHR '']'' # r)"
      using Cons.prems n j by (intro parsesD) (auto simp: delimited_def)
    ultimately show ?thesis unfolding j using n by simp
  qed
qed simp

definition member_text :: "string \<times> json \<Rightarrow> string" where
  "member_text kv = writeJSONString (fst kv) @ CHR '':'' # canonicalJSON (snd kv)"

lemma parse_member_step:
  assumes "ValidString k" "parses d v" "2 * length (canonicalJSON v) < m" "delimited (c # cs)"
  shows "parse_members (Suc m) d (member_text (k, v) @ c # cs) =
    (if c = CHR ''}'' then Parsed [(k, norm_json v)] cs
     else if c = CHR '','' then
       (case parse_members m d cs of Parsed ms r \<Rightarrow> Parsed ((k, norm_json v) # ms) r
        | SyntaxError \<Rightarrow> SyntaxError | NoFuel \<Rightarrow> NoFuel)
     else SyntaxError)"
proof -
  obtain raw where raw: "writeJSONString k @ CHR '':'' # canonicalJSON v @ c # cs =
        CHR 0x22 # raw @ CHR 0x22 # CHR '':'' # canonicalJSON v @ c # cs"
      "scan_string (raw @ CHR 0x22 # CHR '':'' # canonicalJSON v @ c # cs) =
        Some (raw, CHR '':'' # canonicalJSON v @ c # cs)" "unquote raw = k"
    using scan_writeJSONString [OF assms(1)] by blast
  have "\<not> is_ws c" using assms(4) by (auto simp: delimited_def)
  then show ?thesis
    using raw parsesD [OF assms(2,3,4)] by (auto simp: member_text_def split: parsed.splits)
qed

lemma parse_members_join:
  "list_all (\<lambda>kv. ValidString (fst kv) \<and> parses d (snd kv)) ms \<Longrightarrow> ms \<noteq> [] \<Longrightarrow>
   2 * length (join_with '','' (map member_text ms)) + 1 < n \<Longrightarrow>
   parse_members n d (join_with '','' (map member_text ms) @ CHR ''}'' # r) =
     Parsed (map (\<lambda>(k, v). (k, norm_json v)) ms) r"
proof (induction ms arbitrary: n)
  case (Cons kv ms)
  then obtain m where n: "n = Suc m" by (cases n) auto
  obtain k v where kv: "kv = (k, v)" by fastforce
  have len: "length (canonicalJSON v) < length (member_text kv)"
    using kv by (simp add: member_text_def)
  show ?case
  proof (cases ms)
    case Nil
    then show ?thesis
      using Cons.prems n kv len by (simp add: parse_member_step delimited_def del: parse_members.simps)
  next
    case (Cons kv' ms')
    let ?rest = "join_with '','' (map member_text ms)"
    have j: "join_with '','' (map member_text (kv # ms)) = member_text kv @ CHR '','' # ?rest"
      using Cons by simp
    have "parse_members m d (?rest @ CHR ''}'' # r) = Parsed (map (\<lambda>(k, v). (k, norm_json v)) ms) r"
      using Cons.prems n Cons j by (intro Cons.IH) auto
    moreover have "2 * length (canonicalJSON v) < m" using Cons.prems(3) n j len by simp
    ultimately show ?thesis
      unfolding j using Cons.prems n kv
      by (simp add: parse_member_step delimited_def del: parse_members.simps)
  qed
qed simp

lemma keep_last_distinct: "distinct (map fst ms) \<Longrightarrow> keep_last ms = ms"
  by (induction ms rule: keep_last.induct) (auto simp: image_iff)

lemma parses_wf: "wf_json d v \<Longrightarrow> parses d v"
proof (induction v arbitrary: d)
  case (JObject ms)
  show ?case unfolding parses_def
  proof (intro allI impI)
    fix n r
    assume n: "2 * length (canonicalJSON (JObject ms)) < n" and r: "delimited r"
    let ?S = "sort_key fst ms"
    obtain e where d: "d = Suc e" using JObject.prems by (cases d) auto
    obtain m where m: "n = Suc m" using n by (cases n) auto
    have tx: "canonicalJSON (JObject ms) = CHR ''{'' # join_with '','' (map member_text ?S) @ ''}''"
      unfolding canonicalJSON.simps sort_key_map_snd
      by (simp add: member_text_def [abs_def] split_def o_def)
    have norm: "norm_json (JObject ms) = JObject (map (\<lambda>(k, v). (k, norm_json v)) ?S)"
      by (simp add: sort_key_map_snd)
    have ok: "list_all (\<lambda>kv. ValidString (fst kv) \<and> parses e (snd kv)) ?S"
      using JObject d by (fastforce simp: list_all_iff)
    have dist: "distinct (map fst (map (\<lambda>(k, v). (k, norm_json v)) ?S))"
      using JObject.prems by (simp add: split_def o_def distinct_map)
    show "parse_value n d (canonicalJSON (JObject ms) @ r) = Parsed (norm_json (JObject ms)) r"
    proof (cases "ms = []")
      case True
      then show ?thesis unfolding tx norm using m d by simp
    next
      case False
      then obtain x xs where S: "?S = x # xs" by (metis length_0_conv length_sort neq_Nil_conv)
      obtain t where t: "join_with '','' (map member_text ?S) = CHR 0x22 # t"
        unfolding S by (cases xs) (auto simp: member_text_def writeJSONString_def)
      have "parse_members m e (join_with '','' (map member_text ?S) @ CHR ''}'' # r) =
          Parsed (map (\<lambda>(k, v). (k, norm_json v)) ?S) r"
        using ok S n m tx by (intro parse_members_join) auto
      then show ?thesis
        unfolding tx norm using m d keep_last_distinct [OF dist] by (simp add: t)
    qed
  qed
next
  case (JArray vs)
  show ?case unfolding parses_def
  proof (intro allI impI)
    fix n r
    assume n: "2 * length (canonicalJSON (JArray vs)) < n" and r: "delimited r"
    obtain e where d: "d = Suc e" using JArray.prems by (cases d) auto
    obtain m where m: "n = Suc m" using n by (cases n) auto
    have wf: "list_all (wf_json e) vs" and ok: "list_all (parses e) vs"
      using JArray d by (auto simp: list_all_iff)
    show "parse_value n d (canonicalJSON (JArray vs) @ r) = Parsed (norm_json (JArray vs)) r"
    proof (cases vs)
      case Nil
      then show ?thesis using m d by simp
    next
      case (Cons v ws)
      obtain c t where t: "join_with '','' (map canonicalJSON vs) = c # t" "value_head c"
        using canonicalJSON_head [of e v] wf Cons by (cases ws) auto
      have "parse_elems m e (join_with '','' (map canonicalJSON vs) @ CHR '']'' # r) =
          Parsed (map norm_json vs) r"
        using ok Cons n m by (intro parse_elems_join) auto
      then show ?thesis using m d t(2) by (simp add: t(1) value_head_def)
    qed
  qed
next
  case (JNumber m)
  then show ?case by (intro parses_scalar) (simp add: parse_number del: parse_value.simps)
next
  case (JString s)
  then show ?case by (intro parses_scalar) (simp add: parse_string del: parse_value.simps)
next
  case (JBool b)
  show ?case by (rule parses_scalar) (simp only: canonicalJSON.simps norm_json.simps if_distrib
      parse_literals split: if_split, simp)
next
  case JNull
  show ?case by (rule parses_scalar) (simp only: canonicalJSON.simps norm_json.simps parse_literals)
qed

lemma canonicalJSON_inject:
  assumes "wf_json d v" "wf_json d w"
  shows "canonicalJSON v = canonicalJSON w \<longleftrightarrow> norm_json v = norm_json w"
proof
  assume eq: "canonicalJSON v = canonicalJSON w"
  let ?n = "2 * length (canonicalJSON v) + 1"
  have "parse_value ?n d (canonicalJSON v @ []) = Parsed (norm_json v) []"
    by (rule parsesD [OF parses_wf [OF assms(1)]]) (simp_all add: delimited_def)
  moreover have "parse_value ?n d (canonicalJSON w @ []) = Parsed (norm_json w) []"
    by (rule parsesD [OF parses_wf [OF assms(2)]]) (simp_all add: delimited_def eq)
  ultimately show "norm_json v = norm_json w" using eq by simp
next
  assume "norm_json v = norm_json w"
  then show "canonicalJSON v = canonicalJSON w" by (metis canonicalJSON_norm)
qed

section \<open>What the decoder returns\<close>

lemma EncodeRune_invalid: "\<not> valid_rune r \<Longrightarrow> EncodeRune r = EncodeRune RuneError"
  by (simp add: EncodeRune_def encode_bytes_def valid_rune_def)

lemma ValidString_utf8_any: "ValidString (utf8 rs)"
proof -
  let ?f = "\<lambda>r. if valid_rune r then r else RuneError"
  have "EncodeRune (?f r) = EncodeRune r" for r
    using EncodeRune_invalid [of r] by auto
  then have "utf8 (map ?f rs) = utf8 rs" by (induction rs) auto
  moreover have "list_all valid_rune (map ?f rs)" by (auto simp: list_all_iff valid_rune_def)
  ultimately show ?thesis using utf8_valid by metis
qed

lemma ValidString_unquote: "ValidString (unquote raw)"
  by (simp add: unquote_def ValidString_utf8_any)

lemma scan_number_self:
  "scan_number st s = Some (n, r) \<Longrightarrow> scan_number st n = Some (n, []) \<and> length r \<le> length s
     \<and> (\<not> nfinal st \<longrightarrow> length r < length s)"
proof (induction s arbitrary: st n)
  case (Cons c s)
  show ?case
  proof (cases "nstep st c")
    case None
    with Cons.prems show ?thesis by (auto split: if_splits)
  next
    case (Some st')
    with Cons.prems obtain n' where "scan_number st' s = Some (n', r)" "n = c # n'" by auto
    with Cons.IH [of st' n'] Some show ?thesis by auto
  qed
qed (auto split: if_splits)

lemma scan_string_step:
  assumes "scan_string (c # cs) = Some (raw, r)"
  shows "r = cs \<or> (\<exists>raw'. scan_string cs = Some (raw', r))
    \<or> (\<exists>d ds raw'. cs = d # ds \<and> scan_string ds = Some (raw', r))"
  using assms unfolding scan_string.simps
  by (auto simp del: list.set scan_string.simps split: if_split_asm list.split_asm)

lemma scan_string_length: "scan_string s = Some (raw, r) \<Longrightarrow> length r < length s"
proof (induction s arbitrary: raw rule: length_induct)
  case (1 s)
  show ?case
  proof (cases s)
    case (Cons c cs)
    with 1(2) have "scan_string (c # cs) = Some (raw, r)" by simp
    from scan_string_step [OF this] consider "r = cs" | raw' where "scan_string cs = Some (raw', r)"
      | d ds raw' where "cs = d # ds" "scan_string ds = Some (raw', r)" by blast
    then show ?thesis
    proof cases
      case 2
      then show ?thesis using 1(1) [rule_format, of cs raw'] Cons by (simp del: scan_string.simps)
    next
      case 3
      then show ?thesis using 1(1) [rule_format, of ds raw'] Cons by (simp del: scan_string.simps)
    qed (use Cons in simp)
  qed (use 1 in simp)
qed

lemma skip_ws_length: "length (skip_ws s) \<le> length s"
  by (simp add: skip_ws_def length_dropWhile_le)

lemma skip_ws_ConsD: "skip_ws s = c # cs \<Longrightarrow> length cs < length s"
  using skip_ws_length [of s] by simp

lemma expect_Parsed: "expect w v s = Parsed u r \<Longrightarrow> u = v \<and> length r = length s - length w"
  by (auto simp: expect_def split: if_splits)

lemma parse_scalar_Parsed:
  assumes "parse_scalar s = Parsed v r"
  shows "wf_json d v \<and> length r < length s"
  using assms scan_number_self [of NBegin s] scan_string_length [of "tl s"]
  by (auto simp: parse_scalar_def ValidString_unquote nfinal_def dest!: expect_Parsed
      split: list.splits if_splits option.splits)

lemma parse_scalar_fuel: "parse_scalar s \<noteq> NoFuel"
  by (auto simp: parse_scalar_def expect_def split: list.splits option.splits)

lemma keep_last_props:
  "distinct (map fst (keep_last ms))" "set (keep_last ms) \<subseteq> set ms"
  by (induction ms rule: keep_last.induct) (auto simp: image_iff)

lemma parse_wf:
  "parse_value n d s = Parsed v r \<Longrightarrow> wf_json d v"
  "parse_elems n d s = Parsed vs r \<Longrightarrow> list_all (wf_json d) vs"
  "parse_members n d s = Parsed ms r \<Longrightarrow> list_all (\<lambda>(k, v). ValidString k \<and> wf_json d v) ms"
proof (induction n d s and n d s and n d s arbitrary: v r and vs r and ms r
    rule: parse_value_parse_elems_parse_members.induct)
  case (2 n d s)
  obtain c cs where s: "skip_ws s = c # cs"
    using 2(3) by (cases "skip_ws s") simp_all
  note IH = 2(1) [OF refl s] 2(2) [OF refl s]
  have obj: "wf_json d (JObject (keep_last ms))"
    if "list_all (\<lambda>(k, v). ValidString k \<and> wf_json (d - 1) v) ms" "d \<noteq> 0" for ms
    using that keep_last_props [of ms] by (auto simp: list_all_iff)
  from 2(3) s consider "v = JObject [] \<and> d \<noteq> 0" | "v = JArray [] \<and> d \<noteq> 0"
    | ms where "c = CHR ''{''" "d \<noteq> 0" "take 1 (skip_ws cs) \<noteq> ''}''"
        "parse_members n (d - 1) cs = Parsed ms r" "v = JObject (keep_last ms)"
    | vs where "c = CHR ''[''" "d \<noteq> 0" "take 1 (skip_ws cs) \<noteq> '']''"
        "parse_elems n (d - 1) cs = Parsed vs r" "v = JArray vs"
    | "parse_scalar (c # cs) = Parsed v r"
    by (auto simp: Let_def split: if_splits parsed.splits)
  then show ?case
  proof cases
    case 3
    then show ?thesis using IH(1) [of ms r] obj by simp
  next
    case 4
    then show ?thesis using IH(2) [of vs r] by simp
  qed (auto dest: parse_scalar_Parsed)
next
  case (4 n d s)
  from 4(3) obtain v r1 c cs where v: "parse_value n d s = Parsed v r1" "skip_ws r1 = c # cs"
    and tl: "vs = [v] \<or> (\<exists>us. c = CHR '','' \<and> parse_elems n d cs = Parsed us r \<and> vs = v # us)"
    by (auto split: parsed.splits list.splits if_splits)
  from 4(1) [OF v(1)] have "wf_json d v" .
  moreover have "list_all (wf_json d) us" if "c = CHR '',''" "parse_elems n d cs = Parsed us r" for us
    using 4(2) [OF v(1) v(2)] that by simp
  ultimately show ?case using tl by auto
next
  case (6 n d s)
  from 6(3) obtain qs raw r0 v r1 c cs where v: "skip_ws s = CHR 0x22 # qs" "scan_string qs = Some (raw, r0)"
      "take 1 (skip_ws r0) = '':''" "parse_value n d (drop 1 (skip_ws r0)) = Parsed v r1" "skip_ws r1 = c # cs"
    and tl: "ms = [(unquote raw, v)] \<or>
      (\<exists>us. c = CHR '','' \<and> parse_members n d cs = Parsed us r \<and> ms = (unquote raw, v) # us)"
    by (auto split: parsed.splits list.splits if_splits option.splits)
  have "wf_json d v" using 6(1) [OF v(1) _ v(2) refl] v(3,4) by simp
  moreover have "list_all (\<lambda>(k, v). ValidString k \<and> wf_json d v) us"
    if "c = CHR '',''" "parse_members n d cs = Parsed us r" for us
    using 6(2) [OF v(1) _ v(2) refl _ v(4) v(5)] v(3) that by simp
  ultimately show ?case using tl ValidString_unquote by auto
qed simp_all

lemma drop1_skip_length: "length (drop 1 (skip_ws s)) \<le> length s"
  using skip_ws_length [of s] by simp

lemma parse_length:
  "parse_value n d s = Parsed v r \<Longrightarrow> length r < length s"
  "parse_elems n d s = Parsed vs r \<Longrightarrow> length r < length s"
  "parse_members n d s = Parsed ms r \<Longrightarrow> length r < length s"
proof (induction n d s and n d s and n d s arbitrary: v r and vs r and ms r
    rule: parse_value_parse_elems_parse_members.induct)
  case (2 n d s)
  obtain c cs where s: "skip_ws s = c # cs"
    using 2(3) by (cases "skip_ws s") simp_all
  note IH = 2(1) [OF refl s] 2(2) [OF refl s] and len = skip_ws_ConsD [OF s] drop1_skip_length [of cs]
  from 2(3) s consider "r = drop 1 (skip_ws cs)"
    | ms where "c = CHR ''{''" "d \<noteq> 0" "take 1 (skip_ws cs) \<noteq> ''}''" "parse_members n (d - 1) cs = Parsed ms r"
    | vs where "c = CHR ''[''" "d \<noteq> 0" "take 1 (skip_ws cs) \<noteq> '']''" "parse_elems n (d - 1) cs = Parsed vs r"
    | "parse_scalar (c # cs) = Parsed v r"
    by (auto simp: Let_def split: if_splits parsed.splits)
  then show ?case
  proof cases
    case 1
    then show ?thesis using len by simp
  next
    case (2 ms)
    then show ?thesis using IH(1) [of ms r] len by simp
  next
    case (3 vs)
    then show ?thesis using IH(2) [of vs r] len by simp
  next
    case 4
    then show ?thesis using parse_scalar_Parsed len by fastforce
  qed
next
  case (4 n d s)
  from 4(3) obtain v r1 c cs where v: "parse_value n d s = Parsed v r1" "skip_ws r1 = c # cs"
    and tl: "r = cs \<or> (\<exists>us. c = CHR '','' \<and> parse_elems n d cs = Parsed us r)"
    by (auto split: parsed.splits list.splits if_splits)
  have "length r < length cs" if "c = CHR '',''" "parse_elems n d cs = Parsed us r" for us
    using 4(2) [OF v(1) v(2)] that by simp
  then show ?case using tl 4(1) [OF v(1)] skip_ws_ConsD [OF v(2)] by fastforce
next
  case (6 n d s)
  from 6(3) obtain qs raw r0 v r1 c cs where v: "skip_ws s = CHR 0x22 # qs" "scan_string qs = Some (raw, r0)"
      "take 1 (skip_ws r0) = '':''" "parse_value n d (drop 1 (skip_ws r0)) = Parsed v r1" "skip_ws r1 = c # cs"
    and tl: "r = cs \<or> (\<exists>us. c = CHR '','' \<and> parse_members n d cs = Parsed us r)"
    by (auto split: parsed.splits list.splits if_splits option.splits)
  have "length r1 < length (drop 1 (skip_ws r0))" using 6(1) [OF v(1) _ v(2) refl] v(3,4) by simp
  then have "length cs < length s"
    using skip_ws_ConsD [OF v(1)] skip_ws_ConsD [OF v(5)] scan_string_length [OF v(2)]
      drop1_skip_length [of r0] by linarith
  moreover have "length r < length cs" if "c = CHR '',''" "parse_members n d cs = Parsed us r" for us
    using 6(2) [OF v(1) _ v(2) refl _ v(4) v(5)] v(3) that by simp
  ultimately show ?case using tl by fastforce
qed simp_all

lemma parse_fuel:
  "2 * length s < n \<Longrightarrow> parse_value n d s \<noteq> NoFuel"
  "2 * length s + 1 < n \<Longrightarrow> parse_elems n d s \<noteq> NoFuel"
  "2 * length s + 1 < n \<Longrightarrow> parse_members n d s \<noteq> NoFuel"
proof (induction n d s and n d s and n d s rule: parse_value_parse_elems_parse_members.induct)
  case (2 n d s)
  show ?case
  proof (cases "skip_ws s")
    case (Cons c cs)
    note IH = 2(1) [OF refl Cons] 2(2) [OF refl Cons]
    have "2 * length cs + 1 < n" using skip_ws_ConsD [OF Cons] 2(3) by simp
    then show ?thesis
      using IH Cons parse_scalar_fuel [of "c # cs"] by (auto simp: Let_def split: if_splits parsed.splits)
  qed simp
next
  case (4 n d s)
  show ?case
  proof (cases "parse_value n d s")
    case (Parsed v r)
    show ?thesis
    proof (cases "skip_ws r")
      case (Cons c cs)
      have "2 * length cs + 1 < n"
        using skip_ws_ConsD [OF Cons] parse_length(1) [OF Parsed] 4(3) by simp
      then have "c = CHR '','' \<Longrightarrow> parse_elems n d cs \<noteq> NoFuel"
        using 4(2) [OF Parsed Cons] by simp
      then show ?thesis using Parsed Cons by (auto split: if_splits parsed.splits)
    qed (simp add: Parsed)
  qed (use 4 in auto)
next
  case (6 n d s)
  show ?case
  proof (rule ccontr, simp only: not_not)
    assume nf: "parse_members (Suc n) d s = NoFuel"
    then obtain qs raw r0 where q: "skip_ws s = CHR 0x22 # qs" "scan_string qs = Some (raw, r0)"
        "take 1 (skip_ws r0) = '':''"
      by (auto split: list.splits if_splits option.splits)
    have len: "2 * length (drop 1 (skip_ws r0)) < n"
      using skip_ws_ConsD [OF q(1)] scan_string_length [OF q(2)] drop1_skip_length [of r0] 6(3) by linarith
    then have "parse_value n d (drop 1 (skip_ws r0)) \<noteq> NoFuel"
      using 6(1) [OF q(1) _ q(2) refl] q(3) by simp
    with nf q obtain v r1 c cs where p: "parse_value n d (drop 1 (skip_ws r0)) = Parsed v r1"
        "skip_ws r1 = c # cs" "c = CHR '',''" "parse_members n d cs = NoFuel"
      by (auto split: list.splits if_splits option.splits parsed.splits)
    have "2 * length cs + 1 < n"
      using len parse_length(1) [OF p(1)] skip_ws_ConsD [OF p(2)] by linarith
    then show False using 6(2) [OF q(1) _ q(2) refl _ p(1) p(2)] q(3) p(3,4) by simp
  qed
qed simp_all

lemma decode_has_fuel: "parse_value (2 * length body + 1) maxNestingDepth body \<noteq> NoFuel"
  by (rule parse_fuel) simp

section \<open>The fingerprint\<close>

lemma decode_any_wf: "decode_any body = Some v \<Longrightarrow> wf_json maxNestingDepth v"
  unfolding decode_any_def by (auto simp del: parse_value.simps split: parsed.splits dest: parse_wf)

text \<open>The value a body stands for; a blank body is the null value.\<close>

definition body_value :: "string \<Rightarrow> json option" where
  "body_value body = (if TrimSpace body = [] then Some JNull else decode_any body)"

lemma RequestFingerprint_value:
  "RequestFingerprint sha body = map_option (\<lambda>v. sha (canonicalJSON v)) (body_value body)"
  by (simp add: RequestFingerprint_def body_value_def split: option.split)

lemma body_value_wf: "body_value body = Some v \<Longrightarrow> wf_json maxNestingDepth v"
  by (auto simp: body_value_def dest: decode_any_wf split: if_splits)

definition sample_body :: string where "sample_body = ''[1,{}]''"
definition spaced_body :: string where "spaced_body = '' [1, { } ]''"

lemma sample_values:
  "body_value sample_body = Some (JArray [JNumber ''1'', JObject []])"
  "body_value spaced_body = Some (JArray [JNumber ''1'', JObject []])"
  "body_value [] = Some JNull"
proof -
  have "TrimSpace sample_body \<noteq> []" "TrimSpace spaced_body \<noteq> []" "TrimSpace [] = []"
    by (simp_all add: sample_body_def spaced_body_def TrimSpace_def segments.simps DecodeRune_def
        decode_bytes_def IsSpace_def trim_both_def)
  moreover have "decode_any sample_body = Some (JArray [JNumber ''1'', JObject []])"
    "decode_any spaced_body = Some (JArray [JNumber ''1'', JObject []])"
    by (simp_all add: decode_any_def sample_body_def spaced_body_def skip_ws_def is_ws_def
        parse_scalar_def is_digit_def nfinal_def numeral_eq_Suc)
  ultimately show "body_value sample_body = Some (JArray [JNumber ''1'', JObject []])"
    "body_value spaced_body = Some (JArray [JNumber ''1'', JObject []])" "body_value [] = Some JNull"
    by (simp_all add: body_value_def)
qed

text \<open>Reordered keys are a replay and any changed value is not. Two readable bodies have the
  same fingerprint exactly when the JSON values they stand for are equal up to the order of object
  members, at every depth, provided SHA-256 does not collide on their two canonical texts.\<close>

theorem same_fingerprint_iff_same_value:
  assumes "body_value b1 = Some v1" "body_value b2 = Some v2"
    and no_collision: "sha (canonicalJSON v1) = sha (canonicalJSON v2) \<Longrightarrow> canonicalJSON v1 = canonicalJSON v2"
  shows "RequestFingerprint sha b1 = RequestFingerprint sha b2 \<longleftrightarrow> norm_json v1 = norm_json v2"
  using assms canonicalJSON_inject [OF body_value_wf body_value_wf, of b1 v1 b2 v2]
  by (auto simp: RequestFingerprint_value)

theorem same_fingerprint_iff_same_value_witness:
  "RequestFingerprint (\<lambda>t. t) sample_body = RequestFingerprint (\<lambda>t. t) spaced_body
   \<and> RequestFingerprint (\<lambda>t. t) sample_body \<noteq> RequestFingerprint (\<lambda>t. t) []"
  using same_fingerprint_iff_same_value [OF sample_values(1,2), of "\<lambda>t. t"]
    same_fingerprint_iff_same_value [OF sample_values(1,3), of "\<lambda>t. t"] by simp

text \<open>The canonical text of a readable body is itself readable and stands for the same value,
  with the members of every object in key order.\<close>

theorem canonicalJSON_roundtrip:
  assumes "body_value body = Some v"
  shows "decode_any (canonicalJSON v) = Some (norm_json v)"
proof -
  have "parse_value (2 * length (canonicalJSON v) + 1) maxNestingDepth (canonicalJSON v @ []) =
      Parsed (norm_json v) []"
    by (rule parsesD [OF parses_wf [OF body_value_wf [OF assms]]]) (simp_all add: delimited_def)
  then show ?thesis by (simp add: decode_any_def del: parse_value.simps)
qed

theorem canonicalJSON_roundtrip_witness:
  "decode_any (canonicalJSON (JArray [JNumber ''1'', JObject []])) =
     Some (norm_json (JArray [JNumber ''1'', JObject []]))"
  by (rule canonicalJSON_roundtrip [OF sample_values(2)])

end
