(* ===== verification/Op_Pipeline.thy ===== *)
theory Op_Pipeline
  imports Operations Json Gm_Errors "HOL-Library.Multiset"
begin

text \<open>
  The one mutation pipeline (\<open>internal/core/operations.go\<close>) and the process-wide passes over
  its rows (\<open>internal/core/recovery.go\<close>). \<open>runOperation\<close> is a function of the operations
  table; the library call is an argument, a function from the committed operation and the table
  to an outcome, an error and the table the call leaves (a send writes its media size, and echoes
  and other requests run meanwhile). The result carries the operations the call was made for.
  Fresh ids, clock readings, SHA-256 and the rendering of error texts are fields of \<open>pipe_env\<close>.
\<close>

section \<open>Data\<close>

abbreviation KindSendText :: string where "KindSendText \<equiv> ''send_text''"
abbreviation KindSendMedia :: string where "KindSendMedia \<equiv> ''send_media''"
abbreviation MaxIdempotencyKeyBytes :: nat where "MaxIdempotencyKeyBytes \<equiv> 200"

record Request =
  rqAuthorizationID :: string
  rqKey :: string
  rqBody :: string
  rqConversationID :: string
  rqSource :: string

record Outcome =
  ocMessageID :: string
  ocConversationID :: string
  ocGoogleStatusRaw :: int

record Result =
  resOperation :: "Operation option"
  resReplayed :: bool
  resChanged :: bool

datatype pipe_error = ApiErr api_error | StoreErr op_error | CallErr go_error

record pipe_env =
  peAccounts :: "string list"
  peSha256 :: "string \<Rightarrow> string"
  peJSONError :: "string \<Rightarrow> string"
  peRender :: "message \<Rightarrow> string"
  peOperationID :: string
  peTmpID :: string
  peInsertAt :: ms
  peSettleAt :: ms

type_synonym call = "Operation \<Rightarrow> op_row list \<Rightarrow> Outcome \<times> go_error option \<times> op_row list"

section \<open>Keys\<close>

definition isControl :: "nat \<Rightarrow> bool" where
  "isControl r \<longleftrightarrow> r < 0x20 \<or> r = 0x7F"

definition idempotencyKeyInvalid :: "message \<Rightarrow> api_error" where
  "idempotencyKeyInvalid m =
     (New CodeInvalidRequest m)\<lparr>apiDetails := Some [''field'' \<mapsto> AnyString ''Idempotency-Key'']\<rparr>"

definition ValidateIdempotencyKey :: "string \<Rightarrow> api_error option" where
  "ValidateIdempotencyKey key =
     (if key = [] then None
      else if MaxIdempotencyKeyBytes < length key then
        Some (idempotencyKeyInvalid [Lit ''Idempotency-Key must be at most '', FmtD 200, Lit '' bytes''])
      else if \<not> ValidString key then
        Some (idempotencyKeyInvalid (msg ''Idempotency-Key must be valid UTF-8''))
      else if list_ex isControl (runes key) then
        Some (idempotencyKeyInvalid (msg ''Idempotency-Key must not contain control characters''))
      else None)"

definition idempotencyKeyCrossedAccounts :: "string \<Rightarrow> string \<Rightarrow> string \<Rightarrow> api_error" where
  "idempotencyKeyCrossedAccounts key firstAccount thisAccount =
     (New CodeInvalidRequest
        [Lit ''Idempotency-Key '', FmtQ key, Lit '' was already used for this kind against account '',
         FmtS firstAccount, Lit ''; reusing it against '', FmtS thisAccount,
         Lit '' is not a replay -- it would send a second real message to a real person. Use a fresh key for a genuinely new send.''])
       \<lparr>apiDetails := Some [''field'' \<mapsto> AnyString ''Idempotency-Key'',
           ''account_id'' \<mapsto> AnyString firstAccount, ''other_account_id'' \<mapsto> AnyString thisAccount]\<rparr>"

definition tmpIDFor :: "pipe_env \<Rightarrow> string \<Rightarrow> string" where
  "tmpIDFor env kind = (if kind = KindSendText \<or> kind = KindSendMedia then peTmpID env else [])"

section \<open>Settling one outcome\<close>

definition outcome_settlement ::
  "pipe_env \<Rightarrow> Outcome \<Rightarrow> go_error option \<Rightarrow> Settlement" where
  "outcome_settlement env outcome callErr =
     (let st = \<lparr>stStatus = OpSucceeded, stMessageID = ocMessageID outcome,
                stConversationID = ocConversationID outcome, stErrorCode = [], stErrorMessage = [],
                stErrorRetryable = False, stGoogleStatusRaw = ocGoogleStatusRaw outcome\<rparr>
      in case Classify callErr of
           None \<Rightarrow> st
         | Some (e, _) \<Rightarrow>
             st\<lparr>stStatus := (if gmKeepsOperationPending e then OpPending else OpFailed),
                stErrorCode := gmCode e, stErrorMessage := peRender env (gmMessage e),
                stErrorRetryable := gmRetryable e,
                stGoogleStatusRaw := (if gmGoogleStatusRaw e \<noteq> 0 then gmGoogleStatusRaw e
                                      else ocGoogleStatusRaw outcome)\<rparr>)"

definition settle ::
  "pipe_env \<Rightarrow> Operation \<Rightarrow> Outcome \<Rightarrow> go_error option \<Rightarrow> op_row list \<Rightarrow> op_error + (Operation \<times> op_row list)"
where
  "settle env op outcome callErr ops =
     SettleOperation (peSettleAt env) (opID op) (outcome_settlement env outcome callErr) ops"

section \<open>The pipeline\<close>

text \<open>Step 7: the key is checked, then looked up under other accounts, then under this one. The
  answer is a refusal, the operation to replay, or the fingerprint to insert.\<close>

definition run_lookup ::
  "pipe_env \<Rightarrow> string \<Rightarrow> string \<Rightarrow> Request \<Rightarrow> op_row list \<Rightarrow> pipe_error + (Operation + string)" where
  "run_lookup env account kind req ops =
     (case ValidateIdempotencyKey (rqKey req) of
        Some e \<Rightarrow> Inl (ApiErr e)
      | None \<Rightarrow>
          (case RequestFingerprint (peSha256 env) (rqBody req) of
             None \<Rightarrow> Inl (ApiErr (MalformedBody (peJSONError env (rqBody req))))
           | Some fingerprint \<Rightarrow>
               if rqKey req = [] then Inr (Inr fingerprint)
               else
                 (case KeyUsedByAnotherAccount (rqAuthorizationID req) kind (rqKey req) account ops of
                    Some other \<Rightarrow> Inl (ApiErr (idempotencyKeyCrossedAccounts (rqKey req) other account))
                  | None \<Rightarrow>
                      (case OperationByKey (rqAuthorizationID req) account kind (rqKey req) ops of
                         Inr existing \<Rightarrow>
                           if opRequestFingerprint existing = fingerprint then Inr (Inl existing)
                           else Inl (ApiErr (IdempotencyConflict (rqKey req)))
                       | Inl ErrOperationNotFound \<Rightarrow> Inr (Inr fingerprint)
                       | Inl e \<Rightarrow> Inl (StoreErr e)))))"

text \<open>Step 8: the row is committed as running and read back.\<close>

definition new_operation :: "pipe_env \<Rightarrow> string \<Rightarrow> string \<Rightarrow> Request \<Rightarrow> string \<Rightarrow> Operation" where
  "new_operation env account kind req fingerprint =
     \<lparr>opID = peOperationID env, opAccountID = account, opKind = kind,
      opAuthorizationID = rqAuthorizationID req, opIdempotencyKey = rqKey req,
      opRequestFingerprint = fingerprint, opConversationID = rqConversationID req,
      opMessageID = [], opTmpID = tmpIDFor env kind, opStatus = OpRunning, opTerminal = False,
      opTerminalAtMS = 0, opCorrectedAtMS = 0, opErrorCode = [], opErrorMessage = [],
      opErrorRetryable = False, opHasErrorRetryable = False, opGoogleStatusRaw = 0,
      opRequestPayloadJSON = [], opMediaSizeBytes = 0, opCreatedAtMS = 0, opUpdatedAtMS = 0\<rparr>"

definition run_insert ::
  "pipe_env \<Rightarrow> string \<Rightarrow> string \<Rightarrow> Request \<Rightarrow> string \<Rightarrow> op_row list \<Rightarrow> op_error + (Operation \<times> op_row list)"
where
  "run_insert env account kind req fingerprint ops =
     (case InsertOperation (peAccounts env) [] (peInsertAt env)
             (new_operation env account kind req fingerprint) ops of
        Inl e \<Rightarrow> Inl e
      | Inr ops' \<Rightarrow>
          (case OperationByID (peOperationID env) ops' of
             Inl e \<Rightarrow> Inl e | Inr op \<Rightarrow> Inr (op, ops')))"

text \<open>Steps 7 to 11. \<open>crashBefore\<close> is the seam between the commit and the call, which always
  answers \<open>None\<close> in production. The last component lists the operations the call was made
  for.\<close>

definition runOperation ::
  "pipe_env \<Rightarrow> (Operation \<Rightarrow> go_error option) \<Rightarrow> string \<Rightarrow> string \<Rightarrow> Request \<Rightarrow> call \<Rightarrow> op_row list
     \<Rightarrow> Result \<times> pipe_error option \<times> op_row list \<times> Operation list" where
  "runOperation env crashBefore account kind req call ops =
     (let none = \<lparr>resOperation = None, resReplayed = False, resChanged = False\<rparr> in
      case run_lookup env account kind req ops of
        Inl e \<Rightarrow> (none, Some e, ops, [])
      | Inr (Inl existing) \<Rightarrow>
          (\<lparr>resOperation = Some existing, resReplayed = True, resChanged = False\<rparr>, None, ops, [])
      | Inr (Inr fingerprint) \<Rightarrow>
          (case run_insert env account kind req fingerprint ops of
             Inl e \<Rightarrow> (none, Some (StoreErr e), ops, [])
           | Inr (op, ops1) \<Rightarrow>
               (case crashBefore op of
                  Some e \<Rightarrow> (none\<lparr>resOperation := Some op\<rparr>, Some (CallErr e), ops1, [])
                | None \<Rightarrow>
                    (let (outcome, callErr, ops2) = call op ops1 in
                     case settle env op outcome callErr ops2 of
                       Inl e \<Rightarrow> (none\<lparr>resOperation := Some op\<rparr>, Some (StoreErr e), ops2, [op])
                     | Inr (settled, ops3) \<Rightarrow>
                         (\<lparr>resOperation = Some settled, resReplayed = False, resChanged = (callErr = None)\<rparr>,
                          map_option CallErr callErr, ops3, [op])))))"

section \<open>Recovery and reaping with their audit rows\<close>

record audit_event =
  aeKind :: string
  aeAccountID :: string
  aeAuthorizationID :: string
  aeTargetType :: string
  aeTargetID :: string
  aeResult :: string
  aeSource :: string
  aeOperationKind :: string
  aeStatus :: OperationStatus
  aeErrorCode :: string

definition auditOperations :: "Operation list \<Rightarrow> string \<Rightarrow> string \<Rightarrow> string \<Rightarrow> audit_event list" where
  "auditOperations ops kind source errorCode =
     map (\<lambda>op. \<lparr>aeKind = kind, aeAccountID = opAccountID op, aeAuthorizationID = opAuthorizationID op,
                aeTargetType = ''operation'', aeTargetID = opID op, aeResult = ''failed'',
                aeSource = (if source = [] then ''system'' else source),
                aeOperationKind = opKind op, aeStatus = opStatus op, aeErrorCode = errorCode\<rparr>) ops"

abbreviation KindOperationCrashRecovered :: string where
  "KindOperationCrashRecovered \<equiv> ''operation.crash_recovered''"

definition RecoverOperations ::
  "ms \<Rightarrow> string \<Rightarrow> op_row list \<Rightarrow> op_error + (Operation list \<times> audit_event list \<times> op_row list)" where
  "RecoverOperations now source ops =
     (case RecoverRunningOperations now ops of
        Inl e \<Rightarrow> Inl e
      | Inr (outs, ops') \<Rightarrow>
          Inr (outs, auditOperations outs KindOperationCrashRecovered source ErrCrashRecovered, ops'))"

definition ReapOperations ::
  "ms \<Rightarrow> int \<Rightarrow> string \<Rightarrow> op_row list \<Rightarrow> op_error + (Operation list \<times> audit_event list \<times> op_row list)" where
  "ReapOperations now timeoutMS source ops =
     (case ReapPendingOperations now timeoutMS ops of
        Inl e \<Rightarrow> Inl e
      | Inr (outs, ops') \<Rightarrow>
          Inr (outs, auditOperations outs KindOperationCrashRecovered source ErrPendingTimeout, ops'))"

section \<open>A used key\<close>

lemma KeyUsedByAnotherAccount_SomeD:
  "KeyUsedByAnotherAccount auth kind key account ops = Some other \<Longrightarrow>
   \<exists>r \<in> set ops. oprAccountID r = other \<and> other \<noteq> account \<and> oprAuthorizationID r = auth
     \<and> oprKind r = kind \<and> oprIdempotencyKey r = Some key"
  by (auto simp: KeyUsedByAnotherAccount_def split: if_splits dest!: first_by_SomeD)

lemma KeyUsedByAnotherAccount_None:
  "KeyUsedByAnotherAccount auth kind key account ops = None \<Longrightarrow> key \<noteq> [] \<Longrightarrow> r \<in> set ops \<Longrightarrow>
   oprAuthorizationID r = auth \<Longrightarrow> oprKind r = kind \<Longrightarrow> oprIdempotencyKey r = Some key \<Longrightarrow>
   oprAccountID r = account"
  by (auto simp: KeyUsedByAnotherAccount_def filter_empty_conv)

lemma OperationByKey_Inr:
  "OperationByKey auth account kind key ops = Inr o' \<Longrightarrow>
   \<exists>r \<in> set ops. o' = scanOperation r \<and> oprAuthorizationID r = auth \<and> oprAccountID r = account
     \<and> oprKind r = kind \<and> oprIdempotencyKey r = Some key"
  by (auto simp: OperationByKey_def split: if_splits option.splits dest!: select_one_SomeD)

lemma OperationByKey_Inl:
  "OperationByKey auth account kind key ops = Inl e \<Longrightarrow> key \<noteq> [] \<Longrightarrow> r \<in> set ops \<Longrightarrow>
   oprAuthorizationID r = auth \<Longrightarrow> oprAccountID r = account \<Longrightarrow> oprKind r = kind \<Longrightarrow>
   oprIdempotencyKey r \<noteq> Some key"
  by (auto simp: OperationByKey_def select_one_None_iff split: option.splits)

lemma OperationByKey_error:
  "OperationByKey auth account kind key ops = Inl e \<Longrightarrow> e = ErrOperationNotFound"
  by (auto simp: OperationByKey_def split: if_splits option.splits)

text \<open>The rows an authorization's key already names for a kind, under any account.\<close>

definition key_rows :: "string \<Rightarrow> string \<Rightarrow> string \<Rightarrow> op_row list \<Rightarrow> op_row set" where
  "key_rows auth kind key ops =
     {r \<in> set ops. oprAuthorizationID r = auth \<and> oprKind r = kind \<and> oprIdempotencyKey r = Some key}"

lemma run_lookup_used:
  assumes key: "rqKey req \<noteq> []" and used: "key_rows (rqAuthorizationID req) kind (rqKey req) ops \<noteq> {}"
  shows "(\<exists>e. run_lookup env account kind req ops = Inl (ApiErr e)) \<or>
    (\<exists>r \<in> key_rows (rqAuthorizationID req) kind (rqKey req) ops. oprAccountID r = account
       \<and> run_lookup env account kind req ops = Inr (Inl (scanOperation r))
       \<and> RequestFingerprint (peSha256 env) (rqBody req) = Some (oprRequestFingerprint r))"
proof (cases "\<exists>e. run_lookup env account kind req ops = Inl (ApiErr e)")
  case False
  then obtain fp where fp: "RequestFingerprint (peSha256 env) (rqBody req) = Some fp"
    and v: "ValidateIdempotencyKey (rqKey req) = None"
    by (auto simp: run_lookup_def split: option.splits)
  let ?K = "KeyUsedByAnotherAccount (rqAuthorizationID req) kind (rqKey req) account ops"
  have none: "?K = None" using False fp v key by (auto simp: run_lookup_def split: option.splits)
  from used obtain r where r: "r \<in> key_rows (rqAuthorizationID req) kind (rqKey req) ops" by blast
  then have acct: "oprAccountID r = account"
    using KeyUsedByAnotherAccount_None [OF none key] by (auto simp: key_rows_def)
  obtain o' where o': "OperationByKey (rqAuthorizationID req) account kind (rqKey req) ops = Inr o'"
    using OperationByKey_Inl [of "rqAuthorizationID req" account kind "rqKey req" ops _ r] r acct key
    by (cases "OperationByKey (rqAuthorizationID req) account kind (rqKey req) ops")
       (auto simp: key_rows_def)
  from OperationByKey_Inr [OF o'] obtain r' where
    "r' \<in> key_rows (rqAuthorizationID req) kind (rqKey req) ops" "o' = scanOperation r'" "oprAccountID r' = account"
    by (auto simp: key_rows_def)
  moreover have "opRequestFingerprint o' = fp"
    using False fp v key none o' by (auto simp: run_lookup_def split: if_splits)
  ultimately show ?thesis
    using fp v key none o' by (intro disjI2 bexI [of _ r']) (auto simp: run_lookup_def scanOperation_def)
qed simp

text \<open>A key that was used is never obeyed twice. When the authorization has already used the
  key for this kind, under whatever account, the pipeline makes no library call and leaves the table
  as it is; it answers without an error only by replaying an operation of this very account, kind and
  key whose body had the same fingerprint.\<close>

theorem used_key_sends_nothing:
  assumes "rqKey req \<noteq> []" and "key_rows (rqAuthorizationID req) kind (rqKey req) ops \<noteq> {}"
  shows "\<exists>res err. runOperation env crashBefore account kind req call ops = (res, err, ops, [])
    \<and> (err = None \<longrightarrow> resReplayed res \<and>
         (\<exists>r \<in> key_rows (rqAuthorizationID req) kind (rqKey req) ops. oprAccountID r = account
            \<and> resOperation res = Some (scanOperation r)
            \<and> RequestFingerprint (peSha256 env) (rqBody req) = Some (oprRequestFingerprint r)))"
  using run_lookup_used [OF assms, of env account] by (auto simp: runOperation_def)

section \<open>What happens to the row\<close>

lemma run_insert_Inr:
  assumes "run_insert env account kind req fp ops = Inr (op, ops')"
  obtains r where "InsertOperation (peAccounts env) [] (peInsertAt env) (new_operation env account kind req fp) ops = Inr ops'"
    and "ops' = ops @ [r]" and "op = scanOperation r" and "oprID r = peOperationID env"
    and "r = inserted_row [] (peInsertAt env) (new_operation env account kind req fp)"
    and "\<forall>r' \<in> set ops. oprID r' \<noteq> peOperationID env"
proof -
  let ?r = "inserted_row [] (peInsertAt env) (new_operation env account kind req fp)"
  from assms have ins: "InsertOperation (peAccounts env) [] (peInsertAt env) (new_operation env account kind req fp) ops = Inr ops'"
    and read: "OperationByID (peOperationID env) ops' = Inr op"
    by (auto simp: run_insert_def split: sum.splits)
  have rid: "oprID ?r = peOperationID env" by (simp add: inserted_row_def new_operation_def)
  from ins have ops': "ops' = ops @ [?r]" and new: "\<forall>r' \<in> set ops. oprID r' \<noteq> peOperationID env"
    using rid by (auto simp: InsertOperation_def Let_def split: if_splits)
  have "select_one (\<lambda>r. oprID r = peOperationID env) ops = None"
    using new by (simp add: select_one_None_iff)
  with read ops' rid have "op = scanOperation ?r"
    by (simp add: OperationByID_def select_one_append)
  with ins ops' rid new show ?thesis by (intro that [of ?r]) auto
qed

lemma scan_inserted [simp]:
  "opID (scanOperation r) = oprID r" "opAccountID (scanOperation r) = oprAccountID r"
  "opKind (scanOperation r) = oprKind r" "opAuthorizationID (scanOperation r) = oprAuthorizationID r"
  "opIdempotencyKey (scanOperation r) = scanString (oprIdempotencyKey r)"
  "opStatus (scanOperation r) = oprStatus r" "opTmpID (scanOperation r) = scanString (oprTmpID r)"
  "opTerminal (scanOperation r) = oprTerminal r" "opRequestFingerprint (scanOperation r) = oprRequestFingerprint r"
  by (simp_all add: scanOperation_def)

definition outcome_status :: "go_error option \<Rightarrow> OperationStatus" where
  "outcome_status callErr =
     (case callErr of
        None \<Rightarrow> OpSucceeded
      | Some e \<Rightarrow> if errors_Is e ErrPhoneNotResponding then OpPending else OpFailed)"

lemma outcome_settlement_status:
  assumes "\<forall>e. callErr = Some e \<longrightarrow> as_gm_error e = None"
  shows "stStatus (outcome_settlement env outcome callErr) = outcome_status callErr"
proof (cases callErr)
  case None
  then show ?thesis by (simp add: outcome_settlement_def outcome_status_def Classify_def)
next
  case (Some e)
  with assms have "as_gm_error e = None" by simp
  then show ?thesis
  proof (cases rule: Classify_cases)
    case (1 g)
    from 1(2) show ?thesis
    proof (cases rule: classify_sentinel_cases)
      case signed_out
      with 1(2) have "\<not> errors_Is e ErrPhoneNotResponding"
        by (auto simp: classify_sentinel_def gm_newError_def)
      with signed_out show ?thesis using Some 1 by (simp add: outcome_settlement_def outcome_status_def)
    qed (use Some 1 in \<open>simp_all add: outcome_settlement_def outcome_status_def\<close>)
  next
    case (2 g)
    then show ?thesis
      using Some classify_sentinel_None_pending [of e]
      by (simp add: outcome_settlement_def outcome_status_def)
  qed
qed

lemma status_of_Some: "status_of i ops = Some s \<longleftrightarrow>
    (\<exists>r. select_one (\<lambda>r. oprID r = i) ops = Some r \<and> oprStatus r = s)"
  by (auto simp: status_of_def)

lemma settle_running:
  assumes "status_of i ops = Some OpRunning"
  shows "\<exists>r. select_one (\<lambda>r. oprID r = i) ops = Some r \<and> SettleOperation now i st ops =
    Inr (scanOperation (settled_row now st r), update_where (\<lambda>r. oprID r = i) (settled_row now st) ops)"
proof -
  from assms obtain r where r: "select_one (\<lambda>r. oprID r = i) ops = Some r" "oprStatus r = OpRunning"
    by (auto simp: status_of_Some)
  have "OperationTransitionAllowed OpRunning t" for t
    by (cases t) (simp_all add: OperationTransitionAllowed_def)
  with r show ?thesis
    by (simp add: SettleOperation_def OperationByID_def settle_upd.select_key_same Let_def)
qed

text \<open>The outcome decides the status. For an admitted request whose row is still running when
  the call returns, the pipeline always records the outcome: no error is \<open>succeeded\<close>, the phone
  not answering is \<open>pending\<close> and any other failure is \<open>failed\<close>. The call was made
  exactly once, its error is returned unchanged, and no other row of the table is touched.\<close>

theorem outcome_decides_status:
  assumes "run_lookup env account kind req ops = Inr (Inr fp)"
    and "run_insert env account kind req fp ops = Inr (op, ops1)"
    and "call op ops1 = (outcome, callErr, ops2)"
    and "status_of (opID op) ops2 = Some OpRunning"
    and "\<forall>e. callErr = Some e \<longrightarrow> as_gm_error e = None"
  shows "\<exists>res ops3. runOperation env (\<lambda>_. None) account kind req call ops =
      (res, map_option CallErr callErr, ops3, [op])
    \<and> status_of (opID op) ops3 = Some (outcome_status callErr)
    \<and> map_option opStatus (resOperation res) = Some (outcome_status callErr)
    \<and> (resChanged res \<longleftrightarrow> callErr = None) \<and> \<not> resReplayed res
    \<and> filter (\<lambda>r. oprID r \<noteq> opID op) ops3 = filter (\<lambda>r. oprID r \<noteq> opID op) ops2"
proof -
  let ?st = "outcome_settlement env outcome callErr"
  obtain r where r: "select_one (\<lambda>r. oprID r = opID op) ops2 = Some r"
    and s: "settle env op outcome callErr ops2 =
      Inr (scanOperation (settled_row (peSettleAt env) ?st r),
           update_where (\<lambda>r. oprID r = opID op) (settled_row (peSettleAt env) ?st) ops2)"
    using settle_running [OF assms(4)] unfolding settle_def by blast
  have others: "filter (\<lambda>r. oprID r \<noteq> i) (update_where (\<lambda>r. oprID r = i) (settled_row now st) xs) =
      filter (\<lambda>r. oprID r \<noteq> i) xs" for i now st xs
    by (induction xs) auto
  show ?thesis
    using assms(1-3) r s outcome_settlement_status [OF assms(5), of env outcome]
    by (auto simp: runOperation_def Let_def status_of_def settle_upd.select_key_same others)
qed

section \<open>Interleaved requests\<close>

text \<open>Several requests run at once. A request that passed step 7 against some earlier table
  commits its row (step 8), waits, and makes its call (step 9); store methods of any kind run in
  between, except the sweep of expired keys; a crash loses every request in flight.\<close>

record pipe_state =
  psOps :: "op_row list"
  psInflight :: "Operation list"
  psLog :: "Operation list"

inductive pipe_step :: "string list \<Rightarrow> pipe_state \<Rightarrow> pipe_state \<Rightarrow> bool" for accounts where
  commit: "run_lookup env account kind req seen = Inr (Inr fp) \<Longrightarrow> peAccounts env = accounts \<Longrightarrow>
     0 < peInsertAt env \<Longrightarrow> run_insert env account kind req fp (psOps s) = Inr (op, ops') \<Longrightarrow>
     pipe_step accounts s (s\<lparr>psOps := ops', psInflight := op # psInflight s\<rparr>)"
| make_call: "op \<in> set (psInflight s) \<Longrightarrow>
     pipe_step accounts s (s\<lparr>psInflight := remove1 op (psInflight s), psLog := op # psLog s\<rparr>)"
| store_write: "op_step accounts (psOps s) ops' \<Longrightarrow> oprID ` set (psOps s) \<subseteq> oprID ` set ops' \<Longrightarrow>
     pipe_step accounts s (s\<lparr>psOps := ops'\<rparr>)"
| crash: "pipe_step accounts s (s\<lparr>psInflight := []\<rparr>)"

inductive pipe_reachable :: "string list \<Rightarrow> pipe_state \<Rightarrow> bool" for accounts where
  start: "pipe_reachable accounts \<lparr>psOps = [], psInflight = [], psLog = []\<rparr>"
| step: "pipe_reachable accounts s \<Longrightarrow> pipe_step accounts s t \<Longrightarrow> pipe_reachable accounts t"

definition row_of :: "Operation \<Rightarrow> op_row \<Rightarrow> bool" where
  "row_of op r \<longleftrightarrow> oprID r = opID op \<and> oprAuthorizationID r = opAuthorizationID op
     \<and> oprAccountID r = opAccountID op \<and> oprKind r = opKind op
     \<and> oprIdempotencyKey r = nullString (opIdempotencyKey op)"

definition calls_ok :: "string list \<Rightarrow> op_row list \<Rightarrow> Operation list \<Rightarrow> bool" where
  "calls_ok accounts ops calls \<longleftrightarrow> ops_inv accounts ops \<and> distinct (map opID calls)
     \<and> (\<forall>op \<in> set calls. \<exists>r \<in> set ops. row_of op r)"

definition pipe_inv :: "string list \<Rightarrow> pipe_state \<Rightarrow> bool" where
  "pipe_inv accounts s \<longleftrightarrow> calls_ok accounts (psOps s) (psInflight s @ psLog s)"

lemma row_of_step:
  assumes "op_step accounts ops ops'" "ops_inv accounts ops" "oprID ` set ops \<subseteq> oprID ` set ops'"
    and "r \<in> set ops" "row_of op r"
  shows "\<exists>r' \<in> set ops'. row_of op r'"
proof -
  have d: "distinct (map oprID ops)" and d': "distinct (map oprID ops')"
    using assms(2) op_step_inv [OF assms(1,2)] by (auto simp: ops_inv_def)
  from assms(3,4) obtain r' where r': "r' \<in> set ops'" "oprID r' = oprID r"
    by (metis image_iff subsetD)
  have "row_evolves r r'"
    using op_step_row [OF assms(1,2), of "oprID r"] select_key_unique [OF d assms(4)]
      select_key_unique [OF d' r'(1)] r'(2) by metis
  with r' assms(5) show ?thesis by (auto simp: row_of_def row_evolves_def)
qed

lemma pipe_step_inv:
  assumes "pipe_step accounts s t" "pipe_inv accounts s"
  shows "pipe_inv accounts t"
  using assms(1)
proof cases
  case (commit env account kind req seen fp op ops')
  let ?calls = "psInflight s @ psLog s"
  from assms(2) have ok: "calls_ok accounts (psOps s) ?calls" by (simp add: pipe_inv_def)
  from commit(5) have "calls_ok accounts ops' (op # ?calls)"
  proof (cases rule: run_insert_Inr)
    case (1 r)
    have key: "oprIdempotencyKey r = nullString (rqKey req)"
      using 1(5) by (simp add: inserted_row_def new_operation_def)
    have inv: "ops_inv accounts ops'"
      using insert_inv 1(1) ok commit(3) by (auto simp: calls_ok_def)
    have row: "row_of op r" using 1(3) key by (auto simp: row_of_def nullString_def)
    have new: "opID op' \<noteq> opID op" if "op' \<in> set ?calls" for op'
    proof -
      from ok that obtain r' where "r' \<in> set (psOps s)" "row_of op' r'"
        unfolding calls_ok_def by blast
      then show ?thesis using 1(3,4,6) by (auto simp: row_of_def)
    qed
    have "distinct (map opID (op # ?calls))"
      using ok new unfolding calls_ok_def by force
    moreover have "\<forall>p \<in> set (op # ?calls). \<exists>r \<in> set ops'. row_of p r"
      using ok row unfolding calls_ok_def 1(2) by fastforce
    ultimately show ?thesis using inv unfolding calls_ok_def by blast
  qed
  then show ?thesis using commit(1) by (simp add: pipe_inv_def)
next
  case (make_call op)
  let ?before = "psInflight s @ psLog s" and ?after = "remove1 op (psInflight s) @ op # psLog s"
  have same: "mset ?after = mset ?before" using make_call(2) by simp
  then have "mset (map opID ?after) = mset (map opID ?before)" by (metis mset_map)
  then have "distinct (map opID ?after) \<longleftrightarrow> distinct (map opID ?before)"
    by (rule mset_eq_imp_distinct_iff)
  moreover have "set ?after = set ?before" using same by (metis set_mset_mset)
  ultimately have "calls_ok accounts (psOps s) ?after"
    using assms(2) unfolding pipe_inv_def calls_ok_def by metis
  then show ?thesis using make_call(1) by (simp add: pipe_inv_def)
next
  case (store_write ops')
  have "calls_ok accounts ops' (psInflight s @ psLog s)"
    using assms(2) row_of_step [OF store_write(2) _ store_write(3)] op_step_inv [OF store_write(2)]
    unfolding pipe_inv_def calls_ok_def by blast
  then show ?thesis using store_write(1) by (simp add: pipe_inv_def)
next
  case crash
  have "calls_ok accounts (psOps s) (psLog s)" using assms(2) by (auto simp: pipe_inv_def calls_ok_def)
  then show ?thesis using crash by (simp add: pipe_inv_def)
qed

lemma pipe_reachable_inv: "pipe_reachable accounts s \<Longrightarrow> pipe_inv accounts s"
proof (induction rule: pipe_reachable.induct)
  case start
  show ?case by (simp add: pipe_inv_def calls_ok_def)
qed (rule pipe_step_inv)

definition same_key :: "string \<Rightarrow> string \<Rightarrow> string \<Rightarrow> string \<Rightarrow> Operation \<Rightarrow> bool" where
  "same_key auth account kind key op \<longleftrightarrow> opAuthorizationID op = auth \<and> opAccountID op = account
     \<and> opKind op = kind \<and> opIdempotencyKey op = key"

lemma distinct_map_all_same: "distinct (map f xs) \<Longrightarrow> \<forall>x \<in> set xs. f x = c \<Longrightarrow> length xs \<le> 1"
  by (cases xs rule: remdups_adj.cases) auto

text \<open>C1: at most one library call per idempotency key. However requests interleave, whatever
  tables their lookups saw, whatever store methods run between them and wherever the process
  crashes, the calls made for one authorization, account, kind and non-empty key are at most one, as
  long as the row is not swept.\<close>

theorem at_most_one_call_per_key:
  assumes "pipe_reachable accounts s" and "key \<noteq> []"
  shows "length (filter (same_key auth account kind key) (psLog s)) \<le> 1"
proof (cases "filter (same_key auth account kind key) (psLog s)")
  case (Cons op ops)
  have inv: "pipe_inv accounts s" by (rule pipe_reachable_inv [OF assms(1)])
  have row: "\<exists>r \<in> set (psOps s). row_of p r" if "p \<in> set (psLog s)" for p
    using inv that unfolding pipe_inv_def calls_ok_def by auto
  have op: "op \<in> set (psLog s)" "same_key auth account kind key op"
    using filter_set [of "same_key auth account kind key" "psLog s"] Cons by auto
  have "opID p = opID op" if "p \<in> set (psLog s)" "same_key auth account kind key p" for p
  proof -
    from row [OF that(1)] row [OF op(1)] obtain r r' where
      "r \<in> set (psOps s)" "row_of p r" "r' \<in> set (psOps s)" "row_of op r'" by blast
    moreover from this have "same_tuple r r'"
      using that(2) op(2) assms(2) by (simp add: row_of_def same_key_def same_tuple_def)
    ultimately show ?thesis
      using inv unfolding pipe_inv_def calls_ok_def ops_inv_def tuple_unique_def row_of_def by metis
  qed
  moreover have "distinct (map opID (filter (same_key auth account kind key) (psLog s)))"
    using inv by (auto simp: pipe_inv_def calls_ok_def intro: distinct_map_filter)
  ultimately show ?thesis by (intro distinct_map_all_same [where c = "opID op"]) auto
qed simp

section \<open>The sequential pipeline is such a run\<close>

text \<open>What the library call may do to the table: store methods that lose no row.\<close>

definition call_step :: "string list \<Rightarrow> op_row list \<Rightarrow> op_row list \<Rightarrow> bool" where
  "call_step accounts ops ops' \<longleftrightarrow> op_step accounts ops ops' \<and> oprID ` set ops \<subseteq> oprID ` set ops'"

lemma call_steps_pipe:
  "(call_step accounts)\<^sup>*\<^sup>* ops ops' \<Longrightarrow>
   (pipe_step accounts)\<^sup>*\<^sup>* \<lparr>psOps = ops, psInflight = i, psLog = l\<rparr> \<lparr>psOps = ops', psInflight = i, psLog = l\<rparr>"
proof (induction rule: rtranclp_induct)
  case (step y z)
  have "pipe_step accounts \<lparr>psOps = y, psInflight = i, psLog = l\<rparr> \<lparr>psOps = z, psInflight = i, psLog = l\<rparr>"
    using step(2) pipe_step.store_write [of accounts "\<lparr>psOps = y, psInflight = i, psLog = l\<rparr>" z]
    by (simp add: call_step_def)
  with step(3) show ?case by (rule rtranclp.rtrancl_into_rtrancl)
qed simp

lemma settle_pipe:
  assumes "settle env op outcome callErr ops = Inr (out, ops')" "0 < peSettleAt env"
  shows "call_step accounts ops ops'"
proof -
  let ?st = "outcome_settlement env outcome callErr"
  have s: "SettleOperation (peSettleAt env) (opID op) ?st ops = Inr (out, ops')"
    using assms(1) by (simp add: settle_def)
  have "map oprID ops' = map oprID ops"
    using s by (cases rule: SettleOperation_Inr) simp
  then have "oprID ` set ops' = oprID ` set ops" by (metis set_map)
  then show ?thesis using op_step.settle [OF assms(2) s] by (simp add: call_step_def)
qed

text \<open>C18: one pipeline run is a run of the interleaved system. From any table, the steps of
  \<open>runOperation\<close> take the system to the table it returns and append exactly the calls it
  reports to the log, provided the library call changes the table by store methods only.\<close>

theorem runOperation_refines_interleaving:
  assumes "runOperation env crashBefore account kind req call ops = (res, err, ops', calls)"
    and "peAccounts env = accounts" "0 < peInsertAt env" "0 < peSettleAt env"
    and "\<And>op t outcome callErr t'. call op t = (outcome, callErr, t') \<Longrightarrow> (call_step accounts)\<^sup>*\<^sup>* t t'"
  shows "\<exists>inflight. (pipe_step accounts)\<^sup>*\<^sup>* \<lparr>psOps = ops, psInflight = [], psLog = l\<rparr>
      \<lparr>psOps = ops', psInflight = inflight, psLog = calls @ l\<rparr>"
proof (cases "run_lookup env account kind req ops")
  case (Inl e)
  with assms(1) show ?thesis by (auto simp: runOperation_def)
next
  case (Inr found)
  show ?thesis
  proof (cases found)
    case (Inl existing)
    with assms(1) Inr show ?thesis by (auto simp: runOperation_def)
  next
    case (Inr fp)
    with \<open>run_lookup env account kind req ops = Inr found\<close>
    have look: "run_lookup env account kind req ops = Inr (Inr fp)" by simp
    show ?thesis
    proof (cases "run_insert env account kind req fp ops")
      case (Inl e)
      with assms(1) look show ?thesis by (auto simp: runOperation_def)
    next
      case (Inr committed)
      then obtain op ops1 where ins: "run_insert env account kind req fp ops = Inr (op, ops1)"
        by (cases committed) auto
      let ?s = "\<lambda>t i c. \<lparr>psOps = t, psInflight = i, psLog = c\<rparr>"
      have c1: "pipe_step accounts (?s ops [] l) (?s ops1 [op] l)"
        using pipe_step.commit [OF look assms(2,3), of "?s ops [] l" op ops1] ins by simp
      show ?thesis
      proof (cases "crashBefore op")
        case (Some e)
        with assms(1) look ins c1 show ?thesis by (auto simp: runOperation_def)
      next
        case None
        obtain outcome callErr ops2 where call: "call op ops1 = (outcome, callErr, ops2)"
          by (cases "call op ops1") auto
        have c2: "pipe_step accounts (?s ops1 [op] l) (?s ops1 [] (op # l))"
          using pipe_step.make_call [of op "?s ops1 [op] l" accounts] by simp
        have c3: "(pipe_step accounts)\<^sup>*\<^sup>* (?s ops1 [] (op # l)) (?s ops2 [] (op # l))"
          by (rule call_steps_pipe [OF assms(5) [OF call]])
        have "ops' = ops2 \<or> call_step accounts ops2 ops'" "calls = [op]"
          using assms(1) look ins None call settle_pipe [OF _ assms(4), of op outcome callErr ops2 _ _ accounts]
          by (auto simp: runOperation_def Let_def split: sum.splits)
        then have "(pipe_step accounts)\<^sup>*\<^sup>* (?s ops2 [] (op # l)) (?s ops' [] (calls @ l))"
          using call_steps_pipe [of accounts ops2 ops'] by auto
        with c1 c2 c3 show ?thesis
          by (meson converse_rtranclp_into_rtranclp rtranclp_trans)
      qed
    qed
  qed
qed

section \<open>The crash window\<close>

lemma used_key_no_call:
  "rqKey req \<noteq> [] \<Longrightarrow> key_rows (rqAuthorizationID req) kind (rqKey req) ops \<noteq> {} \<Longrightarrow>
   snd (snd (runOperation env crashBefore account kind req call ops)) = (ops, [])"
  using run_lookup_used [of req kind ops env account] by (auto simp: runOperation_def)

lemma committed_row:
  assumes "op_reachable accounts ops" "peAccounts env = accounts" "0 < peInsertAt env"
    and "run_insert env account kind req fp ops = Inr (op, ops1)"
  obtains r where "op_reachable accounts ops1" "ops1 = ops @ [r]" "op = scanOperation r"
    "oprStatus r = OpRunning" "oprAccountID r = account" "oprKind r = kind"
    "oprAuthorizationID r = rqAuthorizationID req" "oprIdempotencyKey r = nullString (rqKey req)"
  using assms(4)
proof (cases rule: run_insert_Inr)
  case (1 r)
  have "op_reachable accounts ops1"
    using assms(1-3) 1(1) by (intro op_reachable.step [OF assms(1)] op_step.insert) auto
  with 1 show ?thesis
    by (intro that [of r]) (simp_all add: inserted_row_def new_operation_def)
qed

text \<open>C2: a request that dies between the commit and the call is not retried. Nothing was called;
  the recovery pass never fails, settles the row to \<open>unknown\<close>, and audits it under its own
  account with \<open>crash_recovered\<close>; and a client that repeats the keyed request afterwards, with
  any body and against any account, gets no second call.\<close>

theorem crash_window_never_resends:
  assumes "op_reachable accounts ops" "peAccounts env = accounts" "0 < peInsertAt env"
    and "run_lookup env account kind req ops = Inr (Inr fp)"
    and "run_insert env account kind req fp ops = Inr (op, ops1)" and "crashBefore op = Some e"
  shows "snd (snd (runOperation env crashBefore account kind req call ops)) = (ops1, [])
    \<and> (\<exists>outs events ops2. RecoverOperations now source ops1 = Inr (outs, events, ops2)
        \<and> status_of (opID op) ops2 = Some OpUnknown
        \<and> (\<exists>ev \<in> set events. aeTargetID ev = opID op \<and> aeAccountID ev = account
              \<and> aeErrorCode ev = ErrCrashRecovered \<and> aeStatus ev = OpUnknown)
        \<and> (rqKey req \<noteq> [] \<and> rqKey req' = rqKey req \<and> rqAuthorizationID req' = rqAuthorizationID req \<longrightarrow>
             snd (snd (runOperation env' crashBefore' account' kind req' call' ops2)) = (ops2, [])))"
proof -
  obtain r where r: "op_reachable accounts ops1" "ops1 = ops @ [r]" "op = scanOperation r"
    "oprStatus r = OpRunning" "oprAccountID r = account" "oprKind r = kind"
    "oprAuthorizationID r = rqAuthorizationID req" "oprIdempotencyKey r = nullString (rqKey req)"
    using committed_row [OF assms(1-3,5)] .
  have d: "distinct (map oprID ops1)" using op_reachable_inv [OF r(1)] by (simp add: ops_inv_def)
  let ?u = "unknown_row now ErrCrashRecovered"
  let ?ops2 = "update_where (\<lambda>r. oprStatus r = OpRunning) ?u ops1"
  let ?outs = "map (\<lambda>r. scanOperation (?u r)) (filter (\<lambda>r. oprStatus r = OpRunning) ops1)"
  let ?events = "auditOperations ?outs KindOperationCrashRecovered source ErrCrashRecovered"
  have rec: "RecoverOperations now source ops1 = Inr (?outs, ?events, ?ops2)"
    using Recover_eq [OF d, of now] by (simp add: RecoverOperations_def)
  have mem: "r \<in> set ops1" "?u r \<in> set ?ops2" using r(2,4) by (auto simp: set_update_where)
  have status: "status_of (opID op) ?ops2 = Some OpUnknown"
    using select_key_unique [OF d mem(1)] r(3,4) by (simp add: status_of_def unknown_upd.select_key_updated)
  have event: "\<exists>ev \<in> set ?events. aeTargetID ev = opID op \<and> aeAccountID ev = account
      \<and> aeErrorCode ev = ErrCrashRecovered \<and> aeStatus ev = OpUnknown"
    using mem(1) r(3,4,5) by (auto simp: auditOperations_def)
  have "?u r \<in> key_rows (rqAuthorizationID req) kind (rqKey req) ?ops2" if "rqKey req \<noteq> []"
    using mem(2) r(6-8) that by (simp add: key_rows_def)
  then have "snd (snd (runOperation env' crashBefore' account' kind req' call' ?ops2)) = (?ops2, [])"
    if "rqKey req \<noteq> []" "rqKey req' = rqKey req" "rqAuthorizationID req' = rqAuthorizationID req"
    using that used_key_no_call [of req' kind ?ops2] by fastforce
  moreover have "snd (snd (runOperation env crashBefore account kind req call ops)) = (ops1, [])"
    using assms(4-6) by (simp add: runOperation_def)
  ultimately show ?thesis using rec status event by blast
qed

section \<open>Instances\<close>

definition sample_env :: pipe_env where
  "sample_env = \<lparr>peAccounts = [''acct_a''], peSha256 = (\<lambda>t. t), peJSONError = (\<lambda>_. []),
     peRender = (\<lambda>_. []), peOperationID = ''op_1'', peTmpID = ''t1'', peInsertAt = 10, peSettleAt = 20\<rparr>"

definition sample_request :: Request where
  "sample_request = \<lparr>rqAuthorizationID = ''auth_x'', rqKey = ''k1'', rqBody = [],
     rqConversationID = ''conv_c'', rqSource = ''cli''\<rparr>"

definition phone_silent :: call where
  "phone_silent op ops = (\<lparr>ocMessageID = [], ocConversationID = [], ocGoogleStatusRaw = 0\<rparr>,
     Some (Sentinel ErrPhoneNotResponding), ops)"

lemma sample_key: "ValidateIdempotencyKey ''k1'' = None"
  by (simp add: ValidateIdempotencyKey_def ValidString_def runes_def segments.simps DecodeRune_def
      decode_bytes_def bad_segment_def isControl_def)

lemma sample_lookup: "run_lookup sample_env ''acct_a'' KindSendText sample_request [] = Inr (Inr ''null'')"
  by (simp add: run_lookup_def sample_request_def sample_env_def sample_key RequestFingerprint_value
      sample_values KeyUsedByAnotherAccount_def OperationByKey_def)

definition sample_op_row :: op_row where
  "sample_op_row = inserted_row [] 10 (new_operation sample_env ''acct_a'' KindSendText sample_request ''null'')"

lemma sample_op_row_simps [simp]:
  "oprID sample_op_row = ''op_1''" "oprStatus sample_op_row = OpRunning"
  "oprIdempotencyKey sample_op_row = Some ''k1''" "oprAuthorizationID sample_op_row = ''auth_x''"
  "oprKind sample_op_row = KindSendText" "oprAccountID sample_op_row = ''acct_a''"
  by (simp_all add: sample_op_row_def inserted_row_def new_operation_def sample_env_def sample_request_def)

lemma sample_run_insert:
  "run_insert sample_env ''acct_a'' KindSendText sample_request ''null'' [] =
     Inr (scanOperation sample_op_row, [sample_op_row])"
  by (simp add: run_insert_def InsertOperation_def Let_def sample_op_row_def [symmetric] OperationByID_def)
     (simp add: sample_env_def sample_op_row_def inserted_row_def new_operation_def InsertOperation_def
       OperationByID_def)

lemma sample_env_simps [simp]:
  "peAccounts sample_env = [''acct_a'']" "peInsertAt sample_env = 10" "peSettleAt sample_env = 20"
  "rqKey sample_request = ''k1''" "rqAuthorizationID sample_request = ''auth_x''"
  by (simp_all add: sample_env_def sample_request_def)

theorem used_key_sends_nothing_witness:
  "snd (snd (runOperation sample_env (\<lambda>_. None) ''acct_b'' KindSendText sample_request phone_silent
     [sample_op_row])) = ([sample_op_row], [])"
proof -
  have "rqKey sample_request \<noteq> []"
    and "key_rows (rqAuthorizationID sample_request) KindSendText (rqKey sample_request) [sample_op_row] \<noteq> {}"
    by (simp_all add: key_rows_def)
  from used_key_sends_nothing [OF this, of sample_env "\<lambda>_. None" "''acct_b''" phone_silent]
  show ?thesis by auto
qed

theorem outcome_decides_status_witness:
  "\<exists>res ops3. runOperation sample_env (\<lambda>_. None) ''acct_a'' KindSendText sample_request phone_silent [] =
      (res, Some (CallErr (Sentinel ErrPhoneNotResponding)), ops3, [scanOperation sample_op_row])
    \<and> status_of ''op_1'' ops3 = Some OpPending"
proof -
  have st: "status_of (opID (scanOperation sample_op_row)) [sample_op_row] = Some OpRunning"
    by (simp add: status_of_def)
  have gm: "\<forall>e. Some (Sentinel ErrPhoneNotResponding) = Some e \<longrightarrow> as_gm_error e = None" by simp
  show ?thesis
    using outcome_decides_status [OF sample_lookup sample_run_insert _ st gm,
        of phone_silent "\<lparr>ocMessageID = [], ocConversationID = [], ocGoogleStatusRaw = 0\<rparr>"]
    by (auto simp: phone_silent_def outcome_status_def)
qed

lemma sample_commit:
  "pipe_step [''acct_a''] \<lparr>psOps = [], psInflight = [], psLog = []\<rparr>
     \<lparr>psOps = [sample_op_row], psInflight = [scanOperation sample_op_row], psLog = []\<rparr>"
  using pipe_step.commit [OF sample_lookup, of "[''acct_a'']" "\<lparr>psOps = [], psInflight = [], psLog = []\<rparr>"
      "scanOperation sample_op_row" "[sample_op_row]"] sample_run_insert by simp

theorem at_most_one_call_per_key_witness:
  "length (filter (same_key ''auth_x'' ''acct_a'' KindSendText ''k1'') [scanOperation sample_op_row]) \<le> 1"
proof -
  have "pipe_reachable [''acct_a''] \<lparr>psOps = [sample_op_row], psInflight = [], psLog = [scanOperation sample_op_row]\<rparr>"
    using pipe_step.make_call [of "scanOperation sample_op_row"
        "\<lparr>psOps = [sample_op_row], psInflight = [scanOperation sample_op_row], psLog = []\<rparr>" "[''acct_a'']"]
    by (intro pipe_reachable.step [OF pipe_reachable.step [OF pipe_reachable.start sample_commit]]) simp
  from at_most_one_call_per_key [OF this, of "''k1''" "''auth_x''" "''acct_a''" KindSendText]
  show ?thesis by simp
qed

theorem runOperation_refines_interleaving_witness:
  "\<exists>inflight. (pipe_step [''acct_a''])\<^sup>*\<^sup>* \<lparr>psOps = [], psInflight = [], psLog = []\<rparr>
     \<lparr>psOps = fst (snd (snd (runOperation sample_env (\<lambda>_. None) ''acct_a'' KindSendText sample_request phone_silent []))),
      psInflight = inflight,
      psLog = snd (snd (snd (runOperation sample_env (\<lambda>_. None) ''acct_a'' KindSendText sample_request phone_silent [])))\<rparr>"
proof -
  obtain res err ops' calls where
    run: "runOperation sample_env (\<lambda>_. None) ''acct_a'' KindSendText sample_request phone_silent [] =
      (res, err, ops', calls)" by (metis prod_cases4)
  have call: "phone_silent op t = (outcome, callErr, t') \<Longrightarrow> (call_step [''acct_a''])\<^sup>*\<^sup>* t t'"
    for op t outcome callErr t' by (simp add: phone_silent_def)
  show ?thesis
    using runOperation_refines_interleaving [where l = "[]", OF run _ _ _ call] by (simp add: run)
qed

theorem crash_window_never_resends_witness:
  "snd (snd (runOperation sample_env (\<lambda>_. Some (Opaque ''crash'')) ''acct_a'' KindSendText sample_request
     phone_silent [])) = ([sample_op_row], [])"
  using crash_window_never_resends [OF op_reachable.empty _ _ sample_lookup sample_run_insert,
      of "[''acct_a'']" "\<lambda>_. Some (Opaque ''crash'')"] by simp

end
