(* ===== verification/Ids.thy ===== *)
theory Ids
  imports Agm_Prelude
begin

text \<open>
  Public identifiers (\<open>internal/store/ids.go\<close>). Every derived id is a typed prefix followed by
  the UUIDv5, under one frozen namespace, of the id's components joined by a NUL byte.
  \<open>uuid.NewSHA1\<close> under that namespace, rendered, is the parameter \<open>uuid5\<close>. The
  ids Agent GM mints itself (UUIDv7, random UUIDs) are inputs of the operations that store them.
\<close>

abbreviation PrefixAccount :: string where "PrefixAccount \<equiv> ''acct_''"
abbreviation PrefixConversation :: string where "PrefixConversation \<equiv> ''conv_''"
abbreviation PrefixMessage :: string where "PrefixMessage \<equiv> ''msg_''"
abbreviation PrefixAttachment :: string where "PrefixAttachment \<equiv> ''att_''"
abbreviation PrefixReaction :: string where "PrefixReaction \<equiv> ''react_''"
abbreviation PrefixContact :: string where "PrefixContact \<equiv> ''contact_''"
abbreviation PrefixParticipant :: string where "PrefixParticipant \<equiv> ''part_''"

text \<open>The bytes \<open>v5\<close> hashes.\<close>

fun nul_join :: "string list \<Rightarrow> string" where
  "nul_join [] = []"
| "nul_join [c] = c"
| "nul_join (c # d # cs) = c @ CHR 0x00 # nul_join (d # cs)"

definition v5 :: "(string \<Rightarrow> string) \<Rightarrow> string list \<Rightarrow> string" where
  "v5 uuid5 components = uuid5 (nul_join components)"

text \<open>\<open>strings.ToLower\<close> on the ASCII addresses Google accounts have.\<close>

definition lower_char :: "char \<Rightarrow> char" where
  "lower_char c =
     (let n = (of_char c :: nat) in if 65 \<le> n \<and> n \<le> 90 then char_of (n + 32) else c)"

definition AccountID :: "(string \<Rightarrow> string) \<Rightarrow> string \<Rightarrow> string" where
  "AccountID uuid5 address = PrefixAccount @ v5 uuid5 [''account'', map lower_char address]"

definition ConversationID :: "(string \<Rightarrow> string) \<Rightarrow> string \<Rightarrow> string \<Rightarrow> string" where
  "ConversationID uuid5 accountID sourceID =
     PrefixConversation @ v5 uuid5 [accountID, ''conversation'', sourceID]"

definition MessageID :: "(string \<Rightarrow> string) \<Rightarrow> string \<Rightarrow> string \<Rightarrow> string \<Rightarrow> string" where
  "MessageID uuid5 accountID convSourceID msgSourceID =
     PrefixMessage @ v5 uuid5 [accountID, ''message'', convSourceID, msgSourceID]"

definition ContactID :: "(string \<Rightarrow> string) \<Rightarrow> string \<Rightarrow> string \<Rightarrow> string" where
  "ContactID uuid5 accountID sourceID =
     PrefixContact @ v5 uuid5 [accountID, ''contact'', sourceID]"

definition ParticipantID :: "(string \<Rightarrow> string) \<Rightarrow> string \<Rightarrow> string \<Rightarrow> string" where
  "ParticipantID uuid5 conversationID sourceID =
     PrefixParticipant @ v5 uuid5 [conversationID, sourceID]"

definition AttachmentID :: "(string \<Rightarrow> string) \<Rightarrow> string \<Rightarrow> string \<Rightarrow> string \<Rightarrow> string" where
  "AttachmentID uuid5 messageID partIndex mediaID =
     PrefixAttachment @ v5 uuid5 [messageID, partIndex, mediaID]"

definition ReactionID :: "(string \<Rightarrow> string) \<Rightarrow> string \<Rightarrow> string \<Rightarrow> string \<Rightarrow> string" where
  "ReactionID uuid5 messageID participantID canonicalEmojiOrTypeName =
     PrefixReaction @ v5 uuid5 [messageID, participantID, canonicalEmojiOrTypeName]"

text \<open>\<open>parses\<close> is whether \<open>uuid.Parse\<close> accepts what follows the prefix.\<close>

definition HasPrefix :: "(string \<Rightarrow> bool) \<Rightarrow> string \<Rightarrow> string \<Rightarrow> bool" where
  "HasPrefix parses i prefix =
     (if length i \<le> length prefix \<or> take (length prefix) i \<noteq> prefix then False
      else parses (drop (length prefix) i))"

section \<open>Joining is injective\<close>

definition nul_free :: "string \<Rightarrow> bool" where
  "nul_free s \<longleftrightarrow> CHR 0x00 \<notin> set s"

lemma nul_free_split:
  "nul_free a \<Longrightarrow> nul_free b \<Longrightarrow> a @ CHR 0x00 # r = b @ CHR 0x00 # s \<Longrightarrow> a = b \<and> r = s"
proof (induction a arbitrary: b)
  case Nil
  then show ?case by (cases b) (auto simp: nul_free_def)
next
  case (Cons x a)
  then show ?case by (cases b) (auto simp: nul_free_def)
qed

lemma nul_join_free: "nul_free (nul_join cs) \<Longrightarrow> cs = [] \<or> (\<exists>c. cs = [c])"
  by (cases cs rule: nul_join.cases) (auto simp: nul_free_def)

lemma nul_join_arity:
  "list_all nul_free cs \<Longrightarrow> list_all nul_free ds \<Longrightarrow> cs \<noteq> [] \<Longrightarrow> ds \<noteq> [] \<Longrightarrow>
   nul_join cs = nul_join ds \<Longrightarrow> cs = ds"
proof (induction cs arbitrary: ds rule: nul_join.induct)
  case (2 c)
  then have "nul_free (nul_join ds)" by simp
  with 2 nul_join_free [of ds] show ?case by auto
next
  case (3 c d cs)
  show ?case
  proof (cases ds rule: nul_join.cases)
    case (2 e)
    with 3 show ?thesis using nul_join_free [of "c # d # cs"] by auto
  next
    case ds: (3 e f es)
    have "c = e \<and> nul_join (d # cs) = nul_join (f # es)"
      using 3(2,3,6) ds by (intro nul_free_split) auto
    moreover from this have "d # cs = f # es" using 3(2,3) ds by (intro 3(1)) auto
    ultimately show ?thesis using ds by simp
  qed (use 3 in simp)
qed simp

text \<open>\<open>uuid5\<close> does not collide on the joined texts of two component lists.\<close>

definition no_collision :: "(string \<Rightarrow> string) \<Rightarrow> string list \<Rightarrow> string list \<Rightarrow> bool" where
  "no_collision uuid5 cs ds \<longleftrightarrow>
     (uuid5 (nul_join cs) = uuid5 (nul_join ds) \<longrightarrow> nul_join cs = nul_join ds)"

lemma v5_inject:
  assumes "list_all nul_free cs" "list_all nul_free ds" "cs \<noteq> []" "ds \<noteq> []" "no_collision uuid5 cs ds"
  shows "v5 uuid5 cs = v5 uuid5 ds \<longleftrightarrow> cs = ds"
  using assms nul_join_arity [of cs ds] by (auto simp: v5_def no_collision_def)

lemma nul_free_literals [simp]:
  "nul_free ''account''" "nul_free ''conversation''" "nul_free ''message''" "nul_free ''contact''"
  by (simp_all add: nul_free_def)

text \<open>Message ids identify messages. For ids without NUL bytes and without a UUID collision on
  the two derivations, two messages have the same \<open>msg_\<close> id exactly when account, Google
  conversation id and Google message id all agree: no two accounts ever share one.\<close>

theorem MessageID_inject:
  assumes "list_all nul_free [a, c, m, a', c', m']"
    and "no_collision uuid5 [a, ''message'', c, m] [a', ''message'', c', m']"
  shows "MessageID uuid5 a c m = MessageID uuid5 a' c' m' \<longleftrightarrow> (a, c, m) = (a', c', m')"
  using assms v5_inject [of "[a, ''message'', c, m]" "[a', ''message'', c', m']" uuid5]
  by (auto simp: MessageID_def)

theorem MessageID_inject_witness:
  "MessageID (\<lambda>t. t) ''acct_1'' ''c'' ''m'' \<noteq> MessageID (\<lambda>t. t) ''acct_2'' ''c'' ''m''"
proof -
  have "list_all nul_free [''acct_1'', ''c'', ''m'', ''acct_2'', ''c'', ''m'']"
    by (simp add: nul_free_def)
  from MessageID_inject [OF this, of "\<lambda>t. t"] show ?thesis by (simp add: no_collision_def)
qed

lemma prefixes_disjoint:
  "PrefixConversation @ x \<noteq> PrefixMessage @ y" "PrefixConversation @ x \<noteq> PrefixAttachment @ y"
  "PrefixConversation @ x \<noteq> PrefixReaction @ y" "PrefixConversation @ x \<noteq> PrefixParticipant @ y"
  "PrefixMessage @ x \<noteq> PrefixAttachment @ y" "PrefixMessage @ x \<noteq> PrefixReaction @ y"
  "PrefixMessage @ x \<noteq> PrefixParticipant @ y" "PrefixAccount @ x \<noteq> PrefixAttachment @ y"
  "PrefixConversation @ x \<noteq> PrefixContact @ y"
  by simp_all

end
