(* ===== verification/Messages.thy ===== *)
theory Messages
  imports Ids Delivery Operations
begin

text \<open>
  The message tables (\<open>internal/store/messages.go\<close>, \<open>attachments.go\<close>, \<open>reactions.go\<close>,
  the schema and the delivery trigger of \<open>migrations.go\<close>) and the messages of the library
  boundary they are written from (\<open>internal/gm/types.go\<close>). Each table is a list of rows; the
  constraints of the schema (primary keys, \<open>UNIQUE\<close>, foreign keys, the trigger) are
  branches of the writes. A method is one transaction: an error leaves the database as it was.
  The zero time is \<open>None\<close>; the opaque SIM payload is stored as it is.
\<close>

section \<open>The library boundary\<close>

datatype ConversationType = ConversationTypeUnknown | ConversationTypeSMSMMS | ConversationTypeRCS
datatype SendMode = SendModeAuto | SendModeXMS | SendModeXMSLatch | SendModeOther string

abbreviation FolderInbox :: int where "FolderInbox \<equiv> 1"
abbreviation FolderArchive :: int where "FolderArchive \<equiv> 2"
abbreviation FolderSpamBlocked :: int where "FolderSpamBlocked \<equiv> 5"

definition Folder_String :: "int \<Rightarrow> string" where
  "Folder_String f =
     (if f = FolderInbox then ''active'' else if f = FolderArchive then ''archived''
      else if f = FolderSpamBlocked then ''spam_blocked'' else ''unknown'')"

record Participant =
  gpSourceID :: string
  gpContactID :: string
  gpDisplayName :: string
  gpFirstName :: string
  gpPhoneE164 :: string
  gpFormattedNumber :: string
  gpIdentifierType :: string
  gpIsMe :: bool
  gpIsVisible :: bool

record Conversation =
  gcSourceID :: string
  gcName :: string
  gcIsGroup :: bool
  gcType :: ConversationType
  gcSendModeRaw :: SendMode
  gcFolder :: int
  gcUnread :: bool
  gcPinned :: bool
  gcReadOnly :: bool
  gcDeleted :: bool
  gcDefaultOutgoingID :: string
  gcLatestMessageID :: string
  gcLastActivity :: "ms option"
  gcGroupAvatarURL :: string
  gcSIMPayload :: string
  gcParticipants :: "Participant list"

definition ForceRCSEligible :: "Conversation \<Rightarrow> bool" where
  "ForceRCSEligible c \<longleftrightarrow> gcType c = ConversationTypeRCS \<and> gcSendModeRaw c = SendModeAuto"

record Attachment =
  gaPartIndex :: int
  gaActionMessageID :: string
  gaMediaID :: string
  gaThumbnailMediaID :: string
  gaDecryptionKey :: string
  gaFilename :: string
  gaMimeType :: string
  gaMediaFormat :: string
  gaSizeBytes :: int
  gaWidth :: int
  gaHeight :: int

record Reaction =
  grEmoji :: "string option"
  grType :: string
  grParticipantIDs :: "string list"

record Message =
  gmmSourceID :: string
  gmmConversationID :: string
  gmmParticipantID :: string
  gmmText :: string
  gmmSubject :: string
  gmmTimestamp :: "ms option"
  gmmTmpID :: string
  gmmStatusRaw :: int
  gmmKind :: MessageKind
  gmmDeliveryState :: DeliveryState
  gmmReplyToMessageID :: string
  gmmAttachments :: "Attachment list"
  gmmReactions :: "Reaction list"

definition time_ms :: "ms option \<Rightarrow> ms" where
  "time_ms t = (case t of None \<Rightarrow> 0 | Some v \<Rightarrow> v)"

section \<open>Tables\<close>

record conv_row =
  crID :: string
  crAccountID :: string
  crSourceID :: string
  crName :: "string option"
  crIsGroup :: bool
  crType :: ConversationType
  crSendModeRaw :: SendMode
  crFolder :: string
  crUnread :: bool
  crPinned :: bool
  crReadOnly :: bool
  crForceRCSEligible :: bool
  crDefaultOutgoingID :: "string option"
  crLatestMessageID :: "string option"
  crLastActivityMS :: ms
  crGroupAvatarURL :: "string option"
  crSIMPayload :: "string option"
  crDeletedAtMS :: "ms option"
  crCreatedAtMS :: ms
  crUpdatedAtMS :: ms

record part_row =
  prID :: string
  prAccountID :: string
  prConversationID :: string
  prSourceID :: string
  prContactID :: "string option"
  prDisplayName :: "string option"
  prFirstName :: "string option"
  prPhoneE164 :: "string option"
  prFormattedNumber :: "string option"
  prIdentifierType :: "string option"
  prIsMe :: bool
  prIsVisible :: bool

record contact_row =
  ctID :: string
  ctAccountID :: string
  ctSourceID :: string
  ctDisplayName :: "string option"
  ctPhoneE164 :: "string option"
  ctAvatarHash :: "string option"
  ctIsTop :: bool
  ctUpdatedAtMS :: ms

record msg_row =
  mrID :: string
  mrAccountID :: string
  mrConversationID :: string
  mrSourceID :: string
  mrKind :: MessageKind
  mrDirection :: Direction
  mrSender :: "string option"
  mrText :: "string option"
  mrSubject :: "string option"
  mrState :: DeliveryState
  mrStateRaw :: int
  mrReplyTo :: "string option"
  mrOperationID :: "string option"
  mrTmpID :: "string option"
  mrIsDeleted :: bool
  mrSentAtMS :: ms
  mrIngestedAtMS :: ms
  mrUpdatedAtMS :: ms
  mrContentHash :: string

record att_row =
  arID :: string
  arAccountID :: string
  arMessageID :: string
  arPartIndex :: int
  arMediaID :: "string option"
  arThumbnailMediaID :: "string option"
  arDecryptionKey :: "string option"
  arFilename :: "string option"
  arMimeType :: "string option"
  arMediaFormat :: "string option"
  arSizeBytes :: "int option"
  arWidth :: "int option"
  arHeight :: "int option"
  arDownloadState :: string
  arSHA256 :: "string option"

record react_row =
  rrID :: string
  rrMessageID :: string
  rrParticipantID :: string
  rrEmoji :: "string option"
  rrEmojiType :: string
  rrIsMine :: bool
  rrUpdatedAtMS :: ms

record db =
  dbAccounts :: "string list"
  dbConversations :: "conv_row list"
  dbParticipants :: "part_row list"
  dbContacts :: "contact_row list"
  dbMessages :: "msg_row list"
  dbAttachments :: "att_row list"
  dbReactions :: "react_row list"
  dbOperations :: "op_row list"

datatype write_error = Constraint sql_error | TriggerAbort

section \<open>Conversations\<close>

definition new_conversation :: "string \<Rightarrow> string \<Rightarrow> ms \<Rightarrow> Conversation \<Rightarrow> conv_row" where
  "new_conversation i accountID now c =
     \<lparr>crID = i, crAccountID = accountID, crSourceID = gcSourceID c, crName = nullString (gcName c),
      crIsGroup = gcIsGroup c, crType = gcType c, crSendModeRaw = gcSendModeRaw c,
      crFolder = Folder_String (gcFolder c), crUnread = gcUnread c, crPinned = gcPinned c,
      crReadOnly = gcReadOnly c, crForceRCSEligible = ForceRCSEligible c,
      crDefaultOutgoingID = nullString (gcDefaultOutgoingID c),
      crLatestMessageID = nullString (gcLatestMessageID c),
      crLastActivityMS = time_ms (gcLastActivity c),
      crGroupAvatarURL = nullString (gcGroupAvatarURL c), crSIMPayload = nullString (gcSIMPayload c),
      crDeletedAtMS = (if gcDeleted c then Some now else None),
      crCreatedAtMS = now, crUpdatedAtMS = now\<rparr>"

text \<open>The \<open>ON CONFLICT\<close> branch: \<open>ex\<close> is the excluded row, \<open>r\<close> the stored one.\<close>

definition merge_conversation :: "conv_row \<Rightarrow> conv_row \<Rightarrow> conv_row" where
  "merge_conversation ex r =
     r\<lparr>crName := crName ex, crIsGroup := crIsGroup ex, crType := crType ex,
       crSendModeRaw := crSendModeRaw ex, crFolder := crFolder ex, crUnread := crUnread ex,
       crPinned := crPinned ex, crReadOnly := crReadOnly ex,
       crForceRCSEligible := crForceRCSEligible ex,
       crDefaultOutgoingID := coalesce (crDefaultOutgoingID ex) (crDefaultOutgoingID r),
       crLatestMessageID := coalesce (crLatestMessageID ex) (crLatestMessageID r),
       crLastActivityMS := max (crLastActivityMS r) (crLastActivityMS ex),
       crGroupAvatarURL := crGroupAvatarURL ex,
       crSIMPayload := coalesce (crSIMPayload ex) (crSIMPayload r),
       crDeletedAtMS := crDeletedAtMS ex, crUpdatedAtMS := crUpdatedAtMS ex\<rparr>"

definition new_participant ::
  "(string \<Rightarrow> string) \<Rightarrow> string \<Rightarrow> string \<Rightarrow> Participant \<Rightarrow> part_row" where
  "new_participant uuid5 accountID conversationID p =
     \<lparr>prID = ParticipantID uuid5 conversationID (gpSourceID p), prAccountID = accountID,
      prConversationID = conversationID, prSourceID = gpSourceID p, prContactID = None,
      prDisplayName = nullString (gpDisplayName p), prFirstName = nullString (gpFirstName p),
      prPhoneE164 = nullString (gpPhoneE164 p), prFormattedNumber = nullString (gpFormattedNumber p),
      prIdentifierType = nullString (gpIdentifierType p), prIsMe = gpIsMe p, prIsVisible = gpIsVisible p\<rparr>"

fun insert_participants ::
  "(string \<Rightarrow> string) \<Rightarrow> string \<Rightarrow> string \<Rightarrow> Participant list \<Rightarrow> part_row list \<Rightarrow> write_error + part_row list"
where
  "insert_participants uuid5 accountID conversationID [] rows = Inr rows"
| "insert_participants uuid5 accountID conversationID (p # ps) rows =
     (let r = new_participant uuid5 accountID conversationID p in
      if \<exists>r' \<in> set rows. prID r' = prID r
           \<or> (prConversationID r' = prConversationID r \<and> prSourceID r' = prSourceID r)
      then Inl (Constraint UniqueViolation)
      else insert_participants uuid5 accountID conversationID ps (rows @ [r]))"

definition linkParticipantContacts :: "string \<Rightarrow> string \<Rightarrow> contact_row list \<Rightarrow> part_row list \<Rightarrow> part_row list" where
  "linkParticipantContacts accountID conversationID contacts =
     update_where (\<lambda>r. prConversationID r = conversationID)
       (\<lambda>r. r\<lparr>prContactID := map_option ctID
          (select_one (\<lambda>c. ctAccountID c = accountID \<and> ctSourceID c = prSourceID r) contacts)\<rparr>)"

definition UpsertConversation ::
  "(string \<Rightarrow> string) \<Rightarrow> ms \<Rightarrow> string \<Rightarrow> Conversation \<Rightarrow> db \<Rightarrow> write_error + (string \<times> db)" where
  "UpsertConversation uuid5 now accountID c d =
     (let i = ConversationID uuid5 accountID (gcSourceID c);
          ex = new_conversation i accountID now c;
          exists = (\<exists>r \<in> set (dbConversations d). crID r = i)
      in if \<not> exists \<and> (\<exists>r \<in> set (dbConversations d). crAccountID r = accountID \<and> crSourceID r = gcSourceID c)
         then Inl (Constraint UniqueViolation)
         else if \<not> exists \<and> accountID \<notin> set (dbAccounts d) then Inl (Constraint ForeignKeyViolation)
         else
           (let convs = (if exists then update_where (\<lambda>r. crID r = i) (merge_conversation ex) (dbConversations d)
                         else dbConversations d @ [ex]);
                d1 = d\<lparr>dbConversations := convs\<rparr>
            in if gcParticipants c = [] then Inr (i, d1)
               else case insert_participants uuid5 accountID i (gcParticipants c)
                           (delete_where (\<lambda>r. prConversationID r = i) (dbParticipants d1)) of
                      Inl e \<Rightarrow> Inl e
                    | Inr parts \<Rightarrow>
                        Inr (i, d1\<lparr>dbParticipants :=
                          linkParticipantContacts accountID i (dbContacts d1) parts\<rparr>)))"

definition ConversationByID :: "string \<Rightarrow> db \<Rightarrow> conv_row option" where
  "ConversationByID i d = select_one (\<lambda>r. crID r = i) (dbConversations d)"

definition BumpConversationActivity :: "ms \<Rightarrow> string \<Rightarrow> string \<Rightarrow> ms \<Rightarrow> db \<Rightarrow> db" where
  "BumpConversationActivity now conversationID latestMessageID activityMS d =
     d\<lparr>dbConversations := update_where (\<lambda>r. crID r = conversationID)
         (\<lambda>r. r\<lparr>crLatestMessageID := (if crLastActivityMS r < activityMS then nullString latestMessageID
                                       else crLatestMessageID r),
                crLastActivityMS := max (crLastActivityMS r) activityMS,
                crUpdatedAtMS := now\<rparr>) (dbConversations d)\<rparr>"

section \<open>Messages\<close>

definition reaction_text :: "Reaction \<Rightarrow> string" where
  "reaction_text r =
     ''react:'' @ grType r @ '':'' @ scanString (grEmoji r) @ '':'' @
     (case grParticipantIDs r of [] \<Rightarrow> [] | p # ps \<Rightarrow> p @ concat (map (\<lambda>q. CHR '','' # q) ps)) @
     [CHR 0x0A]"

definition media_text :: "Attachment \<Rightarrow> string" where
  "media_text a =
     ''media:'' @ show_int (gaPartIndex a) @ '':'' @ gaMediaID a @ '':'' @ show_int (gaSizeBytes a) @
     [CHR 0x0A]"

text \<open>The text the content hash is taken of; \<open>sha\<close> is SHA-256 in hex.\<close>

definition content_text :: "Message \<Rightarrow> string" where
  "content_text m =
     ''text:'' @ gmmText m @ [CHR 0x0A] @ ''subject:'' @ gmmSubject m @ [CHR 0x0A] @
     concat (map media_text (gmmAttachments m)) @ concat (map reaction_text (gmmReactions m))"

definition ContentHash :: "(string \<Rightarrow> string) \<Rightarrow> Message \<Rightarrow> string" where
  "ContentHash sha m = sha (content_text m)"

text \<open>The trigger \<open>messages_no_backward_delivery\<close>: true when it aborts the update.\<close>

definition trigger_moves :: "(DeliveryState \<times> DeliveryState) list" where
  "trigger_moves =
     [(DeliveryStateSending, DeliveryStateSent), (DeliveryStateSending, DeliveryStateDelivered),
      (DeliveryStateSending, DeliveryStateRead), (DeliveryStateSending, DeliveryStateFailed),
      (DeliveryStateSending, DeliveryStateCanceled), (DeliveryStateSent, DeliveryStateDelivered),
      (DeliveryStateSent, DeliveryStateRead), (DeliveryStateSent, DeliveryStateFailed),
      (DeliveryStateDelivered, DeliveryStateRead)]"

definition messages_no_backward_delivery :: "msg_row \<Rightarrow> DeliveryState \<Rightarrow> bool" where
  "messages_no_backward_delivery old new \<longleftrightarrow>
     mrDirection old = DirectionOutgoing \<and> new \<noteq> mrState old \<and> new \<noteq> DeliveryStateDeleted \<and>
     mrState old \<noteq> DeliveryStateUnknown \<and> (mrState old, new) \<notin> set trigger_moves"

record UpsertMessageResult =
  umID :: string
  umInserted :: bool
  umUpdated :: bool
  umTransitionRefused :: bool
  umPreviousState :: "DeliveryState option"

definition new_message ::
  "(string \<Rightarrow> string) \<Rightarrow> (string \<Rightarrow> string) \<Rightarrow> ms \<Rightarrow> string \<Rightarrow> string \<Rightarrow> Message \<Rightarrow> msg_row" where
  "new_message uuid5 sha now accountID convSourceID m =
     (let convID = ConversationID uuid5 accountID convSourceID in
      \<lparr>mrID = MessageID uuid5 accountID convSourceID (gmmSourceID m), mrAccountID = accountID,
       mrConversationID = convID, mrSourceID = gmmSourceID m, mrKind = gmmKind m,
       mrDirection = MessageDirection (gmmStatusRaw m),
       mrSender = (if gmmParticipantID m = [] then None
                   else Some (ParticipantID uuid5 convID (gmmParticipantID m))),
       mrText = nullString (gmmText m), mrSubject = nullString (gmmSubject m),
       mrState = gmmDeliveryState m, mrStateRaw = gmmStatusRaw m,
       mrReplyTo = nullString (gmmReplyToMessageID m), mrOperationID = None,
       mrTmpID = nullString (gmmTmpID m),
       mrIsDeleted = (gmmDeliveryState m = DeliveryStateDeleted),
       mrSentAtMS = time_ms (gmmTimestamp m), mrIngestedAtMS = now, mrUpdatedAtMS = now,
       mrContentHash = ContentHash sha m\<rparr>)"

definition message_refused :: "msg_row \<Rightarrow> Message \<Rightarrow> bool" where
  "message_refused r m \<longleftrightarrow> mrDirection r = DirectionOutgoing \<and>
     \<not> TransitionAllowed (mrState r) (gmmDeliveryState m)"

definition next_state :: "msg_row \<Rightarrow> Message \<Rightarrow> DeliveryState" where
  "next_state r m = (if message_refused r m then mrState r else gmmDeliveryState m)"

text \<open>The \<open>UPDATE\<close> of an existing row; \<open>ex\<close> is the row an insertion would have
  written.\<close>

definition merge_message :: "msg_row \<Rightarrow> Message \<Rightarrow> msg_row \<Rightarrow> msg_row" where
  "merge_message ex m r =
     r\<lparr>mrKind := mrKind ex, mrSender := coalesce (mrSender ex) (mrSender r),
       mrText := mrText ex, mrSubject := mrSubject ex, mrState := next_state r m,
       mrStateRaw := mrStateRaw ex, mrReplyTo := coalesce (mrReplyTo ex) (mrReplyTo r),
       mrTmpID := coalesce (mrTmpID ex) (mrTmpID r),
       mrIsDeleted := (next_state r m = DeliveryStateDeleted),
       mrUpdatedAtMS := mrUpdatedAtMS ex, mrContentHash := mrContentHash ex\<rparr>"

definition UpsertMessage ::
  "(string \<Rightarrow> string) \<Rightarrow> (string \<Rightarrow> string) \<Rightarrow> ms \<Rightarrow> string \<Rightarrow> string \<Rightarrow> Message \<Rightarrow> db \<Rightarrow> write_error + (UpsertMessageResult \<times> db)"
where
  "UpsertMessage uuid5 sha now accountID convSourceID m d =
     (let ex = new_message uuid5 sha now accountID convSourceID m;
          i = mrID ex;
          res = \<lparr>umID = i, umInserted = False, umUpdated = False, umTransitionRefused = False,
                 umPreviousState = None\<rparr>
      in case select_one (\<lambda>r. mrID r = i) (dbMessages d) of
           None \<Rightarrow>
             if \<exists>r \<in> set (dbMessages d). mrConversationID r = mrConversationID ex \<and> mrSourceID r = mrSourceID ex
             then Inl (Constraint UniqueViolation)
             else if accountID \<notin> set (dbAccounts d) \<or> ConversationByID (mrConversationID ex) d = None
             then Inl (Constraint ForeignKeyViolation)
             else Inr (res\<lparr>umInserted := True\<rparr>, d\<lparr>dbMessages := dbMessages d @ [ex]\<rparr>)
         | Some r \<Rightarrow>
             (let res = res\<lparr>umPreviousState := Some (mrState r)\<rparr> in
              if mrContentHash r = mrContentHash ex \<and> mrStateRaw r = gmmStatusRaw m then Inr (res, d)
              else if messages_no_backward_delivery r (next_state r m) then Inl TriggerAbort
              else Inr (res\<lparr>umUpdated := True, umTransitionRefused := message_refused r m\<rparr>,
                        d\<lparr>dbMessages := update_where (\<lambda>r. mrID r = i) (merge_message ex m) (dbMessages d)\<rparr>)))"

definition LinkMessageOperation :: "string \<Rightarrow> string \<Rightarrow> db \<Rightarrow> db" where
  "LinkMessageOperation messageID operationID d =
     (if messageID = [] \<or> operationID = [] then d
      else d\<lparr>dbMessages := update_where (\<lambda>r. mrID r = messageID \<and> mrOperationID r = None)
               (\<lambda>r. r\<lparr>mrOperationID := Some operationID\<rparr>) (dbMessages d)\<rparr>)"

section \<open>Attachments\<close>

abbreviation DownloadStateAvailable :: string where "DownloadStateAvailable \<equiv> ''available''"
abbreviation DownloadStatePending :: string where "DownloadStatePending \<equiv> ''pending''"
abbreviation DownloadStateFailed :: string where "DownloadStateFailed \<equiv> ''failed''"
abbreviation DownloadStateUnavailable :: string where "DownloadStateUnavailable \<equiv> ''unavailable''"

definition DownloadStateForMessage :: "string \<Rightarrow> string \<Rightarrow> DeliveryState \<Rightarrow> string" where
  "DownloadStateForMessage mediaID thumbnailMediaID deliveryState =
     (if deliveryState = DeliveryStateDownloadFailed then DownloadStateFailed
      else if mediaID \<noteq> [] then DownloadStateAvailable
      else if thumbnailMediaID \<noteq> [] then DownloadStatePending
      else DownloadStateUnavailable)"

definition new_attachment ::
  "(string \<Rightarrow> string) \<Rightarrow> string \<Rightarrow> string \<Rightarrow> Attachment \<Rightarrow> string \<Rightarrow> string \<Rightarrow> att_row" where
  "new_attachment uuid5 accountID messageID a sealedKey downloadState =
     \<lparr>arID = AttachmentID uuid5 messageID (show_int (gaPartIndex a)) (gaMediaID a),
      arAccountID = accountID, arMessageID = messageID, arPartIndex = gaPartIndex a,
      arMediaID = nullString (gaMediaID a), arThumbnailMediaID = nullString (gaThumbnailMediaID a),
      arDecryptionKey = nullString sealedKey, arFilename = nullString (gaFilename a),
      arMimeType = nullString (gaMimeType a), arMediaFormat = nullString (gaMediaFormat a),
      arSizeBytes = nullInt (gaSizeBytes a), arWidth = nullInt (gaWidth a), arHeight = nullInt (gaHeight a),
      arDownloadState = (if downloadState = [] then DownloadStatePending else downloadState),
      arSHA256 = None\<rparr>"

definition merge_attachment :: "att_row \<Rightarrow> att_row \<Rightarrow> att_row" where
  "merge_attachment ex r =
     r\<lparr>arMediaID := arMediaID ex, arThumbnailMediaID := arThumbnailMediaID ex,
       arDecryptionKey := coalesce (arDecryptionKey ex) (arDecryptionKey r),
       arFilename := arFilename ex, arMimeType := arMimeType ex, arMediaFormat := arMediaFormat ex,
       arSizeBytes := coalesce (arSizeBytes ex) (arSizeBytes r),
       arWidth := arWidth ex, arHeight := arHeight ex, arDownloadState := arDownloadState ex\<rparr>"

definition UpsertAttachment ::
  "(string \<Rightarrow> string) \<Rightarrow> string \<Rightarrow> string \<Rightarrow> Attachment \<Rightarrow> string \<Rightarrow> string \<Rightarrow> db \<Rightarrow> write_error + (string \<times> db)"
where
  "UpsertAttachment uuid5 accountID messageID a sealedKey downloadState d =
     (let ex = new_attachment uuid5 accountID messageID a sealedKey downloadState in
      if \<exists>r \<in> set (dbAttachments d). arID r = arID ex
      then Inr (arID ex, d\<lparr>dbAttachments :=
                  update_where (\<lambda>r. arID r = arID ex) (merge_attachment ex) (dbAttachments d)\<rparr>)
      else if \<exists>r \<in> set (dbAttachments d). arMessageID r = messageID \<and> arPartIndex r = gaPartIndex a
      then Inl (Constraint UniqueViolation)
      else if accountID \<notin> set (dbAccounts d) \<or> (\<forall>r \<in> set (dbMessages d). mrID r \<noteq> messageID)
      then Inl (Constraint ForeignKeyViolation)
      else Inr (arID ex, d\<lparr>dbAttachments := dbAttachments d @ [ex]\<rparr>))"

definition FillMissingAttachmentSize :: "string \<Rightarrow> int \<Rightarrow> db \<Rightarrow> db" where
  "FillMissingAttachmentSize messageID sz d =
     (if sz \<le> 0 then d
      else d\<lparr>dbAttachments := update_where
               (\<lambda>r. arMessageID r = messageID \<and> (arSizeBytes r = None \<or> arSizeBytes r = Some 0))
               (\<lambda>r. r\<lparr>arSizeBytes := Some sz\<rparr>) (dbAttachments d)\<rparr>)"

definition SetAttachmentDownloadState :: "string \<Rightarrow> string \<Rightarrow> string \<Rightarrow> db \<Rightarrow> db" where
  "SetAttachmentDownloadState attachmentID state sha256hex d =
     d\<lparr>dbAttachments := update_where (\<lambda>r. arID r = attachmentID)
         (\<lambda>r. r\<lparr>arDownloadState := state, arSHA256 := coalesce (nullString sha256hex) (arSHA256 r)\<rparr>)
         (dbAttachments d)\<rparr>"

section \<open>Reactions\<close>

definition new_reaction ::
  "(string \<Rightarrow> string) \<Rightarrow> ms \<Rightarrow> string \<Rightarrow> string \<Rightarrow> string \<Rightarrow> Reaction \<Rightarrow> string \<Rightarrow> react_row" where
  "new_reaction uuid5 now conversationID messageID myParticipantID r sourceID =
     (let canonical = (case grEmoji r of Some e \<Rightarrow> e | None \<Rightarrow> grType r);
          pid = (if conversationID \<noteq> [] then ParticipantID uuid5 conversationID sourceID else sourceID)
      in \<lparr>rrID = ReactionID uuid5 messageID pid canonical, rrMessageID = messageID, rrParticipantID = pid,
          rrEmoji = grEmoji r, rrEmojiType = grType r,
          rrIsMine = (myParticipantID \<noteq> [] \<and> sourceID = myParticipantID), rrUpdatedAtMS = now\<rparr>)"

definition same_reactor :: "react_row \<Rightarrow> react_row \<Rightarrow> bool" where
  "same_reactor r r' \<longleftrightarrow> rrMessageID r = rrMessageID r' \<and> rrParticipantID r = rrParticipantID r'"

definition upsert_reaction :: "react_row \<Rightarrow> react_row list \<Rightarrow> write_error + react_row list" where
  "upsert_reaction ex rows =
     (if \<exists>r \<in> set rows. rrID r = rrID ex \<and> \<not> same_reactor r ex then Inl (Constraint UniqueViolation)
      else if \<exists>r \<in> set rows. same_reactor r ex
      then Inr (update_where (\<lambda>r. same_reactor r ex)
             (\<lambda>r. r\<lparr>rrID := rrID ex, rrEmoji := rrEmoji ex, rrEmojiType := rrEmojiType ex,
                    rrIsMine := rrIsMine ex, rrUpdatedAtMS := rrUpdatedAtMS ex\<rparr>) rows)
      else Inr (rows @ [ex]))"

fun upsert_reactions :: "react_row list \<Rightarrow> react_row list \<Rightarrow> write_error + react_row list" where
  "upsert_reactions [] rows = Inr rows"
| "upsert_reactions (ex # exs) rows =
     (case upsert_reaction ex rows of Inl e \<Rightarrow> Inl e | Inr rows' \<Rightarrow> upsert_reactions exs rows')"

definition reaction_rows ::
  "(string \<Rightarrow> string) \<Rightarrow> ms \<Rightarrow> string \<Rightarrow> string \<Rightarrow> string \<Rightarrow> Reaction list \<Rightarrow> react_row list" where
  "reaction_rows uuid5 now conversationID messageID myParticipantID rs =
     concat (map (\<lambda>r. map (new_reaction uuid5 now conversationID messageID myParticipantID r)
                         (grParticipantIDs r)) rs)"

definition ReplaceReactions ::
  "(string \<Rightarrow> string) \<Rightarrow> ms \<Rightarrow> string \<Rightarrow> string \<Rightarrow> string \<Rightarrow> Reaction list \<Rightarrow> db \<Rightarrow> write_error + db" where
  "ReplaceReactions uuid5 now conversationID messageID myParticipantID rs d =
     (let exs = reaction_rows uuid5 now conversationID messageID myParticipantID rs in
      if exs \<noteq> [] \<and> (\<forall>r \<in> set (dbMessages d). mrID r \<noteq> messageID) then Inl (Constraint ForeignKeyViolation)
      else case upsert_reactions exs (delete_where (\<lambda>r. rrMessageID r = messageID) (dbReactions d)) of
             Inl e \<Rightarrow> Inl e
           | Inr rows \<Rightarrow> Inr (d\<lparr>dbReactions := rows\<rparr>))"

section \<open>The trigger and the code agree\<close>

lemma trigger_iff:
  "messages_no_backward_delivery r new \<longleftrightarrow>
     mrDirection r = DirectionOutgoing \<and> \<not> TransitionAllowed (mrState r) new"
  by (cases "mrState r"; cases new)
     (simp_all add: messages_no_backward_delivery_def trigger_moves_def TransitionAllowed_def)

text \<open>The database trigger and the Go table are the same table: for every stored row and every
  new state, the trigger aborts exactly the updates \<open>TransitionAllowed\<close> refuses for an outgoing
  message.\<close>

theorem trigger_agrees_with_TransitionAllowed:
  "messages_no_backward_delivery r new \<longleftrightarrow>
     mrDirection r = DirectionOutgoing \<and> \<not> TransitionAllowed (mrState r) new"
  by (rule trigger_iff)

lemma next_state_allowed:
  "mrDirection r = DirectionOutgoing \<Longrightarrow> TransitionAllowed (mrState r) (next_state r m)"
  by (simp add: next_state_def message_refused_def)

lemma no_trigger_abort [simp]: "\<not> messages_no_backward_delivery r (next_state r m)"
  using next_state_allowed [of r m] by (auto simp: trigger_iff)

lemma merge_message_simps [simp, row_simps]:
  "mrID (merge_message ex m r) = mrID r" "mrAccountID (merge_message ex m r) = mrAccountID r"
  "mrConversationID (merge_message ex m r) = mrConversationID r"
  "mrSourceID (merge_message ex m r) = mrSourceID r" "mrDirection (merge_message ex m r) = mrDirection r"
  "mrOperationID (merge_message ex m r) = mrOperationID r"
  "mrSentAtMS (merge_message ex m r) = mrSentAtMS r" "mrIngestedAtMS (merge_message ex m r) = mrIngestedAtMS r"
  "mrState (merge_message ex m r) = next_state r m"
  "mrStateRaw (merge_message ex m r) = mrStateRaw ex" "mrContentHash (merge_message ex m r) = mrContentHash ex"
  by (simp_all add: merge_message_def)

lemma new_message_simps [simp]:
  "mrID (new_message u sha now acct conv m) = MessageID u acct conv (gmmSourceID m)"
  "mrAccountID (new_message u sha now acct conv m) = acct"
  "mrConversationID (new_message u sha now acct conv m) = ConversationID u acct conv"
  "mrSourceID (new_message u sha now acct conv m) = gmmSourceID m"
  "mrStateRaw (new_message u sha now acct conv m) = gmmStatusRaw m"
  "mrContentHash (new_message u sha now acct conv m) = ContentHash sha m"
  "mrState (new_message u sha now acct conv m) = gmmDeliveryState m"
  "mrDirection (new_message u sha now acct conv m) = MessageDirection (gmmStatusRaw m)"
  "mrOperationID (new_message u sha now acct conv m) = None"
  "mrTmpID (new_message u sha now acct conv m) = nullString (gmmTmpID m)"
  by (simp_all add: new_message_def Let_def)

interpretation msg_upd: keyed_update mrID "merge_message ex m"
  by unfold_locales simp

lemma UpsertMessage_cases:
  assumes "UpsertMessage u sha now acct conv m d = Inr (res, d')"
  obtains
    (inserted) "select_one (\<lambda>r. mrID r = MessageID u acct conv (gmmSourceID m)) (dbMessages d) = None"
      "acct \<in> set (dbAccounts d)" "ConversationByID (ConversationID u acct conv) d \<noteq> None"
      "umInserted res" "\<not> umUpdated res" "\<not> umTransitionRefused res" "umPreviousState res = None"
      "d' = d\<lparr>dbMessages := dbMessages d @ [new_message u sha now acct conv m]\<rparr>"
  | (replayed) r where "select_one (\<lambda>r. mrID r = MessageID u acct conv (gmmSourceID m)) (dbMessages d) = Some r"
      "mrContentHash r = ContentHash sha m" "mrStateRaw r = gmmStatusRaw m"
      "\<not> umInserted res" "\<not> umUpdated res" "\<not> umTransitionRefused res" "d' = d"
      "umPreviousState res = Some (mrState r)"
  | (updated) r where "select_one (\<lambda>r. mrID r = MessageID u acct conv (gmmSourceID m)) (dbMessages d) = Some r"
      "\<not> umInserted res" "umUpdated res" "umTransitionRefused res = message_refused r m"
      "umPreviousState res = Some (mrState r)"
      "d' = d\<lparr>dbMessages := update_where (\<lambda>r. mrID r = MessageID u acct conv (gmmSourceID m))
         (merge_message (new_message u sha now acct conv m) m) (dbMessages d)\<rparr>"
proof (cases "select_one (\<lambda>r. mrID r = MessageID u acct conv (gmmSourceID m)) (dbMessages d)")
  case None
  with assms show ?thesis
    by (intro inserted) (auto simp: UpsertMessage_def Let_def split: if_splits)
next
  case (Some r)
  show ?thesis
  proof (cases "mrContentHash r = ContentHash sha m \<and> mrStateRaw r = gmmStatusRaw m")
    case True
    with Some assms show ?thesis by (intro replayed) (auto simp: UpsertMessage_def Let_def)
  next
    case False
    with Some assms show ?thesis by (intro updated) (auto simp: UpsertMessage_def Let_def split: if_splits)
  qed
qed

lemma UpsertMessage_ID: "UpsertMessage u sha now acct conv m d = Inr (res, d') \<Longrightarrow> umID res = MessageID u acct conv (gmmSourceID m)"
  by (auto simp: UpsertMessage_def Let_def split: option.splits if_splits)

lemma upsert_replay_writes_nothing_lemma:
  assumes "UpsertMessage u sha now acct conv m d = Inr (res, d')"
  shows "\<exists>res'. UpsertMessage u sha now' acct conv m d' = Inr (res', d')
    \<and> umID res' = umID res \<and> \<not> umInserted res' \<and> \<not> umUpdated res' \<and> \<not> umTransitionRefused res'"
proof -
  let ?i = "MessageID u acct conv (gmmSourceID m)"
  have stored: "\<exists>r. select_one (\<lambda>r. mrID r = ?i) (dbMessages d') = Some r
      \<and> mrContentHash r = ContentHash sha m \<and> mrStateRaw r = gmmStatusRaw m"
    using assms
  proof (cases rule: UpsertMessage_cases)
    case inserted
    then show ?thesis by (simp add: select_one_append)
  next
    case (updated r)
    then show ?thesis by (simp add: msg_upd.select_key_same)
  qed auto
  then show ?thesis
    using UpsertMessage_ID [OF assms] by (auto simp: UpsertMessage_def Let_def)
qed

text \<open>A replay writes nothing. Right after a message was stored, ingesting the same message
  again, at any later time, changes no table and reports neither an insertion nor an update.\<close>

theorem upsert_replay_writes_nothing:
  assumes "UpsertMessage u sha now acct conv m d = Inr (res, d')"
  shows "\<exists>res'. UpsertMessage u sha now' acct conv m d' = Inr (res', d')
    \<and> umID res' = umID res \<and> \<not> umInserted res' \<and> \<not> umUpdated res' \<and> \<not> umTransitionRefused res'"
  using assms by (rule upsert_replay_writes_nothing_lemma)

section \<open>The tables as a whole\<close>

text \<open>The store methods that ingesting a message calls on, and those that write its attachments' state later. Contacts
  and the account's relinking are in \<open>Contacts\<close>; the deletions of an account's erasure are not modelled.\<close>

inductive store_step :: "(string \<Rightarrow> string) \<Rightarrow> (string \<Rightarrow> string) \<Rightarrow> db \<Rightarrow> db \<Rightarrow> bool" for u sha where
  conversation: "UpsertConversation u now acct c d = Inr (i, d') \<Longrightarrow> store_step u sha d d'"
| message: "UpsertMessage u sha now acct conv m d = Inr (res, d') \<Longrightarrow> store_step u sha d d'"
| attachment: "UpsertAttachment u acct mid a key st d = Inr (i, d') \<Longrightarrow> store_step u sha d d'"
| reactions: "ReplaceReactions u now conv mid me rs d = Inr d' \<Longrightarrow> store_step u sha d d'"
| link: "store_step u sha d (LinkMessageOperation mid opid d)"
| fill: "store_step u sha d (FillMissingAttachmentSize mid sz d)"
| download: "store_step u sha d (SetAttachmentDownloadState aid st h d)"
| bump: "store_step u sha d (BumpConversationActivity now cid mid act d)"
| operations: "store_step u sha d (d\<lparr>dbOperations := ops\<rparr>)"

definition conv_ids :: "db \<Rightarrow> string list" where "conv_ids d = map crID (dbConversations d)"
definition msg_ids :: "db \<Rightarrow> string list" where "msg_ids d = map mrID (dbMessages d)"

definition part_of :: "att_row \<Rightarrow> string \<times> int" where
  "part_of r = (arMessageID r, arPartIndex r)"

definition reactor :: "react_row \<Rightarrow> string \<times> string" where
  "reactor r = (rrMessageID r, rrParticipantID r)"

lemma map_update_where_same:
  "(\<And>r. P r \<Longrightarrow> f (g r) = f r) \<Longrightarrow> map f (update_where P g rows) = map f rows"
  by (induction rows) auto

lemma set_map_update_where: "(\<And>r. P r \<Longrightarrow> f (g r) = f r) \<Longrightarrow> f ` set (update_where P g rows) = f ` set rows"
  by (metis map_update_where_same set_map)

lemma merge_conversation_ID [simp]: "crID (merge_conversation ex r) = crID r"
  by (simp add: merge_conversation_def)

lemma new_conversation_ID [simp]: "crID (new_conversation i acct now c) = i"
  by (simp add: new_conversation_def)

lemma merge_attachment_simps [simp]:
  "arID (merge_attachment ex r) = arID r" "arMessageID (merge_attachment ex r) = arMessageID r"
  "arPartIndex (merge_attachment ex r) = arPartIndex r"
  by (simp_all add: merge_attachment_def)

lemma new_attachment_simps [simp]:
  "arMessageID (new_attachment u acct mid a key st) = mid"
  "arPartIndex (new_attachment u acct mid a key st) = gaPartIndex a"
  "arID (new_attachment u acct mid a key st) = AttachmentID u mid (show_int (gaPartIndex a)) (gaMediaID a)"
  by (simp_all add: new_attachment_def)

lemma UpsertConversation_Inr:
  assumes "UpsertConversation u now acct c d = Inr (i, d')"
  shows "i = ConversationID u acct (gcSourceID c)"
    and "dbConversations d' = (if i \<in> set (conv_ids d)
       then update_where (\<lambda>r. crID r = i) (merge_conversation (new_conversation i acct now c)) (dbConversations d)
       else dbConversations d @ [new_conversation i acct now c])"
    and "dbMessages d' = dbMessages d" "dbAttachments d' = dbAttachments d"
    and "dbReactions d' = dbReactions d" "dbOperations d' = dbOperations d" "dbAccounts d' = dbAccounts d"
  using assms
  by (auto simp: UpsertConversation_def Let_def conv_ids_def image_iff split: if_splits sum.splits)

lemma UpsertAttachment_Inr:
  assumes "UpsertAttachment u acct mid a key st d = Inr (i, d')"
  obtains (updated) "i \<in> arID ` set (dbAttachments d)"
     "d' = d\<lparr>dbAttachments := update_where (\<lambda>r. arID r = i)
        (merge_attachment (new_attachment u acct mid a key st)) (dbAttachments d)\<rparr>"
  | (inserted) "i \<notin> arID ` set (dbAttachments d)"
     "(mid, gaPartIndex a) \<notin> part_of ` set (dbAttachments d)"
     "mid \<in> set (msg_ids d)" "d' = d\<lparr>dbAttachments := dbAttachments d @ [new_attachment u acct mid a key st]\<rparr>"
     "arID (new_attachment u acct mid a key st) = i"
proof (cases "\<exists>r \<in> set (dbAttachments d). arID r = arID (new_attachment u acct mid a key st)")
  case True
  with assms have "i = arID (new_attachment u acct mid a key st)"
    "d' = d\<lparr>dbAttachments := update_where (\<lambda>r. arID r = i)
        (merge_attachment (new_attachment u acct mid a key st)) (dbAttachments d)\<rparr>"
    by (auto simp: UpsertAttachment_def Let_def)
  with True show ?thesis by (intro updated) (metis imageI)+
next
  case False
  with assms show ?thesis
    by (intro inserted) (auto simp: UpsertAttachment_def Let_def msg_ids_def part_of_def split: if_splits)
qed

lemma same_reactor_iff: "same_reactor r r' \<longleftrightarrow> reactor r = reactor r'"
  by (simp add: same_reactor_def reactor_def)

lemma upsert_reaction_reactors:
  assumes "upsert_reaction ex rows = Inr rows'"
  shows "map reactor rows' =
    (if reactor ex \<in> reactor ` set rows then map reactor rows else map reactor rows @ [reactor ex])"
proof -
  let ?g = "\<lambda>r. r\<lparr>rrID := rrID ex, rrEmoji := rrEmoji ex, rrEmojiType := rrEmojiType ex,
      rrIsMine := rrIsMine ex, rrUpdatedAtMS := rrUpdatedAtMS ex\<rparr>"
  have g: "map reactor (update_where P ?g rows) = map reactor rows" for P
    by (rule map_update_where_same) (simp add: reactor_def)
  have mem: "reactor ex \<in> reactor ` set rows \<longleftrightarrow> (\<exists>r \<in> set rows. same_reactor r ex)"
    unfolding same_reactor_iff image_iff by metis
  have "rows' = (if reactor ex \<in> reactor ` set rows then update_where (\<lambda>r. same_reactor r ex) ?g rows else rows @ [ex])"
    using assms unfolding mem upsert_reaction_def by (auto split: if_split_asm)
  then show ?thesis using g by simp
qed

lemma upsert_reactions_Inr:
  "upsert_reactions exs rows = Inr rows' \<Longrightarrow> distinct (map reactor rows) \<Longrightarrow>
   distinct (map reactor rows') \<and> reactor ` set rows' = reactor ` set exs \<union> reactor ` set rows"
proof (induction exs arbitrary: rows)
  case (Cons ex exs)
  then obtain rows1 where r1: "upsert_reaction ex rows = Inr rows1" "upsert_reactions exs rows1 = Inr rows'"
    by (auto split: sum.splits)
  have m: "map reactor rows1 = (if reactor ex \<in> reactor ` set rows then map reactor rows
      else map reactor rows @ [reactor ex])"
    by (rule upsert_reaction_reactors [OF r1(1)])
  then have "distinct (map reactor rows1)" using Cons.prems(2) by (auto split: if_splits)
  from Cons.IH [OF r1(2) this] have "distinct (map reactor rows')"
    "reactor ` set rows' = reactor ` set exs \<union> set (map reactor rows1)" by auto
  then show ?case unfolding m by auto
qed simp

lemma reaction_rows_message: "r \<in> set (reaction_rows u now conv mid me rs) \<Longrightarrow> rrMessageID r = mid"
  by (auto simp: reaction_rows_def new_reaction_def Let_def)

lemma ReplaceReactions_Inr:
  assumes "ReplaceReactions u now conv mid me rs d = Inr d'" and "distinct (map reactor (dbReactions d))"
  shows "\<exists>rows. d' = d\<lparr>dbReactions := rows\<rparr> \<and> distinct (map reactor rows)
    \<and> reactor ` set rows = reactor ` set (reaction_rows u now conv mid me rs) \<union>
        reactor ` {r \<in> set (dbReactions d). rrMessageID r \<noteq> mid}
    \<and> (reaction_rows u now conv mid me rs \<noteq> [] \<longrightarrow> mid \<in> set (msg_ids d))
    \<and> upsert_reactions (reaction_rows u now conv mid me rs)
        (delete_where (\<lambda>r. rrMessageID r = mid) (dbReactions d)) = Inr rows"
proof -
  let ?exs = "reaction_rows u now conv mid me rs"
  let ?kept = "delete_where (\<lambda>r. rrMessageID r = mid) (dbReactions d)"
  obtain rows where rows: "upsert_reactions ?exs ?kept = Inr rows" "d' = d\<lparr>dbReactions := rows\<rparr>"
    and fk: "?exs \<noteq> [] \<longrightarrow> mid \<in> set (msg_ids d)"
    using assms(1) by (auto simp: ReplaceReactions_def Let_def msg_ids_def image_iff split: if_splits sum.splits)
  have "distinct (map reactor ?kept)"
    using assms(2) by (simp add: delete_where_def distinct_map_filter)
  from upsert_reactions_Inr [OF rows(1) this] rows fk show ?thesis
    by (intro exI [of _ rows]) auto
qed

section \<open>How one message row changes\<close>

definition msg_at :: "string \<Rightarrow> db \<Rightarrow> msg_row option" where
  "msg_at i d = select_one (\<lambda>r. mrID r = i) (dbMessages d)"

text \<open>The row keeps its identity, direction and times; an outgoing row's state moves along the
  table; the link to its operation is written once.\<close>

definition msg_evolves :: "msg_row \<Rightarrow> msg_row \<Rightarrow> bool" where
  "msg_evolves r r' \<longleftrightarrow> mrID r' = mrID r \<and> mrAccountID r' = mrAccountID r
     \<and> mrConversationID r' = mrConversationID r \<and> mrSourceID r' = mrSourceID r
     \<and> mrDirection r' = mrDirection r \<and> mrSentAtMS r' = mrSentAtMS r \<and> mrIngestedAtMS r' = mrIngestedAtMS r
     \<and> (mrDirection r = DirectionOutgoing \<longrightarrow> TransitionAllowed (mrState r) (mrState r'))
     \<and> (mrOperationID r \<noteq> None \<longrightarrow> mrOperationID r' = mrOperationID r)"

lemma msg_evolves_refl [simp]: "msg_evolves r r"
  by (simp add: msg_evolves_def)

lemma msg_evolves_merge: "msg_evolves r (merge_message ex m r)"
  by (simp add: msg_evolves_def next_state_allowed)

interpretation link_upd: keyed_update mrID "\<lambda>r. r\<lparr>mrOperationID := Some opid\<rparr>"
  by unfold_locales simp

lemma store_step_msg:
  assumes "store_step u sha d d'" "msg_at i d = Some r"
  shows "\<exists>r'. msg_at i d' = Some r' \<and> msg_evolves r r'"
  using assms(1)
proof cases
  case (conversation now acct c j)
  then show ?thesis using assms(2) UpsertConversation_Inr(3) [OF conversation] by (simp add: msg_at_def)
next
  case (message now acct conv m res)
  from message show ?thesis
  proof (cases rule: UpsertMessage_cases)
    case inserted
    then show ?thesis using assms(2) by (simp add: msg_at_def select_one_append)
  next
    case (updated q)
    then show ?thesis
      using assms(2) by (auto simp: msg_at_def msg_upd.select_key_updated msg_evolves_merge)
  qed (use assms(2) in simp)
next
  case (attachment acct mid a key st j)
  then show ?thesis
    using assms(2) by (cases rule: UpsertAttachment_Inr) (auto simp: msg_at_def)
next
  case (reactions now conv mid me rs)
  then have "dbMessages d' = dbMessages d"
    by (auto simp: ReplaceReactions_def Let_def split: if_splits sum.splits)
  then show ?thesis using assms(2) by (simp add: msg_at_def)
next
  case (link mid opid)
  then show ?thesis
    using assms(2)
    by (auto simp: msg_at_def LinkMessageOperation_def link_upd.select_key_updated msg_evolves_def)
next
  case (fill mid sz)
  then show ?thesis using assms(2) by (simp add: msg_at_def FillMissingAttachmentSize_def)
next
  case (download aid st h)
  then show ?thesis using assms(2) by (simp add: msg_at_def SetAttachmentDownloadState_def)
next
  case (bump now cid mid act)
  then show ?thesis using assms(2) by (simp add: msg_at_def BumpConversationActivity_def)
next
  case (operations ops)
  then show ?thesis using assms(2) by (simp add: msg_at_def)
qed

lemma msg_evolves_rank:
  "msg_evolves r r' \<Longrightarrow> mrDirection r = DirectionOutgoing \<Longrightarrow>
   mrState r' \<noteq> mrState r \<Longrightarrow> delivery_rank (mrState r) < delivery_rank (mrState r')"
  by (simp add: msg_evolves_def delivery.rank_up)

lemma store_steps_msg:
  "(store_step u sha)\<^sup>*\<^sup>* d d' \<Longrightarrow> msg_at i d = Some r \<Longrightarrow>
   \<exists>r'. msg_at i d' = Some r' \<and> mrDirection r' = mrDirection r
     \<and> (mrDirection r = DirectionOutgoing \<longrightarrow>
          mrState r' = mrState r \<or> delivery_rank (mrState r) < delivery_rank (mrState r'))
     \<and> (mrOperationID r \<noteq> None \<longrightarrow> mrOperationID r' = mrOperationID r)"
proof (induction rule: rtranclp_induct)
  case (step y z)
  then obtain r' where r': "msg_at i y = Some r'" "mrDirection r' = mrDirection r"
    "mrDirection r = DirectionOutgoing \<longrightarrow>
       mrState r' = mrState r \<or> delivery_rank (mrState r) < delivery_rank (mrState r')"
    "mrOperationID r \<noteq> None \<longrightarrow> mrOperationID r' = mrOperationID r" by blast
  from store_step_msg [OF step(2) r'(1)] obtain r'' where
    r'': "msg_at i z = Some r''" "msg_evolves r' r''" by blast
  then show ?case
    using r' msg_evolves_rank [OF r''(2)] by (fastforce simp: msg_evolves_def)
qed simp

text \<open>Once an outgoing message left a delivery state it never returns to it, whatever the store
  writes afterwards, in whatever order backfill, the live stream and the sweep interleave; and the
  operation a message was linked to is never replaced.\<close>

theorem stored_delivery_state_never_returns:
  assumes "msg_at i d0 = Some r0" "mrDirection r0 = DirectionOutgoing"
    and "(store_step u sha)\<^sup>*\<^sup>* d0 d1" "msg_at i d1 = Some r1" "mrState r1 \<noteq> mrState r0"
    and "(store_step u sha)\<^sup>*\<^sup>* d1 d2" "msg_at i d2 = Some r2"
  shows "mrState r2 \<noteq> mrState r0 \<and> (mrOperationID r1 \<noteq> None \<longrightarrow> mrOperationID r2 = mrOperationID r1)"
  using store_steps_msg [OF assms(3,1)] store_steps_msg [OF assms(6,4)] assms by fastforce

section \<open>Conversation activity\<close>

definition conv_at :: "string \<Rightarrow> db \<Rightarrow> conv_row option" where
  "conv_at i d = select_one (\<lambda>r. crID r = i) (dbConversations d)"

lemma select_one_update_where:
  "(\<And>r. P r \<Longrightarrow> key (g r) = key r) \<Longrightarrow> select_one (\<lambda>r. key r = i) (update_where P g rows) =
     map_option (\<lambda>r. if P r then g r else r) (select_one (\<lambda>r. key r = i) rows)"
  by (induction rows) auto

lemma store_step_conv:
  assumes "store_step u sha d d'" "conv_at i d = Some c"
  shows "\<exists>c'. conv_at i d' = Some c' \<and> crLastActivityMS c \<le> crLastActivityMS c'"
  using assms(1)
proof cases
  case (conversation now acct gc j)
  show ?thesis
    using assms(2) UpsertConversation_Inr(2) [OF conversation]
    by (auto simp: conv_at_def select_one_append select_one_update_where merge_conversation_def split: if_splits)
next
  case (message now acct conv m res)
  then show ?thesis using assms(2) by (cases rule: UpsertMessage_cases) (auto simp: conv_at_def)
next
  case (attachment acct mid a key st j)
  then show ?thesis using assms(2) by (cases rule: UpsertAttachment_Inr) (auto simp: conv_at_def)
next
  case (reactions now conv mid me rs)
  then have "dbConversations d' = dbConversations d"
    by (auto simp: ReplaceReactions_def Let_def split: if_splits sum.splits)
  then show ?thesis using assms(2) by (simp add: conv_at_def)
next
  case (link mid opid)
  then show ?thesis using assms(2) by (simp add: conv_at_def LinkMessageOperation_def)
next
  case (fill mid sz)
  then show ?thesis using assms(2) by (simp add: conv_at_def FillMissingAttachmentSize_def)
next
  case (download aid st h)
  then show ?thesis using assms(2) by (simp add: conv_at_def SetAttachmentDownloadState_def)
next
  case (bump now cid mid act)
  then show ?thesis
    using assms(2) by (simp add: conv_at_def BumpConversationActivity_def select_one_update_where)
next
  case (operations ops)
  then show ?thesis using assms(2) by (simp add: conv_at_def)
qed

text \<open>A conversation's last activity never moves back and the conversation never disappears,
  whatever the store writes: a replayed old message cannot reorder the listing.\<close>

theorem last_activity_monotone:
  assumes "(store_step u sha)\<^sup>*\<^sup>* d d'" "conv_at i d = Some c"
  shows "\<exists>c'. conv_at i d' = Some c' \<and> crLastActivityMS c \<le> crLastActivityMS c'"
  using assms(1)
proof (induction rule: rtranclp_induct)
  case base
  then show ?case using assms(2) by simp
next
  case (step y z)
  then obtain c' where "conv_at i y = Some c'" "crLastActivityMS c \<le> crLastActivityMS c'" by blast
  with store_step_conv [OF step(2)] show ?case by fastforce
qed

section \<open>Reactions are replaced\<close>

lemma upsert_reaction_other:
  assumes "upsert_reaction ex rows = Inr rows'" "rrMessageID ex = mid"
  shows "filter (\<lambda>r. rrMessageID r \<noteq> mid) rows' = filter (\<lambda>r. rrMessageID r \<noteq> mid) rows"
proof -
  have "filter (\<lambda>r. rrMessageID r \<noteq> mid) (update_where (\<lambda>r. same_reactor r ex) g rows) =
      filter (\<lambda>r. rrMessageID r \<noteq> mid) rows" if "\<And>r. rrMessageID (g r) = rrMessageID r" for g
    using assms(2) that by (induction rows) (auto simp: same_reactor_def)
  then show ?thesis using assms by (auto simp: upsert_reaction_def split: if_split_asm)
qed

lemma upsert_reactions_other:
  "upsert_reactions exs rows = Inr rows' \<Longrightarrow> \<forall>ex \<in> set exs. rrMessageID ex = mid \<Longrightarrow>
   filter (\<lambda>r. rrMessageID r \<noteq> mid) rows' = filter (\<lambda>r. rrMessageID r \<noteq> mid) rows"
proof (induction exs arbitrary: rows)
  case (Cons ex exs)
  then obtain rows1 where "upsert_reaction ex rows = Inr rows1" "upsert_reactions exs rows1 = Inr rows'"
    by (auto split: sum.splits)
  with Cons upsert_reaction_other [of ex rows rows1 mid] show ?case by simp
qed simp

text \<open>\<open>ReplaceReactions\<close> is a set replacement: afterwards the people with a reaction on the
  message are exactly those of the given set, each once, whoever reacted before; the rows of every
  other message are untouched.\<close>

theorem ReplaceReactions_exact:
  assumes "distinct (map reactor (dbReactions d))" "ReplaceReactions u now conv mid me rs d = Inr d'"
  shows "distinct (map reactor (dbReactions d'))
    \<and> {rrParticipantID r |r. r \<in> set (dbReactions d') \<and> rrMessageID r = mid} =
        rrParticipantID ` set (reaction_rows u now conv mid me rs)
    \<and> filter (\<lambda>r. rrMessageID r \<noteq> mid) (dbReactions d') = filter (\<lambda>r. rrMessageID r \<noteq> mid) (dbReactions d)"
proof -
  let ?exs = "reaction_rows u now conv mid me rs"
  from ReplaceReactions_Inr [OF assms(2,1)] obtain rows where
    rows: "d' = d\<lparr>dbReactions := rows\<rparr>" "distinct (map reactor rows)"
      "reactor ` set rows = reactor ` set ?exs \<union> reactor ` {r \<in> set (dbReactions d). rrMessageID r \<noteq> mid}"
    and ups: "upsert_reactions ?exs (delete_where (\<lambda>r. rrMessageID r = mid) (dbReactions d)) = Inr rows"
    by blast
  have "filter (\<lambda>r. rrMessageID r \<noteq> mid) rows = filter (\<lambda>r. rrMessageID r \<noteq> mid) (dbReactions d)"
    using upsert_reactions_other [OF ups] reaction_rows_message [of _ u now conv mid me rs]
    by (simp add: delete_where_def)
  moreover have "(mid, p) \<in> reactor ` set rows \<longleftrightarrow> p \<in> rrParticipantID ` set ?exs" for p
    unfolding rows(3) using reaction_rows_message [of _ u now conv mid me rs]
    by (force simp: reactor_def)
  then have "p \<in> {rrParticipantID r |r. r \<in> set rows \<and> rrMessageID r = mid} \<longleftrightarrow> p \<in> rrParticipantID ` set ?exs" for p
    by (auto simp: reactor_def image_iff)
  ultimately show ?thesis using rows(1,2) by auto
qed

section \<open>An attachment whose media arrives later\<close>

text \<open>The upsert of an attachment is keyed by its id, which contains the media id, while the
  schema allows one row per part. When the media id of a stored part changes, the ids differ, so there
  is no conflict on the id to resolve and the write is refused.\<close>

lemma attachment_media_change_refused:
  assumes "r \<in> set (dbAttachments d)" "arMessageID r = mid" "arPartIndex r = gaPartIndex a"
    and "\<forall>r' \<in> set (dbAttachments d). arID r' \<noteq> AttachmentID u mid (show_int (gaPartIndex a)) (gaMediaID a)"
  shows "UpsertAttachment u acct mid a key st d = Inl (Constraint UniqueViolation)"
  using assms by (auto simp: UpsertAttachment_def Let_def)

section \<open>Instances\<close>

definition sample_conversation :: Conversation where
  "sample_conversation = \<lparr>gcSourceID = ''c1'', gcName = ''Ann'', gcIsGroup = False,
     gcType = ConversationTypeRCS, gcSendModeRaw = SendModeAuto, gcFolder = FolderInbox, gcUnread = False,
     gcPinned = False, gcReadOnly = False, gcDeleted = False, gcDefaultOutgoingID = ''me'',
     gcLatestMessageID = [], gcLastActivity = Some 100, gcGroupAvatarURL = [], gcSIMPayload = [],
     gcParticipants = []\<rparr>"

definition sample_message :: Message where
  "sample_message = \<lparr>gmmSourceID = ''m1'', gmmConversationID = ''c1'', gmmParticipantID = ''me'',
     gmmText = ''hi'', gmmSubject = [], gmmTimestamp = Some 200, gmmTmpID = ''t1'', gmmStatusRaw = 5,
     gmmKind = MessageKindMessage, gmmDeliveryState = DeliveryStateSending, gmmReplyToMessageID = [],
     gmmAttachments = [], gmmReactions = []\<rparr>"

definition sent_message :: Message where
  "sent_message = sample_message\<lparr>gmmStatusRaw := 1, gmmDeliveryState := DeliveryStateSent\<rparr>"

definition empty_db :: db where
  "empty_db = \<lparr>dbAccounts = [''acct_a''], dbConversations = [], dbParticipants = [], dbContacts = [],
     dbMessages = [], dbAttachments = [], dbReactions = [], dbOperations = []\<rparr>"

definition ident :: "string \<Rightarrow> string" where "ident t = t"

definition sample_conv_id :: string where
  "sample_conv_id = ConversationID ident ''acct_a'' ''c1''"
definition sample_msg_id :: string where
  "sample_msg_id = MessageID ident ''acct_a'' ''c1'' ''m1''"
definition sample_conv_row :: conv_row where
  "sample_conv_row = new_conversation sample_conv_id ''acct_a'' 1 sample_conversation"
definition sample_msg_row :: msg_row where
  "sample_msg_row = new_message ident ident 2 ''acct_a'' ''c1'' sample_message"
definition db1 :: db where
  "db1 = empty_db\<lparr>dbConversations := [sample_conv_row]\<rparr>"
definition db2 :: db where
  "db2 = db1\<lparr>dbMessages := [sample_msg_row]\<rparr>"
definition db3 :: db where
  "db3 = db1\<lparr>dbMessages := [merge_message (new_message ident ident 3 ''acct_a'' ''c1'' sent_message) sent_message
     sample_msg_row]\<rparr>"

lemma sample_upserts:
  "UpsertConversation ident 1 ''acct_a'' sample_conversation empty_db = Inr (sample_conv_id, db1)"
  "\<exists>res. UpsertMessage ident ident 2 ''acct_a'' ''c1'' sample_message db1 = Inr (res, db2)"
  "\<exists>res. UpsertMessage ident ident 3 ''acct_a'' ''c1'' sent_message db2 = Inr (res, db3)"
proof -
  have src: "gcSourceID sample_conversation = ''c1''" "gcParticipants sample_conversation = []"
    "gmmSourceID sample_message = ''m1''" "gmmSourceID sent_message = ''m1''"
    "gmmStatusRaw sample_message = 5" "gmmStatusRaw sent_message = 1"
    by (simp_all add: sample_conversation_def sample_message_def sent_message_def)
  show "UpsertConversation ident 1 ''acct_a'' sample_conversation empty_db = Inr (sample_conv_id, db1)"
    by (simp add: UpsertConversation_def Let_def src db1_def sample_conv_row_def sample_conv_id_def empty_db_def)
  show "\<exists>res. UpsertMessage ident ident 2 ''acct_a'' ''c1'' sample_message db1 = Inr (res, db2)"
    by (simp add: UpsertMessage_def Let_def src db2_def sample_msg_row_def db1_def empty_db_def
        ConversationByID_def sample_conv_row_def sample_conv_id_def)
  show "\<exists>res. UpsertMessage ident ident 3 ''acct_a'' ''c1'' sent_message db2 = Inr (res, db3)"
    by (simp add: UpsertMessage_def Let_def src db3_def db2_def sample_msg_row_def)
qed

lemma sample_steps:
  "(store_step ident ident)\<^sup>*\<^sup>* empty_db db1" "(store_step ident ident)\<^sup>*\<^sup>* db1 db2"
  "(store_step ident ident)\<^sup>*\<^sup>* db2 db3"
  using sample_upserts by (auto intro: store_step.intros)

lemma sample_rows:
  "msg_at sample_msg_id db2 = Some sample_msg_row"
  "msg_at sample_msg_id db3 =
     Some (merge_message (new_message ident ident 3 ''acct_a'' ''c1'' sent_message) sent_message sample_msg_row)"
  "mrDirection sample_msg_row = DirectionOutgoing" "mrState sample_msg_row = DeliveryStateSending"
  "next_state sample_msg_row sent_message = DeliveryStateSent"
  by (simp_all add: msg_at_def db2_def db3_def sample_msg_row_def sample_msg_id_def sample_message_def
      MessageDirection_def next_state_def message_refused_def sent_message_def TransitionAllowed_def)

theorem upsert_replay_writes_nothing_witness:
  "\<exists>res. UpsertMessage ident ident 9 ''acct_a'' ''c1'' sample_message db2 = Inr (res, db2) \<and> \<not> umUpdated res"
  using sample_upserts(2) upsert_replay_writes_nothing [of ident ident 2 "''acct_a''" "''c1''" sample_message db1 _ db2 9]
  by blast

theorem stored_delivery_state_never_returns_witness:
  "mrState (merge_message (new_message ident ident 3 ''acct_a'' ''c1'' sent_message) sent_message sample_msg_row)
     \<noteq> mrState sample_msg_row"
  using stored_delivery_state_never_returns [OF sample_rows(1,3) sample_steps(3) sample_rows(2) _
      rtranclp.rtrancl_refl sample_rows(2)] sample_rows(4,5) by simp

theorem last_activity_monotone_witness:
  "\<exists>c. conv_at sample_conv_id db3 = Some c \<and> crLastActivityMS sample_conv_row \<le> crLastActivityMS c"
proof -
  have "conv_at sample_conv_id db2 = Some sample_conv_row"
    by (simp add: conv_at_def db2_def db1_def sample_conv_row_def)
  from last_activity_monotone [OF sample_steps(3) this] show ?thesis .
qed

definition sample_reactions :: "Reaction list" where
  "sample_reactions = [\<lparr>grEmoji = None, grType = ''emotify'', grParticipantIDs = [''p1'']\<rparr>]"

theorem ReplaceReactions_exact_witness:
  "\<exists>d'. ReplaceReactions ident 4 sample_conv_id sample_msg_id [] sample_reactions db2 = Inr d'
     \<and> {rrParticipantID r |r. r \<in> set (dbReactions d') \<and> rrMessageID r = sample_msg_id} =
         {ParticipantID ident sample_conv_id ''p1''}"
proof -
  have msgs: "dbMessages db2 = [sample_msg_row]" "dbReactions db2 = []" "mrID sample_msg_row = sample_msg_id"
    "sample_conv_id \<noteq> []"
    by (simp_all add: db2_def db1_def empty_db_def sample_msg_row_def sample_msg_id_def sample_message_def
        sample_conv_id_def ConversationID_def)
  have rows: "rrParticipantID ` set (reaction_rows ident 4 sample_conv_id sample_msg_id [] sample_reactions) =
      {ParticipantID ident sample_conv_id ''p1''}"
    by (simp add: reaction_rows_def sample_reactions_def new_reaction_def Let_def msgs)
  have "\<exists>d'. ReplaceReactions ident 4 sample_conv_id sample_msg_id [] sample_reactions db2 = Inr d'"
    by (simp add: ReplaceReactions_def Let_def msgs reaction_rows_def sample_reactions_def upsert_reaction_def)
  then obtain d' where d': "ReplaceReactions ident 4 sample_conv_id sample_msg_id [] sample_reactions db2 = Inr d'"
    by blast
  with ReplaceReactions_exact [OF _ d'] rows msgs(2) show ?thesis by auto
qed

end
