(* ===== verification/Ingest.thy ===== *)
theory Ingest
  imports Messages Gm_Errors
begin

text \<open>
  Ingestion (\<open>internal/core/ingest.go\<close>) and echo correlation (\<open>correlateEcho\<close> of
  \<open>internal/core/operations.go\<close>): the one path by which backfill, the live stream and the
  sweep write messages. The ingester's state is the database, its counters and the audit rows it
  appended; every store call is its own transaction, so an error part-way leaves what was written
  before it. Logging is not modelled.
\<close>

section \<open>The ingester\<close>

record ing_env =
  ieUuid5 :: "string \<Rightarrow> string"
  ieSha :: "string \<Rightarrow> string"
  ieNow :: ms
  ieSeal :: "(string \<Rightarrow> string \<Rightarrow> string option) option"
    \<comment> \<open>sealing a key for an attachment id under the data key, when there is a data key\<close>
  ieAuditSource :: "string option"

record out_of_order_event =
  ooAccountID :: string
  ooTargetID :: string
  ooStoredState :: "DeliveryState option"
  ooReportedState :: DeliveryState
  ooStateRaw :: int
  ooSource :: string

record ing_state =
  isDB :: db
  isIgnored :: nat
  isUnknown :: nat
  isApplied :: nat
  isOutOfOrd :: nat
  isNewMsgs :: nat
  isAudit :: "out_of_order_event list"

datatype ingest_error =
    NoConversationID
  | UpsertFailed write_error
  | SealFailed
  | AttachmentFailed write_error
  | ReactionsFailed write_error

definition IsDM :: "Conversation option \<Rightarrow> bool" where
  "IsDM c = (case c of None \<Rightarrow> False | Some conv \<Rightarrow> \<not> gcIsGroup conv)"

definition CountUnknown :: "ing_state \<Rightarrow> ing_state" where
  "CountUnknown s = s\<lparr>isUnknown := isUnknown s + 1\<rparr>"

definition IngestConversation ::
  "ing_env \<Rightarrow> string \<Rightarrow> Conversation \<Rightarrow> ing_state \<Rightarrow> (ingest_error + string) \<times> ing_state" where
  "IngestConversation env accountID c s =
     (case UpsertConversation (ieUuid5 env) (ieNow env) accountID c (isDB s) of
        Inl e \<Rightarrow> (Inl (UpsertFailed e), s)
      | Inr (i, d) \<Rightarrow> (Inr i, s\<lparr>isDB := d, isApplied := isApplied s + 1\<rparr>))"

section \<open>Echo correlation\<close>

definition echo_failed_text :: string where
  "echo_failed_text = ''the phone reported the message as failed''"

definition echo_settlement :: "string \<Rightarrow> Message \<Rightarrow> Operation \<Rightarrow> Settlement" where
  "echo_settlement messageID m op =
     (let st = \<lparr>stStatus = opStatus op, stMessageID = messageID, stConversationID = [],
                stErrorCode = [], stErrorMessage = [], stErrorRetryable = False, stGoogleStatusRaw = 0\<rparr>
      in if opStatus op = OpPending \<or> opStatus op = OpUnknown then
           (if gmmDeliveryState m = DeliveryStateFailed then
              st\<lparr>stStatus := OpFailed, stErrorCode := GmGoogleError, stErrorMessage := echo_failed_text,
                 stGoogleStatusRaw := gmmStatusRaw m\<rparr>
            else st\<lparr>stStatus := OpSucceeded, stGoogleStatusRaw := gmmStatusRaw m\<rparr>)
         else st)"

definition correlateEcho :: "ms \<Rightarrow> string \<Rightarrow> string \<Rightarrow> Message \<Rightarrow> db \<Rightarrow> db" where
  "correlateEcho now accountID messageID m d =
     (case OperationByTmpID accountID (gmmTmpID m) (dbOperations d) of
        Inl e \<Rightarrow> d
      | Inr op \<Rightarrow>
          (let d1 = LinkMessageOperation messageID (opID op) d;
               d2 = (if 0 < opMediaSizeBytes op
                     then FillMissingAttachmentSize messageID (opMediaSizeBytes op) d1 else d1)
           in case SettleOperation now (opID op) (echo_settlement messageID m op) (dbOperations d2) of
                Inl e \<Rightarrow> d2
              | Inr (settled, ops) \<Rightarrow> d2\<lparr>dbOperations := ops\<rparr>))"

section \<open>One message\<close>

definition auditOutOfOrder :: "ing_env \<Rightarrow> string \<Rightarrow> UpsertMessageResult \<Rightarrow> Message \<Rightarrow> ing_state \<Rightarrow> ing_state" where
  "auditOutOfOrder env accountID res m s =
     (case ieAuditSource env of
        None \<Rightarrow> s
      | Some source \<Rightarrow>
          s\<lparr>isAudit := isAudit s @
              [\<lparr>ooAccountID = accountID, ooTargetID = umID res, ooStoredState = umPreviousState res,
                ooReportedState = gmmDeliveryState m, ooStateRaw = gmmStatusRaw m, ooSource = source\<rparr>]\<rparr>)"

definition sealed_key :: "ing_env \<Rightarrow> string \<Rightarrow> Attachment \<Rightarrow> string option" where
  "sealed_key env messageID att =
     (case ieSeal env of
        None \<Rightarrow> Some []
      | Some seal \<Rightarrow>
          if gaDecryptionKey att = [] then Some []
          else seal (AttachmentID (ieUuid5 env) messageID (show_int (gaPartIndex att)) (gaMediaID att))
                 (gaDecryptionKey att))"

fun apply_attachments ::
  "ing_env \<Rightarrow> string \<Rightarrow> string \<Rightarrow> Message \<Rightarrow> Attachment list \<Rightarrow> db \<Rightarrow> ingest_error option \<times> db" where
  "apply_attachments env accountID messageID m [] d = (None, d)"
| "apply_attachments env accountID messageID m (att # atts) d =
     (case sealed_key env messageID att of
        None \<Rightarrow> (Some SealFailed, d)
      | Some sealed \<Rightarrow>
          (case UpsertAttachment (ieUuid5 env) accountID messageID att sealed
                  (DownloadStateForMessage (gaMediaID att) (gaThumbnailMediaID att) (gmmDeliveryState m)) d of
             Inl e \<Rightarrow> (Some (AttachmentFailed e), d)
           | Inr (i, d') \<Rightarrow> apply_attachments env accountID messageID m atts d'))"

definition myParticipant :: "ing_env \<Rightarrow> string \<Rightarrow> Message \<Rightarrow> db \<Rightarrow> string" where
  "myParticipant env accountID m d =
     (case ConversationByID (ConversationID (ieUuid5 env) accountID (gmmConversationID m)) d of
        None \<Rightarrow> [] | Some conv \<Rightarrow> scanString (crDefaultOutgoingID conv))"

definition applyParts :: "ing_env \<Rightarrow> string \<Rightarrow> string \<Rightarrow> Message \<Rightarrow> db \<Rightarrow> ingest_error option \<times> db" where
  "applyParts env accountID messageID m d =
     (case apply_attachments env accountID messageID m (gmmAttachments m) d of
        (Some e, d1) \<Rightarrow> (Some e, d1)
      | (None, d1) \<Rightarrow>
          if gmmReactions m = [] then (None, d1)
          else (case ReplaceReactions (ieUuid5 env) (ieNow env)
                       (ConversationID (ieUuid5 env) accountID (gmmConversationID m)) messageID
                       (myParticipant env accountID m d1) (gmmReactions m) d1 of
                  Inl e \<Rightarrow> (Some (ReactionsFailed e), d1)
                | Inr d2 \<Rightarrow> (None, d2)))"

definition applyActivity :: "ing_env \<Rightarrow> string \<Rightarrow> Message \<Rightarrow> string \<Rightarrow> bool \<Rightarrow> db \<Rightarrow> db" where
  "applyActivity env accountID m messageID isOld d =
     (case gmmTimestamp m of
        None \<Rightarrow> d
      | Some activity \<Rightarrow>
          if isOld then d
          else
            (let convID = ConversationID (ieUuid5 env) accountID (gmmConversationID m) in
             case ConversationByID convID d of
               Some current \<Rightarrow>
                 if activity \<le> crLastActivityMS current then d
                 else BumpConversationActivity (ieNow env) convID messageID activity d
             | None \<Rightarrow> BumpConversationActivity (ieNow env) convID messageID activity d))"

text \<open>What is counted and audited once the row is written.\<close>

definition count_upsert :: "ing_env \<Rightarrow> string \<Rightarrow> UpsertMessageResult \<Rightarrow> Message \<Rightarrow> bool \<Rightarrow> ing_state \<Rightarrow> ing_state" where
  "count_upsert env accountID res m isOld s =
     (let s1 = (if umTransitionRefused res
                then auditOutOfOrder env accountID res m (s\<lparr>isOutOfOrd := isOutOfOrd s + 1\<rparr>) else s);
          s2 = (if umInserted res \<or> umUpdated res then s1\<lparr>isApplied := isApplied s1 + 1\<rparr> else s1)
      in if umInserted res \<and> \<not> isOld then s2\<lparr>isNewMsgs := isNewMsgs s2 + 1\<rparr> else s2)"

definition IngestMessage ::
  "ing_env \<Rightarrow> string \<Rightarrow> Message \<Rightarrow> bool \<Rightarrow> bool \<Rightarrow> ing_state
     \<Rightarrow> ingest_error option \<times> UpsertMessageResult option \<times> ing_state" where
  "IngestMessage env accountID m isDM isOld s =
     (if ShouldIgnoreStatus (gmmStatusRaw m) isDM then (None, None, s\<lparr>isIgnored := isIgnored s + 1\<rparr>)
      else if gmmConversationID m = [] then (Some NoConversationID, None, s)
      else
        (case UpsertMessage (ieUuid5 env) (ieSha env) (ieNow env) accountID (gmmConversationID m) m (isDB s) of
           Inl e \<Rightarrow> (Some (UpsertFailed e), None, s)
         | Inr (res, d1) \<Rightarrow>
             (let s1 = count_upsert env accountID res m isOld (s\<lparr>isDB := d1\<rparr>);
                  (err, d2) = (if umInserted res \<or> umUpdated res
                               then applyParts env accountID (umID res) m d1 else (None, d1))
              in case err of
                   Some e \<Rightarrow> (Some e, Some res, s1\<lparr>isDB := d2\<rparr>)
                 | None \<Rightarrow>
                     (let d3 = (if \<not> isOld \<and> gmmTmpID m \<noteq> []
                                then correlateEcho (ieNow env) accountID (umID res) m d2 else d2);
                          d4 = applyActivity env accountID m (umID res) isOld d3
                      in (None, Some res, s1\<lparr>isDB := d4\<rparr>)))))"

section \<open>Ingestion is a run of store writes\<close>

lemma correlateEcho_steps: "(store_step u sha)\<^sup>*\<^sup>* d (correlateEcho now acct mid m d)"
proof -
  have l: "store_step u sha d (LinkMessageOperation mid i d)" for i d by (rule store_step.link)
  have f: "store_step u sha d (FillMissingAttachmentSize mid n d)" for n d by (rule store_step.fill)
  have o: "store_step u sha d (d\<lparr>dbOperations := ops\<rparr>)" for ops d by (rule store_step.operations)
  show ?thesis
  proof (cases "OperationByTmpID acct (gmmTmpID m) (dbOperations d)")
    case (Inl e)
    then show ?thesis by (simp add: correlateEcho_def)
  next
    case (Inr op)
    let ?d1 = "LinkMessageOperation mid (opID op) d"
    let ?d2 = "if 0 < opMediaSizeBytes op then FillMissingAttachmentSize mid (opMediaSizeBytes op) ?d1 else ?d1"
    have d2: "(store_step u sha)\<^sup>*\<^sup>* d ?d2"
      using l [of d "opID op"] f [of ?d1 "opMediaSizeBytes op"] by auto
    have "correlateEcho now acct mid m d = ?d2 \<or> (\<exists>ops. correlateEcho now acct mid m d = ?d2\<lparr>dbOperations := ops\<rparr>)"
      using Inr by (auto simp: correlateEcho_def Let_def split: sum.split)
    then show ?thesis
      using d2 o rtranclp.rtrancl_into_rtrancl [OF d2] by auto
  qed
qed

lemma apply_attachments_steps:
  "apply_attachments env acct mid m atts d = (err, d') \<Longrightarrow> (store_step (ieUuid5 env) sha)\<^sup>*\<^sup>* d d'"
proof (induction atts arbitrary: d)
  case (Cons att atts)
  show ?case
  proof (cases "sealed_key env mid att")
    case None
    with Cons.prems show ?thesis by simp
  next
    case (Some key)
    let ?st = "DownloadStateForMessage (gaMediaID att) (gaThumbnailMediaID att) (gmmDeliveryState m)"
    show ?thesis
    proof (cases "UpsertAttachment (ieUuid5 env) acct mid att key ?st d")
      case (Inl e)
      with Cons.prems Some show ?thesis by simp
    next
      case (Inr id1)
      obtain i d1 where u: "UpsertAttachment (ieUuid5 env) acct mid att key ?st d = Inr (i, d1)"
        using Inr by (cases id1) auto
      with Cons Some have "(store_step (ieUuid5 env) sha)\<^sup>*\<^sup>* d1 d'" by simp
      with store_step.attachment [OF u, of sha] show ?thesis by (rule converse_rtranclp_into_rtranclp)
    qed
  qed
qed simp

lemma applyParts_steps:
  assumes "applyParts env acct mid m d = (err, d')"
  shows "(store_step (ieUuid5 env) sha)\<^sup>*\<^sup>* d d'"
proof -
  obtain e d1 where a: "apply_attachments env acct mid m (gmmAttachments m) d = (e, d1)" by fastforce
  let ?rs = "ReplaceReactions (ieUuid5 env) (ieNow env) (ConversationID (ieUuid5 env) acct (gmmConversationID m))
      mid (myParticipant env acct m d1) (gmmReactions m) d1"
  have "d' = d1 \<or> ?rs = Inr d'"
    using assms a by (auto simp: applyParts_def split: option.splits if_splits sum.splits)
  then show ?thesis
    using apply_attachments_steps [OF a] store_step.reactions rtranclp.rtrancl_into_rtrancl by metis
qed

lemma applyActivity_steps: "(store_step u sha)\<^sup>*\<^sup>* d (applyActivity env acct m mid isOld d)"
  by (auto simp: applyActivity_def Let_def split: option.split intro: store_step.bump)

lemma count_upsert_db [simp]: "isDB (count_upsert env acct res m isOld s) = isDB s"
  by (simp add: count_upsert_def Let_def auditOutOfOrder_def split: option.split)

text \<open>Whatever a message holds and however its ingestion ends, what it does to the database is a
  run of the store's own writes, so every guarantee of the message tables holds after it, and an
  error leaves exactly the writes made before it.\<close>

theorem IngestMessage_is_store_run:
  assumes "IngestMessage env acct m isDM isOld s = (err, res, s')"
  shows "(store_step (ieUuid5 env) (ieSha env))\<^sup>*\<^sup>* (isDB s) (isDB s')"
proof (cases "ShouldIgnoreStatus (gmmStatusRaw m) isDM \<or> gmmConversationID m = []")
  case True
  with assms show ?thesis by (auto simp: IngestMessage_def split: if_splits)
next
  case False
  let ?up = "UpsertMessage (ieUuid5 env) (ieSha env) (ieNow env) acct (gmmConversationID m) m (isDB s)"
  show ?thesis
  proof (cases ?up)
    case (Inl e)
    with assms False show ?thesis by (auto simp: IngestMessage_def)
  next
    case (Inr resd)
    then obtain r d1 where up: "?up = Inr (r, d1)" by (cases resd) auto
    obtain e d2 where parts: "(if umInserted r \<or> umUpdated r then applyParts env acct (umID r) m d1 else (None, d1)) = (e, d2)"
      by fastforce
    let ?d3 = "if \<not> isOld \<and> gmmTmpID m \<noteq> [] then correlateEcho (ieNow env) acct (umID r) m d2 else d2"
    have "(store_step (ieUuid5 env) (ieSha env))\<^sup>*\<^sup>* (isDB s) d1"
      using store_step.message [OF up] by blast
    also have "(store_step (ieUuid5 env) (ieSha env))\<^sup>*\<^sup>* d1 d2"
      using parts applyParts_steps by (auto split: if_splits)
    finally have d2: "(store_step (ieUuid5 env) (ieSha env))\<^sup>*\<^sup>* (isDB s) d2" .
    also have "(store_step (ieUuid5 env) (ieSha env))\<^sup>*\<^sup>* d2 ?d3"
      by (simp add: correlateEcho_steps)
    also have "(store_step (ieUuid5 env) (ieSha env))\<^sup>*\<^sup>* ?d3 (applyActivity env acct m (umID r) isOld ?d3)"
      by (rule applyActivity_steps)
    finally have d4: "(store_step (ieUuid5 env) (ieSha env))\<^sup>*\<^sup>* (isDB s) (applyActivity env acct m (umID r) isOld ?d3)" .
    have "isDB s' = d2 \<or> isDB s' = applyActivity env acct m (umID r) isOld ?d3"
      using assms False up parts by (auto simp: IngestMessage_def Let_def split: option.splits)
    then show ?thesis using d2 d4 by auto
  qed
qed

section \<open>Old messages\<close>

lemma applyParts_frame:
  assumes "applyParts env acct mid m d = (err, d')"
  shows "dbOperations d' = dbOperations d \<and> dbConversations d' = dbConversations d"
proof -
  have att: "apply_attachments env acct mid m atts d = (e, d1) \<Longrightarrow>
      dbOperations d1 = dbOperations d \<and> dbConversations d1 = dbConversations d" for atts e d1 d
  proof (induction atts arbitrary: d)
    case (Cons a atts)
    have "UpsertAttachment (ieUuid5 env) acct mid a key st d = Inr (i, d0) \<Longrightarrow>
        dbOperations d0 = dbOperations d \<and> dbConversations d0 = dbConversations d" for key st i d0
      by (erule UpsertAttachment_Inr) simp_all
    then show ?case using Cons by (auto split: option.splits sum.splits)
  qed simp
  have react: "ReplaceReactions u now conv mid me rs d1 = Inr d2 \<Longrightarrow>
      dbOperations d2 = dbOperations d1 \<and> dbConversations d2 = dbConversations d1" for u now conv me rs d1 d2
    by (auto simp: ReplaceReactions_def Let_def split: if_splits sum.splits)
  show ?thesis
    using assms att react by (fastforce simp: applyParts_def split: option.splits if_splits sum.splits prod.splits)
qed

lemma UpsertMessage_frame:
  "UpsertMessage u sha now acct conv m d = Inr (res, d') \<Longrightarrow>
   dbOperations d' = dbOperations d \<and> dbConversations d' = dbConversations d"
  by (erule UpsertMessage_cases) simp_all

lemma IngestMessage_cases:
  assumes "IngestMessage env acct m isDM isOld s = (err, res, s')"
  obtains (ignored) "ShouldIgnoreStatus (gmmStatusRaw m) isDM" "err = None" "res = None"
      "s' = s\<lparr>isIgnored := isIgnored s + 1\<rparr>"
  | (refused) "err \<noteq> None" "res = None" "s' = s"
  | (parts_failed) r d1 d2 e where
      "UpsertMessage (ieUuid5 env) (ieSha env) (ieNow env) acct (gmmConversationID m) m (isDB s) = Inr (r, d1)"
      "umInserted r \<or> umUpdated r" "applyParts env acct (umID r) m d1 = (Some e, d2)" "err = Some e" "res = Some r"
      "s' = (count_upsert env acct r m isOld (s\<lparr>isDB := d1\<rparr>))\<lparr>isDB := d2\<rparr>"
  | (stored) r d1 d2 d3 where
      "UpsertMessage (ieUuid5 env) (ieSha env) (ieNow env) acct (gmmConversationID m) m (isDB s) = Inr (r, d1)"
      "(if umInserted r \<or> umUpdated r then applyParts env acct (umID r) m d1 else (None, d1)) = (None, d2)"
      "d3 = (if \<not> isOld \<and> gmmTmpID m \<noteq> [] then correlateEcho (ieNow env) acct (umID r) m d2 else d2)"
      "err = None" "res = Some r"
      "s' = (count_upsert env acct r m isOld (s\<lparr>isDB := d1\<rparr>))\<lparr>isDB := applyActivity env acct m (umID r) isOld d3\<rparr>"
proof (cases "ShouldIgnoreStatus (gmmStatusRaw m) isDM")
  case True
  with assms show ?thesis by (intro ignored) (auto simp: IngestMessage_def)
next
  case False
  let ?up = "UpsertMessage (ieUuid5 env) (ieSha env) (ieNow env) acct (gmmConversationID m) m (isDB s)"
  show ?thesis
  proof (cases "gmmConversationID m = [] \<or> (\<exists>e. ?up = Inl e)")
    case True
    with assms False show ?thesis by (intro refused) (auto simp: IngestMessage_def split: if_splits)
  next
    case ok: False
    then obtain r d1 where up: "?up = Inr (r, d1)" by (cases ?up) auto
    obtain e d2 where parts: "(if umInserted r \<or> umUpdated r then applyParts env acct (umID r) m d1 else (None, d1)) = (e, d2)"
      by fastforce
    show ?thesis
    proof (cases e)
      case None
      with assms False ok up parts show ?thesis
        by (intro stored [of r d1 d2, OF up _ refl]) (auto simp: IngestMessage_def Let_def)
    next
      case (Some x)
      with parts have p: "umInserted r \<or> umUpdated r" "applyParts env acct (umID r) m d1 = (Some x, d2)"
        by (auto split: if_splits)
      with assms False ok up show ?thesis
        by (intro parts_failed [of r d1 x d2, OF up]) (auto simp: IngestMessage_def Let_def)
    qed
  qed
qed

text \<open>A replayed old message has no side effect: it resolves no operation, moves no
  conversation's activity and is not counted as new, whether or not its row was written.\<close>

theorem old_message_has_no_side_effects:
  assumes "IngestMessage env acct m isDM True s = (err, res, s')"
  shows "dbOperations (isDB s') = dbOperations (isDB s)
    \<and> dbConversations (isDB s') = dbConversations (isDB s) \<and> isNewMsgs s' = isNewMsgs s"
  using assms
proof (cases rule: IngestMessage_cases)
  case (parts_failed r d1 d2 e)
  then show ?thesis
    using UpsertMessage_frame [OF parts_failed(1)] applyParts_frame [OF parts_failed(3)]
    by (simp add: count_upsert_def Let_def auditOutOfOrder_def split: option.split)
next
  case (stored r d1 d2 d3)
  have "dbOperations d2 = dbOperations d1 \<and> dbConversations d2 = dbConversations d1"
    using stored(2) applyParts_frame by (auto split: if_splits)
  moreover have "applyActivity env acct m (umID r) True d3 = d3"
    by (simp add: applyActivity_def split: option.split)
  ultimately show ?thesis
    using UpsertMessage_frame [OF stored(1)] stored(3,6)
    by (simp add: count_upsert_def Let_def auditOutOfOrder_def split: option.split)
qed simp_all

section \<open>Echoes\<close>

definition echo_status :: "OperationStatus \<Rightarrow> Message \<Rightarrow> OperationStatus" where
  "echo_status s m =
     (if s = OpPending \<or> s = OpUnknown
      then (if gmmDeliveryState m = DeliveryStateFailed then OpFailed else OpSucceeded) else s)"

lemma echo_settlement_status: "stStatus (echo_settlement mid m op) = echo_status (opStatus op) m"
  by (simp add: echo_settlement_def echo_status_def Let_def)

lemma echo_settlement_message [simp]: "stMessageID (echo_settlement mid m op) = mid"
  by (simp add: echo_settlement_def Let_def)

lemma echo_allowed: "OperationTransitionAllowed s (echo_status s m)"
  by (cases s) (auto simp: echo_status_def OperationTransitionAllowed_def)

lemma link_operations [simp]: "dbOperations (LinkMessageOperation mid i d) = dbOperations d"
  by (simp add: LinkMessageOperation_def)

lemma fill_operations [simp]: "dbOperations (FillMissingAttachmentSize mid n d) = dbOperations d"
  by (simp add: FillMissingAttachmentSize_def)

lemma correlateEcho_operations:
  assumes "select_one (\<lambda>r. oprID r = opID op) (dbOperations d) = Some r" "op = scanOperation r"
    and "OperationByTmpID acct (gmmTmpID m) (dbOperations d) = Inr op"
  shows "dbOperations (correlateEcho now acct mid m d) =
    update_where (\<lambda>r. oprID r = opID op) (settled_row now (echo_settlement mid m op)) (dbOperations d)"
proof -
  let ?st = "echo_settlement mid m op"
  have "SettleOperation now (opID op) ?st (dbOperations d) =
      Inr (scanOperation (settled_row now ?st r), update_where (\<lambda>r. oprID r = opID op) (settled_row now ?st) (dbOperations d))"
    using assms(1,2) echo_allowed [of "oprStatus r" m]
    by (simp add: SettleOperation_def OperationByID_def settle_upd.select_key_same Let_def echo_settlement_status
        scanOperation_def)
  then show ?thesis using assms(3) by (simp add: correlateEcho_def Let_def)
qed

lemma OperationByTmpID_row:
  assumes "ops_inv accounts ops" "OperationByTmpID acct t ops = Inr op"
  obtains r where "r \<in> set ops" "op = scanOperation r" "select_one (\<lambda>r. oprID r = opID op) ops = Some r"
    "oprAccountID r = acct" "oprTmpID r = Some t"
proof -
  from assms(2) obtain r where r: "r \<in> set ops" "op = scanOperation r" "oprAccountID r = acct" "oprTmpID r = Some t"
    by (auto simp: OperationByTmpID_def split: option.splits dest!: first_by_SomeD)
  moreover have "select_one (\<lambda>r'. oprID r' = oprID r) ops = Some r"
    using assms(1) r(1) by (intro select_key_unique) (auto simp: ops_inv_def)
  ultimately show ?thesis by (intro that [of r]) (simp_all add: scanOperation_def)
qed

text \<open>An echo settles its own send and nothing else. The operation the temporary id names gets
  the message id; a pending or unknown one becomes failed when the phone reports a failure and
  succeeded otherwise, any other status stays; no other operation changes.\<close>

theorem echo_settles_its_operation:
  assumes "ops_inv accounts (dbOperations d)" "OperationByTmpID acct (gmmTmpID m) (dbOperations d) = Inr op"
    and "mid \<noteq> []"
  shows "\<exists>r. select_one (\<lambda>r. oprID r = opID op) (dbOperations (correlateEcho now acct mid m d)) = Some r
      \<and> oprStatus r = echo_status (opStatus op) m \<and> oprMessageID r = Some mid
      \<and> (opStatus op = OpUnknown \<longrightarrow> oprCorrectedAtMS r \<noteq> None)
    \<and> filter (\<lambda>r. oprID r \<noteq> opID op) (dbOperations (correlateEcho now acct mid m d)) =
        filter (\<lambda>r. oprID r \<noteq> opID op) (dbOperations d)"
proof -
  obtain r where r: "op = scanOperation r" "select_one (\<lambda>r. oprID r = opID op) (dbOperations d) = Some r"
    using OperationByTmpID_row [OF assms(1,2)] by blast
  let ?st = "echo_settlement mid m op"
  have others: "filter (\<lambda>r. oprID r \<noteq> i) (update_where (\<lambda>r. oprID r = i) (settled_row now st) xs) =
      filter (\<lambda>r. oprID r \<noteq> i) xs" for i now st xs
    by (induction xs) auto
  have "oprMessageID (settled_row now ?st r) = Some mid"
    using assms(3) by (simp add: settled_row_def Let_def nullString_def)
  moreover have "opStatus op = OpUnknown \<Longrightarrow> oprCorrectedAtMS (settled_row now ?st r) \<noteq> None"
    using echo_settlement_status [of mid m op] r(1)
    by (auto simp: settled_row_def Let_def echo_status_def scanOperation_def split: if_splits)
  ultimately show ?thesis
    using correlateEcho_operations [OF r(2,1) assms(2), of now mid] r(2) others
    by (simp add: settle_upd.select_key_same echo_settlement_status)
qed

text \<open>An echo erases the error of a failed operation. When the echo of a send that was recorded
  as failed arrives, the operation stays failed and gains its message id, but its error code, message
  and retry verdict are overwritten with nothing.\<close>

theorem echo_erases_recorded_error:
  assumes "ops_inv accounts (dbOperations d)" "OperationByTmpID acct (gmmTmpID m) (dbOperations d) = Inr op"
    and "opStatus op = OpFailed"
  shows "\<exists>r. select_one (\<lambda>r. oprID r = opID op) (dbOperations (correlateEcho now acct mid m d)) = Some r
    \<and> oprStatus r = OpFailed \<and> oprErrorCode r = None \<and> oprErrorMessage r = None \<and> oprErrorRetryable r = None"
proof -
  obtain r where r: "op = scanOperation r" "select_one (\<lambda>r. oprID r = opID op) (dbOperations d) = Some r"
    using OperationByTmpID_row [OF assms(1,2)] by blast
  show ?thesis
    using correlateEcho_operations [OF r(2,1) assms(2), of now mid] r(2) assms(3)
    by (simp add: settle_upd.select_key_same echo_settlement_status echo_status_def)
       (simp add: settled_row_def Let_def echo_settlement_def nullErrorRetryable_def)
qed

section \<open>Media that arrives after its message\<close>

lemma apply_single_attachment:
  assumes "gmmAttachments m = [a]" "sealed_key env mid a = Some key"
    and "r \<in> set (dbAttachments d)" "arMessageID r = mid" "arPartIndex r = gaPartIndex a"
    and "\<forall>r' \<in> set (dbAttachments d).
        arID r' \<noteq> AttachmentID (ieUuid5 env) mid (show_int (gaPartIndex a)) (gaMediaID a)"
  shows "applyParts env acct mid m d = (Some (AttachmentFailed (Constraint UniqueViolation)), d)"
  using assms attachment_media_change_refused [OF assms(3-6)] by (simp add: applyParts_def)

lemma UpsertMessage_attachments:
  "UpsertMessage u sha now acct conv m d = Inr (res, d') \<Longrightarrow> dbAttachments d' = dbAttachments d"
  by (erule UpsertMessage_cases) simp_all

text \<open>Media that arrives after its message never lands. A stored message has an attachment row
  for a part under some media id (empty, while only a thumbnail is known), and Google sends the message
  again with another media id for that part. The ingestion fails on the schema's one-row-per-part rule
  after the message row was already updated; the attachment keeps its old state; and ingesting the very
  same message again reports success, writes no attachment, and so never repairs it.\<close>

theorem late_media_never_lands:
  assumes "\<not> ShouldIgnoreStatus (gmmStatusRaw m) isDM" "gmmConversationID m \<noteq> []"
    and up: "UpsertMessage (ieUuid5 env) (ieSha env) (ieNow env) acct (gmmConversationID m) m (isDB s) = Inr (res, d1)"
      "umUpdated res"
    and att: "gmmAttachments m = [a]" "sealed_key env (umID res) a = Some key"
    and part: "r \<in> set (dbAttachments (isDB s))" "arMessageID r = umID res" "arPartIndex r = gaPartIndex a"
      "\<forall>r' \<in> set (dbAttachments (isDB s)).
         arID r' \<noteq> AttachmentID (ieUuid5 env) (umID res) (show_int (gaPartIndex a)) (gaMediaID a)"
  shows "\<exists>s1 res2 s2. IngestMessage env acct m isDM isOld s =
        (Some (AttachmentFailed (Constraint UniqueViolation)), Some res, s1)
    \<and> IngestMessage env acct m isDM True s1 = (None, Some res2, s2)
    \<and> dbAttachments (isDB s1) = dbAttachments (isDB s) \<and> dbAttachments (isDB s2) = dbAttachments (isDB s)"
proof -
  have same: "dbAttachments d1 = dbAttachments (isDB s)" by (rule UpsertMessage_attachments [OF up(1)])
  have parts: "applyParts env acct (umID res) m d1 = (Some (AttachmentFailed (Constraint UniqueViolation)), d1)"
    using apply_single_attachment [OF att, of r d1 acct] part same by simp
  define s1 where "s1 = (count_upsert env acct res m isOld (s\<lparr>isDB := d1\<rparr>))\<lparr>isDB := d1\<rparr>"
  have first: "IngestMessage env acct m isDM isOld s = (Some (AttachmentFailed (Constraint UniqueViolation)), Some res, s1)"
    using assms(1,2) up parts by (simp add: IngestMessage_def Let_def s1_def)
  from upsert_replay_writes_nothing_lemma [OF up(1), of "ieNow env"] obtain res2 where
    res2: "UpsertMessage (ieUuid5 env) (ieSha env) (ieNow env) acct (gmmConversationID m) m d1 = Inr (res2, d1)"
      "\<not> umInserted res2" "\<not> umUpdated res2" by blast
  have act: "applyActivity env acct m (umID res2) True d1 = d1"
    by (simp add: applyActivity_def split: option.split)
  have "IngestMessage env acct m isDM True s1 =
      (None, Some res2, (count_upsert env acct res2 m True (s1\<lparr>isDB := d1\<rparr>))\<lparr>isDB := d1\<rparr>)"
    using assms(1,2) res2 act by (simp add: IngestMessage_def Let_def s1_def)
  with first same show ?thesis by (auto simp: s1_def)
qed

section \<open>Instances\<close>

definition sample_ing_env :: ing_env where
  "sample_ing_env = \<lparr>ieUuid5 = ident, ieSha = ident, ieNow = 5, ieSeal = None, ieAuditSource = None\<rparr>"

definition ing :: "db \<Rightarrow> ing_state" where
  "ing d = \<lparr>isDB = d, isIgnored = 0, isUnknown = 0, isApplied = 0, isOutOfOrd = 0, isNewMsgs = 0, isAudit = []\<rparr>"

lemma ing_simps [simp]:
  "isDB (ing d) = d" "isNewMsgs (ing d) = 0" "ieUuid5 sample_ing_env = ident" "ieSha sample_ing_env = ident"
  "ieNow sample_ing_env = 5" "ieSeal sample_ing_env = None"
  by (simp_all add: ing_def sample_ing_env_def)

theorem IngestMessage_is_store_run_witness:
  "(store_step ident ident)\<^sup>*\<^sup>* db1
     (isDB (snd (snd (IngestMessage sample_ing_env ''acct_a'' sample_message True False (ing db1)))))"
proof -
  obtain err res s' where i: "IngestMessage sample_ing_env ''acct_a'' sample_message True False (ing db1) = (err, res, s')"
    by (metis prod_cases3)
  from IngestMessage_is_store_run [OF i] show ?thesis by (simp add: i)
qed

theorem old_message_has_no_side_effects_witness:
  "dbConversations (isDB (snd (snd (IngestMessage sample_ing_env ''acct_a'' sample_message True True (ing db1))))) =
     dbConversations db1"
proof -
  obtain err res s' where i: "IngestMessage sample_ing_env ''acct_a'' sample_message True True (ing db1) = (err, res, s')"
    by (metis prod_cases3)
  from old_message_has_no_side_effects [OF i] show ?thesis by (simp add: i)
qed

definition echo_row :: op_row where
  "echo_row = (settled_row 3 \<lparr>stStatus = OpFailed, stMessageID = [], stConversationID = [],
     stErrorCode = ''google_error'', stErrorMessage = ''no'', stErrorRetryable = False, stGoogleStatusRaw = 0\<rparr>
     sample_row)\<lparr>oprTmpID := Some ''t1''\<rparr>"

definition unknown_send :: op_row where
  "unknown_send = (unknown_row 3 ErrCrashRecovered sample_row)\<lparr>oprTmpID := Some ''t1''\<rparr>"

definition with_op :: "op_row \<Rightarrow> db" where "with_op r = db2\<lparr>dbOperations := [r]\<rparr>"

lemma sample_account: "oprAccountID sample_row = ''acct_a''" "row_inv sample_row"
  by (simp_all add: sample_row_def) (simp add: inserted_row_def sample_operation_def)

lemma echo_samples:
  "ops_inv [''acct_a''] (dbOperations (with_op echo_row))"
  "OperationByTmpID ''acct_a'' (gmmTmpID sample_message) (dbOperations (with_op echo_row)) = Inr (scanOperation echo_row)"
  "opStatus (scanOperation echo_row) = OpFailed"
  "ops_inv [''acct_a''] (dbOperations (with_op unknown_send))"
  "OperationByTmpID ''acct_a'' (gmmTmpID sample_message) (dbOperations (with_op unknown_send)) = Inr (scanOperation unknown_send)"
  "opStatus (scanOperation unknown_send) = OpUnknown" "opID (scanOperation unknown_send) = ''op_1''"
proof -
  have tmp: "gmmTmpID sample_message = ''t1''" by (simp add: sample_message_def)
  have inv: "ops_inv [''acct_a''] [r]" if "row_inv r" "oprAccountID r = ''acct_a''" for r
    using that by (simp add: ops_inv_def tuple_unique_def)
  let ?st = "\<lparr>stStatus = OpFailed, stMessageID = [], stConversationID = [], stErrorCode = ''google_error'',
     stErrorMessage = ''no'', stErrorRetryable = False, stGoogleStatusRaw = 0\<rparr>"
  have set_tmp: "row_inv (r\<lparr>oprTmpID := t\<rparr>) = row_inv r" for r t by (simp add: row_inv_def)
  have "row_inv (settled_row 3 ?st sample_row)"
    using sample_account(2) by (intro row_inv_settled) (simp_all add: OperationTransitionAllowed_def)
  then show "ops_inv [''acct_a''] (dbOperations (with_op echo_row))"
    using sample_account(1) by (simp add: with_op_def inv echo_row_def set_tmp)
  have "row_inv (unknown_row 3 ErrCrashRecovered sample_row)"
    using sample_account(2) by (intro row_inv_unknown) simp_all
  then show "ops_inv [''acct_a''] (dbOperations (with_op unknown_send))"
    using sample_account(1) by (simp add: with_op_def inv unknown_send_def set_tmp)
  show "OperationByTmpID ''acct_a'' (gmmTmpID sample_message) (dbOperations (with_op echo_row)) = Inr (scanOperation echo_row)"
    "OperationByTmpID ''acct_a'' (gmmTmpID sample_message) (dbOperations (with_op unknown_send)) = Inr (scanOperation unknown_send)"
    using sample_account(1) by (simp_all add: OperationByTmpID_def with_op_def tmp echo_row_def unknown_send_def)
  show "opStatus (scanOperation echo_row) = OpFailed" "opStatus (scanOperation unknown_send) = OpUnknown"
    "opID (scanOperation unknown_send) = ''op_1''"
    by (simp_all add: scanOperation_def echo_row_def unknown_send_def)
qed

theorem echo_settles_its_operation_witness:
  "\<exists>r. select_one (\<lambda>r. oprID r = ''op_1'')
       (dbOperations (correlateEcho 9 ''acct_a'' ''msg_1'' sample_message (with_op unknown_send))) = Some r
     \<and> oprStatus r = OpSucceeded \<and> oprMessageID r = Some ''msg_1''"
proof -
  have "gmmDeliveryState sample_message = DeliveryStateSending" by (simp add: sample_message_def)
  then show ?thesis
    using echo_settles_its_operation [OF echo_samples(4,5), of "''msg_1''" 9] echo_samples(6,7)
    by (auto simp: echo_status_def)
qed

theorem echo_erases_recorded_error_witness:
  "oprErrorCode echo_row = Some ''google_error'' \<and>
   (\<exists>r. select_one (\<lambda>r. oprID r = opID (scanOperation echo_row))
       (dbOperations (correlateEcho 9 ''acct_a'' ''msg_1'' sample_message (with_op echo_row))) = Some r
     \<and> oprStatus r = OpFailed \<and> oprErrorCode r = None)"
  using echo_erases_recorded_error [OF echo_samples(1-3), of 9 "''msg_1''"]
  by (auto simp: echo_row_def settled_row_def Let_def)

definition thumbnail_part :: Attachment where
  "thumbnail_part = \<lparr>gaPartIndex = 0, gaActionMessageID = [], gaMediaID = [], gaThumbnailMediaID = ''th'',
     gaDecryptionKey = [], gaFilename = [], gaMimeType = [], gaMediaFormat = [], gaSizeBytes = 0,
     gaWidth = 0, gaHeight = 0\<rparr>"

definition media_part :: Attachment where "media_part = thumbnail_part\<lparr>gaMediaID := ''media''\<rparr>"

definition media_message :: Message where
  "media_message = sample_message\<lparr>gmmAttachments := [media_part], gmmStatusRaw := 1\<rparr>"

definition pending_row :: att_row where
  "pending_row = new_attachment ident ''acct_a'' sample_msg_id thumbnail_part [] DownloadStatePending"

definition db_pending :: db where "db_pending = db2\<lparr>dbAttachments := [pending_row]\<rparr>"

theorem late_media_never_lands_witness:
  "\<exists>s1 res2 s2. IngestMessage sample_ing_env ''acct_a'' media_message True True s1 = (None, Some res2, s2)
     \<and> dbAttachments (isDB s2) = [pending_row] \<and> arDownloadState pending_row = DownloadStatePending"
proof -
  have m: "gmmConversationID media_message = ''c1''" "gmmSourceID media_message = ''m1''" "gmmStatusRaw media_message = 1"
      "gmmAttachments media_message = [media_part]"
    by (simp_all add: media_message_def sample_message_def)
  have row: "mrID sample_msg_row = MessageID ident ''acct_a'' ''c1'' ''m1''" "mrStateRaw sample_msg_row = 5"
    by (simp_all add: sample_msg_row_def sample_message_def)
  have "\<exists>res d1. UpsertMessage ident ident 5 ''acct_a'' ''c1'' media_message db_pending = Inr (res, d1)
      \<and> umUpdated res \<and> umID res = sample_msg_id"
    by (simp add: UpsertMessage_def Let_def db_pending_def db2_def m row sample_msg_id_def)
  then obtain res d1 where up: "UpsertMessage ident ident 5 ''acct_a'' ''c1'' media_message db_pending = Inr (res, d1)"
      "umUpdated res" "umID res = sample_msg_id" by blast
  have part: "dbAttachments db_pending = [pending_row]" "arMessageID pending_row = sample_msg_id"
      "arPartIndex pending_row = 0" "gaPartIndex media_part = 0" "arDownloadState pending_row = DownloadStatePending"
    by (simp_all add: db_pending_def pending_row_def thumbnail_part_def media_part_def) (simp add: new_attachment_def)
  have ids: "arID pending_row \<noteq> AttachmentID ident sample_msg_id (show_int 0) (gaMediaID media_part)"
    by (simp add: pending_row_def thumbnail_part_def media_part_def AttachmentID_def v5_def ident_def)
  have ign: "\<not> ShouldIgnoreStatus (gmmStatusRaw media_message) True"
    by (simp add: m ShouldIgnoreStatus_def ignoreAlways_def ignoreInDM_def)
  have seal: "sealed_key sample_ing_env (umID res) media_part = Some []" by (simp add: sealed_key_def)
  show ?thesis
    using late_media_never_lands [OF ign, of sample_ing_env "''acct_a''" "ing db_pending" res d1 media_part "[]" pending_row False]
      up m part ids seal by auto
qed

section \<open>Keys of media that arrives live\<close>

definition keyless :: "string \<Rightarrow> db \<Rightarrow> bool" where
  "keyless mid d \<longleftrightarrow> (\<forall>r \<in> set (dbAttachments d). arMessageID r = mid \<longrightarrow> arDecryptionKey r = None)"

lemma UpsertAttachment_keyless:
  assumes "UpsertAttachment u acct mid a [] st d = Inr (i, d')" "keyless mid d"
  shows "keyless mid d' \<and> dbMessages d' = dbMessages d"
  using assms(1)
proof (cases rule: UpsertAttachment_Inr)
  case inserted
  with assms(2) show ?thesis by (auto simp: keyless_def new_attachment_def)
next
  case updated
  with assms(2) show ?thesis
    by (auto simp: keyless_def set_update_where merge_attachment_def new_attachment_def split: if_splits)
qed

lemma apply_attachments_keyless:
  "ieSeal env = None \<Longrightarrow> apply_attachments env acct mid m atts d = (e, d') \<Longrightarrow> keyless mid d \<Longrightarrow>
   keyless mid d' \<and> dbMessages d' = dbMessages d"
proof (induction atts arbitrary: d)
  case (Cons a atts)
  then show ?case
    using UpsertAttachment_keyless
    by (fastforce simp: sealed_key_def split: sum.splits prod.splits)
qed simp

lemma ReplaceReactions_frame:
  "ReplaceReactions u now conv mid me rs d = Inr d' \<Longrightarrow>
     dbAttachments d' = dbAttachments d \<and> dbMessages d' = dbMessages d"
  by (auto simp: ReplaceReactions_def Let_def split: if_splits sum.splits)

lemma applyParts_keyless:
  assumes "ieSeal env = None" "applyParts env acct mid m d = (e, d')" "keyless mid d"
  shows "keyless mid d' \<and> dbMessages d' = dbMessages d"
proof -
  obtain e1 d1 where a: "apply_attachments env acct mid m (gmmAttachments m) d = (e1, d1)" by fastforce
  note k = apply_attachments_keyless [OF assms(1) a assms(3)]
  have "d' = d1 \<or> (\<exists>now conv me. ReplaceReactions (ieUuid5 env) now conv mid me (gmmReactions m) d1 = Inr d')"
    using assms(2) a by (auto simp: applyParts_def split: option.splits if_splits sum.splits)
  then show ?thesis using k ReplaceReactions_frame by (fastforce simp: keyless_def)
qed

lemma applyActivity_frame:
  "dbAttachments (applyActivity env acct m mid isOld d) = dbAttachments d"
  "dbMessages (applyActivity env acct m mid isOld d) = dbMessages d"
  by (simp_all add: applyActivity_def Let_def BumpConversationActivity_def split: option.split)

lemma upserted_row:
  assumes "UpsertMessage u sha now acct conv m d = Inr (res, d')"
  shows "\<exists>r. select_one (\<lambda>r. mrID r = MessageID u acct conv (gmmSourceID m)) (dbMessages d') = Some r
    \<and> mrContentHash r = ContentHash sha m \<and> mrStateRaw r = gmmStatusRaw m"
  using assms
proof (cases rule: UpsertMessage_cases)
  case inserted
  then show ?thesis by (simp add: select_one_append)
next
  case (updated r)
  then show ?thesis by (simp add: msg_upd.select_key_same)
qed auto

lemma unchanged_upsert:
  assumes "select_one (\<lambda>r. mrID r = MessageID u acct conv (gmmSourceID m)) (dbMessages d) = Some r"
    and "mrContentHash r = ContentHash sha m" "mrStateRaw r = gmmStatusRaw m"
  shows "\<exists>res. UpsertMessage u sha now acct conv m d = Inr (res, d) \<and> \<not> umInserted res \<and> \<not> umUpdated res"
  using assms by (simp add: UpsertMessage_def Let_def)

text \<open>C35: the decryption key of media that arrives on the live stream is lost. The ingester of the live
  stream holds no data key, so an incoming message's attachments are stored without their keys; and
  when a sweep or a backfill later ingests the same message with a data key at hand, the message counts
  as a replay, its parts are skipped, and the keys stay missing.\<close>

theorem live_media_key_never_stored:
  assumes "ieSeal env = None" "IngestMessage env acct m isDM isOld s = (None, Some res, s1)"
    and "gmmTmpID m = []" "umInserted res" "\<forall>r \<in> set (dbAttachments (isDB s)). arMessageID r \<noteq> umID res"
    and "ieUuid5 env2 = ieUuid5 env" "ieSha env2 = ieSha env" "isDB s2 = isDB s1"
  shows "(\<forall>r \<in> set (dbAttachments (isDB s1)). arMessageID r = umID res \<longrightarrow> arDecryptionKey r = None)
    \<and> (\<exists>res2 s3. IngestMessage env2 acct m isDM isOld2 s2 = (None, Some res2, s3)
         \<and> dbAttachments (isDB s3) = dbAttachments (isDB s1))"
  using assms(2)
proof (cases rule: IngestMessage_cases)
  case (stored r d1 d2 d3)
  let ?u = "ieUuid5 env" and ?c = "gmmConversationID m"
  have res: "r = res" and parts: "applyParts env acct (umID res) m d1 = (None, d2)" and d3: "d3 = d2"
    using stored(2,3,5) assms(3,4) by auto
  have "keyless (umID res) d1"
    using UpsertMessage_attachments [OF stored(1)] assms(5) by (simp add: keyless_def)
  note k = applyParts_keyless [OF assms(1) parts this]
  have db: "dbAttachments (isDB s1) = dbAttachments d2" "dbMessages (isDB s1) = dbMessages d1"
    using stored(6) d3 k by (simp_all add: applyActivity_frame)
  obtain row where "select_one (\<lambda>r. mrID r = MessageID ?u acct ?c (gmmSourceID m)) (dbMessages d1) = Some row"
      "mrContentHash row = ContentHash (ieSha env) m" "mrStateRaw row = gmmStatusRaw m"
    using upserted_row [OF stored(1)] by blast
  then obtain res2 where up2: "UpsertMessage ?u (ieSha env) (ieNow env2) acct ?c m (isDB s2) = Inr (res2, isDB s2)"
      "\<not> umInserted res2" "\<not> umUpdated res2"
    using unchanged_upsert [of ?u acct ?c m "isDB s2"] assms(8) db(2) by metis
  have "\<not> ShouldIgnoreStatus (gmmStatusRaw m) isDM" "?c \<noteq> []"
    using assms(2) by (auto simp: IngestMessage_def split: if_splits)
  then have "\<exists>res2 s3. IngestMessage env2 acct m isDM isOld2 s2 = (None, Some res2, s3) \<and>
      dbAttachments (isDB s3) = dbAttachments (isDB s2)"
    using up2 assms(3,6,7) by (simp add: IngestMessage_def Let_def applyActivity_frame)
  with k db assms(8) show ?thesis by (simp add: keyless_def)
qed simp_all

definition keyed_message :: Message where
  "keyed_message = sample_message\<lparr>gmmTmpID := [], gmmStatusRaw := 100,
     gmmAttachments := [media_part\<lparr>gaDecryptionKey := ''k''\<rparr>]\<rparr>"

definition sealing_env :: ing_env where
  "sealing_env = sample_ing_env\<lparr>ieSeal := Some (\<lambda>i k. Some (i @ k))\<rparr>"

theorem live_media_key_never_stored_witness:
  "\<exists>res s1 res2 s3. IngestMessage sample_ing_env ''acct_a'' keyed_message True False (ing db1) = (None, Some res, s1)
     \<and> IngestMessage sealing_env ''acct_a'' keyed_message True True s1 = (None, Some res2, s3)
     \<and> (\<exists>r \<in> set (dbAttachments (isDB s3)). arDecryptionKey r = None)"
proof -
  have m: "gmmConversationID keyed_message = ''c1''" "gmmSourceID keyed_message = ''m1''" "gmmTmpID keyed_message = []"
      "gmmAttachments keyed_message = [media_part\<lparr>gaDecryptionKey := ''k''\<rparr>]" "gmmReactions keyed_message = []"
      "gmmStatusRaw keyed_message = 100"
    by (simp_all add: keyed_message_def sample_message_def)
  have d: "dbMessages db1 = []" "dbAttachments db1 = []" "dbAccounts db1 = [''acct_a'']"
      "ConversationByID (ConversationID ident ''acct_a'' ''c1'') db1 = Some sample_conv_row"
    by (simp_all add: db1_def empty_db_def ConversationByID_def sample_conv_row_def sample_conv_id_def)
  let ?row = "new_message ident ident 5 ''acct_a'' ''c1'' keyed_message"
  have row: "mrID ?row = MessageID ident ''acct_a'' ''c1'' ''m1''" "mrConversationID ?row = ConversationID ident ''acct_a'' ''c1''"
    using m by (simp_all add: new_message_def Let_def)
  obtain res where up: "UpsertMessage ident ident 5 ''acct_a'' ''c1'' keyed_message db1 = Inr (res, db1\<lparr>dbMessages := [?row]\<rparr>)"
      "umInserted res" "umID res = MessageID ident ''acct_a'' ''c1'' ''m1''"
    using d m row by (simp add: UpsertMessage_def Let_def)
  let ?att = "new_attachment ident ''acct_a'' (umID res) (media_part\<lparr>gaDecryptionKey := ''k''\<rparr>) []
      (DownloadStateForMessage (gaMediaID media_part) (gaThumbnailMediaID media_part) (gmmDeliveryState keyed_message))"
  have parts: "applyParts sample_ing_env ''acct_a'' (umID res) keyed_message (db1\<lparr>dbMessages := [?row]\<rparr>) =
      (None, db1\<lparr>dbMessages := [?row], dbAttachments := [?att]\<rparr>)"
    using up(3) row d by (simp add: applyParts_def m sealed_key_def UpsertAttachment_def Let_def msg_ids_def)
  have ign: "\<not> ShouldIgnoreStatus 100 True" by (simp add: ShouldIgnoreStatus_def ignoreAlways_def ignoreInDM_def)
  obtain s1 where i: "IngestMessage sample_ing_env ''acct_a'' keyed_message True False (ing db1) = (None, Some res, s1)"
      "dbAttachments (isDB s1) = [?att]"
    using up parts ign by (simp add: IngestMessage_def m Let_def applyActivity_frame)
  have att: "arMessageID ?att = umID res" by (simp add: new_attachment_def)
  have none: "\<forall>r \<in> set (dbAttachments (isDB (ing db1))). arMessageID r \<noteq> umID res" using d by simp
  have env2: "ieUuid5 sealing_env = ieUuid5 sample_ing_env" "ieSha sealing_env = ieSha sample_ing_env"
    by (simp_all add: sealing_env_def)
  from live_media_key_never_stored [OF _ i(1) m(3) up(2) none env2 refl, of True] i att
  show ?thesis by fastforce
qed

end
