(* ===== verification/Account_State.thy ===== *)
theory Account_State
  imports Agm_Prelude
begin

text \<open>
  Account states and the state-change feed (\<open>internal/accounts/state.go\<close> and the vocabulary of
  \<open>internal/store/accounts.go\<close>). A subscription's channel is a bounded queue. The feed's mutex covers
  taking the list of subscribers and removing one from it, but not the sends and not the closing of a
  channel, so these are separate steps of the concurrent system below: a publisher has taken its list
  and still has sends to make, a closing subscriber has left the list and still has its channel open.
\<close>

section \<open>States and reasons\<close>

datatype AccountState =
    StatePairing | StateConnected | StateDegraded | StateError | StateSignedOut | StateParked
  | StateAccountChanged

datatype StateReason =
    ReasonNone | ReasonCapacity | ReasonListenError | ReasonCredentials | ReasonRevokedByPhone
  | ReasonCookiesExpired | ReasonAccountSwitched | ReasonCrashRecovered

fun AccountState_name :: "AccountState \<Rightarrow> string" where
  "AccountState_name StatePairing = ''pairing''"
| "AccountState_name StateConnected = ''connected''"
| "AccountState_name StateDegraded = ''degraded''"
| "AccountState_name StateError = ''error''"
| "AccountState_name StateSignedOut = ''signed_out''"
| "AccountState_name StateParked = ''parked''"
| "AccountState_name StateAccountChanged = ''account_changed''"

definition States :: "AccountState list" where
  "States = [StatePairing, StateConnected, StateDegraded, StateError, StateSignedOut, StateParked, StateAccountChanged]"

definition Resting :: "AccountState \<Rightarrow> bool" where "Resting s \<longleftrightarrow> s \<noteq> StatePairing"

definition Writable :: "AccountState \<Rightarrow> bool" where "Writable s \<longleftrightarrow> s = StateConnected \<or> s = StateDegraded"

definition Schedulable :: "AccountState \<Rightarrow> bool" where
  "Schedulable s \<longleftrightarrow> s \<in> {StateConnected, StateDegraded, StatePairing}"

definition CountsTowardAmbiguity :: "AccountState \<Rightarrow> bool" where
  "CountsTowardAmbiguity s \<longleftrightarrow>
     s \<in> {StateConnected, StateDegraded, StateParked, StateError, StateSignedOut, StateAccountChanged}"

record StateChange =
  scAccountID :: string
  scFrom :: "AccountState option"
  scTo :: AccountState
  scReason :: StateReason
  scAt :: ms

section \<open>The feed\<close>

abbreviation SubscriberBuffer :: nat where "SubscriberBuffer \<equiv> 64"

text \<open>\<open>subListed\<close>: still in the feed's map. \<open>subOpen\<close>: its channel is not closed.
  \<open>subTaken\<close> and \<open>subDue\<close> are history: what its reader received, and how many changes a
  publisher took it on its list for.\<close>

record Subscription =
  subID :: nat
  subAccountID :: string
  subBuffer :: "StateChange list"
  subDropped :: nat
  subListed :: bool
  subOpen :: bool
  subTaken :: "StateChange list"
  subDue :: nat

record feed =
  fdNext :: nat
  fdSubs :: "Subscription list"
  fdSends :: "(StateChange \<times> nat) list" \<comment> \<open>sends that publishers still have to make\<close>
  fdPanicked :: bool

definition subscribe :: "string \<Rightarrow> feed \<Rightarrow> feed" where
  "subscribe accountID f =
     (let i = fdNext f + 1 in
      f\<lparr>fdNext := i,
        fdSubs := fdSubs f @ [\<lparr>subID = i, subAccountID = accountID, subBuffer = [], subDropped = 0,
                              subListed = True, subOpen = True, subTaken = [], subDue = 0\<rparr>]\<rparr>)"

definition follows :: "StateChange \<Rightarrow> Subscription \<Rightarrow> bool" where
  "follows ev s \<longleftrightarrow> subListed s \<and> (subAccountID s = [] \<or> subAccountID s = scAccountID ev)"

definition update_sub :: "nat \<Rightarrow> (Subscription \<Rightarrow> Subscription) \<Rightarrow> feed \<Rightarrow> feed" where
  "update_sub i g f = f\<lparr>fdSubs := update_where (\<lambda>s. subID s = i) g (fdSubs f)\<rparr>"

text \<open>The first half of \<open>publish\<close>, under the mutex: who is to be told.\<close>

definition publish_begin :: "StateChange \<Rightarrow> feed \<Rightarrow> feed" where
  "publish_begin ev f =
     f\<lparr>fdSubs := update_where (follows ev) (\<lambda>s. s\<lparr>subDue := subDue s + 1\<rparr>) (fdSubs f),
       fdSends := fdSends f @ map (\<lambda>s. (ev, subID s)) (filter (follows ev) (fdSubs f))\<rparr>"

text \<open>One send: \<open>select { case s.ch <- ev: default: s.dropped.Add(1) }\<close>. A send on a closed channel
  panics, in a \<open>select\<close> too.\<close>

definition offer :: "StateChange \<Rightarrow> Subscription \<Rightarrow> Subscription" where
  "offer ev s = (if length (subBuffer s) < SubscriberBuffer then s\<lparr>subBuffer := subBuffer s @ [ev]\<rparr>
                 else s\<lparr>subDropped := subDropped s + 1\<rparr>)"

definition send :: "StateChange \<Rightarrow> nat \<Rightarrow> feed \<Rightarrow> feed" where
  "send ev i f =
     (if \<exists>s \<in> set (fdSubs f). subID s = i \<and> \<not> subOpen s then f\<lparr>fdPanicked := True\<rparr>
      else update_sub i (offer ev) f)"

text \<open>\<open>Close\<close>: the deletion under the mutex, then the closing of the channel.\<close>

definition close_unlist :: "nat \<Rightarrow> feed \<Rightarrow> feed" where
  "close_unlist i f = update_sub i (\<lambda>s. s\<lparr>subListed := False\<rparr>) f"

definition close_channel :: "nat \<Rightarrow> feed \<Rightarrow> feed" where
  "close_channel i f = update_sub i (\<lambda>s. if subListed s then s else s\<lparr>subOpen := False\<rparr>) f"

definition receive :: "nat \<Rightarrow> feed \<Rightarrow> feed" where
  "receive i f = update_sub i
     (\<lambda>s. case subBuffer s of [] \<Rightarrow> s | ev # evs \<Rightarrow> s\<lparr>subBuffer := evs, subTaken := subTaken s @ [ev]\<rparr>) f"

definition empty_feed :: feed where
  "empty_feed = \<lparr>fdNext = 0, fdSubs = [], fdSends = [], fdPanicked = False\<rparr>"

inductive feed_step :: "feed \<Rightarrow> feed \<Rightarrow> bool" where
  subscribe: "\<not> fdPanicked f \<Longrightarrow> feed_step f (subscribe acct f)"
| publish_begin: "\<not> fdPanicked f \<Longrightarrow> feed_step f (publish_begin ev f)"
| send: "\<not> fdPanicked f \<Longrightarrow> fdSends f = xs @ (ev, i) # ys \<Longrightarrow> feed_step f (send ev i (f\<lparr>fdSends := xs @ ys\<rparr>))"
| unlist: "\<not> fdPanicked f \<Longrightarrow> feed_step f (close_unlist i f)"
| shut: "\<not> fdPanicked f \<Longrightarrow> feed_step f (close_channel i f)"
| receive: "\<not> fdPanicked f \<Longrightarrow> feed_step f (receive i f)"

text \<open>\<open>publish\<close> on its own, with nothing interleaved.\<close>

definition publish :: "StateChange \<Rightarrow> feed \<Rightarrow> feed" where
  "publish ev f = foldl (\<lambda>f s. send ev (subID s) f)
     (f\<lparr>fdSubs := update_where (follows ev) (\<lambda>s. s\<lparr>subDue := subDue s + 1\<rparr>) (fdSubs f)\<rparr>)
     (filter (follows ev) (fdSubs f))"

section \<open>Accounting\<close>

definition in_flight :: "nat \<Rightarrow> feed \<Rightarrow> nat" where
  "in_flight i f = length (filter (\<lambda>x. snd x = i) (fdSends f))"

definition feed_inv :: "feed \<Rightarrow> bool" where
  "feed_inv f \<longleftrightarrow> distinct (map subID (fdSubs f)) \<and> (\<forall>s \<in> set (fdSubs f). subID s \<le> fdNext f)
     \<and> snd ` set (fdSends f) \<subseteq> subID ` set (fdSubs f)
     \<and> (\<forall>s \<in> set (fdSubs f). length (subBuffer s) \<le> SubscriberBuffer \<and> (subListed s \<longrightarrow> subOpen s)
          \<and> (\<not> fdPanicked f \<longrightarrow>
               subDue s = length (subTaken s) + length (subBuffer s) + subDropped s + in_flight (subID s) f))"

lemma feed_inv_empty: "feed_inv empty_feed"
  by (simp add: feed_inv_def empty_feed_def)

lemma update_sub_simps [simp]:
  "fdSends (update_sub i g f) = fdSends f" "fdNext (update_sub i g f) = fdNext f"
  "fdPanicked (update_sub i g f) = fdPanicked f"
  "fdSubs (update_sub i g f) = update_where (\<lambda>s. subID s = i) g (fdSubs f)"
  by (simp_all add: update_sub_def)

text \<open>A change of one subscription that keeps its id, its bounds and its balance keeps the invariant.\<close>

lemma feed_inv_update:
  assumes "feed_inv f" "\<And>s. subID (g s) = subID s"
    and "\<And>s. s \<in> set (fdSubs f) \<Longrightarrow> length (subBuffer s) \<le> SubscriberBuffer \<Longrightarrow> length (subBuffer (g s)) \<le> SubscriberBuffer"
    and "\<And>s. (subListed s \<longrightarrow> subOpen s) \<Longrightarrow> (subListed (g s) \<longrightarrow> subOpen (g s))"
    and "\<And>s. subDue (g s) = subDue s \<and> length (subTaken (g s)) + length (subBuffer (g s)) + subDropped (g s)
           = length (subTaken s) + length (subBuffer s) + subDropped s"
  shows "feed_inv (update_sub i g f)"
proof -
  have ids: "map subID (update_where (\<lambda>s. subID s = i) g xs) = map subID xs" for xs
    using assms(2) by (induction xs) auto
  then have "subID ` set (update_where (\<lambda>s. subID s = i) g xs) = subID ` set xs" for xs
    by (metis set_map)
  then show ?thesis
    using assms ids by (fastforce simp: feed_inv_def set_update_where in_flight_def)
qed

lemma offer_simps [simp]:
  "subID (offer ev s) = subID s" "subListed (offer ev s) = subListed s" "subOpen (offer ev s) = subOpen s"
  "subDue (offer ev s) = subDue s" "subTaken (offer ev s) = subTaken s"
  "length (subBuffer (offer ev s)) + subDropped (offer ev s) = length (subBuffer s) + subDropped s + 1"
  by (simp_all add: offer_def)

lemma offer_bounded: "length (subBuffer s) \<le> SubscriberBuffer \<Longrightarrow> length (subBuffer (offer ev s)) \<le> SubscriberBuffer"
  by (simp add: offer_def)

lemma feed_inv_send:
  assumes "feed_inv f" "fdSends f = xs @ (ev, i) # ys"
  shows "feed_inv (send ev i (f\<lparr>fdSends := xs @ ys\<rparr>))"
proof (cases "\<exists>s \<in> set (fdSubs f). subID s = i \<and> \<not> subOpen s")
  case True
  with assms show ?thesis by (auto simp: send_def feed_inv_def)
next
  case False
  let ?f = "update_sub i (offer ev) (f\<lparr>fdSends := xs @ ys\<rparr>)"
  have ids: "map subID (update_where (\<lambda>s. subID s = i) (offer ev) us) = map subID us" for us
    by (induction us) auto
  have flight: "in_flight j f = in_flight j ?f + (if j = i then 1 else 0)" for j
    using assms(2) by (simp add: in_flight_def)
  have "\<forall>s \<in> set (fdSubs ?f). length (subBuffer s) \<le> SubscriberBuffer \<and> (subListed s \<longrightarrow> subOpen s)
      \<and> subID s \<le> fdNext ?f \<and> (\<not> fdPanicked ?f \<longrightarrow>
          subDue s = length (subTaken s) + length (subBuffer s) + subDropped s + in_flight (subID s) ?f)"
  proof
    fix s assume "s \<in> set (fdSubs ?f)"
    then obtain s0 where s0: "s0 \<in> set (fdSubs f)" "s = (if subID s0 = i then offer ev s0 else s0)"
      by (auto simp: set_update_where)
    then have *: "length (subBuffer s0) \<le> SubscriberBuffer" "subListed s0 \<longrightarrow> subOpen s0" "subID s0 \<le> fdNext f"
        "\<not> fdPanicked f \<longrightarrow> subDue s0 = length (subTaken s0) + length (subBuffer s0) + subDropped s0 + in_flight (subID s0) f"
      using assms(1) by (simp_all add: feed_inv_def)
    show "length (subBuffer s) \<le> SubscriberBuffer \<and> (subListed s \<longrightarrow> subOpen s) \<and> subID s \<le> fdNext ?f
        \<and> (\<not> fdPanicked ?f \<longrightarrow> subDue s = length (subTaken s) + length (subBuffer s) + subDropped s + in_flight (subID s) ?f)"
      using * s0(2) flight [of "subID s0"] offer_simps(6) [of ev s0] offer_bounded [OF *(1), of ev] by auto
  qed
  moreover have "snd ` set (fdSends ?f) \<subseteq> subID ` set (fdSubs ?f)"
  proof -
    have "subID ` set (fdSubs ?f) = subID ` set (fdSubs f)" using ids [of "fdSubs f"] by (metis list.set_map update_sub_simps(4) feed.select_convs(2) feed.surjective feed.update_convs(3))
    moreover have "snd ` set (fdSends f) \<subseteq> subID ` set (fdSubs f)" using assms(1) by (simp add: feed_inv_def)
    ultimately show ?thesis using assms(2) by auto
  qed
  moreover have "distinct (map subID (fdSubs ?f))" using assms(1) ids by (simp add: feed_inv_def)
  ultimately have "feed_inv ?f" by (simp add: feed_inv_def)
  moreover have "send ev i (f\<lparr>fdSends := xs @ ys\<rparr>) = ?f" using False by (auto simp: send_def)
  ultimately show ?thesis by simp
qed

lemma feed_inv_publish_begin: assumes "feed_inv f" shows "feed_inv (publish_begin ev f)"
proof -
  let ?up = "update_where (follows ev) (\<lambda>s. s\<lparr>subDue := subDue s + 1\<rparr>) (fdSubs f)"
  let ?new = "map (\<lambda>s. (ev, subID s)) (filter (follows ev) (fdSubs f))"
  have ids: "map subID (update_where (follows ev) (\<lambda>s. s\<lparr>subDue := subDue s + 1\<rparr>) us) = map subID us" for us
    by (induction us) auto
  have one: "distinct (map subID us) \<Longrightarrow> s \<in> set us \<Longrightarrow>
      length (filter (\<lambda>x. snd x = subID s) (map (\<lambda>s. (ev, subID s)) (filter (follows ev) us))) = (if follows ev s then 1 else 0)" for us s
    by (induction us) (auto simp: filter_empty_conv image_iff)
  have "\<forall>s \<in> set ?up. length (subBuffer s) \<le> SubscriberBuffer \<and> (subListed s \<longrightarrow> subOpen s) \<and> subID s \<le> fdNext f
     \<and> (\<not> fdPanicked f \<longrightarrow> subDue s = length (subTaken s) + length (subBuffer s) + subDropped s + in_flight (subID s) (publish_begin ev f))"
  proof
    fix s assume "s \<in> set ?up"
    then obtain s0 where s0: "s0 \<in> set (fdSubs f)" "s = (if follows ev s0 then s0\<lparr>subDue := subDue s0 + 1\<rparr> else s0)"
      by (auto simp: set_update_where)
    then have "in_flight (subID s) (publish_begin ev f) = in_flight (subID s0) f + (if follows ev s0 then 1 else 0)"
      using one [of "fdSubs f" s0] assms by (simp add: in_flight_def publish_begin_def feed_inv_def)
    with s0 assms show "length (subBuffer s) \<le> SubscriberBuffer \<and> (subListed s \<longrightarrow> subOpen s) \<and> subID s \<le> fdNext f
     \<and> (\<not> fdPanicked f \<longrightarrow> subDue s = length (subTaken s) + length (subBuffer s) + subDropped s + in_flight (subID s) (publish_begin ev f))"
      by (simp add: feed_inv_def)
  qed
  moreover have "snd ` set (fdSends f @ ?new) \<subseteq> subID ` set ?up"
  proof -
    have "subID ` set ?up = subID ` set (fdSubs f)" using ids [of "fdSubs f"] by (metis list.set_map)
    moreover have "snd ` set (fdSends f) \<subseteq> subID ` set (fdSubs f)" using assms by (simp add: feed_inv_def)
    ultimately show ?thesis by auto
  qed
  moreover have "distinct (map subID ?up)" using assms ids by (simp add: feed_inv_def)
  ultimately show ?thesis by (simp add: publish_begin_def feed_inv_def)
qed

lemma feed_inv_subscribe: assumes "feed_inv f" shows "feed_inv (subscribe acct f)"
proof -
  have le: "\<forall>s \<in> set (fdSubs f). subID s \<le> fdNext f" "snd ` set (fdSends f) \<subseteq> subID ` set (fdSubs f)"
    using assms by (simp_all add: feed_inv_def)
  then have "\<forall>x \<in> set (fdSends f). snd x \<noteq> Suc (fdNext f)" by fastforce
  then have "filter (\<lambda>x. snd x = Suc (fdNext f)) (fdSends f) = []" by (simp add: filter_empty_conv)
  moreover have "Suc (fdNext f) \<notin> subID ` set (fdSubs f)" using le(1) by fastforce
  moreover have "\<forall>s \<in> set (fdSubs f). subID s \<le> Suc (fdNext f)" using le(1) by auto
  ultimately show ?thesis
    using assms by (auto simp: subscribe_def Let_def feed_inv_def in_flight_def)
qed

lemma feed_step_inv: "feed_step f f' \<Longrightarrow> feed_inv f \<Longrightarrow> feed_inv f'"
proof (induction rule: feed_step.induct)
  case (unlist f i)
  then show ?case unfolding close_unlist_def by (intro feed_inv_update) simp_all
next
  case (shut f i)
  then show ?case unfolding close_channel_def by (intro feed_inv_update) simp_all
next
  case (receive f i)
  then show ?case unfolding receive_def by (intro feed_inv_update) (auto split: list.splits)
qed (auto intro: feed_inv_subscribe feed_inv_publish_begin feed_inv_send)

text \<open>The feed never blocks and never loses a change silently. In every state the concurrent feed can
  reach without having panicked, no subscriber's queue holds more than 64 changes, and every change a
  publisher took the subscriber on its list for was received, is queued, was counted as dropped, or is
  a send still to be made.\<close>

theorem feed_accounts_for_every_change:
  assumes "feed_step\<^sup>*\<^sup>* empty_feed f" "s \<in> set (fdSubs f)" "\<not> fdPanicked f"
  shows "length (subBuffer s) \<le> 64
    \<and> subDue s = length (subTaken s) + length (subBuffer s) + subDropped s + in_flight (subID s) f"
proof -
  have "feed_inv f" using assms(1)
    by (induction rule: rtranclp_induct) (auto intro: feed_inv_empty feed_step_inv)
  with assms(2,3) show ?thesis by (simp add: feed_inv_def)
qed

text \<open>Run alone, a publication never meets a closed channel: every listed subscription is open.\<close>

lemma publish_alone_never_panics:
  assumes "feed_inv f" "\<not> fdPanicked f"
  shows "\<not> fdPanicked (publish ev f)"
proof -
  have keep: "\<forall>s \<in> set (fdSubs f). subID s \<in> set is \<longrightarrow> subOpen s \<Longrightarrow> \<not> fdPanicked f \<Longrightarrow>
      \<not> fdPanicked (foldl (\<lambda>f i. send ev i f) f is)" for f "is"
  proof (induction "is" arbitrary: f)
    case (Cons i "is")
    then have "send ev i f = update_sub i (offer ev) f" by (auto simp: send_def)
    moreover have "\<forall>s \<in> set (fdSubs (update_sub i (offer ev) f)). subID s \<in> set is \<longrightarrow> subOpen s"
      using Cons.prems(1) by (auto simp: set_update_where)
    ultimately show ?case using Cons.IH Cons.prems(2) by simp
  qed simp
  let ?f = "f\<lparr>fdSubs := update_where (follows ev) (\<lambda>s. s\<lparr>subDue := subDue s + 1\<rparr>) (fdSubs f)\<rparr>"
  let ?is = "map subID (filter (follows ev) (fdSubs f))"
  have inj: "inj_on subID (set (fdSubs f))" using assms(1) by (simp add: feed_inv_def distinct_map)
  have "subOpen s0" if "s0 \<in> set (fdSubs f)" "subID s0 \<in> set ?is" for s0
  proof -
    from that(2) obtain s1 where "s1 \<in> set (fdSubs f)" "follows ev s1" "subID s1 = subID s0" by auto
    moreover from this inj that(1) have "s1 = s0" by (auto dest: inj_onD)
    ultimately show ?thesis using assms(1) by (auto simp: feed_inv_def follows_def)
  qed
  then have "\<forall>s \<in> set (fdSubs ?f). subID s \<in> set ?is \<longrightarrow> subOpen s"
    by (auto simp: set_update_where)
  from keep [OF this] assms(2) show ?thesis by (simp add: publish_def foldl_map)
qed

definition sample_change :: StateChange where
  "sample_change = \<lparr>scAccountID = ''acct_a'', scFrom = None, scTo = StateConnected, scReason = ReasonNone, scAt = 0\<rparr>"

text \<open>C36: publishing a state change races with a subscriber that goes away. From the empty feed, one
  subscription, one publication and one close can run in an order in which the publisher sends on the
  closed channel, and the process panics.\<close>

theorem publish_can_send_on_closed_channel:
  "\<exists>f. feed_step\<^sup>*\<^sup>* empty_feed f \<and> fdPanicked f"
proof -
  let ?f1 = "subscribe [] empty_feed"
  let ?f2 = "publish_begin sample_change ?f1"
  let ?f3 = "close_unlist 1 ?f2"
  let ?f4 = "close_channel 1 ?f3"
  have ok: "\<not> fdPanicked empty_feed" "\<not> fdPanicked ?f1" "\<not> fdPanicked ?f2" "\<not> fdPanicked ?f3" "\<not> fdPanicked ?f4"
    by (simp_all add: empty_feed_def subscribe_def publish_begin_def close_unlist_def close_channel_def)
  have sends: "fdSends ?f4 = [] @ (sample_change, 1) # []"
    by (simp add: empty_feed_def subscribe_def publish_begin_def close_unlist_def close_channel_def follows_def)
  have "feed_step\<^sup>*\<^sup>* empty_feed ?f4"
    using feed_step.subscribe [OF ok(1)] feed_step.publish_begin [OF ok(2)] feed_step.unlist [OF ok(3)]
      feed_step.shut [OF ok(4)] by (meson converse_rtranclp_into_rtranclp rtranclp.rtrancl_refl)
  then have "feed_step\<^sup>*\<^sup>* empty_feed (send sample_change 1 (?f4\<lparr>fdSends := [] @ []\<rparr>))"
    using feed_step.send [OF ok(5) sends] by (rule rtranclp.rtrancl_into_rtrancl)
  moreover have "fdPanicked (send sample_change 1 (?f4\<lparr>fdSends := [] @ []\<rparr>))"
    by (simp add: empty_feed_def subscribe_def publish_begin_def close_unlist_def close_channel_def follows_def send_def)
  ultimately show ?thesis by blast
qed

theorem feed_accounts_for_every_change_witness:
  "\<exists>s. s \<in> set (fdSubs (publish_begin sample_change (subscribe [] empty_feed))) \<and> subDue s = 1
     \<and> length (subBuffer s) \<le> 64"
proof -
  let ?f = "publish_begin sample_change (subscribe [] empty_feed)"
  have ok: "\<not> fdPanicked empty_feed" "\<not> fdPanicked (subscribe [] empty_feed)" "\<not> fdPanicked ?f"
    by (simp_all add: empty_feed_def subscribe_def publish_begin_def)
  have "feed_step\<^sup>*\<^sup>* empty_feed ?f"
    using feed_step.subscribe [OF ok(1)] feed_step.publish_begin [OF ok(2)]
    by (meson converse_rtranclp_into_rtranclp rtranclp.rtrancl_refl)
  moreover obtain s where s: "s \<in> set (fdSubs ?f)" "subDue s = 1"
    by (auto simp: empty_feed_def subscribe_def publish_begin_def follows_def)
  ultimately show ?thesis using feed_accounts_for_every_change [of ?f s] ok(3) by auto
qed

end
