(* ===== verification/Account_Rows.thy ===== *)
theory Account_Rows
  imports Account_State "HOL-Library.Product_Lexorder"
begin

text \<open>
  The accounts table (\<open>internal/store/accounts.go\<close>). A nullable column is an option; the Go
  \<open>Account\<close> is the row with \<open>NULL\<close> read as the zero value, so it is the row here. The
  two keys of the table, the id and the Google address, are constraints of the writes. What is shown:
  the cleaning of abandoned pairings, which reads and deletes row by row, is one exact deletion, and the
  recorded times of the last event and the last sweep never go back.
\<close>

section \<open>Operations\<close>

record acct_row =
  acID :: string
  acGoogleAccount :: string
  acLabel :: "string option"
  acState :: AccountState
  acReason :: StateReason
  acPhoneID :: "string option"
  acDestRegUUID :: "string option"
  acDeviceLastSeenMS :: "ms option"
  acSessionPresent :: bool
  acPairedAtMS :: "ms option"
  acLastEventAtMS :: "ms option"
  acLastSweepAtMS :: "ms option"
  acBackfillCompleteAtMS :: "ms option"
  acCreatedAtMS :: ms
  acUpdatedAtMS :: ms

datatype account_error = ErrAccountNotFound | AccountConstraint sql_error

definition merge_account :: "acct_row \<Rightarrow> acct_row \<Rightarrow> acct_row" where
  "merge_account ex r =
     r\<lparr>acGoogleAccount := acGoogleAccount ex, acLabel := coalesce (acLabel ex) (acLabel r),
       acState := acState ex, acReason := acReason ex,
       acPhoneID := coalesce (acPhoneID ex) (acPhoneID r),
       acDestRegUUID := coalesce (acDestRegUUID ex) (acDestRegUUID r),
       acDeviceLastSeenMS := coalesce (acDeviceLastSeenMS ex) (acDeviceLastSeenMS r),
       acSessionPresent := acSessionPresent ex,
       acPairedAtMS := coalesce (acPairedAtMS ex) (acPairedAtMS r), acUpdatedAtMS := acUpdatedAtMS ex\<rparr>"

definition UpsertAccount :: "ms \<Rightarrow> acct_row \<Rightarrow> acct_row list \<Rightarrow> account_error + acct_row list" where
  "UpsertAccount now a rows =
     (let ex = a\<lparr>acCreatedAtMS := now, acUpdatedAtMS := now\<rparr> in
      if \<exists>r \<in> set rows. acID r \<noteq> acID a \<and> acGoogleAccount r = acGoogleAccount a
      then Inl (AccountConstraint UniqueViolation)
      else if \<exists>r \<in> set rows. acID r = acID a
      then Inr (update_where (\<lambda>r. acID r = acID a) (merge_account ex) rows)
      else Inr (rows @ [ex]))"

definition AccountRow :: "string \<Rightarrow> acct_row list \<Rightarrow> account_error + acct_row" where
  "AccountRow i rows = (case select_one (\<lambda>r. acID r = i) rows of None \<Rightarrow> Inl ErrAccountNotFound | Some r \<Rightarrow> Inr r)"

definition SetAccountState ::
  "ms \<Rightarrow> string \<Rightarrow> AccountState \<Rightarrow> StateReason \<Rightarrow> acct_row list \<Rightarrow> account_error + acct_row list" where
  "SetAccountState now accountID state reason rows =
     (if \<exists>r \<in> set rows. acID r = accountID
      then Inr (update_where (\<lambda>r. acID r = accountID)
             (\<lambda>r. r\<lparr>acState := state, acReason := reason, acUpdatedAtMS := now\<rparr>) rows)
      else Inl ErrAccountNotFound)"

definition SetSessionPresent :: "ms \<Rightarrow> string \<Rightarrow> bool \<Rightarrow> acct_row list \<Rightarrow> acct_row list" where
  "SetSessionPresent now accountID present =
     update_where (\<lambda>r. acID r = accountID) (\<lambda>r. r\<lparr>acSessionPresent := present, acUpdatedAtMS := now\<rparr>)"

definition TouchAccountEvent :: "string \<Rightarrow> ms \<Rightarrow> acct_row list \<Rightarrow> acct_row list" where
  "TouchAccountEvent accountID at =
     update_where (\<lambda>r. acID r = accountID)
       (\<lambda>r. r\<lparr>acLastEventAtMS := Some (max (scanInt (acLastEventAtMS r)) at), acUpdatedAtMS := at\<rparr>)"

definition SetAccountLastSweep :: "string \<Rightarrow> ms \<Rightarrow> acct_row list \<Rightarrow> acct_row list" where
  "SetAccountLastSweep accountID at =
     update_where (\<lambda>r. acID r = accountID)
       (\<lambda>r. r\<lparr>acLastSweepAtMS := Some (max (scanInt (acLastSweepAtMS r)) at), acUpdatedAtMS := at\<rparr>)"

definition SetAccountBackfillComplete :: "ms \<Rightarrow> string \<Rightarrow> ms option \<Rightarrow> acct_row list \<Rightarrow> acct_row list" where
  "SetAccountBackfillComplete now accountID at =
     update_where (\<lambda>r. acID r = accountID) (\<lambda>r. r\<lparr>acBackfillCompleteAtMS := at, acUpdatedAtMS := now\<rparr>)"

definition SetAccountLabel :: "ms \<Rightarrow> string \<Rightarrow> string \<Rightarrow> acct_row list \<Rightarrow> acct_row list" where
  "SetAccountLabel now accountID label =
     update_where (\<lambda>r. acID r = accountID) (\<lambda>r. r\<lparr>acLabel := nullString label, acUpdatedAtMS := now\<rparr>)"

definition Accounts :: "acct_row list \<Rightarrow> acct_row list" where
  "Accounts rows = sort_key (\<lambda>r. (- scanInt (acLastEventAtMS r), acID r)) rows"

definition unpaired :: "acct_row \<Rightarrow> bool" where
  "unpaired r \<longleftrightarrow> acState r = StatePairing \<and> acPairedAtMS r = None"

definition DeletePairingAccount :: "string \<Rightarrow> acct_row list \<Rightarrow> acct_row list" where
  "DeletePairingAccount accountID = delete_where (\<lambda>r. acID r = accountID \<and> unpaired r)"

fun sweep_candidates ::
  "(string \<Rightarrow> bool) \<Rightarrow> ms \<Rightarrow> string list \<Rightarrow> acct_row list \<Rightarrow> account_error + (string list \<times> acct_row list)" where
  "sweep_candidates live cutoff [] rows = Inr ([], rows)"
| "sweep_candidates live cutoff (i # is) rows =
     (case AccountRow i rows of
        Inl e \<Rightarrow> Inl e
      | Inr a \<Rightarrow>
          if live i \<and> cutoff \<le> acUpdatedAtMS a then sweep_candidates live cutoff is rows
          else (case sweep_candidates live cutoff is (DeletePairingAccount i rows) of
                  Inl e \<Rightarrow> Inl e
                | Inr (deleted, rows') \<Rightarrow> Inr (i # deleted, rows')))"

definition SweepAbandonedPairings ::
  "ms \<Rightarrow> (string \<Rightarrow> bool) \<Rightarrow> int \<Rightarrow> acct_row list \<Rightarrow> account_error + (string list \<times> acct_row list)" where
  "SweepAbandonedPairings now live olderThan rows =
     sweep_candidates live (now - olderThan) (map acID (filter unpaired rows)) rows"

section \<open>Keys\<close>

definition acct_inv :: "acct_row list \<Rightarrow> bool" where
  "acct_inv rows \<longleftrightarrow> distinct (map acID rows) \<and> distinct (map acGoogleAccount rows)"

lemma AccountRow_Inr: "AccountRow i rows = Inr r \<longleftrightarrow> select_one (\<lambda>r. acID r = i) rows = Some r"
  by (simp add: AccountRow_def split: option.split)

lemma merge_account_ID [simp]: "acID (merge_account ex r) = acID r"
  "acGoogleAccount (merge_account ex r) = acGoogleAccount ex"
  "acState (merge_account ex r) = acState ex" "acReason (merge_account ex r) = acReason ex"
  by (simp_all add: merge_account_def)

interpretation acct_merge: keyed_update acID "merge_account ex" for ex
  by unfold_locales simp

interpretation acct_state: keyed_update acID "\<lambda>r. r\<lparr>acState := s, acReason := x, acUpdatedAtMS := t\<rparr>" for s x t
  by unfold_locales simp

section \<open>Abandoned pairings\<close>

definition abandoned :: "(string \<Rightarrow> bool) \<Rightarrow> ms \<Rightarrow> acct_row \<Rightarrow> bool" where
  "abandoned live cutoff r \<longleftrightarrow> unpaired r \<and> (\<not> live (acID r) \<or> acUpdatedAtMS r < cutoff)"

lemma sweep_candidates_exact:
  assumes "distinct (map acID rows)" "set is \<subseteq> acID ` set (filter unpaired rows)" "distinct is"
  shows "sweep_candidates live cutoff is rows =
    Inr (filter (\<lambda>i. \<exists>r \<in> set rows. acID r = i \<and> abandoned live cutoff r) is,
         delete_where (\<lambda>r. acID r \<in> set is \<and> abandoned live cutoff r) rows)"
  using assms
proof (induction "is" arbitrary: rows)
  case Nil
  then show ?case by (simp add: delete_where_def)
next
  case (Cons i "is")
  then obtain a where a: "a \<in> set rows" "acID a = i" "unpaired a" by auto
  have sel: "AccountRow i rows = Inr a"
    using select_key_unique [OF Cons.prems(1) a(1)] a(2) by (simp add: AccountRow_Inr)
  have only: "r = a" if "r \<in> set rows" "acID r = i" for r
    using Cons.prems(1) a that by (metis (mono_tags) distinct_map inj_onD)
  show ?case
  proof (cases "live i \<and> cutoff \<le> acUpdatedAtMS a")
    case True
    then have "\<not> abandoned live cutoff a" using a(2) by (auto simp: abandoned_def)
    then have no: "\<not> (\<exists>r \<in> set rows. acID r = i \<and> abandoned live cutoff r)" using only by blast
    have "delete_where (\<lambda>r. acID r \<in> set is \<and> abandoned live cutoff r) rows =
        delete_where (\<lambda>r. acID r \<in> set (i # is) \<and> abandoned live cutoff r) rows"
      unfolding delete_where_def using no by (intro filter_cong) auto
    with Cons True sel no show ?thesis by simp
  next
    case False
    let ?rows = "DeletePairingAccount i rows"
    have ab: "abandoned live cutoff a" using False a by (auto simp: abandoned_def)
    have rows: "?rows = filter (\<lambda>r. acID r \<noteq> i) rows"
      unfolding DeletePairingAccount_def delete_where_def using only a(3) by (intro filter_cong) auto
    have "sweep_candidates live cutoff is ?rows =
      Inr (filter (\<lambda>j. \<exists>r \<in> set ?rows. acID r = j \<and> abandoned live cutoff r) is,
           delete_where (\<lambda>r. acID r \<in> set is \<and> abandoned live cutoff r) ?rows)"
    proof (intro Cons.IH)
      show "distinct (map acID ?rows)" using Cons.prems(1) by (simp add: rows distinct_map inj_on_def)
      show "set is \<subseteq> acID ` set (filter unpaired ?rows)" using Cons.prems(2,3) by (force simp: rows)
      show "distinct is" using Cons.prems(3) by simp
    qed
    moreover have "filter (\<lambda>j. \<exists>r \<in> set ?rows. acID r = j \<and> abandoned live cutoff r) is =
        filter (\<lambda>j. \<exists>r \<in> set rows. acID r = j \<and> abandoned live cutoff r) is"
      using Cons.prems(3) by (intro filter_cong) (auto simp: rows)
    moreover have "delete_where (\<lambda>r. acID r \<in> set is \<and> abandoned live cutoff r) ?rows =
        delete_where (\<lambda>r. acID r \<in> set (i # is) \<and> abandoned live cutoff r) rows"
      unfolding rows delete_where_def filter_filter using only ab by (intro filter_cong) auto
    ultimately show ?thesis using False sel ab a by auto
  qed
qed

text \<open>Cleaning up pairings is exact. The sweep, which reads the candidates once and then reads and
  deletes them row by row, never fails on a table with distinct ids and removes exactly the rows that are
  in pairing, were never paired, and have no live pairing behind them or are older than the timeout; it
  reports exactly their ids, and no account that was ever paired is touched.\<close>

theorem SweepAbandonedPairings_exact:
  assumes "distinct (map acID rows)"
  shows "SweepAbandonedPairings now live timeout rows =
    Inr (map acID (filter (abandoned live (now - timeout)) rows),
         filter (\<lambda>r. \<not> abandoned live (now - timeout) r) rows)"
proof -
  let ?P = "abandoned live (now - timeout)" and ?c = "map acID (filter unpaired rows)"
  have "distinct ?c" using assms by (simp add: distinct_map inj_on_def)
  then have "SweepAbandonedPairings now live timeout rows =
      Inr (filter (\<lambda>i. \<exists>r \<in> set rows. acID r = i \<and> ?P r) ?c, delete_where (\<lambda>r. acID r \<in> set ?c \<and> ?P r) rows)"
    unfolding SweepAbandonedPairings_def using assms by (intro sweep_candidates_exact) auto
  moreover have "filter (\<lambda>i. \<exists>r \<in> set rows. acID r = i \<and> ?P r) ?c = map acID (filter ?P rows)"
  proof -
    have "(\<exists>r' \<in> set rows. acID r' = acID r \<and> ?P r') \<longleftrightarrow> ?P r" if "r \<in> set rows" for r
      using assms that by (metis (mono_tags) distinct_map inj_onD)
    then have "filter (\<lambda>i. \<exists>r \<in> set rows. acID r = i \<and> ?P r) ?c =
        map acID (filter (\<lambda>r. unpaired r \<and> ?P r) rows)"
      by (simp add: filter_map comp_def cong: filter_cong)
    then show ?thesis by (simp add: abandoned_def conj_ac cong: filter_cong)
  qed
  moreover have "delete_where (\<lambda>r. acID r \<in> set ?c \<and> ?P r) rows = filter (\<lambda>r. \<not> ?P r) rows"
    unfolding delete_where_def by (intro filter_cong) (auto simp: abandoned_def)
  ultimately show ?thesis by simp
qed

section \<open>Times only move forward\<close>

definition event_time :: "string \<Rightarrow> acct_row list \<Rightarrow> ms" where
  "event_time i rows = (case select_one (\<lambda>r. acID r = i) rows of None \<Rightarrow> 0 | Some r \<Rightarrow> scanInt (acLastEventAtMS r))"

lemma TouchAccountEvent_forward: "event_time i rows \<le> event_time i (TouchAccountEvent j t rows)"
  unfolding event_time_def TouchAccountEvent_def
  by (induction rows) auto

lemma Accounts_newest_first:
  "sorted (map (\<lambda>r. (- scanInt (acLastEventAtMS r), acID r)) (Accounts rows))" "set (Accounts rows) = set rows"
  by (simp_all add: Accounts_def)

definition pairing_row :: acct_row where
  "pairing_row = \<lparr>acID = ''acct_n'', acGoogleAccount = ''n@example.com'', acLabel = None, acState = StatePairing,
     acReason = ReasonNone, acPhoneID = None, acDestRegUUID = None, acDeviceLastSeenMS = None,
     acSessionPresent = False, acPairedAtMS = None, acLastEventAtMS = None, acLastSweepAtMS = None,
     acBackfillCompleteAtMS = None, acCreatedAtMS = 5, acUpdatedAtMS = 5\<rparr>"

definition paired_row :: acct_row where
  "paired_row = pairing_row\<lparr>acID := ''acct_a'', acGoogleAccount := ''a@example.com'', acState := StateConnected,
     acPairedAtMS := Some 1\<rparr>"

theorem SweepAbandonedPairings_exact_witness:
  "SweepAbandonedPairings 6 (\<lambda>i. False) 100 [paired_row, pairing_row] = Inr ([''acct_n''], [paired_row])"
  using SweepAbandonedPairings_exact [of "[paired_row, pairing_row]" 6 "\<lambda>i. False" 100]
  by (simp add: paired_row_def pairing_row_def abandoned_def unpaired_def)

end
