(* ===== verification/Keyset.thy ===== *)
theory Keyset
  imports Agm_Prelude
begin

text \<open>
  Keyset pages: what it means to read a listing page by page under a descending key. A client of
  the API only knows four laws of the store's listings, stated here as a locale; the guarantees of a
  page walk follow from them once, for every listing that keeps them.
\<close>

section \<open>Pages and walks\<close>

definition below :: "'k::linorder option \<Rightarrow> 'k \<Rightarrow> bool" where
  "below c k \<longleftrightarrow> (case c of None \<Rightarrow> True | Some k0 \<Rightarrow> k < k0)"

lemma below_simps [simp]: "below None k" "below (Some k0) k \<longleftrightarrow> k < k0"
  by (simp_all add: below_def)

text \<open>\<open>WHERE (ts < ? OR (ts = ? AND id < ?)) ORDER BY ts DESC, id DESC LIMIT n\<close>.\<close>

definition page_desc :: "('r \<Rightarrow> 'k::linorder) \<Rightarrow> 'k option \<Rightarrow> nat \<Rightarrow> 'r list \<Rightarrow> 'r list" where
  "page_desc pos c n rows = take n (rev (sort_key pos (filter (\<lambda>r. below c (pos r)) rows)))"

text \<open>A client walks a listing: it asks for a page, and goes on from the last row's position while
  pages are full. Each request may see another state of the database; \<open>ds\<close> lists the states in
  order. The flag says whether the walk came to its end.\<close>

fun walk :: "('d \<Rightarrow> 'k option \<Rightarrow> nat \<Rightarrow> 'r list) \<Rightarrow> ('r \<Rightarrow> 'k) \<Rightarrow> nat \<Rightarrow> 'd list \<Rightarrow> 'k option \<Rightarrow> 'r list list \<times> bool" where
  "walk fetch pos n [] c = ([], False)"
| "walk fetch pos n (d # ds) c =
     (let p = fetch d c n in
      if length p < n \<or> p = [] then ([p], True)
      else let (ps, fin) = walk fetch pos n ds (Some (pos (last p))) in (p # ps, fin))"

lemma below_trans: "below c k0 \<Longrightarrow> k < k0 \<Longrightarrow> below c k"
  by (auto simp: below_def split: option.splits)

section \<open>The laws of a listing\<close>

locale keyset_listing =
  fixes fetch :: "'d \<Rightarrow> 'k::linorder option \<Rightarrow> nat \<Rightarrow> 'r list"
    and matching :: "'d \<Rightarrow> 'r list"
    and pos :: "'r \<Rightarrow> 'k"
    and ok :: "'d \<Rightarrow> bool"
    and cap :: nat
  assumes bounded: "0 < n \<Longrightarrow> length (fetch d c n) \<le> n"
    and descending: "ok d \<Longrightarrow> sorted_wrt (\<lambda>r r'. pos r' < pos r) (fetch d c n)"
    and sound: "r \<in> set (fetch d c n) \<Longrightarrow> r \<in> set (matching d) \<and> below c (pos r)"
    and complete: "ok d \<Longrightarrow> 0 < n \<Longrightarrow> n \<le> cap \<Longrightarrow> r \<in> set (matching d) \<Longrightarrow> below c (pos r) \<Longrightarrow>
      r \<notin> set (fetch d c n) \<Longrightarrow> length (fetch d c n) = n \<and> (\<forall>r' \<in> set (fetch d c n). pos r < pos r')"
    and keys: "ok d \<Longrightarrow> distinct (map pos (matching d))"
begin

lemma last_least:
  assumes "ok d" "fetch d c n \<noteq> []" "r \<in> set (fetch d c n)"
  shows "pos (last (fetch d c n)) \<le> pos r"
proof -
  from assms(2) have split: "fetch d c n = butlast (fetch d c n) @ [last (fetch d c n)]" by simp
  with descending [OF assms(1), of c n] have
    "\<forall>r' \<in> set (butlast (fetch d c n)). pos (last (fetch d c n)) < pos r'"
    by (metis list.set_intros(1) sorted_wrt_append)
  with assms(3) split show ?thesis by (metis append_is_Nil_conv in_set_butlastD last_appendR last_snoc
        less_imp_le order_refl rotate1.simps(2) set_ConsD set_rotate1)
qed

lemma walk_Cons_cases:
  assumes "walk fetch pos n (d # ds) c = (ps, fin)"
  obtains (ended) "length (fetch d c n) < n \<or> fetch d c n = []" "ps = [fetch d c n]" "fin"
  | (more) ps' where "length (fetch d c n) \<ge> n" "fetch d c n \<noteq> []"
      "walk fetch pos n ds (Some (pos (last (fetch d c n)))) = (ps', fin)" "ps = fetch d c n # ps'"
  using assms by (auto simp: Let_def split: if_splits prod.splits)

text \<open>Over any sequence of states, what a walk returns is strictly descending: no row twice.\<close>

lemma walk_descending:
  "\<forall>d \<in> set ds. ok d \<Longrightarrow> walk fetch pos n ds c = (ps, fin) \<Longrightarrow>
   sorted_wrt (\<lambda>r r'. pos r' < pos r) (concat ps) \<and> (\<forall>r \<in> set (concat ps). below c (pos r))"
proof (induction ds arbitrary: c ps)
  case (Cons d ds)
  from Cons.prems(2) show ?case
  proof (cases rule: walk_Cons_cases)
    case ended
    with Cons.prems(1) show ?thesis using descending [of d c n] sound [of _ d c n] by auto
  next
    case (more ps')
    let ?k = "pos (last (fetch d c n))"
    from Cons.IH [OF _ more(3)] Cons.prems(1)
    have ih: "sorted_wrt (\<lambda>r r'. pos r' < pos r) (concat ps')" "\<forall>r \<in> set (concat ps'). pos r < ?k" by simp_all
    have "\<forall>r \<in> set (fetch d c n). ?k \<le> pos r" using last_least more(2) Cons.prems(1) by simp
    with ih(2) have "\<forall>r \<in> set (fetch d c n). \<forall>r' \<in> set (concat ps'). pos r' < pos r"
      using order_less_le_trans by blast
    moreover have "below c ?k" using sound [of "last (fetch d c n)" d c n] more(2) by simp
    then have "\<forall>r \<in> set (concat ps'). below c (pos r)" using ih(2) below_trans by blast
    ultimately show ?thesis
      using ih(1) more(4) descending [of d c n] sound [of _ d c n] Cons.prems(1)
      by (auto simp: sorted_wrt_append)
  qed
qed simp

text \<open>A position that is in the listing in every state a finished walk saw is in what it returned.\<close>

lemma walk_complete:
  "\<forall>d \<in> set ds. ok d \<and> (\<exists>r \<in> set (matching d). pos r = k) \<Longrightarrow> 0 < n \<Longrightarrow> n \<le> cap \<Longrightarrow> below c k \<Longrightarrow>
   walk fetch pos n ds c = (ps, True) \<Longrightarrow> \<exists>r \<in> set (concat ps). pos r = k"
proof (induction ds arbitrary: c ps)
  case (Cons d ds)
  from Cons.prems(1) obtain r where r: "r \<in> set (matching d)" "pos r = k" and "ok d" by auto
  from Cons.prems(5) show ?case
  proof (cases rule: walk_Cons_cases)
    case ended
    then have "r \<in> set (fetch d c n)"
      using complete [OF \<open>ok d\<close> Cons.prems(2,3) r(1), of c] r(2) Cons.prems(2,4) by fastforce
    with ended(2) r(2) show ?thesis by auto
  next
    case (more ps')
    show ?thesis
    proof (cases "r \<in> set (fetch d c n)")
      case True
      with r(2) more(4) show ?thesis by auto
    next
      case False
      then have "pos r < pos (last (fetch d c n))"
        using complete [OF \<open>ok d\<close> Cons.prems(2,3) r(1), of c] r(2) Cons.prems(4) more(2) by auto
      with Cons.IH [OF _ Cons.prems(2,3) _ more(3)] Cons.prems(1) r(2) more(4) show ?thesis by auto
    qed
  qed
qed simp

lemma walk_exactly_once:
  assumes "\<forall>d \<in> set ds. ok d \<and> (\<exists>r \<in> set (matching d). pos r = k)" "0 < n" "n \<le> cap"
    and "walk fetch pos n ds None = (ps, True)"
  shows "length (filter (\<lambda>r. pos r = k) (concat ps)) = 1"
proof -
  obtain r where r: "r \<in> set (concat ps)" "pos r = k"
    using walk_complete [OF assms(1-3) _ assms(4)] by auto
  have "sorted_wrt (\<lambda>r r'. pos r' < pos r) (concat ps)"
    using walk_descending [OF _ assms(4)] assms(1) by blast
  moreover obtain xs ys where split: "concat ps = xs @ r # ys" using r(1) by (meson split_list)
  ultimately have "\<forall>x \<in> set xs. pos r < pos x" "\<forall>y \<in> set ys. pos y < pos r"
    by (auto simp: sorted_wrt_append)
  then have "filter (\<lambda>r. pos r = k) xs = []" "filter (\<lambda>r. pos r = k) ys = []" using r(2) by (auto simp: filter_empty_conv)
  with split r(2) show ?thesis by simp
qed

text \<open>On a listing that does not change, the walk ends within one request more than the full pages
  there are, and returns exactly the rows, in order.\<close>

definition left :: "'d \<Rightarrow> 'k option \<Rightarrow> nat" where
  "left d c = length (filter (\<lambda>r. below c (pos r)) (matching d))"

lemma left_decreases:
  assumes "ok d" "0 < n" "length (fetch d c n) = n"
  shows "left d (Some (pos (last (fetch d c n)))) + n \<le> left d c"
proof -
  let ?p = "fetch d c n" and ?A = "filter (\<lambda>r. pos r < pos (last (fetch d c n))) (matching d)"
  have "?p \<noteq> []" using assms(2,3) by auto
  then have "below c (pos (last ?p))" using sound [of "last ?p" d c n] by simp
  then have sub: "set ?A \<union> set ?p \<subseteq> set (filter (\<lambda>r. below c (pos r)) (matching d))"
    using sound [of _ d c n] by (auto simp: below_def split: option.splits)
  have disj: "set ?A \<inter> set ?p = {}"
    using last_least [OF assms(1) \<open>?p \<noteq> []\<close>] by fastforce
  have m: "distinct (matching d)" using keys [OF assms(1)] by (simp add: distinct_map)
  have "distinct ?p"
    using descending [OF assms(1), of c n] by (auto simp: distinct_conv_nth sorted_wrt_iff_nth_less) (metis less_irrefl nat_neq_iff)
  moreover have "distinct ?A" using m by simp
  ultimately have "card (set ?A \<union> set ?p) = length ?A + n"
    using disj assms(3) by (simp only: card_Un_disjoint distinct_card finite_set)
  moreover have "card (set (filter (\<lambda>r. below c (pos r)) (matching d))) = left d c"
    using m by (simp only: left_def distinct_card distinct_filter)
  moreover note card_mono [OF finite_set sub]
  ultimately show ?thesis by (simp add: left_def)
qed

lemma walk_ends:
  "ok d \<Longrightarrow> 0 < n \<Longrightarrow> n \<le> cap \<Longrightarrow> left d c div n < m \<Longrightarrow> snd (walk fetch pos n (replicate m d) c)"
proof (induction m arbitrary: c)
  case (Suc m)
  show ?case
  proof (cases "length (fetch d c n) < n \<or> fetch d c n = []")
    case False
    then have full: "length (fetch d c n) = n" using bounded [OF Suc.prems(2), of d c] by simp
    let ?c = "Some (pos (last (fetch d c n)))"
    have "left d ?c div n < m"
    proof -
      have "(left d ?c + n) div n \<le> left d c div n"
        using left_decreases [OF Suc.prems(1,2) full] by (rule div_le_mono)
      moreover have "(left d ?c + n) div n = left d ?c div n + 1"
        using Suc.prems(2) by (metis add.commute div_add_self2 less_numeral_extra(3))
      ultimately show ?thesis using Suc.prems(4) by linarith
    qed
    then have "snd (walk fetch pos n (replicate m d) ?c)" by (rule Suc.IH [OF Suc.prems(1-3)])
    with False show ?thesis by (cases "walk fetch pos n (replicate m d) ?c") (simp add: Let_def)
  qed (simp add: Let_def)
qed simp

lemma walk_sound:
  "walk fetch pos n ds c = (ps, fin) \<Longrightarrow> r \<in> set (concat ps) \<Longrightarrow> \<exists>d \<in> set ds. r \<in> set (matching d)"
proof (induction ds arbitrary: c ps)
  case (Cons d ds)
  from Cons.prems(1) show ?case
  proof (cases rule: walk_Cons_cases)
    case ended
    with Cons.prems(2) sound [of r d c n] show ?thesis by auto
  next
    case (more ps')
    with Cons.prems(2) sound [of r d c n] Cons.IH [OF more(3)] show ?thesis by auto
  qed
qed simp

lemma descending_unique:
  assumes "ok d" "sorted_wrt (\<lambda>r r'. pos r' < pos r) rs" "set rs = set (matching d)"
  shows "rs = rev (sort_key pos (matching d))"
proof -
  have up: "sorted_wrt (<) (map pos (rev rs))"
    using assms(2) by (simp add: sorted_wrt_map sorted_wrt_rev)
  then have "sorted (map pos (rev rs)) \<and> distinct (map pos (rev rs))"
    by (simp only: strict_sorted_iff)
  moreover have "distinct (map pos (sort_key pos (matching d)))"
    using keys [OF assms(1)] by (metis distinct_map distinct_sort set_sort)
  ultimately have "map pos (rev rs) = map pos (sort_key pos (matching d))"
    using assms(3) by (intro sorted_distinct_set_unique) simp_all
  moreover have "inj_on pos (set (matching d))" using keys [OF assms(1)] by (simp add: distinct_map)
  ultimately have "rev rs = sort_key pos (matching d)"
    using assms(3) by (intro map_inj_on [of pos]) simp_all
  then show ?thesis by (metis rev_rev_ident)
qed

lemma walk_static:
  assumes "ok d" "0 < n" "n \<le> cap" "length (matching d) div n < m"
  shows "\<exists>ps. walk fetch pos n (replicate m d) None = (ps, True) \<and> concat ps = rev (sort_key pos (matching d))"
proof -
  have "left d None = length (matching d)" by (simp add: left_def)
  with walk_ends [OF assms(1-3), of None m] assms(4) obtain ps where
    w: "walk fetch pos n (replicate m d) None = (ps, True)" by (cases "walk fetch pos n (replicate m d) None") auto
  have desc: "sorted_wrt (\<lambda>r r'. pos r' < pos r) (concat ps)"
    using walk_descending [OF _ w] assms(1) by simp
  have sub: "set (concat ps) \<subseteq> set (matching d)" using walk_sound [OF w] by fastforce
  have "r \<in> set (concat ps)" if "r \<in> set (matching d)" for r
  proof -
    have "\<forall>d' \<in> set (replicate m d). ok d' \<and> (\<exists>r' \<in> set (matching d'). pos r' = pos r)"
      using assms(1) that by auto
    then obtain r' where "r' \<in> set (concat ps)" "pos r' = pos r"
      using walk_complete [OF _ assms(2,3) _ w, of "pos r"] by auto
    moreover have "inj_on pos (set (matching d))" using keys [OF assms(1)] by (simp add: distinct_map)
    ultimately show ?thesis using sub that by (metis inj_onD subsetD)
  qed
  with sub have "set (concat ps) = set (matching d)" by auto
  with descending_unique [OF assms(1) desc] w show ?thesis by blast
qed

end

text \<open>A listing that filters, orders and cuts by the key keeps the laws.\<close>

lemma page_desc_bounded: "length (page_desc pos c n rows) \<le> n"
  by (simp add: page_desc_def)

lemma page_desc_sound: "r \<in> set (page_desc pos c n rows) \<Longrightarrow> r \<in> set rows \<and> below c (pos r)"
  by (auto simp: page_desc_def dest: in_set_takeD)

lemma desc_all:
  assumes "distinct (map pos rows)"
  shows "sorted_wrt (\<lambda>r r'. pos r' < pos r) (rev (sort_key pos (filter P rows)))"
proof -
  let ?s = "sort_key pos (filter P rows)"
  have "inj_on pos (set rows)" "distinct rows" using assms by (simp_all add: distinct_map)
  then have "distinct (map pos ?s)" by (auto simp: distinct_map inj_on_def)
  then have "sorted_wrt (<) (map pos ?s)" by (simp add: strict_sorted_iff)
  then show ?thesis by (simp add: sorted_wrt_map sorted_wrt_rev)
qed

lemma page_desc_descending:
  "distinct (map pos rows) \<Longrightarrow> sorted_wrt (\<lambda>r r'. pos r' < pos r) (page_desc pos c n rows)"
  using desc_all [of pos rows "\<lambda>r. below c (pos r)"]
  unfolding page_desc_def by (metis append_take_drop_id sorted_wrt_append)

lemma page_desc_complete:
  assumes "distinct (map pos rows)" "r \<in> set rows" "below c (pos r)" "r \<notin> set (page_desc pos c n rows)"
  shows "length (page_desc pos c n rows) = n \<and> (\<forall>r' \<in> set (page_desc pos c n rows). pos r < pos r')"
proof -
  let ?all = "rev (sort_key pos (filter (\<lambda>r. below c (pos r)) rows))"
  have "r \<in> set ?all" using assms(2,3) by simp
  then have d: "r \<in> set (drop n ?all)"
    using assms(4) unfolding page_desc_def by (metis UnE append_take_drop_id set_append)
  then have "n < length ?all" by (metis drop_all empty_iff leI list.set(1))
  moreover have "\<forall>r' \<in> set (take n ?all). pos r < pos r'"
    using desc_all [OF assms(1), of "\<lambda>r. below c (pos r)"] d
    by (metis append_take_drop_id sorted_wrt_append)
  ultimately show ?thesis by (simp add: page_desc_def)
qed

lemma keyset_listingI:
  assumes fetch: "\<And>d c n. fetch d c n = (if refused d then [] else page_desc pos c (clamp n) (matching d))"
    and ok: "\<And>d. ok d \<Longrightarrow> \<not> refused d \<and> distinct (map pos (matching d))"
    and clamp: "\<And>n. 0 < n \<Longrightarrow> clamp n \<le> n" "\<And>n. 0 < n \<Longrightarrow> n \<le> cap \<Longrightarrow> clamp n = n"
  shows "keyset_listing fetch matching pos ok cap"
proof (unfold_locales, goal_cases)
  case (1 n d c)
  then show ?case using clamp(1) [OF 1] page_desc_bounded order_trans by (simp add: fetch) blast
next
  case (2 d c n)
  then show ?case using ok by (simp add: fetch page_desc_descending)
next
  case (3 r d c n)
  then have "r \<in> set (page_desc pos c (clamp n) (matching d))" by (simp add: fetch split: if_splits)
  then show ?case by (rule page_desc_sound)
next
  case (4 d n r c)
  then have m: "fetch d c n = page_desc pos c n (matching d)" using ok clamp(2) by (simp add: fetch)
  have "distinct (map pos (matching d))" using ok [OF 4(1)] by simp
  from page_desc_complete [OF this 4(4,5), of n] 4(6) show ?case by (simp add: m)
next
  case (5 d)
  then show ?case using ok by simp
qed

end
