(* ===== verification/Codec.thy ===== *)
theory Codec
  imports Agm_Prelude
begin

text \<open>The standard-library encodings that tokens are made of: \<open>encoding/base64\<close>'s
  \<open>RawURLEncoding\<close>, \<open>encoding/hex\<close>, \<open>strconv.ParseInt\<close> and \<open>strings.Cut\<close>. Strings are
  byte strings. The round trips here carry the cursor and ticket proofs.\<close>

section \<open>Base64, URL alphabet, no padding\<close>

definition sextet_char :: "nat \<Rightarrow> nat" where
  "sextet_char n =
     (if n < 26 then 65 + n else if n < 52 then 71 + n else if n < 62 then n - 4
      else if n = 62 then 45 else 95)"

definition char_sextet :: "nat \<Rightarrow> nat option" where
  "char_sextet b =
     (if 65 \<le> b \<and> b \<le> 90 then Some (b - 65) else if 97 \<le> b \<and> b \<le> 122 then Some (b - 71)
      else if 48 \<le> b \<and> b \<le> 57 then Some (b + 4) else if b = 45 then Some 62
      else if b = 95 then Some 63 else None)"

fun sextets :: "nat list \<Rightarrow> nat list" where
  "sextets (a # b # c # r) =
     a div 4 # (a mod 4 * 16 + b div 16) # (b mod 16 * 4 + c div 64) # c mod 64 # sextets r"
| "sextets [a, b] = [a div 4, a mod 4 * 16 + b div 16, b mod 16 * 4]"
| "sextets [a] = [a div 4, a mod 4 * 16]"
| "sextets [] = []"

text \<open>Decoding drops the bits a short last group has over: the encodings are not strict.\<close>

fun unsextets :: "nat list \<Rightarrow> nat list option" where
  "unsextets (w # x # y # z # r) =
     map_option (\<lambda>bs. (w * 4 + x div 16) # (x mod 16 * 16 + y div 4) # (y mod 4 * 64 + z) # bs) (unsextets r)"
| "unsextets [w, x, y] = Some [w * 4 + x div 16, x mod 16 * 16 + y div 4]"
| "unsextets [w, x] = Some [w * 4 + x div 16]"
| "unsextets [w] = None"
| "unsextets [] = Some []"

definition RawURLEncode :: "string \<Rightarrow> string" where
  "RawURLEncode s = map (\<lambda>n. char_of (sextet_char n)) (sextets (map of_char s))"

fun all_some :: "'a option list \<Rightarrow> 'a list option" where
  "all_some [] = Some []"
| "all_some (None # xs) = None"
| "all_some (Some x # xs) = map_option (Cons x) (all_some xs)"

text \<open>The decoder skips line breaks wherever they stand.\<close>

definition RawURLDecode :: "string \<Rightarrow> string option" where
  "RawURLDecode t =
     (case all_some (map (\<lambda>c. char_sextet (of_char c))
         (filter (\<lambda>c. c \<noteq> CHR 0x0A \<and> c \<noteq> CHR 0x0D) t)) of
        None \<Rightarrow> None
      | Some ss \<Rightarrow> map_option (map char_of) (unsextets ss))"

lemma char_sextet_char [simp]: "n < 64 \<Longrightarrow> char_sextet (sextet_char n) = Some n"
  unfolding char_sextet_def sextet_char_def by (auto split: if_split)

lemma sextet_char_range: "n < 64 \<Longrightarrow> sextet_char n \<in> {45..122}"
  unfolding sextet_char_def by auto

lemma sextet_char_mod: "n < 64 \<Longrightarrow> sextet_char n mod 256 = sextet_char n"
  using sextet_char_range [of n] by simp

lemma all_some_Some [simp]: "all_some (map Some xs) = Some xs"
  by (induction xs) simp_all

text \<open>The three cuts of a byte and how they meet again.\<close>

lemma cut_lt:
  fixes a b :: nat
  assumes "a < 256" "b < 256"
  shows "a div 4 < 64" "a mod 4 * 16 + b div 16 < 64" "a mod 16 * 4 + b div 64 < 64" "a mod 64 < 64"
    "a mod 4 * 16 < 64" "a mod 16 * 4 < 64"
proof -
  have "b div 16 < 16" "b div 64 < 4" "a mod 4 < 4" "a mod 16 < 16" using assms by auto
  then show "a mod 4 * 16 + b div 16 < 64" "a mod 16 * 4 + b div 64 < 64"
    "a mod 4 * 16 < 64" "a mod 16 * 4 < 64" by linarith+
qed (use assms in auto)

lemma cut_join:
  fixes a b :: nat
  assumes "b < 256"
  shows "a div 4 * 4 + (a mod 4 * 16 + b div 16) div 16 = a"
    "(a mod 4 * 16 + b div 16) mod 16 * 16 + b mod 16 = b"
    "(a mod 16 * 4 + b div 64) div 4 = a mod 16"
    "(a mod 16 * 4 + b div 64) mod 4 * 64 + b mod 64 = b"
proof -
  have b: "b div 16 < 16" "b div 64 < 4" using assms by auto
  have "(a mod 4 * 16 + b div 16) div 16 = a mod 4" "(a mod 4 * 16 + b div 16) mod 16 = b div 16"
    using b(1) by simp_all
  then show "a div 4 * 4 + (a mod 4 * 16 + b div 16) div 16 = a"
    "(a mod 4 * 16 + b div 16) mod 16 * 16 + b mod 16 = b" by simp_all
  show "(a mod 16 * 4 + b div 64) div 4 = a mod 16" using b(2) by simp
  have "(a mod 16 * 4 + b div 64) mod 4 = b div 64" using b(2) by simp
  then show "(a mod 16 * 4 + b div 64) mod 4 * 64 + b mod 64 = b" by simp
qed

lemma sextets_lt: "list_all (\<lambda>b. b < 256) bs \<Longrightarrow> list_all (\<lambda>n. n < 64) (sextets bs)"
  by (induction bs rule: sextets.induct) (auto intro: cut_lt)

lemma unsextets_sextets: "list_all (\<lambda>b. b < 256) bs \<Longrightarrow> unsextets (sextets bs) = Some bs"
proof (induction bs rule: sextets.induct)
  case (1 a b c r)
  then have "unsextets (sextets (a # b # c # r)) =
      Some ((a div 4 * 4 + (a mod 4 * 16 + b div 16) div 16) #
        ((a mod 4 * 16 + b div 16) mod 16 * 16 + (b mod 16 * 4 + c div 64) div 4) #
        ((b mod 16 * 4 + c div 64) mod 4 * 64 + c mod 64) # r)"
    by (simp only: sextets.simps unsextets.simps list.pred_inject option.map)
  with 1 show ?case by (simp only: cut_join list.pred_inject)
next
  case (2 a b)
  then show ?case using cut_join(1,2) [of b a] by simp
qed simp_all

lemma bytes_lt: "list_all (\<lambda>b. b < 256) (map of_char (s :: string) :: nat list)"
  by (simp add: list_all_length)

lemma RawURLEncode_chars:
  assumes "c \<in> set (RawURLEncode s)"
  shows "of_char c \<in> {45..122::nat}" "c \<noteq> CHR ''.''"
proof -
  have "\<forall>n \<in> set (sextets (map of_char s)). n < 64"
    using sextets_lt [OF bytes_lt, of s] by (simp add: list_all_iff)
  with assms obtain n where n: "n < 64" "c = char_of (sextet_char n)"
    by (auto simp: RawURLEncode_def)
  with sextet_char_range [OF n(1)] show "of_char c \<in> {45..122::nat}" by simp
  have "sextet_char n \<noteq> 46" using n(1) unfolding sextet_char_def by auto
  moreover have "of_char c = sextet_char n" using sextet_char_range [OF n(1)] n(2) by simp
  ultimately show "c \<noteq> CHR ''.''" by auto
qed

theorem RawURLDecode_Encode: "RawURLDecode (RawURLEncode s) = Some s"
proof -
  let ?ss = "sextets (map of_char s)"
  have lt: "\<forall>n \<in> set ?ss. n < 64" using sextets_lt [OF bytes_lt, of s] by (simp add: list_all_iff)
  have "filter (\<lambda>c. c \<noteq> CHR 0x0A \<and> c \<noteq> CHR 0x0D) (RawURLEncode s) = RawURLEncode s"
    using RawURLEncode_chars(1) by (fastforce simp: filter_id_conv)
  moreover have "map (\<lambda>c. char_sextet (of_char c)) (RawURLEncode s) = map Some ?ss"
    using lt by (auto simp: RawURLEncode_def sextet_char_mod)
  ultimately show ?thesis
    by (simp add: RawURLDecode_def unsextets_sextets [OF bytes_lt] comp_def)
qed

section \<open>Integers\<close>

definition dec_digit :: "char \<Rightarrow> bool" where
  "dec_digit c \<longleftrightarrow> of_char c \<in> {48..57::nat}"

definition parse_digits :: "string \<Rightarrow> nat option" where
  "parse_digits s = (if s \<noteq> [] \<and> list_all dec_digit s then Some (read_nat s) else None)"

text \<open>\<open>strconv.ParseInt(s, 10, 64)\<close>: an optional sign, digits, and the 64-bit range. On this
  platform \<open>strconv.Atoi\<close> accepts the same strings.\<close>

definition int64 :: "int \<Rightarrow> bool" where
  "int64 i \<longleftrightarrow> - (2 ^ 63) \<le> i \<and> i < 2 ^ 63"

definition ParseInt :: "string \<Rightarrow> int option" where
  "ParseInt s =
     (let (neg, body) = (case s of
            [] \<Rightarrow> (False, [])
          | c # cs \<Rightarrow> if c = CHR ''-'' then (True, cs) else if c = CHR ''+'' then (False, cs) else (False, s))
      in case parse_digits body of
           None \<Rightarrow> None
         | Some n \<Rightarrow> (let i = (if neg then - int n else int n) in if int64 i then Some i else None))"

lemma parse_digits_show [simp]: "parse_digits (show_nat n) = Some n"
  using show_nat_digits by (auto simp: parse_digits_def dec_digit_def list_all_iff)

lemma show_nat_head: "show_nat n = c # cs \<Longrightarrow> c \<noteq> CHR ''-'' \<and> c \<noteq> CHR ''+''"
  using show_nat_digits [of c n] by auto

lemma ParseInt_show_int: "int64 i \<Longrightarrow> ParseInt (show_int i) = Some i"
proof (cases "i < 0")
  case True
  moreover assume "int64 i"
  ultimately show ?thesis by (simp add: ParseInt_def show_int_def)
next
  case False
  moreover assume "int64 i"
  moreover obtain c cs where "show_nat (nat i) = c # cs" by (metis list.exhaust show_nat_nonempty)
  moreover note show_nat_head [OF this] parse_digits_show [of "nat i", unfolded this]
  ultimately show ?thesis by (simp add: ParseInt_def show_int_def)
qed

lemma ParseInt_int64: "ParseInt s = Some i \<Longrightarrow> int64 i"
  by (auto simp: ParseInt_def Let_def split: prod.splits option.splits if_splits)

lemma show_int_chars: "c \<in> set (show_int i) \<Longrightarrow> c = CHR ''-'' \<or> of_char c \<in> {48..57::nat}"
  using show_nat_digits by (auto simp: show_int_def split: if_splits)

section \<open>Cutting and splitting\<close>

fun Cut :: "char \<Rightarrow> string \<Rightarrow> (string \<times> string) option" where
  "Cut sep [] = None"
| "Cut sep (c # s) = (if c = sep then Some ([], s) else map_option (\<lambda>(a, b). (c # a, b)) (Cut sep s))"

lemma Cut_append: "sep \<notin> set a \<Longrightarrow> Cut sep (a @ sep # b) = Some (a, b)"
  by (induction a) auto

lemma split_acc_free: "sep \<notin> set s \<Longrightarrow> split_acc [sep] acc s = [rev acc @ s]"
  by (induction s arbitrary: acc) auto

lemma split_acc_append:
  "sep \<notin> set a \<Longrightarrow> split_acc [sep] acc (a @ sep # s) = (rev acc @ a) # split_acc [sep] [] s"
  by (induction a arbitrary: acc) auto

section \<open>Length-prefixed frames\<close>

text \<open>\<open>fmt.Fprintf(h, "%d:", len(s))\<close>, the bytes and a line break: no frame is a prefix of another.\<close>

definition writeLenPrefixed :: "string \<Rightarrow> string" where
  "writeLenPrefixed s = show_nat (length s) @ '':'' @ s @ [CHR 0x0A]"

lemma digits_until:
  assumes "show_nat m @ c # r = show_nat n @ c # r'" "\<not> dec_digit c"
  shows "m = n \<and> r = r'"
proof -
  have "c \<notin> set (show_nat m)" "c \<notin> set (show_nat n)"
    using assms(2) show_nat_digits by (auto simp: dec_digit_def)
  then have "Cut c (show_nat m @ c # r) = Some (show_nat m, r)" "Cut c (show_nat n @ c # r') = Some (show_nat n, r')"
    by (simp_all add: Cut_append)
  then have "(show_nat m, r) = (show_nat n, r')" unfolding assms(1) by (metis option.inject)
  then show ?thesis by simp
qed

lemma writeLenPrefixed_inject:
  assumes "writeLenPrefixed a @ r = writeLenPrefixed b @ s"
  shows "a = b \<and> r = s"
proof -
  have "show_nat (length a) @ CHR '':'' # (a @ CHR 0x0A # r) = show_nat (length b) @ CHR '':'' # (b @ CHR 0x0A # s)"
    using assms by (simp add: writeLenPrefixed_def)
  moreover have "\<not> dec_digit CHR '':''" by (simp add: dec_digit_def)
  ultimately have "length a = length b \<and> a @ CHR 0x0A # r = b @ CHR 0x0A # s" by (rule digits_until)
  then show ?thesis by (auto simp: append_eq_append_conv)
qed

end
