(* ===== verification/Cursor.thy ===== *)
theory Cursor
  imports Codec Ids "HOL-Library.Product_Lexorder"
begin

text \<open>
  Pagination cursors (\<open>internal/store/cursor.go\<close>): opaque tokens that carry one position of a
  listing, signed with a key derived from the data key and bound to the endpoint and to the filter
  set as written. \<open>sha\<close> and \<open>dkHmac\<close> are SHA-256 and HMAC-SHA-256, \<open>dkDerive\<close> is HKDF
  under the data key, which may fail. A Go map of parameters is an association list with distinct
  keys. What is shown: a minted cursor decodes to its position under its own binding and to a filter
  mismatch under any other, a token whose signature does not match is never more than invalid, and
  the fingerprint of a filter set is the filter set, as far as the hash tells texts apart.
\<close>

section \<open>Operations\<close>

record Cursor =
  curSentAtMS :: int
  curID :: string

record DataKey =
  dkDerive :: "string \<Rightarrow> string option"
  dkHmac :: "string \<Rightarrow> string \<Rightarrow> string"

datatype cursor_error = ErrCursorInvalid | ErrCursorFilterMismatch | ErrDerive

abbreviation InfoCursor :: string where "InfoCursor \<equiv> ''agent-gm/cursor/v1''"

definition cursorVersion :: string where "cursorVersion = ''agmc1''"

type_synonym params = "(string \<times> string list) list"

definition filter_frame :: "string \<times> string list \<Rightarrow> string" where
  "filter_frame kv = writeLenPrefixed (fst kv) @ show_nat (length (snd kv)) @ [CHR 0x0A] @
     concat (map writeLenPrefixed (snd kv))"

definition filter_text :: "params \<Rightarrow> string" where
  "filter_text ps = concat (map filter_frame (sort_key fst ps))"

definition FilterFingerprint :: "(string \<Rightarrow> string) \<Rightarrow> params \<Rightarrow> string" where
  "FilterFingerprint sha ps = RawURLEncode (sha (filter_text ps))"

definition cursorPayload :: "string \<Rightarrow> string \<Rightarrow> Cursor \<Rightarrow> string" where
  "cursorPayload endpoint fingerprint c =
     nul_join [cursorVersion, endpoint, fingerprint, show_int (curSentAtMS c), curID c]"

definition signCursor :: "DataKey \<Rightarrow> string \<Rightarrow> string \<Rightarrow> string" where
  "signCursor key mac payload = dkHmac key mac payload"

definition cursorKey :: "DataKey \<Rightarrow> string option" where
  "cursorKey key = dkDerive key InfoCursor"

definition EncodeCursor :: "DataKey \<Rightarrow> string \<Rightarrow> string \<Rightarrow> Cursor \<Rightarrow> cursor_error + string" where
  "EncodeCursor key endpoint fingerprint c =
     (case cursorKey key of
        None \<Rightarrow> Inl ErrDerive
      | Some mac \<Rightarrow>
          (let payload = cursorPayload endpoint fingerprint c
           in Inr (RawURLEncode payload @ ''.'' @ RawURLEncode (signCursor key mac payload))))"

text \<open>What follows a good signature.\<close>

definition read_payload :: "string \<Rightarrow> string \<Rightarrow> string \<Rightarrow> cursor_error + Cursor" where
  "read_payload endpoint fingerprint payload =
     (case go_split payload [CHR 0x00] of
        [v, e, f, t, i] \<Rightarrow>
          if v \<noteq> cursorVersion then Inl ErrCursorInvalid
          else (case ParseInt t of
                  None \<Rightarrow> Inl ErrCursorInvalid
                | Some sentAt \<Rightarrow>
                    if e \<noteq> endpoint \<or> f \<noteq> fingerprint then Inl ErrCursorFilterMismatch
                    else Inr \<lparr>curSentAtMS = sentAt, curID = i\<rparr>)
      | _ \<Rightarrow> Inl ErrCursorInvalid)"

definition DecodeCursor :: "DataKey \<Rightarrow> string \<Rightarrow> string \<Rightarrow> string \<Rightarrow> cursor_error + Cursor" where
  "DecodeCursor key endpoint fingerprint token =
     (case cursorKey key of
        None \<Rightarrow> Inl ErrDerive
      | Some mac \<Rightarrow>
          (case Cut CHR ''.'' token of
             None \<Rightarrow> Inl ErrCursorInvalid
           | Some (rawPayload, rawSig) \<Rightarrow>
               (case RawURLDecode rawPayload of
                  None \<Rightarrow> Inl ErrCursorInvalid
                | Some payload \<Rightarrow>
                    (case RawURLDecode rawSig of
                       None \<Rightarrow> Inl ErrCursorInvalid
                     | Some sig \<Rightarrow>
                         if sig \<noteq> signCursor key mac payload then Inl ErrCursorInvalid
                         else read_payload endpoint fingerprint payload))))"

section \<open>Round trip and binding\<close>

lemma go_split_payload:
  assumes "nul_free e" "nul_free f" "nul_free (curID c)"
  shows "go_split (cursorPayload e f c) [CHR 0x00] = [cursorVersion, e, f, show_int (curSentAtMS c), curID c]"
proof -
  have "CHR 0x00 \<notin> set (show_int (curSentAtMS c))"
    using show_int_chars [of "CHR 0x00" "curSentAtMS c"] by auto
  moreover have "CHR 0x00 \<notin> set cursorVersion" by (simp add: cursorVersion_def)
  ultimately show ?thesis
    using assms by (simp add: go_split_def cursorPayload_def split_acc_append split_acc_free nul_free_def)
qed

lemma read_payload_cursorPayload:
  assumes "nul_free e" "nul_free f" "nul_free (curID c)" "int64 (curSentAtMS c)"
  shows "read_payload e' f' (cursorPayload e f c) =
    (if e = e' \<and> f = f' then Inr c else Inl ErrCursorFilterMismatch)"
  using go_split_payload [OF assms(1-3)] ParseInt_show_int [OF assms(4)]
  by (simp add: read_payload_def)

lemma DecodeCursor_EncodeCursor:
  assumes "EncodeCursor key e f c = Inr tok"
  shows "DecodeCursor key e' f' tok = read_payload e' f' (cursorPayload e f c)"
proof -
  have "CHR ''.'' \<notin> set (RawURLEncode s)" for s using RawURLEncode_chars(2) by blast
  then have "Cut CHR ''.'' (RawURLEncode s @ ''.'' @ r) = Some (RawURLEncode s, r)" for s r
    by (simp add: Cut_append)
  with assms show ?thesis
    by (auto simp: EncodeCursor_def DecodeCursor_def Let_def RawURLDecode_Encode split: option.splits)
qed

text \<open>C33: A cursor minted for one endpoint, one filter set and one position decodes to that position
  when it is presented with the same endpoint and filters, and with any other endpoint or filters it is
  reported as issued for a different query, never as tampered with.\<close>

theorem cursor_roundtrip_and_binding:
  assumes "EncodeCursor key endpoint fp c = Inr tok"
    and "nul_free endpoint" "nul_free fp" "nul_free (curID c)" "int64 (curSentAtMS c)"
  shows "DecodeCursor key endpoint' fp' tok =
    (if endpoint' = endpoint \<and> fp' = fp then Inr c else Inl ErrCursorFilterMismatch)"
  using DecodeCursor_EncodeCursor [OF assms(1)] read_payload_cursorPayload [OF assms(2-)] by auto

text \<open>Nothing in a token is looked at before its signature. A token that yields a position, or that
  is reported as issued for another query, carries the signature of the very payload it is read from.\<close>

theorem cursor_signature_first:
  assumes "DecodeCursor key endpoint fp tok \<noteq> Inl ErrCursorInvalid" "cursorKey key = Some mac"
  shows "\<exists>rawPayload rawSig payload. tok = rawPayload @ ''.'' @ rawSig
    \<and> RawURLDecode rawPayload = Some payload \<and> RawURLDecode rawSig = Some (signCursor key mac payload)
    \<and> DecodeCursor key endpoint fp tok = read_payload endpoint fp payload"
proof -
  have cut: "Cut sep t = Some (a, b) \<Longrightarrow> t = a @ sep # b" for sep t a b
    by (induction t arbitrary: a b) (auto split: if_splits)
  from assms obtain a b p where "Cut CHR ''.'' tok = Some (a, b)" "RawURLDecode a = Some p"
      "RawURLDecode b = Some (signCursor key mac p)"
      "DecodeCursor key endpoint fp tok = read_payload endpoint fp p"
    by (auto simp: DecodeCursor_def split: option.splits if_splits)
  with cut [of "CHR ''.''" tok a b] show ?thesis by auto
qed

text \<open>The decoder ignores line breaks and left-over bits, so a token is not the only spelling of its
  cursor: one with a line break added still verifies.\<close>

lemma respelled_cursor_accepted:
  assumes "EncodeCursor key e f c = Inr tok"
  shows "DecodeCursor key e f (CHR 0x0A # tok) = DecodeCursor key e f tok"
proof -
  have "CHR ''.'' \<notin> set (RawURLEncode s)" for s using RawURLEncode_chars(2) by blast
  then have "Cut CHR ''.'' (RawURLEncode s @ ''.'' @ r) = Some (RawURLEncode s, r)" for s r
    by (simp add: Cut_append)
  moreover have "RawURLDecode (CHR 0x0A # t) = RawURLDecode t" for t by (simp add: RawURLDecode_def)
  ultimately show ?thesis
    using assms by (auto simp: EncodeCursor_def DecodeCursor_def Let_def split: option.splits)
qed

section \<open>The fingerprint\<close>

lemma frames_inject:
  "length vs = length ws \<Longrightarrow>
   concat (map writeLenPrefixed vs) @ r = concat (map writeLenPrefixed ws) @ s \<Longrightarrow> vs = ws \<and> r = s"
proof (induction vs ws rule: list_induct2)
  case (Cons v vs w ws)
  from Cons.prems have "v = w \<and> concat (map writeLenPrefixed vs) @ r = concat (map writeLenPrefixed ws) @ s"
    using writeLenPrefixed_inject [of v _ w] by simp
  with Cons.IH show ?case by simp
qed simp

lemma filter_frame_inject:
  assumes "filter_frame kv @ r = filter_frame kw @ s"
  shows "kv = kw \<and> r = s"
proof -
  from assms writeLenPrefixed_inject [of "fst kv" _ "fst kw"]
  have k: "fst kv = fst kw" "show_nat (length (snd kv)) @ CHR 0x0A # (concat (map writeLenPrefixed (snd kv)) @ r) =
      show_nat (length (snd kw)) @ CHR 0x0A # (concat (map writeLenPrefixed (snd kw)) @ s)"
    by (simp_all add: filter_frame_def)
  moreover have "\<not> dec_digit CHR 0x0A" by (simp add: dec_digit_def)
  ultimately have "length (snd kv) = length (snd kw) \<and>
      concat (map writeLenPrefixed (snd kv)) @ r = concat (map writeLenPrefixed (snd kw)) @ s"
    by (intro digits_until)
  then have "snd kv = snd kw \<and> r = s" using frames_inject by blast
  with k(1) show ?thesis by (simp add: prod_eq_iff)
qed

lemma filter_frame_nonempty [simp]: "filter_frame kv \<noteq> []"
  by (simp add: filter_frame_def writeLenPrefixed_def)

lemma filter_frames_inject:
  "concat (map filter_frame ps) = concat (map filter_frame qs) \<Longrightarrow> ps = qs"
proof (induction ps arbitrary: qs)
  case Nil
  then show ?case by (cases qs) auto
next
  case (Cons p ps)
  then obtain q qs' where qs: "qs = q # qs'" by (cases qs) auto
  with Cons.prems filter_frame_inject [of p _ q] Cons.IH show ?case by simp
qed

lemma sorted_params_eq_iff:
  assumes "distinct (map fst ps)" "distinct (map fst qs)"
  shows "sort_key fst ps = sort_key fst qs \<longleftrightarrow> map_of ps = map_of qs"
proof
  assume "sort_key fst ps = sort_key fst qs"
  then have "set ps = set qs" by (metis set_sort)
  then show "map_of ps = map_of qs" using assms map_of_inject_set by blast
next
  assume "map_of ps = map_of qs"
  then have s: "set ps = set qs" using assms map_of_inject_set by blast
  have "map fst (sort_key fst ps) = map fst (sort_key fst qs)"
    using assms s by (intro sorted_distinct_set_unique) (auto simp: distinct_map)
  then show "sort_key fst ps = sort_key fst qs"
    using s assms(1) by (intro map_inj_on [of fst]) (auto simp: distinct_map)
qed

text \<open>A fingerprint identifies the filter set exactly as written. As long as the hash does not
  collide on the two framed texts, two filter sets have the same fingerprint exactly when every parameter
  is present in both with the same values, or absent from both; a parameter present with any value
  differs from its absence.\<close>

theorem FilterFingerprint_identifies_filters:
  assumes "distinct (map fst ps)" "distinct (map fst qs)"
    and "sha (filter_text ps) = sha (filter_text qs) \<Longrightarrow> filter_text ps = filter_text qs"
  shows "FilterFingerprint sha ps = FilterFingerprint sha qs \<longleftrightarrow> map_of ps = map_of qs"
proof -
  have enc: "RawURLEncode a = RawURLEncode b \<longleftrightarrow> a = b" for a b
    by (metis RawURLDecode_Encode option.inject)
  have "sha (filter_text ps) = sha (filter_text qs) \<longleftrightarrow> sort_key fst ps = sort_key fst qs"
    using assms(3) filter_frames_inject [of "sort_key fst ps" "sort_key fst qs"] by (auto simp: filter_text_def)
  then show ?thesis by (simp add: FilterFingerprint_def enc sorted_params_eq_iff [OF assms(1,2)])
qed

section \<open>Instances\<close>

definition sample_key :: DataKey where
  "sample_key = \<lparr>dkDerive = (\<lambda>info. Some (''k'' @ info)), dkHmac = (\<lambda>mac p. mac @ p)\<rparr>"

theorem cursor_roundtrip_and_binding_witness:
  "\<exists>tok. EncodeCursor sample_key ''messages.list'' ''fp'' \<lparr>curSentAtMS = 1700000000000, curID = ''msg_1''\<rparr> = Inr tok
     \<and> DecodeCursor sample_key ''messages.list'' ''fp'' tok = Inr \<lparr>curSentAtMS = 1700000000000, curID = ''msg_1''\<rparr>
     \<and> DecodeCursor sample_key ''messages.list'' ''other'' tok = Inl ErrCursorFilterMismatch"
proof -
  obtain tok where tok:
    "EncodeCursor sample_key ''messages.list'' ''fp'' \<lparr>curSentAtMS = 1700000000000, curID = ''msg_1''\<rparr> = Inr tok"
    by (simp add: EncodeCursor_def Let_def cursorKey_def sample_key_def)
  then show ?thesis
    using cursor_roundtrip_and_binding [OF tok, of "''messages.list''" "''fp''"]
      cursor_roundtrip_and_binding [OF tok, of "''messages.list''" "''other''"]
    by (simp add: nul_free_def int64_def)
qed

theorem cursor_signature_first_witness:
  "\<exists>tok rawPayload rawSig payload. tok = rawPayload @ ''.'' @ rawSig
     \<and> RawURLDecode rawSig = Some (signCursor sample_key (''k'' @ InfoCursor) payload)
     \<and> DecodeCursor sample_key ''e'' ''f'' tok = Inr \<lparr>curSentAtMS = 1, curID = ''a''\<rparr>"
proof -
  obtain tok where tok: "EncodeCursor sample_key ''e'' ''f'' \<lparr>curSentAtMS = 1, curID = ''a''\<rparr> = Inr tok"
    by (simp add: EncodeCursor_def Let_def cursorKey_def sample_key_def)
  have d: "DecodeCursor sample_key ''e'' ''f'' tok = Inr \<lparr>curSentAtMS = 1, curID = ''a''\<rparr>"
    using DecodeCursor_EncodeCursor [OF tok] read_payload_cursorPayload [of "''e''" "''f''"]
    by (simp add: nul_free_def int64_def)
  then show ?thesis
    using cursor_signature_first [of sample_key "''e''" "''f''" tok "''k'' @ InfoCursor"]
    by (force simp: cursorKey_def sample_key_def)
qed

theorem FilterFingerprint_identifies_filters_witness:
  "FilterFingerprint (\<lambda>t. t) [(''folder'', [''active''])] \<noteq> FilterFingerprint (\<lambda>t. t) []
   \<and> FilterFingerprint (\<lambda>t. t) [(''b'', [''1'']), (''a'', [''2''])] = FilterFingerprint (\<lambda>t. t) [(''a'', [''2'']), (''b'', [''1''])]"
  using FilterFingerprint_identifies_filters [of "[(''folder'', [''active''])]" "[]" "\<lambda>t. t"]
    FilterFingerprint_identifies_filters [of "[(''b'', [''1'']), (''a'', [''2''])]" "[(''a'', [''2'']), (''b'', [''1''])]" "\<lambda>t. t"]
  by (simp add: fun_upd_twist)

end
