(* ===== verification/Contacts.thy ===== *)
theory Contacts
  imports Messages
begin

text \<open>
  The contact tables (\<open>internal/store/contacts.go\<close>): one row per contact of one account, and
  the links from a conversation's participants to them. What is shown: after a relink every
  participant of the account points at exactly the contact that has its source id in the same account.
\<close>

section \<open>Operations\<close>

record gm_Contact =
  gkSourceID :: string
  gkContactID :: string
  gkDisplayName :: string
  gkPhoneE164 :: string
  gkFormattedNumber :: string
  gkIsTop :: bool

record Contact =
  cnID :: string
  cnAccountID :: string
  cnSourceID :: string
  cnDisplayName :: string
  cnPhoneE164 :: string
  cnAvatarHash :: string
  cnIsTop :: bool
  cnUpdatedAtMS :: ms

datatype contact_error = ErrContactNotFound

definition scanContact :: "contact_row \<Rightarrow> Contact" where
  "scanContact r =
     \<lparr>cnID = ctID r, cnAccountID = ctAccountID r, cnSourceID = ctSourceID r,
      cnDisplayName = scanString (ctDisplayName r), cnPhoneE164 = scanString (ctPhoneE164 r),
      cnAvatarHash = scanString (ctAvatarHash r), cnIsTop = ctIsTop r, cnUpdatedAtMS = ctUpdatedAtMS r\<rparr>"

definition merge_contact :: "contact_row \<Rightarrow> contact_row \<Rightarrow> contact_row" where
  "merge_contact ex r =
     r\<lparr>ctDisplayName := ctDisplayName ex, ctPhoneE164 := ctPhoneE164 ex,
       ctAvatarHash := coalesce (ctAvatarHash ex) (ctAvatarHash r), ctIsTop := ctIsTop ex,
       ctUpdatedAtMS := ctUpdatedAtMS ex\<rparr>"

definition new_contact :: "(string \<Rightarrow> string) \<Rightarrow> ms \<Rightarrow> string \<Rightarrow> gm_Contact \<Rightarrow> string \<Rightarrow> contact_row" where
  "new_contact uuid5 now accountID c avatarHash =
     \<lparr>ctID = ContactID uuid5 accountID (gkSourceID c), ctAccountID = accountID, ctSourceID = gkSourceID c,
      ctDisplayName = nullString (gkDisplayName c), ctPhoneE164 = nullString (gkPhoneE164 c),
      ctAvatarHash = nullString avatarHash, ctIsTop = gkIsTop c, ctUpdatedAtMS = now\<rparr>"

definition UpsertContact ::
  "(string \<Rightarrow> string) \<Rightarrow> ms \<Rightarrow> string \<Rightarrow> gm_Contact \<Rightarrow> string \<Rightarrow> db \<Rightarrow> write_error + (string \<times> db)" where
  "UpsertContact uuid5 now accountID c avatarHash d =
     (let i = ContactID uuid5 accountID (gkSourceID c);
          ex = new_contact uuid5 now accountID c avatarHash
      in if \<exists>r \<in> set (dbContacts d). ctID r = i
         then Inr (i, d\<lparr>dbContacts := update_where (\<lambda>r. ctID r = i) (merge_contact ex) (dbContacts d)\<rparr>)
         else if \<exists>r \<in> set (dbContacts d). ctAccountID r = accountID \<and> ctSourceID r = gkSourceID c
         then Inl (Constraint UniqueViolation)
         else if accountID \<notin> set (dbAccounts d) then Inl (Constraint ForeignKeyViolation)
         else Inr (i, d\<lparr>dbContacts := dbContacts d @ [ex]\<rparr>))"

definition ContactByID :: "string \<Rightarrow> db \<Rightarrow> contact_error + Contact" where
  "ContactByID i d =
     (case select_one (\<lambda>r. ctID r = i) (dbContacts d) of
        None \<Rightarrow> Inl ErrContactNotFound | Some r \<Rightarrow> Inr (scanContact r))"

definition UpsertParticipants ::
  "(string \<Rightarrow> string) \<Rightarrow> string \<Rightarrow> string \<Rightarrow> Participant list \<Rightarrow> db \<Rightarrow> write_error + db" where
  "UpsertParticipants uuid5 accountID conversationID ps d =
     (case insert_participants uuid5 accountID conversationID ps
             (delete_where (\<lambda>r. prConversationID r = conversationID) (dbParticipants d)) of
        Inl e \<Rightarrow> Inl e
      | Inr parts \<Rightarrow>
          Inr (d\<lparr>dbParticipants := linkParticipantContacts accountID conversationID (dbContacts d) parts\<rparr>))"

definition RelinkAccountContacts :: "string \<Rightarrow> db \<Rightarrow> db" where
  "RelinkAccountContacts accountID d =
     d\<lparr>dbParticipants := update_where (\<lambda>r. prAccountID r = accountID)
         (\<lambda>r. r\<lparr>prContactID := map_option ctID
            (select_one (\<lambda>c. ctAccountID c = prAccountID r \<and> ctSourceID c = prSourceID r) (dbContacts d))\<rparr>)
         (dbParticipants d)\<rparr>"

section \<open>Lookups\<close>

lemma scanContact_simps [simp]:
  "cnID (scanContact r) = ctID r" "cnPhoneE164 (scanContact r) = scanString (ctPhoneE164 r)"
  "cnUpdatedAtMS (scanContact r) = ctUpdatedAtMS r"
  by (simp_all add: scanContact_def)

lemma merge_contact_keys [simp]:
  "ctID (merge_contact ex r) = ctID r" "ctAccountID (merge_contact ex r) = ctAccountID r"
  "ctSourceID (merge_contact ex r) = ctSourceID r"
  "ctPhoneE164 (merge_contact ex r) = ctPhoneE164 ex"
  by (simp_all add: merge_contact_def)

interpretation merge_upd: keyed_update ctID "merge_contact ex" for ex
  by unfold_locales simp

text \<open>What an upsert stores is what a read returns.\<close>

lemma UpsertContact_lookup:
  assumes "UpsertContact uuid5 now acct c h d = Inr (i, d')"
  shows "\<exists>k. ContactByID i d' = Inr k \<and> cnID k = i \<and> cnPhoneE164 k = gkPhoneE164 c"
proof -
  let ?i = "ContactID uuid5 acct (gkSourceID c)" and ?ex = "new_contact uuid5 now acct c h"
  have ex: "ctID ?ex = ?i" "ctPhoneE164 ?ex = nullString (gkPhoneE164 c)" by (simp_all add: new_contact_def)
  show ?thesis
  proof (cases "select_one (\<lambda>r. ctID r = ?i) (dbContacts d)")
    case (Some r)
    then have "\<exists>r \<in> set (dbContacts d). ctID r = ?i" by (auto dest: select_one_SomeD)
    with assms have upd: "i = ?i" "dbContacts d' = update_where (\<lambda>r. ctID r = ?i) (merge_contact ?ex) (dbContacts d)"
      by (auto simp: UpsertContact_def Let_def)
    show ?thesis
      using select_one_SomeD [OF Some] Some
      by (simp add: ContactByID_def upd ex merge_upd.select_key_same)
  next
    case None
    then have "\<not> (\<exists>r \<in> set (dbContacts d). ctID r = ?i)" by (auto simp: select_one_None_iff)
    with assms have app: "i = ?i" "dbContacts d' = dbContacts d @ [?ex]"
      by (auto simp: UpsertContact_def Let_def split: if_splits)
    show ?thesis using None by (simp add: ContactByID_def app ex select_one_append)
  qed
qed

text \<open>After a relink the links of the account are exact.\<close>

lemma RelinkAccountContacts_exact:
  assumes "p \<in> set (dbParticipants (RelinkAccountContacts acct d))" "prAccountID p = acct"
    and "distinct (map (\<lambda>c. (ctAccountID c, ctSourceID c)) (dbContacts d))"
  shows "prContactID p = Some i \<longleftrightarrow>
    (\<exists>c \<in> set (dbContacts d). ctID c = i \<and> ctAccountID c = acct \<and> ctSourceID c = prSourceID p)"
proof -
  let ?sel = "select_one (\<lambda>c. ctAccountID c = acct \<and> ctSourceID c = prSourceID p) (dbContacts d)"
  from assms(1,2) obtain x where "p = x\<lparr>prContactID := map_option ctID
      (select_one (\<lambda>c. ctAccountID c = acct \<and> ctSourceID c = prSourceID x) (dbContacts d))\<rparr>"
    by (auto simp: RelinkAccountContacts_def set_update_where split: if_splits)
  then have p: "prContactID p = map_option ctID ?sel" by (metis part_row.select_convs(4,5) part_row.update_convs(5) part_row.surjective)
  show ?thesis
  proof
    assume "prContactID p = Some i"
    then have "map_option ctID ?sel = Some i" using p by simp
    then show "\<exists>c \<in> set (dbContacts d). ctID c = i \<and> ctAccountID c = acct \<and> ctSourceID c = prSourceID p"
      by (auto dest!: select_one_SomeD)
  next
    assume "\<exists>c \<in> set (dbContacts d). ctID c = i \<and> ctAccountID c = acct \<and> ctSourceID c = prSourceID p"
    then obtain c where c: "c \<in> set (dbContacts d)" "ctID c = i" "ctAccountID c = acct" "ctSourceID c = prSourceID p"
      by blast
    with select_key_unique [OF assms(3) c(1)] have "?sel = Some c" by simp
    with p c(2) show "prContactID p = Some i" by simp
  qed
qed

end
