(* ===== verification/Listing.thy ===== *)
theory Listing
  imports Keyset Cursor Contacts
begin

text \<open>
  The listings of \<open>internal/store/queries.go\<close>. A query's \<open>WHERE\<close> clause is a predicate
  on rows, \<open>ORDER BY ts DESC, id DESC LIMIT n\<close> is \<^const>\<open>page_desc\<close>; SQLite compares
  TEXT keys byte by byte, which is the order of \<^typ>\<open>string\<close> here. A comparison with
  \<open>NULL\<close> is not true. \<open>LIKE\<close> is SQLite's: ASCII letters match without case.
\<close>

section \<open>Limits\<close>

abbreviation DefaultLimit :: int where "DefaultLimit \<equiv> 50"
abbreviation MaxLimit :: int where "MaxLimit \<equiv> 100"

definition clampLimit :: "int \<Rightarrow> int" where
  "clampLimit n = (if n \<le> 0 then DefaultLimit else if n > MaxLimit then MaxLimit else n)"

definition clampContext :: "int \<Rightarrow> int" where
  "clampContext n = (if n \<le> 0 then 5 else if n > MaxLimit then MaxLimit else n)"

section \<open>Text patterns\<close>

datatype like_token = LikeAny | LikeOne | LikeChar char

fun like_tokens :: "char option \<Rightarrow> string \<Rightarrow> like_token list option" where
  "like_tokens esc [] = Some []"
| "like_tokens esc (c # p) =
     (if esc = Some c
      then (case p of [] \<Rightarrow> None | c' # p' \<Rightarrow> map_option (Cons (LikeChar c')) (like_tokens esc p'))
      else map_option (Cons (if c = CHR ''%'' then LikeAny else if c = CHR ''_'' then LikeOne else LikeChar c))
             (like_tokens esc p))"

fun like_match :: "like_token list \<Rightarrow> string \<Rightarrow> bool" where
  "like_match [] s \<longleftrightarrow> s = []"
| "like_match (LikeAny # ts) [] \<longleftrightarrow> like_match ts []"
| "like_match (LikeAny # ts) (c # s) \<longleftrightarrow> like_match ts (c # s) \<or> like_match (LikeAny # ts) s"
| "like_match (LikeOne # ts) [] \<longleftrightarrow> False"
| "like_match (LikeOne # ts) (c # s) \<longleftrightarrow> like_match ts s"
| "like_match (LikeChar k # ts) [] \<longleftrightarrow> False"
| "like_match (LikeChar k # ts) (c # s) \<longleftrightarrow> lower_char k = lower_char c \<and> like_match ts s"

definition like :: "char option \<Rightarrow> string \<Rightarrow> string option \<Rightarrow> bool" where
  "like esc pattern v =
     (case v of None \<Rightarrow> False
      | Some s \<Rightarrow> (case like_tokens esc pattern of None \<Rightarrow> False | Some ts \<Rightarrow> like_match ts s))"

abbreviation backslash :: char where "backslash \<equiv> CHR 0x5C"

definition like_escape :: "char \<Rightarrow> string" where
  "like_escape c = (if c = backslash \<or> c = CHR ''%'' \<or> c = CHR ''_'' then [backslash, c] else [c])"

definition likeContains :: "string \<Rightarrow> string" where
  "likeContains s = ''%'' @ concat (map like_escape s) @ ''%''"

text \<open>The bytes of a rune other than a digit are never digits, so filtering bytes is filtering runes.\<close>

definition PhoneMatch :: "string \<Rightarrow> string \<times> string" where
  "PhoneMatch raw =
     (let digits = filter dec_digit raw in
      if length digits < 7 then (raw, [])
      else (raw, if length digits > 10 then drop (length digits - 10) digits else digits))"

definition phone_matches :: "string \<Rightarrow> string option \<Rightarrow> bool" where
  "phone_matches raw phone =
     (let (exact, suffix) = PhoneMatch raw
      in phone = Some exact \<or> (suffix \<noteq> [] \<and> like None (CHR ''%'' # suffix) phone))"

section \<open>Wire names of the filter values\<close>

fun DeliveryState_name :: "DeliveryState \<Rightarrow> string" where
  "DeliveryState_name DeliveryStateSending = ''sending''"
| "DeliveryState_name DeliveryStateSent = ''sent''"
| "DeliveryState_name DeliveryStateDelivered = ''delivered''"
| "DeliveryState_name DeliveryStateRead = ''read''"
| "DeliveryState_name DeliveryStateFailed = ''failed''"
| "DeliveryState_name DeliveryStateCanceled = ''canceled''"
| "DeliveryState_name DeliveryStateDeleted = ''deleted''"
| "DeliveryState_name DeliveryStateReceived = ''received''"
| "DeliveryState_name DeliveryStateDownloading = ''downloading''"
| "DeliveryState_name DeliveryStateDownloadFailed = ''download_failed''"
| "DeliveryState_name DeliveryStateUnknown = ''unknown''"

fun Direction_name :: "Direction \<Rightarrow> string" where
  "Direction_name DirectionIncoming = ''incoming''"
| "Direction_name DirectionOutgoing = ''outgoing''"

fun ConversationType_name :: "ConversationType \<Rightarrow> string" where
  "ConversationType_name ConversationTypeUnknown = ''unknown''"
| "ConversationType_name ConversationTypeSMSMMS = ''sms_mms''"
| "ConversationType_name ConversationTypeRCS = ''rcs''"

section \<open>Conversations\<close>

record ConversationQuery =
  cqAccountID :: string
  cqAllAccounts :: bool
  cqQuery :: string
  cqParticipantPhone :: string
  cqParticipantID :: string
  cqFolder :: string
  cqType :: string
  cqUnreadOnly :: bool
  cqGroupOnly :: "bool option"
  cqPinnedOnly :: bool
  cqAfterMS :: "int option"
  cqBeforeMS :: "int option"
  cqIncludeDeleted :: bool
  cqCursor :: "Cursor option"
  cqLimit :: int

datatype query_error = ErrNoAccountPredicate

definition cursor_key :: "Cursor \<Rightarrow> int \<times> string" where
  "cursor_key c = (curSentAtMS c, curID c)"

definition conversation_text :: "ConversationQuery \<Rightarrow> db \<Rightarrow> conv_row \<Rightarrow> bool" where
  "conversation_text q d c =
     (let pattern = likeContains (cqQuery q) in
      like (Some backslash) pattern (crName c) \<or>
      (\<exists>p \<in> set (dbParticipants d). prConversationID p = crID c \<and>
         (like (Some backslash) pattern (prDisplayName p) \<or> like (Some backslash) pattern (prPhoneE164 p)
          \<or> like (Some backslash) pattern (prFormattedNumber p))))"

definition conversation_participant :: "ConversationQuery \<Rightarrow> db \<Rightarrow> conv_row \<Rightarrow> bool" where
  "conversation_participant q d c =
     (if cqParticipantID q \<noteq> []
      then \<exists>p \<in> set (dbParticipants d). prConversationID p = crID c \<and> prID p = cqParticipantID q
      else if cqParticipantPhone q \<noteq> []
      then \<exists>p \<in> set (dbParticipants d). (cqAccountID q \<noteq> [] \<longrightarrow> prAccountID p = cqAccountID q) \<and>
             prConversationID p = crID c \<and> phone_matches (cqParticipantPhone q) (prPhoneE164 p)
      else True)"

definition conversation_where :: "ConversationQuery \<Rightarrow> db \<Rightarrow> conv_row \<Rightarrow> bool" where
  "conversation_where q d c \<longleftrightarrow>
     (cqAccountID q \<noteq> [] \<longrightarrow> crAccountID c = cqAccountID q) \<and>
     (cqIncludeDeleted q \<or> crDeletedAtMS c = None) \<and>
     (cqFolder q \<noteq> [] \<longrightarrow> crFolder c = cqFolder q) \<and>
     (cqType q \<noteq> [] \<longrightarrow> ConversationType_name (crType c) = cqType q) \<and>
     (cqUnreadOnly q \<longrightarrow> crUnread c) \<and>
     (case cqGroupOnly q of None \<Rightarrow> True | Some g \<Rightarrow> crIsGroup c = g) \<and>
     (cqPinnedOnly q \<longrightarrow> crPinned c) \<and>
     (case cqAfterMS q of None \<Rightarrow> True | Some a \<Rightarrow> a \<le> crLastActivityMS c) \<and>
     (case cqBeforeMS q of None \<Rightarrow> True | Some b \<Rightarrow> crLastActivityMS c \<le> b) \<and>
     (cqQuery q \<noteq> [] \<longrightarrow> conversation_text q d c) \<and>
     conversation_participant q d c"

definition conversation_pos :: "conv_row \<Rightarrow> int \<times> string" where
  "conversation_pos c = (crLastActivityMS c, crID c)"

definition ListConversations :: "ConversationQuery \<Rightarrow> db \<Rightarrow> query_error + conv_row list" where
  "ListConversations q d =
     (if cqAccountID q = [] \<and> \<not> cqAllAccounts q then Inl ErrNoAccountPredicate
      else Inr (page_desc conversation_pos (map_option cursor_key (cqCursor q)) (nat (clampLimit (cqLimit q)))
             (filter (conversation_where q d) (dbConversations d))))"

section \<open>Messages\<close>

record MessageQuery =
  mqAccountID :: string
  mqAllAccounts :: bool
  mqConversationID :: string
  mqDirection :: string
  mqSenderMe :: bool
  mqSenderParticipantID :: string
  mqSenderPhone :: string
  mqAfterMS :: int
  mqBeforeMS :: int
  mqHasAttachment :: "bool option"
  mqDeliveryState :: string
  mqIncludeSystem :: bool
  mqCursor :: "Cursor option"
  mqLimit :: int

definition message_sender :: "MessageQuery \<Rightarrow> db \<Rightarrow> msg_row \<Rightarrow> bool" where
  "message_sender q d m =
     (let sent_by = (\<lambda>P. \<exists>p \<in> set (dbParticipants d).
            (mqAccountID q \<noteq> [] \<longrightarrow> prAccountID p = mqAccountID q) \<and> P p \<and> mrSender m = Some (prID p))
      in if mqSenderParticipantID q \<noteq> [] then mrSender m = Some (mqSenderParticipantID q)
         else if mqSenderMe q then sent_by prIsMe
         else if mqSenderPhone q \<noteq> [] then sent_by (\<lambda>p. phone_matches (mqSenderPhone q) (prPhoneE164 p))
         else True)"

definition message_where :: "MessageQuery \<Rightarrow> db \<Rightarrow> msg_row \<Rightarrow> bool" where
  "message_where q d m \<longleftrightarrow>
     (mqAccountID q \<noteq> [] \<longrightarrow> mrAccountID m = mqAccountID q) \<and>
     (mqConversationID q \<noteq> [] \<longrightarrow> mrConversationID m = mqConversationID q) \<and>
     (mqIncludeSystem q \<or> mrKind m \<noteq> MessageKindSystem) \<and>
     (mqDirection q \<noteq> [] \<longrightarrow> Direction_name (mrDirection m) = mqDirection q) \<and>
     (mqDeliveryState q \<noteq> [] \<longrightarrow> DeliveryState_name (mrState m) = mqDeliveryState q) \<and>
     message_sender q d m \<and>
     (0 < mqAfterMS q \<longrightarrow> mqAfterMS q \<le> mrSentAtMS m) \<and>
     (0 < mqBeforeMS q \<longrightarrow> mrSentAtMS m \<le> mqBeforeMS q) \<and>
     (case mqHasAttachment q of
        None \<Rightarrow> True
      | Some b \<Rightarrow> b = (\<exists>a \<in> set (dbAttachments d). arMessageID a = mrID m))"

definition message_pos :: "msg_row \<Rightarrow> int \<times> string" where
  "message_pos m = (mrSentAtMS m, mrID m)"

definition ListMessages :: "MessageQuery \<Rightarrow> db \<Rightarrow> query_error + msg_row list" where
  "ListMessages q d =
     (if mqAccountID q = [] \<and> mqConversationID q = [] \<and> \<not> mqAllAccounts q then Inl ErrNoAccountPredicate
      else Inr (page_desc message_pos (map_option cursor_key (mqCursor q)) (nat (clampLimit (mqLimit q)))
             (filter (message_where q d) (dbMessages d))))"

record MessageContext =
  mcBefore :: "msg_row list"
  mcMessage :: msg_row
  mcAfter :: "msg_row list"

text \<open>\<open>None\<close> is \<open>sql.ErrNoRows\<close> for the message itself.\<close>

definition MessageContextAround :: "string \<Rightarrow> int \<Rightarrow> int \<Rightarrow> bool \<Rightarrow> db \<Rightarrow> MessageContext option" where
  "MessageContextAround messageID before after includeSystem d =
     (case select_one (\<lambda>r. mrID r = messageID) (dbMessages d) of
        None \<Rightarrow> None
      | Some m \<Rightarrow>
          (let near = filter (\<lambda>r. mrConversationID r = mrConversationID m \<and>
                        (includeSystem \<or> mrKind r \<noteq> MessageKindSystem)) (dbMessages d)
           in Some \<lparr>mcBefore = page_desc message_pos (Some (message_pos m)) (nat (clampContext before)) near,
                    mcMessage = m,
                    mcAfter = take (nat (clampContext after))
                      (sort_key message_pos (filter (\<lambda>r. message_pos m < message_pos r) near))\<rparr>))"

section \<open>Contacts\<close>

record ContactQuery =
  kqAccountID :: string
  kqAllAccounts :: bool
  kqQuery :: string
  kqTop :: bool
  kqCursor :: "Cursor option"
  kqLimit :: int

definition contact_where :: "ContactQuery \<Rightarrow> contact_row \<Rightarrow> bool" where
  "contact_where q c \<longleftrightarrow>
     (kqAccountID q \<noteq> [] \<longrightarrow> ctAccountID c = kqAccountID q) \<and>
     (kqTop q \<longrightarrow> ctIsTop c) \<and>
     (kqQuery q \<noteq> [] \<longrightarrow> like (Some backslash) (likeContains (kqQuery q)) (ctDisplayName c) \<or>
        like (Some backslash) (likeContains (kqQuery q)) (ctPhoneE164 c))"

definition contact_pos :: "contact_row \<Rightarrow> int \<times> string" where
  "contact_pos c = (ctUpdatedAtMS c, ctID c)"

definition ListContacts :: "ContactQuery \<Rightarrow> db \<Rightarrow> query_error + contact_row list" where
  "ListContacts q d =
     (if kqAccountID q = [] \<and> \<not> kqAllAccounts q then Inl ErrNoAccountPredicate
      else Inr (page_desc contact_pos (map_option cursor_key (kqCursor q)) (nat (clampLimit (kqLimit q)))
             (filter (contact_where q) (dbContacts d))))"

definition ResolveParticipant :: "(string \<Rightarrow> bool) \<Rightarrow> string \<Rightarrow> db \<Rightarrow> contact_error + (string \<times> string)" where
  "ResolveParticipant uuid_parses raw d =
     (if HasPrefix uuid_parses raw PrefixParticipant then Inr (raw, [])
      else if HasPrefix uuid_parses raw PrefixContact
      then (case ContactByID raw d of Inl e \<Rightarrow> Inl e | Inr c \<Rightarrow> Inr ([], cnPhoneE164 c))
      else Inr ([], raw))"

section \<open>Bounds\<close>

lemma clampLimit_bounds: "1 \<le> clampLimit n \<and> clampLimit n \<le> MaxLimit"
  by (simp add: clampLimit_def)

lemma clampLimit_id: "0 < n \<Longrightarrow> n \<le> MaxLimit \<Longrightarrow> clampLimit n = n"
  by (simp add: clampLimit_def)

section \<open>The pattern of a caller's text is a literal\<close>

lemma tokens_literal:
  "like_tokens (Some backslash) (concat (map like_escape s) @ p) =
     map_option (\<lambda>ts. map LikeChar s @ ts) (like_tokens (Some backslash) p)"
  by (induction s) (auto simp: like_escape_def option.map_comp comp_def option.map_ident)

lemma match_literal_any:
  "like_match (map LikeChar s @ [LikeAny]) t \<longleftrightarrow> (\<exists>b. map lower_char t = map lower_char s @ b)"
proof (induction s arbitrary: t)
  case Nil
  have "like_match [LikeAny] t" by (induction t) auto
  then show ?case by simp
next
  case (Cons c s)
  then show ?case by (cases t) auto
qed

lemma like_contains:
  "like (Some backslash) (likeContains s) (Some t) \<longleftrightarrow>
     (\<exists>a b. map lower_char t = a @ map lower_char s @ b)"
proof -
  have "like_match (LikeAny # ts) u \<longleftrightarrow> (\<exists>v w. u = v @ w \<and> like_match ts w)" for ts u
  proof (induction u)
    case (Cons c u)
    have "(\<exists>v w. c # u = v @ w \<and> like_match ts w) \<longleftrightarrow> like_match ts (c # u) \<or> (\<exists>v w. u = v @ w \<and> like_match ts w)"
      by (metis append_Cons append_Nil list.exhaust list.inject)
    with Cons show ?case by simp
  qed simp
  then have "like (Some backslash) (likeContains s) (Some t) \<longleftrightarrow>
      (\<exists>v w b. t = v @ w \<and> map lower_char w = map lower_char s @ b)"
    by (simp add: like_def likeContains_def tokens_literal match_literal_any)
  also have "\<dots> \<longleftrightarrow> (\<exists>a b. map lower_char t = a @ map lower_char s @ b)"
    by (metis append_eq_map_conv map_append)
  finally show ?thesis .
qed

section \<open>Listings keep the laws of keyset pages\<close>

lemma distinct_pos: "distinct (map k rows) \<Longrightarrow> distinct (map (\<lambda>r. (f r, k r)) (filter P rows))"
  by (induction rows) auto

definition of_key :: "int \<times> string \<Rightarrow> Cursor" where
  "of_key k = \<lparr>curSentAtMS = fst k, curID = snd k\<rparr>"

lemma cursor_key_of_key [simp]: "cursor_key (of_key k) = k" "map_option cursor_key (map_option of_key c) = c"
  by (cases c; simp add: cursor_key_def of_key_def)+

definition rows_of :: "query_error + 'r list \<Rightarrow> 'r list" where
  "rows_of res = (case res of Inl e \<Rightarrow> [] | Inr rs \<Rightarrow> rs)"

definition message_page :: "MessageQuery \<times> db \<Rightarrow> (int \<times> string) option \<Rightarrow> nat \<Rightarrow> msg_row list" where
  "message_page qd c n = rows_of (ListMessages ((fst qd)\<lparr>mqCursor := map_option of_key c, mqLimit := int n\<rparr>) (snd qd))"

definition messages_matching :: "MessageQuery \<times> db \<Rightarrow> msg_row list" where
  "messages_matching qd = filter (message_where (fst qd) (snd qd)) (dbMessages (snd qd))"

definition messages_ok :: "MessageQuery \<times> db \<Rightarrow> bool" where
  "messages_ok qd \<longleftrightarrow> distinct (map mrID (dbMessages (snd qd)))
     \<and> (mqAccountID (fst qd) \<noteq> [] \<or> mqConversationID (fst qd) \<noteq> [] \<or> mqAllAccounts (fst qd))"

definition conversation_page :: "ConversationQuery \<times> db \<Rightarrow> (int \<times> string) option \<Rightarrow> nat \<Rightarrow> conv_row list" where
  "conversation_page qd c n =
     rows_of (ListConversations ((fst qd)\<lparr>cqCursor := map_option of_key c, cqLimit := int n\<rparr>) (snd qd))"

definition conversations_matching :: "ConversationQuery \<times> db \<Rightarrow> conv_row list" where
  "conversations_matching qd = filter (conversation_where (fst qd) (snd qd)) (dbConversations (snd qd))"

definition conversations_ok :: "ConversationQuery \<times> db \<Rightarrow> bool" where
  "conversations_ok qd \<longleftrightarrow> distinct (map crID (dbConversations (snd qd)))
     \<and> (cqAccountID (fst qd) \<noteq> [] \<or> cqAllAccounts (fst qd))"

lemma message_where_page [simp]: "message_where (q\<lparr>mqCursor := c, mqLimit := n\<rparr>) = message_where q"
  by (intro ext) (simp add: message_where_def message_sender_def)

lemma conversation_where_page [simp]: "conversation_where (q\<lparr>cqCursor := c, cqLimit := n\<rparr>) = conversation_where q"
  by (intro ext) (simp add: conversation_where_def conversation_text_def conversation_participant_def)

lemma message_page_eq:
  "message_page qd c n =
     (if mqAccountID (fst qd) = [] \<and> mqConversationID (fst qd) = [] \<and> \<not> mqAllAccounts (fst qd) then []
      else page_desc message_pos c (nat (clampLimit (int n))) (messages_matching qd))"
  by (simp add: message_page_def ListMessages_def rows_of_def messages_matching_def)

lemma conversation_page_eq:
  "conversation_page qd c n =
     (if cqAccountID (fst qd) = [] \<and> \<not> cqAllAccounts (fst qd) then []
      else page_desc conversation_pos c (nat (clampLimit (int n))) (conversations_matching qd))"
  by (simp add: conversation_page_def ListConversations_def rows_of_def conversations_matching_def)

lemma clamp_le: "0 < n \<Longrightarrow> nat (clampLimit (int n)) \<le> n"
  by (simp add: clampLimit_def)

lemma clamp_same: "0 < n \<Longrightarrow> n \<le> 100 \<Longrightarrow> nat (clampLimit (int n)) = n"
  by (simp add: clampLimit_def)

lemma messages_ok_keys: "messages_ok qd \<Longrightarrow> distinct (map message_pos (messages_matching qd))"
  unfolding messages_ok_def messages_matching_def message_pos_def [abs_def] by (intro distinct_pos) simp

lemma conversations_ok_keys: "conversations_ok qd \<Longrightarrow> distinct (map conversation_pos (conversations_matching qd))"
  unfolding conversations_ok_def conversations_matching_def conversation_pos_def [abs_def] by (intro distinct_pos) simp

interpretation msg_list: keyset_listing message_page messages_matching message_pos messages_ok 100
  using messages_ok_keys clamp_le clamp_same
  by (intro keyset_listingI [OF message_page_eq]) (auto simp: messages_ok_def)

interpretation conv_list: keyset_listing conversation_page conversations_matching conversation_pos conversations_ok 100
  using conversations_ok_keys clamp_le clamp_same
  by (intro keyset_listingI [OF conversation_page_eq]) (auto simp: conversations_ok_def)

end
