(* ===== verification/Api_Reads.thy ===== *)
theory Api_Reads
  imports Listing Api_Errors
begin

text \<open>
  The read side of the API: parameter readers and pagination (\<open>internal/api/params.go\<close>), the choice of
  the account (\<open>internal/core/accounts.go\<close>) and the message listing routes
  (\<open>internal/api/reads.go\<close>). A query string is an association list with distinct keys, as the router
  hands it over. \<open>aeParseTime\<close> is \<open>time.Parse(time.RFC3339, _)\<close> in epoch milliseconds,
  \<open>aeRefresh\<close> the read-through refresh that precedes a listing and may change the database or fail.
  What is shown: a client that follows \<open>next_cursor\<close> performs the page walk of the store's listing, so
  it meets every row that stays in the listing exactly once and comes to the end.
\<close>

section \<open>Parameters\<close>

type_synonym query = "(string \<times> string) list"

definition param :: "query \<Rightarrow> string \<Rightarrow> string" where
  "param q name = (case map_of q name of None \<Rightarrow> [] | Some v \<Rightarrow> v)"

definition boolParam :: "query \<Rightarrow> string \<Rightarrow> api_error + bool option" where
  "boolParam q name =
     (let raw = param q name in
      if raw = [] then Inr None
      else if raw = ''true'' then Inr (Some True)
      else if raw = ''false'' then Inr (Some False)
      else Inl (WrongTypeForField name ''either \"true\" or \"false\"''))"

definition boolFlag :: "query \<Rightarrow> string \<Rightarrow> api_error + bool" where
  "boolFlag q name =
     (case boolParam q name of Inl e \<Rightarrow> Inl e | Inr None \<Rightarrow> Inr False | Inr (Some v) \<Rightarrow> Inr v)"

definition timeParam :: "(string \<Rightarrow> int option) \<Rightarrow> query \<Rightarrow> string \<Rightarrow> api_error + int" where
  "timeParam parse q name =
     (let raw = param q name in
      if raw = [] then Inr 0
      else case parse raw of
             None \<Rightarrow> Inl (WrongTypeForField name ''an RFC 3339 timestamp such as \"2026-09-06T09:41:02Z\"'')
           | Some t \<Rightarrow> Inr t)"

definition optionalTimeParam :: "(string \<Rightarrow> int option) \<Rightarrow> query \<Rightarrow> string \<Rightarrow> api_error + int option" where
  "optionalTimeParam parse q name =
     (if param q name = [] then Inr None
      else case timeParam parse q name of Inl e \<Rightarrow> Inl e | Inr v \<Rightarrow> Inr (Some v))"

definition intParam :: "query \<Rightarrow> string \<Rightarrow> int \<Rightarrow> int \<Rightarrow> api_error + int" where
  "intParam q name dflt maximum =
     (let raw = param q name in
      if raw = [] then Inr dflt
      else case ParseInt raw of
             None \<Rightarrow> Inl (WrongTypeForField name ''a non-negative integer'')
           | Some n \<Rightarrow>
               if n < 0 then Inl (WrongTypeForField name ''a non-negative integer'')
               else if n = 0 then Inr dflt
               else if n > maximum then Inr maximum
               else Inr n)"

definition enumParam :: "query \<Rightarrow> string \<Rightarrow> string list \<Rightarrow> api_error + string" where
  "enumParam q name allowed =
     (let raw = param q name in
      if raw = [] then Inr []
      else if raw \<in> set allowed then Inr raw
      else Inl (WrongTypeForField name (''one of '' @ join_with '', '' allowed)))"

definition pathID :: "query \<Rightarrow> string \<Rightarrow> string \<Rightarrow> api_error + string" where
  "pathID path name prefix =
     (case CheckIDPrefix (param path name) name prefix of Some e \<Rightarrow> Inl e | None \<Rightarrow> Inr (param path name))"

definition queryID :: "query \<Rightarrow> string \<Rightarrow> string \<Rightarrow> api_error + string" where
  "queryID q name prefix =
     (let v = param q name in
      if v = [] then Inr []
      else case CheckIDPrefix v name prefix of Some e \<Rightarrow> Inl e | None \<Rightarrow> Inr v)"

section \<open>Pagination\<close>

record api_env =
  aeKey :: DataKey
  aeSha :: "string \<Rightarrow> string"
  aeParseTime :: "string \<Rightarrow> int option"
  aeUuidParses :: "string \<Rightarrow> bool"
  aeRefresh :: "string \<Rightarrow> string \<Rightarrow> db \<Rightarrow> api_error + db"

record page =
  pgLimit :: int
  pgCursor :: "Cursor option"
  pgEndpoint :: string
  pgFingerprint :: string

definition filterFingerprint :: "(string \<Rightarrow> string) \<Rightarrow> query \<Rightarrow> string" where
  "filterFingerprint sha q =
     FilterFingerprint sha (map (\<lambda>(k, v). (k, [v])) (filter (\<lambda>(k, v). k \<noteq> ''cursor'' \<and> k \<noteq> ''limit'') q))"

definition paging :: "api_env \<Rightarrow> query \<Rightarrow> string \<Rightarrow> api_error + page" where
  "paging env q endpoint =
     (case intParam q ''limit'' DefaultLimit MaxLimit of
        Inl e \<Rightarrow> Inl e
      | Inr limit \<Rightarrow>
          (let p = \<lparr>pgLimit = limit, pgCursor = None, pgEndpoint = endpoint,
                    pgFingerprint = filterFingerprint (aeSha env) q\<rparr>;
               raw = param q ''cursor''
           in if raw = [] then Inr p
              else case DecodeCursor (aeKey env) endpoint (pgFingerprint p) raw of
                     Inl ErrCursorFilterMismatch \<Rightarrow>
                       Inl (WrongTypeForParameter ''cursor''
                         ''a cursor issued for this endpoint with these same filters; send the same query string on every page'')
                   | Inl _ \<Rightarrow> Inl (WrongTypeForParameter ''cursor'' ''a cursor this server issued'')
                   | Inr c \<Rightarrow> Inr (p\<lparr>pgCursor := Some c\<rparr>)))"

text \<open>An empty token is \<open>next_cursor: null\<close>.\<close>

definition nextCursor :: "api_env \<Rightarrow> page \<Rightarrow> ('r \<Rightarrow> Cursor) \<Rightarrow> 'r list \<Rightarrow> api_error + string" where
  "nextCursor env p position rows =
     (if int (length rows) < pgLimit p \<or> rows = [] then Inr []
      else case EncodeCursor (aeKey env) (pgEndpoint p) (pgFingerprint p) (position (last rows)) of
             Inl _ \<Rightarrow> Inl (fst (Internal None))
           | Inr token \<Rightarrow> Inr token)"

section \<open>Choosing the account\<close>

record AccountRef =
  refID :: string
  refGoogleAccount :: string
  refState :: string

datatype Intent = Read | Write

record Resolution =
  rsAccountID :: string
  rsAllAccounts :: bool

definition toCandidates :: "AccountRef list \<Rightarrow> (string \<times> string \<times> string) list" where
  "toCandidates accounts = map (\<lambda>a. (refID a, refGoogleAccount a, refState a)) accounts"

definition ResolveAccount ::
  "(string \<Rightarrow> bool) \<Rightarrow> string \<Rightarrow> AccountRef list \<Rightarrow> Intent \<Rightarrow> api_error + Resolution" where
  "ResolveAccount uuid_parses requested accounts intent =
     (if requested \<noteq> [] then
        (if \<not> HasPrefix uuid_parses requested PrefixAccount then Inl (WrongIDPrefix ''account_id'' PrefixAccount)
         else if \<exists>a \<in> set accounts. refID a = requested then Inr \<lparr>rsAccountID = requested, rsAllAccounts = False\<rparr>
         else Inl (NotFound ''account''))
      else case accounts of
             [a] \<Rightarrow> Inr \<lparr>rsAccountID = refID a, rsAllAccounts = False\<rparr>
           | [] \<Rightarrow> (if intent = Write then Inl NotPaired else Inr \<lparr>rsAccountID = [], rsAllAccounts = True\<rparr>)
           | _ \<Rightarrow> (if intent = Read then Inr \<lparr>rsAccountID = [], rsAllAccounts = True\<rparr>
                   else Inl (AmbiguousAccount (toCandidates accounts))))"

definition CheckObjectAccount :: "string \<Rightarrow> string \<Rightarrow> string \<Rightarrow> string \<Rightarrow> api_error option" where
  "CheckObjectAccount name objectID objectAccountID requestedAccountID =
     (if requestedAccountID = [] \<or> objectAccountID = requestedAccountID then None
      else Some (IDFromAnotherAccount name objectID requestedAccountID))"

definition WritableStates :: "string list" where
  "WritableStates = [''connected'', ''degraded'']"

definition CheckAccountWritable :: "AccountRef \<Rightarrow> api_error option" where
  "CheckAccountWritable a =
     (if refState a \<in> set WritableStates then None
      else Some (UnsupportedCapability ReasonNotSignedIn (refID a) ''write to'' ''state'' (AnyString (refState a))))"

section \<open>The message routes\<close>

abbreviation EndpointMessages :: string where "EndpointMessages \<equiv> ''messages.list''"

definition deliveryStateNames :: "string list" where
  "deliveryStateNames =
     [''sending'', ''sent'', ''delivered'', ''read'', ''failed'', ''canceled'', ''deleted'', ''received'',
      ''downloading'', ''download_failed'', ''unknown'']"

definition resolveSender :: "api_env \<Rightarrow> query \<Rightarrow> db \<Rightarrow> MessageQuery \<Rightarrow> api_error + MessageQuery" where
  "resolveSender env q d mq =
     (let raw = param q ''sender'' in
      if raw = [] then Inr mq
      else if raw = ''me'' then Inr (mq\<lparr>mqSenderMe := True\<rparr>)
      else case ResolveParticipant (aeUuidParses env) raw d of
             Inl e \<Rightarrow> Inl (WrongTypeForField ''sender''
               ''the literal \"me\", an E.164 number, its bare digits, or a part_ or contact_ ID'')
           | Inr (i, phone) \<Rightarrow> Inr (mq\<lparr>mqSenderParticipantID := i, mqSenderPhone := phone\<rparr>))"

definition messageQueryFrom ::
  "api_env \<Rightarrow> query \<Rightarrow> Resolution \<Rightarrow> page \<Rightarrow> db \<Rightarrow> api_error + MessageQuery" where
  "messageQueryFrom env q res p d =
     (case enumParam q ''direction'' [''incoming'', ''outgoing''] of Inl e \<Rightarrow> Inl e | Inr direction \<Rightarrow>
      case timeParam (aeParseTime env) q ''after'' of Inl e \<Rightarrow> Inl e | Inr after \<Rightarrow>
      case timeParam (aeParseTime env) q ''before'' of Inl e \<Rightarrow> Inl e | Inr before \<Rightarrow>
      case boolParam q ''has_attachment'' of Inl e \<Rightarrow> Inl e | Inr hasAttachment \<Rightarrow>
      case boolFlag q ''include_system'' of Inl e \<Rightarrow> Inl e | Inr includeSystem \<Rightarrow>
      case enumParam q ''delivery_state'' deliveryStateNames of Inl e \<Rightarrow> Inl e | Inr deliveryState \<Rightarrow>
      resolveSender env q d
        \<lparr>mqAccountID = rsAccountID res, mqAllAccounts = rsAllAccounts res, mqConversationID = [],
         mqDirection = direction, mqSenderMe = False, mqSenderParticipantID = [], mqSenderPhone = [],
         mqAfterMS = after, mqBeforeMS = before, mqHasAttachment = hasAttachment,
         mqDeliveryState = deliveryState, mqIncludeSystem = includeSystem, mqCursor = pgCursor p,
         mqLimit = pgLimit p\<rparr>)"

text \<open>The answer of a listing is its rows and the next token; rendering the rows is not modelled.\<close>

definition serveMessages ::
  "api_env \<Rightarrow> page \<Rightarrow> MessageQuery \<Rightarrow> db \<Rightarrow> api_error + (msg_row list \<times> string \<times> db)" where
  "serveMessages env p q d =
     (case aeRefresh env (mqAccountID q) (mqConversationID q) d of
        Inl e \<Rightarrow> Inl e
      | Inr d' \<Rightarrow>
          (case ListMessages q d' of
             Inl _ \<Rightarrow> Inl (fst (Internal None))
           | Inr rows \<Rightarrow>
               (case nextCursor env p (\<lambda>r. of_key (message_pos r)) rows of
                  Inl e \<Rightarrow> Inl e
                | Inr token \<Rightarrow> Inr (rows, token, d'))))"

definition messagesList ::
  "api_env \<Rightarrow> AccountRef list \<Rightarrow> query \<Rightarrow> db \<Rightarrow> api_error + (msg_row list \<times> string \<times> db)" where
  "messagesList env accounts q d =
     (case ResolveAccount (aeUuidParses env) (param q ''account_id'') accounts Read of Inl e \<Rightarrow> Inl e | Inr res \<Rightarrow>
      case paging env q EndpointMessages of Inl e \<Rightarrow> Inl e | Inr p \<Rightarrow>
      case messageQueryFrom env q res p d of Inl e \<Rightarrow> Inl e | Inr mq \<Rightarrow>
      case queryID q ''conversation_id'' PrefixConversation of Inl e \<Rightarrow> Inl e | Inr convID \<Rightarrow>
      if convID = [] then serveMessages env p mq d
      else case ConversationByID convID d of
             None \<Rightarrow> Inl (NotFound ''conversation'')
           | Some c \<Rightarrow>
               (case CheckObjectAccount ''conversation_id'' (crID c) (crAccountID c) (rsAccountID res) of
                  Some e \<Rightarrow> Inl e
                | None \<Rightarrow> serveMessages env p (mq\<lparr>mqConversationID := crID c\<rparr>) d))"

definition conversationMessagesList ::
  "api_env \<Rightarrow> query \<Rightarrow> query \<Rightarrow> db \<Rightarrow> api_error + (msg_row list \<times> string \<times> db)" where
  "conversationMessagesList env path q d =
     (case pathID path ''conversation_id'' PrefixConversation of Inl e \<Rightarrow> Inl e | Inr convID \<Rightarrow>
      case ConversationByID convID d of None \<Rightarrow> Inl (NotFound ''conversation'') | Some c \<Rightarrow>
      case paging env q EndpointMessages of Inl e \<Rightarrow> Inl e | Inr p \<Rightarrow>
      case messageQueryFrom env q \<lparr>rsAccountID = crAccountID c, rsAllAccounts = False\<rparr> p d of Inl e \<Rightarrow> Inl e | Inr mq \<Rightarrow>
      serveMessages env p (mq\<lparr>mqConversationID := crID c\<rparr>) d)"

section \<open>Bounds\<close>

lemma intParam_bounds:
  "intParam q name dflt maximum = Inr n \<Longrightarrow> 1 \<le> dflt \<Longrightarrow> dflt \<le> maximum \<Longrightarrow> 1 \<le> n \<and> n \<le> maximum"
  by (auto simp: intParam_def Let_def split: if_splits option.splits)

lemma paging_Inr:
  assumes "paging env q endpoint = Inr p"
  shows "1 \<le> pgLimit p" "pgLimit p \<le> MaxLimit" "intParam q ''limit'' DefaultLimit MaxLimit = Inr (pgLimit p)"
    "pgEndpoint p = endpoint" "pgFingerprint p = filterFingerprint (aeSha env) q"
    "pgCursor p = (if param q ''cursor'' = [] then None
       else Some (projr (DecodeCursor (aeKey env) endpoint (filterFingerprint (aeSha env) q) (param q ''cursor''))))"
  using assms intParam_bounds [of q "''limit''" DefaultLimit MaxLimit]
  by (auto simp: paging_def Let_def split: sum.splits if_splits cursor_error.splits)

lemma ListMessages_length:
  "ListMessages q d = Inr rows \<Longrightarrow> length rows \<le> nat (clampLimit (mqLimit q))"
  using page_desc_bounded by (auto simp: ListMessages_def split: if_splits)

lemma serveMessages_Inr:
  "serveMessages env p q d = Inr (rows, token, d') \<Longrightarrow>
     aeRefresh env (mqAccountID q) (mqConversationID q) d = Inr d' \<and> ListMessages q d' = Inr rows
     \<and> nextCursor env p (\<lambda>r. of_key (message_pos r)) rows = Inr token"
  by (auto simp: serveMessages_def split: sum.splits)

lemma messageQueryFrom_page:
  "messageQueryFrom env q res p d = Inr mq \<Longrightarrow> mqLimit mq = pgLimit p \<and> mqCursor mq = pgCursor p"
  by (auto simp: messageQueryFrom_def resolveSender_def Let_def split: sum.splits if_splits)

lemma messagesList_serves:
  assumes "messagesList env accounts q d = Inr r"
  obtains p mq where "paging env q EndpointMessages = Inr p" "mqLimit mq = pgLimit p" "serveMessages env p mq d = Inr r"
proof -
  from assms obtain p res mq0 where *: "paging env q EndpointMessages = Inr p"
      "messageQueryFrom env q res p d = Inr mq0"
      "serveMessages env p mq0 d = Inr r \<or> (\<exists>i. serveMessages env p (mq0\<lparr>mqConversationID := i\<rparr>) d = Inr r)"
    by (auto simp: messagesList_def split: sum.splits if_splits option.splits)
  have "mqLimit mq0 = pgLimit p" "mqLimit (mq0\<lparr>mqConversationID := i\<rparr>) = pgLimit p" for i
    using messageQueryFrom_page [OF *(2)] by simp_all
  with that *(1,3) show ?thesis by blast
qed

text \<open>A page is bounded whatever the caller writes: the message listing answers with an error or
  with at most the number of rows the limit names, which is at least 1 and at most 100, and a limit
  that is not a non-negative integer is refused.\<close>

theorem message_page_bounded:
  assumes "messagesList env accounts q d = Inr (rows, token, d')"
  shows "\<exists>n. intParam q ''limit'' DefaultLimit MaxLimit = Inr n \<and> 1 \<le> n \<and> n \<le> 100 \<and> int (length rows) \<le> n
    \<and> (token \<noteq> [] \<longrightarrow> int (length rows) = n)"
proof -
  from assms obtain p mq where p: "paging env q EndpointMessages = Inr p"
      and mq: "mqLimit mq = pgLimit p" "serveMessages env p mq d = Inr (rows, token, d')"
    by (rule messagesList_serves)
  note serve = serveMessages_Inr [OF mq(2)]
  have "clampLimit (pgLimit p) = pgLimit p"
    using paging_Inr(1,2) [OF p] by (intro clampLimit_id) simp_all
  then have len: "int (length rows) \<le> pgLimit p"
    using ListMessages_length [of mq d' rows] serve mq(1) paging_Inr(1) [OF p] by simp
  moreover have "token \<noteq> [] \<Longrightarrow> int (length rows) = pgLimit p"
    using len serve by (auto simp: nextCursor_def split: if_splits)
  ultimately show ?thesis using paging_Inr(1-3) [OF p] by auto
qed

section \<open>Following next_cursor\<close>

text \<open>One request of a listing under fixed filters: what both message routes do once they have read
  their filters into \<open>mq\<close>.\<close>

definition list_request ::
  "api_env \<Rightarrow> query \<Rightarrow> MessageQuery \<Rightarrow> db \<Rightarrow> api_error + (msg_row list \<times> string \<times> db)" where
  "list_request env q mq d =
     (case paging env q EndpointMessages of
        Inl e \<Rightarrow> Inl e
      | Inr p \<Rightarrow> serveMessages env p (mq\<lparr>mqCursor := pgCursor p, mqLimit := pgLimit p\<rparr>) d)"

text \<open>A client repeats its query string and adds the token of the page before. \<open>ds\<close> are the
  states of the database at the requests, after their refresh.\<close>

definition with_cursor :: "query \<Rightarrow> string \<Rightarrow> query" where
  "with_cursor q token = (if token = [] then q else (''cursor'', token) # q)"

fun follow :: "api_env \<Rightarrow> query \<Rightarrow> MessageQuery \<Rightarrow> db list \<Rightarrow> string \<Rightarrow> msg_row list list \<times> bool" where
  "follow env q mq [] token = ([], False)"
| "follow env q mq (d # ds) token =
     (case list_request env (with_cursor q token) mq d of
        Inl e \<Rightarrow> ([], False)
      | Inr (rows, next, d') \<Rightarrow>
          if next = [] then ([rows], True)
          else let (ps, fin) = follow env q mq ds next in (rows # ps, fin))"

definition token_safe :: "db \<Rightarrow> bool" where
  "token_safe d \<longleftrightarrow> (\<forall>m \<in> set (dbMessages d). nul_free (mrID m) \<and> int64 (mrSentAtMS m))"

lemma nul_free_base64: "nul_free (RawURLEncode s)"
  using RawURLEncode_chars(1) [of "CHR 0x00" s] by (auto simp: nul_free_def)

lemma filterFingerprint_nul_free: "nul_free (filterFingerprint sha q)"
  by (simp add: filterFingerprint_def FilterFingerprint_def nul_free_base64)

lemma with_cursor_simps:
  "map_of q ''cursor'' = None \<Longrightarrow> param (with_cursor q t) ''cursor'' = t"
  "filterFingerprint sha (with_cursor q t) = filterFingerprint sha q"
  "intParam (with_cursor q t) ''limit'' a b = intParam q ''limit'' a b"
  by (simp_all add: with_cursor_def param_def filterFingerprint_def intParam_def)

definition settled :: "api_env \<Rightarrow> MessageQuery \<Rightarrow> db \<Rightarrow> bool" where
  "settled env mq d \<longleftrightarrow> aeRefresh env (mqAccountID mq) (mqConversationID mq) d = Inr d
     \<and> token_safe d \<and> messages_ok (mq, d)"

definition token_for :: "api_env \<Rightarrow> query \<Rightarrow> (int \<times> string) option \<Rightarrow> string \<Rightarrow> bool" where
  "token_for env q c t \<longleftrightarrow>
     (case c of None \<Rightarrow> t = []
      | Some k \<Rightarrow> t \<noteq> [] \<and> nul_free (snd k) \<and> int64 (fst k) \<and>
          EncodeCursor (aeKey env) EndpointMessages (filterFingerprint (aeSha env) q) (of_key k) = Inr t)"

lemma paging_token:
  assumes "token_for env q c t" "map_of q ''cursor'' = None" "intParam q ''limit'' DefaultLimit MaxLimit = Inr n"
  shows "paging env (with_cursor q t) EndpointMessages =
    Inr \<lparr>pgLimit = n, pgCursor = map_option of_key c, pgEndpoint = EndpointMessages,
         pgFingerprint = filterFingerprint (aeSha env) q\<rparr>"
proof (cases c)
  case None
  with assms show ?thesis by (simp add: paging_def token_for_def with_cursor_simps)
next
  case (Some k)
  let ?fp = "filterFingerprint (aeSha env) q"
  from assms(1) Some have k: "t \<noteq> []" "nul_free (snd k)" "int64 (fst k)"
      "EncodeCursor (aeKey env) EndpointMessages ?fp (of_key k) = Inr t"
    by (simp_all add: token_for_def)
  have "DecodeCursor (aeKey env) EndpointMessages ?fp t = Inr (of_key k)"
    using DecodeCursor_EncodeCursor [OF k(4)] k(2,3) filterFingerprint_nul_free
    by (simp add: read_payload_cursorPayload of_key_def nul_free_def)
  with assms(2,3) k(1) Some show ?thesis by (simp add: paging_def with_cursor_simps)
qed

lemma EncodeCursor_total: "cursorKey key \<noteq> None \<Longrightarrow> \<exists>t. EncodeCursor key e f c = Inr t \<and> t \<noteq> []"
  by (auto simp: EncodeCursor_def Let_def)

lemma list_request_page:
  assumes "token_for env q c t" "map_of q ''cursor'' = None" "intParam q ''limit'' DefaultLimit MaxLimit = Inr n"
    and "settled env mq d" "cursorKey (aeKey env) \<noteq> None"
  shows "\<exists>next. list_request env (with_cursor q t) mq d = Inr (message_page (mq, d) c (nat n), next, d)
    \<and> (if length (message_page (mq, d) c (nat n)) < nat n \<or> message_page (mq, d) c (nat n) = []
       then next = []
       else token_for env q (Some (message_pos (last (message_page (mq, d) c (nat n))))) next)"
proof -
  let ?rows = "message_page (mq, d) c (nat n)" and ?fp = "filterFingerprint (aeSha env) q"
  have n: "1 \<le> n" "n \<le> 100" using intParam_bounds [OF assms(3)] by simp_all
  obtain next' where enc: "EncodeCursor (aeKey env) EndpointMessages ?fp (of_key (message_pos (last ?rows))) = Inr next'"
      "next' \<noteq> []" using EncodeCursor_total [OF assms(5)] by blast
  have list: "ListMessages (mq\<lparr>mqCursor := map_option of_key c, mqLimit := n\<rparr>) d = Inr ?rows"
    using assms(4) n by (auto simp: message_page_def rows_of_def settled_def messages_ok_def ListMessages_def)
  have safe: "?rows \<noteq> [] \<Longrightarrow> nul_free (snd (message_pos (last ?rows))) \<and> int64 (fst (message_pos (last ?rows)))"
    using assms(4) msg_list.sound [of "last ?rows" "(mq, d)" c "nat n"]
    by (auto simp: settled_def token_safe_def messages_matching_def message_pos_def)
  have "int (length ?rows) < n \<longleftrightarrow> length ?rows < nat n" using n by auto
  then show ?thesis
    using paging_token [OF assms(1-3)] assms(4) list enc safe
    by (auto simp: list_request_def serveMessages_def nextCursor_def settled_def token_for_def)
qed

lemma follow_walk:
  assumes "map_of q ''cursor'' = None" "intParam q ''limit'' DefaultLimit MaxLimit = Inr n"
    and "cursorKey (aeKey env) \<noteq> None"
  shows "\<forall>d \<in> set ds. settled env mq d \<Longrightarrow> token_for env q c t \<Longrightarrow>
    follow env q mq ds t = walk message_page message_pos (nat n) (map (Pair mq) ds) c"
proof (induction ds arbitrary: c t)
  case (Cons d ds)
  let ?rows = "message_page (mq, d) c (nat n)"
  from list_request_page [OF Cons.prems(2) assms(1,2) _ assms(3), of mq d] Cons.prems(1)
  obtain nxt where nxt: "list_request env (with_cursor q t) mq d = Inr (?rows, nxt, d)"
      "if length ?rows < nat n \<or> ?rows = [] then nxt = []
       else token_for env q (Some (message_pos (last ?rows))) nxt" by auto
  show ?case
  proof (cases "length ?rows < nat n \<or> ?rows = []")
    case True
    with nxt show ?thesis by (simp add: Let_def)
  next
    case False
    with nxt(2) have tk: "token_for env q (Some (message_pos (last ?rows))) nxt" by simp
    then have "nxt \<noteq> []" by (simp add: token_for_def)
    with False nxt(1) Cons.IH [OF _ tk] Cons.prems(1) show ?thesis by (simp add: Let_def)
  qed
qed simp

text \<open>C5: A client that follows the next-page tokens of the message listing meets every message that
  stays in the listing exactly once, however rows are added, removed or changed between its requests
  and however many rows share one millisecond.\<close>

theorem followed_pages_exactly_once:
  assumes "map_of q ''cursor'' = None" "intParam q ''limit'' DefaultLimit MaxLimit = Inr n" "cursorKey (aeKey env) \<noteq> None"
    and "\<forall>d \<in> set ds. settled env mq d" "\<forall>d \<in> set ds. \<exists>m \<in> set (messages_matching (mq, d)). message_pos m = k"
    and "follow env q mq ds [] = (pages, True)"
  shows "length (filter (\<lambda>m. message_pos m = k) (concat pages)) = 1"
proof -
  have "follow env q mq ds [] = walk message_page message_pos (nat n) (map (Pair mq) ds) None"
    using follow_walk [OF assms(1-4), of None "[]"] by (simp add: token_for_def)
  with assms(6) have w: "walk message_page message_pos (nat n) (map (Pair mq) ds) None = (pages, True)" by simp
  have "0 < nat n" "nat n \<le> 100" using intParam_bounds [OF assms(2)] by auto
  moreover have "\<forall>qd \<in> set (map (Pair mq) ds). messages_ok qd \<and> (\<exists>m \<in> set (messages_matching qd). message_pos m = k)"
    using assms(4,5) by (auto simp: settled_def)
  ultimately show ?thesis using msg_list.walk_exactly_once [OF _ _ _ w] by blast
qed

text \<open>C28: On a listing that does not change, following the tokens comes to an end: one request more than
  there are full pages is enough, and what the pages hold together is the whole listing, newest first.\<close>

theorem followed_pages_reach_the_end:
  assumes "map_of q ''cursor'' = None" "intParam q ''limit'' DefaultLimit MaxLimit = Inr n" "cursorKey (aeKey env) \<noteq> None"
    and "settled env mq d" "length (messages_matching (mq, d)) div nat n < k"
  shows "\<exists>pages. follow env q mq (replicate k d) [] = (pages, True)
    \<and> concat pages = rev (sort_key message_pos (messages_matching (mq, d)))"
proof -
  have "follow env q mq (replicate k d) [] = walk message_page message_pos (nat n) (replicate k (mq, d)) None"
    using follow_walk [OF assms(1-3), of "replicate k d" mq None "[]"] assms(4)
    by (simp add: token_for_def map_replicate)
  moreover have "0 < nat n" "nat n \<le> 100" using intParam_bounds [OF assms(2)] by auto
  ultimately show ?thesis
    using msg_list.walk_static [of "(mq, d)" "nat n" k] assms(4,5) by (simp add: settled_def)
qed

section \<open>What the filters do not do\<close>

lemma contact_not_participant: "HasPrefix parses raw PrefixContact \<Longrightarrow> \<not> HasPrefix parses raw PrefixParticipant"
  by (cases raw) (auto simp: HasPrefix_def split: if_splits)

text \<open>Asking for the messages of a contact that has no phone number asks for everybody's. The
  contact id resolves to an empty number, an empty number adds no condition to the query, and the listing
  is the one without any sender filter.\<close>

theorem contact_without_number_filters_nothing:
  assumes "HasPrefix (aeUuidParses env) (param q ''sender'') PrefixContact"
    and "ContactByID (param q ''sender'') d = Inr c" "cnPhoneE164 c = []"
    and "mqSenderMe mq = False" "mqSenderParticipantID mq = []" "mqSenderPhone mq = []"
  shows "resolveSender env q d mq = Inr mq \<and> message_sender mq d m"
proof -
  let ?raw = "param q ''sender''"
  have "?raw \<noteq> []" "?raw \<noteq> ''me''" using assms(1) by (auto simp: HasPrefix_def)
  moreover have "mq\<lparr>mqSenderParticipantID := [], mqSenderPhone := []\<rparr> = mq" using assms(5,6) by simp
  ultimately have "resolveSender env q d mq = Inr mq"
    using assms(1-3) contact_not_participant [OF assms(1)]
    by (simp add: resolveSender_def ResolveParticipant_def)
  then show ?thesis using assms(4-6) by (simp add: message_sender_def)
qed

lemma param_with_cursor: "name \<noteq> ''cursor'' \<Longrightarrow> param (with_cursor q t) name = param q name"
  by (simp add: param_def with_cursor_def)

lemma readers_with_cursor:
  assumes "name \<noteq> ''cursor''"
  shows "enumParam (with_cursor q t) name vs = enumParam q name vs"
    "timeParam parse (with_cursor q t) name = timeParam parse q name"
    "boolParam (with_cursor q t) name = boolParam q name" "boolFlag (with_cursor q t) name = boolFlag q name"
  using param_with_cursor [OF assms] by (simp_all add: enumParam_def timeParam_def boolParam_def boolFlag_def)

definition repaged :: "Resolution \<Rightarrow> page \<Rightarrow> MessageQuery \<Rightarrow> MessageQuery" where
  "repaged res p mq = mq\<lparr>mqAccountID := rsAccountID res, mqAllAccounts := rsAllAccounts res,
     mqCursor := pgCursor p, mqLimit := pgLimit p\<rparr>"

lemma resolveSender_repaged:
  "resolveSender env q d mq = Inr mq' \<Longrightarrow> resolveSender env (with_cursor q t) d (repaged res p mq) = Inr (repaged res p mq')"
  by (auto simp: resolveSender_def Let_def param_with_cursor repaged_def split: sum.splits if_splits)

lemma messageQueryFrom_repaged:
  assumes "messageQueryFrom env q res p d = Inr mq"
  shows "messageQueryFrom env (with_cursor q t) res' p' d = Inr (repaged res' p' mq)"
proof -
  from assms obtain dir after before att sys st where *:
      "enumParam q ''direction'' [''incoming'', ''outgoing''] = Inr dir"
      "timeParam (aeParseTime env) q ''after'' = Inr after" "timeParam (aeParseTime env) q ''before'' = Inr before"
      "boolParam q ''has_attachment'' = Inr att" "boolFlag q ''include_system'' = Inr sys"
      "enumParam q ''delivery_state'' deliveryStateNames = Inr st"
      "resolveSender env q d \<lparr>mqAccountID = rsAccountID res, mqAllAccounts = rsAllAccounts res, mqConversationID = [],
         mqDirection = dir, mqSenderMe = False, mqSenderParticipantID = [], mqSenderPhone = [],
         mqAfterMS = after, mqBeforeMS = before, mqHasAttachment = att,
         mqDeliveryState = st, mqIncludeSystem = sys, mqCursor = pgCursor p, mqLimit = pgLimit p\<rparr> = Inr mq"
    by (auto simp: messageQueryFrom_def split: sum.splits)
  from resolveSender_repaged [OF *(7), of t res' p'] *(1-6) show ?thesis
    by (simp add: messageQueryFrom_def readers_with_cursor repaged_def)
qed

lemma conversationMessagesList_Inr:
  assumes "conversationMessagesList env path q d = Inr (rows, token, d')"
  obtains i c p mq where "pathID path ''conversation_id'' PrefixConversation = Inr i" "ConversationByID i d = Some c"
    "paging env q EndpointMessages = Inr p"
    "messageQueryFrom env q \<lparr>rsAccountID = crAccountID c, rsAllAccounts = False\<rparr> p d = Inr mq"
    "serveMessages env p (mq\<lparr>mqConversationID := crID c\<rparr>) d = Inr (rows, token, d')"
  using assms by (auto simp: conversationMessagesList_def split: sum.splits option.splits)

lemma nextCursor_total:
  "cursorKey (aeKey env) \<noteq> None \<Longrightarrow> \<exists>t. nextCursor env p position rows = Inr t"
  using EncodeCursor_total [of "aeKey env" "pgEndpoint p" "pgFingerprint p" "position (last rows)"]
  by (auto simp: nextCursor_def)

lemma ListMessages_sound:
  assumes "ListMessages q d = Inr rows" "r \<in> set rows"
  shows "r \<in> set (dbMessages d) \<and> message_where q d r \<and> below (map_option cursor_key (mqCursor q)) (message_pos r)"
proof -
  from assms have "r \<in> set (page_desc message_pos (map_option cursor_key (mqCursor q)) (nat (clampLimit (mqLimit q)))
      (filter (message_where q d) (dbMessages d)))" by (auto simp: ListMessages_def split: if_splits)
  from page_desc_sound [OF this] show ?thesis by simp
qed

text \<open>The token of a full page is the position of its last row.\<close>

lemma full_page_token:
  assumes "paging env q EndpointMessages = Inr p" "serveMessages env p mq d = Inr (rows, token, d)"
    and "token \<noteq> []" "token_safe d"
  shows "token_for env q (Some (message_pos (last rows))) token \<and> cursorKey (aeKey env) \<noteq> None"
proof -
  note serve = serveMessages_Inr [OF assms(2)]
  then have rows: "rows \<noteq> []"
      and enc: "EncodeCursor (aeKey env) EndpointMessages (filterFingerprint (aeSha env) q) (of_key (message_pos (last rows))) = Inr token"
    using assms(3) paging_Inr(4,5) [OF assms(1)] by (auto simp: nextCursor_def split: if_splits sum.splits)
  have "last rows \<in> set (dbMessages d)"
    using serve rows ListMessages_sound [of mq d rows "last rows"] by simp
  then have "nul_free (mrID (last rows))" "int64 (mrSentAtMS (last rows))"
    using assms(4) by (simp_all add: token_safe_def)
  moreover have "cursorKey (aeKey env) \<noteq> None" using enc by (auto simp: EncodeCursor_def split: option.splits)
  ultimately show ?thesis using enc assms(3) by (simp add: token_for_def message_pos_def)
qed

text \<open>A cursor of one conversation's messages is not bound to that conversation. The token of a full
  page of one conversation, replayed with the same query string on the route of any other conversation,
  is accepted, and silently skips every message of the other one that is newer than the first one's page.\<close>

theorem cursor_not_bound_to_conversation:
  assumes "conversationMessagesList env pathA q d = Inr (rows, token, d)" "token \<noteq> []" "map_of q ''cursor'' = None"
    and "pathID pathB ''conversation_id'' PrefixConversation = Inr b" "ConversationByID b d = Some cb" "crID cb \<noteq> []"
    and "\<And>acct conv. aeRefresh env acct conv d = Inr d" "token_safe d"
  shows "\<exists>rowsB tokenB. conversationMessagesList env pathB (with_cursor q token) d = Inr (rowsB, tokenB, d)
    \<and> (\<forall>m \<in> set rowsB. mrConversationID m = crID cb \<and> message_pos m < message_pos (last rows))"
proof -
  from assms(1) obtain ca :: conv_row and p mq where A: "paging env q EndpointMessages = Inr p"
      "messageQueryFrom env q \<lparr>rsAccountID = crAccountID ca, rsAllAccounts = False\<rparr> p d = Inr mq"
      "serveMessages env p (mq\<lparr>mqConversationID := crID ca\<rparr>) d = Inr (rows, token, d)"
    by (rule conversationMessagesList_Inr)
  have tok: "token_for env q (Some (message_pos (last rows))) token" and k: "cursorKey (aeKey env) \<noteq> None"
    using full_page_token [OF A(1,3) assms(2,8)] by simp_all
  obtain p' where p': "paging env (with_cursor q token) EndpointMessages = Inr p'"
      "pgCursor p' = Some (of_key (message_pos (last rows)))"
    using paging_token [OF tok assms(3) paging_Inr(3) [OF A(1)]] by simp
  let ?mq = "(repaged \<lparr>rsAccountID = crAccountID cb, rsAllAccounts = False\<rparr> p' mq)\<lparr>mqConversationID := crID cb\<rparr>"
  have mq: "mqConversationID ?mq = crID cb" "mqCursor ?mq = Some (of_key (message_pos (last rows)))"
    using p'(2) by (simp_all add: repaged_def)
  obtain rowsB where B: "ListMessages ?mq d = Inr rowsB" using assms(6) mq(1) by (simp add: ListMessages_def)
  have below: "\<forall>m \<in> set rowsB. mrConversationID m = crID cb \<and> message_pos m < message_pos (last rows)"
  proof
    fix m assume "m \<in> set rowsB"
    from ListMessages_sound [OF B this] mq assms(6)
    show "mrConversationID m = crID cb \<and> message_pos m < message_pos (last rows)"
      unfolding message_where_def by simp
  qed
  obtain tokenB where "nextCursor env p' (\<lambda>r. of_key (message_pos r)) rowsB = Inr tokenB"
    using nextCursor_total [OF k] by blast
  with B assms(7) have "serveMessages env p' ?mq d = Inr (rowsB, tokenB, d)" by (simp add: serveMessages_def)
  then have "conversationMessagesList env pathB (with_cursor q token) d = Inr (rowsB, tokenB, d)"
    using assms(4,5) p'(1) messageQueryFrom_repaged [OF A(2), of token "\<lparr>rsAccountID = crAccountID cb, rsAllAccounts = False\<rparr>" p']
    by (simp add: conversationMessagesList_def)
  with below show ?thesis by blast
qed

section \<open>Context\<close>

lemma split_around:
  assumes "distinct (map pos rows)" "m \<in> set rows"
  shows "sort_key pos rows = sort_key pos (filter (\<lambda>r. pos r < pos m) rows) @ [m] @ sort_key pos (filter (\<lambda>r. pos m < pos r) rows)"
proof -
  let ?lo = "sort_key pos (filter (\<lambda>r. pos r < pos m) rows)" and ?hi = "sort_key pos (filter (\<lambda>r. pos m < pos r) rows)"
  have inj: "inj_on pos (set rows)" and dist: "distinct rows" using assms(1) by (simp_all add: distinct_map)
  have "set (?lo @ [m] @ ?hi) = set rows"
    using assms(2) inj by (auto simp: inj_on_def) (metis linorder_neqE)
  moreover have "distinct (map pos ?lo)" "distinct (map pos ?hi)"
    using inj dist by (auto simp: distinct_map intro: inj_on_subset)
  moreover have "sorted (map pos (?lo @ [m] @ ?hi))"
    by (auto simp: sorted_append)
  moreover have "distinct (map pos (sort_key pos rows))" using assms(1) inj dist by (auto simp: distinct_map)
  ultimately have "map pos (sort_key pos rows) = map pos (?lo @ [m] @ ?hi)"
    by (intro sorted_distinct_set_unique) auto
  then show ?thesis
    using inj \<open>set (?lo @ [m] @ ?hi) = set rows\<close> by (intro map_inj_on [of pos]) auto
qed

text \<open>The context of a message is a window of its conversation. Laid out oldest first, what the route
  returns is a contiguous stretch of the conversation's messages around the message asked for, and it
  is short on a side only where the conversation ends.\<close>

theorem message_context_is_window:
  assumes "MessageContextAround i before after includeSystem d = Some c" "distinct (map mrID (dbMessages d))"
    and "includeSystem \<or> mrKind (mcMessage c) \<noteq> MessageKindSystem"
  shows "\<exists>older newer. sort_key message_pos (filter (\<lambda>r. mrConversationID r = mrConversationID (mcMessage c) \<and>
        (includeSystem \<or> mrKind r \<noteq> MessageKindSystem)) (dbMessages d)) =
      older @ rev (mcBefore c) @ [mcMessage c] @ mcAfter c @ newer
    \<and> (older \<noteq> [] \<longrightarrow> int (length (mcBefore c)) = clampContext before)
    \<and> (newer \<noteq> [] \<longrightarrow> int (length (mcAfter c)) = clampContext after) \<and> mrID (mcMessage c) = i"
proof -
  from assms(1) obtain m where m: "select_one (\<lambda>r. mrID r = i) (dbMessages d) = Some m" "mcMessage c = m"
    by (auto simp: MessageContextAround_def Let_def split: option.splits)
  let ?near = "filter (\<lambda>r. mrConversationID r = mrConversationID m \<and> (includeSystem \<or> mrKind r \<noteq> MessageKindSystem)) (dbMessages d)"
  let ?lo = "sort_key message_pos (filter (\<lambda>r. message_pos r < message_pos m) ?near)"
    and ?hi = "sort_key message_pos (filter (\<lambda>r. message_pos m < message_pos r) ?near)"
  let ?nb = "nat (clampContext before)" and ?na = "nat (clampContext after)"
  have c: "mcBefore c = take ?nb (rev ?lo)" "mcAfter c = take ?na ?hi"
    using assms(1) m by (auto simp: MessageContextAround_def Let_def page_desc_def)
  have in_near: "m \<in> set ?near" "mrID m = i"
    using select_one_SomeD [OF m(1)] assms(3) m(2) by auto
  have "distinct (map message_pos ?near)"
    unfolding message_pos_def [abs_def] by (intro distinct_pos assms(2))
  from split_around [OF this in_near(1)]
  have "sort_key message_pos ?near = ?lo @ [m] @ ?hi" .
  also have "?lo = rev (drop ?nb (rev ?lo)) @ rev (mcBefore c)"
    unfolding c by (metis append_take_drop_id rev_append rev_rev_ident)
  also have "?hi = mcAfter c @ drop ?na ?hi" unfolding c by simp
  finally have "sort_key message_pos ?near = rev (drop ?nb (rev ?lo)) @ rev (mcBefore c) @ [m] @ mcAfter c @ drop ?na ?hi"
    by simp
  moreover have "0 \<le> clampContext n" for n by (simp add: clampContext_def)
  then have "rev (drop ?nb (rev ?lo)) \<noteq> [] \<longrightarrow> int (length (mcBefore c)) = clampContext before"
      "drop ?na ?hi \<noteq> [] \<longrightarrow> int (length (mcAfter c)) = clampContext after"
    unfolding c by simp_all
  ultimately show ?thesis using m(2) in_near(2) by blast
qed

text \<open>A write never guesses the account. When the account of a write is resolved, it is one that
  exists, and either the caller named it or it is the only one there is; a write never covers all.\<close>

theorem write_account_never_guessed:
  assumes "ResolveAccount parses requested accounts Write = Inr r"
  shows "\<not> rsAllAccounts r \<and> rsAccountID r \<in> refID ` set accounts
    \<and> (rsAccountID r = requested \<or> (requested = [] \<and> length accounts = 1))"
  using assms by (auto simp: ResolveAccount_def split: if_splits list.splits)

section \<open>Instances\<close>

definition list_env :: api_env where
  "list_env = \<lparr>aeKey = sample_key, aeSha = ident, aeParseTime = (\<lambda>_. None), aeUuidParses = (\<lambda>s. s \<noteq> []),
     aeRefresh = (\<lambda>_ _ d. Inr d)\<rparr>"

definition any_query :: MessageQuery where
  "any_query = \<lparr>mqAccountID = [], mqAllAccounts = True, mqConversationID = [], mqDirection = [],
     mqSenderMe = False, mqSenderParticipantID = [], mqSenderPhone = [], mqAfterMS = 0, mqBeforeMS = 0,
     mqHasAttachment = None, mqDeliveryState = [], mqIncludeSystem = False, mqCursor = None, mqLimit = 0\<rparr>"

definition listed :: "string \<Rightarrow> string \<Rightarrow> int \<Rightarrow> msg_row" where
  "listed i conv t = sample_msg_row\<lparr>mrID := i, mrConversationID := conv, mrSentAtMS := t\<rparr>"

definition list_db :: "msg_row list \<Rightarrow> db" where "list_db ms = db1\<lparr>dbMessages := ms\<rparr>"

lemma listed_simps [simp]:
  "mrID (listed i c t) = i" "mrConversationID (listed i c t) = c" "mrSentAtMS (listed i c t) = t"
  "mrKind (listed i c t) = MessageKindMessage" "message_pos (listed i c t) = (t, i)"
  by (simp_all add: listed_def message_pos_def sample_msg_row_def sample_message_def new_message_def Let_def)

lemma list_db_simps [simp]:
  "dbMessages (list_db ms) = ms" "dbConversations (list_db ms) = [sample_conv_row]" "dbParticipants (list_db ms) = []"
  "dbContacts (list_db ms) = []"
  by (simp_all add: list_db_def db1_def empty_db_def)

lemma list_env_simps [simp]:
  "aeKey list_env = sample_key" "aeRefresh list_env a c d = Inr d" "cursorKey sample_key \<noteq> None"
  "aeSha list_env = ident" "aeUuidParses list_env s = (s \<noteq> [])"
  by (simp_all add: list_env_def cursorKey_def sample_key_def)

lemma any_query_where [simp]: "message_where any_query d (listed i c t)"
  by (simp add: message_where_def message_sender_def any_query_def)

lemma settled_sample:
  "distinct (map mrID ms) \<Longrightarrow> \<forall>m \<in> set ms. nul_free (mrID m) \<and> int64 (mrSentAtMS m) \<Longrightarrow>
   settled list_env any_query (list_db ms)"
  by (simp add: settled_def token_safe_def messages_ok_def) (simp add: any_query_def)

definition older :: msg_row where "older = listed ''msg_1'' ''conv_a'' 5"
definition newer :: msg_row where "newer = listed ''msg_2'' ''conv_a'' 5"
definition newest :: msg_row where "newest = listed ''msg_3'' ''conv_a'' 9"
definition one_row :: query where "one_row = [(''limit'', ''1'')]"

lemma one_row_limit [simp]: "intParam one_row ''limit'' DefaultLimit MaxLimit = Inr 1" "map_of one_row ''cursor'' = None"
  by (simp_all add: intParam_def one_row_def param_def ParseInt_def parse_digits_def dec_digit_def
      read_nat_def digit_value_def int64_def)

lemma sample_dbs:
  "settled list_env any_query (list_db [older, newer])"
  "settled list_env any_query (list_db [older, newest, newer])"
  by (intro settled_sample; simp add: older_def newer_def newest_def nul_free_def int64_def)+

theorem followed_pages_reach_the_end_witness:
  "\<exists>pages. follow list_env one_row any_query (replicate 3 (list_db [older, newer])) [] = (pages, True)
     \<and> concat pages = [newer, older]"
proof -
  have "messages_matching (any_query, list_db [older, newer]) = [older, newer]"
    by (simp add: messages_matching_def older_def newer_def)
  then show ?thesis
    using followed_pages_reach_the_end [OF one_row_limit(2,1) _ sample_dbs(1), of 3]
    by (simp add: older_def newer_def less_prod_def')
qed

definition between :: msg_row where "between = listed ''msg_4'' ''conv_a'' 7"

lemma sample_dbs2:
  "settled list_env any_query (list_db [older, newest])"
  "settled list_env any_query (list_db [older, newest, between])"
  by (intro settled_sample; simp add: older_def between_def newest_def nul_free_def int64_def)+

lemma sample_page:
  "message_page (any_query, list_db [older, newest]) c (Suc 0) = page_desc message_pos c (Suc 0) [older, newest]"
  "message_page (any_query, list_db [older, newest, between]) c (Suc 0) = page_desc message_pos c (Suc 0) [older, newest, between]"
  by (simp_all add: message_page_eq messages_matching_def older_def newest_def between_def clampLimit_def)
     (simp_all add: any_query_def)

lemma sample_pages:
  "page_desc message_pos None (Suc 0) [older, newest] = [newest]"
  "page_desc message_pos (Some (9, ''msg_3'')) (Suc 0) [older, newest, between] = [between]"
  "page_desc message_pos (Some (7, ''msg_4'')) (Suc 0) [older, newest, between] = [older]"
  "page_desc message_pos (Some (5, ''msg_1'')) (Suc 0) [older, newest, between] = []"
  by (simp_all add: page_desc_def older_def newest_def between_def less_prod_def' less_eq_prod_def)

lemma sample_positions [simp]:
  "message_pos newest = (9, ''msg_3'')" "message_pos between = (7, ''msg_4'')" "message_pos older = (5, ''msg_1'')"
  by (simp_all add: newest_def between_def older_def)

lemma sample_walk:
  "walk message_page message_pos 1 (map (Pair any_query)
     [list_db [older, newest], list_db [older, newest, between], list_db [older, newest, between],
      list_db [older, newest, between]]) None = ([[newest], [between], [older], []], True)"
  by (simp add: sample_page sample_pages Let_def)

theorem followed_pages_exactly_once_witness:
  "\<exists>pages. follow list_env one_row any_query
       [list_db [older, newest], list_db [older, newest, between], list_db [older, newest, between],
        list_db [older, newest, between]] [] = (pages, True)
     \<and> length (filter (\<lambda>m. message_pos m = (5, ''msg_1'')) (concat pages)) = 1"
proof -
  let ?ds = "[list_db [older, newest], list_db [older, newest, between], list_db [older, newest, between],
      list_db [older, newest, between]]"
  have st: "\<forall>d \<in> set ?ds. settled list_env any_query d" using sample_dbs2 by simp
  have f: "follow list_env one_row any_query ?ds [] = ([[newest], [between], [older], []], True)"
    using follow_walk [OF one_row_limit(2,1) _ st, of None "[]"] sample_walk by (simp add: token_for_def)
  have "\<forall>d \<in> set ?ds. \<exists>m \<in> set (messages_matching (any_query, d)). message_pos m = (5, ''msg_1'')"
    by (auto simp: messages_matching_def) (auto simp: older_def)
  from followed_pages_exactly_once [OF one_row_limit(2,1) _ st this f] f show ?thesis by simp
qed

theorem message_page_bounded_witness:
  "\<exists>rows token. messagesList list_env [] one_row (list_db [older, newest]) = Inr (rows, token, list_db [older, newest])
     \<and> length rows \<le> 1"
proof -
  have p: "paging list_env one_row EndpointMessages = Inr \<lparr>pgLimit = 1, pgCursor = None, pgEndpoint = EndpointMessages,
      pgFingerprint = filterFingerprint ident one_row\<rparr>"
    by (simp add: paging_def) (simp add: one_row_def param_def)
  have none: "param one_row name = []" if "name \<noteq> ''limit''" for name using that by (simp add: param_def one_row_def)
  have mq: "messageQueryFrom list_env one_row \<lparr>rsAccountID = [], rsAllAccounts = True\<rparr> pg d =
      Inr (any_query\<lparr>mqCursor := pgCursor pg, mqLimit := pgLimit pg\<rparr>)" for pg d
    by (simp add: messageQueryFrom_def none enumParam_def timeParam_def boolParam_def boolFlag_def
        resolveSender_def any_query_def)
  have q: "queryID one_row ''conversation_id'' PrefixConversation = Inr []" by (simp add: queryID_def none)
  have r: "ResolveAccount (aeUuidParses list_env) [] [] Read = Inr \<lparr>rsAccountID = [], rsAllAccounts = True\<rparr>"
    by (simp add: ResolveAccount_def)
  let ?q = "any_query\<lparr>mqCursor := None, mqLimit := 1\<rparr>"
  obtain rows where rows: "ListMessages ?q (list_db [older, newest]) = Inr rows"
    by (simp add: ListMessages_def any_query_def)
  obtain token where "nextCursor list_env \<lparr>pgLimit = 1, pgCursor = None, pgEndpoint = EndpointMessages,
      pgFingerprint = filterFingerprint ident one_row\<rparr> (\<lambda>r. of_key (message_pos r)) rows = Inr token"
    using nextCursor_total [of list_env] by fastforce
  with rows have "messagesList list_env [] one_row (list_db [older, newest]) = Inr (rows, token, list_db [older, newest])"
    by (simp add: messagesList_def p mq q r none serveMessages_def)
  with message_page_bounded [OF this] show ?thesis by auto
qed

definition silent_contact :: contact_row where
  "silent_contact = \<lparr>ctID = ''contact_x'', ctAccountID = ''acct_a'', ctSourceID = ''p'', ctDisplayName = Some ''Ann'',
     ctPhoneE164 = None, ctAvatarHash = None, ctIsTop = False, ctUpdatedAtMS = 1\<rparr>"

theorem contact_without_number_filters_nothing_witness:
  "resolveSender list_env [(''sender'', ''contact_x'')] (db1\<lparr>dbContacts := [silent_contact]\<rparr>) any_query = Inr any_query
   \<and> message_sender any_query (db1\<lparr>dbContacts := [silent_contact]\<rparr>) older"
  using contact_without_number_filters_nothing [of list_env "[(''sender'', ''contact_x'')]"
      "db1\<lparr>dbContacts := [silent_contact]\<rparr>" "scanContact silent_contact" any_query older]
  by (simp add: HasPrefix_def param_def ContactByID_def silent_contact_def any_query_def)

definition conv_named :: "string \<Rightarrow> conv_row" where "conv_named i = sample_conv_row\<lparr>crID := i\<rparr>"

definition two_convs :: db where
  "two_convs = (list_db [listed ''msg_1'' ''conv_a'' 5, listed ''msg_2'' ''conv_b'' 9])
     \<lparr>dbConversations := [conv_named ''conv_a'', conv_named ''conv_b'']\<rparr>"

theorem write_account_never_guessed_witness:
  "rsAccountID (projr (ResolveAccount (\<lambda>s. True) [] [\<lparr>refID = ''acct_a'', refGoogleAccount = ''x'', refState = ''connected''\<rparr>] Write)) = ''acct_a''"
  using write_account_never_guessed [of "\<lambda>s. True" "[]" "[\<lparr>refID = ''acct_a'', refGoogleAccount = ''x'', refState = ''connected''\<rparr>]"
      "\<lparr>rsAccountID = ''acct_a'', rsAllAccounts = False\<rparr>"]
  by (simp add: ResolveAccount_def)

theorem message_context_is_window_witness:
  "\<exists>c. MessageContextAround ''msg_1'' 1 1 False (list_db [older, newest]) = Some c
     \<and> (\<exists>xs ys. [older, newest] = xs @ rev (mcBefore c) @ [older] @ mcAfter c @ ys)"
proof -
  have "\<exists>c. MessageContextAround ''msg_1'' 1 1 False (list_db [older, newest]) = Some c \<and> mcMessage c = older"
    by (simp add: MessageContextAround_def Let_def older_def newest_def)
  then obtain c where c: "MessageContextAround ''msg_1'' 1 1 False (list_db [older, newest]) = Some c" "mcMessage c = older"
    by blast
  have "sort_key message_pos (filter (\<lambda>r. mrConversationID r = mrConversationID older \<and> mrKind r \<noteq> MessageKindSystem)
      [older, newest]) = [older, newest]"
    by (simp add: older_def newest_def less_eq_prod_def)
  moreover have "distinct (map mrID [older, newest])" "mrKind older \<noteq> MessageKindSystem"
    by (simp_all add: older_def newest_def)
  ultimately show ?thesis using message_context_is_window [OF c(1)] c by auto
qed

definition msg_a :: msg_row where "msg_a = listed ''msg_1'' ''conv_a'' 5"
definition msg_b :: msg_row where "msg_b = listed ''msg_2'' ''conv_b'' 9"

lemma two_convs_simps:
  "dbMessages two_convs = [msg_a, msg_b]" "dbConversations two_convs = [conv_named ''conv_a'', conv_named ''conv_b'']"
  "crID (conv_named i) = i" "crAccountID (conv_named i) = ''acct_a''"
  "mrAccountID msg_a = ''acct_a''" "mrConversationID msg_a = ''conv_a''" "mrKind msg_a = MessageKindMessage"
  "mrConversationID msg_b = ''conv_b''" "message_pos msg_a = (5, ''msg_1'')"
  by (simp_all add: two_convs_def msg_a_def msg_b_def conv_named_def sample_conv_row_def)
     (simp_all add: listed_def sample_msg_row_def new_conversation_def)

theorem cursor_not_bound_to_conversation_witness:
  "\<exists>token rowsB tokenB. conversationMessagesList list_env [(''conversation_id'', ''conv_b'')] (with_cursor one_row token) two_convs =
       Inr (rowsB, tokenB, two_convs) \<and> msg_b \<notin> set rowsB"
proof -
  let ?p = "\<lparr>pgLimit = 1, pgCursor = None, pgEndpoint = EndpointMessages, pgFingerprint = filterFingerprint ident one_row\<rparr>"
  let ?mq = "any_query\<lparr>mqAccountID := ''acct_a'', mqAllAccounts := False, mqConversationID := ''conv_a'', mqCursor := None, mqLimit := 1\<rparr>"
  have p: "paging list_env one_row EndpointMessages = Inr ?p"
    by (simp add: paging_def) (simp add: one_row_def param_def)
  have none: "param one_row name = []" if "name \<noteq> ''limit''" for name using that by (simp add: param_def one_row_def)
  have mq: "messageQueryFrom list_env one_row \<lparr>rsAccountID = ''acct_a'', rsAllAccounts = False\<rparr> ?p d =
      Inr (any_query\<lparr>mqAccountID := ''acct_a'', mqAllAccounts := False, mqCursor := None, mqLimit := 1\<rparr>)" for d
    by (simp add: messageQueryFrom_def none enumParam_def timeParam_def boolParam_def boolFlag_def
        resolveSender_def any_query_def)
  have path: "pathID [(''conversation_id'', ''conv_a'')] ''conversation_id'' PrefixConversation = Inr ''conv_a''"
      "pathID [(''conversation_id'', ''conv_b'')] ''conversation_id'' PrefixConversation = Inr ''conv_b''"
    by (simp_all add: pathID_def param_def CheckIDPrefix_def)
  have conv: "ConversationByID ''conv_a'' two_convs = Some (conv_named ''conv_a'')"
      "ConversationByID ''conv_b'' two_convs = Some (conv_named ''conv_b'')"
    by (simp_all add: ConversationByID_def two_convs_simps)
  have "message_where ?mq two_convs msg_a" "\<not> message_where ?mq two_convs msg_b"
    by (simp_all add: message_where_def message_sender_def two_convs_simps any_query_def)
  then have list: "ListMessages ?mq two_convs = Inr [msg_a]"
    by (simp add: ListMessages_def page_desc_def two_convs_simps clampLimit_def)
  obtain token where tok: "EncodeCursor sample_key EndpointMessages (filterFingerprint ident one_row) (of_key (5, ''msg_1'')) = Inr token"
      "token \<noteq> []" using EncodeCursor_total [OF list_env_simps(3)] by blast
  have "serveMessages list_env ?p ?mq two_convs = Inr ([msg_a], token, two_convs)"
    using list tok by (simp add: serveMessages_def nextCursor_def two_convs_simps)
  then have A: "conversationMessagesList list_env [(''conversation_id'', ''conv_a'')] one_row two_convs = Inr ([msg_a], token, two_convs)"
    by (simp add: conversationMessagesList_def p mq path conv two_convs_simps) (simp add: any_query_def)
  have safe: "token_safe two_convs" by (simp add: token_safe_def two_convs_simps) (simp add: msg_a_def msg_b_def nul_free_def int64_def)
  have "\<not> (9, ''msg_2'') < (5 :: int, ''msg_1'')" by (simp add: less_prod_def')
  then show ?thesis
    using cursor_not_bound_to_conversation [OF A tok(2) one_row_limit(2) path(2) conv(2) _ _ safe]
    by (force simp: two_convs_simps msg_b_def)
qed

end
