(* ===== verification/Supervisor.thy ===== *)
theory Supervisor
  imports Account_Rows Ingest Api_Reads
begin

text \<open>
  The account supervisor (\<open>internal/accounts/supervisor.go\<close>, \<open>lifecycle.go\<close>): which accounts run,
  what their events do to their state, how slots are shared out, and how an account is paired and signed
  out. The state is the accounts table, the message database, the registered accounts with what each
  holds, and the history of what was announced and audited. What the phone and the disk answer is the
  environment: whether preparing, connecting, saving a session and listing succeed, and what a sweep
  does to the database. A state change reads the row, writes it and announces the change with no lock
  held; the three parts are definitions of their own. A method as a whole is their composition. The cached
  Google block and logging are not modelled.
\<close>

section \<open>State\<close>

text \<open>What the supervisor holds for one account. \<open>rtIngest\<close> keeps the ingester's counters. \<open>rtPending\<close>: the backend
  comes out of a pairing, and the library's own reconnect (\<open>internal/gm/libgm.go\<close>, \<open>StartGooglePairing\<close>) is still
  to run. \<open>rtAlone\<close> is history: the client was connected by that reconnect or by a cookie refresh, and \<open>Stop\<close> has
  not disconnected it since.\<close>

record runtime =
  rtRunning :: bool
  rtConnected :: bool
  rtLoop :: bool
  rtPending :: bool
  rtAlone :: bool
  rtPhoneResponding :: bool
  rtBackfillPaused :: bool
  rtSweeps :: nat
  rtDM :: "(string \<times> bool) list"
  rtIngest :: ing_state

datatype connect_result = ConnectOK | ConnectFailed bool \<comment> \<open>whether the error signs the account out\<close>

text \<open>\<open>svBusy\<close>: another goroutine is re-evaluating parking, which the \<open>rebalancing\<close> flag tells.\<close>

record sup_env =
  svIng :: ing_env
  svNow :: ms
  svBusy :: bool
  svRefresh :: "string \<Rightarrow> bool"
  svSameAddress :: "string \<Rightarrow> bool"
  svPrepare :: "string \<Rightarrow> bool"
  svConnect :: "string \<Rightarrow> connect_result"
  svSave :: "string \<Rightarrow> bool"
  svShred :: "string \<Rightarrow> bool"
  svList :: "string \<Rightarrow> bool"
  svManual :: bool
  svSweep :: "(string \<Rightarrow> ms \<Rightarrow> db \<Rightarrow> bool \<times> db) option"
  svBackfill :: bool

datatype audit_row =
    AuditStateChanged string "AccountState option" AccountState StateReason
  | AuditPaired string
  | AuditResumed string
  | AuditSignedOut string
  | AuditPairFailed string string

datatype backfill_call = BackfillStart string | BackfillStop string | BackfillPause string | BackfillResume string

record sup =
  spRows :: "acct_row list"
  spDB :: db
  spAccounts :: "(string \<times> runtime) list"
  spMax :: int
  spPairings :: "string list"
  spSessions :: "string list" \<comment> \<open>session files on disk\<close>
  spChanges :: "StateChange list"
  spAudit :: "audit_row list"
  spBackfill :: "backfill_call list"

definition runtime_of :: "string \<Rightarrow> sup \<Rightarrow> runtime option" where
  "runtime_of i s = map_of (spAccounts s) i"

definition set_runtime :: "string \<Rightarrow> (runtime \<Rightarrow> runtime) \<Rightarrow> sup \<Rightarrow> sup" where
  "set_runtime i g s = s\<lparr>spAccounts := map (\<lambda>(j, a). (j, if j = i then g a else a)) (spAccounts s)\<rparr>"

definition is_running :: "string \<Rightarrow> sup \<Rightarrow> bool" where
  "is_running i s = (case runtime_of i s of None \<Rightarrow> False | Some a \<Rightarrow> rtRunning a)"

definition runningCount :: "sup \<Rightarrow> nat" where
  "runningCount s = length (filter (\<lambda>(i, a). rtRunning a) (spAccounts s))"

definition free_slot :: "sup \<Rightarrow> bool" where
  "free_slot s \<longleftrightarrow> spMax s \<le> 0 \<or> int (runningCount s) < spMax s"

section \<open>Transitions\<close>

definition announce :: "sup_env \<Rightarrow> string \<Rightarrow> AccountState option \<Rightarrow> AccountState \<Rightarrow> StateReason \<Rightarrow> sup \<Rightarrow> sup" where
  "announce env i from to reason s =
     s\<lparr>spAudit := spAudit s @ [AuditStateChanged i from to reason],
       spChanges := spChanges s @ [\<lparr>scAccountID = i, scFrom = from, scTo = to, scReason = reason, scAt = svNow env\<rparr>]\<rparr>"

text \<open>What \<open>transition\<close> reads before it writes; nothing when there is no row.\<close>

definition transition_read :: "string \<Rightarrow> sup \<Rightarrow> AccountState option \<times> StateReason" where
  "transition_read i s =
     (case AccountRow i (spRows s) of Inl e \<Rightarrow> (None, ReasonNone) | Inr row \<Rightarrow> (Some (acState row), acReason row))"

definition transition_write :: "sup_env \<Rightarrow> string \<Rightarrow> AccountState \<Rightarrow> StateReason \<Rightarrow> sup \<Rightarrow> sup option" where
  "transition_write env i to reason s =
     (case SetAccountState (svNow env) i to reason (spRows s) of Inl e \<Rightarrow> None | Inr rows \<Rightarrow> Some (s\<lparr>spRows := rows\<rparr>))"

definition transition_tell ::
  "sup_env \<Rightarrow> string \<Rightarrow> AccountState option \<times> StateReason \<Rightarrow> AccountState \<Rightarrow> StateReason \<Rightarrow> sup \<Rightarrow> sup" where
  "transition_tell env i from to reason s =
     (if fst from = Some to \<and> snd from = reason then s else announce env i (fst from) to reason s)"

text \<open>The three in a row, when nothing comes between them. The flag is whether the call succeeded.\<close>

definition transition :: "sup_env \<Rightarrow> string \<Rightarrow> AccountState \<Rightarrow> StateReason \<Rightarrow> sup \<Rightarrow> bool \<times> sup" where
  "transition env i to reason s =
     (case transition_write env i to reason s of
        None \<Rightarrow> (False, s)
      | Some s' \<Rightarrow> (True, transition_tell env i (transition_read i s) to reason s'))"

lemma transition_eq:
  "transition env i to reason s =
     (case SetAccountState (svNow env) i to reason (spRows s) of
        Inl e \<Rightarrow> (False, s)
      | Inr rows \<Rightarrow>
          (let s' = s\<lparr>spRows := rows\<rparr> in
           case AccountRow i (spRows s) of
             Inl e \<Rightarrow> (True, announce env i None to reason s')
           | Inr row \<Rightarrow>
               if acState row = to \<and> acReason row = reason then (True, s')
               else (True, announce env i (Some (acState row)) to reason s')))"
  by (auto simp: Let_def transition_def transition_write_def transition_tell_def transition_read_def split: sum.split)

definition PersistSession :: "sup_env \<Rightarrow> string \<Rightarrow> sup \<Rightarrow> bool \<times> sup" where
  "PersistSession env i s =
     (if svSave env i
      then (True, s\<lparr>spSessions := List.insert i (spSessions s),
                    spRows := SetSessionPresent (svNow env) i True (spRows s)\<rparr>)
      else (False, s))"

definition noteSweep :: "sup_env \<Rightarrow> string \<Rightarrow> sup \<Rightarrow> sup" where
  "noteSweep env i s =
     (set_runtime i (\<lambda>a. a\<lparr>rtSweeps := rtSweeps a + 1\<rparr>) s)
       \<lparr>spRows := SetAccountLastSweep i (svNow env) (spRows s)\<rparr>"

definition run_sweep :: "sup_env \<Rightarrow> string \<Rightarrow> sup \<Rightarrow> sup" where
  "run_sweep env i s =
     (case svSweep env of
        None \<Rightarrow> s
      | Some sweep \<Rightarrow>
          (let since = (case AccountRow i (spRows s) of Inl e \<Rightarrow> 0 | Inr row \<Rightarrow> scanInt (acLastEventAtMS row));
               (ok, d) = sweep i since (spDB s);
               s' = s\<lparr>spDB := d\<rparr>
           in if ok then noteSweep env i s' else s'))"

definition backfill_call :: "sup_env \<Rightarrow> backfill_call \<Rightarrow> sup \<Rightarrow> sup" where
  "backfill_call env c s = (if svBackfill env then s\<lparr>spBackfill := spBackfill s @ [c]\<rparr> else s)"

section \<open>Starting and stopping\<close>

definition start :: "sup_env \<Rightarrow> string \<Rightarrow> sup \<Rightarrow> bool \<times> sup" where
  "start env i s =
     (if runtime_of i s = None then (False, s)
      else if is_running i s then (True, s)
      else if 0 < spMax s \<and> spMax s \<le> int (runningCount s) then transition env i StateParked ReasonCapacity s
      else
        (let s1 = set_runtime i (\<lambda>a. a\<lparr>rtRunning := True\<rparr>) s;
             stopped = set_runtime i (\<lambda>a. a\<lparr>rtRunning := False\<rparr>) s1
         in if \<not> svPrepare env i then (False, snd (transition env i StateError ReasonListenError stopped))
            else case svConnect env i of
              ConnectFailed signsOut \<Rightarrow>
                (False, snd (if signsOut then transition env i StateSignedOut ReasonCredentials stopped
                             else transition env i StateError ReasonListenError stopped))
            | ConnectOK \<Rightarrow>
                (let (saved, s2) = PersistSession env i (set_runtime i (\<lambda>a. a\<lparr>rtConnected := True\<rparr>) s1)
                 in if \<not> saved then (False, s2)
                    else
                      (let s3 = (if svManual env then s2 else set_runtime i (\<lambda>a. a\<lparr>rtLoop := True\<rparr>) s2)
                       in if \<not> svList env i then (False, s3)
                          else transition env i StateConnected ReasonNone
                                 (backfill_call env (BackfillStart i) (run_sweep env i s3))))))"

definition Stop :: "sup_env \<Rightarrow> string \<Rightarrow> sup \<Rightarrow> sup" where
  "Stop env i s =
     (if \<not> is_running i s then s
      else backfill_call env (BackfillStop i)
             (set_runtime i (\<lambda>a. a\<lparr>rtRunning := False, rtConnected := False, rtLoop := False, rtAlone := False\<rparr>) s))"

section \<open>Sharing out the slots\<close>

definition next_parked :: "string list \<Rightarrow> sup \<Rightarrow> string option" where
  "next_parked tried s =
     map_option acID (find (\<lambda>row. acState row = StateParked \<and> acID row \<notin> set tried \<and>
        runtime_of (acID row) s \<noteq> None \<and> \<not> is_running (acID row) s) (Accounts (spRows s)))"

lemma SetAccountState_ids: "SetAccountState now i st x rows = Inr rows' \<Longrightarrow> map acID rows' = map acID rows"
  by (auto simp: SetAccountState_def split: if_splits)

lemma transition_ids [simp]: "map acID (spRows (snd (transition env i st x s))) = map acID (spRows s)"
  by (auto simp: transition_eq announce_def Let_def dest: SetAccountState_ids split: sum.split)

lemma set_runtime_simps [simp]:
  "spRows (set_runtime i g s) = spRows s" "spMax (set_runtime i g s) = spMax s" "spDB (set_runtime i g s) = spDB s"
  "spChanges (set_runtime i g s) = spChanges s"
  by (simp_all add: set_runtime_def)

lemma update_where_ids: "(\<And>r. acID (g r) = acID r) \<Longrightarrow> map acID (update_where P g rows) = map acID rows"
  by (induction rows) auto

lemma run_sweep_ids [simp]: "map acID (spRows (run_sweep env i s)) = map acID (spRows s)"
  by (simp add: run_sweep_def noteSweep_def SetAccountLastSweep_def update_where_ids Let_def split: option.split prod.split)

lemma backfill_call_simps [simp]:
  "spRows (backfill_call env c s) = spRows s" "spAccounts (backfill_call env c s) = spAccounts s"
  "spMax (backfill_call env c s) = spMax s" "spChanges (backfill_call env c s) = spChanges s"
  by (simp_all add: backfill_call_def)

lemma PersistSession_ids: "PersistSession env i s = (ok, s') \<Longrightarrow> map acID (spRows s') = map acID (spRows s)"
  by (auto simp: PersistSession_def SetSessionPresent_def update_where_ids split: if_splits)

lemma start_ids [simp]: "map acID (spRows (snd (start env i s))) = map acID (spRows s)"
  by (auto simp: start_def Let_def split: connect_result.split prod.split dest!: PersistSession_ids)

lemma find_in_set: "find P xs = Some x \<Longrightarrow> x \<in> set xs \<and> P x"
  by (induction xs) (auto split: if_splits)

lemma next_parked_SomeD:
  "next_parked tried s = Some i \<Longrightarrow> i \<in> acID ` set (spRows s) \<and> i \<notin> set tried \<and> runtime_of i s \<noteq> None \<and> \<not> is_running i s"
  using Accounts_newest_first(2) [of "spRows s"] by (auto simp: next_parked_def dest!: find_in_set)

function rebalance :: "sup_env \<Rightarrow> string list \<Rightarrow> sup \<Rightarrow> sup" where
  "rebalance env tried s =
     (if \<not> free_slot s then s
      else case next_parked tried s of
             None \<Rightarrow> s
           | Some i \<Rightarrow> rebalance env (i # tried) (snd (start env i s)))"
  by pat_completeness auto
termination
proof (relation "measure (\<lambda>(env, tried, s). length (filter (\<lambda>j. j \<notin> set tried) (map acID (spRows s))))", goal_cases)
  case (2 env tried s i)
  then have i: "i \<in> set (map acID (spRows s))" "i \<notin> set tried" using next_parked_SomeD by auto
  have le: "length (filter (\<lambda>j. j \<notin> set (i # tried)) js) \<le> length (filter (\<lambda>j. j \<notin> set tried) js)" for js
    by (induction js) auto
  have "length (filter (\<lambda>j. j \<notin> set (i # tried)) js) < length (filter (\<lambda>j. j \<notin> set tried) js)"
    if "i \<in> set js" for js
    using that i(2) le by (induction js) (auto simp: less_Suc_eq_le)
  from this [OF i(1)] show ?case by (simp only: in_measure split_conv start_ids)
qed simp

declare rebalance.simps [simp del]

text \<open>\<open>rebalance\<close> as it is called: while another one is at work it returns at once.\<close>

definition reevaluate :: "sup_env \<Rightarrow> sup \<Rightarrow> sup" where
  "reevaluate env s = (if svBusy env then s else rebalance env [] s)"

definition Start :: "sup_env \<Rightarrow> string \<Rightarrow> sup \<Rightarrow> bool \<times> sup" where
  "Start env i s = (let (ok, s') = start env i s in (ok, reevaluate env s'))"

definition Reconnect :: "sup_env \<Rightarrow> string \<Rightarrow> sup \<Rightarrow> bool \<times> sup" where
  "Reconnect env i s = Start env i (Stop env i s)"

definition SetMaxConcurrent :: "sup_env \<Rightarrow> int \<Rightarrow> sup \<Rightarrow> sup" where
  "SetMaxConcurrent env n s = reevaluate env (s\<lparr>spMax := n\<rparr>)"

definition ReloadMaxConcurrent :: "sup_env \<Rightarrow> int option \<Rightarrow> sup \<Rightarrow> sup" where
  "ReloadMaxConcurrent env setting s =
     (case setting of None \<Rightarrow> reevaluate env s | Some n \<Rightarrow> SetMaxConcurrent env n s)"

definition StopAll :: "sup_env \<Rightarrow> sup \<Rightarrow> sup" where
  "StopAll env s = foldl (\<lambda>s i. Stop env i (snd (PersistSession env i s))) s (sort (map fst (spAccounts s)))"

definition SignOut :: "sup_env \<Rightarrow> string \<Rightarrow> sup \<Rightarrow> bool \<times> sup" where
  "SignOut env i s =
     (let s1 = Stop env i s in
      if \<not> svShred env i then (False, s1)
      else
        (let s2 = s1\<lparr>spSessions := filter (\<lambda>j. j \<noteq> i) (spSessions s1),
                     spRows := SetSessionPresent (svNow env) i False (spRows s1)\<rparr>;
             (ok, s3) = transition env i StateSignedOut ReasonCredentials s2
         in if \<not> ok then (False, s3)
            else (True, reevaluate env (s3\<lparr>spAudit := spAudit s3 @ [AuditSignedOut i]\<rparr>))))"

section \<open>Events\<close>

datatype event =
    EventClientReady "Conversation list"
  | EventAuthTokenRefreshed
  | EventListenTemporaryError
  | EventListenRecovered
  | EventListenFatalError bool
  | EventPingFailed bool int
  | EventPairSuccessful
  | EventGaiaLoggedOut
  | EventRevokePairData
  | EventAccountChange bool
  | EventConversation Conversation
  | EventMessage Message bool
  | EventUserAlert int
  | EventPhoneNotResponding
  | EventPhoneRespondingAgain
  | EventNoDataReceived
  | EventHackySetActiveMayFail
  | EventSettings
  | EventTyping
  | EventUnknown

abbreviation AlertMobileDatabaseSyncing :: int where "AlertMobileDatabaseSyncing \<equiv> 11"
abbreviation AlertMobileDatabaseSyncComplete :: int where "AlertMobileDatabaseSyncComplete \<equiv> 12"
abbreviation AlertMobileDatabaseSyncStarted :: int where "AlertMobileDatabaseSyncStarted \<equiv> 13"

definition PausesBackfill :: "int \<Rightarrow> bool" where
  "PausesBackfill a \<longleftrightarrow> a = AlertMobileDatabaseSyncStarted \<or> a = AlertMobileDatabaseSyncing"

text \<open>The ingester that \<open>register\<close> builds has no engine behind it: no data key and no audit.\<close>

definition live_env :: "sup_env \<Rightarrow> ing_env" where
  "live_env env = (svIng env)\<lparr>ieSeal := None, ieAuditSource := None\<rparr>"

definition ingest_as :: "string \<Rightarrow> (ing_state \<Rightarrow> ing_state) \<Rightarrow> sup \<Rightarrow> sup" where
  "ingest_as i g s =
     (case runtime_of i s of
        None \<Rightarrow> s
      | Some a \<Rightarrow>
          (let st = g ((rtIngest a)\<lparr>isDB := spDB s\<rparr>)
           in (set_runtime i (\<lambda>a. a\<lparr>rtIngest := st\<rparr>) s)\<lparr>spDB := isDB st\<rparr>))"

definition setState :: "sup_env \<Rightarrow> string \<Rightarrow> AccountState \<Rightarrow> StateReason \<Rightarrow> sup \<Rightarrow> sup" where
  "setState env i st reason s = snd (transition env i st reason s)"

definition touch :: "sup_env \<Rightarrow> string \<Rightarrow> sup \<Rightarrow> sup" where
  "touch env i s = s\<lparr>spRows := TouchAccountEvent i (svNow env) (spRows s)\<rparr>"

definition isDM :: "sup_env \<Rightarrow> string \<Rightarrow> string \<Rightarrow> sup \<Rightarrow> bool \<times> sup" where
  "isDM env i convSourceID s =
     (case runtime_of i s of
        None \<Rightarrow> (False, s)
      | Some a \<Rightarrow>
          (case map_of (rtDM a) convSourceID of
             Some v \<Rightarrow> (v, s)
           | None \<Rightarrow>
               (case ConversationByID (ConversationID (ieUuid5 (svIng env)) i convSourceID) (spDB s) of
                  None \<Rightarrow> (False, s)
                | Some c \<Rightarrow> (\<not> crIsGroup c,
                    set_runtime i (\<lambda>a. a\<lparr>rtDM := (convSourceID, \<not> crIsGroup c) # rtDM a\<rparr>) s))))"

definition Apply :: "sup_env \<Rightarrow> string \<Rightarrow> event \<Rightarrow> sup \<Rightarrow> sup" where
  "Apply env i ev s =
     (case ev of
        EventClientReady cs \<Rightarrow>
          setState env i StateConnected ReasonNone
            (foldl (\<lambda>s c. ingest_as i (\<lambda>st. snd (IngestConversation (live_env env) i c st)) s) s cs)
      | EventAuthTokenRefreshed \<Rightarrow> snd (PersistSession env i s)
      | EventListenTemporaryError \<Rightarrow> setState env i StateDegraded ReasonListenError s
      | EventListenRecovered \<Rightarrow> setState env i StateConnected ReasonNone s
      | EventListenFatalError credentialsDead \<Rightarrow>
          (if credentialsDead then setState env i StateSignedOut ReasonCredentials s
           else setState env i StateError ReasonListenError s)
      | EventPingFailed entityNotFound errorCount \<Rightarrow>
          (if entityNotFound then setState env i StateSignedOut ReasonRevokedByPhone s
           else if errorCount > 1 then setState env i StateError ReasonListenError s else s)
      | EventPairSuccessful \<Rightarrow> snd (PersistSession env i s)
      | EventGaiaLoggedOut \<Rightarrow> setState env i StateSignedOut ReasonCookiesExpired s
      | EventRevokePairData \<Rightarrow> setState env i StateSignedOut ReasonRevokedByPhone s
      | EventAccountChange isFake \<Rightarrow>
          (if isFake then s else setState env i StateAccountChanged ReasonAccountSwitched s)
      | EventConversation c \<Rightarrow>
          touch env i (set_runtime i (\<lambda>a. a\<lparr>rtDM := (gcSourceID c, \<not> gcIsGroup c) # rtDM a\<rparr>)
            (ingest_as i (\<lambda>st. snd (IngestConversation (live_env env) i c st)) s))
      | EventMessage m isOld \<Rightarrow>
          (let (dm, s1) = isDM env i (gmmConversationID m) s;
               s2 = ingest_as i (\<lambda>st. snd (snd (IngestMessage (live_env env) i m dm isOld st))) s1
           in if isOld then s2 else touch env i s2)
      | EventUserAlert alert \<Rightarrow>
          touch env i
            (if PausesBackfill alert
             then backfill_call env (BackfillPause i) (set_runtime i (\<lambda>a. a\<lparr>rtBackfillPaused := True\<rparr>) s)
             else if alert = AlertMobileDatabaseSyncComplete
             then backfill_call env (BackfillResume i) (set_runtime i (\<lambda>a. a\<lparr>rtBackfillPaused := False\<rparr>) s)
             else s)
      | EventPhoneNotResponding \<Rightarrow> set_runtime i (\<lambda>a. a\<lparr>rtPhoneResponding := False\<rparr>) s
      | EventPhoneRespondingAgain \<Rightarrow> set_runtime i (\<lambda>a. a\<lparr>rtPhoneResponding := True\<rparr>) s
      | EventNoDataReceived \<Rightarrow> s
      | EventHackySetActiveMayFail \<Rightarrow> s
      | EventSettings \<Rightarrow> s
      | EventTyping \<Rightarrow> s
      | EventUnknown \<Rightarrow> ingest_as i CountUnknown s)"

definition MarkUnresumable :: "sup_env \<Rightarrow> string \<Rightarrow> StateReason \<Rightarrow> sup \<Rightarrow> bool \<times> sup" where
  "MarkUnresumable env i reason s = transition env i StateSignedOut reason s"

section \<open>Pairing\<close>

definition empty_ingest :: "db \<Rightarrow> ing_state" where
  "empty_ingest d = \<lparr>isDB = d, isIgnored = 0, isUnknown = 0, isApplied = 0, isOutOfOrd = 0, isNewMsgs = 0, isAudit = []\<rparr>"

text \<open>The backend of an account that is registered already is replaced. A backend that was just paired
  (\<open>paired\<close>) will reconnect on its own.\<close>

definition register :: "string \<Rightarrow> bool \<Rightarrow> sup \<Rightarrow> sup" where
  "register i paired s =
     (if runtime_of i s \<noteq> None
      then set_runtime i (\<lambda>a. a\<lparr>rtConnected := False, rtPending := paired, rtAlone := False\<rparr>) s
      else s\<lparr>spAccounts := spAccounts s @
              [(i, \<lparr>rtRunning = False, rtConnected = False, rtLoop = False, rtPending = paired, rtAlone = False,
                    rtPhoneResponding = True, rtBackfillPaused = False, rtSweeps = 0, rtDM = [],
                    rtIngest = empty_ingest (spDB s)\<rparr>)]\<rparr>)"

definition Adopt :: "string \<Rightarrow> sup \<Rightarrow> sup" where "Adopt i s = register i False s"

text \<open>The library's reconnect after a pairing, in a goroutine of its own.\<close>

definition library_reconnects :: "string \<Rightarrow> sup \<Rightarrow> sup" where
  "library_reconnects i s =
     (case runtime_of i s of
        None \<Rightarrow> s
      | Some a \<Rightarrow>
          if rtPending a then set_runtime i (\<lambda>a. a\<lparr>rtPending := False, rtConnected := True, rtAlone := True\<rparr>) s else s)"

definition markPairing :: "string \<Rightarrow> bool \<Rightarrow> sup \<Rightarrow> sup" where
  "markPairing i live s =
     (if i = [] then s
      else if live then s\<lparr>spPairings := List.insert i (spPairings s)\<rparr>
      else s\<lparr>spPairings := filter (\<lambda>j. j \<noteq> i) (spPairings s)\<rparr>)"

text \<open>One pairing as the library runs it: the plausible address known when the emoji is shown, if it is
  shown, and how it ends.\<close>

record pairing =
  pnExpectedID :: string
  pnEmojiAddress :: "string option"
  pnStartOK :: bool
  pnCancelled :: bool
  pnAddress :: "string option" \<comment> \<open>the address of the paired device, when it is plausible\<close>
  pnPhoneID :: string
  pnDestRegUUID :: string
  pnDeviceLastSeenMS :: "ms option"

datatype pair_error =
  PairingFailed | PairingWrongAccount | PairingCancelled | NoAccountAddress | PairStoreError | SaveFailed | StartFailed

definition blank_account :: "string \<Rightarrow> string \<Rightarrow> AccountState \<Rightarrow> acct_row" where
  "blank_account i address st =
     \<lparr>acID = i, acGoogleAccount = address, acLabel = None, acState = st, acReason = ReasonNone, acPhoneID = None,
      acDestRegUUID = None, acDeviceLastSeenMS = None, acSessionPresent = False, acPairedAtMS = None,
      acLastEventAtMS = None, acLastSweepAtMS = None, acBackfillCompleteAtMS = None, acCreatedAtMS = 0, acUpdatedAtMS = 0\<rparr>"

text \<open>The emoji callback: \<open>(wrong account?, pending id, new row?, state)\<close>.\<close>

definition on_emoji :: "sup_env \<Rightarrow> pairing \<Rightarrow> sup \<Rightarrow> bool \<times> string \<times> bool \<times> sup" where
  "on_emoji env p s =
     (case pnEmojiAddress p of
        None \<Rightarrow> (False, [], False, s)
      | Some address \<Rightarrow>
          (let i = AccountID (ieUuid5 (svIng env)) address in
           if pnExpectedID p \<noteq> [] \<and> i \<noteq> pnExpectedID p then (True, [], False, s)
           else case AccountRow i (spRows s) of
                  Inr row \<Rightarrow> (False, i, False, s)
                | Inl e \<Rightarrow>
                    (let rows = (case UpsertAccount (svNow env) (blank_account i address StatePairing) (spRows s) of
                                   Inl e \<Rightarrow> spRows s | Inr rows \<Rightarrow> rows)
                     in (False, i, True,
                         announce env i None StatePairing ReasonNone (markPairing i True (s\<lparr>spRows := rows\<rparr>))))))"

definition abandon :: "string \<Rightarrow> bool \<Rightarrow> string \<Rightarrow> sup \<Rightarrow> sup" where
  "abandon pendingID pendingNew reason s =
     (let s1 = markPairing pendingID False s in
      if pendingNew \<and> pendingID \<noteq> []
      then s1\<lparr>spRows := DeletePairingAccount pendingID (spRows s1), spAudit := spAudit s1 @ [AuditPairFailed pendingID reason]\<rparr>
      else s1)"

definition finish_pairing :: "sup_env \<Rightarrow> pairing \<Rightarrow> string \<Rightarrow> bool \<Rightarrow> string \<Rightarrow> sup \<Rightarrow> (pair_error + string) \<times> sup" where
  "finish_pairing env p pendingID pendingNew address s =
     (let i = AccountID (ieUuid5 (svIng env)) address;
          acct = (blank_account i address StateConnected)
             \<lparr>acPhoneID := nullString (pnPhoneID p), acDestRegUUID := nullString (pnDestRegUUID p), acSessionPresent := True,
              acPairedAtMS := nullInt (svNow env), acDeviceLastSeenMS := pnDeviceLastSeenMS p\<rparr>;
          prev = (case AccountRow i (spRows s) of Inl e \<Rightarrow> None | Inr row \<Rightarrow> Some (acState row));
          resumed = (pendingID \<noteq> [] \<and> \<not> pendingNew)
      in case UpsertAccount (svNow env) acct (spRows s) of
           Inl e \<Rightarrow> (Inl PairStoreError, abandon pendingID pendingNew ''store_error'' s)
         | Inr rows \<Rightarrow>
             (let s1 = announce env i prev StateConnected ReasonNone (markPairing i False (s\<lparr>spRows := rows\<rparr>));
                  s2 = s1\<lparr>spAudit := spAudit s1 @ [if resumed then AuditResumed i else AuditPaired i]\<rparr>;
                  s3 = register i True (Stop env i s2);
                  (saved, s4) = PersistSession env i s3
              in if \<not> saved then (Inl SaveFailed, s4)
                 else (let (ok, s5) = Start env i s4 in (if ok then Inr i else Inl StartFailed, s5))))"

definition PairAs :: "sup_env \<Rightarrow> pairing \<Rightarrow> sup \<Rightarrow> (pair_error + string) \<times> sup" where
  "PairAs env p s =
     (let (wrong, pendingID, pendingNew, s1) = on_emoji env p s in
      if \<not> pnStartOK p then (Inl PairingFailed, abandon pendingID pendingNew ''pairing_failed'' s1)
      else if wrong then (Inl PairingWrongAccount, abandon pendingID pendingNew ''pairing_wrong_account'' s1)
      else if pnCancelled p then (Inl PairingCancelled, abandon pendingID pendingNew ''cancelled'' s1)
      else case pnAddress p of
             None \<Rightarrow> (Inl NoAccountAddress, abandon pendingID pendingNew ''no_account_address'' s1)
           | Some address \<Rightarrow>
               if pnExpectedID p \<noteq> [] \<and> AccountID (ieUuid5 (svIng env)) address \<noteq> pnExpectedID p
               then (Inl PairingWrongAccount, abandon pendingID pendingNew ''pairing_wrong_account'' s1)
               else finish_pairing env p pendingID pendingNew address s1)"

definition SweepPairings :: "sup_env \<Rightarrow> int \<Rightarrow> sup \<Rightarrow> (account_error + string list) \<times> sup" where
  "SweepPairings env timeout s =
     (case SweepAbandonedPairings (svNow env) (\<lambda>i. i \<in> set (spPairings s)) (if timeout \<le> 0 then 300000 else timeout) (spRows s) of
        Inl e \<Rightarrow> (Inl e, s)
      | Inr (deleted, rows) \<Rightarrow>
          (Inr deleted, s\<lparr>spRows := rows, spAudit := spAudit s @ map (\<lambda>i. AuditPairFailed i ''abandoned'') deleted\<rparr>))"

section \<open>Fresh cookies\<close>

text \<open>\<open>POST /v1/accounts/{id}/refresh-cookies\<close>. \<open>svRefresh\<close> is whether the library takes the cookies: it then
  connects the backend, whatever the account is. A reconnect of an account that does not run does not
  disconnect it first.\<close>

definition refreshCookies :: "sup_env \<Rightarrow> (string \<times> string) list \<Rightarrow> string \<Rightarrow> sup \<Rightarrow> bool \<times> sup" where
  "refreshCookies env cookies i s =
     (if \<not> (\<exists>r \<in> set (spRows s). acID r = i) \<or> cookies = [] \<or> runtime_of i s = None \<or> \<not> svRefresh env i then (False, s)
      else
        (let s1 = set_runtime i (\<lambda>a. a\<lparr>rtConnected := True, rtAlone := True\<rparr>) s in
         if \<not> svSameAddress env i then (False, s1)
         else
           (let (saved, s2) = PersistSession env i s1
            in if \<not> saved then (False, s2) else Reconnect env i s2)))"

section \<open>Choosing an account, and refusing a write\<close>

definition account_refs :: "acct_row list \<Rightarrow> AccountRef list" where
  "account_refs rows = map (\<lambda>r. \<lparr>refID = acID r, refGoogleAccount = acGoogleAccount r, refState = AccountState_name (acState r)\<rparr>)
     (filter (\<lambda>r. CountsTowardAmbiguity (acState r)) (Accounts rows))"

definition ChooseWriteAccount :: "(string \<Rightarrow> bool) \<Rightarrow> string \<Rightarrow> sup \<Rightarrow> api_error + string" where
  "ChooseWriteAccount uuid_parses requested s =
     (case ResolveAccount uuid_parses requested (account_refs (spRows s)) Write of
        Inl e \<Rightarrow> Inl e | Inr res \<Rightarrow> Inr (rsAccountID res))"

definition CheckWritable :: "string \<Rightarrow> sup \<Rightarrow> api_error option" where
  "CheckWritable i s =
     (case AccountRow i (spRows s) of
        Inl e \<Rightarrow> Some (NotFound (''account '' @ i))
      | Inr row \<Rightarrow>
          if Writable (acState row) then None
          else Some (UnsupportedCapability ReasonNotSignedIn i ''write to'' ''account_state'' (AnyString (AccountState_name (acState row)))))"

end
