(* ===== verification/Supervisor_Feed.thy ===== *)
theory Supervisor_Feed
  imports Supervisor
begin

text \<open>
  Everything the supervisor does as one step relation, what each step touches, and the completeness of
  the change feed: an observer of the feed is never wrong about an account's state.
\<close>

section \<open>What the steps touch\<close>

lemma update_where_absent: "\<not> (\<exists>r \<in> set rows. P r) \<Longrightarrow> update_where P g rows = rows"
  by (induction rows) auto

lemma transition_rows:
  "spRows (snd (transition env i st x s)) =
     update_where (\<lambda>r. acID r = i) (\<lambda>r. r\<lparr>acState := st, acReason := x, acUpdatedAtMS := svNow env\<rparr>) (spRows s)"
proof (cases "\<exists>r \<in> set (spRows s). acID r = i")
  case True
  then show ?thesis by (simp add: transition_eq SetAccountState_def announce_def Let_def split: sum.split)
next
  case False
  with update_where_absent [OF False] show ?thesis by (simp add: transition_eq SetAccountState_def)
qed

lemma transition_frame [simp]:
  "spAccounts (snd (transition env i st x s)) = spAccounts s" "spMax (snd (transition env i st x s)) = spMax s"
  by (simp_all add: transition_eq announce_def Let_def split: sum.split)

lemma runtime_of_set: "runtime_of j (set_runtime i g s) = (if j = i then map_option g (runtime_of j s) else runtime_of j s)"
proof -
  have "map_of (map (\<lambda>(k, a). (k, if k = i then g a else a)) as) j = (if j = i then map_option g (map_of as j) else map_of as j)" for as
    by (induction as) auto
  then show ?thesis by (simp add: runtime_of_def set_runtime_def)
qed

lemma is_running_set:
  "is_running j (set_runtime i g s) =
     (if j = i then (case runtime_of i s of None \<Rightarrow> False | Some a \<Rightarrow> rtRunning (g a)) else is_running j s)"
  by (simp add: is_running_def runtime_of_set split: option.split)

lemma runtime_frame:
  "spAccounts s' = spAccounts s \<Longrightarrow> runtime_of i s' = runtime_of i s \<and> is_running i s' = is_running i s \<and> runningCount s' = runningCount s"
  by (simp add: runtime_of_def is_running_def runningCount_def)

section \<open>State changes that overlap\<close>

text \<open>A state change in flight. \<open>Moving\<close> is a run of \<open>transition\<close>: the account, what was read, where it goes, and
  whether the row is written. \<open>Entering\<close> is the row a pairing writes: when it shows the emoji, in the state
  \<open>pairing\<close>, or when it is done.\<close>

datatype transit =
    Moving string "AccountState option \<times> StateReason" AccountState StateReason bool
  | Entering string "AccountState option" AccountState bool

fun transit_account :: "transit \<Rightarrow> string" where
  "transit_account (Moving i f to x w) = i"
| "transit_account (Entering i f to w) = i"

type_synonym feed_conf = "sup \<times> (nat \<rightharpoonup> transit)"

text \<open>Everything else the supervisor does adds no row, changes no state and no reason, and announces nothing.\<close>

definition quiet_step :: "sup \<Rightarrow> sup \<Rightarrow> bool" where
  "quiet_step s s' \<longleftrightarrow> spChanges s' = spChanges s \<and>
     (\<forall>r' \<in> set (spRows s'). \<exists>r \<in> set (spRows s). acID r' = acID r \<and> acState r' = acState r \<and> acReason r' = acReason r)"

text \<open>Any number of state changes run at once, each cut into its read, its write and its announcement. A read
  may fail and then tells as much as a missing row; a write may fail, which ends the change, except that a
  pairing that shows the emoji ignores it.\<close>

inductive feed_step :: "feed_conf \<Rightarrow> feed_conf \<Rightarrow> bool" where
  quiet: "quiet_step s s' \<Longrightarrow> feed_step (s, ts) (s', ts)"
| read: "ts n = None \<Longrightarrow> was \<in> {transition_read i s, (None, ReasonNone)} \<Longrightarrow>
    feed_step (s, ts) (s, ts(n \<mapsto> Moving i was to reason False))"
| wrote: "ts n = Some (Moving i was to reason False) \<Longrightarrow> transition_write env i to reason s = Some s' \<Longrightarrow>
    feed_step (s, ts) (s', ts(n \<mapsto> Moving i was to reason True))"
| write_failed: "ts n = Some (Moving i was to reason False) \<Longrightarrow> feed_step (s, ts) (s, ts(n := None))"
| told: "ts n = Some (Moving i was to reason True) \<Longrightarrow>
    feed_step (s, ts) (transition_tell env i was to reason s, ts(n := None))"
| pair_read: "ts n = None \<Longrightarrow> was \<in> {fst (transition_read i s), None} \<Longrightarrow>
    (to = StatePairing \<Longrightarrow> \<forall>r \<in> set (spRows s). acID r \<noteq> i) \<Longrightarrow>
    feed_step (s, ts) (s, ts(n \<mapsto> Entering i was to False))"
| pair_wrote: "ts n = Some (Entering (acID a) was (acState a) False) \<Longrightarrow> acReason a = ReasonNone \<Longrightarrow>
    UpsertAccount now a (spRows s) = Inr rows \<Longrightarrow>
    feed_step (s, ts) (s\<lparr>spRows := rows\<rparr>, ts(n \<mapsto> Entering (acID a) was (acState a) True))"
| pair_write_failed: "ts n = Some (Entering i was to False) \<Longrightarrow> feed_step (s, ts) (s, ts(n := None))"
| pair_write_ignored: "ts n = Some (Entering i was StatePairing False) \<Longrightarrow>
    feed_step (s, ts) (s, ts(n \<mapsto> Entering i was StatePairing True))"
| pair_told: "ts n = Some (Entering i was to True) \<Longrightarrow>
    feed_step (s, ts) (announce env i was to ReasonNone s, ts(n := None))"

text \<open>The runs in which no account has two changes in flight at once.\<close>

definition one_each :: "(nat \<rightharpoonup> transit) \<Rightarrow> bool" where
  "one_each ts \<longleftrightarrow> (\<forall>m n t u. ts m = Some t \<and> ts n = Some u \<and> transit_account t = transit_account u \<longrightarrow> m = n)"

definition lone_step :: "feed_conf \<Rightarrow> feed_conf \<Rightarrow> bool" where
  "lone_step x y \<longleftrightarrow> feed_step x y \<and> one_each (snd y)"

abbreviation lone_run :: "feed_conf \<Rightarrow> feed_conf \<Rightarrow> bool" where "lone_run \<equiv> lone_step\<^sup>*\<^sup>*"

section \<open>The supervisor's methods are such runs\<close>

definition cuts :: "sup \<Rightarrow> sup \<Rightarrow> bool" where
  "cuts s s' \<longleftrightarrow> lone_run (s, Map.empty) (s', Map.empty)"

lemma cuts_refl [simp]: "cuts s s"
  by (simp add: cuts_def)

lemma cuts_trans [trans]: "cuts s1 s2 \<Longrightarrow> cuts s2 s3 \<Longrightarrow> cuts s1 s3"
  unfolding cuts_def by (rule rtranclp_trans)

lemma one_each_simps [simp]: "one_each Map.empty" "one_each [n \<mapsto> t]"
  by (simp_all add: one_each_def)

lemma lone_stepI: "feed_step x y \<Longrightarrow> one_each (snd y) \<Longrightarrow> lone_step x y"
  by (simp add: lone_step_def)

lemma cuts_quiet_step: "quiet_step s s' \<Longrightarrow> cuts s s'"
  unfolding cuts_def by (rule r_into_rtranclp) (simp add: lone_step_def feed_step.quiet)

lemma cuts_quiet:
  "spChanges s' = spChanges s \<Longrightarrow>
   \<forall>r' \<in> set (spRows s'). \<exists>r \<in> set (spRows s). acID r' = acID r \<and> acState r' = acState r \<and> acReason r' = acReason r \<Longrightarrow> cuts s s'"
  by (rule cuts_quiet_step) (simp add: quiet_step_def)

lemma cuts_same: "spChanges s' = spChanges s \<Longrightarrow> spRows s' = spRows s \<Longrightarrow> cuts s s'"
  by (rule cuts_quiet) auto

lemma cuts_transition: "cuts s (snd (transition env i st x s))"
proof (cases "transition_write env i st x s")
  case None
  then show ?thesis by (simp add: transition_def)
next
  case (Some s')
  let ?f = "transition_read i s"
  have "lone_run (s, Map.empty) (s, [0 \<mapsto> Moving i ?f st x False])"
    by (rule r_into_rtranclp, rule lone_stepI) (auto intro: feed_step.read)
  also have "lone_step \<dots> (s', [0 \<mapsto> Moving i ?f st x True])"
    using feed_step.wrote [of "[0 \<mapsto> Moving i ?f st x False]" 0 i ?f st x env s s'] Some by (intro lone_stepI) simp_all
  also have "lone_step \<dots> (transition_tell env i ?f st x s', Map.empty)"
    using feed_step.told [of "[0 \<mapsto> Moving i ?f st x True]" 0 i ?f st x s' env] by (intro lone_stepI) simp_all
  finally show ?thesis using Some by (simp add: cuts_def transition_def)
qed

lemma markPairing_simps [simp]:
  "spRows (markPairing i b s) = spRows s" "spChanges (markPairing i b s) = spChanges s"
  "spAccounts (markPairing i b s) = spAccounts s" "spMax (markPairing i b s) = spMax s"
  by (simp_all add: markPairing_def)

lemma announce_simps [simp]:
  "spRows (announce env i was st x s) = spRows s" "spAccounts (announce env i was st x s) = spAccounts s"
  "spMax (announce env i was st x s) = spMax s"
  by (simp_all add: announce_def)

text \<open>The end of a pairing's row: \<open>markPairing\<close> and the announcement.\<close>

lemma cuts_entered:
  assumes "lone_run (s0, Map.empty) (s, [0 \<mapsto> Entering i was st True])"
  shows "cuts s0 (announce env i was st ReasonNone (markPairing j b s))"
proof -
  have "lone_run (s0, Map.empty) (s, [0 \<mapsto> Entering i was st True])" by (rule assms)
  also have "lone_step (s, [0 \<mapsto> Entering i was st True]) (markPairing j b s, [0 \<mapsto> Entering i was st True])"
    by (intro lone_stepI feed_step.quiet) (auto simp: quiet_step_def)
  also have "lone_step (markPairing j b s, [0 \<mapsto> Entering i was st True])
      (announce env i was st ReasonNone (markPairing j b s), Map.empty)"
    using feed_step.pair_told [of "[0 \<mapsto> Entering i was st True]" 0 i was st "markPairing j b s" env] by (intro lone_stepI) simp_all
  finally show ?thesis by (simp add: cuts_def)
qed

lemma cuts_upsert:
  assumes "UpsertAccount now a (spRows s) = Inr rows" "acState a = st" "acReason a = ReasonNone" "acID a = i"
    and "was \<in> {fst (transition_read i s), None}" "st = StatePairing \<Longrightarrow> \<forall>r \<in> set (spRows s). acID r \<noteq> i"
  shows "cuts s (announce env i was st ReasonNone (markPairing j b (s\<lparr>spRows := rows\<rparr>)))"
proof (rule cuts_entered)
  have "lone_run (s, Map.empty) (s, [0 \<mapsto> Entering i was st False])"
    using assms(5,6) by (intro r_into_rtranclp lone_stepI feed_step.pair_read) simp_all
  also have "lone_step \<dots> (s\<lparr>spRows := rows\<rparr>, [0 \<mapsto> Entering i was st True])"
    using feed_step.pair_wrote [of "[0 \<mapsto> Entering i was st False]" 0 a was now s rows] assms(1-4) by (intro lone_stepI) simp_all
  finally show "lone_run (s, Map.empty) (s\<lparr>spRows := rows\<rparr>, [0 \<mapsto> Entering i was st True])" .
qed

lemma cuts_announce_absent:
  assumes "\<forall>r \<in> set (spRows s). acID r \<noteq> i"
  shows "cuts s (announce env i None StatePairing ReasonNone (markPairing j b s))"
proof (rule cuts_entered)
  have "lone_run (s, Map.empty) (s, [0 \<mapsto> Entering i None StatePairing False])"
    using assms by (intro r_into_rtranclp lone_stepI feed_step.pair_read) simp_all
  also have "lone_step \<dots> (s, [0 \<mapsto> Entering i None StatePairing True])"
    using feed_step.pair_write_ignored [of "[0 \<mapsto> Entering i None StatePairing False]" 0 i None s] by (intro lone_stepI) simp_all
  finally show "lone_run (s, Map.empty) (s, [0 \<mapsto> Entering i None StatePairing True])" .
qed

lemma keeps_states:
  "(\<And>r. acID (g r) = acID r \<and> acState (g r) = acState r \<and> acReason (g r) = acReason r) \<Longrightarrow>
   \<forall>r' \<in> set (update_where P g rows). \<exists>r \<in> set rows. acID r' = acID r \<and> acState r' = acState r \<and> acReason r' = acReason r"
  by (auto simp: set_update_where)

lemma cuts_persist: "cuts s (snd (PersistSession env i s))"
  by (rule cuts_quiet) (auto simp: PersistSession_def SetSessionPresent_def set_update_where)

lemma cuts_touch: "cuts s (touch env i s)"
  by (rule cuts_quiet) (auto simp: touch_def TouchAccountEvent_def intro!: keeps_states)

lemma cuts_set_runtime: "cuts s (set_runtime i g s)"
  by (rule cuts_same) simp_all

lemma cuts_backfill: "cuts s (backfill_call env c s)"
  by (rule cuts_same) simp_all

lemma cuts_sweep: "cuts s (run_sweep env i s)"
proof -
  have "cuts s (noteSweep env i (s\<lparr>spDB := d\<rparr>))" for d
    by (rule cuts_quiet) (auto simp: noteSweep_def SetAccountLastSweep_def intro!: keeps_states)
  moreover have "cuts s (s\<lparr>spDB := d\<rparr>)" for d by (rule cuts_same) simp_all
  ultimately show ?thesis by (simp add: run_sweep_def Let_def split: option.split prod.split)
qed

lemma cuts_start: "cuts s (snd (start env i s))"
proof -
  note [intro] = cuts_trans [OF cuts_set_runtime] cuts_trans [OF cuts_trans [OF cuts_set_runtime cuts_set_runtime]]
  let ?s1 = "set_runtime i (\<lambda>a. a\<lparr>rtRunning := True\<rparr>) s"
  let ?s2 = "snd (PersistSession env i (set_runtime i (\<lambda>a. a\<lparr>rtConnected := True\<rparr>) ?s1))"
  have s2: "cuts s ?s2" using cuts_persist by blast
  then have s3: "cuts s (if svManual env then ?s2 else set_runtime i (\<lambda>a. a\<lparr>rtLoop := True\<rparr>) ?s2)"
    using cuts_trans [OF s2 cuts_set_runtime] by simp
  have s4: "cuts s (snd (transition env i StateConnected ReasonNone (backfill_call env (BackfillStart i) (run_sweep env i
      (if svManual env then ?s2 else set_runtime i (\<lambda>a. a\<lparr>rtLoop := True\<rparr>) ?s2)))))"
    using cuts_trans [OF cuts_trans [OF cuts_trans [OF s3 cuts_sweep] cuts_backfill] cuts_transition] by blast
  have stopped: "cuts s (snd (transition env i st x (set_runtime i (\<lambda>a. a\<lparr>rtRunning := False\<rparr>) ?s1)))" for st x
    using cuts_transition by blast
  show ?thesis
    using s2 s3 s4 stopped cuts_transition [of s]
    by (simp add: start_def Let_def split: connect_result.split prod.split) (auto split: if_splits)
qed

lemma cuts_rebalance: "cuts s (rebalance env tried s)"
proof (induction env tried s rule: rebalance.induct)
  case (1 env tried s)
  then show ?case
    by (subst rebalance.simps) (auto split: option.split intro: cuts_trans [OF cuts_start])
qed

lemma cuts_reevaluate: "cuts s (reevaluate env s)"
  by (simp add: reevaluate_def cuts_rebalance)

lemma cuts_Stop: "cuts s (Stop env i s)"
  using cuts_trans [OF cuts_set_runtime cuts_backfill] by (simp add: Stop_def)

lemma cuts_Start: "cuts s (snd (Start env i s))"
  using cuts_trans [OF cuts_start cuts_reevaluate] by (simp add: Start_def case_prod_beta Let_def)

lemma cuts_ingest: "cuts s (ingest_as i g s)"
  by (rule cuts_same) (simp_all add: ingest_as_def Let_def split: option.split)

lemma cuts_ingests: "cuts s (foldl (\<lambda>s c. ingest_as i (g c) s) s cs)"
  by (induction cs arbitrary: s) (auto intro: cuts_trans [OF cuts_ingest])

lemma cuts_Apply: "cuts s (Apply env i ev s)"
proof (cases ev)
  case (EventClientReady cs)
  then show ?thesis using cuts_trans [OF cuts_ingests cuts_transition] by (simp add: Apply_def setState_def)
next
  case (EventConversation c)
  then show ?thesis
    using cuts_trans [OF cuts_trans [OF cuts_ingest cuts_set_runtime] cuts_touch] by (simp add: Apply_def)
next
  case (EventMessage m isOld)
  obtain dm s1 where dm: "isDM env i (gmmConversationID m) s = (dm, s1)" by fastforce
  then have "cuts s s1" using cuts_set_runtime by (auto simp: isDM_def split: option.splits)
  then have ing: "cuts s (ingest_as i g s1)" for g using cuts_ingest by (rule cuts_trans)
  show ?thesis using EventMessage dm ing cuts_trans [OF ing cuts_touch] by (simp add: Apply_def Let_def)
next
  case (EventUserAlert a)
  then show ?thesis
    using cuts_trans [OF cuts_trans [OF cuts_set_runtime cuts_backfill] cuts_touch] cuts_touch
    by (simp add: Apply_def)
qed (use cuts_transition cuts_persist cuts_set_runtime cuts_ingest in \<open>auto simp: Apply_def setState_def\<close>)

lemma cuts_SignOut: "cuts s (snd (SignOut env i s))"
proof -
  let ?s2 = "(Stop env i s)\<lparr>spSessions := filter (\<lambda>j. j \<noteq> i) (spSessions (Stop env i s)),
      spRows := SetSessionPresent (svNow env) i False (spRows (Stop env i s))\<rparr>"
  have "cuts (Stop env i s) ?s2"
    by (rule cuts_quiet) (auto simp: SetSessionPresent_def set_update_where)
  with cuts_Stop have "cuts s ?s2" by (rule cuts_trans)
  then have s3: "cuts s (snd (transition env i StateSignedOut ReasonCredentials ?s2))"
    using cuts_transition by (rule cuts_trans)
  have "cuts s (reevaluate env ((snd (transition env i StateSignedOut ReasonCredentials ?s2))
      \<lparr>spAudit := spAudit (snd (transition env i StateSignedOut ReasonCredentials ?s2)) @ [AuditSignedOut i]\<rparr>))"
    using cuts_trans [OF cuts_trans [OF s3 cuts_same] cuts_reevaluate] by simp
  with s3 cuts_Stop show ?thesis by (simp add: SignOut_def Let_def case_prod_beta)
qed

lemma cuts_markPairing: "cuts s (markPairing i b s)"
  by (rule cuts_same) simp_all

lemma UpsertAccount_Inr:
  assumes "UpsertAccount now a rows = Inr rows'" "r \<in> set rows'"
  shows "(acID r = acID a \<and> acState r = acState a \<and> acReason r = acReason a) \<or> (acID r \<noteq> acID a \<and> r \<in> set rows)"
  using assms by (auto simp: UpsertAccount_def Let_def set_update_where split: if_splits)

lemma cuts_on_emoji: "cuts s (snd (snd (snd (on_emoji env p s))))"
proof (cases "pnEmojiAddress p")
  case None
  then show ?thesis by (simp add: on_emoji_def)
next
  case (Some address)
  let ?i = "AccountID (ieUuid5 (svIng env)) address"
  let ?up = "UpsertAccount (svNow env) (blank_account ?i address StatePairing) (spRows s)"
  have blank: "acState (blank_account ?i address StatePairing) = StatePairing"
      "acReason (blank_account ?i address StatePairing) = ReasonNone" "acID (blank_account ?i address StatePairing) = ?i"
    by (simp_all add: blank_account_def)
  show ?thesis
  proof (cases "AccountRow ?i (spRows s)")
    case (Inr row)
    with Some show ?thesis by (simp add: on_emoji_def Let_def)
  next
    case (Inl e)
    then have no: "\<forall>r \<in> set (spRows s). acID r \<noteq> ?i"
      by (auto simp: AccountRow_def select_one_None_iff split: option.splits)
    show ?thesis
      using Some Inl cuts_upsert [where was = None and s = s, OF _ blank] no cuts_announce_absent [OF no]
      by (cases ?up) (simp_all add: on_emoji_def Let_def)
  qed
qed

lemma cuts_abandon: "cuts s (abandon i new reason s)"
proof -
  let ?s1 = "markPairing i False s"
  have "cuts ?s1 (?s1\<lparr>spRows := DeletePairingAccount i (spRows ?s1), spAudit := a\<rparr>)" for a
    by (rule cuts_quiet) (auto simp: DeletePairingAccount_def)
  from cuts_trans [OF cuts_markPairing this] cuts_markPairing show ?thesis by (simp add: abandon_def Let_def)
qed

lemma cuts_finish_pairing: "cuts s (snd (finish_pairing env p pend new address s))"
proof -
  let ?i = "AccountID (ieUuid5 (svIng env)) address"
  let ?acct = "(blank_account ?i address StateConnected)
     \<lparr>acPhoneID := nullString (pnPhoneID p), acDestRegUUID := nullString (pnDestRegUUID p), acSessionPresent := True,
      acPairedAtMS := nullInt (svNow env), acDeviceLastSeenMS := pnDeviceLastSeenMS p\<rparr>"
  have acct: "acState ?acct = StateConnected" "acReason ?acct = ReasonNone" "acID ?acct = ?i" by (simp_all add: blank_account_def)
  show ?thesis
  proof (cases "UpsertAccount (svNow env) ?acct (spRows s)")
    case (Inl e)
    then show ?thesis using cuts_abandon by (simp add: finish_pairing_def Let_def)
  next
    case (Inr rows)
    have reg: "cuts s' (register ?i True s')" for s' by (rule cuts_same) (simp_all add: register_def)
    have prev: "(case AccountRow ?i (spRows s) of Inl e \<Rightarrow> None | Inr row \<Rightarrow> Some (acState row)) = fst (transition_read ?i s)"
      by (simp add: transition_read_def split: sum.split)
    have aud: "cuts s' (s'\<lparr>spAudit := a\<rparr>)" for s' a by (rule cuts_same) simp_all
    have saved: "cuts s (snd (PersistSession env ?i (register ?i True (Stop env ?i
        (announce env ?i (fst (transition_read ?i s)) StateConnected ReasonNone (markPairing ?i False (s\<lparr>spRows := rows\<rparr>))\<lparr>spAudit := a\<rparr>)))))" for a
      by (rule cuts_trans [OF cuts_trans [OF cuts_trans [OF cuts_trans [OF cuts_upsert [OF Inr acct] aud] cuts_Stop] reg] cuts_persist])
        simp_all
    then show ?thesis
      using Inr cuts_trans [OF saved cuts_Start]
      by (simp add: finish_pairing_def Let_def case_prod_beta prev)
  qed
qed

lemma cuts_PairAs: "cuts s (snd (PairAs env p s))"
proof -
  obtain wrong pend new s1 where e: "on_emoji env p s = (wrong, pend, new, s1)" by (metis prod_cases4)
  with cuts_on_emoji [of s env p] have s1: "cuts s s1" by simp
  show ?thesis
    using e cuts_trans [OF s1 cuts_abandon] cuts_trans [OF s1 cuts_finish_pairing]
    by (simp add: PairAs_def split: option.split)
qed

lemma sweep_candidates_subset:
  "sweep_candidates live cutoff is rows = Inr (deleted, rows') \<Longrightarrow> set rows' \<subseteq> set rows"
proof (induction "is" arbitrary: rows deleted)
  case (Cons i "is")
  from Cons.prems obtain del where "sweep_candidates live cutoff is rows = Inr (del, rows') \<or>
      sweep_candidates live cutoff is (DeletePairingAccount i rows) = Inr (del, rows')"
    by (auto split: sum.splits if_splits)
  moreover have "set (DeletePairingAccount i rows) \<subseteq> set rows" by (auto simp: DeletePairingAccount_def)
  ultimately show ?case using Cons.IH by blast
qed simp

lemma cuts_SweepPairings: "cuts s (snd (SweepPairings env t s))"
proof (cases "SweepAbandonedPairings (svNow env) (\<lambda>i. i \<in> set (spPairings s)) (if t \<le> 0 then 300000 else t) (spRows s)")
  case (Inl e)
  then show ?thesis by (simp add: SweepPairings_def)
next
  case (Inr dr)
  obtain del rows where dr: "dr = (del, rows)" by (cases dr)
  from Inr dr have "set rows \<subseteq> set (spRows s)"
    by (auto simp: SweepAbandonedPairings_def dest: sweep_candidates_subset)
  then have "cuts s (s\<lparr>spRows := rows, spAudit := a\<rparr>)" for a by (intro cuts_quiet) auto
  with Inr dr show ?thesis by (simp add: SweepPairings_def)
qed

text \<open>Everything that changes the supervisor's state: its methods, the events it applies and its timers.\<close>

inductive sup_step :: "sup_env \<Rightarrow> sup \<Rightarrow> sup \<Rightarrow> bool" for env where
  start: "sup_step env s (snd (Start env i s))"
| stop: "sup_step env s (Stop env i s)"
| sign_out: "sup_step env s (snd (SignOut env i s))"
| set_max: "sup_step env s (SetMaxConcurrent env n s)"
| reload_max: "sup_step env s (ReloadMaxConcurrent env setting s)"
| apply_event: "sup_step env s (Apply env i ev s)"
| adopt: "sup_step env s (Adopt i s)"
| pair: "sup_step env s (snd (PairAs env p s))"
| sweep_pairings: "sup_step env s (snd (SweepPairings env timeout s))"
| unresumable: "sup_step env s (snd (MarkUnresumable env i reason s))"
| persist: "sup_step env s (snd (PersistSession env i s))"
| sweep: "sup_step env s (run_sweep env i s)"
| fresh_cookies: "sup_step env s (snd (refreshCookies env cookies i s))"
| reconnected: "sup_step env s (library_reconnects i s)"

text \<open>A run of the supervisor: each step in a world of its own, the time and what the phones and the disk
  answer being free to change between two of them.\<close>

inductive sup_run :: "(sup_env \<Rightarrow> bool) \<Rightarrow> sup \<Rightarrow> sup \<Rightarrow> bool" for world where
  none: "sup_run world s s"
| step: "sup_run world s s' \<Longrightarrow> world env \<Longrightarrow> sup_step env s' s'' \<Longrightarrow> sup_run world s s''"

lemma cuts_SetMaxConcurrent: "cuts s (SetMaxConcurrent env n s)"
proof -
  have "cuts s (s\<lparr>spMax := n\<rparr>)" by (rule cuts_same) simp_all
  then show ?thesis unfolding SetMaxConcurrent_def using cuts_reevaluate by (rule cuts_trans)
qed

lemma cuts_Reconnect: "cuts s (snd (Reconnect env i s))"
  unfolding Reconnect_def using cuts_Stop cuts_Start by (rule cuts_trans)

lemma cuts_refreshCookies: "cuts s (snd (refreshCookies env cookies i s))"
  by (auto simp: refreshCookies_def Let_def case_prod_beta
      intro: cuts_set_runtime cuts_trans [OF cuts_set_runtime cuts_persist]
        cuts_trans [OF cuts_trans [OF cuts_set_runtime cuts_persist] cuts_Reconnect])

lemma cuts_library_reconnects: "cuts s (library_reconnects i s)"
  using cuts_set_runtime by (simp add: library_reconnects_def split: option.split)

lemma sup_step_cuts: "sup_step env s s' \<Longrightarrow> cuts s s'"
proof (induction rule: sup_step.induct)
  case (reload_max s setting)
  then show ?case using cuts_SetMaxConcurrent cuts_reevaluate by (simp add: ReloadMaxConcurrent_def split: option.split)
next
  case (adopt s i)
  then show ?case by (intro cuts_same) (simp_all add: Adopt_def register_def)
next
  case (unresumable s i reason)
  then show ?case using cuts_transition by (simp add: MarkUnresumable_def)
qed (rule cuts_Start cuts_Stop cuts_SignOut cuts_SetMaxConcurrent cuts_Apply cuts_PairAs
  cuts_SweepPairings cuts_persist cuts_sweep cuts_refreshCookies cuts_library_reconnects)+

lemma sup_run_cuts: "sup_run world s s' \<Longrightarrow> cuts s s'"
  by (induction rule: sup_run.induct) (auto intro: cuts_trans sup_step_cuts)

section \<open>An example\<close>

text \<open>Two accounts that share one slot, in a world where everything succeeds.\<close>

definition obliging :: sup_env where
  "obliging = \<lparr>svIng = sample_ing_env, svNow = 1000, svBusy = False, svRefresh = (\<lambda>_. True), svSameAddress = (\<lambda>_. True), svPrepare = (\<lambda>_. True), svConnect = (\<lambda>_. ConnectOK),
     svSave = (\<lambda>_. True), svShred = (\<lambda>_. True), svList = (\<lambda>_. True), svManual = False, svSweep = None, svBackfill = True\<rparr>"

definition idle_runtime :: runtime where
  "idle_runtime = \<lparr>rtRunning = False, rtConnected = False, rtLoop = False, rtPending = False, rtAlone = False, rtPhoneResponding = True,
     rtBackfillPaused = False, rtSweeps = 0, rtDM = [], rtIngest = empty_ingest db1\<rparr>"

definition two_parked :: sup where
  "two_parked = \<lparr>spRows = [blank_account ''a'' ''a@x'' StateParked, blank_account ''b'' ''b@x'' StateParked], spDB = db1,
     spAccounts = [(''a'', idle_runtime), (''b'', idle_runtime)], spMax = 1, spPairings = [], spSessions = [],
     spChanges = [], spAudit = [], spBackfill = []\<rparr>"

lemma obliging_simps [simp]:
  "svNow obliging = 1000" "svPrepare obliging i" "svConnect obliging i = ConnectOK" "svSave obliging i" "svShred obliging i"
  "svList obliging i" "\<not> svBusy obliging" "svRefresh obliging i" "svSameAddress obliging i" "svSweep obliging = None" "svBackfill obliging" "\<not> svManual obliging"
  by (simp_all add: obliging_def)

definition a_started :: sup where "a_started = snd (Start obliging ''a'' two_parked)"

lemma two_parked_rows [simp]: "acState (blank_account i g st) = st" "acID (blank_account i g st) = i"
  "acReason (blank_account i g st) = ReasonNone"
  by (simp_all add: blank_account_def)

lemma a_started_eval:
  "map (\<lambda>r. (acID r, acState r)) (spRows a_started) = [(''a'', StateConnected), (''b'', StateParked)]"
  "map (\<lambda>(i, a). (i, rtRunning a)) (spAccounts a_started) = [(''a'', True), (''b'', False)]"
  "map (\<lambda>c. (scAccountID c, scFrom c, scTo c)) (spChanges a_started) = [(''a'', Some StateParked, StateConnected)]"
  "map scReason (spChanges a_started) = [ReasonNone]" "spMax a_started = 1"
  by (simp_all add: a_started_def Start_def start_def two_parked_def runtime_of_def is_running_def runningCount_def
      set_runtime_def idle_runtime_def PersistSession_def run_sweep_def backfill_call_def transition_eq SetAccountState_def
      SetSessionPresent_def AccountRow_def select_one_def announce_def rebalance.simps reevaluate_def free_slot_def)

section \<open>The feed tells every account's state\<close>

type_synonym known = "string \<rightharpoonup> AccountState \<times> StateReason"

definition heard :: "known \<Rightarrow> StateChange \<Rightarrow> known" where
  "heard k c = k(scAccountID c \<mapsto> (scTo c, scReason c))"

definition moving :: "(nat \<rightharpoonup> transit) \<Rightarrow> string set" where
  "moving ts = transit_account ` ran ts"

text \<open>The observer is right about every account but some.\<close>

definition knows_but :: "string set \<Rightarrow> known \<Rightarrow> acct_row list \<Rightarrow> bool" where
  "knows_but away k rows \<longleftrightarrow> (\<forall>r \<in> set rows. acID r \<notin> away \<longrightarrow> k (acID r) = Some (acState r, acReason r))"

text \<open>What an observer knows of an account in the middle of a change.\<close>

fun midway :: "(AccountState \<times> StateReason) option \<Rightarrow> acct_row \<Rightarrow> transit \<Rightarrow> bool" where
  "midway k r (Moving i was to reason False) \<longleftrightarrow>
     k = Some (acState r, acReason r) \<and> (fst was = None \<or> was = (Some (acState r), acReason r))"
| "midway k r (Moving i was to reason True) \<longleftrightarrow>
     acState r = to \<and> acReason r = reason \<and> (was = (Some to, reason) \<longrightarrow> k = Some (to, reason))"
| "midway k r (Entering i was to False) \<longleftrightarrow> k = Some (acState r, acReason r) \<and> to \<noteq> StatePairing"
| "midway k r (Entering i was to True) \<longleftrightarrow> acState r = to \<and> acReason r = ReasonNone"

definition row_told :: "(AccountState \<times> StateReason) option \<Rightarrow> (nat \<rightharpoonup> transit) \<Rightarrow> acct_row \<Rightarrow> bool" where
  "row_told k ts r \<longleftrightarrow> (acID r \<notin> moving ts \<longrightarrow> k = Some (acState r, acReason r)) \<and>
     (\<forall>n t. ts n = Some t \<and> transit_account t = acID r \<longrightarrow> midway k r t)"

definition informed :: "known \<Rightarrow> feed_conf \<Rightarrow> bool" where
  "informed k x \<longleftrightarrow> (\<forall>r \<in> set (spRows (fst x)). row_told (k (acID r)) (snd x) r)"

lemma moving_iff: "i \<in> moving ts \<longleftrightarrow> (\<exists>n t. ts n = Some t \<and> transit_account t = i)"
  by (auto simp: moving_def ran_def image_iff)

lemma row_told_other:
  assumes "ts n = None \<or> (\<exists>t. ts n = Some t \<and> transit_account t \<noteq> acID r)" "x = None \<or> (\<exists>t. x = Some t \<and> transit_account t \<noteq> acID r)"
  shows "row_told k (ts(n := x)) r = row_told k ts r"
proof -
  have *: "(ts(n := x)) m = Some t \<and> transit_account t = acID r \<longleftrightarrow> ts m = Some t \<and> transit_account t = acID r" for m t
    using assms by auto
  show ?thesis by (simp only: row_told_def moving_iff *)
qed

lemma row_told_set:
  assumes "one_each (ts(n \<mapsto> t))" "transit_account t = acID r"
  shows "row_told k (ts(n \<mapsto> t)) r = midway k r t"
proof -
  have *: "(ts(n \<mapsto> t)) m = Some u \<and> transit_account u = acID r \<longleftrightarrow> m = n \<and> u = t" for m u
    using assms unfolding one_each_def by (metis fun_upd_same option.inject)
  show ?thesis by (simp add: row_told_def moving_iff * del: fun_upd_apply)
qed

lemma row_told_clear:
  assumes "one_each ts" "ts n = Some t" "transit_account t = acID r"
  shows "row_told k (ts(n := None)) r = (k = Some (acState r, acReason r))"
proof -
  have *: "\<not> ((ts(n := None)) m = Some u \<and> transit_account u = acID r)" for m u
    using assms unfolding one_each_def by (metis fun_upd_apply option.distinct(1))
  show ?thesis by (simp add: row_told_def moving_iff * del: fun_upd_apply)
qed

lemma row_told_at: "row_told k ts r \<Longrightarrow> ts n = Some t \<Longrightarrow> transit_account t = acID r \<Longrightarrow> midway k r t"
  by (simp add: row_told_def)

lemma row_told_none:
  assumes "one_each (ts(n \<mapsto> t))" "transit_account t = acID r" "ts n = None" "row_told k ts r"
  shows "k = Some (acState r, acReason r)"
proof -
  have "\<not> (ts m = Some u \<and> transit_account u = acID r)" for m u
    using assms(1-3) unfolding one_each_def by (metis fun_upd_apply option.distinct(1))
  with assms(4) show ?thesis by (simp add: row_told_def moving_iff)
qed

lemma transition_write_Some:
  "transition_write env i st x s = Some s' \<Longrightarrow> spChanges s' = spChanges s \<and>
    spRows s' = update_where (\<lambda>r. acID r = i) (\<lambda>r. r\<lparr>acState := st, acReason := x, acUpdatedAtMS := svNow env\<rparr>) (spRows s)"
  by (auto simp: transition_write_def SetAccountState_def split: sum.splits if_splits)

lemma transition_read_row:
  assumes "\<forall>r \<in> set (spRows s). acID r = i \<longrightarrow> k = Some (acState r, acReason r)" "r \<in> set (spRows s)" "acID r = i"
  shows "transition_read i s = (Some (acState r), acReason r)"
proof (cases "AccountRow i (spRows s)")
  case (Inl e)
  then show ?thesis using assms(2,3) by (auto simp: AccountRow_def select_one_None_iff split: option.splits)
next
  case (Inr q)
  then have "q \<in> set (spRows s)" "acID q = i" by (auto simp: AccountRow_Inr dest: select_one_SomeD)
  then have "k = Some (acState q, acReason q)" "k = Some (acState r, acReason r)" using assms by auto
  with Inr show ?thesis by (simp add: transition_read_def)
qed

text \<open>Each step of such a run announces at most one change, after which the observer is as informed as before.\<close>

lemma informed_quiet:
  assumes "informed k (s, ts)" "quiet_step s s'"
  shows "informed k (s', ts)"
  unfolding informed_def
proof
  fix r' assume "r' \<in> set (spRows (fst (s', ts)))"
  then obtain r where r: "r \<in> set (spRows s)" "acID r' = acID r" "acState r' = acState r" "acReason r' = acReason r"
    using assms(2) by (auto simp: quiet_step_def)
  then have "row_told (k (acID r)) ts r" using assms(1) by (simp add: informed_def)
  moreover have m: "midway v r' t = midway v r t" for v t using r(3,4) by (cases "(v, r, t)" rule: midway.cases) simp_all
  have "row_told v ts r' = row_told v ts r" for v by (simp only: row_told_def m r(2-4))
  ultimately show "row_told (k (acID r')) (snd (s', ts)) r'" using r(2) by simp
qed

lemma informed_step:
  assumes "lone_step x y" "one_each (snd x)" "informed k x"
  shows "\<exists>cs. spChanges (fst y) = spChanges (fst x) @ cs \<and> informed (foldl heard k cs) y"
proof -
  have "feed_step x y" and one: "one_each (snd y)" using assms(1) by (simp_all add: lone_step_def)
  from this(1) show ?thesis
  proof cases
    case (quiet s s' ts)
    then show ?thesis using informed_quiet assms(3) by (intro exI [of _ "[]"]) (simp add: quiet_step_def)
  next
    case (read ts n was i s to reason)
    have told: "row_told (k (acID r)) ts r" if "r \<in> set (spRows s)" for r using assms(3) read(1) that by (simp add: informed_def)
    have known: "k i = Some (acState r, acReason r)" if "r \<in> set (spRows s)" "acID r = i" for r
      using row_told_none [of ts n "Moving i was to reason False" r] one read(2,3) told that by fastforce
    have "informed k y"
      unfolding informed_def read(2) fst_conv snd_conv
    proof
      fix r assume r: "r \<in> set (spRows s)"
      show "row_told (k (acID r)) (ts(n \<mapsto> Moving i was to reason False)) r"
      proof (cases "acID r = i")
        case True
        have "transition_read i s = (Some (acState r), acReason r)"
          using transition_read_row [of s i "k i"] known r True by blast
        with known [OF r True] read(4) True one read(2) show ?thesis by (subst row_told_set) auto
      next
        case False
        then show ?thesis using told [OF r] read(3) by (subst row_told_other) auto
      qed
    qed
    then show ?thesis using read by (intro exI [of _ "[]"]) simp
  next
    case (wrote ts n i was to reason env s s')
    note w = transition_write_Some [OF wrote(4)]
    have "informed k y"
      unfolding informed_def wrote(2) fst_conv snd_conv
    proof
      fix r' assume "r' \<in> set (spRows s')"
      then obtain r where r: "r \<in> set (spRows s)" "acID r' = acID r"
          "acID r = i \<Longrightarrow> acState r' = to \<and> acReason r' = reason" "acID r \<noteq> i \<Longrightarrow> r' = r"
        using w by (auto simp: set_update_where)
      have told: "row_told (k (acID r)) ts r" using assms(3) wrote(1) r(1) by (simp add: informed_def)
      show "row_told (k (acID r')) (ts(n \<mapsto> Moving i was to reason True)) r'"
      proof (cases "acID r = i")
        case True
        then have "midway (k i) r (Moving i was to reason False)" using row_told_at [OF told wrote(3)] by simp
        with True r one wrote(2) show ?thesis by (subst row_told_set) auto
      next
        case False
        then show ?thesis using told r wrote(3) by (subst row_told_other) auto
      qed
    qed
    then show ?thesis using wrote w by (intro exI [of _ "[]"]) simp
  next
    case (write_failed ts n i was to reason s)
    have "row_told (k (acID r)) (ts(n := None)) r" if r: "r \<in> set (spRows s)" for r
    proof -
      have told: "row_told (k (acID r)) ts r" using assms(3) write_failed(1) r by (simp add: informed_def)
      show ?thesis
      proof (cases "acID r = i")
        case True
        then show ?thesis using row_told_at [OF told write_failed(3)] write_failed assms(2) by (subst row_told_clear) auto
      next
        case False
        then show ?thesis using told write_failed(3) by (subst row_told_other) auto
      qed
    qed
    then show ?thesis using write_failed by (intro exI [of _ "[]"]) (simp add: informed_def)
  next
    case (told ts n i was to reason s env)
    let ?same = "fst was = Some to \<and> snd was = reason"
    let ?cs = "if ?same then [] else [\<lparr>scAccountID = i, scFrom = fst was, scTo = to, scReason = reason, scAt = svNow env\<rparr>]"
    have "row_told (foldl heard k ?cs (acID r)) (ts(n := None)) r" if r: "r \<in> set (spRows s)" for r
    proof -
      have told': "row_told (k (acID r)) ts r" using assms(3) told(1) r by (simp add: informed_def)
      show ?thesis
      proof (cases "acID r = i")
        case True
        then have "midway (k i) r (Moving i was to reason True)" using row_told_at [OF told' told(3)] by simp
        then show ?thesis using True told assms(2) by (subst row_told_clear) (auto simp: heard_def prod_eq_iff)
      next
        case False
        then show ?thesis using told' told(3) by (subst row_told_other) (auto simp: heard_def)
      qed
    qed
    moreover have "spChanges (transition_tell env i was to reason s) = spChanges s @ ?cs" "spRows (transition_tell env i was to reason s) = spRows s"
      by (simp_all add: transition_tell_def announce_def)
    ultimately show ?thesis using told by (intro exI [of _ ?cs]) (simp add: informed_def)
  next
    case (pair_read ts n was i s to)
    have "row_told (k (acID r)) (ts(n \<mapsto> Entering i was to False)) r" if r: "r \<in> set (spRows s)" for r
    proof -
      have told: "row_told (k (acID r)) ts r" using assms(3) pair_read(1) r by (simp add: informed_def)
      show ?thesis
      proof (cases "acID r = i")
        case True
        then have "k i = Some (acState r, acReason r)"
          using row_told_none [of ts n "Entering i was to False" r] one pair_read(2,3) told by fastforce
        then show ?thesis using True pair_read r one by (subst row_told_set) auto
      next
        case False
        then show ?thesis using told pair_read(3) by (subst row_told_other) auto
      qed
    qed
    then show ?thesis using pair_read by (intro exI [of _ "[]"]) (simp add: informed_def)
  next
    case (pair_wrote ts n a was now s rows)
    have "row_told (k (acID r)) (ts(n \<mapsto> Entering (acID a) was (acState a) True)) r" if r: "r \<in> set rows" for r
    proof (cases "acID r = acID a")
      case True
      then show ?thesis using UpsertAccount_Inr [OF pair_wrote(5) r] pair_wrote one by (subst row_told_set) auto
    next
      case False
      then have "r \<in> set (spRows s)" using UpsertAccount_Inr [OF pair_wrote(5) r] by simp
      then have "row_told (k (acID r)) ts r" using assms(3) pair_wrote(1) by (simp add: informed_def)
      then show ?thesis using False pair_wrote(3) by (subst row_told_other) auto
    qed
    then show ?thesis using pair_wrote by (intro exI [of _ "[]"]) (simp add: informed_def)
  next
    case (pair_write_failed ts n i was to s)
    have "row_told (k (acID r)) (ts(n := None)) r" if r: "r \<in> set (spRows s)" for r
    proof -
      have told: "row_told (k (acID r)) ts r" using assms(3) pair_write_failed(1) r by (simp add: informed_def)
      show ?thesis
      proof (cases "acID r = i")
        case True
        then show ?thesis using row_told_at [OF told pair_write_failed(3)] pair_write_failed assms(2) by (subst row_told_clear) auto
      next
        case False
        then show ?thesis using told pair_write_failed(3) by (subst row_told_other) auto
      qed
    qed
    then show ?thesis using pair_write_failed by (intro exI [of _ "[]"]) (simp add: informed_def)
  next
    case (pair_write_ignored ts n i was s)
    have "row_told (k (acID r)) (ts(n \<mapsto> Entering i was StatePairing True)) r" if r: "r \<in> set (spRows s)" for r
    proof -
      have told: "row_told (k (acID r)) ts r" using assms(3) pair_write_ignored(1) r by (simp add: informed_def)
      then have "acID r \<noteq> i" using row_told_at [OF told pair_write_ignored(3)] by auto
      then show ?thesis using told pair_write_ignored(3) by (subst row_told_other) auto
    qed
    then show ?thesis using pair_write_ignored by (intro exI [of _ "[]"]) (simp add: informed_def)
  next
    case (pair_told ts n i was to s env)
    let ?c = "\<lparr>scAccountID = i, scFrom = was, scTo = to, scReason = ReasonNone, scAt = svNow env\<rparr>"
    have "row_told (heard k ?c (acID r)) (ts(n := None)) r" if r: "r \<in> set (spRows s)" for r
    proof -
      have told': "row_told (k (acID r)) ts r" using assms(3) pair_told(1) r by (simp add: informed_def)
      show ?thesis
      proof (cases "acID r = i")
        case True
        then show ?thesis using row_told_at [OF told' pair_told(3)] pair_told assms(2) by (subst row_told_clear) (auto simp: heard_def)
      next
        case False
        then show ?thesis using told' pair_told(3) by (subst row_told_other) (auto simp: heard_def)
      qed
    qed
    then show ?thesis using pair_told by (intro exI [of _ "[?c]"]) (simp add: informed_def announce_def)
  qed
qed

lemma informed_run:
  assumes "lone_run (s, Map.empty) x" "knows_but {} k (spRows s)"
  shows "one_each (snd x) \<and> (\<exists>cs. spChanges (fst x) = spChanges s @ cs \<and> informed (foldl heard k cs) x)"
  using assms(1)
proof (induction rule: rtranclp_induct)
  case base
  have "informed k (s, Map.empty)" using assms(2) by (simp add: informed_def row_told_def moving_def knows_but_def)
  then show ?case by (auto intro: exI [of _ "[]"])
next
  case (step y z)
  then obtain cs where "one_each (snd y)" "spChanges (fst y) = spChanges s @ cs" "informed (foldl heard k cs) y" by blast
  moreover from this informed_step [OF step.hyps(2)] obtain ds where
    "spChanges (fst z) = spChanges (fst y) @ ds" "informed (foldl heard (foldl heard k cs) ds) z" by blast
  moreover have "one_each (snd z)" using step.hyps(2) by (simp add: lone_step_def)
  ultimately show ?case by (auto intro: exI [of _ "cs @ ds"])
qed

text \<open>C14: the feed tells every account's state, as long as no account has two state changes in flight at once.
  A subscriber that knows the state and the reason of every account at some moment, and then hears what is
  published, knows the state and the reason of every account that is not in the middle of a change at any
  later moment. Changes of different accounts interleave freely, and writes that are no state change go
  on in between. Every method of the supervisor, run without another, is such a run (\<open>sup_run_cuts\<close>).\<close>

theorem feed_tells_every_state:
  assumes "lone_run (s, Map.empty) (s', ts)" "knows_but {} k (spRows s)"
  shows "\<exists>cs. spChanges s' = spChanges s @ cs \<and> knows_but (moving ts) (foldl heard k cs) (spRows s')"
  using informed_run [OF assms] by (auto simp: informed_def row_told_def knows_but_def)

text \<open>Nothing in the code keeps two changes of one account apart: the event loop runs before \<open>start\<close> makes its own.
  When they overlap, the subscriber can be left with a state that is not the account's: the row is written by
  one and then by the other, and announced in the other order, and nobody corrects it.\<close>

theorem overlapping_changes_mislead:
  assumes "AccountRow i (spRows s) = Inr r" "(to1, x1) \<noteq> (acState r, acReason r)" "(to2, x2) \<noteq> (to1, x1)"
  shows "\<exists>s' cs. feed_step\<^sup>*\<^sup>* (s, Map.empty) (s', Map.empty) \<and> spChanges s' = spChanges s @ cs \<and>
    (\<exists>r'. AccountRow i (spRows s') = Inr r' \<and> acState r' = to2 \<and> acReason r' = x2) \<and> foldl heard k cs i = Some (to1, x1)"
proof -
  have found: "q \<in> set rows \<and> acID q = i" if "AccountRow i rows = Inr q" for q rows
    using that by (auto simp: AccountRow_Inr dest: select_one_SomeD)
  note r = found [OF assms(1)]
  let ?w = "\<lambda>st x s. s\<lparr>spRows := update_where (\<lambda>r. acID r = i) (\<lambda>r. r\<lparr>acState := st, acReason := x, acUpdatedAtMS := 0\<rparr>) (spRows s)\<rparr>"
  let ?env = "obliging\<lparr>svNow := 0\<rparr>"
  have wr: "transition_write ?env i st x u = Some (?w st x u)" if "\<exists>q \<in> set (spRows u). acID q = i" for st x u
    using that by (simp add: transition_write_def SetAccountState_def)
  have row: "AccountRow i (spRows (?w st x u)) = Inr (q\<lparr>acState := st, acReason := x, acUpdatedAtMS := 0\<rparr>)"
    if "AccountRow i (spRows u) = Inr q" for st x u q
  proof -
    have "select_one (\<lambda>r. acID r = i) (update_where (\<lambda>r. acID r = i) (\<lambda>r. r\<lparr>acState := st, acReason := x, acUpdatedAtMS := 0\<rparr>) rows) =
      map_option (\<lambda>r. r\<lparr>acState := st, acReason := x, acUpdatedAtMS := 0\<rparr>) (select_one (\<lambda>r. acID r = i) rows)" for rows :: "acct_row list"
      by (induction rows) auto
    with that show ?thesis by (auto simp: AccountRow_def split: option.splits)
  qed
  let ?s1 = "?w to1 x1 s" let ?s2 = "?w to2 x2 ?s1"
  let ?f1 = "(Some (acState r), acReason r)" and ?f2 = "(Some to1, x1)"
  let ?m1 = "Moving i ?f1 to1 x1" and ?m2 = "Moving i ?f2 to2 x2"
  let ?s3 = "transition_tell ?env i ?f2 to2 x2 ?s2" let ?s4 = "transition_tell ?env i ?f1 to1 x1 ?s3"
  have r1: "AccountRow i (spRows ?s1) = Inr (r\<lparr>acState := to1, acReason := x1, acUpdatedAtMS := 0\<rparr>)" by (rule row [OF assms(1)])
  have 1: "feed_step\<^sup>*\<^sup>* (s, Map.empty) (s, [0 \<mapsto> ?m1 False])"
    by (rule r_into_rtranclp, rule feed_step.read) (simp_all add: transition_read_def assms(1))
  have "feed_step (s, [0 \<mapsto> ?m1 False]) (?s1, [0 \<mapsto> ?m1 True])"
    using feed_step.wrote [where ts = "[0 \<mapsto> ?m1 False]" and n = 0, OF _ wr [of s to1 x1]] r by auto
  with 1 have 2: "feed_step\<^sup>*\<^sup>* (s, Map.empty) (?s1, [0 \<mapsto> ?m1 True])" by (rule rtranclp.rtrancl_into_rtrancl)
  have "feed_step (?s1, [0 \<mapsto> ?m1 True]) (?s1, [0 \<mapsto> ?m1 True, 1 \<mapsto> ?m2 False])"
    by (rule feed_step.read) (use r1 in \<open>simp_all add: transition_read_def\<close>)
  with 2 have 3: "feed_step\<^sup>*\<^sup>* (s, Map.empty) (?s1, [0 \<mapsto> ?m1 True, 1 \<mapsto> ?m2 False])" by (rule rtranclp.rtrancl_into_rtrancl)
  have "\<exists>q \<in> set (spRows ?s1). acID q = i" using found [OF r1] by blast
  then have "feed_step (?s1, [0 \<mapsto> ?m1 True, 1 \<mapsto> ?m2 False]) (?s2, [0 \<mapsto> ?m1 True, 1 \<mapsto> ?m2 True])"
    using feed_step.wrote [where ts = "[0 \<mapsto> ?m1 True, 1 \<mapsto> ?m2 False]" and n = 1, OF _ wr [of ?s1 to2 x2]] by auto
  with 3 have 4: "feed_step\<^sup>*\<^sup>* (s, Map.empty) (?s2, [0 \<mapsto> ?m1 True, 1 \<mapsto> ?m2 True])" by (rule rtranclp.rtrancl_into_rtrancl)
  have "feed_step (?s2, [0 \<mapsto> ?m1 True, 1 \<mapsto> ?m2 True]) (?s3, [0 \<mapsto> ?m1 True])"
    using feed_step.told [where ts = "[0 \<mapsto> ?m1 True, 1 \<mapsto> ?m2 True]" and n = 1 and env = ?env and s = ?s2] by (auto simp: fun_upd_idem)
  with 4 have 5: "feed_step\<^sup>*\<^sup>* (s, Map.empty) (?s3, [0 \<mapsto> ?m1 True])" by (rule rtranclp.rtrancl_into_rtrancl)
  have "feed_step (?s3, [0 \<mapsto> ?m1 True]) (?s4, Map.empty)"
    using feed_step.told [where ts = "[0 \<mapsto> ?m1 True]" and n = 0 and env = ?env and s = ?s3] by auto
  with 5 have 6: "feed_step\<^sup>*\<^sup>* (s, Map.empty) (?s4, Map.empty)" by (rule rtranclp.rtrancl_into_rtrancl)
  have rows: "spRows ?s4 = spRows ?s2" by (simp add: transition_tell_def)
  have "\<exists>cs. spChanges ?s4 = spChanges s @ cs \<and> foldl heard k cs i = Some (to1, x1)"
    using assms(2,3) by (auto simp: transition_tell_def announce_def heard_def)
  then show ?thesis using 6 row [OF r1, of x2 to2] unfolding rows [symmetric] by fastforce
qed

theorem feed_tells_every_state_witness:
  "\<exists>cs. spChanges a_started = spChanges two_parked @ cs \<and>
     knows_but {} (foldl heard [''a'' \<mapsto> (StateParked, ReasonNone), ''b'' \<mapsto> (StateParked, ReasonNone)] cs) (spRows a_started)"
proof -
  have "cuts two_parked a_started"
    unfolding a_started_def by (rule sup_run_cuts [OF sup_run.step [OF sup_run.none _ sup_step.start, of "\<lambda>env. True"]]) simp
  then have "lone_run (two_parked, Map.empty) (a_started, Map.empty)" by (simp add: cuts_def)
  from feed_tells_every_state [OF this, of "[''a'' \<mapsto> (StateParked, ReasonNone), ''b'' \<mapsto> (StateParked, ReasonNone)]"]
  show ?thesis by (simp add: knows_but_def two_parked_def moving_def)
qed

theorem overlapping_changes_mislead_witness:
  "\<exists>s' cs. feed_step\<^sup>*\<^sup>* (two_parked, Map.empty) (s', Map.empty) \<and> spChanges s' = spChanges two_parked @ cs \<and>
    (\<exists>r'. AccountRow ''a'' (spRows s') = Inr r' \<and> acState r' = StateConnected \<and> acReason r' = ReasonNone) \<and>
    foldl heard Map.empty cs ''a'' = Some (StateSignedOut, ReasonCookiesExpired)"
  by (rule overlapping_changes_mislead [of _ _ "blank_account ''a'' ''a@x'' StateParked"])
    (simp_all add: two_parked_def AccountRow_def select_one_def)

end
