(* ===== verification/Supervisor_Slots.thy ===== *)
theory Supervisor_Slots
  imports Supervisor_Feed
begin

text \<open>
  The slots of \<open>accounts.max_concurrent\<close>: how many accounts may run, what a parked account holds, and
  that a free slot does not stay free while a parked account could take it.
\<close>

section \<open>Counting the running accounts\<close>

lemma set_runtime_keys [simp]: "map fst (spAccounts (set_runtime i g s)) = map fst (spAccounts s)"
  by (simp add: set_runtime_def comp_def case_prod_beta)

definition running :: "string \<times> runtime \<Rightarrow> bool" where "running p = rtRunning (snd p)"

lemma runningCount_running: "runningCount s = length (filter running (spAccounts s))"
  by (simp add: runningCount_def running_def [abs_def] case_prod_unfold)

definition on_account :: "string \<Rightarrow> (runtime \<Rightarrow> runtime) \<Rightarrow> string \<times> runtime \<Rightarrow> string \<times> runtime" where
  "on_account i g p = (fst p, if fst p = i then g (snd p) else snd p)"

lemma set_runtime_on_account: "spAccounts (set_runtime i g s) = map (on_account i g) (spAccounts s)"
  by (simp add: set_runtime_def on_account_def case_prod_beta)

lemma filter_running_le:
  "(\<And>a. rtRunning (g a) \<Longrightarrow> rtRunning a) \<Longrightarrow> length (filter running (map (on_account i g) as)) \<le> length (filter running as)"
proof (induction as)
  case (Cons p as)
  then have "running (on_account i g p) \<Longrightarrow> running p" by (auto simp: running_def on_account_def split: if_splits)
  with Cons show ?case by (simp del: filter_map)
qed simp

lemma filter_running_Suc:
  "distinct (map fst as) \<Longrightarrow> length (filter running (map (on_account i g) as)) \<le> length (filter running as) + 1"
proof (induction as)
  case (Cons p as)
  show ?case
  proof (cases "fst p = i")
    case True
    have "i \<notin> fst ` set as" using Cons.prems unfolding True [symmetric] by simp
    then have "fst q \<noteq> i" if "q \<in> set as" for q using that by (metis imageI)
    then have "map (on_account i g) as = as" by (intro map_idI) (simp add: on_account_def)
    then show ?thesis by (simp del: filter_map)
  next
    case False
    then have "on_account i g p = p" by (simp add: on_account_def)
    with Cons show ?thesis by (simp del: filter_map)
  qed
qed simp

lemma runningCount_set_le:
  "(\<And>a. rtRunning (g a) \<Longrightarrow> rtRunning a) \<Longrightarrow> runningCount (set_runtime i g s) \<le> runningCount s"
  using filter_running_le [of g i "spAccounts s"] by (simp add: runningCount_running set_runtime_on_account)

lemma runningCount_set_Suc:
  "distinct (map fst (spAccounts s)) \<Longrightarrow> runningCount (set_runtime i g s) \<le> runningCount s + 1"
  using filter_running_Suc [of "spAccounts s" i g] by (simp add: runningCount_running set_runtime_on_account)

text \<open>Where a step may take the count: not above the limit, unless it was above already.\<close>

definition capped :: "sup \<Rightarrow> sup \<Rightarrow> bool" where
  "capped s s' \<longleftrightarrow> spMax s' = spMax s \<and>
     (distinct (map fst (spAccounts s)) \<longrightarrow> distinct (map fst (spAccounts s')) \<and>
        (0 < spMax s \<longrightarrow> int (runningCount s') \<le> max (int (runningCount s)) (spMax s)))"

lemma capped_refl [simp]: "capped s s"
  by (simp add: capped_def)

lemma capped_trans [trans]: "capped s1 s2 \<Longrightarrow> capped s2 s3 \<Longrightarrow> capped s1 s3"
  by (fastforce simp: capped_def)

lemma capped_same: "spMax s' = spMax s \<Longrightarrow> spAccounts s' = spAccounts s \<Longrightarrow> capped s s'"
  by (simp add: capped_def runningCount_def)

lemma capped_set_runtime: "(\<And>a. rtRunning (g a) \<Longrightarrow> rtRunning a) \<Longrightarrow> capped s (set_runtime i g s)"
  using runningCount_set_le [of g i s] by (auto simp: capped_def)

lemma capped_fields:
  "capped s (set_runtime i (\<lambda>a. a\<lparr>rtConnected := b1 a\<rparr>) s)" "capped s (set_runtime i (\<lambda>a. a\<lparr>rtLoop := b1 a\<rparr>) s)"
  "capped s (set_runtime i (\<lambda>a. a\<lparr>rtPhoneResponding := b1 a\<rparr>) s)" "capped s (set_runtime i (\<lambda>a. a\<lparr>rtBackfillPaused := b1 a\<rparr>) s)"
  "capped s (set_runtime i (\<lambda>a. a\<lparr>rtSweeps := n a\<rparr>) s)" "capped s (set_runtime i (\<lambda>a. a\<lparr>rtDM := dm a\<rparr>) s)"
  "capped s (set_runtime i (\<lambda>a. a\<lparr>rtIngest := st a\<rparr>) s)" "capped s (set_runtime i (\<lambda>a. a\<lparr>rtRunning := False\<rparr>) s)"
  "capped s (set_runtime i (\<lambda>a. a\<lparr>rtRunning := False, rtConnected := False, rtLoop := False, rtAlone := False\<rparr>) s)"
  "capped s (set_runtime i (\<lambda>a. a\<lparr>rtConnected := b1 a, rtAlone := b2 a\<rparr>) s)"
  "capped s (set_runtime i (\<lambda>a. a\<lparr>rtConnected := b1 a, rtPending := b2 a, rtAlone := b3 a\<rparr>) s)"
  "capped s (set_runtime i (\<lambda>a. a\<lparr>rtPending := b1 a, rtConnected := b2 a, rtAlone := b3 a\<rparr>) s)"
  by (rule capped_set_runtime, simp)+

lemma capped_transition: "capped s (snd (transition env i st x s))"
  by (rule capped_same) simp_all

lemma capped_persist: "capped s (snd (PersistSession env i s))"
  by (rule capped_same) (simp_all add: PersistSession_def)

lemma capped_backfill: "capped s (backfill_call env c s)"
  by (rule capped_same) simp_all

lemma capped_sweep: "capped s (run_sweep env i s)"
proof -
  have "capped s (s\<lparr>spDB := d\<rparr>)" for d by (rule capped_same) simp_all
  moreover have "capped s' (noteSweep env i s')" for s'
  proof -
    have "capped s' (set_runtime i (\<lambda>a. a\<lparr>rtSweeps := rtSweeps a + 1\<rparr>) s')" by (rule capped_fields)
    also have "capped \<dots> (noteSweep env i s')" by (rule capped_same) (simp_all add: noteSweep_def)
    finally show ?thesis .
  qed
  ultimately show ?thesis
    by (auto simp: run_sweep_def Let_def split: option.split prod.split intro: capped_trans)
qed

lemma capped_running_True:
  assumes "\<not> (0 < spMax s \<and> spMax s \<le> int (runningCount s))"
  shows "capped s (set_runtime i g s)"
  using assms runningCount_set_Suc [of s i g] by (auto simp: capped_def)

lemmas capped_links = capped_trans [OF _ capped_transition] capped_trans [OF _ capped_persist]
  capped_trans [OF _ capped_backfill] capped_trans [OF _ capped_sweep] capped_fields [THEN capped_trans [rotated]]

lemma capped_start: "capped s (snd (start env i s))"
proof (cases "runtime_of i s = None \<or> is_running i s \<or> (0 < spMax s \<and> spMax s \<le> int (runningCount s))")
  case True
  then show ?thesis using capped_transition by (auto simp: start_def)
next
  case False
  let ?s1 = "set_runtime i (\<lambda>a. a\<lparr>rtRunning := True\<rparr>) s"
  let ?s2 = "snd (PersistSession env i (set_runtime i (\<lambda>a. a\<lparr>rtConnected := True\<rparr>) ?s1))"
  have s1: "capped s ?s1" using False by (intro capped_running_True) blast
  have s2: "capped s ?s2" by (intro capped_links s1)
  have s3: "capped s (if svManual env then ?s2 else set_runtime i (\<lambda>a. a\<lparr>rtLoop := True\<rparr>) ?s2)"
    using capped_trans [OF s2 capped_fields(2)] s2 by simp
  have s4: "capped s (snd (transition env i StateConnected ReasonNone (backfill_call env (BackfillStart i) (run_sweep env i
      (if svManual env then ?s2 else set_runtime i (\<lambda>a. a\<lparr>rtLoop := True\<rparr>) ?s2)))))"
    by (intro capped_links s3)
  have stopped: "capped s (snd (transition env i st x (set_runtime i (\<lambda>a. a\<lparr>rtRunning := False\<rparr>) ?s1)))" for st x
    by (intro capped_links s1)
  show ?thesis
    using False s2 s3 s4 stopped
    by (simp add: start_def Let_def split: connect_result.split prod.split) (auto split: if_splits)
qed

lemma capped_rebalance: "capped s (rebalance env tried s)"
proof (induction env tried s rule: rebalance.induct)
  case (1 env tried s)
  then show ?case
    by (subst rebalance.simps) (auto split: option.split intro: capped_trans [OF capped_start])
qed

lemma capped_reevaluate: "capped s (reevaluate env s)"
  by (simp add: reevaluate_def capped_rebalance)

lemma capped_Start: "capped s (snd (Start env i s))"
  using capped_trans [OF capped_start capped_reevaluate] by (simp add: Start_def case_prod_beta Let_def)

lemma capped_Stop: "capped s (Stop env i s)"
  using capped_trans [OF capped_fields(9) capped_backfill] by (simp add: Stop_def)

lemma capped_ingest: "capped s (ingest_as i g s)"
proof -
  have "capped s ((set_runtime i (\<lambda>a. a\<lparr>rtIngest := st\<rparr>) s)\<lparr>spDB := d\<rparr>)" for st d
    by (rule capped_trans [OF capped_fields(7) capped_same]) simp_all
  then show ?thesis by (simp add: ingest_as_def Let_def split: option.split)
qed

lemma capped_ingests: "capped s (foldl (\<lambda>s c. ingest_as i (g c) s) s cs)"
  by (induction cs arbitrary: s) (auto intro: capped_trans [OF capped_ingest])

lemma capped_touch: "capped s (touch env i s)"
  by (rule capped_same) (simp_all add: touch_def)

lemma capped_Apply: "capped s (Apply env i ev s)"
proof (cases ev)
  case (EventClientReady cs)
  then show ?thesis using capped_trans [OF capped_ingests capped_transition] by (simp add: Apply_def setState_def)
next
  case (EventConversation c)
  then show ?thesis
    using capped_trans [OF capped_trans [OF capped_ingest capped_fields(6)] capped_touch] by (simp add: Apply_def)
next
  case (EventMessage m isOld)
  obtain dm s1 where dm: "isDM env i (gmmConversationID m) s = (dm, s1)" by fastforce
  then have "capped s s1" using capped_fields(6) by (auto simp: isDM_def split: option.splits)
  then have ing: "capped s (ingest_as i g s1)" for g using capped_ingest by (rule capped_trans)
  show ?thesis using EventMessage dm ing capped_trans [OF ing capped_touch] by (simp add: Apply_def Let_def)
next
  case (EventUserAlert a)
  then show ?thesis
    using capped_trans [OF capped_trans [OF capped_fields(4) capped_backfill] capped_touch] capped_touch
    by (simp add: Apply_def)
qed (use capped_transition capped_persist capped_fields capped_ingest in \<open>auto simp: Apply_def setState_def\<close>)

lemma capped_fields_update:
  "spMax s' = spMax s \<Longrightarrow> spAccounts s' = spAccounts s \<Longrightarrow> capped s'' s \<Longrightarrow> capped s'' s'"
  using capped_same capped_trans by blast

lemma capped_SignOut: "capped s (snd (SignOut env i s))"
  by (auto simp: SignOut_def Let_def case_prod_beta
      intro!: capped_Stop capped_trans [OF _ capped_reevaluate] capped_links(1) capped_fields_update [OF _ _ capped_Stop]
        capped_fields_update [OF _ _ capped_links(1)])

lemma capped_register: "capped s (register i paired s)"
proof (cases "runtime_of i s")
  case None
  then show ?thesis by (auto simp: capped_def register_def runtime_of_def runningCount_def map_of_eq_None_iff)
qed (simp add: register_def capped_fields(11))

lemma capped_on_emoji: "capped s (snd (snd (snd (on_emoji env p s))))"
  by (rule capped_same) (simp_all add: on_emoji_def Let_def split: option.split sum.split)

lemma capped_abandon: "capped s (abandon i new reason s)"
  by (rule capped_same) (simp_all add: abandon_def Let_def)

lemma capped_finish_pairing: "capped s (snd (finish_pairing env p pend new address s))"
proof -
  have same: "capped s (announce env i prev st x (markPairing j b (s\<lparr>spRows := rows\<rparr>))\<lparr>spAudit := au\<rparr>)" for i prev st x j b rows au
    by (rule capped_same) simp_all
  have saved: "capped s (snd (PersistSession env i (register i True (Stop env i
      (announce env i prev st x (markPairing j b (s\<lparr>spRows := rows\<rparr>))\<lparr>spAudit := au\<rparr>)))))" for i prev st x j b rows au
    using capped_trans [OF capped_trans [OF capped_trans [OF same capped_Stop] capped_register] capped_persist] .
  show ?thesis
    using saved capped_trans [OF saved capped_Start] capped_abandon
    by (simp add: finish_pairing_def Let_def case_prod_beta split: sum.split)
qed

lemma capped_PairAs: "capped s (snd (PairAs env p s))"
proof -
  obtain wrong pend new s1 where e: "on_emoji env p s = (wrong, pend, new, s1)" by (metis prod_cases4)
  with capped_on_emoji [of s env p] have s1: "capped s s1" by simp
  show ?thesis
    using e capped_trans [OF s1 capped_abandon] capped_trans [OF s1 capped_finish_pairing]
    by (simp add: PairAs_def split: option.split)
qed

lemma capped_SweepPairings: "capped s (snd (SweepPairings env t s))"
  by (rule capped_same) (simp_all add: SweepPairings_def split: sum.split prod.split)

definition keeps_cap :: "sup \<Rightarrow> sup \<Rightarrow> bool" where
  "keeps_cap s s' \<longleftrightarrow> (distinct (map fst (spAccounts s)) \<longrightarrow> distinct (map fst (spAccounts s')) \<and>
     (0 < spMax s' \<longrightarrow> int (runningCount s') \<le> max (int (runningCount s)) (spMax s')))"

lemma capped_keeps: "capped s s' \<Longrightarrow> keeps_cap s s'"
  by (simp add: capped_def keeps_cap_def)

lemma SetMaxConcurrent_keeps: "keeps_cap s (SetMaxConcurrent env n s)"
  using capped_reevaluate [of "s\<lparr>spMax := n\<rparr>" env] by (simp add: capped_def keeps_cap_def SetMaxConcurrent_def runningCount_def)

lemma capped_Reconnect: "capped s (snd (Reconnect env i s))"
  unfolding Reconnect_def using capped_Stop capped_Start by (rule capped_trans)

lemma capped_refreshCookies: "capped s (snd (refreshCookies env cookies i s))"
  by (auto simp: refreshCookies_def Let_def case_prod_beta
      intro: capped_fields(10) capped_trans [OF capped_fields(10) capped_persist]
        capped_trans [OF capped_trans [OF capped_fields(10) capped_persist] capped_Reconnect])

lemma capped_library_reconnects: "capped s (library_reconnects i s)"
  using capped_fields(12) by (simp add: library_reconnects_def split: option.split)

lemma sup_step_keeps: "sup_step env s s' \<Longrightarrow> keeps_cap s s'"
proof (induction rule: sup_step.induct)
  case (reload_max s setting)
  then show ?case using SetMaxConcurrent_keeps capped_keeps [OF capped_reevaluate]
    by (simp add: ReloadMaxConcurrent_def split: option.split)
next
  case (set_max s n)
  then show ?case by (rule SetMaxConcurrent_keeps)
next
  case (adopt s i)
  then show ?case using capped_keeps [OF capped_register] by (simp add: Adopt_def)
next
  case (unresumable s i reason)
  then show ?case using capped_keeps [OF capped_transition] by (simp add: MarkUnresumable_def)
qed (rule capped_keeps capped_Start capped_Stop capped_SignOut capped_Apply capped_PairAs
  capped_SweepPairings capped_persist capped_sweep capped_refreshCookies capped_library_reconnects)+

text \<open>C8: the limit on accounts that run at once. Whatever step the supervisor takes, an account
  beyond the limit never starts: if more accounts run than \<open>max_concurrent\<close> allows, then no more run than
  before the step, so the limit was lowered under accounts already running, which are not preempted.\<close>

theorem running_accounts_capped:
  assumes "sup_run (\<lambda>env. True) s0 s" "distinct (map fst (spAccounts s0))" "sup_step env s s'"
    and "0 < spMax s'"
  shows "int (runningCount s') \<le> max (int (runningCount s)) (spMax s')"
proof -
  have "distinct (map fst (spAccounts s))" using assms(1,2)
    by (induction rule: sup_run.induct) (auto simp: keeps_cap_def dest: sup_step_keeps)
  with sup_step_keeps [OF assms(3)] assms(4) show ?thesis by (simp add: keeps_cap_def)
qed

theorem running_accounts_capped_witness:
  "int (runningCount a_started) \<le> max (int (runningCount two_parked)) (spMax a_started) \<and> runningCount a_started = 1"
proof -
  have "distinct (map fst (spAccounts two_parked))" by (simp add: two_parked_def)
  moreover have "length (filter (\<lambda>(i, b). b) (map (\<lambda>(i, a). (i, rtRunning a)) (spAccounts a_started))) = 1"
    by (simp only: a_started_eval) simp
  ultimately show ?thesis
    using running_accounts_capped [OF sup_run.none _ sup_step.start [of obliging two_parked "''a''"]] a_started_eval(5)
    by (simp add: a_started_def [symmetric] runningCount_def comp_def case_prod_unfold)
qed

end
