(* ===== verification/Supervisor_Parked.thy ===== *)
theory Supervisor_Parked
  imports Supervisor_Slots
begin

text \<open>
  What a parked account holds and what it may keep, what starting an account does step by step, that a free slot is handed to
  an account that waits, and the half-started account that a failed save leaves behind.
\<close>

section \<open>What a parked account holds\<close>

definition parked_ids :: "sup \<Rightarrow> string set" where
  "parked_ids s = acID ` {r \<in> set (spRows s). acState r = StateParked}"

text \<open>Whether it runs, whether it has a client that \<open>start\<close> connected, and whether it has an event loop.\<close>

definition holdings :: "string \<Rightarrow> sup \<Rightarrow> (bool \<times> bool \<times> bool) option" where
  "holdings i s = map_option (\<lambda>a. (rtRunning a, rtConnected a \<and> \<not> rtAlone a, rtLoop a)) (runtime_of i s)"

lemma is_running_holdings: "is_running i s \<longleftrightarrow> (\<exists>c l. holdings i s = Some (True, c, l))"
  by (auto simp: is_running_def holdings_def split: option.split)

lemma registered_holdings: "runtime_of i s = None \<longleftrightarrow> holdings i s = None"
  by (simp add: holdings_def)

lemma holdings_set:
  "holdings j (set_runtime i g s) =
     (if j = i then map_option (\<lambda>a. (rtRunning (g a), rtConnected (g a) \<and> \<not> rtAlone (g a), rtLoop (g a))) (runtime_of j s) else holdings j s)"
  by (simp add: holdings_def runtime_of_set option.map_comp comp_def)

lemma parked_ids_iff: "j \<in> parked_ids s \<longleftrightarrow> (\<exists>r. r \<in> set (spRows s) \<and> acState r = StateParked \<and> acID r = j)"
  by (auto simp: parked_ids_def)

lemma parked_ids_update:
  assumes "\<And>r. acID (g r) = acID r" "\<And>r. acState (g r) \<noteq> StateParked"
  shows "acID ` {r \<in> set (update_where (\<lambda>r. acID r = i) g rows). acState r = StateParked} =
    acID ` {r \<in> set rows. acState r = StateParked} - {i}"
proof (induction rows)
  case (Cons r rows)
  have "{r \<in> set (update_where (\<lambda>r. acID r = i) g (q # qs)). acState r = StateParked} =
     (if acState q = StateParked \<and> acID q \<noteq> i then {q} else {}) \<union>
     {r \<in> set (update_where (\<lambda>r. acID r = i) g qs). acState r = StateParked}" for q qs
    using assms(2) by auto
  moreover have "{r \<in> set (q # qs). acState r = StateParked} =
     (if acState q = StateParked then {q} else {}) \<union> {r \<in> set qs. acState r = StateParked}" for q qs
    by auto
  ultimately show ?case using Cons by (simp only: image_Un) auto
qed simp

lemma parked_ids_transition: "st \<noteq> StateParked \<Longrightarrow> parked_ids (snd (transition env i st x s)) = parked_ids s - {i}"
  unfolding parked_ids_def transition_rows by (rule parked_ids_update) simp_all

lemma transition_parks:
  assumes "\<exists>q \<in> set (spRows s). acID q = i"
  shows "i \<in> parked_ids (snd (transition env i StateParked x s))"
proof -
  from assms obtain q where q: "q \<in> set (spRows s)" "acID q = i" by blast
  then have "q\<lparr>acState := StateParked, acReason := x, acUpdatedAtMS := svNow env\<rparr> \<in>
      set (spRows (snd (transition env i StateParked x s)))"
    by (auto simp: transition_rows set_update_where)
  then show ?thesis using q by (force simp: parked_ids_iff)
qed

text \<open>A step that parks nobody and touches nobody's client.\<close>

definition calm :: "sup \<Rightarrow> sup \<Rightarrow> bool" where
  "calm s s' \<longleftrightarrow> (\<forall>i. holdings i s' = holdings i s) \<and> parked_ids s' \<subseteq> parked_ids s"

lemma calm_refl [simp]: "calm s s"
  by (simp add: calm_def)

lemma calm_trans [trans]: "calm s1 s2 \<Longrightarrow> calm s2 s3 \<Longrightarrow> calm s1 s3"
  by (auto simp: calm_def)

lemma calm_rows:
  "spAccounts s' = spAccounts s \<Longrightarrow>
   (\<And>r'. r' \<in> set (spRows s') \<Longrightarrow> acState r' = StateParked \<Longrightarrow> \<exists>r \<in> set (spRows s). acID r = acID r' \<and> acState r = StateParked)
   \<Longrightarrow> calm s s'"
  unfolding calm_def holdings_def runtime_of_def subset_iff parked_ids_iff by (metis (no_types))

lemma calm_same: "spAccounts s' = spAccounts s \<Longrightarrow> spRows s' = spRows s \<Longrightarrow> calm s s'"
  by (rule calm_rows) auto

lemma calm_transition: "st \<noteq> StateParked \<Longrightarrow> calm s (snd (transition env i st x s))"
  using runtime_frame [of "snd (transition env i st x s)" s] by (auto simp: calm_def holdings_def parked_ids_transition)

lemma calm_fields:
  "calm s (set_runtime i (\<lambda>a. a\<lparr>rtPhoneResponding := b a\<rparr>) s)" "calm s (set_runtime i (\<lambda>a. a\<lparr>rtBackfillPaused := b a\<rparr>) s)"
  "calm s (set_runtime i (\<lambda>a. a\<lparr>rtSweeps := n a\<rparr>) s)" "calm s (set_runtime i (\<lambda>a. a\<lparr>rtDM := dm a\<rparr>) s)"
  "calm s (set_runtime i (\<lambda>a. a\<lparr>rtIngest := st a\<rparr>) s)"
  by (simp_all add: calm_def holdings_set parked_ids_def) (simp_all add: holdings_def)

lemma calm_persist: "calm s (snd (PersistSession env i s))"
  by (rule calm_rows) (auto simp: PersistSession_def SetSessionPresent_def set_update_where split: if_splits)

lemma calm_touch: "calm s (touch env i s)"
  by (rule calm_rows) (auto simp: touch_def TouchAccountEvent_def set_update_where split: if_splits)

lemma calm_backfill: "calm s (backfill_call env c s)"
  by (rule calm_same) simp_all

lemma calm_sweep: "calm s (run_sweep env i s)"
proof -
  have db: "calm s (s\<lparr>spDB := d\<rparr>)" for d by (rule calm_same) simp_all
  have "calm s' (noteSweep env i s')" for s'
  proof -
    have "calm s' (set_runtime i (\<lambda>a. a\<lparr>rtSweeps := rtSweeps a + 1\<rparr>) s')" by (rule calm_fields)
    also have "calm \<dots> (noteSweep env i s')"
      by (rule calm_rows) (auto simp: noteSweep_def SetAccountLastSweep_def set_update_where split: if_splits)
    finally show ?thesis .
  qed
  with db show ?thesis by (auto simp: run_sweep_def Let_def split: option.split prod.split intro: calm_trans)
qed

lemma calm_ingest: "calm s (ingest_as i g s)"
proof -
  have "calm s ((set_runtime i (\<lambda>a. a\<lparr>rtIngest := st\<rparr>) s)\<lparr>spDB := d\<rparr>)" for st d
    by (rule calm_trans [OF calm_fields(5) calm_same]) simp_all
  then show ?thesis by (simp add: ingest_as_def Let_def split: option.split)
qed

lemma calm_ingests: "calm s (foldl (\<lambda>s c. ingest_as i (g c) s) s cs)"
  by (induction cs arbitrary: s) (auto intro: calm_trans [OF calm_ingest])

text \<open>No event parks an account, starts it or stops it.\<close>

lemma calm_Apply: "calm s (Apply env i ev s)"
proof (cases ev)
  case (EventClientReady cs)
  then show ?thesis by (simp add: Apply_def setState_def calm_trans [OF calm_ingests calm_transition])
next
  case (EventConversation c)
  then show ?thesis
    using calm_trans [OF calm_trans [OF calm_ingest calm_fields(4)] calm_touch] by (simp add: Apply_def)
next
  case (EventMessage m isOld)
  obtain dm s1 where dm: "isDM env i (gmmConversationID m) s = (dm, s1)" by fastforce
  then have "calm s s1" using calm_fields(4) by (auto simp: isDM_def split: option.splits)
  then have ing: "calm s (ingest_as i g s1)" for g using calm_ingest by (rule calm_trans)
  show ?thesis using EventMessage dm ing calm_trans [OF ing calm_touch] by (simp add: Apply_def Let_def)
next
  case (EventUserAlert a)
  then show ?thesis
    using calm_trans [OF calm_trans [OF calm_fields(2) calm_backfill] calm_touch] calm_touch
    by (simp add: Apply_def)
qed (use calm_transition calm_persist calm_fields calm_ingest in \<open>auto simp: Apply_def setState_def\<close>)

section \<open>What starting an account does\<close>

definition obliges :: "sup_env \<Rightarrow> bool" where
  "obliges env \<longleftrightarrow> (\<forall>i. svSave env i \<and> svList env i)"

definition sound :: "string \<Rightarrow> sup \<Rightarrow> bool" where
  "sound i s \<longleftrightarrow> (case holdings i s of None \<Rightarrow> True | Some (r, c, l) \<Rightarrow> (c \<or> l) \<longrightarrow> r)"

lemma holdings_loop: "holdings i s = Some (r, c, l) \<Longrightarrow> holdings i (set_runtime i (\<lambda>a. a\<lparr>rtLoop := True\<rparr>) s) = Some (r, c, True)"
  by (auto simp: holdings_set holdings_def [of i s])

text \<open>The states \<open>start\<close> goes through: the slot given back, the session saved, the event loop running, and
  the sweep and the backfill done.\<close>

definition halted :: "string \<Rightarrow> sup \<Rightarrow> sup" where
  "halted i s = set_runtime i (\<lambda>a. a\<lparr>rtRunning := False\<rparr>) (set_runtime i (\<lambda>a. a\<lparr>rtRunning := True\<rparr>) s)"

definition opened :: "sup_env \<Rightarrow> string \<Rightarrow> sup \<Rightarrow> sup" where
  "opened env i s = snd (PersistSession env i
     (set_runtime i (\<lambda>a. a\<lparr>rtConnected := True\<rparr>) (set_runtime i (\<lambda>a. a\<lparr>rtRunning := True\<rparr>) s)))"

definition looping :: "sup_env \<Rightarrow> string \<Rightarrow> sup \<Rightarrow> sup" where
  "looping env i s =
     (if svManual env then opened env i s else set_runtime i (\<lambda>a. a\<lparr>rtLoop := True\<rparr>) (opened env i s))"

definition caught_up :: "sup_env \<Rightarrow> string \<Rightarrow> sup \<Rightarrow> sup" where
  "caught_up env i s = backfill_call env (BackfillStart i) (run_sweep env i (looping env i s))"

lemma start_free:
  assumes "runtime_of i s \<noteq> None" "\<not> is_running i s" "free_slot s"
  shows "start env i s =
    (if \<not> svPrepare env i then (False, snd (transition env i StateError ReasonListenError (halted i s)))
     else case svConnect env i of
       ConnectFailed signsOut \<Rightarrow>
         (False, snd (if signsOut then transition env i StateSignedOut ReasonCredentials (halted i s)
                      else transition env i StateError ReasonListenError (halted i s)))
     | ConnectOK \<Rightarrow>
         if \<not> svSave env i then (False, opened env i s) else if \<not> svList env i then (False, looping env i s)
         else transition env i StateConnected ReasonNone (caught_up env i s))"
proof -
  have c: "\<not> (0 < spMax s \<and> spMax s \<le> int (runningCount s))" using assms(3) by (auto simp: free_slot_def)
  show ?thesis
    unfolding start_def if_not_P [OF assms(1)] if_not_P [OF assms(2)] if_not_P [OF c] Let_def
      halted_def caught_up_def looping_def opened_def PersistSession_def
    by (simp split: connect_result.split)
qed

lemma start_outcomes:
  assumes "runtime_of i s \<noteq> None" "\<not> is_running i s" "free_slot s"
  obtains (halted) st x where "st \<noteq> StateParked" "snd (start env i s) = snd (transition env i st x (halted i s))"
    | (unsaved) "\<not> svSave env i" "snd (start env i s) = opened env i s"
    | (unlisted) "\<not> svList env i" "snd (start env i s) = looping env i s"
    | (connected) "snd (start env i s) = snd (transition env i StateConnected ReasonNone (caught_up env i s))"
proof -
  have "\<exists>st x. st \<noteq> StateParked \<and> snd (start env i s) = snd (transition env i st x (halted i s))"
    if "\<not> svPrepare env i \<or> svConnect env i \<noteq> ConnectOK"
  proof (cases "svPrepare env i \<and> svConnect env i = ConnectFailed True")
    case True
    then show ?thesis
      by (intro exI [of _ StateSignedOut] exI [of _ ReasonCredentials]) (simp add: start_free [OF assms])
  next
    case False
    then have "svPrepare env i \<Longrightarrow> svConnect env i = ConnectFailed False" using that by (cases "svConnect env i") auto
    then show ?thesis
      by (intro exI [of _ StateError] exI [of _ ReasonListenError]) (simp add: start_free [OF assms])
  qed
  moreover have "svPrepare env i \<Longrightarrow> svConnect env i = ConnectOK \<Longrightarrow> snd (start env i s) =
      (if \<not> svSave env i then opened env i s else if \<not> svList env i then looping env i s
       else snd (transition env i StateConnected ReasonNone (caught_up env i s)))"
    by (simp add: start_free [OF assms])
  ultimately show thesis using that by (metis (full_types))
qed

lemma holdings_stages:
  assumes "runtime_of i s = Some a"
  shows "holdings j (halted i s) = (if j = i then Some (False, rtConnected a \<and> \<not> rtAlone a, rtLoop a) else holdings j s)"
    and "holdings j (opened env i s) = (if j = i then Some (True, \<not> rtAlone a, rtLoop a) else holdings j s)"
    and "holdings j (looping env i s) = (if j = i then Some (True, \<not> rtAlone a, rtLoop a \<or> \<not> svManual env) else holdings j s)"
proof -
  show "holdings j (halted i s) = (if j = i then Some (False, rtConnected a \<and> \<not> rtAlone a, rtLoop a) else holdings j s)"
    using assms by (simp add: halted_def holdings_set runtime_of_set)
  show o: "holdings j (opened env i s) = (if j = i then Some (True, \<not> rtAlone a, rtLoop a) else holdings j s)" for j
    using calm_persist [of "set_runtime i (\<lambda>a. a\<lparr>rtConnected := True\<rparr>) (set_runtime i (\<lambda>a. a\<lparr>rtRunning := True\<rparr>) s)" env i] assms
    by (simp add: opened_def calm_def holdings_set runtime_of_set)
  show "holdings j (looping env i s) = (if j = i then Some (True, \<not> rtAlone a, rtLoop a \<or> \<not> svManual env) else holdings j s)"
    using o holdings_loop [of i "opened env i s"] by (simp add: looping_def holdings_set)
qed

lemma parked_stages:
  "parked_ids (halted i s) = parked_ids s" "parked_ids (opened env i s) \<subseteq> parked_ids s"
  "parked_ids (looping env i s) \<subseteq> parked_ids s"
proof -
  show "parked_ids (halted i s) = parked_ids s" by (simp add: halted_def parked_ids_def)
  show o: "parked_ids (opened env i s) \<subseteq> parked_ids s"
    using calm_persist [of "set_runtime i (\<lambda>a. a\<lparr>rtConnected := True\<rparr>) (set_runtime i (\<lambda>a. a\<lparr>rtRunning := True\<rparr>) s)" env i]
    by (simp add: opened_def calm_def parked_ids_def)
  then show "parked_ids (looping env i s) \<subseteq> parked_ids s" by (simp add: looping_def parked_ids_def)
qed

lemma connected_stage:
  assumes "runtime_of i s = Some a" "s' = snd (transition env i StateConnected ReasonNone (caught_up env i s))"
  shows "holdings j s' = holdings j (looping env i s)" "parked_ids s' \<subseteq> parked_ids s - {i}"
proof -
  have "calm (looping env i s) (caught_up env i s)"
    unfolding caught_up_def using calm_sweep calm_backfill by (rule calm_trans)
  moreover from this have "calm (looping env i s) s'"
    unfolding assms(2) by (rule calm_trans) (simp add: calm_transition)
  ultimately show "holdings j s' = holdings j (looping env i s)" "parked_ids s' \<subseteq> parked_ids s - {i}"
    using parked_stages(3) [of env i s] assms(2) by (auto simp: calm_def parked_ids_transition)
qed

lemma halted_stage:
  assumes "runtime_of i s = Some a" "st \<noteq> StateParked" "s' = snd (transition env i st x (halted i s))"
  shows "holdings j s' = holdings j (halted i s)" "parked_ids s' = parked_ids s - {i}"
  using calm_transition [OF assms(2), of "halted i s" env i x] assms(2,3)
  by (simp_all add: calm_def parked_ids_transition parked_stages)

lemma start_effect:
  assumes "runtime_of i s \<noteq> None" "\<not> is_running i s" "free_slot s" "s' = snd (start env i s)"
  shows "\<forall>j. j \<noteq> i \<longrightarrow> holdings j s' = holdings j s"
    and "holdings i s' \<noteq> None" "parked_ids s' \<subseteq> parked_ids s"
    and "i \<notin> parked_ids s' \<or> is_running i s'"
    and "obliges env \<Longrightarrow> i \<notin> parked_ids s'" "sound i s \<Longrightarrow> sound i s'"
proof -
  obtain a where a: "runtime_of i s = Some a" "\<not> rtRunning a" using assms(1,2) by (auto simp: is_running_def)
  note h = holdings_stages [OF a(1)] parked_stages(1) [of i s] parked_stages(2,3) [of env i s]
  note cs = start_outcomes [OF assms(1-3), of env, folded assms(4)]
  show "\<forall>j. j \<noteq> i \<longrightarrow> holdings j s' = holdings j s"
    by (cases rule: cs) (use h halted_stage(1) [OF a(1) _ refl] connected_stage(1) [OF a(1) refl, of _ env] in auto)
  show "holdings i s' \<noteq> None"
    by (cases rule: cs) (use h halted_stage(1) [OF a(1) _ refl] connected_stage(1) [OF a(1) refl, of _ env] in auto)
  show "parked_ids s' \<subseteq> parked_ids s"
    by (cases rule: cs) (use h halted_stage(2) [OF a(1) _ refl] connected_stage(2) [OF a(1) refl, of env] in auto)
  show "i \<notin> parked_ids s' \<or> is_running i s'"
    by (cases rule: cs) (use h halted_stage(2) [OF a(1) _ refl] connected_stage(2) [OF a(1) refl, of env] in \<open>auto simp: is_running_holdings\<close>)
  show "i \<notin> parked_ids s'" if "obliges env"
    using that by (cases rule: cs) (use halted_stage(2) [OF a(1) _ refl] connected_stage(2) [OF a(1) refl, of env] in \<open>auto simp: obliges_def\<close>)
  show "sound i s'" if "sound i s"
  proof (cases rule: cs [case_names halted unsaved unlisted connected])
    case (halted st x)
    then show ?thesis using that a h(1) [of i] halted_stage(1) [OF a(1) halted(1,2), of i] by (simp add: sound_def holdings_def [of i s])
  next
    case connected
    then show ?thesis using h(3) [of i env] connected_stage(1) [OF a(1) connected, of i] by (simp add: sound_def)
  qed (use h(2) [of i env] h(3) [of i env] in \<open>simp_all add: sound_def\<close>)
qed

section \<open>A free slot is taken\<close>

text \<open>After a rebalance no registered account still waits while a slot is free. An account whose start
  failed after it connected is the one exception: it stays parked and occupies the slot.\<close>

definition served :: "string \<Rightarrow> sup \<Rightarrow> bool" where
  "served i s \<longleftrightarrow> i \<notin> parked_ids s \<or> is_running i s \<or> runtime_of i s = None"

lemma next_parked_None: "next_parked tried s = None \<Longrightarrow> i \<notin> set tried \<Longrightarrow> served i s"
  by (auto simp: next_parked_def served_def parked_ids_iff find_None_iff Accounts_newest_first(2))

lemma served_start:
  assumes "served j s" "runtime_of i s \<noteq> None" "\<not> is_running i s" "free_slot s"
  shows "served j (snd (start env i s))"
proof -
  note e = start_effect [OF assms(2-4) refl, of env]
  show ?thesis
  proof (cases "j = i")
    case True
    with e(4) show ?thesis by (auto simp: served_def)
  next
    case False
    with e(1) have "holdings j (snd (start env i s)) = holdings j s" by blast
    with assms(1) e(3) show ?thesis by (auto simp: served_def is_running_holdings registered_holdings)
  qed
qed

lemma rebalance_fills:
  "\<forall>i \<in> set tried. served i s \<Longrightarrow> free_slot (rebalance env tried s) \<Longrightarrow> served i (rebalance env tried s)"
proof (induction env tried s rule: rebalance.induct)
  case (1 env tried s)
  show ?case
  proof (cases "free_slot s")
    case False
    with 1(3) show ?thesis by (simp add: rebalance.simps [of env tried s])
  next
    case free: True
    show ?thesis
    proof (cases "next_parked tried s")
      case None
      with free 1(2) next_parked_None [OF None, of i] show ?thesis by (auto simp: rebalance.simps [of env tried s])
    next
      case (Some n)
      note n = next_parked_SomeD [OF Some]
      have "served j (snd (start env n s))" if "j \<in> set (n # tried)" for j
      proof (cases "j = n")
        case True
        then show ?thesis using start_effect(4) [OF _ _ free refl, of n env] n by (auto simp: served_def)
      next
        case False
        then show ?thesis using that 1(2) n free by (intro served_start) auto
      qed
      with 1(1) [OF _ Some] 1(3) free Some show ?thesis by (simp add: rebalance.simps [of env tried s])
    qed
  qed
qed

section \<open>Parked accounts hold nothing\<close>

definition parked_idle :: "sup \<Rightarrow> bool" where
  "parked_idle s \<longleftrightarrow> (\<forall>i. sound i s \<and> (i \<in> parked_ids s \<longrightarrow> \<not> is_running i s))"

lemma idle_calm: "parked_idle s \<Longrightarrow> calm s s' \<Longrightarrow> parked_idle s'"
  by (auto simp: parked_idle_def calm_def sound_def is_running_holdings)

lemma idle_one:
  assumes "parked_idle s" "\<forall>j. j \<noteq> i \<longrightarrow> holdings j s' = holdings j s" "parked_ids s' \<subseteq> insert i (parked_ids s)"
    and "sound i s'" "i \<in> parked_ids s' \<Longrightarrow> \<not> is_running i s'"
  shows "parked_idle s'"
  unfolding parked_idle_def
proof
  fix j show "sound j s' \<and> (j \<in> parked_ids s' \<longrightarrow> \<not> is_running j s')"
    using assms by (cases "j = i") (auto simp: parked_idle_def sound_def is_running_holdings)
qed

lemma idle_park:
  assumes "parked_idle s" "\<not> is_running i s"
  shows "parked_idle (snd (transition env i StateParked x s))"
proof -
  have h: "holdings j (snd (transition env i StateParked x s)) = holdings j s" for j
    using runtime_frame [of "snd (transition env i StateParked x s)" s] by (simp add: holdings_def)
  have "parked_ids (snd (transition env i StateParked x s)) \<subseteq> insert i (parked_ids s)"
    by (auto simp: parked_ids_def transition_rows set_update_where)
  with assms h show ?thesis
    by (intro idle_one [OF assms(1)]) (auto simp: parked_idle_def sound_def is_running_holdings)
qed

lemma idle_start:
  assumes "obliges env" "parked_idle s"
  shows "parked_idle (snd (start env i s))"
proof (cases "runtime_of i s = None \<or> is_running i s")
  case True
  with assms(2) show ?thesis by (auto simp: start_def)
next
  case False
  then have r: "runtime_of i s \<noteq> None" "\<not> is_running i s" by auto
  show ?thesis
  proof (cases "free_slot s")
    case True
    from start_effect [OF r True refl, of env] assms show ?thesis
      by (intro idle_one [OF assms(2)]) (auto simp: parked_idle_def)
  next
    case False
    then have "start env i s = transition env i StateParked ReasonCapacity s"
      using r by (auto simp: start_def free_slot_def not_le not_less)
    with idle_park [OF assms(2) r(2)] show ?thesis by simp
  qed
qed

lemma idle_rebalance: "obliges env \<Longrightarrow> parked_idle s \<Longrightarrow> parked_idle (rebalance env tried s)"
proof (induction env tried s rule: rebalance.induct)
  case (1 env tried s)
  then show ?case by (subst rebalance.simps) (auto split: option.split intro: idle_start)
qed

lemma idle_reevaluate: "obliges env \<Longrightarrow> parked_idle s \<Longrightarrow> parked_idle (reevaluate env s)"
  by (simp add: reevaluate_def idle_rebalance)

lemma idle_Start: "obliges env \<Longrightarrow> parked_idle s \<Longrightarrow> parked_idle (snd (Start env i s))"
  by (simp add: Start_def case_prod_beta Let_def idle_reevaluate idle_start)

lemma idle_Stop: "parked_idle s \<Longrightarrow> parked_idle (Stop env i s)"
proof -
  assume idle: "parked_idle s"
  let ?s = "set_runtime i (\<lambda>a. a\<lparr>rtRunning := False, rtConnected := False, rtLoop := False, rtAlone := False\<rparr>) s"
  have "parked_idle ?s"
    by (rule idle_one [OF idle, of i])
      (auto simp: holdings_set parked_ids_def sound_def is_running_holdings split: option.split)
  then have "parked_idle (backfill_call env c ?s)" for c using calm_backfill by (rule idle_calm)
  with idle show ?thesis by (simp add: Stop_def)
qed

lemma idle_same: "parked_idle s \<Longrightarrow> spAccounts s' = spAccounts s \<Longrightarrow> spRows s' = spRows s \<Longrightarrow> parked_idle s'"
  by (erule idle_calm) (rule calm_same)

lemma idle_SetMaxConcurrent: "obliges env \<Longrightarrow> parked_idle s \<Longrightarrow> parked_idle (SetMaxConcurrent env n s)"
  unfolding SetMaxConcurrent_def by (rule idle_reevaluate) (auto elim: idle_same)

lemma SignOut_unshredded: "\<not> svShred env i \<Longrightarrow> SignOut env i s = (False, Stop env i s)"
  by (simp add: SignOut_def)

lemma SignOut_shredded:
  assumes "svShred env i"
  obtains s2 where "calm (Stop env i s) s2"
    and "fst (SignOut env i s) \<Longrightarrow> snd (SignOut env i s) = reevaluate env s2"
    and "\<not> fst (SignOut env i s) \<Longrightarrow> snd (SignOut env i s) = s2"
proof -
  let ?s2 = "(Stop env i s)\<lparr>spSessions := filter (\<lambda>j. j \<noteq> i) (spSessions (Stop env i s)),
      spRows := SetSessionPresent (svNow env) i False (spRows (Stop env i s))\<rparr>"
  let ?s3 = "snd (transition env i StateSignedOut ReasonCredentials ?s2)"
  have "calm (Stop env i s) ?s2"
    by (rule calm_rows) (auto simp: SetSessionPresent_def set_update_where split: if_splits)
  then have c3: "calm (Stop env i s) ?s3" by (rule calm_trans) (simp add: calm_transition)
  then have c4: "calm (Stop env i s) (?s3\<lparr>spAudit := a\<rparr>)" for a by (rule calm_trans) (rule calm_same; simp)
  show thesis
  proof (cases "fst (transition env i StateSignedOut ReasonCredentials ?s2)")
    case True
    with assms show thesis by (intro that [OF c4]) (simp_all add: SignOut_def Let_def case_prod_beta)
  next
    case False
    with assms show thesis by (intro that [OF c3]) (simp_all add: SignOut_def Let_def case_prod_beta)
  qed
qed

lemma idle_SignOut: "obliges env \<Longrightarrow> parked_idle s \<Longrightarrow> parked_idle (snd (SignOut env i s))"
proof (cases "svShred env i")
  case True
  assume "obliges env" "parked_idle s"
  with idle_reevaluate idle_calm [OF idle_Stop] show ?thesis
    by (cases rule: SignOut_shredded [OF True, of s]; cases "fst (SignOut env i s)") auto
qed (simp add: SignOut_unshredded idle_Stop)

lemma holdings_register:
  assumes "runtime_of i s = None"
  shows "holdings j (register i paired s) = (if j = i then Some (False, False, False) else holdings j s)"
proof (cases "map_of (spAccounts s) j")
  case None
  then show ?thesis using assms by (simp add: register_def holdings_def runtime_of_def map_add_def)
next
  case (Some a)
  then show ?thesis using assms by (auto simp: register_def holdings_def runtime_of_def map_add_def)
qed

text \<open>A change of a client that \<open>start\<close> has no part in.\<close>

lemma idle_client:
  assumes "parked_idle s" "\<And>a. rtRunning (g a) = rtRunning a" "\<And>a. rtLoop (g a) = rtLoop a" "\<And>a. \<not> rtConnected (g a) \<or> rtAlone (g a)"
  shows "parked_idle (set_runtime i g s)"
proof (rule idle_one [OF assms(1), of i])
  have old: "sound i s" "i \<in> parked_ids s \<Longrightarrow> \<not> is_running i s" using assms(1) by (auto simp: parked_idle_def)
  show "sound i (set_runtime i g s)" "i \<in> parked_ids (set_runtime i g s) \<Longrightarrow> \<not> is_running i (set_runtime i g s)"
    using old assms(2-4)
    by (auto simp: sound_def holdings_set holdings_def [of i s] runtime_of_set parked_ids_def is_running_def split: option.splits)
qed (auto simp: holdings_set parked_ids_def)

lemma idle_register: "parked_idle s \<Longrightarrow> parked_idle (register i paired s)"
proof (cases "runtime_of i s")
  case None
  assume idle: "parked_idle s"
  have "parked_ids (register i paired s) = parked_ids s" by (simp add: register_def parked_ids_def)
  then show ?thesis
    by (intro idle_one [OF idle, of i]) (auto simp: holdings_register [OF None] sound_def is_running_holdings)
qed (simp add: register_def idle_client)

lemma idle_library_reconnects: "parked_idle s \<Longrightarrow> parked_idle (library_reconnects i s)"
  by (simp add: library_reconnects_def idle_client split: option.split)

lemma idle_refreshCookies: "obliges env \<Longrightarrow> parked_idle s \<Longrightarrow> parked_idle (snd (refreshCookies env cookies i s))"
  by (auto simp: refreshCookies_def Reconnect_def Let_def case_prod_beta
      intro!: idle_Start idle_Stop idle_calm [OF _ calm_persist] idle_client)

lemma UpsertAccount_parked:
  assumes "UpsertAccount now a rows = Inr rows'" "acState a \<noteq> StateParked" "r \<in> set rows'" "acState r = StateParked"
  shows "r \<in> set rows"
  using UpsertAccount_Inr [OF assms(1,3)] assms(2,4) by auto

lemma calm_on_emoji: "calm s (snd (snd (snd (on_emoji env p s))))"
  by (rule calm_rows) (auto simp: on_emoji_def Let_def dest: UpsertAccount_parked split: option.splits sum.splits if_splits)

lemma calm_abandon: "calm s (abandon i new reason s)"
  by (rule calm_rows) (auto simp: abandon_def Let_def DeletePairingAccount_def split: if_splits)

lemma idle_finish_pairing:
  assumes "obliges env" "parked_idle s"
  shows "parked_idle (snd (finish_pairing env p pend new address s))"
proof -
  let ?i = "AccountID (ieUuid5 (svIng env)) address"
  let ?acct = "(blank_account ?i address StateConnected)
     \<lparr>acPhoneID := nullString (pnPhoneID p), acDestRegUUID := nullString (pnDestRegUUID p), acSessionPresent := True,
      acPairedAtMS := nullInt (svNow env), acDeviceLastSeenMS := pnDeviceLastSeenMS p\<rparr>"
  have acct: "acState ?acct \<noteq> StateParked" by (simp add: blank_account_def)
  show ?thesis
  proof (cases "UpsertAccount (svNow env) ?acct (spRows s)")
    case (Inl e)
    then show ?thesis using idle_calm [OF assms(2) calm_abandon] by (simp add: finish_pairing_def Let_def)
  next
    case (Inr rows)
    have "calm s (announce env j prev st x (markPairing k b (s\<lparr>spRows := rows\<rparr>))\<lparr>spAudit := au\<rparr>)" for j prev st x k b au
      by (rule calm_rows) (auto dest: UpsertAccount_parked [OF Inr acct])
    then have "parked_idle (snd (PersistSession env ?i (register ?i True (Stop env ?i
        (announce env ?i prev st x (markPairing k b (s\<lparr>spRows := rows\<rparr>))\<lparr>spAudit := au\<rparr>)))))" for prev st x k b au
      by (intro idle_calm [OF _ calm_persist] idle_register idle_Stop) (rule idle_calm [OF assms(2)])
    with Inr idle_Start [OF assms(1) this] show ?thesis by (simp add: finish_pairing_def Let_def case_prod_beta)
  qed
qed

lemma idle_PairAs: "obliges env \<Longrightarrow> parked_idle s \<Longrightarrow> parked_idle (snd (PairAs env p s))"
proof -
  assume env: "obliges env" and idle: "parked_idle s"
  obtain wrong pend new s1 where e: "on_emoji env p s = (wrong, pend, new, s1)" by (metis prod_cases4)
  have "calm s s1" using e calm_on_emoji [of s env p] by simp
  then have s1: "parked_idle s1" by (rule idle_calm [OF idle])
  show ?thesis
    using e idle_calm [OF s1 calm_abandon] idle_finish_pairing [OF env s1]
    by (simp add: PairAs_def split: option.split)
qed

lemma calm_SweepPairings: "calm s (snd (SweepPairings env t s))"
proof (cases "SweepAbandonedPairings (svNow env) (\<lambda>i. i \<in> set (spPairings s)) (if t \<le> 0 then 300000 else t) (spRows s)")
  case (Inr dr)
  then have "set (snd dr) \<subseteq> set (spRows s)"
    by (cases dr) (auto simp: SweepAbandonedPairings_def dest: sweep_candidates_subset)
  then have "calm s (s\<lparr>spRows := snd dr, spAudit := a\<rparr>)" for a by (intro calm_rows) auto
  with Inr show ?thesis by (simp add: SweepPairings_def case_prod_beta)
qed (simp add: SweepPairings_def)

lemma sup_step_idle: "sup_step env s s' \<Longrightarrow> obliges env \<Longrightarrow> parked_idle s \<Longrightarrow> parked_idle s'"
proof (induction rule: sup_step.induct)
  case (reload_max s setting)
  then show ?case by (simp add: ReloadMaxConcurrent_def idle_SetMaxConcurrent idle_reevaluate split: option.split)
next
  case (adopt s i)
  then show ?case by (simp add: Adopt_def idle_register)
next
  case (unresumable s i reason)
  then show ?case using idle_calm [OF _ calm_transition] by (simp add: MarkUnresumable_def)
qed (auto intro: idle_refreshCookies idle_library_reconnects idle_Start idle_Stop idle_SignOut idle_SetMaxConcurrent idle_PairAs
  idle_calm [OF _ calm_Apply] idle_calm [OF _ calm_SweepPairings] idle_calm [OF _ calm_persist] idle_calm [OF _ calm_sweep])

lemma sup_run_idle: "sup_run obliges s s' \<Longrightarrow> parked_idle s \<Longrightarrow> parked_idle s'"
  by (induction rule: sup_run.induct) (auto intro: sup_step_idle)

lemma fresh_idle: "spAccounts s = [] \<Longrightarrow> parked_idle s"
  by (simp add: parked_idle_def sound_def holdings_def runtime_of_def is_running_def)

text \<open>C30: a parked account is idle. From an empty supervisor on, whatever steps are taken, one at a time, in a
  world where saving a session and listing conversations succeed, an account whose row says \<open>parked\<close> is not
  running and has no event loop, and it has no client that was connected to run it: a client it has was
  connected by the library after a pairing or by a cookie refresh, and never stopped since.\<close>

theorem parked_account_is_idle:
  assumes "sup_run obliges s0 s" "spAccounts s0 = []"
    and "r \<in> set (spRows s)" "acState r = StateParked" "runtime_of (acID r) s = Some a"
  shows "\<not> rtRunning a \<and> \<not> rtLoop a \<and> (\<not> rtConnected a \<or> rtAlone a)"
proof -
  have "parked_idle s" using assms(1) fresh_idle [OF assms(2)] by (rule sup_run_idle)
  moreover have "acID r \<in> parked_ids s" using assms(3,4) by (auto simp: parked_ids_iff)
  ultimately have "sound (acID r) s" "\<not> is_running (acID r) s" by (auto simp: parked_idle_def)
  with assms(5) show ?thesis by (auto simp: sound_def holdings_def is_running_def)
qed

text \<open>The exception is real. A cookie refresh for an account that does not run, while no slot is free, connects
  its backend, parks it and answers success: the row says \<open>parked\<close>, the client is connected, and stopping
  the account does nothing, because it does not run.\<close>

theorem refreshed_account_parks_with_client:
  assumes "runtime_of i s = Some a" "\<not> rtRunning a" "r \<in> set (spRows s)" "acID r = i" "\<not> free_slot s"
    and "cookies \<noteq> []" "svRefresh env i" "svSameAddress env i" "svSave env i"
  shows "\<exists>s' a'. refreshCookies env cookies i s = (True, s') \<and> i \<in> parked_ids s' \<and> runtime_of i s' = Some a' \<and>
    \<not> rtRunning a' \<and> rtConnected a' \<and> (\<forall>env'. Stop env' i s' = s')"
proof -
  let ?s1 = "set_runtime i (\<lambda>a. a\<lparr>rtConnected := True, rtAlone := True\<rparr>) s"
  let ?s2 = "snd (PersistSession env i ?s1)"
  let ?s3 = "snd (transition env i StateParked ReasonCapacity ?s2)"
  have acc: "spAccounts ?s2 = spAccounts ?s1" "spMax ?s2 = spMax ?s1" by (simp_all add: PersistSession_def)
  have fr: "runtime_of i ?s2 = runtime_of i ?s1" "is_running i ?s2 = is_running i ?s1" "runningCount ?s2 = runningCount ?s1"
    using runtime_frame [OF acc(1), of i] by simp_all
  have "rtRunning (a\<lparr>rtConnected := True, rtAlone := True\<rparr>) = rtRunning a" for a by simp
  then have "(\<lambda>p. rtRunning (snd (on_account i (\<lambda>a. a\<lparr>rtConnected := True, rtAlone := True\<rparr>) p))) = (\<lambda>p. rtRunning (snd p))"
    by (auto simp: on_account_def)
  then have cnt: "runningCount ?s1 = runningCount s"
    by (simp add: runningCount_running set_runtime_on_account filter_map comp_def running_def [abs_def])
  have nr: "\<not> is_running i ?s2" using assms(1,2) fr by (simp add: is_running_set)
  have full: "0 < spMax ?s2 \<and> spMax ?s2 \<le> int (runningCount ?s2)"
    using assms(5) cnt fr acc by (auto simp: free_slot_def)
  have rt: "runtime_of i ?s2 = Some (a\<lparr>rtConnected := True, rtAlone := True\<rparr>)" using assms(1) fr by (simp add: runtime_of_set)
  have rows: "\<exists>q \<in> set (spRows ?s2). acID q = i"
  proof -
    have "map acID (spRows ?s2) = map acID (spRows ?s1)" using PersistSession_ids [OF prod.collapse [symmetric]] .
    then have "set (map acID (spRows ?s2)) = set (map acID (spRows ?s1))" by (rule arg_cong)
    then have "acID ` set (spRows ?s2) = acID ` set (spRows s)" by (simp only: set_map set_runtime_simps)
    moreover have "i \<in> acID ` set (spRows s)" using assms(3,4) by blast
    ultimately have "i \<in> acID ` set (spRows ?s2)" by (simp only:)
    then show ?thesis by blast
  qed
  have st: "start env i ?s2 = transition env i StateParked ReasonCapacity ?s2"
    using nr full rt by (simp add: start_def)
  have ok: "fst (transition env i StateParked ReasonCapacity ?s2)"
    using rows by (auto simp: transition_def transition_write_def SetAccountState_def)
  note fr3 = runtime_frame [OF transition_frame(1) [of env i StateParked ReasonCapacity ?s2], of i]
  have "\<not> free_slot ?s3" using full fr3 by (simp add: free_slot_def)
  then have re: "reevaluate env ?s3 = ?s3" by (simp add: reevaluate_def rebalance.simps)
  have "refreshCookies env cookies i s = (True, ?s3)"
  proof -
    have "\<exists>r \<in> set (spRows s). acID r = i" using assms(3,4) by blast
    then have "refreshCookies env cookies i s = Reconnect env i ?s2"
      using assms(1,6-9) by (simp add: refreshCookies_def PersistSession_def Let_def)
    also have "\<dots> = Start env i ?s2" using nr by (simp add: Reconnect_def Stop_def)
    also have "\<dots> = (True, ?s3)" using st ok re by (simp add: Start_def case_prod_beta Let_def)
    finally show ?thesis .
  qed
  moreover have "i \<in> parked_ids ?s3" using rows by (rule transition_parks)
  moreover have "runtime_of i ?s3 = Some (a\<lparr>rtConnected := True, rtAlone := True\<rparr>)" using fr3 rt by simp
  moreover have "Stop env' i ?s3 = ?s3" for env' using fr3 nr by (simp add: Stop_def)
  ultimately show ?thesis using assms(2) by fastforce
qed

text \<open>C31: a free slot does not stay free. From an empty supervisor on, one call at a time and in a world where
  saving a session and listing conversations succeed: when the supervisor starts an account, changes the
  limit or signs an account out while no other call is re-evaluating parking, and a slot is free afterwards,
  then no account it holds is left parked; every one that waited has been given a slot.\<close>

theorem free_slot_is_taken:
  assumes "sup_run obliges s0 s" "spAccounts s0 = []" "obliges env" "\<not> svBusy env"
    and "s' = snd (Start env i s) \<or> s' = SetMaxConcurrent env n s \<or> (SignOut env i s = (True, s'))"
    and "free_slot s'" "r \<in> set (spRows s')" "runtime_of (acID r) s' \<noteq> None"
  shows "acState r \<noteq> StateParked"
proof -
  have "sup_step env s s'" using assms(5) sup_step.start sup_step.set_max sup_step.sign_out by (metis snd_conv)
  then have idle: "parked_idle s'"
    by (rule sup_step_idle [OF _ assms(3) sup_run_idle [OF assms(1) fresh_idle [OF assms(2)]]])
  obtain s1 where "s' = reevaluate env s1"
  proof (cases "SignOut env i s = (True, s')")
    case True
    then have "svShred env i" using SignOut_unshredded by (metis prod.inject)
    from SignOut_shredded [OF this, of s] obtain s2 where "fst (SignOut env i s) \<Longrightarrow> snd (SignOut env i s) = reevaluate env s2"
      by blast
    with True that show thesis by simp
  next
    case False
    with assms(5) that show thesis by (auto simp: Start_def SetMaxConcurrent_def case_prod_beta Let_def)
  qed
  then have "s' = rebalance env [] s1" using assms(4) by (simp add: reevaluate_def)
  with assms(6) have "served (acID r) s'" using rebalance_fills [of "[]"] by auto
  moreover have "acState r = StateParked \<Longrightarrow> acID r \<in> parked_ids s'" using assms(7) by (auto simp: parked_ids_iff)
  ultimately show ?thesis using idle assms(8) by (auto simp: served_def parked_idle_def)
qed

text \<open>C37: an account can be left half started. When the session cannot be saved after a successful connect,
  starting a parked account fails and leaves it marked as running, with no event loop, and its row still
  says \<open>parked\<close>; every later attempt to start it reports success and does nothing.\<close>

theorem failed_save_strands_account:
  assumes "runtime_of i s = Some a" "\<not> rtRunning a" "\<not> rtLoop a" "free_slot s" "i \<in> parked_ids s"
    and "svPrepare env i" "svConnect env i = ConnectOK" "\<not> svSave env i"
  shows "\<exists>s' a'. start env i s = (False, s') \<and> i \<in> parked_ids s' \<and> runtime_of i s' = Some a' \<and>
    rtRunning a' \<and> \<not> rtLoop a' \<and> (\<forall>env'. start env' i s' = (True, s'))"
proof -
  have r: "runtime_of i s \<noteq> None" "\<not> is_running i s" using assms(1,2) by (auto simp: is_running_def)
  let ?s = "opened env i s"
  have st: "start env i s = (False, ?s)" using assms(6-8) by (simp add: start_free [OF r assms(4)])
  have p: "i \<in> parked_ids ?s" using assms(5,8) by (simp add: opened_def PersistSession_def parked_ids_def)
  from holdings_stages(2) [OF assms(1), of i env] obtain a' where a': "runtime_of i ?s = Some a'" "rtRunning a'" "\<not> rtLoop a'"
    using assms(3) by (auto simp: holdings_def)
  then have "start env' i ?s = (True, ?s)" for env' by (simp add: start_def is_running_def)
  with st p a' show ?thesis by blast
qed

section \<open>Witnesses\<close>

text \<open>Two parked rows as a restart finds them: both accounts are adopted and one is started; and the same
  with room for both.\<close>

definition restarted :: "int \<Rightarrow> sup" where
  "restarted n = two_parked\<lparr>spAccounts := [], spMax := n\<rparr>"

definition adopted :: "int \<Rightarrow> sup" where "adopted n = Adopt ''b'' (Adopt ''a'' (restarted n))"

lemma adopted_eval: "adopted n = two_parked\<lparr>spMax := n\<rparr>"
  by (simp add: adopted_def restarted_def Adopt_def register_def runtime_of_def two_parked_def idle_runtime_def)

lemma obliging_obliges [simp]: "obliges obliging"
  by (simp add: obliges_def)

lemma run_adopted: "sup_run obliges (restarted n) (adopted n)"
proof -
  have "sup_run obliges (restarted n) (Adopt ''a'' (restarted n))"
    by (rule sup_run.step [where env = obliging and s' = "restarted n"]) (simp_all add: sup_run.none sup_step.adopt)
  then show ?thesis unfolding adopted_def
    by (rule sup_run.step [where env = obliging]) (simp_all add: sup_step.adopt)
qed

lemma adopted_one: "adopted 1 = two_parked"
  by (simp add: adopted_eval two_parked_def)

lemma registered_eval:
  "map (\<lambda>(i, a). (i, rtRunning a)) (spAccounts s) = xs \<Longrightarrow> j \<in> fst ` set xs \<Longrightarrow> runtime_of j s \<noteq> None"
  by (auto simp: runtime_of_def) (metis weak_map_of_SomeI option.distinct(1))

theorem parked_account_is_idle_witness:
  "\<exists>r a. r \<in> set (spRows a_started) \<and> acState r = StateParked \<and> runtime_of (acID r) a_started = Some a \<and>
     \<not> rtRunning a \<and> \<not> rtLoop a \<and> (\<not> rtConnected a \<or> rtAlone a)"
proof -
  have run: "sup_run obliges (restarted 1) a_started"
    using run_adopted [of 1] unfolding adopted_one a_started_def
    by (rule sup_run.step [where env = obliging]) (simp_all add: sup_step.start)
  have "(''b'', StateParked) \<in> set (map (\<lambda>r. (acID r, acState r)) (spRows a_started))" by (simp only: a_started_eval) simp
  then obtain r where r: "r \<in> set (spRows a_started)" "acID r = ''b''" "acState r = StateParked" by auto
  have "runtime_of ''b'' a_started \<noteq> None" using registered_eval [OF a_started_eval(2)] by simp
  then obtain a where "runtime_of (acID r) a_started = Some a" using r by auto
  with parked_account_is_idle [OF run _ r(1,3) this] r show ?thesis by (auto simp: restarted_def)
qed

theorem refreshed_account_parks_with_client_witness:
  "\<exists>s' a'. refreshCookies obliging [(''SID'', ''x'')] ''b'' a_started = (True, s') \<and> ''b'' \<in> parked_ids s' \<and>
     runtime_of ''b'' s' = Some a' \<and> \<not> rtRunning a' \<and> rtConnected a' \<and> (\<forall>env'. Stop env' ''b'' s' = s')"
proof -
  have "length (filter (\<lambda>(i, b). b) (map (\<lambda>(i, a). (i, rtRunning a)) (spAccounts a_started))) = 1"
    by (simp only: a_started_eval) simp
  then have full: "\<not> free_slot a_started"
    using a_started_eval(5) by (simp add: free_slot_def runningCount_def comp_def case_prod_unfold)
  have "(''b'', StateParked) \<in> set (map (\<lambda>r. (acID r, acState r)) (spRows a_started))" by (simp only: a_started_eval) simp
  then obtain r where r: "r \<in> set (spRows a_started)" "acID r = ''b''" by auto
  have "map_of (map (\<lambda>(i, a). (i, rtRunning a)) (spAccounts a_started)) ''b'' = Some False" by (simp only: a_started_eval) simp
  then obtain a where a: "runtime_of ''b'' a_started = Some a" "\<not> rtRunning a"
    by (auto simp: map_of_map runtime_of_def)
  show ?thesis by (rule refreshed_account_parks_with_client [OF a r full]) simp_all
qed

definition both_started :: sup where "both_started = snd (Start obliging ''a'' (adopted 3))"

lemma both_started_eval:
  "map (\<lambda>(i, a). (i, rtRunning a)) (spAccounts both_started) = [(''a'', True), (''b'', True)]" "spMax both_started = 3"
  "map acID (spRows both_started) = [''a'', ''b'']"
  by (simp_all add: both_started_def adopted_eval Start_def start_def two_parked_def runtime_of_def is_running_def runningCount_def
      set_runtime_def idle_runtime_def PersistSession_def run_sweep_def backfill_call_def transition_eq SetAccountState_def
      SetSessionPresent_def AccountRow_def select_one_def announce_def rebalance.simps reevaluate_def free_slot_def next_parked_def
      Accounts_def)

theorem free_slot_is_taken_witness:
  "\<exists>r. r \<in> set (spRows both_started) \<and> acID r = ''b'' \<and> acState r \<noteq> StateParked"
proof -
  have "length (filter (\<lambda>(i, b). b) (map (\<lambda>(i, a). (i, rtRunning a)) (spAccounts both_started))) = 2"
    by (simp only: both_started_eval) simp
  then have free: "free_slot both_started"
    using both_started_eval(2) by (simp add: free_slot_def runningCount_def comp_def case_prod_unfold)
  have reg: "runtime_of ''b'' both_started \<noteq> None" using registered_eval [OF both_started_eval(1)] by simp
  have "map acID (spRows both_started) = [''a'', ''b'']" by (simp only: both_started_eval)
  then obtain r where r: "r \<in> set (spRows both_started)" "acID r = ''b''"
    by (metis list.set_intros(1,2) imageE set_map)
  show ?thesis
    using free_slot_is_taken [OF run_adopted [of 3] _ obliging_obliges _ disjI1 [OF both_started_def] free r(1)] reg r
    by (auto simp: restarted_def)
qed

theorem failed_save_strands_account_witness:
  "\<exists>s' a'. start (obliging\<lparr>svSave := (\<lambda>_. False)\<rparr>) ''a'' two_parked = (False, s') \<and> ''a'' \<in> parked_ids s' \<and>
     runtime_of ''a'' s' = Some a' \<and> rtRunning a' \<and> \<not> rtLoop a' \<and> (\<forall>env'. start env' ''a'' s' = (True, s'))"
  by (rule failed_save_strands_account [of _ _ idle_runtime])
    (simp_all add: two_parked_def runtime_of_def idle_runtime_def free_slot_def runningCount_def parked_ids_iff ex_disj_distrib
      conj_disj_distribR obliging_def)

lemma rebalance_is_starts:
  "\<exists>is. distinct (is @ tried') \<and> set is \<subseteq> acID ` set (spRows s) \<and> (\<forall>i \<in> set is. i \<notin> set tried) \<and>
     rebalance env tried s = foldl (\<lambda>s i. snd (start env i s)) s is"
  if "tried' = remdups tried"
  using that
proof (induction env tried s arbitrary: tried' rule: rebalance.induct)
  case (1 env tried s)
  show ?case
  proof (cases "free_slot s \<and> next_parked tried s \<noteq> None")
    case False
    then have "rebalance env tried s = s" by (auto simp: rebalance.simps [of env tried s])
    then show ?thesis using 1(2) by (intro exI [of _ "[]"]) simp
  next
    case True
    then obtain n where n: "free_slot s" "next_parked tried s = Some n" by auto
    note t = next_parked_SomeD [OF n(2)]
    let ?s = "snd (start env n s)"
    have ids: "acID ` set (spRows ?s) = acID ` set (spRows s)" by (metis start_ids set_map)
    from 1(1) [of n "remdups (n # tried)"] n obtain "is" where js: "distinct (is @ remdups (n # tried))"
        "set is \<subseteq> acID ` set (spRows ?s)" "\<forall>i \<in> set is. i \<notin> set (n # tried)"
        "rebalance env (n # tried) ?s = foldl (\<lambda>s i. snd (start env i s)) ?s is"
      by auto
    have "rebalance env tried s = foldl (\<lambda>s i. snd (start env i s)) s (n # is)"
      using n js(4) by (simp add: rebalance.simps [of env tried s])
    moreover have "distinct ((n # is) @ remdups tried)" using js(1,3) t by auto
    ultimately show ?thesis using 1(2) js t ids by (intro exI [of _ "n # is"]) auto
  qed
qed

text \<open>C32: re-evaluating the parked accounts ends. However the phones answer, it is a sequence of start
  attempts on accounts of the table in which no account is tried twice, so at most one per row: an
  account that cannot be started does not make the loop go round again.\<close>

theorem rebalance_tries_each_once:
  "\<exists>is. distinct is \<and> set is \<subseteq> acID ` set (spRows s) \<and> length is \<le> length (spRows s) \<and>
     rebalance env [] s = foldl (\<lambda>s i. snd (start env i s)) s is"
proof -
  obtain "is" where *: "distinct (is @ [])" "set is \<subseteq> acID ` set (spRows s)"
      "rebalance env [] s = foldl (\<lambda>s i. snd (start env i s)) s is"
    using rebalance_is_starts [of "[]" "[]" s env] by auto
  have "length is = card (set is)" using *(1) by (simp add: distinct_card)
  also have "\<dots> \<le> card (acID ` set (spRows s))" using *(2) by (intro card_mono) auto
  also have "\<dots> \<le> length (spRows s)" by (metis card_length length_map set_map)
  finally show ?thesis using * by auto
qed

end
