(* ===== verification/Scopes.thy ===== *)
theory Scopes
  imports Normalize
begin

text \<open>
  Scopes (\<open>internal/authz/scopes.go\<close>): the four permissions, sets of them, and the space-joined text in
  which a set is stored. A Go map with empty values is a set here.
\<close>

section \<open>Words of a string\<close>

text \<open>\<open>strings.Fields\<close>: the runs of runes between white space.\<close>

fun fields_of :: "(nat \<times> string) list \<Rightarrow> string \<Rightarrow> string list" where
  "fields_of [] acc = (if acc = [] then [] else [acc])"
| "fields_of ((r, bs) # segs) acc =
     (if IsSpace r then (if acc = [] then fields_of segs [] else acc # fields_of segs [])
      else fields_of segs (acc @ bs))"

definition Fields :: "string \<Rightarrow> string list" where
  "Fields s = fields_of (segments s) []"

text \<open>\<open>strings.Join(v, " ")\<close>.\<close>

fun join_words :: "string list \<Rightarrow> string" where
  "join_words [] = []"
| "join_words [w] = w"
| "join_words (w # ws) = w @ '' '' @ join_words ws"

section \<open>Scopes and sets of scopes\<close>

abbreviation ScopeMessagesRead :: string where "ScopeMessagesRead \<equiv> ''messages:read''"
abbreviation ScopeMessagesWrite :: string where "ScopeMessagesWrite \<equiv> ''messages:write''"
abbreviation ScopeMessagesDelete :: string where "ScopeMessagesDelete \<equiv> ''messages:delete''"
abbreviation ScopeAdmin :: string where "ScopeAdmin \<equiv> ''admin''"

definition canonicalOrder :: "string list" where
  "canonicalOrder = [ScopeAdmin, ScopeMessagesRead, ScopeMessagesWrite, ScopeMessagesDelete]"

definition Enrollable :: "string \<Rightarrow> bool" where "Enrollable s \<longleftrightarrow> s \<noteq> ScopeAdmin"

definition KnownScope :: "string \<Rightarrow> bool" where "KnownScope s \<longleftrightarrow> s \<in> set canonicalOrder"

type_synonym ScopeSet = "string set"

definition AdminBootstrapScopes :: ScopeSet where "AdminBootstrapScopes = set canonicalOrder"

text \<open>\<open>None\<close> is \<open>invalid_scope\<close>.\<close>

fun parse_scopes :: "string list \<Rightarrow> ScopeSet \<Rightarrow> ScopeSet option" where
  "parse_scopes [] s = Some s"
| "parse_scopes (raw # rest) s =
     (let r = TrimSpace raw in
      if r = [] then parse_scopes rest s
      else if \<not> KnownScope r then None
      else parse_scopes rest (insert r s))"

definition ParseScopes :: "string list \<Rightarrow> ScopeSet option" where "ParseScopes raw = parse_scopes raw {}"

definition ParseScopeString :: "string \<Rightarrow> ScopeSet option" where "ParseScopeString s = ParseScopes (Fields s)"

definition scope_list :: "ScopeSet \<Rightarrow> string list" where
  "scope_list s = filter (\<lambda>c. c \<in> s) canonicalOrder @ sorted_list_of_set {sc \<in> s. \<not> KnownScope sc}"

definition scope_string :: "ScopeSet \<Rightarrow> string" where "scope_string s = join_words (scope_list s)"

definition Subset :: "ScopeSet \<Rightarrow> ScopeSet \<Rightarrow> bool" where "Subset s other \<longleftrightarrow> (\<forall>sc \<in> s. sc \<in> other)"

definition Widens :: "ScopeSet \<Rightarrow> ScopeSet \<Rightarrow> bool" where "Widens s other \<longleftrightarrow> \<not> Subset s other"

definition scopes_equal :: "ScopeSet \<Rightarrow> ScopeSet \<Rightarrow> bool" where
  "scopes_equal s other \<longleftrightarrow> card s = card other \<and> Subset s other"

lemma Subset_iff [simp]: "Subset s other \<longleftrightarrow> s \<subseteq> other"
  by (auto simp: Subset_def)

lemma Widens_iff [simp]: "Widens s other \<longleftrightarrow> \<not> s \<subseteq> other"
  by (simp add: Widens_def)

lemma scopes_equal_iff: "finite other \<Longrightarrow> scopes_equal s other \<longleftrightarrow> s = other"
  using card_subset_eq [of other s] by (auto simp: scopes_equal_def)

section \<open>What parsing yields\<close>

lemma parse_scopes_known:
  "parse_scopes raw s = Some s' \<Longrightarrow> s \<subseteq> set canonicalOrder \<Longrightarrow> s \<subseteq> s' \<and> s' \<subseteq> set canonicalOrder"
proof (induction raw arbitrary: s)
  case (Cons r raw)
  show ?case
  proof (cases "TrimSpace r = []")
    case True
    with Cons show ?thesis by (simp add: Let_def)
  next
    case False
    with Cons.prems have "KnownScope (TrimSpace r)" "parse_scopes raw (insert (TrimSpace r) s) = Some s'"
      by (auto simp: Let_def split: if_splits)
    with Cons.IH [OF this(2)] Cons.prems(2) show ?thesis by (auto simp: KnownScope_def)
  qed
qed simp

lemma ParseScopes_known: "ParseScopes raw = Some s \<Longrightarrow> s \<subseteq> set canonicalOrder"
  using parse_scopes_known [of raw "{}"] by (simp add: ParseScopes_def)

lemma ParseScopeString_known: "ParseScopeString t = Some s \<Longrightarrow> s \<subseteq> set canonicalOrder"
  by (simp add: ParseScopeString_def ParseScopes_known)

lemma finite_parsed: "s \<subseteq> set canonicalOrder \<Longrightarrow> finite s"
  by (erule finite_subset) (rule finite_set)

section \<open>A stored set reads back\<close>

text \<open>Words of ASCII letters and punctuation above the space.\<close>

definition ascii_word :: "string \<Rightarrow> bool" where
  "ascii_word w \<longleftrightarrow> w \<noteq> [] \<and> (\<forall>c \<in> set w. (0x20 :: nat) < of_char c \<and> of_char c < (0x7F :: nat))"

lemma segments_ascii:
  "\<forall>c \<in> set s. of_char c < (0x80 :: nat) \<Longrightarrow> segments s = map (\<lambda>c. (of_char c, [c])) s"
proof (induction s)
  case (Cons c s)
  then have "DecodeRune (c # s) = (of_char c, 1)" by (simp add: DecodeRune_def decode_bytes_def)
  with Cons show ?case by (simp add: segments.simps [of "c # s"])
qed simp

lemma not_space_plain: "0x20 < n \<Longrightarrow> n < 0x7F \<Longrightarrow> \<not> IsSpace n"
  by (simp add: IsSpace_def)

lemma plain_ascii: "ascii_word w \<Longrightarrow> \<forall>c \<in> set w. of_char c < (0x80 :: nat) \<and> \<not> IsSpace (of_char c)"
proof (intro ballI)
  fix c assume "ascii_word w" "c \<in> set w"
  then have "(0x20 :: nat) < of_char c" "of_char c < (0x7F :: nat)" by (auto simp: ascii_word_def)
  then show "of_char c < (0x80 :: nat) \<and> \<not> IsSpace (of_char c)" by (simp add: not_space_plain)
qed

lemma plain_word: "ascii_word w \<Longrightarrow> w \<noteq> [] \<and> (\<forall>c \<in> set w. \<not> IsSpace (of_char c))"
  using plain_ascii [of w] by (simp add: ascii_word_def)

lemma TrimSpace_plain: "ascii_word w \<Longrightarrow> TrimSpace w = w"
proof -
  assume w: "ascii_word w"
  have id: "dropWhile P xs = xs" if "xs \<noteq> []" "\<not> P (hd xs)" for P and xs :: "'a list"
    using that by (cases xs) auto
  have n: "w \<noteq> []" using w by (simp add: ascii_word_def)
  then have "\<not> IsSpace (of_char (hd w))" "\<not> IsSpace (of_char (last w))" using plain_ascii [OF w] by auto
  then have "trim_both (\<lambda>seg. IsSpace (fst seg)) (map (\<lambda>c. (of_char c, [c])) w) = map (\<lambda>c. (of_char c, [c])) w"
    using n by (simp add: trim_both_def id hd_map last_map hd_rev)
  then show ?thesis using plain_ascii [OF w] by (simp add: TrimSpace_def segments_ascii comp_def)
qed

lemma fields_plain:
  "\<forall>c \<in> set w. \<not> IsSpace (of_char c) \<Longrightarrow>
   fields_of (map (\<lambda>c. (of_char c, [c])) w @ segs) acc = fields_of segs (acc @ w)"
  by (induction w arbitrary: acc) auto

lemma join_ascii: "\<forall>w \<in> set ws. ascii_word w \<Longrightarrow> \<forall>c \<in> set (join_words ws). of_char c < (0x80 :: nat)"
  by (induction ws rule: join_words.induct) (auto dest: plain_ascii)

lemma Fields_join: "\<forall>w \<in> set ws. ascii_word w \<Longrightarrow> Fields (join_words ws) = ws"
proof -
  assume ws: "\<forall>w \<in> set ws. ascii_word w"
  have "fields_of (map (\<lambda>c. (of_char c, [c])) (join_words ws)) [] = ws"
    using ws
  proof (induction ws rule: join_words.induct)
    case (2 w)
    then have "w \<noteq> []" "\<forall>c \<in> set w. \<not> IsSpace (of_char c)" by (simp_all add: plain_word)
    then show ?case using fields_plain [of w "[]" "[]"] by simp
  next
    case (3 w v ws)
    then have "w \<noteq> []" "\<forall>c \<in> set w. \<not> IsSpace (of_char c)" using plain_word [of w] by simp_all
    moreover have "IsSpace 32" by (simp add: IsSpace_def)
    ultimately show ?case using 3 fields_plain [of w _ "[]"] by simp
  qed simp
  then show ?thesis using join_ascii [OF ws] by (simp add: Fields_def segments_ascii)
qed

lemma known_plain: "w \<in> set canonicalOrder \<Longrightarrow> ascii_word w"
  by (auto simp: canonicalOrder_def ascii_word_def)

lemma parse_scopes_plain:
  "\<forall>w \<in> set ws. w \<in> set canonicalOrder \<Longrightarrow> parse_scopes ws s = Some (s \<union> set ws)"
proof (induction ws arbitrary: s)
  case (Cons w ws)
  then have w: "ascii_word w" "KnownScope w" by (simp_all add: known_plain KnownScope_def)
  then have "w \<noteq> []" by (simp add: ascii_word_def)
  with Cons w show ?case by (simp add: TrimSpace_plain Let_def)
qed simp

text \<open>The text column keeps a set of scopes exactly: what is rendered in canonical order parses back to
  the same set, so a column compared as text and a set compared as a set agree.\<close>

theorem scope_string_roundtrip:
  assumes "s \<subseteq> set canonicalOrder"
  shows "ParseScopeString (scope_string s) = Some s"
proof -
  have "{sc \<in> s. \<not> KnownScope sc} = {}" using assms by (auto simp: KnownScope_def)
  then have l: "scope_list s = filter (\<lambda>c. c \<in> s) canonicalOrder" unfolding scope_list_def by (simp only: sorted_list_of_set.sorted_key_list_of_set_empty append_Nil2)
  then have "\<forall>w \<in> set (scope_list s). w \<in> set canonicalOrder" "set (scope_list s) = s" using assms by auto
  then show ?thesis
    using Fields_join [of "scope_list s"] known_plain
    by (simp add: ParseScopeString_def ParseScopes_def scope_string_def parse_scopes_plain)
qed

theorem scope_string_roundtrip_witness:
  "ParseScopeString (scope_string {ScopeMessagesRead, ScopeAdmin}) = Some {ScopeMessagesRead, ScopeAdmin}"
  by (rule scope_string_roundtrip) (simp add: canonicalOrder_def)

end
