(* ===== verification/Limits.thy ===== *)
theory Limits
  imports Agm_Prelude
begin

text \<open>
  The limiters in front of the credentials (\<open>internal/authz/limits.go\<close>, the attempts table of
  \<open>internal/store/authz.go\<close>): durable cooldowns that count wrong credentials, and the bound on work in
  flight. Times and durations are nanoseconds as in Go; a duration that is doubled wraps at 64 bits. The
  token buckets for ordinary traffic compute with floating-point numbers and are not modelled.
\<close>

section \<open>Time\<close>

type_synonym ns = int

abbreviation Millisecond :: ns where "Millisecond \<equiv> 1000000"
abbreviation Second :: ns where "Second \<equiv> 1000000000"
abbreviation Minute :: ns where "Minute \<equiv> 60000000000"
abbreviation Hour :: ns where "Hour \<equiv> 3600000000000"

definition UnixMilli :: "ns \<Rightarrow> ms" where "UnixMilli t = t div Millisecond"

definition wrap64 :: "int \<Rightarrow> int" where "wrap64 x = (x + 2 ^ 63) mod 2 ^ 64 - 2 ^ 63"

lemma wrap64_id: "- (2 ^ 63) \<le> x \<Longrightarrow> x < 2 ^ 63 \<Longrightarrow> wrap64 x = x"
  by (simp add: wrap64_def)

section \<open>Rate-limit refusals\<close>

datatype rate_limited = RateLimitedError string ns

definition rateLimited :: "string \<Rightarrow> ns \<Rightarrow> rate_limited" where
  "rateLimited surface wait =
     (let w = (if wait < 0 then 0 else wait);
          secs = (w + Second - 1) div Second * Second
      in RateLimitedError surface (if secs = 0 then Second else secs))"

section \<open>The attempts table\<close>

record Attempt =
  atKind :: string
  atSource :: string
  atWindowStartMS :: ms
  atFailures :: int
  atCooldownSteps :: int
  atCooldownUntilMS :: ms
  atUpdatedAtMS :: ms

record attempt_row =
  twKind :: string
  twSource :: string
  twWindowStartMS :: ms
  twFailures :: int
  twCooldownSteps :: int
  twCooldownUntilMS :: "ms option"
  twUpdatedAtMS :: ms

definition scanAttempt :: "attempt_row \<Rightarrow> Attempt" where
  "scanAttempt r = \<lparr>atKind = twKind r, atSource = twSource r, atWindowStartMS = twWindowStartMS r,
     atFailures = twFailures r, atCooldownSteps = twCooldownSteps r,
     atCooldownUntilMS = scanInt (twCooldownUntilMS r), atUpdatedAtMS = twUpdatedAtMS r\<rparr>"

definition AttemptRow :: "string \<Rightarrow> string \<Rightarrow> attempt_row list \<Rightarrow> Attempt option" where
  "AttemptRow kind source rows = map_option scanAttempt (select_one (\<lambda>r. twKind r = kind \<and> twSource r = source) rows)"

definition attemptTx :: "string \<Rightarrow> string \<Rightarrow> attempt_row list \<Rightarrow> Attempt" where
  "attemptTx kind source rows =
     (case AttemptRow kind source rows of
        None \<Rightarrow> \<lparr>atKind = kind, atSource = source, atWindowStartMS = 0, atFailures = 0, atCooldownSteps = 0,
                 atCooldownUntilMS = 0, atUpdatedAtMS = 0\<rparr>
      | Some a \<Rightarrow> a)"

definition attempt_row_of :: "Attempt \<Rightarrow> attempt_row" where
  "attempt_row_of a = \<lparr>twKind = atKind a, twSource = atSource a, twWindowStartMS = atWindowStartMS a,
     twFailures = atFailures a, twCooldownSteps = atCooldownSteps a,
     twCooldownUntilMS = nullInt (atCooldownUntilMS a), twUpdatedAtMS = atUpdatedAtMS a\<rparr>"

definition putAttemptTx :: "Attempt \<Rightarrow> attempt_row list \<Rightarrow> attempt_row list" where
  "putAttemptTx a rows =
     (if \<exists>r \<in> set rows. twKind r = atKind a \<and> twSource r = atSource a
      then update_where (\<lambda>r. twKind r = atKind a \<and> twSource r = atSource a) (\<lambda>_. attempt_row_of a) rows
      else rows @ [attempt_row_of a])"

definition UpdateAttempt ::
  "ms \<Rightarrow> string \<Rightarrow> string \<Rightarrow> (Attempt \<Rightarrow> Attempt) \<Rightarrow> attempt_row list \<Rightarrow> Attempt \<times> attempt_row list" where
  "UpdateAttempt now kind source fn rows =
     (let out = (fn (attemptTx kind source rows))\<lparr>atKind := kind, atSource := source, atUpdatedAtMS := now\<rparr>
      in (out, putAttemptTx out rows))"

lemma scan_row_of [simp]: "scanAttempt (attempt_row_of a) = a"
  by (simp add: scanAttempt_def attempt_row_of_def)

lemma attempt_row_of_key [simp]: "twKind (attempt_row_of a) = atKind a" "twSource (attempt_row_of a) = atSource a"
  by (simp_all add: attempt_row_of_def)

lemma AttemptRow_put:
  "AttemptRow k s (putAttemptTx a rows) =
     (if k = atKind a \<and> s = atSource a then Some a else AttemptRow k s rows)"
proof -
  let ?P = "\<lambda>r. twKind r = k \<and> twSource r = s" and ?Q = "\<lambda>r. twKind r = atKind a \<and> twSource r = atSource a"
  have upd: "select_one ?P (update_where ?Q (\<lambda>_. attempt_row_of a) rs) =
    (if k = atKind a \<and> s = atSource a then map_option (\<lambda>_. attempt_row_of a) (select_one ?P rs) else select_one ?P rs)" for rs
    by (induction rs) auto
  show ?thesis
  proof (cases "\<exists>r \<in> set rows. ?Q r")
    case True
    then have "select_one ?Q rows \<noteq> None" unfolding select_one_None_iff by blast
    with True upd [of rows] show ?thesis by (auto simp: AttemptRow_def putAttemptTx_def)
  next
    case False
    then have "select_one ?Q rows = None" by (simp add: select_one_None_iff)
    with False show ?thesis by (auto simp: AttemptRow_def putAttemptTx_def select_one_append split: option.split)
  qed
qed

section \<open>The cooldown rule\<close>

record DurableLimitSpec =
  dlKind :: string
  dlSurface :: string
  dlPerSource :: int
  dlGlobal :: int
  dlWindow :: ns
  dlBaseCooldown :: ns
  dlMaxCooldown :: ns

abbreviation AttemptGlobalSource :: string where "AttemptGlobalSource \<equiv> ''*global*''"

definition LimitAdminSecret :: DurableLimitSpec where
  "LimitAdminSecret = \<lparr>dlKind = ''admin_secret'', dlSurface = ''admin_secret'', dlPerSource = 5, dlGlobal = 20,
     dlWindow = 15 * Minute, dlBaseCooldown = Minute, dlMaxCooldown = 24 * Hour\<rparr>"

definition LimitRefreshToken :: DurableLimitSpec where
  "LimitRefreshToken = \<lparr>dlKind = ''refresh_token'', dlSurface = ''refresh_token'', dlPerSource = 30, dlGlobal = 0,
     dlWindow = 15 * Minute, dlBaseCooldown = Minute, dlMaxCooldown = 24 * Hour\<rparr>"

definition LimitOAuthToken :: DurableLimitSpec where
  "LimitOAuthToken = \<lparr>dlKind = ''oauth_token'', dlSurface = ''oauth_token'', dlPerSource = 30, dlGlobal = 0,
     dlWindow = 15 * Minute, dlBaseCooldown = Minute, dlMaxCooldown = 24 * Hour\<rparr>"

fun doubled :: "nat \<Rightarrow> ns \<Rightarrow> ns \<Rightarrow> ns" where
  "doubled 0 most d = d"
| "doubled (Suc n) most d = (if most \<le> d then d else doubled n most (wrap64 (d * 2)))"

definition cooldownFor :: "DurableLimitSpec \<Rightarrow> int \<Rightarrow> ns" where
  "cooldownFor spec steps =
     (let n = (if steps < 1 then 1 else steps);
          d = doubled (nat (n - 1)) (dlMaxCooldown spec) (dlBaseCooldown spec)
      in if dlMaxCooldown spec < d \<or> d \<le> 0 then dlMaxCooldown spec else d)"

definition advanceAttempt :: "Attempt \<Rightarrow> ns \<Rightarrow> DurableLimitSpec \<Rightarrow> int \<Rightarrow> Attempt" where
  "advanceAttempt a now spec limit =
     (let nowMS = UnixMilli now;
          coolingDown = (atCooldownUntilMS a \<noteq> 0 \<and> nowMS < atCooldownUntilMS a);
          a1 = (if atWindowStartMS a = 0 \<or> dlWindow spec \<le> now - atWindowStartMS a * Millisecond
                then a\<lparr>atWindowStartMS := nowMS, atFailures := 0,
                       atCooldownSteps := (if coolingDown then atCooldownSteps a else 0)\<rparr>
                else a);
          a2 = a1\<lparr>atFailures := atFailures a1 + 1\<rparr>
      in if 0 < limit \<and> limit \<le> atFailures a2
         then a2\<lparr>atCooldownSteps := atCooldownSteps a2 + 1,
                 atCooldownUntilMS := nowMS + cooldownFor spec (atCooldownSteps a2 + 1) div Millisecond\<rparr>
         else a2)"

fun check_keys :: "ns \<Rightarrow> DurableLimitSpec \<Rightarrow> string list \<Rightarrow> attempt_row list \<Rightarrow> rate_limited option" where
  "check_keys now spec [] rows = None"
| "check_keys now spec (k # ks) rows =
     (case AttemptRow (dlKind spec) k rows of
        None \<Rightarrow> check_keys now spec ks rows
      | Some a \<Rightarrow>
          if atCooldownUntilMS a = 0 then check_keys now spec ks rows
          else if now < atCooldownUntilMS a * Millisecond
          then Some (rateLimited (dlSurface spec) (atCooldownUntilMS a * Millisecond - now))
          else check_keys now spec ks rows)"

definition Check :: "ns \<Rightarrow> DurableLimitSpec \<Rightarrow> string \<Rightarrow> attempt_row list \<Rightarrow> rate_limited option" where
  "Check now spec source rows =
     check_keys now spec (source # (if 0 < dlGlobal spec then [AttemptGlobalSource] else [])) rows"

definition RecordFailure ::
  "ns \<Rightarrow> ms \<Rightarrow> DurableLimitSpec \<Rightarrow> string \<Rightarrow> attempt_row list \<Rightarrow> Attempt \<times> attempt_row list" where
  "RecordFailure now txNow spec source rows =
     (let (out, rows1) = UpdateAttempt txNow (dlKind spec) source (\<lambda>a. advanceAttempt a now spec (dlPerSource spec)) rows
      in (out, if 0 < dlGlobal spec
               then snd (UpdateAttempt txNow (dlKind spec) AttemptGlobalSource
                          (\<lambda>a. advanceAttempt a now spec (dlGlobal spec)) rows1)
               else rows1))"

section \<open>The cooldown doubles and is capped\<close>

lemma doubled_min:
  assumes "0 < d" "d \<le> most" "most < 2 ^ 62"
  shows "min most (doubled n most d) = min most (d * 2 ^ n) \<and> 0 < doubled n most d"
  using assms
proof (induction n arbitrary: d)
  case (Suc n)
  show ?case
  proof (cases "most \<le> d")
    case True
    have "d * 1 \<le> d * 2 ^ Suc n" using Suc.prems(1) by (intro mult_left_mono one_le_power) auto
    with True Suc.prems show ?thesis by simp
  next
    case False
    have w: "wrap64 (d * 2) = d * 2" using Suc.prems False by (intro wrap64_id) auto
    show ?thesis
    proof (cases "d * 2 \<le> most")
      case True
      with Suc.IH [of "d * 2"] Suc.prems False w show ?thesis by (simp add: mult.assoc)
    next
      case big: False
      have "doubled n most (d * 2) = d * 2" using big by (cases n) auto
      moreover have "most \<le> d * 2 ^ Suc n"
      proof -
        have "d * 2 * 1 \<le> d * 2 * 2 ^ n" using Suc.prems(1) by (intro mult_left_mono one_le_power) auto
        then show ?thesis using big by simp
      qed
      ultimately show ?thesis using False big Suc.prems(1) w by (simp add: min_def)
    qed
  qed
qed simp

text \<open>The cooldown of the n-th step is the base doubled n - 1 times, never more than the maximum, however
  many failures there were: the doubling stops before 64 bits overflow.\<close>

theorem cooldownFor_exact:
  assumes "0 < dlBaseCooldown spec" "dlBaseCooldown spec \<le> dlMaxCooldown spec" "dlMaxCooldown spec < 2 ^ 62"
  shows "cooldownFor spec steps = min (dlMaxCooldown spec) (dlBaseCooldown spec * 2 ^ nat (steps - 1))"
proof -
  have "nat ((if steps < 1 then 1 else steps) - 1) = nat (steps - 1)" by simp
  with doubled_min [OF assms, of "nat (steps - 1)"] show ?thesis
    by (auto simp: cooldownFor_def Let_def min_def not_less not_le split: if_splits)
qed

section \<open>Work in flight\<close>

record ConcurrencySpec =
  csName :: string
  csPerAuthorization :: int
  csGlobal :: int

definition ConcurrencyUploads :: ConcurrencySpec where
  "ConcurrencyUploads = \<lparr>csName = ''uploads'', csPerAuthorization = 4, csGlobal = 16\<rparr>"

definition ConcurrencyDownloads :: ConcurrencySpec where
  "ConcurrencyDownloads = \<lparr>csName = ''downloads'', csPerAuthorization = 8, csGlobal = 32\<rparr>"

text \<open>\<open>clTickets\<close> are the release functions handed out so far, each with its key and whether it has run:
  the \<open>sync.Once\<close> in each.\<close>

record ConcurrencyLimiter =
  clPerKey :: "string \<rightharpoonup> int"
  clTotal :: int
  clTickets :: "(string \<times> bool) list"

definition NewConcurrencyLimiter :: ConcurrencyLimiter where
  "NewConcurrencyLimiter = \<lparr>clPerKey = Map.empty, clTotal = 0, clTickets = []\<rparr>"

definition in_flight_of :: "string \<Rightarrow> ConcurrencyLimiter \<Rightarrow> int" where
  "in_flight_of key c = (case clPerKey c key of None \<Rightarrow> 0 | Some n \<Rightarrow> n)"

text \<open>The result is the number of the ticket.\<close>

definition Acquire :: "ConcurrencySpec \<Rightarrow> string \<Rightarrow> ConcurrencyLimiter \<Rightarrow> (rate_limited + nat) \<times> ConcurrencyLimiter" where
  "Acquire spec key c =
     (if csGlobal spec \<le> clTotal c \<or> csPerAuthorization spec \<le> in_flight_of key c
      then (Inl (rateLimited (csName spec) Second), c)
      else (Inr (length (clTickets c)),
            c\<lparr>clPerKey := (clPerKey c)(key \<mapsto> in_flight_of key c + 1), clTotal := clTotal c + 1,
              clTickets := clTickets c @ [(key, False)]\<rparr>))"

definition release :: "nat \<Rightarrow> ConcurrencyLimiter \<Rightarrow> ConcurrencyLimiter" where
  "release n c =
     (if length (clTickets c) \<le> n \<or> snd (clTickets c ! n) then c
      else
        (let key = fst (clTickets c ! n);
             k = in_flight_of key c
         in c\<lparr>clPerKey := (if 0 < k then (if k = 1 then (clPerKey c)(key := None) else (clPerKey c)(key \<mapsto> k - 1))
                            else clPerKey c),
              clTotal := (if 0 < clTotal c then clTotal c - 1 else clTotal c),
              clTickets := (clTickets c)[n := (key, True)]\<rparr>))"

inductive limiter_step :: "ConcurrencySpec \<Rightarrow> ConcurrencyLimiter \<Rightarrow> ConcurrencyLimiter \<Rightarrow> bool" for spec where
  acquire: "limiter_step spec c (snd (Acquire spec key c))"
| release: "limiter_step spec c (release n c)"

definition held :: "string \<Rightarrow> ConcurrencyLimiter \<Rightarrow> nat" where
  "held key c = length (filter (\<lambda>t. fst t = key \<and> \<not> snd t) (clTickets c))"

definition all_held :: "ConcurrencyLimiter \<Rightarrow> nat" where
  "all_held c = length (filter (\<lambda>t. \<not> snd t) (clTickets c))"

definition limiter_inv :: "ConcurrencySpec \<Rightarrow> ConcurrencyLimiter \<Rightarrow> bool" where
  "limiter_inv spec c \<longleftrightarrow> (\<forall>key. in_flight_of key c = int (held key c)) \<and> clTotal c = int (all_held c) \<and>
     (\<forall>key. int (held key c) \<le> csPerAuthorization spec) \<and> int (all_held c) \<le> csGlobal spec"

lemma length_filter_update:
  assumes "n < length xs" "P (xs ! n)" "\<not> P y"
  shows "length (filter P (xs[n := y])) = length (filter P xs) - 1 \<and> 0 < length (filter P xs)"
  using assms
proof (induction xs arbitrary: n)
  case (Cons x xs)
  then show ?case by (cases n) (auto simp: Suc_diff_1)
qed simp

lemma length_filter_update_other:
  "n < length xs \<Longrightarrow> \<not> P (xs ! n) \<Longrightarrow> \<not> P y \<Longrightarrow> length (filter P (xs[n := y])) = length (filter P xs)"
proof (induction xs arbitrary: n)
  case (Cons x xs)
  then show ?case by (cases n) auto
qed simp

lemma limiter_inv_acquire:
  assumes "limiter_inv spec c"
  shows "limiter_inv spec (snd (Acquire spec key c))"
proof (cases "csGlobal spec \<le> clTotal c \<or> csPerAuthorization spec \<le> in_flight_of key c")
  case True
  with assms show ?thesis by (simp add: Acquire_def)
next
  case False
  let ?c = "snd (Acquire spec key c)"
  have "in_flight_of k ?c = (if k = key then in_flight_of k c + 1 else in_flight_of k c)" for k
    using False by (simp add: Acquire_def in_flight_of_def)
  moreover have "held k ?c = (if k = key then held k c + 1 else held k c)" for k
    using False by (simp add: Acquire_def held_def)
  moreover have "clTotal ?c = clTotal c + 1" "all_held ?c = all_held c + 1"
    using False by (simp_all add: Acquire_def all_held_def)
  ultimately show ?thesis using assms False by (auto simp: limiter_inv_def)
qed

lemma limiter_inv_release:
  assumes "limiter_inv spec c"
  shows "limiter_inv spec (release n c)"
proof (cases "length (clTickets c) \<le> n \<or> snd (clTickets c ! n)")
  case True
  with assms show ?thesis by (auto simp: release_def)
next
  case False
  then have n: "n < length (clTickets c)" "\<not> snd (clTickets c ! n)" by auto
  let ?key = "fst (clTickets c ! n)"
  let ?c = "release n c"
  have tickets: "clTickets ?c = (clTickets c)[n := (?key, True)]" using False by (simp add: release_def Let_def)
  have same: "held ?key ?c = held ?key c - 1 \<and> 0 < held ?key c"
    unfolding held_def tickets using n by (intro length_filter_update) auto
  have other: "held k ?c = held k c" if "k \<noteq> ?key" for k
    unfolding held_def tickets using n that by (intro length_filter_update_other) auto
  have total: "all_held ?c = all_held c - 1 \<and> 0 < all_held c"
    unfolding all_held_def tickets using n by (intro length_filter_update) auto
  have pos: "0 < in_flight_of ?key c" "0 < clTotal c" using assms same total by (simp_all add: limiter_inv_def)
  have flight: "in_flight_of k ?c = (if k = ?key then in_flight_of k c - 1 else in_flight_of k c)" for k
    using False pos(1) by (simp add: release_def Let_def) (simp add: in_flight_of_def)
  have "clTotal ?c = clTotal c - 1" using False pos(2) by (simp add: release_def Let_def)
  moreover have "held k ?c \<le> held k c" for k using same other by (cases "k = ?key") auto
  then have "int (held k ?c) \<le> csPerAuthorization spec" for k using assms unfolding limiter_inv_def by (meson of_nat_mono order_trans)
  moreover have "in_flight_of k ?c = int (held k ?c)" for k
    using flight [of k] same other [of k] assms by (cases "k = ?key") (auto simp: limiter_inv_def)
  ultimately show ?thesis using assms total by (auto simp: limiter_inv_def)
qed

text \<open>Uploads and downloads in flight are bounded. However requests interleave, and however often a release
  function is called, the work of one authorization and of all together never exceeds the limits, and what
  the limiter counts is exactly the slots taken and not yet released.\<close>

theorem concurrency_limits_hold:
  assumes "(limiter_step spec)\<^sup>*\<^sup>* NewConcurrencyLimiter c" "0 \<le> csPerAuthorization spec" "0 \<le> csGlobal spec"
  shows "int (held key c) \<le> csPerAuthorization spec \<and> int (all_held c) \<le> csGlobal spec \<and>
    in_flight_of key c = int (held key c) \<and> clTotal c = int (all_held c)"
proof -
  have "limiter_inv spec c" using assms(1)
  proof (induction rule: rtranclp_induct)
    case base
    show ?case using assms(2,3)
      by (simp add: limiter_inv_def NewConcurrencyLimiter_def in_flight_of_def held_def all_held_def)
  next
    case (step c c')
    then show ?case by (auto elim!: limiter_step.cases intro: limiter_inv_acquire limiter_inv_release)
  qed
  then show ?thesis by (simp add: limiter_inv_def)
qed

theorem concurrency_limits_hold_witness:
  "int (held ''auth_a'' (snd (Acquire ConcurrencyUploads ''auth_a'' NewConcurrencyLimiter))) \<le> 4"
  using concurrency_limits_hold [of ConcurrencyUploads "snd (Acquire ConcurrencyUploads ''auth_a'' NewConcurrencyLimiter)" "''auth_a''"]
    limiter_step.acquire [of ConcurrencyUploads NewConcurrencyLimiter "''auth_a''"]
  by (simp add: r_into_rtranclp) (simp add: ConcurrencyUploads_def)

end
