(* ===== verification/Authz.thy ===== *)
theory Authz
  imports Scopes Limits
begin

text \<open>
  Credentials (\<open>internal/authz/service.go\<close>, \<open>oauth.go\<close>, \<open>compare.go\<close>; the tables of
  \<open>internal/store/authz.go\<close> and the authorization codes of \<open>internal/store/oauth.go\<close>): admin sessions and
  OAuth grants, their access and refresh tokens, rotation, reuse, replay and revocation. SHA-256 is a
  parameter, random values and identifiers come from the environment, as do the clock readings, the
  configured lifetimes and the answer of the in-memory bucket. A request first reads and decides, then
  commits its decision in one write transaction; the two halves are separate functions, because other
  requests run between them. Audit rows keep their kind, result, authorization and source, not their
  JSON payload.
\<close>

section \<open>Digests\<close>

definition hex_digit :: "nat \<Rightarrow> char" where
  "hex_digit n = (if n < 10 then char_of (48 + n) else char_of (87 + n))"

definition hex_value :: "char \<Rightarrow> nat option" where
  "hex_value c =
     (let n = of_char c in
      if 48 \<le> n \<and> n \<le> 57 then Some (n - 48)
      else if 97 \<le> n \<and> n \<le> 102 then Some (n - 87)
      else if 65 \<le> n \<and> n \<le> 70 then Some (n - 55)
      else None)"

definition hex_encode :: "string \<Rightarrow> string" where
  "hex_encode s = concat (map (\<lambda>c. [hex_digit (of_char c div 16), hex_digit (of_char c mod 16)]) s)"

fun hex_decode :: "string \<Rightarrow> string option" where
  "hex_decode [] = Some []"
| "hex_decode [c] = None"
| "hex_decode (a # b # s) =
     (case (hex_value a, hex_value b, hex_decode s) of
        (Some x, Some y, Some t) \<Rightarrow> Some (char_of (16 * x + y) # t)
      | _ \<Rightarrow> None)"

definition domainAdminSecret :: string where "domainAdminSecret = ''agent-gm/admin-secret/v1''"
definition domainSecretGeneraton :: string where "domainSecretGeneraton = ''agent-gm/admin-secret-generation/v1''"
definition domainToken :: string where "domainToken = ''agent-gm/token/v1''"

definition digest :: "(string \<Rightarrow> string) \<Rightarrow> string \<Rightarrow> string list \<Rightarrow> string" where
  "digest sha domain parts = sha (domain @ concat (map (\<lambda>p. CHR 0x00 # p) parts))"

definition hashSecret :: "(string \<Rightarrow> string) \<Rightarrow> string \<Rightarrow> string" where
  "hashSecret sha secret = digest sha domainAdminSecret [secret]"

definition secretGeneration :: "(string \<Rightarrow> string) \<Rightarrow> string \<Rightarrow> string" where
  "secretGeneration sha secret = hex_encode (digest sha domainSecretGeneraton [secret])"

definition tokenDigest :: "(string \<Rightarrow> string) \<Rightarrow> string \<Rightarrow> string \<Rightarrow> string \<Rightarrow> string" where
  "tokenDigest sha audience kind val = digest sha domainToken [audience, kind, val]"

definition tokenHash :: "(string \<Rightarrow> string) \<Rightarrow> string \<Rightarrow> string \<Rightarrow> string \<Rightarrow> string" where
  "tokenHash sha audience kind val = hex_encode (tokenDigest sha audience kind val)"

definition equalHashHex :: "string \<Rightarrow> string \<Rightarrow> bool" where
  "equalHashHex computed storedHex =
     (case hex_decode storedHex of None \<Rightarrow> False | Some d \<Rightarrow> length d = 32 \<and> computed = d)"

lemma hex_value_digit: "n < 16 \<Longrightarrow> hex_value (hex_digit n) = Some n"
  by (auto simp: hex_value_def hex_digit_def Let_def)

lemma hex_decode_encode [simp]: "hex_decode (hex_encode s) = Some s"
proof (induction s)
  case (Cons c s)
  have b: "of_char c < (256 :: nat)" by simp
  then have "of_char c div 16 < (16 :: nat)" by (intro less_mult_imp_div_less) simp
  with Cons show ?case by (simp add: hex_encode_def hex_value_digit)
qed (simp add: hex_encode_def)

lemma equalHashHex_encode: "length d = 32 \<Longrightarrow> equalHashHex c (hex_encode d) \<longleftrightarrow> c = d"
  by (simp add: equalHashHex_def)

lemma hex_encode_inject [simp]: "hex_encode s = hex_encode t \<longleftrightarrow> s = t"
  by (metis hex_decode_encode option.inject)

section \<open>Tables\<close>

abbreviation AuthKindAdminBootstrap :: string where "AuthKindAdminBootstrap \<equiv> ''admin_bootstrap''"
abbreviation AuthKindOAuth :: string where "AuthKindOAuth \<equiv> ''oauth''"
abbreviation TokenKindAccess :: string where "TokenKindAccess \<equiv> ''access''"
abbreviation TokenKindRefresh :: string where "TokenKindRefresh \<equiv> ''refresh''"

record auth_row =
  azID :: string
  azKind :: string
  azClient :: "string option"
  azScopes :: string
  azMintedScopes :: string
  azSecretGeneration :: "string option"
  azSource :: "string option"
  azRevokedAtMS :: "ms option"
  azExpiresAtMS :: "ms option"
  azCreatedAtMS :: ms
  azUpdatedAtMS :: ms

record tok_row =
  tkHash :: string
  tkAuthorizationID :: string
  tkKind :: string
  tkFamilyID :: string
  tkSpentAtMS :: "ms option"
  tkRevokedAtMS :: "ms option"
  tkExpiresAtMS :: ms
  tkCreatedAtMS :: ms

record code_row =
  cdHash :: string
  cdRequestID :: string
  cdClientID :: string
  cdRedirectURI :: string
  cdCodeChallenge :: string
  cdScopes :: string
  cdResource :: string
  cdAuthorizationID :: "string option"
  cdConsumedAtMS :: "ms option"
  cdExpiresAtMS :: ms
  cdCreatedAtMS :: ms

record auth_audit =
  auKind :: string
  auResult :: string
  auAuthorizationID :: string
  auSource :: string
  auTargetType :: "string option"
  auTargetID :: "string option"

record authz_db =
  zdAuths :: "auth_row list"
  zdTokens :: "tok_row list"
  zdCodes :: "code_row list"
  zdAttempts :: "attempt_row list"
  zdAudit :: "auth_audit list"

definition auth_revoked :: "auth_row \<Rightarrow> bool" where "auth_revoked a \<longleftrightarrow> scanInt (azRevokedAtMS a) \<noteq> 0"
definition tok_revoked :: "tok_row \<Rightarrow> bool" where "tok_revoked t \<longleftrightarrow> scanInt (tkRevokedAtMS t) \<noteq> 0"
definition tok_spent :: "tok_row \<Rightarrow> bool" where "tok_spent t \<longleftrightarrow> scanInt (tkSpentAtMS t) \<noteq> 0"
definition code_consumed :: "code_row \<Rightarrow> bool" where "code_consumed c \<longleftrightarrow> scanInt (cdConsumedAtMS c) \<noteq> 0"

datatype authz_error =
    ErrInvalidScope | ErrTokenAbsent | ErrTokenUnknown | ErrTokenExpired | ErrTokenRevoked | ErrTokenReused
  | ErrInvalidSecret | ErrInsufficientScope | ErrInvalidGrant | ErrGrantReplayed | AuthzRateLimited rate_limited
  | ErrAuthorizationNotFound | ErrTokenNotFound | AuthzConstraint sql_error | ErrSetting | ErrRandom | ErrBinding string

definition AuthorizationByID :: "string \<Rightarrow> authz_db \<Rightarrow> auth_row option" where
  "AuthorizationByID i d = select_one (\<lambda>a. azID a = i) (zdAuths d)"

definition TokenByHash :: "string \<Rightarrow> authz_db \<Rightarrow> tok_row option" where
  "TokenByHash h d = select_one (\<lambda>t. tkHash t = h) (zdTokens d)"

definition AuthorizationCodeByHash :: "string \<Rightarrow> authz_db \<Rightarrow> code_row option" where
  "AuthorizationCodeByHash h d = select_one (\<lambda>c. cdHash c = h) (zdCodes d)"

text \<open>The writes of one transaction. \<open>now\<close> is the reading of the clock when it opened.\<close>

definition CreateAuthorization :: "ms \<Rightarrow> auth_row \<Rightarrow> authz_db \<Rightarrow> authz_error + authz_db" where
  "CreateAuthorization now a d =
     (if \<exists>a' \<in> set (zdAuths d). azID a' = azID a then Inl (AuthzConstraint UniqueViolation)
      else Inr (d\<lparr>zdAuths := zdAuths d @
        [a\<lparr>azCreatedAtMS := (if azCreatedAtMS a = 0 then now else azCreatedAtMS a), azUpdatedAtMS := now\<rparr>]\<rparr>))"

definition InsertToken :: "ms \<Rightarrow> tok_row \<Rightarrow> authz_db \<Rightarrow> authz_error + authz_db" where
  "InsertToken now t d =
     (if \<exists>t' \<in> set (zdTokens d). tkHash t' = tkHash t then Inl (AuthzConstraint UniqueViolation)
      else if \<forall>a \<in> set (zdAuths d). azID a \<noteq> tkAuthorizationID t then Inl (AuthzConstraint ForeignKeyViolation)
      else Inr (d\<lparr>zdTokens := zdTokens d @
        [t\<lparr>tkCreatedAtMS := (if tkCreatedAtMS t = 0 then now else tkCreatedAtMS t)\<rparr>]\<rparr>))"

definition SetAuthorizationScopes :: "ms \<Rightarrow> string \<Rightarrow> string \<Rightarrow> authz_db \<Rightarrow> authz_error + authz_db" where
  "SetAuthorizationScopes now i scopes d =
     (if \<forall>a \<in> set (zdAuths d). azID a \<noteq> i then Inl ErrAuthorizationNotFound
      else Inr (d\<lparr>zdAuths := update_where (\<lambda>a. azID a = i) (\<lambda>a. a\<lparr>azScopes := scopes, azUpdatedAtMS := now\<rparr>) (zdAuths d)\<rparr>))"

definition RevokeAuthorizationTx :: "ms \<Rightarrow> string \<Rightarrow> authz_db \<Rightarrow> authz_db" where
  "RevokeAuthorizationTx now i d =
     d\<lparr>zdAuths := update_where (\<lambda>a. azID a = i)
         (\<lambda>a. a\<lparr>azRevokedAtMS := coalesce (azRevokedAtMS a) (Some now), azUpdatedAtMS := now\<rparr>) (zdAuths d)\<rparr>"

definition SpendToken :: "ms \<Rightarrow> string \<Rightarrow> authz_db \<Rightarrow> authz_error + authz_db" where
  "SpendToken now h d =
     (if \<forall>t \<in> set (zdTokens d). tkHash t \<noteq> h then Inl ErrTokenNotFound
      else Inr (d\<lparr>zdTokens := update_where (\<lambda>t. tkHash t = h)
             (\<lambda>t. t\<lparr>tkSpentAtMS := coalesce (tkSpentAtMS t) (Some now)\<rparr>) (zdTokens d)\<rparr>))"

definition RevokeTokenFamily :: "ms \<Rightarrow> string \<Rightarrow> authz_db \<Rightarrow> authz_db" where
  "RevokeTokenFamily now family d =
     d\<lparr>zdTokens := update_where (\<lambda>t. tkFamilyID t = family \<and> tkRevokedAtMS t = None)
         (\<lambda>t. t\<lparr>tkRevokedAtMS := Some now\<rparr>) (zdTokens d)\<rparr>"

definition RevokeTokensForAuthorization :: "ms \<Rightarrow> string \<Rightarrow> authz_db \<Rightarrow> authz_db" where
  "RevokeTokensForAuthorization now i d =
     d\<lparr>zdTokens := update_where (\<lambda>t. tkAuthorizationID t = i \<and> tkRevokedAtMS t = None)
         (\<lambda>t. t\<lparr>tkRevokedAtMS := Some now\<rparr>) (zdTokens d)\<rparr>"

definition CreateAuthorizationCode :: "ms \<Rightarrow> code_row \<Rightarrow> authz_db \<Rightarrow> authz_error + authz_db" where
  "CreateAuthorizationCode now c d =
     (if \<exists>c' \<in> set (zdCodes d). cdHash c' = cdHash c then Inl (AuthzConstraint UniqueViolation)
      else Inr (d\<lparr>zdCodes := zdCodes d @
        [c\<lparr>cdCreatedAtMS := (if cdCreatedAtMS c = 0 then now else cdCreatedAtMS c)\<rparr>]\<rparr>))"

text \<open>The flag: whether this call was the one that consumed the code.\<close>

definition ConsumeAuthorizationCode :: "ms \<Rightarrow> string \<Rightarrow> string \<Rightarrow> authz_db \<Rightarrow> bool \<times> authz_db" where
  "ConsumeAuthorizationCode now h authID d =
     (\<exists>c \<in> set (zdCodes d). cdHash c = h \<and> cdConsumedAtMS c = None,
      d\<lparr>zdCodes := update_where (\<lambda>c. cdHash c = h \<and> cdConsumedAtMS c = None)
          (\<lambda>c. c\<lparr>cdConsumedAtMS := Some now, cdAuthorizationID := coalesce (nullString authID) (cdAuthorizationID c)\<rparr>)
          (zdCodes d)\<rparr>)"

definition AppendAudit :: "string \<Rightarrow> string \<Rightarrow> string \<Rightarrow> string \<Rightarrow> authz_db \<Rightarrow> authz_db" where
  "AppendAudit kind result authID source d =
     d\<lparr>zdAudit := zdAudit d @ [\<lparr>auKind = kind, auResult = result, auAuthorizationID = authID, auSource = source,
       auTargetType = None, auTargetID = None\<rparr>]\<rparr>"

text \<open>At startup: every admin session of another secret is revoked, with its tokens.\<close>

definition superseded :: "string \<Rightarrow> auth_row \<Rightarrow> bool" where
  "superseded generation a \<longleftrightarrow> azKind a = AuthKindAdminBootstrap \<and> azRevokedAtMS a = None \<and>
     scanString (azSecretGeneration a) \<noteq> generation"

definition revoke_superseded :: "ms \<Rightarrow> authz_db \<Rightarrow> string \<Rightarrow> authz_db" where
  "revoke_superseded now d i =
     AppendAudit ''auth.admin_authorization_revoked'' ''ok'' i []
       (RevokeTokensForAuthorization now i (RevokeAuthorizationTx now i d))"

definition RevokeAdminAuthorizationsFromOtherSecrets :: "ms \<Rightarrow> string \<Rightarrow> authz_db \<Rightarrow> string list \<times> authz_db" where
  "RevokeAdminAuthorizationsFromOtherSecrets now generation d =
     (let ids = map azID (filter (superseded generation) (zdAuths d))
      in (ids, foldl (revoke_superseded now) d ids))"

section \<open>The service\<close>

record service =
  seSha :: "string \<Rightarrow> string"
  seAudience :: string
  seAdminSecretHash :: string
  seGeneration :: string

text \<open>\<open>New\<close>: the two digests and the audience; the proxy list, the settings and the buckets are outside the model.\<close>

abbreviation MinAdminSecretLength :: nat where "MinAdminSecretLength \<equiv> 43"

definition TrimRight_slash :: "string \<Rightarrow> string" where
  "TrimRight_slash s = rev (dropWhile (\<lambda>c. c = CHR ''/'') (rev s))"

definition New_service :: "(string \<Rightarrow> string) \<Rightarrow> string \<Rightarrow> string \<Rightarrow> service option" where
  "New_service sha adminSecret publicURL =
     (let public = TrimRight_slash (TrimSpace publicURL)
      in if length adminSecret < MinAdminSecretLength \<or> public = [] then None
         else Some \<lparr>seSha = sha, seAudience = public @ ''/mcp'', seAdminSecretHash = hashSecret sha adminSecret,
                    seGeneration = secretGeneration sha adminSecret\<rparr>)"

definition RevokeSupersededAdminSessions :: "service \<Rightarrow> ms \<Rightarrow> authz_db \<Rightarrow> string list \<times> authz_db" where
  "RevokeSupersededAdminSessions svc now d = RevokeAdminAuthorizationsFromOtherSecrets now (seGeneration svc) d"

text \<open>What one request meets: the clock readings of the limiter's check, the service, the failure count and
  the transaction; the bucket's answer; the lifetimes; the identifiers and token values it draws.\<close>

record authz_env =
  zeCheckAt :: ns
  zeNow :: ns
  zeFailAt :: ns
  zeTxAt :: ns
  zeBucket :: "rate_limited option"
  zeTTLs :: "(ns \<times> ns \<times> ns) option" \<comment> \<open>access, idle, absolute\<close>
  zeAuthID :: string
  zeFamilyID :: string
  zeAccess :: "string option"
  zeRefresh :: "string option"

definition tx_now :: "authz_env \<Rightarrow> ms" where "tx_now env = UnixMilli (zeTxAt env)"

record Session =
  snAuthorizationID :: string
  snAccessToken :: string
  snRefreshToken :: string
  snScopes :: ScopeSet
  snMintedScopes :: ScopeSet
  snAccessExpiry :: ns
  snRefreshExpiry :: ns
  snNarrowed :: bool

definition SourceUnknown :: string where "SourceUnknown = ''unknown''"

definition normalizeSource :: "string \<Rightarrow> string" where
  "normalizeSource source = (let s = TrimSpace source in if s = [] then SourceUnknown else s)"

definition earlier :: "ns \<Rightarrow> ns \<Rightarrow> ns" where "earlier a b = (if a < b then a else b)"

definition count_failure :: "authz_env \<Rightarrow> DurableLimitSpec \<Rightarrow> string \<Rightarrow> authz_db \<Rightarrow> authz_db" where
  "count_failure env spec source d =
     d\<lparr>zdAttempts := snd (RecordFailure (zeFailAt env) (tx_now env) spec source (zdAttempts d))\<rparr>"

text \<open>\<open>recordAdminSecretFailure\<close>, \<open>recordRefreshFailure\<close> and \<open>recordOAuthFailure\<close>: one failure more and an
  audit row.\<close>

definition record_failure :: "authz_env \<Rightarrow> DurableLimitSpec \<Rightarrow> string \<Rightarrow> string \<Rightarrow> authz_db \<Rightarrow> authz_db" where
  "record_failure env spec auditKind source d = AppendAudit auditKind ''refused'' [] source (count_failure env spec source d)"

text \<open>A grant: its authorization row, its two tokens and its audit row, in one transaction.\<close>

record grant =
  grAuthorization :: auth_row
  grFamilyID :: string
  grAccess :: string
  grRefresh :: string
  grAccessExpiry :: ns
  grRefreshExpiry :: ns

definition token_pair :: "service \<Rightarrow> ms \<Rightarrow> string \<Rightarrow> string \<Rightarrow> string \<Rightarrow> string \<Rightarrow> ns \<Rightarrow> ns \<Rightarrow> authz_db \<Rightarrow> authz_error + authz_db" where
  "token_pair svc now authID family access refresh accessExpiry refreshExpiry d =
     (case InsertToken now \<lparr>tkHash = tokenHash (seSha svc) (seAudience svc) TokenKindAccess access, tkAuthorizationID = authID,
             tkKind = TokenKindAccess, tkFamilyID = family, tkSpentAtMS = None, tkRevokedAtMS = None,
             tkExpiresAtMS = UnixMilli accessExpiry, tkCreatedAtMS = 0\<rparr> d of
        Inl e \<Rightarrow> Inl e
      | Inr d1 \<Rightarrow>
          InsertToken now \<lparr>tkHash = tokenHash (seSha svc) (seAudience svc) TokenKindRefresh refresh, tkAuthorizationID = authID,
            tkKind = TokenKindRefresh, tkFamilyID = family, tkSpentAtMS = None, tkRevokedAtMS = None,
            tkExpiresAtMS = UnixMilli refreshExpiry, tkCreatedAtMS = 0\<rparr> d1)"

definition write_grant :: "service \<Rightarrow> ms \<Rightarrow> string \<Rightarrow> string \<Rightarrow> grant \<Rightarrow> authz_db \<Rightarrow> authz_error + authz_db" where
  "write_grant svc now auditKind source g d =
     (case CreateAuthorization now (grAuthorization g) d of
        Inl e \<Rightarrow> Inl e
      | Inr d1 \<Rightarrow>
          (case token_pair svc now (azID (grAuthorization g)) (grFamilyID g) (grAccess g) (grRefresh g)
                  (grAccessExpiry g) (grRefreshExpiry g) d1 of
             Inl e \<Rightarrow> Inl e
           | Inr d2 \<Rightarrow> Inr (AppendAudit auditKind ''ok'' (azID (grAuthorization g)) source d2)))"

subsection \<open>Admin sessions\<close>

definition granted_scopes :: "string list \<Rightarrow> (ScopeSet \<times> bool) option" where
  "granted_scopes requested =
     (if requested = [] then Some (AdminBootstrapScopes, False)
      else case ParseScopes requested of
             None \<Rightarrow> None
           | Some req \<Rightarrow>
               if req = {} \<or> Widens req AdminBootstrapScopes then None
               else Some (req, \<not> scopes_equal req AdminBootstrapScopes))"

definition MintAdminSession ::
  "service \<Rightarrow> authz_env \<Rightarrow> string \<Rightarrow> string list \<Rightarrow> string \<Rightarrow> authz_db \<Rightarrow> (authz_error + Session) \<times> authz_db" where
  "MintAdminSession svc env presented requested src d =
     (let source = normalizeSource src in
      case Check (zeCheckAt env) LimitAdminSecret source (zdAttempts d) of
        Some e \<Rightarrow> (Inl (AuthzRateLimited e), d)
      | None \<Rightarrow>
          if hashSecret (seSha svc) presented \<noteq> seAdminSecretHash svc
          then (Inl ErrInvalidSecret, record_failure env LimitAdminSecret ''auth.admin_secret_failed'' source d)
          else case granted_scopes requested of
                 None \<Rightarrow> (Inl ErrInvalidScope, d)
               | Some (granted, narrowed) \<Rightarrow>
                   (case (zeTTLs env, zeAccess env, zeRefresh env) of
                      (Some (accessTTL, idleTTL, absoluteTTL), Some access, Some refresh) \<Rightarrow>
                        (let now = zeNow env;
                             deadline = now + absoluteTTL;
                             refreshExpiry = earlier (now + idleTTL) deadline;
                             g = \<lparr>grAuthorization =
                                    \<lparr>azID = zeAuthID env, azKind = AuthKindAdminBootstrap, azClient = None,
                                     azScopes = scope_string granted, azMintedScopes = scope_string granted,
                                     azSecretGeneration = nullString (seGeneration svc), azSource = nullString source,
                                     azRevokedAtMS = None, azExpiresAtMS = nullInt (UnixMilli deadline),
                                     azCreatedAtMS = UnixMilli now, azUpdatedAtMS = 0\<rparr>,
                                  grFamilyID = zeFamilyID env, grAccess = access, grRefresh = refresh,
                                  grAccessExpiry = now + accessTTL, grRefreshExpiry = refreshExpiry\<rparr>
                         in case write_grant svc (tx_now env) ''auth.admin_session_minted'' source g d of
                              Inl e \<Rightarrow> (Inl e, d)
                            | Inr d' \<Rightarrow>
                                (Inr \<lparr>snAuthorizationID = zeAuthID env, snAccessToken = access, snRefreshToken = refresh,
                                      snScopes = granted, snMintedScopes = granted, snAccessExpiry = now + accessTTL,
                                      snRefreshExpiry = refreshExpiry, snNarrowed = narrowed\<rparr>, d'))
                    | (None, _, _) \<Rightarrow> (Inl ErrSetting, d)
                    | _ \<Rightarrow> (Inl ErrRandom, d)))"

subsection \<open>Refresh\<close>

record refreshParams =
  rpPresentedToken :: string
  rpRequestedScopes :: "string list"
  rpSource :: string
  rpKind :: string
  rpLimit :: DurableLimitSpec
  rpClientID :: string
  rpAuditRefreshed :: string
  rpAuditNarrowed :: string
  rpAuditFailed :: string
  rpWrongKind :: authz_error

text \<open>What a request to rotate a token has read and computed before its transaction.\<close>

record rotation =
  roHash :: string
  roAuthID :: string
  roCurrent :: ScopeSet
  roMinted :: ScopeSet
  roNext :: ScopeSet
  roNarrowed :: bool
  roAccess :: string
  roRefresh :: string
  roAccessExpiry :: ns
  roRefreshExpiry :: ns

datatype refresh_decision =
    RefuseRefresh authz_error
  | CountRefresh authz_error
  | ReuseRefresh tok_row
  | Rotate rotation

definition next_scopes :: "string list \<Rightarrow> ScopeSet \<Rightarrow> ScopeSet \<Rightarrow> (ScopeSet \<times> bool) option" where
  "next_scopes requested current minted =
     (if requested = [] then Some (current, False)
      else case ParseScopes requested of
             None \<Rightarrow> None
           | Some req \<Rightarrow>
               if req = {} \<or> Widens req minted \<or> Widens req current then None
               else Some (req, \<not> scopes_equal req current))"

definition rotate_plan :: "authz_env \<Rightarrow> refreshParams \<Rightarrow> tok_row \<Rightarrow> auth_row \<Rightarrow> refresh_decision" where
  "rotate_plan env p row auth =
     (case (ParseScopeString (azScopes auth), ParseScopeString (azMintedScopes auth)) of
        (Some current, Some minted) \<Rightarrow>
          (case next_scopes (rpRequestedScopes p) current minted of
             None \<Rightarrow> RefuseRefresh ErrInvalidScope
           | Some (next, narrowed) \<Rightarrow>
               (case (zeTTLs env, zeAccess env, zeRefresh env) of
                  (Some (accessTTL, idleTTL, absoluteTTL), Some access, Some refresh) \<Rightarrow>
                    Rotate \<lparr>roHash = tkHash row, roAuthID = azID auth, roCurrent = current, roMinted = minted,
                      roNext = next, roNarrowed = narrowed, roAccess = access, roRefresh = refresh,
                      roAccessExpiry = zeNow env + accessTTL,
                      roRefreshExpiry =
                        (if scanInt (azExpiresAtMS auth) \<noteq> 0
                         then earlier (zeNow env + idleTTL) (scanInt (azExpiresAtMS auth) * Millisecond)
                         else zeNow env + idleTTL)\<rparr>
                | (None, _, _) \<Rightarrow> RefuseRefresh ErrSetting
                | _ \<Rightarrow> RefuseRefresh ErrRandom))
      | _ \<Rightarrow> RefuseRefresh ErrInvalidScope)"

text \<open>Everything \<open>refreshSession\<close> reads.\<close>

definition refresh_decide :: "service \<Rightarrow> authz_env \<Rightarrow> refreshParams \<Rightarrow> authz_db \<Rightarrow> refresh_decision" where
  "refresh_decide svc env p d =
     (let source = normalizeSource (rpSource p);
          presented = tokenDigest (seSha svc) (seAudience svc) TokenKindRefresh (rpPresentedToken p);
          nowMS = UnixMilli (zeNow env)
      in case zeBucket env of
           Some e \<Rightarrow> RefuseRefresh (AuthzRateLimited e)
         | None \<Rightarrow>
        (case Check (zeCheckAt env) (rpLimit p) source (zdAttempts d) of
           Some e \<Rightarrow> RefuseRefresh (AuthzRateLimited e)
         | None \<Rightarrow>
        (case TokenByHash (hex_encode presented) d of
           None \<Rightarrow> CountRefresh ErrTokenUnknown
         | Some row \<Rightarrow>
             if \<not> equalHashHex presented (tkHash row) then CountRefresh ErrTokenUnknown
             else if tok_revoked row then CountRefresh ErrTokenRevoked
             else if tkExpiresAtMS row \<le> nowMS then CountRefresh ErrTokenExpired
             else if tok_spent row then ReuseRefresh row
             else case AuthorizationByID (tkAuthorizationID row) d of
                    None \<Rightarrow> RefuseRefresh ErrAuthorizationNotFound
                  | Some auth \<Rightarrow>
                      if azKind auth \<noteq> rpKind p then CountRefresh (rpWrongKind p)
                      else if rpClientID p \<noteq> [] \<and> scanString (azClient auth) \<noteq> rpClientID p then CountRefresh (rpWrongKind p)
                      else if auth_revoked auth then CountRefresh ErrTokenRevoked
                      else if scanInt (azExpiresAtMS auth) \<noteq> 0 \<and> scanInt (azExpiresAtMS auth) \<le> nowMS
                      then CountRefresh ErrTokenExpired
                      else rotate_plan env p row auth)))"

definition revokeFamilyTx :: "ms \<Rightarrow> string \<Rightarrow> string \<Rightarrow> string \<Rightarrow> authz_db \<Rightarrow> authz_db" where
  "revokeFamilyTx now authID family source d =
     AppendAudit ''auth.refresh_token_reuse_detected'' ''refused'' authID source
       (RevokeTokensForAuthorization now authID (RevokeAuthorizationTx now authID (RevokeTokenFamily now family d)))"

definition rotate_tx :: "service \<Rightarrow> authz_env \<Rightarrow> refreshParams \<Rightarrow> rotation \<Rightarrow> authz_db \<Rightarrow> (authz_error + Session) \<times> authz_db" where
  "rotate_tx svc env p r d =
     (let now = tx_now env; source = normalizeSource (rpSource p) in
      case TokenByHash (roHash r) d of
        None \<Rightarrow> (Inl ErrTokenNotFound, d)
      | Some cur \<Rightarrow>
          if tok_spent cur \<or> tok_revoked cur
          then (Inl ErrTokenReused, revokeFamilyTx now (roAuthID r) (tkFamilyID cur) source d)
          else case SpendToken now (roHash r) d of
                 Inl e \<Rightarrow> (Inl e, d)
               | Inr d1 \<Rightarrow>
                   (case token_pair svc now (roAuthID r) (tkFamilyID cur) (roAccess r) (roRefresh r)
                           (roAccessExpiry r) (roRefreshExpiry r) d1 of
                      Inl e \<Rightarrow> (Inl e, d)
                    | Inr d2 \<Rightarrow>
                        (case (if roNarrowed r
                               then map_sum id (AppendAudit (rpAuditNarrowed p) ''ok'' (roAuthID r) source)
                                      (SetAuthorizationScopes now (roAuthID r) (scope_string (roNext r)) d2)
                               else Inr d2) of
                           Inl e \<Rightarrow> (Inl e, d)
                         | Inr d3 \<Rightarrow>
                             (Inr \<lparr>snAuthorizationID = roAuthID r, snAccessToken = roAccess r, snRefreshToken = roRefresh r,
                                   snScopes = roNext r, snMintedScopes = roMinted r, snAccessExpiry = roAccessExpiry r,
                                   snRefreshExpiry = roRefreshExpiry r, snNarrowed = roNarrowed r\<rparr>,
                              AppendAudit (rpAuditRefreshed p) ''ok'' (roAuthID r) source d3))))"

text \<open>Everything \<open>refreshSession\<close> writes.\<close>

definition refresh_apply ::
  "service \<Rightarrow> authz_env \<Rightarrow> refreshParams \<Rightarrow> refresh_decision \<Rightarrow> authz_db \<Rightarrow> (authz_error + Session) \<times> authz_db" where
  "refresh_apply svc env p dec d =
     (let source = normalizeSource (rpSource p) in
      case dec of
        RefuseRefresh e \<Rightarrow> (Inl e, d)
      | CountRefresh e \<Rightarrow> (Inl e, record_failure env (rpLimit p) (rpAuditFailed p) source d)
      | ReuseRefresh row \<Rightarrow>
          (Inl ErrTokenReused, count_failure env (rpLimit p) source
             (revokeFamilyTx (tx_now env) (tkAuthorizationID row) (tkFamilyID row) source d))
      | Rotate r \<Rightarrow> rotate_tx svc env p r d)"

definition refreshSession ::
  "service \<Rightarrow> authz_env \<Rightarrow> refreshParams \<Rightarrow> authz_db \<Rightarrow> (authz_error + Session) \<times> authz_db" where
  "refreshSession svc env p d = refresh_apply svc env p (refresh_decide svc env p d) d"

definition Refresh_params :: "string \<Rightarrow> string list \<Rightarrow> string \<Rightarrow> refreshParams" where
  "Refresh_params presented requested source =
     \<lparr>rpPresentedToken = presented, rpRequestedScopes = requested, rpSource = source, rpKind = AuthKindAdminBootstrap,
      rpLimit = LimitRefreshToken, rpClientID = [], rpAuditRefreshed = ''auth.admin_session_refreshed'',
      rpAuditNarrowed = ''auth.admin_session_narrowed'', rpAuditFailed = ''auth.refresh_token_failed'',
      rpWrongKind = ErrTokenUnknown\<rparr>"

definition RefreshOAuth_params :: "string \<Rightarrow> string \<Rightarrow> string list \<Rightarrow> string \<Rightarrow> refreshParams" where
  "RefreshOAuth_params presented clientID requested source =
     \<lparr>rpPresentedToken = presented, rpRequestedScopes = requested, rpSource = source, rpKind = AuthKindOAuth,
      rpLimit = LimitOAuthToken, rpClientID = clientID, rpAuditRefreshed = ''authorization.token_refreshed'',
      rpAuditNarrowed = ''authorization.token_narrowed'', rpAuditFailed = ''authorization.token_failed'',
      rpWrongKind = ErrInvalidGrant\<rparr>"

subsection \<open>Authorization codes\<close>

text \<open>\<open>exVerify\<close> is the binding check of \<open>internal/oauth\<close>; \<open>Some e\<close> is its refusal.\<close>

record CodeExchange =
  exCodeHash :: string
  exClientID :: string
  exSource :: string
  exVerify :: "code_row \<Rightarrow> authz_error option"

datatype exchange_decision =
    RefuseExchange authz_error
  | CountExchange authz_error
  | ReplayExchange code_row
  | BurnExchange code_row authz_error
  | MintGrant code_row grant ScopeSet

definition grant_plan :: "authz_env \<Rightarrow> string \<Rightarrow> code_row \<Rightarrow> exchange_decision" where
  "grant_plan env source code =
     (case ParseScopeString (cdScopes code) of
        None \<Rightarrow> RefuseExchange ErrInvalidScope
      | Some scopes \<Rightarrow>
          if scopes = {} then RefuseExchange ErrInvalidGrant
          else if ScopeAdmin \<in> scopes then RefuseExchange ErrInvalidScope
          else (case (zeTTLs env, zeAccess env, zeRefresh env) of
                  (Some (accessTTL, idleTTL, absoluteTTL), Some access, Some refresh) \<Rightarrow>
                    (let now = zeNow env; deadline = now + absoluteTTL
                     in MintGrant code
                       \<lparr>grAuthorization =
                          \<lparr>azID = zeAuthID env, azKind = AuthKindOAuth, azClient = nullString (cdClientID code),
                           azScopes = scope_string scopes, azMintedScopes = scope_string scopes,
                           azSecretGeneration = None, azSource = nullString source, azRevokedAtMS = None,
                           azExpiresAtMS = nullInt (UnixMilli deadline), azCreatedAtMS = UnixMilli now, azUpdatedAtMS = 0\<rparr>,
                        grFamilyID = zeFamilyID env, grAccess = access, grRefresh = refresh,
                        grAccessExpiry = now + accessTTL, grRefreshExpiry = earlier (now + idleTTL) deadline\<rparr> scopes)
                | (None, _, _) \<Rightarrow> RefuseExchange ErrSetting
                | _ \<Rightarrow> RefuseExchange ErrRandom))"

definition exchange_decide :: "authz_env \<Rightarrow> CodeExchange \<Rightarrow> authz_db \<Rightarrow> exchange_decision" where
  "exchange_decide env x d =
     (let source = normalizeSource (exSource x) in
      case zeBucket env of
        Some e \<Rightarrow> RefuseExchange (AuthzRateLimited e)
      | None \<Rightarrow>
     (case Check (zeCheckAt env) LimitOAuthToken source (zdAttempts d) of
        Some e \<Rightarrow> RefuseExchange (AuthzRateLimited e)
      | None \<Rightarrow>
     (case AuthorizationCodeByHash (exCodeHash x) d of
        None \<Rightarrow> CountExchange ErrInvalidGrant
      | Some code \<Rightarrow>
          if code_consumed code then ReplayExchange code
          else if cdExpiresAtMS code \<le> UnixMilli (zeNow env) then CountExchange ErrInvalidGrant
          else case exVerify x code of
                 Some e \<Rightarrow> BurnExchange code e
               | None \<Rightarrow> grant_plan env source code)))"

definition revokeAfterReplay :: "authz_env \<Rightarrow> string \<Rightarrow> code_row \<Rightarrow> authz_db \<Rightarrow> authz_db" where
  "revokeAfterReplay env source code d =
     count_failure env LimitOAuthToken source
       (case cdAuthorizationID code of
          None \<Rightarrow> d
        | Some i \<Rightarrow>
            if i = [] then d
            else AppendAudit ''authorization.revoked'' ''refused'' i source
                   (RevokeAuthorizationTx (tx_now env) i (RevokeTokensForAuthorization (tx_now env) i d)))"

definition exchange_apply ::
  "service \<Rightarrow> authz_env \<Rightarrow> CodeExchange \<Rightarrow> exchange_decision \<Rightarrow> authz_db \<Rightarrow> (authz_error + Session) \<times> authz_db" where
  "exchange_apply svc env x dec d =
     (let source = normalizeSource (exSource x); failed = ''authorization.token_failed'' in
      case dec of
        RefuseExchange e \<Rightarrow> (Inl e, d)
      | CountExchange e \<Rightarrow> (Inl e, record_failure env LimitOAuthToken failed source d)
      | ReplayExchange code \<Rightarrow> (Inl ErrGrantReplayed, revokeAfterReplay env source code d)
      | BurnExchange code e \<Rightarrow>
          (Inl e, count_failure env LimitOAuthToken source
             (AppendAudit failed ''refused'' [] source
               (snd (ConsumeAuthorizationCode (tx_now env) (cdHash code) [] d))))
      | MintGrant code g scopes \<Rightarrow>
          (let (ok, d1) = ConsumeAuthorizationCode (tx_now env) (cdHash code) (azID (grAuthorization g)) d in
           if \<not> ok
           then (case AuthorizationCodeByHash (exCodeHash x) d1 of
                   None \<Rightarrow> (Inl ErrInvalidGrant, record_failure env LimitOAuthToken failed source d1)
                 | Some fresh \<Rightarrow> (Inl ErrGrantReplayed, revokeAfterReplay env source fresh d1))
           else case write_grant svc (tx_now env) ''authorization.token_issued'' source g d1 of
                  Inl e \<Rightarrow> (Inl e, d)
                | Inr d2 \<Rightarrow>
                    (Inr \<lparr>snAuthorizationID = azID (grAuthorization g), snAccessToken = grAccess g, snRefreshToken = grRefresh g,
                          snScopes = scopes, snMintedScopes = scopes, snAccessExpiry = grAccessExpiry g,
                          snRefreshExpiry = grRefreshExpiry g, snNarrowed = False\<rparr>, d2)))"

definition ExchangeAuthorizationCode ::
  "service \<Rightarrow> authz_env \<Rightarrow> CodeExchange \<Rightarrow> authz_db \<Rightarrow> (authz_error + Session) \<times> authz_db" where
  "ExchangeAuthorizationCode svc env x d = exchange_apply svc env x (exchange_decide env x d) d"

subsection \<open>Revocation\<close>

definition revoke_grant :: "authz_env \<Rightarrow> string \<Rightarrow> string \<Rightarrow> authz_db \<Rightarrow> authz_db" where
  "revoke_grant env i source d =
     AppendAudit ''authorization.revoked'' ''ok'' i source
       (RevokeAuthorizationTx (tx_now env) i (RevokeTokensForAuthorization (tx_now env) i d))"

datatype revoke_decision =
    RefuseRevoke rate_limited
  | IgnoreRevoke
  | CountRevoke
  | RevokeGrant string

text \<open>The loop over the two kinds a presented value may have.\<close>

fun revoke_scan :: "service \<Rightarrow> string \<Rightarrow> string \<Rightarrow> authz_db \<Rightarrow> string list \<Rightarrow> revoke_decision" where
  "revoke_scan svc presented clientID d [] = CountRevoke"
| "revoke_scan svc presented clientID d (kind # kinds) =
     (let dig = tokenDigest (seSha svc) (seAudience svc) kind presented in
      case TokenByHash (hex_encode dig) d of
        None \<Rightarrow> revoke_scan svc presented clientID d kinds
      | Some row \<Rightarrow>
          if \<not> equalHashHex dig (tkHash row) then revoke_scan svc presented clientID d kinds
          else case AuthorizationByID (tkAuthorizationID row) d of
                 None \<Rightarrow> revoke_scan svc presented clientID d kinds
               | Some auth \<Rightarrow>
                   if azKind auth \<noteq> AuthKindOAuth \<or> scanString (azClient auth) \<noteq> clientID
                   then revoke_scan svc presented clientID d kinds
                   else if auth_revoked auth then IgnoreRevoke
                   else RevokeGrant (azID auth))"

definition revoke_decide :: "service \<Rightarrow> authz_env \<Rightarrow> string \<Rightarrow> string \<Rightarrow> string \<Rightarrow> authz_db \<Rightarrow> revoke_decision" where
  "revoke_decide svc env presented clientID src d =
     (case zeBucket env of
        Some e \<Rightarrow> RefuseRevoke e
      | None \<Rightarrow>
     (case Check (zeCheckAt env) LimitOAuthToken (normalizeSource src) (zdAttempts d) of
        Some e \<Rightarrow> RefuseRevoke e
      | None \<Rightarrow>
          if TrimSpace clientID = [] then CountRevoke
          else revoke_scan svc presented clientID d [TokenKindAccess, TokenKindRefresh]))"

definition revoke_apply :: "authz_env \<Rightarrow> string \<Rightarrow> revoke_decision \<Rightarrow> authz_db \<Rightarrow> authz_error option \<times> authz_db" where
  "revoke_apply env src dec d =
     (let source = normalizeSource src in
      case dec of
        RefuseRevoke e \<Rightarrow> (Some (AuthzRateLimited e), d)
      | IgnoreRevoke \<Rightarrow> (None, d)
      | CountRevoke \<Rightarrow> (None, count_failure env LimitOAuthToken source d)
      | RevokeGrant i \<Rightarrow> (None, revoke_grant env i source d))"

definition RevokeToken :: "service \<Rightarrow> authz_env \<Rightarrow> string \<Rightarrow> string \<Rightarrow> string \<Rightarrow> authz_db \<Rightarrow> authz_error option \<times> authz_db" where
  "RevokeToken svc env presented clientID src d =
     revoke_apply env src (revoke_decide svc env presented clientID src d) d"

definition RevokeAuthorization :: "authz_env \<Rightarrow> string \<Rightarrow> string \<Rightarrow> authz_db \<Rightarrow> authz_error option \<times> authz_db" where
  "RevokeAuthorization env i src d =
     (case AuthorizationByID i d of
        None \<Rightarrow> (Some ErrAuthorizationNotFound, d)
      | Some a \<Rightarrow> (None, revoke_grant env i (normalizeSource src) d))"

subsection \<open>Authentication\<close>

record Authorization =
  anID :: string
  anKind :: string
  anScopes :: ScopeSet
  anMintedScopes :: ScopeSet
  anSource :: string
  anExpiresAt :: "ns option"

definition Authenticate :: "service \<Rightarrow> ns \<Rightarrow> string \<Rightarrow> authz_db \<Rightarrow> authz_error + Authorization" where
  "Authenticate svc now presented d =
     (if TrimSpace presented = [] then Inl ErrTokenAbsent
      else
        (let dig = tokenDigest (seSha svc) (seAudience svc) TokenKindAccess presented; nowMS = UnixMilli now in
         case TokenByHash (hex_encode dig) d of
           None \<Rightarrow> Inl ErrTokenUnknown
         | Some row \<Rightarrow>
             if \<not> equalHashHex dig (tkHash row) then Inl ErrTokenUnknown
             else if tok_revoked row then Inl ErrTokenRevoked
             else if tkExpiresAtMS row \<le> nowMS then Inl ErrTokenExpired
             else case AuthorizationByID (tkAuthorizationID row) d of
                    None \<Rightarrow> Inl ErrTokenUnknown
                  | Some auth \<Rightarrow>
                      if auth_revoked auth then Inl ErrTokenRevoked
                      else if scanInt (azExpiresAtMS auth) \<noteq> 0 \<and> scanInt (azExpiresAtMS auth) \<le> nowMS then Inl ErrTokenExpired
                      else (case (ParseScopeString (azScopes auth), ParseScopeString (azMintedScopes auth)) of
                              (Some scopes, Some minted) \<Rightarrow>
                                Inr \<lparr>anID = azID auth, anKind = azKind auth, anScopes = scopes, anMintedScopes = minted,
                                     anSource = scanString (azSource auth),
                                     anExpiresAt = (if scanInt (azExpiresAtMS auth) \<noteq> 0
                                                    then Some (scanInt (azExpiresAtMS auth) * Millisecond) else None)\<rparr>
                            | _ \<Rightarrow> Inl ErrInvalidScope)))"

definition Require :: "string \<Rightarrow> Authorization option \<Rightarrow> authz_error option" where
  "Require scope a =
     (case a of None \<Rightarrow> Some ErrTokenAbsent | Some a \<Rightarrow> if scope \<in> anScopes a then None else Some ErrInsufficientScope)"

end
