(* ===== verification/Authz_Rows.thy ===== *)
theory Authz_Rows
  imports Authz
begin

text \<open>
  What each write of the credential tables does to what a lookup returns, and the two kinds of change a
  request makes: quiet ones, which keep every row, its scopes and its owner and only revoke, spend or
  consume, and the insertion of a fresh pair of tokens.
\<close>

section \<open>What the writes do to the rows\<close>

lemma AuthorizationByID_id: "AuthorizationByID i d = Some a \<Longrightarrow> azID a = i"
  by (auto simp: AuthorizationByID_def dest: select_one_SomeD)

lemma TokenByHash_hash: "TokenByHash h d = Some t \<Longrightarrow> tkHash t = h"
  by (auto simp: TokenByHash_def dest: select_one_SomeD)

lemma lookup_update:
  "(\<And>r. key (g r) = key r) \<Longrightarrow> select_one (\<lambda>r. key r = i) (update_where P g rows) =
     map_option (\<lambda>r. if P r then g r else r) (select_one (\<lambda>r. key r = i) rows)"
  by (induction rows) auto

lemma revoke_auth_rows [simp]:
  "AuthorizationByID i (RevokeAuthorizationTx now j d) =
     map_option (\<lambda>a. if azID a = j then a\<lparr>azRevokedAtMS := coalesce (azRevokedAtMS a) (Some now), azUpdatedAtMS := now\<rparr> else a)
       (AuthorizationByID i d)"
  "TokenByHash h (RevokeAuthorizationTx now j d) = TokenByHash h d"
  "AuthorizationCodeByHash h (RevokeAuthorizationTx now j d) = AuthorizationCodeByHash h d"
  by (simp_all add: RevokeAuthorizationTx_def AuthorizationByID_def TokenByHash_def AuthorizationCodeByHash_def lookup_update)

lemma revoke_family_rows [simp]:
  "AuthorizationByID i (RevokeTokenFamily now f d) = AuthorizationByID i d"
  "TokenByHash h (RevokeTokenFamily now f d) =
     map_option (\<lambda>t. if tkFamilyID t = f \<and> tkRevokedAtMS t = None then t\<lparr>tkRevokedAtMS := Some now\<rparr> else t) (TokenByHash h d)"
  "AuthorizationCodeByHash h (RevokeTokenFamily now f d) = AuthorizationCodeByHash h d"
  by (simp_all add: RevokeTokenFamily_def AuthorizationByID_def TokenByHash_def AuthorizationCodeByHash_def lookup_update)

lemma revoke_tokens_rows [simp]:
  "AuthorizationByID i (RevokeTokensForAuthorization now j d) = AuthorizationByID i d"
  "TokenByHash h (RevokeTokensForAuthorization now j d) =
     map_option (\<lambda>t. if tkAuthorizationID t = j \<and> tkRevokedAtMS t = None then t\<lparr>tkRevokedAtMS := Some now\<rparr> else t) (TokenByHash h d)"
  "AuthorizationCodeByHash h (RevokeTokensForAuthorization now j d) = AuthorizationCodeByHash h d"
  by (simp_all add: RevokeTokensForAuthorization_def AuthorizationByID_def TokenByHash_def AuthorizationCodeByHash_def lookup_update)

lemma audit_rows [simp]:
  "AuthorizationByID i (AppendAudit k r a s d) = AuthorizationByID i d"
  "TokenByHash h (AppendAudit k r a s d) = TokenByHash h d"
  "AuthorizationCodeByHash h (AppendAudit k r a s d) = AuthorizationCodeByHash h d"
  by (simp_all add: AppendAudit_def AuthorizationByID_def TokenByHash_def AuthorizationCodeByHash_def)

lemma count_rows [simp]:
  "AuthorizationByID i (count_failure env spec s d) = AuthorizationByID i d"
  "TokenByHash h (count_failure env spec s d) = TokenByHash h d"
  "AuthorizationCodeByHash h (count_failure env spec s d) = AuthorizationCodeByHash h d"
  by (simp_all add: count_failure_def AuthorizationByID_def TokenByHash_def AuthorizationCodeByHash_def)

lemma consume_rows [simp]:
  "AuthorizationByID i (snd (ConsumeAuthorizationCode now h j d)) = AuthorizationByID i d"
  "TokenByHash k (snd (ConsumeAuthorizationCode now h j d)) = TokenByHash k d"
  "AuthorizationCodeByHash k (snd (ConsumeAuthorizationCode now h j d)) =
     map_option (\<lambda>c. if cdHash c = h \<and> cdConsumedAtMS c = None
       then c\<lparr>cdConsumedAtMS := Some now, cdAuthorizationID := coalesce (nullString j) (cdAuthorizationID c)\<rparr> else c)
       (AuthorizationCodeByHash k d)"
  by (simp_all add: ConsumeAuthorizationCode_def AuthorizationByID_def TokenByHash_def AuthorizationCodeByHash_def lookup_update)

lemma lookup_new:
  "\<not> (\<exists>r' \<in> set rows. key r' = key r) \<Longrightarrow>
   select_one (\<lambda>r. key r = i) (rows @ [r]) = (if i = key r then Some r else select_one (\<lambda>r. key r = i) rows)"
  by (induction rows) auto

lemma spend_rows:
  assumes "SpendToken now h d = Inr d'"
  shows "AuthorizationByID i d' = AuthorizationByID i d" "AuthorizationCodeByHash k d' = AuthorizationCodeByHash k d"
    "TokenByHash k d' = map_option (\<lambda>t. if tkHash t = h then t\<lparr>tkSpentAtMS := coalesce (tkSpentAtMS t) (Some now)\<rparr> else t) (TokenByHash k d)"
  using assms by (auto simp: SpendToken_def AuthorizationByID_def TokenByHash_def AuthorizationCodeByHash_def lookup_update split: if_splits)

lemma insert_rows:
  assumes "InsertToken now t d = Inr d'"
  shows "AuthorizationByID i d' = AuthorizationByID i d" "AuthorizationCodeByHash k d' = AuthorizationCodeByHash k d"
    "\<exists>at. TokenByHash k d' = (if k = tkHash t then Some (t\<lparr>tkCreatedAtMS := at\<rparr>) else TokenByHash k d)"
    "TokenByHash (tkHash t) d = None" "AuthorizationByID (tkAuthorizationID t) d \<noteq> None"
proof -
  from assms have no: "\<not> (\<exists>t' \<in> set (zdTokens d). tkHash t' = tkHash t)"
    and fk: "\<exists>a \<in> set (zdAuths d). azID a = tkAuthorizationID t"
    and d': "d' = d\<lparr>zdTokens := zdTokens d @ [t\<lparr>tkCreatedAtMS := (if tkCreatedAtMS t = 0 then now else tkCreatedAtMS t)\<rparr>]\<rparr>"
    by (auto simp: InsertToken_def split: if_splits)
  show "AuthorizationByID i d' = AuthorizationByID i d" "AuthorizationCodeByHash k d' = AuthorizationCodeByHash k d"
    unfolding d' by (simp_all add: AuthorizationByID_def AuthorizationCodeByHash_def)
  show "\<exists>at. TokenByHash k d' = (if k = tkHash t then Some (t\<lparr>tkCreatedAtMS := at\<rparr>) else TokenByHash k d)"
    unfolding d' TokenByHash_def
    using lookup_new [of "zdTokens d" tkHash "t\<lparr>tkCreatedAtMS := (if tkCreatedAtMS t = 0 then now else tkCreatedAtMS t)\<rparr>" k] no
    by (intro exI [of _ "if tkCreatedAtMS t = 0 then now else tkCreatedAtMS t"]) simp
  show "TokenByHash (tkHash t) d = None" using no by (auto simp: TokenByHash_def select_one_None_iff)
  show "AuthorizationByID (tkAuthorizationID t) d \<noteq> None"
    using fk unfolding AuthorizationByID_def select_one_None_iff by blast
qed

lemma create_rows:
  assumes "CreateAuthorization now a d = Inr d'"
  shows "TokenByHash h d' = TokenByHash h d" "AuthorizationCodeByHash k d' = AuthorizationCodeByHash k d"
    "\<exists>at. AuthorizationByID i d' =
       (if i = azID a then Some (a\<lparr>azCreatedAtMS := at, azUpdatedAtMS := now\<rparr>) else AuthorizationByID i d)"
    "AuthorizationByID (azID a) d = None"
proof -
  from assms have no: "\<not> (\<exists>a' \<in> set (zdAuths d). azID a' = azID a)"
    and d': "d' = d\<lparr>zdAuths := zdAuths d @
      [a\<lparr>azCreatedAtMS := (if azCreatedAtMS a = 0 then now else azCreatedAtMS a), azUpdatedAtMS := now\<rparr>]\<rparr>"
    by (auto simp: CreateAuthorization_def split: if_splits)
  show "TokenByHash h d' = TokenByHash h d" "AuthorizationCodeByHash k d' = AuthorizationCodeByHash k d"
    unfolding d' by (simp_all add: TokenByHash_def AuthorizationCodeByHash_def)
  show "\<exists>at. AuthorizationByID i d' =
       (if i = azID a then Some (a\<lparr>azCreatedAtMS := at, azUpdatedAtMS := now\<rparr>) else AuthorizationByID i d)"
    unfolding d' AuthorizationByID_def
    using lookup_new [of "zdAuths d" azID "a\<lparr>azCreatedAtMS := (if azCreatedAtMS a = 0 then now else azCreatedAtMS a), azUpdatedAtMS := now\<rparr>" i] no
    by (intro exI [of _ "if azCreatedAtMS a = 0 then now else azCreatedAtMS a"]) simp
  show "AuthorizationByID (azID a) d = None" using no by (auto simp: AuthorizationByID_def select_one_None_iff)
qed

lemma scopes_rows:
  assumes "SetAuthorizationScopes now j sc d = Inr d'"
  shows "TokenByHash h d' = TokenByHash h d" "AuthorizationCodeByHash k d' = AuthorizationCodeByHash k d"
    "AuthorizationByID i d' = map_option (\<lambda>a. if azID a = j then a\<lparr>azScopes := sc, azUpdatedAtMS := now\<rparr> else a) (AuthorizationByID i d)"
  using assms by (auto simp: SetAuthorizationScopes_def AuthorizationByID_def TokenByHash_def AuthorizationCodeByHash_def lookup_update split: if_splits)


lemma code_rows:
  assumes "CreateAuthorizationCode now c d = Inr d'"
  shows "AuthorizationByID i d' = AuthorizationByID i d" "TokenByHash h d' = TokenByHash h d"
    "\<exists>at. AuthorizationCodeByHash k d' = (if k = cdHash c then Some (c\<lparr>cdCreatedAtMS := at\<rparr>) else AuthorizationCodeByHash k d)"
    "AuthorizationCodeByHash (cdHash c) d = None"
proof -
  from assms have no: "\<not> (\<exists>c' \<in> set (zdCodes d). cdHash c' = cdHash c)"
    and d': "d' = d\<lparr>zdCodes := zdCodes d @ [c\<lparr>cdCreatedAtMS := (if cdCreatedAtMS c = 0 then now else cdCreatedAtMS c)\<rparr>]\<rparr>"
    by (auto simp: CreateAuthorizationCode_def split: if_splits)
  show "AuthorizationByID i d' = AuthorizationByID i d" "TokenByHash h d' = TokenByHash h d"
    unfolding d' by (simp_all add: AuthorizationByID_def TokenByHash_def)
  show "\<exists>at. AuthorizationCodeByHash k d' =
      (if k = cdHash c then Some (c\<lparr>cdCreatedAtMS := at\<rparr>) else AuthorizationCodeByHash k d)"
    unfolding d' AuthorizationCodeByHash_def
    using lookup_new [of "zdCodes d" cdHash "c\<lparr>cdCreatedAtMS := (if cdCreatedAtMS c = 0 then now else cdCreatedAtMS c)\<rparr>" k] no
    by (intro exI [of _ "if cdCreatedAtMS c = 0 then now else cdCreatedAtMS c"]) simp
  show "AuthorizationCodeByHash (cdHash c) d = None" using no by (auto simp: AuthorizationCodeByHash_def select_one_None_iff)
qed

lemma same_codes [simp]:
  "zdCodes (RevokeAuthorizationTx now j d) = zdCodes d" "zdCodes (RevokeTokenFamily now f d) = zdCodes d"
  "zdCodes (RevokeTokensForAuthorization now j d) = zdCodes d" "zdCodes (AppendAudit k r b s d) = zdCodes d"
  "zdCodes (count_failure env spec s d) = zdCodes d"
  by (simp_all add: RevokeAuthorizationTx_def RevokeTokenFamily_def RevokeTokensForAuthorization_def AppendAudit_def count_failure_def)

lemma same_codes_writes:
  "SpendToken now h d = Inr d' \<Longrightarrow> zdCodes d' = zdCodes d" "InsertToken now t d = Inr d' \<Longrightarrow> zdCodes d' = zdCodes d"
  "CreateAuthorization now a d = Inr d' \<Longrightarrow> zdCodes d' = zdCodes d"
  "SetAuthorizationScopes now j sc d = Inr d' \<Longrightarrow> zdCodes d' = zdCodes d"
  by (auto simp: SpendToken_def InsertToken_def CreateAuthorization_def SetAuthorizationScopes_def split: if_splits)

lemma code_hashes:
  "map cdHash (zdCodes (snd (ConsumeAuthorizationCode now h j d))) = map cdHash (zdCodes d)"
  "CreateAuthorizationCode now c d = Inr d' \<Longrightarrow> distinct (map cdHash (zdCodes d)) \<Longrightarrow> distinct (map cdHash (zdCodes d'))"
  by (fastforce simp: ConsumeAuthorizationCode_def CreateAuthorizationCode_def update_where_def split: if_splits)+

section \<open>Quiet changes\<close>

definition live :: "tok_row \<Rightarrow> bool" where "live t \<longleftrightarrow> \<not> tok_spent t \<and> \<not> tok_revoked t"

definition auth_quiet :: "auth_row \<Rightarrow> auth_row \<Rightarrow> bool" where
  "auth_quiet a a' \<longleftrightarrow> azID a' = azID a \<and> azKind a' = azKind a \<and> azScopes a' = azScopes a \<and> azMintedScopes a' = azMintedScopes a \<and>
     (auth_revoked a \<longrightarrow> auth_revoked a') \<and> (azRevokedAtMS a \<noteq> Some 0 \<longrightarrow> azRevokedAtMS a' \<noteq> Some 0)"

definition tok_moves :: "tok_row \<Rightarrow> tok_row \<Rightarrow> bool" where
  "tok_moves t t' \<longleftrightarrow> tkHash t' = tkHash t \<and> tkAuthorizationID t' = tkAuthorizationID t \<and> tkKind t' = tkKind t \<and>
     (tok_spent t \<longrightarrow> tok_spent t') \<and> (tok_revoked t \<longrightarrow> tok_revoked t') \<and>
     (tkSpentAtMS t \<noteq> Some 0 \<longrightarrow> tkSpentAtMS t' \<noteq> Some 0) \<and> (tkRevokedAtMS t \<noteq> Some 0 \<longrightarrow> tkRevokedAtMS t' \<noteq> Some 0)"

definition code_moves :: "code_row \<Rightarrow> code_row \<Rightarrow> bool" where
  "code_moves c c' \<longleftrightarrow> (code_consumed c \<longrightarrow> code_consumed c' \<and> cdAuthorizationID c' = cdAuthorizationID c)"

definition codes_move :: "authz_db \<Rightarrow> authz_db \<Rightarrow> bool" where
  "codes_move d d' \<longleftrightarrow> (distinct (map cdHash (zdCodes d)) \<longrightarrow> distinct (map cdHash (zdCodes d'))) \<and> (\<forall>k c. AuthorizationCodeByHash k d = Some c \<longrightarrow> (\<exists>c'. AuthorizationCodeByHash k d' = Some c' \<and> code_moves c c'))"

definition quiet :: "authz_db \<Rightarrow> authz_db \<Rightarrow> bool" where
  "quiet d d' \<longleftrightarrow> (\<forall>i. rel_option auth_quiet (AuthorizationByID i d) (AuthorizationByID i d')) \<and>
     (\<forall>h. rel_option tok_moves (TokenByHash h d) (TokenByHash h d')) \<and> codes_move d d'"

lemma moves_refl [simp]: "auth_quiet a a" "tok_moves t t" "code_moves c c" "codes_move d d"
  by (simp_all add: auth_quiet_def tok_moves_def code_moves_def codes_move_def)

lemma moves_trans:
  "auth_quiet a1 a2 \<Longrightarrow> auth_quiet a2 a3 \<Longrightarrow> auth_quiet a1 a3" "tok_moves t1 t2 \<Longrightarrow> tok_moves t2 t3 \<Longrightarrow> tok_moves t1 t3"
  "code_moves c1 c2 \<Longrightarrow> code_moves c2 c3 \<Longrightarrow> code_moves c1 c3"
  by (auto simp: auth_quiet_def tok_moves_def code_moves_def)

lemma codes_move_trans: "codes_move d1 d2 \<Longrightarrow> codes_move d2 d3 \<Longrightarrow> codes_move d1 d3"
  unfolding codes_move_def using moves_trans(3) by meson

lemma codes_move_same: "zdCodes d' = zdCodes d \<Longrightarrow> codes_move d d'"
  by (simp add: codes_move_def AuthorizationCodeByHash_def)

lemma live_moves: "tok_moves t t' \<Longrightarrow> live t' \<Longrightarrow> live t"
  by (auto simp: tok_moves_def live_def)

lemma quiet_refl [simp]: "quiet d d"
  by (simp add: quiet_def option.rel_refl)

lemma rel_option_trans: "rel_option R x y \<Longrightarrow> rel_option R y z \<Longrightarrow> (\<And>a b c. R a b \<Longrightarrow> R b c \<Longrightarrow> R a c) \<Longrightarrow> rel_option R x z"
  by (cases x; cases y; cases z) auto

lemma quiet_trans [trans]: "quiet d1 d2 \<Longrightarrow> quiet d2 d3 \<Longrightarrow> quiet d1 d3"
  unfolding quiet_def using rel_option_trans [of auth_quiet] rel_option_trans [of tok_moves] moves_trans(1,2) codes_move_trans
  by (metis (no_types, lifting))

lemma rel_option_map: "(\<And>r. R r (g r)) \<Longrightarrow> rel_option R x (map_option g x)"
  by (cases x) auto

lemma scanInt_coalesce: "now \<noteq> 0 \<Longrightarrow> scanInt v \<noteq> 0 \<Longrightarrow> scanInt (coalesce v (Some now)) \<noteq> 0"
  by (cases v) auto

lemma coalesce_zero: "now \<noteq> 0 \<Longrightarrow> v \<noteq> Some 0 \<Longrightarrow> coalesce v (Some now) \<noteq> Some 0"
  by (cases v) auto

lemma row_moves:
  assumes "now \<noteq> 0"
  shows "auth_quiet a (if azID a = j then a\<lparr>azRevokedAtMS := coalesce (azRevokedAtMS a) (Some now), azUpdatedAtMS := now\<rparr> else a)"
    "tok_moves t (if B \<and> tkRevokedAtMS t = None then t\<lparr>tkRevokedAtMS := Some now\<rparr> else t)"
    "tok_moves t (if tkHash t = h then t\<lparr>tkSpentAtMS := coalesce (tkSpentAtMS t) (Some now)\<rparr> else t)"
    "code_moves c (if cdHash c = h \<and> cdConsumedAtMS c = None
       then c\<lparr>cdConsumedAtMS := Some now, cdAuthorizationID := coalesce (nullString k) (cdAuthorizationID c)\<rparr> else c)"
  using assms by (auto simp: auth_quiet_def tok_moves_def code_moves_def auth_revoked_def tok_revoked_def tok_spent_def
      code_consumed_def scanInt_coalesce coalesce_zero)

lemma quiet_writes:
  assumes "now \<noteq> 0"
  shows "quiet d (RevokeAuthorizationTx now j d)" "quiet d (RevokeTokenFamily now f d)"
    "quiet d (RevokeTokensForAuthorization now j d)" "quiet d (AppendAudit k r b s d)"
    "quiet d (count_failure env spec s d)" "quiet d (snd (ConsumeAuthorizationCode now h j d))"
    "SpendToken now h d = Inr d' \<Longrightarrow> quiet d d'"
    "CreateAuthorizationCode now c d = Inr d' \<Longrightarrow> quiet d d'"
proof -
  show "quiet d (RevokeAuthorizationTx now j d)" "quiet d (RevokeTokenFamily now f d)"
    "quiet d (RevokeTokensForAuthorization now j d)" "quiet d (AppendAudit k r b s d)" "quiet d (count_failure env spec s d)"
    using row_moves [OF assms]
    by (auto simp: quiet_def option.rel_refl codes_move_same intro!: rel_option_map)
  have "codes_move d (snd (ConsumeAuthorizationCode now h j d))"
    unfolding codes_move_def consume_rows(3) code_hashes(1)
    using row_moves(4) [OF assms] by (metis (mono_tags, lifting) option.simps(9))
  then show "quiet d (snd (ConsumeAuthorizationCode now h j d))"
    by (simp add: quiet_def option.rel_refl)
  show "quiet d d'" if "SpendToken now h d = Inr d'"
    using row_moves(3) [OF assms] unfolding quiet_def spend_rows(1,3) [OF that]
    by (auto simp: option.rel_refl same_codes_writes(1) [OF that] intro!: rel_option_map codes_move_same)
  show "quiet d d'" if that: "CreateAuthorizationCode now c d = Inr d'"
  proof -
    have "AuthorizationCodeByHash k d' = AuthorizationCodeByHash k d" if "AuthorizationCodeByHash k d \<noteq> None" for k
      using code_rows(3) [OF \<open>CreateAuthorizationCode now c d = Inr d'\<close>, of k]
        code_rows(4) [OF \<open>CreateAuthorizationCode now c d = Inr d'\<close>] that by (cases "k = cdHash c") auto
    then have "codes_move d d'"
      unfolding codes_move_def using moves_refl(3) code_hashes(2) [OF \<open>CreateAuthorizationCode now c d = Inr d'\<close>]
      by (metis option.distinct(1))
    then show ?thesis by (simp add: quiet_def option.rel_refl code_rows(1,2) [OF that])
  qed
qed

lemmas quiet_steps = quiet_writes(1-6) [THEN quiet_trans [rotated]]

lemma quiet_bundles:
  assumes "tx_now env \<noteq> 0"
  shows "quiet d (record_failure env spec k s d)" "quiet d (revokeFamilyTx (tx_now env) j f s d)"
    "quiet d (revoke_grant env j s d)" "quiet d (revokeAfterReplay env s c d)"
  unfolding record_failure_def revokeFamilyTx_def revoke_grant_def revokeAfterReplay_def
  using assms by (auto split: option.split intro!: quiet_steps)

lemma quiet_superseded:
  assumes "now \<noteq> 0"
  shows "quiet d (foldl (revoke_superseded now) d ids)"
proof (induction ids rule: rev_induct)
  case (snoc i ids)
  then show ?case using assms by (simp add: revoke_superseded_def quiet_steps)
qed simp

section \<open>New grants and rotations\<close>

text \<open>The one way tokens come into being: an access and a refresh token for one authorization.\<close>

definition pair_added :: "service \<Rightarrow> string \<Rightarrow> string \<Rightarrow> authz_db \<Rightarrow> authz_db \<Rightarrow> bool" where
  "pair_added svc i r d d' \<longleftrightarrow> (\<exists>ta tr v. TokenByHash (tkHash ta) d = None \<and> TokenByHash (tkHash tr) d = None \<and>
     tkKind ta = TokenKindAccess \<and> tkKind tr = TokenKindRefresh \<and> tkAuthorizationID ta = i \<and> tkAuthorizationID tr = i \<and>
     tkHash ta = tokenHash (seSha svc) (seAudience svc) TokenKindAccess v \<and>
     tkHash tr = tokenHash (seSha svc) (seAudience svc) TokenKindRefresh r \<and> AuthorizationByID i d \<noteq> None \<and> live tr \<and>
     tkSpentAtMS ta = None \<and> tkRevokedAtMS ta = None \<and> tkSpentAtMS tr = None \<and> tkRevokedAtMS tr = None \<and>
     (\<forall>h. TokenByHash h d' = (if h = tkHash tr then Some tr else if h = tkHash ta then Some ta else TokenByHash h d)) \<and>
     (\<forall>k. AuthorizationByID k d' = AuthorizationByID k d) \<and> zdCodes d' = zdCodes d)"

lemma token_pair_added:
  assumes "token_pair svc now i f access refresh ae re d = Inr d'"
  shows "pair_added svc i refresh d d'"
proof -
  define ta where "ta = \<lparr>tkHash = tokenHash (seSha svc) (seAudience svc) TokenKindAccess access, tkAuthorizationID = i,
    tkKind = TokenKindAccess, tkFamilyID = f, tkSpentAtMS = None, tkRevokedAtMS = None, tkExpiresAtMS = UnixMilli ae, tkCreatedAtMS = 0\<rparr>"
  define tr where "tr = \<lparr>tkHash = tokenHash (seSha svc) (seAudience svc) TokenKindRefresh refresh, tkAuthorizationID = i,
    tkKind = TokenKindRefresh, tkFamilyID = f, tkSpentAtMS = None, tkRevokedAtMS = None, tkExpiresAtMS = UnixMilli re, tkCreatedAtMS = 0\<rparr>"
  from assms obtain d1 where 1: "InsertToken now ta d = Inr d1" and 2: "InsertToken now tr d1 = Inr d'"
    by (auto simp: token_pair_def ta_def tr_def split: sum.splits)
  from insert_rows(3) [OF 1] obtain u where u: "\<And>k. TokenByHash k d1 = (if k = tkHash ta then Some (ta\<lparr>tkCreatedAtMS := u k\<rparr>) else TokenByHash k d)"
    by metis
  from insert_rows(3) [OF 2] obtain w where w: "\<And>k. TokenByHash k d' = (if k = tkHash tr then Some (tr\<lparr>tkCreatedAtMS := w k\<rparr>) else TokenByHash k d1)"
    by metis
  have ne: "tkHash tr \<noteq> tkHash ta" "TokenByHash (tkHash tr) d = None"
    using insert_rows(4) [OF 2] u [of "tkHash tr"] by (auto split: if_splits)
  show ?thesis
    unfolding pair_added_def
    by (rule exI [of _ "ta\<lparr>tkCreatedAtMS := u (tkHash ta)\<rparr>"], rule exI [of _ "tr\<lparr>tkCreatedAtMS := w (tkHash tr)\<rparr>"], rule exI [of _ access])
      (use u w ne insert_rows(1,4,5) [OF 1] insert_rows(1) [OF 2] same_codes_writes(2) [OF 1] same_codes_writes(2) [OF 2] in
        \<open>auto simp: live_def tok_spent_def tok_revoked_def ta_def tr_def\<close>)
qed

end
