(* ===== verification/Authz_Safety.thy ===== *)
theory Authz_Safety
  imports Authz_Rows
begin

text \<open>
  The credential service under interleaving: requests read, decide and commit in any order. Scopes never
  widen, a refresh token is redeemed at most once, an authorization code is exchanged at most once, and what
  was revoked stays revoked. The hash is a parameter: all that is used of it is that digests are 32 bytes
  and that no access token hashes like a refresh token.
\<close>

section \<open>The invariant of the credential tables\<close>

definition grant_ok :: "auth_row \<Rightarrow> bool" where
  "grant_ok a \<longleftrightarrow> (\<exists>S M. ParseScopeString (azScopes a) = Some S \<and> ParseScopeString (azMintedScopes a) = Some M \<and> S \<subseteq> M \<and>
     (azKind a = AuthKindOAuth \<longrightarrow> ScopeAdmin \<notin> M)) \<and> azRevokedAtMS a \<noteq> Some 0"

definition token_ok :: "service \<Rightarrow> authz_db \<Rightarrow> tok_row \<Rightarrow> bool" where
  "token_ok svc d t \<longleftrightarrow> AuthorizationByID (tkAuthorizationID t) d \<noteq> None \<and> tkKind t \<in> {TokenKindAccess, TokenKindRefresh} \<and>
     (\<exists>v. tkHash t = tokenHash (seSha svc) (seAudience svc) (tkKind t) v) \<and> tkSpentAtMS t \<noteq> Some 0 \<and> tkRevokedAtMS t \<noteq> Some 0"

definition refresh_of :: "string \<Rightarrow> string \<Rightarrow> authz_db \<Rightarrow> bool" where
  "refresh_of i h d \<longleftrightarrow> (\<exists>t. TokenByHash h d = Some t \<and> tkAuthorizationID t = i \<and> tkKind t = TokenKindRefresh \<and> live t)"

definition db_ok :: "service \<Rightarrow> authz_db \<Rightarrow> bool" where
  "db_ok svc d \<longleftrightarrow> (\<forall>i a. AuthorizationByID i d = Some a \<longrightarrow> grant_ok a) \<and> (\<forall>h t. TokenByHash h d = Some t \<longrightarrow> token_ok svc d t) \<and>
     (\<forall>i h h'. refresh_of i h d \<longrightarrow> refresh_of i h' d \<longrightarrow> h = h') \<and> distinct (map cdHash (zdCodes d))"

text \<open>A closed authorization is revoked with every token it ever had.\<close>

definition shut :: "string \<Rightarrow> authz_db \<Rightarrow> bool" where
  "shut i d \<longleftrightarrow> (\<exists>a. AuthorizationByID i d = Some a \<and> auth_revoked a) \<and>
     (\<forall>h t. TokenByHash h d = Some t \<and> tkAuthorizationID t = i \<longrightarrow> tok_revoked t)"

text \<open>How one committed change may treat an authorization and a token that were there before.\<close>

definition auth_moves :: "auth_row \<Rightarrow> auth_row \<Rightarrow> bool" where
  "auth_moves a a' \<longleftrightarrow> azKind a' = azKind a \<and> azMintedScopes a' = azMintedScopes a \<and> (auth_revoked a \<longrightarrow> auth_revoked a') \<and>
     (\<forall>S. ParseScopeString (azScopes a) = Some S \<longrightarrow> (\<exists>S'. ParseScopeString (azScopes a') = Some S' \<and> S' \<subseteq> S))"

definition evolves :: "authz_db \<Rightarrow> authz_db \<Rightarrow> bool" where
  "evolves d d' \<longleftrightarrow> (\<forall>i a. AuthorizationByID i d = Some a \<longrightarrow> (\<exists>a'. AuthorizationByID i d' = Some a' \<and> auth_moves a a' \<and>
       (azScopes a' = azScopes a \<or> (\<forall>h. TokenByHash h d \<noteq> None \<longrightarrow> \<not> refresh_of i h d')))) \<and>
     (\<forall>h t. TokenByHash h d = Some t \<longrightarrow> (\<exists>t'. TokenByHash h d' = Some t' \<and> tok_moves t t')) \<and>
     codes_move d d' \<and> (\<forall>i. shut i d \<longrightarrow> shut i d')"

definition keeps :: "service \<Rightarrow> authz_db \<Rightarrow> authz_db \<Rightarrow> bool" where
  "keeps svc d d' \<longleftrightarrow> (db_ok svc d \<longrightarrow> db_ok svc d' \<and> evolves d d')"

lemma auth_moves_refl [simp]: "auth_moves a a"
  by (simp add: auth_moves_def)

lemma auth_moves_trans: "auth_moves a b \<Longrightarrow> auth_moves b c \<Longrightarrow> auth_moves a c"
  unfolding auth_moves_def by (metis subset_trans)

lemma dead_stays: "TokenByHash h d = Some t \<Longrightarrow> evolves d d' \<Longrightarrow> refresh_of i h d' \<Longrightarrow> refresh_of i h d"
  unfolding evolves_def refresh_of_def by (metis live_moves option.inject tok_moves_def)

lemma evolves_refl [simp]: "evolves d d"
  by (simp add: evolves_def)

lemma evolves_trans:
  assumes "evolves d1 d2" "evolves d2 d3"
  shows "evolves d1 d3"
proof -
  have "\<exists>a'. AuthorizationByID i d3 = Some a' \<and> auth_moves a a' \<and>
      (azScopes a' = azScopes a \<or> (\<forall>h. TokenByHash h d1 \<noteq> None \<longrightarrow> \<not> refresh_of i h d3))" if a: "AuthorizationByID i d1 = Some a" for i a
  proof -
    from assms(1) a obtain b where b: "AuthorizationByID i d2 = Some b" "auth_moves a b"
      "azScopes b = azScopes a \<or> (\<forall>h. TokenByHash h d1 \<noteq> None \<longrightarrow> \<not> refresh_of i h d2)"
      unfolding evolves_def by blast
    from assms(2) b(1) obtain c where c: "AuthorizationByID i d3 = Some c" "auth_moves b c"
      "azScopes c = azScopes b \<or> (\<forall>h. TokenByHash h d2 \<noteq> None \<longrightarrow> \<not> refresh_of i h d3)"
      unfolding evolves_def by blast
    have was: "TokenByHash h d2 \<noteq> None" if "TokenByHash h d1 \<noteq> None" for h
      using assms(1) that unfolding evolves_def by blast
    have "\<not> refresh_of i h d3" if "azScopes c \<noteq> azScopes a" "TokenByHash h d1 \<noteq> None" for h
      using b(3) c(3) that was [OF that(2)] dead_stays [OF _ assms(2)] by (metis option.exhaust)
    with c(1,2) b(2) auth_moves_trans show ?thesis by blast
  qed
  moreover have "\<exists>t'. TokenByHash h d3 = Some t' \<and> tok_moves t t'" if "TokenByHash h d1 = Some t" for h t
    using assms that unfolding evolves_def by (meson moves_trans(2))
  moreover have "codes_move d1 d3" "\<forall>i. shut i d1 \<longrightarrow> shut i d3"
    using assms codes_move_trans unfolding evolves_def by blast+
  ultimately show ?thesis unfolding evolves_def by blast
qed

lemma keeps_refl [simp]: "keeps svc d d"
  by (simp add: keeps_def)

lemma keeps_trans [trans]: "keeps svc d1 d2 \<Longrightarrow> keeps svc d2 d3 \<Longrightarrow> keeps svc d1 d3"
  unfolding keeps_def using evolves_trans by blast

section \<open>What each change keeps\<close>

lemma quietD:
  assumes "quiet d d'"
  shows "AuthorizationByID i d = Some a \<Longrightarrow> \<exists>a'. AuthorizationByID i d' = Some a' \<and> auth_quiet a a'"
    "AuthorizationByID i d' = Some a' \<Longrightarrow> \<exists>a. AuthorizationByID i d = Some a \<and> auth_quiet a a'"
    "TokenByHash h d = Some t \<Longrightarrow> \<exists>t'. TokenByHash h d' = Some t' \<and> tok_moves t t'"
    "TokenByHash h d' = Some t' \<Longrightarrow> \<exists>t. TokenByHash h d = Some t \<and> tok_moves t t'"
  using assms unfolding quiet_def by (metis option.rel_cases option.sel option.distinct(1))+

lemma quiet_refresh: "quiet d d' \<Longrightarrow> refresh_of i h d' \<Longrightarrow> refresh_of i h d"
  using quietD(4) [of d d' h] live_moves unfolding refresh_of_def by (fastforce simp: tok_moves_def)

lemma quiet_shut:
  assumes "quiet d d'" "shut i d"
  shows "shut i d'"
proof -
  from assms(2) obtain a where "AuthorizationByID i d = Some a" "auth_revoked a" by (auto simp: shut_def)
  with quietD(1) [OF assms(1)] have "\<exists>a'. AuthorizationByID i d' = Some a' \<and> auth_revoked a'" by (auto simp: auth_quiet_def)
  moreover have "tok_revoked t'" if "TokenByHash h d' = Some t'" "tkAuthorizationID t' = i" for h t'
    using quietD(4) [OF assms(1) that(1)] assms(2) that(2) by (auto simp: shut_def tok_moves_def)
  ultimately show ?thesis by (auto simp: shut_def)
qed

lemma quiet_keeps:
  assumes q: "quiet d d'"
  shows "keeps svc d d'"
proof -
  have grants: "grant_ok a'" if "db_ok svc d" "AuthorizationByID i d' = Some a'" for i a'
    using quietD(2) [OF q that(2)] that(1) by (auto simp: db_ok_def auth_quiet_def grant_ok_def)
  have "token_ok svc d' t'" if ok: "db_ok svc d" and t': "TokenByHash h d' = Some t'" for h t'
  proof -
    from quietD(4) [OF q t'] obtain t where t: "TokenByHash h d = Some t" "tok_moves t t'" by blast
    with ok have "token_ok svc d t" by (auto simp: db_ok_def)
    with t(2) quietD(1) [OF q] show ?thesis unfolding token_ok_def tok_moves_def by (metis option.exhaust option.distinct(1))
  qed
  moreover have "h = h'" if "db_ok svc d" "refresh_of i h d'" "refresh_of i h' d'" for i h h'
    using quiet_refresh [OF q that(2)] quiet_refresh [OF q that(3)] that(1) unfolding db_ok_def by blast
  ultimately have "db_ok svc d \<Longrightarrow> db_ok svc d'"
    using grants q unfolding db_ok_def quiet_def codes_move_def by blast
  moreover have "evolves d d'"
    unfolding evolves_def
  proof (intro conjI allI impI)
    fix i a assume "AuthorizationByID i d = Some a"
    from quietD(1) [OF q this] show "\<exists>a'. AuthorizationByID i d' = Some a' \<and> auth_moves a a' \<and>
        (azScopes a' = azScopes a \<or> (\<forall>h. TokenByHash h d \<noteq> None \<longrightarrow> \<not> refresh_of i h d'))"
      by (auto simp: auth_quiet_def auth_moves_def)
  next
    fix h t assume "TokenByHash h d = Some t"
    from quietD(3) [OF q this] show "\<exists>t'. TokenByHash h d' = Some t' \<and> tok_moves t t'" .
  next
    show "codes_move d d'" using q by (simp add: quiet_def)
  next
    fix i assume "shut i d" then show "shut i d'" by (rule quiet_shut [OF q])
  qed
  ultimately show ?thesis by (simp add: keeps_def)
qed

text \<open>A pair of tokens for an authorization that has no live refresh token and is not closed.\<close>

lemma pair_keeps:
  assumes p: "pair_added svc i r d d'" and none: "\<And>h. \<not> refresh_of i h d" and "\<not> shut i d"
  shows "keeps svc d d'"
proof -
  from p obtain ta tr v where n: "TokenByHash (tkHash ta) d = None" "TokenByHash (tkHash tr) d = None"
    and k: "tkKind ta = TokenKindAccess" "tkKind tr = TokenKindRefresh" "tkAuthorizationID ta = i" "tkAuthorizationID tr = i"
    and h: "tkHash ta = tokenHash (seSha svc) (seAudience svc) TokenKindAccess v"
      "tkHash tr = tokenHash (seSha svc) (seAudience svc) TokenKindRefresh r"
    and a: "AuthorizationByID i d \<noteq> None"
    and n0: "tkSpentAtMS ta = None" "tkRevokedAtMS ta = None" "tkSpentAtMS tr = None" "tkRevokedAtMS tr = None"
    and T: "\<And>h. TokenByHash h d' = (if h = tkHash tr then Some tr else if h = tkHash ta then Some ta else TokenByHash h d)"
    and A: "\<And>k. AuthorizationByID k d' = AuthorizationByID k d" and C: "zdCodes d' = zdCodes d"
    unfolding pair_added_def by blast
  have keep: "TokenByHash h d' = Some t" if "TokenByHash h d = Some t" for h t
    using that n T [of h] by (metis option.distinct(1))
  have "token_ok svc d' t" if ok: "db_ok svc d" and t: "TokenByHash h d' = Some t" for h t
  proof -
    consider "t = tr" | "t = ta" | "TokenByHash h d = Some t" using t T [of h] by (metis option.inject)
    then show ?thesis
    proof cases
      case 3
      with ok show ?thesis by (auto simp: db_ok_def token_ok_def A)
    qed (use k h a n0 in \<open>auto simp: token_ok_def A\<close>)
  qed
  moreover have new: "h = tkHash tr \<and> j = i \<or> refresh_of j h d" if r: "refresh_of j h d'" for j h
  proof -
    from r obtain t where t: "TokenByHash h d' = Some t" "tkAuthorizationID t = j" "tkKind t = TokenKindRefresh" "live t"
      by (auto simp: refresh_of_def)
    then consider "h = tkHash tr" "t = tr" | "t = ta" | "TokenByHash h d = Some t" using T [of h] by (metis option.inject)
    then show ?thesis by cases (use t k in \<open>auto simp: refresh_of_def\<close>)
  qed
  have "h = h'" if "db_ok svc d" "refresh_of j h d'" "refresh_of j h' d'" for j h h'
    using new [OF that(2)] new [OF that(3)] none that(1) unfolding db_ok_def by metis
  ultimately have "db_ok svc d \<Longrightarrow> db_ok svc d'" unfolding db_ok_def A C by blast
  moreover have "shut j d'" if "shut j d" for j
    using that assms(3) k T unfolding shut_def A by (metis option.inject)
  then have "evolves d d'" using keep C unfolding evolves_def A by (auto intro: codes_move_same)
  ultimately show ?thesis by (simp add: keeps_def)
qed

text \<open>A new authorization.\<close>

lemma create_keeps:
  assumes c: "CreateAuthorization now a d = Inr d'" and g: "grant_ok a" "azRevokedAtMS a = None" and ok: "db_ok svc d"
  shows "keeps svc d d'" "\<not> refresh_of (azID a) h d'" "\<not> shut (azID a) d'"
proof -
  note T = create_rows(1) [OF c]
  from create_rows(3) [OF c] obtain u where A: "\<And>i. AuthorizationByID i d' =
    (if i = azID a then Some (a\<lparr>azCreatedAtMS := u i, azUpdatedAtMS := now\<rparr>) else AuthorizationByID i d)" by metis
  have keep: "AuthorizationByID i d' = Some b" if "AuthorizationByID i d = Some b" for i b
    using that create_rows(4) [OF c] A [of i] by auto
  have tok: "tkAuthorizationID t \<noteq> azID a" if "TokenByHash h d = Some t" for h t
  proof -
    from ok that have "AuthorizationByID (tkAuthorizationID t) d \<noteq> None" unfolding db_ok_def token_ok_def by blast
    with create_rows(4) [OF c] show ?thesis by metis
  qed
  show "\<not> refresh_of (azID a) h d'" using tok by (auto simp: refresh_of_def T)
  show "\<not> shut (azID a) d'" using g(2) by (auto simp: shut_def A auth_revoked_def)
  have "token_ok svc d' t" if "TokenByHash h d = Some t" for h t
    using that ok keep by (fastforce simp: db_ok_def token_ok_def)
  moreover have "grant_ok b" if "AuthorizationByID i d' = Some b" for i b
    using that g(1) ok A [of i] by (auto simp: db_ok_def grant_ok_def split: if_splits)
  moreover have "refresh_of i h d' = refresh_of i h d" for i h by (simp add: refresh_of_def T)
  ultimately have "db_ok svc d'" using ok unfolding db_ok_def T same_codes_writes(3) [OF c] by auto
  moreover have "evolves d d'"
    unfolding evolves_def T shut_def using keep by (fastforce intro: codes_move_same same_codes_writes(3) [OF c])
  ultimately show "keeps svc d d'" by (simp add: keeps_def)
qed

lemma write_grant_keeps:
  assumes w: "write_grant svc now k source g d = Inr d'" "now \<noteq> 0"
    and g: "grant_ok (grAuthorization g)" "azRevokedAtMS (grAuthorization g) = None"
  shows "keeps svc d d'"
proof -
  from w obtain d1 d2 where c: "CreateAuthorization now (grAuthorization g) d = Inr d1"
    and p: "pair_added svc (azID (grAuthorization g)) (grRefresh g) d1 d2" and d': "quiet d2 d'"
    using quiet_steps(4) [OF w(2) quiet_refl] by (fastforce simp: write_grant_def dest: token_pair_added split: sum.splits)
  have "keeps svc d d1" "keeps svc d1 d2" if "db_ok svc d"
    using create_keeps [OF c g that] pair_keeps [OF p] by auto
  then have "keeps svc d d2" unfolding keeps_def using evolves_trans by blast
  then show ?thesis using quiet_keeps [OF d'] keeps_trans by blast
qed

text \<open>A narrowing, when no live refresh token is left.\<close>

lemma scopes_keeps:
  assumes s: "SetAuthorizationScopes now i (scope_string next) d = Inr d'"
    and a: "AuthorizationByID i d = Some a" "ParseScopeString (azScopes a) = Some cur" "next \<subseteq> cur"
    and none: "\<And>h. \<not> refresh_of i h d"
  shows "keeps svc d d'"
proof -
  note T = scopes_rows(1) [OF s] and A = scopes_rows(3) [OF s]
  have "next \<subseteq> set canonicalOrder" using a(2,3) ParseScopeString_known by blast
  then have parse: "ParseScopeString (scope_string next) = Some next" by (rule scope_string_roundtrip)
  have id: "azID b = j" if "AuthorizationByID j d = Some b" for j b using that by (rule AuthorizationByID_id)
  have R: "refresh_of j h d' = refresh_of j h d" for j h by (simp add: refresh_of_def T)
  have same: "auth_moves b (if azID b = i then b\<lparr>azScopes := scope_string next, azUpdatedAtMS := now\<rparr> else b)"
    if "AuthorizationByID j d = Some b" for j b
    using that id [OF that] a parse by (auto simp: auth_moves_def auth_revoked_def)
  have ex: "AuthorizationByID j d' \<noteq> None" if "AuthorizationByID j d \<noteq> None" for j using that by (auto simp: A)
  have "grant_ok b'" if ok: "db_ok svc d" and b': "AuthorizationByID j d' = Some b'" for j b'
  proof -
    from b' obtain b where b: "AuthorizationByID j d = Some b"
      "b' = (if azID b = i then b\<lparr>azScopes := scope_string next, azUpdatedAtMS := now\<rparr> else b)" by (auto simp: A)
    with ok have "grant_ok b" by (auto simp: db_ok_def)
    with b a parse id [OF b(1)] show ?thesis by (fastforce simp: grant_ok_def)
  qed
  moreover have "token_ok svc d' t" if "token_ok svc d t" for t using that ex unfolding token_ok_def by blast
  ultimately have "db_ok svc d'" if "db_ok svc d"
    using that unfolding db_ok_def T R same_codes_writes(4) [OF s] by blast
  moreover have "evolves d d'"
    unfolding evolves_def
  proof (intro conjI allI impI)
    fix j b assume b: "AuthorizationByID j d = Some b"
    show "\<exists>a'. AuthorizationByID j d' = Some a' \<and> auth_moves b a' \<and>
        (azScopes a' = azScopes b \<or> (\<forall>h. TokenByHash h d \<noteq> None \<longrightarrow> \<not> refresh_of j h d'))"
      using same [OF b] none id [OF b] by (auto simp: A b R)
  next
    fix h t assume "TokenByHash h d = Some t"
    then show "\<exists>t'. TokenByHash h d' = Some t' \<and> tok_moves t t'" by (simp add: T)
  next
    show "codes_move d d'" by (rule codes_move_same) (rule same_codes_writes(4) [OF s])
  next
    fix j assume "shut j d"
    then obtain b where b: "AuthorizationByID j d = Some b" "auth_revoked b"
      and dead: "\<forall>h t. TokenByHash h d = Some t \<and> tkAuthorizationID t = j \<longrightarrow> tok_revoked t" unfolding shut_def by blast
    have "\<exists>b'. AuthorizationByID j d' = Some b' \<and> auth_revoked b'"
      using same [OF b(1)] b unfolding A auth_moves_def by simp
    with dead show "shut j d'" by (simp add: shut_def T)
  qed
  ultimately show ?thesis by (simp add: keeps_def)
qed

section \<open>Decisions waiting to be committed\<close>

definition plan_ok :: "authz_db \<Rightarrow> rotation \<Rightarrow> bool" where
  "plan_ok d r \<longleftrightarrow> roNext r \<subseteq> roCurrent r \<and> (\<exists>t a. TokenByHash (roHash r) d = Some t \<and> tkKind t = TokenKindRefresh \<and>
     tkAuthorizationID t = roAuthID r \<and> AuthorizationByID (roAuthID r) d = Some a \<and>
     (live t \<longrightarrow> ParseScopeString (azScopes a) = Some (roCurrent r)))"

definition kinds_apart :: "service \<Rightarrow> bool" where
  "kinds_apart svc \<longleftrightarrow> (\<forall>v w. tokenHash (seSha svc) (seAudience svc) TokenKindAccess v \<noteq>
     tokenHash (seSha svc) (seAudience svc) TokenKindRefresh w)"

lemma plan_stays:
  assumes "plan_ok d r" "evolves d d'"
  shows "plan_ok d' r"
proof -
  from assms(1) obtain t a where t: "TokenByHash (roHash r) d = Some t" "tkKind t = TokenKindRefresh" "tkAuthorizationID t = roAuthID r"
    and a: "AuthorizationByID (roAuthID r) d = Some a" "live t \<longrightarrow> ParseScopeString (azScopes a) = Some (roCurrent r)"
    and sub: "roNext r \<subseteq> roCurrent r"
    unfolding plan_ok_def by blast
  from assms(2) t(1) obtain t' where t': "TokenByHash (roHash r) d' = Some t'" "tok_moves t t'" unfolding evolves_def by blast
  from assms(2) a(1) obtain a' where a': "AuthorizationByID (roAuthID r) d' = Some a'"
    "azScopes a' = azScopes a \<or> (\<forall>h. TokenByHash h d \<noteq> None \<longrightarrow> \<not> refresh_of (roAuthID r) h d')"
    unfolding evolves_def by blast
  have "ParseScopeString (azScopes a') = Some (roCurrent r)" if l: "live t'"
  proof -
    have "refresh_of (roAuthID r) (roHash r) d'" using t' t(2,3) l by (auto simp: refresh_of_def tok_moves_def)
    with a'(2) t(1) have "azScopes a' = azScopes a" by blast
    with a(2) live_moves [OF t'(2) l] show ?thesis by simp
  qed
  with sub t t' a' show ?thesis unfolding plan_ok_def tok_moves_def by metis
qed

lemma next_scopes_narrow: "next_scopes req cur minted = Some (next, n) \<Longrightarrow> next \<subseteq> cur"
  by (auto simp: next_scopes_def split: if_splits option.splits)

lemma rotate_planD:
  assumes "rotate_plan env p row auth = Rotate r"
  shows "roHash r = tkHash row" "roAuthID r = azID auth" "roNext r \<subseteq> roCurrent r"
    "ParseScopeString (azScopes auth) = Some (roCurrent r)" "ParseScopeString (azMintedScopes auth) = Some (roMinted r)"
  using assms by (auto simp: rotate_plan_def dest: next_scopes_narrow [THEN subsetD] split: option.splits prod.splits)

lemma refresh_decide_Rotate:
  assumes "refresh_decide svc env p d = Rotate r"
  shows "\<exists>row auth. TokenByHash (tokenHash (seSha svc) (seAudience svc) TokenKindRefresh (rpPresentedToken p)) d = Some row \<and>
    AuthorizationByID (tkAuthorizationID row) d = Some auth \<and> live row \<and> \<not> auth_revoked auth \<and> rotate_plan env p row auth = Rotate r"
  using assms by (auto simp: refresh_decide_def Let_def live_def tokenHash_def split: option.splits if_splits)

lemma decided_plan_ok:
  assumes "refresh_decide svc env p d = Rotate r" "db_ok svc d" "kinds_apart svc"
  shows "plan_ok d r"
proof -
  let ?h = "tokenHash (seSha svc) (seAudience svc) TokenKindRefresh (rpPresentedToken p)"
  from refresh_decide_Rotate [OF assms(1)] obtain row auth where
    row: "TokenByHash ?h d = Some row" "AuthorizationByID (tkAuthorizationID row) d = Some auth"
    and plan: "rotate_plan env p row auth = Rotate r" by blast
  from row(1) assms(2) have ok: "token_ok svc d row" unfolding db_ok_def by blast
  have h: "tkHash row = ?h" using row(1) by (rule TokenByHash_hash)
  with ok assms(3) have "tkKind row = TokenKindRefresh" unfolding token_ok_def kinds_apart_def by (metis insertE singletonD)
  moreover have "azID auth = tkAuthorizationID row" using row(2) by (rule AuthorizationByID_id)
  ultimately show ?thesis using rotate_planD [OF plan] row h unfolding plan_ok_def by auto
qed

lemma spend_refresh:
  assumes s: "SpendToken now h d = Inr d1" "now \<noteq> 0" and ok: "db_ok svc d" and r: "refresh_of i h d"
  shows "\<not> refresh_of i k d1" "\<not> shut i d1"
proof -
  have q: "quiet d d1" using s by (rule quiet_writes(7) [rotated])
  from r obtain t where t: "TokenByHash h d = Some t" "live t" "tkAuthorizationID t = i" unfolding refresh_of_def by blast
  have h1: "TokenByHash h d1 = Some (t\<lparr>tkSpentAtMS := coalesce (tkSpentAtMS t) (Some now)\<rparr>)"
    using t(1) TokenByHash_hash [OF t(1)] by (simp add: spend_rows(3) [OF s(1)])
  show "\<not> refresh_of i k d1"
  proof
    assume "refresh_of i k d1"
    then have "k = h" using quiet_refresh [OF q] ok r unfolding db_ok_def by blast
    moreover have "tkSpentAtMS t = None"
      using t(1,2) ok by (cases "tkSpentAtMS t") (auto simp: live_def tok_spent_def db_ok_def token_ok_def)
    ultimately show False
      using \<open>refresh_of i k d1\<close> h1 s(2) by (auto simp: refresh_of_def live_def tok_spent_def)
  qed
  show "\<not> shut i d1"
  proof
    assume "shut i d1"
    with h1 t(3) have "tok_revoked (t\<lparr>tkSpentAtMS := coalesce (tkSpentAtMS t) (Some now)\<rparr>)" by (simp add: shut_def)
    with t(2) show False by (simp add: live_def tok_revoked_def)
  qed
qed

text \<open>Setting the scopes before or after the pair is the same.\<close>

lemma scopes_before_pair:
  assumes p: "pair_added svc i r d d2" and s: "SetAuthorizationScopes now i sc d2 = Inr d3"
  shows "\<exists>d1. SetAuthorizationScopes now i sc d = Inr d1 \<and> pair_added svc i r d1 d3"
proof -
  from p have "AuthorizationByID i d \<noteq> None" unfolding pair_added_def by blast
  then have "\<not> (\<forall>a \<in> set (zdAuths d). azID a \<noteq> i)" unfolding AuthorizationByID_def select_one_None_iff by blast
  then obtain d1 where d1: "SetAuthorizationScopes now i sc d = Inr d1" by (simp add: SetAuthorizationScopes_def)
  from p obtain ta tr v where "TokenByHash (tkHash ta) d = None \<and> TokenByHash (tkHash tr) d = None \<and>
     tkKind ta = TokenKindAccess \<and> tkKind tr = TokenKindRefresh \<and> tkAuthorizationID ta = i \<and> tkAuthorizationID tr = i \<and>
     tkHash ta = tokenHash (seSha svc) (seAudience svc) TokenKindAccess v \<and>
     tkHash tr = tokenHash (seSha svc) (seAudience svc) TokenKindRefresh r \<and> AuthorizationByID i d \<noteq> None \<and> live tr \<and>
     tkSpentAtMS ta = None \<and> tkRevokedAtMS ta = None \<and> tkSpentAtMS tr = None \<and> tkRevokedAtMS tr = None \<and>
     (\<forall>h. TokenByHash h d2 = (if h = tkHash tr then Some tr else if h = tkHash ta then Some ta else TokenByHash h d)) \<and>
     (\<forall>k. AuthorizationByID k d2 = AuthorizationByID k d) \<and> zdCodes d2 = zdCodes d" unfolding pair_added_def by blast
  then have "pair_added svc i r d1 d3"
    unfolding pair_added_def scopes_rows(1,3) [OF s] scopes_rows(1,3) [OF d1] same_codes_writes(4) [OF s]
      same_codes_writes(4) [OF d1] by - (rule exI [of _ ta], rule exI [of _ tr], rule exI [of _ v], elim conjE, intro conjI, simp_all)
  with d1 show ?thesis by blast
qed

text \<open>The stages of a rotation that goes through: the spending, the narrowing if there is one, the pair.\<close>

lemma rotate_stages:
  assumes "rotate_tx svc env p r d = (Inr sn, d')" "tx_now env \<noteq> 0"
  shows "\<exists>t d1 d2 d3. TokenByHash (roHash r) d = Some t \<and> live t \<and> SpendToken (tx_now env) (roHash r) d = Inr d1 \<and>
    (d2 = d1 \<or> SetAuthorizationScopes (tx_now env) (roAuthID r) (scope_string (roNext r)) d1 = Inr d2) \<and>
    pair_added svc (roAuthID r) (roRefresh r) d2 d3 \<and> quiet d3 d'"
proof -
  let ?now = "tx_now env" and ?s = "normalizeSource (rpSource p)"
  from assms(1) obtain t where t: "TokenByHash (roHash r) d = Some t" "live t"
    by (auto simp: rotate_tx_def Let_def live_def split: option.splits if_splits)
  with assms(1) obtain d1 where d1: "SpendToken ?now (roHash r) d = Inr d1"
    by (auto simp: rotate_tx_def Let_def live_def split: sum.splits)
  with assms(1) t obtain d2 where d2: "token_pair svc ?now (roAuthID r) (tkFamilyID t) (roAccess r) (roRefresh r)
      (roAccessExpiry r) (roRefreshExpiry r) d1 = Inr d2"
    by (auto simp: rotate_tx_def Let_def live_def split: sum.splits)
  note P = token_pair_added [OF d2]
  show ?thesis
  proof (cases "roNarrowed r")
    case True
    with assms(1) t d1 d2 obtain d4 where d4: "SetAuthorizationScopes ?now (roAuthID r) (scope_string (roNext r)) d2 = Inr d4"
      and "d' = AppendAudit (rpAuditRefreshed p) ''ok'' (roAuthID r) ?s (AppendAudit (rpAuditNarrowed p) ''ok'' (roAuthID r) ?s d4)"
      by (cases "SetAuthorizationScopes ?now (roAuthID r) (scope_string (roNext r)) d2")
        (auto simp: rotate_tx_def Let_def live_def split: sum.splits)
    then have "quiet d4 d'" using assms(2) by (simp add: quiet_steps)
    with scopes_before_pair [OF P d4] t d1 show ?thesis by blast
  next
    case False
    with assms(1) t d1 d2 have "d' = AppendAudit (rpAuditRefreshed p) ''ok'' (roAuthID r) ?s d2"
      by (auto simp: rotate_tx_def Let_def live_def)
    then have "quiet d2 d'" using assms(2) by (simp add: quiet_steps)
    with P t d1 show ?thesis by blast
  qed
qed

lemma rotate_refused: "rotate_tx svc env p r d = (Inl e, d') \<Longrightarrow> tx_now env \<noteq> 0 \<Longrightarrow> quiet d d'"
  by (auto simp: rotate_tx_def Let_def quiet_bundles split: option.splits if_splits sum.splits)

lemma keepsI: "(db_ok svc d \<Longrightarrow> keeps svc d d') \<Longrightarrow> keeps svc d d'"
  by (auto simp: keeps_def)

lemma rotate_keeps:
  assumes r: "rotate_tx svc env p r d = (res, d')" and now: "tx_now env \<noteq> 0" and plan: "plan_ok d r"
  shows "keeps svc d d'"
proof (cases res)
  case (Inl e)
  with r now show ?thesis by (auto dest: rotate_refused quiet_keeps)
next
  case (Inr sn)
  from rotate_stages [OF r [unfolded Inr] now] obtain t d1 d2 d3 where t: "TokenByHash (roHash r) d = Some t" "live t"
    and d1: "SpendToken (tx_now env) (roHash r) d = Inr d1"
    and d2: "d2 = d1 \<or> SetAuthorizationScopes (tx_now env) (roAuthID r) (scope_string (roNext r)) d1 = Inr d2"
    and d3: "pair_added svc (roAuthID r) (roRefresh r) d2 d3" "quiet d3 d'" by blast
  from plan t obtain a where a: "tkKind t = TokenKindRefresh" "tkAuthorizationID t = roAuthID r"
    "AuthorizationByID (roAuthID r) d = Some a" "ParseScopeString (azScopes a) = Some (roCurrent r)" "roNext r \<subseteq> roCurrent r"
    unfolding plan_ok_def by auto
  have q: "quiet d d1" using d1 now by (rule quiet_writes(7) [rotated])
  show ?thesis
  proof (rule keepsI)
    assume ok: "db_ok svc d"
    have "refresh_of (roAuthID r) (roHash r) d" using t a(1,2) by (auto simp: refresh_of_def)
    note none = spend_refresh [OF d1 now ok this]
    have sc: "keeps svc d1 d2 \<and> (\<forall>h. \<not> refresh_of (roAuthID r) h d2) \<and> \<not> shut (roAuthID r) d2"
    proof (cases "d2 = d1")
      case False
      with d2 have s: "SetAuthorizationScopes (tx_now env) (roAuthID r) (scope_string (roNext r)) d1 = Inr d2" by blast
      have "AuthorizationByID (roAuthID r) d1 = Some a" using a(3) by (simp add: spend_rows(1) [OF d1])
      then have "keeps svc d1 d2" using scopes_keeps [OF s _ a(4,5)] none(1) by blast
      moreover have "refresh_of (roAuthID r) h d2 = refresh_of (roAuthID r) h d1" for h
        by (simp add: refresh_of_def scopes_rows(1) [OF s])
      moreover have "shut (roAuthID r) d2 \<Longrightarrow> shut (roAuthID r) d1"
        by (auto simp: shut_def scopes_rows(1,3) [OF s] auth_revoked_def split: if_splits)
      ultimately show ?thesis using none by blast
    qed (use none in simp)
    then have "keeps svc d2 d3" using pair_keeps [OF d3(1)] by blast
    with sc quiet_keeps [OF q] quiet_keeps [OF d3(2)] show "keeps svc d d'" using keeps_trans by blast
  qed
qed

section \<open>What each request keeps\<close>

lemma fresh_grant_ok:
  assumes "S \<subseteq> set canonicalOrder" "azScopes a = scope_string S" "azMintedScopes a = scope_string S" "azRevokedAtMS a = None"
    and "azKind a = AuthKindOAuth \<Longrightarrow> ScopeAdmin \<notin> S"
  shows "grant_ok a"
  unfolding grant_ok_def using assms scope_string_roundtrip [OF assms(1)] by (intro conjI exI [of _ S]) simp_all

lemma granted_known: "granted_scopes req = Some (S, n) \<Longrightarrow> S \<subseteq> set canonicalOrder"
  by (auto simp: granted_scopes_def AdminBootstrapScopes_def dest: ParseScopes_known [THEN subsetD] split: if_splits option.splits)

lemma mint_writes:
  assumes "MintAdminSession svc env presented req src d = (Inr sn, d')"
  shows "\<exists>S n g. granted_scopes req = Some (S, n) \<and> azScopes (grAuthorization g) = scope_string S \<and>
    azMintedScopes (grAuthorization g) = scope_string S \<and> azRevokedAtMS (grAuthorization g) = None \<and>
    azKind (grAuthorization g) = AuthKindAdminBootstrap \<and>
    write_grant svc (tx_now env) ''auth.admin_session_minted'' (normalizeSource src) g d = Inr d'"
proof -
  from assms obtain S n where S: "granted_scopes req = Some (S, n)"
    by (auto simp: MintAdminSession_def Let_def split: option.splits if_splits)
  show ?thesis using assms S
    by (auto simp: MintAdminSession_def Let_def split: option.splits sum.splits if_splits prod.splits intro!: exI)
qed

lemma mint_keeps:
  assumes now: "tx_now env \<noteq> 0"
  shows "keeps svc d (snd (MintAdminSession svc env presented req src d))"
proof (cases "fst (MintAdminSession svc env presented req src d)")
  case (Inl e)
  then have "snd (MintAdminSession svc env presented req src d) = d \<or> snd (MintAdminSession svc env presented req src d) =
      record_failure env LimitAdminSecret ''auth.admin_secret_failed'' (normalizeSource src) d"
    by (auto simp: MintAdminSession_def Let_def split: option.splits sum.splits)
  then show ?thesis using quiet_bundles(1) [OF now] quiet_keeps by (metis keeps_refl)
next
  case (Inr sn)
  then have "MintAdminSession svc env presented req src d = (Inr sn, snd (MintAdminSession svc env presented req src d))"
    by (metis prod.collapse)
  from mint_writes [OF this] obtain S n g where S: "granted_scopes req = Some (S, n)"
    and g: "azScopes (grAuthorization g) = scope_string S" "azMintedScopes (grAuthorization g) = scope_string S"
      "azRevokedAtMS (grAuthorization g) = None" "azKind (grAuthorization g) = AuthKindAdminBootstrap"
    and w: "write_grant svc (tx_now env) ''auth.admin_session_minted'' (normalizeSource src) g d =
      Inr (snd (MintAdminSession svc env presented req src d))"
    by blast
  have "grant_ok (grAuthorization g)" by (rule fresh_grant_ok [OF granted_known [OF S] g(1-3)]) (simp add: g(4))
  then show ?thesis by (rule write_grant_keeps [OF w now _ g(3)])
qed

lemma refresh_keeps:
  assumes now: "tx_now env \<noteq> 0" and plan: "\<And>r. dec = Rotate r \<Longrightarrow> plan_ok d r"
  shows "keeps svc d (snd (refresh_apply svc env p dec d))"
proof (cases dec)
  case (Rotate r)
  then show ?thesis
    using rotate_keeps [OF _ now plan [OF Rotate], of svc p] by (auto simp: refresh_apply_def Let_def intro: prod.collapse [symmetric])
next
  case (ReuseRefresh row)
  then show ?thesis
    using quiet_keeps [OF quiet_steps(5) [OF now quiet_bundles(2) [OF now]]] by (simp add: refresh_apply_def Let_def)
qed (use quiet_keeps [OF quiet_bundles(1) [OF now]] in \<open>simp_all add: refresh_apply_def Let_def\<close>)

definition mint_plan_ok :: "exchange_decision \<Rightarrow> bool" where
  "mint_plan_ok dec \<longleftrightarrow> (\<forall>c g S. dec = MintGrant c g S \<longrightarrow>
     grant_ok (grAuthorization g) \<and> azRevokedAtMS (grAuthorization g) = None \<and> azID (grAuthorization g) \<noteq> [])"

lemma decided_mint_ok:
  assumes "zeAuthID env \<noteq> []"
  shows "mint_plan_ok (exchange_decide env x d)"
  unfolding mint_plan_ok_def
proof (intro allI impI)
  fix c g S assume "exchange_decide env x d = MintGrant c g S"
  then have "grant_plan env (normalizeSource (exSource x)) c = MintGrant c g S"
    by (auto simp: exchange_decide_def Let_def grant_plan_def split: option.splits if_splits)
  then obtain T where T: "ParseScopeString (cdScopes c) = Some T" "ScopeAdmin \<notin> T" and
    g: "azScopes (grAuthorization g) = scope_string T" "azMintedScopes (grAuthorization g) = scope_string T"
    "azRevokedAtMS (grAuthorization g) = None" "azID (grAuthorization g) = zeAuthID env"
    by (auto simp: grant_plan_def Let_def split: option.splits if_splits)
  have "grant_ok (grAuthorization g)"
    by (rule fresh_grant_ok [OF ParseScopeString_known [OF T(1)] g(1-3)]) (rule T(2))
  then show "grant_ok (grAuthorization g) \<and> azRevokedAtMS (grAuthorization g) = None \<and> azID (grAuthorization g) \<noteq> []"
    using g assms by simp
qed

lemma exchange_keeps:
  assumes now: "tx_now env \<noteq> 0" and plan: "mint_plan_ok dec"
  shows "keeps svc d (snd (exchange_apply svc env x dec d))"
proof (cases dec)
  case (MintGrant c g S)
  let ?d1 = "snd (ConsumeAuthorizationCode (tx_now env) (cdHash c) (azID (grAuthorization g)) d)"
  have q: "quiet d ?d1" using now by (rule quiet_writes)
  have g: "grant_ok (grAuthorization g)" "azRevokedAtMS (grAuthorization g) = None"
    using plan MintGrant by (simp_all add: mint_plan_ok_def)
  have "keeps svc ?d1 d2" if "write_grant svc (tx_now env) ''authorization.token_issued'' (normalizeSource (exSource x)) g ?d1 = Inr d2" for d2
    using write_grant_keeps [OF that now g] .
  moreover have "keeps svc ?d1 (record_failure env s k u ?d1)" "keeps svc ?d1 (revokeAfterReplay env u w ?d1)" for s k u w
    using quiet_bundles(1,4) [OF now] quiet_keeps by auto
  ultimately show ?thesis
    using keeps_trans [OF quiet_keeps [OF q]]
    by (auto simp: MintGrant exchange_apply_def Let_def case_prod_beta split: option.split sum.split)
next
  case (BurnExchange c e)
  then show ?thesis using quiet_keeps [OF quiet_steps(5) [OF now quiet_steps(4) [OF now quiet_writes(6) [OF now]]]]
    by (simp add: exchange_apply_def Let_def)
qed (use quiet_keeps [OF quiet_bundles(1) [OF now]] quiet_keeps [OF quiet_bundles(4) [OF now]] in
    \<open>simp_all add: exchange_apply_def Let_def\<close>)

lemma revoke_keeps:
  assumes now: "tx_now env \<noteq> 0"
  shows "keeps svc d (snd (revoke_apply env src dec d))" "keeps svc d (snd (RevokeAuthorization env i src d))"
    "keeps svc d (snd (RevokeSupersededAdminSessions svc (tx_now env) d))"
  using quiet_keeps [OF quiet_bundles(3) [OF now]] quiet_keeps [OF quiet_writes(5) [OF now]] quiet_keeps [OF quiet_superseded [OF now]]
  by (auto simp: revoke_apply_def RevokeAuthorization_def RevokeSupersededAdminSessions_def
      RevokeAdminAuthorizationsFromOtherSecrets_def Let_def split: revoke_decision.split option.split)

end
