(* ===== verification/Authz_Runs.thy ===== *)
theory Authz_Runs
  imports Authz_Safety
begin

text \<open>
  All the requests of the credential service as one step relation, its invariant, and what follows from it:
  scopes never widen, one refresh token is redeemed once, one code is exchanged once, and a session that was
  ended stays ended.
\<close>

section \<open>Requests in any order\<close>

text \<open>Decisions that wait to be committed, and two histories: the refresh tokens that were redeemed for a new
  pair, and the codes that were exchanged, each with the authorization it bought.\<close>

record authz_sys =
  zsDB :: authz_db
  zsRefreshes :: "(refreshParams \<times> refresh_decision) list"
  zsExchanges :: "(CodeExchange \<times> exchange_decision) list"
  zsRevokes :: "(string \<times> revoke_decision) list"
  zsRedeemed :: "string list"
  zsExchanged :: "(string \<times> string) list"

definition redeemed_by :: "refresh_decision \<Rightarrow> authz_error + Session \<Rightarrow> string list" where
  "redeemed_by dec res = (case (dec, res) of (Rotate r, Inr sn) \<Rightarrow> [roHash r] | _ \<Rightarrow> [])"

definition exchanged_by :: "exchange_decision \<Rightarrow> authz_error + Session \<Rightarrow> (string \<times> string) list" where
  "exchanged_by dec res = (case (dec, res) of (MintGrant c g S, Inr sn) \<Rightarrow> [(cdHash c, azID (grAuthorization g))] | _ \<Rightarrow> [])"

inductive authz_step :: "service \<Rightarrow> authz_sys \<Rightarrow> authz_sys \<Rightarrow> bool" for svc where
  mint: "tx_now env \<noteq> 0 \<Longrightarrow>
    authz_step svc s (s\<lparr>zsDB := snd (MintAdminSession svc env presented req src (zsDB s))\<rparr>)"
| read_refresh:
    "authz_step svc s (s\<lparr>zsRefreshes := (p, refresh_decide svc env p (zsDB s)) # zsRefreshes s\<rparr>)"
| commit_refresh: "tx_now env \<noteq> 0 \<Longrightarrow> (p, dec) \<in> set (zsRefreshes s) \<Longrightarrow> refresh_apply svc env p dec (zsDB s) = (res, d') \<Longrightarrow>
    authz_step svc s (s\<lparr>zsDB := d', zsRefreshes := remove1 (p, dec) (zsRefreshes s), zsRedeemed := zsRedeemed s @ redeemed_by dec res\<rparr>)"
| issue_code: "now \<noteq> 0 \<Longrightarrow> CreateAuthorizationCode now c (zsDB s) = Inr d' \<Longrightarrow> authz_step svc s (s\<lparr>zsDB := d'\<rparr>)"
| read_exchange: "zeAuthID env \<noteq> [] \<Longrightarrow>
    authz_step svc s (s\<lparr>zsExchanges := (x, exchange_decide env x (zsDB s)) # zsExchanges s\<rparr>)"
| commit_exchange: "tx_now env \<noteq> 0 \<Longrightarrow> (x, dec) \<in> set (zsExchanges s) \<Longrightarrow> exchange_apply svc env x dec (zsDB s) = (res, d') \<Longrightarrow>
    authz_step svc s (s\<lparr>zsDB := d', zsExchanges := remove1 (x, dec) (zsExchanges s), zsExchanged := zsExchanged s @ exchanged_by dec res\<rparr>)"
| read_revoke:
    "authz_step svc s (s\<lparr>zsRevokes := (src, revoke_decide svc env presented clientID src (zsDB s)) # zsRevokes s\<rparr>)"
| commit_revoke: "tx_now env \<noteq> 0 \<Longrightarrow> (src, dec) \<in> set (zsRevokes s) \<Longrightarrow>
    authz_step svc s (s\<lparr>zsDB := snd (revoke_apply env src dec (zsDB s)), zsRevokes := remove1 (src, dec) (zsRevokes s)\<rparr>)"
| owner_revokes: "tx_now env \<noteq> 0 \<Longrightarrow> authz_step svc s (s\<lparr>zsDB := snd (RevokeAuthorization env i src (zsDB s))\<rparr>)"
| restart: "tx_now env \<noteq> 0 \<Longrightarrow>
    authz_step svc s (s\<lparr>zsDB := snd (RevokeSupersededAdminSessions svc (tx_now env) (zsDB s)),
      zsRefreshes := [], zsExchanges := [], zsRevokes := []\<rparr>)"

definition no_credentials :: authz_sys where
  "no_credentials = \<lparr>zsDB = \<lparr>zdAuths = [], zdTokens = [], zdCodes = [], zdAttempts = [], zdAudit = []\<rparr>, zsRefreshes = [],
     zsExchanges = [], zsRevokes = [], zsRedeemed = [], zsExchanged = []\<rparr>"

abbreviation authz_run :: "service \<Rightarrow> authz_sys \<Rightarrow> authz_sys \<Rightarrow> bool" where
  "authz_run svc \<equiv> (authz_step svc)\<^sup>*\<^sup>*"

section \<open>The invariant of a run\<close>

definition bought :: "string \<Rightarrow> string \<Rightarrow> authz_db \<Rightarrow> bool" where
  "bought h i d \<longleftrightarrow> i \<noteq> [] \<and> AuthorizationByID i d \<noteq> None \<and>
     (\<exists>c. AuthorizationCodeByHash h d = Some c \<and> code_consumed c \<and> cdAuthorizationID c = Some i)"

definition spent_hash :: "string \<Rightarrow> authz_db \<Rightarrow> bool" where
  "spent_hash h d \<longleftrightarrow> (\<exists>t. TokenByHash h d = Some t \<and> tok_spent t)"

definition sys_ok :: "service \<Rightarrow> authz_sys \<Rightarrow> bool" where
  "sys_ok svc s \<longleftrightarrow> db_ok svc (zsDB s) \<and> (\<forall>p r. (p, Rotate r) \<in> set (zsRefreshes s) \<longrightarrow> plan_ok (zsDB s) r) \<and>
     (\<forall>x dec. (x, dec) \<in> set (zsExchanges s) \<longrightarrow> mint_plan_ok dec) \<and>
     distinct (zsRedeemed s) \<and> (\<forall>h \<in> set (zsRedeemed s). spent_hash h (zsDB s)) \<and>
     distinct (map fst (zsExchanged s)) \<and> (\<forall>h i. (h, i) \<in> set (zsExchanged s) \<longrightarrow> bought h i (zsDB s))"

lemma evolves_keeps_history:
  assumes "evolves d d'"
  shows "spent_hash h d \<Longrightarrow> spent_hash h d'" "bought h i d \<Longrightarrow> bought h i d'"
proof -
  show "spent_hash h d'" if "spent_hash h d"
    using that assms unfolding spent_hash_def evolves_def tok_moves_def by metis
  show "bought h i d'" if b: "bought h i d"
  proof -
    from b obtain c where c: "AuthorizationCodeByHash h d = Some c" "code_consumed c" "cdAuthorizationID c = Some i"
      and i: "i \<noteq> []" "AuthorizationByID i d \<noteq> None" unfolding bought_def by blast
    from assms c(1) obtain c' where "AuthorizationCodeByHash h d' = Some c'" "code_moves c c'"
      unfolding evolves_def codes_move_def by blast
    moreover from assms i(2) have "AuthorizationByID i d' \<noteq> None" unfolding evolves_def by blast
    ultimately show ?thesis using c i(1) by (auto simp: bought_def code_moves_def)
  qed
qed

lemma sys_ok_db:
  assumes "sys_ok svc s" "keeps svc (zsDB s) d'"
  shows "sys_ok svc (s\<lparr>zsDB := d'\<rparr>)" "evolves (zsDB s) d'"
proof -
  from assms show e: "evolves (zsDB s) d'" by (simp add: sys_ok_def keeps_def)
  from assms have "db_ok svc d'" by (simp add: sys_ok_def keeps_def)
  then show "sys_ok svc (s\<lparr>zsDB := d'\<rparr>)"
    using assms(1) evolves_keeps_history [OF e] plan_stays [OF _ e] by (fastforce simp: sys_ok_def)
qed

lemma rotate_spends:
  assumes r: "rotate_tx svc env p r d = (Inr sn, d')" "tx_now env \<noteq> 0" and ok: "db_ok svc d"
  shows "\<not> spent_hash (roHash r) d" "spent_hash (roHash r) d'"
proof -
  from rotate_stages [OF r] obtain t d1 d2 d3 where t: "TokenByHash (roHash r) d = Some t" "live t"
    and d1: "SpendToken (tx_now env) (roHash r) d = Inr d1"
    and d2: "d2 = d1 \<or> SetAuthorizationScopes (tx_now env) (roAuthID r) (scope_string (roNext r)) d1 = Inr d2"
    and d3: "pair_added svc (roAuthID r) (roRefresh r) d2 d3" "quiet d3 d'" by blast
  show "\<not> spent_hash (roHash r) d" using t by (simp add: spent_hash_def live_def)
  from t ok have "tkSpentAtMS t = None"
    by (cases "tkSpentAtMS t") (auto simp: db_ok_def token_ok_def live_def tok_spent_def)
  then have "spent_hash (roHash r) d1"
    using t(1) TokenByHash_hash [OF t(1)] r(2) by (simp add: spent_hash_def spend_rows(3) [OF d1] tok_spent_def)
  moreover have "TokenByHash k d2 = TokenByHash k d1" for k using d2 scopes_rows(1) by metis
  moreover from d3(1) have "TokenByHash k d3 = TokenByHash k d2" if "TokenByHash k d2 \<noteq> None" for k
    using that unfolding pair_added_def by metis
  ultimately have "spent_hash (roHash r) d3" unfolding spent_hash_def by (metis option.distinct(1))
  with quietD(3) [OF d3(2)] show "spent_hash (roHash r) d'" unfolding spent_hash_def tok_moves_def by blast
qed

lemma consume_fresh:
  assumes c: "ConsumeAuthorizationCode now h i d = (True, d')" "now \<noteq> 0" "i \<noteq> []" and ok: "distinct (map cdHash (zdCodes d))"
  shows "\<exists>c. AuthorizationCodeByHash h d = Some c \<and> cdConsumedAtMS c = None"
    "\<exists>c. AuthorizationCodeByHash h d' = Some c \<and> code_consumed c \<and> cdAuthorizationID c = Some i"
proof -
  from c(1) obtain c0 where "c0 \<in> set (zdCodes d)" "cdHash c0 = h" "cdConsumedAtMS c0 = None"
    by (auto simp: ConsumeAuthorizationCode_def)
  then have c0: "AuthorizationCodeByHash h d = Some c0" "cdConsumedAtMS c0 = None" "cdHash c0 = h"
    using ok select_key_unique [of cdHash "zdCodes d" c0] by (auto simp: AuthorizationCodeByHash_def)
  then show "\<exists>c. AuthorizationCodeByHash h d = Some c \<and> cdConsumedAtMS c = None" by blast
  from c(1) have "d' = snd (ConsumeAuthorizationCode now h i d)" by simp
  then show "\<exists>c. AuthorizationCodeByHash h d' = Some c \<and> code_consumed c \<and> cdAuthorizationID c = Some i"
    using c0 c(2,3) by (cases i) (auto simp: consume_rows(3) code_consumed_def)
qed

lemma exchange_buys:
  assumes e: "exchange_apply svc env x (MintGrant c g S) d = (Inr sn, d')" "tx_now env \<noteq> 0" and i: "azID (grAuthorization g) \<noteq> []"
    and ok: "distinct (map cdHash (zdCodes d))"
  shows "\<not> bought (cdHash c) k d" "bought (cdHash c) (azID (grAuthorization g)) d'"
proof -
  let ?i = "azID (grAuthorization g)"
  from e(1) obtain d1 where d1: "ConsumeAuthorizationCode (tx_now env) (cdHash c) ?i d = (True, d1)"
    and w: "write_grant svc (tx_now env) ''authorization.token_issued'' (normalizeSource (exSource x)) g d1 = Inr d'"
    by (cases "ConsumeAuthorizationCode (tx_now env) (cdHash c) ?i d")
      (auto simp: exchange_apply_def Let_def split: if_splits option.splits sum.splits)
  note F = consume_fresh [OF d1 e(2) i ok]
  from F(1) show "\<not> bought (cdHash c) k d" by (auto simp: bought_def code_consumed_def)
  from w obtain d2 d3 where c2: "CreateAuthorization (tx_now env) (grAuthorization g) d1 = Inr d2"
    and p: "pair_added svc ?i (grRefresh g) d2 d3" and q: "d' = AppendAudit ''authorization.token_issued'' ''ok'' ?i (normalizeSource (exSource x)) d3"
    by (fastforce simp: write_grant_def dest: token_pair_added split: sum.splits)
  from p have "zdCodes d3 = zdCodes d2" "AuthorizationByID ?i d3 \<noteq> None" unfolding pair_added_def by auto
  then show "bought (cdHash c) ?i d'"
    using F(2) i same_codes_writes(3) [OF c2] by (simp add: bought_def q AuthorizationCodeByHash_def)
qed

lemma sys_ok_refresh:
  assumes ok: "sys_ok svc s" and now: "tx_now env \<noteq> 0" and dec: "(p, dec) \<in> set (zsRefreshes s)"
    and r: "refresh_apply svc env p dec (zsDB s) = (res, d')"
  shows "sys_ok svc (s\<lparr>zsDB := d', zsRefreshes := remove1 (p, dec) (zsRefreshes s), zsRedeemed := zsRedeemed s @ redeemed_by dec res\<rparr>)
    \<and> evolves (zsDB s) d'"
proof -
  from ok dec have "plan_ok (zsDB s) q" if "dec = Rotate q" for q using that by (auto simp: sys_ok_def)
  from refresh_keeps [OF now this] r have k: "keeps svc (zsDB s) d'" by (metis snd_conv)
  note M = sys_ok_db [OF ok k]
  have new: "\<not> spent_hash h (zsDB s) \<and> spent_hash h d'" if "redeemed_by dec res = [h]" for h
  proof -
    from that obtain q sn where "dec = Rotate q" "res = Inr sn" "h = roHash q"
      by (auto simp: redeemed_by_def split: refresh_decision.splits sum.splits)
    with rotate_spends [of svc env p q "zsDB s" sn d'] r now ok show ?thesis
      by (simp add: refresh_apply_def Let_def sys_ok_def)
  qed
  have "redeemed_by dec res = [] \<or> (\<exists>h. redeemed_by dec res = [h])"
    by (auto simp: redeemed_by_def split: refresh_decision.splits sum.splits)
  with M new ok show ?thesis
    by (fastforce simp: sys_ok_def dest: set_remove1_subset [THEN subsetD])
qed

lemma sys_ok_exchange:
  assumes ok: "sys_ok svc s" and now: "tx_now env \<noteq> 0" and dec: "(x, dec) \<in> set (zsExchanges s)"
    and r: "exchange_apply svc env x dec (zsDB s) = (res, d')"
  shows "sys_ok svc (s\<lparr>zsDB := d', zsExchanges := remove1 (x, dec) (zsExchanges s), zsExchanged := zsExchanged s @ exchanged_by dec res\<rparr>)
    \<and> evolves (zsDB s) d'"
proof -
  from ok dec have plan: "mint_plan_ok dec" by (auto simp: sys_ok_def)
  from exchange_keeps [OF now plan] r have k: "keeps svc (zsDB s) d'" by (metis snd_conv)
  note M = sys_ok_db [OF ok k]
  have new: "(\<forall>j. \<not> bought h j (zsDB s)) \<and> bought h i d'" if "exchanged_by dec res = [(h, i)]" for h i
  proof -
    from that obtain c g S sn where d: "dec = MintGrant c g S" "res = Inr sn" "h = cdHash c" "i = azID (grAuthorization g)"
      by (auto simp: exchanged_by_def split: exchange_decision.splits sum.splits)
    have "azID (grAuthorization g) \<noteq> []" using plan d by (simp add: mint_plan_ok_def)
    with exchange_buys [OF r [unfolded d] now] ok d show ?thesis by (simp add: sys_ok_def db_ok_def)
  qed
  have "exchanged_by dec res = [] \<or> (\<exists>h i. exchanged_by dec res = [(h, i)])"
    by (auto simp: exchanged_by_def split: exchange_decision.splits sum.splits)
  then consider "exchanged_by dec res = []" | h i where "exchanged_by dec res = [(h, i)]" by blast
  then show ?thesis
  proof cases
    case 1
    with M show ?thesis by (auto simp: sys_ok_def dest: set_remove1_subset [THEN subsetD])
  next
    case 2
    have "h \<notin> fst ` set (zsExchanged s)" using new [OF 2] ok unfolding sys_ok_def by force
    with M new [OF 2] 2 show ?thesis by (auto simp: sys_ok_def dest: set_remove1_subset [THEN subsetD])
  qed
qed

lemma authz_step_ok:
  assumes "authz_step svc s s'" "kinds_apart svc" "sys_ok svc s"
  shows "sys_ok svc s' \<and> evolves (zsDB s) (zsDB s')"
  using assms(1)
proof cases
  case (read_refresh p env)
  have "plan_ok (zsDB s) r" if "refresh_decide svc env p (zsDB s) = Rotate r" for r
    using decided_plan_ok [OF that _ assms(2)] assms(3) by (simp add: sys_ok_def)
  with read_refresh assms(3) show ?thesis by (auto simp: sys_ok_def)
next
  case (read_exchange env x)
  with decided_mint_ok assms(3) show ?thesis by (auto simp: sys_ok_def)
next
  case (commit_refresh env p dec res d')
  with sys_ok_refresh [OF assms(3)] show ?thesis by auto
next
  case (commit_exchange env x dec res d')
  with sys_ok_exchange [OF assms(3)] show ?thesis by auto
next
  case (mint env presented req src)
  with sys_ok_db [OF assms(3) mint_keeps] show ?thesis by auto
next
  case (issue_code now c d')
  with sys_ok_db [OF assms(3) quiet_keeps [OF quiet_writes(8)]] show ?thesis by auto
next
  case (read_revoke src env presented clientID)
  with assms(3) show ?thesis by (simp add: sys_ok_def)
next
  case (commit_revoke env src dec)
  with sys_ok_db [OF assms(3) revoke_keeps(1)] show ?thesis by (auto simp: sys_ok_def)
next
  case (owner_revokes env i src)
  with sys_ok_db [OF assms(3) revoke_keeps(2)] show ?thesis by auto
next
  case (restart env)
  with sys_ok_db [OF assms(3) revoke_keeps(3)] show ?thesis by (auto simp: sys_ok_def)
qed

lemma authz_run_ok:
  assumes "authz_run svc s s'" "kinds_apart svc" "sys_ok svc s"
  shows "sys_ok svc s' \<and> evolves (zsDB s) (zsDB s')"
  using assms(1)
proof (induction rule: rtranclp_induct)
  case base
  show ?case using assms(3) by simp
next
  case (step s1 s2)
  with authz_step_ok [OF step.hyps(2) assms(2)] show ?case using evolves_trans by blast
qed

lemma no_credentials_ok: "sys_ok svc no_credentials"
  by (simp add: sys_ok_def no_credentials_def db_ok_def AuthorizationByID_def TokenByHash_def refresh_of_def)

section \<open>Ending a session\<close>

lemma revoked_shut:
  assumes "now \<noteq> 0" "db_ok svc d" "AuthorizationByID i d \<noteq> None"
  shows "shut i (RevokeAuthorizationTx now i (RevokeTokensForAuthorization now i d))"
    "shut i (RevokeTokensForAuthorization now i (RevokeAuthorizationTx now i d))"
proof -
  from assms(3) obtain a where a: "AuthorizationByID i d = Some a" by blast
  with assms(2) have "azRevokedAtMS a \<noteq> Some 0" by (auto simp: db_ok_def grant_ok_def)
  then have r: "scanInt (coalesce (azRevokedAtMS a) (Some now)) \<noteq> 0"
    using assms(1) by (cases "azRevokedAtMS a") auto
  have tok: "tok_revoked (if tkRevokedAtMS t = None then t\<lparr>tkRevokedAtMS := Some now\<rparr> else t)" if "TokenByHash h d = Some t" for h t
    using that assms(1,2) by (cases "tkRevokedAtMS t") (auto simp: db_ok_def token_ok_def tok_revoked_def)
  show "shut i (RevokeAuthorizationTx now i (RevokeTokensForAuthorization now i d))"
    "shut i (RevokeTokensForAuthorization now i (RevokeAuthorizationTx now i d))"
    using a r AuthorizationByID_id [OF a] by (auto simp: shut_def auth_revoked_def dest!: tok split: if_splits)
qed

lemma bundles_shut:
  assumes "tx_now env \<noteq> 0" "db_ok svc d" "AuthorizationByID i d \<noteq> None"
  shows "shut i (revoke_grant env i s d)" "shut i (revokeFamilyTx (tx_now env) i f s d)"
    "cdAuthorizationID c = Some i \<Longrightarrow> i \<noteq> [] \<Longrightarrow> shut i (revokeAfterReplay env s c d)"
proof -
  have audit: "shut i (AppendAudit k r b u e) = shut i e" "shut i (count_failure env spec u e) = shut i e" for k r b u e spec
    by (simp_all add: shut_def)
  show "shut i (revoke_grant env i s d)" using revoked_shut(1) [OF assms] by (simp add: revoke_grant_def audit)
  have "db_ok svc (RevokeTokenFamily (tx_now env) f d)"
    using quiet_keeps [OF quiet_writes(2) [OF assms(1)]] assms(2) by (auto simp: keeps_def)
  then show "shut i (revokeFamilyTx (tx_now env) i f s d)"
    using revoked_shut(2) [OF assms(1), of svc "RevokeTokenFamily (tx_now env) f d" i] assms(3)
    by (simp add: revokeFamilyTx_def audit)
  show "shut i (revokeAfterReplay env s c d)" if "cdAuthorizationID c = Some i" "i \<noteq> []"
    using revoked_shut(1) [OF assms] that by (simp add: revokeAfterReplay_def audit)
qed

lemma AuthenticateD:
  assumes "Authenticate svc now v d = Inr A"
  shows "\<exists>auth. AuthorizationByID (anID A) d = Some auth \<and> \<not> auth_revoked auth \<and> ParseScopeString (azScopes auth) = Some (anScopes A)"
proof -
  from assms obtain row where row: "TokenByHash (hex_encode (tokenDigest (seSha svc) (seAudience svc) TokenKindAccess v)) d = Some row"
    by (auto simp: Authenticate_def Let_def split: if_splits option.splits)
  with assms obtain auth where auth: "AuthorizationByID (tkAuthorizationID row) d = Some auth"
    by (auto simp: Authenticate_def Let_def split: if_splits option.splits)
  from auth have "azID auth = tkAuthorizationID row" by (rule AuthorizationByID_id)
  with assms row auth show ?thesis
    by (auto simp: Authenticate_def Let_def split: if_splits option.splits)
qed

lemma shut_not_authenticated: "shut i d \<Longrightarrow> Authenticate svc now v d = Inr A \<Longrightarrow> anID A \<noteq> i"
  by (auto simp: shut_def dest: AuthenticateD)

lemma shut_not_rotated:
  assumes "shut i d" "plan_ok d r" "roAuthID r = i"
  shows "rotate_tx svc env p r d \<noteq> (Inr sn, d')"
proof
  assume r: "rotate_tx svc env p r d = (Inr sn, d')"
  then obtain t where t: "TokenByHash (roHash r) d = Some t" "live t"
    by (auto simp: rotate_tx_def Let_def live_def split: option.splits if_splits)
  with assms show False by (auto simp: plan_ok_def shut_def live_def)
qed

text \<open>C3: scopes never widen. Whatever requests the service serves, in whatever order their reads and commits
  run, an authorization's scopes at a later moment are among those it had at an earlier one, which are among
  those it was minted with; what it was minted with never changes; an OAuth grant never holds admin; and a
  token never authenticates for more than its authorization's scopes were at any earlier moment.\<close>

theorem scopes_never_widen:
  assumes "kinds_apart svc" "authz_run svc no_credentials s" "authz_run svc s s'" "AuthorizationByID i (zsDB s) = Some a"
  shows "\<exists>S M a' S'. ParseScopeString (azScopes a) = Some S \<and> ParseScopeString (azMintedScopes a) = Some M \<and>
    AuthorizationByID i (zsDB s') = Some a' \<and> azMintedScopes a' = azMintedScopes a \<and> ParseScopeString (azScopes a') = Some S' \<and>
    S' \<subseteq> S \<and> S \<subseteq> M \<and> (azKind a = AuthKindOAuth \<longrightarrow> ScopeAdmin \<notin> M) \<and>
    (\<forall>now v A. Authenticate svc now v (zsDB s') = Inr A \<and> anID A = i \<longrightarrow> anScopes A \<subseteq> S)"
proof -
  have ok: "sys_ok svc s" using authz_run_ok [OF assms(2,1) no_credentials_ok] by blast
  then have "grant_ok a" using assms(4) by (auto simp: sys_ok_def db_ok_def)
  then obtain S M where S: "ParseScopeString (azScopes a) = Some S" "ParseScopeString (azMintedScopes a) = Some M" "S \<subseteq> M"
    "azKind a = AuthKindOAuth \<longrightarrow> ScopeAdmin \<notin> M" by (auto simp: grant_ok_def)
  have "evolves (zsDB s) (zsDB s')" using authz_run_ok [OF assms(3,1) ok] by blast
  with assms(4) obtain a' where a': "AuthorizationByID i (zsDB s') = Some a'" "auth_moves a a'" unfolding evolves_def by blast
  with S(1) obtain S' where S': "ParseScopeString (azScopes a') = Some S'" "S' \<subseteq> S" unfolding auth_moves_def by blast
  have "anScopes A \<subseteq> S" if "Authenticate svc now v (zsDB s') = Inr A" "anID A = i" for now v A
    using AuthenticateD [OF that(1)] that(2) a'(1) S' by auto
  moreover have "azMintedScopes a' = azMintedScopes a" using a'(2) by (simp add: auth_moves_def)
  ultimately show ?thesis using S S' a'(1) by blast
qed

text \<open>C4: credentials are redeemed once. In any run, in whatever order reads and commits of concurrent requests
  interleave, no refresh token is exchanged for a new pair twice, no authorization code buys two grants, and
  an authorization never has two refresh tokens that can still be redeemed.\<close>

theorem credentials_redeemed_once:
  assumes "kinds_apart svc" "authz_run svc no_credentials s"
  shows "distinct (zsRedeemed s) \<and> distinct (map fst (zsExchanged s)) \<and>
    (\<forall>i h h'. refresh_of i h (zsDB s) \<and> refresh_of i h' (zsDB s) \<longrightarrow> h = h')"
  using authz_run_ok [OF assms(2,1) no_credentials_ok] by (auto simp: sys_ok_def db_ok_def)

text \<open>C9: an ended session stays ended. Once an authorization is revoked with its tokens, then at every later
  moment no token authenticates for it and no refresh that was decided before or after, its commit still to
  come, yields new tokens for it.\<close>

theorem ended_session_stays_ended:
  assumes "kinds_apart svc" "authz_run svc no_credentials s" "shut i (zsDB s)" "authz_run svc s s'"
  shows "shut i (zsDB s') \<and> (\<forall>now v A. Authenticate svc now v (zsDB s') = Inr A \<longrightarrow> anID A \<noteq> i) \<and>
    (\<forall>p r env sn d. (p, Rotate r) \<in> set (zsRefreshes s') \<and> roAuthID r = i \<longrightarrow> rotate_tx svc env p r (zsDB s') \<noteq> (Inr sn, d))"
proof -
  have ok: "sys_ok svc s" using authz_run_ok [OF assms(2,1) no_credentials_ok] by blast
  from authz_run_ok [OF assms(4,1) ok] have ok': "sys_ok svc s'" and "evolves (zsDB s) (zsDB s')" by auto
  then have "shut i (zsDB s')" using assms(3) unfolding evolves_def by blast
  moreover have "plan_ok (zsDB s') r" if "(p, Rotate r) \<in> set (zsRefreshes s')" for p r using ok' that by (auto simp: sys_ok_def)
  ultimately show ?thesis using shut_not_authenticated shut_not_rotated by blast
qed

lemma spent_token_ends_its_session:
  assumes "kinds_apart svc" "\<And>u. length (seSha svc u) = 32" "authz_run svc no_credentials s" "tx_now env \<noteq> 0"
  shows "(TokenByHash (tokenHash (seSha svc) (seAudience svc) TokenKindRefresh (rpPresentedToken p)) (zsDB s) = Some t \<and>
        tok_spent t \<and> \<not> tok_revoked t \<and> UnixMilli (zeNow env) < tkExpiresAtMS t \<and> zeBucket env = None \<and>
        Check (zeCheckAt env) (rpLimit p) (normalizeSource (rpSource p)) (zdAttempts (zsDB s)) = None \<longrightarrow>
      fst (refreshSession svc env p (zsDB s)) = Inl ErrTokenReused \<and> shut (tkAuthorizationID t) (snd (refreshSession svc env p (zsDB s)))) \<and>
    ((p, Rotate r) \<in> set (zsRefreshes s) \<and> spent_hash (roHash r) (zsDB s) \<longrightarrow>
      fst (refresh_apply svc env p (Rotate r) (zsDB s)) = Inl ErrTokenReused \<and>
      shut (roAuthID r) (snd (refresh_apply svc env p (Rotate r) (zsDB s))))"
proof -
  have ok: "sys_ok svc s" using authz_run_ok [OF assms(3,1) no_credentials_ok] by blast
  then have db: "db_ok svc (zsDB s)" by (simp add: sys_ok_def)
  have audit: "shut i (count_failure env spec u e) = shut i e" for i u e spec by (simp add: shut_def)
  let ?h = "tokenHash (seSha svc) (seAudience svc) TokenKindRefresh (rpPresentedToken p)"
  have "fst (refreshSession svc env p (zsDB s)) = Inl ErrTokenReused \<and> shut (tkAuthorizationID t) (snd (refreshSession svc env p (zsDB s)))"
    if t: "TokenByHash ?h (zsDB s) = Some t" "tok_spent t" "\<not> tok_revoked t" "UnixMilli (zeNow env) < tkExpiresAtMS t"
      and lim: "zeBucket env = None" "Check (zeCheckAt env) (rpLimit p) (normalizeSource (rpSource p)) (zdAttempts (zsDB s)) = None"
  proof -
    let ?dig = "tokenDigest (seSha svc) (seAudience svc) TokenKindRefresh (rpPresentedToken p)"
    have "length ?dig = 32" using assms(2) by (simp add: tokenDigest_def digest_def)
    then have eq: "equalHashHex ?dig (tkHash t)"
      using TokenByHash_hash [OF t(1)] by (simp add: tokenHash_def equalHashHex_encode)
    then have "refresh_decide svc env p (zsDB s) = ReuseRefresh t"
      using t lim by (simp add: refresh_decide_def Let_def tokenHash_def)
    moreover have "AuthorizationByID (tkAuthorizationID t) (zsDB s) \<noteq> None"
      using db t(1) unfolding db_ok_def token_ok_def by blast
    ultimately show ?thesis
      using bundles_shut(2) [OF assms(4) db] by (simp add: refreshSession_def refresh_apply_def Let_def audit)
  qed
  moreover have "fst (refresh_apply svc env p (Rotate r) (zsDB s)) = Inl ErrTokenReused \<and>
      shut (roAuthID r) (snd (refresh_apply svc env p (Rotate r) (zsDB s)))"
    if "(p, Rotate r) \<in> set (zsRefreshes s)" "spent_hash (roHash r) (zsDB s)"
  proof -
    from that(1) ok have "plan_ok (zsDB s) r" by (auto simp: sys_ok_def)
    then have "AuthorizationByID (roAuthID r) (zsDB s) \<noteq> None" by (auto simp: plan_ok_def)
    with that(2) bundles_shut(2) [OF assms(4) db] show ?thesis
      by (auto simp: spent_hash_def refresh_apply_def rotate_tx_def Let_def)
  qed
  ultimately show ?thesis by blast
qed

definition own_endpoint :: "refreshParams \<Rightarrow> auth_row \<Rightarrow> bool" where
  "own_endpoint p a \<longleftrightarrow> azKind a = rpKind p \<and> (rpClientID p = [] \<or> scanString (azClient a) = rpClientID p)"

text \<open>C10: Presenting a spent refresh token at the endpoint, and as the client, that it belongs to ends its session. The
  token was redeemed before and is neither revoked nor expired, and the source is within both of its rate limits:
  then the answer is the reuse refusal and the authorization is revoked with all of its tokens. The same happens
  to a refresh whose token was spent by another request between its read and its commit.\<close>

theorem reuse_ends_the_session:
  assumes "kinds_apart svc" "\<And>u. length (seSha svc u) = 32" "authz_run svc no_credentials s" "tx_now env \<noteq> 0"
  shows "(TokenByHash (tokenHash (seSha svc) (seAudience svc) TokenKindRefresh (rpPresentedToken p)) (zsDB s) = Some t \<and>
        AuthorizationByID (tkAuthorizationID t) (zsDB s) = Some a \<and> own_endpoint p a \<and>
        tok_spent t \<and> \<not> tok_revoked t \<and> UnixMilli (zeNow env) < tkExpiresAtMS t \<and> zeBucket env = None \<and>
        Check (zeCheckAt env) (rpLimit p) (normalizeSource (rpSource p)) (zdAttempts (zsDB s)) = None \<longrightarrow>
      fst (refreshSession svc env p (zsDB s)) = Inl ErrTokenReused \<and> shut (tkAuthorizationID t) (snd (refreshSession svc env p (zsDB s)))) \<and>
    ((p, Rotate r) \<in> set (zsRefreshes s) \<and> spent_hash (roHash r) (zsDB s) \<longrightarrow>
      fst (refresh_apply svc env p (Rotate r) (zsDB s)) = Inl ErrTokenReused \<and>
      shut (roAuthID r) (snd (refresh_apply svc env p (Rotate r) (zsDB s))))"
  using spent_token_ends_its_session [OF assms, of p t r] by blast

text \<open>C19: The comments and the documentation say that a refresh token presented at the endpoint of the other kind of
  session revokes nothing. That holds for a token that is still to be redeemed. A spent one is tested for reuse
  before its kind is looked at, so it ends its session from the other endpoint as well.\<close>

theorem spent_token_crosses_endpoints:
  assumes "kinds_apart svc" "\<And>u. length (seSha svc u) = 32" "authz_run svc no_credentials s" "tx_now env \<noteq> 0"
    and "TokenByHash (tokenHash (seSha svc) (seAudience svc) TokenKindRefresh (rpPresentedToken p)) (zsDB s) = Some t"
    "AuthorizationByID (tkAuthorizationID t) (zsDB s) = Some a" "azKind a \<noteq> rpKind p"
    and "\<not> tok_revoked t" "UnixMilli (zeNow env) < tkExpiresAtMS t" "zeBucket env = None"
    "Check (zeCheckAt env) (rpLimit p) (normalizeSource (rpSource p)) (zdAttempts (zsDB s)) = None"
  shows "(tok_spent t \<longrightarrow> fst (refreshSession svc env p (zsDB s)) = Inl ErrTokenReused \<and>
      shut (tkAuthorizationID t) (snd (refreshSession svc env p (zsDB s)))) \<and>
    (\<not> tok_spent t \<longrightarrow> fst (refreshSession svc env p (zsDB s)) = Inl (rpWrongKind p) \<and>
      zdAuths (snd (refreshSession svc env p (zsDB s))) = zdAuths (zsDB s) \<and>
      zdTokens (snd (refreshSession svc env p (zsDB s))) = zdTokens (zsDB s))"
proof (rule conjI)
  show "tok_spent t \<longrightarrow> fst (refreshSession svc env p (zsDB s)) = Inl ErrTokenReused \<and>
      shut (tkAuthorizationID t) (snd (refreshSession svc env p (zsDB s)))"
    using spent_token_ends_its_session [OF assms(1-4), of p t] assms(5-11) by blast
  let ?dig = "tokenDigest (seSha svc) (seAudience svc) TokenKindRefresh (rpPresentedToken p)"
  have "length ?dig = 32" using assms(2) by (simp add: tokenDigest_def digest_def)
  then have "equalHashHex ?dig (tkHash t)"
    using TokenByHash_hash [OF assms(5)] by (simp add: tokenHash_def equalHashHex_encode)
  then have dec: "\<not> tok_spent t \<Longrightarrow> refresh_decide svc env p (zsDB s) = CountRefresh (rpWrongKind p)"
    using assms(5-11) by (simp add: refresh_decide_def Let_def tokenHash_def)
  have keep: "zdAuths (record_failure env l k u d) = zdAuths d" "zdTokens (record_failure env l k u d) = zdTokens d"
    for l k u d by (simp_all add: record_failure_def count_failure_def AppendAudit_def)
  show "\<not> tok_spent t \<longrightarrow> fst (refreshSession svc env p (zsDB s)) = Inl (rpWrongKind p) \<and>
      zdAuths (snd (refreshSession svc env p (zsDB s))) = zdAuths (zsDB s) \<and>
      zdTokens (snd (refreshSession svc env p (zsDB s))) = zdTokens (zsDB s)"
    using dec by (auto simp: refreshSession_def refresh_apply_def Let_def keep)
qed

text \<open>A replayed authorization code ends the grant it bought. Presenting a code that was exchanged before is
  refused as a replay and revokes the authorization of the first exchange with all of its tokens; an exchange
  that was decided before the first one committed does the same.\<close>

theorem replayed_code_ends_the_grant:
  assumes "kinds_apart svc" "authz_run svc no_credentials s" "tx_now env \<noteq> 0" "(exCodeHash x, i) \<in> set (zsExchanged s)"
  shows "(zeBucket env = None \<and> Check (zeCheckAt env) LimitOAuthToken (normalizeSource (exSource x)) (zdAttempts (zsDB s)) = None \<longrightarrow>
      fst (ExchangeAuthorizationCode svc env x (zsDB s)) = Inl ErrGrantReplayed \<and> shut i (snd (ExchangeAuthorizationCode svc env x (zsDB s)))) \<and>
    (cdHash c = exCodeHash x \<longrightarrow> fst (exchange_apply svc env x (MintGrant c g S) (zsDB s)) = Inl ErrGrantReplayed \<and>
      shut i (snd (exchange_apply svc env x (MintGrant c g S) (zsDB s))))"
proof -
  have ok: "sys_ok svc s" using authz_run_ok [OF assms(2,1) no_credentials_ok] by blast
  then have db: "db_ok svc (zsDB s)" and "bought (exCodeHash x) i (zsDB s)" using assms(4) by (auto simp: sys_ok_def)
  then obtain cr where cr: "AuthorizationCodeByHash (exCodeHash x) (zsDB s) = Some cr" "code_consumed cr" "cdAuthorizationID cr = Some i"
    and i: "i \<noteq> []" "AuthorizationByID i (zsDB s) \<noteq> None" unfolding bought_def by blast
  have "fst (ExchangeAuthorizationCode svc env x (zsDB s)) = Inl ErrGrantReplayed \<and> shut i (snd (ExchangeAuthorizationCode svc env x (zsDB s)))"
    if "zeBucket env = None" "Check (zeCheckAt env) LimitOAuthToken (normalizeSource (exSource x)) (zdAttempts (zsDB s)) = None"
    using that cr bundles_shut(3) [OF assms(3) db i(2) cr(3) i(1)]
    by (simp add: ExchangeAuthorizationCode_def exchange_decide_def exchange_apply_def Let_def)
  moreover have "fst (exchange_apply svc env x (MintGrant c g S) (zsDB s)) = Inl ErrGrantReplayed \<and>
      shut i (snd (exchange_apply svc env x (MintGrant c g S) (zsDB s)))" if h: "cdHash c = exCodeHash x"
  proof -
    let ?con = "ConsumeAuthorizationCode (tx_now env) (cdHash c) (azID (grAuthorization g)) (zsDB s)"
    have set: "cr \<in> set (zdCodes (zsDB s))" "cdHash cr = exCodeHash x" using cr(1) by (auto simp: AuthorizationCodeByHash_def dest: select_one_SomeD)
    have "c' = cr" if "c' \<in> set (zdCodes (zsDB s))" "cdHash c' = exCodeHash x" for c'
      using db that set unfolding db_ok_def distinct_map by (metis inj_onD)
    moreover have "cdConsumedAtMS cr \<noteq> None" using cr(2) by (cases "cdConsumedAtMS cr") (auto simp: code_consumed_def)
    ultimately have nok: "fst ?con = False" using h unfolding ConsumeAuthorizationCode_def fst_conv by metis
    have row: "AuthorizationCodeByHash (exCodeHash x) (snd ?con) = Some cr"
      using cr by (auto simp: consume_rows(3) code_consumed_def)
    have "db_ok svc (snd ?con)" using quiet_keeps [OF quiet_writes(6) [OF assms(3)]] db by (auto simp: keeps_def)
    then have "shut i (revokeAfterReplay env u cr (snd ?con))" for u
      using bundles_shut(3) [OF assms(3) _ _ cr(3) i(1)] i(2) by simp
    moreover obtain q e where con: "?con = (q, e)" by (cases ?con)
    ultimately show ?thesis using nok row unfolding con by (simp add: exchange_apply_def Let_def con)
  qed
  ultimately show ?thesis by blast
qed

text \<open>A widening is refused and costs nothing. A refresh that asks for scopes the session does not hold now,
  also ones it was minted with, is refused; no token is spent, no scope changes and no failure is counted.\<close>

theorem widening_refused_free_of_charge:
  assumes "refresh_decide svc env (p\<lparr>rpRequestedScopes := []\<rparr>) d = Rotate r"
    and "rpRequestedScopes p \<noteq> []" "ParseScopes (rpRequestedScopes p) = Some req" "\<not> req \<subseteq> roCurrent r"
  shows "refreshSession svc env p d = (Inl ErrInvalidScope, d)"
proof -
  let ?p = "p\<lparr>rpRequestedScopes := []\<rparr>"
  from refresh_decide_Rotate [OF assms(1)] obtain row auth where
    row: "TokenByHash (tokenHash (seSha svc) (seAudience svc) TokenKindRefresh (rpPresentedToken p)) d = Some row"
      "AuthorizationByID (tkAuthorizationID row) d = Some auth" and plan: "rotate_plan env ?p row auth = Rotate r"
    by auto
  have "ParseScopeString (azScopes auth) = Some (roCurrent r)" "ParseScopeString (azMintedScopes auth) = Some (roMinted r)"
    using rotate_planD [OF plan] by auto
  then have "rotate_plan env p row auth = RefuseRefresh ErrInvalidScope"
    using assms(2-4) by (auto simp: rotate_plan_def next_scopes_def)
  moreover have "refresh_decide svc env p d = rotate_plan env p row auth"
    using assms(1) row by (auto simp: refresh_decide_def Let_def tokenHash_def split: option.splits if_splits)
  ultimately show ?thesis by (simp add: refreshSession_def refresh_apply_def Let_def)
qed

lemma superseded_fold:
  "AuthorizationByID i (foldl (revoke_superseded now) d ids) =
     map_option (\<lambda>a. if azID a \<in> set ids
       then a\<lparr>azRevokedAtMS := coalesce (azRevokedAtMS a) (Some now), azUpdatedAtMS := now\<rparr> else a) (AuthorizationByID i d)"
  "TokenByHash h (foldl (revoke_superseded now) d ids) =
     map_option (\<lambda>t. if tkAuthorizationID t \<in> set ids \<and> tkRevokedAtMS t = None then t\<lparr>tkRevokedAtMS := Some now\<rparr> else t) (TokenByHash h d)"
proof (induction ids rule: rev_induct)
  case (snoc j ids)
  {
    case 1
    show ?case using snoc.IH(1) by (cases "AuthorizationByID i d") (auto simp: revoke_superseded_def split: option.split)
  next
    case 2
    show ?case using snoc.IH(2) by (cases "TokenByHash h d") (auto simp: revoke_superseded_def)
  }
qed (simp_all add: option.map_ident)

text \<open>Changing the admin secret ends exactly the other secret's sessions. At a start with another secret,
  every admin session of a different generation that was still unrevoked is revoked with all of its tokens;
  every other authorization, and every token of one, is left exactly as it was.\<close>

theorem secret_change_ends_exactly_the_others:
  assumes "distinct (map azID (zdAuths d))"
  shows "AuthorizationByID i (snd (RevokeSupersededAdminSessions svc now d)) = map_option (\<lambda>a. if superseded (seGeneration svc) a
      then a\<lparr>azRevokedAtMS := Some now, azUpdatedAtMS := now\<rparr> else a) (AuthorizationByID i d) \<and>
    TokenByHash h (snd (RevokeSupersededAdminSessions svc now d)) = map_option (\<lambda>t. if tkRevokedAtMS t = None \<and>
        (\<exists>a. AuthorizationByID (tkAuthorizationID t) d = Some a \<and> superseded (seGeneration svc) a)
      then t\<lparr>tkRevokedAtMS := Some now\<rparr> else t) (TokenByHash h d)"
proof -
  let ?ids = "map azID (filter (superseded (seGeneration svc)) (zdAuths d))"
  let ?d' = "snd (RevokeSupersededAdminSessions svc now d)"
  have d': "?d' = foldl (revoke_superseded now) d ?ids"
    by (simp add: RevokeSupersededAdminSessions_def RevokeAdminAuthorizationsFromOtherSecrets_def Let_def)
  have ids: "j \<in> set ?ids \<longleftrightarrow> (\<exists>a. AuthorizationByID j d = Some a \<and> superseded (seGeneration svc) a)" for j
    using select_key_unique [OF assms(1)] by (auto simp: AuthorizationByID_def dest!: select_one_SomeD)
  have "AuthorizationByID i ?d' = map_option (\<lambda>a. if superseded (seGeneration svc) a
      then a\<lparr>azRevokedAtMS := Some now, azUpdatedAtMS := now\<rparr> else a) (AuthorizationByID i d)"
  proof (cases "AuthorizationByID i d")
    case (Some a)
    then have "azID a \<in> set ?ids \<longleftrightarrow> superseded (seGeneration svc) a" using ids [of i] AuthorizationByID_id [OF Some] by auto
    with Some show ?thesis unfolding d' superseded_fold(1) by (auto simp: superseded_def)
  qed (simp add: d' superseded_fold(1))
  moreover have "TokenByHash h ?d' = map_option (\<lambda>t. if tkRevokedAtMS t = None \<and>
        (\<exists>a. AuthorizationByID (tkAuthorizationID t) d = Some a \<and> superseded (seGeneration svc) a)
      then t\<lparr>tkRevokedAtMS := Some now\<rparr> else t) (TokenByHash h d)"
    unfolding d' superseded_fold(2) ids by (cases "TokenByHash h d") auto
  ultimately show ?thesis by blast
qed

section \<open>A run of the service\<close>

definition short_hash :: "string \<Rightarrow> string" where
  "short_hash u = take 32 (drop 20 u @ replicate 32 (CHR 0x00))"

definition a_service :: service where
  "a_service = \<lparr>seSha = short_hash, seAudience = ''a'', seAdminSecretHash = hashSecret short_hash ''secret'',
     seGeneration = secretGeneration short_hash ''secret''\<rparr>"

definition an_env :: "ns \<Rightarrow> string \<Rightarrow> string \<Rightarrow> authz_env" where
  "an_env t access refresh = \<lparr>zeCheckAt = t, zeNow = t, zeFailAt = t, zeTxAt = t, zeBucket = None,
     zeTTLs = Some (Hour, 24 * Hour, 240 * Hour), zeAuthID = ''auth_1'', zeFamilyID = ''fam_1'',
     zeAccess = Some access, zeRefresh = Some refresh\<rparr>"

abbreviation hash_access :: "string \<Rightarrow> string" where "hash_access \<equiv> tokenHash short_hash ''a'' TokenKindAccess"
abbreviation hash_refresh :: "string \<Rightarrow> string" where "hash_refresh \<equiv> tokenHash short_hash ''a'' TokenKindRefresh"

definition a_token :: "string \<Rightarrow> string \<Rightarrow> ms option \<Rightarrow> ms \<Rightarrow> ms \<Rightarrow> tok_row" where
  "a_token h kind spent expires created = \<lparr>tkHash = h, tkAuthorizationID = ''auth_1'', tkKind = kind, tkFamilyID = ''fam_1'',
     tkSpentAtMS = spent, tkRevokedAtMS = None, tkExpiresAtMS = expires, tkCreatedAtMS = created\<rparr>"

definition a_session :: auth_row where
  "a_session = \<lparr>azID = ''auth_1'', azKind = AuthKindAdminBootstrap, azClient = None, azScopes = scope_string AdminBootstrapScopes,
     azMintedScopes = scope_string AdminBootstrapScopes, azSecretGeneration = nullString (secretGeneration short_hash ''secret''),
     azSource = Some ''unknown'', azRevokedAtMS = None, azExpiresAtMS = Some 864001000, azCreatedAtMS = 1000, azUpdatedAtMS = 1000\<rparr>"

definition minted_db :: authz_db where
  "minted_db = \<lparr>zdAuths = [a_session],
     zdTokens = [a_token (hash_access ''A1'') TokenKindAccess None 3601000 1000,
                 a_token (hash_refresh ''R1'') TokenKindRefresh None 86401000 1000], zdCodes = [], zdAttempts = [],
     zdAudit = [\<lparr>auKind = ''auth.admin_session_minted'', auResult = ''ok'', auAuthorizationID = ''auth_1'', auSource = ''unknown'',
       auTargetType = None, auTargetID = None\<rparr>]\<rparr>"

lemma short_hash_token: "tokenDigest short_hash ''a'' kind v = take 32 (kind @ CHR 0x00 # v @ replicate 32 (CHR 0x00))"
  by (simp add: tokenDigest_def digest_def short_hash_def domainToken_def)

lemma hashes_apart [simp]: "hash_access v \<noteq> hash_refresh w" "hash_refresh w \<noteq> hash_access v"
  by (simp_all add: tokenHash_def short_hash_token)

lemma hashes_differ [simp]: "hash_refresh ''R1'' \<noteq> hash_refresh ''R2''" "hash_access ''A1'' \<noteq> hash_access ''A2''"
  "hash_refresh ''R2'' \<noteq> hash_refresh ''R1''" "hash_access ''A2'' \<noteq> hash_access ''A1''"
  by (simp_all add: tokenHash_def short_hash_token)

lemma a_service_apart: "kinds_apart a_service"
  by (simp add: kinds_apart_def a_service_def)

lemma short_hash_length: "length (seSha a_service u) = 32"
  by (simp add: a_service_def short_hash_def)

lemma a_service_digest: "length (tokenDigest (seSha a_service) x k v) = 32"
  by (simp add: tokenDigest_def digest_def short_hash_length)

lemma no_source: "normalizeSource [] = ''unknown''"
  by (simp add: normalizeSource_def SourceUnknown_def TrimSpace_def trim_both_def)

lemma unlimited: "Check t spec src [] = None"
  by (simp add: Check_def AttemptRow_def)

lemma mint_eval: "snd (MintAdminSession a_service (an_env Second ''A1'' ''R1'') ''secret'' [] [] (zsDB no_credentials)) = minted_db"
  by (simp add: MintAdminSession_def a_service_def an_env_def no_credentials_def no_source unlimited granted_scopes_def
      write_grant_def CreateAuthorization_def token_pair_def InsertToken_def AppendAudit_def minted_db_def a_session_def a_token_def
      UnixMilli_def tx_now_def earlier_def Let_def nullInt_def)

definition a_refresh :: refreshParams where "a_refresh = Refresh_params ''R1'' [] []"

definition a_rotation :: rotation where
  "a_rotation = \<lparr>roHash = hash_refresh ''R1'', roAuthID = ''auth_1'', roCurrent = AdminBootstrapScopes, roMinted = AdminBootstrapScopes,
     roNext = AdminBootstrapScopes, roNarrowed = False, roAccess = ''A2'', roRefresh = ''R2'', roAccessExpiry = 3602 * Second,
     roRefreshExpiry = 86402 * Second\<rparr>"

definition refreshed_db :: authz_db where
  "refreshed_db = minted_db\<lparr>zdTokens := [a_token (hash_access ''A1'') TokenKindAccess None 3601000 1000,
       a_token (hash_refresh ''R1'') TokenKindRefresh (Some 2000) 86401000 1000,
       a_token (hash_access ''A2'') TokenKindAccess None 3602000 2000,
       a_token (hash_refresh ''R2'') TokenKindRefresh None 86402000 2000],
     zdAudit := zdAudit minted_db @
       [\<lparr>auKind = ''auth.admin_session_refreshed'', auResult = ''ok'', auAuthorizationID = ''auth_1'', auSource = ''unknown'',
       auTargetType = None, auTargetID = None\<rparr>]\<rparr>"

lemma all_scopes_parse: "ParseScopeString (scope_string AdminBootstrapScopes) = Some AdminBootstrapScopes"
  by (rule scope_string_roundtrip) (simp add: AdminBootstrapScopes_def)

lemma service_fields [simp]: "seSha a_service = short_hash" "seAudience a_service = ''a''"
  by (simp_all add: a_service_def)

lemma an_env_fields [simp]:
  "zeCheckAt (an_env t u v) = t" "zeNow (an_env t u v) = t" "zeFailAt (an_env t u v) = t" "tx_now (an_env t u v) = UnixMilli t"
  "zeBucket (an_env t u v) = None" "zeTTLs (an_env t u v) = Some (Hour, 24 * Hour, 240 * Hour)" "zeAuthID (an_env t u v) = ''auth_1''"
  "zeFamilyID (an_env t u v) = ''fam_1''" "zeAccess (an_env t u v) = Some u" "zeRefresh (an_env t u v) = Some v"
  by (simp_all add: an_env_def tx_now_def)

lemma a_refresh_fields [simp]:
  "rpPresentedToken a_refresh = ''R1''" "rpRequestedScopes a_refresh = []" "rpSource a_refresh = []"
  "rpKind a_refresh = AuthKindAdminBootstrap" "rpClientID a_refresh = []"
  by (simp_all add: a_refresh_def Refresh_params_def)

lemma a_token_fields [simp]:
  "tkHash (a_token h k sp x c) = h" "tkAuthorizationID (a_token h k sp x c) = ''auth_1''" "tkKind (a_token h k sp x c) = k"
  "tkExpiresAtMS (a_token h k sp x c) = x" "tok_spent (a_token h k sp x c) = (scanInt sp \<noteq> 0)" "\<not> tok_revoked (a_token h k sp x c)"
  by (simp_all add: a_token_def tok_spent_def tok_revoked_def)

lemma a_session_fields [simp]:
  "azID a_session = ''auth_1''" "azKind a_session = AuthKindAdminBootstrap" "azScopes a_session = scope_string AdminBootstrapScopes"
  "azMintedScopes a_session = scope_string AdminBootstrapScopes" "\<not> auth_revoked a_session" "azExpiresAtMS a_session = Some 864001000"
  by (simp_all add: a_session_def auth_revoked_def)

lemma refresh_token_matches: "equalHashHex (tokenDigest short_hash ''a'' k v) (hex_encode (tokenDigest short_hash ''a'' k v))"
  using a_service_digest [of "''a''" k v] by (simp add: equalHashHex_encode)

lemmas db_eval = AuthorizationByID_def TokenByHash_def minted_db_def refreshed_db_def

lemma read_eval: "refresh_decide a_service (an_env (2 * Second) ''A2'' ''R2'') a_refresh minted_db = Rotate a_rotation"
proof -
  have h: "hex_encode (tokenDigest short_hash ''a'' TokenKindRefresh ''R1'') = hash_refresh ''R1''" by (simp add: tokenHash_def)
  have t: "TokenByHash (hash_refresh ''R1'') minted_db = Some (a_token (hash_refresh ''R1'') TokenKindRefresh None 86401000 1000)"
    and a: "AuthorizationByID ''auth_1'' minted_db = Some a_session" by (simp_all add: db_eval)
  have e: "equalHashHex (tokenDigest short_hash ''a'' TokenKindRefresh ''R1'') (hash_refresh ''R1'')"
    using refresh_token_matches [of TokenKindRefresh "''R1''"] by (simp add: tokenHash_def)
  have c: "Check t spec src (zdAttempts minted_db) = None" for t spec src by (simp add: minted_db_def unlimited)
  show ?thesis
    by (simp add: refresh_decide_def Let_def h t e c a UnixMilli_def rotate_plan_def all_scopes_parse next_scopes_def
        a_rotation_def earlier_def)
qed

lemma commit_eval:
  "\<exists>sn. refresh_apply a_service (an_env (2 * Second) ''A2'' ''R2'') a_refresh (Rotate a_rotation) minted_db = (Inr sn, refreshed_db)"
  by (simp add: refresh_apply_def rotate_tx_def Let_def a_rotation_def db_eval SpendToken_def token_pair_def InsertToken_def
      AppendAudit_def UnixMilli_def no_source) (simp add: a_token_def a_refresh_def Refresh_params_def)

definition after_mint :: authz_sys where "after_mint = no_credentials\<lparr>zsDB := minted_db\<rparr>"

definition refresh_pending :: authz_sys where
  "refresh_pending = after_mint\<lparr>zsRefreshes := [(a_refresh, Rotate a_rotation)]\<rparr>"

definition after_refresh :: authz_sys where
  "after_refresh = after_mint\<lparr>zsDB := refreshed_db, zsRedeemed := [hash_refresh ''R1'']\<rparr>"

lemma a_run:
  "authz_run a_service no_credentials after_mint" "authz_run a_service after_mint refresh_pending"
  "authz_run a_service refresh_pending after_refresh" "authz_run a_service no_credentials after_refresh"
proof -
  let ?e1 = "an_env Second ''A1'' ''R1''" and ?e2 = "an_env (2 * Second) ''A2'' ''R2''"
  have "authz_step a_service no_credentials after_mint"
    using authz_step.mint [of ?e1 a_service no_credentials "''secret''" "[]" "[]"]
    by (simp add: mint_eval after_mint_def UnixMilli_def)
  then show 1: "authz_run a_service no_credentials after_mint" by blast
  have "authz_step a_service after_mint refresh_pending"
    using authz_step.read_refresh [of a_service after_mint a_refresh ?e2]
    by (simp add: after_mint_def refresh_pending_def read_eval [simplified]) (simp add: no_credentials_def)
  then show 2: "authz_run a_service after_mint refresh_pending" by blast
  from commit_eval obtain sn where c: "refresh_apply a_service ?e2 a_refresh (Rotate a_rotation) minted_db = (Inr sn, refreshed_db)" by blast
  have "authz_step a_service refresh_pending after_refresh"
    using authz_step.commit_refresh [of ?e2 a_refresh "Rotate a_rotation" refresh_pending a_service "Inr sn" refreshed_db] c
    by (simp add: refresh_pending_def after_mint_def after_refresh_def redeemed_by_def UnixMilli_def)
      (simp add: a_rotation_def no_credentials_def)
  then show 3: "authz_run a_service refresh_pending after_refresh" by blast
  show "authz_run a_service no_credentials after_refresh" using 1 2 3 by (meson rtranclp_trans)
qed

theorem scopes_never_widen_witness:
  "\<exists>a' S'. AuthorizationByID ''auth_1'' (zsDB after_refresh) = Some a' \<and> ParseScopeString (azScopes a') = Some S' \<and>
    S' \<subseteq> AdminBootstrapScopes"
proof -
  have "AuthorizationByID ''auth_1'' (zsDB after_mint) = Some a_session" by (simp add: after_mint_def db_eval)
  from scopes_never_widen [OF a_service_apart a_run(1) rtranclp_trans [OF a_run(2,3)] this]
  show ?thesis by (auto simp: all_scopes_parse)
qed

theorem credentials_redeemed_once_witness:
  "zsRedeemed after_refresh = [hash_refresh ''R1''] \<and> distinct (zsRedeemed after_refresh)"
  using credentials_redeemed_once [OF a_service_apart a_run(4)] by (simp add: after_refresh_def)

theorem reuse_ends_the_session_witness:
  "shut ''auth_1'' (snd (refreshSession a_service (an_env (3 * Second) ''A3'' ''R3'') a_refresh refreshed_db))"
  using reuse_ends_the_session [OF a_service_apart short_hash_length a_run(4), of "an_env (3 * Second) ''A3'' ''R3''" a_refresh
      "a_token (hash_refresh ''R1'') TokenKindRefresh (Some 2000) 86401000 1000" a_session]
  by (simp add: UnixMilli_def after_refresh_def db_eval unlimited own_endpoint_def)

theorem spent_token_crosses_endpoints_witness:
  "shut ''auth_1'' (snd (refreshSession a_service (an_env (3 * Second) ''A3'' ''R3'') (RefreshOAuth_params ''R1'' [] [] []) refreshed_db))"
  using spent_token_crosses_endpoints [OF a_service_apart short_hash_length a_run(4), of "an_env (3 * Second) ''A3'' ''R3''"
      "RefreshOAuth_params ''R1'' [] [] []" "a_token (hash_refresh ''R1'') TokenKindRefresh (Some 2000) 86401000 1000" a_session]
  by (simp add: UnixMilli_def after_refresh_def db_eval unlimited RefreshOAuth_params_def)

definition ended_db :: authz_db where
  "ended_db = snd (refreshSession a_service (an_env (3 * Second) ''A3'' ''R3'') a_refresh refreshed_db)"

definition after_reuse :: authz_sys where "after_reuse = after_refresh\<lparr>zsDB := ended_db\<rparr>"

lemma run_reuse: "authz_run a_service after_refresh after_reuse"
proof -
  let ?e = "an_env (3 * Second) ''A3'' ''R3''"
  let ?dec = "refresh_decide a_service ?e a_refresh refreshed_db"
  obtain res where r: "refresh_apply a_service ?e a_refresh ?dec refreshed_db = (res, ended_db)"
    by (metis ended_db_def prod.collapse refreshSession_def)
  have e: "refresh_decide a_service ?e a_refresh refreshed_db = ReuseRefresh (a_token (hash_refresh ''R1'') TokenKindRefresh (Some 2000) 86401000 1000)"
    using refresh_token_matches [of TokenKindRefresh "''R1''"]
    by (simp add: refresh_decide_def Let_def db_eval unlimited UnixMilli_def tokenHash_def [symmetric])
  have pending: "authz_step a_service after_refresh (after_refresh\<lparr>zsRefreshes := [(a_refresh, ?dec)]\<rparr>)"
    using authz_step.read_refresh [of a_service after_refresh a_refresh ?e]
    by (simp add: after_refresh_def after_mint_def no_credentials_def)
  have "authz_step a_service (after_refresh\<lparr>zsRefreshes := [(a_refresh, ?dec)]\<rparr>) after_reuse"
    using authz_step.commit_refresh [of ?e a_refresh ?dec "after_refresh\<lparr>zsRefreshes := [(a_refresh, ?dec)]\<rparr>" a_service res ended_db] r e
    by (simp add: after_refresh_def after_reuse_def redeemed_by_def UnixMilli_def after_mint_def no_credentials_def)
  with pending show ?thesis by (meson rtranclp.rtrancl_refl rtranclp.rtrancl_into_rtrancl)
qed

lemma ended_shut: "shut ''auth_1'' ended_db"
proof -
  have "AuthorizationByID ''auth_1'' refreshed_db \<noteq> None" by (simp add: db_eval)
  moreover have "db_ok a_service refreshed_db"
    using authz_run_ok [OF a_run(4) a_service_apart no_credentials_ok] by (simp add: sys_ok_def after_refresh_def)
  ultimately have s: "shut ''auth_1'' (revokeFamilyTx (tx_now (an_env (3 * Second) ''A3'' ''R3'')) ''auth_1'' ''fam_1'' ''unknown'' refreshed_db)"
    using bundles_shut(2) [of "an_env (3 * Second) ''A3'' ''R3''" a_service refreshed_db "''auth_1''"] by (simp add: UnixMilli_def)
  have e: "refresh_decide a_service (an_env (3 * Second) ''A3'' ''R3'') a_refresh refreshed_db =
      ReuseRefresh (a_token (hash_refresh ''R1'') TokenKindRefresh (Some 2000) 86401000 1000)"
    using refresh_token_matches [of TokenKindRefresh "''R1''"]
    by (simp add: refresh_decide_def Let_def db_eval unlimited UnixMilli_def tokenHash_def [symmetric])
  have "tkFamilyID (a_token h k sp x c) = ''fam_1''" for h k sp x c by (simp add: a_token_def)
  with s show ?thesis
    by (simp add: ended_db_def refreshSession_def e [simplified] refresh_apply_def Let_def no_source) (auto simp: shut_def)
qed

theorem ended_session_stays_ended_witness:
  "\<not> (\<exists>now v A. Authenticate a_service now v (zsDB after_reuse) = Inr A \<and> anID A = ''auth_1'')"
proof -
  have "shut ''auth_1'' (zsDB after_reuse)" by (simp add: after_reuse_def ended_shut)
  from ended_session_stays_ended [OF a_service_apart rtranclp_trans [OF a_run(4) run_reuse] this rtranclp.rtrancl_refl]
  show ?thesis by blast
qed

text \<open>A code that is exchanged and replayed.\<close>

definition a_code :: "ms option \<Rightarrow> code_row" where
  "a_code consumed = \<lparr>cdHash = ''code'', cdRequestID = ''req_1'', cdClientID = ''client'', cdRedirectURI = ''https://c.example/cb'',
     cdCodeChallenge = ''x'', cdScopes = scope_string {ScopeMessagesRead}, cdResource = ''https://gm.example/mcp'',
     cdAuthorizationID = (if consumed = None then None else Some ''auth_1''), cdConsumedAtMS = consumed, cdExpiresAtMS = 60000,
     cdCreatedAtMS = 500\<rparr>"

definition code_db :: authz_db where "code_db = (zsDB no_credentials)\<lparr>zdCodes := [a_code None]\<rparr>"

definition an_exchange :: CodeExchange where
  "an_exchange = \<lparr>exCodeHash = ''code'', exClientID = ''client'', exSource = [], exVerify = (\<lambda>c. None)\<rparr>"

definition a_grant :: grant where
  "a_grant = \<lparr>grAuthorization = \<lparr>azID = ''auth_1'', azKind = AuthKindOAuth, azClient = Some ''client'',
       azScopes = scope_string {ScopeMessagesRead}, azMintedScopes = scope_string {ScopeMessagesRead}, azSecretGeneration = None,
       azSource = Some ''unknown'', azRevokedAtMS = None, azExpiresAtMS = Some 864001000, azCreatedAtMS = 1000, azUpdatedAtMS = 0\<rparr>,
     grFamilyID = ''fam_1'', grAccess = ''A1'', grRefresh = ''R1'', grAccessExpiry = 3601 * Second, grRefreshExpiry = 86401 * Second\<rparr>"

lemma read_scope_parse: "ParseScopeString (scope_string {ScopeMessagesRead}) = Some {ScopeMessagesRead}"
  by (rule scope_string_roundtrip) (simp add: canonicalOrder_def)

lemma read_exchange_eval:
  "exchange_decide (an_env Second ''A1'' ''R1'') an_exchange code_db = MintGrant (a_code None) a_grant {ScopeMessagesRead}"
  by (simp add: exchange_decide_def Let_def an_exchange_def code_db_def no_credentials_def unlimited AuthorizationCodeByHash_def
      code_consumed_def a_code_def UnixMilli_def grant_plan_def read_scope_parse no_source a_grant_def earlier_def nullInt_def)

lemma commit_exchange_eval:
  "\<exists>sn d. exchange_apply a_service (an_env Second ''A1'' ''R1'') an_exchange (MintGrant (a_code None) a_grant {ScopeMessagesRead}) code_db
     = (Inr sn, d)"
  by (simp add: exchange_apply_def Let_def ConsumeAuthorizationCode_def code_db_def no_credentials_def a_code_def write_grant_def
      CreateAuthorization_def a_grant_def token_pair_def InsertToken_def)

lemma code_run:
  "\<exists>d. authz_run a_service no_credentials (no_credentials\<lparr>zsDB := d, zsExchanged := [(''code'', ''auth_1'')]\<rparr>)"
proof -
  let ?e = "an_env Second ''A1'' ''R1''" and ?m = "MintGrant (a_code None) a_grant {ScopeMessagesRead}"
  let ?s1 = "no_credentials\<lparr>zsDB := code_db\<rparr>"
  let ?s2 = "?s1\<lparr>zsExchanges := [(an_exchange, ?m)]\<rparr>"
  have 1: "authz_step a_service no_credentials ?s1"
    using authz_step.issue_code [of 500 "a_code None" no_credentials code_db a_service]
    by (simp add: CreateAuthorizationCode_def code_db_def no_credentials_def a_code_def)
  have 2: "authz_step a_service ?s1 ?s2"
    using authz_step.read_exchange [of ?e a_service ?s1 an_exchange]
    by (simp add: read_exchange_eval [simplified]) (simp add: no_credentials_def)
  from commit_exchange_eval obtain sn d where "exchange_apply a_service ?e an_exchange ?m code_db = (Inr sn, d)" by blast
  then have 3: "authz_step a_service ?s2 (no_credentials\<lparr>zsDB := d, zsExchanged := [(''code'', ''auth_1'')]\<rparr>)"
    using authz_step.commit_exchange [of ?e an_exchange ?m ?s2 a_service "Inr sn" d]
    by (simp add: exchanged_by_def UnixMilli_def) (simp add: a_code_def a_grant_def no_credentials_def)
  from 1 2 3 show ?thesis by (meson rtranclp.rtrancl_refl rtranclp.rtrancl_into_rtrancl)
qed

theorem replayed_code_ends_the_grant_witness:
  "\<exists>d. fst (exchange_apply a_service (an_env (2 * Second) ''A2'' ''R2'') an_exchange
       (MintGrant (a_code None) a_grant {ScopeMessagesRead}) d) = Inl ErrGrantReplayed"
proof -
  from code_run obtain d where r: "authz_run a_service no_credentials (no_credentials\<lparr>zsDB := d, zsExchanged := [(''code'', ''auth_1'')]\<rparr>)" by blast
  have "tx_now (an_env (2 * Second) ''A2'' ''R2'') \<noteq> 0" by (simp add: UnixMilli_def)
  from replayed_code_ends_the_grant [OF a_service_apart r this, of an_exchange "''auth_1''" "a_code None" a_grant "{ScopeMessagesRead}"]
  show ?thesis by (auto simp: an_exchange_def a_code_def)
qed

theorem widening_refused_free_of_charge_witness:
  "refreshSession a_service (an_env (2 * Second) ''A2'' ''R2'') (Refresh_params ''R1'' [ScopeAdmin] [])
     (minted_db\<lparr>zdAuths := [a_session\<lparr>azScopes := scope_string {ScopeMessagesRead}\<rparr>]\<rparr>) =
   (Inl ErrInvalidScope, minted_db\<lparr>zdAuths := [a_session\<lparr>azScopes := scope_string {ScopeMessagesRead}\<rparr>]\<rparr>)"
proof -
  let ?d = "minted_db\<lparr>zdAuths := [a_session\<lparr>azScopes := scope_string {ScopeMessagesRead}\<rparr>]\<rparr>"
  let ?p = "Refresh_params ''R1'' [ScopeAdmin] []" and ?e = "an_env (2 * Second) ''A2'' ''R2''"
  have "?p\<lparr>rpRequestedScopes := []\<rparr> = a_refresh" by (simp add: a_refresh_def Refresh_params_def)
  moreover have "\<exists>r. refresh_decide a_service ?e a_refresh ?d = Rotate r \<and> roCurrent r = {ScopeMessagesRead}"
    using refresh_token_matches [of TokenKindRefresh "''R1''"]
    by (simp add: refresh_decide_def Let_def db_eval unlimited UnixMilli_def tokenHash_def [symmetric] auth_revoked_def
        rotate_plan_def all_scopes_parse read_scope_parse next_scopes_def) (simp add: a_session_def)
  ultimately obtain r where "refresh_decide a_service ?e (?p\<lparr>rpRequestedScopes := []\<rparr>) ?d = Rotate r" "roCurrent r = {ScopeMessagesRead}"
    by metis
  moreover have "ParseScopes [ScopeAdmin] = Some {ScopeAdmin}"
    using parse_scopes_plain [of "[ScopeAdmin]" "{}"] by (simp add: ParseScopes_def canonicalOrder_def)
  ultimately show ?thesis
    using widening_refused_free_of_charge [of a_service ?e ?p ?d r "{ScopeAdmin}"] by (simp add: Refresh_params_def)
qed

theorem secret_change_ends_exactly_the_others_witness:
  "TokenByHash (hash_refresh ''R2'') (snd (RevokeSupersededAdminSessions (a_service\<lparr>seGeneration := ''other''\<rparr>) 9000 refreshed_db)) =
     Some ((a_token (hash_refresh ''R2'') TokenKindRefresh None 86402000 2000)\<lparr>tkRevokedAtMS := Some 9000\<rparr>)"
proof -
  have "length (secretGeneration short_hash ''secret'') \<noteq> length ''other''"
    by (simp add: secretGeneration_def digest_def short_hash_def hex_encode_def length_concat comp_def sum_list_triv domainSecretGeneraton_def sum_list_replicate)
  then have g: "scanString (azSecretGeneration a_session) \<noteq> ''other''" by (auto simp: a_session_def)
  have t: "TokenByHash (hash_refresh ''R2'') refreshed_db = Some (a_token (hash_refresh ''R2'') TokenKindRefresh None 86402000 2000)"
    by (simp add: db_eval)
  have a: "AuthorizationByID ''auth_1'' refreshed_db = Some a_session" "distinct (map azID (zdAuths refreshed_db))"
    by (simp_all add: db_eval)
  have "superseded ''other'' a_session" using g by (simp add: superseded_def) (simp add: a_session_def)
  with secret_change_ends_exactly_the_others [OF a(2), of "''auth_1''" "a_service\<lparr>seGeneration := ''other''\<rparr>" 9000 "hash_refresh ''R2''"] t a
  show ?thesis by (simp add: a_token_def)
qed

end
