(* ===== verification/Limits_Runs.thy ===== *)
theory Limits_Runs
  imports Limits
begin

text \<open>
  Wrong credentials under load (\<open>internal/authz/limits.go\<close> as \<open>internal/authz/service.go\<close> and
  \<open>internal/authz/oauth.go\<close> use it). \<open>DurableLimiter.Check\<close> reads the row of the source and then the global
  row; the handler examines the credential; \<open>RecordFailure\<close> counts a wrong one at the source and then, in
  another transaction, globally. Nothing is held from one to the next, so any number of handlers can be
  between them. Each read and each transaction is a step here.
\<close>

section \<open>Handlers in flight\<close>

text \<open>\<open>gsReading\<close>: attempts whose source passed and whose global row is still to be read, with the time
  \<open>Check\<close> took at its beginning. \<open>gsOpen\<close>: attempts that passed \<open>Check\<close> and whose credential is being examined.
  \<open>gsOwed\<close>: failures counted at their source and not yet globally. \<open>gsSeen\<close> is the history: when each source's
  wrong credentials were counted. \<open>gsNow\<close> is the clock.\<close>

record guess_state =
  gsNow :: ns
  gsRows :: "attempt_row list"
  gsReading :: "(string \<times> ns) list"
  gsOpen :: "string list"
  gsOwed :: "ns list"
  gsSeen :: "(string \<times> ms) list"

definition no_guesses :: "ns \<Rightarrow> guess_state" where
  "no_guesses now = \<lparr>gsNow = now, gsRows = [], gsReading = [], gsOpen = [], gsOwed = [], gsSeen = []\<rparr>"

text \<open>The two halves of \<open>Check\<close> and the two transactions of \<open>RecordFailure\<close>.\<close>

definition check_source :: "ns \<Rightarrow> DurableLimitSpec \<Rightarrow> string \<Rightarrow> attempt_row list \<Rightarrow> rate_limited option" where
  "check_source at spec source rows = check_keys at spec [source] rows"

definition check_global :: "ns \<Rightarrow> DurableLimitSpec \<Rightarrow> attempt_row list \<Rightarrow> rate_limited option" where
  "check_global at spec rows = check_keys at spec (if 0 < dlGlobal spec then [AttemptGlobalSource] else []) rows"

definition count_source :: "ns \<Rightarrow> ms \<Rightarrow> DurableLimitSpec \<Rightarrow> string \<Rightarrow> attempt_row list \<Rightarrow> Attempt \<times> attempt_row list" where
  "count_source now txNow spec source rows =
     UpdateAttempt txNow (dlKind spec) source (\<lambda>a. advanceAttempt a now spec (dlPerSource spec)) rows"

definition count_global :: "ns \<Rightarrow> ms \<Rightarrow> DurableLimitSpec \<Rightarrow> attempt_row list \<Rightarrow> attempt_row list" where
  "count_global now txNow spec rows =
     snd (UpdateAttempt txNow (dlKind spec) AttemptGlobalSource (\<lambda>a. advanceAttempt a now spec (dlGlobal spec)) rows)"

lemma Check_halves:
  "Check at spec source rows =
    (case check_source at spec source rows of None \<Rightarrow> check_global at spec rows | Some e \<Rightarrow> Some e)"
  by (simp add: Check_def check_source_def check_global_def split: option.split)

lemma RecordFailure_halves:
  "RecordFailure now tx spec source rows =
    (let (out, rows1) = count_source now tx spec source rows
     in (out, if 0 < dlGlobal spec then count_global now tx spec rows1 else rows1))"
  by (simp add: RecordFailure_def count_source_def count_global_def split: prod.split)

inductive guess_step :: "DurableLimitSpec \<Rightarrow> guess_state \<Rightarrow> guess_state \<Rightarrow> bool" for spec where
  tick: "gsNow g \<le> t \<Longrightarrow> guess_step spec g (g\<lparr>gsNow := t\<rparr>)"
| source_read: "at \<le> gsNow g \<Longrightarrow> source \<noteq> AttemptGlobalSource \<Longrightarrow> check_source at spec source (gsRows g) = None \<Longrightarrow>
    guess_step spec g (g\<lparr>gsReading := gsReading g @ [(source, at)]\<rparr>)"
| global_read: "(source, at) \<in> set (gsReading g) \<Longrightarrow> check_global at spec (gsRows g) = None \<Longrightarrow>
    guess_step spec g (g\<lparr>gsReading := remove1 (source, at) (gsReading g), gsOpen := gsOpen g @ [source]\<rparr>)"
| global_refused: "(source, at) \<in> set (gsReading g) \<Longrightarrow> check_global at spec (gsRows g) \<noteq> None \<Longrightarrow>
    guess_step spec g (g\<lparr>gsReading := remove1 (source, at) (gsReading g)\<rparr>)"
| right: "source \<in> set (gsOpen g) \<Longrightarrow> guess_step spec g (g\<lparr>gsOpen := remove1 source (gsOpen g)\<rparr>)"
| wrong: "source \<in> set (gsOpen g) \<Longrightarrow>
    guess_step spec g (g\<lparr>gsOpen := remove1 source (gsOpen g),
      gsRows := snd (count_source (gsNow g) tx spec source (gsRows g)),
      gsOwed := (if 0 < dlGlobal spec then gsOwed g @ [gsNow g] else gsOwed g),
      gsSeen := gsSeen g @ [(source, UnixMilli (gsNow g))]\<rparr>)"
| counted_globally: "t \<in> set (gsOwed g) \<Longrightarrow>
    guess_step spec g (g\<lparr>gsOwed := remove1 t (gsOwed g), gsRows := count_global t tx spec (gsRows g)\<rparr>)"
| restart: "guess_step spec g (g\<lparr>gsReading := [], gsOpen := [], gsOwed := []\<rparr>)"

text \<open>The attempts of one source between \<open>Check\<close> and \<open>RecordFailure\<close>, and the runs in which there are never
  more than m of them.\<close>

definition open_guesses :: "string \<Rightarrow> guess_state \<Rightarrow> nat" where
  "open_guesses source g = count_list (map fst (gsReading g)) source + count_list (gsOpen g) source"

inductive guess_run :: "DurableLimitSpec \<Rightarrow> nat \<Rightarrow> guess_state \<Rightarrow> bool" for spec m where
  start: "Millisecond \<le> now \<Longrightarrow> guess_run spec m (no_guesses now)"
| step: "guess_run spec m g \<Longrightarrow> guess_step spec g g' \<Longrightarrow> (\<And>s. open_guesses s g' \<le> m) \<Longrightarrow> guess_run spec m g'"

definition examined :: "string \<Rightarrow> guess_state \<Rightarrow> ms list" where
  "examined source g = map snd (filter (\<lambda>p. fst p = source) (gsSeen g))"

section \<open>Counting in a window\<close>

definition quarter_hour :: "DurableLimitSpec \<Rightarrow> bool" where
  "quarter_hour spec \<longleftrightarrow> dlWindow spec = 15 * Minute \<and> dlBaseCooldown spec = Minute \<and> dlMaxCooldown spec = 24 * Hour"

lemma quarter_hour_limits:
  "quarter_hour LimitAdminSecret" "quarter_hour LimitRefreshToken" "quarter_hour LimitOAuthToken"
  by (simp_all add: quarter_hour_def LimitAdminSecret_def LimitRefreshToken_def LimitOAuthToken_def)

definition within :: "ms \<Rightarrow> ms \<Rightarrow> ms list \<Rightarrow> nat" where
  "within from until ts = length (filter (\<lambda>t. from \<le> t \<and> t < until) ts)"

abbreviation window_ms :: ms where "window_ms \<equiv> 900000"

lemma within_append: "within x y (ts @ us) = within x y ts + within x y us"
  by (simp add: within_def)

lemma within_one: "within x y [t] = (if x \<le> t \<and> t < y then 1 else 0)"
  by (simp add: within_def)

lemma within_mono: "x' \<le> x \<Longrightarrow> y \<le> y' \<Longrightarrow> within x y ts \<le> within x' y' ts"
  unfolding within_def by (induction ts) auto

lemma within_all: "within x y ts \<le> length (filter (\<lambda>t. x \<le> t) ts)"
  unfolding within_def by (induction ts) auto

lemma within_split: "within x z ts \<le> within x y ts + length (filter (\<lambda>t. y \<le> t) ts)"
  unfolding within_def by (induction ts) auto

text \<open>From the fifth step on a cooldown is longer than the window.\<close>

lemma long_cooldown:
  assumes "quarter_hour spec" "5 \<le> k"
  shows "window_ms < cooldownFor spec k div Millisecond"
proof -
  have e: "cooldownFor spec k = min (24 * Hour) (Minute * 2 ^ nat (k - 1))"
    using cooldownFor_exact [of spec k] assms(1) by (simp add: quarter_hour_def)
  have "4 \<le> nat (k - 1)" using assms(2) by simp
  then have "(2 :: int) ^ 4 \<le> 2 ^ nat (k - 1)" by (rule power_increasing) simp
  then have "16 * Minute \<le> cooldownFor spec k" unfolding e by simp
  then have "16 * Minute div Millisecond \<le> cooldownFor spec k div Millisecond" by (rule zdiv_mono1) simp
  then show ?thesis by simp
qed

definition blank_attempt :: "string \<Rightarrow> string \<Rightarrow> Attempt" where
  "blank_attempt k s = \<lparr>atKind = k, atSource = s, atWindowStartMS = 0, atFailures = 0, atCooldownSteps = 0,
     atCooldownUntilMS = 0, atUpdatedAtMS = 0\<rparr>"

lemma attemptTx_blank:
  "attemptTx k s rows = (case AttemptRow k s rows of None \<Rightarrow> blank_attempt k s | Some a \<Rightarrow> a)"
  by (simp add: attemptTx_def blank_attempt_def split: option.split)

lemma advance_window:
  assumes "dlWindow spec = 15 * Minute" and "reset = (atWindowStartMS a = 0 \<or> window_ms \<le> UnixMilli now - atWindowStartMS a)"
  shows "atWindowStartMS (advanceAttempt a now spec limit) = (if reset then UnixMilli now else atWindowStartMS a)"
    and "atFailures (advanceAttempt a now spec limit) = (if reset then 1 else atFailures a + 1)"
proof -
  have "dlWindow spec \<le> now - atWindowStartMS a * Millisecond \<longleftrightarrow> window_ms \<le> UnixMilli now - atWindowStartMS a"
    using assms(1) by (auto simp: UnixMilli_def)
  then show "atWindowStartMS (advanceAttempt a now spec limit) = (if reset then UnixMilli now else atWindowStartMS a)"
    "atFailures (advanceAttempt a now spec limit) = (if reset then 1 else atFailures a + 1)"
    unfolding assms(2) by (auto simp: advanceAttempt_def Let_def)
qed

text \<open>The row escalates: its steps are at least the failures past the limit, and once four failures came past
  the limit its cooldown outlasts the window. A source that gets there lets nobody in for the rest of it.\<close>

definition escalates :: "int \<Rightarrow> Attempt \<Rightarrow> bool" where
  "escalates limit a \<longleftrightarrow> 0 \<le> atCooldownSteps a \<and> atFailures a - limit + 1 \<le> atCooldownSteps a \<and>
     (limit + 4 \<le> atFailures a \<longrightarrow> atWindowStartMS a + window_ms \<le> atCooldownUntilMS a)"

lemma advance_escalates:
  assumes "quarter_hour spec" "1 \<le> limit" "escalates limit a" "atWindowStartMS a \<le> UnixMilli now"
  shows "escalates limit (advanceAttempt a now spec limit)"
proof -
  let ?a = "advanceAttempt a now spec limit" and ?t = "UnixMilli now"
  have win: "dlWindow spec = 15 * Minute" using assms(1) by (simp add: quarter_hour_def)
  note adv = advance_window [OF win refl, of a now limit]
  have start: "atWindowStartMS ?a \<le> ?t" using adv(1) assms(4) by (simp split: if_splits)
  show ?thesis
  proof (cases "limit \<le> atFailures ?a")
    case True
    then have k: "atCooldownUntilMS ?a = ?t + cooldownFor spec (atCooldownSteps ?a) div Millisecond"
      using assms(2) by (auto simp: advanceAttempt_def Let_def split: if_splits)
    have steps: "0 \<le> atCooldownSteps ?a \<and> atFailures ?a - limit + 1 \<le> atCooldownSteps ?a"
      using assms(2,3) by (auto simp: escalates_def advanceAttempt_def Let_def)
    have "window_ms \<le> cooldownFor spec (atCooldownSteps ?a) div Millisecond" if "limit + 4 \<le> atFailures ?a"
      using long_cooldown [OF assms(1), of "atCooldownSteps ?a"] steps that by simp
    then show ?thesis using steps start k unfolding escalates_def by (metis add_mono)
  next
    case False
    then show ?thesis using assms(2,3) by (auto simp: escalates_def advanceAttempt_def Let_def)
  qed
qed

section \<open>The invariant of one source\<close>

definition tally :: "int \<Rightarrow> int \<Rightarrow> ms \<Rightarrow> int \<Rightarrow> Attempt option \<Rightarrow> ms list \<Rightarrow> bool" where
  "tally limit most now inflight row ts \<longleftrightarrow> (\<forall>t \<in> set ts. t \<le> now) \<and> (\<forall>T. int (within T (T + window_ms) ts) \<le> 2 * most) \<and>
     (case row of
        None \<Rightarrow> ts = []
      | Some a \<Rightarrow> escalates limit a \<and> 0 < atWindowStartMS a \<and> atWindowStartMS a \<le> now \<and>
          (\<forall>t \<in> set ts. t < atWindowStartMS a + window_ms) \<and>
          int (length (filter (\<lambda>t. atWindowStartMS a \<le> t) ts)) = atFailures a \<and> atFailures a \<le> most \<and>
          (now < atWindowStartMS a + window_ms \<and> limit + 4 \<le> atFailures a \<longrightarrow> atFailures a + inflight \<le> most) \<and>
          int (within (atWindowStartMS a - window_ms + 1) (atWindowStartMS a) ts) \<le> most)"

lemma tally_fields [simp]:
  "tally limit most now i (Some (a\<lparr>atKind := k, atSource := s, atUpdatedAtMS := u\<rparr>)) ts = tally limit most now i (Some a) ts"
  by (simp add: tally_def escalates_def)

lemma tally_later:
  "tally limit most old i row ts \<Longrightarrow> old \<le> now \<Longrightarrow> j \<le> i \<Longrightarrow> tally limit most now j row ts"
  by (fastforce simp: tally_def split: option.splits)

lemma tally_first:
  assumes "quarter_hour spec" "1 \<le> limit" "0 < UnixMilli now" "limit + 4 \<le> most"
  shows "tally limit most (UnixMilli now) i (Some (advanceAttempt (blank_attempt k s) now spec limit)) [UnixMilli now]"
proof -
  have "escalates limit (blank_attempt k s)" using assms(2) by (simp add: escalates_def blank_attempt_def)
  then have "escalates limit (advanceAttempt (blank_attempt k s) now spec limit)"
    using assms(3) by (intro advance_escalates [OF assms(1,2)]) (simp_all add: blank_attempt_def)
  moreover have "atWindowStartMS (advanceAttempt (blank_attempt k s) now spec limit) = UnixMilli now"
      "atFailures (advanceAttempt (blank_attempt k s) now spec limit) = 1"
    by (simp_all add: advanceAttempt_def Let_def blank_attempt_def)
  ultimately show ?thesis using assms(2-4) by (simp add: tally_def within_one)
qed

lemma tally_next:
  assumes "quarter_hour spec" "1 \<le> limit" "tally limit most (UnixMilli now) i (Some a) ts" "1 \<le> i" "limit + 3 + i \<le> most"
  shows "tally limit most (UnixMilli now) (i - 1) (Some (advanceAttempt a now spec limit)) (ts @ [UnixMilli now])"
proof -
  let ?t = "UnixMilli now" and ?a = "advanceAttempt a now spec limit" and ?w = "atWindowStartMS a"
  have w: "0 < ?w" "?w \<le> ?t" "\<forall>t \<in> set ts. t \<le> ?t" "\<forall>t \<in> set ts. t < ?w + window_ms" "escalates limit a" "atFailures a \<le> most"
    using assms(3) by (simp_all add: tally_def)
  have win: "dlWindow spec = 15 * Minute" using assms(1) by (simp add: quarter_hour_def)
  define reset where "reset = (window_ms \<le> ?t - ?w)"
  have adv: "atWindowStartMS ?a = (if reset then ?t else ?w)" "atFailures ?a = (if reset then 1 else atFailures a + 1)"
    using advance_window [OF win refl, of a now limit] w(1) by (simp_all add: reset_def)
  have e: "escalates limit ?a" by (rule advance_escalates [OF assms(1,2) w(5,2)])
  have since: "int (length (filter (\<lambda>t. ?w \<le> t) ts)) = atFailures a" using assms(3) by (simp add: tally_def)
  have before: "int (within (atWindowStartMS ?a - window_ms + 1) (atWindowStartMS ?a) ts) \<le> most"
  proof (cases reset)
    case True
    have "within (?t - window_ms + 1) ?t ts \<le> within ?w ?t ts"
      using True by (intro within_mono) (auto simp: reset_def)
    also have "\<dots> \<le> length (filter (\<lambda>t. ?w \<le> t) ts)" by (rule within_all)
    finally show ?thesis using since adv(1) w(6) True by simp
  next
    case False
    then show ?thesis using assms(3) adv(1) by (simp add: tally_def)
  qed
  have count: "int (length (filter (\<lambda>t. atWindowStartMS ?a \<le> t) (ts @ [?t]))) = atFailures ?a"
  proof (cases reset)
    case True
    have "\<not> ?t \<le> t" if "t \<in> set ts" for t using that True w(4) by (auto simp: reset_def)
    then have "filter (\<lambda>t. ?t \<le> t) ts = []" by (simp add: filter_empty_conv)
    then show ?thesis using adv True by simp
  next
    case False
    then show ?thesis using adv since w(2) by simp
  qed
  have room: "?t < atWindowStartMS ?a + window_ms \<and> limit + 4 \<le> atFailures ?a \<longrightarrow> atFailures ?a + (i - 1) \<le> most"
  proof (cases reset)
    case False
    then have t: "?t < ?w + window_ms" by (simp add: reset_def)
    show ?thesis
    proof (cases "limit + 4 \<le> atFailures a")
      case True
      then have "atFailures a + i \<le> most" using assms(3) t by (simp add: tally_def)
      then show ?thesis using adv False by simp
    next
      case under: False
      then show ?thesis using adv False assms(5) by simp
    qed
  qed (use adv assms(2) in simp)
  have f: "atFailures ?a \<le> most"
  proof (cases "limit + 4 \<le> atFailures ?a \<and> \<not> reset")
    case True
    then have "?t < atWindowStartMS ?a + window_ms" using adv by (simp add: reset_def)
    then show ?thesis using room True assms(4) by simp
  next
    case False
    then show ?thesis using adv assms(2,4,5) by auto
  qed
  have any: "int (within T (T + window_ms) (ts @ [?t])) \<le> 2 * most" for T
  proof (cases "T \<le> ?t \<and> ?t < T + window_ms")
    case True
    let ?v = "atWindowStartMS ?a"
    have v: "?v \<le> ?t" using adv w(2) by simp
    have "within T (T + window_ms) (ts @ [?t]) \<le> within (?v - window_ms + 1) (T + window_ms) (ts @ [?t])"
      using True v by (intro within_mono) auto
    also have "\<dots> \<le> within (?v - window_ms + 1) ?v (ts @ [?t]) + length (filter (\<lambda>t. ?v \<le> t) (ts @ [?t]))"
      by (rule within_split)
    finally show ?thesis using before count v f by (simp add: within_append within_one)
  next
    case False
    then have "within T (T + window_ms) (ts @ [?t]) = within T (T + window_ms) ts"
      by (simp only: within_append within_one if_False add_0_right)
    then show ?thesis using assms(3) by (simp add: tally_def)
  qed
  have "0 < atWindowStartMS ?a" "atWindowStartMS ?a \<le> ?t" "\<forall>t \<in> set (ts @ [?t]). t < atWindowStartMS ?a + window_ms"
    using adv(1) w by (auto simp: ball_Un reset_def)
  moreover have "\<forall>t \<in> set (ts @ [?t]). t \<le> ?t" using w(3) by auto
  moreover have "int (within (atWindowStartMS ?a - window_ms + 1) (atWindowStartMS ?a) (ts @ [?t])) \<le> most"
    using before adv w(2) by (simp add: within_append within_one)
  ultimately show ?thesis using e f room count any by (simp only: tally_def option.case simp_thms)
qed

text \<open>A source that is let in while its row says that the window is used up is let in after the window.\<close>

lemma tally_let_in:
  assumes "tally limit most (UnixMilli now) i row ts" "at \<le> now"
    and "\<forall>a. row = Some a \<longrightarrow> atCooldownUntilMS a = 0 \<or> atCooldownUntilMS a * Millisecond \<le> at"
  shows "tally limit most (UnixMilli now) j row ts"
proof (cases row)
  case (Some a)
  have "\<not> (UnixMilli now < atWindowStartMS a + window_ms \<and> limit + 4 \<le> atFailures a)"
  proof
    assume *: "UnixMilli now < atWindowStartMS a + window_ms \<and> limit + 4 \<le> atFailures a"
    then have "atWindowStartMS a + window_ms \<le> atCooldownUntilMS a" "0 < atWindowStartMS a"
      using assms(1) Some by (simp_all add: tally_def escalates_def)
    then have "atCooldownUntilMS a * Millisecond \<le> at" using assms(3) Some by auto
    then have "atCooldownUntilMS a * Millisecond \<le> now" using assms(2) by (rule order_trans)
    then have "atCooldownUntilMS a \<le> UnixMilli now" by (simp add: UnixMilli_def)
    with * \<open>atWindowStartMS a + window_ms \<le> atCooldownUntilMS a\<close> show False by simp
  qed
  then show ?thesis using assms(1) Some by (auto simp: tally_def)
qed (use assms(1) in \<open>auto simp: tally_def\<close>)

section \<open>Every run\<close>

definition tallied :: "DurableLimitSpec \<Rightarrow> nat \<Rightarrow> guess_state \<Rightarrow> bool" where
  "tallied spec m g \<longleftrightarrow> 0 < UnixMilli (gsNow g) \<and> (\<forall>s. s \<noteq> AttemptGlobalSource \<longrightarrow> open_guesses s g \<le> m \<and>
     tally (dlPerSource spec) (dlPerSource spec + 3 + int m) (UnixMilli (gsNow g)) (int (open_guesses s g))
       (AttemptRow (dlKind spec) s (gsRows g)) (examined s g))"

lemma UnixMilli_mono: "t \<le> t' \<Longrightarrow> UnixMilli t \<le> UnixMilli t'"
  by (simp add: UnixMilli_def zdiv_mono1)

lemma AttemptRow_count_source:
  "AttemptRow (dlKind spec) s (snd (count_source now tx spec source rows)) =
    (if s = source
     then Some ((advanceAttempt (attemptTx (dlKind spec) source rows) now spec (dlPerSource spec))
       \<lparr>atKind := dlKind spec, atSource := source, atUpdatedAtMS := tx\<rparr>)
     else AttemptRow (dlKind spec) s rows)"
  by (simp add: count_source_def UpdateAttempt_def Let_def AttemptRow_put)

lemma AttemptRow_count_global:
  "s \<noteq> AttemptGlobalSource \<Longrightarrow> AttemptRow (dlKind spec) s (count_global t tx spec rows) = AttemptRow (dlKind spec) s rows"
  by (simp add: count_global_def UpdateAttempt_def Let_def AttemptRow_put)

lemma check_source_passes:
  "check_source at spec source rows = None \<Longrightarrow> AttemptRow (dlKind spec) source rows = Some a \<Longrightarrow>
    atCooldownUntilMS a = 0 \<or> atCooldownUntilMS a * Millisecond \<le> at"
  by (auto simp: check_source_def split: if_splits)

lemma count_list_remove1: "count_list (remove1 x xs) y = count_list xs y - (if x = y then 1 else 0)"
  by (induction xs) (auto simp: Suc_diff_le count_list_0_iff)

lemma count_map_remove1:
  "(s, t) \<in> set xs \<Longrightarrow> count_list (map fst (remove1 (s, t) xs)) y = count_list (map fst xs) y - (if s = y then 1 else 0)"
proof (induction xs)
  case (Cons x xs)
  have "0 < count_list (map fst xs) s" if "(s, t) \<in> set xs"
    using that by (metis count_list_0_iff fst_conv image_eqI list.set_map not_gr_zero)
  with Cons show ?case by (cases x) (auto simp: Suc_diff_le)
qed simp

lemma tallied_step:
  assumes "quarter_hour spec" "1 \<le> dlPerSource spec" "tallied spec m g" "guess_step spec g g'"
    and "\<And>s. open_guesses s g' \<le> m"
  shows "tallied spec m g'"
proof -
  let ?tally = "\<lambda>g s. tally (dlPerSource spec) (dlPerSource spec + 3 + int m) (UnixMilli (gsNow g)) (int (open_guesses s g))
       (AttemptRow (dlKind spec) s (gsRows g)) (examined s g)"
  have old: "0 < UnixMilli (gsNow g)" "\<And>s. s \<noteq> AttemptGlobalSource \<Longrightarrow> ?tally g s"
    using assms(3) by (simp_all add: tallied_def)
  have quiet: "?tally g' s" if "s \<noteq> AttemptGlobalSource" "gsNow g \<le> gsNow g'" "open_guesses s g' \<le> open_guesses s g"
      "AttemptRow (dlKind spec) s (gsRows g') = AttemptRow (dlKind spec) s (gsRows g)" "examined s g' = examined s g" for s
    using tally_later [OF old(2) [OF that(1)] UnixMilli_mono [OF that(2)]] that(3-5) by simp
  from assms(4) have "0 < UnixMilli (gsNow g') \<and> (\<forall>s. s \<noteq> AttemptGlobalSource \<longrightarrow> ?tally g' s)"
  proof cases
    case (tick t)
    then have "0 < UnixMilli (gsNow g')" using UnixMilli_mono [of "gsNow g" t] old(1) by simp
    moreover have "?tally g' s" if "s \<noteq> AttemptGlobalSource" for s
      by (rule quiet [OF that]) (use tick in \<open>simp_all add: open_guesses_def examined_def\<close>)
    ultimately show ?thesis by blast
  next
    case (source_read at source)
    have "?tally g' s" if "s \<noteq> AttemptGlobalSource" for s
    proof (cases "s = source")
      case True
      have "?tally (g\<lparr>gsReading := gsReading g @ [(source, at)]\<rparr>) source"
        using tally_let_in [OF old(2) [OF source_read(3)] source_read(2)] check_source_passes [OF source_read(4)]
        by (auto simp: examined_def)
      then show ?thesis using True source_read(1) by simp
    next
      case False
      then show ?thesis by (intro quiet [OF that]) (use source_read in \<open>simp_all add: open_guesses_def examined_def\<close>)
    qed
    then show ?thesis using old(1) source_read(1) by simp
  next
    case (global_read source at)
    have "?tally g' s" if "s \<noteq> AttemptGlobalSource" for s
    proof (rule quiet [OF that])
      have "0 < count_list (map fst (gsReading g)) source"
        using global_read(2) by (metis count_list_0_iff fst_conv image_eqI list.set_map not_gr_zero)
      then show "open_guesses s g' \<le> open_guesses s g"
        using count_map_remove1 [OF global_read(2), of s] global_read(1) by (auto simp: open_guesses_def)
    qed (use global_read in \<open>simp_all add: examined_def\<close>)
    then show ?thesis using old(1) global_read(1) by simp
  next
    case (global_refused source at)
    have "?tally g' s" if "s \<noteq> AttemptGlobalSource" for s
      by (rule quiet [OF that])
        (use global_refused count_map_remove1 [OF global_refused(2), of s] in \<open>simp_all add: open_guesses_def examined_def\<close>)
    then show ?thesis using old(1) global_refused(1) by simp
  next
    case (right source)
    have "?tally g' s" if "s \<noteq> AttemptGlobalSource" for s
      by (rule quiet [OF that]) (use right in \<open>simp_all add: open_guesses_def examined_def count_list_remove1\<close>)
    then show ?thesis using old(1) right(1) by simp
  next
    case (wrong source tx)
    have some: "0 < count_list (gsOpen g) source" using wrong(2) count_list_0_iff by fastforce
    have "?tally g' s" if s: "s \<noteq> AttemptGlobalSource" for s
    proof (cases "s = source")
      case False
      then show ?thesis
        by (intro quiet [OF s]) (use wrong in \<open>simp_all add: open_guesses_def examined_def count_list_remove1 AttemptRow_count_source\<close>)
    next
      case True
      let ?t = "UnixMilli (gsNow g)"
      have n: "int (open_guesses source g') = int (open_guesses source g) - 1" "1 \<le> int (open_guesses source g)"
        using some wrong(1) by (simp_all add: open_guesses_def count_list_remove1)
      have m: "int (open_guesses source g) \<le> int m" using assms(3) s True by (simp add: tallied_def)
      have "tally (dlPerSource spec) (dlPerSource spec + 3 + int m) ?t (int (open_guesses source g) - 1)
          (Some (advanceAttempt (attemptTx (dlKind spec) source (gsRows g)) (gsNow g) spec (dlPerSource spec))) (examined source g @ [?t])"
      proof (cases "AttemptRow (dlKind spec) source (gsRows g)")
        case None
        then have "examined source g = []" using old(2) [OF s] True by (simp add: tally_def)
        then show ?thesis using tally_first [OF assms(1,2) old(1)] n m None by (simp add: attemptTx_blank)
      next
        case (Some a)
        then show ?thesis
          using tally_next [OF assms(1,2), of "dlPerSource spec + 3 + int m" "gsNow g" "int (open_guesses source g)" a] old(2) [OF s] True n m
          by (simp add: attemptTx_blank)
      qed
      moreover have "examined source g' = examined source g @ [?t]" "gsNow g' = gsNow g" using wrong(1) by (simp_all add: examined_def)
      ultimately show ?thesis using True wrong(1) n(1) by (simp add: AttemptRow_count_source)
    qed
    then show ?thesis using old(1) wrong(1) by simp
  next
    case (counted_globally t tx)
    have "?tally g' s" if "s \<noteq> AttemptGlobalSource" for s
      by (rule quiet [OF that]) (use counted_globally that in \<open>simp_all add: open_guesses_def examined_def AttemptRow_count_global\<close>)
    then show ?thesis using old(1) counted_globally(1) by simp
  next
    case restart
    have "?tally g' s" if "s \<noteq> AttemptGlobalSource" for s
      by (rule quiet [OF that]) (use restart in \<open>simp_all add: open_guesses_def examined_def\<close>)
    then show ?thesis using old(1) restart by simp
  qed
  with assms(5) show ?thesis by (simp add: tallied_def)
qed

lemma tallied_run:
  assumes "quarter_hour spec" "1 \<le> dlPerSource spec"
  shows "guess_run spec m g \<Longrightarrow> tallied spec m g"
proof (induction rule: guess_run.induct)
  case (start now)
  then have "0 < UnixMilli now" using UnixMilli_mono [of Millisecond now] by (simp add: UnixMilli_def)
  then show ?case using assms(2)
    by (simp add: tallied_def no_guesses_def tally_def AttemptRow_def examined_def within_def open_guesses_def)
next
  case (step g g')
  then show ?case by (intro tallied_step [OF assms, of m g g']) auto
qed

text \<open>C20: Guessing a credential is slow, also when handlers overlap. Checking the limiter and counting the
  failure are separate steps, and however the attempts of all sources interleave, in whatever order they
  finish and however often the server restarts: if no source ever has more than m attempts between its check
  and its count, no source has more than twice its limit plus six plus twice m wrong credentials examined in
  any fifteen minutes. It holds for the three limits of the source, with failures stamped in the order in
  which they are counted and every wrong credential counted.\<close>

theorem wrong_credentials_bounded:
  assumes "quarter_hour spec" "1 \<le> dlPerSource spec" "guess_run spec m g" "source \<noteq> AttemptGlobalSource"
  shows "int (within T (T + 900000) (examined source g)) \<le> 2 * (dlPerSource spec + 3 + int m)"
  using tallied_run [OF assms(1-3)] assms(4) by (simp add: tallied_def tally_def)

section \<open>The bound grows with the overlap\<close>

lemma count_list_replicate: "count_list (replicate k x) y = (if x = y then k else 0)"
  by (induction k) auto

lemma open_guesses_fields [simp]:
  "open_guesses s (g\<lparr>gsRows := r, gsOwed := w, gsSeen := l\<rparr>) = open_guesses s g"
  by (simp add: open_guesses_def)

definition crowd :: "ns \<Rightarrow> string \<Rightarrow> nat \<Rightarrow> guess_state" where
  "crowd now source k = (no_guesses now)\<lparr>gsOpen := replicate k source\<rparr>"

lemma crowd_gathers:
  assumes "Millisecond \<le> now" "source \<noteq> AttemptGlobalSource"
  shows "k \<le> n \<Longrightarrow> guess_run spec n (crowd now source k)"
proof (induction k)
  case 0
  then show ?case using guess_run.start [OF assms(1)] by (simp add: crowd_def no_guesses_def)
next
  case (Suc k)
  let ?g = "crowd now source k" and ?g' = "(crowd now source k)\<lparr>gsReading := [(source, now)]\<rparr>"
  have "guess_step spec ?g (?g\<lparr>gsReading := gsReading ?g @ [(source, now)]\<rparr>)"
    by (rule guess_step.source_read)
      (simp_all add: crowd_def no_guesses_def assms(2) check_source_def AttemptRow_def)
  then have 1: "guess_step spec ?g ?g'" by (simp add: crowd_def no_guesses_def)
  have "guess_step spec ?g' (?g'\<lparr>gsReading := remove1 (source, now) (gsReading ?g'), gsOpen := gsOpen ?g' @ [source]\<rparr>)"
    by (rule guess_step.global_read) (simp_all add: crowd_def no_guesses_def check_global_def AttemptRow_def)
  then have 2: "guess_step spec ?g' (crowd now source (Suc k))"
    by (simp add: crowd_def no_guesses_def replicate_append_same [symmetric])
  have "guess_run spec n ?g'"
    using Suc.prems by (intro guess_run.step [OF Suc.IH 1])
      (auto simp: open_guesses_def crowd_def no_guesses_def count_list_replicate)
  then show ?case
    using Suc.prems by (intro guess_run.step [OF _ 2])
      (auto simp: open_guesses_def crowd_def no_guesses_def count_list_replicate)
qed

lemma crowd_examined:
  assumes "guess_run spec n g" "gsOpen g = replicate k source" "k \<le> n" "gsReading g = []"
  shows "\<exists>g'. guess_run spec n g' \<and> gsOpen g' = [] \<and>
    gsSeen g' = gsSeen g @ replicate k (source, UnixMilli (gsNow g)) \<and> gsNow g' = gsNow g"
  using assms
proof (induction k arbitrary: g)
  case (Suc k)
  let ?g = "g\<lparr>gsOpen := remove1 source (gsOpen g),
      gsRows := snd (count_source (gsNow g) 0 spec source (gsRows g)),
      gsOwed := (if 0 < dlGlobal spec then gsOwed g @ [gsNow g] else gsOwed g),
      gsSeen := gsSeen g @ [(source, UnixMilli (gsNow g))]\<rparr>"
  have "guess_step spec g ?g" using Suc.prems(2) by (intro guess_step.wrong) simp
  then have "guess_run spec n ?g"
    using Suc.prems by (intro guess_run.step [OF Suc.prems(1)])
      (auto simp: open_guesses_def count_list_replicate)
  from Suc.IH [OF this] Suc.prems show ?case by auto
qed auto

text \<open>The limit itself does not bound a burst. Any number of attempts that are checked before the first of them is
  counted are all examined, in the same millisecond, on an empty table and under any limit.\<close>

theorem overlapping_guesses_all_examined:
  assumes "Millisecond \<le> now" "source \<noteq> AttemptGlobalSource"
  shows "\<exists>g. guess_run spec n g \<and> examined source g = replicate n (UnixMilli now)"
proof -
  obtain g where "guess_run spec n g" "gsSeen g = replicate n (source, UnixMilli now)"
    using crowd_examined [OF crowd_gathers [OF assms order_refl], of _ n source] by (auto simp: crowd_def no_guesses_def)
  then show ?thesis by (auto simp: examined_def)
qed

theorem overlapping_guesses_all_examined_witness:
  "\<exists>g. guess_run LimitAdminSecret 1000 g \<and> examined ''192.0.2.1'' g = replicate 1000 1000"
  using overlapping_guesses_all_examined [of Second "''192.0.2.1''" LimitAdminSecret 1000] by (simp add: UnixMilli_def)

theorem wrong_credentials_bounded_witness:
  "\<exists>g. guess_run LimitAdminSecret 8 g \<and> within 0 900000 (examined ''192.0.2.1'' g) = 8 \<and>
     int (within 0 900000 (examined ''192.0.2.1'' g)) \<le> 32"
proof -
  obtain g where g: "guess_run LimitAdminSecret 8 g" "gsSeen g = replicate 8 (''192.0.2.1'', 1000)"
    using crowd_examined [OF crowd_gathers [of Second "''192.0.2.1''" 8 8 LimitAdminSecret], of 8 "''192.0.2.1''"]
    by (auto simp: crowd_def no_guesses_def UnixMilli_def)
  have "int (within 0 900000 (examined ''192.0.2.1'' g)) \<le> 32"
    using wrong_credentials_bounded [OF quarter_hour_limits(1) _ g(1), of "''192.0.2.1''" 0] by (simp add: LimitAdminSecret_def)
  with g show ?thesis by (auto simp: examined_def within_def)
qed

end
