(* ===== verification/Oauth_Store.thy ===== *)
theory Oauth_Store
  imports Authz Codec "HOL-Library.Product_Lexorder"
begin

text \<open>
  The protocol tables of the OAuth server (\<open>internal/store/oauth.go\<close>): registered clients, enrollment codes
  and authorization requests, on top of the credential tables. Deleting a client deletes its requests, and
  deleting a request deletes its codes, as the foreign keys of migration 6 say. A client's metadata text is
  left out; its redirect list is the list the JSON column holds.
\<close>

section \<open>Rows\<close>

record client_row =
  ocID :: string
  ocName :: "string option"
  ocRedirectURIs :: "string list"
  ocGrantTypes :: "string list"
  ocResponseTypes :: "string list"
  ocSource :: "string option"
  ocActivatedAtMS :: "ms option"
  ocExpiresAtMS :: "ms option"
  ocCreatedAtMS :: ms
  ocStatic :: bool
  ocDefaultResource :: bool

record enroll_row =
  enID :: string
  enCodeHash :: string
  enLabel :: string
  enScopes :: string
  enExpiresAtMS :: ms
  enConsumedAtMS :: "ms option"
  enConsumedBy :: "string option"
  enRevokedAtMS :: "ms option"
  enRevokedReason :: "string option"
  enCreatedAtMS :: ms
  enUpdatedAtMS :: ms

record request_row =
  rqID :: string
  rqClientID :: string
  rqRedirectURI :: string
  rqState :: string
  rqCodeChallenge :: string
  rqCodeChallengeMethod :: string
  rqResource :: string
  rqRequestedScopes :: string
  rqSelectedScopes :: string
  rqGrantedScopes :: "string option"
  rqEnrollmentCodeID :: "string option"
  rqStatus :: string
  rqDenyReason :: "string option"
  rqHandleHash :: string
  rqFormTokenHash :: string
  rqSource :: "string option"
  rqExpiresAtMS :: ms
  rqDecidedAtMS :: "ms option"
  rqCompletedAtMS :: "ms option"
  rqCreatedAtMS :: ms
  rqUpdatedAtMS :: ms

record oauth_db =
  odAuthz :: authz_db
  odClients :: "client_row list"
  odEnrolls :: "enroll_row list"
  odRequests :: "request_row list"

abbreviation AuthRequestPending :: string where "AuthRequestPending \<equiv> ''pending''"
abbreviation AuthRequestApproved :: string where "AuthRequestApproved \<equiv> ''approved''"
abbreviation AuthRequestDenied :: string where "AuthRequestDenied \<equiv> ''denied''"
abbreviation AuthRequestCompleted :: string where "AuthRequestCompleted \<equiv> ''completed''"

definition Activated :: "client_row \<Rightarrow> bool" where "Activated c \<longleftrightarrow> scanInt (ocActivatedAtMS c) \<noteq> 0"
definition EnrollRevoked :: "enroll_row \<Rightarrow> bool" where "EnrollRevoked e \<longleftrightarrow> scanInt (enRevokedAtMS e) \<noteq> 0"
definition EnrollConsumed :: "enroll_row \<Rightarrow> bool" where "EnrollConsumed e \<longleftrightarrow> scanInt (enConsumedAtMS e) \<noteq> 0"

section \<open>Reads\<close>

definition OAuthClientByID :: "string \<Rightarrow> oauth_db \<Rightarrow> client_row option" where
  "OAuthClientByID i d = select_one (\<lambda>c. ocID c = i) (odClients d)"

definition EnrollmentCodeByHash :: "string \<Rightarrow> oauth_db \<Rightarrow> enroll_row option" where
  "EnrollmentCodeByHash h d = select_one (\<lambda>e. enCodeHash e = h) (odEnrolls d)"

definition EnrollmentCodeByID :: "string \<Rightarrow> oauth_db \<Rightarrow> enroll_row option" where
  "EnrollmentCodeByID i d = select_one (\<lambda>e. enID e = i) (odEnrolls d)"

definition AuthorizationRequestByID :: "string \<Rightarrow> oauth_db \<Rightarrow> request_row option" where
  "AuthorizationRequestByID i d = select_one (\<lambda>q. rqID q = i) (odRequests d)"

definition CountRegistrationsSince :: "string \<Rightarrow> ms \<Rightarrow> oauth_db \<Rightarrow> int" where
  "CountRegistrationsSince source since d =
     int (length (filter (\<lambda>c. ocSource c = Some source \<and> since \<le> ocCreatedAtMS c \<and> \<not> ocStatic c) (odClients d)))"

text \<open>\<open>SELECT \<dots> FROM authorizations WHERE client_id = ? AND revoked_at_ms IS NULL\<close>, newest first.\<close>

definition AuthorizationsForClient :: "string \<Rightarrow> oauth_db \<Rightarrow> auth_row list" where
  "AuthorizationsForClient i d =
     rev (sort_key (\<lambda>a. (azCreatedAtMS a, azID a))
       (filter (\<lambda>a. azClient a = Some i \<and> azRevokedAtMS a = None) (zdAuths (odAuthz d))))"

definition AuthorizationIDForRequest :: "string \<Rightarrow> oauth_db \<Rightarrow> string" where
  "AuthorizationIDForRequest i d =
     (case rev (sort_key cdCreatedAtMS (filter (\<lambda>c. cdRequestID c = i \<and> cdAuthorizationID c \<noteq> None) (zdCodes (odAuthz d)))) of
        [] \<Rightarrow> [] | c # _ \<Rightarrow> scanString (cdAuthorizationID c))"

section \<open>Writes\<close>

datatype oauth_sql_error = OauthConstraint sql_error

definition CreateOAuthClient :: "ms \<Rightarrow> client_row \<Rightarrow> oauth_db \<Rightarrow> oauth_sql_error + oauth_db" where
  "CreateOAuthClient now c d =
     (if \<exists>c' \<in> set (odClients d). ocID c' = ocID c then Inl (OauthConstraint UniqueViolation)
      else Inr (d\<lparr>odClients := odClients d @
        [c\<lparr>ocCreatedAtMS := (if ocCreatedAtMS c = 0 then now else ocCreatedAtMS c)\<rparr>]\<rparr>))"

definition ActivateOAuthClient :: "ms \<Rightarrow> string \<Rightarrow> oauth_db \<Rightarrow> oauth_db" where
  "ActivateOAuthClient now i d =
     d\<lparr>odClients := update_where (\<lambda>c. ocID c = i)
         (\<lambda>c. c\<lparr>ocActivatedAtMS := coalesce (ocActivatedAtMS c) (Some now), ocExpiresAtMS := None\<rparr>) (odClients d)\<rparr>"

definition ExpiredUnreferencedClients :: "ms \<Rightarrow> oauth_db \<Rightarrow> string list" where
  "ExpiredUnreferencedClients now d =
     sort (map ocID (filter (\<lambda>c. \<not> ocStatic c \<and> ocActivatedAtMS c = None \<and>
       (case ocExpiresAtMS c of None \<Rightarrow> False | Some e \<Rightarrow> e \<le> now) \<and>
       (\<forall>q \<in> set (odRequests d). rqClientID q \<noteq> ocID c)) (odClients d)))"

definition DeleteOAuthClient :: "string \<Rightarrow> oauth_db \<Rightarrow> oauth_db" where
  "DeleteOAuthClient i d =
     (let gone = map rqID (filter (\<lambda>q. rqClientID q = i) (odRequests d)) in
      d\<lparr>odClients := filter (\<lambda>c. ocID c \<noteq> i) (odClients d),
        odRequests := filter (\<lambda>q. rqClientID q \<noteq> i) (odRequests d),
        odAuthz := (odAuthz d)\<lparr>zdCodes := filter (\<lambda>c. cdRequestID c \<notin> set gone) (zdCodes (odAuthz d))\<rparr>\<rparr>)"

definition CreateEnrollmentCode :: "ms \<Rightarrow> enroll_row \<Rightarrow> oauth_db \<Rightarrow> oauth_sql_error + oauth_db" where
  "CreateEnrollmentCode now e d =
     (if \<exists>e' \<in> set (odEnrolls d). enID e' = enID e \<or> enCodeHash e' = enCodeHash e then Inl (OauthConstraint UniqueViolation)
      else Inr (d\<lparr>odEnrolls := odEnrolls d @
        [e\<lparr>enCreatedAtMS := (if enCreatedAtMS e = 0 then now else enCreatedAtMS e), enUpdatedAtMS := now\<rparr>]\<rparr>))"

text \<open>The flags: whether this call was the one.\<close>

definition ConsumeEnrollmentCode :: "ms \<Rightarrow> string \<Rightarrow> string \<Rightarrow> oauth_db \<Rightarrow> bool \<times> oauth_db" where
  "ConsumeEnrollmentCode now i requestID d =
     (let P = (\<lambda>e. enID e = i \<and> enConsumedAtMS e = None \<and> enRevokedAtMS e = None) in
      (\<exists>e \<in> set (odEnrolls d). P e,
       d\<lparr>odEnrolls := update_where P
           (\<lambda>e. e\<lparr>enConsumedAtMS := Some now, enConsumedBy := Some requestID, enUpdatedAtMS := now\<rparr>) (odEnrolls d)\<rparr>))"

definition RevokeEnrollmentCodeTx :: "ms \<Rightarrow> string \<Rightarrow> string \<Rightarrow> oauth_db \<Rightarrow> bool \<times> oauth_db" where
  "RevokeEnrollmentCodeTx now i reason d =
     (let P = (\<lambda>e. enID e = i \<and> enRevokedAtMS e = None) in
      (\<exists>e \<in> set (odEnrolls d). P e,
       d\<lparr>odEnrolls := update_where P
           (\<lambda>e. e\<lparr>enRevokedAtMS := Some now, enRevokedReason := nullString reason, enUpdatedAtMS := now\<rparr>) (odEnrolls d)\<rparr>))"

definition CreateAuthorizationRequest :: "ms \<Rightarrow> request_row \<Rightarrow> oauth_db \<Rightarrow> oauth_sql_error + oauth_db" where
  "CreateAuthorizationRequest now q d =
     (if \<exists>q' \<in> set (odRequests d). rqID q' = rqID q then Inl (OauthConstraint UniqueViolation)
      else if \<forall>c \<in> set (odClients d). ocID c \<noteq> rqClientID q then Inl (OauthConstraint ForeignKeyViolation)
      else Inr (d\<lparr>odRequests := odRequests d @
        [q\<lparr>rqCreatedAtMS := (if rqCreatedAtMS q = 0 then now else rqCreatedAtMS q), rqUpdatedAtMS := now\<rparr>]\<rparr>))"

definition DecideAuthorizationRequest :: "ms \<Rightarrow> string \<Rightarrow> string \<Rightarrow> string \<Rightarrow> string \<Rightarrow> oauth_db \<Rightarrow> bool \<times> oauth_db" where
  "DecideAuthorizationRequest now i status granted reason d =
     (let P = (\<lambda>q. rqID q = i \<and> rqStatus q = AuthRequestPending) in
      (\<exists>q \<in> set (odRequests d). P q,
       d\<lparr>odRequests := update_where P
           (\<lambda>q. q\<lparr>rqStatus := status, rqGrantedScopes := nullString granted, rqDenyReason := nullString reason,
                  rqDecidedAtMS := Some now, rqUpdatedAtMS := now\<rparr>) (odRequests d)\<rparr>))"

definition CompleteAuthorizationRequest :: "ms \<Rightarrow> string \<Rightarrow> oauth_db \<Rightarrow> bool \<times> oauth_db" where
  "CompleteAuthorizationRequest now i d =
     (let P = (\<lambda>q. rqID q = i \<and> rqStatus q = AuthRequestApproved) in
      (\<exists>q \<in> set (odRequests d). P q,
       d\<lparr>odRequests := update_where P
           (\<lambda>q. q\<lparr>rqStatus := AuthRequestCompleted, rqCompletedAtMS := Some now, rqUpdatedAtMS := now\<rparr>) (odRequests d)\<rparr>))"

text \<open>An authorization code names a request that must exist.\<close>

definition IssueAuthorizationCode :: "ms \<Rightarrow> code_row \<Rightarrow> oauth_db \<Rightarrow> authz_error + oauth_db" where
  "IssueAuthorizationCode now c d =
     (if \<forall>q \<in> set (odRequests d). rqID q \<noteq> cdRequestID c then Inl (AuthzConstraint ForeignKeyViolation)
      else map_sum id (\<lambda>z. d\<lparr>odAuthz := z\<rparr>) (CreateAuthorizationCode now c (odAuthz d)))"

definition oauth_audit :: "string \<Rightarrow> string \<Rightarrow> oauth_db \<Rightarrow> oauth_db" where
  "oauth_audit kind source d = d\<lparr>odAuthz := AppendAudit kind ''ok'' [] source (odAuthz d)\<rparr>"

text \<open>A row of the audit log that is written once for its kind and target, as the conditional \<open>INSERT\<close> does it.\<close>

definition audit_once_row :: "string \<Rightarrow> string \<Rightarrow> string \<Rightarrow> string \<Rightarrow> auth_audit" where
  "audit_once_row kind ttype target source = \<lparr>auKind = kind, auResult = ''ok'', auAuthorizationID = [], auSource = source,
     auTargetType = Some ttype, auTargetID = Some target\<rparr>"

definition AppendAuditOnce :: "string \<Rightarrow> string \<Rightarrow> string \<Rightarrow> string \<Rightarrow> oauth_db \<Rightarrow> oauth_db" where
  "AppendAuditOnce kind ttype target source d =
     (if \<exists>a \<in> set (zdAudit (odAuthz d)). auKind a = kind \<and> auTargetType a = Some ttype \<and> auTargetID a = Some target then d
      else d\<lparr>odAuthz := (odAuthz d)\<lparr>zdAudit := zdAudit (odAuthz d) @ [audit_once_row kind ttype target source]\<rparr>\<rparr>)"

end
