(* ===== verification/Oauth_Server.thy ===== *)
theory Oauth_Server
  imports Oauth_Store
begin

text \<open>
  The OAuth server (\<open>internal/oauth\<close>): redirect rules, registration, the authorization screen, enrollment
  codes, the owner's decision, the waiting page's completion and the token endpoint. An HTTP handler is a
  function from its parsed request to what it answers; pages, headers and descriptions are left out except
  where an answer's sameness matters. SHA-256, HMAC-SHA-256, \<open>url.Parse\<close>, \<open>net.ParseIP\<close> and the JSON encoding of
  the signed context are parameters, as are random values, identifiers and the clock.
\<close>

section \<open>Refusals\<close>

abbreviation "ErrInvalidRequest \<equiv> ''invalid_request''"
abbreviation "ErrInvalidClientMetadata \<equiv> ''invalid_client_metadata''"
abbreviation "ErrInvalidRedirectURI \<equiv> ''invalid_redirect_uri''"
abbreviation "ErrInvalidClient \<equiv> ''invalid_client''"
abbreviation "ErrCodeInvalidGrant \<equiv> ''invalid_grant''"
abbreviation "ErrCodeInvalidScope \<equiv> ''invalid_scope''"
abbreviation "ErrInvalidTarget \<equiv> ''invalid_target''"
abbreviation "ErrUnsupportedResponseType \<equiv> ''unsupported_response_type''"
abbreviation "ErrAccessDenied \<equiv> ''access_denied''"
abbreviation "ErrServerError \<equiv> ''server_error''"
abbreviation "ErrTemporarilyUnavailable \<equiv> ''temporarily_unavailable''"

record oauth_error =
  oxStatus :: nat
  oxCode :: string
  oxRetryAfter :: ns

definition statusError :: "nat \<Rightarrow> string \<Rightarrow> oauth_error" where
  "statusError status code = \<lparr>oxStatus = status, oxCode = code, oxRetryAfter = 0\<rparr>"

definition badRequest :: "string \<Rightarrow> oauth_error" where "badRequest code = statusError 400 code"

text \<open>\<open>translate\<close>: a rate limit keeps its delay, every other refusal of a credential is one and the same.\<close>

definition translate :: "authz_error \<Rightarrow> oauth_error" where
  "translate e =
     (case e of
        AuthzRateLimited (RateLimitedError surface retryAfter) \<Rightarrow>
          \<lparr>oxStatus = 429, oxCode = ErrTemporarilyUnavailable, oxRetryAfter = retryAfter\<rparr>
      | ErrInvalidScope \<Rightarrow> badRequest ErrCodeInvalidScope
      | _ \<Rightarrow> if e \<in> {ErrGrantReplayed, ErrInvalidGrant, ErrTokenUnknown, ErrTokenExpired, ErrTokenRevoked, ErrTokenReused, ErrTokenAbsent}
              \<or> (\<exists>why. e = ErrBinding why)
            then badRequest ErrCodeInvalidGrant
            else statusError 500 ErrServerError)"

section \<open>Redirect rules\<close>

record url =
  ulScheme :: string
  ulUser :: bool \<comment> \<open>whether there is any\<close>
  ulHost :: string
  ulHostname :: string
  ulEscapedPath :: string
  ulRawQuery :: string
  ulFragment :: string

record contextPayload =
  cpHandleHash :: string
  cpClientID :: string
  cpRedirectURI :: string
  cpState :: string
  cpChallenge :: string
  cpMethod :: string
  cpResource :: string
  cpScopes :: "string list"
  cpExpiresAtMS :: ms

record oauth_config =
  ogPublicURL :: string
  ogKey :: string
  ogSha :: "string \<Rightarrow> string"
  ogHmac :: "string \<Rightarrow> string \<Rightarrow> string"
  ogParse :: "string \<Rightarrow> url option"
  ogIsIP :: "string \<Rightarrow> bool"
  ogMarshal :: "contextPayload \<Rightarrow> string"
  ogUnmarshal :: "string \<Rightarrow> contextPayload option"
  ogParseDuration :: "string \<Rightarrow> ns option"

definition MaxRedirectURIs :: nat where "MaxRedirectURIs = 10"
definition MaxRedirectURILength :: nat where "MaxRedirectURILength = 500"

definition loopbackHosts :: "string list" where "loopbackHosts = [''127.0.0.1'', ''::1'', ''localhost'']"

text \<open>\<open>strings.ToLower\<close> as far as a comparison with lower-case ASCII text can tell: other letters that
  lower to an ASCII one (\<open>U+0130\<close>, \<open>U+212A\<close>) give an i or a k, which no compared host has.\<close>

definition lower_char :: "char \<Rightarrow> char" where
  "lower_char c = (let n = of_char c :: nat in if 65 \<le> n \<and> n \<le> 90 then char_of (n + 32) else c)"

definition ToLower :: "string \<Rightarrow> string" where "ToLower s = map lower_char s"

text \<open>\<open>strings.EqualFold\<close> against ASCII text: besides upper case, the long s folds to s and the Kelvin sign to k.\<close>

definition fold_rune :: "nat \<Rightarrow> nat" where
  "fold_rune r = (if 65 \<le> r \<and> r \<le> 90 then r + 32 else if r = 0x17F then 115 else if r = 0x212A then 107 else r)"

definition EqualFold :: "string \<Rightarrow> string \<Rightarrow> bool" where
  "EqualFold s t \<longleftrightarrow> map fold_rune (runes s) = map fold_rune (runes t)"

definition contains_char :: "char \<Rightarrow> string \<Rightarrow> bool" where "contains_char c s \<longleftrightarrow> c \<in> set s"

text \<open>\<open>True\<close>: acceptable.\<close>

definition ValidateRedirectURI :: "oauth_config \<Rightarrow> string \<Rightarrow> bool" where
  "ValidateRedirectURI cfg raw =
     (if raw = [] \<or> MaxRedirectURILength < length raw then False
      else case ogParse cfg raw of
        None \<Rightarrow> False
      | Some u \<Rightarrow>
          if ulFragment u \<noteq> [] \<or> contains_char CHR ''#'' raw then False
          else if ulUser u \<or> contains_char CHR ''@'' (ulHost u) then False
          else
            (let scheme = ToLower (ulScheme u); host = ToLower (ulHostname u) in
             if scheme = ''https'' then host \<noteq> [] \<and> \<not> ogIsIP cfg host \<and> contains_char CHR ''.'' host
             else if scheme = ''http'' then host \<in> set loopbackHosts
             else if scheme = [] then False
             else contains_char CHR ''.'' scheme))"

definition IsLoopbackRedirect :: "oauth_config \<Rightarrow> string \<Rightarrow> bool" where
  "IsLoopbackRedirect cfg raw =
     (case ogParse cfg raw of
        None \<Rightarrow> False
      | Some u \<Rightarrow> ToLower (ulScheme u) = ''http'' \<and> ToLower (ulHostname u) \<in> set loopbackHosts)"

definition RedirectMatches :: "oauth_config \<Rightarrow> string \<Rightarrow> string \<Rightarrow> bool" where
  "RedirectMatches cfg registered offered =
     (if registered = offered then True
      else if \<not> IsLoopbackRedirect cfg registered then False
      else case (ogParse cfg registered, ogParse cfg offered) of
        (Some reg, Some pres) \<Rightarrow>
          if ulUser pres \<or> ulFragment pres \<noteq> [] then False
          else if \<not> EqualFold (ulScheme pres) (ulScheme reg) then False
          else if \<not> EqualFold (ulHostname pres) (ulHostname reg) then False
          else if ulEscapedPath pres \<noteq> ulEscapedPath reg then False
          else ulRawQuery pres = ulRawQuery reg
      | _ \<Rightarrow> False)"

definition MatchRegisteredRedirect :: "oauth_config \<Rightarrow> string list \<Rightarrow> string \<Rightarrow> string option" where
  "MatchRegisteredRedirect cfg registered presented =
     (if \<exists>c \<in> set registered. RedirectMatches cfg c presented then Some presented else None)"

section \<open>Digests, codes and signatures\<close>

definition domainAuthorizationCode :: string where "domainAuthorizationCode = ''agent-gm/oauth/authorization-code/v1''"
definition domainCookieHandle :: string where "domainCookieHandle = ''agent-gm/oauth/context-handle/v1''"
definition domainFormToken :: string where "domainFormToken = ''agent-gm/oauth/form-token/v1''"
definition domainContext :: string where "domainContext = ''agent-gm/oauth/context/v1''"

definition enrollmentAlphabet :: string where "enrollmentAlphabet = ''0123456789ABCDEFGHJKMNPQRSTVWXYZ''"

text \<open>\<open>NewEnrollmentCode\<close>: four groups of four, from sixteen random bytes.\<close>

fun grouped :: "nat \<Rightarrow> char list \<Rightarrow> string" where
  "grouped i [] = []"
| "grouped i (v # vs) =
     (if 0 < i \<and> i mod 4 = 0 then ''-'' else []) @ enrollmentAlphabet ! (of_char v mod length enrollmentAlphabet) # grouped (i + 1) vs"

definition NewEnrollmentCode :: "string \<Rightarrow> string" where "NewEnrollmentCode buf = grouped 0 buf"

text \<open>\<open>strings.ToUpper\<close> on the runes whose upper case can be in the alphabet: the ASCII letters and the long s.\<close>

definition upper_rune :: "nat \<Rightarrow> nat" where
  "upper_rune r = (if 97 \<le> r \<and> r \<le> 122 then r - 32 else if r = 0x17F then 83 else r)"

definition CanonicalEnrollmentCode :: "string \<Rightarrow> string" where
  "CanonicalEnrollmentCode raw =
     map char_of (filter (\<lambda>r. r \<in> set (map of_char enrollmentAlphabet)) (map upper_rune (runes (TrimSpace raw))))"

definition EnrollmentCodeHash :: "oauth_config \<Rightarrow> string \<Rightarrow> string" where
  "EnrollmentCodeHash cfg raw = hex_encode (ogSha cfg (CanonicalEnrollmentCode raw))"

definition authorizationCodeHash :: "oauth_config \<Rightarrow> string \<Rightarrow> string" where
  "authorizationCodeHash cfg val = hex_encode (digest (ogSha cfg) domainAuthorizationCode [val])"

definition handleHash :: "oauth_config \<Rightarrow> string \<Rightarrow> string" where
  "handleHash cfg handle = hex_encode (digest (ogSha cfg) domainCookieHandle [handle])"

definition formTokenFor :: "oauth_config \<Rightarrow> string \<Rightarrow> string" where
  "formTokenFor cfg handle = RawURLEncode (ogHmac cfg (ogKey cfg) (domainFormToken @ CHR 0x00 # handle))"

definition formTokenHash :: "oauth_config \<Rightarrow> string \<Rightarrow> string" where
  "formTokenHash cfg token = hex_encode (digest (ogSha cfg) domainFormToken [token])"

definition payloadMAC :: "oauth_config \<Rightarrow> string \<Rightarrow> string" where
  "payloadMAC cfg encoded = RawURLEncode (ogHmac cfg (ogKey cfg) (domainContext @ CHR 0x00 # encoded))"

definition signPayload :: "oauth_config \<Rightarrow> string \<Rightarrow> string" where
  "signPayload cfg payload = (let encoded = RawURLEncode payload in encoded @ CHR ''.'' # payloadMAC cfg encoded)"

definition verifyPayload :: "oauth_config \<Rightarrow> string \<Rightarrow> string option" where
  "verifyPayload cfg signed =
     (case Cut CHR ''.'' signed of
        None \<Rightarrow> None
      | Some (encoded, presentedMAC) \<Rightarrow> if presentedMAC \<noteq> payloadMAC cfg encoded then None else RawURLDecode encoded)"

definition verifyPKCE :: "oauth_config \<Rightarrow> string \<Rightarrow> string \<Rightarrow> bool" where
  "verifyPKCE cfg verifier challenge \<longleftrightarrow> RawURLEncode (ogSha cfg verifier) = challenge"

definition Resource :: "oauth_config \<Rightarrow> string" where "Resource cfg = ogPublicURL cfg @ ''/mcp''"

section \<open>What a request meets\<close>

record oauth_env =
  oeNow :: ns
  oeTxAt :: ns
  oeRequestTTL :: "ns option"
  oeCodeTTL :: "ns option"
  oeEnrollmentTTL :: "ns option"
  oeID :: string \<comment> \<open>the identifier it draws\<close>
  oeSecret :: "string option" \<comment> \<open>the random value it draws\<close>

definition od_now :: "oauth_env \<Rightarrow> ms" where "od_now env = UnixMilli (oeTxAt env)"

definition or_default :: "'a \<Rightarrow> 'a option \<Rightarrow> 'a" where "or_default d v = (case v of None \<Rightarrow> d | Some x \<Rightarrow> x)"

definition request_ttl :: "oauth_env \<Rightarrow> ns" where "request_ttl env = or_default (15 * Minute) (oeRequestTTL env)"
definition code_ttl :: "oauth_env \<Rightarrow> ns" where "code_ttl env = or_default (2 * Minute) (oeCodeTTL env)"

section \<open>Registration\<close>

record registrationRequest =
  rgClientID :: string
  rgClientName :: string
  rgRedirectURIs :: "string list"
  rgGrantTypes :: "string list"
  rgResponseTypes :: "string list"
  rgTokenEndpointAuthMethod :: string

definition RegistrationTTL :: ns where "RegistrationTTL = 24 * Hour"
definition RegistrationsPerSourcePerHour :: int where "RegistrationsPerSourcePerHour = 20"
definition allowedGrants :: "string list" where "allowedGrants = [''authorization_code'', ''refresh_token'']"

definition registration_refused :: "oauth_config \<Rightarrow> registrationRequest \<Rightarrow> oauth_error option" where
  "registration_refused cfg req =
     (if TrimSpace (rgClientID req) \<noteq> [] then Some (badRequest ErrInvalidClientMetadata)
      else if rgTokenEndpointAuthMethod req \<notin> {[], ''none''} then Some (badRequest ErrInvalidClientMetadata)
      else if \<exists>g \<in> set (rgGrantTypes req). g \<notin> set allowedGrants then Some (badRequest ErrInvalidClientMetadata)
      else if \<exists>t \<in> set (rgResponseTypes req). t \<noteq> ''code'' then Some (badRequest ErrInvalidClientMetadata)
      else if rgRedirectURIs req = [] \<or> MaxRedirectURIs < length (rgRedirectURIs req)
              \<or> (\<exists>u \<in> set (rgRedirectURIs req). \<not> ValidateRedirectURI cfg u) then Some (badRequest ErrInvalidRedirectURI)
      else None)"

definition default_list :: "'a list \<Rightarrow> 'a list \<Rightarrow> 'a list" where "default_list d xs = (if xs = [] then d else xs)"

definition registered_client :: "oauth_env \<Rightarrow> registrationRequest \<Rightarrow> string \<Rightarrow> client_row" where
  "registered_client env req source =
     \<lparr>ocID = oeID env, ocName = nullString (rgClientName req), ocRedirectURIs = rgRedirectURIs req,
      ocGrantTypes = default_list allowedGrants (rgGrantTypes req), ocResponseTypes = default_list [''code''] (rgResponseTypes req),
      ocSource = nullString source, ocActivatedAtMS = None,
      ocExpiresAtMS = nullInt (UnixMilli (oeNow env + RegistrationTTL)), ocCreatedAtMS = UnixMilli (oeNow env),
      ocStatic = False, ocDefaultResource = False\<rparr>"

definition Register :: "oauth_config \<Rightarrow> oauth_env \<Rightarrow> registrationRequest \<Rightarrow> string \<Rightarrow> oauth_db \<Rightarrow> (oauth_error + string) \<times> oauth_db" where
  "Register cfg env req source d =
     (case registration_refused cfg req of
        Some e \<Rightarrow> (Inl e, d)
      | None \<Rightarrow>
          if RegistrationsPerSourcePerHour \<le> CountRegistrationsSince source (UnixMilli (oeNow env - Hour)) d
          then (Inl \<lparr>oxStatus = 429, oxCode = ErrTemporarilyUnavailable, oxRetryAfter = Hour\<rparr>, d)
          else case CreateOAuthClient (od_now env) (registered_client env req source) d of
                 Inl e \<Rightarrow> (Inl (statusError 500 ErrServerError), d)
               | Inr d' \<Rightarrow> (Inr (oeID env), d'))"

definition SweepExpiredRegistrations :: "ms \<Rightarrow> oauth_db \<Rightarrow> string list \<times> oauth_db" where
  "SweepExpiredRegistrations now d =
     (let ids = ExpiredUnreferencedClients now d
      in (ids, foldl (\<lambda>d i. oauth_audit ''client.revoked'' ''server'' (DeleteOAuthClient i d)) d ids))"

definition registrationExpired :: "ns \<Rightarrow> client_row \<Rightarrow> bool" where
  "registrationExpired now c \<longleftrightarrow> \<not> (Activated c \<or> scanInt (ocExpiresAtMS c) = 0) \<and> scanInt (ocExpiresAtMS c) \<le> UnixMilli now"

section \<open>The authorization screen\<close>

record authorizeParams =
  apResponseType :: string
  apClientID :: string
  apRedirectURI :: string
  apState :: string
  apCodeChallenge :: string
  apCodeChallengeMethod :: string
  apResource :: string
  apScopes :: "string list"

definition DefaultScopes :: "string list" where "DefaultScopes = [ScopeMessagesRead, ScopeMessagesWrite]"

definition challenge_char :: "char \<Rightarrow> bool" where
  "challenge_char c = (let n = of_char c :: nat in (65 \<le> n \<and> n \<le> 90) \<or> (97 \<le> n \<and> n \<le> 122) \<or> (48 \<le> n \<and> n \<le> 57) \<or> n = 45 \<or> n = 95)"

definition validChallenge :: "string \<Rightarrow> bool" where
  "validChallenge v \<longleftrightarrow> length v = 43 \<and> (\<forall>c \<in> set v. challenge_char c)"

text \<open>The code of the refusal, or the parameters with their defaults filled in.\<close>

definition validateAuthorize :: "oauth_config \<Rightarrow> authorizeParams \<Rightarrow> client_row \<Rightarrow> string + authorizeParams" where
  "validateAuthorize cfg p client =
     (if apResponseType p \<noteq> ''code'' then Inl ErrUnsupportedResponseType
      else if TrimSpace (apState p) = [] then Inl ErrInvalidRequest
      else if apCodeChallengeMethod p \<noteq> ''S256'' then Inl ErrInvalidRequest
      else if \<not> validChallenge (apCodeChallenge p) then Inl ErrInvalidRequest
      else
        (let resource = (if apResource p = [] \<and> ocDefaultResource client then Resource cfg else apResource p);
             scopes = default_list DefaultScopes (apScopes p) in
         if resource \<noteq> Resource cfg then Inl ErrInvalidTarget
         else case ParseScopes scopes of
                None \<Rightarrow> Inl ErrCodeInvalidScope
              | Some S \<Rightarrow>
                  if S = {} then Inl ErrCodeInvalidScope
                  else if ScopeAdmin \<in> S then Inl ErrCodeInvalidScope
                  else Inr (p\<lparr>apResource := resource, apScopes := scope_list S\<rparr>)))"

record approvalPageData =
  agContext :: string
  agFormToken :: string
  agClientID :: string
  agClientName :: string
  agRedirectURI :: string
  agState :: string
  agChallenge :: string
  agMethod :: string
  agResource :: string
  agScopeParam :: string
  agScopes :: "string list"
  agSelected :: "string list"
  agAllowed :: "string list"
  agMessage :: string

definition approval_page :: "oauth_config \<Rightarrow> string \<Rightarrow> string \<Rightarrow> client_row \<Rightarrow> contextPayload \<Rightarrow> approvalPageData" where
  "approval_page cfg signed handle client p =
     \<lparr>agContext = signed, agFormToken = formTokenFor cfg handle, agClientID = ocID client,
      agClientName = scanString (ocName client), agRedirectURI = cpRedirectURI p, agState = cpState p,
      agChallenge = cpChallenge p, agMethod = cpMethod p, agResource = cpResource p, agScopeParam = join_words (cpScopes p),
      agScopes = cpScopes p, agSelected = [], agAllowed = [], agMessage = []\<rparr>"

text \<open>\<open>AuthorizeRedirect uri error state\<close> is the redirect to the verified callback; \<open>AuthorizePage page cookie\<close>
  the screen with the cookie it sets.\<close>

datatype authorize_answer =
    AuthorizeRefused oauth_error
  | AuthorizeRedirect string string string
  | AuthorizePage approvalPageData string

definition redirectError :: "oauth_config \<Rightarrow> authorizeParams \<Rightarrow> string \<Rightarrow> authorize_answer" where
  "redirectError cfg p code =
     (case ogParse cfg (apRedirectURI p) of
        None \<Rightarrow> AuthorizeRefused (badRequest ErrInvalidRedirectURI)
      | Some u \<Rightarrow> AuthorizeRedirect (apRedirectURI p) code (apState p))"

definition context_of :: "oauth_config \<Rightarrow> oauth_env \<Rightarrow> client_row \<Rightarrow> authorizeParams \<Rightarrow> string \<Rightarrow> contextPayload" where
  "context_of cfg env client q handle =
     \<lparr>cpHandleHash = handleHash cfg handle, cpClientID = ocID client, cpRedirectURI = apRedirectURI q,
      cpState = apState q, cpChallenge = apCodeChallenge q, cpMethod = apCodeChallengeMethod q,
      cpResource = apResource q, cpScopes = apScopes q,
      cpExpiresAtMS = UnixMilli (oeNow env + request_ttl env)\<rparr>"

definition authorizeGet :: "oauth_config \<Rightarrow> oauth_env \<Rightarrow> authorizeParams \<Rightarrow> oauth_db \<Rightarrow> authorize_answer" where
  "authorizeGet cfg env p d =
     (case OAuthClientByID (apClientID p) d of
        None \<Rightarrow> AuthorizeRefused (badRequest ErrInvalidClient)
      | Some client \<Rightarrow>
          if registrationExpired (oeNow env) client then AuthorizeRefused (badRequest ErrInvalidClient)
          else case MatchRegisteredRedirect cfg (ocRedirectURIs client) (apRedirectURI p) of
            None \<Rightarrow> AuthorizeRefused (badRequest ErrInvalidRedirectURI)
          | Some verified \<Rightarrow>
              (let p = p\<lparr>apRedirectURI := verified\<rparr> in
               case validateAuthorize cfg p client of
                 Inl code \<Rightarrow> redirectError cfg p code
               | Inr q \<Rightarrow>
                   (case oeSecret env of
                      None \<Rightarrow> redirectError cfg q ErrServerError
                    | Some handle \<Rightarrow>
                        (let payload = context_of cfg env client q handle
                         in AuthorizePage (approval_page cfg (signPayload cfg (ogMarshal cfg payload)) handle client payload)
                              (signPayload cfg handle)))))"

section \<open>The submission\<close>

text \<open>\<open>contextHandle\<close>: the handle of the signed cookie.\<close>

definition contextHandle :: "oauth_config \<Rightarrow> string option \<Rightarrow> string option" where
  "contextHandle cfg cookie = (case cookie of None \<Rightarrow> None | Some v \<Rightarrow> verifyPayload cfg v)"

record post_form =
  pfSource :: string
  pfOrigin :: string
  pfReadable :: bool \<comment> \<open>whether \<open>ParseForm\<close> succeeds\<close>
  pfCookie :: "string option"
  pfContext :: string
  pfFormToken :: string
  pfClientID :: string
  pfRedirectURI :: string
  pfState :: string
  pfCodeChallenge :: string
  pfCodeChallengeMethod :: string
  pfResource :: string
  pfScope :: string
  pfScopeSelected :: "string list"
  pfEnrollmentCode :: string

definition LimitEnrollmentSource :: DurableLimitSpec where
  "LimitEnrollmentSource = \<lparr>dlKind = ''enrollment_code_source'', dlSurface = ''enrollment_code'', dlPerSource = 10,
     dlGlobal = 0, dlWindow = 15 * Minute, dlBaseCooldown = Minute, dlMaxCooldown = 24 * Hour\<rparr>"

definition LimitEnrollmentContext :: DurableLimitSpec where
  "LimitEnrollmentContext = \<lparr>dlKind = ''enrollment_code_context'', dlSurface = ''enrollment_code'', dlPerSource = 10,
     dlGlobal = 0, dlWindow = 15 * Minute, dlBaseCooldown = Minute, dlMaxCooldown = 24 * Hour\<rparr>"

definition checkOrigin :: "oauth_config \<Rightarrow> string \<Rightarrow> oauth_error option" where
  "checkOrigin cfg origin =
     (if origin = [] then None
      else if origin \<noteq> ogPublicURL cfg then Some (statusError 403 ErrInvalidRequest) else None)"

definition requireSameOrigin :: "oauth_config \<Rightarrow> string \<Rightarrow> oauth_error option" where
  "requireSameOrigin cfg origin = (if origin = [] then Some (statusError 403 ErrInvalidRequest) else checkOrigin cfg origin)"

text \<open>Every hidden echo.\<close>

definition echoes_match :: "post_form \<Rightarrow> contextPayload \<Rightarrow> bool" where
  "echoes_match f ctx \<longleftrightarrow> (\<forall>(presented, expected) \<in> set
     [(pfClientID f, cpClientID ctx), (pfRedirectURI f, cpRedirectURI ctx), (pfState f, cpState ctx),
      (pfCodeChallenge f, cpChallenge ctx), (pfCodeChallengeMethod f, cpMethod ctx), (pfResource f, cpResource ctx),
      (pfScope f, join_words (cpScopes ctx))]. presented = expected)"

text \<open>The checks on the browser, up to the point where the enrollment code is examined: the handle, the
  context, the client and the selected scopes, or the refusal.\<close>

definition browser_checks ::
  "oauth_config \<Rightarrow> oauth_env \<Rightarrow> post_form \<Rightarrow> oauth_db \<Rightarrow> oauth_error + string \<times> contextPayload \<times> client_row \<times> ScopeSet" where
  "browser_checks cfg env f d =
     (let invalid = Inl (badRequest ErrInvalidRequest); attempts = zdAttempts (odAuthz d) in
      case Check (oeNow env) LimitEnrollmentSource (pfSource f) attempts of
        Some e \<Rightarrow> Inl (translate (AuthzRateLimited e))
      | None \<Rightarrow>
     (case checkOrigin cfg (pfOrigin f) of
        Some e \<Rightarrow> Inl e
      | None \<Rightarrow>
          if \<not> pfReadable f then invalid
          else case contextHandle cfg (pfCookie f) of
            None \<Rightarrow> invalid
          | Some handle \<Rightarrow>
     (case verifyPayload cfg (pfContext f) of
        None \<Rightarrow> invalid
      | Some raw \<Rightarrow>
     (case ogUnmarshal cfg raw of
        None \<Rightarrow> invalid
      | Some ctx \<Rightarrow>
          if \<not> equalHashHex (digest (ogSha cfg) domainCookieHandle [handle]) (cpHandleHash ctx) then invalid
          else if cpExpiresAtMS ctx \<le> UnixMilli (oeNow env) then invalid
          else if pfFormToken f \<noteq> formTokenFor cfg handle then invalid
          else if \<not> echoes_match f ctx then invalid
          else case OAuthClientByID (cpClientID ctx) d of
            None \<Rightarrow> Inl (badRequest ErrInvalidClient)
          | Some client \<Rightarrow>
              if MatchRegisteredRedirect cfg (ocRedirectURIs client) (cpRedirectURI ctx) = None
              then Inl (badRequest ErrInvalidRedirectURI)
              else (case ParseScopes (cpScopes ctx) of
                      None \<Rightarrow> Inl (badRequest ErrCodeInvalidScope)
                    | Some requested \<Rightarrow>
                   (case ParseScopes (pfScopeSelected f) of
                      None \<Rightarrow> Inl (badRequest ErrCodeInvalidScope)
                    | Some selected \<Rightarrow>
                        if selected = {} \<or> Widens selected requested then Inl (badRequest ErrCodeInvalidScope)
                        else case Check (oeNow env) LimitEnrollmentContext (cpHandleHash ctx) attempts of
                               Some e \<Rightarrow> Inl (translate (AuthzRateLimited e))
                             | None \<Rightarrow> Inr (handle, ctx, client, selected)))))))"

definition enrollmentUsable :: "ns \<Rightarrow> enroll_row \<Rightarrow> bool" where
  "enrollmentUsable now code \<longleftrightarrow> \<not> EnrollRevoked code \<and> \<not> EnrollConsumed code \<and> \<not> enExpiresAtMS code \<le> UnixMilli now"

record pendingRequest =
  prClient :: client_row
  prContext :: contextPayload
  prSelected :: ScopeSet
  prEnrollment :: enroll_row
  prHandle :: string
  prSource :: string

text \<open>What the reads of one submission decide. A failed code is counted against the source and the context;
  the row is there when the code is known.\<close>

datatype post_decision =
    RefusePost oauth_error
  | FailPost string string "enroll_row option" approvalPageData
  | RerenderPost approvalPageData
  | CreatePost pendingRequest

definition GenericEnrollmentFailure :: string where
  "GenericEnrollmentFailure = ''That enrollment code was not accepted. Check it and try again, or ask the owner for a new one.''"

definition post_decide :: "oauth_config \<Rightarrow> oauth_env \<Rightarrow> post_form \<Rightarrow> oauth_db \<Rightarrow> post_decision" where
  "post_decide cfg env f d =
     (case browser_checks cfg env f d of
        Inl e \<Rightarrow> RefusePost e
      | Inr (handle, ctx, client, selected) \<Rightarrow>
          (let page = (approval_page cfg (pfContext f) handle client ctx)\<lparr>agSelected := scope_list selected\<rparr>;
               failed = page\<lparr>agMessage := GenericEnrollmentFailure\<rparr> in
           case EnrollmentCodeByHash (EnrollmentCodeHash cfg (pfEnrollmentCode f)) d of
             None \<Rightarrow> FailPost (pfSource f) (cpHandleHash ctx) None failed
           | Some code \<Rightarrow>
               if \<not> enrollmentUsable (oeNow env) code then FailPost (pfSource f) (cpHandleHash ctx) (Some code) failed
               else case ParseScopeString (enScopes code) of
                 None \<Rightarrow> RefusePost (statusError 500 ErrServerError)
               | Some ceiling \<Rightarrow>
                   if Widens selected ceiling
                   then RerenderPost (page\<lparr>agMessage := ''That code allows '' @ scope_string ceiling @ ''. Choose within it.'',
                                          agAllowed := scope_list ceiling\<rparr>)
                   else CreatePost \<lparr>prClient = client, prContext = ctx, prSelected = selected, prEnrollment = code,
                                    prHandle = handle, prSource = pfSource f\<rparr>))"

definition noteEnrollmentExpired :: "ns \<Rightarrow> enroll_row \<Rightarrow> oauth_db \<Rightarrow> oauth_db" where
  "noteEnrollmentExpired now code d =
     (if EnrollConsumed code \<or> EnrollRevoked code \<or> enExpiresAtMS code = 0 \<or> UnixMilli now < enExpiresAtMS code then d
      else AppendAuditOnce ''enrollment.expired'' ''enrollment_code'' (enID code) [] d)"

definition count_enrollment :: "oauth_env \<Rightarrow> DurableLimitSpec \<Rightarrow> string \<Rightarrow> oauth_db \<Rightarrow> oauth_db" where
  "count_enrollment env spec key d =
     d\<lparr>odAuthz := (odAuthz d)\<lparr>zdAttempts := snd (RecordFailure (oeNow env) (od_now env) spec key (zdAttempts (odAuthz d)))\<rparr>\<rparr>"

definition recordEnrollmentFailure :: "oauth_env \<Rightarrow> string \<Rightarrow> string \<Rightarrow> oauth_db \<Rightarrow> oauth_db" where
  "recordEnrollmentFailure env source contextKey d =
     count_enrollment env LimitEnrollmentContext contextKey (count_enrollment env LimitEnrollmentSource source d)"

definition pending_row :: "oauth_config \<Rightarrow> oauth_env \<Rightarrow> pendingRequest \<Rightarrow> request_row" where
  "pending_row cfg env p =
     \<lparr>rqID = oeID env, rqClientID = ocID (prClient p), rqRedirectURI = cpRedirectURI (prContext p),
      rqState = cpState (prContext p), rqCodeChallenge = cpChallenge (prContext p),
      rqCodeChallengeMethod = cpMethod (prContext p), rqResource = cpResource (prContext p),
      rqRequestedScopes = join_words (cpScopes (prContext p)), rqSelectedScopes = scope_string (prSelected p),
      rqGrantedScopes = None, rqEnrollmentCodeID = nullString (enID (prEnrollment p)), rqStatus = AuthRequestPending,
      rqDenyReason = None, rqHandleHash = cpHandleHash (prContext p),
      rqFormTokenHash = formTokenHash cfg (formTokenFor cfg (prHandle p)), rqSource = nullString (prSource p),
      rqExpiresAtMS = UnixMilli (oeNow env + request_ttl env), rqDecidedAtMS = None, rqCompletedAtMS = None,
      rqCreatedAtMS = UnixMilli (oeNow env), rqUpdatedAtMS = 0\<rparr>"

definition createPendingRequest :: "oauth_config \<Rightarrow> oauth_env \<Rightarrow> pendingRequest \<Rightarrow> oauth_db \<Rightarrow> (oauth_error + string) \<times> oauth_db" where
  "createPendingRequest cfg env p d =
     (let now = od_now env; (consumed, d1) = ConsumeEnrollmentCode now (enID (prEnrollment p)) (oeID env) d in
      if \<not> consumed then (Inl (badRequest ErrInvalidRequest), d)
      else case CreateAuthorizationRequest now (pending_row cfg env p) d1 of
             Inl e \<Rightarrow> (Inl (statusError 500 ErrServerError), d)
           | Inr d2 \<Rightarrow>
               (Inr (oeID env),
                oauth_audit ''authorization.created'' (prSource p)
                  (oauth_audit ''enrollment.consumed'' (prSource p) (ActivateOAuthClient now (ocID (prClient p)) d2))))"

datatype post_answer =
    PostRefused oauth_error
  | PostPage approvalPageData
  | PostWaiting string

definition post_apply :: "oauth_config \<Rightarrow> oauth_env \<Rightarrow> post_decision \<Rightarrow> oauth_db \<Rightarrow> post_answer \<times> oauth_db" where
  "post_apply cfg env dec d =
     (case dec of
        RefusePost e \<Rightarrow> (PostRefused e, d)
      | FailPost source key code page \<Rightarrow>
          (PostPage page, recordEnrollmentFailure env source key
             (case code of None \<Rightarrow> d | Some c \<Rightarrow> noteEnrollmentExpired (oeNow env) c d))
      | RerenderPost page \<Rightarrow> (PostPage page, d)
      | CreatePost p \<Rightarrow>
          (case createPendingRequest cfg env p d of
             (Inl e, d') \<Rightarrow> (PostRefused e, d')
           | (Inr i, d') \<Rightarrow> (PostWaiting i, d')))"

definition authorizePost :: "oauth_config \<Rightarrow> oauth_env \<Rightarrow> post_form \<Rightarrow> oauth_db \<Rightarrow> post_answer \<times> oauth_db" where
  "authorizePost cfg env f d = post_apply cfg env (post_decide cfg env f d) d"

end
