(* ===== verification/Oauth_Owner.thy ===== *)
theory Oauth_Owner
  imports Oauth_Server
begin

text \<open>
  The owner's half of the OAuth server (\<open>internal/oauth/admin.go\<close>): enrollment codes, the decision on a request,
  declared clients and their revocation; and what the connector gets for it: the completion of a request
  (\<open>requests.go\<close>) and the token endpoint (\<open>token.go\<close>).
\<close>

section \<open>Enrollment codes\<close>

text \<open>\<open>*apierr.Error\<close> by the code each refusal has; an invalid request names its parameter.\<close>

datatype owner_error = OwnerNotFound | OwnerInvalid string | OwnerConflict | OwnerInternal

record EnrollmentRequest =
  eqLabel :: string
  eqExpiresIn :: string
  eqScopes :: "string list"
  eqAllowScopes :: "string list"

definition DefaultEnrollmentCeiling :: "string list" where "DefaultEnrollmentCeiling = [ScopeMessagesRead, ScopeMessagesWrite]"

definition MinEnrollmentTTL :: ns where "MinEnrollmentTTL = Minute"
definition MaxEnrollmentTTL :: ns where "MaxEnrollmentTTL = 24 * Hour"

fun extend_ceiling :: "ScopeSet \<Rightarrow> string list \<Rightarrow> owner_error + ScopeSet" where
  "extend_ceiling S [] = Inr S"
| "extend_ceiling S (extra # rest) =
     (case ParseScopes [extra] of None \<Rightarrow> Inl (OwnerInvalid ''allow_scopes'') | Some added \<Rightarrow> extend_ceiling (S \<union> added) rest)"

definition enrollmentCeiling :: "EnrollmentRequest \<Rightarrow> owner_error + ScopeSet" where
  "enrollmentCeiling q =
     (case ParseScopes (if eqScopes q \<noteq> [] then eqScopes q else DefaultEnrollmentCeiling) of
        None \<Rightarrow> Inl (OwnerInvalid ''scopes'')
      | Some base \<Rightarrow>
          (case extend_ceiling base (eqAllowScopes q) of
             Inl e \<Rightarrow> Inl e
           | Inr S \<Rightarrow>
               if S = {} then Inl (OwnerInvalid ''scopes'')
               else if ScopeAdmin \<in> S then Inl (OwnerInvalid ''scopes'')
               else Inr S))"

text \<open>A number of seconds becomes a 64-bit count of nanoseconds, which wraps.\<close>

definition enrollmentTTL :: "oauth_config \<Rightarrow> oauth_env \<Rightarrow> string \<Rightarrow> owner_error + ns" where
  "enrollmentTTL cfg env raw0 =
     (let raw = TrimSpace raw0 in
      if raw = [] then Inr (or_default (15 * Minute) (oeEnrollmentTTL env))
      else case (case ogParseDuration cfg raw of
                   Some t \<Rightarrow> Some t
                 | None \<Rightarrow> map_option (\<lambda>secs. wrap64 (secs * Second)) (ParseInt raw)) of
             None \<Rightarrow> Inl (OwnerInvalid ''expires_in'')
           | Some t \<Rightarrow>
               if t < MinEnrollmentTTL then Inl (OwnerInvalid ''expires_in'')
               else if MaxEnrollmentTTL < t then Inl (OwnerInvalid ''expires_in'')
               else Inr t)"

definition enroll_new :: "oauth_config \<Rightarrow> oauth_env \<Rightarrow> string \<Rightarrow> string \<Rightarrow> ScopeSet \<Rightarrow> ns \<Rightarrow> enroll_row" where
  "enroll_new cfg env label val ceiling ttl =
     \<lparr>enID = oeID env, enCodeHash = EnrollmentCodeHash cfg val, enLabel = label, enScopes = scope_string ceiling,
      enExpiresAtMS = UnixMilli (oeNow env + ttl), enConsumedAtMS = None, enConsumedBy = None, enRevokedAtMS = None,
      enRevokedReason = None, enCreatedAtMS = UnixMilli (oeNow env), enUpdatedAtMS = 0\<rparr>"

text \<open>The answer: the new row's identifier and the code, which is shown this once.\<close>

definition IssueEnrollmentCode ::
  "oauth_config \<Rightarrow> oauth_env \<Rightarrow> EnrollmentRequest \<Rightarrow> string \<Rightarrow> oauth_db \<Rightarrow> (owner_error + string \<times> string) \<times> oauth_db" where
  "IssueEnrollmentCode cfg env q source d =
     (let label = TrimSpace (eqLabel q) in
      if label = [] then (Inl (OwnerInvalid ''label''), d)
      else if eqScopes q \<noteq> [] \<and> eqAllowScopes q \<noteq> [] then (Inl (OwnerInvalid ''scopes''), d)
      else case enrollmentCeiling q of
        Inl e \<Rightarrow> (Inl e, d)
      | Inr ceiling \<Rightarrow>
     (case enrollmentTTL cfg env (eqExpiresIn q) of
        Inl e \<Rightarrow> (Inl e, d)
      | Inr ttl \<Rightarrow>
     (case map_option NewEnrollmentCode (oeSecret env) of
        None \<Rightarrow> (Inl OwnerInternal, d)
      | Some code \<Rightarrow>
          (case CreateEnrollmentCode (od_now env) (enroll_new cfg env label code ceiling ttl) d of
             Inl e \<Rightarrow> (Inl OwnerInternal, d)
           | Inr d' \<Rightarrow> (Inr (oeID env, code), oauth_audit ''enrollment.created'' source d')))))"

definition RevokeEnrollmentCode ::
  "oauth_env \<Rightarrow> string \<Rightarrow> string \<Rightarrow> string \<Rightarrow> oauth_db \<Rightarrow> (owner_error + bool) \<times> oauth_db" where
  "RevokeEnrollmentCode env i reason source d =
     (case EnrollmentCodeByID i d of
        None \<Rightarrow> (Inl OwnerNotFound, d)
      | Some e \<Rightarrow>
          (let (ok, d') = RevokeEnrollmentCodeTx (od_now env) i reason d
           in (Inr ok, if ok then oauth_audit ''enrollment.revoked'' source d' else d')))"

section \<open>The decision on a request\<close>

datatype owner_decision =
    RefuseDecision owner_error
  | ApproveRequest string ScopeSet
  | DenyRequest string string

text \<open>The list of scopes is absent (\<open>None\<close>) or given, perhaps empty.\<close>

definition approve_decide :: "oauth_env \<Rightarrow> string \<Rightarrow> string list option \<Rightarrow> oauth_db \<Rightarrow> owner_decision" where
  "approve_decide env i scopes d =
     (case AuthorizationRequestByID i d of
        None \<Rightarrow> RefuseDecision OwnerNotFound
      | Some row \<Rightarrow>
          if rqStatus row \<noteq> AuthRequestPending then RefuseDecision OwnerConflict
          else if rqExpiresAtMS row \<le> UnixMilli (oeNow env) then RefuseDecision (OwnerInvalid ''id'')
          else case ParseScopeString (rqSelectedScopes row) of
            None \<Rightarrow> RefuseDecision OwnerInternal
          | Some selected \<Rightarrow>
              (case scopes of
                 None \<Rightarrow> ApproveRequest i selected
               | Some [] \<Rightarrow> RefuseDecision (OwnerInvalid ''scopes'')
               | Some (x # xs) \<Rightarrow>
                   (case ParseScopes (x # xs) of
                      None \<Rightarrow> RefuseDecision (OwnerInvalid ''scopes'')
                    | Some requested \<Rightarrow>
                        if requested = {} then RefuseDecision (OwnerInvalid ''scopes'')
                        else if Widens requested selected then RefuseDecision (OwnerInvalid ''scopes'')
                        else ApproveRequest i requested)))"

definition deny_decide :: "string \<Rightarrow> string \<Rightarrow> oauth_db \<Rightarrow> owner_decision" where
  "deny_decide i reason d =
     (case AuthorizationRequestByID i d of
        None \<Rightarrow> RefuseDecision OwnerNotFound
      | Some row \<Rightarrow> if rqStatus row \<noteq> AuthRequestPending then RefuseDecision OwnerConflict else DenyRequest i reason)"

text \<open>The commit: \<open>None\<close> is success.\<close>

definition decision_apply :: "oauth_env \<Rightarrow> string \<Rightarrow> owner_decision \<Rightarrow> oauth_db \<Rightarrow> owner_error option \<times> oauth_db" where
  "decision_apply env source dec d =
     (case dec of
        RefuseDecision e \<Rightarrow> (Some e, d)
      | ApproveRequest i granted \<Rightarrow>
          (let (ok, d') = DecideAuthorizationRequest (od_now env) i AuthRequestApproved (scope_string granted) [] d
           in if ok then (None, oauth_audit ''authorization.approved'' source d') else (Some OwnerConflict, d'))
      | DenyRequest i reason \<Rightarrow>
          (let (ok, d') = DecideAuthorizationRequest (od_now env) i AuthRequestDenied [] reason d
           in if ok then (None, oauth_audit ''authorization.denied'' source d') else (Some OwnerConflict, d')))"

section \<open>Clients\<close>

definition MaxStaticClientIDLength :: nat where "MaxStaticClientIDLength = 128"

definition static_id_rune :: "nat \<Rightarrow> bool" where
  "static_id_rune n \<longleftrightarrow> (97 \<le> n \<and> n \<le> 122) \<or> (65 \<le> n \<and> n \<le> 90) \<or> (48 \<le> n \<and> n \<le> 57) \<or> n = 45 \<or> n = 95 \<or> n = 46"

definition validStaticClientID :: "string \<Rightarrow> bool" where "validStaticClientID i \<longleftrightarrow> list_all static_id_rune (runes i)"

definition PrefixClient :: string where "PrefixClient = ''client_''"

record StaticClientRequest =
  srClientID :: string
  srName :: string
  srRedirectURIs :: "string list"
  srDefaultResource :: bool

definition static_client :: "oauth_env \<Rightarrow> StaticClientRequest \<Rightarrow> string \<Rightarrow> client_row" where
  "static_client env req source =
     \<lparr>ocID = TrimSpace (srClientID req), ocName = nullString (srName req), ocRedirectURIs = srRedirectURIs req,
      ocGrantTypes = [''authorization_code'', ''refresh_token''], ocResponseTypes = [''code''], ocSource = nullString source,
      ocActivatedAtMS = nullInt (UnixMilli (oeNow env)), ocExpiresAtMS = None, ocCreatedAtMS = UnixMilli (oeNow env),
      ocStatic = True, ocDefaultResource = srDefaultResource req\<rparr>"

definition CreateStaticClient ::
  "oauth_config \<Rightarrow> oauth_env \<Rightarrow> StaticClientRequest \<Rightarrow> string \<Rightarrow> oauth_db \<Rightarrow> (owner_error + client_row) \<times> oauth_db" where
  "CreateStaticClient cfg env req source d =
     (let i = TrimSpace (srClientID req); uris = srRedirectURIs req; client = static_client env req source in
      if i = [] \<or> MaxStaticClientIDLength < length i \<or> \<not> validStaticClientID i \<or> take (length PrefixClient) i = PrefixClient
      then (Inl (OwnerInvalid ''client_id''), d)
      else if uris = [] \<or> MaxRedirectURIs < length uris \<or> (\<exists>u \<in> set uris. \<not> ValidateRedirectURI cfg u)
      then (Inl (OwnerInvalid ''redirect_uris''), d)
      else if OAuthClientByID i d \<noteq> None then (Inl (OwnerInvalid ''client_id''), d)
      else case CreateOAuthClient (od_now env) client d of
             Inl e \<Rightarrow> (Inl OwnerInternal, d)
           | Inr d' \<Rightarrow> (Inr client, oauth_audit ''client.created'' source d'))"

text \<open>\<open>RevokeClient\<close> is a read of the client's grants, a revocation of each, and the removal of the client.\<close>

definition revoke_client_decide :: "string \<Rightarrow> oauth_db \<Rightarrow> owner_error + string list" where
  "revoke_client_decide i d =
     (case OAuthClientByID i d of
        None \<Rightarrow> Inl OwnerNotFound
      | Some c \<Rightarrow> Inr (map azID (AuthorizationsForClient i d)))"

fun revoke_each :: "authz_env \<Rightarrow> string \<Rightarrow> string list \<Rightarrow> authz_db \<Rightarrow> bool \<times> authz_db" where
  "revoke_each env source [] d = (True, d)"
| "revoke_each env source (i # is) d =
     (case RevokeAuthorization env i source d of
        (Some e, d') \<Rightarrow> (False, d')
      | (None, d') \<Rightarrow> revoke_each env source is d')"

definition RevokeClient :: "authz_env \<Rightarrow> string \<Rightarrow> string \<Rightarrow> oauth_db \<Rightarrow> (owner_error + nat) \<times> oauth_db" where
  "RevokeClient env i source d =
     (case revoke_client_decide i d of
        Inl e \<Rightarrow> (Inl e, d)
      | Inr grants \<Rightarrow>
          (case revoke_each env source grants (odAuthz d) of
             (False, z) \<Rightarrow> (Inl OwnerInternal, d\<lparr>odAuthz := z\<rparr>)
           | (True, z) \<Rightarrow> (Inr (length grants), oauth_audit ''client.revoked'' source (DeleteOAuthClient i (d\<lparr>odAuthz := z\<rparr>)))))"

section \<open>The waiting page\<close>

abbreviation StatusExpired :: string where "StatusExpired \<equiv> ''expired''"

definition resolveRequest :: "oauth_config \<Rightarrow> string option \<Rightarrow> string \<Rightarrow> oauth_db \<Rightarrow> (request_row \<times> string) option" where
  "resolveRequest cfg cookie i d =
     (case contextHandle cfg cookie of
        None \<Rightarrow> None
      | Some handle \<Rightarrow>
          if i = [] then None
          else case AuthorizationRequestByID i d of
            None \<Rightarrow> None
          | Some q \<Rightarrow> if equalHashHex (digest (ogSha cfg) domainCookieHandle [handle]) (rqHandleHash q) then Some (q, handle) else None)"

definition effectiveStatus :: "ns \<Rightarrow> request_row \<Rightarrow> string" where
  "effectiveStatus now q = (if rqStatus q = AuthRequestPending \<and> rqExpiresAtMS q \<le> UnixMilli now then StatusExpired else rqStatus q)"

text \<open>The write that goes with it.\<close>

definition noteRequestExpired :: "ns \<Rightarrow> request_row \<Rightarrow> oauth_db \<Rightarrow> oauth_db" where
  "noteRequestExpired now q d =
     (if rqStatus q = AuthRequestPending \<and> rqExpiresAtMS q \<le> UnixMilli now
      then AppendAuditOnce ''authorization.expired'' ''authorization_request'' (rqID q) (scanString (rqSource q)) d else d)"

definition requestStatus :: "oauth_config \<Rightarrow> ns \<Rightarrow> string option \<Rightarrow> string \<Rightarrow> oauth_db \<Rightarrow> (string \<times> int) option \<times> oauth_db" where
  "requestStatus cfg now cookie i d =
     (case resolveRequest cfg cookie i d of
        None \<Rightarrow> (None, d)
      | Some (q, handle) \<Rightarrow>
          (Some (effectiveStatus now q, (let left = rqExpiresAtMS q - UnixMilli now in if left < 0 then 0 else left div 1000)), noteRequestExpired now q d))"

record complete_form =
  cfRequestID :: string
  cfCookie :: "string option"
  cfOrigin :: string
  cfReadable :: bool
  cfFormToken :: string

datatype complete_decision =
    CompleteNotFound
  | RefuseComplete oauth_error
  | NotWaiting request_row
  | TellDenied request_row
  | MintCode request_row ScopeSet

definition complete_decide :: "oauth_config \<Rightarrow> oauth_env \<Rightarrow> complete_form \<Rightarrow> oauth_db \<Rightarrow> complete_decision" where
  "complete_decide cfg env f d =
     (case resolveRequest cfg (cfCookie f) (cfRequestID f) d of
        None \<Rightarrow> CompleteNotFound
      | Some (q, handle) \<Rightarrow>
     (case requireSameOrigin cfg (cfOrigin f) of
        Some e \<Rightarrow> RefuseComplete e
      | None \<Rightarrow>
          if \<not> cfReadable f then RefuseComplete (badRequest ErrInvalidRequest)
          else if cfFormToken f \<noteq> formTokenFor cfg handle then RefuseComplete (badRequest ErrInvalidRequest)
          else
            (let status = effectiveStatus (oeNow env) q in
             if status = AuthRequestDenied then TellDenied q
             else if status \<noteq> AuthRequestApproved then NotWaiting q
             else case ParseScopeString (if scanString (rqGrantedScopes q) = [] then rqSelectedScopes q else scanString (rqGrantedScopes q)) of
                    None \<Rightarrow> RefuseComplete (statusError 409 ErrCodeInvalidScope)
                  | Some S \<Rightarrow>
                      if S = {} \<or> ScopeAdmin \<in> S then RefuseComplete (statusError 409 ErrCodeInvalidScope)
                      else MintCode q S)))"

definition code_for :: "oauth_config \<Rightarrow> oauth_env \<Rightarrow> request_row \<Rightarrow> ScopeSet \<Rightarrow> string \<Rightarrow> code_row" where
  "code_for cfg env q S val =
     \<lparr>cdHash = authorizationCodeHash cfg val, cdRequestID = rqID q, cdClientID = rqClientID q, cdRedirectURI = rqRedirectURI q,
      cdCodeChallenge = rqCodeChallenge q, cdScopes = scope_string S, cdResource = rqResource q,
      cdAuthorizationID = None, cdConsumedAtMS = None, cdExpiresAtMS = UnixMilli (oeNow env + code_ttl env),
      cdCreatedAtMS = UnixMilli (oeNow env)\<rparr>"

text \<open>\<open>CompleteCode uri code state scope\<close> and \<open>CompleteDenied uri state\<close> are redirects to the callback, which clear the cookie.\<close>

datatype complete_answer =
    CompleteMissing
  | CompleteRefused oauth_error
  | CompleteDenied string string
  | CompleteCode string string string string

definition complete_apply :: "oauth_config \<Rightarrow> oauth_env \<Rightarrow> complete_decision \<Rightarrow> oauth_db \<Rightarrow> complete_answer \<times> oauth_db" where
  "complete_apply cfg env dec d =
     (case dec of
        CompleteNotFound \<Rightarrow> (CompleteMissing, d)
      | RefuseComplete e \<Rightarrow> (CompleteRefused e, d)
      | NotWaiting q \<Rightarrow> (CompleteRefused (statusError 409 ErrInvalidRequest), noteRequestExpired (oeNow env) q d)
      | TellDenied q \<Rightarrow> (CompleteDenied (rqRedirectURI q) (rqState q), d)
      | MintCode q S \<Rightarrow>
          (case oeSecret env of
             None \<Rightarrow> (CompleteRefused (statusError 500 ErrServerError), d)
           | Some val \<Rightarrow>
               (let now = od_now env; (ok, d1) = CompleteAuthorizationRequest now (rqID q) d in
                if \<not> ok then (CompleteRefused (statusError 409 ErrInvalidRequest), d)
                else case IssueAuthorizationCode now (code_for cfg env q S val) d1 of
                       Inl e \<Rightarrow> (CompleteRefused (statusError 500 ErrServerError), d)
                     | Inr d2 \<Rightarrow>
                         (CompleteCode (rqRedirectURI q) val (rqState q) (scope_string S),
                          oauth_audit ''authorization.approved'' (scanString (rqSource q)) d2))))"

definition requestComplete :: "oauth_config \<Rightarrow> oauth_env \<Rightarrow> complete_form \<Rightarrow> oauth_db \<Rightarrow> complete_answer \<times> oauth_db" where
  "requestComplete cfg env f d = complete_apply cfg env (complete_decide cfg env f d) d"

section \<open>The token endpoint\<close>

record token_form =
  tfContentType :: string
  tfReadable :: bool
  tfTooLarge :: bool
  tfGrantType :: string
  tfCode :: string
  tfClientID :: string
  tfRedirectURI :: string
  tfCodeVerifier :: string
  tfResource :: string
  tfRefreshToken :: string
  tfScope :: string
  tfToken :: string
  tfSource :: string

abbreviation "ErrUnsupportedGrantType \<equiv> ''unsupported_grant_type''"

definition requireForm :: "token_form \<Rightarrow> oauth_error option" where
  "requireForm f =
     (let ct = ToLower (TrimSpace (takeWhile (\<lambda>c. c \<noteq> CHR '';'') (tfContentType f))) in
      if ct \<noteq> ''application/x-www-form-urlencoded'' then Some (badRequest ErrInvalidRequest)
      else if \<not> tfReadable f
      then Some (if tfTooLarge f then statusError 413 ErrInvalidRequest else badRequest ErrInvalidRequest)
      else None)"

definition verify_code :: "oauth_config \<Rightarrow> token_form \<Rightarrow> code_row \<Rightarrow> authz_error option" where
  "verify_code cfg f code =
     (if tfClientID f \<noteq> cdClientID code then Some (ErrBinding ''the code was issued to another client'')
      else if tfRedirectURI f \<noteq> cdRedirectURI code then Some (ErrBinding ''redirect_uri does not match the code'')
      else if \<not> verifyPKCE cfg (tfCodeVerifier f) (cdCodeChallenge code) then Some (ErrBinding ''the PKCE verifier does not match'')
      else if cdResource code \<noteq> Resource cfg then Some (ErrBinding ''the code is bound to another resource'')
      else None)"

definition code_exchange :: "oauth_config \<Rightarrow> token_form \<Rightarrow> CodeExchange" where
  "code_exchange cfg f =
     \<lparr>exCodeHash = authorizationCodeHash cfg (tfCode f), exClientID = tfClientID f, exSource = tfSource f, exVerify = verify_code cfg f\<rparr>"

datatype token_decision =
    RefuseToken oauth_error
  | ExchangeToken CodeExchange exchange_decision
  | RefreshToken refreshParams refresh_decision

definition grantAuthorizationCode :: "oauth_config \<Rightarrow> authz_env \<Rightarrow> token_form \<Rightarrow> oauth_db \<Rightarrow> token_decision" where
  "grantAuthorizationCode cfg env f d =
     (if tfCode f = [] \<or> tfClientID f = [] \<or> tfRedirectURI f = [] \<or> tfCodeVerifier f = []
      then RefuseToken (badRequest ErrInvalidRequest)
      else if tfResource f \<noteq> [] \<and> tfResource f \<noteq> Resource cfg then RefuseToken (badRequest ErrInvalidTarget)
      else ExchangeToken (code_exchange cfg f) (exchange_decide env (code_exchange cfg f) (odAuthz d)))"

definition grantRefreshToken :: "service \<Rightarrow> authz_env \<Rightarrow> token_form \<Rightarrow> oauth_db \<Rightarrow> token_decision" where
  "grantRefreshToken svc env f d =
     (if tfRefreshToken f = [] \<or> tfClientID f = [] then RefuseToken (badRequest ErrInvalidRequest)
      else let p = RefreshOAuth_params (tfRefreshToken f) (tfClientID f) (Fields (TrimSpace (tfScope f))) (tfSource f)
           in RefreshToken p (refresh_decide svc env p (odAuthz d)))"

definition token_decide :: "oauth_config \<Rightarrow> service \<Rightarrow> authz_env \<Rightarrow> token_form \<Rightarrow> oauth_db \<Rightarrow> token_decision" where
  "token_decide cfg svc env f d =
     (case requireForm f of
        Some e \<Rightarrow> RefuseToken e
      | None \<Rightarrow>
          if tfGrantType f = ''authorization_code'' then grantAuthorizationCode cfg env f d
          else if tfGrantType f = ''refresh_token'' then grantRefreshToken svc env f d
          else if tfGrantType f = [] then RefuseToken (badRequest ErrInvalidRequest)
          else RefuseToken (badRequest ErrUnsupportedGrantType))"

definition token_apply :: "service \<Rightarrow> authz_env \<Rightarrow> token_decision \<Rightarrow> oauth_db \<Rightarrow> (oauth_error + Session) \<times> oauth_db" where
  "token_apply svc env dec d =
     (case dec of
        RefuseToken e \<Rightarrow> (Inl e, d)
      | ExchangeToken x xd \<Rightarrow> (let (r, z) = exchange_apply svc env x xd (odAuthz d) in (map_sum translate id r, d\<lparr>odAuthz := z\<rparr>))
      | RefreshToken p pd \<Rightarrow> (let (r, z) = refresh_apply svc env p pd (odAuthz d) in (map_sum translate id r, d\<lparr>odAuthz := z\<rparr>)))"

definition token :: "oauth_config \<Rightarrow> service \<Rightarrow> authz_env \<Rightarrow> token_form \<Rightarrow> oauth_db \<Rightarrow> (oauth_error + Session) \<times> oauth_db" where
  "token cfg svc env f d = token_apply svc env (token_decide cfg svc env f d) d"

text \<open>\<open>revoke\<close>: the refusal, if any; everything else is 200.\<close>

definition revoke :: "service \<Rightarrow> authz_env \<Rightarrow> token_form \<Rightarrow> oauth_db \<Rightarrow> oauth_error option \<times> oauth_db" where
  "revoke svc env f d =
     (case requireForm f of
        Some e \<Rightarrow> (Some e, d)
      | None \<Rightarrow>
          (let (r, z) = RevokeToken svc env (tfToken f) (tfClientID f) (tfSource f) (odAuthz d)
           in (case r of
                 None \<Rightarrow> None
               | Some (AuthzRateLimited e) \<Rightarrow> Some (translate (AuthzRateLimited e))
               | Some _ \<Rightarrow> Some (statusError 500 ErrServerError), d\<lparr>odAuthz := z\<rparr>)))"

end
