(* ===== verification/Oauth_Runs.thy ===== *)
theory Oauth_Runs
  imports Oauth_Owner Authz_Rows
begin

text \<open>
  All the requests of the OAuth server as one step relation, with reads and commits apart, and its invariant:
  what an enrollment code, the owner's approval, an authorization code and a session have to do with each other.
\<close>

section \<open>Requests in any order\<close>

text \<open>Decisions that wait to be committed, and four histories, by the enrollment code they began with: the
  requests made, the scopes approved, the codes issued; and the sessions the codes were exchanged for.\<close>

record oauth_sys =
  osDB :: oauth_db
  osPosts :: "post_decision list"
  osDecisions :: "owner_decision list"
  osCompletes :: "complete_decision list"
  osTokens :: "token_decision list"
  osRevokes :: "(string \<times> revoke_decision) list"
  osRemovals :: "(string \<times> string list) list"
  osRequested :: "(string \<times> string) list"
  osApproved :: "(string \<times> ScopeSet) list"
  osIssued :: "(string \<times> string) list"
  osGranted :: "(string \<times> ScopeSet) list"

definition enrollment_of :: "request_row \<Rightarrow> string" where "enrollment_of q = scanString (rqEnrollmentCodeID q)"

definition requested_by :: "post_decision \<Rightarrow> post_answer \<Rightarrow> (string \<times> string) list" where
  "requested_by dec res = (case (dec, res) of (CreatePost p, PostWaiting i) \<Rightarrow> [(enID (prEnrollment p), i)] | _ \<Rightarrow> [])"

definition approved_by :: "oauth_db \<Rightarrow> owner_decision \<Rightarrow> owner_error option \<Rightarrow> (string \<times> ScopeSet) list" where
  "approved_by d dec res =
     (case (dec, res) of
        (ApproveRequest i G, None) \<Rightarrow> (case AuthorizationRequestByID i d of None \<Rightarrow> [] | Some q \<Rightarrow> [(enrollment_of q, G)])
      | _ \<Rightarrow> [])"

definition issued_by :: "oauth_config \<Rightarrow> complete_decision \<Rightarrow> complete_answer \<Rightarrow> (string \<times> string) list" where
  "issued_by cfg dec res =
     (case (dec, res) of (MintCode q S, CompleteCode uri code st sc) \<Rightarrow> [(enrollment_of q, authorizationCodeHash cfg code)] | _ \<Rightarrow> [])"

definition granted_by :: "token_decision \<Rightarrow> oauth_error + Session \<Rightarrow> (string \<times> ScopeSet) list" where
  "granted_by dec res =
     (case (dec, res) of (ExchangeToken x (MintGrant c g S), Inr sn) \<Rightarrow> [(cdHash c, snMintedScopes sn)] | _ \<Rightarrow> [])"

text \<open>Identifiers and code values are random: those drawn are new.\<close>

inductive oauth_step :: "oauth_config \<Rightarrow> service \<Rightarrow> oauth_sys \<Rightarrow> oauth_sys \<Rightarrow> bool" for cfg svc where
  register: "oauth_step cfg svc s (s\<lparr>osDB := snd (Register cfg env req src (osDB s))\<rparr>)"
| sweep: "oauth_step cfg svc s (s\<lparr>osDB := snd (SweepExpiredRegistrations now (osDB s))\<rparr>)"
| declare_client: "oauth_step cfg svc s (s\<lparr>osDB := snd (CreateStaticClient cfg env static src (osDB s))\<rparr>)"
| enroll: "oeID env \<noteq> [] \<Longrightarrow> oauth_step cfg svc s (s\<lparr>osDB := snd (IssueEnrollmentCode cfg env q src (osDB s))\<rparr>)"
| revoke_code: "oauth_step cfg svc s (s\<lparr>osDB := snd (RevokeEnrollmentCode env i reason src (osDB s))\<rparr>)"
| read_post: "oauth_step cfg svc s (s\<lparr>osPosts := post_decide cfg env f (osDB s) # osPosts s\<rparr>)"
| commit_post: "dec \<in> set (osPosts s) \<Longrightarrow> oeID env \<notin> snd ` set (osRequested s) \<Longrightarrow> post_apply cfg env dec (osDB s) = (res, d') \<Longrightarrow>
    oauth_step cfg svc s (s\<lparr>osDB := d', osPosts := remove1 dec (osPosts s), osRequested := osRequested s @ requested_by dec res\<rparr>)"
| read_approve: "oauth_step cfg svc s (s\<lparr>osDecisions := approve_decide env i scopes (osDB s) # osDecisions s\<rparr>)"
| read_deny: "oauth_step cfg svc s (s\<lparr>osDecisions := deny_decide i reason (osDB s) # osDecisions s\<rparr>)"
| commit_decision: "own \<in> set (osDecisions s) \<Longrightarrow> decision_apply env src own (osDB s) = (answer, d') \<Longrightarrow>
    oauth_step cfg svc s (s\<lparr>osDB := d', osDecisions := remove1 own (osDecisions s), osApproved := osApproved s @ approved_by (osDB s) own answer\<rparr>)"
| poll: "oauth_step cfg svc s (s\<lparr>osDB := snd (requestStatus cfg at cookie i (osDB s))\<rparr>)"
| read_complete: "oauth_step cfg svc s (s\<lparr>osCompletes := complete_decide cfg env cf (osDB s) # osCompletes s\<rparr>)"
| commit_complete: "com \<in> set (osCompletes s) \<Longrightarrow> (\<forall>v. oeSecret env = Some v \<longrightarrow> authorizationCodeHash cfg v \<notin> snd ` set (osIssued s)) \<Longrightarrow>
    complete_apply cfg env com (osDB s) = (told, d') \<Longrightarrow>
    oauth_step cfg svc s (s\<lparr>osDB := d', osCompletes := remove1 com (osCompletes s), osIssued := osIssued s @ issued_by cfg com told\<rparr>)"
| read_token: "oauth_step cfg svc s (s\<lparr>osTokens := token_decide cfg svc zenv tf (osDB s) # osTokens s\<rparr>)"
| read_admin_refresh:
    "oauth_step cfg svc s (s\<lparr>osTokens := RefreshToken p (refresh_decide svc zenv p (odAuthz (osDB s))) # osTokens s\<rparr>)"
| commit_token: "tok \<in> set (osTokens s) \<Longrightarrow> token_apply svc zenv tok (osDB s) = (session, d') \<Longrightarrow>
    oauth_step cfg svc s (s\<lparr>osDB := d', osTokens := remove1 tok (osTokens s), osGranted := osGranted s @ granted_by tok session\<rparr>)"
| mint_admin: "oauth_step cfg svc s (s\<lparr>osDB := (osDB s)\<lparr>odAuthz := snd (MintAdminSession svc zenv presented scopes src (odAuthz (osDB s)))\<rparr>\<rparr>)"
| read_revoke: "oauth_step cfg svc s (s\<lparr>osRevokes := (src, revoke_decide svc zenv presented i src (odAuthz (osDB s))) # osRevokes s\<rparr>)"
| commit_revoke: "(src, rvk) \<in> set (osRevokes s) \<Longrightarrow>
    oauth_step cfg svc s (s\<lparr>osDB := (osDB s)\<lparr>odAuthz := snd (revoke_apply zenv src rvk (odAuthz (osDB s)))\<rparr>, osRevokes := remove1 (src, rvk) (osRevokes s)\<rparr>)"
| owner_revokes: "oauth_step cfg svc s (s\<lparr>osDB := (osDB s)\<lparr>odAuthz := snd (RevokeAuthorization zenv i src (odAuthz (osDB s)))\<rparr>\<rparr>)"
| read_removal: "revoke_client_decide i (osDB s) = Inr grants \<Longrightarrow> oauth_step cfg svc s (s\<lparr>osRemovals := (i, grants) # osRemovals s\<rparr>)"
| revoke_one: "(i, g # gs) \<in> set (osRemovals s) \<Longrightarrow> RevokeAuthorization zenv g src (odAuthz (osDB s)) = (e, z) \<Longrightarrow>
    oauth_step cfg svc s (s\<lparr>osDB := (osDB s)\<lparr>odAuthz := z\<rparr>,
      osRemovals := (if e = None then [(i, gs)] else []) @ remove1 (i, g # gs) (osRemovals s)\<rparr>)"
| remove_client: "(i, []) \<in> set (osRemovals s) \<Longrightarrow>
    oauth_step cfg svc s (s\<lparr>osDB := oauth_audit ''client.revoked'' src (DeleteOAuthClient i (osDB s)), osRemovals := remove1 (i, []) (osRemovals s)\<rparr>)"
| restart: "oauth_step cfg svc s (s\<lparr>osDB := (osDB s)\<lparr>odAuthz := snd (RevokeSupersededAdminSessions svc now (odAuthz (osDB s)))\<rparr>,
      osPosts := [], osDecisions := [], osCompletes := [], osTokens := [], osRevokes := [], osRemovals := []\<rparr>)"

abbreviation oauth_run :: "oauth_config \<Rightarrow> service \<Rightarrow> oauth_sys \<Rightarrow> oauth_sys \<Rightarrow> bool" where
  "oauth_run cfg svc \<equiv> (oauth_step cfg svc)\<^sup>*\<^sup>*"

definition no_oauth :: oauth_sys where
  "no_oauth = \<lparr>osDB = \<lparr>odAuthz = \<lparr>zdAuths = [], zdTokens = [], zdCodes = [], zdAttempts = [], zdAudit = []\<rparr>, odClients = [],
       odEnrolls = [], odRequests = []\<rparr>, osPosts = [], osDecisions = [], osCompletes = [], osTokens = [], osRevokes = [],
     osRemovals = [], osRequested = [], osApproved = [], osIssued = [], osGranted = []\<rparr>"

section \<open>Codes under the credential service\<close>

definition code_le :: "code_row \<Rightarrow> code_row \<Rightarrow> bool" where
  "code_le c c' \<longleftrightarrow> cdHash c' = cdHash c \<and> cdRequestID c' = cdRequestID c \<and> cdClientID c' = cdClientID c \<and>
     cdRedirectURI c' = cdRedirectURI c \<and> cdCodeChallenge c' = cdCodeChallenge c \<and> cdScopes c' = cdScopes c \<and>
     cdResource c' = cdResource c \<and> (cdConsumedAtMS c \<noteq> None \<longrightarrow> cdConsumedAtMS c' \<noteq> None)"

definition codes_le :: "authz_db \<Rightarrow> authz_db \<Rightarrow> bool" where
  "codes_le z z' \<longleftrightarrow> list_all2 code_le (zdCodes z) (zdCodes z')"

lemma codes_le_refl [simp]: "codes_le z z"
  by (simp add: codes_le_def code_le_def list_all2_same)

lemma codes_le_same: "zdCodes z' = zdCodes z \<Longrightarrow> codes_le z z'"
  unfolding codes_le_def code_le_def by (simp add: list_all2_same)

lemma codes_le_consume: "codes_le z (snd (ConsumeAuthorizationCode now h i z))"
  by (simp add: codes_le_def code_le_def ConsumeAuthorizationCode_def update_where_def list_all2_map2 list_all2_same)

lemma pair_codes: "token_pair svc now a f x r ax rx z = Inr z' \<Longrightarrow> zdCodes z' = zdCodes z"
  by (auto simp: token_pair_def dest!: same_codes_writes(2) split: sum.splits)

lemma grant_codes: "write_grant svc now k s g z = Inr z' \<Longrightarrow> zdCodes z' = zdCodes z"
  by (auto simp: write_grant_def dest!: same_codes_writes(3) pair_codes split: sum.splits)

lemma rotate_codes: "zdCodes (snd (rotate_tx svc env p r z)) = zdCodes z"
proof -
  have audit: "zdCodes z2 = zdCodes z1" if "map_sum id (AppendAudit k b i s) r = Inr z2" "\<And>z'. r = Inr z' \<Longrightarrow> zdCodes z' = zdCodes z1"
    for k b i s r z1 z2 using that by (cases r) auto
  show ?thesis
    by (auto simp: rotate_tx_def Let_def revokeFamilyTx_def dest!: same_codes_writes pair_codes audit dest: same_codes_writes(4)
        split: sum.splits option.splits if_splits)
qed

lemma service_codes:
  "zdCodes (snd (refresh_apply svc env p dec z)) = zdCodes z"
  "zdCodes (snd (MintAdminSession svc env v scopes src z)) = zdCodes z"
  "zdCodes (snd (revoke_apply env src rvk z)) = zdCodes z"
  "zdCodes (snd (RevokeAuthorization env i src z)) = zdCodes z"
  "zdCodes (snd (RevokeSupersededAdminSessions svc now z)) = zdCodes z"
proof -
  show "zdCodes (snd (refresh_apply svc env p dec z)) = zdCodes z"
    by (simp add: refresh_apply_def Let_def record_failure_def revokeFamilyTx_def rotate_codes split: refresh_decision.split)
  show "zdCodes (snd (MintAdminSession svc env v scopes src z)) = zdCodes z"
    by (auto simp: MintAdminSession_def Let_def record_failure_def dest!: grant_codes split: sum.split option.split)
  show "zdCodes (snd (revoke_apply env src rvk z)) = zdCodes z"
    by (simp add: revoke_apply_def Let_def revoke_grant_def split: revoke_decision.split)
  show "zdCodes (snd (RevokeAuthorization env i src z)) = zdCodes z"
    by (simp add: RevokeAuthorization_def revoke_grant_def split: option.split)
  have "zdCodes (foldl (revoke_superseded now) z ids) = zdCodes z" for ids
    by (induction ids rule: rev_induct) (simp_all add: revoke_superseded_def)
  then show "zdCodes (snd (RevokeSupersededAdminSessions svc now z)) = zdCodes z"
    by (simp add: RevokeSupersededAdminSessions_def RevokeAdminAuthorizationsFromOtherSecrets_def Let_def)
qed

lemma exchange_codes: "codes_le z (snd (exchange_apply svc env x dec z))"
proof -
  have same: "codes_le z' (record_failure env l k s z'')" "codes_le z' (count_failure env l s z'')"
    "codes_le z' (AppendAudit k r i s z'')" "codes_le z' (revokeAfterReplay env s c z'')"
    if "codes_le z' z''" for z' z'' l k r i s c
    using that by (simp_all add: codes_le_def record_failure_def revokeAfterReplay_def split: option.split)
  have consumed: "codes_le z z1" if "ConsumeAuthorizationCode (tx_now env) h i z = (ok, z1)" for h i ok z1
    using codes_le_consume [of z "tx_now env" h i] that by simp
  have written: "codes_le z z1 \<Longrightarrow> codes_le z z2" if "write_grant svc (tx_now env) k s g z1 = Inr z2" for k s g z1 z2
    using grant_codes [OF that] by (simp add: codes_le_def)
  show ?thesis
    by (cases dec) (auto simp: exchange_apply_def Let_def dest!: consumed dest: written split: sum.splits option.splits prod.splits
          intro!: same codes_le_consume)
qed

end
