(* ===== verification/Oauth_Chain.thy ===== *)
theory Oauth_Chain
  imports Oauth_Runs
begin

text \<open>
  The invariant of a run of the OAuth server: from the enrollment code over the request, the approval and the
  authorization code to the session, each step is taken at most once and none widens what the one before allowed.
\<close>

section \<open>The invariant\<close>

definition enroll_ok :: "enroll_row \<Rightarrow> bool" where
  "enroll_ok e \<longleftrightarrow> enID e \<noteq> [] \<and> (enConsumedAtMS e = None \<longleftrightarrow> enConsumedBy e = None) \<and>
     (\<exists>C. ParseScopeString (enScopes e) = Some C \<and> ScopeAdmin \<notin> C)"

text \<open>The scopes are within the ceiling of the enrollment code.\<close>

definition capped :: "oauth_db \<Rightarrow> string \<Rightarrow> ScopeSet \<Rightarrow> bool" where
  "capped d i G \<longleftrightarrow> G \<noteq> {} \<and> G \<subseteq> set canonicalOrder \<and>
     (\<exists>e \<in> set (odEnrolls d). enID e = i \<and> (\<exists>C. ParseScopeString (enScopes e) = Some C \<and> G \<subseteq> C \<and> ScopeAdmin \<notin> C))"

definition request_ok :: "oauth_db \<Rightarrow> request_row \<Rightarrow> bool" where
  "request_ok d q \<longleftrightarrow> (\<exists>S. ParseScopeString (rqSelectedScopes q) = Some S \<and> capped d (enrollment_of q) S \<and>
     (if rqStatus q \<in> {AuthRequestApproved, AuthRequestCompleted}
      then \<exists>G. rqGrantedScopes q = Some (scope_string G) \<and> G \<noteq> {} \<and> G \<subseteq> S
      else rqStatus q \<in> {AuthRequestPending, AuthRequestDenied} \<and> rqGrantedScopes q = None)) \<and>
     rqClientID q \<in> ocID ` set (odClients d)"

text \<open>A code says what its request says, which is completed.\<close>

definition code_of :: "request_row \<Rightarrow> code_row \<Rightarrow> bool" where
  "code_of q c \<longleftrightarrow> rqID q = cdRequestID c \<and> rqStatus q = AuthRequestCompleted \<and> rqGrantedScopes q = Some (cdScopes c) \<and>
     cdClientID c = rqClientID q \<and> cdRedirectURI c = rqRedirectURI q \<and> cdCodeChallenge c = rqCodeChallenge q \<and> cdResource c = rqResource q"

definition tables_ok :: "oauth_db \<Rightarrow> bool" where
  "tables_ok d \<longleftrightarrow> distinct (map enID (odEnrolls d)) \<and> distinct (map rqID (odRequests d)) \<and>
     distinct (map cdRequestID (zdCodes (odAuthz d))) \<and> (\<forall>e \<in> set (odEnrolls d). enroll_ok e) \<and>
     (\<forall>q \<in> set (odRequests d). request_ok d q) \<and> (\<forall>c \<in> set (zdCodes (odAuthz d)). \<exists>q \<in> set (odRequests d). code_of q c)"

text \<open>The enrollment code has been consumed.\<close>

definition seen :: "oauth_db \<Rightarrow> string \<Rightarrow> bool" where
  "seen d i \<longleftrightarrow> (\<exists>e \<in> set (odEnrolls d). enID e = i \<and> enConsumedBy e \<noteq> None)"

definition once :: "oauth_sys \<Rightarrow> bool" where
  "once s \<longleftrightarrow> distinct (map fst (osRequested s)) \<and> distinct (map snd (osRequested s)) \<and> distinct (map fst (osApproved s)) \<and>
     distinct (map fst (osIssued s)) \<and> distinct (map snd (osIssued s)) \<and> distinct (map fst (osGranted s))"

definition history_ok :: "oauth_sys \<Rightarrow> bool" where
  "history_ok s \<longleftrightarrow> once s \<and> (\<forall>i r. (i, r) \<in> set (osRequested s) \<longrightarrow> seen (osDB s) i) \<and>
     (\<forall>i G. (i, G) \<in> set (osApproved s) \<longrightarrow> i \<in> fst ` set (osRequested s) \<and> capped (osDB s) i G) \<and>
     (\<forall>i h. (i, h) \<in> set (osIssued s) \<longrightarrow> i \<in> fst ` set (osApproved s)) \<and>
     (\<forall>h S. (h, S) \<in> set (osGranted s) \<longrightarrow> (\<exists>i. (i, h) \<in> set (osIssued s) \<and> (i, S) \<in> set (osApproved s)))"

text \<open>What a row has to do with the histories.\<close>

definition logged :: "oauth_sys \<Rightarrow> request_row \<Rightarrow> bool" where
  "logged s q \<longleftrightarrow> (enrollment_of q, rqID q) \<in> set (osRequested s) \<and>
     (rqStatus q = AuthRequestPending \<longrightarrow> enrollment_of q \<notin> fst ` set (osApproved s)) \<and>
     (rqStatus q \<noteq> AuthRequestCompleted \<longrightarrow> enrollment_of q \<notin> fst ` set (osIssued s)) \<and>
     (\<forall>G. rqGrantedScopes q = Some (scope_string G) \<and> G \<subseteq> set canonicalOrder \<longrightarrow> (enrollment_of q, G) \<in> set (osApproved s))"

definition code_logged :: "oauth_sys \<Rightarrow> code_row \<Rightarrow> bool" where
  "code_logged s c \<longleftrightarrow> (\<exists>q \<in> set (odRequests (osDB s)). rqID q = cdRequestID c \<and> (enrollment_of q, cdHash c) \<in> set (osIssued s)) \<and>
     (cdHash c \<in> fst ` set (osGranted s) \<longrightarrow> cdConsumedAtMS c \<noteq> None)"

definition rows_ok :: "oauth_sys \<Rightarrow> bool" where
  "rows_ok s \<longleftrightarrow> (\<forall>q \<in> set (odRequests (osDB s)). logged s q) \<and> (\<forall>c \<in> set (zdCodes (odAuthz (osDB s))). code_logged s c)"

definition same_request :: "request_row \<Rightarrow> request_row \<Rightarrow> bool" where
  "same_request q q' \<longleftrightarrow> enrollment_of q' = enrollment_of q \<and> rqClientID q' = rqClientID q \<and> rqRedirectURI q' = rqRedirectURI q \<and>
     rqCodeChallenge q' = rqCodeChallenge q \<and> rqResource q' = rqResource q"

definition create_ok :: "oauth_db \<Rightarrow> post_decision \<Rightarrow> bool" where
  "create_ok d dec \<longleftrightarrow> (\<forall>p. dec = CreatePost p \<longrightarrow> enID (prEnrollment p) \<noteq> [] \<and> capped d (enID (prEnrollment p)) (prSelected p))"

definition approving :: "oauth_sys \<Rightarrow> string \<Rightarrow> ScopeSet \<Rightarrow> bool" where
  "approving s i G \<longleftrightarrow> i \<in> snd ` set (osRequested s) \<and> G \<noteq> {} \<and>
     (\<forall>q \<in> set (odRequests (osDB s)). rqID q = i \<longrightarrow> (\<exists>S. ParseScopeString (rqSelectedScopes q) = Some S \<and> G \<subseteq> S))"

definition approve_ok :: "oauth_sys \<Rightarrow> owner_decision \<Rightarrow> bool" where
  "approve_ok s dec \<longleftrightarrow> (\<forall>i G. dec = ApproveRequest i G \<longrightarrow> approving s i G)"

definition minting :: "oauth_sys \<Rightarrow> request_row \<Rightarrow> ScopeSet \<Rightarrow> bool" where
  "minting s q S \<longleftrightarrow> rqID q \<in> snd ` set (osRequested s) \<and> S \<noteq> {} \<and> S \<subseteq> set canonicalOrder \<and>
     (\<forall>q' \<in> set (odRequests (osDB s)). rqID q' = rqID q \<longrightarrow> same_request q q' \<and> rqGrantedScopes q' = Some (scope_string S))"

definition mint_ok :: "oauth_sys \<Rightarrow> complete_decision \<Rightarrow> bool" where
  "mint_ok s dec \<longleftrightarrow> (\<forall>q S. dec = MintCode q S \<longrightarrow> minting s q S)"

definition exchange_ok :: "oauth_sys \<Rightarrow> token_decision \<Rightarrow> bool" where
  "exchange_ok s dec \<longleftrightarrow> (\<forall>x c g S. dec = ExchangeToken x (MintGrant c g S) \<longrightarrow>
     (\<exists>i. (i, cdHash c) \<in> set (osIssued s) \<and> (i, S) \<in> set (osApproved s)))"

definition pending_ok :: "oauth_sys \<Rightarrow> bool" where
  "pending_ok s \<longleftrightarrow> (\<forall>dec \<in> set (osPosts s). create_ok (osDB s) dec) \<and> (\<forall>dec \<in> set (osDecisions s). approve_ok s dec) \<and>
     (\<forall>dec \<in> set (osCompletes s). mint_ok s dec) \<and> (\<forall>dec \<in> set (osTokens s). exchange_ok s dec)"

definition oauth_ok :: "oauth_sys \<Rightarrow> bool" where
  "oauth_ok s \<longleftrightarrow> tables_ok (osDB s) \<and> history_ok s \<and> rows_ok s \<and> pending_ok s"

section \<open>Changes that leave the chain alone\<close>

definition enroll_le :: "enroll_row \<Rightarrow> enroll_row \<Rightarrow> bool" where
  "enroll_le e e' \<longleftrightarrow> enID e' = enID e \<and> enScopes e' = enScopes e \<and> (enConsumedBy e \<noteq> None \<longrightarrow> enConsumedBy e' \<noteq> None)"

definition enrolls_le :: "oauth_db \<Rightarrow> oauth_db \<Rightarrow> bool" where
  "enrolls_le d d' \<longleftrightarrow> (\<forall>e \<in> set (odEnrolls d). \<exists>e' \<in> set (odEnrolls d'). enroll_le e e')"

definition calm :: "oauth_db \<Rightarrow> oauth_db \<Rightarrow> bool" where
  "calm d d' \<longleftrightarrow> odRequests d' = odRequests d \<and> codes_le (odAuthz d) (odAuthz d') \<and> ocID ` set (odClients d) \<subseteq> ocID ` set (odClients d') \<and>
     enrolls_le d d' \<and> (distinct (map enID (odEnrolls d)) \<and> (\<forall>e \<in> set (odEnrolls d). enroll_ok e) \<longrightarrow>
       distinct (map enID (odEnrolls d')) \<and> (\<forall>e \<in> set (odEnrolls d'). enroll_ok e))"

lemma enrolls_le_refl [simp]: "enrolls_le d d"
  by (auto simp: enrolls_le_def enroll_le_def)

lemma enrolls_le_same: "odEnrolls d' = odEnrolls d \<Longrightarrow> enrolls_le d d'"
  by (auto simp: enrolls_le_def enroll_le_def)

lemma db_calm_refl [simp]: "calm d d"
  by (simp add: calm_def)

lemma codes_le_trans: "codes_le a b \<Longrightarrow> codes_le b c \<Longrightarrow> codes_le a c"
  unfolding codes_le_def by (rule list_all2_trans [of code_le code_le]) (auto simp: code_le_def)

lemma enrolls_le_trans: "enrolls_le d1 d2 \<Longrightarrow> enrolls_le d2 d3 \<Longrightarrow> enrolls_le d1 d3"
  unfolding enrolls_le_def
proof (intro ballI)
  fix e assume "\<forall>e \<in> set (odEnrolls d1). \<exists>e' \<in> set (odEnrolls d2). enroll_le e e'"
    "\<forall>e \<in> set (odEnrolls d2). \<exists>e' \<in> set (odEnrolls d3). enroll_le e e'" "e \<in> set (odEnrolls d1)"
  then obtain e2 e3 where "enroll_le e e2" "e3 \<in> set (odEnrolls d3)" "enroll_le e2 e3" by blast
  then show "\<exists>e3 \<in> set (odEnrolls d3). enroll_le e e3" by (auto simp: enroll_le_def)
qed

lemma db_calm_trans:
  assumes "calm d1 d2" "calm d2 d3"
  shows "calm d1 d3"
proof -
  have "codes_le (odAuthz d1) (odAuthz d3)" "enrolls_le d1 d3"
    using assms unfolding calm_def by (blast intro: codes_le_trans enrolls_le_trans)+
  then show ?thesis using assms unfolding calm_def by (simp only: simp_thms) blast
qed

lemma capped_mono: "capped d i G \<Longrightarrow> enrolls_le d d' \<Longrightarrow> capped d' i G"
  unfolding capped_def enrolls_le_def enroll_le_def by fastforce

lemma seen_mono: "seen d i \<Longrightarrow> enrolls_le d d' \<Longrightarrow> seen d' i"
  unfolding seen_def enrolls_le_def enroll_le_def by fastforce

lemma codes_leD:
  assumes "codes_le z z'" "c' \<in> set (zdCodes z')"
  shows "\<exists>c \<in> set (zdCodes z). code_le c c'"
  using assms unfolding codes_le_def by (metis list_all2_conv_all_nth in_set_conv_nth)

lemma codes_le_keys: "codes_le z z' \<Longrightarrow> map cdRequestID (zdCodes z') = map cdRequestID (zdCodes z)"
  unfolding codes_le_def by (induction rule: list_all2_induct) (auto simp: code_le_def)

lemma calm_tables:
  assumes "calm d d'" "tables_ok d"
  shows "tables_ok d'"
proof -
  have "enrolls_le d d'" "ocID ` set (odClients d) \<subseteq> ocID ` set (odClients d')" using assms(1) by (simp_all add: calm_def)
  then have "request_ok d' q" if "request_ok d q" for q
    using that unfolding request_ok_def by (blast intro: capped_mono)
  moreover have "\<exists>q \<in> set (odRequests d'). code_of q c'" if "c' \<in> set (zdCodes (odAuthz d'))" for c'
    using codes_leD [OF _ that, of "odAuthz d"] assms unfolding tables_ok_def calm_def by (fastforce simp: code_of_def code_le_def)
  moreover have "map cdRequestID (zdCodes (odAuthz d')) = map cdRequestID (zdCodes (odAuthz d))" "odRequests d' = odRequests d"
    using assms(1) codes_le_keys by (simp_all add: calm_def)
  moreover have "distinct (map enID (odEnrolls d')) \<and> (\<forall>e \<in> set (odEnrolls d'). enroll_ok e)"
    using assms unfolding tables_ok_def calm_def by blast
  ultimately show ?thesis using assms(2) by (simp add: tables_ok_def)
qed

lemma calm_ok:
  assumes "calm (osDB s) d'" "oauth_ok s"
  shows "oauth_ok (s\<lparr>osDB := d'\<rparr>)"
proof -
  from assms(1) have le: "enrolls_le (osDB s) d'" "codes_le (odAuthz (osDB s)) (odAuthz d')" and q: "odRequests d' = odRequests (osDB s)"
    by (simp_all add: calm_def)
  have cap: "capped d' i G" if "capped (osDB s) i G" for i G by (rule capped_mono [OF that le(1)])
  have "tables_ok d'" using calm_tables [OF assms(1)] assms(2) by (simp add: oauth_ok_def)
  moreover have "history_ok (s\<lparr>osDB := d'\<rparr>)"
    using assms(2) cap seen_mono [OF _ le(1)] by (simp add: oauth_ok_def history_ok_def once_def)
  moreover have "code_logged (s\<lparr>osDB := d'\<rparr>) c'" if c': "c' \<in> set (zdCodes (odAuthz d'))" for c'
  proof -
    from codes_leD [OF le(2) c'] obtain c where "c \<in> set (zdCodes (odAuthz (osDB s)))" "code_le c c'" by blast
    then show ?thesis using assms(2) by (auto simp: oauth_ok_def rows_ok_def code_logged_def code_le_def q)
  qed
  moreover have "logged (s\<lparr>osDB := d'\<rparr>) r \<longleftrightarrow> logged s r" for r by (simp add: logged_def)
  ultimately have tables: "tables_ok d'" "history_ok (s\<lparr>osDB := d'\<rparr>)" "rows_ok (s\<lparr>osDB := d'\<rparr>)"
    using assms(2) by (simp_all add: oauth_ok_def rows_ok_def q)
  have "approve_ok (s\<lparr>osDB := d'\<rparr>) own \<longleftrightarrow> approve_ok s own" "mint_ok (s\<lparr>osDB := d'\<rparr>) com \<longleftrightarrow> mint_ok s com"
    "exchange_ok (s\<lparr>osDB := d'\<rparr>) tok \<longleftrightarrow> exchange_ok s tok" for own com tok
    by (simp_all add: approve_ok_def approving_def mint_ok_def minting_def exchange_ok_def q)
  moreover have "create_ok d' dec" if "create_ok (osDB s) dec" for dec using that cap by (simp add: create_ok_def)
  ultimately have "pending_ok (s\<lparr>osDB := d'\<rparr>)" using assms(2) by (simp add: oauth_ok_def pending_ok_def)
  with tables show ?thesis by (simp add: oauth_ok_def)
qed

lemma calm_authz: "codes_le (odAuthz d) z \<Longrightarrow> calm d (d\<lparr>odAuthz := z\<rparr>)"
  by (simp add: calm_def enrolls_le_same)

lemma calm_audit [simp]: "calm d (oauth_audit k s d)" "calm d (AppendAuditOnce k y t u d)" "calm d (count_enrollment env l key d)"
  by (simp_all add: calm_def oauth_audit_def AppendAuditOnce_def count_enrollment_def enrolls_le_same codes_le_same)

lemma calm_client: "CreateOAuthClient now c d = Inr d' \<Longrightarrow> calm d d'"
  by (auto simp: calm_def CreateOAuthClient_def enrolls_le_same split: if_splits)

lemma calm_enroll_new:
  assumes "CreateEnrollmentCode now e d = Inr d'" "enroll_ok e"
  shows "calm d d'"
proof -
  let ?e = "e\<lparr>enCreatedAtMS := (if enCreatedAtMS e = 0 then now else enCreatedAtMS e), enUpdatedAtMS := now\<rparr>"
  have "d' = d\<lparr>odEnrolls := odEnrolls d @ [?e]\<rparr>" "enID e \<notin> enID ` set (odEnrolls d)"
    using assms(1) by (auto simp: CreateEnrollmentCode_def split: if_splits)
  moreover have "enroll_ok ?e" "enID ?e = enID e" using assms(2) by (simp_all add: enroll_ok_def)
  ultimately show ?thesis by (auto simp: calm_def enrolls_le_def enroll_le_def)
qed

lemma calm_enroll_revoke: "calm d (snd (RevokeEnrollmentCodeTx now i r d))"
proof -
  define g :: "enroll_row \<Rightarrow> enroll_row" where "g = (\<lambda>e. if enID e = i \<and> enRevokedAtMS e = None
    then e\<lparr>enRevokedAtMS := Some now, enRevokedReason := nullString r, enUpdatedAtMS := now\<rparr> else e)"
  have d': "snd (RevokeEnrollmentCodeTx now i r d) = d\<lparr>odEnrolls := map g (odEnrolls d)\<rparr>"
    by (simp add: RevokeEnrollmentCodeTx_def Let_def update_where_def g_def)
  have g: "enID (g e) = enID e" "enroll_le e (g e)" "enroll_ok (g e) \<longleftrightarrow> enroll_ok e" for e
    by (simp_all add: g_def enroll_le_def enroll_ok_def)
  have "enrolls_le d (d\<lparr>odEnrolls := map g (odEnrolls d)\<rparr>)" using g(2) by (auto simp: enrolls_le_def)
  moreover have "map enID (map g (odEnrolls d)) = map enID (odEnrolls d)" by (simp add: g(1))
  ultimately show ?thesis unfolding calm_def d' by (simp add: g(3) del: map_map)
qed

lemma calm_enroll_consume: "calm d (snd (ConsumeEnrollmentCode now i r d))"
proof -
  define g :: "enroll_row \<Rightarrow> enroll_row" where "g = (\<lambda>e. if enID e = i \<and> enConsumedAtMS e = None \<and> enRevokedAtMS e = None
    then e\<lparr>enConsumedAtMS := Some now, enConsumedBy := Some r, enUpdatedAtMS := now\<rparr> else e)"
  have d': "snd (ConsumeEnrollmentCode now i r d) = d\<lparr>odEnrolls := map g (odEnrolls d)\<rparr>"
    by (simp add: ConsumeEnrollmentCode_def Let_def update_where_def g_def)
  have g: "enID (g e) = enID e" "enroll_le e (g e)" "enroll_ok e \<Longrightarrow> enroll_ok (g e)" for e
    by (auto simp: g_def enroll_le_def enroll_ok_def)
  have "enrolls_le d (d\<lparr>odEnrolls := map g (odEnrolls d)\<rparr>)" using g(2) by (auto simp: enrolls_le_def)
  moreover have "map enID (map g (odEnrolls d)) = map enID (odEnrolls d)" by (simp add: g(1))
  ultimately show ?thesis unfolding calm_def d' using g(3) by (simp del: map_map)
qed

lemma calm_activate: "calm d (ActivateOAuthClient now i d)"
proof -
  have "map ocID (odClients (ActivateOAuthClient now i d)) = map ocID (odClients d)"
    by (simp add: ActivateOAuthClient_def update_where_def)
  then have "ocID ` set (odClients (ActivateOAuthClient now i d)) = ocID ` set (odClients d)" by (metis list.set_map)
  then show ?thesis unfolding calm_def by (simp add: ActivateOAuthClient_def enrolls_le_same)
qed

section \<open>Requests that only do such changes\<close>

lemma ceiling_known: "extend_ceiling S xs = Inr C \<Longrightarrow> S \<subseteq> set canonicalOrder \<Longrightarrow> C \<subseteq> set canonicalOrder"
proof (induction xs arbitrary: S)
  case (Cons x xs)
  then obtain T where "ParseScopes [x] = Some T" "extend_ceiling (S \<union> T) xs = Inr C" by (auto split: option.splits)
  with Cons ParseScopes_known [of "[x]" T] show ?case by blast
qed simp

lemma enrollmentCeilingD:
  assumes "enrollmentCeiling q = Inr C"
  shows "C \<noteq> {}" "ScopeAdmin \<notin> C" "C \<subseteq> set canonicalOrder"
proof -
  from assms obtain B where B: "ParseScopes (if eqScopes q \<noteq> [] then eqScopes q else DefaultEnrollmentCeiling) = Some B"
    and "extend_ceiling B (eqAllowScopes q) = Inr C" "C \<noteq> {}" "ScopeAdmin \<notin> C"
    unfolding enrollmentCeiling_def by (auto split: option.splits sum.splits if_splits)
  with ceiling_known ParseScopes_known [OF B] show "C \<noteq> {}" "ScopeAdmin \<notin> C" "C \<subseteq> set canonicalOrder" by auto
qed

lemma calm_issue:
  assumes "oeID env \<noteq> []"
  shows "calm d (snd (IssueEnrollmentCode cfg env q src d))"
proof -
  have ok: "enroll_ok (enroll_new cfg env label code C ttl)" if "enrollmentCeiling q = Inr C" for label code C ttl
    using assms enrollmentCeilingD [OF that] scope_string_roundtrip [of C] by (simp add: enroll_ok_def enroll_new_def)
  show ?thesis
  proof (cases "fst (IssueEnrollmentCode cfg env q src d)")
    case (Inl e)
    then have "snd (IssueEnrollmentCode cfg env q src d) = d"
      by (auto simp: IssueEnrollmentCode_def Let_def split: sum.splits option.splits if_splits)
    then show ?thesis by simp
  next
    case (Inr r)
    then obtain C label code ttl d' where "enrollmentCeiling q = Inr C"
      "CreateEnrollmentCode (od_now env) (enroll_new cfg env label code C ttl) d = Inr d'"
      "snd (IssueEnrollmentCode cfg env q src d) = oauth_audit ''enrollment.created'' src d'"
      by (auto simp: IssueEnrollmentCode_def Let_def split: sum.splits option.splits if_splits)
    then show ?thesis using db_calm_trans [OF calm_enroll_new [OF _ ok] calm_audit(1)] by metis
  qed
qed

lemma calm_handlers:
  "calm d (snd (Register cfg env req src d))" "calm d (snd (CreateStaticClient cfg env static src d))"
  "calm d (snd (RevokeEnrollmentCode env i reason src d))" "calm d (snd (requestStatus cfg at cookie i d))"
  "calm d (noteRequestExpired at q d)" "calm d (noteEnrollmentExpired at e d)" "calm d (recordEnrollmentFailure env src key d)"
proof -
  show "calm d (snd (Register cfg env req src d))" by (auto simp: Register_def dest: calm_client split: option.split sum.split)
  show "calm d (snd (CreateStaticClient cfg env static src d))"
    by (auto simp: CreateStaticClient_def Let_def intro: db_calm_trans dest: calm_client split: sum.split)
  have "calm d d'" if "RevokeEnrollmentCodeTx now i reason d = (ok, d')" for now ok d' using calm_enroll_revoke [of d] that by (metis snd_conv)
  then show "calm d (snd (RevokeEnrollmentCode env i reason src d))"
    by (auto simp: RevokeEnrollmentCode_def Let_def intro: db_calm_trans [OF _ calm_audit(1)] split: option.split prod.split)
  show n: "calm d (noteRequestExpired at q d)" for q by (simp add: noteRequestExpired_def)
  then show "calm d (snd (requestStatus cfg at cookie i d))" by (auto simp: requestStatus_def split: option.split)
  show "calm d (noteEnrollmentExpired at e d)" by (simp add: noteEnrollmentExpired_def)
  show "calm d (recordEnrollmentFailure env src key d)" 
    unfolding recordEnrollmentFailure_def by (rule db_calm_trans [OF calm_audit(3) calm_audit(3)])
qed

lemma calm_token: "calm d (snd (token_apply svc env tok d))"
proof (cases tok)
  case (ExchangeToken x xd)
  then show ?thesis using calm_authz [OF exchange_codes, of d svc env x xd] by (cases "exchange_apply svc env x xd (odAuthz d)") (simp add: token_apply_def)
next
  case (RefreshToken p pd)
  then show ?thesis
    using calm_authz [OF codes_le_same [OF service_codes(1)], of d svc env p pd]
    by (cases "refresh_apply svc env p pd (odAuthz d)") (simp add: token_apply_def)
qed (simp add: token_apply_def)

section \<open>A client and its requests are removed\<close>

lemma removal_tables:
  assumes "tables_ok d"
  shows "tables_ok (DeleteOAuthClient i d)"
proof -
  let ?d = "DeleteOAuthClient i d"
  have cap: "capped ?d j G \<longleftrightarrow> capped d j G" for j G by (simp add: capped_def DeleteOAuthClient_def Let_def)
  have "request_ok ?d q" if "q \<in> set (odRequests ?d)" for q
  proof -
    from that have "q \<in> set (odRequests d)" "rqClientID q \<noteq> i" by (simp_all add: DeleteOAuthClient_def Let_def)
    moreover from this assms have "request_ok d q" by (simp add: tables_ok_def)
    moreover have "ocID ` set (odClients ?d) = ocID ` set (odClients d) - {i}" by (auto simp: DeleteOAuthClient_def Let_def)
    ultimately show ?thesis by (simp add: request_ok_def cap)
  qed
  moreover have "\<exists>q \<in> set (odRequests ?d). code_of q c" if c: "c \<in> set (zdCodes (odAuthz ?d))" for c
  proof -
    from c have "c \<in> set (zdCodes (odAuthz d))" by (simp add: DeleteOAuthClient_def Let_def)
    with assms obtain q where q: "q \<in> set (odRequests d)" "code_of q c" unfolding tables_ok_def by blast
    with c have "q \<in> set (odRequests ?d)" by (force simp: DeleteOAuthClient_def Let_def code_of_def)
    with q show ?thesis by blast
  qed
  ultimately show ?thesis
    using assms by (simp add: tables_ok_def) (simp add: DeleteOAuthClient_def Let_def distinct_map_filter)
qed

lemma removal_ok:
  assumes "oauth_ok s"
  shows "oauth_ok (s\<lparr>osDB := DeleteOAuthClient i (osDB s)\<rparr>)"
proof -
  let ?d = "DeleteOAuthClient i (osDB s)"
  let ?s = "s\<lparr>osDB := ?d\<rparr>"
  have cap: "capped ?d j G \<longleftrightarrow> capped (osDB s) j G" "seen ?d j \<longleftrightarrow> seen (osDB s) j" for j G
    by (simp_all add: capped_def seen_def DeleteOAuthClient_def Let_def)
  have q: "q \<in> set (odRequests (osDB s))" if "q \<in> set (odRequests ?d)" for q using that by (simp add: DeleteOAuthClient_def Let_def)
  have "history_ok ?s" using assms by (simp add: oauth_ok_def history_ok_def once_def cap)
  moreover have "code_logged ?s c" if c: "c \<in> set (zdCodes (odAuthz ?d))" for c
  proof -
    from c have "c \<in> set (zdCodes (odAuthz (osDB s)))" by (simp add: DeleteOAuthClient_def Let_def)
    with assms have "code_logged s c" by (simp add: oauth_ok_def rows_ok_def)
    moreover have "q \<in> set (odRequests ?d)" if "q \<in> set (odRequests (osDB s))" "rqID q = cdRequestID c" for q
      using c that by (force simp: DeleteOAuthClient_def Let_def)
    ultimately show ?thesis by (auto simp: code_logged_def)
  qed
  moreover have "logged ?s q \<longleftrightarrow> logged s q" for q by (simp add: logged_def)
  ultimately have ok: "tables_ok ?d" "history_ok ?s" "rows_ok ?s"
    using assms removal_tables q by (auto simp: oauth_ok_def rows_ok_def)
  have "create_ok ?d dec \<longleftrightarrow> create_ok (osDB s) dec" "exchange_ok ?s tok \<longleftrightarrow> exchange_ok s tok" for dec tok
    by (simp_all add: create_ok_def exchange_ok_def cap)
  moreover have "approve_ok ?s own" if "approve_ok s own" for own using that q unfolding approve_ok_def approving_def by fastforce
  moreover have "mint_ok ?s com" if "mint_ok s com" for com using that q unfolding mint_ok_def minting_def by fastforce
  ultimately show ?thesis using assms ok by (simp add: oauth_ok_def pending_ok_def)
qed

lemma sweep_ok:
  assumes "oauth_ok s"
  shows "oauth_ok (s\<lparr>osDB := snd (SweepExpiredRegistrations now (osDB s))\<rparr>)"
proof -
  have "oauth_ok (s\<lparr>osDB := foldl (\<lambda>d i. oauth_audit k src (DeleteOAuthClient i d)) (osDB s) ids\<rparr>)" for k src ids
  proof (induction ids rule: rev_induct)
    case (snoc i ids)
    from calm_ok [OF _ removal_ok [OF this, of i]] show ?case by simp
  qed (simp add: assms)
  then show ?thesis by (simp add: SweepExpiredRegistrations_def Let_def)
qed

section \<open>What the invariant gives\<close>

lemma oauth_okD:
  assumes "oauth_ok s"
  shows "(i, r) \<in> set (osRequested s) \<Longrightarrow> seen (osDB s) i"
    "(i, G) \<in> set (osApproved s) \<Longrightarrow> i \<in> fst ` set (osRequested s) \<and> capped (osDB s) i G"
    "(i, h) \<in> set (osIssued s) \<Longrightarrow> i \<in> fst ` set (osApproved s)"
    "(h, S) \<in> set (osGranted s) \<Longrightarrow> \<exists>i. (i, h) \<in> set (osIssued s) \<and> (i, S) \<in> set (osApproved s)"
    "q \<in> set (odRequests (osDB s)) \<Longrightarrow> logged s q \<and> request_ok (osDB s) q"
    "c \<in> set (zdCodes (odAuthz (osDB s))) \<Longrightarrow> code_logged s c \<and> (\<exists>q \<in> set (odRequests (osDB s)). code_of q c)"
    "e \<in> set (odEnrolls (osDB s)) \<Longrightarrow> enroll_ok e"
  using assms unfolding oauth_ok_def history_ok_def rows_ok_def tables_ok_def by blast+

lemma oauth_ok_fst:
  assumes "oauth_ok s"
  shows "i \<in> fst ` set (osApproved s) \<Longrightarrow> i \<in> fst ` set (osRequested s)" "i \<in> fst ` set (osIssued s) \<Longrightarrow> i \<in> fst ` set (osApproved s)"
    "h \<in> fst ` set (osGranted s) \<Longrightarrow> h \<in> snd ` set (osIssued s)" "i \<in> fst ` set (osRequested s) \<Longrightarrow> seen (osDB s) i"
proof -
  show "i \<in> fst ` set (osApproved s) \<Longrightarrow> i \<in> fst ` set (osRequested s)" using oauth_okD(2) [OF assms] by (auto simp del: split_paired_All)
  show "i \<in> fst ` set (osIssued s) \<Longrightarrow> i \<in> fst ` set (osApproved s)" using oauth_okD(3) [OF assms] by auto
  show "h \<in> fst ` set (osGranted s) \<Longrightarrow> h \<in> snd ` set (osIssued s)" using oauth_okD(4) [OF assms] by force
  show "i \<in> fst ` set (osRequested s) \<Longrightarrow> seen (osDB s) i" using oauth_okD(1) [OF assms] by auto
qed

lemma request_known:
  assumes "oauth_ok s" "q \<in> set (odRequests (osDB s))"
  shows "(enrollment_of q, rqID q) \<in> set (osRequested s)" "rqID q \<in> snd ` set (osRequested s)"
proof -
  show "(enrollment_of q, rqID q) \<in> set (osRequested s)" using oauth_okD(5) [OF assms] by (simp add: logged_def)
  then show "rqID q \<in> snd ` set (osRequested s)" by (metis imageI snd_conv)
qed

lemma same_row:
  assumes "oauth_ok s" "q \<in> set (odRequests (osDB s))" "q' \<in> set (odRequests (osDB s))" "rqID q' = rqID q \<or> enrollment_of q' = enrollment_of q"
  shows "q' = q"
proof -
  have d: "distinct (map fst (osRequested s))" "distinct (map rqID (odRequests (osDB s)))"
    using assms(1) unfolding oauth_ok_def history_ok_def once_def tables_ok_def by blast+
  have "(enrollment_of p, rqID p) \<in> set (osRequested s)" if "p \<in> set (odRequests (osDB s))" for p
    by (rule request_known(1) [OF assms(1) that])
  with assms(2-4) have "rqID q' = rqID q" using eq_key_imp_eq_value [OF d(1)] by metis
  with assms(2,3) d(2) show ?thesis by (simp add: distinct_map inj_on_def)
qed

end
