(* ===== verification/Oauth_Steps.thy ===== *)
theory Oauth_Steps
  imports Oauth_Chain
begin

text \<open>
  Every request of the OAuth server keeps the invariant.
\<close>

section \<open>A request is made\<close>

lemma nullString_enrollment: "i \<noteq> [] \<Longrightarrow> scanString (nullString i) = i"
  by (cases i) (simp_all add: nullString_def)

lemma history_grows:
  assumes "oauth_ok s" "i \<notin> fst ` set (osRequested s)" "r \<notin> snd ` set (osRequested s)" "seen (osDB s) i"
  shows "history_ok (s\<lparr>osRequested := osRequested s @ [(i, r)]\<rparr>)"
  using assms by (auto simp: oauth_ok_def history_ok_def once_def)

lemma request_added:
  assumes s: "oauth_ok s" and i: "i \<notin> fst ` set (osRequested s)" "seen (osDB s) i" and r: "rqID q \<notin> snd ` set (osRequested s)"
    and q: "enrollment_of q = i" "rqStatus q = AuthRequestPending" "rqGrantedScopes q = None" "rqClientID q \<in> ocID ` set (odClients (osDB s))"
    and S: "ParseScopeString (rqSelectedScopes q) = Some S" "capped (osDB s) i S"
    and d': "d' = (osDB s)\<lparr>odRequests := odRequests (osDB s) @ [q]\<rparr>"
  shows "oauth_ok (s\<lparr>osDB := d', osRequested := osRequested s @ [(i, rqID q)]\<rparr>)"
proof -
  let ?s = "s\<lparr>osDB := d', osRequested := osRequested s @ [(i, rqID q)]\<rparr>"
  have cap: "capped d' j G \<longleftrightarrow> capped (osDB s) j G" "seen d' j \<longleftrightarrow> seen (osDB s) j" for j G by (simp_all add: capped_def seen_def d')
  have old: "rqID p \<in> snd ` set (osRequested s)" if "p \<in> set (odRequests (osDB s))" for p
    by (rule request_known(2) [OF s that])
  have none: "i \<notin> fst ` set (osApproved s)" "i \<notin> fst ` set (osIssued s)"
    using i(1) oauth_ok_fst(1,2) [OF s] by blast+
  have "history_ok (s\<lparr>osRequested := osRequested s @ [(i, rqID q)]\<rparr>)" by (rule history_grows [OF s i(1) r i(2)])
  then have h: "history_ok ?s" by (simp add: history_ok_def once_def cap)
  have "odClients d' = odClients (osDB s)" by (simp add: d')
  then have "request_ok d' p \<longleftrightarrow> request_ok (osDB s) p" for p by (simp add: request_ok_def cap)
  moreover have "request_ok (osDB s) q" using q S by (simp add: request_ok_def)
  ultimately have t: "tables_ok d'" using s old r by (auto simp: oauth_ok_def tables_ok_def d')
  have "logged ?s q" using q none by (simp add: logged_def)
  moreover have "logged ?s p" if "logged s p" for p using that by (simp add: logged_def)
  moreover have "code_logged ?s c" if "code_logged s c" for c using that by (auto simp: code_logged_def d')
  ultimately have rows: "rows_ok ?s" using s by (auto simp: oauth_ok_def rows_ok_def d')
  have "create_ok d' dec" if "create_ok (osDB s) dec" for dec using that by (simp add: create_ok_def cap)
  moreover have "approving ?s j G" if "approving s j G" for j G
  proof -
    from that r have "rqID q \<noteq> j" unfolding approving_def by metis
    with that show ?thesis by (simp add: approving_def d')
  qed
  then have "approve_ok ?s own" if "approve_ok s own" for own using that by (simp add: approve_ok_def)
  moreover have "minting ?s p G" if "minting s p G" for p G
  proof -
    from that r have "rqID q \<noteq> rqID p" unfolding minting_def by metis
    with that show ?thesis by (simp add: minting_def d')
  qed
  then have "mint_ok ?s com" if "mint_ok s com" for com using that by (simp add: mint_ok_def)
  moreover have "exchange_ok ?s tok" if "exchange_ok s tok" for tok using that by (simp add: exchange_ok_def)
  ultimately have "pending_ok ?s" using s by (simp add: oauth_ok_def pending_ok_def d')
  with h t rows show ?thesis by (simp add: oauth_ok_def)
qed


section \<open>A request is decided\<close>

text \<open>One request row changes, its identity, its scopes asked for and its bindings excepted.\<close>

definition request_change :: "oauth_sys \<Rightarrow> request_row \<Rightarrow> request_row \<Rightarrow> oauth_db \<Rightarrow> bool" where
  "request_change s q q' d' \<longleftrightarrow> oauth_ok s \<and> q \<in> set (odRequests (osDB s)) \<and>
     rqID q' = rqID q \<and> same_request q q' \<and> rqSelectedScopes q' = rqSelectedScopes q \<and>
     d' = (osDB s)\<lparr>odRequests := map (\<lambda>p. if p = q then q' else p) (odRequests (osDB s))\<rparr>"

lemma change_same:
  assumes "request_change s q q' d'"
  shows "capped d' j G \<longleftrightarrow> capped (osDB s) j G" "seen d' j \<longleftrightarrow> seen (osDB s) j"
    "odClients d' = odClients (osDB s)" "odAuthz d' = odAuthz (osDB s)" "odEnrolls d' = odEnrolls (osDB s)"
  using assms by (simp_all add: request_change_def capped_def seen_def)

lemma change_rows:
  assumes "request_change s q q' d'"
  shows "p' \<in> set (odRequests d') \<longleftrightarrow> p' = q' \<or> (p' \<in> set (odRequests (osDB s)) \<and> p' \<noteq> q)"
    "map rqID (odRequests d') = map rqID (odRequests (osDB s))" "enrollment_of q' = enrollment_of q"
    "p \<in> set (odRequests (osDB s)) \<Longrightarrow> p \<noteq> q \<Longrightarrow> rqID p \<noteq> rqID q \<and> enrollment_of p \<noteq> enrollment_of q"
proof -
  show "p' \<in> set (odRequests d') \<longleftrightarrow> p' = q' \<or> (p' \<in> set (odRequests (osDB s)) \<and> p' \<noteq> q)"
    "map rqID (odRequests d') = map rqID (odRequests (osDB s))" "enrollment_of q' = enrollment_of q"
    using assms by (auto simp: request_change_def same_request_def)
  show "p \<in> set (odRequests (osDB s)) \<Longrightarrow> p \<noteq> q \<Longrightarrow> rqID p \<noteq> rqID q \<and> enrollment_of p \<noteq> enrollment_of q"
    using assms same_row [of s q p] by (auto simp: request_change_def)
qed

lemma change_approving:
  assumes "request_change s q q' d'" "approving s i G"
  shows "approving (s\<lparr>osDB := d', osApproved := A, osIssued := I\<rparr>) i G"
proof -
  have "\<exists>S. ParseScopeString (rqSelectedScopes p) = Some S \<and> G \<subseteq> S" if "p \<in> set (odRequests d')" "rqID p = i" for p
    using assms that unfolding change_rows(1) [OF assms(1)] request_change_def approving_def by metis
  then show ?thesis using assms(2) by (simp add: approving_def)
qed

lemma change_minting:
  assumes "request_change s q q' d'" "minting s p G" "rqID p = rqID q \<Longrightarrow> rqGrantedScopes q' = Some (scope_string G)"
  shows "minting (s\<lparr>osDB := d', osApproved := A, osIssued := I\<rparr>) p G"
proof -
  have "same_request p p' \<and> rqGrantedScopes p' = Some (scope_string G)" if "p' \<in> set (odRequests d')" "rqID p' = rqID p" for p'
  proof (cases "p' = q'")
    case True
    then have "rqID q = rqID p" "q \<in> set (odRequests (osDB s))" "same_request q q'"
      using assms(1) that(2) by (simp_all add: request_change_def)
    moreover from this assms(2) have "same_request p q" by (auto simp: minting_def)
    ultimately show ?thesis using assms(3) True by (simp add: same_request_def)
  next
    case False
    with that assms(2) show ?thesis by (auto simp: minting_def change_rows(1) [OF assms(1)])
  qed
  then show ?thesis using assms(2) by (simp add: minting_def)
qed

lemma change_tables:
  assumes c: "request_change s q q' d'" and new: "request_ok (osDB s) q'" "rqStatus q \<noteq> AuthRequestCompleted"
  shows "tables_ok d'"
proof -
  have t: "tables_ok (osDB s)" using c by (simp add: oauth_ok_def request_change_def)
  have "request_ok d' p \<longleftrightarrow> request_ok (osDB s) p" for p by (simp add: request_ok_def change_same [OF c])
  then have "\<forall>p \<in> set (odRequests d'). request_ok d' p" using t new(1) by (auto simp: tables_ok_def change_rows(1) [OF c])
  moreover have "\<exists>p \<in> set (odRequests d'). code_of p k" if k: "k \<in> set (zdCodes (odAuthz d'))" for k
  proof -
    from k t obtain p where p: "p \<in> set (odRequests (osDB s))" "code_of p k" by (auto simp: tables_ok_def change_same [OF c])
    then have "p \<noteq> q" using new(2) by (auto simp: code_of_def)
    with p show ?thesis using change_rows(1) [OF c] by blast
  qed
  ultimately show ?thesis using t by (simp add: tables_ok_def change_rows(2) [OF c] change_same [OF c])
qed

lemma decided_rows:
  assumes "oauth_ok s" "q \<in> set (odRequests (osDB s))" "rqStatus q = AuthRequestPending"
  shows "DecideAuthorizationRequest now (rqID q) st g r (osDB s) =
    (True, (osDB s)\<lparr>odRequests := map (\<lambda>p. if p = q then q\<lparr>rqStatus := st, rqGrantedScopes := nullString g, rqDenyReason := nullString r,
       rqDecidedAtMS := Some now, rqUpdatedAtMS := now\<rparr> else p) (odRequests (osDB s))\<rparr>)"
proof -
  have "(rqID p = rqID q \<and> rqStatus p = AuthRequestPending) = (p = q)" if "p \<in> set (odRequests (osDB s))" for p
    using same_row [OF assms(1,2) that] assms(3) by blast
  then show ?thesis using assms(2,3) by (auto simp: DecideAuthorizationRequest_def Let_def update_where_def)
qed

lemma change_ok:
  assumes c: "request_change s q q' d'" and q: "rqStatus q \<noteq> AuthRequestCompleted" "request_ok (osDB s) q'"
    and A: "distinct (map fst (osApproved s @ A))" "\<And>i G. (i, G) \<in> set A \<Longrightarrow> i = enrollment_of q \<and> capped (osDB s) i G"
    and log: "logged (s\<lparr>osApproved := osApproved s @ A\<rparr>) q'"
    and g: "\<And>p G. minting s p G \<Longrightarrow> rqID p = rqID q \<Longrightarrow> rqGrantedScopes q' = Some (scope_string G)"
  shows "oauth_ok (s\<lparr>osDB := d', osApproved := osApproved s @ A\<rparr>)"
proof -
  let ?s = "s\<lparr>osDB := d', osApproved := osApproved s @ A\<rparr>"
  have s: "oauth_ok s" and q0: "q \<in> set (odRequests (osDB s))" using c by (simp_all add: request_change_def)
  have known: "enrollment_of q \<in> fst ` set (osRequested s)" using request_known(1) [OF s q0] by force
  have A2: "i \<in> fst ` set (osRequested s) \<and> capped d' i G" if "(i, G) \<in> set A" for i G
    using A(2) [OF that] known by (auto simp: change_same [OF c])
  have h: "history_ok ?s"
    unfolding history_ok_def
  proof (intro conjI allI impI)
    show "once ?s" using s A(1) by (simp add: oauth_ok_def history_ok_def once_def)
    show "seen (osDB ?s) i" if "(i, r) \<in> set (osRequested ?s)" for i r
      using oauth_okD(1) [OF s] that by (simp add: change_same [OF c])
    show "i \<in> fst ` set (osRequested ?s)" "capped (osDB ?s) i G" if "(i, G) \<in> set (osApproved ?s)" for i G
      using that A2 oauth_okD(2) [OF s] by (auto simp: change_same [OF c])
    show "i \<in> fst ` set (osApproved ?s)" if "(i, h) \<in> set (osIssued ?s)" for i h using oauth_okD(3) [OF s, of i h] that by (simp add: image_Un)
    show "\<exists>i. (i, h) \<in> set (osIssued ?s) \<and> (i, S) \<in> set (osApproved ?s)" if "(h, S) \<in> set (osGranted ?s)" for h S
      using oauth_okD(4) [OF s] that by fastforce
  qed
  have "logged ?s p" if "p \<in> set (odRequests d')" for p
  proof (cases "p = q'")
    case True
    with log show ?thesis by (simp add: logged_def)
  next
    case False
    with that have p: "p \<in> set (odRequests (osDB s))" "p \<noteq> q" using change_rows(1) [OF c] by auto
    then have "enrollment_of p \<notin> fst ` set A" using change_rows(4) [OF c] A(2) by force
    moreover have "logged s p" using oauth_okD(5) [OF s p(1)] by blast
    ultimately show ?thesis by (auto simp: logged_def)
  qed
  moreover have "code_logged ?s k" if k: "k \<in> set (zdCodes (odAuthz d'))" for k
  proof -
    have l: "code_logged s k" using oauth_okD(6) [OF s] k by (simp add: change_same [OF c])
    then obtain p where p: "p \<in> set (odRequests (osDB s))" "rqID p = cdRequestID k" "(enrollment_of p, cdHash k) \<in> set (osIssued s)"
      unfolding code_logged_def by blast
    have "\<exists>p' \<in> set (odRequests d'). rqID p' = rqID p \<and> enrollment_of p' = enrollment_of p"
    proof (cases "p = q")
      case True
      then show ?thesis using c by (intro bexI [of _ "q'"]) (simp_all add: change_rows [OF c] request_change_def)
    next
      case False
      with p(1) show ?thesis using change_rows(1) [OF c] by blast
    qed
    then have "\<exists>q\<in>set (odRequests d'). rqID q = cdRequestID k \<and> (enrollment_of q, cdHash k) \<in> set (osIssued s)" using p(2,3) by auto
    then show ?thesis using l by (simp add: code_logged_def)
  qed
  ultimately have rows: "rows_ok ?s" by (simp add: rows_ok_def)
  have "create_ok d' dec \<longleftrightarrow> create_ok (osDB s) dec" for dec by (simp add: create_ok_def change_same [OF c])
  moreover have "approve_ok ?s own" if "approve_ok s own" for own
    using that change_approving [OF c, where A = "osApproved s @ A" and I = "osIssued s"] by (simp add: approve_ok_def)
  moreover have "mint_ok ?s com" if "mint_ok s com" for com
    using that change_minting [OF c _ g, where A = "osApproved s @ A" and I = "osIssued s"] by (fastforce simp: mint_ok_def)
  moreover have "exchange_ok ?s tok" if "exchange_ok s tok" for tok using that by (fastforce simp: exchange_ok_def)
  ultimately have "pending_ok ?s" using s by (simp add: oauth_ok_def pending_ok_def)
  with h rows change_tables [OF c q(2,1)] show ?thesis by (simp add: oauth_ok_def)
qed

lemma code_added:
  assumes s: "oauth_ok s" and q: "q \<in> set (odRequests (osDB s))" "code_of q c"
    and new: "enrollment_of q \<in> fst ` set (osApproved s)" "enrollment_of q \<notin> fst ` set (osIssued s)" "cdHash c \<notin> snd ` set (osIssued s)"
      "cdRequestID c \<notin> cdRequestID ` set (zdCodes (odAuthz (osDB s)))"
    and d': "d' = (osDB s)\<lparr>odAuthz := (odAuthz (osDB s))\<lparr>zdCodes := zdCodes (odAuthz (osDB s)) @ [c]\<rparr>\<rparr>"
  shows "oauth_ok (s\<lparr>osDB := d', osIssued := osIssued s @ [(enrollment_of q, cdHash c)]\<rparr>)"
proof -
  let ?s = "s\<lparr>osDB := d', osIssued := osIssued s @ [(enrollment_of q, cdHash c)]\<rparr>"
  have same: "capped d' j G \<longleftrightarrow> capped (osDB s) j G" "seen d' j \<longleftrightarrow> seen (osDB s) j" "odClients d' = odClients (osDB s)"
    "odRequests d' = odRequests (osDB s)" "odEnrolls d' = odEnrolls (osDB s)" for j G
    by (simp_all add: d' capped_def seen_def)
  have req: "request_ok d' p \<longleftrightarrow> request_ok (osDB s) p" for p by (simp add: request_ok_def same)
  have codes: "zdCodes (odAuthz d') = zdCodes (odAuthz (osDB s)) @ [c]" by (simp add: d')
  have t: "tables_ok d'" using s q new(4) by (auto simp: oauth_ok_def tables_ok_def req same codes)
  have h: "history_ok ?s"
    unfolding history_ok_def
  proof (intro conjI allI impI)
    show "once ?s" using s new by (auto simp: oauth_ok_def history_ok_def once_def)
    show "seen (osDB ?s) i" if "(i, r) \<in> set (osRequested ?s)" for i r using oauth_okD(1) [OF s] that by (simp add: same)
    show "i \<in> fst ` set (osRequested ?s)" "capped (osDB ?s) i G" if "(i, G) \<in> set (osApproved ?s)" for i G
      using that oauth_okD(2) [OF s] by (auto simp: same)
    show "i \<in> fst ` set (osApproved ?s)" if "(i, h) \<in> set (osIssued ?s)" for i h using oauth_okD(3) [OF s] that new(1) by auto
    show "\<exists>i. (i, h) \<in> set (osIssued ?s) \<and> (i, S) \<in> set (osApproved ?s)" if "(h, S) \<in> set (osGranted ?s)" for h S
      using oauth_okD(4) [OF s] that by fastforce
  qed
  have "logged ?s p" if p: "p \<in> set (odRequests d')" for p
  proof -
    have "rqStatus p = AuthRequestCompleted" if "enrollment_of p = enrollment_of q"
      using same_row [OF s q(1), of p] p that q(2) by (simp add: same code_of_def)
    moreover have "logged s p" using oauth_okD(5) [OF s] p by (simp add: same)
    ultimately show ?thesis by (auto simp: logged_def)
  qed
  moreover have "code_logged ?s k" if k: "k \<in> set (zdCodes (odAuthz d'))" for k
  proof (cases "k = c")
    case True
    have "cdHash c \<notin> fst ` set (osGranted s)" using oauth_ok_fst(3) [OF s] new(3) by blast
    with True q show ?thesis by (auto simp: code_logged_def same code_of_def)
  next
    case False
    with k have "code_logged s k" using oauth_okD(6) [OF s] by (auto simp: codes)
    then show ?thesis by (auto simp: code_logged_def same)
  qed
  ultimately have rows: "rows_ok ?s" by (simp add: rows_ok_def)
  have "create_ok d' dec \<longleftrightarrow> create_ok (osDB s) dec" "approve_ok ?s own \<longleftrightarrow> approve_ok s own" "mint_ok ?s com \<longleftrightarrow> mint_ok s com" for dec own com
    by (simp_all add: create_ok_def approve_ok_def approving_def mint_ok_def minting_def same)
  moreover have "exchange_ok ?s tok" if "exchange_ok s tok" for tok using that by (fastforce simp: exchange_ok_def)
  ultimately have "pending_ok ?s" using s by (simp add: oauth_ok_def pending_ok_def)
  with t h rows show ?thesis by (simp add: oauth_ok_def)
qed

section \<open>The commits\<close>

lemma consume_sees:
  assumes "ConsumeEnrollmentCode now i r d = (True, d')"
  shows "seen d' i" "\<exists>e \<in> set (odEnrolls d). enID e = i \<and> enConsumedAtMS e = None"
proof -
  from assms obtain e where e: "e \<in> set (odEnrolls d)" "enID e = i" "enConsumedAtMS e = None" "enRevokedAtMS e = None"
    by (auto simp: ConsumeEnrollmentCode_def Let_def)
  then show "\<exists>e \<in> set (odEnrolls d). enID e = i \<and> enConsumedAtMS e = None" by blast
  let ?f = "\<lambda>e. if enID e = i \<and> enConsumedAtMS e = None \<and> enRevokedAtMS e = None
    then e\<lparr>enConsumedAtMS := Some now, enConsumedBy := Some r, enUpdatedAtMS := now\<rparr> else e"
  have "?f e \<in> ?f ` set (odEnrolls d)" using e(1) by (rule imageI)
  then have "?f e \<in> set (odEnrolls d')" using assms by (auto simp: ConsumeEnrollmentCode_def Let_def set_update_where)
  moreover have "enID (?f e) = i" "enConsumedBy (?f e) \<noteq> None" using e by simp_all
  ultimately show "seen d' i" unfolding seen_def by blast
qed

lemma unseen:
  assumes s: "oauth_ok s" and e: "e \<in> set (odEnrolls (osDB s))" "enConsumedAtMS e = None"
  shows "enID e \<notin> fst ` set (osRequested s)"
proof
  assume "enID e \<in> fst ` set (osRequested s)"
  then obtain e' where e': "e' \<in> set (odEnrolls (osDB s))" "enID e' = enID e" "enConsumedBy e' \<noteq> None"
    using oauth_ok_fst(4) [OF s] unfolding seen_def by blast
  have "distinct (map enID (odEnrolls (osDB s)))" using s by (simp add: oauth_ok_def tables_ok_def)
  with e e' have "e' = e" by (simp add: distinct_map inj_on_def)
  with e e' oauth_okD(7) [OF s e(1)] show False by (simp add: enroll_ok_def)
qed

lemma commit_create_ok:
  assumes s: "oauth_ok s" and p: "create_ok (osDB s) (CreatePost p)" and fresh: "oeID env \<notin> snd ` set (osRequested s)"
    and r: "createPendingRequest cfg env p (osDB s) = (res, d')"
  shows "oauth_ok (s\<lparr>osDB := d', osRequested := osRequested s @ (case res of Inr i \<Rightarrow> [(enID (prEnrollment p), i)] | Inl e \<Rightarrow> [])\<rparr>)"
proof (cases res)
  case (Inl e)
  then have "d' = osDB s" using r by (auto simp: createPendingRequest_def Let_def split: if_splits prod.splits sum.splits)
  with Inl s show ?thesis by simp
next
  case (Inr i)
  let ?i = "enID (prEnrollment p)" and ?c = "ocID (prClient p)"
  from p have i: "?i \<noteq> []" "capped (osDB s) ?i (prSelected p)" by (simp_all add: create_ok_def)
  from r Inr obtain d1 d2 where d1: "ConsumeEnrollmentCode (od_now env) ?i (oeID env) (osDB s) = (True, d1)"
    and d2: "CreateAuthorizationRequest (od_now env) (pending_row cfg env p) d1 = Inr d2"
    and d3: "d' = oauth_audit ''authorization.created'' (prSource p)
                  (oauth_audit ''enrollment.consumed'' (prSource p) (ActivateOAuthClient (od_now env) ?c d2))" and ri: "i = oeID env"
    by (auto simp: createPendingRequest_def Let_def split: if_splits prod.splits sum.splits)
  have calm1: "calm (osDB s) d1" using calm_enroll_consume [of "osDB s" "od_now env" ?i "oeID env"] d1 by simp
  let ?s = "s\<lparr>osDB := d1\<rparr>"
  have s1: "oauth_ok ?s" by (rule calm_ok [OF calm1 s])
  obtain e where "e \<in> set (odEnrolls (osDB s))" "enID e = ?i" "enConsumedAtMS e = None" using consume_sees(2) [OF d1] by blast
  then have new: "?i \<notin> fst ` set (osRequested ?s)" using unseen [OF s, of e] by simp
  define q where "q = (pending_row cfg env p)\<lparr>rqCreatedAtMS := (if rqCreatedAtMS (pending_row cfg env p) = 0 then od_now env
     else rqCreatedAtMS (pending_row cfg env p)), rqUpdatedAtMS := od_now env\<rparr>"
  have q: "rqID q = oeID env" "enrollment_of q = ?i" "rqStatus q = AuthRequestPending" "rqGrantedScopes q = None"
    "rqSelectedScopes q = scope_string (prSelected p)" "rqClientID q = ?c"
    using nullString_enrollment [OF i(1)] by (simp_all add: q_def pending_row_def enrollment_of_def)
  have "\<exists>c \<in> set (odClients d1). ocID c = ?c" and d2': "d2 = d1\<lparr>odRequests := odRequests d1 @ [q]\<rparr>"
    using d2 q(6) by (auto simp: CreateAuthorizationRequest_def q_def pending_row_def split: if_splits)
  then have client: "?c \<in> ocID ` set (odClients d1)" by (metis imageI)
  have sel: "prSelected p \<subseteq> set canonicalOrder" using i(2) by (simp add: capped_def)
  have cap: "capped d1 ?i (prSelected p)" using capped_mono [OF i(2)] calm1 by (simp add: calm_def)
  have "oauth_ok (?s\<lparr>osDB := d2, osRequested := osRequested ?s @ [(?i, rqID q)]\<rparr>)"
    by (rule request_added [OF s1 new _ _ q(2-4)])
      (use consume_sees(1) [OF d1] fresh q client scope_string_roundtrip [OF sel] cap in \<open>simp_all add: d2'\<close>)
  then have "oauth_ok (s\<lparr>osDB := d2, osRequested := osRequested s @ [(?i, oeID env)]\<rparr>)" by (simp add: q(1))
  moreover have "calm d2 d'" unfolding d3 by (rule db_calm_trans [OF calm_activate db_calm_trans [OF calm_audit(1) calm_audit(1)]])
  ultimately have "oauth_ok (s\<lparr>osDB := d2, osRequested := osRequested s @ [(?i, oeID env)]\<rparr>\<lparr>osDB := d'\<rparr>)" by (intro calm_ok) simp_all
  moreover have "s\<lparr>osDB := d2, osRequested := osRequested s @ [(?i, oeID env)]\<rparr>\<lparr>osDB := d'\<rparr>
      = s\<lparr>osDB := d', osRequested := osRequested s @ [(?i, oeID env)]\<rparr>" by (rule oauth_sys.equality) simp_all
  ultimately show ?thesis by (simp only: Inr sum.case ri)
qed

lemma scope_text:
  assumes "G \<subseteq> set canonicalOrder" "G \<noteq> {}"
  shows "nullString (scope_string G) = Some (scope_string G)" "scope_string G \<noteq> []"
proof -
  have "ParseScopeString [] = Some {}" by (simp add: ParseScopeString_def ParseScopes_def Fields_def segments.simps)
  with scope_string_roundtrip [OF assms(1)] assms(2) show ne: "scope_string G \<noteq> []" by force
  then show "nullString (scope_string G) = Some (scope_string G)" by (cases "scope_string G") (simp_all add: nullString_def)
qed

lemma scope_string_eq: "scope_string G = scope_string H \<Longrightarrow> G \<subseteq> set canonicalOrder \<Longrightarrow> H \<subseteq> set canonicalOrder \<Longrightarrow> G = H"
  using scope_string_roundtrip by (metis option.inject)

lemma pending_row_facts:
  assumes "oauth_ok s" "q \<in> set (odRequests (osDB s))" "rqStatus q = AuthRequestPending"
  shows "rqGrantedScopes q = None" "enrollment_of q \<notin> fst ` set (osApproved s)" "enrollment_of q \<notin> fst ` set (osIssued s)"
    "minting s p G \<Longrightarrow> rqID p \<noteq> rqID q"
proof -
  have "request_ok (osDB s) q" "logged s q" using oauth_okD(5) [OF assms(1,2)] by simp_all
  with assms(3) show g: "rqGrantedScopes q = None" and "enrollment_of q \<notin> fst ` set (osApproved s)" "enrollment_of q \<notin> fst ` set (osIssued s)"
    by (auto simp: request_ok_def logged_def)
  show "minting s p G \<Longrightarrow> rqID p \<noteq> rqID q" using g assms(2) unfolding minting_def by (metis option.distinct(1))
qed

lemma approve_committed:
  assumes s: "oauth_ok s" and q: "q \<in> set (odRequests (osDB s))" "rqStatus q = AuthRequestPending" and G: "approving s (rqID q) G"
    and d': "DecideAuthorizationRequest now (rqID q) AuthRequestApproved (scope_string G) [] (osDB s) = (ok, d')"
  shows "oauth_ok (s\<lparr>osDB := d', osApproved := osApproved s @ [(enrollment_of q, G)]\<rparr>)"
proof -
  define q' where "q' = q\<lparr>rqStatus := AuthRequestApproved, rqGrantedScopes := nullString (scope_string G), rqDenyReason := nullString [],
    rqDecidedAtMS := Some now, rqUpdatedAtMS := now\<rparr>"
  have "d' = (osDB s)\<lparr>odRequests := map (\<lambda>p. if p = q then q' else p) (odRequests (osDB s))\<rparr>"
    using d' unfolding decided_rows [OF s q] q'_def by blast
  then have c: "request_change s q q' d'" using s q(1) by (simp add: request_change_def same_request_def enrollment_of_def q'_def)
  have r: "request_ok (osDB s) q" "logged s q" using oauth_okD(5) [OF s q(1)] by simp_all
  note P = pending_row_facts [OF s q]
  from r(1) obtain S where S: "ParseScopeString (rqSelectedScopes q) = Some S" "capped (osDB s) (enrollment_of q) S"
    unfolding request_ok_def by blast
  have "\<exists>S. ParseScopeString (rqSelectedScopes q) = Some S \<and> G \<subseteq> S" and ne: "G \<noteq> {}" using G q(1) unfolding approving_def by blast+
  with S(1) have sub: "G \<subseteq> S" by simp
  then have cap: "capped (osDB s) (enrollment_of q) G" and known: "G \<subseteq> set canonicalOrder" using S(2) ne by (auto simp: capped_def)
  have q': "rqStatus q' = AuthRequestApproved" "rqGrantedScopes q' = Some (scope_string G)" "rqSelectedScopes q' = rqSelectedScopes q"
    "rqClientID q' = rqClientID q" "rqID q' = rqID q" "enrollment_of q' = enrollment_of q"
    by (simp_all add: q'_def scope_text [OF known ne] enrollment_of_def)
  show ?thesis
  proof (rule change_ok [OF c])
    show "rqStatus q \<noteq> AuthRequestCompleted" by (simp add: q(2))
    show "request_ok (osDB s) q'" using r(1) S sub ne by (auto simp: request_ok_def q') 
    show "distinct (map fst (osApproved s @ [(enrollment_of q, G)]))" using s P(2) by (simp add: oauth_ok_def history_ok_def once_def)
    show "i = enrollment_of q \<and> capped (osDB s) i H" if "(i, H) \<in> set [(enrollment_of q, G)]" for i H using that cap by simp
    show "logged (s\<lparr>osApproved := osApproved s @ [(enrollment_of q, G)]\<rparr>) q'"
      using r(2) P(3) scope_string_eq [OF _ known] by (auto simp: logged_def q')
    show "rqGrantedScopes q' = Some (scope_string H)" if "minting s p H" "rqID p = rqID q" for p H using P(4) that by blast
  qed
qed

lemma deny_committed:
  assumes s: "oauth_ok s" and q: "q \<in> set (odRequests (osDB s))" "rqStatus q = AuthRequestPending"
    and d': "DecideAuthorizationRequest now (rqID q) AuthRequestDenied [] reason (osDB s) = (ok, d')"
  shows "oauth_ok (s\<lparr>osDB := d'\<rparr>)"
proof -
  define q' where "q' = q\<lparr>rqStatus := AuthRequestDenied, rqGrantedScopes := nullString [], rqDenyReason := nullString reason,
    rqDecidedAtMS := Some now, rqUpdatedAtMS := now\<rparr>"
  have "d' = (osDB s)\<lparr>odRequests := map (\<lambda>p. if p = q then q' else p) (odRequests (osDB s))\<rparr>"
    using d' unfolding decided_rows [OF s q] q'_def by blast
  then have c: "request_change s q q' d'" using s q(1) by (simp add: request_change_def same_request_def enrollment_of_def q'_def)
  have r: "request_ok (osDB s) q" "logged s q" using oauth_okD(5) [OF s q(1)] by simp_all
  note P = pending_row_facts [OF s q]
  have q': "rqStatus q' = AuthRequestDenied" "rqGrantedScopes q' = None" "rqSelectedScopes q' = rqSelectedScopes q"
    "rqClientID q' = rqClientID q" "rqID q' = rqID q" "enrollment_of q' = enrollment_of q"
    by (simp_all add: q'_def nullString_def enrollment_of_def)
  have "oauth_ok (s\<lparr>osDB := d', osApproved := osApproved s @ []\<rparr>)"
  proof (rule change_ok [OF c])
    show "rqStatus q \<noteq> AuthRequestCompleted" by (simp add: q(2))
    show "request_ok (osDB s) q'" using r(1) q(2) by (auto simp: request_ok_def q') 
    show "distinct (map fst (osApproved s @ []))" using s by (simp add: oauth_ok_def history_ok_def once_def)
    show "logged (s\<lparr>osApproved := osApproved s @ []\<rparr>) q'" using r(2) P(3) by (simp add: logged_def q')
    show "rqGrantedScopes q' = Some (scope_string H)" if "minting s p H" "rqID p = rqID q" for p H using P(4) that by blast
  qed simp
  then show ?thesis by simp
qed


lemma completed_rows:
  assumes "oauth_ok s" "q \<in> set (odRequests (osDB s))" "rqStatus q = AuthRequestApproved"
  shows "CompleteAuthorizationRequest now (rqID q) (osDB s) =
    (True, (osDB s)\<lparr>odRequests := map (\<lambda>p. if p = q then q\<lparr>rqStatus := AuthRequestCompleted, rqCompletedAtMS := Some now,
       rqUpdatedAtMS := now\<rparr> else p) (odRequests (osDB s))\<rparr>)"
proof -
  have "(rqID p = rqID q \<and> rqStatus p = AuthRequestApproved) = (p = q)" if "p \<in> set (odRequests (osDB s))" for p
    using same_row [OF assms(1,2) that] assms(3) by blast
  then show ?thesis using assms(2,3) by (auto simp: CompleteAuthorizationRequest_def Let_def update_where_def)
qed

lemma complete_committed:
  assumes s: "oauth_ok s" and q: "q \<in> set (odRequests (osDB s))" "rqStatus q = AuthRequestApproved" and m: "minting s q S"
    and d1: "CompleteAuthorizationRequest now (rqID q) (osDB s) = (True, d1)"
    and c: "cdRequestID c = rqID q" "cdScopes c = scope_string S" "cdClientID c = rqClientID q" "cdRedirectURI c = rqRedirectURI q"
      "cdCodeChallenge c = rqCodeChallenge q" "cdResource c = rqResource q" "cdHash c \<notin> snd ` set (osIssued s)"
    and d2: "IssueAuthorizationCode now c d1 = Inr d2"
  shows "oauth_ok (s\<lparr>osDB := d2, osIssued := osIssued s @ [(enrollment_of q, cdHash c)]\<rparr>)"
proof -
  define q' where "q' = q\<lparr>rqStatus := AuthRequestCompleted, rqCompletedAtMS := Some now, rqUpdatedAtMS := now\<rparr>"
  have "d1 = (osDB s)\<lparr>odRequests := map (\<lambda>p. if p = q then q' else p) (odRequests (osDB s))\<rparr>"
    using d1 unfolding completed_rows [OF s q] q'_def by blast
  then have ch: "request_change s q q' d1" using s q(1) by (simp add: request_change_def same_request_def enrollment_of_def q'_def)
  have r: "request_ok (osDB s) q" "logged s q" using oauth_okD(5) [OF s q(1)] by simp_all
  have g: "rqGrantedScopes q = Some (scope_string S)" "S \<subseteq> set canonicalOrder" using m q(1) by (simp_all add: minting_def)
  have q': "rqStatus q' = AuthRequestCompleted" "rqGrantedScopes q' = rqGrantedScopes q" "rqSelectedScopes q' = rqSelectedScopes q"
    "rqClientID q' = rqClientID q" "rqID q' = rqID q" "enrollment_of q' = enrollment_of q" "rqRedirectURI q' = rqRedirectURI q"
    "rqCodeChallenge q' = rqCodeChallenge q" "rqResource q' = rqResource q"
    by (simp_all add: q'_def enrollment_of_def)
  have "oauth_ok (s\<lparr>osDB := d1, osApproved := osApproved s @ []\<rparr>)"
  proof (rule change_ok [OF ch])
    show "rqStatus q \<noteq> AuthRequestCompleted" by (simp add: q(2))
    show "request_ok (osDB s) q'" using r(1) q(2) by (auto simp: request_ok_def q') 
    show "distinct (map fst (osApproved s @ []))" using s by (simp add: oauth_ok_def history_ok_def once_def)
    show "logged (s\<lparr>osApproved := osApproved s @ []\<rparr>) q'" using r(2) by (simp add: logged_def q')
    show "rqGrantedScopes q' = Some (scope_string H)" if "minting s p H" "rqID p = rqID q" for p H
      using that q(1) unfolding minting_def q' by metis
  qed simp
  then have s1: "oauth_ok (s\<lparr>osDB := d1\<rparr>)" by simp
  let ?c = "c\<lparr>cdCreatedAtMS := (if cdCreatedAtMS c = 0 then now else cdCreatedAtMS c)\<rparr>"
  have d2': "d2 = d1\<lparr>odAuthz := (odAuthz d1)\<lparr>zdCodes := zdCodes (odAuthz d1) @ [?c]\<rparr>\<rparr>"
    using d2 by (cases "CreateAuthorizationCode now c (odAuthz d1)") (auto simp: IssueAuthorizationCode_def CreateAuthorizationCode_def split: if_splits)
  have q1: "q' \<in> set (odRequests d1)" using change_rows(1) [OF ch] by blast
  have old: "rqID q \<notin> cdRequestID ` set (zdCodes (odAuthz (osDB s)))"
  proof
    assume "rqID q \<in> cdRequestID ` set (zdCodes (odAuthz (osDB s)))"
    then obtain k where k: "k \<in> set (zdCodes (odAuthz (osDB s)))" "cdRequestID k = rqID q" by (metis imageE)
    from oauth_okD(6) [OF s k(1)] obtain p where "p \<in> set (odRequests (osDB s))" "code_of p k" by blast
    with k(2) same_row [OF s q(1), of p] q(2) show False by (simp add: code_of_def)
  qed
  have "oauth_ok (s\<lparr>osDB := d1\<rparr>\<lparr>osDB := d2, osIssued := osIssued (s\<lparr>osDB := d1\<rparr>) @ [(enrollment_of q', cdHash ?c)]\<rparr>)"
  proof (rule code_added [OF s1])
    show "q' \<in> set (odRequests (osDB (s\<lparr>osDB := d1\<rparr>)))" using q1 by simp
    show "code_of q' ?c" by (simp add: code_of_def q' c g(1))
    have "(enrollment_of q, S) \<in> set (osApproved s)" using r(2) g by (simp add: logged_def)
    then show "enrollment_of q' \<in> fst ` set (osApproved (s\<lparr>osDB := d1\<rparr>))" by (force simp: q')
    show "enrollment_of q' \<notin> fst ` set (osIssued (s\<lparr>osDB := d1\<rparr>))" using r(2) q(2) by (simp add: logged_def q')
    show "cdHash ?c \<notin> snd ` set (osIssued (s\<lparr>osDB := d1\<rparr>))" using c(7) by simp
    show "cdRequestID ?c \<notin> cdRequestID ` set (zdCodes (odAuthz (osDB (s\<lparr>osDB := d1\<rparr>))))" using old by (simp add: change_same [OF ch] c(1))
  qed (simp add: d2')
  then show ?thesis by (simp add: q')
qed

lemma token_granted:
  assumes s: "oauth_ok s" and ok: "exchange_ok s tok" and t: "token_apply svc env tok (osDB s) = (res, d')"
  shows "oauth_ok (s\<lparr>osDB := d', osGranted := osGranted s @ granted_by tok res\<rparr>)"
proof -
  have calm: "calm (osDB s) d'" using calm_token [of "osDB s" svc env tok] t by simp
  have s1: "oauth_ok (s\<lparr>osDB := d'\<rparr>)" by (rule calm_ok [OF calm s])
  show ?thesis
  proof (cases "granted_by tok res")
    case Nil
    with s1 show ?thesis by simp
  next
    case (Cons g gs)
    then obtain x c gr S sn where tok: "tok = ExchangeToken x (MintGrant c gr S)" and res: "res = Inr sn"
      and g: "granted_by tok res = [(cdHash c, snMintedScopes sn)]"
      by (auto simp: granted_by_def split: token_decision.splits exchange_decision.splits sum.splits)
    from t tok res obtain z where e: "exchange_apply svc env x (MintGrant c gr S) (odAuthz (osDB s)) = (Inr sn, z)" and d': "d' = (osDB s)\<lparr>odAuthz := z\<rparr>"
      by (cases "exchange_apply svc env x (MintGrant c gr S) (odAuthz (osDB s))") (auto simp: token_apply_def map_sum_def split: sum.splits)
    from e obtain z1 where z1: "ConsumeAuthorizationCode (tx_now env) (cdHash c) (azID (grAuthorization gr)) (odAuthz (osDB s)) = (True, z1)"
      and w: "write_grant svc (tx_now env) ''authorization.token_issued'' (normalizeSource (exSource x)) gr z1 = Inr z" and sn: "snMintedScopes sn = S"
      by (auto simp: exchange_apply_def Let_def split: prod.splits if_splits option.splits sum.splits)
    from z1 obtain k where "k \<in> set (zdCodes (odAuthz (osDB s)))" "cdHash k = cdHash c" "cdConsumedAtMS k = None"
      by (auto simp: ConsumeAuthorizationCode_def)
    then have new: "cdHash c \<notin> fst ` set (osGranted s)" using oauth_okD(6) [OF s] unfolding code_logged_def by metis
    have spent: "cdConsumedAtMS k \<noteq> None" if "k \<in> set (zdCodes z)" "cdHash k = cdHash c" for k
      using z1 that unfolding grant_codes [OF w] by (auto simp: ConsumeAuthorizationCode_def set_update_where)
    from ok tok obtain i where i: "(i, cdHash c) \<in> set (osIssued s)" "(i, S) \<in> set (osApproved s)" unfolding exchange_ok_def by blast
    let ?s = "s\<lparr>osDB := d', osGranted := osGranted s @ [(cdHash c, S)]\<rparr>"
    have "history_ok ?s" using s1 new i by (auto simp: oauth_ok_def history_ok_def once_def)
    moreover have "code_logged ?s k" if "k \<in> set (zdCodes (odAuthz d'))" for k
      using oauth_okD(6) [OF s1, of k] that spent [of k] d' by (auto simp: code_logged_def)
    moreover have "logged ?s q \<longleftrightarrow> logged (s\<lparr>osDB := d'\<rparr>) q" for q by (simp add: logged_def)
    moreover have "approve_ok ?s own \<longleftrightarrow> approve_ok (s\<lparr>osDB := d'\<rparr>) own" "mint_ok ?s com \<longleftrightarrow> mint_ok (s\<lparr>osDB := d'\<rparr>) com"
      "exchange_ok ?s tk \<longleftrightarrow> exchange_ok (s\<lparr>osDB := d'\<rparr>) tk" for own com tk
      by (simp_all add: approve_ok_def approving_def mint_ok_def minting_def exchange_ok_def)
    ultimately have "oauth_ok ?s" using s1 by (simp add: oauth_ok_def rows_ok_def pending_ok_def)
    then show ?thesis by (simp add: g sn)
  qed
qed


section \<open>The reads\<close>

lemma select_row: "select_one (\<lambda>r. key r = k) rows = Some r \<Longrightarrow> r \<in> set rows \<and> key r = k"
  by (drule select_one_SomeD) simp

lemma post_read_ok:
  assumes "oauth_ok s"
  shows "create_ok (osDB s) (post_decide cfg env f (osDB s))"
  unfolding create_ok_def
proof (intro allI impI)
  fix p assume p: "post_decide cfg env f (osDB s) = CreatePost p"
  then obtain h ctx client sel e C where b: "browser_checks cfg env f (osDB s) = Inr (h, ctx, client, sel)"
    and e: "EnrollmentCodeByHash (EnrollmentCodeHash cfg (pfEnrollmentCode f)) (osDB s) = Some e"
    and C: "ParseScopeString (enScopes e) = Some C" "sel \<subseteq> C" and pe: "prEnrollment p = e" "prSelected p = sel"
    by (auto simp: post_decide_def Let_def split: sum.splits option.splits if_splits)
  have "ParseScopes (pfScopeSelected f) = Some sel" "sel \<noteq> {}"
    using b by (auto simp: browser_checks_def Let_def split: option.splits if_splits)
  then have sel: "sel \<noteq> {}" "sel \<subseteq> set canonicalOrder" using ParseScopes_known by auto
  from e have row: "e \<in> set (odEnrolls (osDB s))" unfolding EnrollmentCodeByHash_def by (blast dest: select_one_SomeD)
  with oauth_okD(7) [OF assms] have "enroll_ok e" by blast
  then show "enID (prEnrollment p) \<noteq> [] \<and> capped (osDB s) (enID (prEnrollment p)) (prSelected p)"
    using row C sel by (auto simp: pe enroll_ok_def capped_def)
qed

lemma approve_read_ok:
  assumes "oauth_ok s"
  shows "approve_ok s (approve_decide env i scopes (osDB s))" "approve_ok s (deny_decide i reason (osDB s))"
proof -
  show "approve_ok s (approve_decide env i scopes (osDB s))"
    unfolding approve_ok_def
  proof (intro allI impI)
    fix j G assume a: "approve_decide env i scopes (osDB s) = ApproveRequest j G"
    then obtain q S where q: "AuthorizationRequestByID i (osDB s) = Some q" "ParseScopeString (rqSelectedScopes q) = Some S"
      and G: "j = i" "G = S \<or> (G \<noteq> {} \<and> G \<subseteq> S)"
      by (auto simp: approve_decide_def split: option.splits if_splits list.splits)
    have row: "q \<in> set (odRequests (osDB s))" "rqID q = i" using select_row [of rqID] q(1) by (auto simp: AuthorizationRequestByID_def)
    then have "capped (osDB s) (enrollment_of q) S" using oauth_okD(5) [OF assms row(1)] q(2) by (auto simp: request_ok_def)
    then have "G \<noteq> {}" "G \<subseteq> S" using G(2) by (auto simp: capped_def)
    moreover have "p = q" if "p \<in> set (odRequests (osDB s))" "rqID p = i" for p using same_row [OF assms row(1) that(1)] that(2) row(2) by simp
    moreover have "i \<in> snd ` set (osRequested s)" using request_known(2) [OF assms row(1)] row(2) by simp
    ultimately show "approving s j G" using q(2) unfolding approving_def G(1) by blast
  qed
  show "approve_ok s (deny_decide i reason (osDB s))" by (simp add: approve_ok_def deny_decide_def split: option.split)
qed

lemma granted_text:
  assumes s: "oauth_ok s" and q: "q \<in> set (odRequests (osDB s))" "rqStatus q = AuthRequestApproved \<or> rqStatus q = AuthRequestCompleted"
  obtains G where "rqGrantedScopes q = Some (scope_string G)" "G \<noteq> {}" "G \<subseteq> set canonicalOrder" "scope_string G \<noteq> []"
    "ParseScopeString (scope_string G) = Some G" "(enrollment_of q, G) \<in> set (osApproved s)"
proof -
  have r: "request_ok (osDB s) q" "logged s q" using oauth_okD(5) [OF s q(1)] by simp_all
  from r(1) q(2) obtain S G where G: "capped (osDB s) (enrollment_of q) S" "rqGrantedScopes q = Some (scope_string G)" "G \<noteq> {}" "G \<subseteq> S"
    by (auto simp: request_ok_def)
  then have known: "G \<subseteq> set canonicalOrder" by (auto simp: capped_def)
  then have "(enrollment_of q, G) \<in> set (osApproved s)" using r(2) G(2) by (simp add: logged_def)
  with that G(2,3) known scope_text(2) [OF known G(3)] scope_string_roundtrip [OF known] show ?thesis by blast
qed

lemma complete_read_ok:
  assumes "oauth_ok s"
  shows "mint_ok s (complete_decide cfg env f (osDB s))"
  unfolding mint_ok_def
proof (intro allI impI)
  fix q S assume c: "complete_decide cfg env f (osDB s) = MintCode q S"
  then obtain h where "resolveRequest cfg (cfCookie f) (cfRequestID f) (osDB s) = Some (q, h)" and st: "rqStatus q = AuthRequestApproved"
    and S: "ParseScopeString (if scanString (rqGrantedScopes q) = [] then rqSelectedScopes q else scanString (rqGrantedScopes q)) = Some S"
    by (auto simp: complete_decide_def Let_def effectiveStatus_def split: option.splits if_splits)
  then have row: "q \<in> set (odRequests (osDB s))"
    by (auto simp: resolveRequest_def AuthorizationRequestByID_def dest!: select_one_SomeD split: option.splits if_splits)
  obtain G where G: "rqGrantedScopes q = Some (scope_string G)" "G \<noteq> {}" "G \<subseteq> set canonicalOrder" "scope_string G \<noteq> []"
    "ParseScopeString (scope_string G) = Some G" by (rule granted_text [OF assms row disjI1 [OF st]])
  with S have "S = G" by simp
  moreover have "p = q" if "p \<in> set (odRequests (osDB s))" "rqID p = rqID q" for p using same_row [OF assms row that(1)] that(2) by simp
  ultimately show "minting s q S" using G request_known(2) [OF assms row] by (auto simp: minting_def same_request_def)
qed

lemma token_read_ok:
  assumes "oauth_ok s"
  shows "exchange_ok s (token_decide cfg svc env f (osDB s))"
  unfolding exchange_ok_def
proof (intro allI impI)
  fix x c g S assume t: "token_decide cfg svc env f (osDB s) = ExchangeToken x (MintGrant c g S)"
  then have "exchange_decide env x (odAuthz (osDB s)) = MintGrant c g S"
    by (auto simp: token_decide_def grantAuthorizationCode_def grantRefreshToken_def Let_def split: option.splits if_splits)
  then have row: "c \<in> set (zdCodes (odAuthz (osDB s)))" and S: "ParseScopeString (cdScopes c) = Some S"
    by (auto simp: exchange_decide_def grant_plan_def Let_def AuthorizationCodeByHash_def dest!: select_one_SomeD split: option.splits if_splits)
  from oauth_okD(6) [OF assms row] obtain q q' where q: "q \<in> set (odRequests (osDB s))" "code_of q c"
    and q': "q' \<in> set (odRequests (osDB s))" "rqID q' = cdRequestID c" "(enrollment_of q', cdHash c) \<in> set (osIssued s)"
    unfolding code_logged_def by blast
  have "q' = q" using same_row [OF assms q(1) q'(1)] q(2) q'(2) by (simp add: code_of_def)
  moreover have st: "rqStatus q = AuthRequestCompleted" using q(2) by (simp add: code_of_def)
  obtain G where G: "rqGrantedScopes q = Some (scope_string G)" "G \<noteq> {}" "G \<subseteq> set canonicalOrder" "scope_string G \<noteq> []"
    "ParseScopeString (scope_string G) = Some G" "(enrollment_of q, G) \<in> set (osApproved s)"
    by (rule granted_text [OF assms q(1) disjI2 [OF st]])
  moreover have "cdScopes c = scope_string G" using q(2) G(1) by (simp add: code_of_def)
  ultimately show "\<exists>i. (i, cdHash c) \<in> set (osIssued s) \<and> (i, S) \<in> set (osApproved s)" using S q'(3) by auto
qed

section \<open>Every step\<close>

text \<open>The decisions that wait may change, as long as they are sound.\<close>

lemma with_pending:
  assumes "oauth_ok s" and same: "osDB s' = osDB s" "osRequested s' = osRequested s" "osApproved s' = osApproved s"
    "osIssued s' = osIssued s" "osGranted s' = osGranted s"
    and pending: "\<And>dec. dec \<in> set (osPosts s') \<Longrightarrow> create_ok (osDB s) dec" "\<And>dec. dec \<in> set (osDecisions s') \<Longrightarrow> approve_ok s dec"
      "\<And>dec. dec \<in> set (osCompletes s') \<Longrightarrow> mint_ok s dec" "\<And>dec. dec \<in> set (osTokens s') \<Longrightarrow> exchange_ok s dec"
  shows "oauth_ok s'"
proof -
  have "history_ok s' \<longleftrightarrow> history_ok s" by (simp add: history_ok_def once_def same)
  moreover have "logged s' q \<longleftrightarrow> logged s q" "code_logged s' k \<longleftrightarrow> code_logged s k" for q k by (simp_all add: logged_def code_logged_def same)
  then have "rows_ok s' \<longleftrightarrow> rows_ok s" by (simp add: rows_ok_def same)
  moreover have "approve_ok s' own \<longleftrightarrow> approve_ok s own" "mint_ok s' com \<longleftrightarrow> mint_ok s com" "exchange_ok s' tk \<longleftrightarrow> exchange_ok s tk" for own com tk
    by (simp_all add: approve_ok_def approving_def mint_ok_def minting_def exchange_ok_def same)
  then have "pending_ok s'" using pending by (simp add: pending_ok_def same)
  ultimately show ?thesis using assms(1) by (simp add: oauth_ok_def same)
qed

lemma fewer_pending:
  assumes "oauth_ok s" "osDB s' = osDB s" "osRequested s' = osRequested s" "osApproved s' = osApproved s"
    "osIssued s' = osIssued s" "osGranted s' = osGranted s"
    and "set (osPosts s') \<subseteq> set (osPosts s)" "set (osDecisions s') \<subseteq> set (osDecisions s)"
      "set (osCompletes s') \<subseteq> set (osCompletes s)" "set (osTokens s') \<subseteq> set (osTokens s)"
  shows "oauth_ok s'"
proof (rule with_pending [OF assms(1-6)])
  have p: "pending_ok s" using assms(1) by (simp add: oauth_ok_def)
  show "dec \<in> set (osPosts s') \<Longrightarrow> create_ok (osDB s) dec" for dec using p assms(7) unfolding pending_ok_def by blast
  show "dec \<in> set (osDecisions s') \<Longrightarrow> approve_ok s dec" for dec using p assms(8) unfolding pending_ok_def by blast
  show "dec \<in> set (osCompletes s') \<Longrightarrow> mint_ok s dec" for dec using p assms(9) unfolding pending_ok_def by blast
  show "dec \<in> set (osTokens s') \<Longrightarrow> exchange_ok s dec" for dec using p assms(10) unfolding pending_ok_def by blast
qed


section \<open>The steps\<close>

lemma post_commit_ok:
  assumes s: "oauth_ok s" and dec: "dec \<in> set (osPosts s)" and fresh: "oeID env \<notin> snd ` set (osRequested s)"
    and r: "post_apply cfg env dec (osDB s) = (res, d')"
  shows "oauth_ok (s\<lparr>osDB := d', osRequested := osRequested s @ requested_by dec res\<rparr>)"
proof -
  have quiet: "oauth_ok (s\<lparr>osDB := d', osRequested := osRequested s @ []\<rparr>)" if "calm (osDB s) d'"
    using calm_ok [OF that s] by simp
  show ?thesis
  proof (cases dec)
    case (CreatePost p)
    then have p: "create_ok (osDB s) (CreatePost p)" using s dec unfolding oauth_ok_def pending_ok_def by blast
    obtain rr where c: "createPendingRequest cfg env p (osDB s) = (rr, d')" and res: "res = (case rr of Inl e \<Rightarrow> PostRefused e | Inr i \<Rightarrow> PostWaiting i)"
      using r CreatePost by (auto simp: post_apply_def split: prod.splits sum.splits)
    have "requested_by dec res = (case rr of Inr i \<Rightarrow> [(enID (prEnrollment p), i)] | Inl e \<Rightarrow> [])"
      by (cases rr) (simp_all add: requested_by_def CreatePost res)
    with commit_create_ok [OF s p fresh c] show ?thesis by simp
  next
    case (RefusePost e)
    with r quiet show ?thesis by (simp add: post_apply_def requested_by_def)
  next
    case (RerenderPost page)
    with r quiet show ?thesis by (simp add: post_apply_def requested_by_def)
  next
    case (FailPost src key code page)
    have "calm (osDB s) (case code of None \<Rightarrow> osDB s | Some c \<Rightarrow> noteEnrollmentExpired (oeNow env) c (osDB s))"
      using calm_handlers(6) by (simp split: option.split)
    then have "calm (osDB s) d'" using r FailPost db_calm_trans [OF _ calm_handlers(7)] by (auto simp: post_apply_def)
    with quiet FailPost show ?thesis by (simp add: requested_by_def)
  qed
qed

lemma decision_commit_ok:
  assumes s: "oauth_ok s" and dec: "own \<in> set (osDecisions s)" and r: "decision_apply env src own (osDB s) = (res, d')"
  shows "oauth_ok (s\<lparr>osDB := d', osApproved := osApproved s @ approved_by (osDB s) own res\<rparr>)"
proof -
  have quiet: "oauth_ok (s\<lparr>osDB := d, osApproved := osApproved s @ []\<rparr>)" if "d = osDB s" for d using s that by simp
  have audit: "oauth_ok (s\<lparr>osDB := oauth_audit k src d, osApproved := A\<rparr>)" if ok: "oauth_ok (s\<lparr>osDB := d, osApproved := A\<rparr>)" for k d A
  proof -
    have "oauth_ok (s\<lparr>osDB := d, osApproved := A\<rparr>\<lparr>osDB := oauth_audit k src d\<rparr>)" by (rule calm_ok [OF _ ok]) simp
    then show ?thesis by (rule back_subst [of oauth_ok]) (rule oauth_sys.equality; simp)
  qed
  have found: "\<exists>q \<in> set (odRequests (osDB s)). rqID q = i \<and> rqStatus q = AuthRequestPending"
    if "DecideAuthorizationRequest now i st g rs (osDB s) = (True, d1)" for now i st g rs d1
    using that by (auto simp: DecideAuthorizationRequest_def Let_def)
  have same: "d1 = osDB s" if "DecideAuthorizationRequest now i st g rs (osDB s) = (False, d1)" for now i st g rs d1
  proof -
    have "\<forall>q \<in> set (odRequests (osDB s)). \<not> (rqID q = i \<and> rqStatus q = AuthRequestPending)"
      using that by (auto simp: DecideAuthorizationRequest_def Let_def)
    with that show ?thesis by (auto simp: DecideAuthorizationRequest_def Let_def update_where_def intro!: map_idI oauth_db.equality)
  qed
  show ?thesis
  proof (cases own)
    case (RefuseDecision e)
    with r quiet show ?thesis by (simp add: decision_apply_def approved_by_def)
  next
    case (ApproveRequest i G)
    obtain ok d1 where d1: "DecideAuthorizationRequest (od_now env) i AuthRequestApproved (scope_string G) [] (osDB s) = (ok, d1)" by fastforce
    show ?thesis
    proof (cases ok)
      case False
      then have "d1 = osDB s" using same d1 by (metis (full_types))
      with False d1 r ApproveRequest quiet show ?thesis by (auto simp: decision_apply_def approved_by_def)
    next
      case True
      then obtain q where q: "q \<in> set (odRequests (osDB s))" "rqID q = i" "rqStatus q = AuthRequestPending" using found d1 by (metis (full_types))
      have "approve_ok s own" using s dec by (simp add: oauth_ok_def pending_ok_def)
      then have "approving s (rqID q) G" using ApproveRequest q(2) by (simp add: approve_ok_def)
      from approve_committed [OF s q(1,3) this] d1 q(2)
      have ok1: "oauth_ok (s\<lparr>osDB := d1, osApproved := osApproved s @ [(enrollment_of q, G)]\<rparr>)" by blast
      have "distinct (map rqID (odRequests (osDB s)))" using s by (simp add: oauth_ok_def tables_ok_def)
      then have "AuthorizationRequestByID i (osDB s) = Some q"
        using select_key_unique [of rqID _ q] q(1,2) by (simp add: AuthorizationRequestByID_def)
      with True d1 r ApproveRequest have "res = None" "d' = oauth_audit ''authorization.approved'' src d1"
        "approved_by (osDB s) own res = [(enrollment_of q, G)]" by (auto simp: decision_apply_def approved_by_def)
      with audit [OF ok1] show ?thesis by simp
    qed
  next
    case (DenyRequest i reason)
    obtain ok d1 where d1: "DecideAuthorizationRequest (od_now env) i AuthRequestDenied [] reason (osDB s) = (ok, d1)" by fastforce
    show ?thesis
    proof (cases ok)
      case False
      then have "d1 = osDB s" using same d1 by (metis (full_types))
      with False d1 r DenyRequest quiet show ?thesis by (auto simp: decision_apply_def approved_by_def)
    next
      case True
      then obtain q where q: "q \<in> set (odRequests (osDB s))" "rqID q = i" "rqStatus q = AuthRequestPending" using found d1 by (metis (full_types))
      from deny_committed [OF s q(1,3)] d1 q(2) have "oauth_ok (s\<lparr>osDB := d1, osApproved := osApproved s @ []\<rparr>)" by simp
      from audit [OF this] True d1 r DenyRequest show ?thesis by (auto simp: decision_apply_def approved_by_def)
    qed
  qed
qed

lemma complete_commit_ok:
  assumes s: "oauth_ok s" and dec: "com \<in> set (osCompletes s)"
    and fresh: "\<And>v. oeSecret env = Some v \<Longrightarrow> authorizationCodeHash cfg v \<notin> snd ` set (osIssued s)"
    and r: "complete_apply cfg env com (osDB s) = (res, d')"
  shows "oauth_ok (s\<lparr>osDB := d', osIssued := osIssued s @ issued_by cfg com res\<rparr>)"
proof (cases "issued_by cfg com res = []")
  case True
  have "calm (osDB s) d'"
  proof (cases com)
    case (MintCode q S)
    with r True have "d' = osDB s" by (auto simp: complete_apply_def issued_by_def Let_def split: option.splits prod.splits if_splits sum.splits)
    then show ?thesis by simp
  qed (use r calm_handlers(5) in \<open>auto simp: complete_apply_def\<close>)
  from calm_ok [OF this s] show ?thesis using True by simp
next
  case False
  then obtain q0 S uri code st sc where com: "com = MintCode q0 S" and res: "res = CompleteCode uri code st sc"
    by (auto simp: issued_by_def split: complete_decision.splits complete_answer.splits)
  from r obtain d1 d2 where v: "oeSecret env = Some code" and d1: "CompleteAuthorizationRequest (od_now env) (rqID q0) (osDB s) = (True, d1)"
    and d2: "IssueAuthorizationCode (od_now env) (code_for cfg env q0 S code) d1 = Inr d2"
    and d': "d' = oauth_audit ''authorization.approved'' (scanString (rqSource q0)) d2"
    unfolding com res by (auto simp: complete_apply_def Let_def split: option.splits prod.splits if_splits sum.splits)
  from d1 obtain q where q: "q \<in> set (odRequests (osDB s))" "rqID q = rqID q0" "rqStatus q = AuthRequestApproved"
    by (auto simp: CompleteAuthorizationRequest_def Let_def)
  have m: "minting s q0 S" using s dec com by (auto simp: oauth_ok_def pending_ok_def mint_ok_def)
  then have same: "same_request q0 q" using q by (simp add: minting_def)
  have m': "minting s q S"
  proof -
    have "p = q" if "p \<in> set (odRequests (osDB s))" "rqID p = rqID q" for p using same_row [OF s q(1) that(1)] that(2) by simp
    then show ?thesis using m q unfolding minting_def same_request_def by metis
  qed
  have "oauth_ok (s\<lparr>osDB := d2, osIssued := osIssued s @ [(enrollment_of q, cdHash (code_for cfg env q0 S code))]\<rparr>)"
    by (rule complete_committed [OF s q(1,3) m' _ _ _ _ _ _ _ _ d2])
      (use d1 q(2) same fresh [OF v] in \<open>simp_all add: code_for_def same_request_def\<close>)
  then have ok: "oauth_ok (s\<lparr>osDB := d2, osIssued := osIssued s @ issued_by cfg com res\<rparr>)"
    using same by (simp add: com res issued_by_def code_for_def same_request_def)
  have "oauth_ok (s\<lparr>osDB := d2, osIssued := osIssued s @ issued_by cfg com res\<rparr>\<lparr>osDB := d'\<rparr>)"
    by (rule calm_ok [OF _ ok]) (simp add: d')
  then show ?thesis by (rule back_subst [of oauth_ok]) (rule oauth_sys.equality; simp)
qed

lemma oauth_step_ok:
  assumes "oauth_step cfg svc s s'" "oauth_ok s"
  shows "oauth_ok s'"
  using assms(1)
proof cases
  case (register env req src)
  with calm_ok [OF calm_handlers(1) assms(2)] show ?thesis by simp
next
  case (sweep now)
  with sweep_ok [OF assms(2)] show ?thesis by simp
next
  case (declare_client env static src)
  with calm_ok [OF calm_handlers(2) assms(2)] show ?thesis by simp
next
  case (enroll env q src)
  with calm_ok [OF calm_issue assms(2)] show ?thesis by simp
next
  case (revoke_code env i reason src)
  with calm_ok [OF calm_handlers(3) assms(2)] show ?thesis by simp
next
  case (poll at cookie i)
  with calm_ok [OF calm_handlers(4) assms(2)] show ?thesis by simp
next
  case (mint_admin zenv presented scopes src)
  with calm_ok [OF calm_authz [OF codes_le_same [OF service_codes(2)]] assms(2)] show ?thesis by simp
next
  case (owner_revokes zenv i src)
  with calm_ok [OF calm_authz [OF codes_le_same [OF service_codes(4)]] assms(2)] show ?thesis by simp
next
  case (commit_revoke src rvk zenv)
  from calm_ok [OF calm_authz [OF codes_le_same [OF service_codes(3)]] assms(2)]
  have "oauth_ok (s\<lparr>osDB := (osDB s)\<lparr>odAuthz := snd (revoke_apply zenv src rvk (odAuthz (osDB s)))\<rparr>\<rparr>)" .
  then show ?thesis by (rule fewer_pending) (simp_all add: commit_revoke)
next
  case (restart now)
  from calm_ok [OF calm_authz [OF codes_le_same [OF service_codes(5)]] assms(2)]
  have "oauth_ok (s\<lparr>osDB := (osDB s)\<lparr>odAuthz := snd (RevokeSupersededAdminSessions svc now (odAuthz (osDB s)))\<rparr>\<rparr>)" .
  then show ?thesis by (rule fewer_pending) (simp_all add: restart)
next
  case (revoke_one i g gs zenv src e z)
  then have "zdCodes z = zdCodes (odAuthz (osDB s))" using service_codes(4) [of zenv g src "odAuthz (osDB s)"] by simp
  from calm_ok [OF calm_authz [OF codes_le_same [OF this]] assms(2)] have "oauth_ok (s\<lparr>osDB := (osDB s)\<lparr>odAuthz := z\<rparr>\<rparr>)" .
  then show ?thesis by (rule fewer_pending) (simp_all add: revoke_one)
next
  case (remove_client i src)
  from calm_ok [OF _ removal_ok [OF assms(2), of i], of "oauth_audit ''client.revoked'' src (DeleteOAuthClient i (osDB s))"]
  have "oauth_ok (s\<lparr>osDB := oauth_audit ''client.revoked'' src (DeleteOAuthClient i (osDB s))\<rparr>)" by simp
  then show ?thesis by (rule fewer_pending) (simp_all add: remove_client)
next
  case (read_removal i grants)
  show ?thesis by (rule fewer_pending [OF assms(2)]) (simp_all add: read_removal)
next
  case (read_revoke src zenv presented i)
  show ?thesis by (rule fewer_pending [OF assms(2)]) (simp_all add: read_revoke)
next
  case (read_post env f)
  show ?thesis by (rule with_pending [OF assms(2)]) (use assms(2) post_read_ok in \<open>auto simp: read_post oauth_ok_def pending_ok_def\<close>)
next
  case (read_approve env i scopes)
  show ?thesis by (rule with_pending [OF assms(2)]) (use assms(2) approve_read_ok(1) in \<open>auto simp: read_approve oauth_ok_def pending_ok_def\<close>)
next
  case (read_deny i reason)
  show ?thesis by (rule with_pending [OF assms(2)]) (use assms(2) approve_read_ok(2) in \<open>auto simp: read_deny oauth_ok_def pending_ok_def\<close>)
next
  case (read_complete env cf)
  show ?thesis by (rule with_pending [OF assms(2)]) (use assms(2) complete_read_ok in \<open>auto simp: read_complete oauth_ok_def pending_ok_def\<close>)
next
  case (read_token zenv tf)
  show ?thesis by (rule with_pending [OF assms(2)]) (use assms(2) token_read_ok in \<open>auto simp: read_token oauth_ok_def pending_ok_def\<close>)
next
  case (read_admin_refresh p zenv)
  show ?thesis by (rule with_pending [OF assms(2)]) (use assms(2) in \<open>auto simp: read_admin_refresh oauth_ok_def pending_ok_def exchange_ok_def\<close>)
next
  case (commit_post dec env res d')
  from post_commit_ok [OF assms(2) commit_post(2-4)] show ?thesis by (rule fewer_pending) (simp_all add: commit_post(1) set_remove1_subset)
next
  case (commit_decision own env src answer d')
  from decision_commit_ok [OF assms(2) commit_decision(2,3)] show ?thesis
    by (rule fewer_pending) (simp_all add: commit_decision(1) set_remove1_subset)
next
  case (commit_complete com env told d')
  from complete_commit_ok [OF assms(2) commit_complete(2) _ commit_complete(4)] commit_complete(3) have
    "oauth_ok (s\<lparr>osDB := d', osIssued := osIssued s @ issued_by cfg com told\<rparr>)" by blast
  then show ?thesis by (rule fewer_pending) (simp_all add: commit_complete(1) set_remove1_subset)
next
  case (commit_token tok zenv session d')
  have "exchange_ok s tok" using assms(2) commit_token(2) by (simp add: oauth_ok_def pending_ok_def)
  from token_granted [OF assms(2) this commit_token(3)] show ?thesis
    by (rule fewer_pending) (simp_all add: commit_token(1) set_remove1_subset)
qed

lemma oauth_run_ok: "oauth_run cfg svc s s' \<Longrightarrow> oauth_ok s \<Longrightarrow> oauth_ok s'"
  by (induction rule: rtranclp_induct) (auto dest: oauth_step_ok)

lemma no_oauth_ok: "oauth_ok no_oauth"
  by (simp add: oauth_ok_def no_oauth_def tables_ok_def history_ok_def once_def rows_ok_def pending_ok_def)

end
