(* ===== verification/Oauth_Example.thy ===== *)
theory Oauth_Example
  imports Oauth_Steps Authz_Runs
begin

text \<open>
  One enrollment, start to end, on concrete values: a client is declared, an enrollment code issued and used, the
  request approved and completed, and the code exchanged. The properties of the OAuth server are applied here.
\<close>

section \<open>Parameters\<close>

text \<open>A context is marshalled field by field, each character marked, each field closed.\<close>

definition frame :: "string \<Rightarrow> string" where "frame s = concat (map (\<lambda>c. [CHR ''1'', c]) s) @ ''0''"

fun unframe :: "string \<Rightarrow> string \<Rightarrow> string list" where
  "unframe acc (a # c # r) = (if a = CHR ''0'' then rev acc # unframe [] (c # r) else unframe (c # acc) r)"
| "unframe acc [a] = (if a = CHR ''0'' then [rev acc] else [])"
| "unframe acc [] = []"

lemma unframe_frame: "unframe acc (frame s @ r) = (rev acc @ s) # unframe [] r"
proof (induction s arbitrary: acc)
  case Nil
  show ?case by (cases r) (simp_all add: frame_def)
next
  case (Cons c s)
  have "unframe acc (frame (c # s) @ r) = unframe (c # acc) (frame s @ r)" by (simp add: frame_def)
  with Cons [of "c # acc"] show ?case by simp
qed

lemma unframe_frames: "unframe [] (concat (map frame ss)) = ss"
  by (induction ss) (simp_all add: unframe_frame)

definition unary :: "int \<Rightarrow> string" where "unary i = (if 0 \<le> i then replicate (nat i) CHR ''+'' else replicate (nat (- i)) CHR ''-'')"
definition of_unary :: "string \<Rightarrow> int" where
  "of_unary s = (case s of [] \<Rightarrow> 0 | c # r \<Rightarrow> if c = CHR ''-'' then - int (length s) else int (length s))"

lemma of_unary_unary: "of_unary (unary i) = i"
proof (cases "0 \<le> i")
  case True
  then show ?thesis by (cases "nat i") (auto simp: of_unary_def unary_def)
next
  case False
  then show ?thesis by (cases "nat (- i)") (auto simp: of_unary_def unary_def)
qed

definition marshal_context :: "contextPayload \<Rightarrow> string" where
  "marshal_context c = concat (map frame ([cpHandleHash c, cpClientID c, cpRedirectURI c, cpState c, cpChallenge c, cpMethod c,
     cpResource c, unary (cpExpiresAtMS c)] @ cpScopes c))"

definition unmarshal_context :: "string \<Rightarrow> contextPayload option" where
  "unmarshal_context u =
     (case unframe [] u of
        h # i # uri # st # ch # m # res # at # scopes \<Rightarrow>
          Some \<lparr>cpHandleHash = h, cpClientID = i, cpRedirectURI = uri, cpState = st, cpChallenge = ch, cpMethod = m,
                cpResource = res, cpScopes = scopes, cpExpiresAtMS = of_unary at\<rparr>
      | _ \<Rightarrow> None)"

lemma context_roundtrip: "unmarshal_context (marshal_context c) = Some c"
  unfolding unmarshal_context_def marshal_context_def unframe_frames by (simp add: of_unary_unary)

definition an_oauth :: oauth_config where
  "an_oauth = \<lparr>ogPublicURL = ''https://gm.example'', ogKey = ''key'', ogSha = (\<lambda>u. replicate 32 (CHR 0x00)), ogHmac = (\<lambda>k m. k),
     ogParse = (\<lambda>u. Some \<lparr>ulScheme = ''https'', ulUser = False, ulHost = ''c.example'', ulHostname = ''c.example'', ulEscapedPath = ''/cb'',
       ulRawQuery = [], ulFragment = []\<rparr>),
     ogIsIP = (\<lambda>h. False), ogMarshal = marshal_context, ogUnmarshal = unmarshal_context, ogParseDuration = (\<lambda>u. None)\<rparr>"

definition oauth_at :: "string \<Rightarrow> string \<Rightarrow> oauth_env" where
  "oauth_at i v = \<lparr>oeNow = Second, oeTxAt = Second, oeRequestTTL = None, oeCodeTTL = None, oeEnrollmentTTL = None, oeID = i, oeSecret = Some v\<rparr>"

abbreviation zero_hash :: string where "zero_hash \<equiv> hex_encode (replicate 32 (CHR 0x00))"

lemma an_oauth_fields [simp]:
  "ogPublicURL an_oauth = ''https://gm.example''" "ogSha an_oauth u = replicate 32 (CHR 0x00)" "ogMarshal an_oauth = marshal_context"
  "ogUnmarshal an_oauth = unmarshal_context" "ogParseDuration an_oauth u = None"
  "EnrollmentCodeHash an_oauth u = zero_hash" "authorizationCodeHash an_oauth u = zero_hash" "handleHash an_oauth u = zero_hash"
  "digest (ogSha an_oauth) k ps = replicate 32 (CHR 0x00)" "formTokenHash an_oauth u = zero_hash"
  by (simp_all add: an_oauth_def EnrollmentCodeHash_def authorizationCodeHash_def handleHash_def digest_def formTokenHash_def)

lemma oauth_at_fields [simp]:
  "oeNow (oauth_at i v) = Second" "od_now (oauth_at i v) = 1000" "request_ttl (oauth_at i v) = 15 * Minute" "code_ttl (oauth_at i v) = 2 * Minute"
  "oeEnrollmentTTL (oauth_at i v) = None" "oeID (oauth_at i v) = i" "oeSecret (oauth_at i v) = Some v"
  by (simp_all add: oauth_at_def od_now_def request_ttl_def code_ttl_def or_default_def UnixMilli_def)

section \<open>The run\<close>

definition a_client :: client_row where
  "a_client = \<lparr>ocID = ''app'', ocName = None, ocRedirectURIs = [''https://c.example/cb''], ocGrantTypes = [''authorization_code'', ''refresh_token''],
     ocResponseTypes = [''code''], ocSource = None, ocActivatedAtMS = Some 1000, ocExpiresAtMS = None, ocCreatedAtMS = 1000, ocStatic = True,
     ocDefaultResource = True\<rparr>"

definition a_static :: StaticClientRequest where
  "a_static = \<lparr>srClientID = ''app'', srName = [], srRedirectURIs = [''https://c.example/cb''], srDefaultResource = True\<rparr>"

definition an_enrollment :: "string option \<Rightarrow> enroll_row" where
  "an_enrollment used = \<lparr>enID = ''enr_1'', enCodeHash = zero_hash, enLabel = ''phone'', enScopes = scope_string {ScopeMessagesRead, ScopeMessagesWrite},
     enExpiresAtMS = 901000, enConsumedAtMS = (if used = None then None else Some 1000), enConsumedBy = used, enRevokedAtMS = None,
     enRevokedReason = None, enCreatedAtMS = 1000, enUpdatedAtMS = 1000\<rparr>"

definition enroll_request :: EnrollmentRequest where
  "enroll_request = \<lparr>eqLabel = ''phone'', eqExpiresIn = [], eqScopes = [], eqAllowScopes = []\<rparr>"

lemma static_id: "validStaticClientID ''app''"
  by code_simp

lemma redirect_allowed: "ValidateRedirectURI an_oauth ''https://c.example/cb''"
  by (simp add: ValidateRedirectURI_def an_oauth_def MaxRedirectURILength_def contains_char_def ToLower_def lower_char_def Let_def)

lemma words: "TrimSpace ''app'' = ''app''" "TrimSpace ''phone'' = ''phone''" "TrimSpace [] = []"
  by (simp_all add: TrimSpace_plain ascii_word_def) (simp add: TrimSpace_def trim_both_def)

definition db_client :: oauth_db where
  "db_client = snd (CreateStaticClient an_oauth (oauth_at [] []) a_static [] (osDB no_oauth))"

lemma db_client: "db_client = oauth_audit ''client.created'' [] ((osDB no_oauth)\<lparr>odClients := [a_client]\<rparr>)"
  by (simp add: db_client_def CreateStaticClient_def Let_def a_static_def no_oauth_def words static_id redirect_allowed MaxStaticClientIDLength_def
      PrefixClient_def MaxRedirectURIs_def OAuthClientByID_def CreateOAuthClient_def static_client_def a_client_def UnixMilli_def nullInt_def)

definition db_enrolled :: oauth_db where
  "db_enrolled = snd (IssueEnrollmentCode an_oauth (oauth_at ''enr_1'' (replicate 16 (CHR 0x00))) enroll_request [] db_client)"

lemma ceiling: "enrollmentCeiling enroll_request = Inr {ScopeMessagesRead, ScopeMessagesWrite}"
  using parse_scopes_plain [of "[ScopeMessagesRead, ScopeMessagesWrite]" "{}"]
  by (simp add: enrollmentCeiling_def enroll_request_def DefaultEnrollmentCeiling_def ParseScopes_def canonicalOrder_def)

lemma db_enrolled: "db_enrolled = oauth_audit ''enrollment.created'' [] (db_client\<lparr>odEnrolls := [an_enrollment None]\<rparr>)"
  by (simp add: db_enrolled_def IssueEnrollmentCode_def Let_def ceiling enrollmentTTL_def)
    (simp add: enroll_request_def words or_default_def CreateEnrollmentCode_def db_client oauth_audit_def no_oauth_def enroll_new_def
      an_enrollment_def UnixMilli_def)

definition a_context :: contextPayload where
  "a_context = \<lparr>cpHandleHash = zero_hash, cpClientID = ''app'', cpRedirectURI = ''https://c.example/cb'', cpState = ''state'',
     cpChallenge = RawURLEncode (replicate 32 (CHR 0x00)), cpMethod = ''S256'', cpResource = ''https://gm.example/mcp'',
     cpScopes = [ScopeMessagesRead, ScopeMessagesWrite], cpExpiresAtMS = 901000\<rparr>"

definition a_cookie :: string where "a_cookie = signPayload an_oauth ''handle''"

definition a_form :: post_form where
  "a_form = \<lparr>pfSource = [], pfOrigin = [], pfReadable = True, pfCookie = Some a_cookie, pfContext = signPayload an_oauth (marshal_context a_context),
     pfFormToken = formTokenFor an_oauth ''handle'', pfClientID = ''app'', pfRedirectURI = ''https://c.example/cb'', pfState = ''state'',
     pfCodeChallenge = RawURLEncode (replicate 32 (CHR 0x00)), pfCodeChallengeMethod = ''S256'', pfResource = ''https://gm.example/mcp'',
     pfScope = join_words [ScopeMessagesRead, ScopeMessagesWrite], pfScopeSelected = [ScopeMessagesRead], pfEnrollmentCode = ''0000''\<rparr>"

definition a_pending :: pendingRequest where
  "a_pending = \<lparr>prClient = a_client, prContext = a_context, prSelected = {ScopeMessagesRead}, prEnrollment = an_enrollment None,
     prHandle = ''handle'', prSource = []\<rparr>"

lemma verify_signed [simp]: "verifyPayload cfg (signPayload cfg v) = Some v"
proof -
  have "CHR ''.'' \<notin> set (RawURLEncode v)" using RawURLEncode_chars(2) by blast
  then show ?thesis by (simp add: verifyPayload_def signPayload_def Let_def Cut_append RawURLDecode_Encode)
qed

lemma zero_hash_equal [simp]: "equalHashHex (replicate 32 (CHR 0x00)) zero_hash"
  by (simp add: equalHashHex_encode del: replicate_Suc)

lemma parsed: "ParseScopes [ScopeMessagesRead, ScopeMessagesWrite] = Some {ScopeMessagesRead, ScopeMessagesWrite}"
  "ParseScopes [ScopeMessagesRead] = Some {ScopeMessagesRead}"
  using parse_scopes_plain [of "[ScopeMessagesRead, ScopeMessagesWrite]" "{}"] parse_scopes_plain [of "[ScopeMessagesRead]" "{}"]
  by (simp_all add: ParseScopes_def canonicalOrder_def)

lemma parsed_text: "ParseScopeString (scope_string {ScopeMessagesRead, ScopeMessagesWrite}) = Some {ScopeMessagesRead, ScopeMessagesWrite}"
  by (rule scope_string_roundtrip) (simp add: canonicalOrder_def)

lemma enrolled_tables [simp]:
  "odClients db_enrolled = [a_client]" "odEnrolls db_enrolled = [an_enrollment None]" "odRequests db_enrolled = []"
  "zdAttempts (odAuthz db_enrolled) = []" "zdCodes (odAuthz db_enrolled) = []" "zdAuths (odAuthz db_enrolled) = []" "zdTokens (odAuthz db_enrolled) = []"
  by (simp_all add: db_enrolled db_client oauth_audit_def AppendAudit_def no_oauth_def)

lemma post_read: "post_decide an_oauth (oauth_at i v) a_form db_enrolled = CreatePost a_pending"
proof -
  have m: "MatchRegisteredRedirect an_oauth (ocRedirectURIs a_client) ''https://c.example/cb'' \<noteq> None"
    by (simp add: MatchRegisteredRedirect_def a_client_def RedirectMatches_def)
  have "browser_checks an_oauth (oauth_at i v) a_form db_enrolled = Inr (''handle'', a_context, a_client, {ScopeMessagesRead})"
    using m by (simp add: browser_checks_def Let_def unlimited checkOrigin_def a_form_def contextHandle_def a_cookie_def context_roundtrip
        echoes_match_def OAuthClientByID_def a_context_def a_client_def parsed UnixMilli_def)
  moreover have "EnrollmentCodeByHash zero_hash db_enrolled = Some (an_enrollment None)"
    by (simp add: EnrollmentCodeByHash_def an_enrollment_def)
  moreover have "enrollmentUsable Second (an_enrollment None)" "ParseScopeString (enScopes (an_enrollment None)) = Some {ScopeMessagesRead, ScopeMessagesWrite}"
    by (simp_all add: enrollmentUsable_def EnrollRevoked_def EnrollConsumed_def an_enrollment_def UnixMilli_def parsed_text)
  ultimately show ?thesis by (simp add: post_decide_def Let_def a_pending_def) (simp add: a_form_def)
qed

definition a_request :: "string \<Rightarrow> ms option \<Rightarrow> ms option \<Rightarrow> request_row" where
  "a_request status decided completed = \<lparr>rqID = ''req_1'', rqClientID = ''app'', rqRedirectURI = ''https://c.example/cb'', rqState = ''state'',
     rqCodeChallenge = RawURLEncode (replicate 32 (CHR 0x00)), rqCodeChallengeMethod = ''S256'', rqResource = ''https://gm.example/mcp'',
     rqRequestedScopes = join_words [ScopeMessagesRead, ScopeMessagesWrite], rqSelectedScopes = scope_string {ScopeMessagesRead},
     rqGrantedScopes = (if decided = None then None else Some (scope_string {ScopeMessagesRead})), rqEnrollmentCodeID = Some ''enr_1'',
     rqStatus = status, rqDenyReason = None, rqHandleHash = zero_hash, rqFormTokenHash = zero_hash, rqSource = None,
     rqExpiresAtMS = 901000, rqDecidedAtMS = decided, rqCompletedAtMS = completed, rqCreatedAtMS = 1000, rqUpdatedAtMS = 1000\<rparr>"

abbreviation "pending_request \<equiv> a_request AuthRequestPending None None"
abbreviation "approved_request \<equiv> a_request AuthRequestApproved (Some 1000) None"
abbreviation "completed_request \<equiv> a_request AuthRequestCompleted (Some 1000) (Some 1000)"

definition db_requested :: oauth_db where
  "db_requested = oauth_audit ''authorization.created'' [] (oauth_audit ''enrollment.consumed'' []
     (db_enrolled\<lparr>odEnrolls := [an_enrollment (Some ''req_1'')], odRequests := [pending_request]\<rparr>))"

lemma post_committed: "post_apply an_oauth (oauth_at ''req_1'' v) (CreatePost a_pending) db_enrolled = (PostWaiting ''req_1'', db_requested)"
proof -
  have "ConsumeEnrollmentCode 1000 ''enr_1'' ''req_1'' db_enrolled = (True, db_enrolled\<lparr>odEnrolls := [an_enrollment (Some ''req_1'')]\<rparr>)"
    by (simp add: ConsumeEnrollmentCode_def Let_def an_enrollment_def)
  moreover have "CreateAuthorizationRequest 1000 (pending_row an_oauth (oauth_at ''req_1'' v) a_pending) (db_enrolled\<lparr>odEnrolls := [an_enrollment (Some ''req_1'')]\<rparr>)
      = Inr (db_enrolled\<lparr>odEnrolls := [an_enrollment (Some ''req_1'')], odRequests := [pending_request]\<rparr>)"
    by (simp add: CreateAuthorizationRequest_def pending_row_def a_pending_def a_context_def a_client_def a_request_def an_enrollment_def UnixMilli_def)
  moreover have "ActivateOAuthClient 1000 ''app'' d = d" if "odClients d = [a_client]" for d
    using that by (simp add: ActivateOAuthClient_def a_client_def coalesce_def)
  moreover have "enID (prEnrollment a_pending) = ''enr_1''" "ocID (prClient a_pending) = ''app''" "prSource a_pending = []"
    by (simp_all add: a_pending_def an_enrollment_def a_client_def)
  ultimately show ?thesis by (simp add: post_apply_def createPendingRequest_def Let_def db_requested_def)
qed

lemma requested_tables [simp]:
  "odClients db_requested = [a_client]" "odEnrolls db_requested = [an_enrollment (Some ''req_1'')]" "odRequests db_requested = [pending_request]"
  "zdAttempts (odAuthz db_requested) = []" "zdCodes (odAuthz db_requested) = []" "zdAuths (odAuthz db_requested) = []" "zdTokens (odAuthz db_requested) = []"
  using enrolled_tables by (simp_all add: db_requested_def oauth_audit_def AppendAudit_def)

lemma approve_read: "approve_decide (oauth_at i v) ''req_1'' None db_requested = ApproveRequest ''req_1'' {ScopeMessagesRead}"
  by (simp add: approve_decide_def AuthorizationRequestByID_def a_request_def UnixMilli_def read_scope_parse)

definition db_approved :: oauth_db where
  "db_approved = oauth_audit ''authorization.approved'' [] (db_requested\<lparr>odRequests := [approved_request]\<rparr>)"

lemma read_text: "nullString (scope_string {ScopeMessagesRead}) = Some (scope_string {ScopeMessagesRead})"
  by (rule scope_text(1)) (simp_all add: canonicalOrder_def)

lemma read_text_some: "scope_string {ScopeMessagesRead} \<noteq> []"
  by (rule scope_text(2)) (simp_all add: canonicalOrder_def)

lemma approve_committed_eval:
  "decision_apply (oauth_at i v) [] (ApproveRequest ''req_1'' {ScopeMessagesRead}) db_requested = (None, db_approved)"
  by (simp add: decision_apply_def DecideAuthorizationRequest_def Let_def read_text db_approved_def) (simp add: a_request_def nullString_def)

lemma approved_tables [simp]:
  "odClients db_approved = [a_client]" "odEnrolls db_approved = [an_enrollment (Some ''req_1'')]" "odRequests db_approved = [approved_request]"
  "zdAttempts (odAuthz db_approved) = []" "zdCodes (odAuthz db_approved) = []" "zdAuths (odAuthz db_approved) = []" "zdTokens (odAuthz db_approved) = []"
  using requested_tables by (simp_all add: db_approved_def oauth_audit_def AppendAudit_def)

definition a_complete :: complete_form where
  "a_complete = \<lparr>cfRequestID = ''req_1'', cfCookie = Some a_cookie, cfOrigin = ''https://gm.example'', cfReadable = True,
     cfFormToken = formTokenFor an_oauth ''handle''\<rparr>"

lemma complete_read: "complete_decide an_oauth (oauth_at i v) a_complete db_approved = MintCode approved_request {ScopeMessagesRead}"
  by (simp add: complete_decide_def resolveRequest_def contextHandle_def a_complete_def a_cookie_def AuthorizationRequestByID_def
      requireSameOrigin_def checkOrigin_def effectiveStatus_def Let_def a_request_def read_scope_parse read_text_some)

definition issued_code :: "ms option \<Rightarrow> code_row" where
  "issued_code used = \<lparr>cdHash = zero_hash, cdRequestID = ''req_1'', cdClientID = ''app'', cdRedirectURI = ''https://c.example/cb'',
     cdCodeChallenge = RawURLEncode (replicate 32 (CHR 0x00)), cdScopes = scope_string {ScopeMessagesRead}, cdResource = ''https://gm.example/mcp'',
     cdAuthorizationID = (if used = None then None else Some ''auth_1''), cdConsumedAtMS = used, cdExpiresAtMS = 121000, cdCreatedAtMS = 1000\<rparr>"

definition db_completed :: oauth_db where
  "db_completed = oauth_audit ''authorization.approved'' []
     (db_approved\<lparr>odRequests := [completed_request], odAuthz := (odAuthz db_approved)\<lparr>zdCodes := [issued_code None]\<rparr>\<rparr>)"

lemma complete_committed_eval:
  "complete_apply an_oauth (oauth_at i ''code'') (MintCode approved_request {ScopeMessagesRead}) db_approved =
     (CompleteCode ''https://c.example/cb'' ''code'' ''state'' (scope_string {ScopeMessagesRead}), db_completed)"
proof -
  have "CompleteAuthorizationRequest 1000 ''req_1'' db_approved = (True, db_approved\<lparr>odRequests := [completed_request]\<rparr>)"
    by (simp add: CompleteAuthorizationRequest_def Let_def) (simp add: a_request_def)
  moreover have "code_for an_oauth (oauth_at i ''code'') approved_request {ScopeMessagesRead} ''code'' = issued_code None"
    by (simp add: code_for_def a_request_def issued_code_def UnixMilli_def)
  moreover have "rqID (a_request st x y) = ''req_1''" "rqRedirectURI (a_request st x y) = ''https://c.example/cb''" "rqState (a_request st x y) = ''state''"
    "rqSource (a_request st x y) = None" for st x y by (simp_all add: a_request_def)
  ultimately show ?thesis
    by (simp add: complete_apply_def Let_def IssueAuthorizationCode_def CreateAuthorizationCode_def db_completed_def) (simp add: issued_code_def)
qed

lemma completed_tables [simp]:
  "odClients db_completed = [a_client]" "odEnrolls db_completed = [an_enrollment (Some ''req_1'')]" "odRequests db_completed = [completed_request]"
  "zdAttempts (odAuthz db_completed) = []" "zdCodes (odAuthz db_completed) = [issued_code None]"
  "zdAuths (odAuthz db_completed) = []" "zdTokens (odAuthz db_completed) = []"
  using approved_tables by (simp_all add: db_completed_def oauth_audit_def AppendAudit_def)

definition a_token_form :: token_form where
  "a_token_form = \<lparr>tfContentType = ''application/x-www-form-urlencoded'', tfReadable = True, tfTooLarge = False, tfGrantType = ''authorization_code'',
     tfCode = ''code'', tfClientID = ''app'', tfRedirectURI = ''https://c.example/cb'', tfCodeVerifier = ''verifier'', tfResource = [],
     tfRefreshToken = [], tfScope = [], tfToken = [], tfSource = []\<rparr>"

lemma form_accepted: "requireForm (a_token_form\<lparr>tfCodeVerifier := v\<rparr>) = None" "requireForm a_token_form = None"
proof -
  have take: "takeWhile (\<lambda>c. c \<noteq> CHR '';'') (tfContentType a_token_form) = tfContentType a_token_form" by (simp add: a_token_form_def)
  have "TrimSpace (tfContentType a_token_form) = tfContentType a_token_form"
    by (rule TrimSpace_plain) (simp add: a_token_form_def ascii_word_def)
  moreover have "ToLower (tfContentType a_token_form) = ''application/x-www-form-urlencoded''"
    by (simp add: a_token_form_def ToLower_def lower_char_def Let_def)
  moreover have "tfReadable a_token_form" by (simp add: a_token_form_def)
  ultimately show "requireForm a_token_form = None" "requireForm (a_token_form\<lparr>tfCodeVerifier := v\<rparr>) = None"
    unfolding requireForm_def Let_def by (simp_all add: take del: takeWhile_eq_all_conv)
qed

definition the_grant :: grant where
  "the_grant = a_grant\<lparr>grAuthorization := (grAuthorization a_grant)\<lparr>azClient := Some ''app''\<rparr>\<rparr>"

definition the_exchange :: CodeExchange where "the_exchange = code_exchange an_oauth a_token_form"

lemma code_live: "AuthorizationCodeByHash zero_hash (odAuthz db_completed) = Some (issued_code None)" "\<not> code_consumed (issued_code None)"
  "UnixMilli Second < cdExpiresAtMS (issued_code None)" "cdHash (issued_code None) = zero_hash"
  by (simp_all add: AuthorizationCodeByHash_def issued_code_def code_consumed_def UnixMilli_def)

lemma token_read:
  "token_decide an_oauth a_service (an_env Second ''A1'' ''R1'') a_token_form db_completed =
     ExchangeToken the_exchange (MintGrant (issued_code None) the_grant {ScopeMessagesRead})"
proof -
  have x: "exCodeHash the_exchange = zero_hash" "exSource the_exchange = []" by (simp_all add: the_exchange_def code_exchange_def a_token_form_def)
  have "exVerify the_exchange (issued_code None) = None"
    by (simp add: the_exchange_def code_exchange_def verify_code_def verifyPKCE_def issued_code_def a_token_form_def Resource_def)
  moreover have "grant_plan (an_env Second ''A1'' ''R1'') ''unknown'' (issued_code None) = MintGrant (issued_code None) the_grant {ScopeMessagesRead}"
    by (simp add: grant_plan_def issued_code_def read_scope_parse the_grant_def a_grant_def UnixMilli_def earlier_def nullInt_def Let_def nullString_def)
  moreover have "\<not> cdExpiresAtMS (issued_code None) \<le> UnixMilli Second" using code_live(3) by simp
  ultimately have "exchange_decide (an_env Second ''A1'' ''R1'') the_exchange (odAuthz db_completed) = MintGrant (issued_code None) the_grant {ScopeMessagesRead}"
    using code_live(1,2) x by (simp add: exchange_decide_def Let_def unlimited no_source)
  then show ?thesis
    by (simp add: token_decide_def form_accepted grantAuthorizationCode_def the_exchange_def [symmetric]) (simp add: a_token_form_def)
qed

definition the_session :: Session where
  "the_session = \<lparr>snAuthorizationID = ''auth_1'', snAccessToken = ''A1'', snRefreshToken = ''R1'', snScopes = {ScopeMessagesRead},
     snMintedScopes = {ScopeMessagesRead}, snAccessExpiry = 3601 * Second, snRefreshExpiry = 86401 * Second, snNarrowed = False\<rparr>"

lemma token_committed:
  "\<exists>d. token_apply a_service (an_env Second ''A1'' ''R1'') (ExchangeToken the_exchange (MintGrant (issued_code None) the_grant {ScopeMessagesRead}))
     db_completed = (Inr the_session, d) \<and> odEnrolls d = odEnrolls db_completed \<and> odRequests d = odRequests db_completed \<and>
     zdCodes (odAuthz d) = [issued_code (Some 1000)]"
proof -
  have con: "ConsumeAuthorizationCode 1000 zero_hash ''auth_1'' (odAuthz db_completed) =
      (True, (odAuthz db_completed)\<lparr>zdCodes := [issued_code (Some 1000)]\<rparr>)"
    by (simp add: ConsumeAuthorizationCode_def) (simp add: issued_code_def coalesce_def nullString_def)
  have "\<exists>z. exchange_apply a_service (an_env Second ''A1'' ''R1'') the_exchange (MintGrant (issued_code None) the_grant {ScopeMessagesRead})
      (odAuthz db_completed) = (Inr the_session, z) \<and> zdCodes z = [issued_code (Some 1000)]"
    using con by (simp add: exchange_apply_def Let_def code_live(4) the_grant_def a_grant_def UnixMilli_def write_grant_def CreateAuthorization_def
      token_pair_def InsertToken_def the_session_def AppendAudit_def)
  then show ?thesis by (auto simp: token_apply_def)
qed

definition requested_sys :: oauth_sys where
  "requested_sys = no_oauth\<lparr>osDB := db_requested, osRequested := [(''enr_1'', ''req_1'')]\<rparr>"

definition approved_sys :: oauth_sys where
  "approved_sys = requested_sys\<lparr>osDB := db_approved, osApproved := [(''enr_1'', {ScopeMessagesRead})]\<rparr>"

definition completed_sys :: oauth_sys where
  "completed_sys = approved_sys\<lparr>osDB := db_completed, osIssued := [(''enr_1'', zero_hash)]\<rparr>"

definition exchanged_sys :: "oauth_db \<Rightarrow> oauth_sys" where
  "exchanged_sys d = completed_sys\<lparr>osDB := d, osGranted := [(zero_hash, {ScopeMessagesRead})]\<rparr>"

abbreviation "example_run \<equiv> oauth_run an_oauth a_service"

lemma run_requested: "example_run no_oauth requested_sys"
proof -
  let ?e = "oauth_at ''enr_1'' (replicate 16 (CHR 0x00))" and ?r = "oauth_at ''req_1'' []"
  let ?s1 = "no_oauth\<lparr>osDB := db_client\<rparr>" and ?s2 = "no_oauth\<lparr>osDB := db_enrolled\<rparr>"
  have "oauth_step an_oauth a_service no_oauth ?s1"
    using oauth_step.declare_client [of an_oauth a_service no_oauth "oauth_at [] []" a_static "[]"] by (simp add: db_client_def)
  moreover have "oauth_step an_oauth a_service ?s1 ?s2"
    using oauth_step.enroll [of ?e an_oauth a_service ?s1 enroll_request "[]"] by (simp add: db_enrolled_def)
  moreover have "oauth_step an_oauth a_service ?s2 (?s2\<lparr>osPosts := [CreatePost a_pending]\<rparr>)"
    using oauth_step.read_post [of an_oauth a_service ?s2 ?r a_form] by (simp add: post_read no_oauth_def)
  moreover have "oauth_step an_oauth a_service (?s2\<lparr>osPosts := [CreatePost a_pending]\<rparr>) requested_sys"
    using oauth_step.commit_post [of "CreatePost a_pending" "?s2\<lparr>osPosts := [CreatePost a_pending]\<rparr>" ?r an_oauth "PostWaiting ''req_1''" db_requested a_service]
      post_committed by (simp add: requested_by_def a_pending_def an_enrollment_def requested_sys_def no_oauth_def)
  ultimately show ?thesis by (meson rtranclp.rtrancl_refl rtranclp.rtrancl_into_rtrancl)
qed

lemma run_approved: "example_run requested_sys approved_sys"
proof -
  let ?e = "oauth_at [] []" and ?own = "ApproveRequest ''req_1'' {ScopeMessagesRead}"
  have "oauth_step an_oauth a_service requested_sys (requested_sys\<lparr>osDecisions := [?own]\<rparr>)"
    using oauth_step.read_approve [of an_oauth a_service requested_sys ?e "''req_1''" None] by (simp add: requested_sys_def approve_read) (simp add: no_oauth_def)
  moreover have "approved_by db_requested ?own None = [(''enr_1'', {ScopeMessagesRead})]"
    by (simp add: approved_by_def AuthorizationRequestByID_def) (simp add: a_request_def enrollment_of_def)
  then have "oauth_step an_oauth a_service (requested_sys\<lparr>osDecisions := [?own]\<rparr>) approved_sys"
    using oauth_step.commit_decision [of ?own "requested_sys\<lparr>osDecisions := [?own]\<rparr>" ?e "[]" None db_approved an_oauth a_service] approve_committed_eval
    by (simp add: requested_sys_def approved_sys_def) (simp add: no_oauth_def)
  ultimately show ?thesis by (meson rtranclp.rtrancl_refl rtranclp.rtrancl_into_rtrancl)
qed

lemma run_completed: "example_run approved_sys completed_sys"
proof -
  let ?e = "oauth_at [] ''code''" and ?com = "MintCode approved_request {ScopeMessagesRead}"
  have "oauth_step an_oauth a_service approved_sys (approved_sys\<lparr>osCompletes := [?com]\<rparr>)"
    using oauth_step.read_complete [of an_oauth a_service approved_sys ?e a_complete]
    by (simp add: approved_sys_def complete_read) (simp add: requested_sys_def no_oauth_def)
  moreover have "enrollment_of approved_request = ''enr_1''" by (simp add: enrollment_of_def a_request_def)
  then have "oauth_step an_oauth a_service (approved_sys\<lparr>osCompletes := [?com]\<rparr>) completed_sys"
    using oauth_step.commit_complete [of ?com "approved_sys\<lparr>osCompletes := [?com]\<rparr>" ?e an_oauth
        "CompleteCode ''https://c.example/cb'' ''code'' ''state'' (scope_string {ScopeMessagesRead})" db_completed a_service] complete_committed_eval
    by (simp add: approved_sys_def completed_sys_def issued_by_def) (simp add: requested_sys_def no_oauth_def)
  ultimately show ?thesis by (meson rtranclp.rtrancl_refl rtranclp.rtrancl_into_rtrancl)
qed

lemma run_exchanged: "\<exists>d. example_run completed_sys (exchanged_sys d) \<and> odEnrolls d = [an_enrollment (Some ''req_1'')] \<and>
  odRequests d = [completed_request] \<and> zdCodes (odAuthz d) = [issued_code (Some 1000)]"
proof -
  let ?e = "an_env Second ''A1'' ''R1''" and ?tok = "ExchangeToken the_exchange (MintGrant (issued_code None) the_grant {ScopeMessagesRead})"
  have 1: "oauth_step an_oauth a_service completed_sys (completed_sys\<lparr>osTokens := [?tok]\<rparr>)"
    using oauth_step.read_token [of an_oauth a_service completed_sys ?e a_token_form]
    by (simp add: completed_sys_def token_read) (simp add: approved_sys_def requested_sys_def no_oauth_def)
  from token_committed obtain d where d: "token_apply a_service ?e ?tok db_completed = (Inr the_session, d)" "odEnrolls d = [an_enrollment (Some ''req_1'')]"
    "odRequests d = [completed_request]" "zdCodes (odAuthz d) = [issued_code (Some 1000)]" by auto
  then have "oauth_step an_oauth a_service (completed_sys\<lparr>osTokens := [?tok]\<rparr>) (exchanged_sys d)"
    using oauth_step.commit_token [of ?tok "completed_sys\<lparr>osTokens := [?tok]\<rparr>" a_service ?e "Inr the_session" d an_oauth]
    by (simp add: completed_sys_def exchanged_sys_def granted_by_def code_live(4)) (simp add: the_session_def approved_sys_def requested_sys_def no_oauth_def)
  with 1 d show ?thesis by (meson rtranclp.rtrancl_refl rtranclp.rtrancl_into_rtrancl)
qed

lemmas run_to_approved = rtranclp_trans [OF run_requested run_approved]
lemmas run_to_completed = rtranclp_trans [OF run_to_approved run_completed]

end
