(* ===== verification/Oauth_Safety.thy ===== *)
theory Oauth_Safety
  imports Oauth_Example
begin

text \<open>
  What the OAuth server promises: one enrollment code leads to at most one session, and only through the owner's
  approval; a code is worth something only to the client it was made for; decisions are final; and the
  authorization screen tells nothing about which enrollment codes exist.
\<close>

section \<open>From enrollment code to session\<close>

text \<open>C6: There is no self-service. However requests interleave, an enrollment code raises at most one
  authorization request, which is approved at most once, which yields at most one authorization code, which is
  exchanged for at most one session; and the scopes of every session that was minted are exactly those the
  owner approved for it, a nonempty set within the ceiling of an enrollment code the owner issued, which never
  contains admin.\<close>

theorem one_enrollment_one_session:
  assumes "oauth_run cfg svc no_oauth s"
  shows "distinct (map fst (osRequested s)) \<and> distinct (map fst (osApproved s)) \<and> distinct (map fst (osIssued s)) \<and>
    distinct (map snd (osIssued s)) \<and> distinct (map fst (osGranted s)) \<and>
    (\<forall>h S. (h, S) \<in> set (osGranted s) \<longrightarrow> (\<exists>i r e C. (i, r) \<in> set (osRequested s) \<and> (i, S) \<in> set (osApproved s) \<and> (i, h) \<in> set (osIssued s) \<and>
       e \<in> set (odEnrolls (osDB s)) \<and> enID e = i \<and> enConsumedBy e \<noteq> None \<and> ParseScopeString (enScopes e) = Some C \<and>
       S \<noteq> {} \<and> S \<subseteq> C \<and> ScopeAdmin \<notin> C))"
proof -
  have ok: "oauth_ok s" by (rule oauth_run_ok [OF assms no_oauth_ok])
  have "\<exists>i r e C. (i, r) \<in> set (osRequested s) \<and> (i, S) \<in> set (osApproved s) \<and> (i, h) \<in> set (osIssued s) \<and>
       e \<in> set (odEnrolls (osDB s)) \<and> enID e = i \<and> enConsumedBy e \<noteq> None \<and> ParseScopeString (enScopes e) = Some C \<and>
       S \<noteq> {} \<and> S \<subseteq> C \<and> ScopeAdmin \<notin> C" if "(h, S) \<in> set (osGranted s)" for h S
  proof -
    from oauth_okD(4) [OF ok that] obtain i where i: "(i, h) \<in> set (osIssued s)" "(i, S) \<in> set (osApproved s)" by blast
    from oauth_okD(2) [OF ok i(2)] obtain r where r: "(i, r) \<in> set (osRequested s)" and cap: "capped (osDB s) i S" by auto
    from oauth_okD(1) [OF ok r] obtain e where e: "e \<in> set (odEnrolls (osDB s))" "enID e = i" "enConsumedBy e \<noteq> None" unfolding seen_def by blast
    from cap obtain e' C where e': "e' \<in> set (odEnrolls (osDB s))" "enID e' = i" "ParseScopeString (enScopes e') = Some C"
      and C: "S \<noteq> {}" "S \<subseteq> C" "ScopeAdmin \<notin> C" unfolding capped_def by blast
    have "distinct (map enID (odEnrolls (osDB s)))" using ok by (simp add: oauth_ok_def tables_ok_def)
    with e e' have "e' = e" by (simp add: distinct_map inj_on_def)
    with i r e e' C show ?thesis by blast
  qed
  moreover have "once s" using ok by (simp add: oauth_ok_def history_ok_def)
  ultimately show ?thesis by (simp add: once_def)
qed

text \<open>An authorization code carries what its request was made and approved for. In every reachable state, each
  code row belongs to exactly one request, which is completed; the code's scopes are the ones the owner
  approved for that request, within what the browser selected; and its client, redirect URI, PKCE challenge
  and resource are the request's.\<close>

theorem codes_carry_the_approval:
  assumes "oauth_run cfg svc no_oauth s" "c \<in> set (zdCodes (odAuthz (osDB s)))"
  shows "\<exists>q G S. q \<in> set (odRequests (osDB s)) \<and> rqID q = cdRequestID c \<and> rqStatus q = AuthRequestCompleted \<and>
    (enrollment_of q, cdHash c) \<in> set (osIssued s) \<and> (enrollment_of q, G) \<in> set (osApproved s) \<and> cdScopes c = scope_string G \<and>
    ParseScopeString (rqSelectedScopes q) = Some S \<and> G \<noteq> {} \<and> G \<subseteq> S \<and> cdClientID c = rqClientID q \<and> cdRedirectURI c = rqRedirectURI q \<and>
    cdCodeChallenge c = rqCodeChallenge q \<and> cdResource c = rqResource q \<and>
    (\<forall>c' \<in> set (zdCodes (odAuthz (osDB s))). cdRequestID c' = cdRequestID c \<longrightarrow> c' = c)"
proof -
  have ok: "oauth_ok s" by (rule oauth_run_ok [OF assms(1) no_oauth_ok])
  from oauth_okD(6) [OF ok assms(2)] obtain q q' where q: "q \<in> set (odRequests (osDB s))" "code_of q c"
    and q': "q' \<in> set (odRequests (osDB s))" "rqID q' = cdRequestID c" "(enrollment_of q', cdHash c) \<in> set (osIssued s)"
    unfolding code_logged_def by blast
  have "q' = q" using same_row [OF ok q(1) q'(1)] q(2) q'(2) by (simp add: code_of_def)
  have st: "rqStatus q = AuthRequestCompleted" using q(2) by (simp add: code_of_def)
  obtain G where G: "rqGrantedScopes q = Some (scope_string G)" "G \<noteq> {}" "G \<subseteq> set canonicalOrder" "scope_string G \<noteq> []"
    "ParseScopeString (scope_string G) = Some G" "(enrollment_of q, G) \<in> set (osApproved s)"
    by (rule granted_text [OF ok q(1) disjI2 [OF st]])
  obtain S H where S: "ParseScopeString (rqSelectedScopes q) = Some S" "capped (osDB s) (enrollment_of q) S"
    "rqGrantedScopes q = Some (scope_string H)" "H \<subseteq> S"
    using oauth_okD(5) [OF ok q(1)] st by (auto simp: request_ok_def)
  then have "H = G" using G scope_string_eq [of H G] by (auto simp: capped_def)
  moreover have "distinct (map cdRequestID (zdCodes (odAuthz (osDB s))))" using ok by (simp add: oauth_ok_def tables_ok_def)
  then have "\<forall>c' \<in> set (zdCodes (odAuthz (osDB s))). cdRequestID c' = cdRequestID c \<longrightarrow> c' = c"
    using assms(2) by (simp add: distinct_map inj_on_def)
  ultimately show ?thesis using q q' \<open>q' = q\<close> G S st by (intro exI [of _ q] exI [of _ G] exI [of _ S]) (simp add: code_of_def)
qed

section \<open>Decisions are final\<close>

definition request_le :: "request_row \<Rightarrow> request_row \<Rightarrow> bool" where
  "request_le q q' \<longleftrightarrow> rqID q' = rqID q \<and> same_request q q' \<and> rqSelectedScopes q' = rqSelectedScopes q \<and>
     (rqStatus q', rqGrantedScopes q') \<in> {(rqStatus q, rqGrantedScopes q)} \<union>
       (if rqStatus q = AuthRequestPending then {AuthRequestApproved, AuthRequestDenied, AuthRequestCompleted} \<times> UNIV
        else if rqStatus q = AuthRequestApproved then {(AuthRequestCompleted, rqGrantedScopes q)} else {})"

definition requests_le :: "oauth_sys \<Rightarrow> oauth_sys \<Rightarrow> bool" where
  "requests_le s s' \<longleftrightarrow> snd ` set (osRequested s) \<subseteq> snd ` set (osRequested s') \<and>
     (\<forall>q' \<in> set (odRequests (osDB s')). rqID q' \<in> snd ` set (osRequested s) \<longrightarrow> (\<exists>q \<in> set (odRequests (osDB s)). request_le q q'))"

lemma request_le_refl [simp]: "request_le q q"
  by (simp add: request_le_def same_request_def)

lemma request_le_trans: "request_le a b \<Longrightarrow> request_le b c \<Longrightarrow> request_le a c"
  unfolding request_le_def same_request_def by (auto split: if_splits)

lemma requests_leD:
  "requests_le s s' \<Longrightarrow> i \<in> snd ` set (osRequested s) \<Longrightarrow> i \<in> snd ` set (osRequested s')"
  "requests_le s s' \<Longrightarrow> q' \<in> set (odRequests (osDB s')) \<Longrightarrow> rqID q' \<in> snd ` set (osRequested s) \<Longrightarrow>
    \<exists>q \<in> set (odRequests (osDB s)). request_le q q'"
  unfolding requests_le_def by blast+

lemma requests_le_trans:
  assumes "requests_le a b" "requests_le b c"
  shows "requests_le a c"
  unfolding requests_le_def
proof (intro conjI subsetI ballI impI)
  show "i \<in> snd ` set (osRequested c)" if "i \<in> snd ` set (osRequested a)" for i
    by (rule requests_leD(1) [OF assms(2) requests_leD(1) [OF assms(1) that]])
  fix q' assume q': "q' \<in> set (odRequests (osDB c))" "rqID q' \<in> snd ` set (osRequested a)"
  from requests_leD(2) [OF assms(2) q'(1) requests_leD(1) [OF assms(1) q'(2)]]
  obtain p where p: "p \<in> set (odRequests (osDB b))" "request_le p q'" by (rule bexE)
  have "rqID p = rqID q'" using p(2) by (simp add: request_le_def)
  from requests_leD(2) [OF assms(1) p(1)] q'(2) obtain q where "q \<in> set (odRequests (osDB a))" "request_le q p"
    unfolding \<open>rqID p = rqID q'\<close> by blast
  with request_le_trans [OF _ p(2)] show "\<exists>q \<in> set (odRequests (osDB a)). request_le q q'" by (intro bexI [of _ q])
qed

lemma requests_from:
  assumes "osRequested s' = osRequested s @ xs"
    and "\<And>q'. q' \<in> set (odRequests (osDB s')) \<Longrightarrow> rqID q' \<in> snd ` set (osRequested s) \<Longrightarrow> \<exists>q \<in> set (odRequests (osDB s)). request_le q q'"
  shows "requests_le s s'"
  unfolding requests_le_def by (intro conjI ballI impI assms(2)) (simp_all add: assms(1) image_Un)

lemma requests_same:
  assumes "odRequests (osDB s') = odRequests (osDB s)" "osRequested s' = osRequested s @ xs"
  shows "requests_le s s'"
  by (rule requests_from [OF assms(2)], rule bexI, rule request_le_refl) (simp add: assms(1))

lemma requests_calm: "calm (osDB s) (osDB s') \<Longrightarrow> osRequested s' = osRequested s @ xs \<Longrightarrow> requests_le s s'"
  by (rule requests_same) (simp_all add: calm_def)

lemma requests_fewer:
  assumes "set (odRequests (osDB s')) \<subseteq> set (odRequests (osDB s))" "osRequested s' = osRequested s"
  shows "requests_le s s'"
  by (rule requests_from [of _ _ "[]"]; (rule bexI, rule request_le_refl)?) (use assms in auto)

lemma requests_changed:
  assumes "odRequests (osDB s') = map u (odRequests (osDB s))" "osRequested s' = osRequested s"
    and "\<And>q. q \<in> set (odRequests (osDB s)) \<Longrightarrow> request_le q (u q)"
  shows "requests_le s s'"
  by (rule requests_from [of _ _ "[]"]) (use assms in auto)

lemma calmD: "calm d d' \<Longrightarrow> odRequests d' = odRequests d"
  by (simp add: calm_def)

lemma post_requests:
  assumes "post_apply cfg env dec d = (res, d')"
  shows "odRequests d' = odRequests d \<or> (\<exists>q. odRequests d' = odRequests d @ [q] \<and> rqID q = oeID env)"
proof -
  have e: "odRequests (ActivateOAuthClient now i e) = odRequests e" "odRequests (snd (ConsumeEnrollmentCode now i r e)) = odRequests e"
    "odRequests (oauth_audit k s e) = odRequests e" "odRequests (noteEnrollmentExpired at c e) = odRequests e"
    "odRequests (recordEnrollmentFailure env s k e) = odRequests e" for now i r e k s at c
    by (rule calmD [OF calm_activate] calmD [OF calm_enroll_consume] calmD [OF calm_audit(1)] calmD [OF calm_handlers(6)]
        calmD [OF calm_handlers(7)])+
  show ?thesis
  proof (cases dec)
    case (CreatePost p)
    show ?thesis
    proof (cases "fst (createPendingRequest cfg env p d)")
      case (Inl x)
      then have "snd (createPendingRequest cfg env p d) = d"
        by (auto simp: createPendingRequest_def Let_def split: if_splits prod.splits sum.splits)
      with assms CreatePost show ?thesis by (auto simp: post_apply_def split: prod.splits sum.splits)
    next
      case (Inr x)
      then obtain d1 d2 where d1: "ConsumeEnrollmentCode (od_now env) (enID (prEnrollment p)) (oeID env) d = (True, d1)"
        and d2: "CreateAuthorizationRequest (od_now env) (pending_row cfg env p) d1 = Inr d2"
        and d3: "odRequests (snd (createPendingRequest cfg env p d)) = odRequests d2"
        by (auto simp: createPendingRequest_def Let_def e split: if_splits prod.splits sum.splits)
      have "odRequests d1 = odRequests d" using e(2) [of "od_now env" "enID (prEnrollment p)" "oeID env" d] d1 by simp
      moreover have "\<exists>q. odRequests d2 = odRequests d1 @ [q] \<and> rqID q = oeID env"
        using d2 by (auto simp: CreateAuthorizationRequest_def pending_row_def split: if_splits)
      moreover have "d' = snd (createPendingRequest cfg env p d)" using assms CreatePost by (auto simp: post_apply_def split: prod.splits sum.splits)
      ultimately show ?thesis using d3 by simp
    qed
  qed (use assms e in \<open>auto simp: post_apply_def split: option.splits\<close>)
qed

lemma decision_requests:
  assumes "decision_apply env src own d = (res, d')"
  shows "\<exists>u. odRequests d' = map u (odRequests d) \<and> (\<forall>q. request_le q (u q))"
proof -
  have D: "\<exists>u. odRequests (snd (DecideAuthorizationRequest now i st g r d)) = map u (odRequests d) \<and> (\<forall>q. request_le q (u q))"
    if "st = AuthRequestApproved \<or> st = AuthRequestDenied" for now i st g r
  proof (intro exI [of _ "\<lambda>q. if rqID q = i \<and> rqStatus q = AuthRequestPending
      then q\<lparr>rqStatus := st, rqGrantedScopes := nullString g, rqDenyReason := nullString r, rqDecidedAtMS := Some now, rqUpdatedAtMS := now\<rparr> else q"] conjI allI)
    fix q show "request_le q (if rqID q = i \<and> rqStatus q = AuthRequestPending
      then q\<lparr>rqStatus := st, rqGrantedScopes := nullString g, rqDenyReason := nullString r, rqDecidedAtMS := Some now, rqUpdatedAtMS := now\<rparr> else q)"
      using that by (auto simp: request_le_def same_request_def enrollment_of_def)
  qed (simp add: DecideAuthorizationRequest_def Let_def update_where_def)
  have a: "odRequests (oauth_audit k src e) = odRequests e" for k e by (rule calmD [OF calm_audit(1)])
  show ?thesis
  proof (cases own)
    case (RefuseDecision e)
    with assms have "odRequests d' = map id (odRequests d)" by (simp add: decision_apply_def)
    then show ?thesis by (intro exI [of _ id]) simp
  next
    case (ApproveRequest i G)
    with assms have "odRequests d' = odRequests (snd (DecideAuthorizationRequest (od_now env) i AuthRequestApproved (scope_string G) [] d))"
      by (auto simp: decision_apply_def Let_def a split: prod.splits if_splits)
    with D show ?thesis by simp
  next
    case (DenyRequest i r)
    with assms have "odRequests d' = odRequests (snd (DecideAuthorizationRequest (od_now env) i AuthRequestDenied [] r d))"
      by (auto simp: decision_apply_def Let_def a split: prod.splits if_splits)
    with D show ?thesis by simp
  qed
qed

lemma complete_requests:
  assumes "complete_apply cfg env com d = (res, d')"
  shows "\<exists>u. odRequests d' = map u (odRequests d) \<and> (\<forall>q. request_le q (u q))"
proof -
  have same: "\<exists>u. odRequests e = map u (odRequests d) \<and> (\<forall>q. request_le q (u q))" if "odRequests e = odRequests d" for e
    using that by (intro exI [of _ id]) simp
  have a: "odRequests (oauth_audit k s e) = odRequests e" "odRequests (noteRequestExpired at q e) = odRequests e" for k e s at q
    by (rule calmD [OF calm_audit(1)] calmD [OF calm_handlers(5)])+
  show ?thesis
  proof (cases com)
    case (MintCode q S)
    show ?thesis
    proof (cases "d' = d")
      case False
      with assms MintCode obtain v d1 d2 where d1: "CompleteAuthorizationRequest (od_now env) (rqID q) d = (True, d1)"
        and d2: "IssueAuthorizationCode (od_now env) (code_for cfg env q S v) d1 = Inr d2" and d': "odRequests d' = odRequests d2"
        by (auto simp: complete_apply_def Let_def a split: option.splits prod.splits if_splits sum.splits)
      have "odRequests d2 = odRequests d1" using d2 by (auto simp: IssueAuthorizationCode_def map_sum_def split: if_splits sum.splits)
      moreover have "\<exists>u. odRequests d1 = map u (odRequests d) \<and> (\<forall>q. request_le q (u q))"
        using d1 unfolding CompleteAuthorizationRequest_def Let_def update_where_def
        by (intro exI [of _ "\<lambda>p. if rqID p = rqID q \<and> rqStatus p = AuthRequestApproved
              then p\<lparr>rqStatus := AuthRequestCompleted, rqCompletedAtMS := Some (od_now env), rqUpdatedAtMS := od_now env\<rparr> else p"])
          (auto simp: request_le_def same_request_def enrollment_of_def)
      ultimately show ?thesis using d' by simp
    qed (simp add: same)
  next
    case (NotWaiting q)
    with assms show ?thesis by (intro same) (auto simp: complete_apply_def a)
  qed (rule same, use assms in \<open>simp add: complete_apply_def\<close>)+
qed

lemma oauth_step_requests:
  assumes "oauth_step cfg svc s s'"
  shows "requests_le s s'"
proof -
  have audit: "odRequests (oauth_audit k src d) = odRequests d" for k src d by (rule calmD [OF calm_audit(1)])
  have still: "requests_le s s'" if "calm (osDB s) (osDB s')" "osRequested s' = osRequested s"
    by (rule requests_calm [of _ _ "[]"]) (simp_all add: that)
  have quiet: "requests_le s s'" if "odRequests (osDB s') = odRequests (osDB s)" "osRequested s' = osRequested s"
    by (rule requests_same [of _ _ "[]"]) (simp_all add: that)
  from assms show ?thesis
  proof cases
    case (sweep now)
    have "set (odRequests (foldl (\<lambda>d i. oauth_audit k src (DeleteOAuthClient i d)) d ids)) \<subseteq> set (odRequests d)" for k src d ids
      by (induction ids arbitrary: d) (force simp: audit DeleteOAuthClient_def Let_def)+
    with sweep show ?thesis by (intro requests_fewer) (simp_all add: SweepExpiredRegistrations_def Let_def)
  next
    case (remove_client i src)
    then show ?thesis by (intro requests_fewer) (auto simp: audit DeleteOAuthClient_def Let_def)
  next
    case (commit_post dec env res d')
    have new: "rqID q = oeID env \<Longrightarrow> rqID q \<notin> snd ` set (osRequested s)" for q using commit_post(3) by metis
    show ?thesis
    proof (rule requests_from)
      show "osRequested s' = osRequested s @ requested_by dec res" by (simp add: commit_post(1))
      fix q' assume q': "q' \<in> set (odRequests (osDB s'))" "rqID q' \<in> snd ` set (osRequested s)"
      have "osDB s' = d'" by (simp add: commit_post(1))
      with post_requests [OF commit_post(4)] q' new have "q' \<in> set (odRequests (osDB s))" by (metis UnE set_append set_ConsD empty_iff list.set(1))
      then show "\<exists>q \<in> set (odRequests (osDB s)). request_le q q'" using request_le_refl by blast
    qed
  next
    case (commit_decision own env src answer d')
    from decision_requests [OF commit_decision(3)] obtain u where "odRequests d' = map u (odRequests (osDB s))" "\<forall>q. request_le q (u q)" by blast
    then show ?thesis by (intro requests_changed [where u = u]) (simp_all add: commit_decision(1))
  next
    case (commit_complete com env told d')
    from complete_requests [OF commit_complete(4)] obtain u where "odRequests d' = map u (odRequests (osDB s))" "\<forall>q. request_le q (u q)" by blast
    then show ?thesis by (intro requests_changed [where u = u]) (simp_all add: commit_complete(1))
  next
    case (commit_token tok zenv session d')
    then have "calm (osDB s) (osDB s')" using calm_token [of "osDB s" svc zenv tok] by simp
    then show ?thesis by (rule still) (simp add: commit_token(1))
  next
    case (register env req src)
    show ?thesis by (rule still) (simp_all add: register calm_handlers)
  next
    case (declare_client env static src)
    show ?thesis by (rule still) (simp_all add: declare_client calm_handlers)
  next
    case (enroll env q src)
    show ?thesis by (rule still) (simp_all add: enroll(1) calm_issue [OF enroll(2)])
  next
    case (revoke_code env i reason src)
    show ?thesis by (rule still) (simp_all add: revoke_code calm_handlers)
  next
    case (poll at cookie i)
    show ?thesis by (rule still) (simp_all add: poll calm_handlers)
  qed (rule quiet; simp)+
qed

lemma oauth_run_requests: "oauth_run cfg svc s s' \<Longrightarrow> requests_le s s'"
proof (induction rule: rtranclp_induct)
  case base
  show ?case by (rule requests_same [of _ _ "[]"]) simp_all
next
  case (step s1 s2)
  from requests_le_trans [OF step.IH oauth_step_requests [OF step.hyps(2)]] show ?case .
qed

text \<open>The owner's decisions are final. Whatever happens afterwards, a request that is still there has the client,
  redirect URI, challenge, resource and selected scopes it was made with; if it was denied or completed it
  still is, with the same granted scopes; and if it was approved it is approved or completed, and what the
  owner granted has not changed.\<close>

theorem decisions_are_final:
  assumes "oauth_run cfg svc no_oauth s" "oauth_run cfg svc s s'" "q \<in> set (odRequests (osDB s))" "q' \<in> set (odRequests (osDB s'))" "rqID q' = rqID q"
  shows "same_request q q' \<and> rqSelectedScopes q' = rqSelectedScopes q \<and>
    (rqStatus q \<in> {AuthRequestDenied, AuthRequestCompleted} \<longrightarrow> rqStatus q' = rqStatus q \<and> rqGrantedScopes q' = rqGrantedScopes q) \<and>
    (rqStatus q = AuthRequestApproved \<longrightarrow> rqStatus q' \<in> {AuthRequestApproved, AuthRequestCompleted} \<and> rqGrantedScopes q' = rqGrantedScopes q)"
proof -
  have ok: "oauth_ok s" by (rule oauth_run_ok [OF assms(1) no_oauth_ok])
  have "requests_le s s'" by (rule oauth_run_requests [OF assms(2)])
  moreover have "rqID q' \<in> snd ` set (osRequested s)" using request_known(2) [OF ok assms(3)] assms(5) by simp
  ultimately obtain p where p: "p \<in> set (odRequests (osDB s))" "request_le p q'" using assms(4) unfolding requests_le_def by blast
  from p(2) have "rqID p = rqID q" using assms(5) by (simp add: request_le_def)
  then have "p = q" using same_row [OF ok assms(3) p(1)] by simp
  with p(2) have "request_le q q'" by simp
  then show ?thesis unfolding request_le_def by (auto split: if_splits)
qed

section \<open>Applied\<close>

theorem one_enrollment_one_session_witness:
  "\<exists>d i e C. osGranted (exchanged_sys d) = [(zero_hash, {ScopeMessagesRead})] \<and> distinct (map fst (osGranted (exchanged_sys d))) \<and>
     (i, {ScopeMessagesRead}) \<in> set (osApproved (exchanged_sys d)) \<and> e \<in> set (odEnrolls d) \<and> enID e = i \<and> ParseScopeString (enScopes e) = Some C \<and>
     {ScopeMessagesRead} \<subseteq> C \<and> ScopeAdmin \<notin> C"
proof -
  from run_exchanged obtain d where "oauth_run an_oauth a_service no_oauth (exchanged_sys d)" using rtranclp_trans [OF run_to_completed] by blast
  note all = one_enrollment_one_session [OF this]
  have g: "osGranted (exchanged_sys d) = [(zero_hash, {ScopeMessagesRead})]" "osDB (exchanged_sys d) = d" by (simp_all add: exchanged_sys_def)
  then have "(zero_hash, {ScopeMessagesRead}) \<in> set (osGranted (exchanged_sys d))" by simp
  with all g show ?thesis by metis
qed

theorem codes_carry_the_approval_witness:
  "\<exists>q G. q \<in> set (odRequests db_completed) \<and> rqStatus q = AuthRequestCompleted \<and> (''enr_1'', zero_hash) \<in> set (osIssued completed_sys) \<and>
     cdScopes (issued_code None) = scope_string G \<and> cdRedirectURI (issued_code None) = rqRedirectURI q"
proof -
  have db: "osDB completed_sys = db_completed" "issued_code None \<in> set (zdCodes (odAuthz (osDB completed_sys)))" by (simp_all add: completed_sys_def)
  from codes_carry_the_approval [OF run_to_completed db(2)] obtain q G where
    "q \<in> set (odRequests db_completed)" "rqStatus q = AuthRequestCompleted" "(enrollment_of q, cdHash (issued_code None)) \<in> set (osIssued completed_sys)"
    "cdScopes (issued_code None) = scope_string G" "cdRedirectURI (issued_code None) = rqRedirectURI q" unfolding db(1) by blast
  then show ?thesis by (auto simp: completed_sys_def)
qed

theorem decisions_are_final_witness:
  "rqStatus completed_request \<in> {AuthRequestApproved, AuthRequestCompleted} \<and> rqGrantedScopes completed_request = rqGrantedScopes approved_request"
proof -
  have q: "approved_request \<in> set (odRequests (osDB approved_sys))" "completed_request \<in> set (odRequests (osDB completed_sys))"
    "rqID completed_request = rqID approved_request" "rqStatus approved_request = AuthRequestApproved"
    by (simp_all add: approved_sys_def completed_sys_def) (simp_all add: a_request_def)
  from decisions_are_final [OF run_to_approved run_completed q(1-3)] q(4) show ?thesis by blast
qed

end
