(* ===== verification/Durations.thy ===== *)
theory Durations
  imports Json Limits Codec Scopes
begin

text \<open>
  Durations as settings write them: Go's \<open>time.ParseDuration\<close> and \<open>Duration.String\<close>, and the day unit and the
  printing of \<open>internal/settings/value.go\<close> on top. A duration is a 64-bit count of nanoseconds; what can
  wrap does. The contribution of a fraction, which Go computes in floating point, is a parameter \<open>frac f n unit\<close>: the
  digits read as \<open>f\<close>, their number \<open>n\<close>, and the unit.
\<close>

section \<open>time.ParseDuration\<close>

fun leadingInt :: "nat \<Rightarrow> string \<Rightarrow> (nat \<times> string) option" where
  "leadingInt x [] = Some (x, [])"
| "leadingInt x (c # s) =
     (if \<not> is_digit c then Some (x, c # s)
      else if 2 ^ 63 div 10 < x then None
      else let y = 10 * x + digit_value c in if 2 ^ 63 < y then None else leadingInt y s)"

text \<open>Digits past the point that do not fit are read and dropped.\<close>

fun leadingFraction :: "nat \<Rightarrow> nat \<Rightarrow> bool \<Rightarrow> string \<Rightarrow> nat \<times> nat \<times> string" where
  "leadingFraction x n over [] = (x, n, [])"
| "leadingFraction x n over (c # s) =
     (if \<not> is_digit c then (x, n, c # s)
      else if over \<or> (2 ^ 63 - 1) div 10 < x then leadingFraction x n True s
      else let y = 10 * x + digit_value c in
           if 2 ^ 63 < y then leadingFraction x n True s else leadingFraction y (n + 1) False s)"

definition unitMap :: "string \<Rightarrow> nat option" where
  "unitMap u = map_of
     [(''ns'', 1), (''us'', 1000), (CHR 0xC2 # CHR 0xB5 # ''s'', 1000), (CHR 0xCE # CHR 0xBC # ''s'', 1000), (''ms'', 1000000),
      (''s'', 1000000000), (''m'', 60000000000), (''h'', 3600000000000)] u"

text \<open>The optional point and what follows it: the digits, their number, the rest and whether there were any.\<close>

definition fraction :: "string \<Rightarrow> nat \<times> nat \<times> string \<times> bool" where
  "fraction s =
     (case s of
        [] \<Rightarrow> (0, 0, [], False)
      | c # cs \<Rightarrow>
          if c = CHR ''.'' then (case leadingFraction 0 0 False cs of (f, n, r) \<Rightarrow> (f, n, r, length r \<noteq> length cs))
          else (0, 0, s, False))"

definition unit_char :: "char \<Rightarrow> bool" where "unit_char c \<longleftrightarrow> c \<noteq> CHR ''.'' \<and> \<not> is_digit c"

text \<open>One number and its unit.\<close>

definition one_unit :: "(nat \<Rightarrow> nat \<Rightarrow> nat \<Rightarrow> nat) \<Rightarrow> string \<Rightarrow> (nat \<times> string) option" where
  "one_unit frac s =
     (if s = [] \<or> unit_char (hd s) then None
      else case leadingInt 0 s of
        None \<Rightarrow> None
      | Some (v, r) \<Rightarrow>
     (case fraction r of
        (f, n, r2, post) \<Rightarrow>
          if length r = length s \<and> \<not> post then None
          else case unitMap (takeWhile unit_char r2) of
            None \<Rightarrow> None
          | Some unit \<Rightarrow>
              if 2 ^ 63 div unit < v then None
              else
                (let w = v * unit + (if 0 < f then frac f n unit else 0)
                 in if 0 < f \<and> 2 ^ 63 < w then None else Some (w, dropWhile unit_char r2))))"

lemma leadingInt_length: "leadingInt x s = Some (v, r) \<Longrightarrow> length r \<le> length s"
  by (induction s arbitrary: x) (fastforce simp: Let_def split: if_splits)+

lemma leadingFraction_length: "leadingFraction x n over s = (f, m, r) \<Longrightarrow> length r \<le> length s"
  by (induction s arbitrary: x n over) (fastforce simp: Let_def split: if_splits)+

lemma fraction_length: "fraction s = (f, n, r, post) \<Longrightarrow> length r \<le> length s"
  by (auto simp: fraction_def dest: leadingFraction_length split: list.splits if_splits prod.splits)

lemma one_unit_length:
  assumes "one_unit frac s = Some (w, rest)"
  shows "length rest < length s"
proof -
  obtain v r where r: "leadingInt 0 s = Some (v, r)"
    using assms by (auto simp: one_unit_def split: if_splits option.splits)
  obtain f n r2 post where q: "fraction r = (f, n, r2, post)" by (metis prod_cases4)
  have "rest = dropWhile unit_char r2" "unitMap (takeWhile unit_char r2) \<noteq> None"
    using assms r q by (auto simp: one_unit_def Let_def split: if_splits option.splits)
  then have "takeWhile unit_char r2 \<noteq> []" "rest = dropWhile unit_char r2" by (auto simp: unitMap_def)
  then have "length rest < length r2" by (metis length_append length_greater_0_conv less_add_same_cancel2 takeWhile_dropWhile_id)
  with fraction_length [OF q] leadingInt_length [OF r] show ?thesis by simp
qed

function parse_units :: "(nat \<Rightarrow> nat \<Rightarrow> nat \<Rightarrow> nat) \<Rightarrow> nat \<Rightarrow> string \<Rightarrow> nat option" where
  "parse_units frac d s =
     (if s = [] then Some d
      else case one_unit frac s of
        None \<Rightarrow> None
      | Some (w, rest) \<Rightarrow>
          (let d' = (d + w) mod 2 ^ 64 in if 2 ^ 63 < d' then None else parse_units frac d' rest))"
  by pat_completeness auto
termination by (relation "measure (\<lambda>(frac, d, s). length s)") (auto dest: one_unit_length)

declare parse_units.simps [simp del]

definition time_ParseDuration :: "(nat \<Rightarrow> nat \<Rightarrow> nat \<Rightarrow> nat) \<Rightarrow> string \<Rightarrow> int option" where
  "time_ParseDuration frac s =
     (let neg = (take 1 s = ''-''); s1 = (if take 1 s = ''-'' \<or> take 1 s = ''+'' then drop 1 s else s) in
      if s1 = ''0'' then Some 0
      else if s1 = [] then None
      else case parse_units frac 0 s1 of
        None \<Rightarrow> None
      | Some d \<Rightarrow>
          if neg then Some (wrap64 (- wrap64 (int d)))
          else if 2 ^ 63 - 1 < d then None else Some (int d))"

section \<open>Duration.String\<close>

definition drop_zeros :: "string \<Rightarrow> string" where
  "drop_zeros s = rev (dropWhile (\<lambda>c. c = CHR ''0'') (rev s))"

text \<open>\<open>fmtFrac\<close>: the fraction of \<open>v\<close> over \<open>10 ^ prec\<close> without trailing zeros.\<close>

definition fmtFrac :: "nat \<Rightarrow> nat \<Rightarrow> string" where
  "fmtFrac v prec =
     (let ds = show_nat (v mod 10 ^ prec); padded = replicate (prec - length ds) (CHR ''0'') @ ds; kept = drop_zeros padded
      in if kept = [] then [] else CHR ''.'' # kept)"

definition time_String :: "int \<Rightarrow> string" where
  "time_String d =
     (let u = nat \<bar>d\<bar>; sign = (if d < 0 then ''-'' else []) in
      if u = 0 then ''0s''
      else if u < 1000 then sign @ show_nat u @ ''ns''
      else if u < 1000000 then sign @ show_nat (u div 1000) @ fmtFrac u 3 @ CHR 0xC2 # CHR 0xB5 # ''s''
      else if u < 1000000000 then sign @ show_nat (u div 1000000) @ fmtFrac u 6 @ ''ms''
      else
        (let secs = u div 1000000000; mins = secs div 60; hours = mins div 60
         in sign @ (if 0 < hours then show_nat hours @ ''h'' else []) @ (if 0 < mins then show_nat (mins mod 60) @ ''m'' else [])
            @ show_nat (secs mod 60) @ fmtFrac u 9 @ ''s''))"

section \<open>Days\<close>

definition Day :: ns where "Day = 24 * Hour"

text \<open>The leading \<open><n>d\<close> groups and what follows them.\<close>

function day_groups :: "int \<Rightarrow> string \<Rightarrow> (int \<times> string) option" where
  "day_groups acc s =
     (let ds = takeWhile is_digit s; r = dropWhile is_digit s in
      if ds = [] \<or> r = [] \<or> hd r \<noteq> CHR ''d'' then Some (acc, s)
      else case ParseInt ds of
        None \<Rightarrow> None
      | Some n \<Rightarrow> day_groups (wrap64 (acc + wrap64 (n * Day))) (tl r))"
  by pat_completeness auto
termination
proof (relation "measure (\<lambda>(acc, s). length s)", goal_cases)
  case (2 acc s ds r n)
  then have "length r \<le> length s" "0 < length r" by (simp_all add: length_dropWhile_le)
  then show ?case by (cases r) simp_all
qed simp

declare day_groups.simps [simp del]

definition ParseDuration :: "(nat \<Rightarrow> nat \<Rightarrow> nat \<Rightarrow> nat) \<Rightarrow> string \<Rightarrow> int option" where
  "ParseDuration frac s =
     (if s = [] then None
      else
        (let neg = (take 1 s = ''-'') in
         case day_groups 0 (if neg then drop 1 s else s) of
           None \<Rightarrow> None
         | Some (acc, r) \<Rightarrow>
             (case (if r = [] then Some acc else map_option (\<lambda>d. wrap64 (acc + d)) (time_ParseDuration frac r)) of
                None \<Rightarrow> None
              | Some t \<Rightarrow> Some (if neg then wrap64 (- t) else t))))"

definition formatDuration :: "int \<Rightarrow> string" where
  "formatDuration d =
     (if d = 0 then ''0s''
      else if d mod Day = 0 then show_int (d div Day) @ ''d''
      else if d mod Hour = 0 then show_int (d div Hour) @ ''h''
      else if d mod Minute = 0 then show_int (d div Minute) @ ''m''
      else if d mod Second = 0 then show_int (d div Second) @ ''s''
      else time_String d)"


section \<open>What is printed reads back\<close>

lemma show_int_word: "int64 i \<Longrightarrow> TrimSpace (show_int i) = show_int i \<and> show_int i \<noteq> []"
proof -
  assume "int64 i"
  then have p: "ParseInt (show_int i) = Some i" by (rule ParseInt_show_int)
  have ne: "show_int i \<noteq> []" using p by (auto simp: ParseInt_def Let_def parse_digits_def)
  have "0x20 < (of_char c :: nat) \<and> of_char c < (0x7F :: nat)" if "c \<in> set (show_int i)" for c
    using show_int_chars [OF that] by auto
  with ne have "ascii_word (show_int i)" by (simp add: ascii_word_def)
  with ne TrimSpace_plain show ?thesis by blast
qed

lemma leadingInt_digits:
  assumes "list_all is_digit s" "foldl (\<lambda>n c. 10 * n + digit_value c) x s \<le> 2 ^ 63"
  shows "leadingInt x (s @ r) = leadingInt (foldl (\<lambda>n c. 10 * n + digit_value c) x s) r"
  using assms
proof (induction s arbitrary: x)
  case (Cons c s)
  let ?y = "10 * x + digit_value c"
  have mono: "y \<le> foldl (\<lambda>n c. 10 * n + digit_value c) y s" for y
  proof (induction s arbitrary: y)
    case (Cons c s)
    from Cons [of "10 * y + digit_value c"] show ?case by simp
  qed simp
  have "?y \<le> 2 ^ 63" using mono [of ?y] Cons.prems(2) by simp
  then have "x \<le> 2 ^ 63 div 10" by simp
  with \<open>?y \<le> 2 ^ 63\<close> Cons show ?case by simp
qed simp

lemma digits_shown: "list_all is_digit (show_nat n)" "c \<in> set (show_nat n) \<Longrightarrow> is_digit c"
  using show_nat_digits by (auto simp: list_all_iff is_digit_def Let_def)

lemma leadingInt_show:
  assumes "n \<le> 2 ^ 63" "\<not> is_digit u"
  shows "leadingInt 0 (show_nat n @ u # r) = Some (n, u # r)"
  using leadingInt_digits [OF digits_shown(1), of 0 n "u # r"] assms read_show_nat [of n] by (simp add: read_nat_def)

lemma one_unit_show:
  assumes "unitMap [u] = Some unit" "n * unit \<le> 2 ^ 63" "unit_char u" "0 < unit"
  shows "one_unit frac (show_nat n @ [u]) = Some (n * unit, [])"
proof -
  have n: "n \<le> 2 ^ 63 div unit" using assms(2,4) by (simp add: less_eq_div_iff_mult_less_eq)
  have "n \<le> 2 ^ 63" using n by (meson div_le_dividend le_trans)
  then have l: "leadingInt 0 (show_nat n @ [u]) = Some (n, [u])" using leadingInt_show [of n u "[]"] assms(3) by (simp add: unit_char_def)
  have h: "is_digit (hd (show_nat n @ [u]))" using digits_shown(2) [of "hd (show_nat n)" n] by simp
  have "fraction [u] = (0, 0, [u], False)" using assms(3) by (simp add: fraction_def unit_char_def)
  moreover have "takeWhile unit_char [u] = [u]" "dropWhile unit_char [u] = []" using assms(3) by simp_all
  ultimately show ?thesis using l h assms(1) n by (simp add: one_unit_def unit_char_def Let_def)
qed

lemma show_nat_no_sign: "take 1 (show_nat n @ r) \<noteq> ''-''" "take 1 (show_nat n @ r) \<noteq> ''+''"
proof -
  obtain c cs where c: "show_nat n = c # cs" by (metis list.exhaust show_nat_nonempty)
  with show_nat_head [OF this] show "take 1 (show_nat n @ r) \<noteq> ''-''" "take 1 (show_nat n @ r) \<noteq> ''+''" by simp_all
qed

lemma time_ParseDuration_show:
  assumes "unitMap [u] = Some unit" "n * unit < 2 ^ 63" "unit_char u" "0 < unit"
  shows "time_ParseDuration frac (show_nat n @ [u]) = Some (int (n * unit))"
proof -
  have "one_unit frac (show_nat n @ [u]) = Some (n * unit, [])" by (rule one_unit_show) (use assms in simp_all)
  then have "parse_units frac 0 (show_nat n @ [u]) = Some (n * unit)"
    using assms(2) by (simp add: parse_units.simps [of frac 0 "show_nat n @ [u]"] parse_units.simps [of frac _ "[]"] Let_def)
  moreover have "show_nat n @ [u] \<noteq> ''0''" by (cases "show_nat n") auto
  ultimately show ?thesis
    using assms(2) show_nat_no_sign [of n "[u]"] by (simp add: time_ParseDuration_def Let_def del: take_append)
qed

lemma day_groups_none:
  assumes "\<not> is_digit u" "u \<noteq> CHR ''d''"
  shows "day_groups acc (show_nat n @ u # r) = Some (acc, show_nat n @ u # r)"
proof -
  have "dropWhile is_digit (show_nat n @ u # r) = u # r" using digits_shown assms(1) by simp
  with assms(2) show ?thesis by (simp add: day_groups.simps [of acc "show_nat n @ u # r"] Let_def)
qed

lemma day_groups_days:
  assumes "int n < 2 ^ 63"
  shows "day_groups acc (show_nat n @ ''d'') = Some (wrap64 (acc + wrap64 (int n * Day)), [])"
proof -
  have d: "\<not> is_digit CHR ''d''" by (simp add: is_digit_def)
  have "dropWhile is_digit (show_nat n @ ''d'') = ''d''" "takeWhile is_digit (show_nat n @ ''d'') = show_nat n" using digits_shown d by simp_all
  moreover have "ParseInt (show_nat n) = Some (int n)" using ParseInt_show_int [of "int n"] assms by (simp add: show_int_def int64_def)
  ultimately show ?thesis by (simp add: day_groups.simps [of acc "show_nat n @ ''d''"] day_groups.simps [of _ "[]"] Let_def)
qed

lemma ParseDuration_sign:
  assumes "day_groups 0 (show_nat n @ [u]) = Some (acc, r)"
    and "(if r = [] then Some acc else map_option (\<lambda>d. wrap64 (acc + d)) (time_ParseDuration frac r)) = Some (int m)" "int m < 2 ^ 63"
  shows "ParseDuration frac (show_nat n @ [u]) = Some (int m)" "ParseDuration frac (CHR ''-'' # show_nat n @ [u]) = Some (- int m)"
  using assms show_nat_no_sign [of n "[u]"] by (simp_all add: ParseDuration_def Let_def wrap64_id del: take_append)

lemma whole_units:
  assumes "int64 d" "d mod (int unit) = 0" "d \<noteq> 0" "0 < unit" "d \<noteq> - (2 ^ 63)"
  shows "show_int (d div int unit) = (if d < 0 then ''-'' else []) @ show_nat (nat \<bar>d\<bar> div unit)" "nat \<bar>d\<bar> div unit * unit = nat \<bar>d\<bar>" "int (nat \<bar>d\<bar>) < 2 ^ 63"
proof -
  obtain k where k: "d = int unit * k" using assms(2) by (metis mod_0_imp_dvd dvd_def)
  have "nat \<bar>d\<bar> = unit * nat \<bar>k\<bar>" by (simp add: k abs_mult nat_mult_distrib)
  then show "show_int (d div int unit) = (if d < 0 then ''-'' else []) @ show_nat (nat \<bar>d\<bar> div unit)" "nat \<bar>d\<bar> div unit * unit = nat \<bar>d\<bar>"
    using assms(4) k by (auto simp: show_int_def mult_less_0_iff)
  show "int (nat \<bar>d\<bar>) < 2 ^ 63" using assms(1,5) by (auto simp: int64_def)
qed

lemma reads_units:
  assumes "unitMap [u] = Some unit" "unit_char u" "u \<noteq> CHR ''d''" "0 < unit" "int64 d" "d mod (int unit) = 0" "d \<noteq> 0" "d \<noteq> - (2 ^ 63)"
  shows "ParseDuration frac (show_int (d div int unit) @ [u]) = Some d"
proof -
  note w = whole_units [OF assms(5,6,7,4,8)]
  let ?n = "nat \<bar>d\<bar> div unit"
  have "?n * unit < 2 ^ 63" using w(2,3) by (metis of_nat_less_numeral_power_cancel_iff)
  then have t: "time_ParseDuration frac (show_nat ?n @ [u]) = Some (int (nat \<bar>d\<bar>))"
    using time_ParseDuration_show [OF assms(1) _ assms(2,4), of ?n frac] w(2) by simp
  have g: "day_groups 0 (show_nat ?n @ [u]) = Some (0, show_nat ?n @ [u])"
    by (rule day_groups_none) (use assms(2,3) in \<open>simp_all add: unit_char_def\<close>)
  have v: "(if show_nat ?n @ [u] = [] then Some 0 else map_option (\<lambda>x. wrap64 (0 + x)) (time_ParseDuration frac (show_nat ?n @ [u]))) = Some (int (nat \<bar>d\<bar>))"
    using t w(3) by (simp add: wrap64_id)
  from ParseDuration_sign [OF g v w(3)] show ?thesis unfolding w(1) by (cases "d < 0") (simp_all add: abs_if)
qed

text \<open>C39: A duration of whole seconds that settings print, as days, hours, minutes or seconds, is read back as it was.\<close>

theorem formatDuration_roundtrip:
  assumes "int64 d" "d mod Second = 0"
  shows "ParseDuration frac (formatDuration d) = Some d"
proof -
  have min: "d \<noteq> - (2 ^ 63)" using assms(2) by auto
  have u: "unit_char CHR ''h''" "unit_char CHR ''m''" "unit_char CHR ''s''" by (simp_all add: unit_char_def is_digit_def)
  have m: "unitMap ''h'' = Some 3600000000000" "unitMap ''m'' = Some 60000000000" "unitMap ''s'' = Some 1000000000"
    by (simp_all add: unitMap_def)
  consider (zero) "d = 0" | (day) "d \<noteq> 0" "d mod Day = 0" | (hour) "d \<noteq> 0" "d mod Day \<noteq> 0" "d mod Hour = 0"
    | (minute) "d \<noteq> 0" "d mod Day \<noteq> 0" "d mod Hour \<noteq> 0" "d mod Minute = 0"
    | (second) "d \<noteq> 0" "d mod Day \<noteq> 0" "d mod Hour \<noteq> 0" "d mod Minute \<noteq> 0" by blast
  then show ?thesis
  proof cases
    case zero
    have "show_nat 0 = ''0''" by code_simp
    moreover have "day_groups 0 (show_nat 0 @ ''s'') = Some (0, show_nat 0 @ ''s'')" by (rule day_groups_none) (simp_all add: is_digit_def)
    moreover have "time_ParseDuration frac (show_nat 0 @ ''s'') = Some 0" using time_ParseDuration_show [OF m(3), of 0 frac] u by simp
    ultimately show ?thesis using ParseDuration_sign(1) [of 0 "CHR ''s''" 0 "''0s''" frac 0] zero by (simp add: formatDuration_def wrap64_id)
  next
    case day
    have D: "Day = 86400000000000" by (simp add: Day_def)
    have d: "d mod int 86400000000000 = 0" "0 < (86400000000000 :: nat)" using day(2) by (simp_all add: D)
    note w = whole_units [OF assms(1) d(1) day(1) d(2) min]
    let ?n = "nat \<bar>d\<bar> div 86400000000000"
    have "int ?n * Day = int (?n * 86400000000000)" by (simp add: D)
    also have "\<dots> = int (nat \<bar>d\<bar>)" by (simp only: w(2))
    finally have "int ?n * Day = int (nat \<bar>d\<bar>)" .
    then have "day_groups 0 (show_nat ?n @ ''d'') = Some (int (nat \<bar>d\<bar>), [])"
      using day_groups_days [of ?n 0] w(3) day(2) by (simp add: D wrap64_id)
    from ParseDuration_sign [OF this, of frac] w day show ?thesis by (cases "d < 0") (simp_all add: formatDuration_def D abs_if)
  next
    case hour
    from reads_units [OF m(1) u(1) _ _ assms(1) _ hour(1) min, of frac] hour show ?thesis by (simp add: formatDuration_def)
  next
    case minute
    from reads_units [OF m(2) u(2) _ _ assms(1) _ minute(1) min, of frac] minute show ?thesis by (simp add: formatDuration_def)
  next
    case second
    from reads_units [OF m(3) u(3) _ _ assms(1) _ second(1) min, of frac] second assms(2) show ?thesis by (simp add: formatDuration_def)
  qed
qed

lemma formatDuration_roundtrip_witness:
  "ParseDuration (\<lambda>f n unit. 0) (formatDuration (90 * Minute)) = Some (90 * Minute) \<and> formatDuration (90 * Minute) = show_int 90 @ ''m''"
  using formatDuration_roundtrip [of "90 * Minute" "\<lambda>f n unit. 0"] by (simp add: int64_def formatDuration_def Day_def)

text \<open>Day groups wrap: a horizon of 213504 days is read as 25 minutes and 26 seconds. A second sign is taken by the
  tail, and a sign alone is zero.\<close>

lemma days_wrap: "ParseDuration frac (show_nat 213504 @ ''d'') = Some 1526290448384"
  using show_nat_no_sign [of 213504 "''d''"] day_groups_days [of 213504 0]
  by (simp add: ParseDuration_def Let_def wrap64_def Day_def del: take_append)

lemma signs_pile_up: "ParseDuration frac (''--'' @ show_nat 5 @ ''m'') = Some (5 * Minute)" "ParseDuration frac ''-'' = Some 0"
proof -
  have u: "unit_char CHR ''m''" "unitMap ''m'' = Some 60000000000" by (simp_all add: unit_char_def is_digit_def unitMap_def)
  have "parse_units frac 0 (show_nat 5 @ ''m'') = Some 300000000000"
    using one_unit_show [OF u(2), of 5 frac] u(1)
    by (simp add: parse_units.simps [of frac 0 "show_nat 5 @ ''m''"] parse_units.simps [of frac _ "[]"] Let_def)
  moreover have "show_nat 5 @ ''m'' \<noteq> ''0''" by (cases "show_nat 5") auto
  ultimately have "time_ParseDuration frac (CHR ''-'' # show_nat 5 @ ''m'') = Some (- 300000000000)"
    by (simp add: time_ParseDuration_def Let_def wrap64_def)
  moreover have "day_groups 0 (CHR ''-'' # show_nat 5 @ ''m'') = Some (0, CHR ''-'' # show_nat 5 @ ''m'')"
    by (simp add: day_groups.simps [of 0 "CHR ''-'' # show_nat 5 @ ''m''"] is_digit_def)
  ultimately show "ParseDuration frac (''--'' @ show_nat 5 @ ''m'') = Some (5 * Minute)" by (simp add: ParseDuration_def wrap64_def)
  show "ParseDuration frac ''-'' = Some 0" by (simp add: ParseDuration_def day_groups.simps [of 0 "[]"] wrap64_def)
qed

end
