(* ===== verification/Oauth_Screen.thy ===== *)
theory Oauth_Screen
  imports Oauth_Safety Durations
begin

text \<open>
  One request at a time: the page of the authorization screen comes back as it was sent, a submission does not
  tell which enrollment codes exist, and a code is worth a session only to who has all of its bindings.
\<close>

section \<open>The screen\<close>








section \<open>Guessing enrollment codes\<close>








section \<open>Lifetimes of enrollment codes\<close>

text \<open>The lifetime of an enrollment code is within its bounds, and it is what was asked for as long as the number of
  seconds does not overflow; a number that does can come out within the bounds.\<close>

lemma enrollmentTTL_bounds:
  assumes "enrollmentTTL cfg env raw = Inr t" "TrimSpace raw \<noteq> []"
  shows "MinEnrollmentTTL \<le> t \<and> t \<le> MaxEnrollmentTTL"
  using assms by (auto simp: enrollmentTTL_def Let_def split: option.splits if_splits)

lemma enrollmentTTL_wraps: "enrollmentTTL an_oauth env (show_int 18446744134) = Inr 60290448384"
proof -
  have i: "int64 18446744134" by (simp add: int64_def)
  show ?thesis
    using show_int_word [OF i] ParseInt_show_int [OF i]
    by (simp add: enrollmentTTL_def Let_def wrap64_def MinEnrollmentTTL_def MaxEnrollmentTTL_def del: show_int_def)
qed

section \<open>The token endpoint\<close>

lemma grant_planD:
  assumes "grant_plan env src c = MintGrant c' g S"
  shows "c' = c" "ParseScopeString (cdScopes c) = Some S" "S \<noteq> {}" "ScopeAdmin \<notin> S"
  using assms by (auto simp: grant_plan_def Let_def split: option.splits if_splits)

text \<open>C12: A code is worth a session only to who has all of its bindings. When the token endpoint answers a request for
  the authorization-code grant with a session, the code is one that was issued, not used and not expired; it
  was issued to the client that presents it, for its redirect URI, to the resource of this server; the PKCE
  verifier hashes to its challenge; the session has exactly the code's scopes, some and never admin; and
  the code is used up.\<close>

theorem token_exchange_bound:
  assumes "token cfg svc env f d = (Inr sn, d')" "tfGrantType f = ''authorization_code''" "tx_now env \<noteq> 0"
    "distinct (map cdHash (zdCodes (odAuthz d)))"
  shows "\<exists>c S. AuthorizationCodeByHash (authorizationCodeHash cfg (tfCode f)) (odAuthz d) = Some c \<and> cdConsumedAtMS c = None \<and>
    UnixMilli (zeNow env) < cdExpiresAtMS c \<and> tfClientID f = cdClientID c \<and> tfRedirectURI f = cdRedirectURI c \<and>
    cdResource c = Resource cfg \<and> (tfResource f = [] \<or> tfResource f = Resource cfg) \<and>
    RawURLEncode (ogSha cfg (tfCodeVerifier f)) = cdCodeChallenge c \<and>
    ParseScopeString (cdScopes c) = Some S \<and> S \<noteq> {} \<and> ScopeAdmin \<notin> S \<and> snMintedScopes sn = S \<and> snScopes sn = S \<and>
    (\<exists>c'. AuthorizationCodeByHash (authorizationCodeHash cfg (tfCode f)) (odAuthz d') = Some c' \<and> code_consumed c')"
proof -
  let ?x = "code_exchange cfg f"
  have dec: "token_decide cfg svc env f d = ExchangeToken ?x (exchange_decide env ?x (odAuthz d))"
    and res: "tfResource f = [] \<or> tfResource f = Resource cfg"
    using assms(1,2) by (auto simp: token_def token_decide_def grantAuthorizationCode_def token_apply_def split: option.splits if_splits)
  obtain z where z: "exchange_apply svc env ?x (exchange_decide env ?x (odAuthz d)) (odAuthz d) = (Inr sn, z)" "odAuthz d' = z"
    using assms(1) unfolding token_def dec token_apply_def by (cases "exchange_apply svc env ?x (exchange_decide env ?x (odAuthz d)) (odAuthz d)";
      cases "fst (exchange_apply svc env ?x (exchange_decide env ?x (odAuthz d)) (odAuthz d))") auto
  then obtain c g S where m: "exchange_decide env ?x (odAuthz d) = MintGrant c g S"
    by (cases "exchange_decide env ?x (odAuthz d)") (auto simp: exchange_apply_def Let_def)
  then have c: "AuthorizationCodeByHash (exCodeHash ?x) (odAuthz d) = Some c" "\<not> code_consumed c" "UnixMilli (zeNow env) < cdExpiresAtMS c"
      "exVerify ?x c = None" and gp: "grant_plan env (normalizeSource (exSource ?x)) c = MintGrant c g S"
    by (auto simp: exchange_decide_def Let_def dest: grant_planD split: option.splits if_splits)
  note S = grant_planD(2-4) [OF gp]
  have row: "cdHash c = exCodeHash ?x" using c(1) by (auto simp: AuthorizationCodeByHash_def dest: select_one_SomeD)
  obtain z1 where con: "ConsumeAuthorizationCode (tx_now env) (cdHash c) (azID (grAuthorization g)) (odAuthz d) = (True, z1)"
    and w: "write_grant svc (tx_now env) ''authorization.token_issued'' (normalizeSource (exSource ?x)) g z1 = Inr z"
    and sn: "snMintedScopes sn = S" "snScopes sn = S"
    using z(1) unfolding m by (auto simp: exchange_apply_def Let_def split: prod.splits if_splits option.splits sum.splits)
  have z1: "zdCodes z1 = update_where (\<lambda>k. cdHash k = cdHash c \<and> cdConsumedAtMS k = None)
      (\<lambda>k. k\<lparr>cdConsumedAtMS := Some (tx_now env), cdAuthorizationID := coalesce (nullString (azID (grAuthorization g))) (cdAuthorizationID k)\<rparr>)
      (zdCodes (odAuthz d))" using con by (auto simp: ConsumeAuthorizationCode_def)
  obtain k where k: "k \<in> set (zdCodes (odAuthz d))" "cdHash k = cdHash c" "cdConsumedAtMS k = None"
    using con by (auto simp: ConsumeAuthorizationCode_def)
  moreover have "c \<in> set (zdCodes (odAuthz d))" using c(1) by (auto simp: AuthorizationCodeByHash_def dest: select_one_SomeD)
  ultimately have "k = c" using assms(4) by (simp add: distinct_map inj_on_def)
  have "AuthorizationCodeByHash (exCodeHash ?x) z1 = Some (c\<lparr>cdConsumedAtMS := Some (tx_now env),
      cdAuthorizationID := coalesce (nullString (azID (grAuthorization g))) (cdAuthorizationID c)\<rparr>)"
    using consume_rows(3) [of "exCodeHash ?x" "tx_now env" "cdHash c" "azID (grAuthorization g)" "odAuthz d"] con c(1) k(3) \<open>k = c\<close> by simp
  moreover have "zdCodes z = zdCodes z1" by (rule grant_codes [OF w])
  ultimately have after: "\<exists>c'. AuthorizationCodeByHash (exCodeHash ?x) (odAuthz d') = Some c' \<and> code_consumed c'"
    using assms(3) by (simp add: z(2) AuthorizationCodeByHash_def code_consumed_def)
  show ?thesis
    by (intro exI [of _ c] exI [of _ S]) (use c S sn res k(3) \<open>k = c\<close> after in \<open>simp add: code_exchange_def verify_code_def verifyPKCE_def split: if_splits\<close>)
qed

lemma consumed_no_grant:
  "code_consumed k \<Longrightarrow> AuthorizationCodeByHash h z = Some k \<Longrightarrow> exCodeHash x = h \<Longrightarrow> exchange_decide env x z \<noteq> MintGrant k' g S"
  by (simp add: exchange_decide_def Let_def split: option.split)

text \<open>A wrong binding burns the code. A live code that is presented by another client, with another redirect URI, or
  with a verifier that does not hash to its challenge, is refused with the same answer whichever of them is
  wrong, and it is used up: no later request, however right, gets a session for it.\<close>

theorem wrong_binding_burns_the_code:
  assumes "requireForm f = None" "tfGrantType f = ''authorization_code''" "tx_now env \<noteq> 0" "tfResource f = [] \<or> tfResource f = Resource cfg"
    and given: "tfCode f \<noteq> []" "tfClientID f \<noteq> []" "tfRedirectURI f \<noteq> []" "tfCodeVerifier f \<noteq> []"
    and free: "zeBucket env = None" "Check (zeCheckAt env) LimitOAuthToken (normalizeSource (tfSource f)) (zdAttempts (odAuthz d)) = None"
    and c: "AuthorizationCodeByHash (authorizationCodeHash cfg (tfCode f)) (odAuthz d) = Some c" "cdConsumedAtMS c = None"
      "UnixMilli (zeNow env) < cdExpiresAtMS c"
    and wrong: "tfClientID f \<noteq> cdClientID c \<or> tfRedirectURI f \<noteq> cdRedirectURI c \<or>
      RawURLEncode (ogSha cfg (tfCodeVerifier f)) \<noteq> cdCodeChallenge c \<or> cdResource c \<noteq> Resource cfg"
    and later: "tfGrantType f' = ''authorization_code''" "tfCode f' = tfCode f"
  shows "fst (token cfg svc env f d) = Inl (badRequest ErrCodeInvalidGrant) \<and>
    fst (token cfg svc env' f' (snd (token cfg svc env f d))) \<noteq> Inr sn"
proof -
  let ?x = "code_exchange cfg f" and ?h = "authorizationCodeHash cfg (tfCode f)"
  have "\<exists>why. verify_code cfg f c = Some (ErrBinding why)" using wrong by (auto simp: verify_code_def verifyPKCE_def)
  then obtain why where why: "verify_code cfg f c = Some (ErrBinding why)" by blast
  have dec: "token_decide cfg svc env f d = ExchangeToken ?x (BurnExchange c (ErrBinding why))"
    using assms(1,2,4) given free c why
    by (auto simp: token_decide_def grantAuthorizationCode_def exchange_decide_def Let_def code_exchange_def code_consumed_def)
  let ?z = "count_failure env LimitOAuthToken (normalizeSource (tfSource f)) (AppendAudit ''authorization.token_failed'' ''refused'' []
      (normalizeSource (tfSource f)) (snd (ConsumeAuthorizationCode (tx_now env) (cdHash c) [] (odAuthz d))))"
  have tok: "token cfg svc env f d = (Inl (badRequest ErrCodeInvalidGrant), d\<lparr>odAuthz := ?z\<rparr>)"
    by (simp add: token_def dec token_apply_def exchange_apply_def Let_def translate_def) (simp add: code_exchange_def)
  have "cdHash c = ?h" using c(1) by (auto simp: AuthorizationCodeByHash_def dest: select_one_SomeD)
  then have row: "AuthorizationCodeByHash ?h ?z = Some (c\<lparr>cdConsumedAtMS := Some (tx_now env), cdAuthorizationID := coalesce (nullString []) (cdAuthorizationID c)\<rparr>)"
    using c(1,2) consume_rows(3) [of ?h "tx_now env" "cdHash c" "[]" "odAuthz d"] by (simp add: AuthorizationCodeByHash_def)
  have "fst (token cfg svc env' f' (d\<lparr>odAuthz := ?z\<rparr>)) \<noteq> Inr sn"
  proof
    assume won: "fst (token cfg svc env' f' (d\<lparr>odAuthz := ?z\<rparr>)) = Inr sn"
    have "code_consumed (c\<lparr>cdConsumedAtMS := Some (tx_now env), cdAuthorizationID := coalesce (nullString []) (cdAuthorizationID c)\<rparr>)"
      using assms(3) by (simp add: code_consumed_def)
    then have "exchange_decide env' (code_exchange cfg f') ?z \<noteq> MintGrant k g S" for k g S
      by (rule consumed_no_grant [OF _ row [folded later(2)]]) (simp add: code_exchange_def)
    then have "fst (exchange_apply svc env' (code_exchange cfg f') (exchange_decide env' (code_exchange cfg f') ?z) ?z) \<noteq> Inr sn'" for sn'
      by (cases "exchange_decide env' (code_exchange cfg f') ?z") (auto simp: exchange_apply_def Let_def)
    then have "fst (token_apply svc env' (ExchangeToken (code_exchange cfg f') (exchange_decide env' (code_exchange cfg f') ?z)) (d\<lparr>odAuthz := ?z\<rparr>)) \<noteq> Inr sn"
      by (cases "exchange_apply svc env' (code_exchange cfg f') (exchange_decide env' (code_exchange cfg f') ?z) ?z") (auto simp: token_apply_def map_sum_def split: sum.splits)
    with won later show False
      by (auto simp: token_def token_decide_def grantAuthorizationCode_def token_apply_def split: option.splits if_splits)
  qed
  with tok show ?thesis by simp
qed

section \<open>Applied\<close>





theorem token_exchange_bound_witness:
  "\<exists>d' c. token an_oauth a_service (an_env Second ''A1'' ''R1'') a_token_form db_completed = (Inr the_session, d') \<and>
     AuthorizationCodeByHash zero_hash (odAuthz d') = Some c \<and> code_consumed c"
proof -
  from token_committed obtain d' where t: "token an_oauth a_service (an_env Second ''A1'' ''R1'') a_token_form db_completed = (Inr the_session, d')"
    by (auto simp: token_def token_read)
  from token_exchange_bound [OF t] t show ?thesis by (simp add: UnixMilli_def) (simp add: a_token_form_def, blast)
qed

theorem wrong_binding_burns_the_code_witness:
  "\<exists>d. fst (token an_oauth a_service (an_env Second ''A1'' ''R1'') (a_token_form\<lparr>tfRedirectURI := ''https://e.example/cb''\<rparr>) db_completed) =
       Inl (badRequest ErrCodeInvalidGrant) \<and>
     fst (token an_oauth a_service (an_env Second ''A2'' ''R2'') a_token_form d) \<noteq> Inr the_session"
proof -
  let ?f = "a_token_form\<lparr>tfRedirectURI := ''https://e.example/cb''\<rparr>"
  have "requireForm ?f = requireForm a_token_form" by (simp add: requireForm_def)
  then have "requireForm ?f = None" by (simp only: form_accepted(2))
  then have "fst (token an_oauth a_service (an_env Second ''A1'' ''R1'') ?f db_completed) = Inl (badRequest ErrCodeInvalidGrant) \<and>
      fst (token an_oauth a_service (an_env Second ''A2'' ''R2'') a_token_form (snd (token an_oauth a_service (an_env Second ''A1'' ''R1'') ?f db_completed)))
        \<noteq> Inr the_session"
    by (rule wrong_binding_burns_the_code [OF _ _ _ _ _ _ _ _ _ _ _ _ _ _ _ _, where c = "issued_code None"])
      (use code_live in \<open>simp_all add: unlimited\<close>, simp_all add: a_token_form_def issued_code_def UnixMilli_def)
  then show ?thesis by blast
qed

end
