(* ===== verification/Settings.thy ===== *)
theory Settings
  imports Durations
begin

text \<open>
  The runtime settings (\<open>internal/settings\<close>, \<open>internal/store/settings.go\<close>, \<open>settingsadapter.go\<close>, the handlers of
  \<open>internal/api/admin.go\<close>): typed values and their JSON form, the declared registry, the effective value
  (database over environment over default), and \<open>PATCH\<close>, which validates every key before it writes any. A
  raw JSON value is its text. Messages are left out; a refusal names its key.
\<close>

section \<open>Values\<close>

datatype kind = KindInt | KindDuration | KindBool | KindEnum

record svalue =
  svKind :: kind
  svInt :: int
  svDur :: ns
  svBool :: bool
  svStr :: string

definition Int64 :: "int \<Rightarrow> svalue" where "Int64 v = \<lparr>svKind = KindInt, svInt = v, svDur = 0, svBool = False, svStr = []\<rparr>"
definition Duration :: "ns \<Rightarrow> svalue" where "Duration d = \<lparr>svKind = KindDuration, svInt = 0, svDur = d, svBool = False, svStr = []\<rparr>"
definition BoolV :: "bool \<Rightarrow> svalue" where "BoolV b = \<lparr>svKind = KindBool, svInt = 0, svDur = 0, svBool = b, svStr = []\<rparr>"
definition EnumV :: "string \<Rightarrow> svalue" where "EnumV s = \<lparr>svKind = KindEnum, svInt = 0, svDur = 0, svBool = False, svStr = s\<rparr>"

definition value_String :: "svalue \<Rightarrow> string" where
  "value_String v =
     (case svKind v of
        KindInt \<Rightarrow> show_int (svInt v)
      | KindDuration \<Rightarrow> formatDuration (svDur v)
      | KindBool \<Rightarrow> if svBool v then ''true'' else ''false''
      | KindEnum \<Rightarrow> svStr v)"

definition cmp :: "int \<Rightarrow> int \<Rightarrow> int" where "cmp a b = (if a < b then - 1 else if b < a then 1 else 0)"

definition compare :: "svalue \<Rightarrow> svalue \<Rightarrow> int" where
  "compare v w =
     (case svKind v of
        KindInt \<Rightarrow> cmp (svInt v) (svInt w)
      | KindDuration \<Rightarrow> cmp (svDur v) (svDur w)
      | _ \<Rightarrow> 0)"

definition value_JSON :: "svalue \<Rightarrow> string" where
  "value_JSON v =
     (case svKind v of
        KindInt \<Rightarrow> show_int (svInt v)
      | KindDuration \<Rightarrow> writeJSONString (formatDuration (svDur v))
      | KindBool \<Rightarrow> if svBool v then ''true'' else ''false''
      | KindEnum \<Rightarrow> writeJSONString (svStr v))"

text \<open>\<open>json.Unmarshal\<close>: one value and white space. \<open>null\<close> leaves the variable at its zero.\<close>

definition Unmarshal :: "string \<Rightarrow> json option" where
  "Unmarshal raw =
     (case parse_value (2 * length raw + 1) maxNestingDepth raw of
        Parsed v r \<Rightarrow> if skip_ws r = [] then Some v else None
      | _ \<Rightarrow> None)"

definition unmarshal_string :: "string \<Rightarrow> string option" where
  "unmarshal_string raw = (case Unmarshal raw of Some (JString s) \<Rightarrow> Some s | Some JNull \<Rightarrow> Some [] | _ \<Rightarrow> None)"

definition unmarshal_bool :: "string \<Rightarrow> bool option" where
  "unmarshal_bool raw = (case Unmarshal raw of Some (JBool b) \<Rightarrow> Some b | Some JNull \<Rightarrow> Some False | _ \<Rightarrow> None)"

text \<open>The shape is checked on the first character; the decoder reads one number and leaves the rest.\<close>

definition unmarshal_int :: "string \<Rightarrow> int option" where
  "unmarshal_int raw =
     (let t = TrimSpace raw in
      if t = [] \<or> (hd t \<noteq> CHR ''-'' \<and> \<not> is_digit (hd t)) then None
      else case decode_any raw of Some (JNumber n) \<Rightarrow> ParseInt n | _ \<Rightarrow> None)"

definition parseValue :: "(nat \<Rightarrow> nat \<Rightarrow> nat \<Rightarrow> nat) \<Rightarrow> kind \<Rightarrow> string \<Rightarrow> svalue option" where
  "parseValue frac k raw =
     (case k of
        KindInt \<Rightarrow> map_option Int64 (unmarshal_int raw)
      | KindDuration \<Rightarrow> (case unmarshal_string raw of None \<Rightarrow> None | Some s \<Rightarrow> map_option Duration (ParseDuration frac s))
      | KindBool \<Rightarrow> map_option BoolV (unmarshal_bool raw)
      | KindEnum \<Rightarrow> map_option EnumV (unmarshal_string raw))"

section \<open>The registry\<close>

datatype setting_scope = ScopeServer | ScopePerAccount

record setting_def =
  sdKey :: string
  sdKind :: kind
  sdDefault :: svalue
  sdMin :: "svalue option"
  sdMax :: "svalue option"
  sdEnumValues :: "string list"
  sdScope :: setting_scope
  sdMutable :: bool
  sdDownwardOnly :: bool
  sdRequiresRestart :: bool
  sdEnv :: string

text \<open>A declaration as most are: mutable, taking effect at the next start, of the kind of its default.\<close>

definition declared :: "string \<Rightarrow> svalue \<Rightarrow> svalue option \<Rightarrow> svalue option \<Rightarrow> setting_scope \<Rightarrow> setting_def" where
  "declared key dflt lo hi sc =
     \<lparr>sdKey = key, sdKind = svKind dflt, sdDefault = dflt, sdMin = lo, sdMax = hi, sdEnumValues = [], sdScope = sc, sdMutable = True,
      sdDownwardOnly = False, sdRequiresRestart = True, sdEnv = []\<rparr>"

definition iv :: "int \<Rightarrow> svalue option" where "iv n = Some (Int64 n)"
definition dv :: "ns \<Rightarrow> svalue option" where "dv d = Some (Duration d)"

definition UploadMaxBytes :: string where "UploadMaxBytes = ''media.upload_max_bytes''"

definition setting_defs :: "setting_def list" where
  "setting_defs =
     [declared ''backfill.concurrency'' (Int64 2) (iv 1) (iv 8) ScopePerAccount,
      declared ''backfill.conversation_page_size'' (Int64 100) (iv 10) (iv 500) ScopePerAccount,
      declared ''backfill.message_page_size'' (Int64 100) (iv 10) (iv 500) ScopePerAccount,
      declared ''backfill.max_messages_per_conversation'' (Int64 2000) (iv 100) (iv 100000) ScopePerAccount,
      declared ''backfill.horizon'' (Duration (365 * Day)) (dv (7 * Day)) (dv (3650 * Day)) ScopePerAccount,
      declared ''backfill.include_archive'' (BoolV True) None None ScopePerAccount,
      declared ''ingest.sweep_interval'' (Duration (15 * Minute)) (dv Minute) (dv (6 * Hour)) ScopePerAccount,
      declared ''accounts.max_concurrent'' (Int64 8) (iv 1) (iv 32) ScopeServer,
      declared ''operations.send_deadline'' (Duration (300 * Second)) (dv (60 * Second)) (dv (600 * Second)) ScopeServer,
      declared ''operations.idempotency_ttl'' (Duration (30 * Day)) (dv (1 * Day)) (dv (365 * Day)) ScopeServer,
      declared ''operations.pending_timeout'' (Duration (24 * Hour)) (dv Hour) (dv (7 * Day)) ScopeServer,
      declared ''operations.wait_timeout'' (Duration (60 * Second)) (dv (5 * Second)) (dv (10 * Minute)) ScopeServer,
      (declared UploadMaxBytes (Int64 104857600) None None ScopeServer)\<lparr>sdDownwardOnly := True\<rparr>,
      declared ''media.cache_max_bytes'' (Int64 (2 * 1024 * 1024 * 1024)) None None ScopeServer,
      declared ''media.inline_mcp_image_max_bytes'' (Int64 (1024 * 1024)) None None ScopeServer,
      declared ''admin.access_token_ttl'' (Duration (15 * Minute)) (dv (5 * Minute)) (dv Hour) ScopeServer,
      declared ''admin.refresh_token_idle_ttl'' (Duration (30 * Day)) (dv (1 * Day)) (dv (90 * Day)) ScopeServer,
      declared ''admin.refresh_token_absolute_ttl'' (Duration (90 * Day)) (dv (7 * Day)) (dv (365 * Day)) ScopeServer,
      declared ''oauth.access_token_ttl'' (Duration (15 * Minute)) (dv (5 * Minute)) (dv Hour) ScopeServer,
      declared ''oauth.refresh_token_idle_ttl'' (Duration (30 * Day)) (dv (1 * Day)) (dv (90 * Day)) ScopeServer,
      declared ''oauth.refresh_token_absolute_ttl'' (Duration (90 * Day)) (dv (7 * Day)) (dv (365 * Day)) ScopeServer,
      declared ''oauth.authorization_code_ttl'' (Duration (2 * Minute)) (dv (30 * Second)) (dv (5 * Minute)) ScopeServer,
      declared ''oauth.authorization_request_ttl'' (Duration (15 * Minute)) (dv Minute) (dv Hour) ScopeServer,
      declared ''oauth.enrollment_default_ttl'' (Duration (15 * Minute)) (dv Minute) (dv (24 * Hour)) ScopeServer,
      declared ''backup.keep'' (Int64 7) (iv 1) (iv 100) ScopeServer,
      (declared ''logging.level'' (EnumV ''info'') None None ScopeServer)
        \<lparr>sdEnumValues := [''debug'', ''info'', ''warn'', ''error''], sdRequiresRestart := False, sdEnv := ''AGENT_GM_LOG_LEVEL''\<rparr>]"

record registry =
  rgDefs :: "setting_def list"
  rgRetired :: "(string \<times> string) list"

definition NewRegistry :: registry where "NewRegistry = \<lparr>rgDefs = setting_defs, rgRetired = []\<rparr>"

definition Def :: "registry \<Rightarrow> string \<Rightarrow> setting_def option" where "Def reg key = select_one (\<lambda>d. sdKey d = key) (rgDefs reg)"

definition registry_Keys :: "registry \<Rightarrow> string list" where "registry_Keys reg = sort (map sdKey (rgDefs reg))"

text \<open>Retiring a key that is declared panics.\<close>

definition Retire :: "string \<Rightarrow> string \<Rightarrow> registry \<Rightarrow> registry option" where
  "Retire key repl reg =
     (if Def reg key \<noteq> None then None else Some (reg\<lparr>rgRetired := (key, repl) # rgRetired reg\<rparr>))"

definition Replacement :: "registry \<Rightarrow> string \<Rightarrow> string option" where "Replacement reg key = map_of (rgRetired reg) key"

definition quoteList :: "string list \<Rightarrow> string" where
  "quoteList v = join_with '', '' (map (\<lambda>s. CHR 0x22 # s @ [CHR 0x22]) v)"

definition en_dash :: string where "en_dash = [CHR 0xE2, CHR 0x80, CHR 0x93]"

definition BoundsString :: "setting_def \<Rightarrow> string" where
  "BoundsString d =
     (if sdDownwardOnly d then ''mutable downward only''
      else if sdKind d = KindEnum \<and> sdEnumValues d \<noteq> [] then ''one of '' @ quoteList (sdEnumValues d)
      else case (sdMin d, sdMax d) of
        (Some lo, Some hi) \<Rightarrow> value_String lo @ en_dash @ value_String hi
      | (Some lo, None) \<Rightarrow> ''at least '' @ value_String lo
      | (None, Some hi) \<Rightarrow> ''at most '' @ value_String hi
      | (None, None) \<Rightarrow> ''unbounded'')"

section \<open>The table\<close>

text \<open>The \<open>settings\<close> table by its primary key: the value and when it was written.\<close>

type_synonym settings_db = "string \<rightharpoonup> string \<times> ms"

definition SetSetting :: "ms \<Rightarrow> string \<Rightarrow> string \<Rightarrow> settings_db \<Rightarrow> settings_db" where
  "SetSetting now key json db = db(key \<mapsto> (json, now))"

definition Setting :: "string \<Rightarrow> settings_db \<Rightarrow> string option" where "Setting key db = map_option fst (db key)"

definition DeleteSetting :: "string \<Rightarrow> settings_db \<Rightarrow> settings_db" where "DeleteSetting key db = db(key := None)"

section \<open>Effective values\<close>

datatype value_source = SourceDefault | SourceEnvironment | SourceDatabase

record effective =
  efKey :: string
  efValue :: svalue
  efSource :: value_source
  efDefault :: svalue
  efBounds :: string
  efScope :: setting_scope
  efKind :: kind
  efMutable :: bool
  efRequiresRestart :: bool

datatype setting_error =
    UnknownSetting string
  | RetiredSetting string string
  | NotMutable string
  | NotReadable string
  | WrongKind string
  | OutOfBounds string
  | UpwardRefused string

definition validateAgainstBounds :: "setting_def \<Rightarrow> svalue \<Rightarrow> setting_error option" where
  "validateAgainstBounds d v =
     (if svKind v \<noteq> sdKind d then Some (WrongKind (sdKey d))
      else if sdKind d = KindEnum then (if svStr v \<in> set (sdEnumValues d) then None else Some (OutOfBounds (sdKey d)))
      else if (\<exists>lo. sdMin d = Some lo \<and> compare v lo < 0) then Some (OutOfBounds (sdKey d))
      else if (\<exists>hi. sdMax d = Some hi \<and> compare v hi > 0) then Some (OutOfBounds (sdKey d))
      else None)"

text \<open>An environment value is bare text, not JSON.\<close>

definition parseEnv :: "(nat \<Rightarrow> nat \<Rightarrow> nat \<Rightarrow> nat) \<Rightarrow> setting_def \<Rightarrow> string \<Rightarrow> svalue option" where
  "parseEnv frac d raw =
     (case sdKind d of
        KindEnum \<Rightarrow> Some (EnumV raw)
      | KindDuration \<Rightarrow> map_option Duration (ParseDuration frac raw)
      | k \<Rightarrow> parseValue frac k raw)"

record settings_sys =
  ssReg :: registry
  ssEnv :: "string \<Rightarrow> string"
  ssFrac :: "nat \<Rightarrow> nat \<Rightarrow> nat \<Rightarrow> nat"

definition checked :: "setting_def \<Rightarrow> svalue option \<Rightarrow> setting_error + svalue" where
  "checked d v =
     (case v of
        None \<Rightarrow> Inl (NotReadable (sdKey d))
      | Some v \<Rightarrow> (case validateAgainstBounds d v of Some e \<Rightarrow> Inl e | None \<Rightarrow> Inr v))"

definition effective_of :: "setting_def \<Rightarrow> svalue \<Rightarrow> value_source \<Rightarrow> effective" where
  "effective_of d v src =
     \<lparr>efKey = sdKey d, efValue = v, efSource = src, efDefault = sdDefault d, efBounds = BoundsString d, efScope = sdScope d,
      efKind = sdKind d, efMutable = sdMutable d, efRequiresRestart = sdRequiresRestart d\<rparr>"

definition resolve :: "settings_sys \<Rightarrow> setting_def \<Rightarrow> string option \<Rightarrow> setting_error + effective" where
  "resolve s d row =
     (let raw = ssEnv s (sdEnv d);
          env = (if sdEnv d \<noteq> [] \<and> raw \<noteq> [] then map_sum id (\<lambda>v. effective_of d v SourceEnvironment) (checked d (parseEnv (ssFrac s) d raw))
                 else Inr (effective_of d (sdDefault d) SourceDefault))
      in case env of
           Inl e \<Rightarrow> Inl e
         | Inr eff \<Rightarrow>
             (case row of
                None \<Rightarrow> Inr eff
              | Some json \<Rightarrow> map_sum id (\<lambda>v. effective_of d v SourceDatabase) (checked d (parseValue (ssFrac s) (sdKind d) json))))"

definition unknown :: "settings_sys \<Rightarrow> string \<Rightarrow> setting_error" where
  "unknown s key = (case Replacement (ssReg s) key of None \<Rightarrow> UnknownSetting key | Some r \<Rightarrow> RetiredSetting key r)"

definition Get :: "settings_sys \<Rightarrow> string \<Rightarrow> settings_db \<Rightarrow> setting_error + effective" where
  "Get s key db = (case Def (ssReg s) key of None \<Rightarrow> Inl (unknown s key) | Some d \<Rightarrow> resolve s d (Setting key db))"

fun all_of :: "settings_sys \<Rightarrow> settings_db \<Rightarrow> string list \<Rightarrow> setting_error + effective list" where
  "all_of s db [] = Inr []"
| "all_of s db (k # ks) =
     (case Def (ssReg s) k of
        None \<Rightarrow> all_of s db ks
      | Some d \<Rightarrow>
     (case resolve s d (Setting k db) of
        Inl e \<Rightarrow> Inl e
      | Inr eff \<Rightarrow> map_sum id (Cons eff) (all_of s db ks)))"

definition All :: "settings_sys \<Rightarrow> settings_db \<Rightarrow> setting_error + effective list" where
  "All s db = all_of s db (registry_Keys (ssReg s))"

section \<open>Patch\<close>

record change =
  chKey :: string
  chFrom :: svalue
  chTo :: svalue
  chRequiresRestart :: bool

definition patch_one :: "settings_sys \<Rightarrow> settings_db \<Rightarrow> string \<Rightarrow> string \<Rightarrow> setting_error + change" where
  "patch_one s db k raw =
     (case Def (ssReg s) k of
        None \<Rightarrow> Inl (unknown s k)
      | Some d \<Rightarrow>
          if \<not> sdMutable d then Inl (NotMutable k)
          else case checked d (parseValue (ssFrac s) (sdKind d) raw) of
            Inl e \<Rightarrow> Inl e
          | Inr v \<Rightarrow>
         (case Get s k db of
            Inl e \<Rightarrow> Inl e
          | Inr cur \<Rightarrow>
              if sdDownwardOnly d \<and> compare v (efValue cur) > 0 then Inl (UpwardRefused k)
              else Inr \<lparr>chKey = k, chFrom = efValue cur, chTo = v, chRequiresRestart = sdRequiresRestart d\<rparr>))"

fun patch_check :: "settings_sys \<Rightarrow> settings_db \<Rightarrow> (string \<times> string) list \<Rightarrow> setting_error + change list" where
  "patch_check s db [] = Inr []"
| "patch_check s db ((k, raw) # body) =
     (case patch_one s db k raw of
        Inl e \<Rightarrow> Inl e
      | Inr c \<Rightarrow> map_sum id (Cons c) (patch_check s db body))"

text \<open>The body is a map: its keys are distinct. It is read in the order of its keys.\<close>

definition patch_decide :: "settings_sys \<Rightarrow> (string \<times> string) list \<Rightarrow> settings_db \<Rightarrow> setting_error + change list" where
  "patch_decide s body db = patch_check s db (sort_key fst body)"

text \<open>Each write is a statement of its own; one that fails (\<open>ok\<close>) ends the loop. The flag: whether all were written.\<close>

fun patch_put :: "(string \<Rightarrow> bool) \<Rightarrow> ms \<Rightarrow> change list \<Rightarrow> settings_db \<Rightarrow> bool \<times> settings_db" where
  "patch_put ok now [] db = (True, db)"
| "patch_put ok now (c # cs) db =
     (if ok (chKey c) then patch_put ok now cs (SetSetting now (chKey c) (value_JSON (chTo c)) db) else (False, db))"

datatype patch_result = PatchRefused setting_error | PatchFailed | Patched "change list"

definition patch_apply ::
  "(string \<Rightarrow> bool) \<Rightarrow> ms \<Rightarrow> setting_error + change list \<Rightarrow> settings_db \<Rightarrow> patch_result \<times> settings_db" where
  "patch_apply ok now dec db =
     (case dec of
        Inl e \<Rightarrow> (PatchRefused e, db)
      | Inr cs \<Rightarrow> (case patch_put ok now cs db of (True, db') \<Rightarrow> (Patched cs, db') | (False, db') \<Rightarrow> (PatchFailed, db')))"

definition Patch ::
  "settings_sys \<Rightarrow> (string \<Rightarrow> bool) \<Rightarrow> ms \<Rightarrow> (string \<times> string) list \<Rightarrow> settings_db \<Rightarrow> patch_result \<times> settings_db" where
  "Patch s ok now body db = patch_apply ok now (patch_decide s body db) db"

text \<open>\<open>settingsAdapter\<close>: a duration for the credential layer.\<close>

definition setting_Duration :: "settings_sys \<Rightarrow> string \<Rightarrow> settings_db \<Rightarrow> ns option" where
  "setting_Duration s key db =
     (case Get s key db of Inl e \<Rightarrow> None | Inr eff \<Rightarrow> if svKind (efValue eff) = KindDuration then Some (svDur (efValue eff)) else None)"

section \<open>The handlers\<close>

datatype admin_answer =
    SettingsList "effective list"
  | SettingOne effective
  | SettingNotFound
  | SettingsInvalid string
  | SettingsMalformed
  | SettingsChanged "change list"
  | SettingsInternal

definition adminSettingsList :: "settings_sys \<Rightarrow> settings_db \<Rightarrow> admin_answer" where
  "adminSettingsList s db = (case All s db of Inl e \<Rightarrow> SettingsInternal | Inr es \<Rightarrow> SettingsList es)"

definition adminSettingsGet :: "settings_sys \<Rightarrow> string \<Rightarrow> settings_db \<Rightarrow> admin_answer" where
  "adminSettingsGet s key db = (case Get s key db of Inl e \<Rightarrow> SettingNotFound | Inr eff \<Rightarrow> SettingOne eff)"

fun error_key :: "setting_error \<Rightarrow> string" where
  "error_key (UnknownSetting k) = k"
| "error_key (RetiredSetting k r) = k"
| "error_key (NotMutable k) = k"
| "error_key (NotReadable k) = k"
| "error_key (WrongKind k) = k"
| "error_key (OutOfBounds k) = k"
| "error_key (UpwardRefused k) = k"

text \<open>The body as \<open>json.Unmarshal\<close> splits it into raw members: absent when it is empty, \<open>Some None\<close> when it is no object.\<close>

definition adminSettingsPatch ::
  "settings_sys \<Rightarrow> (string \<Rightarrow> bool) \<Rightarrow> ms \<Rightarrow> (string \<times> string) list option option \<Rightarrow> settings_db \<Rightarrow> admin_answer \<times> settings_db" where
  "adminSettingsPatch s ok now body db =
     (case body of
        None \<Rightarrow> (SettingsInvalid [], db)
      | Some None \<Rightarrow> (SettingsMalformed, db)
      | Some (Some members) \<Rightarrow>
          (case Patch s ok now members db of
             (PatchRefused e, db') \<Rightarrow> (SettingsInvalid (error_key e), db')
           | (PatchFailed, db') \<Rightarrow> (SettingsInternal, db')
           | (Patched cs, db') \<Rightarrow> (SettingsChanged cs, db')))"

end
