(* ===== verification/Settings_Runs.thy ===== *)
theory Settings_Runs
  imports Settings_Safety
begin

text \<open>
  Overlapping patches. \<open>Settings.Patch\<close> takes no lock and no transaction: each key of a body is checked by a read of
  its own and each change written by a statement of its own, so that the steps of several requests interleave.
  Here are these steps, what holds of every interleaving (the upload limit never passes its default), what
  holds of patches that do not overlap (it never rises) and an interleaving in which it does rise.
\<close>

section \<open>The steps\<close>

text \<open>A request: the members still to check, in the order of their keys, and the changes accepted and not yet written.\<close>

record patch_run =
  prTodo :: "(string \<times> string) list"
  prChanges :: "change list"

record settings_state =
  stDB :: settings_db
  stRuns :: "nat \<rightharpoonup> patch_run"

inductive settings_step :: "settings_sys \<Rightarrow> settings_state \<Rightarrow> settings_state \<Rightarrow> bool" for s where
  arrives: "stRuns st r = None \<Longrightarrow> distinct (map fst body) \<Longrightarrow>
    settings_step s st (st\<lparr>stRuns := (stRuns st)(r \<mapsto> \<lparr>prTodo = sort_key fst body, prChanges = []\<rparr>)\<rparr>)"
| checks: "stRuns st r = Some run \<Longrightarrow> prTodo run = (k, raw) # rest \<Longrightarrow> patch_one s (stDB st) k raw = Inr c \<Longrightarrow>
    settings_step s st (st\<lparr>stRuns := (stRuns st)(r \<mapsto> \<lparr>prTodo = rest, prChanges = prChanges run @ [c]\<rparr>)\<rparr>)"
| writes: "stRuns st r = Some run \<Longrightarrow> prTodo run = [] \<Longrightarrow> prChanges run = c # cs \<Longrightarrow>
    settings_step s st (st\<lparr>stDB := SetSetting now (chKey c) (value_JSON (chTo c)) (stDB st),
                          stRuns := (stRuns st)(r \<mapsto> \<lparr>prTodo = [], prChanges = cs\<rparr>)\<rparr>)"
| ends: "stRuns st r = Some run \<Longrightarrow> settings_step s st (st\<lparr>stRuns := (stRuns st)(r := None)\<rparr>)"

inductive_cases settings_stepE: "settings_step s st st'"

definition fresh_settings :: settings_state where "fresh_settings = \<lparr>stDB = Map.empty, stRuns = Map.empty\<rparr>"

section \<open>A patch is a run\<close>

lemma checking_runs:
  "patch_check s (stDB st) body = Inr cs \<Longrightarrow> stRuns st r = Some \<lparr>prTodo = body, prChanges = cs0\<rparr> \<Longrightarrow>
    (settings_step s)\<^sup>*\<^sup>* st (st\<lparr>stRuns := (stRuns st)(r \<mapsto> \<lparr>prTodo = [], prChanges = cs0 @ cs\<rparr>)\<rparr>)"
proof (induction body arbitrary: st cs cs0)
  case Nil
  then have "st = st\<lparr>stRuns := (stRuns st)(r \<mapsto> \<lparr>prTodo = [], prChanges = cs0 @ cs\<rparr>)\<rparr>" by (cases st) auto
  then show ?case by (metis rtranclp.rtrancl_refl)
next
  case (Cons b body)
  obtain k raw where b: "b = (k, raw)" by fastforce
  from Cons.prems(1) b obtain c cs' where c: "patch_one s (stDB st) k raw = Inr c" "patch_check s (stDB st) body = Inr cs'" "cs = c # cs'"
    by (auto simp: map_sum_def split: sum.splits)
  let ?st = "st\<lparr>stRuns := (stRuns st)(r \<mapsto> \<lparr>prTodo = body, prChanges = cs0 @ [c]\<rparr>)\<rparr>"
  have "settings_step s st ?st" using settings_step.checks [OF Cons.prems(2) _ c(1), of body] b by simp
  moreover have "(settings_step s)\<^sup>*\<^sup>* ?st (?st\<lparr>stRuns := (stRuns ?st)(r \<mapsto> \<lparr>prTodo = [], prChanges = (cs0 @ [c]) @ cs'\<rparr>)\<rparr>)"
    by (rule Cons.IH) (use c in simp_all)
  ultimately have "(settings_step s)\<^sup>*\<^sup>* st (?st\<lparr>stRuns := (stRuns ?st)(r \<mapsto> \<lparr>prTodo = [], prChanges = (cs0 @ [c]) @ cs'\<rparr>)\<rparr>)"
    by (rule converse_rtranclp_into_rtranclp)
  moreover have "?st\<lparr>stRuns := (stRuns ?st)(r \<mapsto> \<lparr>prTodo = [], prChanges = (cs0 @ [c]) @ cs'\<rparr>)\<rparr> =
      st\<lparr>stRuns := (stRuns st)(r \<mapsto> \<lparr>prTodo = [], prChanges = cs0 @ cs\<rparr>)\<rparr>" by (simp add: c(3))
  ultimately show ?case by (simp only:)
qed

lemma writing_runs:
  "patch_put ok now cs (stDB st) = (b, db') \<Longrightarrow> stRuns st r = Some \<lparr>prTodo = [], prChanges = cs\<rparr> \<Longrightarrow>
    (settings_step s)\<^sup>*\<^sup>* st (st\<lparr>stDB := db', stRuns := (stRuns st)(r := None)\<rparr>)"
proof (induction cs arbitrary: st)
  case Nil
  then have "st\<lparr>stDB := db', stRuns := (stRuns st)(r := None)\<rparr> = st\<lparr>stRuns := (stRuns st)(r := None)\<rparr>" by (cases st) simp
  with settings_step.ends [OF Nil.prems(2), of s] show ?case by (metis r_into_rtranclp)
next
  case (Cons c cs)
  show ?case
  proof (cases "ok (chKey c)")
    case True
    let ?st = "st\<lparr>stDB := SetSetting now (chKey c) (value_JSON (chTo c)) (stDB st), stRuns := (stRuns st)(r \<mapsto> \<lparr>prTodo = [], prChanges = cs\<rparr>)\<rparr>"
    have "settings_step s st ?st" using settings_step.writes [OF Cons.prems(2), of c cs s now] by simp
    moreover have "(settings_step s)\<^sup>*\<^sup>* ?st (?st\<lparr>stDB := db', stRuns := (stRuns ?st)(r := None)\<rparr>)"
      by (rule Cons.IH) (use Cons.prems True in simp_all)
    ultimately have "(settings_step s)\<^sup>*\<^sup>* st (?st\<lparr>stDB := db', stRuns := (stRuns ?st)(r := None)\<rparr>)" by (rule converse_rtranclp_into_rtranclp)
    moreover have "?st\<lparr>stDB := db', stRuns := (stRuns ?st)(r := None)\<rparr> = st\<lparr>stDB := db', stRuns := (stRuns st)(r := None)\<rparr>" by simp
    ultimately show ?thesis by (simp only:)
  next
    case False
    with Cons.prems(1) have "st\<lparr>stDB := db', stRuns := (stRuns st)(r := None)\<rparr> = st\<lparr>stRuns := (stRuns st)(r := None)\<rparr>" by (cases st) simp
    with settings_step.ends [OF Cons.prems(2), of s] show ?thesis by (metis r_into_rtranclp)
  qed
qed

text \<open>What \<open>Patch\<close> does to the table, refused, failed half way or accepted, is a run of the steps that ends with the
  request gone: the steps allow every patch of the code.\<close>

theorem Patch_is_a_run:
  assumes "Patch s ok now body (stDB st) = (res, db')" "distinct (map fst body)" "stRuns st r = None"
  shows "(settings_step s)\<^sup>*\<^sup>* st (st\<lparr>stDB := db'\<rparr>)"
proof (cases "patch_decide s body (stDB st)")
  case (Inl e)
  with assms(1) have "st\<lparr>stDB := db'\<rparr> = st" by (cases st) (simp add: Patch_def patch_apply_def)
  then show ?thesis by simp
next
  case (Inr cs)
  obtain b where put: "patch_put ok now cs (stDB st) = (b, db')"
    using assms(1) Inr by (auto simp: Patch_def patch_apply_def split: prod.splits bool.splits)
  let ?a = "st\<lparr>stRuns := (stRuns st)(r \<mapsto> \<lparr>prTodo = sort_key fst body, prChanges = []\<rparr>)\<rparr>"
  let ?b = "?a\<lparr>stRuns := (stRuns ?a)(r \<mapsto> \<lparr>prTodo = [], prChanges = [] @ cs\<rparr>)\<rparr>"
  have "settings_step s st ?a" by (rule settings_step.arrives [OF assms(3,2)])
  moreover have "(settings_step s)\<^sup>*\<^sup>* ?a ?b" by (rule checking_runs) (use Inr in \<open>simp_all add: patch_decide_def\<close>)
  moreover have "(settings_step s)\<^sup>*\<^sup>* ?b (?b\<lparr>stDB := db', stRuns := (stRuns ?b)(r := None)\<rparr>)"
    by (rule writing_runs) (use put in simp_all)
  ultimately have "(settings_step s)\<^sup>*\<^sup>* st (?b\<lparr>stDB := db', stRuns := (stRuns ?b)(r := None)\<rparr>)"
    by (meson converse_rtranclp_into_rtranclp rtranclp_trans)
  moreover have "?b\<lparr>stDB := db', stRuns := (stRuns ?b)(r := None)\<rparr> = st\<lparr>stDB := db'\<rparr>"
    using assms(3) by (cases st) (auto simp: fun_upd_idem)
  ultimately show ?thesis by simp
qed

section \<open>The upload limit\<close>

definition upload_default :: int where "upload_default = 104857600"

definition upload_def :: setting_def where
  "upload_def = (declared UploadMaxBytes (Int64 upload_default) None None ScopeServer)\<lparr>sdDownwardOnly := True\<rparr>"

lemma upload_declared: "Def NewRegistry UploadMaxBytes = Some upload_def"
  by (simp add: Def_def NewRegistry_def setting_rows UploadMaxBytes_def upload_def_def upload_default_def)

lemma upload_fields [simp]: "sdKind upload_def = KindInt" "sdDownwardOnly upload_def" "sdMutable upload_def" "sdEnv upload_def = []"
  "sdKey upload_def = UploadMaxBytes" "sdDefault upload_def = Int64 upload_default"
  by (simp_all add: upload_def_def declared_def Int64_def)

lemma upload_any_int: "validateAgainstBounds upload_def (Int64 i) = None"
  by (simp add: validateAgainstBounds_def upload_def_def declared_def Int64_def)

text \<open>The row is absent or an integer that the server wrote.\<close>

definition upload_row :: "settings_db \<Rightarrow> int \<Rightarrow> bool" where
  "upload_row db i \<longleftrightarrow> int64 i \<and> (case db UploadMaxBytes of None \<Rightarrow> i = upload_default | Some (json, t) \<Rightarrow> unmarshal_int json = Some i)"

lemma Get_upload:
  assumes "ssReg s = NewRegistry"
  shows "(\<exists>eff. Get s UploadMaxBytes db = Inr eff \<and> svInt (efValue eff) = i \<and> int64 i) \<longleftrightarrow> upload_row db i"
proof (cases "db UploadMaxBytes")
  case None
  then show ?thesis
    by (auto simp: Get_def assms upload_declared resolve_def Setting_def upload_row_def Int64_def)
next
  case (Some row)
  obtain json t where r: "row = (json, t)" by fastforce
  have g: "Get s UploadMaxBytes db = map_sum id (\<lambda>v. effective_of upload_def v SourceDatabase) (checked upload_def (parseValue (ssFrac s) KindInt json))"
    using Some r by (simp add: Get_def assms upload_declared resolve_def Setting_def)
  show ?thesis
  proof (cases "unmarshal_int json")
    case None
    then show ?thesis using g Some r by (simp add: parseValue_def checked_def upload_row_def)
  next
    case (Some j)
    then have "checked upload_def (parseValue (ssFrac s) KindInt json) = Inr (Int64 j)"
      by (simp add: parseValue_def checked_def upload_any_int)
    then have "Get s UploadMaxBytes db = Inr (effective_of upload_def (Int64 j) SourceDatabase)" using g by simp
    then show ?thesis using Some r \<open>db UploadMaxBytes = Some row\<close> by (auto simp: upload_row_def Int64_def)
  qed
qed

lemma Get_upload_value:
  assumes "ssReg s = NewRegistry" "upload_row db i"
  shows "\<exists>cur. Get s UploadMaxBytes db = Inr cur \<and> efValue cur = Int64 i"
proof (cases "db UploadMaxBytes")
  case None
  with assms show ?thesis by (simp add: Get_def upload_declared resolve_def Setting_def upload_row_def)
next
  case (Some row)
  then have "checked upload_def (parseValue (ssFrac s) KindInt (fst row)) = Inr (Int64 i)"
    using assms(2) by (auto simp: upload_row_def parseValue_def checked_def upload_any_int)
  with Some assms(1) show ?thesis by (simp add: Get_def upload_declared resolve_def Setting_def)
qed

lemma upload_readable:
  assumes "ssReg s = NewRegistry" "Get s UploadMaxBytes db = Inr eff"
  shows "upload_row db (svInt (efValue eff))"
proof -
  have "int64 (svInt (efValue eff))"
  proof (cases "db UploadMaxBytes")
    case None
    with assms show ?thesis
      by (auto simp: Get_def upload_declared resolve_def Setting_def Int64_def upload_default_def int64_def)
  next
    case (Some row)
    with assms obtain w where "checked upload_def (parseValue (ssFrac s) KindInt (fst row)) = Inr w" "efValue eff = w"
      by (auto simp: Get_def upload_declared resolve_def Setting_def map_sum_def split: sum.splits)
    with checkedD parseValue_shape have "int64 (svInt (efValue eff)) \<or> svInt (efValue eff) = 0"
      by (fastforce simp: Int64_def Duration_def BoolV_def EnumV_def)
    then show ?thesis by (auto simp: int64_def)
  qed
  with Get_upload [OF assms(1), of db "svInt (efValue eff)"] assms(2) show ?thesis by simp
qed

lemma patch_one_upload:
  assumes "patch_one s db UploadMaxBytes raw = Inr c" "ssReg s = NewRegistry" "upload_row db i"
  shows "\<exists>j. chTo c = Int64 j \<and> int64 j \<and> j \<le> i"
proof -
  from patch_oneD [OF assms(1,2)] upload_declared obtain cur where c: "parseValue (ssFrac s) KindInt raw = Some (chTo c)"
    "Get s UploadMaxBytes db = Inr cur" "compare (chTo c) (efValue cur) \<le> 0" by fastforce
  from parseValue_shape [OF c(1)] obtain j where j: "chTo c = Int64 j" "int64 j" by (auto simp: Duration_def BoolV_def EnumV_def)
  have "svInt (efValue cur) = i" using Get_upload [OF assms(2), of db i] assms(3) c(2) by auto
  then have "j \<le> i" using c(3) j by (auto simp: compare_def cmp_def Int64_def split: if_splits)
  with j show ?thesis by blast
qed

lemma upload_written: "int64 j \<Longrightarrow> upload_row (SetSetting now UploadMaxBytes (value_JSON (Int64 j)) db) j"
  by (simp add: upload_row_def SetSetting_def value_JSON_def Int64_def unmarshal_shown)

lemma upload_row_other: "k \<noteq> UploadMaxBytes \<Longrightarrow> upload_row (SetSetting now k json db) i = upload_row db i"
  by (simp add: upload_row_def SetSetting_def)

subsection \<open>Every interleaving\<close>

definition small_change :: "int \<Rightarrow> change \<Rightarrow> bool" where
  "small_change n c \<longleftrightarrow> (chKey c = UploadMaxBytes \<longrightarrow> (\<exists>j. chTo c = Int64 j \<and> int64 j \<and> j \<le> n))"

definition upload_inv :: "settings_state \<Rightarrow> bool" where
  "upload_inv st \<longleftrightarrow> (\<exists>i. upload_row (stDB st) i \<and> i \<le> upload_default) \<and>
     (\<forall>r run. stRuns st r = Some run \<longrightarrow> list_all (small_change upload_default) (prChanges run))"

lemma upload_inv_fresh: "upload_inv fresh_settings"
  by (simp add: upload_inv_def fresh_settings_def upload_row_def upload_default_def int64_def)

lemma small_change_checked:
  assumes "patch_one s db k raw = Inr c" "ssReg s = NewRegistry" "upload_row db i" "i \<le> n"
  shows "small_change n c"
proof (cases "k = UploadMaxBytes")
  case True
  from patch_one_upload [OF assms(1) [unfolded True] assms(2,3)] assms(4) show ?thesis by (fastforce simp: small_change_def)
qed (use patch_one_key [OF assms(1)] in \<open>simp add: small_change_def\<close>)

lemma small_change_written:
  assumes "small_change n c" "upload_row db i" "i \<le> n"
  shows "\<exists>j. upload_row (SetSetting now (chKey c) (value_JSON (chTo c)) db) j \<and> j \<le> n"
proof (cases "chKey c = UploadMaxBytes")
  case True
  with assms(1) obtain j where "chTo c = Int64 j" "int64 j" "j \<le> n" by (auto simp: small_change_def)
  with True upload_written show ?thesis by auto
qed (use assms upload_row_other in auto)

lemma upload_inv_step: "settings_step s st st' \<Longrightarrow> ssReg s = NewRegistry \<Longrightarrow> upload_inv st \<Longrightarrow> upload_inv st'"
proof (induction rule: settings_step.induct)
  case (checks st r run k raw rest c)
  then show ?case using small_change_checked by (auto simp: upload_inv_def)
next
  case (writes st r run c cs now)
  then have a: "small_change upload_default c" "list_all (small_change upload_default) cs" by (fastforce simp: upload_inv_def)+
  from writes obtain i where i: "upload_row (stDB st) i" "i \<le> upload_default" by (auto simp: upload_inv_def)
  from small_change_written [OF a(1) i] a(2) writes show ?case by (auto simp: upload_inv_def)
qed (auto simp: upload_inv_def)

text \<open>C25: From a fresh table, whatever patches arrive and however their reads and writes interleave, the upload limit
  can be read, and it is at most its default of 100 MiB.\<close>

theorem upload_limit_bounded:
  assumes "ssReg s = NewRegistry" "(settings_step s)\<^sup>*\<^sup>* fresh_settings st"
  shows "\<exists>eff. Get s UploadMaxBytes (stDB st) = Inr eff \<and> svInt (efValue eff) \<le> 104857600"
proof -
  from assms(2) have "upload_inv st"
    by (induction rule: rtranclp_induct) (auto intro: upload_inv_fresh upload_inv_step assms(1))
  then obtain i where "upload_row (stDB st) i" "i \<le> upload_default" by (auto simp: upload_inv_def)
  with Get_upload [OF assms(1), of "stDB st" i] show ?thesis by (auto simp: upload_default_def)
qed

subsection \<open>One patch at a time\<close>

lemma patch_check_at: "patch_check s db body = Inr cs \<Longrightarrow> c \<in> set cs \<Longrightarrow> \<exists>k raw. patch_one s db k raw = Inr c"
proof (induction body arbitrary: cs)
  case (Cons b body)
  obtain k raw where b: "b = (k, raw)" by fastforce
  from Cons.prems(1) b obtain c' cs' where "patch_one s db k raw = Inr c'" "patch_check s db body = Inr cs'" "cs = c' # cs'"
    by (auto split: sum.splits simp: map_sum_def)
  with Cons.IH Cons.prems(2) show ?case by auto
qed simp

lemma puts_fall:
  "patch_put ok now cs db = (b, db') \<Longrightarrow> list_all (small_change n) cs \<Longrightarrow> upload_row db i \<Longrightarrow> i \<le> n \<Longrightarrow>
    \<exists>j. upload_row db' j \<and> j \<le> n"
proof (induction cs arbitrary: db i)
  case (Cons c cs)
  show ?case
  proof (cases "ok (chKey c)")
    case True
    from Cons.prems(2) have "small_change n c" by simp
    from small_change_written [OF this Cons.prems(3,4)] obtain j
      where "upload_row (SetSetting now (chKey c) (value_JSON (chTo c)) db) j" "j \<le> n" by blast
    with Cons.IH [OF _ _ this] Cons.prems True show ?thesis by simp
  qed (use Cons in auto)
qed auto

text \<open>A patch that runs alone never raises the upload limit, whether it is accepted, refused or fails half way.\<close>

theorem upload_limit_only_falls:
  assumes "ssReg s = NewRegistry" "Get s UploadMaxBytes db = Inr before" "Patch s ok now body db = (res, db')"
  shows "\<exists>after. Get s UploadMaxBytes db' = Inr after \<and> svInt (efValue after) \<le> svInt (efValue before)"
proof (cases "patch_decide s body db")
  case (Inl e)
  with assms(2,3) show ?thesis by (auto simp: Patch_def patch_apply_def)
next
  case (Inr cs)
  obtain b where put: "patch_put ok now cs db = (b, db')"
    using assms(3) Inr by (auto simp: Patch_def patch_apply_def split: prod.splits bool.splits)
  let ?i = "svInt (efValue before)"
  have row: "upload_row db ?i" using upload_readable [OF assms(1,2)] .
  have "small_change ?i c" if "c \<in> set cs" for c
    using patch_check_at [OF _ that] Inr small_change_checked [OF _ assms(1) row] unfolding patch_decide_def by blast
  then have "\<exists>j. upload_row db' j \<and> j \<le> ?i" by (intro puts_fall [OF put _ row]) (simp_all add: list_all_iff)
  then obtain j where "upload_row db' j" "j \<le> ?i" by blast
  with Get_upload [OF assms(1), of db' j] show ?thesis by auto
qed

subsection \<open>Two at once\<close>

definition upload_body :: "int \<Rightarrow> (string \<times> string) list" where "upload_body i = [(UploadMaxBytes, show_int i)]"

lemma upload_accepted:
  assumes "ssReg s = NewRegistry" "upload_row db i" "int64 j" "j \<le> i"
  shows "patch_one s db UploadMaxBytes (show_int j) = Inr \<lparr>chKey = UploadMaxBytes, chFrom = Int64 i, chTo = Int64 j, chRequiresRestart = True\<rparr>"
proof -
  have "checked upload_def (parseValue (ssFrac s) KindInt (show_int j)) = Inr (Int64 j)"
    using assms(3) by (simp add: parseValue_def unmarshal_shown checked_def upload_any_int)
  moreover obtain cur where "Get s UploadMaxBytes db = Inr cur" "efValue cur = Int64 i"
    using Get_upload_value [OF assms(1,2)] by blast
  ultimately show ?thesis
    using assms(4) by (simp add: patch_one_def assms(1) upload_declared compare_def cmp_def Int64_def) (simp add: upload_def_def declared_def)
qed

text \<open>A request for the limit \<open>j\<close> that has arrived, and one whose change is accepted over the current limit \<open>i\<close>.\<close>

definition waiting_run :: "int \<Rightarrow> patch_run" where "waiting_run j = \<lparr>prTodo = upload_body j, prChanges = []\<rparr>"

definition accepted_run :: "int \<Rightarrow> int \<Rightarrow> patch_run" where
  "accepted_run i j = \<lparr>prTodo = [], prChanges = [\<lparr>chKey = UploadMaxBytes, chFrom = Int64 i, chTo = Int64 j, chRequiresRestart = True\<rparr>]\<rparr>"

lemma run_arrives:
  assumes "stRuns st r = None"
  shows "settings_step s st (st\<lparr>stRuns := (stRuns st)(r \<mapsto> waiting_run j)\<rparr>)"
  using settings_step.arrives [OF assms, of "upload_body j" s] by (simp add: waiting_run_def upload_body_def)

lemma run_checks:
  assumes "ssReg s = NewRegistry" "upload_row (stDB st) i" "int64 j" "j \<le> i" "stRuns st r = Some (waiting_run j)"
  shows "settings_step s st (st\<lparr>stRuns := (stRuns st)(r \<mapsto> accepted_run i j)\<rparr>)"
  using settings_step.checks [OF assms(5) _ upload_accepted [OF assms(1,2,3,4)]]
  by (simp add: waiting_run_def accepted_run_def upload_body_def)

lemma run_writes:
  assumes "stRuns st r = Some (accepted_run i j)"
  shows "settings_step s st (st\<lparr>stDB := SetSetting now UploadMaxBytes (value_JSON (Int64 j)) (stDB st),
    stRuns := (stRuns st)(r \<mapsto> \<lparr>prTodo = [], prChanges = []\<rparr>)\<rparr>)"
  using settings_step.writes [OF assms, of "\<lparr>chKey = UploadMaxBytes, chFrom = Int64 i, chTo = Int64 j, chRequiresRestart = True\<rparr>" "[]" s now]
  by (simp add: accepted_run_def)

lemma race:
  assumes reg: "ssReg s = NewRegistry" and j: "int64 j" "j \<le> upload_default" and k: "int64 k" "k \<le> upload_default"
  shows "\<exists>st st'. (settings_step s)\<^sup>*\<^sup>* fresh_settings st \<and> settings_step s st st' \<and> upload_row (stDB st) j \<and> upload_row (stDB st') k"
proof -
  define a where "a = fresh_settings\<lparr>stRuns := (stRuns fresh_settings)(1 \<mapsto> waiting_run k)\<rparr>"
  define b where "b = a\<lparr>stRuns := (stRuns a)(2 \<mapsto> waiting_run j)\<rparr>"
  define c where "c = b\<lparr>stRuns := (stRuns b)(1 \<mapsto> accepted_run upload_default k)\<rparr>"
  define d where "d = c\<lparr>stRuns := (stRuns c)(2 \<mapsto> accepted_run upload_default j)\<rparr>"
  define e where "e = d\<lparr>stDB := SetSetting 0 UploadMaxBytes (value_JSON (Int64 j)) (stDB d), stRuns := (stRuns d)(2 \<mapsto> \<lparr>prTodo = [], prChanges = []\<rparr>)\<rparr>"
  define f where "f = e\<lparr>stDB := SetSetting 0 UploadMaxBytes (value_JSON (Int64 k)) (stDB e), stRuns := (stRuns e)(1 \<mapsto> \<lparr>prTodo = [], prChanges = []\<rparr>)\<rparr>"
  have row: "upload_row Map.empty upload_default" by (simp add: upload_row_def upload_default_def int64_def)
  have db: "stDB b = Map.empty" "stDB c = Map.empty" by (simp_all add: a_def b_def c_def fresh_settings_def)
  have "settings_step s fresh_settings a" unfolding a_def by (rule run_arrives) (simp add: fresh_settings_def)
  moreover have "settings_step s a b" unfolding b_def by (rule run_arrives) (simp add: a_def fresh_settings_def)
  moreover have "settings_step s b c" unfolding c_def
    by (rule run_checks [OF reg _ k]) (simp_all add: db row, simp add: b_def a_def)
  moreover have "settings_step s c d" unfolding d_def
    by (rule run_checks [OF reg _ j]) (simp_all add: db row, simp add: c_def b_def)
  moreover have "settings_step s d e" unfolding e_def by (rule run_writes [of _ _ upload_default]) (simp add: d_def)
  ultimately have "(settings_step s)\<^sup>*\<^sup>* fresh_settings e" by (meson converse_rtranclp_into_rtranclp rtranclp.rtrancl_refl)
  moreover have "settings_step s e f" unfolding f_def by (rule run_writes [of _ _ upload_default]) (simp add: e_def d_def c_def)
  moreover have "upload_row (stDB e) j" "upload_row (stDB f) k" by (simp_all add: e_def f_def upload_written j k)
  ultimately show ?thesis by blast
qed

text \<open>C38: Overlapping patches do raise it. Of two requests that are checked against the default before either writes, the
  one that asks for less may write first: the limit is 100 bytes and then 200.\<close>

theorem overlapping_patches_raise_the_limit:
  "\<exists>st st' low high. (settings_step \<lparr>ssReg = NewRegistry, ssEnv = env, ssFrac = frac\<rparr>)\<^sup>*\<^sup>* fresh_settings st \<and>
     settings_step \<lparr>ssReg = NewRegistry, ssEnv = env, ssFrac = frac\<rparr> st st' \<and>
     Get \<lparr>ssReg = NewRegistry, ssEnv = env, ssFrac = frac\<rparr> UploadMaxBytes (stDB st) = Inr low \<and> efValue low = Int64 100 \<and>
     Get \<lparr>ssReg = NewRegistry, ssEnv = env, ssFrac = frac\<rparr> UploadMaxBytes (stDB st') = Inr high \<and> efValue high = Int64 200"
proof -
  let ?s = "\<lparr>ssReg = NewRegistry, ssEnv = env, ssFrac = frac\<rparr>"
  have reg: "ssReg ?s = NewRegistry" by simp
  have "int64 100 \<and> 100 \<le> upload_default" "int64 200 \<and> 200 \<le> upload_default" by (simp_all add: int64_def upload_default_def)
  with race [OF reg] obtain st st' where r: "(settings_step ?s)\<^sup>*\<^sup>* fresh_settings st" "settings_step ?s st st'"
    "upload_row (stDB st) 100" "upload_row (stDB st') 200" by meson
  with Get_upload_value [OF reg r(3)] Get_upload_value [OF reg r(4)] show ?thesis by blast
qed

section \<open>Witnesses\<close>

definition plain_settings :: settings_sys where
  "plain_settings = \<lparr>ssReg = NewRegistry, ssEnv = (\<lambda>_. []), ssFrac = (\<lambda>f n unit. f * unit div 10 ^ n)\<rparr>"

lemma plain_registry [simp]: "ssReg plain_settings = NewRegistry" by (simp add: plain_settings_def)

definition lowered :: settings_db where "lowered = SetSetting 7 UploadMaxBytes (value_JSON (Int64 200)) Map.empty"

lemma upload_row_fresh: "upload_row Map.empty upload_default" by (simp add: upload_row_def upload_default_def int64_def)

lemma lowers: "Patch plain_settings (\<lambda>_. True) 7 (upload_body 200) Map.empty =
    (Patched [\<lparr>chKey = UploadMaxBytes, chFrom = Int64 upload_default, chTo = Int64 200, chRequiresRestart = True\<rparr>], lowered)"
  using upload_accepted [OF plain_registry upload_row_fresh, of 200]
  by (simp add: Patch_def patch_apply_def patch_decide_def upload_body_def int64_def upload_default_def lowered_def)

lemma body_distinct: "distinct (map fst (upload_body i))" by (simp add: upload_body_def)

lemma Get_fresh: "Get plain_settings UploadMaxBytes Map.empty = Inr (effective_of upload_def (Int64 upload_default) SourceDefault)"
  by (simp add: Get_def upload_declared resolve_def Setting_def)

lemma Patch_is_a_run_witness:
  "(settings_step plain_settings)\<^sup>*\<^sup>* fresh_settings (fresh_settings\<lparr>stDB := lowered\<rparr>) \<and> lowered UploadMaxBytes \<noteq> None"
  using Patch_is_a_run [of plain_settings "\<lambda>_. True" 7 "upload_body 200" fresh_settings _ lowered 1] lowers body_distinct
  by (simp add: fresh_settings_def lowered_def SetSetting_def)

lemma upload_limit_bounded_witness:
  "\<exists>st eff. (settings_step plain_settings)\<^sup>*\<^sup>* fresh_settings st \<and> stDB st \<noteq> Map.empty \<and>
    Get plain_settings UploadMaxBytes (stDB st) = Inr eff \<and> svInt (efValue eff) \<le> 104857600"
proof -
  have "int64 100 \<and> 100 \<le> upload_default" "int64 200 \<and> 200 \<le> upload_default" by (simp_all add: int64_def upload_default_def)
  with race [OF plain_registry] obtain st where st: "(settings_step plain_settings)\<^sup>*\<^sup>* fresh_settings st" "upload_row (stDB st) 100" by meson
  then have "stDB st \<noteq> Map.empty" by (auto simp: upload_row_def upload_default_def)
  with st(1) upload_limit_bounded [OF plain_registry st(1)] show ?thesis by blast
qed

lemma upload_limit_only_falls_witness:
  "\<exists>after. Get plain_settings UploadMaxBytes lowered = Inr after \<and> svInt (efValue after) \<le> upload_default"
  using upload_limit_only_falls [OF plain_registry Get_fresh lowers] by (simp add: Int64_def)

lemma patch_then_get_witness:
  "Get plain_settings UploadMaxBytes lowered = Inr (effective_of upload_def (Int64 200) SourceDatabase) \<and>
   Get plain_settings ''backup.keep'' lowered = Get plain_settings ''backup.keep'' Map.empty"
proof -
  note p = patch_then_get [OF plain_registry body_distinct lowers]
  have "int64 200" by (simp add: int64_def)
  then have v: "parseValue (ssFrac plain_settings) KindInt (show_int 200) = Some (Int64 200)" by (simp add: parseValue_def unmarshal_shown)
  have "storable (Int64 200)" by (simp add: storable_def Int64_def)
  with p v upload_declared have "Get plain_settings UploadMaxBytes lowered = Inr (effective_of upload_def (Int64 200) SourceDatabase)"
    by (auto simp: upload_body_def)
  moreover have "''backup.keep'' \<notin> fst ` set (upload_body 200)" by (simp add: upload_body_def UploadMaxBytes_def)
  ultimately show ?thesis using p by blast
qed

lemma effective_values_within_bounds_witness:
  "\<exists>d. Def NewRegistry UploadMaxBytes = Some d \<and> in_declaration d (Int64 upload_default)"
  using effective_values_within_bounds [OF plain_registry Get_fresh] by auto

end
