(* ===== verification/Media_Tickets.thy ===== *)
theory Media_Tickets
  imports Codec Normalize Authz
begin

text \<open>
  Tickets and how bytes are handed out (\<open>internal/media/ticket.go\<close>, \<open>serve.go\<close>, \<open>digest.go\<close>, \<open>contentDisposition\<close>
  of \<open>internal/api/content.go\<close>, \<open>internal/gm/media.go\<close>). The keyed HMAC, SHA-256, the Unicode lower case of letters
  beyond ASCII and the library's table of media types are parameters.
\<close>

section \<open>Tickets\<close>

datatype ticket_kind = KindUpload | KindDownload

definition kind_string :: "ticket_kind \<Rightarrow> string" where
  "kind_string k = (case k of KindUpload \<Rightarrow> ''upload'' | KindDownload \<Rightarrow> ''download'')"

definition UploadPrefix :: string where "UploadPrefix = ''agm_ut_''"
definition DownloadPrefix :: string where "DownloadPrefix = ''agm_dt_''"

definition prefixFor :: "ticket_kind \<Rightarrow> string" where
  "prefixFor k = (if k = KindUpload then UploadPrefix else DownloadPrefix)"

definition Audience :: "ticket_kind \<Rightarrow> string \<Rightarrow> string" where "Audience k target = kind_string k @ '':'' @ target"

definition writeField :: "string \<Rightarrow> string" where "writeField s = show_nat (length s) @ '':'' @ s"

definition ticket_mac :: "(string \<Rightarrow> string) \<Rightarrow> ticket_kind \<Rightarrow> string \<Rightarrow> string \<Rightarrow> string" where
  "ticket_mac hm k target nonce = RawURLEncode (hm (writeField (Audience k target) @ writeField nonce))"

definition HashToken :: "(string \<Rightarrow> string) \<Rightarrow> string \<Rightarrow> string" where "HashToken sha v = hex_encode (sha v)"

text \<open>\<open>random\<close>: the 32 bytes of \<open>crypto/rand\<close>. The value, and the hash to store.\<close>

definition Mint :: "(string \<Rightarrow> string) \<Rightarrow> (string \<Rightarrow> string) \<Rightarrow> ticket_kind \<Rightarrow> string \<Rightarrow> string \<Rightarrow> string \<times> string" where
  "Mint hm sha k target random =
     (let nonce = RawURLEncode random; v = prefixFor k @ nonce @ ''.'' @ ticket_mac hm k target nonce in (v, HashToken sha v))"

text \<open>\<open>strings.LastIndex\<close>: what stands before and after the last separator.\<close>

definition cut_last :: "char \<Rightarrow> string \<Rightarrow> (string \<times> string) option" where
  "cut_last sep s =
     (if sep \<in> set s then Some (rev (tl (dropWhile (\<lambda>c. c \<noteq> sep) (rev s))), rev (takeWhile (\<lambda>c. c \<noteq> sep) (rev s))) else None)"

definition starts_with :: "string \<Rightarrow> string \<Rightarrow> bool" where "starts_with p s \<longleftrightarrow> take (length p) s = p"

definition Verify :: "(string \<Rightarrow> string) \<Rightarrow> (string \<Rightarrow> string) \<Rightarrow> string \<Rightarrow> ticket_kind \<Rightarrow> string \<Rightarrow> string option" where
  "Verify hm sha v k target =
     (if \<not> starts_with (prefixFor k) v then None
      else case cut_last (CHR ''.'') (drop (length (prefixFor k)) v) of
        None \<Rightarrow> None
      | Some (nonce, presented) \<Rightarrow>
          if nonce = [] \<or> presented = [] then None
          else if presented \<noteq> ticket_mac hm k target nonce then None
          else Some (HashToken sha v))"

definition KindOf :: "string \<Rightarrow> ticket_kind option" where
  "KindOf v = (if starts_with UploadPrefix v then Some KindUpload else if starts_with DownloadPrefix v then Some KindDownload else None)"

subsection \<open>The lines to copy\<close>

definition quote_char :: char where "quote_char = CHR 0x27"

definition shellSafe :: "string \<Rightarrow> string" where "shellSafe s = filter (\<lambda>c. c \<noteq> quote_char) s"

definition quoted :: "string \<Rightarrow> string" where "quoted s = quote_char # s @ [quote_char]"

definition CurlDownload :: "string \<Rightarrow> string \<Rightarrow> string \<Rightarrow> string" where
  "CurlDownload url token filename =
     ''curl --fail -H '' @ quoted (''Authorization: Bearer '' @ token) @ '' -o '' @ quoted (shellSafe filename) @ '' '' @ quoted url"

definition CurlUpload :: "string \<Rightarrow> string \<Rightarrow> string \<Rightarrow> string" where
  "CurlUpload url token mimeType =
     ''curl --fail -X PUT -H '' @ quoted (''Authorization: Bearer '' @ token) @ '' -H '' @ quoted (''Content-Type: '' @ shellSafe mimeType)
       @ '' --data-binary @FILE '' @ quoted url"

section \<open>Serving\<close>

definition OctetStream :: string where "OctetStream = ''application/octet-stream''"

definition servedTypes :: "string list" where
  "servedTypes =
     [''image/jpeg'', ''image/png'', ''image/gif'', ''image/webp'', ''image/bmp'', ''image/heic'', ''image/heif'', ''image/avif'',
      ''audio/mpeg'', ''audio/aac'', ''audio/ogg'', ''audio/wav'', ''audio/amr'', ''audio/mp4'', ''audio/3gpp'', ''audio/basic'',
      ''video/mp4'', ''video/3gpp'', ''video/webm'', ''video/quicktime'', ''video/mpeg'', ''text/plain'', ''text/vcard'']"

text \<open>\<open>strings.ToLower\<close>; \<open>low\<close> gives the lower case of a letter beyond ASCII.\<close>

definition lower_rune :: "(nat \<Rightarrow> nat) \<Rightarrow> nat \<Rightarrow> nat" where
  "lower_rune low r = (if r < 0x80 then if 65 \<le> r \<and> r \<le> 90 then r + 32 else r else low r)"

definition to_lower :: "(nat \<Rightarrow> nat) \<Rightarrow> string \<Rightarrow> string" where "to_lower low s = utf8 (map (lower_rune low) (runes s))"

definition normaliseMIME :: "(nat \<Rightarrow> nat) \<Rightarrow> string \<Rightarrow> string" where
  "normaliseMIME low mime =
     (let m = to_lower low (TrimSpace mime) in case Cut (CHR '';'') m of None \<Rightarrow> m | Some (a, b) \<Rightarrow> TrimSpace a)"

definition ServedContentType :: "(nat \<Rightarrow> nat) \<Rightarrow> string \<Rightarrow> string" where
  "ServedContentType low mime = (if normaliseMIME low mime \<in> set servedTypes then normaliseMIME low mime else OctetStream)"

definition top_level :: "string \<Rightarrow> string" where "top_level m = (case Cut (CHR ''/'') m of None \<Rightarrow> m | Some (a, b) \<Rightarrow> a)"

definition ContentTypeContradicted :: "(nat \<Rightarrow> nat) \<Rightarrow> string \<Rightarrow> string \<Rightarrow> bool" where
  "ContentTypeContradicted low declared sniffed \<longleftrightarrow>
     (let d = normaliseMIME low declared; s = normaliseMIME low sniffed in
      \<not> (d = [] \<or> s = [] \<or> s = OctetStream) \<and> d \<noteq> s \<and> top_level d \<noteq> top_level s)"

definition disposition_rune :: "nat \<Rightarrow> bool" where "disposition_rune r \<longleftrightarrow> \<not> (r < 0x20 \<or> r = 0x7F \<or> r = 0x22 \<or> r = 0x5C)"

definition contentDisposition :: "string \<Rightarrow> string" where
  "contentDisposition filename =
     (let clean = utf8 (filter disposition_rune (runes filename)) in
      if clean = [] then ''attachment'' else ''attachment; filename='' @ CHR 0x22 # clean @ [CHR 0x22])"

text \<open>The media type of the library for a content type: by the whole name, else by what stands before the slash;
  zero when there is none.\<close>

definition canonicalMediaType :: "(nat \<Rightarrow> nat) \<Rightarrow> (string \<rightharpoonup> int) \<Rightarrow> string \<Rightarrow> int" where
  "canonicalMediaType low table mime =
     (let m = normaliseMIME low mime in
      if scanInt (table m) \<noteq> 0 then scanInt (table m)
      else case Cut (CHR ''/'') m of
        None \<Rightarrow> 0
      | Some (prefix, r) \<Rightarrow> if prefix = [] then 0 else scanInt (table prefix))"

definition SupportedMIME :: "(nat \<Rightarrow> nat) \<Rightarrow> (string \<rightharpoonup> int) \<Rightarrow> string \<Rightarrow> bool" where
  "SupportedMIME low table mime \<longleftrightarrow> canonicalMediaType low table mime \<noteq> 0"

definition SHA256UnavailableReasons :: "string list" where
  "SHA256UnavailableReasons = [''larger_than_cache_budget'', ''download_budget_exhausted'', ''bytes_unavailable'']"

definition SHA256UnavailableWarning :: "string \<Rightarrow> string" where "SHA256UnavailableWarning reason = ''sha256_unavailable:'' @ reason"

definition media_SHA256 :: "(string \<Rightarrow> string) \<Rightarrow> string \<Rightarrow> string" where "media_SHA256 sha data = hex_encode (sha data)"

section \<open>A ticket is for one target\<close>

lemma cut_at: "sep \<notin> set b \<Longrightarrow> takeWhile (\<lambda>c. c \<noteq> sep) (b @ sep # a) = b \<and> dropWhile (\<lambda>c. c \<noteq> sep) (b @ sep # a) = sep # a"
  by (induction b) auto

lemma cut_last_join: "sep \<notin> set b \<Longrightarrow> cut_last sep (a @ sep # b) = Some (a, b)"
  using cut_at [of sep "rev b" "rev a"] by (simp add: cut_last_def)

lemma writeField_inject:
  assumes "writeField a @ r = writeField b @ s"
  shows "a = b \<and> r = s"
proof -
  have "show_nat (length a) @ CHR '':'' # (a @ r) = show_nat (length b) @ CHR '':'' # (b @ s)" using assms by (simp add: writeField_def)
  moreover have "\<not> dec_digit CHR '':''" by (simp add: dec_digit_def)
  ultimately have "length a = length b \<and> a @ r = b @ s" by (rule digits_until)
  then show ?thesis by (metis append_eq_append_conv)
qed

lemma RawURLEncode_char: "c \<in> set (RawURLEncode s) \<Longrightarrow> c \<noteq> CHR ''.'' \<and> c \<noteq> quote_char"
  using RawURLEncode_chars by (fastforce simp: quote_char_def)

lemma Audience_inject: "Audience k t = Audience k' t' \<longleftrightarrow> k = k' \<and> t = t'"
  by (cases k; cases k') (simp_all add: Audience_def kind_string_def)

lemma prefixes_differ: "starts_with (prefixFor k) v \<Longrightarrow> starts_with (prefixFor k') v \<Longrightarrow> k = k'"
  by (cases k; cases k') (auto simp: starts_with_def prefixFor_def UploadPrefix_def DownloadPrefix_def)

lemma VerifyD:
  assumes "Verify hm sha v k target = Some h"
  shows "starts_with (prefixFor k) v \<and> h = HashToken sha v \<and>
    (\<exists>nonce. cut_last (CHR ''.'') (drop (length (prefixFor k)) v) = Some (nonce, ticket_mac hm k target nonce))"
  using assms by (auto simp: Verify_def split: if_splits option.splits prod.splits)

lemma RawURLEncode_inject [simp]: "RawURLEncode s = RawURLEncode t \<longleftrightarrow> s = t"
  by (metis RawURLDecode_Encode option.inject)

lemma one_target:
  assumes "Verify hm sha v k target = Some h" "Verify hm sha v k' target' = Some h'"
  shows "(k = k' \<and> target = target' \<and> h = h') \<or> (\<exists>x y. x \<noteq> y \<and> hm x = hm y)"
proof -
  from VerifyD [OF assms(1)] VerifyD [OF assms(2)] have d: "starts_with (prefixFor k) v" "starts_with (prefixFor k') v"
    "h = HashToken sha v" "h' = HashToken sha v" by simp_all
  then have k: "k = k'" using prefixes_differ by blast
  from VerifyD [OF assms(1)] obtain n where n: "cut_last (CHR ''.'') (drop (length (prefixFor k)) v) = Some (n, ticket_mac hm k target n)" by blast
  from VerifyD [OF assms(2)] obtain n' where "cut_last (CHR ''.'') (drop (length (prefixFor k')) v) = Some (n', ticket_mac hm k' target' n')" by blast
  with n k have "ticket_mac hm k target n = ticket_mac hm k target' n" by auto
  then have "hm (writeField (Audience k target) @ writeField n) = hm (writeField (Audience k target') @ writeField n)"
    by (simp add: ticket_mac_def)
  moreover have "writeField (Audience k target) @ writeField n = writeField (Audience k target') @ writeField n \<Longrightarrow> target = target'"
    by (drule writeField_inject) (simp add: Audience_inject)
  ultimately show ?thesis using d k by blast
qed

lemma minted_kind: "Mint hm sha k target random = (v, h) \<Longrightarrow> KindOf v = Some k"
  by (cases k) (auto simp: Mint_def Let_def KindOf_def starts_with_def prefixFor_def UploadPrefix_def DownloadPrefix_def)

lemma minted_verifies:
  assumes "Mint hm sha k target random = (v, h)" "random \<noteq> []" "\<And>x. hm x \<noteq> []"
  shows "Verify hm sha v k target = Some h"
proof -
  let ?n = "RawURLEncode random"
  have v: "v = prefixFor k @ ?n @ CHR ''.'' # ticket_mac hm k target ?n" "h = HashToken sha v" using assms(1) by (auto simp: Mint_def Let_def)
  have "CHR ''.'' \<notin> set (ticket_mac hm k target ?n)" using RawURLEncode_char by (auto simp: ticket_mac_def)
  then have "cut_last (CHR ''.'') (drop (length (prefixFor k)) v) = Some (?n, ticket_mac hm k target ?n)"
    by (simp add: v(1) cut_last_join)
  moreover have "starts_with (prefixFor k) v" by (simp add: starts_with_def v(1))
  moreover have "RawURLEncode s = [] \<longleftrightarrow> s = []" for s using RawURLEncode_inject [of s "[]"] by (simp add: RawURLEncode_def)
  ultimately show ?thesis using assms(2,3) v(2) by (simp add: Verify_def ticket_mac_def)
qed

text \<open>C13: A minted value is accepted for its target under the hash that was stored, and a value that is accepted for one
  target is accepted for no other, of either kind, or else two messages with the same HMAC are known.\<close>

theorem ticket_is_for_one_target:
  assumes "Mint hm sha k target random = (v, h)" "random \<noteq> []" "\<And>x. hm x \<noteq> []"
  shows "KindOf v = Some k \<and> Verify hm sha v k target = Some h \<and>
    ((\<exists>x y. x \<noteq> y \<and> hm x = hm y) \<or> (\<nexists>k' target' h'. (k', target') \<noteq> (k, target) \<and> Verify hm sha v k' target' = Some h'))"
proof -
  have "(k', target') = (k, target)" if "Verify hm sha v k' target' = Some h'" "\<not> (\<exists>x y. x \<noteq> y \<and> hm x = hm y)" for k' target' h'
    using one_target [OF minted_verifies [OF assms] that(1)] that(2) by blast
  with minted_kind [OF assms(1)] minted_verifies [OF assms] show ?thesis by blast
qed

section \<open>The lines to copy are read as meant\<close>

text \<open>How a POSIX shell splits a line of plain words and single-quoted strings: \<open>None\<close> when it meets a character that it
  would interpret, or the end inside quotes.\<close>

definition plain_char :: "char \<Rightarrow> bool" where
  "plain_char c \<longleftrightarrow> (let n = of_char c :: nat in (48 \<le> n \<and> n \<le> 57) \<or> (65 \<le> n \<and> n \<le> 90) \<or> (97 \<le> n \<and> n \<le> 122) \<or> n = 45 \<or> n = 64)"

definition word_so_far :: "string option \<Rightarrow> string" where "word_so_far w = (case w of None \<Rightarrow> [] | Some w \<Rightarrow> w)"

fun sh_words :: "bool \<Rightarrow> string option \<Rightarrow> string \<Rightarrow> string list option" where
  "sh_words inside w [] = (if inside then None else Some (case w of None \<Rightarrow> [] | Some w \<Rightarrow> [w]))"
| "sh_words inside w (c # s) =
     (if inside then (if c = quote_char then sh_words False w s else sh_words True (Some (word_so_far w @ [c])) s)
      else if c = quote_char then sh_words True (Some (word_so_far w)) s
      else if c = CHR '' '' then (case w of None \<Rightarrow> sh_words False None s | Some w \<Rightarrow> map_option (Cons w) (sh_words False None s))
      else if plain_char c then sh_words False (Some (word_so_far w @ [c])) s
      else None)"

lemma sh_inside: "quote_char \<notin> set t \<Longrightarrow> sh_words True (Some w) (t @ quote_char # s) = sh_words False (Some (w @ t)) s"
  by (induction t arbitrary: w) (auto simp: word_so_far_def)

lemma sh_quoted: "quote_char \<notin> set t \<Longrightarrow> sh_words False None (quoted t @ s) = sh_words False (Some t) s"
  by (simp add: quoted_def word_so_far_def sh_inside)

lemma sh_plain: "list_all plain_char t \<Longrightarrow> sh_words False (Some w) (t @ s) = sh_words False (Some (w @ t)) s"
  by (induction t arbitrary: w) (auto simp: word_so_far_def plain_char_def quote_char_def)

lemma sh_word: "list_all plain_char (c # t) \<Longrightarrow> sh_words False None ((c # t) @ s) = sh_words False (Some (c # t)) s"
  using sh_plain [of t "[c]" s] by (auto simp: word_so_far_def plain_char_def quote_char_def)

lemma sh_space: "sh_words False (Some w) (CHR '' '' # s) = map_option (Cons w) (sh_words False None s)"
  by (simp add: quote_char_def)

lemma shellSafe_no_quote [simp]: "quote_char \<notin> set (shellSafe s)" by (simp add: shellSafe_def)

lemma sh_words_of_line:
  "sh_words False None (''curl --fail '' @ r) = map_option (\<lambda>ws. ''curl'' # ''--fail'' # ws) (sh_words False None r)"
  "sh_words False None (''-H '' @ r) = map_option (Cons ''-H'') (sh_words False None r)"
  "sh_words False None (''-o '' @ r) = map_option (Cons ''-o'') (sh_words False None r)"
  "sh_words False None (''-X PUT '' @ r) = map_option (\<lambda>ws. ''-X'' # ''PUT'' # ws) (sh_words False None r)"
  "sh_words False None (''--data-binary @FILE '' @ r) = map_option (\<lambda>ws. ''--data-binary'' # ''@FILE'' # ws) (sh_words False None r)"
  by (simp_all add: plain_char_def quote_char_def word_so_far_def option.map_comp comp_def)

lemma sh_quoted_word: "quote_char \<notin> set t \<Longrightarrow> sh_words False None (quoted t @ CHR '' '' # r) = map_option (Cons t) (sh_words False None r)"
proof -
  assume q: "quote_char \<notin> set t"
  show "sh_words False None (quoted t @ CHR '' '' # r) = map_option (Cons t) (sh_words False None r)"
    by (simp only: sh_quoted [OF q] sh_space)
qed

lemma sh_quoted_last: "quote_char \<notin> set t \<Longrightarrow> sh_words False None (quoted t) = Some [t]"
  using sh_quoted [of t "[]"] by simp

text \<open>Whatever name the sender of an attachment gave it, and whatever content type the caller reserved, the lines
  that the tickets come with are split by a shell into the intended words.\<close>

theorem curl_lines_are_read_as_meant:
  assumes "quote_char \<notin> set token" "quote_char \<notin> set url"
  shows "sh_words False None (CurlDownload url token filename) =
      Some [''curl'', ''--fail'', ''-H'', ''Authorization: Bearer '' @ token, ''-o'', shellSafe filename, url] \<and>
    sh_words False None (CurlUpload url token mimeType) =
      Some [''curl'', ''--fail'', ''-X'', ''PUT'', ''-H'', ''Authorization: Bearer '' @ token, ''-H'', ''Content-Type: '' @ shellSafe mimeType,
            ''--data-binary'', ''@FILE'', url]"
proof -
  have q: "quote_char \<notin> set (''Authorization: Bearer '' @ token)" "quote_char \<notin> set (''Content-Type: '' @ shellSafe mimeType)"
    using assms(1) by (auto simp: quote_char_def shellSafe_def)
  have d: "CurlDownload url token filename = ''curl --fail '' @ ''-H '' @ quoted (''Authorization: Bearer '' @ token) @ CHR '' '' #
      ''-o '' @ quoted (shellSafe filename) @ CHR '' '' # quoted url" by (simp add: CurlDownload_def)
  have u: "CurlUpload url token mimeType = ''curl --fail '' @ ''-X PUT '' @ ''-H '' @ quoted (''Authorization: Bearer '' @ token) @ CHR '' '' #
      ''-H '' @ quoted (''Content-Type: '' @ shellSafe mimeType) @ CHR '' '' # ''--data-binary @FILE '' @ quoted url" by (simp add: CurlUpload_def)
  show ?thesis unfolding d u sh_words_of_line sh_quoted_word [OF q(1)] sh_quoted_word [OF q(2)] sh_quoted_word [OF shellSafe_no_quote] sh_quoted_last [OF assms(2)]
    by simp
qed

section \<open>Responses are inert\<close>

definition header_char :: "char \<Rightarrow> bool" where
  "header_char c \<longleftrightarrow> (let n = of_char c :: nat in 0x20 \<le> n \<and> n \<noteq> 0x7F \<and> n \<noteq> 0x22 \<and> n \<noteq> 0x5C)"

lemma disposition_bytes: "disposition_rune r \<Longrightarrow> valid_rune r \<Longrightarrow> list_all header_char (EncodeRune r)"
proof -
  assume d: "disposition_rune r" and v: "valid_rune r"
  have "list_all (\<lambda>b. 0x20 \<le> b \<and> b \<noteq> 0x7F \<and> b \<noteq> 0x22 \<and> b \<noteq> 0x5C) (encode_bytes r)"
    using d v by (auto simp: encode_bytes_def disposition_rune_def valid_rune_def Let_def)
  then have "list_all (\<lambda>b. 0x20 \<le> b \<and> b \<noteq> 0x7F \<and> b \<noteq> 0x22 \<and> b \<noteq> 0x5C) (map of_char (EncodeRune r) :: nat list)"
    by (simp add: map_of_char_EncodeRune [OF v])
  then show ?thesis by (simp add: list_all_iff header_char_def)
qed

lemma runes_valid: "list_all valid_rune (runes s)"
proof -
  have "valid_rune (fst seg)" if "seg \<in> set (segments s)" for seg
    using segments_good [OF that] by (cases "bad_segment seg") (auto simp: bad_segment_def valid_rune_def)
  then show ?thesis by (simp add: runes_def list_all_iff)
qed

lemma disposition_chars: "list_all valid_rune rs \<Longrightarrow> list_all header_char (utf8 (filter disposition_rune rs))"
  by (induction rs) (auto simp: disposition_bytes)

text \<open>Whatever content type and name an attachment was sent with, the response says one of the declared passive
  types or that it is a stream of bytes, and its disposition is one header line with the name in one quoted
  string.\<close>

theorem attachment_headers_are_inert:
  "(ServedContentType low mime = OctetStream \<or> ServedContentType low mime \<in> set servedTypes) \<and>
   ServedContentType low mime \<notin> {''text/html'', ''image/svg+xml'', ''application/xhtml+xml'', ''text/xml'', ''application/pdf''} \<and>
   (contentDisposition filename = ''attachment'' \<or>
     (\<exists>x. contentDisposition filename = ''attachment; filename='' @ CHR 0x22 # x @ [CHR 0x22] \<and> list_all header_char x))"
proof -
  have "\<forall>m \<in> {''text/html'', ''image/svg+xml'', ''application/xhtml+xml'', ''text/xml'', ''application/pdf''}. m \<notin> set servedTypes \<and> m \<noteq> OctetStream"
    by (simp add: servedTypes_def OctetStream_def)
  moreover have c: "ServedContentType low mime = OctetStream \<or> ServedContentType low mime \<in> set servedTypes" by (simp add: ServedContentType_def)
  ultimately have "ServedContentType low mime \<notin> {''text/html'', ''image/svg+xml'', ''application/xhtml+xml'', ''text/xml'', ''application/pdf''}"
    by (metis (no_types, lifting))
  moreover have "list_all header_char (utf8 (filter disposition_rune (runes filename)))" by (rule disposition_chars [OF runes_valid])
  ultimately show ?thesis using c by (auto simp: contentDisposition_def Let_def)
qed

section \<open>Witnesses\<close>

definition toy_mac :: "string \<Rightarrow> string" where "toy_mac x = ''k'' @ x"

lemma ticket_is_for_one_target_witness:
  "\<exists>v h. Mint toy_mac id KindUpload ''upl_1'' ''nonce'' = (v, h) \<and> Verify toy_mac id v KindUpload ''upl_1'' = Some h \<and>
    Verify toy_mac id v KindUpload ''upl_2'' = None \<and> Verify toy_mac id v KindDownload ''upl_1'' = None"
proof -
  obtain v h where m: "Mint toy_mac id KindUpload ''upl_1'' ''nonce'' = (v, h)" by fastforce
  have "\<not> (\<exists>x y. x \<noteq> y \<and> toy_mac x = toy_mac y)" by (simp add: toy_mac_def)
  with ticket_is_for_one_target [OF m] have "Verify toy_mac id v KindUpload ''upl_1'' = Some h"
    "\<nexists>k' target' h'. (k', target') \<noteq> (KindUpload, ''upl_1'') \<and> Verify toy_mac id v k' target' = Some h'"
    by (simp_all add: toy_mac_def)
  then have n: "(k', t') \<noteq> (KindUpload, ''upl_1'') \<Longrightarrow> Verify toy_mac id v k' t' = None" for k' t'
    by (cases "Verify toy_mac id v k' t'") blast+
  have "Verify toy_mac id v KindUpload ''upl_2'' = None" "Verify toy_mac id v KindDownload ''upl_1'' = None" by (rule n, simp)+
  with m \<open>Verify toy_mac id v KindUpload ''upl_1'' = Some h\<close> show ?thesis by blast
qed

lemma curl_lines_are_read_as_meant_witness:
  "sh_words False None (CurlDownload ''https://h/v1'' ''agm_dt_x'' (''a'' @ [quote_char] @ ''; rm -rf x''))
     = Some [''curl'', ''--fail'', ''-H'', ''Authorization: Bearer agm_dt_x'', ''-o'', ''a; rm -rf x'', ''https://h/v1'']"
  using curl_lines_are_read_as_meant [of "''agm_dt_x''" "''https://h/v1''" "''a'' @ [quote_char] @ ''; rm -rf x''" "[]"]
  by (simp add: quote_char_def shellSafe_def)

end
