(* ===== verification/Media_Store.thy ===== *)
theory Media_Store
  imports Agm_Prelude
begin

text \<open>
  Upload reservations and download tickets (\<open>internal/store/media.go\<close>, the tables \<open>uploads\<close> and
  \<open>download_tickets\<close>). Each method is one transaction; \<open>None\<close> is a refused constraint. Attachments that exist
  are a parameter.
\<close>

section \<open>Rows\<close>

datatype upload_state = UploadReserved | UploadComplete | UploadConsumed | UploadExpired

record upload =
  upID :: string
  upAuthorizationID :: string
  upIdempotencyKey :: "string option"
  upFilename :: string
  upMimeType :: string
  upSizeBytes :: int
  upSHA256Declared :: "string option"
  upState :: upload_state
  upTokenHash :: string
  upRedemptions :: int
  upStagedPath :: "string option"
  upExpiresAtMS :: ms
  upCreatedAtMS :: ms

record ticket =
  dtHash :: string
  dtAttachmentID :: string
  dtAuthorizationID :: string
  dtRedemptions :: int
  dtMaxRedemptions :: int
  dtExpiresAtMS :: ms
  dtCreatedAtMS :: ms

record media_db =
  mdUploads :: "upload list"
  mdTickets :: "ticket list"

datatype media_error = ErrUploadNotFound | ErrUploadState | ErrTicketNotFound | ErrTicketSpent | MediaConstraint

section \<open>Uploads\<close>

text \<open>The unique indexes: the identifier, the token hash, and the key of an authorization when there is one.\<close>

definition upload_clash :: "upload \<Rightarrow> upload \<Rightarrow> bool" where
  "upload_clash u v \<longleftrightarrow> upID u = upID v \<or> upTokenHash u = upTokenHash v \<or>
     (upIdempotencyKey u \<noteq> None \<and> upAuthorizationID u = upAuthorizationID v \<and> upIdempotencyKey u = upIdempotencyKey v)"

definition ReserveUpload :: "string \<Rightarrow> ms \<Rightarrow> upload \<Rightarrow> media_db \<Rightarrow> (media_error + upload) \<times> media_db" where
  "ReserveUpload fresh now u d =
     (let u' = u\<lparr>upID := (if upID u = [] then fresh else upID u), upState := UploadReserved, upRedemptions := 0, upStagedPath := None,
                 upCreatedAtMS := now\<rparr>
      in if list_ex (upload_clash u') (mdUploads d) then (Inl MediaConstraint, d)
         else (Inr u', d\<lparr>mdUploads := mdUploads d @ [u']\<rparr>))"

definition Upload :: "string \<Rightarrow> media_db \<Rightarrow> upload option" where "Upload i d = select_one (\<lambda>u. upID u = i) (mdUploads d)"

definition UploadByTokenHash :: "string \<Rightarrow> media_db \<Rightarrow> upload option" where
  "UploadByTokenHash h d = select_one (\<lambda>u. upTokenHash u = h) (mdUploads d)"

definition UploadByIdempotencyKey :: "string \<Rightarrow> string \<Rightarrow> media_db \<Rightarrow> upload option" where
  "UploadByIdempotencyKey auth key d =
     (if key = [] then None else select_one (\<lambda>u. upAuthorizationID u = auth \<and> upIdempotencyKey u = Some key) (mdUploads d))"

definition update_upload :: "string \<Rightarrow> (upload \<Rightarrow> upload) \<Rightarrow> media_db \<Rightarrow> media_db" where
  "update_upload i f d = d\<lparr>mdUploads := update_where (\<lambda>u. upID u = i) f (mdUploads d)\<rparr>"

definition SetUploadToken :: "string \<Rightarrow> string \<Rightarrow> media_db \<Rightarrow> media_db option" where
  "SetUploadToken i hash d =
     (if list_ex (\<lambda>u. upID u \<noteq> i \<and> upTokenHash u = hash) (mdUploads d) then None else Some (update_upload i (upTokenHash_update (\<lambda>_. hash)) d))"

text \<open>\<open>good\<close>: the bytes were verified. Otherwise the reservation is spent and expired.\<close>

definition CompleteUpload :: "string \<Rightarrow> string \<Rightarrow> bool \<Rightarrow> media_db \<Rightarrow> media_error option \<times> media_db" where
  "CompleteUpload i staged good d =
     (case Upload i d of
        None \<Rightarrow> (Some ErrUploadNotFound, d)
      | Some u \<Rightarrow>
          if upState u \<noteq> UploadReserved \<or> 1 \<le> upRedemptions u then (Some ErrUploadState, d)
          else (None, update_upload i (\<lambda>u. u\<lparr>upState := (if good then UploadComplete else UploadExpired), upRedemptions := upRedemptions u + 1,
                                             upStagedPath := (if good then Some staged else None)\<rparr>) d))"

definition ConsumeUpload :: "string \<Rightarrow> media_db \<Rightarrow> media_error option \<times> media_db" where
  "ConsumeUpload i d =
     (if list_ex (\<lambda>u. upID u = i \<and> upState u = UploadComplete) (mdUploads d)
      then (None, d\<lparr>mdUploads := update_where (\<lambda>u. upID u = i \<and> upState u = UploadComplete) (upState_update (\<lambda>_. UploadConsumed)) (mdUploads d)\<rparr>)
      else (Some ErrUploadState, d))"

definition upload_due :: "ms \<Rightarrow> upload \<Rightarrow> bool" where
  "upload_due now u \<longleftrightarrow> upExpiresAtMS u \<le> now \<and> (upState u = UploadReserved \<or> upState u = UploadComplete)"

definition ExpireUploads :: "ms \<Rightarrow> media_db \<Rightarrow> string list \<times> media_db" where
  "ExpireUploads now d =
     (map (\<lambda>u. scanString (upStagedPath u)) (filter (\<lambda>u. upload_due now u \<and> upStagedPath u \<noteq> None) (mdUploads d)),
      d\<lparr>mdUploads := update_where (upload_due now) (\<lambda>u. u\<lparr>upState := UploadExpired, upStagedPath := None\<rparr>) (mdUploads d)\<rparr>)"

text \<open>The statement of \<open>uploadsDelete\<close>.\<close>

definition DeleteUpload :: "string \<Rightarrow> string \<Rightarrow> media_db \<Rightarrow> media_db" where
  "DeleteUpload i auth d = d\<lparr>mdUploads := delete_where (\<lambda>u. upID u = i \<and> upAuthorizationID u = auth) (mdUploads d)\<rparr>"

section \<open>Download tickets\<close>

definition MintDownloadTicket :: "(string \<Rightarrow> bool) \<Rightarrow> ms \<Rightarrow> ticket \<Rightarrow> media_db \<Rightarrow> media_db option" where
  "MintDownloadTicket attachments now t d =
     (let t' = t\<lparr>dtRedemptions := 0, dtMaxRedemptions := (if dtMaxRedemptions t = 0 then 5 else dtMaxRedemptions t), dtCreatedAtMS := now\<rparr>
      in if list_ex (\<lambda>r. dtHash r = dtHash t) (mdTickets d) \<or> \<not> attachments (dtAttachmentID t) then None
         else Some (d\<lparr>mdTickets := mdTickets d @ [t']\<rparr>))"

definition DownloadTicketByHash :: "string \<Rightarrow> media_db \<Rightarrow> ticket option" where
  "DownloadTicketByHash h d = select_one (\<lambda>t. dtHash t = h) (mdTickets d)"

definition RedeemDownloadTicket :: "ms \<Rightarrow> string \<Rightarrow> media_db \<Rightarrow> (media_error + ticket) \<times> media_db" where
  "RedeemDownloadTicket now h d =
     (case DownloadTicketByHash h d of
        None \<Rightarrow> (Inl ErrTicketNotFound, d)
      | Some t \<Rightarrow>
          if dtExpiresAtMS t \<le> now \<or> dtMaxRedemptions t \<le> dtRedemptions t then (Inl ErrTicketSpent, d)
          else (Inr (t\<lparr>dtRedemptions := dtRedemptions t + 1\<rparr>),
                d\<lparr>mdTickets := update_where (\<lambda>t. dtHash t = h) (\<lambda>t. t\<lparr>dtRedemptions := dtRedemptions t + 1\<rparr>) (mdTickets d)\<rparr>))"

definition SweepExpiredTickets :: "ms \<Rightarrow> media_db \<Rightarrow> nat \<times> media_db" where
  "SweepExpiredTickets now d =
     (length (filter (\<lambda>t. dtExpiresAtMS t \<le> now) (mdTickets d)), d\<lparr>mdTickets := delete_where (\<lambda>t. dtExpiresAtMS t \<le> now) (mdTickets d)\<rparr>)"

section \<open>What the methods do to one row\<close>

lemma Upload_update:
  assumes "\<And>u. upID (f u) = upID u"
  shows "Upload j (update_upload i f d) = map_option (\<lambda>u. if j = i then f u else u) (Upload j d)"
proof -
  have "select_one (\<lambda>u. upID u = j) (update_where (\<lambda>u. upID u = i) f us) =
      map_option (\<lambda>u. if j = i then f u else u) (select_one (\<lambda>u. upID u = j) us)" for us
    by (induction us) (auto simp: assms)
  then show ?thesis by (simp add: Upload_def update_upload_def)
qed

lemma Upload_where:
  assumes "\<And>u. upID (f u) = upID u"
  shows "select_one (\<lambda>u. upID u = j) (update_where P f us) = map_option (\<lambda>u. if P u then f u else u) (select_one (\<lambda>u. upID u = j) us)"
  by (induction us) (auto simp: assms)

lemma Upload_ReserveUpload:
  assumes "ReserveUpload fresh now u d = (Inr u', d')"
  shows "Upload j d' = (if j = upID u' then Some u' else Upload j d)"
proof -
  have "list_ex (upload_clash u') (mdUploads d) = False" "mdUploads d' = mdUploads d @ [u']"
    using assms by (auto simp: ReserveUpload_def Let_def split: if_splits)
  moreover have "select_one (\<lambda>u. upID u = upID u') us = None" if "\<not> list_ex (upload_clash u') us" for us
    using that by (auto simp: select_one_None_iff list_ex_iff upload_clash_def)
  ultimately show ?thesis by (auto simp: Upload_def select_one_append split: option.splits)
qed

lemma Upload_id: "Upload i d = Some u \<Longrightarrow> upID u = i"
  by (auto simp: Upload_def dest: select_one_SomeD)

lemma Upload_CompleteUpload:
  "CompleteUpload i staged good d = (e, d') \<Longrightarrow> Upload j d' = map_option (\<lambda>u. if j = i \<and> e = None then
     u\<lparr>upState := (if good then UploadComplete else UploadExpired), upRedemptions := upRedemptions u + 1,
       upStagedPath := (if good then Some staged else None)\<rparr> else u) (Upload j d)"
  by (auto simp: CompleteUpload_def Upload_update option.map_ident split: option.splits if_splits)

lemma Upload_DeleteUpload:
  assumes "Upload j (DeleteUpload i auth d) = Some u" "distinct (map upID (mdUploads d))"
  shows "Upload j d = Some u"
proof -
  have "select_one (\<lambda>u. upID u = j) us = Some u" if "select_one (\<lambda>u. upID u = j) (delete_where P us) = Some u" "distinct (map upID us)" for P us
    using that
  proof (induction us)
    case (Cons v us)
    then show ?case
    proof (cases "upID v = j")
      case True
      then have "select_one (\<lambda>u. upID u = j) us = None" using Cons.prems(2) by (auto simp: select_one_None_iff image_iff)
      then have "select_one (\<lambda>u. upID u = j) (delete_where P us) = None" by (simp add: select_one_None_iff)
      with Cons.prems True show ?thesis by (auto split: if_splits)
    qed (auto split: if_splits)
  qed simp
  with assms show ?thesis by (simp add: Upload_def DeleteUpload_def)
qed

lemma Upload_ConsumeUpload:
  assumes c: "ConsumeUpload i d = (e, d')"
  shows "Upload j d' = map_option (\<lambda>u. if upID u = i \<and> upState u = UploadComplete then u\<lparr>upState := UploadConsumed\<rparr> else u) (Upload j d)"
proof -
  show ?thesis
  proof (cases "list_ex (\<lambda>u. upID u = i \<and> upState u = UploadComplete) (mdUploads d)")
    case True
    with c show ?thesis by (auto simp: ConsumeUpload_def Upload_def Upload_where)
  next
    case False
    then have "map_option (\<lambda>u. if upID u = i \<and> upState u = UploadComplete then u\<lparr>upState := UploadConsumed\<rparr> else u) (Upload j d) = Upload j d"
      by (cases "Upload j d") (auto simp: Upload_def list_ex_iff dest: select_one_SomeD)
    with c False show ?thesis by (simp add: ConsumeUpload_def)
  qed
qed

lemma Upload_ExpireUploads:
  "ExpireUploads now d = (ps, d') \<Longrightarrow> Upload j d' = map_option (\<lambda>u. if upload_due now u then u\<lparr>upState := UploadExpired, upStagedPath := None\<rparr> else u) (Upload j d)"
  by (auto simp: ExpireUploads_def Upload_def Upload_where)

lemma Upload_SetUploadToken:
  "SetUploadToken i h d = Some d' \<Longrightarrow> Upload j d' = map_option (\<lambda>u. if j = i then u\<lparr>upTokenHash := h\<rparr> else u) (Upload j d)"
  by (auto simp: SetUploadToken_def Upload_update split: if_splits)

subsection \<open>Identifiers stay distinct\<close>

lemma ids_update [simp]: "(\<And>u. upID (f u) = upID u) \<Longrightarrow> map upID (update_where P f us) = map upID us"
  by (induction us) auto

lemma upload_ids_kept:
  "ReserveUpload fresh now u d = (r, d') \<Longrightarrow> distinct (map upID (mdUploads d)) \<Longrightarrow> distinct (map upID (mdUploads d'))"
  "CompleteUpload i staged good d = (e, d') \<Longrightarrow> map upID (mdUploads d') = map upID (mdUploads d)"
  "ConsumeUpload i d = (e, d') \<Longrightarrow> map upID (mdUploads d') = map upID (mdUploads d)"
  "ExpireUploads now d = (ps, d') \<Longrightarrow> map upID (mdUploads d') = map upID (mdUploads d)"
  "SetUploadToken i h d = Some d' \<Longrightarrow> map upID (mdUploads d') = map upID (mdUploads d)"
  "distinct (map upID (mdUploads d)) \<Longrightarrow> distinct (map upID (mdUploads (DeleteUpload i auth d)))"
proof -
  show "ReserveUpload fresh now u d = (r, d') \<Longrightarrow> distinct (map upID (mdUploads d)) \<Longrightarrow> distinct (map upID (mdUploads d'))"
    by (auto simp: ReserveUpload_def Let_def list_ex_iff upload_clash_def split: if_splits)
  show "distinct (map upID (mdUploads d)) \<Longrightarrow> distinct (map upID (mdUploads (DeleteUpload i auth d)))"
    by (simp add: DeleteUpload_def delete_where_def distinct_map_filter)
qed (auto simp: CompleteUpload_def ConsumeUpload_def ExpireUploads_def SetUploadToken_def update_upload_def split: option.splits if_splits)

end
