(* ===== verification/Paths.thy ===== *)
theory Paths
  imports Codec Authz Api_Errors
begin

text \<open>
  File names as the media code builds them: \<open>filepath.Clean\<close> and \<open>filepath.Join\<close> on slash-separated paths, and
  \<open>relativePathFor\<close> and \<open>Cache.Resolve\<close> of \<open>internal/media/cache.go\<close> on top.
\<close>

section \<open>filepath.Clean and filepath.Join\<close>

definition comps :: "string \<Rightarrow> string list" where "comps p = go_split p ''/''"

text \<open>One component: the stack holds what is kept, last first.\<close>

definition clean_step :: "bool \<Rightarrow> string list \<Rightarrow> string \<Rightarrow> string list" where
  "clean_step rooted st c =
     (if c = [] \<or> c = ''.'' then st
      else if c = ''..'' then
        (case st of [] \<Rightarrow> if rooted then [] else [c] | t # ts \<Rightarrow> if t = ''..'' then c # st else ts)
      else c # st)"

definition is_rooted :: "string \<Rightarrow> bool" where "is_rooted p \<longleftrightarrow> take 1 p = ''/''"

definition cleaned :: "string \<Rightarrow> string list" where "cleaned p = foldl (clean_step (is_rooted p)) [] (comps p)"

definition render :: "bool \<Rightarrow> string list \<Rightarrow> string" where
  "render rooted st =
     (if rooted then CHR ''/'' # join_with ''/'' (rev st) else if st = [] then ''.'' else join_with ''/'' (rev st))"

definition Clean :: "string \<Rightarrow> string" where "Clean p = (if p = [] then ''.'' else render (is_rooted p) (cleaned p))"

definition Join :: "string list \<Rightarrow> string" where
  "Join ps = (let qs = dropWhile (\<lambda>p. p = []) ps in if qs = [] then [] else Clean (join_with ''/'' qs))"

section \<open>The cache's paths\<close>

definition path_prefix :: "string \<Rightarrow> string \<Rightarrow> bool" where "path_prefix p s \<longleftrightarrow> take (length p) s = p"

definition relativePathFor :: "(string \<Rightarrow> string) \<Rightarrow> string \<Rightarrow> string" where
  "relativePathFor sha i = (let h = hex_encode (sha i) in Join [take 2 h, take 2 (drop 2 h), h])"

definition Resolve :: "string \<Rightarrow> string \<Rightarrow> string option" where
  "Resolve dir relative =
     (if relative = [] \<or> is_rooted relative then None
      else
        (let full = Join [dir, Clean relative]
         in if path_prefix (Clean dir @ ''/'') (full @ ''/'') then Some full else None))"

section \<open>Components\<close>

definition normal :: "string \<Rightarrow> bool" where "normal c \<longleftrightarrow> c \<noteq> [] \<and> CHR ''/'' \<notin> set c \<and> c \<noteq> ''.'' \<and> c \<noteq> ''..''"

lemma comps_plain: "CHR ''/'' \<notin> set c \<Longrightarrow> comps c = [c]"
  by (simp add: comps_def go_split_def split_acc_free)

lemma split_acc_two: "split_acc ''/'' acc (a @ CHR ''/'' # s) = split_acc ''/'' acc a @ split_acc ''/'' [] s"
  by (induction a arbitrary: acc) auto

lemma comps_append: "comps (a @ CHR ''/'' # s) = comps a @ comps s"
  by (simp add: comps_def go_split_def split_acc_two)

lemma comps_no_slash: "c \<in> set (comps p) \<Longrightarrow> CHR ''/'' \<notin> set c"
proof -
  have "CHR ''/'' \<notin> set acc \<Longrightarrow> list_all (\<lambda>c. CHR ''/'' \<notin> set c) (split_acc ''/'' acc p)" for acc
    by (induction p arbitrary: acc) auto
  from this [of "[]"] show "c \<in> set (comps p) \<Longrightarrow> CHR ''/'' \<notin> set c" by (simp add: comps_def go_split_def list_all_iff)
qed

lemma clean_step_normal: "list_all normal st \<Longrightarrow> CHR ''/'' \<notin> set c \<Longrightarrow> list_all normal (clean_step True st c)"
  by (cases st) (auto simp: clean_step_def normal_def)

lemma cleaned_normal: "is_rooted p \<Longrightarrow> list_all normal (cleaned p)"
proof -
  have "list_all normal st \<Longrightarrow> (\<forall>c \<in> set cs. CHR ''/'' \<notin> set c) \<Longrightarrow> list_all normal (foldl (clean_step True) st cs)" for st cs
    by (induction cs arbitrary: st) (auto simp: clean_step_normal)
  then show "is_rooted p \<Longrightarrow> list_all normal (cleaned p)" using comps_no_slash by (simp add: cleaned_def)
qed

lemma join_with_snoc: "join_with s (xs @ [y]) = (if xs = [] then y else join_with s xs @ s @ y)"
  by (induction s xs rule: join_with.induct) auto

lemma is_rooted_append: "a \<noteq> [] \<Longrightarrow> is_rooted (a @ b) = is_rooted a"
  by (cases a) (simp_all add: is_rooted_def)

lemma clean_step_plain: "normal c \<Longrightarrow> clean_step rooted st c = c # st"
  by (simp add: clean_step_def normal_def)

text \<open>A plain name is put behind a directory as it is.\<close>

lemma Join_plain:
  assumes "d \<noteq> []" "normal c"
  shows "Join [d, c] = render (is_rooted d) (c # cleaned d)"
proof -
  have "CHR ''/'' \<notin> set c" using assms(2) by (simp add: normal_def)
  then have "cleaned (d @ CHR ''/'' # c) = c # cleaned d"
    using assms by (simp add: cleaned_def comps_append comps_plain is_rooted_append clean_step_plain)
  then show ?thesis using assms by (simp add: Join_def Clean_def is_rooted_append)
qed

lemma render_inject: "render r (c # st) = render r (c' # st) \<longleftrightarrow> c = c'"
  by (simp add: render_def join_with_snoc)

lemma Join_inject: "d \<noteq> [] \<Longrightarrow> normal c \<Longrightarrow> normal c' \<Longrightarrow> Join [d, c] = Join [d, c'] \<longleftrightarrow> c = c'"
  by (simp add: Join_plain render_inject)

section \<open>Nothing outside the cache\<close>

definition dirs :: "string list \<Rightarrow> string" where "dirs cs = concat (map (\<lambda>c. c @ ''/'') cs)"

lemma dirs_join: "cs \<noteq> [] \<Longrightarrow> join_with ''/'' cs @ ''/'' = dirs cs"
  by (induction "''/''" cs rule: join_with.induct) (auto simp: dirs_def)

lemma dirs_prefix:
  "list_all normal cs \<Longrightarrow> list_all normal ds \<Longrightarrow> take (length (dirs cs)) (dirs ds) = dirs cs \<Longrightarrow> \<exists>es. ds = cs @ es"
proof (induction cs arbitrary: ds)
  case (Cons c cs)
  show ?case
  proof (cases ds)
    case Nil
    with Cons.prems(3) show ?thesis by (simp add: dirs_def)
  next
    case ds: (Cons d ds')
    have c: "CHR ''/'' \<notin> set c" "CHR ''/'' \<notin> set d" using Cons.prems(1,2) ds by (simp_all add: normal_def)
    have "dirs ds = dirs (c # cs) @ drop (length (dirs (c # cs))) (dirs ds)" using Cons.prems(3) by (metis append_take_drop_id)
    then have e: "d @ CHR ''/'' # dirs ds' = c @ CHR ''/'' # (dirs cs @ drop (length (dirs (c # cs))) (dirs ds))" by (simp add: ds dirs_def)
    from arg_cong [OF e, of "Cut CHR ''/''"] c have "d = c" "dirs ds' = dirs cs @ drop (length (dirs (c # cs))) (dirs ds)" by (simp_all add: Cut_append)
    then have "take (length (dirs cs)) (dirs ds') = dirs cs" by simp
    with Cons.IH [OF _ _ this] Cons.prems(1,2) ds \<open>d = c\<close> show ?thesis by auto
  qed
qed simp

lemma join_with_append: "xs \<noteq> [] \<Longrightarrow> ys \<noteq> [] \<Longrightarrow> join_with s (xs @ ys) = join_with s xs @ s @ join_with s ys"
  by (induction s xs rule: join_with.induct) (auto simp: neq_Nil_conv)

text \<open>C27: A stored path that is accepted names the cache directory itself or something below it by plain components:
  no \<open>..\<close> leads out of it.\<close>

theorem Resolve_stays_inside:
  assumes "is_rooted dir" "Clean dir \<noteq> ''/''" "Resolve dir relative = Some full"
  shows "full = Clean dir \<or> (\<exists>cs. list_all normal cs \<and> cs \<noteq> [] \<and> full = Clean dir @ ''/'' @ join_with ''/'' cs)"
proof -
  have ne: "dir \<noteq> []" using assms(1) by (auto simp: is_rooted_def)
  let ?p = "dir @ CHR ''/'' # Clean relative"
  have p: "is_rooted ?p" using is_rooted_append [OF ne] assms(1) by simp
  have full: "full = Join [dir, Clean relative]" "path_prefix (Clean dir @ ''/'') (full @ ''/'')"
    using assms(3) by (auto simp: Resolve_def Let_def split: if_splits)
  then have a: "full = CHR ''/'' # join_with ''/'' (rev (cleaned ?p))" using ne p by (simp add: Join_def Clean_def render_def)
  have d: "Clean dir = CHR ''/'' # join_with ''/'' (rev (cleaned dir))" using ne assms(1) by (simp add: Clean_def render_def)
  have n: "list_all normal (rev (cleaned dir))" "list_all normal (rev (cleaned ?p))"
    using cleaned_normal [OF assms(1)] cleaned_normal [OF p] by simp_all
  have D: "rev (cleaned dir) \<noteq> []" using d assms(2) by auto
  have D': "Clean dir @ ''/'' = CHR ''/'' # dirs (rev (cleaned dir))" using d dirs_join [OF D] by simp
  have P: "rev (cleaned ?p) \<noteq> []"
  proof
    assume "rev (cleaned ?p) = []"
    then have "full @ ''/'' = ''//''" using a by simp
    moreover obtain c cs where c: "rev (cleaned dir) = c # cs" using D by (metis list.exhaust)
    moreover have "c \<noteq> [] \<and> hd c \<noteq> CHR ''/''" using n(1) c by (cases c) (auto simp: normal_def)
    ultimately show False using full(2) D' by (cases c) (auto simp: path_prefix_def dirs_def)
  qed
  have "full @ ''/'' = CHR ''/'' # dirs (rev (cleaned ?p))" using a dirs_join [OF P] by simp
  then have "take (length (dirs (rev (cleaned dir)))) (dirs (rev (cleaned ?p))) = dirs (rev (cleaned dir))"
    using full(2) D' by (simp add: path_prefix_def)
  from dirs_prefix [OF n this] obtain es where es: "rev (cleaned ?p) = rev (cleaned dir) @ es" by blast
  show ?thesis
  proof (cases "es = []")
    case True
    with es a d show ?thesis by simp
  next
    case False
    have "full = Clean dir @ ''/'' @ join_with ''/'' es" using a d es join_with_append [OF D False] by simp
    moreover have "list_all normal es" using n(2) es by simp
    ultimately show ?thesis using False by blast
  qed
qed

lemma Resolve_stays_inside_witness:
  "(\<exists>full. Resolve ''/data/cache'' ''ab/../x'' = Some full \<and>
     (full = ''/data/cache'' \<or> (\<exists>cs. list_all normal cs \<and> cs \<noteq> [] \<and> full = ''/data/cache'' @ ''/'' @ join_with ''/'' cs))) \<and>
   Resolve ''/data/cache'' ''../x'' = None"
proof -
  have c: "Clean ''/data/cache'' = ''/data/cache''" "Resolve ''/data/cache'' ''ab/../x'' = Some ''/data/cache/x''" "Resolve ''/data/cache'' ''../x'' = None"
    by code_simp+
  show ?thesis using Resolve_stays_inside [of "''/data/cache''" "''ab/../x''" "''/data/cache/x''"] c by (simp add: is_rooted_def)
qed

end
