(* ===== verification/Media_Uploads.thy ===== *)
theory Media_Uploads
  imports Media_Tickets Media_Store Paths Api_Errors
begin

text \<open>
  The media handlers (\<open>internal/api/media.go\<close>, \<open>content.go\<close>): reserving an upload, filling it, sending it, dropping
  it, and redeeming a download ticket. A handler is cut where it touches shared state: what it decides from a
  read, what it writes, what it does to the staged file. Renderings that carry no decision are left out; a failed
  read or write of the disk ends a handler and is not an answer here.
\<close>

record media_env =
  mvMac :: "string \<Rightarrow> string"
  mvSha :: "string \<Rightarrow> string"
  mvLow :: "nat \<Rightarrow> nat"
  mvDetect :: "string \<Rightarrow> string"
  mvTable :: "string \<rightharpoonup> int"
  mvStaging :: string
  mvBaseURL :: string
  mvEscape :: "string \<Rightarrow> string"

definition uploadTokenLife :: ms where "uploadTokenLife = 2 * 60 * 60 * 1000"
definition downloadTokenLife :: ms where "downloadTokenLife = 15 * 60 * 1000"
definition downloadMaxRedemptions :: int where "downloadMaxRedemptions = 5"
definition defaultUploadMaxBytes :: int where "defaultUploadMaxBytes = 104857600"
definition contentSniffPrefixBytes :: nat where "contentSniffPrefixBytes = 512"

definition PrefixUpload :: string where "PrefixUpload = ''upl_''"

definition ticketRefused :: api_error where "ticketRefused = InvalidToken ''the ticket is not valid for this request''"

definition staged_path :: "media_env \<Rightarrow> string \<Rightarrow> string" where "staged_path env i = Join [mvStaging env, i]"

definition isHexDigest :: "string \<Rightarrow> bool" where
  "isHexDigest s \<longleftrightarrow> length s = 64 \<and> list_all (\<lambda>c. let n = of_char c :: nat in
     (48 \<le> n \<and> n \<le> 57) \<or> (65 \<le> n \<and> n \<le> 70) \<or> (97 \<le> n \<and> n \<le> 102)) s"

text \<open>\<open>checkIssuingAuthorization\<close>.\<close>

definition checkIssuingAuthorization :: "ns \<Rightarrow> string \<Rightarrow> string \<Rightarrow> authz_db \<Rightarrow> bool" where
  "checkIssuingAuthorization now auth required adb =
     (case AuthorizationByID auth adb of
        None \<Rightarrow> False
      | Some a \<Rightarrow> \<not> auth_revoked a \<and> \<not> (scanInt (azExpiresAtMS a) \<noteq> 0 \<and> scanInt (azExpiresAtMS a) \<le> UnixMilli now) \<and>
          required \<in> set (Fields (azScopes a)))"

section \<open>Reserving\<close>

record upload_body =
  ubFilename :: string
  ubMimeType :: string
  ubSizeBytes :: "int option"
  ubSHA256 :: string

record upload_dto =
  udUploadID :: string
  udUploadURL :: string
  udToken :: string
  udTokenAudience :: string
  udExpiresAtMS :: ms
  udState :: upload_state
  udMaxBytes :: int
  udSizeBytes :: int
  udMimeType :: string
  udSHA256 :: "string option"
  udExpiresInSeconds :: int
  udCurl :: string

definition uploadURL :: "media_env \<Rightarrow> string \<Rightarrow> string" where
  "uploadURL env i = mvBaseURL env @ ''/v1/uploads/'' @ mvEscape env i @ ''/content''"

definition uploadDTOFor :: "media_env \<Rightarrow> ns \<Rightarrow> upload \<Rightarrow> string \<Rightarrow> upload_dto" where
  "uploadDTOFor env now u token =
     (let remaining = upExpiresAtMS u * Millisecond - now in
      \<lparr>udUploadID = upID u, udUploadURL = uploadURL env (upID u), udToken = token, udTokenAudience = Audience KindUpload (upID u),
       udExpiresAtMS = upExpiresAtMS u, udState = upState u, udMaxBytes = defaultUploadMaxBytes, udSizeBytes = upSizeBytes u,
       udMimeType = upMimeType u, udSHA256 = upSHA256Declared u, udExpiresInSeconds = (if 0 < remaining then remaining div Second else 0),
       udCurl = (if token \<noteq> [] then CurlUpload (uploadURL env (upID u)) token (upMimeType u) else [])\<rparr>)"

text \<open>Everything that is checked before the table is read; the result is the cleaned name with its warnings.\<close>

definition create_check :: "media_env \<Rightarrow> int \<Rightarrow> upload_body \<Rightarrow> api_error + string \<times> string list" where
  "create_check env maxBytes b =
     (if ubFilename b = [] then Inl (MissingParameter ''filename'')
      else if ubMimeType b = [] then Inl (MissingParameter ''mime_type'')
      else case ubSizeBytes b of
        None \<Rightarrow> Inl (MissingParameter ''size_bytes'')
      | Some n \<Rightarrow>
          if n \<le> 0 then Inl (WrongTypeForField ''size_bytes'' ''a positive number of bytes'')
          else if ubSHA256 b \<noteq> [] \<and> \<not> isHexDigest (ubSHA256 b)
          then Inl (WrongTypeForField ''sha256'' ''a 64-character hex SHA-256 digest'')
          else if \<not> SupportedMIME (mvLow env) (mvTable env) (ubMimeType b) then Inl (MediaUnsupportedType (ubMimeType b))
          else if maxBytes < n then Inl (PayloadTooLarge ''the reserved upload'' maxBytes)
          else Inr (NormalizeFilename (ubFilename b)))"

definition reservation :: "media_env \<Rightarrow> ns \<Rightarrow> string \<Rightarrow> string \<Rightarrow> upload_body \<Rightarrow> string \<Rightarrow> string \<Rightarrow> string \<Rightarrow> upload" where
  "reservation env now auth key b filename i hash =
     \<lparr>upID = i, upAuthorizationID = auth, upIdempotencyKey = nullString key, upFilename = filename, upMimeType = ubMimeType b,
      upSizeBytes = scanInt (ubSizeBytes b), upSHA256Declared = nullString (to_lower (mvLow env) (ubSHA256 b)),
      upState = UploadReserved, upTokenHash = hash, upRedemptions = 0, upStagedPath = None,
      upExpiresAtMS = UnixMilli now + uploadTokenLife, upCreatedAtMS = 0\<rparr>"

text \<open>The write, after the look-up by key: a new token for the earlier reservation, or a new one.\<close>

definition create_write ::
  "media_env \<Rightarrow> ns \<Rightarrow> string \<Rightarrow> string \<Rightarrow> upload_body \<Rightarrow> string \<Rightarrow> upload option \<Rightarrow> string \<Rightarrow> string \<Rightarrow> media_db \<Rightarrow>
    upload_dto option \<times> media_db" where
  "create_write env now auth key b filename existing fresh random d =
     (case existing of
        Some u \<Rightarrow>
          (let (v, hash) = Mint (mvMac env) (mvSha env) KindUpload (upID u) random in
           case SetUploadToken (upID u) hash d of
             None \<Rightarrow> (None, d)
           | Some d' \<Rightarrow> (Some (uploadDTOFor env now u v), d'))
      | None \<Rightarrow>
          (let (v, hash) = Mint (mvMac env) (mvSha env) KindUpload fresh random in
           case ReserveUpload fresh (UnixMilli now) (reservation env now auth key b filename fresh hash) d of
             (Inl e, d') \<Rightarrow> (None, d')
           | (Inr u, d') \<Rightarrow> (Some (uploadDTOFor env now u v), d')))"

definition uploadsCreate ::
  "media_env \<Rightarrow> ns \<Rightarrow> int \<Rightarrow> string \<Rightarrow> string \<Rightarrow> upload_body \<Rightarrow> string \<Rightarrow> string \<Rightarrow> media_db \<Rightarrow>
    (api_error + upload_dto option) \<times> media_db" where
  "uploadsCreate env now maxBytes auth key b fresh random d =
     (case create_check env maxBytes b of
        Inl e \<Rightarrow> (Inl e, d)
      | Inr (filename, warnings) \<Rightarrow>
          (case create_write env now auth key b filename (UploadByIdempotencyKey auth key d) fresh random d of (r, d') \<Rightarrow> (Inr r, d')))"

section \<open>The caller's own reservations\<close>

definition ownUpload :: "string \<Rightarrow> string \<Rightarrow> media_db \<Rightarrow> api_error + upload" where
  "ownUpload auth i d =
     (case CheckIDPrefix i ''upload_id'' PrefixUpload of
        Some e \<Rightarrow> Inl e
      | None \<Rightarrow>
     (case Upload i d of
        None \<Rightarrow> Inl (NotFound ''upload'')
      | Some u \<Rightarrow> if upAuthorizationID u \<noteq> auth then Inl (NotFound ''upload'') else Inr u))"

definition uploadsGet :: "media_env \<Rightarrow> ns \<Rightarrow> string \<Rightarrow> string \<Rightarrow> media_db \<Rightarrow> api_error + upload_dto" where
  "uploadsGet env now auth i d = map_sum id (\<lambda>u. uploadDTOFor env now u []) (ownUpload auth i d)"

text \<open>\<open>uploadsDelete\<close>: the row goes, then the file that the row named when it was read.\<close>

definition unlink_staged :: "upload \<Rightarrow> (string \<rightharpoonup> string) \<Rightarrow> (string \<rightharpoonup> string)" where
  "unlink_staged u disk = (if scanString (upStagedPath u) \<noteq> [] then disk(scanString (upStagedPath u) := None) else disk)"

definition uploadsDelete ::
  "string \<Rightarrow> string \<Rightarrow> media_db \<times> (string \<rightharpoonup> string) \<Rightarrow> api_error option \<times> media_db \<times> (string \<rightharpoonup> string)" where
  "uploadsDelete auth i s =
     (case ownUpload auth i (fst s) of
        Inl e \<Rightarrow> (Some e, s)
      | Inr u \<Rightarrow> (None, DeleteUpload (upID u) auth (fst s), unlink_staged u (snd s)))"

section \<open>Filling a reservation\<close>

text \<open>Who may fill it: the checks before any byte is read.\<close>

definition put_begin :: "media_env \<Rightarrow> ns \<Rightarrow> string \<Rightarrow> string \<Rightarrow> authz_db \<Rightarrow> media_db \<Rightarrow> api_error + upload" where
  "put_begin env now i token adb d =
     (case CheckIDPrefix i ''upload_id'' PrefixUpload of
        Some e \<Rightarrow> Inl e
      | None \<Rightarrow>
          if token = [] then Inl ticketRefused
          else case Verify (mvMac env) (mvSha env) token KindUpload i of
            None \<Rightarrow> Inl ticketRefused
          | Some hash \<Rightarrow>
         (case Upload i d of
            None \<Rightarrow> Inl ticketRefused
          | Some u \<Rightarrow>
              if upTokenHash u \<noteq> hash then Inl ticketRefused
              else if upState u \<noteq> UploadReserved \<or> 1 \<le> upRedemptions u \<or> upExpiresAtMS u \<le> UnixMilli now then Inl ticketRefused
              else if \<not> checkIssuingAuthorization now (upAuthorizationID u) ScopeMessagesWrite adb then Inl ticketRefused
              else Inr u))"

datatype receipt = TooLong | Unreadable | Received string string

text \<open>The loop over the chunks of the body, which ends in an end of file or an error (\<open>fails\<close>). No more than one
  byte over the reserved size is taken.\<close>

fun receive :: "int \<Rightarrow> string \<Rightarrow> string \<Rightarrow> string list \<Rightarrow> bool \<Rightarrow> receipt" where
  "receive reserved got sniff [] fails = (if fails then Unreadable else Received got sniff)"
| "receive reserved got sniff (c # cs) fails =
     (let chunk = take (nat (reserved + 1 - int (length got))) c; got' = got @ chunk in
      if reserved < int (length got') then TooLong
      else receive reserved got'
             (if length sniff < contentSniffPrefixBytes then sniff @ take (contentSniffPrefixBytes - length sniff) chunk else sniff)
             cs fails)"

datatype put_failure =
    BodyTooLong | BodyUnreadable | BodyShort | BodyDigest | BodyType

definition put_failure_error :: "upload \<Rightarrow> nat \<Rightarrow> put_failure \<Rightarrow> api_error" where
  "put_failure_error u got f =
     (case f of
        BodyTooLong \<Rightarrow> PayloadTooLarge ''the uploaded body'' (upSizeBytes u)
      | BodyUnreadable \<Rightarrow> New CodeInvalidRequest (msg ''the uploaded body could not be read'')
      | BodyShort \<Rightarrow> withDetails CodeInvalidRequest
          [Lit ''the reservation named '', FmtD (upSizeBytes u), Lit '' bytes and the body carried '', FmtD (int got),
           Lit ''; the reservation is spent, so reserve again'']
          [''field'' \<mapsto> AnyString ''size_bytes'', ''reserved'' \<mapsto> AnyInt (upSizeBytes u), ''received'' \<mapsto> AnyInt (int got)]
      | BodyDigest \<Rightarrow> withDetails CodeInvalidRequest
          (msg ''the body's SHA-256 is not the one the reservation declared; the reservation is spent, so reserve again'')
          [''field'' \<mapsto> AnyString ''sha256'']
      | BodyType \<Rightarrow> withDetails CodeInvalidRequest
          (msg ''the body is not the content type the reservation declared; the reservation is spent, so reserve again'')
          [''field'' \<mapsto> AnyString ''mime_type'', ''declared'' \<mapsto> AnyString (upMimeType u)])"

definition verify_received :: "media_env \<Rightarrow> upload \<Rightarrow> receipt \<Rightarrow> put_failure + string" where
  "verify_received env u r =
     (case r of
        TooLong \<Rightarrow> Inl BodyTooLong
      | Unreadable \<Rightarrow> Inl BodyUnreadable
      | Received data sniff \<Rightarrow>
          if int (length data) \<noteq> upSizeBytes u then Inl BodyShort
          else if scanString (upSHA256Declared u) \<noteq> [] \<and> scanString (upSHA256Declared u) \<noteq> media_SHA256 (mvSha env) data then Inl BodyDigest
          else if ContentTypeContradicted (mvLow env) (upMimeType u) (mvDetect env sniff) then Inl BodyType
          else Inr data)"

definition put_bytes :: "media_env \<Rightarrow> upload \<Rightarrow> string list \<Rightarrow> bool \<Rightarrow> put_failure + string" where
  "put_bytes env u chunks fails = verify_received env u (receive (upSizeBytes u) [] [] chunks fails)"

datatype put_answer = PutRefused api_error | PutFilled string int string

text \<open>The rename into place, and the row. A second fill that lost the race removes the file it named.\<close>

definition put_publish :: "media_env \<Rightarrow> upload \<Rightarrow> string \<Rightarrow> (string \<rightharpoonup> string) \<Rightarrow> (string \<rightharpoonup> string)" where
  "put_publish env u data disk = disk(staged_path env (upID u) \<mapsto> data)"

definition put_complete ::
  "media_env \<Rightarrow> upload \<Rightarrow> string \<Rightarrow> media_db \<times> (string \<rightharpoonup> string) \<Rightarrow> put_answer \<times> media_db \<times> (string \<rightharpoonup> string)" where
  "put_complete env u data s =
     (case CompleteUpload (upID u) (staged_path env (upID u)) True (fst s) of
        (None, d') \<Rightarrow> (PutFilled (upID u) (int (length data)) (media_SHA256 (mvSha env) data), d', snd s)
      | (Some e, d') \<Rightarrow> (PutRefused ticketRefused, d', (snd s)(staged_path env (upID u) := None)))"

definition put_spend :: "upload \<Rightarrow> media_db \<Rightarrow> media_db" where "put_spend u d = snd (CompleteUpload (upID u) [] False d)"

definition uploadContent ::
  "media_env \<Rightarrow> ns \<Rightarrow> string \<Rightarrow> string \<Rightarrow> string list \<Rightarrow> bool \<Rightarrow> authz_db \<Rightarrow> media_db \<times> (string \<rightharpoonup> string) \<Rightarrow>
    put_answer \<times> media_db \<times> (string \<rightharpoonup> string)" where
  "uploadContent env now i token chunks fails adb s =
     (case put_begin env now i token adb (fst s) of
        Inl e \<Rightarrow> (PutRefused e, s)
      | Inr u \<Rightarrow>
     (case put_bytes env u chunks fails of
        Inl f \<Rightarrow> (PutRefused (put_failure_error u (length (concat chunks)) f), put_spend u (fst s), snd s)
      | Inr data \<Rightarrow> put_complete env u data (fst s, put_publish env u data (snd s))))"

section \<open>Sending it\<close>

definition send_read :: "string \<Rightarrow> string \<Rightarrow> media_db \<Rightarrow> api_error + upload" where
  "send_read auth i d =
     (case CheckIDPrefix i ''upload_ids'' PrefixUpload of
        Some e \<Rightarrow> Inl e
      | None \<Rightarrow>
     (case Upload i d of
        None \<Rightarrow> Inl (NotFound ''upload'')
      | Some u \<Rightarrow>
          if upAuthorizationID u \<noteq> auth then Inl (NotFound ''upload'')
          else if upState u \<noteq> UploadComplete \<or> scanString (upStagedPath u) = []
          then Inl (New CodeInvalidRequest (msg ''that upload has no verified bytes to send: reserve one, PUT the bytes, then send it; an upload can be sent once''))
          else Inr u))"

text \<open>The bytes are read, the reservation is consumed, and only then do they leave. \<open>backend\<close> is the upload to Google:
  what it refuses leaves the reservation consumed and the file in place.\<close>

definition consumeUploadForSend ::
  "(string \<Rightarrow> string \<Rightarrow> string \<Rightarrow> api_error + 'ref) \<Rightarrow> string \<Rightarrow> string \<Rightarrow> media_db \<times> (string \<rightharpoonup> string) \<Rightarrow>
    (api_error + 'ref) \<times> media_db \<times> (string \<rightharpoonup> string)" where
  "consumeUploadForSend backend auth i s =
     (case send_read auth i (fst s) of
        Inl e \<Rightarrow> (Inl e, s)
      | Inr u \<Rightarrow>
     (case snd s (scanString (upStagedPath u)) of
        None \<Rightarrow> (Inl (New CodeInvalidRequest (msg ''that upload's staged bytes are gone; reserve again'')), s)
      | Some data \<Rightarrow>
         (case ConsumeUpload (upID u) (fst s) of
            (Some e, d') \<Rightarrow>
              (Inl (New CodeInvalidRequest (msg ''that upload has already been sent; an upload can be sent once, into one conversation'')), d', snd s)
          | (None, d') \<Rightarrow>
              (case backend data (upFilename u) (upMimeType u) of
                 Inl e \<Rightarrow> (Inl e, d', snd s)
               | Inr ref \<Rightarrow> (Inr ref, d', (snd s)(scanString (upStagedPath u) := None))))))"

section \<open>Download tickets\<close>

definition download_ticket :: "ns \<Rightarrow> string \<Rightarrow> string \<Rightarrow> string \<Rightarrow> ticket" where
  "download_ticket now auth attachment hash =
     \<lparr>dtHash = hash, dtAttachmentID = attachment, dtAuthorizationID = auth, dtRedemptions = 0, dtMaxRedemptions = downloadMaxRedemptions,
      dtExpiresAtMS = UnixMilli now + downloadTokenLife, dtCreatedAtMS = 0\<rparr>"

text \<open>The ticket that \<open>attachmentsGet\<close> comes with.\<close>

definition attachments_ticket ::
  "media_env \<Rightarrow> (string \<Rightarrow> bool) \<Rightarrow> ns \<Rightarrow> string \<Rightarrow> string \<Rightarrow> string \<Rightarrow> media_db \<Rightarrow> (string option) \<times> media_db" where
  "attachments_ticket env attachments now auth attachment random d =
     (let (v, hash) = Mint (mvMac env) (mvSha env) KindDownload attachment random in
      case MintDownloadTicket attachments (UnixMilli now) (download_ticket now auth attachment hash) d of
        None \<Rightarrow> (None, d)
      | Some d' \<Rightarrow> (Some v, d'))"

text \<open>The checks of a presented download ticket, and its redemption.\<close>

definition ticket_check :: "media_env \<Rightarrow> ns \<Rightarrow> string \<Rightarrow> string \<Rightarrow> authz_db \<Rightarrow> media_db \<Rightarrow> ticket option" where
  "ticket_check env now attachment token adb d =
     (case Verify (mvMac env) (mvSha env) token KindDownload attachment of
        None \<Rightarrow> None
      | Some hash \<Rightarrow>
     (case DownloadTicketByHash hash d of
        None \<Rightarrow> None
      | Some t \<Rightarrow> if checkIssuingAuthorization now (dtAuthorizationID t) ScopeMessagesRead adb then Some t else None))"

definition ticket_redeem :: "ns \<Rightarrow> ticket \<Rightarrow> media_db \<Rightarrow> (api_error + string) \<times> media_db" where
  "ticket_redeem now t d =
     (case RedeemDownloadTicket (UnixMilli now) (dtHash t) d of
        (Inl e, d') \<Rightarrow> (Inl ticketRefused, d')
      | (Inr t', d') \<Rightarrow> (Inr (dtAuthorizationID t), d'))"

text \<open>\<open>authoriseDownload\<close>: a download ticket, or else an access token with the scope and within its request rate
  (\<open>limited\<close> gives the seconds to wait when it is not). The result is the authorization that the read is attributed to.\<close>

definition authoriseDownload ::
  "media_env \<Rightarrow> service \<Rightarrow> ns \<Rightarrow> int option \<Rightarrow> string \<Rightarrow> string \<Rightarrow> authz_db \<Rightarrow> media_db \<Rightarrow> (api_error + string) \<times> media_db" where
  "authoriseDownload env svc now limited attachment token adb d =
     (if KindOf token = Some KindDownload then
        (case ticket_check env now attachment token adb d of
           None \<Rightarrow> (Inl ticketRefused, d)
         | Some t \<Rightarrow> ticket_redeem now t d)
      else
        (case Authenticate svc now token adb of
           Inl e \<Rightarrow> (Inl (InvalidToken ''the token was refused''), d)
         | Inr a \<Rightarrow>
             if Require ScopeMessagesRead (Some a) \<noteq> None then (Inl (InsufficientScope ScopeMessagesRead), d)
             else (case limited of Some n \<Rightarrow> (Inl (RateLimited n), d) | None \<Rightarrow> (Inr (anID a), d))))"

end
