(* ===== verification/Media_Steps.thy ===== *)
theory Media_Steps
  imports Media_Uploads
begin

text \<open>
  The media handlers as one step relation. A request stops between any two accesses to the tables and the staged
  files, others run in between, and a restart drops all of them; the reads that one check makes count as one
  step. What was reserved, minted, answered, sent and served is remembered beside the state. No step expires
  reservations or sweeps tickets, because nothing in the program calls \<open>ExpireUploads\<close> or
  \<open>SweepExpiredTickets\<close>.
\<close>

section \<open>The steps\<close>

datatype media_run =
    PutHolds upload string | PutPublished upload string | PutFails upload
  | SendReads upload | SendHolds upload string | SendConsumed upload string
  | DeleteReads upload | Unlinks string
  | TicketChecked ticket string

record media_state =
  msDB :: media_db
  msDisk :: "string \<rightharpoonup> string"
  msAuthz :: authz_db
  msRuns :: "nat \<rightharpoonup> media_run"
  msReserved :: "string \<rightharpoonup> upload"
  msMinted :: "string \<rightharpoonup> string \<times> string"
  msFilled :: "(string \<times> string) list"
  msSent :: "(string \<times> string) list"
  msServed :: "(string \<times> string) list"

definition upload_id :: "string \<Rightarrow> bool" where "upload_id i \<longleftrightarrow> take 4 i = PrefixUpload \<and> CHR ''/'' \<notin> set i"

definition filled_by :: "put_answer \<Rightarrow> (string \<times> string) list" where
  "filled_by a = (case a of PutFilled i n dg \<Rightarrow> [(i, dg)] | PutRefused e \<Rightarrow> [])"

inductive media_step :: "media_env \<Rightarrow> media_state \<Rightarrow> media_state \<Rightarrow> bool" for env where
  reserves: "create_check env maxBytes b = Inr (filename, ws) \<Longrightarrow>
    create_write env now auth key b filename None fresh random (msDB st) = (Some dto, d') \<Longrightarrow>
    msReserved st fresh = None \<Longrightarrow> upload_id fresh \<Longrightarrow>
    media_step env st (st\<lparr>msDB := d', msReserved := (msReserved st)(fresh := Upload fresh d')\<rparr>)"
| retokens: "create_write env now auth key b filename (Some u) fresh random (msDB st) = (Some dto, d') \<Longrightarrow>
    media_step env st (st\<lparr>msDB := d'\<rparr>)"
| put_starts: "put_begin env now i token (msAuthz st) (msDB st) = Inr u \<Longrightarrow> put_bytes env u chunks fails = Inr data \<Longrightarrow>
    msRuns st r = None \<Longrightarrow> media_step env st (st\<lparr>msRuns := (msRuns st)(r \<mapsto> PutHolds u data)\<rparr>)"
| put_refuses: "put_begin env now i token (msAuthz st) (msDB st) = Inr u \<Longrightarrow> put_bytes env u chunks fails = Inl f \<Longrightarrow>
    msRuns st r = None \<Longrightarrow> media_step env st (st\<lparr>msRuns := (msRuns st)(r \<mapsto> PutFails u)\<rparr>)"
| put_spends: "msRuns st r = Some (PutFails u) \<Longrightarrow>
    media_step env st (st\<lparr>msDB := put_spend u (msDB st), msRuns := (msRuns st)(r := None)\<rparr>)"
| put_publishes: "msRuns st r = Some (PutHolds u data) \<Longrightarrow>
    media_step env st (st\<lparr>msDisk := put_publish env u data (msDisk st), msRuns := (msRuns st)(r \<mapsto> PutPublished u data)\<rparr>)"
| put_completes: "msRuns st r = Some (PutPublished u data) \<Longrightarrow> put_complete env u data (msDB st, msDisk st) = (ans, d', disk') \<Longrightarrow>
    media_step env st (st\<lparr>msDB := d', msDisk := disk', msFilled := filled_by ans @ msFilled st, msRuns := (msRuns st)(r := None)\<rparr>)"
| send_reads: "send_read auth i (msDB st) = Inr u \<Longrightarrow> msRuns st r = None \<Longrightarrow>
    media_step env st (st\<lparr>msRuns := (msRuns st)(r \<mapsto> SendReads u)\<rparr>)"
| send_holds: "msRuns st r = Some (SendReads u) \<Longrightarrow> msDisk st (scanString (upStagedPath u)) = Some data \<Longrightarrow>
    media_step env st (st\<lparr>msRuns := (msRuns st)(r \<mapsto> SendHolds u data)\<rparr>)"
| send_consumes: "msRuns st r = Some (SendHolds u data) \<Longrightarrow> ConsumeUpload (upID u) (msDB st) = (None, d') \<Longrightarrow>
    media_step env st (st\<lparr>msDB := d', msRuns := (msRuns st)(r \<mapsto> SendConsumed u data)\<rparr>)"
| send_sends: "msRuns st r = Some (SendConsumed u data) \<Longrightarrow>
    media_step env st (st\<lparr>msSent := (upID u, data) # msSent st, msRuns := (msRuns st)(r \<mapsto> Unlinks (scanString (upStagedPath u)))\<rparr>)"
| delete_reads: "ownUpload auth i (msDB st) = Inr u \<Longrightarrow> msRuns st r = None \<Longrightarrow>
    media_step env st (st\<lparr>msRuns := (msRuns st)(r \<mapsto> DeleteReads u)\<rparr>)"
| delete_writes: "msRuns st r = Some (DeleteReads u) \<Longrightarrow>
    media_step env st (st\<lparr>msDB := DeleteUpload (upID u) (upAuthorizationID u) (msDB st),
      msRuns := (msRuns st)(r := (if scanString (upStagedPath u) \<noteq> [] then Some (Unlinks (scanString (upStagedPath u))) else None))\<rparr>)"
| unlinks: "msRuns st r = Some (Unlinks p) \<Longrightarrow>
    media_step env st (st\<lparr>msDisk := (msDisk st)(p := None), msRuns := (msRuns st)(r := None)\<rparr>)"
| ticket_mints: "attachments_ticket env attachments now auth a random (msDB st) = (Some v, d') \<Longrightarrow> random \<noteq> [] \<Longrightarrow>
    msMinted st (HashToken (mvSha env) v) = None \<Longrightarrow>
    media_step env st (st\<lparr>msDB := d', msMinted := (msMinted st)(HashToken (mvSha env) v \<mapsto> (a, v))\<rparr>)"
| ticket_checks: "ticket_check env now a token (msAuthz st) (msDB st) = Some t \<Longrightarrow> msRuns st r = None \<Longrightarrow>
    media_step env st (st\<lparr>msRuns := (msRuns st)(r \<mapsto> TicketChecked t a)\<rparr>)"
| ticket_redeems: "msRuns st r = Some (TicketChecked t a) \<Longrightarrow> ticket_redeem now t (msDB st) = (Inr auth, d') \<Longrightarrow>
    media_step env st (st\<lparr>msDB := d', msServed := (dtHash t, a) # msServed st, msRuns := (msRuns st)(r := None)\<rparr>)"
| erases: "media_step env st (st\<lparr>msDB := (msDB st)\<lparr>mdTickets := delete_where (\<lambda>t. dtAttachmentID t \<in> gone) (mdTickets (msDB st))\<rparr>\<rparr>)"
| authz_moves: "media_step env st (st\<lparr>msAuthz := adb\<rparr>)"
| ends: "media_step env st (st\<lparr>msRuns := (msRuns st)(r := None)\<rparr>)"
| restarts: "media_step env st (st\<lparr>msRuns := Map.empty\<rparr>)"

inductive_cases media_stepE: "media_step env st st'"

definition fresh_media :: "authz_db \<Rightarrow> media_state" where
  "fresh_media adb = \<lparr>msDB = \<lparr>mdUploads = [], mdTickets = []\<rparr>, msDisk = Map.empty, msAuthz = adb, msRuns = Map.empty,
     msReserved = Map.empty, msMinted = Map.empty, msFilled = [], msSent = [], msServed = []\<rparr>"

section \<open>What was verified\<close>

definition upload_spec :: "upload \<Rightarrow> string \<times> string \<times> string \<times> int \<times> string option" where
  "upload_spec u = (upAuthorizationID u, upFilename u, upMimeType u, upSizeBytes u, upSHA256Declared u)"

definition verified :: "media_env \<Rightarrow> upload \<Rightarrow> string \<Rightarrow> bool" where
  "verified env u data \<longleftrightarrow> int (length data) = upSizeBytes u \<and>
     (scanString (upSHA256Declared u) = [] \<or> scanString (upSHA256Declared u) = media_SHA256 (mvSha env) data) \<and>
     \<not> ContentTypeContradicted (mvLow env) (upMimeType u) (mvDetect env (take contentSniffPrefixBytes data))"

lemma verified_spec: "upload_spec u = upload_spec v \<Longrightarrow> verified env u data = verified env v data"
  by (simp add: upload_spec_def verified_def)

text \<open>The loop keeps the whole body and its first 512 bytes, or refuses.\<close>

lemma receive_all:
  "receive n got (take contentSniffPrefixBytes got) cs fails = Received data sniff \<Longrightarrow>
    data = got @ concat cs \<and> sniff = take contentSniffPrefixBytes data \<and> \<not> fails"
proof (induction cs arbitrary: got)
  case (Cons c cs)
  let ?chunk = "take (nat (n + 1 - int (length got))) c"
  have fits: "\<not> n < int (length (got @ ?chunk))" using Cons.prems by (auto simp: Let_def split: if_splits)
  then have all: "?chunk = c" by (cases "int (length c) \<le> n + 1 - int (length got)") (auto split: if_splits)
  have s: "(if length (take contentSniffPrefixBytes got) < contentSniffPrefixBytes
      then take contentSniffPrefixBytes got @ take (contentSniffPrefixBytes - length (take contentSniffPrefixBytes got)) c
      else take contentSniffPrefixBytes got) = take contentSniffPrefixBytes (got @ c)"
    by (auto simp: min_def)
  have "receive n (got @ c) (take contentSniffPrefixBytes (got @ c)) cs fails = Received data sniff"
    using Cons.prems fits unfolding receive.simps Let_def all s by simp
  from Cons.IH [OF this] show ?case by simp
qed (auto split: if_splits)

lemma put_bytes_verified: "put_bytes env u chunks fails = Inr data \<Longrightarrow> verified env u data \<and> data = concat chunks"
proof -
  assume p: "put_bytes env u chunks fails = Inr data"
  then obtain sniff where r: "receive (upSizeBytes u) [] [] chunks fails = Received data sniff"
    by (auto simp: put_bytes_def verify_received_def split: receipt.splits if_splits)
  have "data = concat chunks" "sniff = take contentSniffPrefixBytes data"
    using receive_all [of "upSizeBytes u" "[]" chunks fails data sniff] r by simp_all
  with p r show ?thesis by (auto simp: put_bytes_def verify_received_def verified_def split: if_splits)
qed

end
