(* ===== verification/Media_Safety.thy ===== *)
theory Media_Safety
  imports Media_Steps
begin

text \<open>
  What the media handlers keep under every interleaving. An upload is answered as filled at most once and leaves
  for the phone at most once, with bytes that were verified against its reservation; a download ticket serves at
  most five reads, of the attachment it was minted for.
\<close>

section \<open>The invariant of the uploads\<close>

definition known :: "media_state \<Rightarrow> upload \<Rightarrow> bool" where
  "known st u \<longleftrightarrow> (\<exists>r. msReserved st (upID u) = Some r \<and> upload_spec u = upload_spec r)"

definition row_fine :: "media_env \<Rightarrow> upload \<Rightarrow> bool" where
  "row_fine env u \<longleftrightarrow> (upState u = UploadReserved \<longrightarrow> upRedemptions u = 0) \<and> (upState u \<noteq> UploadReserved \<longrightarrow> upRedemptions u = 1) \<and>
     (upStagedPath u = None \<or> upStagedPath u = Some (staged_path env (upID u)))"

definition rows_ok :: "media_env \<Rightarrow> media_state \<Rightarrow> bool" where
  "rows_ok env st \<longleftrightarrow> distinct (map upID (mdUploads (msDB st))) \<and>
     (\<forall>i u. Upload i (msDB st) = Some u \<longrightarrow> known st u \<and> row_fine env u) \<and>
     (\<forall>i r. msReserved st i = Some r \<longrightarrow> upload_id i \<and> upID r = i)"

definition file_fine :: "media_env \<Rightarrow> media_state \<Rightarrow> string \<Rightarrow> string \<Rightarrow> bool" where
  "file_fine env st p data \<longleftrightarrow> (\<exists>i r. msReserved st i = Some r \<and> p = staged_path env i \<and> verified env r data)"

definition disk_ok :: "media_env \<Rightarrow> media_state \<Rightarrow> bool" where
  "disk_ok env st \<longleftrightarrow> (\<forall>p data. msDisk st p = Some data \<longrightarrow> file_fine env st p data)"

text \<open>No row from which the upload could be sent, and none that could be filled.\<close>

definition gone :: "media_state \<Rightarrow> string \<Rightarrow> bool" where
  "gone st i \<longleftrightarrow> msReserved st i \<noteq> None \<and> (\<forall>u. Upload i (msDB st) = Some u \<longrightarrow> upState u = UploadConsumed)"

definition used :: "media_state \<Rightarrow> string \<Rightarrow> bool" where
  "used st i \<longleftrightarrow> msReserved st i \<noteq> None \<and> (\<forall>u. Upload i (msDB st) = Some u \<longrightarrow> upRedemptions u = 1)"

definition run_fine :: "media_env \<Rightarrow> media_state \<Rightarrow> media_run \<Rightarrow> bool" where
  "run_fine env st run \<longleftrightarrow>
     (case run of
        PutHolds u data \<Rightarrow> known st u \<and> verified env u data
      | PutPublished u data \<Rightarrow> known st u \<and> verified env u data
      | PutFails u \<Rightarrow> known st u
      | SendReads u \<Rightarrow> known st u \<and> upStagedPath u = Some (staged_path env (upID u))
      | SendHolds u data \<Rightarrow> known st u \<and> verified env u data
      | SendConsumed u data \<Rightarrow> known st u \<and> verified env u data \<and> gone st (upID u) \<and> upID u \<notin> fst ` set (msSent st)
      | _ \<Rightarrow> True)"

definition runs_ok :: "media_env \<Rightarrow> media_state \<Rightarrow> bool" where
  "runs_ok env st \<longleftrightarrow> (\<forall>r run. msRuns st r = Some run \<longrightarrow> run_fine env st run) \<and>
     (\<forall>r r' u u' data data'. msRuns st r = Some (SendConsumed u data) \<longrightarrow> msRuns st r' = Some (SendConsumed u' data') \<longrightarrow> upID u = upID u' \<longrightarrow> r = r')"

definition sent_ok :: "media_env \<Rightarrow> media_state \<Rightarrow> bool" where
  "sent_ok env st \<longleftrightarrow> distinct (map fst (msSent st)) \<and>
     (\<forall>i data. (i, data) \<in> set (msSent st) \<longrightarrow> gone st i \<and> (\<exists>r. msReserved st i = Some r \<and> verified env r data))"

definition filled_ok :: "media_state \<Rightarrow> bool" where
  "filled_ok st \<longleftrightarrow> distinct (map fst (msFilled st)) \<and> (\<forall>i \<in> fst ` set (msFilled st). used st i)"

definition uploads_ok :: "media_env \<Rightarrow> media_state \<Rightarrow> bool" where
  "uploads_ok env st \<longleftrightarrow> rows_ok env st \<and> disk_ok env st \<and> runs_ok env st \<and> sent_ok env st \<and> filled_ok st"

section \<open>How rows may move\<close>

text \<open>What every write does to the rows that are there: none appears without a reservation, the specification stays,
  a used reservation stays used, and one that is consumed stays consumed.\<close>

definition rows_move :: "media_env \<Rightarrow> media_db \<Rightarrow> media_db \<Rightarrow> bool" where
  "rows_move env d d' \<longleftrightarrow> distinct (map upID (mdUploads d')) \<and>
     (\<forall>i u'. Upload i d' = Some u' \<longrightarrow> (\<exists>u. Upload i d = Some u \<and> upload_spec u' = upload_spec u \<and> row_fine env u' \<and>
        (upRedemptions u = 1 \<longrightarrow> upRedemptions u' = 1) \<and> (upState u = UploadConsumed \<longrightarrow> upState u' = UploadConsumed)))"

lemma rows_move_Upload: "rows_move env d d' \<Longrightarrow> Upload i d' = Some u' \<Longrightarrow> \<exists>u. Upload i d = Some u \<and> upload_spec u' = upload_spec u \<and>
    row_fine env u' \<and> (upRedemptions u = 1 \<longrightarrow> upRedemptions u' = 1) \<and> (upState u = UploadConsumed \<longrightarrow> upState u' = UploadConsumed)"
  by (simp add: rows_move_def)

definition rows_wf :: "media_env \<Rightarrow> media_db \<Rightarrow> bool" where
  "rows_wf env d \<longleftrightarrow> distinct (map upID (mdUploads d)) \<and> (\<forall>i u. Upload i d = Some u \<longrightarrow> row_fine env u)"

lemma rows_okD: "uploads_ok env st \<Longrightarrow> rows_wf env (msDB st)"
  by (auto simp: uploads_ok_def rows_ok_def rows_wf_def)

lemma rows_moveI:
  assumes "rows_wf env d" "distinct (map upID (mdUploads d'))"
    and "\<And>i u'. Upload i d' = Some u' \<Longrightarrow> \<exists>u. Upload i d = Some u \<and> (u' = u \<or> (upload_spec u' = upload_spec u \<and> row_fine env u' \<and>
        (upRedemptions u = 1 \<longrightarrow> upRedemptions u' = 1) \<and> (upState u = UploadConsumed \<longrightarrow> upState u' = UploadConsumed)))"
  shows "rows_move env d d'"
  unfolding rows_move_def
proof (intro conjI allI impI)
  fix i u' assume "Upload i d' = Some u'"
  from assms(3) [OF this] assms(1)
  show "\<exists>u. Upload i d = Some u \<and> upload_spec u' = upload_spec u \<and> row_fine env u' \<and>
      (upRedemptions u = 1 \<longrightarrow> upRedemptions u' = 1) \<and> (upState u = UploadConsumed \<longrightarrow> upState u' = UploadConsumed)"
    by (auto simp: rows_wf_def)
qed (rule assms(2))

lemma rows_stay: "rows_wf env d \<Longrightarrow> mdUploads d' = mdUploads d \<Longrightarrow> rows_move env d d'"
  by (rule rows_moveI) (auto simp: rows_wf_def Upload_def)

lemma rows_token:
  assumes "rows_wf env d" "SetUploadToken i h d = Some d'"
  shows "rows_move env d d'"
proof (rule rows_moveI [OF assms(1)])
  fix j u' assume "Upload j d' = Some u'"
  with Upload_SetUploadToken [OF assms(2), of j] obtain u where u: "Upload j d = Some u" "u' = (if j = i then u\<lparr>upTokenHash := h\<rparr> else u)"
    by (cases "Upload j d") auto
  moreover have "row_fine env u" using assms(1) u(1) by (simp add: rows_wf_def)
  ultimately show "\<exists>u. Upload j d = Some u \<and> (u' = u \<or> (upload_spec u' = upload_spec u \<and> row_fine env u' \<and>
        (upRedemptions u = 1 \<longrightarrow> upRedemptions u' = 1) \<and> (upState u = UploadConsumed \<longrightarrow> upState u' = UploadConsumed)))"
    by (auto simp: upload_spec_def row_fine_def)
qed (use assms upload_ids_kept(5) [OF assms(2)] in \<open>simp add: rows_wf_def\<close>)

lemma complete_redemptions:
  "CompleteUpload i staged good d = (None, d') \<Longrightarrow> \<exists>u. Upload i d = Some u \<and> upState u = UploadReserved \<and> upRedemptions u < 1"
  by (auto simp: CompleteUpload_def split: option.splits if_splits)

lemma rows_complete:
  assumes "rows_wf env d" "CompleteUpload i staged good d = (e, d')" "good \<Longrightarrow> staged = staged_path env i"
  shows "rows_move env d d'"
proof (rule rows_moveI [OF assms(1)])
  fix j u' assume "Upload j d' = Some u'"
  with Upload_CompleteUpload [OF assms(2), of j] obtain u where u: "Upload j d = Some u"
    "u' = (if j = i \<and> e = None then u\<lparr>upState := (if good then UploadComplete else UploadExpired), upRedemptions := upRedemptions u + 1,
       upStagedPath := (if good then Some staged else None)\<rparr> else u)" by (cases "Upload j d") auto
  have f: "row_fine env u" "upID u = j" using assms(1) u(1) Upload_id by (auto simp: rows_wf_def)
  show "\<exists>u. Upload j d = Some u \<and> (u' = u \<or> (upload_spec u' = upload_spec u \<and> row_fine env u' \<and>
        (upRedemptions u = 1 \<longrightarrow> upRedemptions u' = 1) \<and> (upState u = UploadConsumed \<longrightarrow> upState u' = UploadConsumed)))"
  proof (cases "j = i \<and> e = None")
    case True
    with complete_redemptions [of i staged good d d'] assms(2) u(1) have "upState u = UploadReserved" "upRedemptions u < 1" by auto
    with f(1) have "upRedemptions u = 0" by (simp add: row_fine_def)
    with True u f assms(3) \<open>upState u = UploadReserved\<close> show ?thesis by (auto simp: upload_spec_def row_fine_def)
  qed (use u in auto)
qed (use assms upload_ids_kept(2) [OF assms(2)] in \<open>simp add: rows_wf_def\<close>)

lemma rows_spend: "rows_wf env d \<Longrightarrow> rows_move env d (put_spend u d)"
  using rows_complete [of env d "upID u" "[]" False] by (metis put_spend_def surjective_pairing)

lemma rows_consume:
  assumes "rows_wf env d" "ConsumeUpload i d = (e, d')"
  shows "rows_move env d d'"
proof (rule rows_moveI [OF assms(1)])
  fix j u' assume "Upload j d' = Some u'"
  with Upload_ConsumeUpload [OF assms(2), of j] obtain u where u: "Upload j d = Some u"
    "u' = (if upID u = i \<and> upState u = UploadComplete then u\<lparr>upState := UploadConsumed\<rparr> else u)"
    by (cases "Upload j d") auto
  moreover have "row_fine env u" using assms(1) u(1) by (simp add: rows_wf_def)
  ultimately show "\<exists>u. Upload j d = Some u \<and> (u' = u \<or> (upload_spec u' = upload_spec u \<and> row_fine env u' \<and>
        (upRedemptions u = 1 \<longrightarrow> upRedemptions u' = 1) \<and> (upState u = UploadConsumed \<longrightarrow> upState u' = UploadConsumed)))"
    by (auto simp: upload_spec_def row_fine_def)
qed (use assms upload_ids_kept(3) [OF assms(2)] in \<open>simp add: rows_wf_def\<close>)

lemma rows_delete:
  assumes "rows_wf env d"
  shows "rows_move env d (DeleteUpload i auth d)"
proof (rule rows_moveI [OF assms])
  have d: "distinct (map upID (mdUploads d))" using assms by (simp add: rows_wf_def)
  then show "distinct (map upID (mdUploads (DeleteUpload i auth d)))" by (rule upload_ids_kept(6))
  fix j u' assume "Upload j (DeleteUpload i auth d) = Some u'"
  from Upload_DeleteUpload [OF this d]
  show "\<exists>u. Upload j d = Some u \<and> (u' = u \<or> (upload_spec u' = upload_spec u \<and> row_fine env u' \<and>
        (upRedemptions u = 1 \<longrightarrow> upRedemptions u' = 1) \<and> (upState u = UploadConsumed \<longrightarrow> upState u' = UploadConsumed)))" by blast
qed

lemmas rows_moves = rows_stay rows_token rows_complete rows_spend rows_consume rows_delete

section \<open>The parts of a step\<close>

lemma ok_db:
  assumes "uploads_ok env st" "rows_move env (msDB st) d'"
  shows "uploads_ok env (st\<lparr>msDB := d'\<rparr>)"
proof -
  have k: "known (st\<lparr>msDB := d'\<rparr>) u = known st u" for u by (simp add: known_def)
  have g: "gone st i \<Longrightarrow> gone (st\<lparr>msDB := d'\<rparr>) i" for i using rows_move_Upload [OF assms(2)] by (fastforce simp: gone_def)
  have us: "used st i \<Longrightarrow> used (st\<lparr>msDB := d'\<rparr>) i" for i using rows_move_Upload [OF assms(2)] by (fastforce simp: used_def)
  have "known st u' \<and> row_fine env u'" if "Upload i d' = Some u'" for i u'
  proof -
    from rows_move_Upload [OF assms(2) that] obtain u where u: "Upload i (msDB st) = Some u" "upload_spec u' = upload_spec u" "row_fine env u'" by blast
    with assms(1) have "known st u" by (auto simp: uploads_ok_def rows_ok_def)
    with u Upload_id [OF u(1)] Upload_id [OF that] show ?thesis by (simp add: known_def)
  qed
  then have "rows_ok env (st\<lparr>msDB := d'\<rparr>)" using assms by (simp add: rows_ok_def k uploads_ok_def rows_move_def)
  moreover have "run_fine env st run \<Longrightarrow> run_fine env (st\<lparr>msDB := d'\<rparr>) run" for run
    by (cases run) (auto simp: run_fine_def k intro: g)
  then have "runs_ok env (st\<lparr>msDB := d'\<rparr>)" using assms(1) by (auto simp: uploads_ok_def runs_ok_def)
  moreover have "disk_ok env (st\<lparr>msDB := d'\<rparr>)" using assms(1) by (simp add: uploads_ok_def disk_ok_def file_fine_def)
  moreover have "sent_ok env (st\<lparr>msDB := d'\<rparr>)" using assms(1) g by (auto simp: uploads_ok_def sent_ok_def)
  moreover have "filled_ok (st\<lparr>msDB := d'\<rparr>)" using assms(1) us by (auto simp: uploads_ok_def filled_ok_def)
  ultimately show ?thesis by (simp add: uploads_ok_def)
qed

lemma ok_disk:
  assumes "uploads_ok env st" "\<And>p data. disk' p = Some data \<Longrightarrow> file_fine env st p data"
  shows "uploads_ok env (st\<lparr>msDisk := disk'\<rparr>)"
proof -
  have "run_fine env (st\<lparr>msDisk := disk'\<rparr>) run = run_fine env st run" for run
    by (cases run) (simp_all add: run_fine_def known_def gone_def)
  with assms show ?thesis
    by (simp add: uploads_ok_def rows_ok_def disk_ok_def runs_ok_def sent_ok_def filled_ok_def file_fine_def known_def gone_def used_def)
qed

lemma ok_runs_less:
  assumes "uploads_ok env st" "\<And>r run. runs' r = Some run \<Longrightarrow> msRuns st r = Some run"
  shows "uploads_ok env (st\<lparr>msRuns := runs'\<rparr>)"
proof -
  have "run_fine env (st\<lparr>msRuns := runs'\<rparr>) run = run_fine env st run" for run
    by (cases run) (simp_all add: run_fine_def known_def gone_def)
  moreover have "runs_ok env st" using assms(1) by (simp add: uploads_ok_def)
  ultimately have "runs_ok env (st\<lparr>msRuns := runs'\<rparr>)" using assms(2) by (simp add: runs_ok_def) blast
  with assms(1) show ?thesis
    by (simp add: uploads_ok_def rows_ok_def disk_ok_def sent_ok_def filled_ok_def file_fine_def known_def gone_def used_def)
qed

lemma ok_run:
  assumes "uploads_ok env st" "run_fine env st run"
    and "\<And>u data r' u' data'. run = SendConsumed u data \<Longrightarrow> msRuns st r' = Some (SendConsumed u' data') \<Longrightarrow> upID u \<noteq> upID u'"
  shows "uploads_ok env (st\<lparr>msRuns := (msRuns st)(r \<mapsto> run)\<rparr>)"
proof -
  have f: "run_fine env (st\<lparr>msRuns := (msRuns st)(r \<mapsto> run)\<rparr>) x = run_fine env st x" for x
    by (cases x) (simp_all add: run_fine_def known_def gone_def)
  have o: "runs_ok env st" using assms(1) by (simp add: uploads_ok_def)
  have "runs_ok env (st\<lparr>msRuns := (msRuns st)(r \<mapsto> run)\<rparr>)"
    unfolding runs_ok_def f
  proof (intro conjI allI impI)
    fix q x assume "msRuns (st\<lparr>msRuns := (msRuns st)(r \<mapsto> run)\<rparr>) q = Some x"
    with o assms(2) show "run_fine env st x" by (auto simp: runs_ok_def split: if_splits)
  next
    fix q q' u u' data data'
    assume "msRuns (st\<lparr>msRuns := (msRuns st)(r \<mapsto> run)\<rparr>) q = Some (SendConsumed u data)"
      "msRuns (st\<lparr>msRuns := (msRuns st)(r \<mapsto> run)\<rparr>) q' = Some (SendConsumed u' data')" "upID u = upID u'"
    with o assms(3) show "q = q'" by (simp add: runs_ok_def split: if_splits) metis+
  qed
  with assms(1) show ?thesis
    by (simp add: uploads_ok_def rows_ok_def disk_ok_def sent_ok_def filled_ok_def file_fine_def known_def gone_def used_def)
qed

lemma ok_elsewhere [simp]:
  "uploads_ok env (st\<lparr>msAuthz := adb\<rparr>) = uploads_ok env st"
  "uploads_ok env (st\<lparr>msMinted := m\<rparr>) = uploads_ok env st"
  "uploads_ok env (st\<lparr>msServed := l\<rparr>) = uploads_ok env st"
proof -
  have "run_fine env (st\<lparr>msAuthz := adb\<rparr>) run = run_fine env st run" "run_fine env (st\<lparr>msMinted := m\<rparr>) run = run_fine env st run"
    "run_fine env (st\<lparr>msServed := l\<rparr>) run = run_fine env st run" for run
    by (cases run; simp add: run_fine_def known_def gone_def)+
  then show "uploads_ok env (st\<lparr>msAuthz := adb\<rparr>) = uploads_ok env st" "uploads_ok env (st\<lparr>msMinted := m\<rparr>) = uploads_ok env st"
    "uploads_ok env (st\<lparr>msServed := l\<rparr>) = uploads_ok env st"
    by (simp_all add: uploads_ok_def rows_ok_def disk_ok_def runs_ok_def sent_ok_def filled_ok_def file_fine_def known_def gone_def used_def)
qed

lemma ok_filled:
  assumes "uploads_ok env st" "used st i" "i \<notin> fst ` set (msFilled st)"
  shows "uploads_ok env (st\<lparr>msFilled := (i, dg) # msFilled st\<rparr>)"
proof -
  have "run_fine env (st\<lparr>msFilled := (i, dg) # msFilled st\<rparr>) run = run_fine env st run" for run
    by (cases run) (simp_all add: run_fine_def known_def gone_def)
  with assms show ?thesis
    by (simp add: uploads_ok_def rows_ok_def disk_ok_def runs_ok_def sent_ok_def filled_ok_def file_fine_def known_def gone_def used_def)
qed

lemma ok_sent:
  assumes "uploads_ok env st" "gone st i" "i \<notin> fst ` set (msSent st)" "msReserved st i = Some r" "verified env r data"
    and "\<And>q u data'. msRuns st q = Some (SendConsumed u data') \<Longrightarrow> upID u \<noteq> i"
  shows "uploads_ok env (st\<lparr>msSent := (i, data) # msSent st\<rparr>)"
proof -
  let ?st = "st\<lparr>msSent := (i, data) # msSent st\<rparr>"
  have "run_fine env ?st run" if "msRuns st q = Some run" for q run
  proof -
    have "run_fine env st run" using assms(1) that by (auto simp: uploads_ok_def runs_ok_def)
    with assms(6) that show ?thesis by (cases run) (auto simp: run_fine_def known_def gone_def)
  qed
  then have "runs_ok env ?st" using assms(1) by (auto simp: uploads_ok_def runs_ok_def)
  moreover have "sent_ok env ?st" using assms by (auto simp: uploads_ok_def sent_ok_def gone_def)
  ultimately show ?thesis using assms(1)
    by (simp add: uploads_ok_def rows_ok_def disk_ok_def filled_ok_def file_fine_def known_def gone_def used_def)
qed

section \<open>Every step\<close>

lemma created_row:
  assumes "create_write env now auth key b filename None fresh random d = (Some dto, d')" "upload_id fresh" "rows_wf env d" "Upload fresh d = None"
  shows "\<exists>u. Upload fresh d' = Some u \<and> upID u = fresh \<and> row_fine env u \<and> distinct (map upID (mdUploads d')) \<and>
    (\<forall>j. j \<noteq> fresh \<longrightarrow> Upload j d' = Upload j d)"
proof -
  obtain hash u where r: "ReserveUpload fresh (UnixMilli now) (reservation env now auth key b filename fresh hash) d = (Inr u, d')"
    using assms(1) by (auto simp: create_write_def Let_def split: prod.splits sum.splits)
  have u: "upID u = fresh" "row_fine env u" using r assms(2)
    by (auto simp: ReserveUpload_def Let_def reservation_def row_fine_def upload_id_def PrefixUpload_def split: if_splits)
  have "distinct (map upID (mdUploads d'))" using upload_ids_kept(1) [OF r] assms(3) by (simp add: rows_wf_def)
  with u Upload_ReserveUpload [OF r] show ?thesis by auto
qed

lemma ok_reserves:
  assumes "uploads_ok env st" "create_write env now auth key b filename None fresh random (msDB st) = (Some dto, d')"
    "msReserved st fresh = None" "upload_id fresh"
  shows "uploads_ok env (st\<lparr>msDB := d', msReserved := (msReserved st)(fresh := Upload fresh d')\<rparr>)"
proof -
  let ?st = "st\<lparr>msDB := d', msReserved := (msReserved st)(fresh := Upload fresh d')\<rparr>"
  have none: "Upload fresh (msDB st) = None"
  proof (cases "Upload fresh (msDB st)")
    case (Some u)
    then have "known st u" "upID u = fresh" using assms(1) Upload_id by (auto simp: uploads_ok_def rows_ok_def)
    with assms(3) show ?thesis by (simp add: known_def)
  qed
  from created_row [OF assms(2,4) rows_okD [OF assms(1)] none] obtain u where
    u: "Upload fresh d' = Some u" "upID u = fresh" "row_fine env u" "distinct (map upID (mdUploads d'))" "\<And>j. j \<noteq> fresh \<Longrightarrow> Upload j d' = Upload j (msDB st)" by blast
  have k: "known st v \<Longrightarrow> known ?st v" for v using assms(3) by (auto simp: known_def)
  have g: "gone st i \<Longrightarrow> gone ?st i" for i using assms(3) u by (auto simp: gone_def)
  have us: "used st i \<Longrightarrow> used ?st i" for i using assms(3) u by (auto simp: used_def)
  have keep: "msReserved st i = Some r \<Longrightarrow> msReserved ?st i = Some r" for i r using assms(3) by auto
  have f: "file_fine env st p data \<Longrightarrow> file_fine env ?st p data" for p data unfolding file_fine_def using keep by metis
  have ru: "run_fine env st run \<Longrightarrow> run_fine env ?st run" for run by (cases run) (auto simp: run_fine_def intro: k g)
  have "known ?st v \<and> row_fine env v" if "Upload i d' = Some v" for i v
  proof (cases "i = fresh")
    case True
    with that u show ?thesis by (simp add: known_def)
  next
    case False
    with that u(5) have "Upload i (msDB st) = Some v" by simp
    with assms(1) k show ?thesis by (auto simp: uploads_ok_def rows_ok_def)
  qed
  then have "rows_ok env ?st" using assms(1,4) u by (auto simp: rows_ok_def uploads_ok_def)
  moreover have "disk_ok env ?st" using assms(1) f by (simp add: uploads_ok_def disk_ok_def)
  moreover have "runs_ok env ?st" using assms(1) ru by (simp add: uploads_ok_def runs_ok_def)
  moreover have "gone ?st i \<and> (\<exists>r. msReserved ?st i = Some r \<and> verified env r data)" if "(i, data) \<in> set (msSent st)" for i data
  proof -
    from assms(1) that obtain r where "gone st i" "msReserved st i = Some r" "verified env r data"
      by (auto simp: uploads_ok_def sent_ok_def)
    with g keep show ?thesis by blast
  qed
  then have "sent_ok env ?st" using assms(1) by (simp add: uploads_ok_def sent_ok_def)
  moreover have "filled_ok ?st" using assms(1) us by (simp add: uploads_ok_def filled_ok_def)
  ultimately show ?thesis by (simp add: uploads_ok_def)
qed

lemma upload_id_normal: "upload_id i \<Longrightarrow> normal i"
  by (auto simp: upload_id_def normal_def PrefixUpload_def)

lemma staged_path_inject:
  "mvStaging env \<noteq> [] \<Longrightarrow> upload_id i \<Longrightarrow> upload_id j \<Longrightarrow> staged_path env i = staged_path env j \<longleftrightarrow> i = j"
  unfolding staged_path_def by (rule Join_inject) (auto intro: upload_id_normal)

lemma read_row:
  assumes "uploads_ok env st" "Upload i (msDB st) = Some u"
  shows "known st u" "row_fine env u" "upID u = i"
  using assms Upload_id by (auto simp: uploads_ok_def rows_ok_def)

lemma ok_put_complete:
  assumes "uploads_ok env st" "known st u" "put_complete env u data (msDB st, msDisk st) = (ans, d', disk')"
  shows "uploads_ok env (st\<lparr>msDB := d', msDisk := disk', msFilled := filled_by ans @ msFilled st\<rparr>)"
proof -
  obtain e where c: "CompleteUpload (upID u) (staged_path env (upID u)) True (msDB st) = (e, d')"
    using assms(3) by (auto simp: put_complete_def split: prod.splits option.splits)
  have db: "uploads_ok env (st\<lparr>msDB := d'\<rparr>)" by (rule ok_db [OF assms(1) rows_complete [OF rows_okD [OF assms(1)] c]]) simp
  show ?thesis
  proof (cases e)
    case None
    with c assms(3) have a: "ans = PutFilled (upID u) (int (length data)) (media_SHA256 (mvSha env) data)" "disk' = msDisk st"
      by (auto simp: put_complete_def)
    from complete_redemptions c None obtain v where v: "Upload (upID u) (msDB st) = Some v" "upState v = UploadReserved" "upRedemptions v < 1" by blast
    have "upRedemptions v = 0" using read_row(2) [OF assms(1) v(1)] v(2) by (simp add: row_fine_def)
    with Upload_CompleteUpload [OF c] v(1) None have "used (st\<lparr>msDB := d'\<rparr>) (upID u)" using assms(2) by (auto simp: used_def known_def)
    moreover have "upID u \<notin> fst ` set (msFilled st)" using assms(1) v by (auto simp: uploads_ok_def filled_ok_def used_def)
    ultimately show ?thesis using ok_filled [OF db, of "upID u"] a by (simp add: filled_by_def)
  next
    case (Some x)
    with c assms(3) have a: "ans = PutRefused ticketRefused" "disk' = (msDisk st)(staged_path env (upID u) := None)"
      by (auto simp: put_complete_def)
    have "file_fine env (st\<lparr>msDB := d'\<rparr>) p x" if "disk' p = Some x" for p x
      using assms(1) that by (auto simp: a uploads_ok_def disk_ok_def file_fine_def split: if_splits)
    then have "uploads_ok env (st\<lparr>msDB := d', msDisk := disk'\<rparr>)" using ok_disk [OF db] by blast
    moreover have "st\<lparr>msDB := d', msDisk := disk', msFilled := filled_by ans @ msFilled st\<rparr> = st\<lparr>msDB := d', msDisk := disk'\<rparr>"
      by (cases st) (simp add: a(1) filled_by_def)
    ultimately show ?thesis by (simp only:)
  qed
qed

lemma tickets_only:
  "attachments_ticket env atts now auth a random d = (Some v, d') \<Longrightarrow> mdUploads d' = mdUploads d"
  "ticket_redeem now t d = (Inr auth, d') \<Longrightarrow> mdUploads d' = mdUploads d"
  by (auto simp: attachments_ticket_def MintDownloadTicket_def ticket_redeem_def RedeemDownloadTicket_def Let_def
      split: prod.splits option.splits if_splits sum.splits)

lemma known_verified: "known st u \<Longrightarrow> verified env u data \<Longrightarrow> \<exists>r. msReserved st (upID u) = Some r \<and> verified env r data"
  by (metis known_def verified_spec)

lemma run_of: "uploads_ok env st \<Longrightarrow> msRuns st r = Some run \<Longrightarrow> run_fine env st run"
  by (simp add: uploads_ok_def runs_ok_def)

lemma begun: "put_begin env now i token adb d = Inr u \<Longrightarrow> Upload i d = Some u"
  by (auto simp: put_begin_def split: if_splits option.splits)

lemma send_readD: "send_read auth i d = Inr u \<Longrightarrow> Upload i d = Some u \<and> upState u = UploadComplete \<and> scanString (upStagedPath u) \<noteq> []"
  by (auto simp: send_read_def split: if_splits option.splits)

lemma ownUploadD: "ownUpload auth i d = Inr u \<Longrightarrow> Upload i d = Some u \<and> upAuthorizationID u = auth"
  by (auto simp: ownUpload_def split: if_splits option.splits)

lemma ok_consumes:
  assumes "uploads_ok env st" "msRuns st r = Some (SendHolds u data)" "ConsumeUpload (upID u) (msDB st) = (None, d')"
  shows "uploads_ok env (st\<lparr>msDB := d', msRuns := (msRuns st)(r \<mapsto> SendConsumed u data)\<rparr>)"
proof -
  have db: "uploads_ok env (st\<lparr>msDB := d'\<rparr>)" by (rule ok_db [OF assms(1) rows_consume [OF rows_okD [OF assms(1)] assms(3)]])
  have f: "known st u" "verified env u data" using run_of [OF assms(1,2)] by (simp_all add: run_fine_def)
  obtain w where w: "w \<in> set (mdUploads (msDB st))" "upID w = upID u" "upState w = UploadComplete"
    using assms(3) by (auto simp: ConsumeUpload_def list_ex_iff split: if_splits)
  have dist: "distinct (map upID (mdUploads (msDB st)))" using assms(1) by (simp add: uploads_ok_def rows_ok_def)
  have up: "Upload (upID u) (msDB st) = Some w"
    using select_key_unique [OF dist w(1)] w(2) by (simp add: Upload_def)
  have fresh: "\<not> gone st (upID u)" using up w(3) by (simp add: gone_def)
  have "Upload (upID u) d' = Some (w\<lparr>upState := UploadConsumed\<rparr>)" using Upload_ConsumeUpload [OF assms(3), of "upID u"] up w by simp
  then have g: "gone (st\<lparr>msDB := d'\<rparr>) (upID u)" using f(1) by (auto simp: gone_def known_def)
  have "upID u \<notin> fst ` set (msSent st)" using assms(1) fresh by (auto simp: uploads_ok_def sent_ok_def)
  then have "run_fine env (st\<lparr>msDB := d'\<rparr>) (SendConsumed u data)" using f g by (simp add: run_fine_def known_def)
  moreover have "upID u \<noteq> upID u'" if "msRuns st q = Some (SendConsumed u' x)" for q u' x
    using run_of [OF assms(1) that] fresh by (auto simp: run_fine_def)
  ultimately show ?thesis using ok_run [OF db, of "SendConsumed u data" r] by auto
qed

lemma ok_sends:
  assumes "uploads_ok env st" "msRuns st r = Some (SendConsumed u data)"
  shows "uploads_ok env (st\<lparr>msSent := (upID u, data) # msSent st, msRuns := (msRuns st)(r \<mapsto> Unlinks p)\<rparr>)"
proof -
  let ?st = "st\<lparr>msRuns := (msRuns st)(r \<mapsto> Unlinks p)\<rparr>"
  have a: "uploads_ok env ?st" by (rule ok_run [OF assms(1)]) (simp_all add: run_fine_def)
  have f: "known st u" "verified env u data" "gone st (upID u)" "upID u \<notin> fst ` set (msSent st)"
    using run_of [OF assms] by (simp_all add: run_fine_def)
  obtain ru where ru: "msReserved st (upID u) = Some ru" "verified env ru data" using known_verified [OF f(1,2)] by blast
  have other: "upID u' \<noteq> upID u" if "msRuns ?st q = Some (SendConsumed u' x)" for q u' x
  proof -
    from that have "q \<noteq> r" "msRuns st q = Some (SendConsumed u' x)" by (auto split: if_splits)
    moreover have "runs_ok env st" using assms(1) by (simp add: uploads_ok_def)
    ultimately show ?thesis using assms(2) unfolding runs_ok_def by metis
  qed
  have "uploads_ok env (?st\<lparr>msSent := (upID u, data) # msSent ?st\<rparr>)"
    by (rule ok_sent [OF a, of "upID u" ru]) (use f ru other in \<open>simp_all add: gone_def\<close>)
  then show ?thesis by (cases st) simp
qed

lemma ok_run_ends: "uploads_ok env st \<Longrightarrow> uploads_ok env (st\<lparr>msRuns := (msRuns st)(r := None)\<rparr>)"
  by (rule ok_runs_less) (auto split: if_splits)

lemma uploads_ok_step:
  assumes "media_step env st st'" "uploads_ok env st" "mvStaging env \<noteq> []"
  shows "uploads_ok env st'"
  using assms
proof (induction rule: media_step.induct)
  case (reserves maxBytes b filename ws now auth key fresh random st dto d')
  then show ?case using ok_reserves by blast
next
  case (retokens now auth key b filename u fresh random st dto d')
  then obtain hash where "SetUploadToken (upID u) hash (msDB st) = Some d'"
    by (auto simp: create_write_def Let_def split: prod.splits option.splits)
  then show ?case using ok_db rows_token rows_okD retokens.prems(1) by blast
next
  case (put_starts now i token st u chunks fails data r)
  note row = read_row [OF put_starts.prems(1) begun [OF put_starts.hyps(1)]]
  show ?case using row conjunct1 [OF put_bytes_verified [OF put_starts.hyps(2)]] by (intro ok_run [OF put_starts.prems(1)]) (simp_all add: run_fine_def)
next
  case (put_refuses now i token st u chunks fails f r)
  show ?case using read_row [OF put_refuses.prems(1) begun [OF put_refuses.hyps(1)]]
    by (intro ok_run [OF put_refuses.prems(1)]) (simp_all add: run_fine_def)
next
  case (put_spends st r u)
  have "uploads_ok env (st\<lparr>msDB := put_spend u (msDB st)\<rparr>)" by (rule ok_db [OF put_spends.prems(1) rows_spend [OF rows_okD [OF put_spends.prems(1)]]])
  from ok_run_ends [OF this, of r] show ?case by simp
next
  case (put_publishes st r u data)
  have f: "known st u" "verified env u data" using run_of [OF put_publishes.prems(1) put_publishes.hyps] by (simp_all add: run_fine_def)
  obtain ru where ru: "msReserved st (upID u) = Some ru" "verified env ru data" using known_verified [OF f(1,2)] by blast
  have "file_fine env st p x" if "put_publish env u data (msDisk st) p = Some x" for p x
    using that ru put_publishes.prems(1) by (auto simp: put_publish_def uploads_ok_def disk_ok_def file_fine_def split: if_splits)
  then have "uploads_ok env (st\<lparr>msDisk := put_publish env u data (msDisk st)\<rparr>)" by (rule ok_disk [OF put_publishes.prems(1)])
  from ok_run [OF this, of "PutPublished u data" r] f show ?case by (simp add: run_fine_def known_def)
next
  case (put_completes st r u data ans d' disk')
  have "known st u" using run_of [OF put_completes.prems(1) put_completes.hyps(1)] by (simp add: run_fine_def)
  from ok_run_ends [OF ok_put_complete [OF put_completes.prems(1) this put_completes.hyps(2)], of r]
  show ?case by simp
next
  case (send_reads auth i st u r)
  note d = send_readD [OF send_reads.hyps(1)]
  note row = read_row [OF send_reads.prems(1) conjunct1 [OF d]]
  have "upStagedPath u = Some (staged_path env (upID u))" using d row(2) by (auto simp: row_fine_def)
  with row show ?case by (intro ok_run [OF send_reads.prems(1)]) (simp_all add: run_fine_def)
next
  case (send_holds st r u data)
  have f: "known st u" "upStagedPath u = Some (staged_path env (upID u))" using run_of [OF send_holds.prems(1) send_holds.hyps(1)] by (simp_all add: run_fine_def)
  have "file_fine env st (staged_path env (upID u)) data" using send_holds.prems(1) send_holds.hyps(2) f(2) by (simp add: uploads_ok_def disk_ok_def)
  then obtain i ri where i: "msReserved st i = Some ri" "staged_path env (upID u) = staged_path env i" "verified env ri data"
    unfolding file_fine_def by blast
  obtain ru where ru: "msReserved st (upID u) = Some ru" "upload_spec u = upload_spec ru" using f(1) by (auto simp: known_def)
  have "upload_id i" "upload_id (upID u)" using send_holds.prems(1) i(1) ru(1) by (auto simp: uploads_ok_def rows_ok_def)
  with i(2) staged_path_inject [OF send_holds.prems(2)] have "i = upID u" by metis
  with i(1) ru(1) have "ri = ru" by simp
  with i(3) verified_spec [OF ru(2), of env data] have "verified env u data" by simp
  with f show ?case by (intro ok_run [OF send_holds.prems(1)]) (simp_all add: run_fine_def)
next
  case (send_consumes st r u data d')
  then show ?case using ok_consumes by blast
next
  case (send_sends st r u data)
  then show ?case using ok_sends by blast
next
  case (delete_reads auth i st u r)
  show ?case by (intro ok_run [OF delete_reads.prems(1)]) (simp_all add: run_fine_def)
next
  case (delete_writes st r u)
  have a: "uploads_ok env (st\<lparr>msDB := DeleteUpload (upID u) (upAuthorizationID u) (msDB st)\<rparr>)"
    by (rule ok_db [OF delete_writes.prems(1) rows_delete [OF rows_okD [OF delete_writes.prems(1)]]])
  show ?case
  proof (cases "scanString (upStagedPath u) = []")
    case True
    with ok_run_ends [OF a, of r] show ?thesis by simp
  next
    case False
    with ok_run [OF a, of "Unlinks (scanString (upStagedPath u))" r] show ?thesis by (simp add: run_fine_def)
  qed
next
  case (unlinks st r p)
  have "file_fine env st q x" if "((msDisk st)(p := None)) q = Some x" for q x
    using unlinks.prems(1) that by (auto simp: uploads_ok_def disk_ok_def split: if_splits)
  then have "uploads_ok env (st\<lparr>msDisk := (msDisk st)(p := None)\<rparr>)" by (rule ok_disk [OF unlinks.prems(1)])
  from ok_run_ends [OF this, of r] show ?case by simp
next
  case (ticket_mints attachments now auth a random st v d')
  have "uploads_ok env (st\<lparr>msDB := d'\<rparr>)"
    by (rule ok_db [OF ticket_mints.prems(1) rows_stay [OF rows_okD [OF ticket_mints.prems(1)] tickets_only(1) [OF ticket_mints.hyps(1)]]])
  then show ?case by simp
next
  case (ticket_checks now a token st t r)
  show ?case by (intro ok_run [OF ticket_checks.prems(1)]) (simp_all add: run_fine_def)
next
  case (ticket_redeems st r t a now auth d')
  have "uploads_ok env (st\<lparr>msDB := d'\<rparr>)"
    by (rule ok_db [OF ticket_redeems.prems(1) rows_stay [OF rows_okD [OF ticket_redeems.prems(1)] tickets_only(2) [OF ticket_redeems.hyps(2)]]])
  then have "uploads_ok env (st\<lparr>msDB := d', msServed := (dtHash t, a) # msServed st\<rparr>)" by simp
  from ok_run_ends [OF this, of r] show ?case by simp
next
  case (erases st gone)
  show ?case by (rule ok_db [OF erases.prems(1) rows_stay [OF rows_okD [OF erases.prems(1)]]]) simp
next
  case (ends st r)
  from ok_run_ends [OF ends.prems(1), of r] show ?case by simp
next
  case (restarts st)
  from ok_runs_less [OF restarts.prems(1), of Map.empty] show ?case by simp
qed simp

lemma uploads_ok_fresh: "uploads_ok env (fresh_media adb)"
  by (simp add: uploads_ok_def rows_ok_def disk_ok_def runs_ok_def sent_ok_def filled_ok_def fresh_media_def Upload_def)

lemma uploads_ok_reachable:
  "(media_step env)\<^sup>*\<^sup>* (fresh_media adb) st \<Longrightarrow> mvStaging env \<noteq> [] \<Longrightarrow> uploads_ok env st"
  by (induction rule: rtranclp_induct) (auto intro: uploads_ok_fresh uploads_ok_step)

text \<open>C7: From an empty server, whatever requests come in and however they interleave or are cut off: no upload leaves
  twice, none is answered as filled twice, and what leaves is what its reservation promised, in length, in digest
  where one was declared, and in kind of content.\<close>

theorem uploads_leave_once_and_verified:
  assumes "(media_step env)\<^sup>*\<^sup>* (fresh_media adb) st" "mvStaging env \<noteq> []"
  shows "distinct (map fst (msSent st)) \<and> distinct (map fst (msFilled st)) \<and>
    list_all (\<lambda>(i, data). \<exists>u. msReserved st i = Some u \<and> verified env u data) (msSent st)"
  using uploads_ok_reachable [OF assms] by (auto simp: uploads_ok_def sent_ok_def filled_ok_def list_all_iff)

end
