(* ===== verification/Media_Race.thy ===== *)
theory Media_Race
  imports Media_Safety
begin

text \<open>
  Two fills of one reservation. \<open>uploadContent\<close> checks the row, reads the body, renames the bytes into place and
  only then spends the redemption; the one that comes second is refused, but its bytes are already in the place of
  the first one's, and its refusal removes them. Here is what that comes to.
\<close>

section \<open>The run\<close>

lemma put_beginD:
  assumes "put_begin env now i token adb d = Inr u"
  shows "Upload i d = Some u" "upState u = UploadReserved" "\<not> 1 \<le> upRedemptions u"
  using assms by (auto simp: put_begin_def split: if_splits option.splits)

text \<open>Both have checked, read and renamed.\<close>

definition both_published :: "media_env \<Rightarrow> upload \<Rightarrow> string \<Rightarrow> string \<Rightarrow> media_state \<Rightarrow> media_state" where
  "both_published env u x y st =
     st\<lparr>msDisk := put_publish env u y (put_publish env u x (msDisk st)),
        msRuns := (msRuns st)(2 \<mapsto> PutPublished u x, 3 \<mapsto> PutPublished u y)\<rparr>"

lemma reaches_both:
  assumes b: "put_begin env now i token (msAuthz st) (msDB st) = Inr u"
    and x: "put_bytes env u xs False = Inr x" and y: "put_bytes env u ys False = Inr y"
    and free: "msRuns st 2 = None" "msRuns st 3 = None"
  shows "(media_step env)\<^sup>*\<^sup>* st (both_published env u x y st)"
proof -
  define s1 where "s1 = st\<lparr>msRuns := (msRuns st)(2 \<mapsto> PutHolds u x)\<rparr>"
  define s2 where "s2 = s1\<lparr>msRuns := (msRuns s1)(3 \<mapsto> PutHolds u y)\<rparr>"
  define s3 where "s3 = s2\<lparr>msDisk := put_publish env u x (msDisk s2), msRuns := (msRuns s2)(2 \<mapsto> PutPublished u x)\<rparr>"
  define s4 where "s4 = s3\<lparr>msDisk := put_publish env u y (msDisk s3), msRuns := (msRuns s3)(3 \<mapsto> PutPublished u y)\<rparr>"
  have "media_step env st s1" unfolding s1_def by (rule put_starts [OF b x free(1)])
  moreover have "media_step env s1 s2" unfolding s2_def by (rule put_starts [of env now i token _ u ys False y]) (simp_all add: s1_def b y free)
  moreover have "media_step env s2 s3" unfolding s3_def by (rule put_publishes) (simp add: s2_def s1_def)
  moreover have "media_step env s3 s4" unfolding s4_def by (rule put_publishes) (simp add: s3_def s2_def)
  ultimately have "(media_step env)\<^sup>*\<^sup>* st s4" by (meson converse_rtranclp_into_rtranclp rtranclp.rtrancl_refl)
  moreover have "s4 = both_published env u x y st"
    by (cases st) (auto simp: s4_def s3_def s2_def s1_def both_published_def)
  ultimately show ?thesis by simp
qed

text \<open>One fill alone. Refused before its body is read, it changes nothing. Otherwise it spends the redemption, so
  that no later fill begins, and either the body is what was reserved, the whole of it is in place, and its
  length and digest are the answer, or the reservation is expired and the disk as it was.\<close>

theorem one_fill_alone:
  assumes "uploadContent env now i token chunks fails adb (d, disk) = (ans, d', disk')"
  shows "(\<exists>e. put_begin env now i token adb d = Inl e \<and> ans = PutRefused e \<and> d' = d \<and> disk' = disk) \<or>
    (\<exists>u v. put_begin env now i token adb d = Inr u \<and> Upload i d' = Some v \<and> upRedemptions v = upRedemptions u + 1 \<and>
      (\<nexists>now' token' adb' w. put_begin env now' i token' adb' d' = Inr w) \<and>
      ((ans = PutFilled i (int (length (concat chunks))) (media_SHA256 (mvSha env) (concat chunks)) \<and> verified env u (concat chunks) \<and>
          upState v = UploadComplete \<and> disk' = disk(staged_path env i \<mapsto> concat chunks)) \<or>
       ((\<exists>e. ans = PutRefused e) \<and> upState v = UploadExpired \<and> disk' = disk)))"
proof (cases "put_begin env now i token adb d")
  case (Inl e)
  with assms show ?thesis by (simp add: uploadContent_def)
next
  case (Inr u)
  note row = put_beginD [OF Inr]
  have i: "upID u = i" by (rule Upload_id [OF row(1)])
  have later: "put_begin env now' i token' adb' d1 \<noteq> Inr w" if "Upload i d1 = Some v" "upState v \<noteq> UploadReserved" for now' token' adb' d1 w v
    using put_beginD [of env now' i token' adb' d1 w] that by auto
  have c: "CompleteUpload i p good d = (None, update_upload i (\<lambda>u. u\<lparr>upState := (if good then UploadComplete else UploadExpired),
      upRedemptions := upRedemptions u + 1, upStagedPath := (if good then Some p else None)\<rparr>) d)" for p good
    using row by (simp add: CompleteUpload_def)
  show ?thesis
  proof (cases "put_bytes env u chunks fails")
    case (Inl f)
    have "Upload i (put_spend u d) = Some (u\<lparr>upState := UploadExpired, upRedemptions := upRedemptions u + 1, upStagedPath := None\<rparr>)"
      using row(1) by (simp add: put_spend_def i c Upload_update)
    moreover have "\<exists>e. ans = PutRefused e" "d' = put_spend u d" "disk' = disk" using assms Inr Inl by (auto simp: uploadContent_def)
    ultimately show ?thesis using Inr later by fastforce
  next
    case ok: (Inr data)
    note b = put_bytes_verified [OF ok]
    have "Upload i d' = Some (u\<lparr>upState := UploadComplete, upRedemptions := upRedemptions u + 1, upStagedPath := Some (staged_path env i)\<rparr>)"
      "ans = PutFilled i (int (length data)) (media_SHA256 (mvSha env) data)" "disk' = disk(staged_path env i \<mapsto> data)"
      using assms Inr ok row(1) by (auto simp: uploadContent_def put_complete_def put_publish_def i c Upload_update)
    with Inr later b show ?thesis by fastforce
  qed
qed

text \<open>The first one completes.\<close>

definition filled_row :: "media_env \<Rightarrow> upload \<Rightarrow> upload" where
  "filled_row env u = u\<lparr>upState := UploadComplete, upRedemptions := upRedemptions u + 1, upStagedPath := Some (staged_path env (upID u))\<rparr>"

definition first_answered :: "media_env \<Rightarrow> upload \<Rightarrow> string \<Rightarrow> string \<Rightarrow> media_state \<Rightarrow> media_state" where
  "first_answered env u x y st =
     (both_published env u x y st)\<lparr>msDB := snd (CompleteUpload (upID u) (staged_path env (upID u)) True (msDB st)),
        msFilled := (upID u, media_SHA256 (mvSha env) x) # msFilled st,
        msRuns := (msRuns st)(3 \<mapsto> PutPublished u y, 2 := None)\<rparr>"

lemma completes:
  assumes "Upload i d = Some u" "upState u = UploadReserved" "\<not> 1 \<le> upRedemptions u"
  shows "CompleteUpload i p True d = (None, snd (CompleteUpload i p True d))"
    "Upload i (snd (CompleteUpload i p True d)) = Some (u\<lparr>upState := UploadComplete, upRedemptions := upRedemptions u + 1, upStagedPath := Some p\<rparr>)"
  using assms by (auto simp: CompleteUpload_def Upload_update)

lemma reaches_answer:
  assumes b: "put_begin env now i token (msAuthz st) (msDB st) = Inr u"
    and x: "put_bytes env u xs False = Inr x" and y: "put_bytes env u ys False = Inr y"
    and free: "msRuns st 2 = None" "msRuns st 3 = None"
  shows "(media_step env)\<^sup>*\<^sup>* st (first_answered env u x y st)"
    "Upload i (msDB (first_answered env u x y st)) = Some (filled_row env u)"
proof -
  note row = put_beginD [OF b]
  have i: "upID u = i" by (rule Upload_id [OF row(1)])
  note c = completes [OF row, of "staged_path env i"]
  let ?s = "both_published env u x y st"
  have "msRuns ?s 2 = Some (PutPublished u x)" by (simp add: both_published_def)
  moreover have "put_complete env u x (msDB ?s, msDisk ?s) =
      (PutFilled i (int (length x)) (media_SHA256 (mvSha env) x), snd (CompleteUpload i (staged_path env i) True (msDB st)), msDisk ?s)"
    using c(1) by (cases "CompleteUpload i (staged_path env i) True (msDB st)") (simp add: put_complete_def i both_published_def)
  ultimately have "media_step env ?s (?s\<lparr>msDB := snd (CompleteUpload i (staged_path env i) True (msDB st)), msDisk := msDisk ?s,
      msFilled := filled_by (PutFilled i (int (length x)) (media_SHA256 (mvSha env) x)) @ msFilled ?s, msRuns := (msRuns ?s)(2 := None)\<rparr>)"
    by (rule put_completes)
  moreover have "?s\<lparr>msDB := snd (CompleteUpload i (staged_path env i) True (msDB st)), msDisk := msDisk ?s,
      msFilled := filled_by (PutFilled i (int (length x)) (media_SHA256 (mvSha env) x)) @ msFilled ?s, msRuns := (msRuns ?s)(2 := None)\<rparr> =
      first_answered env u x y st"
    by (cases st) (auto simp: first_answered_def both_published_def filled_by_def i)
  ultimately show "(media_step env)\<^sup>*\<^sup>* st (first_answered env u x y st)"
    using reaches_both [OF assms] by (simp add: rtranclp.rtrancl_into_rtrancl)
  show "Upload i (msDB (first_answered env u x y st)) = Some (filled_row env u)"
    using c(2) by (simp add: first_answered_def i filled_row_def)
qed

lemma staged_nonempty: "mvStaging env \<noteq> [] \<Longrightarrow> staged_path env i \<noteq> []"
proof -
  have j: "join_with s ps \<noteq> []" if "ps \<noteq> []" "[] \<notin> set ps" for s ps using that by (induction s ps rule: join_with.induct) auto
  have fold: "[] \<notin> set st \<Longrightarrow> [] \<notin> set (foldl (clean_step r) st cs)" for r st cs
  proof (induction cs arbitrary: st)
    case (Cons c cs)
    have "[] \<notin> set (clean_step r st c)" using Cons.prems by (cases st) (auto simp: clean_step_def)
    then show ?case using Cons.IH by simp
  qed simp
  have "Clean p \<noteq> []" for p using j [of "rev (cleaned p)" "''/''"] fold [of "[]"] by (auto simp: Clean_def render_def cleaned_def)
  then show "mvStaging env \<noteq> [] \<Longrightarrow> staged_path env i \<noteq> []" by (simp add: staged_path_def Join_def)
qed

text \<open>Two fills with the same ticket, both acceptable: the one that is answered as filled, with its digest, may be
  left with a row that says so and no file, so that its bytes can never be sent.\<close>

theorem second_fill_destroys_the_first:
  assumes "put_begin env now i token (msAuthz st) (msDB st) = Inr u"
    "put_bytes env u xs False = Inr x" "put_bytes env u ys False = Inr y" "msRuns st 2 = None" "msRuns st 3 = None"
  shows "\<exists>st'. (media_step env)\<^sup>*\<^sup>* st st' \<and> msFilled st' = (i, media_SHA256 (mvSha env) x) # msFilled st \<and>
    Upload i (msDB st') = Some (filled_row env u) \<and> msDisk st' (staged_path env i) = None \<and> msRuns st' = (msRuns st)(2 := None, 3 := None)"
proof -
  note row = put_beginD [OF assms(1)]
  have i: "upID u = i" by (rule Upload_id [OF row(1)])
  let ?s = "first_answered env u x y st"
  note a = reaches_answer [OF assms]
  have "CompleteUpload i (staged_path env i) True (msDB ?s) = (Some ErrUploadState, msDB ?s)"
    using a(2) by (simp add: CompleteUpload_def filled_row_def)
  then have c: "put_complete env u y (msDB ?s, msDisk ?s) = (PutRefused ticketRefused, msDB ?s, (msDisk ?s)(staged_path env i := None))"
    by (simp add: put_complete_def i)
  have r: "msRuns ?s 3 = Some (PutPublished u y)" by (simp add: first_answered_def)
  let ?t = "?s\<lparr>msDB := msDB ?s, msDisk := (msDisk ?s)(staged_path env i := None),
      msFilled := filled_by (PutRefused ticketRefused) @ msFilled ?s, msRuns := (msRuns ?s)(3 := None)\<rparr>"
  have "(media_step env)\<^sup>*\<^sup>* st ?t" using a(1) put_completes [OF r c] by (rule rtranclp.rtrancl_into_rtrancl)
  moreover have "msRuns ?t = (msRuns st)(2 := None, 3 := None)" by (auto simp: first_answered_def)
  ultimately show ?thesis using a(2) i by (intro exI [of _ ?t]) (simp add: filled_by_def first_answered_def)
qed

lemma sends_second:
  assumes "put_begin env now i token (msAuthz st) (msDB st) = Inr u"
    "put_bytes env u xs False = Inr x" "put_bytes env u ys False = Inr y" "msRuns st 2 = None" "msRuns st 3 = None"
    "mvStaging env \<noteq> []"
  shows "\<exists>st'. (media_step env)\<^sup>*\<^sup>* st st' \<and> msFilled st' = (i, media_SHA256 (mvSha env) x) # msFilled st \<and> msSent st' = (i, y) # msSent st"
proof -
  note row = put_beginD [OF assms(1)]
  have i: "upID u = i" by (rule Upload_id [OF row(1)])
  define s where "s = first_answered env u x y st"
  define v where "v = filled_row env u"
  note a = reaches_answer [OF assms(1-5), folded s_def v_def]
  have v: "upID v = i" "upState v = UploadComplete" "scanString (upStagedPath v) = staged_path env i" "upAuthorizationID v = upAuthorizationID u"
    by (simp_all add: v_def filled_row_def i)
  have pre: "CheckIDPrefix i ''upload_ids'' PrefixUpload = None"
    using assms(1) by (auto simp: put_begin_def CheckIDPrefix_def split: if_splits option.splits)
  have ne: "staged_path env i \<noteq> []" by (rule staged_nonempty [OF assms(6)])
  have "send_read (upAuthorizationID u) i (msDB s) = Inr v" using a(2) v pre ne by (simp add: send_read_def)
  moreover have r0: "msRuns s 2 = None" by (simp add: s_def first_answered_def)
  ultimately have s1: "media_step env s (s\<lparr>msRuns := (msRuns s)(2 \<mapsto> SendReads v)\<rparr>)" by (rule send_reads)
  define p where "p = s\<lparr>msRuns := (msRuns s)(2 \<mapsto> SendReads v)\<rparr>"
  have "msDisk p (scanString (upStagedPath v)) = Some y"
    by (simp add: p_def s_def first_answered_def both_published_def put_publish_def v(3) i)
  then have s2: "media_step env p (p\<lparr>msRuns := (msRuns p)(2 \<mapsto> SendHolds v y)\<rparr>)" by (intro send_holds) (simp_all add: p_def)
  define q where "q = p\<lparr>msRuns := (msRuns p)(2 \<mapsto> SendHolds v y)\<rparr>"
  have "v \<in> set (mdUploads (msDB q))" using a(2) select_one_SomeD by (fastforce simp: q_def p_def Upload_def)
  then have "list_ex (\<lambda>w. upID w = upID v \<and> upState w = UploadComplete) (mdUploads (msDB q))" using v(2) by (auto simp: list_ex_iff)
  then obtain d' where d': "ConsumeUpload (upID v) (msDB q) = (None, d')" by (simp add: ConsumeUpload_def)
  then have s3: "media_step env q (q\<lparr>msDB := d', msRuns := (msRuns q)(2 \<mapsto> SendConsumed v y)\<rparr>)" by (intro send_consumes) (simp_all add: q_def)
  define w where "w = q\<lparr>msDB := d', msRuns := (msRuns q)(2 \<mapsto> SendConsumed v y)\<rparr>"
  have s4: "media_step env w (w\<lparr>msSent := (upID v, y) # msSent w, msRuns := (msRuns w)(2 \<mapsto> Unlinks (scanString (upStagedPath v)))\<rparr>)"
    by (rule send_sends) (simp add: w_def)
  have "(media_step env)\<^sup>*\<^sup>* st (w\<lparr>msSent := (upID v, y) # msSent w, msRuns := (msRuns w)(2 \<mapsto> Unlinks (scanString (upStagedPath v)))\<rparr>)"
    using a(1) s1 s2 s3 s4 unfolding p_def [symmetric] q_def [symmetric] w_def [symmetric] by (meson rtranclp.rtrancl_into_rtrancl)
  then show ?thesis
    by (intro exI conjI) (assumption, simp_all add: w_def q_def p_def s_def first_answered_def both_published_def v(1) i)
qed

text \<open>C40: And what is sent as that upload may be the bytes of the fill that was refused.\<close>

theorem refused_bytes_may_be_sent:
  assumes "put_begin env now i token (msAuthz st) (msDB st) = Inr u"
    "put_bytes env u xs False = Inr x" "put_bytes env u ys False = Inr y" "msRuns st 2 = None" "msRuns st 3 = None"
    "mvStaging env \<noteq> []"
  shows "\<exists>st'. (media_step env)\<^sup>*\<^sup>* st st' \<and> msFilled st' = (i, media_SHA256 (mvSha env) x) # msFilled st \<and> msSent st' = (i, y) # msSent st"
  by (rule sends_second [OF assms])

end
