(* ===== verification/Media_Example.thy ===== *)
theory Media_Example
  imports Media_Race
begin

text \<open>
  One concrete server: an authorization that may read and write messages, one reservation of a single byte, and
  the ticket for it. The witnesses of the media properties run on it.
\<close>

definition toy_env :: media_env where
  "toy_env = \<lparr>mvMac = toy_mac, mvSha = id, mvLow = id, mvDetect = (\<lambda>_. ''text/plain''), mvTable = (\<lambda>_. Some 1),
     mvStaging = ''/d/uploads'', mvBaseURL = ''https://h'', mvEscape = id\<rparr>"

definition toy_auth :: auth_row where
  "toy_auth = \<lparr>azID = ''au'', azKind = AuthKindOAuth, azClient = None, azScopes = join_words [''messages:read'', ''messages:write''], azMintedScopes = ''messages:read messages:write'',
     azSecretGeneration = None, azSource = None, azRevokedAtMS = None, azExpiresAtMS = None, azCreatedAtMS = 0, azUpdatedAtMS = 0\<rparr>"

definition toy_authz :: authz_db where
  "toy_authz = \<lparr>zdAuths = [toy_auth], zdTokens = [], zdCodes = [], zdAttempts = [], zdAudit = []\<rparr>"

definition toy_body :: upload_body where
  "toy_body = \<lparr>ubFilename = ''a'', ubMimeType = ''text/plain'', ubSizeBytes = Some 1, ubSHA256 = []\<rparr>"

definition toy_token :: string where "toy_token = fst (Mint toy_mac id KindUpload ''upl_1'' ''n'')"

definition toy_name :: string where "toy_name = fst (NormalizeFilename ''a'')"

definition toy_upload :: upload where
  "toy_upload = reservation toy_env 0 ''au'' [] toy_body toy_name ''upl_1'' (snd (Mint toy_mac id KindUpload ''upl_1'' ''n''))"

definition toy_state :: media_state where
  "toy_state = (fresh_media toy_authz)\<lparr>msDB := \<lparr>mdUploads = [toy_upload], mdTickets = []\<rparr>, msReserved := [''upl_1'' \<mapsto> toy_upload]\<rparr>"

lemma toy_fields: "mvMac toy_env = toy_mac" "mvSha toy_env = id" by (simp_all add: toy_env_def)

lemma toy_scopes: "Fields (azScopes toy_auth) = [''messages:read'', ''messages:write'']"
  using Fields_join [of "[''messages:read'', ''messages:write'']"] by (simp add: toy_auth_def ascii_word_def)

lemma toy_authorized: "checkIssuingAuthorization 0 ''au'' ScopeMessagesWrite toy_authz" "checkIssuingAuthorization 0 ''au'' ScopeMessagesRead toy_authz"
  using toy_scopes by (simp_all add: checkIssuingAuthorization_def AuthorizationByID_def toy_authz_def) (simp_all add: toy_auth_def auth_revoked_def)

lemma toy_check: "create_check toy_env 100 toy_body = Inr (toy_name, snd (NormalizeFilename ''a''))"
  by (simp add: create_check_def toy_body_def toy_name_def toy_env_def SupportedMIME_def canonicalMediaType_def Let_def)

lemma toy_reserved: "(media_step toy_env)\<^sup>*\<^sup>* (fresh_media toy_authz) toy_state"
proof -
  obtain v h where m: "Mint toy_mac id KindUpload ''upl_1'' ''n'' = (v, h)" by fastforce
  have u: "toy_upload = reservation toy_env 0 ''au'' [] toy_body toy_name ''upl_1'' h" by (simp add: toy_upload_def m)
  have c: "create_write toy_env 0 ''au'' [] toy_body toy_name None ''upl_1'' ''n'' (msDB (fresh_media toy_authz)) =
      (Some (uploadDTOFor toy_env 0 toy_upload v), \<lparr>mdUploads = [toy_upload], mdTickets = []\<rparr>)"
    by (simp add: create_write_def toy_fields m fresh_media_def ReserveUpload_def Let_def u reservation_def UnixMilli_def)
  have "upload_id ''upl_1''" by (simp add: upload_id_def PrefixUpload_def)
  from reserves [OF toy_check c _ this]
  have "media_step toy_env (fresh_media toy_authz) ((fresh_media toy_authz)\<lparr>msDB := \<lparr>mdUploads = [toy_upload], mdTickets = []\<rparr>,
      msReserved := (msReserved (fresh_media toy_authz))(''upl_1'' := Upload ''upl_1'' \<lparr>mdUploads = [toy_upload], mdTickets = []\<rparr>)\<rparr>)"
    by (simp add: fresh_media_def)
  moreover have "(fresh_media toy_authz)\<lparr>msDB := \<lparr>mdUploads = [toy_upload], mdTickets = []\<rparr>,
      msReserved := (msReserved (fresh_media toy_authz))(''upl_1'' := Upload ''upl_1'' \<lparr>mdUploads = [toy_upload], mdTickets = []\<rparr>)\<rparr> = toy_state"
    by (simp add: toy_state_def fresh_media_def Upload_def u reservation_def)
  ultimately show ?thesis by (metis r_into_rtranclp)
qed

lemma toy_begins: "put_begin toy_env 0 ''upl_1'' toy_token (msAuthz toy_state) (msDB toy_state) = Inr toy_upload"
proof -
  obtain v h where m: "Mint toy_mac id KindUpload ''upl_1'' ''n'' = (v, h)" by fastforce
  have u: "toy_upload = reservation toy_env 0 ''au'' [] toy_body toy_name ''upl_1'' h" "toy_token = v" by (simp_all add: toy_upload_def toy_token_def m)
  have "Verify toy_mac id v KindUpload ''upl_1'' = Some h" using minted_verifies [OF m] by (simp add: toy_mac_def)
  moreover have "v \<noteq> []" using m by (auto simp: Mint_def Let_def prefixFor_def UploadPrefix_def)
  ultimately show ?thesis
    using toy_authorized
    by (simp add: put_begin_def CheckIDPrefix_def PrefixUpload_def toy_state_def fresh_media_def Upload_def)
      (simp add: toy_env_def u reservation_def Upload_def UnixMilli_def uploadTokenLife_def)
qed

lemma toy_bytes: "put_bytes toy_env toy_upload [''x''] False = Inr ''x''" "put_bytes toy_env toy_upload [''y''] False = Inr ''y''"
proof -
  have u: "upSizeBytes toy_upload = 1" "scanString (upSHA256Declared toy_upload) = []" "upMimeType toy_upload = ''text/plain''"
    by (simp_all add: toy_upload_def reservation_def toy_body_def to_lower_def runes_def)
  have "\<not> ContentTypeContradicted (mvLow toy_env) ''text/plain'' (mvDetect toy_env sniff)" for sniff
    by (simp add: ContentTypeContradicted_def toy_env_def)
  then show "put_bytes toy_env toy_upload [''x''] False = Inr ''x''" "put_bytes toy_env toy_upload [''y''] False = Inr ''y''"
    by (simp_all add: put_bytes_def verify_received_def Let_def u)
qed

lemma toy_runs: "msRuns toy_state 2 = None" "msRuns toy_state 3 = None" by (simp_all add: toy_state_def fresh_media_def)

lemma second_fill_destroys_the_first_witness:
  "\<exists>st'. (media_step toy_env)\<^sup>*\<^sup>* (fresh_media toy_authz) st' \<and> msFilled st' = [(''upl_1'', hex_encode ''x'')] \<and>
    Upload ''upl_1'' (msDB st') = Some (filled_row toy_env toy_upload) \<and> msDisk st' (staged_path toy_env ''upl_1'') = None"
proof -
  have f: "msFilled toy_state = []" "media_SHA256 (mvSha toy_env) ''x'' = hex_encode ''x''"
    by (simp_all add: toy_state_def fresh_media_def media_SHA256_def toy_env_def)
  from second_fill_destroys_the_first [OF toy_begins toy_bytes toy_runs] obtain st' where st: "(media_step toy_env)\<^sup>*\<^sup>* toy_state st'"
    "msFilled st' = (''upl_1'', media_SHA256 (mvSha toy_env) ''x'') # msFilled toy_state" "Upload ''upl_1'' (msDB st') = Some (filled_row toy_env toy_upload)"
    "msDisk st' (staged_path toy_env ''upl_1'') = None" by blast
  from rtranclp_trans [OF toy_reserved st(1)] st(2,3,4) show ?thesis unfolding f by blast
qed

lemma refused_bytes_may_be_sent_witness:
  "\<exists>st'. (media_step toy_env)\<^sup>*\<^sup>* (fresh_media toy_authz) st' \<and> msFilled st' = [(''upl_1'', hex_encode ''x'')] \<and> msSent st' = [(''upl_1'', ''y'')]"
proof -
  have f: "msFilled toy_state = []" "msSent toy_state = []" "media_SHA256 (mvSha toy_env) ''x'' = hex_encode ''x''"
    by (simp_all add: toy_state_def fresh_media_def media_SHA256_def toy_env_def)
  have "mvStaging toy_env \<noteq> []" by (simp add: toy_env_def)
  from refused_bytes_may_be_sent [OF toy_begins toy_bytes toy_runs this] obtain st' where st: "(media_step toy_env)\<^sup>*\<^sup>* toy_state st'"
    "msFilled st' = (''upl_1'', media_SHA256 (mvSha toy_env) ''x'') # msFilled toy_state" "msSent st' = (''upl_1'', ''y'') # msSent toy_state" by blast
  from rtranclp_trans [OF toy_reserved st(1)] st(2,3) show ?thesis unfolding f by blast
qed

lemma toy_sent: "\<exists>st'. (media_step toy_env)\<^sup>*\<^sup>* (fresh_media toy_authz) st' \<and> msSent st' = [(''upl_1'', ''y'')]"
proof -
  have e: "msSent toy_state = []" by (simp add: toy_state_def fresh_media_def)
  have "mvStaging toy_env \<noteq> []" by (simp add: toy_env_def)
  from sends_second [OF toy_begins toy_bytes toy_runs this] obtain st' where st: "(media_step toy_env)\<^sup>*\<^sup>* toy_state st'"
    "msSent st' = (''upl_1'', ''y'') # msSent toy_state" by blast
  from rtranclp_trans [OF toy_reserved st(1)] st(2) show ?thesis unfolding e by blast
qed

lemma uploads_leave_once_and_verified_witness:
  "\<exists>st'. (media_step toy_env)\<^sup>*\<^sup>* (fresh_media toy_authz) st' \<and> msSent st' = [(''upl_1'', ''y'')] \<and>
    (\<exists>u. msReserved st' ''upl_1'' = Some u \<and> verified toy_env u ''y'')"
proof -
  from toy_sent obtain st' where st: "(media_step toy_env)\<^sup>*\<^sup>* (fresh_media toy_authz) st'" "msSent st' = [(''upl_1'', ''y'')]" by blast
  have "mvStaging toy_env \<noteq> []" by (simp add: toy_env_def)
  from uploads_leave_once_and_verified [OF st(1) this] st show ?thesis by auto
qed

lemma one_fill_alone_witness:
  "\<exists>d' disk'. uploadContent toy_env 0 ''upl_1'' toy_token [''x''] False toy_authz (msDB toy_state, Map.empty) = (PutFilled ''upl_1'' 1 (hex_encode ''x''), d', disk') \<and>
    disk' (staged_path toy_env ''upl_1'') = Some ''x''"
proof -
  obtain ans d' disk' where u: "uploadContent toy_env 0 ''upl_1'' toy_token [''x''] False toy_authz (msDB toy_state, Map.empty) = (ans, d', disk')" by (metis prod_cases3)
  have a: "msAuthz toy_state = toy_authz" by (simp add: toy_state_def fresh_media_def)
  have "\<not> (\<exists>e. ans = PutRefused e)"
    using u toy_begins [unfolded a] toy_bytes(1) put_beginD [OF toy_begins] Upload_id
    by (auto simp: uploadContent_def put_complete_def CompleteUpload_def)
  with one_fill_alone [OF u] u show ?thesis by (auto simp: media_SHA256_def toy_env_def)
qed

end
