(* ===== verification/Media_Downloads.thy ===== *)
theory Media_Downloads
  imports Media_Example
begin

text \<open>
  Download tickets under every interleaving: at most five reads each, of the attachment it was minted for; and a
  ticket whose issuer may no longer read is refused without being spent.
\<close>

section \<open>The invariant\<close>

lemma ByHash: "DownloadTicketByHash h d = Some t \<Longrightarrow> t \<in> set (mdTickets d) \<and> dtHash t = h"
  by (auto simp: DownloadTicketByHash_def dest: select_one_SomeD)

definition served :: "media_state \<Rightarrow> string \<Rightarrow> int" where
  "served st h = int (length (filter (\<lambda>x. fst x = h) (msServed st)))"

definition opens :: "media_env \<Rightarrow> string \<Rightarrow> string \<Rightarrow> bool" where
  "opens env h a \<longleftrightarrow> (\<exists>token. Verify (mvMac env) (mvSha env) token KindDownload a = Some h)"

definition ticket_fine :: "media_state \<Rightarrow> ticket \<Rightarrow> bool" where
  "ticket_fine st t \<longleftrightarrow> served st (dtHash t) \<le> dtRedemptions t \<and> dtRedemptions t \<le> 5 \<and> dtMaxRedemptions t = 5 \<and> msMinted st (dtHash t) \<noteq> None"

definition tickets_ok :: "media_env \<Rightarrow> media_state \<Rightarrow> bool" where
  "tickets_ok env st \<longleftrightarrow> distinct (map dtHash (mdTickets (msDB st))) \<and> list_all (ticket_fine st) (mdTickets (msDB st)) \<and>
     (\<forall>h. served st h \<le> 5 \<and> (msMinted st h = None \<longrightarrow> served st h = 0)) \<and>
     list_all (\<lambda>(h, a). opens env h a) (msServed st) \<and>
     (\<forall>r t a. msRuns st r = Some (TicketChecked t a) \<longrightarrow> opens env (dtHash t) a) \<and>
     (\<forall>h a v. msMinted st h = Some (a, v) \<longrightarrow> Verify (mvMac env) (mvSha env) v KindDownload a = Some h)"

lemma tickets_ok_fresh: "tickets_ok env (fresh_media adb)"
  by (simp add: tickets_ok_def fresh_media_def served_def)

text \<open>A step that leaves the tickets, what was served and what was minted alone, and whose new runs are no checked
  tickets.\<close>

lemma tickets_untouched:
  assumes "tickets_ok env st" "mdTickets (msDB st') = mdTickets (msDB st)" "msServed st' = msServed st" "msMinted st' = msMinted st"
    and "\<And>r t a. msRuns st' r = Some (TicketChecked t a) \<Longrightarrow> msRuns st r = Some (TicketChecked t a)"
  shows "tickets_ok env st'"
proof -
  have "ticket_fine st' t = ticket_fine st t" for t using assms(3,4) by (simp add: ticket_fine_def served_def)
  then have "list_all (ticket_fine st') (mdTickets (msDB st'))" using assms(1,2) by (simp add: tickets_ok_def list_all_iff)
  moreover have "served st' h = served st h" for h using assms(3) by (simp add: served_def)
  ultimately show ?thesis using assms unfolding tickets_ok_def by metis
qed

lemma upload_methods_keep_tickets:
  "create_write env now auth key b filename ex fresh random d = (r, d') \<Longrightarrow> mdTickets d' = mdTickets d"
  "mdTickets (put_spend u d) = mdTickets d"
  "put_complete env u data (d, disk) = (ans, d', disk') \<Longrightarrow> mdTickets d' = mdTickets d"
  "ConsumeUpload i d = (e, d') \<Longrightarrow> mdTickets d' = mdTickets d"
  "mdTickets (DeleteUpload i auth d) = mdTickets d"
proof -
  have c: "CompleteUpload i p good d = (e, d') \<Longrightarrow> mdTickets d' = mdTickets d" for i p good e d'
    by (auto simp: CompleteUpload_def update_upload_def split: option.splits if_splits)
  from c show "mdTickets (put_spend u d) = mdTickets d" by (metis put_spend_def surjective_pairing)
  show "put_complete env u data (d, disk) = (ans, d', disk') \<Longrightarrow> mdTickets d' = mdTickets d"
    by (auto simp: put_complete_def split: prod.splits option.splits dest: c)
  show "create_write env now auth key b filename ex fresh random d = (r, d') \<Longrightarrow> mdTickets d' = mdTickets d"
    by (auto simp: create_write_def SetUploadToken_def update_upload_def ReserveUpload_def Let_def split: option.splits prod.splits if_splits sum.splits)
  show "ConsumeUpload i d = (e, d') \<Longrightarrow> mdTickets d' = mdTickets d" by (auto simp: ConsumeUpload_def split: if_splits)
  show "mdTickets (DeleteUpload i auth d) = mdTickets d" by (simp add: DeleteUpload_def)
qed

lemma minted:
  assumes "attachments_ticket env attachments now auth a random d = (Some v, d')"
  shows "\<exists>h t. Mint (mvMac env) (mvSha env) KindDownload a random = (v, h) \<and> mdTickets d' = mdTickets d @ [t] \<and> dtHash t = h \<and>
    dtRedemptions t = 0 \<and> dtMaxRedemptions t = 5 \<and> h \<notin> dtHash ` set (mdTickets d)"
  using assms by (auto simp: attachments_ticket_def MintDownloadTicket_def download_ticket_def downloadMaxRedemptions_def Let_def list_ex_iff
      split: prod.splits option.splits if_splits)

lemma tickets_ok_mints:
  assumes "tickets_ok env st" "attachments_ticket env attachments now auth a random (msDB st) = (Some v, d')" "random \<noteq> []"
    "msMinted st (HashToken (mvSha env) v) = None" "\<And>x. mvMac env x \<noteq> []"
  shows "tickets_ok env (st\<lparr>msDB := d', msMinted := (msMinted st)(HashToken (mvSha env) v \<mapsto> (a, v))\<rparr>)"
proof -
  let ?st = "st\<lparr>msDB := d', msMinted := (msMinted st)(HashToken (mvSha env) v \<mapsto> (a, v))\<rparr>"
  from minted [OF assms(2)] obtain h t where m: "Mint (mvMac env) (mvSha env) KindDownload a random = (v, h)"
    "mdTickets d' = mdTickets (msDB st) @ [t]" "dtHash t = h" "dtRedemptions t = 0" "dtMaxRedemptions t = 5" "h \<notin> dtHash ` set (mdTickets (msDB st))" by blast
  have h: "HashToken (mvSha env) v = h" using m(1) by (auto simp: Mint_def Let_def)
  have vf: "Verify (mvMac env) (mvSha env) v KindDownload a = Some h" using minted_verifies [OF m(1) assms(3,5)] .
  have s: "served (st\<lparr>msDB := d1, msMinted := m1\<rparr>) x = served st x" for x d1 m1 by (simp add: served_def)
  have "served st h = 0" using assms(1,4) h by (simp add: tickets_ok_def)
  then have "ticket_fine ?st t" using m h by (simp add: ticket_fine_def s)
  moreover have "ticket_fine st x \<Longrightarrow> ticket_fine ?st x" for x by (simp add: ticket_fine_def s)
  ultimately have "list_all (ticket_fine ?st) (mdTickets (msDB ?st))" using assms(1) m(2) by (simp add: tickets_ok_def list_all_iff)
  moreover have "distinct (map dtHash (mdTickets (msDB ?st)))" using assms(1) m by (simp add: tickets_ok_def)
  ultimately show ?thesis using assms(1) vf h by (auto simp: tickets_ok_def s)
qed

lemma tickets_ok_redeems:
  assumes "tickets_ok env st" "msRuns st r = Some (TicketChecked t a)" "ticket_redeem now t (msDB st) = (Inr auth, d')"
  shows "tickets_ok env (st\<lparr>msDB := d', msServed := (dtHash t, a) # msServed st, msRuns := (msRuns st)(r := None)\<rparr>)"
proof -
  let ?h = "dtHash t"
  let ?st = "st\<lparr>msDB := d', msServed := (?h, a) # msServed st, msRuns := (msRuns st)(r := None)\<rparr>"
  from assms(3) obtain w where w: "DownloadTicketByHash ?h (msDB st) = Some w" "dtRedemptions w < dtMaxRedemptions w"
    "mdTickets d' = update_where (\<lambda>x. dtHash x = ?h) (\<lambda>x. x\<lparr>dtRedemptions := dtRedemptions x + 1\<rparr>) (mdTickets (msDB st))"
    by (auto simp: ticket_redeem_def RedeemDownloadTicket_def split: option.splits if_splits)
  have wm: "w \<in> set (mdTickets (msDB st))" "dtHash w = ?h" using ByHash [OF w(1)] by simp_all
  then have wf: "ticket_fine st w" using assms(1) by (simp add: tickets_ok_def list_all_iff)
  have same: "x = w" if "x \<in> set (mdTickets (msDB st))" "dtHash x = ?h" for x
    using assms(1) that wm by (auto simp: tickets_ok_def distinct_map inj_on_def)
  have s: "served ?st h = served st h + (if h = ?h then 1 else 0)" for h by (simp add: served_def)
  have "ticket_fine ?st x" if x: "x \<in> set (mdTickets d')" for x
  proof -
    from x w(3) obtain y where y: "y \<in> set (mdTickets (msDB st))" "x = (if dtHash y = ?h then y\<lparr>dtRedemptions := dtRedemptions y + 1\<rparr> else y)"
      by (auto simp: set_update_where)
    have "ticket_fine st y" using assms(1) y(1) by (simp add: tickets_ok_def list_all_iff)
    with y w(2) same [OF y(1)] wf show ?thesis by (auto simp: ticket_fine_def s)
  qed
  then have "list_all (ticket_fine ?st) (mdTickets (msDB ?st))" by (simp add: list_all_iff)
  moreover have "map dtHash (mdTickets d') = map dtHash (mdTickets (msDB st))"
    unfolding w(3) by (induction "mdTickets (msDB st)" rule: list.induct) (simp_all add: update_where_def)
  then have "distinct (map dtHash (mdTickets (msDB ?st)))" using assms(1) by (simp add: tickets_ok_def)
  moreover have "served ?st h \<le> 5 \<and> (msMinted ?st h = None \<longrightarrow> served ?st h = 0)" for h
    using assms(1) wf wm(2) w(2) s by (auto simp: tickets_ok_def ticket_fine_def)
  moreover have "opens env ?h a" using assms(1,2) by (auto simp: tickets_ok_def)
  ultimately show ?thesis using assms(1) by (auto simp: tickets_ok_def split: if_splits)
qed

lemma tickets_ok_erases:
  assumes "tickets_ok env st"
  shows "tickets_ok env (st\<lparr>msDB := (msDB st)\<lparr>mdTickets := delete_where P (mdTickets (msDB st))\<rparr>\<rparr>)"
proof -
  have "ticket_fine (st\<lparr>msDB := d\<rparr>) t = ticket_fine st t" for d t by (simp add: ticket_fine_def served_def)
  then show ?thesis using assms by (auto simp: tickets_ok_def list_all_iff served_def delete_where_def distinct_map_filter)
qed

lemma tickets_ok_step:
  assumes "media_step env st st'" "tickets_ok env st" "\<And>x. mvMac env x \<noteq> []"
  shows "tickets_ok env st'"
  using assms(1,2)
proof (induction rule: media_step.induct)
  case (ticket_mints attachments now auth a random st v d')
  then show ?case using tickets_ok_mints assms(3) by blast
next
  case (ticket_checks now a token st t r)
  have "opens env (dtHash t) a"
  proof -
    from ticket_checks.hyps(1) obtain h where h: "Verify (mvMac env) (mvSha env) token KindDownload a = Some h" "DownloadTicketByHash h (msDB st) = Some t"
      by (auto simp: ticket_check_def split: option.splits if_splits)
    have "dtHash t = h" using ByHash [OF h(2)] by simp
    with h show ?thesis by (auto simp: opens_def)
  qed
  moreover have "ticket_fine (st\<lparr>msRuns := (msRuns st)(r \<mapsto> TicketChecked t a)\<rparr>) x = ticket_fine st x" for x by (simp add: ticket_fine_def served_def)
  ultimately show ?case using ticket_checks.prems by (auto simp: tickets_ok_def list_all_iff served_def)
next
  case (ticket_redeems st r t a now auth d')
  then show ?case using tickets_ok_redeems by blast
next
  case (erases st gone)
  then show ?case using tickets_ok_erases by blast
qed (erule tickets_untouched; auto simp: upload_methods_keep_tickets split: if_splits)+

lemma tickets_ok_reachable:
  "(media_step env)\<^sup>*\<^sup>* (fresh_media adb) st \<Longrightarrow> (\<And>x. mvMac env x \<noteq> []) \<Longrightarrow> tickets_ok env st"
  by (induction rule: rtranclp_induct) (auto intro: tickets_ok_fresh tickets_ok_step)

text \<open>C11: From an empty server, under any interleaving and across restarts, a download ticket authorises at most five
  reads, and only reads of the attachment it was minted for, unless two inputs with the same HMAC or the same
  SHA-256 are known.\<close>

theorem ticket_serves_five_reads:
  assumes "(media_step env)\<^sup>*\<^sup>* (fresh_media adb) st" "\<And>x. mvMac env x \<noteq> []"
  shows "int (length (filter (\<lambda>x. fst x = h) (msServed st))) \<le> 5 \<and>
    list_all (\<lambda>(h, a). \<exists>b v. msMinted st h = Some (b, v) \<and>
      (a = b \<or> (\<exists>x y. x \<noteq> y \<and> (mvMac env x = mvMac env y \<or> mvSha env x = mvSha env y)))) (msServed st)"
proof -
  have ok: "tickets_ok env st" by (rule tickets_ok_reachable [OF assms])
  have "\<exists>b v. msMinted st h = Some (b, v) \<and> (a = b \<or> (\<exists>x y. x \<noteq> y \<and> (mvMac env x = mvMac env y \<or> mvSha env x = mvSha env y)))"
    if m: "(h, a) \<in> set (msServed st)" for h a
  proof -
    have "served st h \<noteq> 0" using m by (force simp: served_def filter_empty_conv)
    with ok have "msMinted st h \<noteq> None" unfolding tickets_ok_def by metis
    then obtain b v where v: "msMinted st h = Some (b, v)" by auto
    have "opens env h a" using ok m by (auto simp: tickets_ok_def list_all_iff)
    then obtain token where t: "Verify (mvMac env) (mvSha env) token KindDownload a = Some h" by (auto simp: opens_def)
    have vb: "Verify (mvMac env) (mvSha env) v KindDownload b = Some h" using ok v by (auto simp: tickets_ok_def)
    show ?thesis
    proof (cases "token = v")
      case True
      with one_target [OF t [unfolded True] vb] v show ?thesis by blast
    next
      case False
      have "hex_encode (mvSha env token) = hex_encode (mvSha env v)" using VerifyD [OF t] VerifyD [OF vb] by (simp add: HashToken_def)
      with False v show ?thesis by auto
    qed
  qed
  with ok show ?thesis by (auto simp: tickets_ok_def served_def list_all_iff)
qed

text \<open>A presented ticket that is for another attachment, that nobody minted, or whose issuer has been revoked, has
  expired or may not read messages, is refused with the one refusal, and nothing is spent.\<close>

theorem refused_tickets_are_not_spent:
  assumes "KindOf token = Some KindDownload"
    and "Verify (mvMac env) (mvSha env) token KindDownload a = None \<or>
      DownloadTicketByHash (HashToken (mvSha env) token) d = None \<or>
      (\<exists>t. DownloadTicketByHash (HashToken (mvSha env) token) d = Some t \<and>
        \<not> checkIssuingAuthorization now (dtAuthorizationID t) ScopeMessagesRead adb)"
  shows "authoriseDownload env svc now limited a token adb d = (Inl ticketRefused, d)"
  using assms VerifyD [of "mvMac env" "mvSha env" token KindDownload a]
  by (cases "Verify (mvMac env) (mvSha env) token KindDownload a") (auto simp: authoriseDownload_def ticket_check_def)

section \<open>Witnesses\<close>

lemma ticket_serves_five_reads_witness:
  "\<exists>st h. (media_step toy_env)\<^sup>*\<^sup>* (fresh_media toy_authz) st \<and> msServed st = [(h, ''att_1'')] \<and>
    int (length (filter (\<lambda>x. fst x = h) (msServed st))) \<le> 5 \<and> (\<exists>v. msMinted st h = Some (''att_1'', v))"
proof -
  obtain v h where m: "Mint toy_mac id KindDownload ''att_1'' ''n'' = (v, h)" by fastforce
  define t where "t = (download_ticket 0 ''au'' ''att_1'' h)\<lparr>dtRedemptions := 0, dtMaxRedemptions := 5, dtCreatedAtMS := 0\<rparr>"
  let ?s0 = "fresh_media toy_authz"
  define s1 where "s1 = ?s0\<lparr>msDB := \<lparr>mdUploads = [], mdTickets = [t]\<rparr>, msMinted := [h \<mapsto> (''att_1'', v)]\<rparr>"
  define s2 where "s2 = s1\<lparr>msRuns := (msRuns s1)(0 \<mapsto> TicketChecked t ''att_1'')\<rparr>"
  have h: "HashToken (mvSha toy_env) v = h" using m by (auto simp: Mint_def Let_def toy_env_def)
  have mac: "mvMac toy_env x \<noteq> []" for x by (simp add: toy_env_def toy_mac_def)
  have a: "attachments_ticket toy_env (\<lambda>_. True) 0 ''au'' ''att_1'' ''n'' (msDB ?s0) = (Some v, \<lparr>mdUploads = [], mdTickets = [t]\<rparr>)"
    using m by (simp add: attachments_ticket_def toy_fields MintDownloadTicket_def fresh_media_def t_def download_ticket_def downloadMaxRedemptions_def UnixMilli_def Let_def)
  have "media_step toy_env ?s0 (?s0\<lparr>msDB := \<lparr>mdUploads = [], mdTickets = [t]\<rparr>, msMinted := (msMinted ?s0)(HashToken (mvSha toy_env) v \<mapsto> (''att_1'', v))\<rparr>)"
    by (rule ticket_mints [OF a]) (simp_all add: fresh_media_def)
  then have 1: "media_step toy_env ?s0 s1" by (simp add: s1_def h fresh_media_def)
  have "Verify (mvMac toy_env) (mvSha toy_env) v KindDownload ''att_1'' = Some h" using minted_verifies [OF m] by (simp add: toy_fields toy_mac_def)
  then have c: "ticket_check toy_env 0 ''att_1'' v (msAuthz s1) (msDB s1) = Some t"
    using toy_authorized by (simp add: ticket_check_def DownloadTicketByHash_def s1_def fresh_media_def t_def download_ticket_def)
  have 2: "media_step toy_env s1 s2" unfolding s2_def by (rule ticket_checks [OF c]) (simp add: s1_def fresh_media_def)
  obtain d' where "ticket_redeem 0 t (msDB s2) = (Inr ''au'', d')"
    by (simp add: ticket_redeem_def RedeemDownloadTicket_def DownloadTicketByHash_def s2_def s1_def fresh_media_def t_def download_ticket_def UnixMilli_def downloadTokenLife_def)
  then have 3: "media_step toy_env s2 (s2\<lparr>msDB := d', msServed := (dtHash t, ''att_1'') # msServed s2, msRuns := (msRuns s2)(0 := None)\<rparr>)"
    by (intro ticket_redeems) (simp_all add: s2_def)
  define s3 where "s3 = s2\<lparr>msDB := d', msServed := (dtHash t, ''att_1'') # msServed s2, msRuns := (msRuns s2)(0 := None)\<rparr>"
  have run: "(media_step toy_env)\<^sup>*\<^sup>* ?s0 s3" using 1 2 3 [folded s3_def] by (meson converse_rtranclp_into_rtranclp rtranclp.rtrancl_refl)
  have "msServed s3 = [(h, ''att_1'')]" "msMinted s3 h = Some (''att_1'', v)"
    by (simp_all add: s3_def s2_def s1_def fresh_media_def t_def download_ticket_def)
  with run conjunct1 [OF ticket_serves_five_reads [OF run mac, of h]] show ?thesis by blast
qed

lemma refused_tickets_are_not_spent_witness:
  "\<exists>v. authoriseDownload toy_env svc 0 None ''att_2'' v toy_authz \<lparr>mdUploads = [], mdTickets = []\<rparr> = (Inl ticketRefused, \<lparr>mdUploads = [], mdTickets = []\<rparr>) \<and>
    Verify toy_mac id v KindDownload ''att_1'' \<noteq> None"
proof -
  obtain v h where m: "Mint toy_mac id KindDownload ''att_1'' ''n'' = (v, h)" by fastforce
  have "Verify toy_mac id v KindDownload ''att_1'' = Some h" using minted_verifies [OF m] by (simp add: toy_mac_def)
  moreover have "DownloadTicketByHash (HashToken (mvSha toy_env) v) \<lparr>mdUploads = [], mdTickets = []\<rparr> = None" by (simp add: DownloadTicketByHash_def)
  ultimately show ?thesis using refused_tickets_are_not_spent [OF minted_kind [OF m]] by fastforce
qed

end
