(* ===== verification/Media_Cache.thy ===== *)
theory Media_Cache
  imports Paths Media_Tickets "HOL-Library.Product_Lexorder"
begin

text \<open>
  The media cache (\<open>internal/media/cache.go\<close>, \<open>storeindex.go\<close>, \<open>internal/store/media.go\<close>): decrypted bytes on
  disk, one row per file, a budget in bytes for all accounts, and eviction of what was used least recently. The
  disk is a map from full paths to bytes; a write or an unlink that fails is a parameter.
\<close>

section \<open>The table\<close>

record cache_row =
  ceAttachmentID :: string
  ceRelativePath :: string
  ceSizeBytes :: int
  cePinned :: bool
  ceLastUsedMS :: ms

definition PutMediaCacheEntry :: "(string \<Rightarrow> bool) \<Rightarrow> ms \<Rightarrow> cache_row \<Rightarrow> cache_row list \<Rightarrow> cache_row list option" where
  "PutMediaCacheEntry attachments now e rows =
     (if \<not> attachments (ceAttachmentID e) then None
      else if list_ex (\<lambda>r. ceAttachmentID r = ceAttachmentID e) rows
      then Some (update_where (\<lambda>r. ceAttachmentID r = ceAttachmentID e) (\<lambda>r. e\<lparr>ceLastUsedMS := now\<rparr>) rows)
      else Some (rows @ [e\<lparr>ceLastUsedMS := now\<rparr>]))"

definition MediaCacheEntry :: "string \<Rightarrow> cache_row list \<Rightarrow> cache_row option" where
  "MediaCacheEntry i rows = select_one (\<lambda>r. ceAttachmentID r = i) rows"

definition TouchMediaCacheEntry :: "ms \<Rightarrow> string \<Rightarrow> cache_row list \<Rightarrow> cache_row list" where
  "TouchMediaCacheEntry now i rows = update_where (\<lambda>r. ceAttachmentID r = i) (ceLastUsedMS_update (\<lambda>_. now)) rows"

definition SetMediaCachePinned :: "string \<Rightarrow> bool \<Rightarrow> cache_row list \<Rightarrow> cache_row list" where
  "SetMediaCachePinned i pinned rows = update_where (\<lambda>r. ceAttachmentID r = i) (cePinned_update (\<lambda>_. pinned)) rows"

definition MediaCacheBytes :: "cache_row list \<Rightarrow> int" where "MediaCacheBytes rows = sum_list (map ceSizeBytes rows)"

definition lru_key :: "cache_row \<Rightarrow> ms \<times> string" where "lru_key r = (ceLastUsedMS r, ceAttachmentID r)"

definition by_use :: "cache_row list \<Rightarrow> cache_row list" where "by_use rows = sort_key lru_key rows"

definition Unpinned :: "cache_row list \<Rightarrow> cache_row list" where "Unpinned rows = by_use (filter (\<lambda>r. \<not> cePinned r) rows)"

definition index_Delete :: "string \<Rightarrow> cache_row list \<Rightarrow> string \<times> cache_row list" where
  "index_Delete i rows =
     ((case MediaCacheEntry i rows of None \<Rightarrow> [] | Some r \<Rightarrow> ceRelativePath r), delete_where (\<lambda>r. ceAttachmentID r = i) rows)"

text \<open>The sweep inside one transaction: the paths of the rows it deleted.\<close>

fun evict_rows :: "int \<Rightarrow> int \<Rightarrow> cache_row list \<Rightarrow> cache_row list \<Rightarrow> string list \<times> cache_row list" where
  "evict_rows maxBytes remaining [] rows = ([], rows)"
| "evict_rows maxBytes remaining (v # vs) rows =
     (if remaining \<le> maxBytes then ([], rows)
      else case evict_rows maxBytes (remaining - ceSizeBytes v) vs (delete_where (\<lambda>r. ceAttachmentID r = ceAttachmentID v) rows) of
        (ps, rows') \<Rightarrow> (ceRelativePath v # ps, rows'))"

definition EvictMediaCacheLRU :: "int \<Rightarrow> cache_row list \<Rightarrow> string list \<times> cache_row list" where
  "EvictMediaCacheLRU maxBytes rows =
     (if MediaCacheBytes rows \<le> maxBytes then ([], rows) else evict_rows maxBytes (MediaCacheBytes rows) (Unpinned rows) rows)"

text \<open>\<open>account\<close> gives the account of an attachment that exists.\<close>

definition collectMediaPaths :: "(string \<Rightarrow> string option) \<Rightarrow> string \<Rightarrow> cache_row list \<Rightarrow> string list" where
  "collectMediaPaths account accountID rows =
     sort (map ceRelativePath (filter (\<lambda>r. case account (ceAttachmentID r) of None \<Rightarrow> False | Some a \<Rightarrow> accountID = [] \<or> a = accountID) rows))"

section \<open>The cache\<close>

record cache_state =
  csRows :: "cache_row list"
  csDisk :: "string \<rightharpoonup> string"

text \<open>How the accesses of one call turn out: the bytes could be written and renamed into place, the row could be
  read, the file could be read, the row could be written, the file could be unlinked.\<close>

record cache_io =
  ciStages :: bool
  ciRowReads :: bool
  ciFileReads :: bool
  ciRowWrites :: bool
  ciUnlinks :: bool

text \<open>The row is written after the rename. When it is refused - there is no such attachment, or the database failed -
  the file is unlinked, and an unlink that fails is ignored: the bytes then stay, under the row an earlier call may
  have left. \<open>clock\<close> is the store's own, which is what a row's last use is set from; the answer carries the caller's
  \<open>now\<close>. \<open>None\<close> is an error.\<close>

definition cache_Put ::
  "(string \<Rightarrow> string) \<Rightarrow> string \<Rightarrow> (string \<Rightarrow> bool) \<Rightarrow> cache_io \<Rightarrow> ms \<Rightarrow> ms \<Rightarrow> string \<Rightarrow> string \<Rightarrow> cache_state \<Rightarrow> cache_row option \<times> cache_state" where
  "cache_Put sha dir attachments io clock now i data s =
     (let rel = relativePathFor sha i in
      case Resolve dir rel of
        None \<Rightarrow> (None, s)
      | Some full \<Rightarrow>
          if \<not> ciStages io then (None, s)
          else
            (let e = \<lparr>ceAttachmentID = i, ceRelativePath = rel, ceSizeBytes = int (length data), cePinned = False, ceLastUsedMS = now\<rparr>;
                 renamed = (csDisk s)(full \<mapsto> data)
             in case (if ciRowWrites io then PutMediaCacheEntry attachments clock e (csRows s) else None) of
                  None \<Rightarrow> (None, s\<lparr>csDisk := (if ciUnlinks io then renamed(full := None) else renamed)\<rparr>)
                | Some rows \<Rightarrow> (Some e, \<lparr>csRows = rows, csDisk = renamed\<rparr>)))"

datatype cache_answer = CacheHit string | CacheMiss | CacheOutside | CacheFailed

definition cache_Get :: "string \<Rightarrow> cache_io \<Rightarrow> ms \<Rightarrow> string \<Rightarrow> cache_state \<Rightarrow> cache_answer \<times> cache_state" where
  "cache_Get dir io clock i s =
     (if \<not> ciRowReads io then (CacheFailed, s)
      else case MediaCacheEntry i (csRows s) of
        None \<Rightarrow> (CacheMiss, s)
      | Some e \<Rightarrow>
     (case Resolve dir (ceRelativePath e) of
        None \<Rightarrow> (CacheOutside, s)
      | Some full \<Rightarrow>
          if \<not> ciFileReads io then (CacheFailed, s)
          else if \<not> ciRowWrites io then (CacheFailed, s)
          else case csDisk s full of
            None \<Rightarrow> (CacheMiss, s\<lparr>csRows := snd (index_Delete i (csRows s))\<rparr>)
          | Some data \<Rightarrow> (CacheHit data, s\<lparr>csRows := TouchMediaCacheEntry clock i (csRows s)\<rparr>)))"

definition Pin :: "string \<Rightarrow> cache_state \<Rightarrow> cache_state" where "Pin i s = s\<lparr>csRows := SetMediaCachePinned i True (csRows s)\<rparr>"
definition Unpin :: "string \<Rightarrow> cache_state \<Rightarrow> cache_state" where "Unpin i s = s\<lparr>csRows := SetMediaCachePinned i False (csRows s)\<rparr>"

definition remove_file :: "(string \<Rightarrow> bool) \<Rightarrow> string \<Rightarrow> (string \<rightharpoonup> string) \<Rightarrow> (string \<rightharpoonup> string)" where
  "remove_file removable full disk = (if removable full then disk(full := None) else disk)"

text \<open>The answer: the bytes freed, the rows removed, and whether a stored path led outside. The row goes first; a file
  that stays is not an error.\<close>

fun evict_loop ::
  "string \<Rightarrow> (string \<Rightarrow> bool) \<Rightarrow> int \<Rightarrow> int \<Rightarrow> int \<Rightarrow> nat \<Rightarrow> cache_row list \<Rightarrow> cache_state \<Rightarrow> (int \<times> nat \<times> bool) \<times> cache_state" where
  "evict_loop dir removable maxBytes bytes freed removed [] s = ((freed, removed, False), s)"
| "evict_loop dir removable maxBytes bytes freed removed (e # es) s =
     (if bytes - freed \<le> maxBytes then ((freed, removed, False), s)
      else case index_Delete (ceAttachmentID e) (csRows s) of
        (rel, rows) \<Rightarrow>
          (case Resolve dir rel of
             None \<Rightarrow> ((freed, removed, True), s\<lparr>csRows := rows\<rparr>)
           | Some full \<Rightarrow>
               evict_loop dir removable maxBytes bytes (freed + ceSizeBytes e) (removed + 1) es
                 \<lparr>csRows = rows, csDisk = remove_file removable full (csDisk s)\<rparr>))"

definition Evict :: "string \<Rightarrow> (string \<Rightarrow> bool) \<Rightarrow> int \<Rightarrow> cache_state \<Rightarrow> (int \<times> nat \<times> bool) \<times> cache_state" where
  "Evict dir removable maxBytes s =
     (let es = Unpinned (csRows s); bytes = MediaCacheBytes (csRows s) in
      if maxBytes \<le> 0 \<or> bytes \<le> maxBytes then ((0, 0, False), s)
      else evict_loop dir removable maxBytes bytes 0 0 (by_use es) s)"

definition UnlinkAll :: "string \<Rightarrow> (string \<Rightarrow> bool) \<Rightarrow> string list \<Rightarrow> (string \<rightharpoonup> string) \<Rightarrow> (string \<rightharpoonup> string)" where
  "UnlinkAll dir removable paths disk =
     foldl (\<lambda>disk rel. case Resolve dir rel of None \<Rightarrow> disk | Some full \<Rightarrow> remove_file removable full disk) disk paths"

section \<open>Where the files are\<close>

lemma comps_join: "list_all normal cs \<Longrightarrow> cs \<noteq> [] \<Longrightarrow> comps (join_with ''/'' cs) = cs"
proof (induction "''/''" cs rule: join_with.induct)
  case (2 p)
  then show ?case by (simp add: comps_plain normal_def)
next
  case (3 p q ps)
  then have "CHR ''/'' \<notin> set p" by (simp add: normal_def)
  then show ?case using 3 comps_append [of p "join_with ''/'' (q # ps)"] by (simp add: comps_plain)
qed simp

lemma fold_normal: "list_all normal cs \<Longrightarrow> foldl (clean_step r) st cs = rev cs @ st"
  by (induction cs arbitrary: st) (simp_all add: clean_step_plain)

lemma normal_first: "normal p \<Longrightarrow> p \<noteq> [] \<and> hd p \<noteq> CHR ''/''"
  by (cases p) (auto simp: normal_def)

lemma join_first: "cs \<noteq> [] \<Longrightarrow> list_all normal cs \<Longrightarrow> join_with ''/'' cs \<noteq> [] \<and> \<not> is_rooted (join_with ''/'' cs)"
proof (induction "''/''" cs rule: join_with.induct)
  case (2 p)
  then have "p \<noteq> []" "hd p \<noteq> CHR ''/''" using normal_first [of p] by simp_all
  then show ?case by (cases p) (simp_all add: is_rooted_def)
next
  case (3 p q ps)
  then have "p \<noteq> []" "hd p \<noteq> CHR ''/''" using normal_first [of p] by simp_all
  then show ?case by (cases p) (simp_all add: is_rooted_def)
qed simp

lemma Clean_plain: "cs \<noteq> [] \<Longrightarrow> list_all normal cs \<Longrightarrow> Clean (join_with ''/'' cs) = join_with ''/'' cs"
  using join_first [of cs] by (simp add: Clean_def cleaned_def comps_join fold_normal render_def)

lemma Join_dir:
  assumes "is_rooted dir" "cs \<noteq> []" "list_all normal cs"
  shows "Join [dir, join_with ''/'' cs] = CHR ''/'' # join_with ''/'' (rev (cleaned dir) @ cs)"
proof -
  have "dir \<noteq> []" using assms(1) by (auto simp: is_rooted_def)
  then show ?thesis using assms join_first [OF assms(2,3)]
    by (simp add: Join_def Clean_def is_rooted_append cleaned_def comps_append comps_join fold_normal render_def)
qed

lemma Resolve_plain:
  assumes "is_rooted dir" "Clean dir \<noteq> ''/''" "cs \<noteq> []" "list_all normal cs"
  shows "Resolve dir (join_with ''/'' cs) = Some (Clean dir @ ''/'' @ join_with ''/'' cs)"
proof -
  have ne: "dir \<noteq> []" using assms(1) by (auto simp: is_rooted_def)
  have d: "Clean dir = CHR ''/'' # join_with ''/'' (rev (cleaned dir))" using ne assms(1) by (simp add: Clean_def render_def)
  then have D: "rev (cleaned dir) \<noteq> []" using assms(2) by auto
  have "Join [dir, Clean (join_with ''/'' cs)] = Clean dir @ ''/'' @ join_with ''/'' cs"
    using Clean_plain [OF assms(3,4)] Join_dir [OF assms(1,3,4)] join_with_append [OF D assms(3)] d by simp
  then show ?thesis using join_first [OF assms(3,4)] by (simp add: Resolve_def path_prefix_def)
qed

lemma hex_normal: "h \<noteq> [] \<Longrightarrow> set h \<subseteq> set (hex_encode s) \<Longrightarrow> normal h"
proof -
  assume h: "h \<noteq> []" "set h \<subseteq> set (hex_encode s)"
  have "c \<noteq> CHR ''/'' \<and> c \<noteq> CHR ''.''" if "c \<in> set (hex_encode s)" for c
  proof -
    from that obtain x where "x \<in> set s" "c = hex_digit (of_char x div 16) \<or> c = hex_digit (of_char x mod 16)"
      by (auto simp: hex_encode_def)
    moreover have "of_char x div 16 < (16 :: nat)" "of_char x mod 16 < (16 :: nat)"
      using nat_of_char_less_256 [of x] by linarith+
    ultimately obtain n where n: "n < 16" "c = hex_digit n" by blast
    then have "hex_value c = Some n" by (simp add: hex_value_digit)
    then show ?thesis by (auto simp: hex_value_def)
  qed
  with h have "CHR ''/'' \<notin> set h" "CHR ''.'' \<notin> set h" by blast+
  with h(1) show "normal h" by (auto simp: normal_def)
qed

definition file_of :: "(string \<Rightarrow> string) \<Rightarrow> string \<Rightarrow> string \<Rightarrow> string" where
  "file_of sha dir i = (let h = hex_encode (sha i) in Clean dir @ ''/'' @ take 2 h @ ''/'' @ take 2 (drop 2 h) @ ''/'' @ h)"

lemma hex_length: "length (hex_encode s) = 2 * length s"
  by (induction s) (simp_all add: hex_encode_def)

text \<open>An attachment's file is inside the cache, two directories down, and two attachments share one only when their
  digests do.\<close>

lemma Resolve_relativePathFor:
  assumes "is_rooted dir" "Clean dir \<noteq> ''/''" "length (sha i) = 32"
  shows "Resolve dir (relativePathFor sha i) = Some (file_of sha dir i)"
proof -
  let ?h = "hex_encode (sha i)"
  let ?cs = "[take 2 ?h, take 2 (drop 2 ?h), ?h]"
  have l: "length ?h = 64" using assms(3) by (simp add: hex_length)
  have "list_all normal ?cs"
    using hex_normal [of "take 2 ?h" "sha i"] hex_normal [of "take 2 (drop 2 ?h)" "sha i"] hex_normal [of ?h "sha i"] l
      set_take_subset [of 2 ?h] set_take_subset [of 2 "drop 2 ?h"] set_drop_subset [of 2 ?h] by fastforce
  moreover have "relativePathFor sha i = join_with ''/'' ?cs"
  proof -
    have "take 2 ?h \<noteq> []" using l by auto
    then show ?thesis using Clean_plain [OF _ \<open>list_all normal ?cs\<close>] by (simp add: relativePathFor_def Join_def Let_def)
  qed
  ultimately show ?thesis using Resolve_plain [OF assms(1,2), of ?cs] by (simp add: file_of_def Let_def)
qed

lemma file_of_inject:
  assumes "length (sha i) = 32" "length (sha j) = 32"
  shows "file_of sha dir i = file_of sha dir j \<longleftrightarrow> sha i = sha j"
proof
  assume "file_of sha dir i = file_of sha dir j"
  then have "rev (file_of sha dir i) = rev (file_of sha dir j)" by simp
  then have "take 64 (rev (file_of sha dir i)) = take 64 (rev (file_of sha dir j))" by simp
  moreover have "take 64 (rev (file_of sha dir k)) = rev (hex_encode (sha k))" if "length (sha k) = 32" for k
    using that by (simp add: file_of_def Let_def hex_length)
  ultimately show "sha i = sha j" using assms by simp
qed (simp add: file_of_def)

end
