(* ===== verification/Media_Cache_Safety.thy ===== *)
theory Media_Cache_Safety
  imports Media_Cache
begin

text \<open>
  What the media cache promises: an eviction that brings it under its budget, touching nothing pinned and nothing
  used later than what it keeps; the store's own sweep doing the same; and a hit being what was last renamed into
  place there, which is what was last published as long as the files of refused rows can be unlinked.
\<close>

section \<open>The victims\<close>

fun victims :: "int \<Rightarrow> int \<Rightarrow> cache_row list \<Rightarrow> cache_row list" where
  "victims maxBytes b [] = []"
| "victims maxBytes b (e # es) = (if b \<le> maxBytes then [] else e # victims maxBytes (b - ceSizeBytes e) es)"

definition row_ids :: "cache_row list \<Rightarrow> string list" where "row_ids = map ceAttachmentID"

definition minus_rows :: "cache_row list \<Rightarrow> cache_row list \<Rightarrow> cache_row list" where
  "minus_rows rows vs = filter (\<lambda>r. ceAttachmentID r \<notin> set (row_ids vs)) rows"

text \<open>A table as the cache writes it.\<close>

definition cache_table :: "(string \<Rightarrow> string) \<Rightarrow> cache_row list \<Rightarrow> bool" where
  "cache_table sha rows \<longleftrightarrow> distinct (row_ids rows) \<and>
     list_all (\<lambda>r. ceRelativePath r = relativePathFor sha (ceAttachmentID r) \<and> length (sha (ceAttachmentID r)) = 32) rows"

lemma victims_prefix: "\<exists>k \<le> length es. victims m b es = take k es"
proof (induction m b es rule: victims.induct)
  case (2 m b e es)
  then show ?case
    by (cases "b \<le> m") (auto intro: exI [of _ 0] exI [of _ "Suc k" for k])
qed simp

lemma victims_enough: "b - MediaCacheBytes (victims m b es) \<le> m \<or> victims m b es = es"
  by (induction m b es rule: victims.induct) (auto simp: MediaCacheBytes_def algebra_simps)

lemma victims_minimal: "j < length (victims m b es) \<Longrightarrow> m < b - MediaCacheBytes (take j es)"
proof (induction m b es arbitrary: j rule: victims.induct)
  case (2 m b e es)
  then show ?case by (cases j) (auto simp: MediaCacheBytes_def algebra_simps split: if_splits)
qed simp

lemma minus_rows_Nil [simp]: "minus_rows rows [] = rows"
  by (simp add: minus_rows_def row_ids_def)

lemma minus_rows_Cons:
  "minus_rows (delete_where (\<lambda>r. ceAttachmentID r = ceAttachmentID v) rows) vs = minus_rows rows (v # vs)"
  by (simp add: minus_rows_def row_ids_def delete_where_def conj_commute)

lemma evict_rows_eq: "evict_rows m b es rows = (map ceRelativePath (victims m b es), minus_rows rows (victims m b es))"
  by (induction m b es rows rule: evict_rows.induct) (simp_all add: minus_rows_Cons)

lemma select_distinct: "distinct (row_ids rows) \<Longrightarrow> e \<in> set rows \<Longrightarrow> MediaCacheEntry (ceAttachmentID e) rows = Some e"
  by (induction rows) (auto simp: MediaCacheEntry_def row_ids_def)

lemma MediaCacheEntry_delete:
  "i \<noteq> j \<Longrightarrow> MediaCacheEntry i (delete_where (\<lambda>r. ceAttachmentID r = j) rows) = MediaCacheEntry i rows"
  by (induction rows) (auto simp: MediaCacheEntry_def)

lemma UnlinkAll_Cons:
  "Resolve dir p = Some full \<Longrightarrow> UnlinkAll dir removable (p # ps) disk = UnlinkAll dir removable ps (remove_file removable full disk)"
  by (simp add: UnlinkAll_def)

text \<open>The cache's loop deletes the victims one by one; their files go as \<open>UnlinkAll\<close> would remove them.\<close>

lemma evict_loop_eq:
  assumes "distinct (row_ids es)" "\<And>e. e \<in> set es \<Longrightarrow> MediaCacheEntry (ceAttachmentID e) (csRows s) = Some e"
    "\<And>e. e \<in> set es \<Longrightarrow> Resolve dir (ceRelativePath e) \<noteq> None"
  shows "evict_loop dir removable m b freed n es s =
    (let vs = victims m (b - freed) es in
     ((freed + MediaCacheBytes vs, n + length vs, False),
      \<lparr>csRows = minus_rows (csRows s) vs, csDisk = UnlinkAll dir removable (map ceRelativePath vs) (csDisk s)\<rparr>))"
  using assms
proof (induction es arbitrary: freed n s)
  case Nil
  then show ?case by (simp add: MediaCacheBytes_def UnlinkAll_def)
next
  case (Cons e es)
  show ?case
  proof (cases "b - freed \<le> m")
    case True
    then show ?thesis by (simp add: MediaCacheBytes_def UnlinkAll_def)
  next
    case False
    obtain full where full: "Resolve dir (ceRelativePath e) = Some full" using Cons.prems(3) [of e] by auto
    have e: "MediaCacheEntry (ceAttachmentID e) (csRows s) = Some e" using Cons.prems(2) by simp
    let ?s = "\<lparr>csRows = delete_where (\<lambda>r. ceAttachmentID r = ceAttachmentID e) (csRows s), csDisk = remove_file removable full (csDisk s)\<rparr>"
    have "MediaCacheEntry (ceAttachmentID x) (csRows ?s) = Some x" if "x \<in> set es" for x
    proof -
      have "ceAttachmentID x \<noteq> ceAttachmentID e" using Cons.prems(1) that by (metis distinct.simps(2) image_eqI list.map(2) list.set_map row_ids_def)
      then show ?thesis using Cons.prems(2) that by (simp add: MediaCacheEntry_delete)
    qed
    then have "evict_loop dir removable m b (freed + ceSizeBytes e) (n + 1) es ?s =
      (let vs = victims m (b - (freed + ceSizeBytes e)) es in
       ((freed + ceSizeBytes e + MediaCacheBytes vs, n + 1 + length vs, False),
        \<lparr>csRows = minus_rows (csRows ?s) vs, csDisk = UnlinkAll dir removable (map ceRelativePath vs) (csDisk ?s)\<rparr>))"
      using Cons.prems by (intro Cons.IH) (simp_all add: row_ids_def)
    then show ?thesis using False e full
      by (simp add: index_Delete_def Let_def minus_rows_Cons UnlinkAll_Cons MediaCacheBytes_def diff_diff_eq)
  qed
qed

section \<open>The budget\<close>

lemma by_use_twice: "by_use (Unpinned rows) = Unpinned rows"
  by (simp add: by_use_def Unpinned_def sort_key_id_if_sorted)

lemma Unpinned_members: "e \<in> set (Unpinned rows) \<longleftrightarrow> e \<in> set rows \<and> \<not> cePinned e"
  by (auto simp: Unpinned_def by_use_def)

lemma distinct_Unpinned: "distinct (row_ids rows) \<Longrightarrow> distinct (row_ids (Unpinned rows))"
proof -
  assume "distinct (row_ids rows)"
  then have "distinct (map ceAttachmentID (filter (\<lambda>r. \<not> cePinned r) rows))" by (simp add: row_ids_def distinct_map_filter)
  then show ?thesis
    by (simp add: row_ids_def Unpinned_def by_use_def distinct_map)
qed

lemma delete_bytes:
  "distinct (row_ids rows) \<Longrightarrow> v \<in> set rows \<Longrightarrow>
     MediaCacheBytes (delete_where (\<lambda>r. ceAttachmentID r = ceAttachmentID v) rows) = MediaCacheBytes rows - ceSizeBytes v"
proof (induction rows)
  case (Cons r rows)
  have "delete_where (\<lambda>r. ceAttachmentID r = ceAttachmentID v) rows = rows" if "ceAttachmentID v \<notin> set (row_ids rows)"
    using that by (auto simp: delete_where_def row_ids_def image_iff intro!: filter_True)
  with Cons show ?case by (auto simp: MediaCacheBytes_def row_ids_def)
qed simp

lemma minus_rows_bytes:
  "distinct (row_ids rows) \<Longrightarrow> distinct (row_ids vs) \<Longrightarrow> set vs \<subseteq> set rows \<Longrightarrow>
     MediaCacheBytes (minus_rows rows vs) = MediaCacheBytes rows - MediaCacheBytes vs"
proof (induction vs arbitrary: rows)
  case Nil
  then show ?case by (simp add: MediaCacheBytes_def)
next
  case (Cons v vs)
  let ?rows = "delete_where (\<lambda>r. ceAttachmentID r = ceAttachmentID v) rows"
  have d: "distinct (row_ids ?rows)" using Cons.prems(1) by (simp add: row_ids_def delete_where_def distinct_map_filter)
  have "MediaCacheBytes ?rows = MediaCacheBytes rows - ceSizeBytes v"
    using Cons.prems(1,3) by (simp add: delete_bytes)
  moreover have "set vs \<subseteq> set ?rows" using Cons.prems(2,3) by (auto simp: row_ids_def image_iff)
  ultimately show ?case using Cons.IH [OF d] Cons.prems by (simp add: minus_rows_Cons MediaCacheBytes_def row_ids_def)
qed

definition cache_rooted :: "string \<Rightarrow> bool" where "cache_rooted dir \<longleftrightarrow> is_rooted dir \<and> Clean dir \<noteq> ''/''"

lemma cache_table_rows:
  assumes "cache_table sha rows" "cache_rooted dir" "e \<in> set rows"
  shows "MediaCacheEntry (ceAttachmentID e) rows = Some e"
    "Resolve dir (ceRelativePath e) = Some (file_of sha dir (ceAttachmentID e))"
  using assms select_distinct [of rows e] Resolve_relativePathFor [of dir sha "ceAttachmentID e"]
  by (auto simp: cache_table_def cache_rooted_def list_all_iff)

lemma Evict_eq:
  assumes "cache_table sha (csRows s)" "cache_rooted dir" "0 < m"
  shows "Evict dir removable m s =
    (let vs = (if MediaCacheBytes (csRows s) \<le> m then [] else victims m (MediaCacheBytes (csRows s)) (Unpinned (csRows s))) in
     ((MediaCacheBytes vs, length vs, False),
      \<lparr>csRows = minus_rows (csRows s) vs, csDisk = UnlinkAll dir removable (map ceRelativePath vs) (csDisk s)\<rparr>))"
proof (cases "MediaCacheBytes (csRows s) \<le> m")
  case True
  then show ?thesis by (simp add: Evict_def MediaCacheBytes_def UnlinkAll_def)
next
  case False
  have "distinct (row_ids (Unpinned (csRows s)))" using assms(1) by (simp add: cache_table_def distinct_Unpinned)
  then have "evict_loop dir removable m (MediaCacheBytes (csRows s)) 0 0 (Unpinned (csRows s)) s =
    (let vs = victims m (MediaCacheBytes (csRows s) - 0) (Unpinned (csRows s)) in
     ((0 + MediaCacheBytes vs, 0 + length vs, False),
      \<lparr>csRows = minus_rows (csRows s) vs, csDisk = UnlinkAll dir removable (map ceRelativePath vs) (csDisk s)\<rparr>))"
    using cache_table_rows [OF assms(1,2)] by (intro evict_loop_eq) (auto simp: Unpinned_members)
  then show ?thesis using False assms(3) by (simp add: Evict_def by_use_twice Let_def)
qed

text \<open>C21: An eviction takes the unpinned entries in the order of their last use, as few as the budget asks for, and leaves
  the cache within its budget or with nothing unpinned in it.\<close>

theorem eviction_reaches_the_budget:
  assumes "cache_table sha (csRows s)" "cache_rooted dir" "0 < m"
  shows "\<exists>k \<le> length (Unpinned (csRows s)).
    let vs = take k (Unpinned (csRows s)); (answer, s') = Evict dir removable m s in
      answer = (MediaCacheBytes vs, k, False) \<and> csRows s' = minus_rows (csRows s) vs \<and>
      MediaCacheBytes (csRows s') = MediaCacheBytes (csRows s) - MediaCacheBytes vs \<and>
      (MediaCacheBytes (csRows s') \<le> m \<or> Unpinned (csRows s') = []) \<and>
      (\<forall>j < k. m < MediaCacheBytes (csRows s) - MediaCacheBytes (take j vs))"
proof -
  let ?rows = "csRows s" and ?us = "Unpinned (csRows s)"
  define vs where "vs = (if MediaCacheBytes ?rows \<le> m then [] else victims m (MediaCacheBytes ?rows) ?us)"
  have "\<exists>k \<le> length ?us. vs = take k ?us" using victims_prefix [of ?us] by (auto simp: vs_def intro: exI [of _ 0])
  then obtain k where k: "k \<le> length ?us" "vs = take k ?us" by blast
  have d: "distinct (row_ids ?rows)" using assms(1) by (simp add: cache_table_def)
  then have "distinct (row_ids vs)" using distinct_Unpinned [OF d] k(2) by (simp add: row_ids_def take_map [symmetric])
  moreover have "set vs \<subseteq> set ?rows" using k(2) set_take_subset [of k ?us] by (auto simp: Unpinned_members)
  ultimately have bytes: "MediaCacheBytes (minus_rows ?rows vs) = MediaCacheBytes ?rows - MediaCacheBytes vs"
    using minus_rows_bytes [OF d] by blast
  have "MediaCacheBytes (minus_rows ?rows vs) \<le> m \<or> Unpinned (minus_rows ?rows vs) = []"
  proof (cases "MediaCacheBytes ?rows - MediaCacheBytes vs \<le> m")
    case False
    then have "vs = ?us" using victims_enough [of "MediaCacheBytes ?rows" m ?us] by (auto simp: vs_def MediaCacheBytes_def split: if_splits)
    then have "\<forall>e. e \<notin> set (Unpinned (minus_rows ?rows vs))" by (auto simp: Unpinned_members minus_rows_def row_ids_def)
    then show ?thesis by (metis list.set_intros(1) neq_Nil_conv)
  qed (simp add: bytes)
  moreover have "\<forall>j < k. m < MediaCacheBytes ?rows - MediaCacheBytes (take j vs)"
    using victims_minimal [of _ m "MediaCacheBytes ?rows" ?us] k by (auto simp: vs_def take_take min_def split: if_splits)
  ultimately show ?thesis using k bytes Evict_eq [OF assms, of removable] by (intro exI [of _ k]) (simp add: vs_def [symmetric])
qed

text \<open>The sweep of the store and the cache's own take the same entries and the same files.\<close>

theorem evictions_agree:
  assumes "cache_table sha (csRows s)" "cache_rooted dir" "0 < m"
  shows "snd (Evict dir removable m s) =
    (case EvictMediaCacheLRU m (csRows s) of
       (paths, rows) \<Rightarrow> \<lparr>csRows = rows, csDisk = UnlinkAll dir removable paths (csDisk s)\<rparr>)"
  using Evict_eq [OF assms, of removable] by (simp add: EvictMediaCacheLRU_def evict_rows_eq Let_def)

section \<open>What a hit is\<close>

datatype cache_op =
    OpPut "string \<Rightarrow> bool" cache_io ms ms string string
  | OpGet cache_io ms string
  | OpPin string
  | OpUnpin string
  | OpEvict "string \<Rightarrow> bool" int

fun op_id :: "cache_op \<Rightarrow> string set" where
  "op_id (OpPut attachments io clock now i data) = {i}"
| "op_id (OpGet io clock i) = {i}"
| "op_id (OpPin i) = {i}"
| "op_id (OpUnpin i) = {i}"
| "op_id (OpEvict removable m) = {}"

fun cache_step :: "(string \<Rightarrow> string) \<Rightarrow> string \<Rightarrow> cache_state \<Rightarrow> cache_op \<Rightarrow> cache_state" where
  "cache_step sha dir s (OpPut attachments io clock now i data) = snd (cache_Put sha dir attachments io clock now i data s)"
| "cache_step sha dir s (OpGet io clock i) = snd (cache_Get dir io clock i s)"
| "cache_step sha dir s (OpPin i) = Pin i s"
| "cache_step sha dir s (OpUnpin i) = Unpin i s"
| "cache_step sha dir s (OpEvict removable m) = snd (Evict dir removable m s)"

text \<open>The bytes last renamed into place for an attachment; those last published, whose row was accepted too; and
  whether the file of a refused row was unlinked.\<close>

fun last_staged :: "string \<Rightarrow> string option \<Rightarrow> cache_op \<Rightarrow> string option" where
  "last_staged i d (OpPut attachments io clock now j data) = (if j = i \<and> ciStages io then Some data else d)"
| "last_staged i d _ = d"

fun last_published :: "string \<Rightarrow> string option \<Rightarrow> cache_op \<Rightarrow> string option" where
  "last_published i d (OpPut attachments io clock now j data) =
     (if j = i \<and> ciStages io \<and> ciRowWrites io \<and> attachments j then Some data else d)"
| "last_published i d _ = d"

fun refused_unlinked :: "cache_op \<Rightarrow> bool" where
  "refused_unlinked (OpPut attachments io clock now j data) =
     (ciStages io \<and> \<not> (ciRowWrites io \<and> attachments j) \<longrightarrow> ciUnlinks io)"
| "refused_unlinked _ = True"

text \<open>Between two operations: the table is as the cache writes it, and a file holds its attachment's \<open>content\<close>.\<close>

definition cache_inv :: "(string \<Rightarrow> string) \<Rightarrow> string \<Rightarrow> string set \<Rightarrow> (string \<Rightarrow> string option) \<Rightarrow> cache_state \<Rightarrow> bool" where
  "cache_inv sha dir ids content s \<longleftrightarrow> cache_table sha (csRows s) \<and> set (row_ids (csRows s)) \<subseteq> ids \<and>
     (\<forall>i \<in> ids. \<forall>d. csDisk s (file_of sha dir i) = Some d \<longrightarrow> content i = Some d)"

lemma UnlinkAll_le: "UnlinkAll dir removable ps disk \<subseteq>\<^sub>m disk"
proof (induction ps arbitrary: disk)
  case (Cons p ps)
  have "remove_file removable full disk \<subseteq>\<^sub>m disk" for full by (auto simp: remove_file_def map_le_def)
  then show ?case using Cons by (auto simp: UnlinkAll_def split: option.split intro: map_le_trans)
qed (simp add: UnlinkAll_def)

lemma cache_table_update:
  "(\<And>r. ceAttachmentID (f r) = ceAttachmentID r \<and> ceRelativePath (f r) = ceRelativePath r) \<Longrightarrow>
     cache_table sha (update_where P f rows) = cache_table sha rows \<and> row_ids (update_where P f rows) = row_ids rows"
  by (induction rows) (auto simp: cache_table_def row_ids_def)

lemma cache_table_filter: "cache_table sha rows \<Longrightarrow> cache_table sha (filter P rows)"
  by (auto simp: cache_table_def row_ids_def distinct_map_filter list_all_iff)

lemma cache_inv_less:
  assumes "cache_inv sha dir ids content s" "cache_table sha (csRows s')" "set (row_ids (csRows s')) \<subseteq> set (row_ids (csRows s))"
    "csDisk s' \<subseteq>\<^sub>m csDisk s"
  shows "cache_inv sha dir ids content s'"
  using assms by (fastforce simp: cache_inv_def map_le_def dom_def)

lemma PutMediaCacheEntry_table:
  assumes "PutMediaCacheEntry attachments clock e rows = Some rows'" "cache_table sha rows"
    "ceRelativePath e = relativePathFor sha (ceAttachmentID e)" "length (sha (ceAttachmentID e)) = 32"
  shows "cache_table sha rows' \<and> set (row_ids rows') \<subseteq> insert (ceAttachmentID e) (set (row_ids rows))"
proof (cases "list_ex (\<lambda>r. ceAttachmentID r = ceAttachmentID e) rows")
  case True
  then have r: "rows' = update_where (\<lambda>r. ceAttachmentID r = ceAttachmentID e) (\<lambda>r. e\<lparr>ceLastUsedMS := clock\<rparr>) rows"
    using assms(1) by (auto simp: PutMediaCacheEntry_def split: if_splits)
  have "row_ids rows' = row_ids rows" by (simp add: r row_ids_def update_where_def)
  then show ?thesis using assms(2-4) by (auto simp: r cache_table_def list_all_iff set_update_where)
next
  case False
  then have new: "ceAttachmentID e \<notin> ceAttachmentID ` set rows" by (auto simp: list_ex_iff)
  with False show ?thesis using assms by (auto simp: PutMediaCacheEntry_def cache_table_def row_ids_def split: if_splits)
qed

definition keeps_content :: "(string \<Rightarrow> string option \<Rightarrow> cache_op \<Rightarrow> string option) \<Rightarrow> cache_op \<Rightarrow> bool" where
  "keeps_content f q \<longleftrightarrow> f = last_staged \<or> f = last_published \<and> refused_unlinked q"

lemma cache_Put_inv:
  assumes "cache_inv sha dir ids content s" "cache_rooted dir" "inj_on sha ids" "\<And>j. j \<in> ids \<Longrightarrow> length (sha j) = 32" "i \<in> ids"
    "keeps_content f (OpPut attachments io clock now i data)"
  shows "cache_inv sha dir ids (\<lambda>j. f j (content j) (OpPut attachments io clock now i data))
    (snd (cache_Put sha dir attachments io clock now i data s))"
proof -
  have full: "Resolve dir (relativePathFor sha i) = Some (file_of sha dir i)"
    using assms(2,4,5) Resolve_relativePathFor by (simp add: cache_rooted_def)
  have other: "file_of sha dir j = file_of sha dir i \<longleftrightarrow> j = i" if "j \<in> ids" for j
    using assms(3,4,5) that file_of_inject by (auto dest: inj_onD)
  let ?e = "\<lparr>ceAttachmentID = i, ceRelativePath = relativePathFor sha i, ceSizeBytes = int (length data), cePinned = False, ceLastUsedMS = now\<rparr>"
  show ?thesis
  proof (cases "if ciRowWrites io then PutMediaCacheEntry attachments clock ?e (csRows s) else None")
    case None
    then have "\<not> (ciRowWrites io \<and> attachments i)" by (auto simp: PutMediaCacheEntry_def split: if_splits)
    then show ?thesis using assms(1,6) other by (auto simp: cache_Put_def Let_def full None cache_inv_def keeps_content_def)
  next
    case (Some rows)
    then have row: "PutMediaCacheEntry attachments clock ?e (csRows s) = Some rows" "ciRowWrites io" by (auto split: if_splits)
    then have "attachments i" by (auto simp: PutMediaCacheEntry_def split: if_splits)
    then show ?thesis using assms(1,5,6) other row(2) PutMediaCacheEntry_table [OF row(1), of sha] assms(4) [OF assms(5)]
      by (auto simp: cache_Put_def Let_def full row(1) cache_inv_def keeps_content_def)
  qed
qed

lemma cache_Get_inv:
  "cache_inv sha dir ids content s \<Longrightarrow> cache_inv sha dir ids content (snd (cache_Get dir io clock i s))"
  by (auto simp: cache_Get_def index_Delete_def cache_inv_def TouchMediaCacheEntry_def delete_where_def cache_table_filter
      row_ids_def set_update_where split: option.split)
    (auto simp: cache_table_update)

lemma cache_pin_inv:
  "cache_inv sha dir ids content s \<Longrightarrow> cache_inv sha dir ids content (Pin i s) \<and> cache_inv sha dir ids content (Unpin i s)"
  by (auto simp: Pin_def Unpin_def SetMediaCachePinned_def cache_inv_def cache_table_update)

lemma Evict_inv:
  assumes "cache_inv sha dir ids content s" "cache_rooted dir"
  shows "cache_inv sha dir ids content (snd (Evict dir removable m s))"
proof (cases "0 < m")
  case True
  have "cache_table sha (csRows s)" using assms(1) by (simp add: cache_inv_def)
  with Evict_eq [OF _ assms(2) True, of sha s removable] show ?thesis
    by (intro cache_inv_less [OF assms(1)])
      (auto simp: Let_def UnlinkAll_le minus_rows_def cache_table_filter row_ids_def)
next
  case False
  with assms(1) show ?thesis by (simp add: Evict_def)
qed

lemma cache_step_inv:
  assumes "cache_inv sha dir ids content s" "cache_rooted dir" "inj_on sha ids" "\<And>j. j \<in> ids \<Longrightarrow> length (sha j) = 32" "op_id q \<subseteq> ids"
    "keeps_content f q"
  shows "cache_inv sha dir ids (\<lambda>j. f j (content j) q) (cache_step sha dir s q)"
proof (cases q)
  case (OpPut attachments io clock now i data)
  with assms cache_Put_inv [OF assms(1-3), of i] show ?thesis by simp
qed (use assms cache_Get_inv cache_pin_inv Evict_inv in \<open>auto simp: keeps_content_def\<close>)

lemma cache_run_inv:
  assumes "cache_inv sha dir ids content s" "cache_rooted dir" "inj_on sha ids" "\<And>j. j \<in> ids \<Longrightarrow> length (sha j) = 32"
    "\<And>q. q \<in> set qs \<Longrightarrow> op_id q \<subseteq> ids \<and> keeps_content f q"
  shows "cache_inv sha dir ids (\<lambda>j. foldl (f j) (content j) qs) (foldl (cache_step sha dir) s qs)"
  using assms(1,5)
proof (induction qs arbitrary: content s)
  case (Cons q qs)
  have "cache_inv sha dir ids (\<lambda>j. f j (content j) q) (cache_step sha dir s q)"
    using Cons.prems by (intro cache_step_inv assms(2-4)) simp_all
  then show ?case using Cons.IH Cons.prems(2) by simp
qed simp

lemma cache_hit_content:
  assumes "cache_inv sha dir ids content s" "cache_rooted dir" "i \<in> ids" "fst (cache_Get dir io clock i s) = CacheHit data"
  shows "content i = Some data"
proof -
  obtain e full where e: "MediaCacheEntry i (csRows s) = Some e" "Resolve dir (ceRelativePath e) = Some full" "csDisk s full = Some data"
    using assms(4) by (auto simp: cache_Get_def split: option.splits if_splits)
  have "e \<in> set (csRows s)" "ceAttachmentID e = i" using select_one_SomeD [OF e(1) [unfolded MediaCacheEntry_def]] by simp_all
  then have "full = file_of sha dir i" using assms(1) cache_table_rows(2) [OF _ assms(2)] e(2) by (auto simp: cache_inv_def)
  then show ?thesis using assms(1,3) e(3) by (simp add: cache_inv_def)
qed

text \<open>C22: Whatever was put, read, pinned and evicted since the start, one call after the other, with renames, row writes
  and unlinks that may fail at every call: a hit is the bytes last renamed into place for that attachment and for no
  other. When in addition the file of every refused row could be unlinked, it is the bytes last published for it: those
  of the last call to \<open>Put\<close> that succeeded. \<open>sha\<close> stands for SHA-256, of which only the attachments of the run matter.\<close>

theorem cache_hit_is_last_put:
  assumes "cache_rooted dir" "inj_on sha (insert i (\<Union>(op_id ` set ops)))" "\<And>j. j \<in> insert i (\<Union>(op_id ` set ops)) \<Longrightarrow> length (sha j) = 32"
    "fst (cache_Get dir io clock i (foldl (cache_step sha dir) \<lparr>csRows = [], csDisk = Map.empty\<rparr> ops)) = CacheHit data"
  shows "foldl (last_staged i) None ops = Some data \<and>
    (list_all refused_unlinked ops \<longrightarrow> foldl (last_published i) None ops = Some data)"
proof -
  let ?ids = "insert i (\<Union>(op_id ` set ops))" and ?s = "foldl (cache_step sha dir) \<lparr>csRows = [], csDisk = Map.empty\<rparr> ops"
  have "cache_inv sha dir ?ids (\<lambda>j. None) \<lparr>csRows = [], csDisk = Map.empty\<rparr>"
    by (simp add: cache_inv_def cache_table_def row_ids_def)
  then have inv: "cache_inv sha dir ?ids (\<lambda>j. foldl (f j) None ops) ?s" if "\<And>q. q \<in> set ops \<Longrightarrow> keeps_content f q" for f
    using that assms(1-3) by (intro cache_run_inv) auto
  have "keeps_content last_published q" if "list_all refused_unlinked ops" "q \<in> set ops" for q
    using that by (simp add: keeps_content_def list_all_iff)
  then show ?thesis
    using cache_hit_content [OF inv [of last_staged] assms(1) _ assms(4)] cache_hit_content [OF inv [of last_published] assms(1) _ assms(4)]
    by (auto simp: keeps_content_def)
qed

text \<open>And what was just published is a hit.\<close>

lemma PutMediaCacheEntry_reads:
  assumes "PutMediaCacheEntry attachments clock e rows = Some rows'"
  shows "MediaCacheEntry (ceAttachmentID e) rows' = Some (e\<lparr>ceLastUsedMS := clock\<rparr>)"
proof -
  have "MediaCacheEntry (ceAttachmentID e) (rows @ [e\<lparr>ceLastUsedMS := clock\<rparr>]) = Some (e\<lparr>ceLastUsedMS := clock\<rparr>)"
    if "\<not> list_ex (\<lambda>r. ceAttachmentID r = ceAttachmentID e) rows"
    using that by (induction rows) (auto simp: MediaCacheEntry_def)
  moreover have "MediaCacheEntry (ceAttachmentID e) (update_where (\<lambda>r. ceAttachmentID r = ceAttachmentID e) (\<lambda>r. e\<lparr>ceLastUsedMS := clock\<rparr>) rows) =
      Some (e\<lparr>ceLastUsedMS := clock\<rparr>)" if "list_ex (\<lambda>r. ceAttachmentID r = ceAttachmentID e) rows"
    using that by (induction rows) (auto simp: MediaCacheEntry_def)
  ultimately show ?thesis using assms by (auto simp: PutMediaCacheEntry_def split: if_splits)
qed

theorem put_then_hit:
  assumes "cache_Put sha dir attachments io clock now i data s = (Some e, s')" "ciRowReads io'" "ciFileReads io'" "ciRowWrites io'"
  shows "fst (cache_Get dir io' clock' i s') = CacheHit data"
  using assms PutMediaCacheEntry_reads
  by (fastforce simp: cache_Put_def cache_Get_def Let_def split: option.splits if_splits)

section \<open>A concrete cache\<close>

definition ex_sha :: "string \<Rightarrow> string" where "ex_sha s = take 32 (s @ replicate 32 CHR 0x00)"

definition io_ok :: cache_io where
  "io_ok = \<lparr>ciStages = True, ciRowReads = True, ciFileReads = True, ciRowWrites = True, ciUnlinks = True\<rparr>"

definition ex_cache_ops :: "cache_op list" where
  "ex_cache_ops =
     [OpPut (\<lambda>_. True) io_ok 10 10 ''a'' ''old'', OpPut (\<lambda>_. True) io_ok 20 20 ''b'' ''other'', OpPut (\<lambda>_. True) io_ok 30 30 ''a'' ''new'',
      OpPut (\<lambda>_. True) io_ok 40 40 ''c'' ''pinned'', OpPin ''c'', OpEvict (\<lambda>_. True) 10,
      OpPut (\<lambda>_. True) (io_ok\<lparr>ciStages := False\<rparr>) 45 45 ''a'' ''lost'',
      OpPut (\<lambda>_. True) (io_ok\<lparr>ciRowWrites := False\<rparr>) 46 46 ''b'' ''refused'']"

definition ex_cache :: cache_state where
  "ex_cache = foldl (cache_step ex_sha ''/data/media-cache'') \<lparr>csRows = [], csDisk = Map.empty\<rparr> (take 5 ex_cache_ops)"

lemma ex_sha_length: "length (ex_sha s) = 32"
  by (simp add: ex_sha_def)

lemma ex_rooted: "cache_rooted ''/data/media-cache''"
  by code_simp

lemma ex_inj: "inj_on ex_sha (insert ''a'' (\<Union>(op_id ` set ex_cache_ops)))"
  by (auto simp: ex_cache_ops_def ex_sha_def)

theorem cache_hit_is_last_put_witness:
  "foldl (last_staged ''a'') None ex_cache_ops = Some ''new'' \<and> foldl (last_published ''a'') None ex_cache_ops = Some ''new''"
proof -
  have "fst (cache_Get ''/data/media-cache'' io_ok 50 ''a'' (foldl (cache_step ex_sha ''/data/media-cache'') \<lparr>csRows = [], csDisk = Map.empty\<rparr> ex_cache_ops)) = CacheHit ''new''"
    by code_simp
  moreover have "list_all refused_unlinked ex_cache_ops" by code_simp
  ultimately show ?thesis using cache_hit_is_last_put [OF ex_rooted ex_inj ex_sha_length, of io_ok 50 "''new''"] by blast
qed

text \<open>Without the unlink the hit is not what was published: the row of the first call leads to the bytes of the second,
  whose own row the database refused.\<close>

lemma unpublished_bytes_under_the_old_row:
  defines "ops \<equiv> [OpPut (\<lambda>_. True) io_ok 10 10 ''a'' ''old'', OpPut (\<lambda>_. True) (io_ok\<lparr>ciRowWrites := False, ciUnlinks := False\<rparr>) 20 20 ''a'' ''refused'']"
  shows "fst (cache_Get ''/data/media-cache'' io_ok 50 ''a'' (foldl (cache_step ex_sha ''/data/media-cache'') \<lparr>csRows = [], csDisk = Map.empty\<rparr> ops)) =
      CacheHit ''refused'' \<and> foldl (last_published ''a'') None ops = Some ''old''"
  unfolding ops_def by (rule conjI; code_simp)

lemma ex_cache_table: "cache_table ex_sha (csRows ex_cache)"
proof -
  have "cache_inv ex_sha ''/data/media-cache'' (insert ''a'' (\<Union>(op_id ` set ex_cache_ops)))
      (\<lambda>j. foldl (last_staged j) None (take 5 ex_cache_ops)) ex_cache"
    unfolding ex_cache_def
  proof (rule cache_run_inv [OF _ ex_rooted ex_inj ex_sha_length])
    show "op_id q \<subseteq> insert ''a'' (\<Union>(op_id ` set ex_cache_ops)) \<and> keeps_content last_staged q" if "q \<in> set (take 5 ex_cache_ops)" for q
      using in_set_takeD [OF that] by (auto simp: keeps_content_def)
  qed (simp add: cache_inv_def cache_table_def row_ids_def)
  then show ?thesis by (simp add: cache_inv_def)
qed

text \<open>Three rows, the one used last pinned, fourteen bytes; a budget of ten takes the row used first.\<close>

theorem eviction_reaches_the_budget_witness:
  "map ceAttachmentID (take 1 (Unpinned (csRows ex_cache))) = [''b''] \<and>
     MediaCacheBytes (csRows (snd (Evict ''/data/media-cache'' (\<lambda>_. True) 10 ex_cache))) = 9"
proof -
  obtain k where k: "k \<le> length (Unpinned (csRows ex_cache))"
    "let vs = take k (Unpinned (csRows ex_cache)); (answer, s') = Evict ''/data/media-cache'' (\<lambda>_. True) 10 ex_cache in
      answer = (MediaCacheBytes vs, k, False) \<and> csRows s' = minus_rows (csRows ex_cache) vs \<and>
      MediaCacheBytes (csRows s') = MediaCacheBytes (csRows ex_cache) - MediaCacheBytes vs \<and>
      (MediaCacheBytes (csRows s') \<le> 10 \<or> Unpinned (csRows s') = []) \<and>
      (\<forall>j < k. 10 < MediaCacheBytes (csRows ex_cache) - MediaCacheBytes (take j vs))"
    using eviction_reaches_the_budget [OF ex_cache_table ex_rooted, of 10 "\<lambda>_. True"] by auto
  have "fst (Evict ''/data/media-cache'' (\<lambda>_. True) 10 ex_cache) = (5, 1, False)" by code_simp
  with k(2) have "k = 1" by (auto simp: Let_def split: prod.splits)
  moreover have "map ceAttachmentID (take 1 (Unpinned (csRows ex_cache))) = [''b'']" by code_simp
  moreover have "MediaCacheBytes (csRows ex_cache) = 14" "MediaCacheBytes (take 1 (Unpinned (csRows ex_cache))) = 5" by code_simp+
  ultimately show ?thesis using k(2) by (auto simp: Let_def split: prod.splits)
qed

theorem evictions_agree_witness:
  "row_ids (csRows (snd (Evict ''/data/media-cache'' (\<lambda>_. True) 10 ex_cache))) = [''a'', ''c'']"
proof -
  have "row_ids (snd (EvictMediaCacheLRU 10 (csRows ex_cache))) = [''a'', ''c'']" by code_simp
  then show ?thesis by (simp add: evictions_agree [OF ex_cache_table ex_rooted] split: prod.split) auto
qed

theorem put_then_hit_witness:
  "fst (cache_Get ''/data/media-cache'' io_ok 9
      (''x'') (snd (cache_Put ex_sha ''/data/media-cache'' (\<lambda>_. True) io_ok 7 7 ''x'' ''bytes'' ex_cache))) = CacheHit ''bytes''"
proof -
  have "fst (cache_Put ex_sha ''/data/media-cache'' (\<lambda>_. True) io_ok 7 7 ''x'' ''bytes'' ex_cache) \<noteq> None" by code_simp
  then obtain e s' where "cache_Put ex_sha ''/data/media-cache'' (\<lambda>_. True) io_ok 7 7 ''x'' ''bytes'' ex_cache = (Some e, s')"
    by (cases "cache_Put ex_sha ''/data/media-cache'' (\<lambda>_. True) io_ok 7 7 ''x'' ''bytes'' ex_cache") auto
  from put_then_hit [OF this, of io_ok] this show ?thesis by (simp add: io_ok_def)
qed

end
