(* ===== verification/Media_Serving.thy ===== *)
theory Media_Serving
  imports Media_Downloads Media_Cache_Safety Messages
begin

text \<open>
  Attachments as they are served (\<open>internal/api/media.go\<close>, \<open>content.go\<close>): the metadata with its digest and its
  ticket, and the bytes, from the cache or from Google. What the concurrency limiter, the account's engine, the
  sealed key and Google answer is a parameter of each request, and so is whether each access to the cache and the write
  of a digest to its row work; when they do not, the code logs it and goes on.
\<close>

section \<open>The bytes\<close>

record bytes_env =
  bvCacheDir :: "string option"
  bvExists :: "string \<Rightarrow> bool"
  bvGet :: cache_io
  bvPut :: cache_io
  bvDigestRow :: bool
  bvAcquire :: "string \<Rightarrow> api_error option"
  bvEngine :: "string \<Rightarrow> api_error option"
  bvOpenKey :: "string \<Rightarrow> string \<Rightarrow> api_error + string"
  bvDownload :: "string \<Rightarrow> string \<Rightarrow> string \<Rightarrow> api_error + string"

definition media_pending :: "att_row \<Rightarrow> api_error" where
  "media_pending a = UnsupportedCapability ReasonMediaPending (arID a) ''download'' ''download_state'' (AnyString (arDownloadState a))"

text \<open>From Google: a slot, the account's engine, the key, the download.\<close>

definition fetch_bytes :: "bytes_env \<Rightarrow> string \<Rightarrow> att_row \<Rightarrow> api_error + string" where
  "fetch_bytes bv auth a =
     (if arDownloadState a \<noteq> DownloadStateAvailable then Inl (media_pending a)
      else case bvAcquire bv auth of
        Some e \<Rightarrow> Inl e
      | None \<Rightarrow>
     (case bvEngine bv (arAccountID a) of
        Some e \<Rightarrow> Inl e
      | None \<Rightarrow>
     (case (if scanString (arDecryptionKey a) = [] then Inr [] else bvOpenKey bv (arID a) (scanString (arDecryptionKey a))) of
        Inl e \<Rightarrow> Inl e
      | Inr key \<Rightarrow> bvDownload bv (arAccountID a) (scanString (arMediaID a)) key)))"

definition cached_bytes :: "bytes_env \<Rightarrow> ms \<Rightarrow> string \<Rightarrow> cache_state \<Rightarrow> string option \<times> cache_state" where
  "cached_bytes bv clock i s =
     (case bvCacheDir bv of
        None \<Rightarrow> (None, s)
      | Some dir \<Rightarrow> (case cache_Get dir (bvGet bv) clock i s of (CacheHit data, s') \<Rightarrow> (Some data, s') | (_, s') \<Rightarrow> (None, s')))"

definition keep_bytes :: "(string \<Rightarrow> string) \<Rightarrow> bytes_env \<Rightarrow> ms \<Rightarrow> string \<Rightarrow> string \<Rightarrow> cache_state \<Rightarrow> cache_state" where
  "keep_bytes sha bv clock i data s =
     (case bvCacheDir bv of
        None \<Rightarrow> s
      | Some dir \<Rightarrow> snd (cache_Put sha dir (bvExists bv) (bvPut bv) clock clock i data s))"

definition attachmentBytes ::
  "(string \<Rightarrow> string) \<Rightarrow> bytes_env \<Rightarrow> ms \<Rightarrow> string \<Rightarrow> att_row \<Rightarrow> cache_state \<Rightarrow> (api_error + string) \<times> cache_state" where
  "attachmentBytes sha bv clock auth a s =
     (case cached_bytes bv clock (arID a) s of
        (Some data, s') \<Rightarrow> (Inr data, s')
      | (None, s') \<Rightarrow>
         (case fetch_bytes bv auth a of
            Inl e \<Rightarrow> (Inl e, s')
          | Inr data \<Rightarrow> (Inr data, keep_bytes sha bv clock (arID a) data s')))"

section \<open>The digest\<close>

text \<open>The digest or the reason why there is none; a digest that was computed is kept on the row when that write works.\<close>

definition attachmentDigest ::
  "(string \<Rightarrow> string) \<Rightarrow> bytes_env \<Rightarrow> int \<Rightarrow> ms \<Rightarrow> string \<Rightarrow> att_row \<Rightarrow> db \<times> cache_state \<Rightarrow> (string \<times> string) \<times> db \<times> cache_state" where
  "attachmentDigest sha bv cacheMax clock auth a s =
     (if scanString (arSHA256 a) \<noteq> [] then ((scanString (arSHA256 a), []), s)
      else if arDownloadState a \<noteq> DownloadStateAvailable then (([], ''bytes_unavailable''), s)
      else if cacheMax < scanInt (arSizeBytes a) then (([], ''larger_than_cache_budget''), s)
      else case attachmentBytes sha bv clock auth a (snd s) of
        (Inl e, c) \<Rightarrow> (([], if apiCode e = CodeRateLimited then ''download_budget_exhausted'' else ''bytes_unavailable''), fst s, c)
      | (Inr data, c) \<Rightarrow>
          ((media_SHA256 sha data, []),
           (if bvDigestRow bv then SetAttachmentDownloadState (arID a) (arDownloadState a) (media_SHA256 sha data) (fst s) else fst s), c))"

section \<open>GET /v1/attachments/{id}\<close>

record attachment_dto =
  adAttachmentID :: string
  adAccountID :: string
  adFilename :: "string option"
  adMimeType :: string
  adSize :: int
  adSHA256 :: "string option"
  adSHA256Available :: bool
  adSHA256UnavailableReason :: "string option"
  adWidth :: "int option"
  adHeight :: "int option"
  adDownloadState :: string
  adInline :: bool
  adResourceURI :: string
  adDownloadURL :: string
  adToken :: string
  adTokenAudience :: string
  adExpiresAtMS :: ms
  adMaxRedemptions :: int
  adCurl :: string

definition downloadURL :: "media_env \<Rightarrow> string \<Rightarrow> string" where
  "downloadURL env i = mvBaseURL env @ ''/v1/attachments/'' @ mvEscape env i @ ''/content''"

definition attachmentDTO :: "media_env \<Rightarrow> ns \<Rightarrow> int \<Rightarrow> att_row \<Rightarrow> string \<Rightarrow> string \<Rightarrow> string \<Rightarrow> attachment_dto" where
  "attachmentDTO env now inlineMax a dg reason token =
     \<lparr>adAttachmentID = arID a, adAccountID = arAccountID a, adFilename = nullString (scanString (arFilename a)),
      adMimeType = scanString (arMimeType a), adSize = scanInt (arSizeBytes a), adSHA256 = nullString dg,
      adSHA256Available = (dg \<noteq> []), adSHA256UnavailableReason = nullString reason, adWidth = nullInt (scanInt (arWidth a)),
      adHeight = nullInt (scanInt (arHeight a)), adDownloadState = arDownloadState a,
      adInline = (starts_with ''image/'' (scanString (arMimeType a)) \<and> scanInt (arSizeBytes a) \<le> inlineMax),
      adResourceURI = ''agm://attachments/'' @ arID a, adDownloadURL = downloadURL env (arID a), adToken = token,
      adTokenAudience = Audience KindDownload (arID a), adExpiresAtMS = UnixMilli (now + downloadTokenLife * Millisecond),
      adMaxRedemptions = downloadMaxRedemptions,
      adCurl = CurlDownload (downloadURL env (arID a)) token (scanString (arFilename a))\<rparr>"

text \<open>\<open>attachment\<close>: the row that the path names.\<close>

definition attachment_of :: "string \<Rightarrow> db \<Rightarrow> api_error + att_row" where
  "attachment_of i d =
     (case CheckIDPrefix i ''attachment_id'' PrefixAttachment of
        Some e \<Rightarrow> Inl e
      | None \<Rightarrow> (case select_one (\<lambda>a. arID a = i) (dbAttachments d) of None \<Rightarrow> Inl (NotFound ''attachment'') | Some a \<Rightarrow> Inr a))"

definition attachmentsGet ::
  "media_env \<Rightarrow> bytes_env \<Rightarrow> int \<Rightarrow> int \<Rightarrow> ns \<Rightarrow> string \<Rightarrow> string \<Rightarrow> string \<Rightarrow> db \<times> cache_state \<times> media_db \<Rightarrow>
    (api_error + (attachment_dto \<times> string list) option) \<times> db \<times> cache_state \<times> media_db" where
  "attachmentsGet env bv cacheMax inlineMax now auth i random s =
     (case attachment_of i (fst s) of
        Inl e \<Rightarrow> (Inl e, s)
      | Inr a \<Rightarrow>
     (case attachmentDigest (mvSha env) bv cacheMax (UnixMilli now) auth a (fst s, fst (snd s)) of
        ((dg, reason), d', c') \<Rightarrow>
     (case attachments_ticket env (\<lambda>j. \<exists>r \<in> set (dbAttachments d'). arID r = j) now auth (arID a) random (snd (snd s)) of
        (None, m') \<Rightarrow> (Inr None, d', c', m')
      | (Some token, m') \<Rightarrow>
          (Inr (Some (attachmentDTO env now inlineMax a dg reason token,
             if reason = [] then [] else [SHA256UnavailableWarning reason])), d', c', m'))))"

section \<open>GET /v1/attachments/{id}/content\<close>

record content_response =
  crContentType :: string
  crContentDisposition :: string
  crContentSecurityPolicy :: string
  crContentLength :: nat
  crBody :: string

definition ContentSecurityPolicy :: string where
  "ContentSecurityPolicy = ''default-src 'none'; sandbox; frame-ancestors 'none'; base-uri 'none'' @ [quote_char]"

definition content_of :: "media_env \<Rightarrow> att_row \<Rightarrow> string \<Rightarrow> content_response" where
  "content_of env a data =
     \<lparr>crContentType = ServedContentType (mvLow env) (scanString (arMimeType a)),
      crContentDisposition = contentDisposition (scanString (arFilename a)), crContentSecurityPolicy = ContentSecurityPolicy,
      crContentLength = length data, crBody = data\<rparr>"

text \<open>What follows once the credential was accepted, on behalf of \<open>auth\<close>.\<close>

definition serve_bytes ::
  "media_env \<Rightarrow> bytes_env \<Rightarrow> ms \<Rightarrow> string \<Rightarrow> string \<Rightarrow> db \<Rightarrow> cache_state \<Rightarrow> (api_error + content_response) \<times> cache_state" where
  "serve_bytes env bv clock auth i d s =
     (case select_one (\<lambda>a. arID a = i) (dbAttachments d) of
        None \<Rightarrow> (Inl (NotFound ''attachment''), s)
      | Some a \<Rightarrow>
          if arDownloadState a \<noteq> DownloadStateAvailable then (Inl (media_pending a), s)
          else (case attachmentBytes (mvSha env) bv clock auth a s of
            (Inl e, s') \<Rightarrow> (Inl e, s')
          | (Inr data, s') \<Rightarrow> (Inr (content_of env a data), s')))"

definition attachmentContent ::
  "media_env \<Rightarrow> bytes_env \<Rightarrow> service \<Rightarrow> ns \<Rightarrow> int option \<Rightarrow> string \<Rightarrow> string \<Rightarrow> authz_db \<Rightarrow> db \<Rightarrow> media_db \<times> cache_state \<Rightarrow>
    (api_error + content_response) \<times> media_db \<times> cache_state" where
  "attachmentContent env bv svc now limited i token adb d s =
     (case CheckIDPrefix i ''attachment_id'' PrefixAttachment of
        Some e \<Rightarrow> (Inl e, s)
      | None \<Rightarrow>
          if token = [] then (Inl (InvalidToken ''no Authorization header''), s)
          else case authoriseDownload env svc now limited i token adb (fst s) of
            (Inl e, m') \<Rightarrow> (Inl e, m', snd s)
          | (Inr auth, m') \<Rightarrow>
              (case serve_bytes env bv (UnixMilli now) auth i d (snd s) of (r, c') \<Rightarrow> (r, m', c')))"

section \<open>The digest is of what is served\<close>

lemma MediaCacheEntry_touch:
  "MediaCacheEntry j (TouchMediaCacheEntry clock i rows) =
     map_option (\<lambda>r. if j = i then r\<lparr>ceLastUsedMS := clock\<rparr> else r) (MediaCacheEntry j rows)"
  by (induction rows) (auto simp: MediaCacheEntry_def TouchMediaCacheEntry_def)

definition io_reads :: "cache_io \<Rightarrow> bool" where
  "io_reads io \<longleftrightarrow> ciRowReads io \<and> ciFileReads io \<and> ciRowWrites io"

lemma hit_again:
  "cache_Get dir io clock i s = (CacheHit data, s') \<Longrightarrow> io_reads io' \<Longrightarrow> fst (cache_Get dir io' clock' i s') = CacheHit data"
  by (auto simp: cache_Get_def io_reads_def MediaCacheEntry_touch split: option.splits if_splits)

lemma cached_bytes_kept:
  assumes "attachmentBytes sha bv clock auth a s = (Inr data, s')" "bvCacheDir bv = Some dir" "cache_rooted dir"
    "ciStages (bvPut bv)" "ciRowWrites (bvPut bv)" "bvExists bv (arID a)" "length (sha (arID a)) = 32"
    "bvCacheDir bv' = Some dir" "io_reads (bvGet bv')"
  shows "fst (cached_bytes bv' clock' (arID a) s') = Some data"
proof -
  have "fst (cache_Get dir (bvGet bv') clock' (arID a) s') = CacheHit data"
  proof (cases "cached_bytes bv clock (arID a) s")
    case (Pair r s1)
    show ?thesis
    proof (cases r)
      case (Some x)
      with assms(1,2) Pair have "cache_Get dir (bvGet bv) clock (arID a) s = (CacheHit data, s')"
        by (auto simp: attachmentBytes_def cached_bytes_def split: prod.splits cache_answer.splits)
      then show ?thesis using assms(9) by (rule hit_again)
    next
      case None
      with assms(1,2) Pair have s': "s' = snd (cache_Put sha dir (bvExists bv) (bvPut bv) clock clock (arID a) data s1)"
        by (auto simp: attachmentBytes_def keep_bytes_def split: sum.splits)
      have "\<exists>e. fst (cache_Put sha dir (bvExists bv) (bvPut bv) clock clock (arID a) data s1) = Some e"
        using assms(3-7) Resolve_relativePathFor [of dir sha "arID a"]
        by (auto simp: cache_Put_def cache_rooted_def PutMediaCacheEntry_def Let_def)
      then obtain e where "cache_Put sha dir (bvExists bv) (bvPut bv) clock clock (arID a) data s1 = (Some e, s')"
        using s' by (metis prod.collapse)
      then show ?thesis using assms(9) by (intro put_then_hit) (simp_all add: io_reads_def)
    qed
  qed
  then show ?thesis using assms(8) by (auto simp: cached_bytes_def split: prod.splits)
qed

lemma media_SHA256_nonempty: "length (sha data) = 32 \<Longrightarrow> media_SHA256 sha data \<noteq> []"
  using hex_length [of "sha data"] by (auto simp: media_SHA256_def)

lemma attachmentDigest_computes:
  assumes "attachmentDigest sha bv cacheMax clock auth a (d, s) = ((dg, []), d', s')" "arSHA256 a = None"
  obtains data where "arDownloadState a = DownloadStateAvailable" "attachmentBytes sha bv clock auth a s = (Inr data, s')"
    "dg = media_SHA256 sha data"
    "d' = (if bvDigestRow bv then SetAttachmentDownloadState (arID a) (arDownloadState a) dg d else d)"
proof (cases "attachmentBytes sha bv clock auth a s")
  case (Pair r c)
  with assms that show ?thesis by (cases r) (auto simp: attachmentDigest_def split: if_splits)
qed

lemma select_digest:
  assumes "select_one (\<lambda>r. arID r = i) (dbAttachments d) = Some a" "dg \<noteq> []"
  shows "\<exists>a'. select_one (\<lambda>r. arID r = i) (dbAttachments (SetAttachmentDownloadState i st dg d)) = Some a' \<and>
    arSHA256 a' = Some dg \<and> arDownloadState a' = st \<and> arID a' = i"
proof -
  have "select_one (\<lambda>r. arID r = i) rows = Some a \<Longrightarrow>
      \<exists>a'. select_one (\<lambda>r. arID r = i) (update_where (\<lambda>r. arID r = i) (\<lambda>r. r\<lparr>arDownloadState := st, arSHA256 := Some dg\<rparr>) rows) = Some a' \<and>
        arSHA256 a' = Some dg \<and> arDownloadState a' = st \<and> arID a' = i" for rows
    by (induction rows) (auto split: if_splits)
  with assms show ?thesis by (simp add: SetAttachmentDownloadState_def nullString_def coalesce_def)
qed

text \<open>C26: A digest that is computed for an attachment whose row has none is the digest of what the bytes route serves
  next, whatever Google, the limiter or the engine would answer by then - provided the bytes could be kept (there is a
  cache, the file could be renamed into place and its row written) and the next request can read them there. The digest
  is then on the attachment's row exactly when that write worked.\<close>

theorem digest_is_of_what_is_served:
  assumes "bvCacheDir bv = Some dir" "cache_rooted dir" "ciStages (bvPut bv)" "ciRowWrites (bvPut bv)" "bvExists bv (arID a)"
    "\<And>x. length (mvSha env x) = 32"
    "select_one (\<lambda>r. arID r = arID a) (dbAttachments d) = Some a" "arSHA256 a = None"
    "attachmentDigest (mvSha env) bv cacheMax clock auth a (d, s) = ((dg, []), d', s')"
    "bvCacheDir bv' = Some dir" "io_reads (bvGet bv')"
  shows "\<exists>r s''. serve_bytes env bv' clock' auth' (arID a) d' s' = (Inr r, s'') \<and> media_SHA256 (mvSha env) (crBody r) = dg \<and>
    (\<exists>a'. select_one (\<lambda>r. arID r = arID a) (dbAttachments d') = Some a' \<and> arSHA256 a' = (if bvDigestRow bv then Some dg else None))"
proof -
  obtain data where b: "arDownloadState a = DownloadStateAvailable" "attachmentBytes (mvSha env) bv clock auth a s = (Inr data, s')"
    "dg = media_SHA256 (mvSha env) data"
    "d' = (if bvDigestRow bv then SetAttachmentDownloadState (arID a) (arDownloadState a) dg d else d)"
    by (rule attachmentDigest_computes [OF assms(9,8)])
  have dg: "dg \<noteq> []" using media_SHA256_nonempty [of "mvSha env" data] assms(6) by (simp add: b(3))
  obtain a' where row: "select_one (\<lambda>r. arID r = arID a) (dbAttachments d') = Some a'"
    "arSHA256 a' = (if bvDigestRow bv then Some dg else None)" "arDownloadState a' = arDownloadState a" "arID a' = arID a"
    using select_digest [OF assms(7) dg] assms(7,8) unfolding b(4) by (cases "bvDigestRow bv") auto
  obtain s'' where "cached_bytes bv' clock' (arID a) s' = (Some data, s'')"
    using cached_bytes_kept [OF b(2) assms(1-6,10,11), of clock'] by (metis prod.collapse)
  then have "attachmentBytes (mvSha env) bv' clock' auth' a' s' = (Inr data, s'')" by (simp add: attachmentBytes_def row(4))
  then have "serve_bytes env bv' clock' auth' (arID a) d' s' = (Inr (content_of env a' data), s'')"
    by (simp add: serve_bytes_def row(1,3) b(1))
  moreover have "media_SHA256 (mvSha env) (crBody (content_of env a' data)) = dg" by (simp add: content_of_def b(3))
  ultimately show ?thesis using row(1,2) by blast
qed

section \<open>A concrete attachment\<close>

definition ex_att :: att_row where
  "ex_att = \<lparr>arID = ''att_1'', arAccountID = ''acct_1'', arMessageID = ''msg_1'', arPartIndex = 0, arMediaID = Some ''m'', arThumbnailMediaID = None,
     arDecryptionKey = None, arFilename = Some ''a.png'', arMimeType = Some ''image/png'', arMediaFormat = None, arSizeBytes = Some 5,
     arWidth = None, arHeight = None, arDownloadState = ''available'', arSHA256 = None\<rparr>"

definition ex_db :: db where
  "ex_db = \<lparr>dbAccounts = [''acct_1''], dbConversations = [], dbParticipants = [], dbContacts = [], dbMessages = [], dbAttachments = [ex_att], dbReactions = [], dbOperations = []\<rparr>"

definition ex_bytes :: "string option \<Rightarrow> bytes_env" where
  "ex_bytes answer = \<lparr>bvCacheDir = Some ''/data/media-cache'', bvExists = (\<lambda>i. i = ''att_1''), bvGet = io_ok, bvPut = io_ok, bvDigestRow = True, bvAcquire = (\<lambda>_. None),
     bvEngine = (\<lambda>_. None), bvOpenKey = (\<lambda>_ _. Inr []),
     bvDownload = (\<lambda>_ _ _. case answer of None \<Rightarrow> Inl (NotFound ''attachment'') | Some data \<Rightarrow> Inr data)\<rparr>"

definition ex_env :: media_env where
  "ex_env = \<lparr>mvMac = toy_mac, mvSha = ex_sha, mvLow = id, mvDetect = (\<lambda>_. OctetStream), mvTable = Map.empty, mvStaging = ''/data/staging'',
     mvBaseURL = ''https://gm.example'', mvEscape = id\<rparr>"

text \<open>The first request hashes what Google sends; Google then has nothing, and the bytes are still served.\<close>

theorem digest_is_of_what_is_served_witness:
  "\<exists>dg d s r s'. attachmentDigest ex_sha (ex_bytes (Some ''bytes'')) 100 7 ''au'' ex_att (ex_db, \<lparr>csRows = [], csDisk = Map.empty\<rparr>) = ((dg, []), d, s) \<and>
     serve_bytes ex_env (ex_bytes None) 8 ''au'' ''att_1'' d s = (Inr r, s') \<and> media_SHA256 ex_sha (crBody r) = dg"
proof -
  have sha: "mvSha ex_env = ex_sha" by (simp add: ex_env_def)
  obtain dg reason d s where dg: "attachmentDigest ex_sha (ex_bytes (Some ''bytes'')) 100 7 ''au'' ex_att (ex_db, \<lparr>csRows = [], csDisk = Map.empty\<rparr>) = ((dg, reason), d, s)"
    by (metis prod.exhaust)
  have "snd (fst (attachmentDigest ex_sha (ex_bytes (Some ''bytes'')) 100 7 ''au'' ex_att (ex_db, \<lparr>csRows = [], csDisk = Map.empty\<rparr>))) = []"
    by code_simp
  then have r: "reason = []" by (simp add: dg)
  have id: "arID ex_att = ''att_1''" by (simp add: ex_att_def)
  show ?thesis
    using digest_is_of_what_is_served [of "ex_bytes (Some ''bytes'')" "''/data/media-cache''" ex_att ex_env ex_db 100 7 "''au''" _ dg d s "ex_bytes None" 8 "''au''"]
      dg r ex_rooted ex_sha_length
    unfolding sha id by (fastforce simp: ex_bytes_def ex_db_def ex_att_def io_ok_def io_reads_def)
qed

end
