(* ===== verification/Spec2Isabelle.thy ===== *)
theory Spec2Isabelle
  imports Delivery Api_Errors Normalize Op_Pipeline Ingest Supervisor_Parked Authz_Runs Limits_Runs Oauth_Screen Settings_Runs
    Media_Example Media_Serving
begin

text \<open>
  A verification development for \<open>agent-gm\<close>, a server that holds Google Messages sessions, keeps their
  messages in SQLite and offers them over REST, MCP and a command line. Sources are under \<open>src/\<close>.

  \<^bold>\<open>The program's parts.\<close> The library boundary (\<open>internal/gm\<close>) turns the events and errors of the messaging
  library into the repository's own vocabulary. The supervisor (\<open>internal/accounts\<close>) decides which accounts
  run, and publishes state changes. The ingester (\<open>internal/core/ingest.go\<close>) writes what the phone sends
  into the store (\<open>internal/store\<close>). The mutation pipeline (\<open>internal/core/operations.go\<close>) sends on behalf
  of a caller, at most once per idempotency key. The API (\<open>internal/api\<close>, \<open>internal/apierr\<close>) reads the store
  page by page and reports errors. The credential service (\<open>internal/authz\<close>) mints, rotates and revokes the
  tokens every request presents, and the OAuth server (\<open>internal/oauth\<close>) lets a connector get one: the owner
  issues an enrollment code, the connector's page redeems it for a request, the owner decides.

  \<^bold>\<open>How code is modelled.\<close> A Go struct is a record, a nullable column an option, a Go \<open>int64\<close> an \<open>int\<close> with
  the wrap-around written out where the code can reach it, a byte string a \<^typ>\<open>string\<close>. A table is a list
  of rows with its unique and foreign-key rules checked on insert; a transaction is a function on the tables
  that either changes them or leaves them. Errors are values. What comes from outside, the clock, random
  identifiers, hashes, the messaging library and its answers, is an argument (a record such as \<open>pipe_env\<close>,
  \<open>ing_env\<close>, \<open>sup_env\<close>, \<open>authz_env\<close>, \<open>oauth_env\<close>); what a theorem needs of it is a hypothesis, and its witness runs the
  theorem with a concrete instance. Where requests interleave, the parts of a request that run between two
  accesses to shared state are separate definitions, and an inductive step relation runs them in any order.

  \<^bold>\<open>Theories, sources and results.\<close>

  \<^descr> \<open>Agm_Prelude\<close>: rows of tables (\<open>select_one\<close>, \<open>update_where\<close>), nullable columns, time units, and
    the lemmas shared by all.
  \<^descr> \<open>Delivery\<close>: \<open>internal/gm/delivery.go\<close>, \<open>types.go\<close>. The delivery-state machine; its table is exact.
  \<^descr> \<open>Go_Errors\<close>, \<open>Gm_Errors\<close>, \<open>Api_Errors\<close>: Go error values (\<open>errors.Is\<close>, \<open>errors.As\<close>),
    \<open>internal/gm/errors.go\<close>, \<open>internal/apierr\<close>. Every classified error reaches the API with its own code,
    and the vocabulary is closed.
  \<^descr> \<open>Utf8\<close>, \<open>Normalize\<close>: Go's UTF-8 decoding and \<open>internal/apierr/normalize.go\<close>.
  \<^descr> \<open>Operations\<close>: \<open>internal/store/operations.go\<close>. The operations table as a step relation: its
    invariant, finality of outcomes, recovery, the reaper and the sweep.
  \<^descr> \<open>Json\<close>: canonical JSON, the request fingerprint; a round trip, and equal fingerprints mean equal values.
  \<^descr> \<open>Op_Pipeline\<close>: \<open>internal/core/operations.go\<close>, \<open>recovery.go\<close>. At most one library call per key under
    interleaving and crashes; the sequential pipeline refines the interleaved one.
  \<^descr> \<open>Ids\<close>, \<open>Messages\<close>, \<open>Contacts\<close>: \<open>internal/store/ids.go\<close>, \<open>messages.go\<close>, \<open>attachments.go\<close>, \<open>reactions.go\<close>,
    \<open>contacts.go\<close>. Replays that write nothing, delivery states that do not return, exact links from participants to
    contacts.
  \<^descr> \<open>Ingest\<close>: \<open>internal/core/ingest.go\<close> and echo correlation; ingestion is a run of store methods.
  \<^descr> \<open>Codec\<close>, \<open>Cursor\<close>, \<open>Keyset\<close>, \<open>Listing\<close>, \<open>Api_Reads\<close>: \<open>internal/store/cursor.go\<close>, \<open>queries.go\<close>,
    \<open>internal/api/params.go\<close>, \<open>reads.go\<close>, \<open>internal/core/accounts.go\<close>. Signed cursors, filters and pages:
    a client that follows the tokens meets each message exactly once and reaches the end.
  \<^descr> \<open>Account_State\<close>, \<open>Account_Rows\<close>, \<open>Supervisor\<close>, \<open>Supervisor_Feed\<close>, \<open>Supervisor_Slots\<close>,
    \<open>Supervisor_Parked\<close>: \<open>internal/accounts/state.go\<close>, \<open>supervisor.go\<close>, \<open>lifecycle.go\<close>,
    \<open>internal/store/accounts.go\<close>. A state change is read, write and announcement, and only each of
    the three is atomic (\<open>feed_step\<close>): a subscriber is told every state unless two changes of one account overlap, and
    then can be left with a wrong one. The number of running accounts is capped. A parked account does not run; its
    client is connected only when the library reconnected it after pairing or a cookie refresh did. Free slots are
    taken when the saves and listings that takes succeed and no other re-evaluation is under way.
  \<^descr> \<open>Scopes\<close>, \<open>Limits\<close>, \<open>Limits_Runs\<close>, \<open>Authz\<close>, \<open>Authz_Rows\<close>, \<open>Authz_Safety\<close>, \<open>Authz_Runs\<close>: \<open>internal/authz\<close>,
    \<open>internal/store/authz.go\<close> and the authorization codes of \<open>internal/store/oauth.go\<close>. Guessing is bounded by
    the durable limiters: a wrong credential is checked for and counted in separate steps, and what \<open>m\<close> overlapping
    attempts can add to the limit is part of the bound; work in flight is bounded by the concurrency limiters. Every request reads and decides, then
    commits; under any interleaving of the two halves scopes never widen, credentials are redeemed once, and
    reuse, replay, revocation and a changed secret end a session for good; a spent token does so at either
    endpoint, an unspent one at the wrong endpoint does nothing.
  \<^descr> \<open>Oauth_Store\<close>, \<open>Oauth_Server\<close>, \<open>Oauth_Owner\<close>: the protocol tables of \<open>internal/store/oauth.go\<close>, then
    \<open>internal/oauth\<close>: redirects, registration, the screen and its submission; enrollment codes, decisions,
    clients, the waiting page and the token endpoint. \<open>Oauth_Runs\<close>, \<open>Oauth_Chain\<close>, \<open>Oauth_Steps\<close>: all requests
    with their reads and commits apart as the step relation \<open>oauth_step\<close>, the invariant \<open>oauth_ok\<close> that ties enrollment codes,
    requests, approvals, codes and sessions together, and that every step keeps it. (Removal of a client is a
    step of \<open>oauth_step\<close> only: it deletes codes, which no step of the credential service alone does.)
    \<open>Oauth_Example\<close> is one enrollment on concrete values. \<open>Oauth_Safety\<close>: one code leads to at most one session,
    which has what the owner approved; decisions are final. \<open>Oauth_Screen\<close>: the page comes back as sent, is no
    oracle for codes (an expired one leaves a row in the shared audit log and nothing else that differs), and a code
    needs all of its bindings.
  \<^descr> \<open>Durations\<close>, \<open>Settings\<close>, \<open>Settings_Safety\<close>, \<open>Settings_Runs\<close>: \<open>internal/settings\<close>, \<open>internal/store/settings.go\<close> and
    the handlers of \<open>internal/api/admin.go\<close>. Durations with days print and read back; no effective value is out
    of bounds; a refused patch changes nothing and an accepted one is what is read; the upload limit never
    passes its default, and only falls unless patches overlap (\<open>settings_step\<close>).

  \<^descr> \<open>Paths\<close>, \<open>Media_Tickets\<close>, \<open>Media_Store\<close>, \<open>Media_Uploads\<close>, \<open>Media_Cache\<close>, \<open>Media_Serving\<close>: \<open>internal/media\<close>,
    \<open>internal/store/media.go\<close>, \<open>internal/gm/media.go\<close> and the handlers of \<open>internal/api/media.go\<close>, \<open>content.go\<close>.
    \<open>Media_Steps\<close> runs the handlers in any order (\<open>media_step\<close>); \<open>Media_Safety\<close>, \<open>Media_Downloads\<close>: an upload leaves
    once and verified, a ticket is served five times and for its own target; \<open>Media_Race\<close>, \<open>Media_Example\<close>: what two
    fills with one ticket can do, and a run on concrete values. \<open>Media_Cache_Safety\<close>, \<open>Media_Serving\<close>: an eviction
    reaches the budget, a hit is what was last renamed into place, and what was last published unless the file of a
    refused row could not be unlinked; a digest is of what is served next as long as the bytes
    could be kept; no path leads out of the cache.

  \<^bold>\<open>Interfaces.\<close> \<open>Keyset\<close> states what a listing promises a paging client as a locale, interpreted on the
  store's listings; the other locales of the development are interpreted on the model in the theory of the
  component that provides them.

  \<^bold>\<open>Bounds and fuel.\<close> Loops of the source are structural recursion or \<open>function\<close> with a measure. JSON is
  printed and parsed by structural recursion on the value and by the length of the text; a page walk is
  fuelled, and the theorem that it reaches the end gives enough fuel; \<open>rebalance\<close> is bounded by the number
  of accounts, which it never exceeds because no account is tried twice.

  \<^bold>\<open>Not modelled.\<close> The HTTP, MCP and command-line layers, their rendering and schemas; the adapter to the
  messaging library, which only converts types and calls it; TLS, files, logging and process start;
  in-memory token buckets, which compute in floating point (their answer is an argument); resolving a
  client's address from proxy headers; SQL itself beyond the statements used, and that a statement may fail
  except where an argument says whether it does; erasing an account.
\<close>

end
